(* ===== verification/Prelude.thy ===== *)
theory Prelude
  imports Main
begin

text \<open>
  Shared vocabulary of the development.

  \<^item> JavaScript values: a time stamp (\<open>Date.now()\<close>) and every other number the modelled code
    computes with is an exact integer, so it is an \<open>int\<close> (or a \<open>nat\<close> where it is a size).
    \<open>undefined\<close> and \<open>null\<close> are \<open>None\<close>.
  \<^item> \<open>Map\<close>: an association list in insertion order with distinct keys (\<open>jm_wf\<close>). The order
    matters: \<open>keys().next().value\<close> is the oldest key, and \<open>set\<close> on a key that is present keeps
    its position. Deleting while iterating visits every remaining entry once, so the
    \<open>for ... of\<close> sweeps of the sources are filters.
  \<^item> \<open>ordered_map\<close>: the interface the caches and limiters use of such a map, with the
    capacity lemmas proved once from its laws.
  \<^item> \<open>reach\<close> and \<open>invariant_system\<close>: reachable states of a component whose operations may be
    called in any order, and the invariant rule.
  \<^item> \<open>Set\<close>: a list without repetition in insertion order (\<open>set_add\<close>, \<open>set_of\<close>). JSON values are \<open>json\<close>;
    strings are \<open>string\<close>, with \<open>trim\<close>, decimal numerals and \<open>join\<close> as the sources use them.
\<close>

named_theorems jm_simps \<open>rewrite rules for the insertion-ordered map\<close>

type_synonym ('k, 'v) jsmap = "('k \<times> 'v) list"

section \<open>JSON values, strings and sets\<close>

datatype json =
    JNull
  | JBool bool
  | JNum int
  | JStr string
  | JArr "json list"
  | JObj "(string \<times> json) list"

fun json_field :: "json \<Rightarrow> string \<Rightarrow> json option" where
  "json_field (JObj fs) k = map_of fs k"
| "json_field _ _ = None"

text \<open>The white space \<open>String.prototype.trim\<close> removes, as far as it fits a \<open>char\<close>.\<close>

definition js_space :: "char \<Rightarrow> bool" where
  "js_space c \<longleftrightarrow> of_char c \<in> {9, 10, 11, 12, 13, 32, 160 :: nat}"

definition js_trim :: "string \<Rightarrow> string" where
  "js_trim s = rev (dropWhile js_space (rev (dropWhile js_space s)))"

fun nat_string :: "nat \<Rightarrow> string" where
  "nat_string n =
     (if n < 10 then [char_of (48 + n)] else nat_string (n div 10) @ [char_of (48 + n mod 10)])"

declare nat_string.simps [simp del]

fun join_strings :: "string \<Rightarrow> string list \<Rightarrow> string" where
  "join_strings sep [] = []"
| "join_strings sep [x] = x"
| "join_strings sep (x # y # xs) = x @ sep @ join_strings sep (y # xs)"

lemma join_Cons: "ws \<noteq> [] \<Longrightarrow> join_strings sep (w # ws) = w @ sep @ join_strings sep ws"
  by (cases ws) auto

lemma join_append:
  "as \<noteq> [] \<Longrightarrow> bs \<noteq> [] \<Longrightarrow> join_strings sep (as @ bs) = join_strings sep as @ sep @ join_strings sep bs"
proof (induction as)
  case (Cons a as)
  then show ?case by (cases "as = []") (auto simp: join_Cons)
qed simp

definition starts_with :: "string \<Rightarrow> string \<Rightarrow> bool" where
  "starts_with p s \<longleftrightarrow> take (length p) s = p"

definition ends_with :: "string \<Rightarrow> string \<Rightarrow> bool" where
  "ends_with p s \<longleftrightarrow> starts_with (rev p) (rev s)"

text \<open>\<open>s.split(/\s+/)\<close>: a leading or trailing separator gives an empty first or last part.\<close>

function split_spaces :: "string \<Rightarrow> string list" where
  "split_spaces s =
     takeWhile (\<lambda>c. \<not> js_space c) s #
     (case dropWhile (\<lambda>c. \<not> js_space c) s of
        [] \<Rightarrow> []
      | c # r \<Rightarrow> split_spaces (dropWhile js_space r))"
  by pat_completeness auto
termination
proof (relation "measure length", goal_cases)
  case (2 s c r)
  have "length (dropWhile js_space r) \<le> length r" by (rule length_dropWhile_le)
  also have "\<dots> < length (dropWhile (\<lambda>c. \<not> js_space c) s)" using 2 by simp
  also have "\<dots> \<le> length s" by (rule length_dropWhile_le)
  finally show ?case by simp
qed simp

declare split_spaces.simps [simp del]

fun first_some :: "('a \<Rightarrow> 'b option) \<Rightarrow> 'a list \<Rightarrow> 'b option" where
  "first_some f [] = None"
| "first_some f (x # xs) = (case f x of Some y \<Rightarrow> Some y | None \<Rightarrow> first_some f xs)"

definition set_add :: "'a list \<Rightarrow> 'a \<Rightarrow> 'a list" where
  "set_add xs x = (if x \<in> set xs then xs else xs @ [x])"

definition set_of :: "'a list \<Rightarrow> 'a list" where
  "set_of xs = foldl set_add [] xs"

definition ascii_lower :: "char \<Rightarrow> char" where
  "ascii_lower c = (let n = of_char c :: nat in if 65 \<le> n \<and> n \<le> 90 then char_of (n + 32) else c)"

definition ascii_upper :: "char \<Rightarrow> char" where
  "ascii_upper c = (let n = of_char c :: nat in if 97 \<le> n \<and> n \<le> 122 then char_of (n - 32) else c)"

text \<open>\<open>UPDATE ... SET ... WHERE\<close> on the rows of a table.\<close>

definition update_where :: "('r \<Rightarrow> bool) \<Rightarrow> ('r \<Rightarrow> 'r) \<Rightarrow> 'r list \<Rightarrow> 'r list" where
  "update_where p f rows = map (\<lambda>r. if p r then f r else r) rows"

definition ascii_digit :: "char \<Rightarrow> bool" where
  "ascii_digit c = (let n = of_char c :: nat in 48 \<le> n \<and> n \<le> 57)"

section \<open>The insertion-ordered map\<close>

definition jm_get :: "('k, 'v) jsmap \<Rightarrow> 'k \<Rightarrow> 'v option" where
  "jm_get m k = map_of m k"

definition jm_has :: "('k, 'v) jsmap \<Rightarrow> 'k \<Rightarrow> bool" where
  "jm_has m k = (jm_get m k \<noteq> None)"

fun jm_set :: "('k, 'v) jsmap \<Rightarrow> 'k \<Rightarrow> 'v \<Rightarrow> ('k, 'v) jsmap" where
  "jm_set [] k v = [(k, v)]"
| "jm_set ((k', v') # m) k v = (if k' = k then (k, v) # m else (k', v') # jm_set m k v)"

definition jm_delete :: "('k, 'v) jsmap \<Rightarrow> 'k \<Rightarrow> ('k, 'v) jsmap" where
  "jm_delete m k = filter (\<lambda>(k', _). k' \<noteq> k) m"

definition jm_sweep :: "('k \<Rightarrow> 'v \<Rightarrow> bool) \<Rightarrow> ('k, 'v) jsmap \<Rightarrow> ('k, 'v) jsmap" where
  "jm_sweep stale m = filter (\<lambda>(k, v). \<not> stale k v) m"

definition jm_oldest :: "('k, 'v) jsmap \<Rightarrow> 'k option" where
  "jm_oldest m = (case m of [] \<Rightarrow> None | (k, _) # _ \<Rightarrow> Some k)"

definition jm_drop_oldest :: "('k, 'v) jsmap \<Rightarrow> ('k, 'v) jsmap" where
  "jm_drop_oldest m = (case jm_oldest m of None \<Rightarrow> m | Some k \<Rightarrow> jm_delete m k)"

text \<open>
  \<open>jm_make_room\<close> is the eviction block the caches and limiters repeat: at capacity, sweep the
  stale entries; still at capacity, drop the oldest key.
\<close>

definition jm_make_room :: "('k \<Rightarrow> 'v \<Rightarrow> bool) \<Rightarrow> nat \<Rightarrow> ('k, 'v) jsmap \<Rightarrow> ('k, 'v) jsmap" where
  "jm_make_room stale cap m =
     (let m1 = (if cap \<le> length m then jm_sweep stale m else m)
      in if cap \<le> length m1 then jm_drop_oldest m1 else m1)"

definition jm_wf :: "('k, 'v) jsmap \<Rightarrow> bool" where
  "jm_wf m = distinct (map fst m)"

text \<open>Reachability under a step relation, for the components whose operations interleave freely.\<close>

inductive reach :: "('s \<Rightarrow> bool) \<Rightarrow> ('s \<Rightarrow> 's \<Rightarrow> bool) \<Rightarrow> 's \<Rightarrow> bool"
  for init :: "'s \<Rightarrow> bool" and step :: "'s \<Rightarrow> 's \<Rightarrow> bool" where
  reach_init: "init s \<Longrightarrow> reach init step s"
| reach_step: "reach init step s \<Longrightarrow> step s t \<Longrightarrow> reach init step t"

text \<open>Reflexive-transitive runs, used to speak of what holds between two operations.\<close>

inductive steps :: "('s \<Rightarrow> 's \<Rightarrow> bool) \<Rightarrow> 's \<Rightarrow> 's \<Rightarrow> bool" for step :: "'s \<Rightarrow> 's \<Rightarrow> bool" where
  steps_refl: "steps step s s"
| steps_step: "steps step s t \<Longrightarrow> step t u \<Longrightarrow> steps step s u"

text \<open>
  What a webhook handler does with a deduplication cache: reserve the key of a delivery, run the
  handler, and on success finalize the key, on failure release it. A delivery is the time it
  arrives, the time its handler ends and whether it succeeded. \<open>deliver_count\<close> runs the deliveries
  of one key one after the other and counts the handlers that were run to success.
\<close>

type_synonym delivery = "int \<times> int \<times> bool"

fun deliver_count ::
  "(int \<Rightarrow> 's \<Rightarrow> 'k \<Rightarrow> bool \<times> 's) \<Rightarrow> ('s \<Rightarrow> 'k \<Rightarrow> 's) \<Rightarrow> (int \<Rightarrow> 's \<Rightarrow> 'k \<Rightarrow> 's) \<Rightarrow> 's \<Rightarrow> 'k \<Rightarrow>
     delivery list \<Rightarrow> nat" where
  "deliver_count reserve release finish s k [] = 0"
| "deliver_count reserve release finish s k ((t, t', success) # ds) =
     (case reserve t s k of (accepted, s1) \<Rightarrow>
        if \<not> accepted then deliver_count reserve release finish s1 k ds
        else if success then Suc (deliver_count reserve release finish (finish t' s1 k) k ds)
        else deliver_count reserve release finish (release s1 k) k ds)"

section \<open>Lemmas on sets and strings\<close>

lemma set_set_add [simp]: "set (set_add xs x) = insert x (set xs)"
  by (auto simp: set_add_def)

lemma distinct_set_add [simp]: "distinct xs \<Longrightarrow> distinct (set_add xs x)"
  by (auto simp: set_add_def)

lemma set_foldl_set_add: "set (foldl set_add acc xs) = set acc \<union> set xs"
  by (induction xs arbitrary: acc) auto

lemma set_set_of [simp]: "set (set_of xs) = set xs"
  by (simp add: set_of_def set_foldl_set_add)

lemma distinct_foldl_set_add: "distinct acc \<Longrightarrow> distinct (foldl set_add acc xs)"
  by (induction xs arbitrary: acc) auto

lemma distinct_set_of [simp]: "distinct (set_of xs)"
  by (simp add: set_of_def distinct_foldl_set_add)

lemma set_of_Nil_iff [simp]: "set_of xs = [] \<longleftrightarrow> xs = []"
  using set_set_of [of xs] by (metis set_empty)

lemma starts_with_append [simp]: "starts_with p (p @ s)"
  by (simp add: starts_with_def)

lemma starts_with_refl [simp]: "starts_with s s"
  by (simp add: starts_with_def)

lemma starts_with_iff: "starts_with p s \<longleftrightarrow> (\<exists>t. s = p @ t)"
  unfolding starts_with_def by (metis append_take_drop_id append_eq_conv_conj)

lemma list_all2_update_where:
  "(\<And>r. R r r) \<Longrightarrow> (\<And>r. p r \<Longrightarrow> R r (f r)) \<Longrightarrow> list_all2 R rows (update_where p f rows)"
  by (auto simp: update_where_def list_all2_conv_all_nth)

lemma map_update_where:
  "(\<And>r. r \<in> set rows \<Longrightarrow> p r \<Longrightarrow> k (f r) = k r) \<Longrightarrow> map k (update_where p f rows) = map k rows"
  by (auto simp: update_where_def)

lemma set_update_where: "r \<in> set (update_where p f rows) \<longleftrightarrow> (\<exists>x \<in> set rows. r = (if p x then f x else x))"
  by (auto simp: update_where_def)

lemma update_where_gone:
  assumes "r \<in> set (update_where p f rows)" "\<And>x. p x \<Longrightarrow> \<not> q (f x)" "q r"
  shows "\<not> p r \<and> r \<in> set rows"
  using assms unfolding set_update_where by metis

lemma first_some_in: "first_some f xs = Some y \<Longrightarrow> \<exists>x \<in> set xs. f x = Some y"
  by (induction xs) (auto split: option.splits)

lemma first_some_None: "first_some f xs = None \<longleftrightarrow> (\<forall>x \<in> set xs. f x = None)"
  by (induction xs) (auto split: option.splits)

lemma first_some_skip: "(\<And>a. a \<in> set as \<Longrightarrow> f a = None) \<Longrightarrow> f x = Some y \<Longrightarrow> first_some f (as @ x # bs) = Some y"
  by (induction as) auto

lemma first_some_split:
  "first_some f xs = Some y \<Longrightarrow> \<exists>as x bs. xs = as @ x # bs \<and> f x = Some y \<and> (\<forall>a \<in> set as. f a = None)"
proof (induction xs)
  case (Cons a xs)
  show ?case
  proof (cases "f a")
    case None
    with Cons obtain as x bs where "xs = as @ x # bs" "f x = Some y" "\<forall>a \<in> set as. f a = None" by auto
    with None have "a # xs = (a # as) @ x # bs \<and> f x = Some y \<and> (\<forall>b \<in> set (a # as). f b = None)" by simp
    then show ?thesis by blast
  next
    case (Some z)
    with Cons.prems have "a # xs = [] @ a # xs \<and> f a = Some y \<and> (\<forall>b \<in> set []. f b = None)" by simp
    then show ?thesis by blast
  qed
qed simp

section \<open>Lemmas on the map\<close>

lemma jm_get_Nil [simp, jm_simps]: "jm_get [] k = None"
  by (simp add: jm_get_def)

lemma jm_get_Cons [simp]: "jm_get ((k', v) # m) k = (if k' = k then Some v else jm_get m k)"
  by (simp add: jm_get_def)

lemma jm_get_set [simp, jm_simps]: "jm_get (jm_set m k v) k' = (if k' = k then Some v else jm_get m k')"
  by (induction m k v rule: jm_set.induct) (auto simp: jm_get_def)

lemma jm_get_filter:
  "jm_wf m \<Longrightarrow> jm_get (filter (\<lambda>(k, v). P k v) m) k =
     (case jm_get m k of None \<Rightarrow> None | Some v \<Rightarrow> if P k v then Some v else None)"
proof (induction m)
  case Nil
  then show ?case by simp
next
  case (Cons a m)
  obtain k' v where a: "a = (k', v)" by force
  from Cons.prems a have "jm_wf m" and "k' \<notin> fst ` set m" by (auto simp: jm_wf_def)
  then have "jm_get m k' = None" by (auto simp: jm_get_def map_of_eq_None_iff)
  with Cons.IH \<open>jm_wf m\<close> a show ?case by (auto split: option.splits)
qed

lemma jm_get_delete [jm_simps]: "jm_get (jm_delete m k) k' = (if k' = k then None else jm_get m k')"
  unfolding jm_delete_def jm_get_def by (induction m) auto

lemma jm_get_sweep [jm_simps]:
  "jm_wf m \<Longrightarrow> jm_get (jm_sweep stale m) k =
     (case jm_get m k of None \<Rightarrow> None | Some v \<Rightarrow> if stale k v then None else Some v)"
  unfolding jm_sweep_def by (simp add: jm_get_filter split: option.splits)

lemma keys_jm_set: "fst ` set (jm_set m k v) = insert k (fst ` set m)"
  by (induction m k v rule: jm_set.induct) auto

lemma jm_get_eq_None: "jm_get m k = None \<longleftrightarrow> k \<notin> fst ` set m"
  by (simp add: jm_get_def map_of_eq_None_iff)

lemma jm_wf_Nil [simp, intro]: "jm_wf []"
  by (simp add: jm_wf_def)

lemma jm_wf_set [simp, intro]: "jm_wf m \<Longrightarrow> jm_wf (jm_set m k v)"
  by (induction m k v rule: jm_set.induct) (auto simp: jm_wf_def keys_jm_set [unfolded set_map] keys_jm_set)

lemma jm_wf_filter [intro]: "jm_wf m \<Longrightarrow> jm_wf (filter P m)"
  by (auto simp: jm_wf_def distinct_map inj_on_def)

lemma jm_wf_delete [simp, intro]: "jm_wf m \<Longrightarrow> jm_wf (jm_delete m k)"
  unfolding jm_delete_def by (rule jm_wf_filter)

lemma jm_wf_sweep [simp, intro]: "jm_wf m \<Longrightarrow> jm_wf (jm_sweep stale m)"
  unfolding jm_sweep_def by (rule jm_wf_filter)

lemma length_jm_set:
  "length (jm_set m k v) = (if jm_has m k then length m else Suc (length m))"
  by (induction m k v rule: jm_set.induct) (auto simp: jm_has_def)

lemma length_jm_delete_le [simp]: "length (jm_delete m k) \<le> length m"
  unfolding jm_delete_def by simp

lemma length_jm_delete_has: "jm_has m k \<Longrightarrow> length (jm_delete m k) < length m"
proof -
  assume "jm_has m k"
  then obtain v where "(k, v) \<in> set m" by (auto simp: jm_has_def jm_get_def dest: map_of_SomeD)
  then show ?thesis unfolding jm_delete_def by (auto intro: length_filter_less)
qed

lemma length_jm_sweep_le [simp]: "length (jm_sweep stale m) \<le> length m"
  unfolding jm_sweep_def by simp

lemma jm_oldest_None: "jm_oldest m = None \<longleftrightarrow> m = []"
  by (auto simp: jm_oldest_def split: list.splits)

lemma jm_oldest_has: "jm_oldest m = Some k \<Longrightarrow> jm_has m k"
  by (auto simp: jm_oldest_def jm_has_def split: list.splits)

lemma in_set_jm_get: "jm_wf m \<Longrightarrow> (k, v) \<in> set m \<longleftrightarrow> jm_get m k = Some v"
  by (simp add: jm_wf_def jm_get_def map_of_eq_Some_iff)

section \<open>The map interface and its capacity lemmas\<close>

locale ordered_map =
  fixes get :: "'m \<Rightarrow> 'k \<Rightarrow> 'v option"
    and put :: "'m \<Rightarrow> 'k \<Rightarrow> 'v \<Rightarrow> 'm"
    and del :: "'m \<Rightarrow> 'k \<Rightarrow> 'm"
    and sweep :: "('k \<Rightarrow> 'v \<Rightarrow> bool) \<Rightarrow> 'm \<Rightarrow> 'm"
    and oldest :: "'m \<Rightarrow> 'k option"
    and size_of :: "'m \<Rightarrow> nat"
    and wf :: "'m \<Rightarrow> bool"
  assumes get_put: "get (put m k v) k' = (if k' = k then Some v else get m k')"
    and get_del: "get (del m k) k' = (if k' = k then None else get m k')"
    and get_sweep: "wf m \<Longrightarrow> get (sweep stale m) k =
           (case get m k of None \<Rightarrow> None | Some v \<Rightarrow> if stale k v then None else Some v)"
    and wf_put: "wf m \<Longrightarrow> wf (put m k v)"
    and wf_del: "wf m \<Longrightarrow> wf (del m k)"
    and wf_sweep: "wf m \<Longrightarrow> wf (sweep stale m)"
    and size_put: "size_of (put m k v) = (if get m k = None then Suc (size_of m) else size_of m)"
    and size_del: "get m k \<noteq> None \<Longrightarrow> size_of (del m k) < size_of m"
    and size_sweep: "size_of (sweep stale m) \<le> size_of m"
    and oldest_some: "0 < size_of m \<Longrightarrow> \<exists>k. oldest m = Some k \<and> get m k \<noteq> None"
begin

definition make_room :: "('k \<Rightarrow> 'v \<Rightarrow> bool) \<Rightarrow> nat \<Rightarrow> 'm \<Rightarrow> 'm" where
  "make_room stale cap m =
     (let m1 = (if cap \<le> size_of m then sweep stale m else m)
      in if cap \<le> size_of m1 then (case oldest m1 of None \<Rightarrow> m1 | Some k \<Rightarrow> del m1 k) else m1)"

lemma make_room_wf: "wf m \<Longrightarrow> wf (make_room stale cap m)"
  by (auto simp: make_room_def Let_def wf_del wf_sweep split: option.splits)

lemma make_room_size:
  assumes "0 < cap" and "size_of m \<le> cap"
  shows "size_of (make_room stale cap m) < cap"
proof -
  let ?m1 = "if cap \<le> size_of m then sweep stale m else m"
  have le: "size_of ?m1 \<le> cap" using assms(2) size_sweep [of stale m] by auto
  show ?thesis
  proof (cases "cap \<le> size_of ?m1")
    case True
    with assms(1) have "0 < size_of ?m1" by linarith
    then obtain k where k: "oldest ?m1 = Some k" "get ?m1 k \<noteq> None" using oldest_some by blast
    from size_del [OF k(2)] le have "size_of (del ?m1 k) < cap" by linarith
    with True k(1) show ?thesis by (simp add: make_room_def Let_def)
  next
    case False
    then show ?thesis by (simp add: make_room_def Let_def)
  qed
qed

lemma make_room_get:
  "wf m \<Longrightarrow> get (make_room stale cap m) k = Some v \<Longrightarrow> get m k = Some v"
  by (auto simp: make_room_def Let_def get_del get_sweep split: option.splits if_splits)

lemma put_within:
  "0 < cap \<Longrightarrow> size_of m < cap \<Longrightarrow> size_of (put m k v) \<le> cap"
  by (simp add: size_put)

lemma make_room_put_within:
  "0 < cap \<Longrightarrow> size_of m \<le> cap \<Longrightarrow> size_of (put (make_room stale cap m) k v) \<le> cap"
  using make_room_size [of cap m stale] by (simp add: put_within)

end

interpretation jm: ordered_map jm_get jm_set jm_delete jm_sweep jm_oldest length jm_wf
proof
  show "\<exists>k. jm_oldest m = Some k \<and> jm_get m k \<noteq> None" if "0 < length m" for m :: "('k \<times> 'v) list"
    using that by (cases m) (auto simp: jm_oldest_def)
qed (auto simp: jm_simps length_jm_set jm_has_def length_jm_delete_has)

lemma jm_make_room_eq: "jm_make_room stale cap m = jm.make_room stale cap m"
  by (auto simp: jm_make_room_def jm.make_room_def jm_drop_oldest_def Let_def)

lemmas jm_make_room_wf = jm.make_room_wf [folded jm_make_room_eq]
lemmas jm_make_room_size = jm.make_room_size [folded jm_make_room_eq]
lemmas jm_make_room_get = jm.make_room_get [folded jm_make_room_eq]
lemmas jm_make_room_put_within = jm.make_room_put_within [folded jm_make_room_eq]

lemma length_jm_drop_oldest_le [simp]: "length (jm_drop_oldest m) \<le> length m"
  by (simp add: jm_drop_oldest_def split: option.splits)

lemma length_jm_make_room_le: "length (jm_make_room stale cap m) \<le> length m"
  using length_jm_drop_oldest_le [of "jm_sweep stale m"] length_jm_drop_oldest_le [of m]
    length_jm_sweep_le [of stale m]
  by (auto simp: jm_make_room_def Let_def simp del: length_jm_drop_oldest_le length_jm_sweep_le)

lemma length_jm_set_le: "length m \<le> n \<Longrightarrow> length (jm_set m k v) \<le> Suc n"
  by (simp add: length_jm_set)

lemma length_jm_delete_bound: "length m \<le> n \<Longrightarrow> length (jm_delete m k) \<le> n"
  using length_jm_delete_le [of m k] by linarith

lemma length_jm_sweep_bound: "length m \<le> n \<Longrightarrow> length (jm_sweep P m) \<le> n"
  using length_jm_sweep_le [of P m] by linarith

lemma length_jm_make_room_bound: "length m \<le> n \<Longrightarrow> length (jm_make_room P c m) \<le> n"
  using length_jm_make_room_le [of P c m] by linarith

lemmas jm_bounds = length_jm_set_le length_jm_delete_bound length_jm_sweep_bound length_jm_make_room_bound

lemma jm_make_room_id: "length m < cap \<Longrightarrow> jm_make_room stale cap m = m"
  by (simp add: jm_make_room_def)

section \<open>The reservation protocol\<close>

locale reservation =
  fixes reserve :: "int \<Rightarrow> 's \<Rightarrow> 'k \<Rightarrow> bool \<times> 's"
    and release :: "'s \<Rightarrow> 'k \<Rightarrow> 's"
    and finish :: "int \<Rightarrow> 's \<Rightarrow> 'k \<Rightarrow> 's"
    and ttl :: "'s \<Rightarrow> int"
    and ok :: "'s \<Rightarrow> bool"
    and blocked :: "'s \<Rightarrow> 'k \<Rightarrow> int \<Rightarrow> bool"
  assumes ok_reserve: "ok s \<Longrightarrow> ok (snd (reserve now s k))"
    and ok_release: "ok s \<Longrightarrow> ok (release s k)"
    and ok_finish: "ok s \<Longrightarrow> ok (finish now s k)"
    and ttl_reserve: "ttl (snd (reserve now s k)) = ttl s"
    and ttl_release: "ttl (release s k) = ttl s"
    and ttl_finish: "ttl (finish now s k) = ttl s"
    and reserve_blocks: "ok s \<Longrightarrow> fst (reserve now s k) \<Longrightarrow> x \<le> now + ttl s \<Longrightarrow>
           blocked (snd (reserve now s k)) k x"
    and finish_blocks: "ok s \<Longrightarrow> x \<le> now + ttl s \<Longrightarrow> blocked (finish now s k) k x"
    and blocked_rejects: "blocked s k x \<Longrightarrow> now \<le> x \<Longrightarrow> reserve now s k = (False, s)"
    and release_retry: "ok s \<Longrightarrow> fst (reserve now s k) \<Longrightarrow>
           fst (reserve now' (release (snd (reserve now s k)) k) k)"
begin

lemma blocked_count:
  "blocked s k x \<Longrightarrow> \<forall>(t, _, _)\<in>set ds. t \<le> x \<Longrightarrow> deliver_count reserve release finish s k ds = 0"
proof (induction ds)
  case Nil
  then show ?case by simp
next
  case (Cons d ds)
  obtain t t' b where d: "d = (t, t', b)" by (cases d)
  with Cons.prems have "reserve t s k = (False, s)" by (auto intro: blocked_rejects)
  with Cons d show ?case by simp
qed

lemma deliver_at_most_once:
  assumes "ok s" and "\<forall>(t, t', _)\<in>set ds. t0 \<le> t' \<and> t \<le> t0 + ttl s"
  shows "deliver_count reserve release finish s k ds \<le> 1"
  using assms
proof (induction ds arbitrary: s)
  case Nil
  then show ?case by simp
next
  case (Cons d ds)
  obtain t t' b where d: "d = (t, t', b)" by (cases d)
  obtain a s1 where r: "reserve t s k = (a, s1)" by force
  have ok1: "ok s1" and ttl1: "ttl s1 = ttl s"
    using ok_reserve [OF Cons.prems(1), of t k] ttl_reserve [of t s k] r by auto
  have later: "\<forall>(t, t', _)\<in>set ds. t0 \<le> t' \<and> t \<le> t0 + ttl s" using Cons.prems(2) by auto
  have "blocked (finish t' s1 k) k (t0 + ttl s)"
    using finish_blocks [OF ok1] Cons.prems(2) d ttl1 by auto
  then have "deliver_count reserve release finish (finish t' s1 k) k ds = 0"
    using later by (intro blocked_count) auto
  moreover have "deliver_count reserve release finish s1 k ds \<le> 1"
    using Cons.IH [OF ok1] later ttl1 by simp
  moreover have "deliver_count reserve release finish (release s1 k) k ds \<le> 1"
    using Cons.IH [OF ok_release [OF ok1]] later ttl1 ttl_release by simp
  ultimately show ?case using d r by simp
qed

lemma deliver_retry_succeeds:
  assumes "ok s" and "fst (reserve t s k)"
  shows "deliver_count reserve release finish s k [(t, t1, False), (t2, t3, True)] = 1"
  using release_retry [OF assms, of t2] assms(2) by (auto split: prod.splits)

end

section \<open>Invariants of interleaved operations\<close>

locale invariant_system =
  fixes init :: "'s \<Rightarrow> bool" and step :: "'s \<Rightarrow> 's \<Rightarrow> bool" and inv :: "'s \<Rightarrow> bool"
  assumes inv_init: "init s \<Longrightarrow> inv s"
    and inv_step: "inv s \<Longrightarrow> step s t \<Longrightarrow> inv t"
begin

lemma reach_inv: "reach init step s \<Longrightarrow> inv s"
  by (induction rule: reach.induct) (auto intro: inv_init inv_step)

lemma steps_inv: "steps step s t \<Longrightarrow> inv s \<Longrightarrow> inv t"
  by (induction rule: steps.induct) (auto intro: inv_step)

end

lemma steps_preserve:
  assumes "steps step s t" and "P s" and "\<And>s t. P s \<Longrightarrow> step s t \<Longrightarrow> P t"
  shows "P t"
  using assms by (induction rule: steps.induct) auto

text \<open>The channels the gateway takes messages from.\<close>

definition CHANNEL_IDS :: "string list" where
  "CHANNEL_IDS =
     [''telegram'', ''phone'', ''vellum'', ''whatsapp'', ''slack'', ''email'', ''a2a'', ''discord'', ''plugin'']"

definition isChannelId :: "string \<Rightarrow> bool" where
  "isChannelId v = (v \<in> set CHANNEL_IDS)"

end
