(* ===== verification/Dedup_Cache.thy ===== *)
theory Dedup_Cache
  imports Prelude
begin

text \<open>
  The webhook deduplication caches of \<^verbatim>\<open>gateway/src/dedup-cache.ts\<close>.

  \<^item> \<open>dedup_cache\<close> is the class \<open>DedupCache\<close>: Telegram update ids with a processing sentinel, a
    monotone high-water mark (\<open>None\<close> is \<open>-Infinity\<close>) and a bot generation.
  \<^item> \<open>string_dedup\<close> is the class \<open>StringDedupCache\<close>: string keys with a set of in-flight keys.
  \<^item> Each operation takes the clock reading of its call; the operations of a cache are run in any
    order by \<open>dc_run\<close> and \<open>sd_run\<close>.
  \<^item> \<open>reservation\<close> is the protocol the webhook handlers rely on (reserve, then finalize on success
    or release on failure); both caches are interpreted as instances of it.
\<close>

section \<open>DedupCache\<close>

datatype ReserveResult = Reserved | Duplicate | AlreadyProcessed

record cache_entry =
  ce_body :: string
  ce_status :: int
  ce_expiresAt :: int
  ce_processing :: bool
  ce_generation :: nat

record dedup_cache =
  dc_cache :: "(int, cache_entry) jsmap"
  dc_ttlMs :: int
  dc_maxSize :: nat
  dc_highWaterMark :: "int option"
  dc_generation :: nat
  dc_cleanupTimer :: "int option"

definition dc_new :: "int \<Rightarrow> nat \<Rightarrow> dedup_cache" where
  "dc_new ttlMs maxSize =
     \<lparr>dc_cache = [], dc_ttlMs = ttlMs, dc_maxSize = maxSize, dc_highWaterMark = None,
      dc_generation = 0, dc_cleanupTimer = None\<rparr>"

definition at_or_below_mark :: "int \<Rightarrow> dedup_cache \<Rightarrow> bool" where
  "at_or_below_mark u c = (case dc_highWaterMark c of None \<Rightarrow> False | Some h \<Rightarrow> u \<le> h)"

definition entry_expired :: "int \<Rightarrow> int \<Rightarrow> cache_entry \<Rightarrow> bool" where
  "entry_expired now k e = (now > ce_expiresAt e)"

definition dc_evictExpired :: "int \<Rightarrow> dedup_cache \<Rightarrow> dedup_cache" where
  "dc_evictExpired now c = c\<lparr>dc_cache := jm_sweep (entry_expired now) (dc_cache c)\<rparr>"

definition dc_get :: "int \<Rightarrow> dedup_cache \<Rightarrow> int \<Rightarrow> (string \<times> int) option \<times> dedup_cache" where
  "dc_get now c u =
     (case jm_get (dc_cache c) u of
        None \<Rightarrow> (None, c)
      | Some e \<Rightarrow>
          if now > ce_expiresAt e then (None, c\<lparr>dc_cache := jm_delete (dc_cache c) u\<rparr>)
          else if ce_processing e then (None, c)
          else (Some (ce_body e, ce_status e), c))"

definition dc_reserve :: "int \<Rightarrow> dedup_cache \<Rightarrow> int \<Rightarrow> ReserveResult \<times> dedup_cache" where
  "dc_reserve now c u =
     (let existing = jm_get (dc_cache c) u in
      if (case existing of None \<Rightarrow> False | Some e \<Rightarrow> now \<le> ce_expiresAt e) then (Duplicate, c)
      else
        let cache1 = (if existing \<noteq> None then jm_delete (dc_cache c) u else dc_cache c) in
        if at_or_below_mark u c then (AlreadyProcessed, c\<lparr>dc_cache := cache1\<rparr>)
        else
          let cache2 = jm_make_room (entry_expired now) (dc_maxSize c) cache1 in
          (Reserved,
           c\<lparr>dc_cache := jm_set cache2 u
               \<lparr>ce_body = [], ce_status = 0, ce_expiresAt = now + dc_ttlMs c,
                ce_processing = True, ce_generation = dc_generation c\<rparr>\<rparr>))"

definition reserved_in :: "nat option \<Rightarrow> dedup_cache \<Rightarrow> nat" where
  "reserved_in g c = (case g of None \<Rightarrow> dc_generation c | Some n \<Rightarrow> n)"

definition dc_unreserve :: "dedup_cache \<Rightarrow> int \<Rightarrow> nat option \<Rightarrow> dedup_cache" where
  "dc_unreserve c u g =
     (if reserved_in g c \<noteq> dc_generation c then c
      else case jm_get (dc_cache c) u of
             None \<Rightarrow> c
           | Some e \<Rightarrow> if ce_processing e then c\<lparr>dc_cache := jm_delete (dc_cache c) u\<rparr> else c)"

definition dc_set :: "int \<Rightarrow> dedup_cache \<Rightarrow> int \<Rightarrow> string \<Rightarrow> int \<Rightarrow> nat option \<Rightarrow> dedup_cache" where
  "dc_set now c u body status g =
     (if reserved_in g c \<noteq> dc_generation c then c
      else
        let mark = (if at_or_below_mark u c then dc_highWaterMark c else Some u);
            cache1 = jm_make_room (entry_expired now) (dc_maxSize c) (dc_cache c)
        in c\<lparr>dc_highWaterMark := mark,
             dc_cache := jm_set cache1 u
               \<lparr>ce_body = body, ce_status = status, ce_expiresAt = now + dc_ttlMs c,
                ce_processing = False, ce_generation = dc_generation c\<rparr>\<rparr>)"

definition dc_size :: "dedup_cache \<Rightarrow> nat" where
  "dc_size c = length (dc_cache c)"

definition dc_reset :: "dedup_cache \<Rightarrow> dedup_cache" where
  "dc_reset c = c\<lparr>dc_cache := [], dc_highWaterMark := None, dc_generation := dc_generation c + 1\<rparr>"

definition dc_stopCleanup :: "dedup_cache \<Rightarrow> dedup_cache" where
  "dc_stopCleanup c = (if dc_cleanupTimer c \<noteq> None then c\<lparr>dc_cleanupTimer := None\<rparr> else c)"

definition dc_startCleanup :: "dedup_cache \<Rightarrow> int \<Rightarrow> dedup_cache" where
  "dc_startCleanup c intervalMs = (dc_stopCleanup c)\<lparr>dc_cleanupTimer := Some intervalMs\<rparr>"

text \<open>A call of the class, with its clock reading; \<open>Tick\<close> is the cleanup timer firing.\<close>

datatype dc_op =
    DGet int int
  | DReserve int int
  | DUnreserve int "nat option"
  | DSet int int string int "nat option"
  | DReset
  | DTick int
  | DStart int
  | DStop

fun dc_apply :: "dedup_cache \<Rightarrow> dc_op \<Rightarrow> dedup_cache" where
  "dc_apply c (DGet now u) = snd (dc_get now c u)"
| "dc_apply c (DReserve now u) = snd (dc_reserve now c u)"
| "dc_apply c (DUnreserve u g) = dc_unreserve c u g"
| "dc_apply c (DSet now u b s g) = dc_set now c u b s g"
| "dc_apply c DReset = dc_reset c"
| "dc_apply c (DTick now) = (if dc_cleanupTimer c \<noteq> None then dc_evictExpired now c else c)"
| "dc_apply c (DStart i) = dc_startCleanup c i"
| "dc_apply c DStop = dc_stopCleanup c"

definition dc_run :: "dedup_cache \<Rightarrow> dc_op list \<Rightarrow> dedup_cache" where
  "dc_run c ops = foldl dc_apply c ops"

text \<open>The operations that add an entry, and the clock readings of an operation.\<close>

fun dc_inserts :: "dc_op \<Rightarrow> bool" where
  "dc_inserts (DReserve _ _) = True"
| "dc_inserts (DSet _ _ _ _ _) = True"
| "dc_inserts _ = False"

fun dc_op_time :: "dc_op \<Rightarrow> int option" where
  "dc_op_time (DGet now _) = Some now"
| "dc_op_time (DReserve now _) = Some now"
| "dc_op_time (DSet now _ _ _ _) = Some now"
| "dc_op_time (DTick now) = Some now"
| "dc_op_time _ = None"

text \<open>The operations that end the reservation of an id: its finalization, its release, a reset.\<close>

fun dc_settles :: "int \<Rightarrow> dc_op \<Rightarrow> bool" where
  "dc_settles u (DUnreserve u' _) = (u' = u)"
| "dc_settles u (DSet _ u' _ _ _) = (u' = u)"
| "dc_settles u DReset = True"
| "dc_settles u _ = False"

definition dc_inv :: "dedup_cache \<Rightarrow> bool" where
  "dc_inv c \<longleftrightarrow> jm_wf (dc_cache c) \<and> 0 < dc_maxSize c \<and> length (dc_cache c) \<le> dc_maxSize c"

section \<open>StringDedupCache\<close>

record string_dedup =
  sd_cache :: "(string, int) jsmap"
  sd_processing :: "string list"
  sd_ttlMs :: int
  sd_maxSize :: nat
  sd_cleanupTimer :: "int option"

definition sd_new :: "int \<Rightarrow> nat \<Rightarrow> string_dedup" where
  "sd_new ttlMs maxSize =
     \<lparr>sd_cache = [], sd_processing = [], sd_ttlMs = ttlMs, sd_maxSize = maxSize, sd_cleanupTimer = None\<rparr>"

definition key_expired :: "int \<Rightarrow> string \<Rightarrow> int \<Rightarrow> bool" where
  "key_expired now k expiresAt = (now > expiresAt)"

definition sd_evictExpired :: "int \<Rightarrow> string_dedup \<Rightarrow> string_dedup" where
  "sd_evictExpired now c = c\<lparr>sd_cache := jm_sweep (key_expired now) (sd_cache c)\<rparr>"

definition sd_has :: "int \<Rightarrow> string_dedup \<Rightarrow> string \<Rightarrow> bool \<times> string_dedup" where
  "sd_has now c k =
     (if k \<in> set (sd_processing c) then (True, c)
      else case jm_get (sd_cache c) k of
             None \<Rightarrow> (False, c)
           | Some expiresAt \<Rightarrow>
               if now \<le> expiresAt then (True, c)
               else (False, c\<lparr>sd_cache := jm_delete (sd_cache c) k\<rparr>))"

definition sd_mark :: "int \<Rightarrow> string_dedup \<Rightarrow> string \<Rightarrow> string_dedup" where
  "sd_mark now c k =
     (let cache1 = jm_make_room (key_expired now) (sd_maxSize c) (sd_cache c)
      in c\<lparr>sd_processing := removeAll k (sd_processing c),
           sd_cache := jm_set cache1 k (now + sd_ttlMs c)\<rparr>)"

definition sd_seen :: "int \<Rightarrow> string_dedup \<Rightarrow> string \<Rightarrow> bool \<times> string_dedup" where
  "sd_seen now c k =
     (case sd_has now c k of (h, c') \<Rightarrow> if h then (True, c') else (False, sd_mark now c' k))"

definition sd_reserve :: "int \<Rightarrow> string_dedup \<Rightarrow> string \<Rightarrow> bool \<times> string_dedup" where
  "sd_reserve now c k =
     (case sd_has now c k of (h, c') \<Rightarrow>
        if h then (False, c') else (True, c'\<lparr>sd_processing := sd_processing c' @ [k]\<rparr>))"

definition sd_unreserve :: "string_dedup \<Rightarrow> string \<Rightarrow> string_dedup" where
  "sd_unreserve c k = c\<lparr>sd_processing := removeAll k (sd_processing c)\<rparr>"

definition sd_size :: "string_dedup \<Rightarrow> nat" where
  "sd_size c = length (sd_cache c)"

definition sd_stopCleanup :: "string_dedup \<Rightarrow> string_dedup" where
  "sd_stopCleanup c = (if sd_cleanupTimer c \<noteq> None then c\<lparr>sd_cleanupTimer := None\<rparr> else c)"

definition sd_startCleanup :: "string_dedup \<Rightarrow> int \<Rightarrow> string_dedup" where
  "sd_startCleanup c intervalMs = (sd_stopCleanup c)\<lparr>sd_cleanupTimer := Some intervalMs\<rparr>"

datatype sd_op =
    SSeen int string
  | SHas int string
  | SReserve int string
  | SUnreserve string
  | SMark int string
  | STick int
  | SStart int
  | SStop

fun sd_apply :: "string_dedup \<Rightarrow> sd_op \<Rightarrow> string_dedup" where
  "sd_apply c (SSeen now k) = snd (sd_seen now c k)"
| "sd_apply c (SHas now k) = snd (sd_has now c k)"
| "sd_apply c (SReserve now k) = snd (sd_reserve now c k)"
| "sd_apply c (SUnreserve k) = sd_unreserve c k"
| "sd_apply c (SMark now k) = sd_mark now c k"
| "sd_apply c (STick now) = (if sd_cleanupTimer c \<noteq> None then sd_evictExpired now c else c)"
| "sd_apply c (SStart i) = sd_startCleanup c i"
| "sd_apply c SStop = sd_stopCleanup c"

definition sd_run :: "string_dedup \<Rightarrow> sd_op list \<Rightarrow> string_dedup" where
  "sd_run c ops = foldl sd_apply c ops"

definition sd_inv :: "string_dedup \<Rightarrow> bool" where
  "sd_inv c \<longleftrightarrow> jm_wf (sd_cache c) \<and> 0 < sd_maxSize c \<and> length (sd_cache c) \<le> sd_maxSize c
     \<and> distinct (sd_processing c)"

section \<open>Lemmas of DedupCache\<close>

lemmas dc_defs = dc_get_def dc_reserve_def dc_unreserve_def dc_set_def dc_reset_def
  dc_evictExpired_def dc_startCleanup_def dc_stopCleanup_def Let_def

lemma dc_run_Nil [simp]: "dc_run c [] = c"
  by (simp add: dc_run_def)

lemma dc_run_Cons [simp]: "dc_run c (op # ops) = dc_run (dc_apply c op) ops"
  by (simp add: dc_run_def)

lemma dc_run_append: "dc_run c (ops @ ops') = dc_run (dc_run c ops) ops'"
  by (simp add: dc_run_def)

lemma at_or_below_mark_cache [simp]: "at_or_below_mark u (c\<lparr>dc_cache := m\<rparr>) = at_or_below_mark u c"
  by (simp add: at_or_below_mark_def)

lemma at_or_below_mark_apply:
  "at_or_below_mark u c \<Longrightarrow> op \<noteq> DReset \<Longrightarrow> at_or_below_mark u (dc_apply c op)"
  by (cases op) (auto simp: dc_defs at_or_below_mark_def split: option.splits if_splits)

lemma at_or_below_mark_run:
  "at_or_below_mark u c \<Longrightarrow> DReset \<notin> set ops \<Longrightarrow> at_or_below_mark u (dc_run c ops)"
  by (induction ops arbitrary: c) (auto simp: at_or_below_mark_apply)

lemma dc_set_marks: "at_or_below_mark u (dc_set now c u b s None)"
  by (auto simp: dc_set_def Let_def reserved_in_def at_or_below_mark_def split: option.splits)

lemma at_or_below_mark_mono: "at_or_below_mark u c \<Longrightarrow> u' \<le> u \<Longrightarrow> at_or_below_mark u' c"
  by (auto simp: at_or_below_mark_def split: option.splits)

lemma dc_reserve_marked: "at_or_below_mark u c \<Longrightarrow> fst (dc_reserve now c u) \<noteq> Reserved"
  by (auto simp: dc_reserve_def Let_def)

lemma dc_maxSize_apply [simp]: "dc_maxSize (dc_apply c op) = dc_maxSize c"
  by (cases op) (auto simp: dc_defs split: option.splits)

lemma dc_ttlMs_apply [simp]: "dc_ttlMs (dc_apply c op) = dc_ttlMs c"
  by (cases op) (auto simp: dc_defs split: option.splits)

lemma dc_generation_apply:
  "dc_generation (dc_apply c op) = dc_generation c + (if op = DReset then 1 else 0)"
  by (cases op) (auto simp: dc_defs split: option.splits)

lemma dc_generation_run:
  "dc_generation (dc_run c ops) = dc_generation c + count_list ops DReset"
  by (induction ops arbitrary: c) (auto simp: dc_generation_apply)

lemma dc_inv_apply: "dc_inv c \<Longrightarrow> dc_inv (dc_apply c op)"
  by (cases op)
     (auto simp: dc_inv_def dc_defs jm_make_room_wf jm_make_room_put_within jm_bounds split: option.splits)

lemma dc_inv_new: "0 < maxSize \<Longrightarrow> dc_inv (dc_new ttlMs maxSize)"
  by (simp add: dc_inv_def dc_new_def)

interpretation dc_sys: invariant_system
  "\<lambda>c. \<exists>ttlMs maxSize. 0 < maxSize \<and> c = dc_new ttlMs maxSize" "\<lambda>c c'. \<exists>op. c' = dc_apply c op" dc_inv
  by unfold_locales (auto intro: dc_inv_new dc_inv_apply)

lemma dc_inv_run: "dc_inv c \<Longrightarrow> dc_inv (dc_run c ops)"
  by (induction ops arbitrary: c) (simp_all add: dc_inv_apply)

lemma dc_maxSize_run: "dc_maxSize (dc_run c ops) = dc_maxSize c"
  by (induction ops arbitrary: c) simp_all

subsection \<open>A live entry survives the operations that do not settle it\<close>

definition dc_holds :: "dedup_cache \<Rightarrow> int \<Rightarrow> int \<Rightarrow> bool" where
  "dc_holds c u x \<longleftrightarrow> (\<exists>e. jm_get (dc_cache c) u = Some e \<and> x \<le> ce_expiresAt e)"

lemma dc_holds_reserve: "dc_holds c u x \<Longrightarrow> now \<le> x \<Longrightarrow> dc_reserve now c u = (Duplicate, c)"
  by (auto simp: dc_holds_def dc_reserve_def Let_def)

lemma dc_reserve_holds:
  "fst (dc_reserve now c u) = Reserved \<Longrightarrow> x \<le> now + dc_ttlMs c \<Longrightarrow> dc_holds (snd (dc_reserve now c u)) u x"
  by (auto simp: dc_holds_def dc_reserve_def Let_def split: if_splits)

lemma dc_set_holds: "x \<le> now + dc_ttlMs c \<Longrightarrow> dc_holds (dc_set now c u b s None) u x"
  by (auto simp: dc_holds_def dc_set_def Let_def reserved_in_def)

lemma dc_holds_apply:
  assumes "dc_holds c u x" and "dc_inv c" and "\<not> dc_settles u op"
    and "\<forall>t. dc_op_time op = Some t \<longrightarrow> t \<le> x"
    and "dc_inserts op \<Longrightarrow> length (dc_cache c) < dc_maxSize c"
  shows "dc_holds (dc_apply c op) u x"
proof (cases op)
  case (DReserve now u')
  show ?thesis
  proof (cases "u' = u")
    case True
    with assms DReserve show ?thesis by (simp add: dc_holds_reserve)
  next
    case False
    have "length (jm_delete (dc_cache c) u') < dc_maxSize c"
      using assms(5) DReserve length_jm_delete_le [of "dc_cache c" u']
      by (simp del: length_jm_delete_le)
    with assms DReserve False show ?thesis
      by (auto simp: dc_holds_def dc_reserve_def Let_def jm_make_room_id jm_get_delete)
  qed
next
  case (DSet now u' b s g)
  with assms show ?thesis by (auto simp: dc_holds_def dc_set_def Let_def jm_make_room_id)
qed (use assms in \<open>auto simp: dc_holds_def dc_defs dc_inv_def jm_simps entry_expired_def split: option.splits\<close>)

lemma length_dc_apply:
  "length (dc_cache (dc_apply c op)) \<le> length (dc_cache c) + (if dc_inserts op then 1 else 0)"
  by (cases op) (auto simp: dc_defs jm_bounds le_SucI split: option.splits)

lemma dc_holds_run:
  assumes "dc_holds c u x" and "dc_inv c" and "\<forall>op\<in>set ops. \<not> dc_settles u op"
    and "\<forall>op\<in>set ops. \<forall>t. dc_op_time op = Some t \<longrightarrow> t \<le> x"
    and "length (dc_cache c) + length (filter dc_inserts ops) \<le> dc_maxSize c"
  shows "dc_holds (dc_run c ops) u x"
  using assms
proof (induction ops arbitrary: c)
  case Nil
  then show ?case by simp
next
  case (Cons op ops)
  have "dc_holds (dc_apply c op) u x"
    using Cons.prems by (intro dc_holds_apply) (auto split: if_splits)
  moreover have "length (dc_cache (dc_apply c op)) + length (filter dc_inserts ops) \<le> dc_maxSize c"
    using length_dc_apply [of c op] Cons.prems(5) by (auto split: if_splits)
  ultimately show ?case using Cons by (simp add: dc_inv_apply)
qed

lemma dc_unreserve_retry:
  assumes "fst (dc_reserve now c u) = Reserved"
  shows "fst (dc_reserve now' (dc_unreserve (snd (dc_reserve now c u)) u None) u) = Reserved"
  using assms
  by (auto simp: dc_reserve_def dc_unreserve_def Let_def reserved_in_def jm_get_delete split: if_splits)

definition dc_try :: "int \<Rightarrow> dedup_cache \<Rightarrow> int \<Rightarrow> bool \<times> dedup_cache" where
  "dc_try now c u = (case dc_reserve now c u of (r, c') \<Rightarrow> (r = Reserved, c'))"

lemma dc_try_simps: "fst (dc_try now c u) = (fst (dc_reserve now c u) = Reserved)"
  "snd (dc_try now c u) = snd (dc_reserve now c u)"
  by (simp_all add: dc_try_def split: prod.splits)

interpretation dcr: reservation dc_try "\<lambda>c u. dc_unreserve c u None" "\<lambda>now c u. dc_set now c u b s None"
  dc_ttlMs dc_inv dc_holds for b s
proof unfold_locales
  fix st now k now'
  show "dc_inv st \<Longrightarrow> dc_inv (snd (dc_try now st k))"
    using dc_inv_apply [of st "DReserve now k"] by (simp add: dc_try_simps)
  show "dc_inv st \<Longrightarrow> dc_inv (dc_unreserve st k None)"
    using dc_inv_apply [of st "DUnreserve k None"] by simp
  show "dc_inv st \<Longrightarrow> dc_inv (dc_set now st k b s None)"
    using dc_inv_apply [of st "DSet now k b s None"] by simp
  show "dc_ttlMs (snd (dc_try now st k)) = dc_ttlMs st"
    using dc_ttlMs_apply [of st "DReserve now k"] by (simp add: dc_try_simps)
  show "dc_ttlMs (dc_unreserve st k None) = dc_ttlMs st"
    using dc_ttlMs_apply [of st "DUnreserve k None"] by simp
  show "dc_ttlMs (dc_set now st k b s None) = dc_ttlMs st"
    using dc_ttlMs_apply [of st "DSet now k b s None"] by simp
  show "fst (dc_try now' (dc_unreserve (snd (dc_try now st k)) k None) k)"
    if "fst (dc_try now st k)"
    using that dc_unreserve_retry by (simp add: dc_try_simps)
  show "dc_try now st k = (False, st)" if "dc_holds st k x" "now \<le> x" for x
    using dc_holds_reserve [OF that] by (simp add: dc_try_def)
qed (simp_all add: dc_try_simps dc_reserve_holds dc_set_holds)

section \<open>Lemmas of StringDedupCache\<close>

lemmas sd_defs = sd_seen_def sd_has_def sd_reserve_def sd_unreserve_def sd_mark_def
  sd_evictExpired_def sd_startCleanup_def sd_stopCleanup_def Let_def

lemma sd_run_Nil [simp]: "sd_run c [] = c"
  by (simp add: sd_run_def)

lemma sd_run_Cons [simp]: "sd_run c (op # ops) = sd_run (sd_apply c op) ops"
  by (simp add: sd_run_def)

lemma sd_ttlMs_apply [simp]: "sd_ttlMs (sd_apply c op) = sd_ttlMs c"
  by (cases op) (auto simp: sd_defs split: option.splits)

lemma sd_maxSize_apply [simp]: "sd_maxSize (sd_apply c op) = sd_maxSize c"
  by (cases op) (auto simp: sd_defs split: option.splits)

lemma distinct_removeAll' [simp]: "distinct xs \<Longrightarrow> distinct (removeAll x xs)"
  by (rule distinct_removeAll)

lemma sd_inv_apply: "sd_inv c \<Longrightarrow> sd_inv (sd_apply c op)"
  by (cases op)
     (auto simp: sd_inv_def sd_defs jm_make_room_wf jm_make_room_put_within jm_bounds split: option.splits)

lemma sd_inv_new: "0 < maxSize \<Longrightarrow> sd_inv (sd_new ttlMs maxSize)"
  by (simp add: sd_inv_def sd_new_def)

interpretation sd_sys: invariant_system
  "\<lambda>c. \<exists>ttlMs maxSize. 0 < maxSize \<and> c = sd_new ttlMs maxSize" "\<lambda>c c'. \<exists>op. c' = sd_apply c op" sd_inv
  by unfold_locales (auto intro: sd_inv_new sd_inv_apply)

lemma sd_inv_run: "sd_inv c \<Longrightarrow> sd_inv (sd_run c ops)"
  by (induction ops arbitrary: c) (simp_all add: sd_inv_apply)

lemma sd_maxSize_run: "sd_maxSize (sd_run c ops) = sd_maxSize c"
  by (induction ops arbitrary: c) simp_all

text \<open>The operations that end the in-flight reservation of a key.\<close>

fun sd_settles :: "string \<Rightarrow> sd_op \<Rightarrow> bool" where
  "sd_settles k (SUnreserve k') = (k' = k)"
| "sd_settles k (SMark _ k') = (k' = k)"
| "sd_settles k _ = False"

lemma sd_processing_apply:
  "k \<in> set (sd_processing c) \<Longrightarrow> \<not> sd_settles k op \<Longrightarrow> k \<in> set (sd_processing (sd_apply c op))"
  by (cases op) (auto simp: sd_defs split: option.splits)

lemma sd_processing_run:
  "k \<in> set (sd_processing c) \<Longrightarrow> \<forall>op\<in>set ops. \<not> sd_settles k op \<Longrightarrow>
     k \<in> set (sd_processing (sd_run c ops))"
  by (induction ops arbitrary: c) (simp_all add: sd_processing_apply)

lemma sd_reserve_processing: "fst (sd_reserve now c k) \<Longrightarrow> k \<in> set (sd_processing (snd (sd_reserve now c k)))"
  by (auto simp: sd_reserve_def sd_has_def split: option.splits if_splits)

definition sd_holds :: "string_dedup \<Rightarrow> string \<Rightarrow> int \<Rightarrow> bool" where
  "sd_holds c k x \<longleftrightarrow>
     k \<in> set (sd_processing c) \<or> (\<exists>e. jm_get (sd_cache c) k = Some e \<and> x \<le> e)"

interpretation sdr: reservation sd_reserve sd_unreserve sd_mark sd_ttlMs sd_inv sd_holds
proof unfold_locales
  fix st now k now'
  show "sd_inv st \<Longrightarrow> sd_inv (snd (sd_reserve now st k))"
    using sd_inv_apply [of st "SReserve now k"] by simp
  show "sd_inv st \<Longrightarrow> sd_inv (sd_unreserve st k)"
    using sd_inv_apply [of st "SUnreserve k"] by simp
  show "sd_inv st \<Longrightarrow> sd_inv (sd_mark now st k)"
    using sd_inv_apply [of st "SMark now k"] by simp
  show "sd_ttlMs (snd (sd_reserve now st k)) = sd_ttlMs st"
    using sd_ttlMs_apply [of st "SReserve now k"] by simp
  show "fst (sd_reserve now' (sd_unreserve (snd (sd_reserve now st k)) k) k)"
    if "fst (sd_reserve now st k)"
    using that by (auto simp: sd_reserve_def sd_has_def sd_unreserve_def jm_get_delete split: option.splits if_splits)
qed (auto simp: sd_holds_def sd_defs split: option.splits if_splits)

section \<open>Properties\<close>

text \<open>no replay. Once an update id has been finalized, no later \<open>reserve\<close> of it or of any lower
  id hands out a reservation, whatever calls come in between and however late it is made (after the
  cached entry has expired or was evicted), until the cache is reset for another bot.\<close>

theorem dedup_no_replay:
  assumes "DReset \<notin> set ops" and "u' \<le> u"
  shows "fst (dc_reserve now' (dc_run (dc_set now c u body status None) ops) u') \<noteq> Reserved"
  using assms
  by (intro dc_reserve_marked at_or_below_mark_mono [OF at_or_below_mark_run])
     (auto intro: dc_set_marks)

theorem dedup_no_replay_witness:
  "fst (dc_reserve 999999 (dc_run (dc_set 0 (dc_new 10 2) 7 ''ok'' 200 None)
     [DReserve 50 9, DSet 60 9 ''ok'' 200 None, DTick 70]) 5) \<noteq> Reserved"
  by (rule dedup_no_replay) simp_all

text \<open>an in-flight reservation is exclusive. After \<open>reserve\<close> accepted an id, every further
  \<open>reserve\<close> of it within the time to live answers \<open>duplicate\<close>, across any other calls that neither
  finalize nor release that id, as long as they do not fill the cache to its capacity.\<close>

theorem dedup_inflight_blocked:
  assumes "dc_inv c" and "fst (dc_reserve now c u) = Reserved"
    and "\<forall>op\<in>set ops. \<not> dc_settles u op"
    and "\<forall>op\<in>set ops. \<forall>t. dc_op_time op = Some t \<longrightarrow> t \<le> now + dc_ttlMs c"
    and "dc_size c + length (filter dc_inserts ops) < dc_maxSize c"
    and "now' \<le> now + dc_ttlMs c"
  shows "fst (dc_reserve now' (dc_run (snd (dc_reserve now c u)) ops) u) = Duplicate"
proof -
  let ?c1 = "snd (dc_reserve now c u)"
  have c1: "?c1 = dc_apply c (DReserve now u)" by simp
  have "length (dc_cache ?c1) + length (filter dc_inserts ops) \<le> dc_maxSize ?c1"
    using length_dc_apply [of c "DReserve now u"] assms(5) unfolding c1 dc_maxSize_apply
    by (simp add: dc_size_def)
  moreover have "dc_inv ?c1" unfolding c1 using assms(1) by (rule dc_inv_apply)
  ultimately have "dc_holds (dc_run ?c1 ops) u (now + dc_ttlMs c)"
    using assms by (intro dc_holds_run) (auto intro: dc_reserve_holds)
  with assms(6) show ?thesis by (simp add: dc_holds_reserve)
qed

theorem dedup_inflight_blocked_witness:
  "fst (dc_reserve 8 (dc_run (snd (dc_reserve 0 (dc_new 10 5) 7))
     [DReserve 1 9, DSet 4 9 ''ok'' 200 None, DGet 5 7]) 7) = Duplicate"
  by (rule dedup_inflight_blocked)
     (simp_all add: dc_inv_def dc_reserve_def dc_new_def at_or_below_mark_def dc_size_def)

text \<open>work of a departed bot is dropped. If the cache was reset after a caller reserved in some
  generation, then both completions of that caller, finalize and release, leave the cache exactly as
  it is, whatever else happened before and after the reset.\<close>

theorem dedup_reset_isolates:
  assumes "DReset \<in> set ops"
  shows "dc_set now (dc_run c ops) u body status (Some (dc_generation c)) = dc_run c ops \<and>
         dc_unreserve (dc_run c ops) u (Some (dc_generation c)) = dc_run c ops"
proof -
  have "count_list ops DReset \<noteq> 0" using assms by (simp add: count_list_0_iff)
  then have "dc_generation c \<noteq> dc_generation (dc_run c ops)" by (simp add: dc_generation_run)
  then show ?thesis by (simp add: dc_set_def dc_unreserve_def reserved_in_def)
qed

theorem dedup_reset_isolates_witness:
  "dc_set 9 (dc_run (dc_new 10 5) [DReserve 0 7, DReset, DReserve 3 7]) 7 ''old'' 200 (Some (dc_generation (dc_new 10 5)))
     = dc_run (dc_new 10 5) [DReserve 0 7, DReset, DReserve 3 7] \<and>
   dc_unreserve (dc_run (dc_new 10 5) [DReserve 0 7, DReset, DReserve 3 7]) 7 (Some (dc_generation (dc_new 10 5)))
     = dc_run (dc_new 10 5) [DReserve 0 7, DReset, DReserve 3 7]"
  by (rule dedup_reset_isolates) simp

text \<open>bounded memory. In every state any sequence of calls can reach, both caches hold at most
  \<open>maxSize\<close> entries, with one entry per key.\<close>

theorem dedup_bounded:
  assumes "0 < maxSize"
  shows "dc_size (dc_run (dc_new ttlMs maxSize) ops) \<le> maxSize \<and>
         distinct (map fst (dc_cache (dc_run (dc_new ttlMs maxSize) ops))) \<and>
         sd_size (sd_run (sd_new ttlMs maxSize) sops) \<le> maxSize \<and>
         distinct (map fst (sd_cache (sd_run (sd_new ttlMs maxSize) sops)))"
proof -
  have "dc_inv (dc_run (dc_new ttlMs maxSize) ops)"
    using assms by (intro dc_inv_run dc_inv_new)
  then have "dc_size (dc_run (dc_new ttlMs maxSize) ops) \<le> maxSize"
    and "distinct (map fst (dc_cache (dc_run (dc_new ttlMs maxSize) ops)))"
    by (auto simp: dc_inv_def dc_size_def jm_wf_def dc_maxSize_run dc_new_def)
  moreover have "sd_inv (sd_run (sd_new ttlMs maxSize) sops)"
    using assms by (intro sd_inv_run sd_inv_new)
  then have "sd_size (sd_run (sd_new ttlMs maxSize) sops) \<le> maxSize"
    and "distinct (map fst (sd_cache (sd_run (sd_new ttlMs maxSize) sops)))"
    by (auto simp: sd_inv_def sd_size_def jm_wf_def sd_maxSize_run sd_new_def)
  ultimately show ?thesis by blast
qed

theorem dedup_bounded_witness:
  "dc_size (dc_run (dc_new 10 1) [DReserve 0 1, DReserve 1 2, DSet 2 3 ''x'' 200 None]) \<le> 1 \<and>
   distinct (map fst (dc_cache (dc_run (dc_new 10 1) [DReserve 0 1, DReserve 1 2, DSet 2 3 ''x'' 200 None]))) \<and>
   sd_size (sd_run (sd_new 10 1) [SMark 0 ''a'', SMark 1 ''b'']) \<le> 1 \<and>
   distinct (map fst (sd_cache (sd_run (sd_new 10 1) [SMark 0 ''a'', SMark 1 ''b''])))"
  by (rule dedup_bounded) simp

text \<open>at most one success. Deliveries of one key that start within the time to live run at most
  one handler to success: each cache accepts a delivery only when no earlier one is in flight or was
  finalized, and a failed delivery is released for its retry.\<close>

theorem dedup_at_most_once:
  assumes "dc_inv c" and "sd_inv d"
    and "\<forall>(t, t', _)\<in>set ds. t0 \<le> t' \<and> t \<le> t0 + dc_ttlMs c \<and> t \<le> t0 + sd_ttlMs d"
  shows "deliver_count dc_try (\<lambda>c u. dc_unreserve c u None) (\<lambda>now c u. dc_set now c u body status None)
           c u ds \<le> 1 \<and>
         deliver_count sd_reserve sd_unreserve sd_mark d k ds \<le> 1"
proof
  show "deliver_count dc_try (\<lambda>c u. dc_unreserve c u None) (\<lambda>now c u. dc_set now c u body status None)
          c u ds \<le> 1"
    using assms by (intro dcr.deliver_at_most_once [where ?t0.0 = t0]) auto
  show "deliver_count sd_reserve sd_unreserve sd_mark d k ds \<le> 1"
    using assms by (intro sdr.deliver_at_most_once [where ?t0.0 = t0]) auto
qed

theorem dedup_at_most_once_witness:
  "deliver_count dc_try (\<lambda>c u. dc_unreserve c u None) (\<lambda>now c u. dc_set now c u ''ok'' 200 None)
     (dc_new 10 5) 7 [(1, 2, False), (3, 4, True), (5, 6, True)] \<le> 1 \<and>
   deliver_count sd_reserve sd_unreserve sd_mark (sd_new 10 5) ''m1'' [(1, 2, False), (3, 4, True), (5, 6, True)] \<le> 1"
  by (rule dedup_at_most_once [where ?t0.0 = 0]) (simp_all add: dc_inv_new sd_inv_new dc_new_def sd_new_def dc_inv_def sd_inv_def)

text \<open>C28: string keys are claimed exclusively. Between a successful \<open>reserve\<close> of a key and the \<open>mark\<close>
  or \<open>unreserve\<close> that settles it, no other \<open>reserve\<close> of the key succeeds and \<open>seen\<close> reports it, at
  any time and across any other calls, evictions included.\<close>

theorem string_dedup_exclusive:
  assumes "fst (sd_reserve now c k)" and "\<forall>op\<in>set ops. \<not> sd_settles k op"
  shows "\<not> fst (sd_reserve now' (sd_run (snd (sd_reserve now c k)) ops) k) \<and>
         fst (sd_seen now' (sd_run (snd (sd_reserve now c k)) ops) k)"
  using sd_processing_run [OF sd_reserve_processing [OF assms(1)] assms(2)]
  by (simp add: sd_reserve_def sd_seen_def sd_has_def)

theorem string_dedup_exclusive_witness:
  "\<not> fst (sd_reserve 500 (sd_run (snd (sd_reserve 0 (sd_new 10 1) ''a'')) [SMark 1 ''b'', SMark 2 ''c'', STick 90]) ''a'') \<and>
   fst (sd_seen 500 (sd_run (snd (sd_reserve 0 (sd_new 10 1) ''a'')) [SMark 1 ''b'', SMark 2 ''c'', STick 90]) ''a'')"
  by (rule string_dedup_exclusive) (simp_all add: sd_reserve_def sd_has_def sd_new_def)

end
