(* ===== verification/Rate_Limiters.thy ===== *)
theory Rate_Limiters
  imports Prelude "HOL-Library.Multiset"
begin

text \<open>
  The in-memory limiters: \<open>AuthRateLimiter\<close> (\<^verbatim>\<open>gateway/src/auth-rate-limiter.ts\<close>),
  \<open>TokenRateLimiter\<close> (\<^verbatim>\<open>assistant/src/runtime/middleware/rate-limiter.ts\<close>) and
  \<open>RejectionRateLimiter\<close> (\<^verbatim>\<open>gateway/src/rejection-rate-limiter.ts\<close>).

  The first two keep, per key, the time stamps of past events in the order they were recorded and
  shift the expired ones off the front (\<open>shift_expired\<close>). The arrays are mutated in place by the
  sources; here the new array is stored back under its key. Each operation takes its clock reading.
  The theorems relate the arrays to the full history of the calls, for calls in the order of time.
\<close>

section \<open>Sliding windows\<close>

definition shift_expired :: "('e \<Rightarrow> int) \<Rightarrow> int \<Rightarrow> 'e list \<Rightarrow> 'e list" where
  "shift_expired time_of cutoff es = dropWhile (\<lambda>e. time_of e \<le> cutoff) es"

definition recent :: "('e \<Rightarrow> int) \<Rightarrow> int \<Rightarrow> 'e list \<Rightarrow> 'e list" where
  "recent time_of cutoff es = filter (\<lambda>e. cutoff < time_of e) es"

text \<open>The sweep shared by both sliding-window limiters: shift every array, drop the empty ones.\<close>

definition evictStale ::
  "('e \<Rightarrow> int) \<Rightarrow> int \<Rightarrow> int \<Rightarrow> ('k, 'e list) jsmap \<Rightarrow> ('k, 'e list) jsmap" where
  "evictStale time_of windowMs now m =
     filter (\<lambda>(_, es). es \<noteq> []) (map (\<lambda>(k, es). (k, shift_expired time_of (now - windowMs) es)) m)"

definition room_for_key ::
  "('e \<Rightarrow> int) \<Rightarrow> int \<Rightarrow> int \<Rightarrow> nat \<Rightarrow> ('k, 'e list) jsmap \<Rightarrow> ('k, 'e list) jsmap" where
  "room_for_key time_of windowMs now cap m =
     (if cap \<le> length m
      then let m1 = evictStale time_of windowMs now m
           in if cap \<le> length m1 then jm_drop_oldest m1 else m1
      else m)"

text \<open>\<open>Math.ceil(a / b)\<close> for an integer \<open>a\<close> and a positive integer \<open>b\<close>.\<close>

definition ceil_div :: "int \<Rightarrow> int \<Rightarrow> int" where
  "ceil_div a b = - ((- a) div b)"

section \<open>AuthRateLimiter\<close>

definition DEFAULT_MAX_FAILURES :: nat where
  "DEFAULT_MAX_FAILURES = 10"

definition MAX_TRACKED_IPS :: nat where
  "MAX_TRACKED_IPS = 50000"

record auth_limiter =
  al_failures :: "(string, int list) jsmap"
  al_maxFailures :: nat
  al_windowMs :: int

definition al_new :: "nat \<Rightarrow> int \<Rightarrow> auth_limiter" where
  "al_new maxFailures windowMs = \<lparr>al_failures = [], al_maxFailures = maxFailures, al_windowMs = windowMs\<rparr>"

definition recordFailure :: "int \<Rightarrow> auth_limiter \<Rightarrow> string \<Rightarrow> auth_limiter" where
  "recordFailure now l ip =
     (case jm_get (al_failures l) ip of
        None \<Rightarrow>
          l\<lparr>al_failures :=
              jm_set (room_for_key id (al_windowMs l) now MAX_TRACKED_IPS (al_failures l)) ip ([] @ [now])\<rparr>
      | Some timestamps \<Rightarrow> l\<lparr>al_failures := jm_set (al_failures l) ip (timestamps @ [now])\<rparr>)"

definition isBlocked :: "int \<Rightarrow> auth_limiter \<Rightarrow> string \<Rightarrow> bool \<times> auth_limiter" where
  "isBlocked now l ip =
     (case jm_get (al_failures l) ip of
        None \<Rightarrow> (False, l)
      | Some timestamps \<Rightarrow>
          let ts = shift_expired id (now - al_windowMs l) timestamps in
          if ts = [] then (False, l\<lparr>al_failures := jm_delete (al_failures l) ip\<rparr>)
          else (al_maxFailures l \<le> length ts, l\<lparr>al_failures := jm_set (al_failures l) ip ts\<rparr>))"

definition clearIp :: "auth_limiter \<Rightarrow> string \<Rightarrow> auth_limiter" where
  "clearIp l ip = l\<lparr>al_failures := jm_delete (al_failures l) ip\<rparr>"

datatype al_op = AFail int string | ACheck int string | AClear int string

fun al_time :: "al_op \<Rightarrow> int" where
  "al_time (AFail t _) = t" | "al_time (ACheck t _) = t" | "al_time (AClear t _) = t"

fun al_ip :: "al_op \<Rightarrow> string" where
  "al_ip (AFail _ ip) = ip" | "al_ip (ACheck _ ip) = ip" | "al_ip (AClear _ ip) = ip"

fun al_apply :: "auth_limiter \<Rightarrow> al_op \<Rightarrow> auth_limiter" where
  "al_apply l (AFail t ip) = recordFailure t l ip"
| "al_apply l (ACheck t ip) = snd (isBlocked t l ip)"
| "al_apply l (AClear t ip) = clearIp l ip"

text \<open>The specification: the failures of an address since it was last cleared.\<close>

fun al_history :: "string \<Rightarrow> int list \<Rightarrow> al_op list \<Rightarrow> int list" where
  "al_history ip h [] = h"
| "al_history ip h (AFail t ip' # ops) = al_history ip (if ip' = ip then h @ [t] else h) ops"
| "al_history ip h (AClear t ip' # ops) = al_history ip (if ip' = ip then [] else h) ops"
| "al_history ip h (ACheck t ip' # ops) = al_history ip h ops"

definition failures_since :: "int \<Rightarrow> int list \<Rightarrow> nat" where
  "failures_since cutoff h = length (filter (\<lambda>t. cutoff < t) h)"

section \<open>TokenRateLimiter\<close>

record request_entry =
  re_timestamp :: int
  re_path :: string

record RateLimitResult =
  rr_allowed :: bool
  rr_limit :: nat
  rr_remaining :: int
  rr_resetAt :: int

record token_limiter =
  tl_requests :: "(string, request_entry list) jsmap"
  tl_maxRequests :: nat
  tl_windowMs :: int
  tl_maxTrackedKeys :: nat

definition tl_new :: "nat \<Rightarrow> int \<Rightarrow> nat \<Rightarrow> token_limiter" where
  "tl_new maxRequests windowMs maxTrackedKeys =
     \<lparr>tl_requests = [], tl_maxRequests = maxRequests, tl_windowMs = windowMs,
      tl_maxTrackedKeys = maxTrackedKeys\<rparr>"

definition setMaxRequests :: "token_limiter \<Rightarrow> nat \<Rightarrow> token_limiter" where
  "setMaxRequests l n = l\<lparr>tl_maxRequests := n\<rparr>"

definition check_limit ::
  "int \<Rightarrow> token_limiter \<Rightarrow> string \<Rightarrow> string option \<Rightarrow> RateLimitResult \<times> token_limiter" where
  "check_limit now l key path =
     (let requests1 = (if jm_has (tl_requests l) key then tl_requests l
                       else jm_set (room_for_key re_timestamp (tl_windowMs l) now (tl_maxTrackedKeys l)
                                      (tl_requests l)) key []);
          entries0 = (case jm_get requests1 key of None \<Rightarrow> [] | Some es \<Rightarrow> es);
          entries = shift_expired re_timestamp (now - tl_windowMs l) entries0;
          remaining = max 0 (int (tl_maxRequests l) - int (length entries));
          resetAt = (case entries of
                       e # _ \<Rightarrow> ceil_div (re_timestamp e + tl_windowMs l) 1000
                     | [] \<Rightarrow> ceil_div (now + tl_windowMs l) 1000)
      in if tl_maxRequests l \<le> length entries
         then (\<lparr>rr_allowed = False, rr_limit = tl_maxRequests l, rr_remaining = 0, rr_resetAt = resetAt\<rparr>,
               l\<lparr>tl_requests := jm_set requests1 key entries\<rparr>)
         else (\<lparr>rr_allowed = True, rr_limit = tl_maxRequests l, rr_remaining = remaining - 1,
                rr_resetAt = resetAt\<rparr>,
               l\<lparr>tl_requests := jm_set requests1 key
                   (entries @ [\<lparr>re_timestamp = now,
                                re_path = (case path of None \<Rightarrow> ''unknown'' | Some p \<Rightarrow> p)\<rparr>])\<rparr>))"

fun count_paths :: "int \<Rightarrow> request_entry list \<Rightarrow> (string, nat) jsmap \<Rightarrow> (string, nat) jsmap" where
  "count_paths cutoff [] counts = counts"
| "count_paths cutoff (e # es) counts =
     count_paths cutoff es
       (if cutoff < re_timestamp e
        then jm_set counts (re_path e)
               ((case jm_get counts (re_path e) of None \<Rightarrow> 0 | Some n \<Rightarrow> n) + 1)
        else counts)"

definition getRecentPathCounts :: "int \<Rightarrow> token_limiter \<Rightarrow> string \<Rightarrow> (string \<times> nat) list" where
  "getRecentPathCounts now l key =
     (case jm_get (tl_requests l) key of
        None \<Rightarrow> []
      | Some entries \<Rightarrow>
          if entries = [] then []
          else sort_key (\<lambda>(_, n). - int n) (count_paths (now - tl_windowMs l) entries []))"

definition retryAfter :: "int \<Rightarrow> RateLimitResult \<Rightarrow> int" where
  "retryAfter now r = max 1 (rr_resetAt r - ceil_div now 1000)"

text \<open>The three singletons of the module and the choice between the authenticated ones.\<close>

record api_limiters =
  apiRateLimiter :: token_limiter
  loopbackApiRateLimiter :: token_limiter
  ipRateLimiter :: token_limiter

definition api_limiters_init :: "nat \<Rightarrow> api_limiters" where
  "api_limiters_init configured =
     \<lparr>apiRateLimiter = tl_new configured 60000 10000,
      loopbackApiRateLimiter = tl_new 1200 60000 10000,
      ipRateLimiter = tl_new 20 60000 50000\<rparr>"

definition isRateLimitExemptEndpoint :: "string \<Rightarrow> bool" where
  "isRateLimitExemptEndpoint e = (e \<in> set [''events'', ''health'', ''healthz'', ''readyz''])"

text \<open>A run of checks: clock, key, path; the outcome of each check in order.\<close>

fun tl_run :: "token_limiter \<Rightarrow> (int \<times> string \<times> string option) list \<Rightarrow>
    token_limiter \<times> (int \<times> string \<times> bool) list" where
  "tl_run l [] = (l, [])"
| "tl_run l ((t, k, p) # cs) =
     (case check_limit t l k p of (r, l') \<Rightarrow>
        case tl_run l' cs of (l'', rs) \<Rightarrow> (l'', (t, k, rr_allowed r) # rs))"

definition allowed_between :: "string \<Rightarrow> int \<Rightarrow> int \<Rightarrow> (int \<times> string \<times> bool) list \<Rightarrow> nat" where
  "allowed_between key lo hi rs =
     length (filter (\<lambda>(t, k, a). k = key \<and> a \<and> lo < t \<and> t \<le> hi) rs)"

section \<open>RejectionRateLimiter\<close>

definition REJECTION_NOTICE_COOLDOWN_MS :: int where
  "REJECTION_NOTICE_COOLDOWN_MS = 5 * 60 * 1000"

definition MAX_REJECTION_CACHE_SIZE :: nat where
  "MAX_REJECTION_CACHE_SIZE = 10000"

type_synonym rejection_limiter = "(string, int) jsmap"

definition purge_rejections :: "int \<Rightarrow> rejection_limiter \<Rightarrow> rejection_limiter" where
  "purge_rejections now m =
     (if MAX_REJECTION_CACHE_SIZE \<le> length m
      then let m1 = jm_sweep (\<lambda>_ ts. now - ts \<ge> REJECTION_NOTICE_COOLDOWN_MS) m
           in if MAX_REJECTION_CACHE_SIZE \<le> length m1
              then let sorted = sort_key snd m1;
                       toRemove = length sorted - MAX_REJECTION_CACHE_SIZE + 1
                   in foldl jm_delete m1 (map fst (take toRemove sorted))
              else m1
      else m)"

definition shouldSend :: "int \<Rightarrow> rejection_limiter \<Rightarrow> string \<Rightarrow> bool \<times> rejection_limiter" where
  "shouldSend now m r =
     (case jm_get m r of
        Some lastSent \<Rightarrow>
          if now - lastSent < REJECTION_NOTICE_COOLDOWN_MS then (False, m)
          else (True, jm_set (purge_rejections now (jm_delete m r)) r now)
      | None \<Rightarrow> (True, jm_set (purge_rejections now m) r now))"

fun shouldSend_run :: "rejection_limiter \<Rightarrow> (int \<times> string) list \<Rightarrow> rejection_limiter" where
  "shouldSend_run m [] = m"
| "shouldSend_run m ((now, r) # cs) = shouldSend_run (snd (shouldSend now m r)) cs"

section \<open>Lemmas on sliding windows\<close>

lemma shift_expired_sorted:
  "sorted (map f es) \<Longrightarrow> shift_expired f c es = recent f c es"
proof (induction es)
  case Nil
  then show ?case by (simp add: shift_expired_def recent_def)
next
  case (Cons e es)
  show ?case
  proof (cases "f e \<le> c")
    case True
    with Cons show ?thesis by (simp add: shift_expired_def recent_def)
  next
    case False
    with Cons.prems have "\<forall>x\<in>set es. c < f x" by auto
    with False show ?thesis by (simp add: shift_expired_def recent_def)
  qed
qed

lemma shift_expired_Nil [simp]: "shift_expired f c [] = []"
  by (simp add: shift_expired_def)

lemma recent_recent [simp]: "c \<le> c' \<Longrightarrow> recent f c' (recent f c es) = recent f c' es"
  by (induction es) (auto simp: recent_def)

lemma recent_append [simp]: "recent f c (es @ es') = recent f c es @ recent f c es'"
  by (simp add: recent_def)

lemma recent_Nil [simp]: "recent f c [] = []"
  by (simp add: recent_def)

lemma recent_sorted: "sorted (map f es) \<Longrightarrow> sorted (map f (recent f c es))"
  by (simp add: recent_def sorted_filter)

lemma map_recent: "map f (recent f c es) = recent id c (map f es)"
  by (induction es) (auto simp: recent_def)

lemma evictStale_wf: "jm_wf m \<Longrightarrow> jm_wf (evictStale f w now m)"
  unfolding evictStale_def by (intro jm_wf_filter) (auto simp: jm_wf_def o_def case_prod_beta)

lemma room_for_key_id: "length m < cap \<Longrightarrow> room_for_key f w now cap m = m"
  by (simp add: room_for_key_def)

lemma ceil_div_mono: "0 < b \<Longrightarrow> a \<le> a' \<Longrightarrow> ceil_div a b \<le> ceil_div a' b"
  by (simp add: ceil_div_def zdiv_mono1)

lemma ceil_div_bounds: "0 < b \<Longrightarrow> a \<le> ceil_div a b * b \<and> ceil_div a b * b < a + b"
proof -
  assume b: "0 < b"
  have "- a = ((- a) div b) * b + (- a) mod b" by simp
  moreover have "0 \<le> (- a) mod b" "(- a) mod b < b" using b by simp_all
  moreover have "ceil_div a b * b = - (((- a) div b) * b)" by (simp add: ceil_div_def)
  ultimately show ?thesis by linarith
qed

lemma keys_bound:
  assumes "jm_wf m" and "fst ` set m \<subseteq> S" and "finite S" and "k \<in> S" and "jm_get m k = None"
  shows "length m < card S"
proof -
  have "length m = card (fst ` set m)"
    using assms(1) by (metis distinct_card jm_wf_def length_map set_map)
  also have "\<dots> < card S"
    using assms by (intro psubset_card_mono) (auto simp: jm_get_eq_None)
  finally show ?thesis .
qed

section \<open>AuthRateLimiter against the history of its calls\<close>

text \<open>
  \<open>al_rel now l h\<close>: the arrays are in the order of time, not later than \<open>now\<close>, and agree with the
  history on everything still inside the window.
\<close>

definition al_arr :: "auth_limiter \<Rightarrow> string \<Rightarrow> int list" where
  "al_arr l ip = (case jm_get (al_failures l) ip of None \<Rightarrow> [] | Some ts \<Rightarrow> ts)"

definition al_rel :: "string set \<Rightarrow> int \<Rightarrow> auth_limiter \<Rightarrow> (string \<Rightarrow> int list) \<Rightarrow> bool" where
  "al_rel S now l h \<longleftrightarrow>
     jm_wf (al_failures l) \<and> fst ` set (al_failures l) \<subseteq> S \<and>
     (\<forall>ip. sorted (al_arr l ip) \<and> (\<forall>t\<in>set (al_arr l ip). t \<le> now) \<and>
           recent id (now - al_windowMs l) (al_arr l ip) = recent id (now - al_windowMs l) (h ip))"

lemma al_rel_later: "al_rel S now l h \<Longrightarrow> now \<le> now' \<Longrightarrow> al_rel S now' l h"
proof -
  assume rel: "al_rel S now l h" and le: "now \<le> now'"
  have "recent id (now' - al_windowMs l) (al_arr l ip) = recent id (now' - al_windowMs l) (h ip)" for ip
    using rel le recent_recent [of "now - al_windowMs l" "now' - al_windowMs l" id]
    unfolding al_rel_def by (metis diff_right_mono)
  moreover have "t \<in> set (al_arr l ip) \<Longrightarrow> t \<le> now'" for t ip
    using rel le unfolding al_rel_def by force
  ultimately show ?thesis using rel unfolding al_rel_def by blast
qed

lemma recordFailure_stored:
  assumes "al_rel S now l h" and "finite S" and "card S \<le> MAX_TRACKED_IPS" and "ip \<in> S"
  shows "al_failures (recordFailure now l ip) = jm_set (al_failures l) ip (al_arr l ip @ [now])"
proof (cases "jm_get (al_failures l) ip")
  case None
  with assms have "length (al_failures l) < MAX_TRACKED_IPS"
    using keys_bound [of "al_failures l" S ip] by (auto simp: al_rel_def)
  with None show ?thesis by (simp add: recordFailure_def al_arr_def room_for_key_id)
next
  case (Some ts)
  then show ?thesis by (simp add: recordFailure_def al_arr_def)
qed

lemma al_windowMs_apply [simp]: "al_windowMs (al_apply l op) = al_windowMs l"
  by (cases op) (auto simp: recordFailure_def isBlocked_def clearIp_def Let_def split: option.splits)

lemma al_maxFailures_apply [simp]: "al_maxFailures (al_apply l op) = al_maxFailures l"
  by (cases op) (auto simp: recordFailure_def isBlocked_def clearIp_def Let_def split: option.splits)

lemma al_arr_isBlocked:
  "al_arr (snd (isBlocked now l ip)) ip' =
     (if ip' = ip then shift_expired id (now - al_windowMs l) (al_arr l ip) else al_arr l ip')"
  by (auto simp: al_arr_def isBlocked_def Let_def jm_simps split: option.splits)

lemma keys_del: "fst ` set (jm_delete m k) \<subseteq> fst ` set m"
  by (auto simp: jm_delete_def)

lemma isBlocked_wf: "jm_wf (al_failures l) \<Longrightarrow> jm_wf (al_failures (snd (isBlocked now l ip)))"
  by (auto simp: isBlocked_def Let_def split: option.splits)

lemma isBlocked_keys: "fst ` set (al_failures (snd (isBlocked now l ip))) \<subseteq> fst ` set (al_failures l)"
proof -
  have "jm_get (al_failures l) ip = Some ts \<Longrightarrow> ip \<in> fst ` set (al_failures l)" for ts
    using jm_get_eq_None [of "al_failures l" ip] by auto
  then show ?thesis
    using keys_del [of "al_failures l" ip]
    by (auto simp: isBlocked_def Let_def keys_jm_set split: option.splits)
qed

lemma al_rel_fail:
  assumes rel: "al_rel S now l h" and S: "finite S" "card S \<le> MAX_TRACKED_IPS" "ip \<in> S"
  shows "al_rel S now (recordFailure now l ip) (h(ip := h ip @ [now]))"
proof -
  note st = recordFailure_stored [OF rel S]
  have w: "al_windowMs (recordFailure now l ip) = al_windowMs l"
    using al_windowMs_apply [of l "AFail now ip"] by simp
  have arr: "al_arr (recordFailure now l ip) ip' = (if ip' = ip then al_arr l ip @ [now] else al_arr l ip')" for ip'
    by (simp add: al_arr_def st)
  show ?thesis using rel S(3) unfolding al_rel_def arr w
    by (auto simp: st keys_jm_set sorted_append)
qed

lemma al_rel_check:
  assumes rel: "al_rel S now l h"
  shows "al_rel S now (snd (isBlocked now l ip)) h"
proof -
  have w: "al_windowMs (snd (isBlocked now l ip)) = al_windowMs l"
    using al_windowMs_apply [of l "ACheck now ip"] by simp
  have sh: "shift_expired id (now - al_windowMs l) (al_arr l ip) = recent id (now - al_windowMs l) (al_arr l ip)"
    using rel by (intro shift_expired_sorted) (simp add: al_rel_def)
  have per: "sorted (al_arr l i) \<and> (\<forall>t\<in>set (al_arr l i). t \<le> now) \<and>
      recent id (now - al_windowMs l) (al_arr l i) = recent id (now - al_windowMs l) (h i)" for i
    using rel by (simp add: al_rel_def)
  have new: "sorted (recent id c (al_arr l i)) \<and> (\<forall>t\<in>set (recent id c (al_arr l i)). t \<le> now)" for i c
    using per [of i] recent_sorted [of id "al_arr l i" c] by (simp add: recent_def)
  have newh: "sorted (recent id (now - al_windowMs l) (h i)) \<and>
      (\<forall>t\<in>set (recent id (now - al_windowMs l) (h i)). t \<le> now)" for i
    using new [of "now - al_windowMs l" i] per [of i] by simp
  show ?thesis
    unfolding al_rel_def al_arr_isBlocked w sh
  proof (intro conjI allI)
    show "jm_wf (al_failures (snd (isBlocked now l ip)))"
      using rel by (simp add: al_rel_def isBlocked_wf)
    show "fst ` set (al_failures (snd (isBlocked now l ip))) \<subseteq> S"
      using rel isBlocked_keys [of now l ip] by (auto simp: al_rel_def)
  qed (use per new newh in auto)
qed

lemma al_rel_clear:
  assumes rel: "al_rel S now l h"
  shows "al_rel S now (clearIp l ip) (h(ip := []))"
proof -
  have arr: "al_arr (clearIp l ip) ip' = (if ip' = ip then [] else al_arr l ip')" for ip'
    by (simp add: al_arr_def clearIp_def jm_get_delete)
  have "jm_wf (al_failures (clearIp l ip))" "fst ` set (al_failures (clearIp l ip)) \<subseteq> S"
    using rel keys_del [of "al_failures l" ip] by (auto simp: al_rel_def clearIp_def)
  moreover have "al_windowMs (clearIp l ip) = al_windowMs l" by (simp add: clearIp_def)
  ultimately show ?thesis using rel unfolding al_rel_def arr by simp
qed

lemma al_rel_run:
  assumes "al_rel S now l h" and "finite S" and "card S \<le> MAX_TRACKED_IPS"
    and "sorted (map al_time ops)" and "\<forall>op\<in>set ops. al_ip op \<in> S \<and> now \<le> al_time op"
    and "\<forall>op\<in>set ops. al_time op \<le> now'" and "now \<le> now'"
  shows "al_rel S now' (foldl al_apply l ops) (\<lambda>ip. al_history ip (h ip) ops) \<and>
         al_windowMs (foldl al_apply l ops) = al_windowMs l \<and>
         al_maxFailures (foldl al_apply l ops) = al_maxFailures l"
  using assms
proof (induction ops arbitrary: l h now)
  case Nil
  then show ?case by (auto intro: al_rel_later)
next
  case (Cons op ops)
  let ?t = "al_time op"
  have rel: "al_rel S ?t l h" using Cons.prems by (auto intro: al_rel_later)
  obtain h' where h': "al_rel S ?t (al_apply l op) h'"
    and hist: "\<And>ip. al_history ip (h ip) (op # ops) = al_history ip (h' ip) ops"
  proof (cases op)
    case (AFail t ip)
    with rel Cons.prems show ?thesis
      by (intro that [of "h(ip := h ip @ [t])"]) (auto intro: al_rel_fail)
  next
    case (ACheck t ip)
    with rel show ?thesis by (intro that [of h]) (auto intro: al_rel_check)
  next
    case (AClear t ip)
    with rel show ?thesis by (intro that [of "h(ip := [])"]) (auto intro: al_rel_clear)
  qed
  have "al_rel S now' (foldl al_apply (al_apply l op) ops) (\<lambda>ip. al_history ip (h' ip) ops) \<and>
     al_windowMs (foldl al_apply (al_apply l op) ops) = al_windowMs (al_apply l op) \<and>
     al_maxFailures (foldl al_apply (al_apply l op) ops) = al_maxFailures (al_apply l op)"
    using Cons.prems by (intro Cons.IH [OF h']) auto
  then show ?case by (simp add: hist)
qed

lemma al_rel_new: "al_rel S now (al_new n w) (\<lambda>_. [])"
  by (simp add: al_rel_def al_new_def al_arr_def)

lemma isBlocked_value:
  assumes "al_rel S now l h"
  shows "fst (isBlocked now l ip) =
     (0 < failures_since (now - al_windowMs l) (h ip) \<and>
      al_maxFailures l \<le> failures_since (now - al_windowMs l) (h ip))"
proof -
  have "shift_expired id (now - al_windowMs l) (al_arr l ip) = recent id (now - al_windowMs l) (h ip)"
    using assms shift_expired_sorted [of id "al_arr l ip"] by (simp add: al_rel_def)
  moreover have "failures_since c hs = length (recent id c hs)" for c hs
    by (simp add: failures_since_def recent_def)
  moreover have "fst (isBlocked now l ip) =
      (shift_expired id (now - al_windowMs l) (al_arr l ip) \<noteq> [] \<and>
       al_maxFailures l \<le> length (shift_expired id (now - al_windowMs l) (al_arr l ip)))"
    by (auto simp: isBlocked_def al_arr_def Let_def split: option.splits)
  ultimately show ?thesis by simp
qed

section \<open>TokenRateLimiter against the history of its calls\<close>

definition tl_arr :: "token_limiter \<Rightarrow> string \<Rightarrow> int list" where
  "tl_arr l k = (case jm_get (tl_requests l) k of None \<Rightarrow> [] | Some es \<Rightarrow> map re_timestamp es)"

text \<open>
  \<open>tl_rel key S now l h\<close>: \<open>h\<close> is the list of times at which \<open>key\<close> was allowed, in order; the array
  of \<open>key\<close> agrees with it on the current window, and no window of the history exceeds the budget.
\<close>

definition tl_rel :: "string \<Rightarrow> string set \<Rightarrow> int \<Rightarrow> token_limiter \<Rightarrow> int list \<Rightarrow> bool" where
  "tl_rel key S now l h \<longleftrightarrow>
     jm_wf (tl_requests l) \<and> fst ` set (tl_requests l) \<subseteq> S \<and>
     sorted (tl_arr l key) \<and> (\<forall>t\<in>set (tl_arr l key). t \<le> now) \<and> (\<forall>t\<in>set h. t \<le> now) \<and>
     recent id (now - tl_windowMs l) (tl_arr l key) = recent id (now - tl_windowMs l) h \<and>
     (\<forall>T. length (filter (\<lambda>t. T - tl_windowMs l < t \<and> t \<le> T) h) \<le> tl_maxRequests l)"

lemma map_shift_expired: "map f (shift_expired f c es) = shift_expired id c (map f es)"
  by (simp add: shift_expired_def dropWhile_map o_def)

lemma check_limit_effect:
  assumes "jm_wf (tl_requests l)" and "fst ` set (tl_requests l) \<subseteq> S" and "finite S"
    and "card S \<le> tl_maxTrackedKeys l" and "k \<in> S" and "check_limit now l k p = (r, l')"
  shows "rr_allowed r = (length (shift_expired id (now - tl_windowMs l) (tl_arr l k)) < tl_maxRequests l)"
    and "tl_arr l' k' = (if k' = k then shift_expired id (now - tl_windowMs l) (tl_arr l k) @
                            (if rr_allowed r then [now] else []) else tl_arr l k')"
    and "jm_wf (tl_requests l') \<and> fst ` set (tl_requests l') \<subseteq> S"
    and "tl_windowMs l' = tl_windowMs l \<and> tl_maxRequests l' = tl_maxRequests l \<and>
         tl_maxTrackedKeys l' = tl_maxTrackedKeys l"
proof -
  define req where "req = (if jm_has (tl_requests l) k then tl_requests l
    else jm_set (room_for_key re_timestamp (tl_windowMs l) now (tl_maxTrackedKeys l) (tl_requests l)) k [])"
  have req: "req = (if jm_has (tl_requests l) k then tl_requests l else jm_set (tl_requests l) k [])"
  proof (cases "jm_has (tl_requests l) k")
    case False
    then have "length (tl_requests l) < tl_maxTrackedKeys l"
      using assms keys_bound [of "tl_requests l" S k] by (auto simp: jm_has_def)
    with False show ?thesis by (simp add: req_def room_for_key_id)
  qed (simp add: req_def)
  define es where "es = shift_expired re_timestamp (now - tl_windowMs l)
     (case jm_get req k of None \<Rightarrow> [] | Some es \<Rightarrow> es)"
  have map_es: "map re_timestamp es = shift_expired id (now - tl_windowMs l) (tl_arr l k)"
    unfolding es_def map_shift_expired req by (auto simp: tl_arr_def jm_has_def split: option.splits)
  have len: "length es = length (shift_expired id (now - tl_windowMs l) (tl_arr l k))"
    using arg_cong [OF map_es, of length] by simp
  note res = assms(6) [unfolded check_limit_def, folded req_def, unfolded Let_def, folded es_def]
  have upd: "tl_requests l' = jm_set req k (es @ (if rr_allowed r
      then [\<lparr>re_timestamp = now, re_path = (case p of None \<Rightarrow> ''unknown'' | Some p \<Rightarrow> p)\<rparr>] else []))"
    using res by (auto split: if_splits)
  show allowed: "rr_allowed r = (length (shift_expired id (now - tl_windowMs l) (tl_arr l k)) < tl_maxRequests l)"
    using res len by (auto split: if_splits)
  show "tl_arr l' k' = (if k' = k then shift_expired id (now - tl_windowMs l) (tl_arr l k) @
      (if rr_allowed r then [now] else []) else tl_arr l k')"
    unfolding map_es [symmetric] by (auto simp: tl_arr_def upd req)
  show "jm_wf (tl_requests l') \<and> fst ` set (tl_requests l') \<subseteq> S"
    using assms(1,2,5) by (auto simp: upd req keys_jm_set)
  show "tl_windowMs l' = tl_windowMs l \<and> tl_maxRequests l' = tl_maxRequests l \<and>
      tl_maxTrackedKeys l' = tl_maxTrackedKeys l"
    using res by (auto split: if_splits)
qed

lemma tl_rel_later: "tl_rel key S now l h \<Longrightarrow> now \<le> now' \<Longrightarrow> tl_rel key S now' l h"
proof -
  assume rel: "tl_rel key S now l h" and le: "now \<le> now'"
  have "recent id (now' - tl_windowMs l) (tl_arr l key) = recent id (now' - tl_windowMs l) h"
    using rel le recent_recent [of "now - tl_windowMs l" "now' - tl_windowMs l" id]
    unfolding tl_rel_def by (metis diff_right_mono)
  then show ?thesis using rel le unfolding tl_rel_def by (meson order_trans)
qed

lemma window_append:
  assumes "\<forall>t\<in>set h. t \<le> (now::int)" and "length (recent id (now - w) h) < n"
    and "\<forall>T. length (filter (\<lambda>t. T - w < t \<and> t \<le> T) h) \<le> n"
  shows "length (filter (\<lambda>t. T - w < t \<and> t \<le> T) (h @ [now])) \<le> n"
proof (cases "now \<le> T")
  case True
  have "length (filter (\<lambda>t. T - w < t \<and> t \<le> T) h) \<le> length (filter (\<lambda>t. now - w < t) h)"
    using True by (induction h) auto
  with assms(2) True show ?thesis by (simp add: recent_def)
next
  case False
  with assms(3) show ?thesis by simp
qed

lemma tl_rel_check:
  assumes rel: "tl_rel key S now l h" and S: "finite S" "card S \<le> tl_maxTrackedKeys l" "k \<in> S"
    and c: "check_limit now l k p = (r, l')"
  shows "tl_rel key S now l' (h @ (if k = key \<and> rr_allowed r then [now] else []))"
proof -
  have wf: "jm_wf (tl_requests l)" "fst ` set (tl_requests l) \<subseteq> S" using rel by (auto simp: tl_rel_def)
  note eff = check_limit_effect [OF wf S c]
  let ?c = "now - tl_windowMs l"
  have srt: "sorted (tl_arr l key)" and le: "\<forall>t\<in>set (tl_arr l key). t \<le> now" "\<forall>t\<in>set h. t \<le> now"
    and agree: "recent id ?c (tl_arr l key) = recent id ?c h"
    and win: "\<forall>T. length (filter (\<lambda>t. T - tl_windowMs l < t \<and> t \<le> T) h) \<le> tl_maxRequests l"
    using rel by (auto simp: tl_rel_def)
  have sh: "shift_expired id ?c (tl_arr l key) = recent id ?c h"
    using shift_expired_sorted [of id "tl_arr l key" ?c] srt agree by simp
  have rsrt: "sorted (recent id ?c h)" using recent_sorted [of id "tl_arr l key" ?c] srt agree by simp
  have rle: "\<forall>t\<in>set (recent id ?c h). t \<le> now" using le by (simp add: recent_def)
  show ?thesis
  proof (cases "k = key")
    case True
    have "length (filter (\<lambda>t. T - tl_windowMs l < t \<and> t \<le> T) (h @ (if rr_allowed r then [now] else []))) \<le> tl_maxRequests l" for T
      using window_append [OF le(2), of "tl_windowMs l"] win eff(1) True sh by auto
    with True eff sh rsrt rle le show ?thesis
      unfolding tl_rel_def by (auto simp: sorted_append)
  next
    case False
    with rel eff show ?thesis unfolding tl_rel_def by auto
  qed
qed

lemma tl_run_rel:
  assumes "tl_rel key S now l h" and "finite S" and "card S \<le> tl_maxTrackedKeys l"
    and "sorted (map fst cs)" and "\<forall>(t, k, p)\<in>set cs. k \<in> S \<and> now \<le> t"
  shows "\<exists>now' l' . tl_run l cs = (l', snd (tl_run l cs)) \<and> tl_maxRequests l' = tl_maxRequests l \<and>
     tl_windowMs l' = tl_windowMs l \<and>
     tl_rel key S now' l' (h @ map fst (filter (\<lambda>(t, k, a). k = key \<and> a) (snd (tl_run l cs))))"
  using assms
proof (induction cs arbitrary: l h now)
  case Nil
  then show ?case by auto
next
  case (Cons c cs)
  obtain t k p where c: "c = (t, k, p)" by (cases c)
  obtain r l1 where r: "check_limit t l k p = (r, l1)" by force
  have rel: "tl_rel key S t l h" using Cons.prems c by (auto intro: tl_rel_later)
  have kS: "k \<in> S" using Cons.prems c by auto
  have wf: "jm_wf (tl_requests l)" "fst ` set (tl_requests l) \<subseteq> S" using rel by (auto simp: tl_rel_def)
  note eff = check_limit_effect(4) [OF wf Cons.prems(2,3) kS r]
  note rel1 = tl_rel_check [OF rel Cons.prems(2,3) kS r]
  have "\<exists>now' l'. tl_run l1 cs = (l', snd (tl_run l1 cs)) \<and> tl_maxRequests l' = tl_maxRequests l1 \<and>
     tl_windowMs l' = tl_windowMs l1 \<and>
     tl_rel key S now' l' ((h @ (if k = key \<and> rr_allowed r then [t] else [])) @
        map fst (filter (\<lambda>(t, k, a). k = key \<and> a) (snd (tl_run l1 cs))))"
    using Cons.prems c eff by (intro Cons.IH [OF rel1]) auto
  then show ?case using eff c r by (auto split: prod.splits if_splits)
qed

lemma tl_rel_new: "tl_rel key S now (tl_new n w cap) []"
  by (simp add: tl_rel_def tl_new_def tl_arr_def)

section \<open>RejectionRateLimiter\<close>

lemma foldl_delete_wf: "jm_wf m \<Longrightarrow> jm_wf (foldl jm_delete m ks)"
  by (induction ks arbitrary: m) auto

lemma foldl_delete_filter: "foldl jm_delete m ks = filter (\<lambda>x. fst x \<notin> set ks) m"
proof (induction ks arbitrary: m)
  case Nil
  then show ?case by simp
next
  case (Cons k ks)
  have "foldl jm_delete m (k # ks) = filter (\<lambda>x. fst x \<notin> set ks) (jm_delete m k)"
    by (simp add: Cons)
  also have "\<dots> = filter (\<lambda>x. fst x \<notin> set (k # ks)) m"
    unfolding jm_delete_def filter_filter by (rule filter_cong) auto
  finally show ?case .
qed

lemma length_filter_notin:
  assumes "jm_wf m" and "distinct ks" and "set ks \<subseteq> fst ` set m"
  shows "length (filter (\<lambda>x. fst x \<notin> set ks) m) + length ks = length m"
proof -
  have "distinct (map fst (filter (\<lambda>x. fst x \<in> set ks) m))"
    using jm_wf_filter [OF assms(1)] by (simp add: jm_wf_def)
  then have "length (filter (\<lambda>x. fst x \<in> set ks) m) = card (fst ` set (filter (\<lambda>x. fst x \<in> set ks) m))"
    using distinct_card by fastforce
  also have "fst ` set (filter (\<lambda>x. fst x \<in> set ks) m) = set ks" using assms(3) by force
  also have "card (set ks) = length ks" using assms(2) by (rule distinct_card)
  finally have "length (filter (\<lambda>x. fst x \<in> set ks) m) = length ks" .
  then show ?thesis
    using sum_length_filter_compl [of "\<lambda>x. fst x \<in> set ks" m] by simp
qed

lemma purge_rejections_wf: "jm_wf m \<Longrightarrow> jm_wf (purge_rejections now m)"
  by (auto simp: purge_rejections_def Let_def intro!: foldl_delete_wf)

lemma purge_rejections_small:
  assumes "jm_wf m"
  shows "length (purge_rejections now m) < MAX_REJECTION_CACHE_SIZE"
proof -
  let ?M = MAX_REJECTION_CACHE_SIZE
  let ?m1 = "jm_sweep (\<lambda>_ ts. now - ts \<ge> REJECTION_NOTICE_COOLDOWN_MS) m"
  let ?ks = "map fst (take (length (sort_key snd ?m1) - ?M + 1) (sort_key snd ?m1))"
  have pos: "0 < ?M" by (simp add: MAX_REJECTION_CACHE_SIZE_def)
  have "length (foldl jm_delete ?m1 ?ks) < ?M" if big: "?M \<le> length ?m1"
  proof -
    have wf1: "jm_wf ?m1" using assms by simp
    have perm: "mset (map fst (sort_key snd ?m1)) = mset (map fst ?m1)"
      by simp
    have "distinct (map fst (sort_key snd ?m1))"
      using wf1 perm unfolding jm_wf_def by (metis mset_eq_imp_distinct_iff)
    then have "distinct ?ks" by (metis distinct_take take_map)
    moreover have "set ?ks \<subseteq> fst ` set ?m1"
      using set_take_subset [of _ "sort_key snd ?m1"] by fastforce
    moreover have "length ?ks = length ?m1 - ?M + 1" using big pos by simp
    ultimately have "length (filter (\<lambda>x. fst x \<notin> set ?ks) ?m1) + (length ?m1 - ?M + 1) = length ?m1"
      using length_filter_notin [OF wf1, of ?ks] by simp
    then have "length (filter (\<lambda>x. fst x \<notin> set ?ks) ?m1) < ?M" using big by linarith
    then show ?thesis unfolding foldl_delete_filter .
  qed
  then show ?thesis by (auto simp: purge_rejections_def Let_def not_le)
qed

lemma shouldSend_inv:
  assumes "jm_wf m" and "length m \<le> MAX_REJECTION_CACHE_SIZE"
  shows "jm_wf (snd (shouldSend now m r)) \<and> length (snd (shouldSend now m r)) \<le> MAX_REJECTION_CACHE_SIZE"
  using assms purge_rejections_small [OF assms(1), of now]
    purge_rejections_small [OF jm_wf_delete [OF assms(1)], of now r]
  by (auto simp: shouldSend_def length_jm_set intro!: jm_wf_set purge_rejections_wf split: option.splits)

lemma shouldSend_keeps:
  assumes "jm_get m r = Some t" and "now - t < REJECTION_NOTICE_COOLDOWN_MS"
    and "length m < MAX_REJECTION_CACHE_SIZE"
  shows "jm_get (snd (shouldSend now m r')) r = Some t"
    and "length (snd (shouldSend now m r')) \<le> Suc (length m)"
proof -
  have small: "purge_rejections now m = m" "purge_rejections now (jm_delete m r') = jm_delete m r'"
    using assms(3) length_jm_delete_le [of m r']
    by (auto simp: purge_rejections_def simp del: length_jm_delete_le)
  show "jm_get (snd (shouldSend now m r')) r = Some t"
    using assms small by (auto simp: shouldSend_def jm_get_delete split: option.splits)
  show "length (snd (shouldSend now m r')) \<le> Suc (length m)"
    using small by (auto simp: shouldSend_def jm_bounds split: option.splits)
qed

lemma shouldSend_run_keeps:
  assumes "jm_get m r = Some t" and "\<forall>(now, _)\<in>set cs. now - t < REJECTION_NOTICE_COOLDOWN_MS"
    and "length m + length cs \<le> MAX_REJECTION_CACHE_SIZE"
  shows "jm_get (shouldSend_run m cs) r = Some t"
  using assms
proof (induction cs arbitrary: m)
  case Nil
  then show ?case by simp
next
  case (Cons c cs)
  obtain now r' where c: "c = (now, r')" by (cases c)
  have "now - t < REJECTION_NOTICE_COOLDOWN_MS" "length m < MAX_REJECTION_CACHE_SIZE"
    using Cons.prems c by auto
  from shouldSend_keeps [OF Cons.prems(1) this, of r'] Cons c show ?case by auto
qed

section \<open>Path counts\<close>

definition total_count :: "(string, nat) jsmap \<Rightarrow> nat" where
  "total_count m = sum_list (map snd m)"

lemma total_count_bump:
  "total_count (jm_set m p (Suc (case jm_get m p of None \<Rightarrow> 0 | Some n \<Rightarrow> n))) = Suc (total_count m)"
  by (induction m) (auto simp: total_count_def split: option.splits)

lemma total_count_paths:
  "total_count (count_paths c es m) = total_count m + length (recent re_timestamp c es)"
  by (induction c es m rule: count_paths.induct) (auto simp: recent_def total_count_bump)

section \<open>Properties\<close>

text \<open>the sliding-window bound. For any sequence of checks in the order of time on at most
  \<open>maxTrackedKeys\<close> different keys, the number of requests a key is allowed in any time window of
  length \<open>windowMs\<close>, wherever it lies, is at most \<open>maxRequests\<close>.\<close>

theorem rate_limit_window:
  assumes "sorted (map fst cs)" and "card ((fst \<circ> snd) ` set cs) \<le> maxTrackedKeys"
  shows "allowed_between key (T - windowMs) T
           (snd (tl_run (tl_new maxRequests windowMs maxTrackedKeys) cs)) \<le> maxRequests"
proof -
  let ?l = "tl_new maxRequests windowMs maxTrackedKeys" and ?S = "(fst \<circ> snd) ` set cs"
  define now where "now = (case cs of [] \<Rightarrow> 0 | c # _ \<Rightarrow> fst c)"
  have le: "\<forall>(t, k, p)\<in>set cs. k \<in> ?S \<and> now \<le> t"
    using assms(1) by (cases cs) (force simp: now_def)+
  have proj: "tl_maxRequests ?l = maxRequests" "tl_windowMs ?l = windowMs" "tl_maxTrackedKeys ?l = maxTrackedKeys"
    by (simp_all add: tl_new_def)
  obtain now' l' where "tl_maxRequests l' = maxRequests" "tl_windowMs l' = windowMs"
    and rel: "tl_rel key ?S now' l' ([] @ map fst (filter (\<lambda>(t, k, a). k = key \<and> a) (snd (tl_run ?l cs))))"
    using tl_run_rel [OF tl_rel_new _ _ assms(1) le, of maxRequests windowMs maxTrackedKeys key] assms(2) proj
    by auto
  then have "length (filter (\<lambda>t. T - windowMs < t \<and> t \<le> T)
      (map fst (filter (\<lambda>(t, k, a). k = key \<and> a) (snd (tl_run ?l cs))))) \<le> maxRequests"
    by (auto simp: tl_rel_def)
  moreover have "length (filter (\<lambda>t. T - windowMs < t \<and> t \<le> T) (map fst (filter (\<lambda>(t, k, a). k = key \<and> a) rs)))
      = allowed_between key (T - windowMs) T rs" for rs
    by (induction rs) (auto simp: allowed_between_def)
  ultimately show ?thesis by simp
qed

theorem rate_limit_window_witness:
  "allowed_between ''a'' (62 - 60) 62
     (snd (tl_run (tl_new 2 60 3) [(1, ''a'', None), (2, ''b'', None), (3, ''a'', None), (4, ''a'', None), (62, ''a'', None)])) \<le> 2"
  by (rule rate_limit_window) (simp_all add: card_insert_if)

text \<open>the metadata of a check. A request is refused exactly when the budget of the current
  window is spent; the reported limit is the budget, the remaining count never goes below zero nor
  reaches the limit, a refused request has none left, and the reset time lies after the present and
  at most one window (rounded up to a second) ahead.\<close>

theorem check_limit_result:
  assumes "check_limit now l key path = (r, l')" and "0 < tl_windowMs l"
    and "\<forall>e\<in>set (case jm_get (tl_requests l) key of None \<Rightarrow> [] | Some es \<Rightarrow> es). re_timestamp e \<le> now"
  shows "rr_limit r = tl_maxRequests l \<and> 0 \<le> rr_remaining r \<and>
         (rr_allowed r \<longrightarrow> rr_remaining r < int (rr_limit r)) \<and> (\<not> rr_allowed r \<longrightarrow> rr_remaining r = 0) \<and>
         now < rr_resetAt r * 1000 \<and> rr_resetAt r * 1000 < now + tl_windowMs l + 1000"
proof -
  define req where "req = (if jm_has (tl_requests l) key then tl_requests l
    else jm_set (room_for_key re_timestamp (tl_windowMs l) now (tl_maxTrackedKeys l) (tl_requests l)) key [])"
  define es where "es = shift_expired re_timestamp (now - tl_windowMs l)
     (case jm_get req key of None \<Rightarrow> [] | Some es \<Rightarrow> es)"
  note res = assms(1) [unfolded check_limit_def, folded req_def, unfolded Let_def, folded es_def]
  have all: "\<forall>e\<in>set es. re_timestamp e \<le> now"
    using assms(3) unfolding es_def req_def shift_expired_def
    by (auto simp: jm_has_def dest!: set_dropWhileD split: option.splits if_splits)
  have hd: "now - tl_windowMs l < re_timestamp (hd es)" if "es \<noteq> []"
  proof -
    have "shift_expired re_timestamp c xs \<noteq> [] \<Longrightarrow> c < re_timestamp (hd (shift_expired re_timestamp c xs))" for c xs
      by (induction xs) (auto simp: shift_expired_def)
    then show ?thesis using that unfolding es_def by blast
  qed
  have "rr_resetAt r = ceil_div (now + tl_windowMs l) 1000 \<or>
      (es \<noteq> [] \<and> rr_resetAt r = ceil_div (re_timestamp (hd es) + tl_windowMs l) 1000)"
    using res by (cases es) (auto split: if_splits)
  then have "now < rr_resetAt r * 1000 \<and> rr_resetAt r * 1000 < now + tl_windowMs l + 1000"
    using ceil_div_bounds [of 1000 "now + tl_windowMs l"] assms(2) hd all
      ceil_div_bounds [of 1000 "re_timestamp (hd es) + tl_windowMs l"] hd_in_set [of es] by fastforce
  moreover have "rr_limit r = tl_maxRequests l \<and> 0 \<le> rr_remaining r \<and>
      (rr_allowed r \<longrightarrow> rr_remaining r < int (rr_limit r)) \<and> (\<not> rr_allowed r \<longrightarrow> rr_remaining r = 0)"
    using res by (auto split: if_splits)
  ultimately show ?thesis by blast
qed

theorem check_limit_result_witness:
  "let r = fst (check_limit 100 (tl_new 1 60 3) ''a'' None) in
     rr_limit r = 1 \<and> 0 \<le> rr_remaining r \<and> 100 < rr_resetAt r * 1000 \<and> rr_resetAt r * 1000 < 1160"
proof -
  have old: "\<forall>e\<in>set (case jm_get (tl_requests (tl_new 1 60 3)) ''a'' of None \<Rightarrow> [] | Some es \<Rightarrow> es). re_timestamp e \<le> 100"
    and pos: "0 < tl_windowMs (tl_new 1 60 3)"
    by (simp_all add: tl_new_def)
  from check_limit_result [OF prod.collapse [symmetric] pos old, of None]
  show ?thesis by (simp add: Let_def tl_new_def)
qed

text \<open>the diagnostics add up. The path counts reported for a key are in descending order and sum
  to the number of its recorded requests that lie inside the window.\<close>

theorem recent_path_counts_complete:
  "sorted (map (\<lambda>(_, n). - int n) (getRecentPathCounts now l key)) \<and>
   sum_list (map snd (getRecentPathCounts now l key)) =
     length (recent re_timestamp (now - tl_windowMs l)
        (case jm_get (tl_requests l) key of None \<Rightarrow> [] | Some es \<Rightarrow> es))"
proof -
  have "sum_list (map snd (sort_key f m)) = total_count m" for f :: "string \<times> nat \<Rightarrow> int" and m
    unfolding total_count_def by (metis mset_map mset_sort sum_mset_sum_list)
  then show ?thesis
    using total_count_paths [of "now - tl_windowMs l" _ "[]"]
    by (auto simp: getRecentPathCounts_def total_count_def split: option.splits)
qed

text \<open>the authentication limiter counts exactly. For any calls in the order of time on at most
  \<open>MAX_TRACKED_IPS\<close> addresses, \<open>isBlocked\<close> answers true exactly when the address had at least one and
  at least \<open>maxFailures\<close> failures inside the window since it was last cleared.\<close>

theorem auth_limiter_exact:
  assumes "sorted (map al_time ops)" and "\<forall>op\<in>set ops. al_time op \<le> now"
    and "card (insert ip (al_ip ` set ops)) \<le> MAX_TRACKED_IPS"
  shows "fst (isBlocked now (foldl al_apply (al_new maxFailures windowMs) ops) ip) =
     (0 < failures_since (now - windowMs) (al_history ip [] ops) \<and>
      maxFailures \<le> failures_since (now - windowMs) (al_history ip [] ops))"
proof -
  let ?l = "al_new maxFailures windowMs" and ?S = "insert ip (al_ip ` set ops)"
  define now0 where "now0 = (case ops of [] \<Rightarrow> now | op # _ \<Rightarrow> al_time op)"
  have "\<forall>op\<in>set ops. al_ip op \<in> ?S \<and> now0 \<le> al_time op" "now0 \<le> now"
    using assms(1,2) by (cases ops; auto simp: now0_def)+
  then have "al_rel ?S now (foldl al_apply ?l ops) (\<lambda>ip. al_history ip [] ops) \<and>
      al_windowMs (foldl al_apply ?l ops) = al_windowMs ?l \<and>
      al_maxFailures (foldl al_apply ?l ops) = al_maxFailures ?l"
    using assms by (intro al_rel_run [OF al_rel_new [of ?S now0]]) auto
  then show ?thesis
    using isBlocked_value [of ?S now "foldl al_apply ?l ops" "\<lambda>ip. al_history ip [] ops" ip]
    by (simp add: al_new_def)
qed

theorem auth_limiter_exact_witness:
  "fst (isBlocked 70 (foldl al_apply (al_new 2 60)
      [AFail 5 ''1.2.3.4'', AFail 20 ''1.2.3.4'', AFail 30 ''5.6.7.8'', ACheck 40 ''1.2.3.4'', AFail 65 ''1.2.3.4'']) ''1.2.3.4'') =
    (0 < failures_since (70 - 60) (al_history ''1.2.3.4'' []
      [AFail 5 ''1.2.3.4'', AFail 20 ''1.2.3.4'', AFail 30 ''5.6.7.8'', ACheck 40 ''1.2.3.4'', AFail 65 ''1.2.3.4'']) \<and>
     2 \<le> failures_since (70 - 60) (al_history ''1.2.3.4'' []
      [AFail 5 ''1.2.3.4'', AFail 20 ''1.2.3.4'', AFail 30 ''5.6.7.8'', ACheck 40 ''1.2.3.4'', AFail 65 ''1.2.3.4'']))"
  by (rule auth_limiter_exact) (simp_all add: MAX_TRACKED_IPS_def card_insert_if)

text \<open>one notice per cooldown. After a rejection notice was sent to a recipient at a time, no
  further one is sent before the cooldown has passed, whatever other recipients are handled in
  between, as long as the cache does not fill up; and the cache never exceeds its cap.\<close>

theorem rejection_notice_once:
  assumes "jm_wf m" and "length m + length cs < MAX_REJECTION_CACHE_SIZE"
    and "fst (shouldSend t m r)"
    and "\<forall>(now, _)\<in>set cs. now - t < REJECTION_NOTICE_COOLDOWN_MS"
    and "now' - t < REJECTION_NOTICE_COOLDOWN_MS"
  shows "\<not> fst (shouldSend now' (shouldSend_run (snd (shouldSend t m r)) cs) r) \<and>
         length (snd (shouldSend t m r)) \<le> MAX_REJECTION_CACHE_SIZE"
proof -
  let ?m = "snd (shouldSend t m r)"
  have get: "jm_get ?m r = Some t"
    using assms(3) by (auto simp: shouldSend_def split: option.splits if_splits)
  have small: "purge_rejections t m = m" "purge_rejections t (jm_delete m r) = jm_delete m r"
    using assms(2) length_jm_delete_le [of m r]
    by (auto simp: purge_rejections_def simp del: length_jm_delete_le)
  have len: "length ?m \<le> Suc (length m)"
    using small by (auto simp: shouldSend_def jm_bounds split: option.splits)
  have "jm_get (shouldSend_run ?m cs) r = Some t"
    using get assms(2,4) len by (intro shouldSend_run_keeps) auto
  then show ?thesis
    using assms(2,5) shouldSend_inv [OF assms(1), of t r] by (simp add: shouldSend_def)
qed

theorem rejection_notice_once_witness:
  "\<not> fst (shouldSend 20 (shouldSend_run (snd (shouldSend 10 [] ''u1'')) [(12, ''u2''), (15, ''u1'')]) ''u1'') \<and>
   length (snd (shouldSend 10 [] ''u1'')) \<le> MAX_REJECTION_CACHE_SIZE"
  by (rule rejection_notice_once)
     (simp_all add: shouldSend_def MAX_REJECTION_CACHE_SIZE_def REJECTION_NOTICE_COOLDOWN_MS_def)

end
