(* ===== verification/Ipc_Framing.thy ===== *)
theory Ipc_Framing
  imports Prelude "HOL-Library.Word"
begin

text \<open>
  The length-prefixed framing of the IPC protocol, \<^verbatim>\<open>packages/ipc-server-utils/src/ipc-framing.ts\<close>:
  the writers produce the bytes of an envelope and its binary or chunked follow-up, and
  \<open>IpcFrameReader\<close> turns the bytes of a socket, in whatever pieces they arrive, back into events.

  \<^item> A socket write is the byte list written; \<open>writeUInt32BE\<close> refuses a length of \<open>2^32\<close> or more,
    which is the \<open>RangeError\<close> of \<open>writeFrame\<close>.
  \<^item> JSON and UTF-8 belong to the runtime: a \<open>codec\<close> holds \<open>JSON.stringify\<close> followed by the encoding
    of the text (\<open>cd_encode\<close>), the decoding of a frame (\<open>cd_parse\<close>, \<open>NotJson\<close> when it throws, and
    \<open>JsonNull\<close> for the text \<open>null\<close>, whose \<open>headers\<close> cannot be read) and of a legacy line after
    \<open>trim\<close> (\<open>cd_line\<close>, \<open>Blank\<close> for an empty line).
  \<^item> The callbacks are the list of events they are called with; an exception that leaves \<open>push\<close> is the
    last event of the call, \<open>Uncaught\<close>. The loop of \<open>drain\<close> is \<open>drain\<close> here,
    one \<open>fr_step\<close> per block of its body: a block that falls through to the next one leaves the
    state that selects that block, so falling through and starting the next round are the same.
\<close>

section \<open>Envelopes and bytes\<close>

type_synonym byte = "8 word"
type_synonym bytes = "byte list"

record 'j IpcEnvelope =
  env_id :: string
  env_method :: "string option"
  env_params :: "'j option"
  env_result :: "'j option"
  env_error :: "string option"
  env_headers :: "(string \<times> string) list option"

definition header :: "'j IpcEnvelope \<Rightarrow> string \<Rightarrow> string option" where
  "header e k = (case env_headers e of None \<Rightarrow> None | Some h \<Rightarrow> map_of h k)"

datatype 'j parsed = NotJson | JsonNull | Json "'j IpcEnvelope"

datatype 'j line = Blank | BadLine | Line "'j IpcEnvelope"

record 'j codec =
  cd_encode :: "'j IpcEnvelope \<Rightarrow> bytes"
  cd_parse :: "bytes \<Rightarrow> 'j parsed"
  cd_line :: "bytes \<Rightarrow> 'j line"

definition u32_be :: "nat \<Rightarrow> bytes" where
  "u32_be n = [of_nat (n div 2 ^ 24), of_nat (n div 2 ^ 16), of_nat (n div 2 ^ 8), of_nat n]"

fun readUInt32BE :: "bytes \<Rightarrow> nat" where
  "readUInt32BE (a # b # c # d # _) = unat a * 2 ^ 24 + unat b * 2 ^ 16 + unat c * 2 ^ 8 + unat d"
| "readUInt32BE _ = 0"

section \<open>Writing\<close>

datatype write_error = RangeError

definition writeFrame :: "bytes \<Rightarrow> write_error + bytes" where
  "writeFrame data = (if length data < 2 ^ 32 then Inr (u32_be (length data) @ data) else Inl RangeError)"

definition writeMessage :: "'j codec \<Rightarrow> 'j IpcEnvelope \<Rightarrow> bytes option \<Rightarrow> write_error + bytes" where
  "writeMessage cd e binary =
     (case writeFrame (cd_encode cd e) of
        Inl err \<Rightarrow> Inl err
      | Inr f \<Rightarrow>
          (case binary of
             None \<Rightarrow> Inr f
           | Some b \<Rightarrow> (case writeFrame b of Inl err \<Rightarrow> Inl err | Inr g \<Rightarrow> Inr (f @ g))))"

definition newline :: byte where
  "newline = 10"

definition open_brace :: byte where
  "open_brace = 123"

definition writeLegacyMessage :: "'j codec \<Rightarrow> 'j IpcEnvelope \<Rightarrow> bytes" where
  "writeLegacyMessage cd e = cd_encode cd e @ [newline]"

definition writeStreamChunk :: "bytes \<Rightarrow> write_error + bytes" where
  "writeStreamChunk chunk = writeFrame chunk"

definition writeStreamEnd :: bytes where
  "writeStreamEnd = [0, 0, 0, 0]"

section \<open>Reading\<close>

datatype 'j event =
    OnMessage "'j IpcEnvelope" "bytes option"
  | OnError string
  | OnStreamStart "'j IpcEnvelope"
  | OnStreamChunk bytes
  | OnStreamEnd
  | Uncaught string

datatype reader_state =
    Detect
  | ReadLength
  | ReadPayload
  | ReadBinary
  | ReadStreamChunkLength
  | ReadStreamChunk

record 'j reader =
  fr_buffer :: bytes
  fr_state :: reader_state
  fr_pendingLength :: nat
  fr_pendingEnvelope :: "'j IpcEnvelope option"
  fr_expectBinary :: bool
  fr_isLegacy :: bool
  fr_streamCallbacks :: bool

definition fr_new :: "bool \<Rightarrow> 'j reader" where
  "fr_new streams =
     \<lparr>fr_buffer = [], fr_state = Detect, fr_pendingLength = 0, fr_pendingEnvelope = None,
      fr_expectBinary = False, fr_isLegacy = False, fr_streamCallbacks = streams\<rparr>"

text \<open>\<open>this.streamCallbacks?.f(...)\<close>: the call is skipped when no stream callbacks were given.\<close>

definition stream_event :: "'j reader \<Rightarrow> 'j event \<Rightarrow> 'j event list" where
  "stream_event r ev = (if fr_streamCallbacks r then [ev] else [])"

text \<open>\<open>drainLegacy\<close>: complete lines up to the last newline; the rest stays in the buffer.\<close>

fun legacy_lines :: "'j codec \<Rightarrow> bytes \<Rightarrow> bytes \<Rightarrow> 'j event list \<times> bytes" where
  "legacy_lines cd line [] = ([], line)"
| "legacy_lines cd line (b # bs) =
     (if b = newline
      then (case legacy_lines cd [] bs of (evs, rest) \<Rightarrow>
              ((case cd_line cd line of
                  Blank \<Rightarrow> []
                | BadLine \<Rightarrow> [OnError ''Invalid JSON in legacy IPC line'']
                | Line e \<Rightarrow> [OnMessage e None]) @ evs, rest))
      else legacy_lines cd (line @ [b]) bs)"

definition drainLegacy :: "'j codec \<Rightarrow> 'j reader \<Rightarrow> 'j reader \<times> 'j event list" where
  "drainLegacy cd r =
     (case legacy_lines cd [] (fr_buffer r) of (evs, rest) \<Rightarrow> (r\<lparr>fr_buffer := rest\<rparr>, evs))"

datatype 'j outcome = Return "'j reader" "'j event list" | Continue "'j reader" "'j event list"

definition step_payload :: "'j codec \<Rightarrow> 'j reader \<Rightarrow> 'j outcome" where
  "step_payload cd r =
     (if length (fr_buffer r) < fr_pendingLength r then Return r []
      else
        let payload = take (fr_pendingLength r) (fr_buffer r);
            r1 = r\<lparr>fr_buffer := drop (fr_pendingLength r) (fr_buffer r)\<rparr>
        in case cd_parse cd payload of
             NotJson \<Rightarrow> Continue (r1\<lparr>fr_state := Detect\<rparr>) [OnError ''Invalid JSON in IPC frame'']
           | JsonNull \<Rightarrow> Return r1 [Uncaught ''TypeError'']
           | Json e \<Rightarrow>
               if header e ''transfer-encoding'' = Some ''chunked''
               then Continue (r1\<lparr>fr_pendingEnvelope := Some e, fr_state := ReadStreamChunkLength\<rparr>)
                      (stream_event r (OnStreamStart e))
               else if header e ''content-length'' \<noteq> None
               then Continue (r1\<lparr>fr_pendingEnvelope := Some e, fr_expectBinary := True,
                                  fr_state := ReadLength\<rparr>) []
               else Continue (r1\<lparr>fr_expectBinary := False, fr_state := Detect\<rparr>) [OnMessage e None])"

definition step_binary :: "'j reader \<Rightarrow> 'j outcome" where
  "step_binary r =
     (if length (fr_buffer r) < fr_pendingLength r then Return r []
      else
        let binary = take (fr_pendingLength r) (fr_buffer r);
            r1 = r\<lparr>fr_buffer := drop (fr_pendingLength r) (fr_buffer r), fr_pendingEnvelope := None,
                   fr_expectBinary := False, fr_state := Detect\<rparr>
        in Continue r1
             (case fr_pendingEnvelope r of None \<Rightarrow> [] | Some e \<Rightarrow> [OnMessage e (Some binary)]))"

definition step_chunk_length :: "'j reader \<Rightarrow> 'j outcome" where
  "step_chunk_length r =
     (if length (fr_buffer r) < 4 then Return r []
      else
        let n = readUInt32BE (fr_buffer r);
            r1 = r\<lparr>fr_pendingLength := n, fr_buffer := drop 4 (fr_buffer r)\<rparr>
        in if n = 0
           then Continue (r1\<lparr>fr_pendingEnvelope := None, fr_state := Detect\<rparr>) (stream_event r OnStreamEnd)
           else Continue (r1\<lparr>fr_state := ReadStreamChunk\<rparr>) [])"

definition step_chunk :: "'j reader \<Rightarrow> 'j outcome" where
  "step_chunk r =
     (if length (fr_buffer r) < fr_pendingLength r then Return r []
      else
        let chunk = take (fr_pendingLength r) (fr_buffer r)
        in Continue (r\<lparr>fr_buffer := drop (fr_pendingLength r) (fr_buffer r),
                       fr_state := ReadStreamChunkLength\<rparr>)
             (stream_event r (OnStreamChunk chunk)))"

definition fr_step :: "'j codec \<Rightarrow> 'j reader \<Rightarrow> 'j outcome" where
  "fr_step cd r =
     (case fr_state r of
        Detect \<Rightarrow>
          (case fr_buffer r of
             [] \<Rightarrow> Return r []
           | b # _ \<Rightarrow>
               if b = open_brace
               then (case drainLegacy cd (r\<lparr>fr_isLegacy := True\<rparr>) of (r', evs) \<Rightarrow> Return r' evs)
               else Continue (r\<lparr>fr_state := ReadLength\<rparr>) [])
      | ReadLength \<Rightarrow>
          if length (fr_buffer r) < 4 then Return r []
          else Continue (r\<lparr>fr_pendingLength := readUInt32BE (fr_buffer r),
                           fr_buffer := drop 4 (fr_buffer r),
                           fr_state := (if fr_expectBinary r then ReadBinary else ReadPayload)\<rparr>) []
      | ReadPayload \<Rightarrow> step_payload cd r
      | ReadBinary \<Rightarrow> step_binary r
      | ReadStreamChunkLength \<Rightarrow> step_chunk_length r
      | ReadStreamChunk \<Rightarrow> step_chunk r)"

text \<open>Every round that continues consumes bytes or leaves a payload state.\<close>

fun state_rank :: "reader_state \<Rightarrow> nat" where
  "state_rank Detect = 1"
| "state_rank ReadLength = 0"
| "state_rank ReadPayload = 2"
| "state_rank ReadBinary = 2"
| "state_rank ReadStreamChunkLength = 0"
| "state_rank ReadStreamChunk = 2"

definition fr_measure :: "'j reader \<Rightarrow> nat" where
  "fr_measure r = length (fr_buffer r) + state_rank (fr_state r)"

lemmas fr_step_defs = fr_step_def step_payload_def step_binary_def step_chunk_length_def
  step_chunk_def drainLegacy_def Let_def

lemma fr_step_decreases: "fr_step cd r = Continue r' evs \<Longrightarrow> fr_measure r' < fr_measure r"
  by (cases "fr_state r")
     (auto simp: fr_step_defs fr_measure_def
        split: if_splits list.splits option.splits prod.splits parsed.splits)

function drain :: "'j codec \<Rightarrow> 'j reader \<Rightarrow> 'j reader \<times> 'j event list" where
  "drain cd r =
     (case fr_step cd r of
        Return r' evs \<Rightarrow> (r', evs)
      | Continue r' evs \<Rightarrow> (case drain cd r' of (r'', evs') \<Rightarrow> (r'', evs @ evs')))"
  by pat_completeness auto
termination
  by (relation "measure (\<lambda>(cd, r). fr_measure r)") (auto intro: fr_step_decreases)

declare drain.simps [simp del]

definition push :: "'j codec \<Rightarrow> 'j reader \<Rightarrow> bytes \<Rightarrow> 'j reader \<times> 'j event list" where
  "push cd r chunk = drain cd (r\<lparr>fr_buffer := fr_buffer r @ chunk\<rparr>)"

fun push_all :: "'j codec \<Rightarrow> 'j reader \<Rightarrow> bytes list \<Rightarrow> 'j reader \<times> 'j event list" where
  "push_all cd r [] = (r, [])"
| "push_all cd r (c # cs) =
     (case push cd r c of (r', evs) \<Rightarrow> case push_all cd r' cs of (r'', evs') \<Rightarrow> (r'', evs @ evs'))"

text \<open>
  What a peer puts on the wire: an envelope, an envelope with one binary frame, or an envelope with
  the chunks of a stream and its terminator; \<open>wire_events\<close> is what the reader should call back with.
\<close>

datatype 'j wire = Msg "'j IpcEnvelope" | MsgBinary "'j IpcEnvelope" bytes | Stream "'j IpcEnvelope" "bytes list"

fun write_chunks :: "bytes list \<Rightarrow> write_error + bytes" where
  "write_chunks [] = Inr writeStreamEnd"
| "write_chunks (c # cs) =
     (case writeStreamChunk c of
        Inl err \<Rightarrow> Inl err
      | Inr f \<Rightarrow> (case write_chunks cs of Inl err \<Rightarrow> Inl err | Inr g \<Rightarrow> Inr (f @ g)))"

fun write_wire :: "'j codec \<Rightarrow> 'j wire \<Rightarrow> write_error + bytes" where
  "write_wire cd (Msg e) = writeMessage cd e None"
| "write_wire cd (MsgBinary e b) = writeMessage cd e (Some b)"
| "write_wire cd (Stream e cs) =
     (case writeMessage cd e None of
        Inl err \<Rightarrow> Inl err
      | Inr f \<Rightarrow> (case write_chunks cs of Inl err \<Rightarrow> Inl err | Inr g \<Rightarrow> Inr (f @ g)))"

fun write_wires :: "'j codec \<Rightarrow> 'j wire list \<Rightarrow> write_error + bytes" where
  "write_wires cd [] = Inr []"
| "write_wires cd (w # ws) =
     (case write_wire cd w of
        Inl err \<Rightarrow> Inl err
      | Inr f \<Rightarrow> (case write_wires cd ws of Inl err \<Rightarrow> Inl err | Inr g \<Rightarrow> Inr (f @ g)))"

fun wire_events :: "bool \<Rightarrow> 'j wire \<Rightarrow> 'j event list" where
  "wire_events streams (Msg e) = [OnMessage e None]"
| "wire_events streams (MsgBinary e b) = [OnMessage e (Some b)]"
| "wire_events streams (Stream e cs) =
     (if streams then OnStreamStart e # map OnStreamChunk cs @ [OnStreamEnd] else [])"

fun wire_envelope :: "'j wire \<Rightarrow> 'j IpcEnvelope" where
  "wire_envelope (Msg e) = e"
| "wire_envelope (MsgBinary e b) = e"
| "wire_envelope (Stream e cs) = e"

text \<open>The headers announce what follows; a chunk is not empty, as an empty frame ends the stream.\<close>

fun headers_announce :: "'j wire \<Rightarrow> bool" where
  "headers_announce (Msg e) \<longleftrightarrow>
     header e ''transfer-encoding'' \<noteq> Some ''chunked'' \<and> header e ''content-length'' = None"
| "headers_announce (MsgBinary e b) \<longleftrightarrow>
     header e ''transfer-encoding'' \<noteq> Some ''chunked'' \<and> header e ''content-length'' \<noteq> None"
| "headers_announce (Stream e cs) \<longleftrightarrow>
     header e ''transfer-encoding'' = Some ''chunked'' \<and> (\<forall>c \<in> set cs. c \<noteq> [])"

text \<open>The envelope survives JSON, and its frame is below the size at which the length looks like a brace.\<close>

definition wire_ok :: "'j codec \<Rightarrow> 'j wire \<Rightarrow> bool" where
  "wire_ok cd w \<longleftrightarrow>
     headers_announce w \<and> cd_parse cd (cd_encode cd (wire_envelope w)) = Json (wire_envelope w) \<and>
     length (cd_encode cd (wire_envelope w)) < 123 * 2 ^ 24"

definition idle_reader :: "'j reader \<Rightarrow> bool" where
  "idle_reader r \<longleftrightarrow>
     fr_state r = Detect \<and> \<not> fr_expectBinary r \<and> \<not> fr_isLegacy r \<and> fr_pendingEnvelope r = None"

section \<open>The length prefix\<close>

lemma unat_byte_of_nat: "unat (of_nat n :: byte) = n mod 256"
  by (simp add: unat_of_nat take_bit_eq_mod)

lemma base256_digits:
  fixes n :: nat
  assumes "n < 2 ^ 32"
  shows "n div 2 ^ 24 mod 256 * 2 ^ 24 + n div 2 ^ 16 mod 256 * 2 ^ 16 + n div 2 ^ 8 mod 256 * 2 ^ 8 + n mod 256 = n"
proof -
  have p: "n div 2 ^ 24 = n div 256 div 256 div 256" "n div 2 ^ 16 = n div 256 div 256" "n div 2 ^ 8 = n div 256"
    by (simp_all add: div_mult2_eq [symmetric])
  have "n div 256 div 256 div 256 < 256"
    using assms by (simp add: div_mult2_eq [symmetric] less_mult_imp_div_less)
  then have top: "n div 256 div 256 div 256 mod 256 = n div 256 div 256 div 256" by (rule mod_less)
  have horner: "q3 * 2 ^ 24 + m2 * 2 ^ 16 + m1 * 2 ^ 8 + m0 = q0"
    if "q1 * 256 + m0 = q0" "q2 * 256 + m1 = q1" "q3 * 256 + m2 = q2" for q0 q1 q2 q3 m0 m1 m2 :: nat
    unfolding that [symmetric] by simp
  show ?thesis
    unfolding p top by (rule horner) (rule div_mult_mod_eq)+
qed

lemma readUInt32BE_u32: "n < 2 ^ 32 \<Longrightarrow> readUInt32BE (u32_be n @ bs) = n"
  using base256_digits [of n] by (simp add: u32_be_def unat_byte_of_nat)

lemma length_u32_be [simp]: "length (u32_be n) = 4"
  by (simp add: u32_be_def)

lemma hd_u32_be: "n < 2 ^ 32 \<Longrightarrow> hd (u32_be n) = open_brace \<longleftrightarrow> n div 2 ^ 24 = 123"
proof -
  assume n: "n < 2 ^ 32"
  have "hd (u32_be n) = open_brace \<longleftrightarrow> unat (of_nat (n div 2 ^ 24) :: byte) = unat (123 :: byte)"
    by (simp only: word_unat_eq_iff u32_be_def open_brace_def list.sel)
  moreover have "n div 2 ^ 24 < 256" using n by (simp add: less_mult_imp_div_less)
  ultimately show ?thesis by (simp add: unat_byte_of_nat)
qed

section \<open>Chunk boundaries do not matter\<close>

definition ext :: "'j reader \<Rightarrow> bytes \<Rightarrow> 'j reader" where
  "ext r c = r\<lparr>fr_buffer := fr_buffer r @ c\<rparr>"

lemma ext_simps [simp]:
  "fr_buffer (ext r c) = fr_buffer r @ c"
  "fr_state (ext r c) = fr_state r"
  "fr_pendingLength (ext r c) = fr_pendingLength r"
  "fr_pendingEnvelope (ext r c) = fr_pendingEnvelope r"
  "fr_expectBinary (ext r c) = fr_expectBinary r"
  "fr_isLegacy (ext r c) = fr_isLegacy r"
  "fr_streamCallbacks (ext r c) = fr_streamCallbacks r"
  "ext (ext r c) d = ext r (c @ d)"
  "ext r [] = r"
  by (simp_all add: ext_def)

lemma readUInt32BE_append: "4 \<le> length bs \<Longrightarrow> readUInt32BE (bs @ cs) = readUInt32BE bs"
  by (cases bs rule: readUInt32BE.cases) auto

lemmas outcome_splits = if_splits list.splits option.splits prod.splits parsed.splits

lemma fr_step_ext:
  "fr_step cd r = Continue r' evs \<Longrightarrow> fr_step cd (ext r c) = Continue (ext r' c) evs"
  by (cases "fr_state r")
     (auto simp: fr_step_defs ext_def stream_event_def readUInt32BE_append split: outcome_splits)

definition clean :: "'j reader \<times> 'j event list \<Rightarrow> bool" where
  "clean x \<longleftrightarrow> \<not> fr_isLegacy (fst x) \<and> (\<forall>s. Uncaught s \<notin> set (snd x))"

lemma fr_step_return:
  "fr_step cd r = Return r' evs \<Longrightarrow> clean (r', evs) \<Longrightarrow> r' = r \<and> evs = []"
  by (cases "fr_state r")
     (auto simp: fr_step_defs clean_def split: outcome_splits)

lemma fr_step_dirty:
  "fr_step cd r = Return r' evs \<Longrightarrow> \<not> clean (r', evs) \<Longrightarrow> \<not> fr_isLegacy r \<Longrightarrow>
   \<exists>r'' evs'. fr_step cd (ext r c) = Return r'' evs' \<and> \<not> clean (r'', evs')"
  by (cases "fr_state r")
     (auto simp: fr_step_defs clean_def split: outcome_splits)

lemma fr_step_legacy: "fr_step cd r = Continue r' evs \<Longrightarrow> fr_isLegacy r' = fr_isLegacy r"
  by (cases "fr_state r") (auto simp: fr_step_defs split: outcome_splits)

lemma fr_step_not_uncaught: "fr_step cd r = Continue r' evs \<Longrightarrow> Uncaught x \<notin> set evs"
  by (cases "fr_state r") (auto simp: fr_step_defs stream_event_def split: outcome_splits)

lemma drain_ext:
  assumes "clean (drain cd (ext r c))" and "\<not> fr_isLegacy r"
  shows "clean (drain cd r) \<and>
    drain cd (ext r c) = (case drain cd r of (r1, e1) \<Rightarrow> case drain cd (ext r1 c) of (r2, e2) \<Rightarrow> (r2, e1 @ e2))"
  using assms
proof (induction cd r rule: drain.induct)
  case (1 cd r)
  show ?case
  proof (cases "fr_step cd r")
    case (Return r' evs)
    have c: "clean (r', evs)"
    proof (rule ccontr)
      assume "\<not> clean (r', evs)"
      from fr_step_dirty [OF Return this 1(3), of c]
      have "\<not> clean (drain cd (ext r c))" by (auto simp: drain.simps [of cd "ext r c"])
      with 1(2) show False by simp
    qed
    with fr_step_return [OF Return] have "r' = r" "evs = []" by auto
    with Return c show ?thesis by (simp add: drain.simps [of cd r] split: prod.splits)
  next
    case (Continue r' evs)
    have s: "drain cd (ext r c) = (case drain cd (ext r' c) of (r'', evs') \<Rightarrow> (r'', evs @ evs'))"
      using fr_step_ext [OF Continue, of c] by (simp add: drain.simps [of cd "ext r c"])
    then have "clean (drain cd (ext r' c))" using 1(2) by (auto simp: clean_def split: prod.splits)
    from 1(1) [OF Continue this] 1(3) fr_step_legacy [OF Continue]
    show ?thesis using s Continue fr_step_not_uncaught [OF Continue]
      by (auto simp: drain.simps [of cd r] clean_def split: prod.splits)
  qed
qed

lemma push_ext: "push cd r c = drain cd (ext r c)"
  by (simp add: push_def ext_def)

lemma push_all_concat:
  assumes "clean (drain cd (ext r (concat cs)))" and "\<not> fr_isLegacy r" and "drain cd r = (r, [])"
  shows "push_all cd r cs = drain cd (ext r (concat cs))"
  using assms
proof (induction cs arbitrary: r)
  case Nil
  then show ?case by simp
next
  case (Cons c cs)
  obtain r1 e1 where d: "drain cd (ext r c) = (r1, e1)" by force
  have e: "ext r (concat (c # cs)) = ext (ext r c) (concat cs)" by simp
  from drain_ext [of cd "ext r c" "concat cs"] Cons.prems(1,2) e d
  have c1: "clean (r1, e1)"
    and whole: "drain cd (ext r (concat (c # cs))) = (case drain cd (ext r1 (concat cs)) of (r2, e2) \<Rightarrow> (r2, e1 @ e2))"
    by auto
  have "drain cd (ext (ext r c) []) = (case drain cd (ext r c) of (r1, e1) \<Rightarrow> case drain cd (ext r1 []) of (r2, e2) \<Rightarrow> (r2, e1 @ e2))"
    using drain_ext [of cd "ext r c" "[]"] c1 Cons.prems(2) unfolding ext_simps d [symmetric] by blast
  then have q: "drain cd r1 = (r1, [])" using d by (auto split: prod.splits)
  have "clean (drain cd (ext r1 (concat cs)))"
    using whole Cons.prems(1) by (auto simp: clean_def split: prod.splits)
  from Cons.IH [OF this _ q] c1 show ?case
    using d whole by (simp add: push_ext clean_def)
qed

lemma drain_new: "drain cd (fr_new b) = (fr_new b, [])"
proof -
  have "fr_step cd (fr_new b) = Return (fr_new b) []" by (simp add: fr_step_def fr_new_def)
  then show ?thesis by (simp add: drain.simps [of cd "fr_new b"])
qed

section \<open>What is written is read back\<close>

lemma drain_continue:
  "fr_step cd r = Continue r' evs \<Longrightarrow> drain cd r = (fst (drain cd r'), evs @ snd (drain cd r'))"
  by (simp add: drain.simps [of cd r] split: prod.splits)

lemma drain_silent: "fr_step cd r = Continue r' [] \<Longrightarrow> drain cd r = drain cd r'"
  by (simp add: drain_continue)

lemma u32_be_not_brace:
  "n < 123 * 2 ^ 24 \<Longrightarrow> \<exists>b bs. u32_be n = b # bs \<and> b \<noteq> open_brace"
  using hd_u32_be [of n] by (auto simp: u32_be_def less_mult_imp_div_less)

lemma drain_frame:
  assumes "fr_state r = Detect" and "\<not> fr_expectBinary r"
    and "fr_buffer r = u32_be (length p) @ p @ rest" and "length p < 123 * 2 ^ 24"
  shows "drain cd r = drain cd (r\<lparr>fr_pendingLength := length p, fr_buffer := p @ rest, fr_state := ReadPayload\<rparr>)"
proof -
  have "fr_step cd r = Continue (r\<lparr>fr_state := ReadLength\<rparr>) []"
    using u32_be_not_brace [OF assms(4)] assms(1,3) by (auto simp: fr_step_def)
  moreover have "fr_step cd (r\<lparr>fr_state := ReadLength\<rparr>) =
      Continue (r\<lparr>fr_pendingLength := length p, fr_buffer := p @ rest, fr_state := ReadPayload\<rparr>) []"
    using assms by (simp add: fr_step_def readUInt32BE_u32)
  ultimately show ?thesis by (simp add: drain_silent)
qed

lemma drain_chunks:
  assumes "write_chunks cs = Inr bs" and "\<forall>c \<in> set cs. c \<noteq> []"
    and "fr_state r = ReadStreamChunkLength" and "fr_buffer r = bs @ rest"
  shows "\<exists>n. drain cd r =
    (let r' = r\<lparr>fr_pendingLength := n, fr_buffer := rest, fr_pendingEnvelope := None, fr_state := Detect\<rparr>
     in (fst (drain cd r'),
         (if fr_streamCallbacks r then map OnStreamChunk cs @ [OnStreamEnd] else []) @ snd (drain cd r')))"
  using assms
proof (induction cs arbitrary: bs r)
  case Nil
  have "fr_step cd r =
      Continue (r\<lparr>fr_pendingLength := 0, fr_buffer := rest, fr_pendingEnvelope := None, fr_state := Detect\<rparr>)
        (stream_event r OnStreamEnd)"
    using Nil by (auto simp: fr_step_defs writeStreamEnd_def)
  from drain_continue [OF this] show ?case by (auto simp: Let_def stream_event_def)
next
  case (Cons c cs)
  from Cons.prems(1) obtain g where g: "write_chunks cs = Inr g" and n: "length c < 2 ^ 32"
    and bs: "bs = u32_be (length c) @ c @ g"
    by (auto simp: writeStreamChunk_def writeFrame_def split: sum.splits if_splits)
  let ?r1 = "r\<lparr>fr_pendingLength := length c, fr_buffer := c @ g @ rest, fr_state := ReadStreamChunk\<rparr>"
  let ?r2 = "?r1\<lparr>fr_buffer := g @ rest, fr_state := ReadStreamChunkLength\<rparr>"
  have 1: "fr_step cd r = Continue ?r1 []"
    using Cons.prems bs n by (simp add: fr_step_defs readUInt32BE_u32)
  have 2: "fr_step cd ?r1 = Continue ?r2 (stream_event r (OnStreamChunk c))"
    by (simp add: fr_step_defs stream_event_def)
  have "\<exists>n. drain cd ?r2 =
    (let r' = ?r2\<lparr>fr_pendingLength := n, fr_buffer := rest, fr_pendingEnvelope := None, fr_state := Detect\<rparr>
     in (fst (drain cd r'),
         (if fr_streamCallbacks ?r2 then map OnStreamChunk cs @ [OnStreamEnd] else []) @ snd (drain cd r')))"
    using Cons.prems by (intro Cons.IH [OF g]) auto
  with drain_silent [OF 1] drain_continue [OF 2] show ?case
    by (auto simp: Let_def stream_event_def)
qed

lemma drain_wire:
  assumes "write_wire cd w = Inr bs" and "wire_ok cd w" and "idle_reader r" and "fr_buffer r = bs @ rest"
  shows "\<exists>n. drain cd r =
    (let r' = r\<lparr>fr_pendingLength := n, fr_buffer := rest\<rparr>
     in (fst (drain cd r'), wire_events (fr_streamCallbacks r) w @ snd (drain cd r')))"
proof -
  let ?p = "cd_encode cd (wire_envelope w)"
  let ?e = "wire_envelope w"
  have parse: "cd_parse cd ?p = Json ?e" and len: "length ?p < 123 * 2 ^ 24" and hdr: "headers_announce w"
    using assms(2) by (auto simp: wire_ok_def)
  have idle: "fr_state r = Detect" "\<not> fr_expectBinary r" "fr_pendingEnvelope r = None"
    using assms(3) by (auto simp: idle_reader_def)
  obtain g where bs: "bs = u32_be (length ?p) @ ?p @ g"
    using assms(1) by (cases w) (auto simp: writeMessage_def writeFrame_def split: sum.splits if_splits)
  let ?r1 = "r\<lparr>fr_pendingLength := length ?p, fr_buffer := ?p @ g @ rest, fr_state := ReadPayload\<rparr>"
  have d1: "drain cd r = drain cd ?r1"
    using idle assms(4) bs len by (intro drain_frame) auto
  show ?thesis
  proof (cases w)
    case (Msg e)
    with assms(1) bs have "g = []"
      by (auto simp: writeMessage_def writeFrame_def split: sum.splits if_splits)
    then have "fr_step cd ?r1 = Continue (r\<lparr>fr_pendingLength := length ?p, fr_buffer := rest\<rparr>) [OnMessage ?e None]"
      using parse hdr Msg idle by (simp add: fr_step_defs)
    from drain_continue [OF this] d1 Msg show ?thesis by (auto simp: Let_def)
  next
    case (MsgBinary e b)
    with assms(1) bs have g: "g = u32_be (length b) @ b" and b: "length b < 2 ^ 32"
      by (auto simp: writeMessage_def writeFrame_def split: sum.splits if_splits)
    let ?r2 = "r\<lparr>fr_pendingLength := length ?p, fr_buffer := g @ rest, fr_pendingEnvelope := Some ?e,
                  fr_expectBinary := True, fr_state := ReadLength\<rparr>"
    let ?r3 = "?r2\<lparr>fr_pendingLength := length b, fr_buffer := b @ rest, fr_state := ReadBinary\<rparr>"
    have 2: "fr_step cd ?r1 = Continue ?r2 []" using parse hdr MsgBinary by (simp add: fr_step_defs)
    have 3: "fr_step cd ?r2 = Continue ?r3 []" using g b by (simp add: fr_step_defs readUInt32BE_u32)
    have "fr_step cd ?r3 = Continue (r\<lparr>fr_pendingLength := length b, fr_buffer := rest\<rparr>) [OnMessage ?e (Some b)]"
      using idle by (simp add: fr_step_defs)
    from drain_continue [OF this] drain_silent [OF 2] drain_silent [OF 3] d1 MsgBinary
    show ?thesis by (auto simp: Let_def)
  next
    case (Stream e cs)
    with assms(1) bs have g: "write_chunks cs = Inr g"
      by (auto simp: writeMessage_def writeFrame_def split: sum.splits if_splits)
    let ?r2 = "r\<lparr>fr_pendingLength := length ?p, fr_buffer := g @ rest, fr_pendingEnvelope := Some ?e,
                  fr_state := ReadStreamChunkLength\<rparr>"
    have 2: "fr_step cd ?r1 = Continue ?r2 (stream_event r (OnStreamStart ?e))"
      using parse hdr Stream by (simp add: fr_step_defs stream_event_def)
    have "\<exists>n. drain cd ?r2 =
      (let r' = ?r2\<lparr>fr_pendingLength := n, fr_buffer := rest, fr_pendingEnvelope := None, fr_state := Detect\<rparr>
       in (fst (drain cd r'),
           (if fr_streamCallbacks ?r2 then map OnStreamChunk cs @ [OnStreamEnd] else []) @ snd (drain cd r')))"
      using hdr Stream by (intro drain_chunks [OF g]) auto
    moreover have "r\<lparr>fr_pendingLength := n, fr_buffer := rest, fr_pendingEnvelope := None, fr_state := Detect\<rparr>
        = r\<lparr>fr_pendingLength := n, fr_buffer := rest\<rparr>" for n
      using idle by (cases r) simp
    ultimately show ?thesis using drain_continue [OF 2] d1 Stream
      by (auto simp: Let_def stream_event_def)
  qed
qed

lemma drain_wires:
  assumes "write_wires cd ws = Inr bs" and "\<forall>w \<in> set ws. wire_ok cd w" and "idle_reader r" and "fr_buffer r = bs"
  shows "\<exists>n. drain cd r =
    (r\<lparr>fr_pendingLength := n, fr_buffer := []\<rparr>, concat (map (wire_events (fr_streamCallbacks r)) ws))"
  using assms
proof (induction ws arbitrary: bs r)
  case Nil
  then have "fr_step cd r = Return r []" by (simp add: fr_step_def idle_reader_def)
  moreover have "\<exists>n. r = r\<lparr>fr_pendingLength := n, fr_buffer := []\<rparr>"
    using Nil by (intro exI [of _ "fr_pendingLength r"]) simp
  ultimately show ?case by (auto simp: drain.simps [of cd r])
next
  case (Cons w ws)
  from Cons.prems(1) obtain f g where f: "write_wire cd w = Inr f" and g: "write_wires cd ws = Inr g"
    and bs: "bs = f @ g"
    by (auto split: sum.splits)
  obtain n where n: "drain cd r =
    (let r' = r\<lparr>fr_pendingLength := n, fr_buffer := g\<rparr>
     in (fst (drain cd r'), wire_events (fr_streamCallbacks r) w @ snd (drain cd r')))"
    using drain_wire [OF f _ Cons.prems(3), of g] Cons.prems(2,4) bs by auto
  have "\<exists>m. drain cd (r\<lparr>fr_pendingLength := n, fr_buffer := g\<rparr>) =
      ((r\<lparr>fr_pendingLength := n, fr_buffer := g\<rparr>)\<lparr>fr_pendingLength := m, fr_buffer := []\<rparr>,
       concat (map (wire_events (fr_streamCallbacks (r\<lparr>fr_pendingLength := n, fr_buffer := g\<rparr>))) ws))"
    using Cons.prems by (intro Cons.IH [OF g]) (auto simp: idle_reader_def)
  with n show ?case by (auto simp: Let_def)
qed

lemma wire_events_caught: "Uncaught x \<notin> set (wire_events b w)"
  by (cases w) auto

section \<open>Properties\<close>

text \<open>the reader's callbacks do not depend on how the socket cuts the byte stream: unless the
  stream switches to the legacy protocol or carries the JSON value \<open>null\<close>, feeding any list of pieces
  ends in the same reader and calls the same callbacks, in the same order, as feeding all the bytes at
  once.\<close>

theorem ipc_chunking_irrelevant:
  assumes "clean (push cd (fr_new streams) (concat pieces))"
  shows "push_all cd (fr_new streams) pieces = push cd (fr_new streams) (concat pieces)"
  using push_all_concat [of cd "fr_new streams" pieces] assms
  by (simp add: push_ext drain_new) (simp add: fr_new_def)

text \<open>C37: round trip of the framing: any sequence of messages, messages with a binary frame and chunked
  streams whose headers announce what follows, written by the writers and cut into arbitrary pieces by
  the socket, is read back as exactly those messages and stream callbacks, and the reader is idle with
  an empty buffer afterwards.\<close>

theorem ipc_roundtrip:
  assumes "write_wires cd ws = Inr (concat pieces)" and "\<forall>w \<in> set ws. wire_ok cd w"
  shows "snd (push_all cd (fr_new streams) pieces) = concat (map (wire_events streams) ws)
    \<and> idle_reader (fst (push_all cd (fr_new streams) pieces))
    \<and> fr_buffer (fst (push_all cd (fr_new streams) pieces)) = []"
proof -
  let ?r = "ext (fr_new streams) (concat pieces)"
  have "idle_reader ?r" and buf: "fr_buffer ?r = concat pieces" and "\<not> fr_isLegacy ?r"
    and cb: "fr_streamCallbacks ?r = streams"
    by (simp_all add: idle_reader_def fr_new_def)
  obtain n where n: "drain cd ?r = (?r\<lparr>fr_pendingLength := n, fr_buffer := []\<rparr>, concat (map (wire_events streams) ws))"
    using drain_wires [OF assms \<open>idle_reader ?r\<close> buf] unfolding cb by blast
  then have "clean (drain cd ?r)"
    using \<open>\<not> fr_isLegacy ?r\<close> wire_events_caught by (auto simp: clean_def)
  then have "push_all cd (fr_new streams) pieces = drain cd ?r"
    by (intro push_all_concat) (simp_all add: drain_new, simp add: fr_new_def)
  with n \<open>idle_reader ?r\<close> show ?thesis by (simp add: idle_reader_def)
qed

definition demo_envelope :: "string \<Rightarrow> (string \<times> string) list \<Rightarrow> unit IpcEnvelope" where
  "demo_envelope i h =
     \<lparr>env_id = i, env_method = None, env_params = None, env_result = None, env_error = None,
      env_headers = Some h\<rparr>"

definition demo_plain :: "unit IpcEnvelope" where
  "demo_plain = demo_envelope ''a'' []"

definition demo_chunked :: "unit IpcEnvelope" where
  "demo_chunked = demo_envelope ''b'' [(''transfer-encoding'', ''chunked'')]"

definition demo_codec :: "unit codec" where
  "demo_codec =
     \<lparr>cd_encode = (\<lambda>e. if env_id e = ''a'' then [1] else [2, 3]),
      cd_parse = (\<lambda>bs. if bs = [1] then Json demo_plain else if bs = [2, 3] then Json demo_chunked
                       else if bs = [4] then JsonNull else NotJson),
      cd_line = (\<lambda>bs. if bs = [] then Blank else if bs = [123] then Line demo_plain else BadLine)\<rparr>"

lemmas fr_eval = push_def drain.simps fr_step_defs stream_event_def fr_new_def open_brace_def newline_def header_def

lemmas demo_defs = demo_envelope_def demo_plain_def demo_chunked_def demo_codec_def

theorem ipc_chunking_irrelevant_witness:
  "push_all demo_codec (fr_new True) [[0, 0], [0, 1, 1, 0], [0, 0]] =
     push demo_codec (fr_new True) (concat [[0, 0], [0, 1, 1, 0], [0, 0]])
   \<and> push demo_codec (fr_new True) [0, 0, 0, 1, 1, 0, 0, 0] =
       ((fr_new True)\<lparr>fr_buffer := [0, 0, 0], fr_state := ReadLength, fr_pendingLength := 1\<rparr>,
        [OnMessage demo_plain None])"
proof -
  have p: "push demo_codec (fr_new True) [0, 0, 0, 1, 1, 0, 0, 0] =
       ((fr_new True)\<lparr>fr_buffer := [0, 0, 0], fr_state := ReadLength, fr_pendingLength := 1\<rparr>,
        [OnMessage demo_plain None])"
    by (simp add: fr_eval demo_defs)
  then have "clean (push demo_codec (fr_new True) (concat [[0, 0], [0, 1, 1, 0], [0, 0]]))"
    by (simp add: clean_def fr_new_def)
  from ipc_chunking_irrelevant [OF this] p show ?thesis by blast
qed

theorem ipc_roundtrip_witness:
  "snd (push_all demo_codec (fr_new True)
      [[0, 0, 0], [1, 1, 0, 0, 0, 2, 2], [3, 0, 0, 0, 1], [9, 0, 0], [0, 0]]) =
   [OnMessage demo_plain None, OnStreamStart demo_chunked, OnStreamChunk [9], OnStreamEnd]"
proof -
  have w: "write_wires demo_codec [Msg demo_plain, Stream demo_chunked [[9]]] =
      Inr (concat [[0, 0, 0], [1, 1, 0, 0, 0, 2, 2], [3, 0, 0, 0, 1], [9, 0, 0], [0, 0]])"
    by (simp add: writeMessage_def writeFrame_def writeStreamChunk_def writeStreamEnd_def u32_be_def demo_defs)
  have ok: "\<forall>w \<in> set [Msg demo_plain, Stream demo_chunked [[9]]]. wire_ok demo_codec w"
    by (simp add: wire_ok_def demo_defs header_def)
  show ?thesis using ipc_roundtrip [OF w ok, of True] by simp
qed

text \<open>a frame whose JSON takes between \<open>0x7B000000\<close> and \<open>0x7BFFFFFF\<close> bytes starts with the byte of
  an opening brace: the reader takes it for the legacy protocol, although it is below the 2 GB the
  framing promises to tell apart.\<close>

theorem ipc_frame_taken_for_legacy:
  assumes "123 * 2 ^ 24 \<le> length (cd_encode cd e)" and "length (cd_encode cd e) < 124 * 2 ^ 24"
  shows "\<exists>bs. writeMessage cd e None = Inr bs \<and> fr_isLegacy (fst (push cd (fr_new streams) bs))"
proof -
  let ?d = "cd_encode cd e"
  have "length ?d div 2 ^ 24 = 123" using assms by (intro div_nat_eqI) auto
  then have "hd (u32_be (length ?d)) = open_brace" using assms hd_u32_be [of "length ?d"] by simp
  then obtain bs where u: "u32_be (length ?d) = open_brace # bs" by (auto simp: u32_be_def)
  have "fr_isLegacy (fst (push cd (fr_new streams) (u32_be (length ?d) @ ?d)))"
    by (simp add: u push_def drain.simps fr_step_def drainLegacy_def fr_new_def split: prod.splits)
  moreover have "writeMessage cd e None = Inr (u32_be (length ?d) @ ?d)"
    using assms by (simp add: writeMessage_def writeFrame_def)
  ultimately show ?thesis by blast
qed

definition huge_codec :: "unit codec" where
  "huge_codec = demo_codec\<lparr>cd_encode := (\<lambda>e. replicate (123 * 2 ^ 24) 0)\<rparr>"

theorem ipc_frame_taken_for_legacy_witness:
  "\<exists>bs. writeMessage huge_codec demo_plain None = Inr bs \<and> fr_isLegacy (fst (push huge_codec (fr_new True) bs))"
  by (rule ipc_frame_taken_for_legacy) (simp_all add: huge_codec_def)

text \<open>the legacy mode is not kept between reads: after a line of the legacy protocol the reader is
  back at detecting the format, so a read that starts with an empty line is taken for a length prefix
  and the message behind it is lost, while the same bytes in one read deliver both messages.\<close>

theorem ipc_legacy_mode_not_kept:
  "snd (push demo_codec (fr_new True) [123, 10, 10, 123, 10]) = [OnMessage demo_plain None, OnMessage demo_plain None]
   \<and> snd (push_all demo_codec (fr_new True) [[123, 10], [10, 123, 10]]) = [OnMessage demo_plain None]
   \<and> fr_state (fst (push_all demo_codec (fr_new True) [[123, 10], [10, 123, 10]])) = ReadLength"
  by (simp add: fr_eval demo_defs)

text \<open>a frame that holds the JSON value \<open>null\<close> makes \<open>push\<close> throw, and the reader stays in the
  payload state with the frame consumed, so that the next byte is read as a payload.\<close>

theorem ipc_null_frame_throws:
  "push demo_codec (fr_new True) [0, 0, 0, 1, 4, 0, 0, 0, 1, 1] =
     ((fr_new True)\<lparr>fr_buffer := [0, 0, 0, 1, 1], fr_state := ReadPayload, fr_pendingLength := 1\<rparr>,
      [Uncaught ''TypeError''])"
  by (simp add: fr_eval demo_defs)

end
