(* ===== verification/History_Repair.thy ===== *)
theory History_Repair
  imports Prelude "HOL-Library.Sublist"
begin

text \<open>
  The repair of a conversation history before it is sent to a provider:
  \<^verbatim>\<open>assistant/src/agent/history-repair/history-repair.ts\<close>, with the analysis of server-side tools in
  \<^verbatim>\<open>assistant/src/providers/server-tool-pairing.ts\<close> and the predicates of
  \<^verbatim>\<open>assistant/src/providers/content-blocks.ts\<close>.

  \<^item> A content block is a \<open>block\<close>, with the fields the code reads; the payloads it only passes on
    (media sources, tool inputs, search results, surfaces) are \<open>json\<close>.
  \<^item> \<open>repairHistory\<close> is the loop over the messages (\<open>assistant_step\<close> and \<open>user_step\<close> are the two
    branches of its body), the trailing insertion and the merging pass. The arrays \<open>result\<close>
    and \<open>resultSourceIndex\<close> are always pushed together, so they are one list of pairs; \<open>None\<close> is the
    source index \<open>-1\<close> of a synthetic message.
  \<^item> \<open>history_ok\<close> is the provider's rule: roles alternate, a tool result stands only in the user message
    right after the assistant message that used the tool, and every use is answered there.
  \<^item> The log calls are left out.
\<close>

section \<open>Messages\<close>

datatype role = User | Assistant

datatype block =
    Text string
  | Thinking string string
  | RedactedThinking string
  | Image json
  | File json "string option"
  | ToolUse string string json
  | ToolResult string string "bool option" "block list option"
  | ServerToolUse string string json
  | WebSearchToolResult string json
  | UiSurface json

record message =
  msg_role :: role
  msg_content :: "block list"

definition mk_message :: "role \<Rightarrow> block list \<Rightarrow> message" where
  "mk_message r c = \<lparr>msg_role = r, msg_content = c\<rparr>"

fun is_tool_result :: "block \<Rightarrow> bool" where
  "is_tool_result (ToolResult _ _ _ _) = True"
| "is_tool_result _ = False"

fun isWebSearchToolResultBlock :: "block \<Rightarrow> bool" where
  "isWebSearchToolResultBlock (WebSearchToolResult _ _) = True"
| "isWebSearchToolResultBlock _ = False"

fun isServerToolUseBlock :: "block \<Rightarrow> bool" where
  "isServerToolUseBlock (ServerToolUse _ _ _) = True"
| "isServerToolUseBlock _ = False"

fun use_id :: "block \<Rightarrow> string option" where
  "use_id (ToolUse i _ _) = Some i"
| "use_id _ = None"

fun result_id :: "block \<Rightarrow> string option" where
  "result_id (ToolResult i _ _ _) = Some i"
| "result_id _ = None"

fun server_use_id :: "block \<Rightarrow> string option" where
  "server_use_id (ServerToolUse i _ _) = Some i"
| "server_use_id _ = None"

fun web_result_id :: "block \<Rightarrow> string option" where
  "web_result_id (WebSearchToolResult i _) = Some i"
| "web_result_id _ = None"

text \<open>The predicates of \<^verbatim>\<open>content-blocks.ts\<close>.\<close>

fun blank_text :: "block \<Rightarrow> bool" where
  "blank_text (Text t) = (js_trim t = [])"
| "blank_text _ = False"

definition hasVisibleText :: "block list \<Rightarrow> bool" where
  "hasVisibleText c = list_ex (\<lambda>b. case b of Text t \<Rightarrow> 0 < length (js_trim t) | _ \<Rightarrow> False) c"

definition isEffectivelyEmptyContent :: "block list \<Rightarrow> bool" where
  "isEffectivelyEmptyContent c = list_all blank_text c"

definition hasToolUse :: "block list \<Rightarrow> bool" where
  "hasToolUse c = list_ex (\<lambda>b. use_id b \<noteq> None) c"

section \<open>Pairing of server-side tools\<close>

record ServerToolPairing =
  resolvedPairIds :: "string list"
  deferredUseIds :: "string list"
  crossMessageIds :: "string list"

record pairing_scan =
  ps_useIndexById :: "(string, nat) jsmap"
  ps_resultIndexById :: "(string, nat) jsmap"
  ps_lastAssistantIndex :: "nat option"

definition set_first :: "(string, nat) jsmap \<Rightarrow> string option \<Rightarrow> nat \<Rightarrow> (string, nat) jsmap" where
  "set_first m k i = (case k of None \<Rightarrow> m | Some x \<Rightarrow> if jm_has m x then m else jm_set m x i)"

definition scan_block :: "nat \<Rightarrow> pairing_scan \<Rightarrow> block \<Rightarrow> pairing_scan" where
  "scan_block i s b =
     s\<lparr>ps_useIndexById := set_first (ps_useIndexById s) (server_use_id b) i,
       ps_resultIndexById := set_first (ps_resultIndexById s) (web_result_id b) i\<rparr>"

definition scan_message :: "pairing_scan \<Rightarrow> nat \<times> message \<Rightarrow> pairing_scan" where
  "scan_message s im =
     (case im of (i, m) \<Rightarrow>
        if msg_role m \<noteq> Assistant then s
        else foldl (scan_block i) (s\<lparr>ps_lastAssistantIndex := Some i\<rparr>) (msg_content m))"

definition scan_messages :: "message list \<Rightarrow> pairing_scan" where
  "scan_messages ms =
     foldl scan_message \<lparr>ps_useIndexById = [], ps_resultIndexById = [], ps_lastAssistantIndex = None\<rparr>
       (enumerate 0 ms)"

definition resolved_at :: "pairing_scan \<Rightarrow> (nat \<Rightarrow> nat \<Rightarrow> bool) \<Rightarrow> string list" where
  "resolved_at s cmp =
     map fst (filter (\<lambda>(k, u). case jm_get (ps_resultIndexById s) k of None \<Rightarrow> False | Some r \<Rightarrow> cmp u r)
       (ps_useIndexById s))"

definition deferred_uses :: "message list \<Rightarrow> pairing_scan \<Rightarrow> string list" where
  "deferred_uses ms s =
     (case ps_lastAssistantIndex s of
        None \<Rightarrow> []
      | Some i \<Rightarrow>
          let trailing = drop (Suc i) ms;
              trailingAllUser = list_all (\<lambda>m. msg_role m = User) trailing;
              trailingBlocks = concat (map msg_content trailing);
              trailingIsToolResultsOnly = (trailingBlocks \<noteq> [] \<and> list_all is_tool_result trailingBlocks)
          in if trailingAllUser \<and> (trailing = [] \<or> trailingIsToolResultsOnly)
             then set_of (filter (\<lambda>k. k \<notin> set (resolved_at s (\<le>)))
                    (List.map_filter server_use_id (msg_content (ms ! i))))
             else [])"

definition analyzeServerToolPairing :: "message list \<Rightarrow> ServerToolPairing" where
  "analyzeServerToolPairing ms =
     (let s = scan_messages ms
      in \<lparr>resolvedPairIds = resolved_at s (\<le>), deferredUseIds = deferred_uses ms s,
          crossMessageIds = resolved_at s (<)\<rparr>)"

section \<open>Downgrading and synthesizing results\<close>

record RepairStats =
  assistantToolResultsMigrated :: nat
  missingToolResultsInserted :: nat
  orphanToolResultsDowngraded :: nat
  consecutiveSameRoleMerged :: nat

definition no_repairs :: RepairStats where
  "no_repairs = \<lparr>assistantToolResultsMigrated = 0, missingToolResultsInserted = 0,
                 orphanToolResultsDowngraded = 0, consecutiveSameRoleMerged = 0\<rparr>"

definition SYNTHETIC_RESULT :: string where
  "SYNTHETIC_RESULT = ''<synthesized_result>tool result missing from history</synthesized_result>''"

definition SYNTHETIC_WEB_SEARCH_ERROR :: json where
  "SYNTHETIC_WEB_SEARCH_ERROR =
     JObj [(''type'', JStr ''web_search_tool_result_error''), (''error_code'', JStr ''unavailable'')]"

definition synthetic_result :: "string \<Rightarrow> block" where
  "synthetic_result i = ToolResult i SYNTHETIC_RESULT (Some True) None"

definition string_field :: "json \<Rightarrow> string \<Rightarrow> string \<Rightarrow> string" where
  "string_field r k dflt = (case json_field r k of Some (JStr t) \<Rightarrow> t | _ \<Rightarrow> dflt)"

fun web_search_entries :: "nat \<Rightarrow> json list \<Rightarrow> string list" where
  "web_search_entries idx [] = []"
| "web_search_entries idx (r # rs) =
     (if json_field r ''type'' \<noteq> Some (JStr ''web_search_result'') then web_search_entries idx rs
      else
        let title = string_field r ''title'' ''(untitled)'';
            url = string_field r ''url'' [];
            line = nat_string idx @ ''. '' @ title
        in (if url \<noteq> [] then line @ [CHR 0x0A] @ ''   '' @ url else line) # web_search_entries (Suc idx) rs)"

fun formatWebSearchContent :: "json \<Rightarrow> string" where
  "formatWebSearchContent (JArr rs) =
     (let entries = web_search_entries 1 rs
      in if entries \<noteq> [] then join_strings [CHR 0x0A] entries else ''results unavailable'')"
| "formatWebSearchContent _ = ''results unavailable''"

fun downgradeResult :: "block \<Rightarrow> block" where
  "downgradeResult (ToolResult i c _ _) = Text (''[orphaned tool_result for '' @ i @ '']: '' @ c)"
| "downgradeResult (WebSearchToolResult i c) =
     Text (''[orphaned web_search_tool_result for '' @ i @ '']: '' @ formatWebSearchContent c)"
| "downgradeResult b = b"

definition result_for :: "(string, block) jsmap \<Rightarrow> string \<Rightarrow> block" where
  "result_for recovered i = (case jm_get recovered i of Some r \<Rightarrow> r | None \<Rightarrow> synthetic_result i)"

definition count_missing :: "(string, block) jsmap \<Rightarrow> string list \<Rightarrow> nat" where
  "count_missing recovered ids = length (filter (\<lambda>i. jm_get recovered i = None) ids)"

definition buildResultMessage ::
  "string list \<Rightarrow> (string, block) jsmap \<Rightarrow> RepairStats \<Rightarrow> message \<times> RepairStats" where
  "buildResultMessage ids recovered stats =
     (mk_message User (map (result_for recovered) ids),
      stats\<lparr>missingToolResultsInserted := missingToolResultsInserted stats + count_missing recovered ids\<rparr>)"

section \<open>The repair loop\<close>

record repair_state =
  rp_result :: "(message \<times> nat option) list"
  rp_pendingToolUseIds :: "string list"
  rp_recoveredResults :: "(string, block) jsmap"
  rp_stats :: RepairStats

definition repair_init :: repair_state where
  "repair_init = \<lparr>rp_result = [], rp_pendingToolUseIds = [], rp_recoveredResults = [], rp_stats = no_repairs\<rparr>"

text \<open>Answer what is still pending with a message of its own.\<close>

definition flush_pending :: "repair_state \<Rightarrow> repair_state" where
  "flush_pending st =
     (if rp_pendingToolUseIds st \<noteq> []
      then (case buildResultMessage (rp_pendingToolUseIds st) (rp_recoveredResults st) (rp_stats st) of
              (m, stats) \<Rightarrow>
                st\<lparr>rp_result := rp_result st @ [(m, None)], rp_stats := stats,
                   rp_pendingToolUseIds := [], rp_recoveredResults := []\<rparr>)
      else st)"

definition recover_block :: "(string, block) jsmap \<Rightarrow> block \<Rightarrow> (string, block) jsmap" where
  "recover_block m b = (case result_id b of None \<Rightarrow> m | Some i \<Rightarrow> jm_set m i b)"

definition orphan_server_ids :: "ServerToolPairing \<Rightarrow> block list \<Rightarrow> string list" where
  "orphan_server_ids sp c =
     set_of (filter (\<lambda>i. i \<notin> set (resolvedPairIds sp) \<and> i \<notin> set (deferredUseIds sp))
       (List.map_filter server_use_id c))"

definition orphan_web_ids :: "ServerToolPairing \<Rightarrow> block list \<Rightarrow> string list" where
  "orphan_web_ids sp c =
     set_of (filter (\<lambda>i. i \<notin> set (resolvedPairIds sp)) (List.map_filter web_result_id c))"

text \<open>The repaired blocks of one block, given the orphans of its message.\<close>

definition repair_server_block :: "string list \<Rightarrow> string list \<Rightarrow> block \<Rightarrow> block list" where
  "repair_server_block uses results b =
     (case b of
        WebSearchToolResult i _ \<Rightarrow> if i \<in> set results then [downgradeResult b] else [b]
      | ServerToolUse i _ _ \<Rightarrow>
          if i \<in> set uses then [b, WebSearchToolResult i SYNTHETIC_WEB_SEARCH_ERROR] else [b]
      | _ \<Rightarrow> [b])"

definition count_orphan_web :: "string list \<Rightarrow> block list \<Rightarrow> nat" where
  "count_orphan_web results c =
     length (filter (\<lambda>b. case web_result_id b of None \<Rightarrow> False | Some i \<Rightarrow> i \<in> set results) c)"

definition count_orphan_server :: "string list \<Rightarrow> block list \<Rightarrow> nat" where
  "count_orphan_server uses c =
     length (filter (\<lambda>b. case server_use_id b of None \<Rightarrow> False | Some i \<Rightarrow> i \<in> set uses) c)"

definition repair_server_blocks :: "ServerToolPairing \<Rightarrow> block list \<Rightarrow> RepairStats \<Rightarrow> block list \<times> RepairStats" where
  "repair_server_blocks sp c stats =
     (let uses = orphan_server_ids sp c; results = orphan_web_ids sp c
      in if uses \<noteq> [] \<or> results \<noteq> []
         then (concat (map (repair_server_block uses results) c),
               stats\<lparr>orphanToolResultsDowngraded := orphanToolResultsDowngraded stats + count_orphan_web results c,
                     missingToolResultsInserted := missingToolResultsInserted stats + count_orphan_server uses c\<rparr>)
         else (c, stats))"

definition assistant_step :: "ServerToolPairing \<Rightarrow> nat \<Rightarrow> block list \<Rightarrow> repair_state \<Rightarrow> repair_state" where
  "assistant_step sp i content st0 =
     (let st = flush_pending st0;
          cleanedContent = filter (\<lambda>b. \<not> is_tool_result b) content;
          newRecovered = foldl recover_block [] content;
          stats1 = (rp_stats st)\<lparr>assistantToolResultsMigrated :=
                     assistantToolResultsMigrated (rp_stats st) + length (filter is_tool_result content)\<rparr>
      in case repair_server_blocks sp cleanedContent stats1 of
           (repairedContent, stats2) \<Rightarrow>
             st\<lparr>rp_result := rp_result st @ [(mk_message Assistant repairedContent, Some i)],
                rp_pendingToolUseIds := set_of (List.map_filter use_id cleanedContent),
                rp_recoveredResults := newRecovered,
                rp_stats := stats2\<rparr>)"

definition match_block :: "string list \<Rightarrow> block \<Rightarrow> block" where
  "match_block pending b =
     (case b of
        ToolResult i _ _ _ \<Rightarrow> if i \<in> set pending then b else downgradeResult b
      | WebSearchToolResult _ _ \<Rightarrow> downgradeResult b
      | _ \<Rightarrow> b)"

definition count_downgraded :: "string list \<Rightarrow> block list \<Rightarrow> nat" where
  "count_downgraded pending c =
     length (filter (\<lambda>b. (case result_id b of None \<Rightarrow> False | Some i \<Rightarrow> i \<notin> set pending)
                         \<or> isWebSearchToolResultBlock b) c)"

definition user_step :: "nat \<Rightarrow> block list \<Rightarrow> repair_state \<Rightarrow> repair_state" where
  "user_step i content st =
     (let pending = rp_pendingToolUseIds st;
          stats1 = (rp_stats st)\<lparr>orphanToolResultsDowngraded :=
                     orphanToolResultsDowngraded (rp_stats st) + count_downgraded pending content\<rparr>
      in if pending \<noteq> []
         then
           let matchedIds = set_of (filter (\<lambda>k. k \<in> set pending) (List.map_filter result_id content));
               unmatched = filter (\<lambda>k. k \<notin> set matchedIds) pending;
               newContent = map (match_block pending) content @ map (result_for (rp_recoveredResults st)) unmatched
           in st\<lparr>rp_result := rp_result st @ [(mk_message User newContent, Some i)],
                 rp_pendingToolUseIds := [], rp_recoveredResults := [],
                 rp_stats := stats1\<lparr>missingToolResultsInserted :=
                   missingToolResultsInserted stats1 + count_missing (rp_recoveredResults st) unmatched\<rparr>\<rparr>
         else st\<lparr>rp_result := rp_result st @ [(mk_message User (map (match_block []) content), Some i)],
                 rp_stats := stats1\<rparr>)"

definition repair_step :: "ServerToolPairing \<Rightarrow> repair_state \<Rightarrow> nat \<times> message \<Rightarrow> repair_state" where
  "repair_step sp st im =
     (case im of (i, m) \<Rightarrow>
        case msg_role m of
          Assistant \<Rightarrow> assistant_step sp i (msg_content m) st
        | User \<Rightarrow> user_step i (msg_content m) st)"

section \<open>The merging pass\<close>

text \<open>\<open>push_merged\<close> appends a message, or its content to the last message when that has the same role.\<close>

definition push_merged :: "message list \<Rightarrow> message \<Rightarrow> message list \<times> bool" where
  "push_merged merged m =
     (if merged \<noteq> [] \<and> msg_role (last merged) = msg_role m
      then (butlast merged @ [mk_message (msg_role m) (msg_content (last merged) @ msg_content m)], True)
      else (merged @ [mk_message (msg_role m) (msg_content m)], False))"

record merge_state =
  mg_merged :: "message list"
  mg_inputToOutputIndex :: "nat option list"
  mg_count :: nat

definition merge_step :: "merge_state \<Rightarrow> message \<times> nat option \<Rightarrow> merge_state" where
  "merge_step g ms =
     (case push_merged (mg_merged g) (fst ms) of (merged, same) \<Rightarrow>
        \<lparr>mg_merged = merged,
         mg_inputToOutputIndex =
           (case snd ms of
              None \<Rightarrow> mg_inputToOutputIndex g
            | Some i \<Rightarrow> (mg_inputToOutputIndex g)[i := Some (length merged - 1)]),
         mg_count = (if same then Suc (mg_count g) else mg_count g)\<rparr>)"

definition merge_pass :: "nat \<Rightarrow> (message \<times> nat option) list \<Rightarrow> merge_state" where
  "merge_pass n rs =
     foldl merge_step \<lparr>mg_merged = [], mg_inputToOutputIndex = replicate n None, mg_count = 0\<rparr> rs"

record RepairResult =
  rr_messages :: "message list"
  rr_stats :: RepairStats
  rr_inputToOutputIndex :: "nat option list option"

definition repair_loop :: "message list \<Rightarrow> repair_state" where
  "repair_loop ms =
     flush_pending (foldl (repair_step (analyzeServerToolPairing ms)) repair_init (enumerate 0 ms))"

definition repairHistory :: "message list \<Rightarrow> RepairResult" where
  "repairHistory ms =
     (let st = repair_loop ms; g = merge_pass (length ms) (rp_result st)
      in \<lparr>rr_messages = mg_merged g,
          rr_stats = (rp_stats st)\<lparr>consecutiveSameRoleMerged := mg_count g\<rparr>,
          rr_inputToOutputIndex = Some (mg_inputToOutputIndex g)\<rparr>)"

definition repairHistoryForRun :: "message list \<Rightarrow> message list" where
  "repairHistoryForRun ms = rr_messages (repairHistory ms)"

section \<open>Deep repair\<close>

fun merge_messages :: "message list \<Rightarrow> message list \<Rightarrow> message list" where
  "merge_messages merged [] = merged"
| "merge_messages merged (m # ms) = merge_messages (fst (push_merged merged m)) ms"

definition drop_trailing_assistant :: "message list \<Rightarrow> message list" where
  "drop_trailing_assistant ms = rev (dropWhile (\<lambda>m. msg_role m = Assistant) (rev ms))"

definition deep_prepare :: "bool \<Rightarrow> message list \<Rightarrow> message list" where
  "deep_prepare requireUserTerminal ms =
     (let cleaned = filter (\<lambda>m. \<not> isEffectivelyEmptyContent (msg_content m)) ms;
          userFirst = dropWhile (\<lambda>m. msg_role m = Assistant) cleaned;
          merged = merge_messages [] userFirst
      in if requireUserTerminal then drop_trailing_assistant merged else merged)"

definition deepRepairHistory :: "bool \<Rightarrow> message list \<Rightarrow> RepairResult" where
  "deepRepairHistory requireUserTerminal ms =
     (let r = repairHistory (deep_prepare requireUserTerminal ms)
      in r\<lparr>rr_inputToOutputIndex := None\<rparr>)"

section \<open>Rejections that can be repaired\<close>

text \<open>
  The patterns are literals with \<open>.*\<close> between them, matched without regard to case; \<open>.\<close> does not
  match a line terminator.
\<close>

definition lower_char :: "char \<Rightarrow> char" where
  "lower_char c = (if 65 \<le> (of_char c :: nat) \<and> (of_char c :: nat) \<le> 90 then char_of ((of_char c :: nat) + 32) else c)"

definition line_end :: "char \<Rightarrow> bool" where
  "line_end c \<longleftrightarrow> of_char c \<in> {10, 13 :: nat}"

fun match_here :: "string list \<Rightarrow> string \<Rightarrow> bool" and match_gap :: "string list \<Rightarrow> string \<Rightarrow> bool" where
  "match_here [] s = True"
| "match_here (l # ls) s =
     (take (length l) s = l \<and> (ls = [] \<or> match_gap ls (drop (length l) s)))"
| "match_gap ls [] = match_here ls []"
| "match_gap ls (c # s) = (match_here ls (c # s) \<or> (\<not> line_end c \<and> match_gap ls s))"

definition pattern_test :: "string list \<Rightarrow> string \<Rightarrow> bool" where
  "pattern_test ls s = list_ex (match_here ls) (suffixes (map lower_char s))"

definition ORDERING_ERROR_PATTERNS :: "string list list" where
  "ORDERING_ERROR_PATTERNS =
     [[''tool_result'', ''not immediately after'', ''tool_use''],
      [''tool_use'', ''must have'', ''tool_result''],
      [''tool_use_id'', ''without'', ''tool_result''],
      [''tool_result'', ''tool_use_id'', ''not found''],
      [''messages'', ''invalid'', ''order''],
      [''no tool call found for function call output''],
      [''tool_call_id'', ''not found'']]"

definition WEB_SEARCH_ORDERING_PATTERNS :: "string list list" where
  "WEB_SEARCH_ORDERING_PATTERNS = [[''web_search'', ''tool_use'', ''without''], [''web_search'', ''tool_result'']]"

definition USER_TERMINAL_HISTORY_PATTERNS :: "string list list" where
  "USER_TERMINAL_HISTORY_PATTERNS =
     [[''ending with a model turn''], [''must end with a user turn''], [''must end with a user message'']]"

definition isUserTerminalHistoryError :: "string \<Rightarrow> bool" where
  "isUserTerminalHistoryError m = list_ex (\<lambda>p. pattern_test p m) USER_TERMINAL_HISTORY_PATTERNS"

definition isRepairableOrderingError :: "string \<Rightarrow> bool" where
  "isRepairableOrderingError m \<longleftrightarrow>
     list_ex (\<lambda>p. pattern_test p m) ORDERING_ERROR_PATTERNS \<or>
     list_ex (\<lambda>p. pattern_test p m) WEB_SEARCH_ORDERING_PATTERNS \<or>
     isUserTerminalHistoryError m"

section \<open>The provider's rule\<close>

definition use_ids :: "block list \<Rightarrow> string set" where
  "use_ids c = set (List.map_filter use_id c)"

definition result_ids :: "block list \<Rightarrow> string set" where
  "result_ids c = set (List.map_filter result_id c)"

text \<open>\<open>check_msg\<close> reads one message with the uses that wait for an answer and gives the uses that wait after it.\<close>

definition check_msg :: "string set \<Rightarrow> message \<Rightarrow> string set option" where
  "check_msg pending m =
     (case msg_role m of
        Assistant \<Rightarrow> if pending = {} \<and> result_ids (msg_content m) = {} then Some (use_ids (msg_content m)) else None
      | User \<Rightarrow> if result_ids (msg_content m) = pending then Some {} else None)"

fun check_msgs :: "string set \<Rightarrow> message list \<Rightarrow> string set option" where
  "check_msgs pending [] = Some pending"
| "check_msgs pending (m # ms) =
     (case check_msg pending m of None \<Rightarrow> None | Some p \<Rightarrow> check_msgs p ms)"

fun alternating :: "message list \<Rightarrow> bool" where
  "alternating (a # b # ms) \<longleftrightarrow> msg_role a \<noteq> msg_role b \<and> alternating (b # ms)"
| "alternating _ \<longleftrightarrow> True"

definition history_ok :: "message list \<Rightarrow> bool" where
  "history_ok ms \<longleftrightarrow> check_msgs {} ms = Some {} \<and> alternating ms"

section \<open>Blocks\<close>

lemma use_ids_simps [simp]:
  "use_ids [] = {}" "use_ids (b # c) = set_option (use_id b) \<union> use_ids c" "use_ids (c @ d) = use_ids c \<union> use_ids d"
  by (auto simp: use_ids_def List.map_filter_def split: option.splits)

lemma result_ids_simps [simp]:
  "result_ids [] = {}" "result_ids (b # c) = set_option (result_id b) \<union> result_ids c"
  "result_ids (c @ d) = result_ids c \<union> result_ids d"
  by (auto simp: result_ids_def List.map_filter_def split: option.splits)

lemma result_id_None: "result_id b = None \<longleftrightarrow> \<not> is_tool_result b"
  by (cases b) auto

lemma use_id_tool_result: "is_tool_result b \<Longrightarrow> use_id b = None"
  by (cases b) auto

lemma result_ids_filter [simp]: "result_ids (filter (\<lambda>b. \<not> is_tool_result b) c) = {}"
  by (induction c) (auto simp: result_id_None [symmetric])

lemma use_ids_filter [simp]: "use_ids (filter (\<lambda>b. \<not> is_tool_result b) c) = use_ids c"
  by (induction c) (auto simp: use_id_tool_result)

lemma set_map_filter_use: "set (List.map_filter use_id c) = use_ids c"
  by (simp add: use_ids_def)

lemma set_map_filter_result: "set (List.map_filter result_id c) = result_ids c"
  by (simp add: result_ids_def)

lemma set_map_filter_mem: "b \<in> set c \<Longrightarrow> f b = Some i \<Longrightarrow> i \<in> set (List.map_filter f c)"
  by (force simp: List.map_filter_def)

lemma server_block_ids:
  "result_ids (repair_server_block uses results b) = set_option (result_id b)"
  "use_ids (repair_server_block uses results b) = set_option (use_id b)"
  by (cases b; simp add: repair_server_block_def)+

lemma repair_server_ids:
  "result_ids (fst (repair_server_blocks sp c stats)) = result_ids c"
  "use_ids (fst (repair_server_blocks sp c stats)) = use_ids c"
proof -
  have "result_ids (concat (map (repair_server_block u r) c)) = result_ids c"
    "use_ids (concat (map (repair_server_block u r) c)) = use_ids c" for u r
    by (induction c) (simp_all add: server_block_ids)
  then show "result_ids (fst (repair_server_blocks sp c stats)) = result_ids c"
    "use_ids (fst (repair_server_blocks sp c stats)) = use_ids c"
    by (simp_all add: repair_server_blocks_def Let_def)
qed

lemma match_block_result_ids: "result_ids (map (match_block pending) c) = result_ids c \<inter> set pending"
proof (induction c)
  case (Cons b c)
  have "set_option (result_id (match_block pending b)) = set_option (result_id b) \<inter> set pending"
    by (cases b) (auto simp: match_block_def)
  with Cons show ?case by auto
qed simp

text \<open>The recovered results answer the id they are stored under.\<close>

definition recovered_ok :: "(string, block) jsmap \<Rightarrow> bool" where
  "recovered_ok m \<longleftrightarrow> (\<forall>i b. jm_get m i = Some b \<longrightarrow> result_id b = Some i)"

lemma recovered_ok_foldl: "recovered_ok m \<Longrightarrow> recovered_ok (foldl recover_block m c)"
proof (induction c arbitrary: m)
  case (Cons b c)
  have "recovered_ok (recover_block m b)"
    using Cons.prems by (auto simp: recovered_ok_def recover_block_def split: option.splits)
  with Cons.IH show ?case by simp
qed simp

lemma result_id_result_for: "recovered_ok m \<Longrightarrow> result_id (result_for m i) = Some i"
  by (auto simp: recovered_ok_def result_for_def synthetic_result_def split: option.splits)

lemma result_ids_result_for: "recovered_ok m \<Longrightarrow> result_ids (map (result_for m) ids) = set ids"
  by (induction ids) (auto simp: result_id_result_for)

section \<open>The loop keeps the pairing\<close>

lemma check_msgs_append:
  "check_msgs p (xs @ ys) = (case check_msgs p xs of None \<Rightarrow> None | Some q \<Rightarrow> check_msgs q ys)"
  by (induction xs arbitrary: p) (auto split: option.splits)

definition loop_inv :: "repair_state \<Rightarrow> bool" where
  "loop_inv st \<longleftrightarrow>
     check_msgs {} (map fst (rp_result st)) = Some (set (rp_pendingToolUseIds st)) \<and>
     recovered_ok (rp_recoveredResults st)"

lemma recovered_ok_Nil [simp]: "recovered_ok []"
  by (simp add: recovered_ok_def)

lemma mk_message_simps [simp]: "msg_role (mk_message r c) = r" "msg_content (mk_message r c) = c"
  "mk_message (msg_role m) (msg_content m) = m"
  by (simp_all add: mk_message_def)

lemma flush_pending_inv:
  assumes "loop_inv st"
  shows "loop_inv (flush_pending st)" and "rp_pendingToolUseIds (flush_pending st) = []"
  using assms
  by (auto simp: loop_inv_def flush_pending_def buildResultMessage_def check_msgs_append check_msg_def
      result_ids_result_for)

lemma assistant_step_inv: "loop_inv st \<Longrightarrow> loop_inv (assistant_step sp i c st)"
  using flush_pending_inv [of st]
  by (auto simp: loop_inv_def assistant_step_def Let_def case_prod_unfold check_msgs_append check_msg_def
      recovered_ok_foldl set_map_filter_use repair_server_ids)

lemma user_step_inv: "loop_inv st \<Longrightarrow> loop_inv (user_step i c st)"
  by (auto simp: loop_inv_def user_step_def Let_def check_msgs_append check_msg_def match_block_result_ids
      result_ids_result_for set_map_filter_result)

lemma repair_step_inv: "loop_inv st \<Longrightarrow> loop_inv (repair_step sp st im)"
  by (simp add: repair_step_def assistant_step_inv user_step_inv split: prod.splits role.splits)

lemma foldl_repair_inv: "loop_inv st \<Longrightarrow> loop_inv (foldl (repair_step sp) st ims)"
  by (induction ims arbitrary: st) (auto simp: repair_step_inv)

lemma repair_loop_checks: "check_msgs {} (map fst (rp_result (repair_loop ms))) = Some {}"
proof -
  have "loop_inv repair_init" by (simp add: loop_inv_def repair_init_def)
  from foldl_repair_inv [OF this] flush_pending_inv show ?thesis
    unfolding repair_loop_def by (metis empty_set loop_inv_def)
qed

section \<open>Merging\<close>

lemma alternating_snoc:
  "alternating (xs @ [m]) \<longleftrightarrow> alternating xs \<and> (xs = [] \<or> msg_role (last xs) \<noteq> msg_role m)"
  by (induction xs rule: alternating.induct) auto

lemma push_merged_alternating: "alternating xs \<Longrightarrow> alternating (fst (push_merged xs m))"
proof (cases "xs \<noteq> [] \<and> msg_role (last xs) = msg_role m")
  case True
  then obtain ys l where "xs = ys @ [l]" by (metis append_butlast_last_id)
  moreover assume "alternating xs"
  ultimately show ?thesis using True by (simp add: push_merged_def alternating_snoc)
qed (auto simp: push_merged_def alternating_snoc)

lemma check_merge_two:
  assumes "msg_role a = msg_role b" and "check_msgs p [a, b] = Some q"
  shows "check_msgs p [mk_message (msg_role b) (msg_content a @ msg_content b)] = Some q"
  using assms by (auto simp: check_msg_def split: role.splits if_splits)

lemma push_merged_checks:
  assumes "check_msgs p (xs @ [m]) = Some q"
  shows "check_msgs p (fst (push_merged xs m)) = Some q"
proof (cases "xs \<noteq> [] \<and> msg_role (last xs) = msg_role m")
  case True
  then obtain ys l where xs: "xs = ys @ [l]" by (metis append_butlast_last_id)
  from assms obtain r where r: "check_msgs p ys = Some r" "check_msgs r [l, m] = Some q"
    by (auto simp: xs check_msgs_append split: option.splits)
  from True check_merge_two [OF _ r(2)] r(1) xs show ?thesis
    by (simp add: push_merged_def check_msgs_append)
next
  case False
  with assms show ?thesis by (auto simp: push_merged_def)
qed

lemma merge_messages_checks:
  "check_msgs p (acc @ ms) = Some q \<Longrightarrow> check_msgs p (merge_messages acc ms) = Some q"
proof (induction ms arbitrary: acc)
  case (Cons m ms)
  from Cons.prems obtain r where "check_msgs p (acc @ [m]) = Some r" "check_msgs r ms = Some q"
    using check_msgs_append [of p "acc @ [m]" ms] by (auto split: option.splits)
  with push_merged_checks have "check_msgs p (fst (push_merged acc m) @ ms) = Some q"
    by (simp add: check_msgs_append)
  with Cons.IH show ?case by simp
qed simp

lemma merge_messages_alternating: "alternating acc \<Longrightarrow> alternating (merge_messages acc ms)"
  by (induction ms arbitrary: acc) (auto simp: push_merged_alternating)

lemma mg_merged_step: "mg_merged (merge_step g e) = fst (push_merged (mg_merged g) (fst e))"
  by (simp add: merge_step_def split: prod.splits)

lemma foldl_merge_messages: "mg_merged (foldl merge_step g es) = merge_messages (mg_merged g) (map fst es)"
  by (induction es arbitrary: g) (auto simp: mg_merged_step)

lemma mg_merged_pass: "mg_merged (merge_pass n es) = merge_messages [] (map fst es)"
  by (simp add: merge_pass_def foldl_merge_messages)

lemma rr_messages_repair: "rr_messages (repairHistory ms) = merge_messages [] (map fst (rp_result (repair_loop ms)))"
  by (simp add: repairHistory_def Let_def mg_merged_pass)

section \<open>Where the content of an input message goes\<close>

definition kept_block :: "block \<Rightarrow> bool" where
  "kept_block b \<longleftrightarrow> \<not> is_tool_result b \<and> \<not> isWebSearchToolResultBlock b"

definition carries :: "message \<Rightarrow> message \<Rightarrow> bool" where
  "carries m r \<longleftrightarrow>
     msg_role r = msg_role m \<and> subseq (filter kept_block (msg_content m)) (msg_content r)"

definition sourced :: "(message \<times> nat option) list \<Rightarrow> (message \<times> nat) list" where
  "sourced es = List.map_filter (\<lambda>(m, s). map_option (Pair m) s) es"

lemma sourced_simps [simp]:
  "sourced [] = []" "sourced (es @ fs) = sourced es @ sourced fs"
  "sourced ((m, None) # es) = sourced es" "sourced ((m, Some i) # es) = (m, i) # sourced es"
  by (simp_all add: sourced_def List.map_filter_def)

lemma sourced_flush [simp]: "sourced (rp_result (flush_pending st)) = sourced (rp_result st)"
  by (simp add: flush_pending_def buildResultMessage_def)

lemma subseq_concat_map: "(\<And>b. b \<in> set c \<Longrightarrow> P b \<Longrightarrow> b \<in> set (f b)) \<Longrightarrow> subseq (filter P c) (concat (map f c))"
proof (induction c)
  case (Cons b c)
  then have IH: "subseq (filter P c) (concat (map f c))" by simp
  show ?case
  proof (cases "P b")
    case True
    with Cons.prems have "subseq [b] (f b)" by (simp add: subseq_singleton_left)
    with list_emb_append_mono [OF _ IH] True show ?thesis by fastforce
  qed (use IH in \<open>auto intro: list_emb_append2\<close>)
qed simp

lemma subseq_filter_stripped: "subseq (filter P c) (filter Q c)" if "\<And>b. P b \<Longrightarrow> Q b"
  using that by (induction c) auto

lemma repair_server_carries:
  "subseq (filter kept_block c) (fst (repair_server_blocks sp (filter (\<lambda>b. \<not> is_tool_result b) c) stats))"
proof -
  let ?d = "filter (\<lambda>b. \<not> is_tool_result b) c"
  have k: "filter kept_block ?d = filter kept_block c" by (induction c) (auto simp: kept_block_def)
  have "b \<in> set (repair_server_block u r b)" if "kept_block b" for u r b
    using that by (cases b) (auto simp: repair_server_block_def kept_block_def)
  then have "subseq (filter kept_block ?d) (concat (map (repair_server_block u r) ?d))" for u r
    by (intro subseq_concat_map) auto
  moreover have "subseq (filter kept_block ?d) ?d" by (rule subseq_filter_left)
  ultimately show ?thesis unfolding k by (auto simp: repair_server_blocks_def Let_def)
qed

lemma match_block_carries: "subseq (filter kept_block c) (map (match_block pending) c @ d)"
proof -
  have "match_block pending b = b" if "kept_block b" for b
    using that by (cases b) (auto simp: match_block_def kept_block_def)
  then have "subseq (filter kept_block c) (map (match_block pending) c)"
    by (induction c) auto
  then show ?thesis by (auto intro: subseq_order.order_trans)
qed

lemma repair_step_sourced:
  "\<exists>r. sourced (rp_result (repair_step sp st (i, m))) = sourced (rp_result st) @ [(r, i)] \<and> carries m r"
  using match_block_carries [of "msg_content m" _ "[]"] match_block_carries [of "msg_content m"]
    repair_server_carries [of "msg_content m" sp]
  by (auto simp: repair_step_def assistant_step_def user_step_def Let_def case_prod_unfold carries_def
      split: role.splits)

lemma foldl_repair_sourced:
  "let es = sourced (rp_result (foldl (repair_step sp) repair_init (enumerate 0 ms)))
   in map snd es = [0..<length ms] \<and> list_all2 carries ms (map fst es)"
proof (induction ms rule: rev_induct)
  case Nil
  then show ?case by (simp add: repair_init_def)
next
  case (snoc m ms)
  let ?st = "foldl (repair_step sp) repair_init (enumerate 0 ms)"
  obtain r where "sourced (rp_result (repair_step sp ?st (length ms, m))) = sourced (rp_result ?st) @ [(r, length ms)]"
    and "carries m r"
    using repair_step_sourced by blast
  with snoc show ?case by (simp add: Let_def enumerate_append_eq list_all2_appendI)
qed

lemma repair_loop_sourced:
  "map snd (sourced (rp_result (repair_loop ms))) = [0..<length ms]"
  "list_all2 carries ms (map fst (sourced (rp_result (repair_loop ms))))"
  using foldl_repair_sourced [of "analyzeServerToolPairing ms" ms]
  by (simp_all add: repair_loop_def Let_def)

definition placed :: "message list \<Rightarrow> nat \<Rightarrow> message \<Rightarrow> bool" where
  "placed merged j m \<longleftrightarrow> j < length merged \<and> msg_role (merged ! j) = msg_role m \<and>
     subseq (msg_content m) (msg_content (merged ! j))"

lemma push_merged_length: "length merged \<le> length (fst (push_merged merged m))"
  by (cases merged rule: rev_cases) (auto simp: push_merged_def)

lemma push_merged_keeps: "placed merged j x \<Longrightarrow> placed (fst (push_merged merged m)) j x"
  by (cases merged rule: rev_cases)
     (auto simp: push_merged_def placed_def nth_append less_Suc_eq intro: list_emb_append2
       subseq_order.order_trans)

lemma push_merged_places:
  "placed (fst (push_merged merged m)) (length (fst (push_merged merged m)) - 1) m"
  by (cases merged rule: rev_cases) (auto simp: push_merged_def placed_def nth_append)

definition merge_inv :: "nat \<Rightarrow> (message \<times> nat option) list \<Rightarrow> merge_state \<Rightarrow> bool" where
  "merge_inv n es g \<longleftrightarrow>
     length (mg_inputToOutputIndex g) = n \<and>
     (\<forall>(m, i) \<in> set (sourced es). \<exists>j. mg_inputToOutputIndex g ! i = Some j \<and> placed (mg_merged g) j m) \<and>
     (\<forall>i < n. i \<notin> snd ` set (sourced es) \<longrightarrow> mg_inputToOutputIndex g ! i = None) \<and>
     (\<forall>i i' j j'. i \<le> i' \<longrightarrow> i' < n \<longrightarrow> mg_inputToOutputIndex g ! i = Some j \<longrightarrow>
        mg_inputToOutputIndex g ! i' = Some j' \<longrightarrow> j \<le> j')"

lemma merge_inv_None: "merge_inv n es g \<Longrightarrow> merge_inv n (es @ [(m, None)]) (merge_step g (m, None))"
  unfolding merge_inv_def merge_step_def
  by (auto split: prod.splits) (metis fst_conv push_merged_keeps)

lemma merge_inv_Some:
  assumes inv: "merge_inv n es g" and i: "i < n" and fresh: "\<forall>k \<in> snd ` set (sourced es). k < i"
  shows "merge_inv n (es @ [(m, Some i)]) (merge_step g (m, Some i))"
proof -
  let ?M = "fst (push_merged (mg_merged g) m)"
  let ?I = "mg_inputToOutputIndex g"
  let ?I' = "?I[i := Some (length ?M - 1)]"
  have len: "length ?I = n" using inv by (simp add: merge_inv_def)
  have old: "k \<in> snd ` set (sourced es) \<and> j < length ?M" if "?I ! k = Some j" "k < n" for k j
  proof -
    have k: "k \<in> snd ` set (sourced es)" using inv that by (auto simp: merge_inv_def)
    then have "j < length (mg_merged g)" using inv that by (force simp: merge_inv_def placed_def)
    with k push_merged_length [of "mg_merged g" m] show ?thesis by linarith
  qed
  obtain c where eq: "merge_step g (m, Some i) = \<lparr>mg_merged = ?M, mg_inputToOutputIndex = ?I', mg_count = c\<rparr>"
    by (auto simp: merge_step_def case_prod_unfold)
  have A: "\<exists>j. ?I' ! k = Some j \<and> placed ?M j x" if "(x, k) \<in> set (sourced (es @ [(m, Some i)]))" for x k
  proof (cases "(x, k) = (m, i)")
    case True
    then show ?thesis using i len push_merged_places [of "mg_merged g" m] by auto
  next
    case False
    with that have "(x, k) \<in> set (sourced es)" by auto
    with fresh have "k \<noteq> i" by force
    with inv \<open>(x, k) \<in> set (sourced es)\<close> show ?thesis
      by (auto simp: merge_inv_def intro!: push_merged_keeps)
  qed
  have B: "j \<le> j'" if "k \<le> k'" "k' < n" "?I' ! k = Some j" "?I' ! k' = Some j'" for k k' j j'
  proof (cases "k' = i")
    case True
    with that i len have "j' = length ?M - 1" by simp
    moreover have "k = i \<or> j < length ?M" using old [of k j] that len by (cases "k = i") auto
    ultimately show ?thesis using that i len by (cases "k = i") auto
  next
    case False
    with that have "?I ! k' = Some j'" by simp
    with old that fresh have "k' < i" by blast
    with that inv False show ?thesis by (auto simp: merge_inv_def)
  qed
  have C: "?I' ! k = None" if "k < n" "k \<notin> snd ` set (sourced (es @ [(m, Some i)]))" for k
    using that inv by (auto simp: merge_inv_def)
  show ?thesis
    unfolding eq merge_inv_def merge_state.select_convs length_list_update
    using len A B C by blast
qed

lemma merge_pass_inv:
  "sorted_wrt (<) (map snd (sourced es)) \<Longrightarrow> \<forall>k \<in> snd ` set (sourced es). k < n \<Longrightarrow> merge_inv n es (merge_pass n es)"
proof (induction es rule: rev_induct)
  case Nil
  then show ?case by (simp add: merge_inv_def merge_pass_def)
next
  case (snoc e es)
  obtain m s where e: "e = (m, s)" by force
  have step: "merge_pass n (es @ [e]) = merge_step (merge_pass n es) e" by (simp add: merge_pass_def)
  have inv: "merge_inv n es (merge_pass n es)"
    using snoc by (auto simp: sorted_wrt_append)
  show ?case
  proof (cases s)
    case None
    with inv step e merge_inv_None show ?thesis by simp
  next
    case (Some i)
    with snoc.prems e have "i < n" "\<forall>k \<in> snd ` set (sourced es). k < i"
      by (auto simp: sorted_wrt_append)
    with inv step e Some merge_inv_Some show ?thesis by simp
  qed
qed

lemma repair_merge_inv:
  "merge_inv (length ms) (rp_result (repair_loop ms)) (merge_pass (length ms) (rp_result (repair_loop ms)))"
proof (rule merge_pass_inv)
  have "snd ` set (sourced (rp_result (repair_loop ms))) = {0..<length ms}"
    using repair_loop_sourced(1) [of ms] by (metis set_map set_upt)
  then show "\<forall>k \<in> snd ` set (sourced (rp_result (repair_loop ms))). k < length ms" by auto
qed (simp add: repair_loop_sourced)

lemma repair_index_placed:
  assumes "i < length ms"
  shows "\<exists>j. mg_inputToOutputIndex (merge_pass (length ms) (rp_result (repair_loop ms))) ! i = Some j \<and>
    j < length (rr_messages (repairHistory ms)) \<and> carries (ms ! i) (rr_messages (repairHistory ms) ! j)"
proof -
  let ?es = "sourced (rp_result (repair_loop ms))"
  let ?g = "merge_pass (length ms) (rp_result (repair_loop ms))"
  have l: "length ?es = length ms" using repair_loop_sourced(2) [of ms] by (simp add: list_all2_lengthD)
  have "snd (?es ! i) = [0..<length ms] ! i" using repair_loop_sourced(1) [of ms] assms l by (metis nth_map)
  then obtain r where r: "?es ! i = (r, i)" using assms by (cases "?es ! i") auto
  then have "(r, i) \<in> set ?es" using assms l by (metis nth_mem)
  with repair_merge_inv [of ms] obtain j where j: "mg_inputToOutputIndex ?g ! i = Some j" "placed (mg_merged ?g) j r"
    by (force simp: merge_inv_def)
  have "carries (ms ! i) r"
    using repair_loop_sourced(2) [of ms] assms r l by (auto simp: list_all2_conv_all_nth)
  with j show ?thesis
    by (auto simp: rr_messages_repair mg_merged_pass placed_def carries_def intro: subseq_order.order_trans)
qed

section \<open>A history that is in order is left alone\<close>

definition no_web_results :: "block list \<Rightarrow> bool" where
  "no_web_results c = list_all (\<lambda>b. \<not> isWebSearchToolResultBlock b) c"

definition message_settled :: "ServerToolPairing \<Rightarrow> message \<Rightarrow> bool" where
  "message_settled sp m =
     (case msg_role m of
        Assistant \<Rightarrow> orphan_server_ids sp (msg_content m) = [] \<and> orphan_web_ids sp (msg_content m) = []
      | User \<Rightarrow> no_web_results (msg_content m))"

definition server_settled :: "message list \<Rightarrow> bool" where
  "server_settled ms = list_all (message_settled (analyzeServerToolPairing ms)) ms"

lemma no_results_filter:
  "result_ids c = {} \<Longrightarrow> filter (\<lambda>b. \<not> is_tool_result b) c = c \<and> filter is_tool_result c = []
     \<and> foldl recover_block m c = m"
proof (induction c arbitrary: m)
  case (Cons b c)
  then have "result_id b = None" "result_ids c = {}" by (cases "result_id b"; simp)+
  with Cons.IH show ?case by (simp add: recover_block_def result_id_None [symmetric])
qed simp

lemma assistant_step_settled:
  assumes "rp_pendingToolUseIds st = []" and "result_ids c = {}"
    and "orphan_server_ids sp c = []" and "orphan_web_ids sp c = []"
  shows "assistant_step sp i c st =
    st\<lparr>rp_result := rp_result st @ [(mk_message Assistant c, Some i)],
       rp_pendingToolUseIds := set_of (List.map_filter use_id c), rp_recoveredResults := []\<rparr>"
  using assms no_results_filter [OF assms(2), of "[]"]
  by (simp add: assistant_step_def Let_def flush_pending_def repair_server_blocks_def)

lemma match_block_settled:
  "result_ids c \<subseteq> set pending \<Longrightarrow> no_web_results c \<Longrightarrow>
   map (match_block pending) c = c \<and> count_downgraded pending c = 0"
proof (induction c)
  case (Cons b c)
  then have "match_block pending b = b \<and> \<not> isWebSearchToolResultBlock b
      \<and> (case result_id b of None \<Rightarrow> True | Some i \<Rightarrow> i \<in> set pending)"
    by (cases b) (auto simp: match_block_def no_web_results_def)
  with Cons show ?case
    by (auto simp: count_downgraded_def no_web_results_def split: option.splits)
qed (simp add: count_downgraded_def)

lemma count_missing_Nil [simp]: "count_missing rec [] = 0"
  by (simp add: count_missing_def)

lemma user_step_settled:
  assumes "result_ids c = set (rp_pendingToolUseIds st)" and "no_web_results c"
  shows "\<exists>rec. user_step i c st =
    st\<lparr>rp_result := rp_result st @ [(mk_message User c, Some i)],
       rp_pendingToolUseIds := [], rp_recoveredResults := rec\<rparr>"
proof -
  have m: "map (match_block (rp_pendingToolUseIds st)) c = c" "count_downgraded (rp_pendingToolUseIds st) c = 0"
    using match_block_settled [of c "rp_pendingToolUseIds st"] assms by auto
  show ?thesis
  proof (cases "rp_pendingToolUseIds st = []")
    case True
    with m have "user_step i c st = st\<lparr>rp_result := rp_result st @ [(mk_message User c, Some i)],
       rp_pendingToolUseIds := [], rp_recoveredResults := rp_recoveredResults st\<rparr>"
      by (simp add: user_step_def Let_def)
    then show ?thesis by blast
  next
    case False
    have "filter (\<lambda>k. k \<notin> set (set_of (filter (\<lambda>k. k \<in> set (rp_pendingToolUseIds st)) (List.map_filter result_id c))))
        (rp_pendingToolUseIds st) = []"
      using assms(1) by (auto simp: filter_empty_conv set_map_filter_result)
    with False m have "user_step i c st = st\<lparr>rp_result := rp_result st @ [(mk_message User c, Some i)],
       rp_pendingToolUseIds := [], rp_recoveredResults := []\<rparr>"
      by (simp add: user_step_def Let_def)
    then show ?thesis by blast
  qed
qed

lemma repair_settled:
  assumes "check_msgs (set (rp_pendingToolUseIds st)) (map snd ims) = Some {}"
    and "list_all (message_settled sp) (map snd ims)"
  shows "rp_result (foldl (repair_step sp) st ims) = rp_result st @ map (\<lambda>(i, m). (m, Some i)) ims
    \<and> rp_pendingToolUseIds (foldl (repair_step sp) st ims) = []
    \<and> rp_stats (foldl (repair_step sp) st ims) = rp_stats st"
  using assms
proof (induction ims arbitrary: st)
  case Nil
  then show ?case by simp
next
  case (Cons im ims)
  obtain i m where im: "im = (i, m)" by force
  obtain p where p: "check_msg (set (rp_pendingToolUseIds st)) m = Some p" "check_msgs p (map snd ims) = Some {}"
    using Cons.prems(1) im by (auto split: option.splits)
  have settled: "message_settled sp m" using Cons.prems(2) im by simp
  obtain pend rec where step: "repair_step sp st im =
      st\<lparr>rp_result := rp_result st @ [(m, Some i)], rp_pendingToolUseIds := pend, rp_recoveredResults := rec\<rparr>"
    and pend: "set pend = p"
  proof (cases "msg_role m")
    case Assistant
    with p settled have "rp_pendingToolUseIds st = []" "result_ids (msg_content m) = {}"
        "orphan_server_ids sp (msg_content m) = []" "orphan_web_ids sp (msg_content m) = []"
      by (auto simp: check_msg_def message_settled_def split: if_splits)
    from assistant_step_settled [OF this, of i] Assistant p(1)
    show ?thesis
      by (intro that) (auto simp: repair_step_def im check_msg_def set_map_filter_use mk_message_simps(3) [of m, unfolded Assistant]
        split: if_splits)
  next
    case User
    with p settled have "result_ids (msg_content m) = set (rp_pendingToolUseIds st)" "no_web_results (msg_content m)"
      by (auto simp: check_msg_def message_settled_def split: if_splits)
    from user_step_settled [OF this, of i] obtain rec where
      "user_step i (msg_content m) st = st\<lparr>rp_result := rp_result st @ [(mk_message User (msg_content m), Some i)],
         rp_pendingToolUseIds := [], rp_recoveredResults := rec\<rparr>" ..
    with User p(1) show ?thesis
      by (intro that) (auto simp: repair_step_def im check_msg_def mk_message_simps(3) [of m, unfolded User]
        split: if_splits)
  qed
  have "check_msgs (set (rp_pendingToolUseIds (repair_step sp st im))) (map snd ims) = Some {}"
    using p(2) step pend by simp
  from Cons.IH [OF this] Cons.prems(2) step im show ?case by simp
qed

lemma merge_pass_alternating:
  "alternating ms \<Longrightarrow> length ms \<le> n \<Longrightarrow>
   merge_pass n (map (\<lambda>(i, m). (m, Some i)) (enumerate 0 ms)) =
     \<lparr>mg_merged = ms, mg_inputToOutputIndex = map Some [0..<length ms] @ replicate (n - length ms) None, mg_count = 0\<rparr>"
proof (induction ms rule: rev_induct)
  case Nil
  then show ?case by (simp add: merge_pass_def)
next
  case (snoc m ms)
  obtain k where k: "n = length ms + Suc k" using snoc.prems(2) by (auto simp: le_iff_add)
  have "push_merged ms m = (ms @ [m], False)" using snoc.prems(1) by (auto simp: push_merged_def alternating_snoc)
  then show ?case
    using snoc by (simp add: enumerate_append_eq alternating_snoc merge_pass_def merge_step_def k list_update_append)
qed

lemma repair_in_order:
  assumes "history_ok ms" and "server_settled ms"
  shows "repairHistory ms =
    \<lparr>rr_messages = ms, rr_stats = no_repairs, rr_inputToOutputIndex = Some (map Some [0..<length ms])\<rparr>"
proof -
  let ?st = "foldl (repair_step (analyzeServerToolPairing ms)) repair_init (enumerate 0 ms)"
  have "rp_result ?st = map (\<lambda>(i, m). (m, Some i)) (enumerate 0 ms) \<and> rp_pendingToolUseIds ?st = [] \<and>
      rp_stats ?st = no_repairs"
    using repair_settled [of repair_init "enumerate 0 ms" "analyzeServerToolPairing ms"] assms
    by (simp add: history_ok_def server_settled_def repair_init_def)
  with merge_pass_alternating [of ms "length ms"] assms(1) show ?thesis
    by (simp add: repairHistory_def repair_loop_def Let_def flush_pending_def history_ok_def no_repairs_def)
qed

section \<open>Histories without server-side tools\<close>

definition server_free_block :: "block \<Rightarrow> bool" where
  "server_free_block b \<longleftrightarrow> server_use_id b = None \<and> web_result_id b = None"

definition server_free :: "message list \<Rightarrow> bool" where
  "server_free ms = list_all (\<lambda>m. list_all server_free_block (msg_content m)) ms"

lemma server_free_ids:
  "list_all server_free_block c \<Longrightarrow>
     List.map_filter server_use_id c = [] \<and> List.map_filter web_result_id c = [] \<and> no_web_results c"
proof (induction c)
  case (Cons b c)
  then have "server_use_id b = None" "web_result_id b = None" by (simp_all add: server_free_block_def)
  with Cons show ?case by (cases b) (auto simp: List.map_filter_def no_web_results_def)
qed (simp add: List.map_filter_def no_web_results_def)

lemma server_free_settled: "server_free ms \<Longrightarrow> server_settled ms"
  by (auto simp: server_free_def server_settled_def message_settled_def list_all_iff [of _ ms] orphan_server_ids_def
      orphan_web_ids_def server_free_ids split: role.splits)

definition state_free :: "repair_state \<Rightarrow> bool" where
  "state_free st \<longleftrightarrow> server_free (map fst (rp_result st)) \<and>
     (\<forall>i b. jm_get (rp_recoveredResults st) i = Some b \<longrightarrow> server_free_block b)"

lemma result_for_free:
  "(\<forall>i b. jm_get rec i = Some b \<longrightarrow> server_free_block b) \<Longrightarrow> list_all server_free_block (map (result_for rec) ids)"
  by (auto simp: list_all_iff result_for_def synthetic_result_def server_free_block_def split: option.splits)

lemma flush_pending_free: "state_free st \<Longrightarrow> state_free (flush_pending st)"
  by (auto simp: state_free_def flush_pending_def buildResultMessage_def server_free_def result_for_free)

lemma recover_free:
  "\<forall>i b. jm_get m i = Some b \<longrightarrow> server_free_block b \<Longrightarrow> list_all server_free_block c \<Longrightarrow>
   \<forall>i b. jm_get (foldl recover_block m c) i = Some b \<longrightarrow> server_free_block b"
proof (induction c arbitrary: m)
  case (Cons x c)
  have "\<forall>i b. jm_get (recover_block m x) i = Some b \<longrightarrow> server_free_block b"
    using Cons.prems by (simp add: recover_block_def split: option.split)
  from Cons.IH [OF this] Cons.prems(2) show ?case by simp
qed simp

lemma match_block_free: "list_all server_free_block c \<Longrightarrow> list_all server_free_block (map (match_block p) c)"
  by (induction c) (auto simp: match_block_def server_free_block_def split: block.splits)

lemma repair_step_free:
  assumes "state_free st" and "list_all server_free_block (msg_content m)"
  shows "state_free (repair_step sp st (i, m))"
proof (cases "msg_role m")
  case Assistant
  let ?c = "filter (\<lambda>b. \<not> is_tool_result b) (msg_content m)"
  have c: "list_all server_free_block ?c" using assms(2) by (auto simp: list_all_iff)
  then have "repair_server_blocks sp ?c s = (?c, s)" for s
    using server_free_ids [OF c] by (simp add: repair_server_blocks_def orphan_server_ids_def orphan_web_ids_def)
  with flush_pending_free [OF assms(1)] c recover_free [of "[]" "msg_content m"] assms(2) Assistant
  show ?thesis
    by (simp add: state_free_def repair_step_def assistant_step_def Let_def server_free_def)
next
  case User
  with assms match_block_free [OF assms(2)] show ?thesis
    by (auto simp: state_free_def repair_step_def user_step_def Let_def server_free_def result_for_free)
qed

lemma foldl_repair_free:
  "state_free st \<Longrightarrow> server_free (map snd ims) \<Longrightarrow> state_free (foldl (repair_step sp) st ims)"
proof (induction ims arbitrary: st)
  case (Cons im ims)
  obtain i m where "im = (i, m)" by force
  with Cons show ?case by (simp add: server_free_def repair_step_free)
qed simp

lemma push_merged_free: "server_free xs \<Longrightarrow> server_free [m] \<Longrightarrow> server_free (fst (push_merged xs m))"
  by (cases xs rule: rev_cases) (auto simp: push_merged_def server_free_def)

lemma merge_messages_free: "server_free acc \<Longrightarrow> server_free ms \<Longrightarrow> server_free (merge_messages acc ms)"
proof (induction ms arbitrary: acc)
  case (Cons m ms)
  then have "server_free (fst (push_merged acc m))" by (intro push_merged_free) (auto simp: server_free_def)
  with Cons show ?case by (simp add: server_free_def)
qed simp

lemma repair_server_free: "server_free ms \<Longrightarrow> server_free (rr_messages (repairHistory ms))"
proof -
  assume "server_free ms"
  then have "state_free (foldl (repair_step sp) repair_init (enumerate 0 ms))" for sp
    by (intro foldl_repair_free) (simp_all add: state_free_def repair_init_def server_free_def)
  then have "state_free (repair_loop ms)" unfolding repair_loop_def by (rule flush_pending_free)
  then show ?thesis unfolding rr_messages_repair by (intro merge_messages_free) (simp_all add: state_free_def server_free_def)
qed

lemma repair_history_ok: "history_ok (rr_messages (repairHistory ms))"
  using merge_messages_checks [of "{}" "[]"] repair_loop_checks [of ms]
  by (simp add: rr_messages_repair history_ok_def merge_messages_alternating)

section \<open>Deep repair starts and ends with the user\<close>

lemma push_merged_hd: "xs \<noteq> [] \<Longrightarrow> msg_role (hd (fst (push_merged xs m))) = msg_role (hd xs) \<and> fst (push_merged xs m) \<noteq> []"
  by (cases xs rule: rev_cases) (auto simp: push_merged_def hd_append)

lemma merge_messages_hd:
  "acc @ ms \<noteq> [] \<Longrightarrow> merge_messages acc ms \<noteq> [] \<and> msg_role (hd (merge_messages acc ms)) = msg_role (hd (acc @ ms))"
proof (induction ms arbitrary: acc)
  case (Cons m ms)
  show ?case
  proof (cases "acc = []")
    case True
    with Cons.IH [of "[m]"] show ?thesis by (simp add: push_merged_def)
  next
    case False
    with Cons.IH [of "fst (push_merged acc m)"] push_merged_hd [OF False] show ?thesis by simp
  qed
qed simp

lemma push_merged_last: "msg_role (last (fst (push_merged xs m))) = msg_role m \<and> fst (push_merged xs m) \<noteq> []"
  by (simp add: push_merged_def)

lemma merge_messages_last:
  "ms \<noteq> [] \<Longrightarrow> merge_messages acc ms \<noteq> [] \<and> msg_role (last (merge_messages acc ms)) = msg_role (last ms)"
proof (induction ms arbitrary: acc)
  case (Cons m ms)
  then show ?case using push_merged_last [of acc m] by (cases "ms = []") auto
qed simp

lemma repair_step_result:
  "\<exists>xs r. rp_result (repair_step sp st (i, m)) = rp_result st @ xs @ [r] \<and> msg_role (fst r) = msg_role m
    \<and> (rp_pendingToolUseIds st = [] \<longrightarrow> xs = [])
    \<and> (msg_role m = User \<longrightarrow> rp_pendingToolUseIds (repair_step sp st (i, m)) = [])"
  by (auto simp: repair_step_def assistant_step_def user_step_def Let_def case_prod_unfold flush_pending_def
      split: role.splits)

lemma repair_loop_hd:
  assumes "ms \<noteq> []"
  shows "rp_result (repair_loop ms) \<noteq> [] \<and> msg_role (fst (hd (rp_result (repair_loop ms)))) = msg_role (hd ms)"
proof -
  obtain m ms' where ms: "ms = m # ms'" using assms by (cases ms) auto
  define sp where "sp = analyzeServerToolPairing ms"
  have grow: "\<exists>ys. rp_result (foldl (repair_step sp) st ims) = rp_result st @ ys" for st ims
  proof (induction ims arbitrary: st)
    case (Cons im ims)
    from Cons [of "repair_step sp st im"] repair_step_result [of sp st "fst im" "snd im"]
    show ?case by force
  qed simp
  obtain r where r: "rp_result (repair_step sp repair_init (0, m)) = [r]" "msg_role (fst r) = msg_role m"
    using repair_step_result [of sp repair_init 0 m] by (auto simp: repair_init_def)
  obtain ys where "rp_result (foldl (repair_step sp) repair_init (enumerate 0 ms)) = r # ys"
    using grow [of "repair_step sp repair_init (0, m)" "enumerate 1 ms'"] r ms by auto
  with r(2) ms show ?thesis
    by (simp add: repair_loop_def sp_def flush_pending_def buildResultMessage_def)
qed

lemma repair_loop_last:
  assumes "ms \<noteq> []" and "msg_role (last ms) = User"
  shows "msg_role (fst (last (rp_result (repair_loop ms)))) = User"
proof -
  obtain ms' m where ms: "ms = ms' @ [m]" using assms(1) by (metis append_butlast_last_id)
  let ?st = "foldl (repair_step (analyzeServerToolPairing ms)) repair_init (enumerate 0 ms')"
  from repair_step_result [of "analyzeServerToolPairing ms" ?st "length ms'" m] assms(2) ms show ?thesis
    by (auto simp: repair_loop_def flush_pending_def enumerate_append_eq)
qed

lemma repair_messages_hd:
  "ms \<noteq> [] \<Longrightarrow> rr_messages (repairHistory ms) \<noteq> [] \<and> msg_role (hd (rr_messages (repairHistory ms))) = msg_role (hd ms)"
  using repair_loop_hd [of ms] merge_messages_hd [of "[]" "map fst (rp_result (repair_loop ms))"]
  by (simp add: rr_messages_repair hd_map)

lemma repair_messages_last:
  "ms \<noteq> [] \<Longrightarrow> msg_role (last ms) = User \<Longrightarrow> msg_role (last (rr_messages (repairHistory ms))) = User"
  using repair_loop_last [of ms] repair_loop_hd [of ms]
    merge_messages_last [of "map fst (rp_result (repair_loop ms))" "[]"]
  by (simp add: rr_messages_repair last_map)

lemma not_assistant: "msg_role m \<noteq> Assistant \<Longrightarrow> msg_role m = User"
  by (cases "msg_role m") auto

lemma drop_trailing_prefix: "\<exists>ys. ms = drop_trailing_assistant ms @ ys"
  unfolding drop_trailing_assistant_def
  by (metis rev_append rev_rev_ident takeWhile_dropWhile_id)

lemma deep_prepare_hd: "deep_prepare terminal ms \<noteq> [] \<Longrightarrow> msg_role (hd (deep_prepare terminal ms)) = User"
proof -
  let ?u = "dropWhile (\<lambda>m. msg_role m = Assistant) (filter (\<lambda>m. \<not> isEffectivelyEmptyContent (msg_content m)) ms)"
  let ?m = "merge_messages [] ?u"
  have u: "?u \<noteq> [] \<Longrightarrow> msg_role (hd ?u) = User"
    using hd_dropWhile not_assistant by blast
  have m: "?m \<noteq> [] \<Longrightarrow> msg_role (hd ?m) = User"
    using merge_messages_hd [of "[]" ?u] u by (cases "?u = []") auto
  obtain ys where ys: "?m = drop_trailing_assistant ?m @ ys" using drop_trailing_prefix by blast
  assume "deep_prepare terminal ms \<noteq> []"
  with m ys show ?thesis
    by (cases terminal) (simp_all add: deep_prepare_def Let_def, metis append_is_Nil_conv hd_append2)
qed

lemma deep_prepare_last: "deep_prepare True ms \<noteq> [] \<Longrightarrow> msg_role (last (deep_prepare True ms)) = User"
proof -
  let ?P = "\<lambda>m. msg_role m = Assistant"
  have last: "msg_role (last (rev (dropWhile ?P xs))) = User" if "dropWhile ?P xs \<noteq> []" for xs
    using hd_dropWhile [OF that] not_assistant that by (simp add: last_rev)
  show "deep_prepare True ms \<noteq> [] \<Longrightarrow> ?thesis"
    by (simp add: deep_prepare_def Let_def drop_trailing_assistant_def last del: last_rev dropWhile_eq_Nil_conv)
qed

section \<open>Properties\<close>

text \<open>C26: whatever history goes in, the repaired history obeys the provider's rule: roles alternate,
  assistant messages hold no client tool result, and the ids of the tool results of each user message
  are exactly the ids of the tool uses of the assistant message before it; no use is left unanswered at
  the end.\<close>

theorem repair_gives_valid_history: "history_ok (rr_messages (repairHistory ms))"
  by (rule repair_history_ok)

text \<open>a history that already obeys the rule, and whose server-side tool blocks are paired or
  deferred, comes back unchanged, with no repair counted and every message mapped to its own index.\<close>

theorem repair_leaves_valid_history:
  assumes "history_ok ms" and "server_settled ms"
  shows "repairHistory ms =
    \<lparr>rr_messages = ms, rr_stats = no_repairs, rr_inputToOutputIndex = Some (map Some [0..<length ms])\<rparr>"
  using assms by (rule repair_in_order)

definition demo_history :: "message list" where
  "demo_history =
     [mk_message User [Text ''hi''],
      mk_message Assistant [Text ''ok'', ToolUse ''t1'' ''ls'' JNull],
      mk_message User [ToolResult ''t1'' ''out'' None None]]"

theorem repair_leaves_valid_history_witness:
  "repairHistory demo_history =
    \<lparr>rr_messages = demo_history, rr_stats = no_repairs, rr_inputToOutputIndex = Some [Some 0, Some 1, Some 2]\<rparr>"
proof -
  have "history_ok demo_history"
    by (simp add: history_ok_def demo_history_def check_msg_def)
  moreover have "server_settled demo_history"
    by (rule server_free_settled) (simp add: server_free_def demo_history_def server_free_block_def)
  moreover have "map Some [0..<length demo_history] = [Some 0, Some 1, Some 2]"
    by (simp add: demo_history_def upt_rec)
  ultimately show ?thesis using repair_leaves_valid_history by simp
qed

text \<open>for histories without server-side tools the repair is idempotent: repairing a repaired
  history changes nothing and counts nothing.\<close>

theorem repair_idempotent:
  assumes "server_free ms"
  shows "rr_messages (repairHistory (rr_messages (repairHistory ms))) = rr_messages (repairHistory ms)
    \<and> rr_stats (repairHistory (rr_messages (repairHistory ms))) = no_repairs"
  using repair_in_order [OF repair_history_ok server_free_settled [OF repair_server_free [OF assms]]] by simp

lemmas repair_eval = repairHistory_def repair_loop_def merge_pass_def merge_step_def push_merged_def
  repair_step_def assistant_step_def user_step_def flush_pending_def buildResultMessage_def repair_init_def
  repair_server_blocks_def orphan_server_ids_def orphan_web_ids_def analyzeServerToolPairing_def
  scan_messages_def scan_message_def scan_block_def set_first_def resolved_at_def deferred_uses_def
  match_block_def recover_block_def result_for_def no_repairs_def set_of_def set_add_def
  List.map_filter_def count_downgraded_def count_missing_def repair_server_block_def jm_has_def

definition broken_history :: "message list" where
  "broken_history =
     [mk_message User [ToolResult ''t0'' ''stray'' None None],
      mk_message Assistant [ToolUse ''t1'' ''ls'' JNull, ToolUse ''t2'' ''cat'' JNull, ToolResult ''t1'' ''out'' None None],
      mk_message Assistant [Text ''next''],
      mk_message Assistant [Text ''done'']]"

theorem repair_idempotent_witness:
  "rr_messages (repairHistory (rr_messages (repairHistory broken_history))) = rr_messages (repairHistory broken_history)
   \<and> rr_messages (repairHistory broken_history) =
       [mk_message User [Text ''[orphaned tool_result for t0]: stray''],
        mk_message Assistant [ToolUse ''t1'' ''ls'' JNull, ToolUse ''t2'' ''cat'' JNull],
        mk_message User [ToolResult ''t1'' ''out'' None None, synthetic_result ''t2''],
        mk_message Assistant [Text ''next'', Text ''done'']]"
proof -
  have "server_free broken_history" by (simp add: server_free_def broken_history_def server_free_block_def)
  moreover have "rr_messages (repairHistory broken_history) =
       [mk_message User [Text ''[orphaned tool_result for t0]: stray''],
        mk_message Assistant [ToolUse ''t1'' ''ls'' JNull, ToolUse ''t2'' ''cat'' JNull],
        mk_message User [ToolResult ''t1'' ''out'' None None, synthetic_result ''t2''],
        mk_message Assistant [Text ''next'', Text ''done'']]"
    by (simp add: repair_eval broken_history_def)
  ultimately show ?thesis using repair_idempotent by blast
qed

text \<open>the index map of a repair sends every input message to an output message of the same role
  that contains, in order, every block of the input other than tool results, and it never reorders
  messages.\<close>

theorem repair_index_map:
  "\<exists>idx. rr_inputToOutputIndex (repairHistory ms) = Some idx \<and> length idx = length ms \<and>
     (\<forall>i < length ms. \<exists>j < length (rr_messages (repairHistory ms)).
        idx ! i = Some j \<and> carries (ms ! i) (rr_messages (repairHistory ms) ! j)) \<and>
     (\<forall>i i' j j'. i \<le> i' \<longrightarrow> i' < length ms \<longrightarrow> idx ! i = Some j \<longrightarrow> idx ! i' = Some j' \<longrightarrow> j \<le> j')"
proof -
  let ?idx = "mg_inputToOutputIndex (merge_pass (length ms) (rp_result (repair_loop ms)))"
  have "rr_inputToOutputIndex (repairHistory ms) = Some ?idx" by (simp add: repairHistory_def Let_def)
  moreover have "\<forall>i < length ms. \<exists>j < length (rr_messages (repairHistory ms)).
      ?idx ! i = Some j \<and> carries (ms ! i) (rr_messages (repairHistory ms) ! j)"
    using repair_index_placed by blast
  ultimately show ?thesis using repair_merge_inv [of ms] unfolding merge_inv_def by blast
qed

theorem repair_index_map_witness:
  "\<exists>idx j. rr_inputToOutputIndex (repairHistory broken_history) = Some idx \<and> idx ! 3 = Some j \<and>
     carries (broken_history ! 3) (rr_messages (repairHistory broken_history) ! j)"
proof -
  have "3 < length broken_history" by (simp add: broken_history_def)
  with repair_index_map [of broken_history] show ?thesis by blast
qed

text \<open>the aggressive repair also obeys the rule, never starts with an assistant message, and when
  the provider requires it ends with a user message (or is empty).\<close>

theorem deep_repair_shape:
  "history_ok (rr_messages (deepRepairHistory terminal ms))
   \<and> (rr_messages (deepRepairHistory terminal ms) = [] \<or>
        msg_role (hd (rr_messages (deepRepairHistory terminal ms))) = User
        \<and> (if terminal then msg_role (last (rr_messages (deepRepairHistory terminal ms))) = User else True))"
proof -
  let ?p = "deep_prepare terminal ms"
  have out: "rr_messages (deepRepairHistory terminal ms) = rr_messages (repairHistory ?p)"
    by (simp add: deepRepairHistory_def Let_def)
  show ?thesis
  proof (cases "?p = []")
    case True
    have "rr_messages (repairHistory []) = []" by (simp add: repair_eval)
    with True out repair_history_ok [of "[]"] show ?thesis by simp
  next
    case False
    then have "msg_role (hd (rr_messages (repairHistory ?p))) = User"
      using deep_prepare_hd repair_messages_hd by simp
    moreover have "terminal \<Longrightarrow> msg_role (last (rr_messages (repairHistory ?p))) = User"
      using False deep_prepare_last repair_messages_last by simp
    ultimately show ?thesis unfolding out using repair_history_ok [of ?p] by simp
  qed
qed

definition deferred_history :: "message list" where
  "deferred_history =
     [mk_message User [Text ''q''],
      mk_message Assistant [ServerToolUse ''s'' ''web_search'' JNull],
      mk_message User [ToolResult ''t'' ''r'' None None]]"

text \<open>with a server-side tool the repair is not idempotent. Deferral is judged on the input: a use in
  the last assistant message is kept unanswered when only tool results follow. When such a result is an
  orphan the same pass turns it into text, so the unanswered use is followed by text, the case the
  analysis itself calls an orphan, and a second pass inserts the missing search result.\<close>

theorem repair_leaves_deferred_orphan:
  "rr_messages (repairHistory deferred_history) =
     [mk_message User [Text ''q''],
      mk_message Assistant [ServerToolUse ''s'' ''web_search'' JNull],
      mk_message User [Text ''[orphaned tool_result for t]: r'']]
   \<and> missingToolResultsInserted (rr_stats (repairHistory (rr_messages (repairHistory deferred_history)))) = 1"
proof -
  have "rr_messages (repairHistory deferred_history) =
     [mk_message User [Text ''q''],
      mk_message Assistant [ServerToolUse ''s'' ''web_search'' JNull],
      mk_message User [Text ''[orphaned tool_result for t]: r'']]"
    by (simp add: repair_eval deferred_history_def)
  then show ?thesis by (simp add: repair_eval count_orphan_server_def count_orphan_web_def)
qed

definition late_result_history :: "message list" where
  "late_result_history =
     [mk_message User [Text ''q''],
      mk_message Assistant [ToolUse ''t'' ''ls'' JNull],
      mk_message Assistant [ToolResult ''t'' ''listing'' None None, Text ''done'']]"

text \<open>a tool result that a later assistant message carries for an earlier use is counted as migrated
  but is lost: the earlier use has been answered by a synthetic error, and the result appears nowhere in
  the output.\<close>

theorem repair_drops_late_result:
  "rr_messages (repairHistory late_result_history) =
     [mk_message User [Text ''q''],
      mk_message Assistant [ToolUse ''t'' ''ls'' JNull],
      mk_message User [synthetic_result ''t''],
      mk_message Assistant [Text ''done'']]
   \<and> assistantToolResultsMigrated (rr_stats (repairHistory late_result_history)) = 1"
  by (simp add: repair_eval late_result_history_def)

end
