(* ===== verification/Arg_Parser.thy ===== *)
theory Arg_Parser
  imports Prelude
begin

text \<open>
  Risk levels and the argument parser of the command classifier:
  \<^verbatim>\<open>gateway/src/risk/risk-types.ts\<close> and \<^verbatim>\<open>gateway/src/risk/arg-parser.ts\<close>.

  \<^item> \<open>risk\<close> is ordered by \<open>riskOrd\<close>; the order is linear, and \<open>maxRisk\<close> is its maximum.
  \<^item> The while loop of \<open>parseArgs\<close> is \<open>parse_loop\<close>, one equation per branch; the value \<open>true\<close> of a
    boolean flag is \<open>None\<close>, the string value of a consuming flag is \<open>Some\<close>.
\<close>

section \<open>Risk levels\<close>

datatype risk = Low | Medium | Unknown | High

datatype RiskLevel = LevelLow | LevelMedium | LevelHigh

fun riskOrd :: "risk \<Rightarrow> nat" where
  "riskOrd Low = 0"
| "riskOrd Medium = 1"
| "riskOrd Unknown = 2"
| "riskOrd High = 3"

definition maxRisk :: "risk \<Rightarrow> risk \<Rightarrow> risk" where
  "maxRisk a b = (if riskOrd b \<le> riskOrd a then a else b)"

fun riskToRiskLevel :: "risk \<Rightarrow> RiskLevel" where
  "riskToRiskLevel Low = LevelLow"
| "riskToRiskLevel Medium = LevelMedium"
| "riskToRiskLevel High = LevelHigh"
| "riskToRiskLevel Unknown = LevelMedium"

lemma riskOrd_inj: "riskOrd a = riskOrd b \<Longrightarrow> a = b"
  by (cases a; cases b) auto

instantiation risk :: linorder
begin

definition less_eq_risk :: "risk \<Rightarrow> risk \<Rightarrow> bool" where
  "a \<le> b \<longleftrightarrow> riskOrd a \<le> riskOrd b"

definition less_risk :: "risk \<Rightarrow> risk \<Rightarrow> bool" where
  "a < b \<longleftrightarrow> riskOrd a < riskOrd b"

instance
  by standard (auto simp: less_eq_risk_def less_risk_def riskOrd_inj)

end

lemma maxRisk_max: "maxRisk a b = max a b"
  by (auto simp: maxRisk_def max_def less_eq_risk_def riskOrd_inj)

lemma risk_ge_High [simp]: "High \<le> r \<longleftrightarrow> r = High"
  by (cases r) (auto simp: less_eq_risk_def)

lemma risk_le_High [simp]: "r \<le> High"
  by (cases r) (auto simp: less_eq_risk_def)

lemma risk_ge_Low [simp]: "Low \<le> r"
  by (simp add: less_eq_risk_def)

section \<open>Schemas\<close>

datatype positional_role = RolePath | RolePattern | RoleScript | RoleValue | RoleCommand

record PositionalDesc =
  pd_role :: positional_role
  pd_rest :: bool

datatype positionals_def = Paths | NoPaths | Descs "PositionalDesc list"

record ArgSchema =
  as_valueFlags :: "string list option"
  as_positionals :: "positionals_def option"
  as_pathFlags :: "string list option"
  as_respectsDoubleDash :: "bool option"

definition empty_schema :: ArgSchema where
  "empty_schema = \<lparr>as_valueFlags = None, as_positionals = None, as_pathFlags = None, as_respectsDoubleDash = None\<rparr>"

definition value_flags :: "ArgSchema \<Rightarrow> string list" where
  "value_flags sc = (case as_valueFlags sc of None \<Rightarrow> [] | Some fs \<Rightarrow> fs)"

definition path_flags :: "ArgSchema \<Rightarrow> string list" where
  "path_flags sc = (case as_pathFlags sc of None \<Rightarrow> [] | Some fs \<Rightarrow> fs)"

record ParsedArgs =
  pa_flags :: "(string, string option) jsmap"
  pa_positionals :: "string list"
  pa_pathArgs :: "string list"
  pa_sawDoubleDash :: bool

section \<open>Parsing\<close>

fun last_rest :: "PositionalDesc list \<Rightarrow> PositionalDesc option" where
  "last_rest ds = find pd_rest (rev ds)"

definition is_path_positional :: "positionals_def option \<Rightarrow> nat \<Rightarrow> bool" where
  "is_path_positional pd i =
     (case pd of
        None \<Rightarrow> True
      | Some Paths \<Rightarrow> True
      | Some NoPaths \<Rightarrow> False
      | Some (Descs ds) \<Rightarrow>
          (case (if i < length ds then Some (ds ! i) else last_rest ds) of
             Some d \<Rightarrow> pd_role d = RolePath
           | None \<Rightarrow> True))"

definition addIfPath :: "string \<Rightarrow> nat \<Rightarrow> positionals_def option \<Rightarrow> string list \<Rightarrow> string list" where
  "addIfPath token i pd pathArgs = (if is_path_positional pd i then pathArgs @ [token] else pathArgs)"

definition add_positional :: "ArgSchema \<Rightarrow> string \<Rightarrow> ParsedArgs \<Rightarrow> ParsedArgs" where
  "add_positional sc token p =
     p\<lparr>pa_positionals := pa_positionals p @ [token],
       pa_pathArgs := addIfPath token (length (pa_positionals p)) (as_positionals sc) (pa_pathArgs p)\<rparr>"

definition add_flag_value :: "ArgSchema \<Rightarrow> string \<Rightarrow> string \<Rightarrow> ParsedArgs \<Rightarrow> ParsedArgs" where
  "add_flag_value sc flag v p =
     p\<lparr>pa_flags := jm_set (pa_flags p) flag (Some v),
       pa_pathArgs := (if flag \<in> set (path_flags sc) then pa_pathArgs p @ [v] else pa_pathArgs p)\<rparr>"

definition add_flag :: "string \<Rightarrow> ParsedArgs \<Rightarrow> ParsedArgs" where
  "add_flag flag p = p\<lparr>pa_flags := jm_set (pa_flags p) flag None\<rparr>"

definition before_eq :: "string \<Rightarrow> string" where
  "before_eq s = takeWhile (\<lambda>c. c \<noteq> CHR ''='') s"

definition after_eq :: "string \<Rightarrow> string" where
  "after_eq s = drop 1 (dropWhile (\<lambda>c. c \<noteq> CHR ''='') s)"

fun parse_loop :: "ArgSchema \<Rightarrow> ParsedArgs \<Rightarrow> string list \<Rightarrow> ParsedArgs" where
  "parse_loop sc p [] = p"
| "parse_loop sc p (token # rest) =
     (if pa_sawDoubleDash p then parse_loop sc (add_positional sc token p) rest
      else if token = ''--'' \<and> as_respectsDoubleDash sc \<noteq> Some False
      then parse_loop sc (p\<lparr>pa_sawDoubleDash := True\<rparr>) rest
      else if starts_with ''-'' token \<and> token \<in> set (value_flags sc)
      then (case rest of
              v # rest' \<Rightarrow> parse_loop sc (add_flag_value sc token v p) rest'
            | [] \<Rightarrow> add_flag token p)
      else if starts_with ''-'' token \<and> CHR ''='' \<in> set token \<and> before_eq token \<in> set (value_flags sc)
      then parse_loop sc (add_flag_value sc (before_eq token) (after_eq token) p) rest
      else if starts_with ''-'' token then parse_loop sc (add_flag token p) rest
      else parse_loop sc (add_positional sc token p) rest)"

definition parsed_empty :: ParsedArgs where
  "parsed_empty = \<lparr>pa_flags = [], pa_positionals = [], pa_pathArgs = [], pa_sawDoubleDash = False\<rparr>"

definition parseArgs :: "string list \<Rightarrow> ArgSchema \<Rightarrow> ParsedArgs" where
  "parseArgs args sc = parse_loop sc parsed_empty args"

section \<open>What each argument is\<close>

text \<open>
  The reference view of the parser: every argument gets one role, and the parsed record is a summary
  of the roles.
\<close>

datatype arg_role =
    Positional string
  | Flag string
  | FlagNext string string
  | FlagInline string string string
  | DoubleDash

fun arg_roles :: "ArgSchema \<Rightarrow> bool \<Rightarrow> string list \<Rightarrow> arg_role list" where
  "arg_roles sc saw [] = []"
| "arg_roles sc saw (token # rest) =
     (if saw then Positional token # arg_roles sc True rest
      else if token = ''--'' \<and> as_respectsDoubleDash sc \<noteq> Some False
      then DoubleDash # arg_roles sc True rest
      else if starts_with ''-'' token
      then
        if token \<in> set (value_flags sc)
        then (case rest of v # rest' \<Rightarrow> FlagNext token v # arg_roles sc False rest' | [] \<Rightarrow> [Flag token])
        else if CHR ''='' \<in> set token \<and> before_eq token \<in> set (value_flags sc)
        then FlagInline token (before_eq token) (after_eq token) # arg_roles sc False rest
        else Flag token # arg_roles sc False rest
      else Positional token # arg_roles sc False rest)"

fun role_tokens :: "arg_role \<Rightarrow> string list" where
  "role_tokens (Positional t) = [t]"
| "role_tokens (Flag t) = [t]"
| "role_tokens (FlagNext t v) = [t, v]"
| "role_tokens (FlagInline t _ _) = [t]"
| "role_tokens DoubleDash = [''--'']"

fun positional_tokens :: "arg_role list \<Rightarrow> string list" where
  "positional_tokens [] = []"
| "positional_tokens (Positional t # rs) = t # positional_tokens rs"
| "positional_tokens (_ # rs) = positional_tokens rs"

fun flag_of :: "arg_role \<Rightarrow> (string \<times> string option) option" where
  "flag_of (Flag t) = Some (t, None)"
| "flag_of (FlagNext t v) = Some (t, Some v)"
| "flag_of (FlagInline _ f v) = Some (f, Some v)"
| "flag_of _ = None"

text \<open>The paths in the order they are collected; the number counts the positionals seen so far.\<close>

fun path_tokens :: "ArgSchema \<Rightarrow> nat \<Rightarrow> arg_role list \<Rightarrow> string list" where
  "path_tokens sc n [] = []"
| "path_tokens sc n (r # rs) =
     (case r of
        Positional t \<Rightarrow> (if is_path_positional (as_positionals sc) n then [t] else []) @ path_tokens sc (Suc n) rs
      | FlagNext f v \<Rightarrow> (if f \<in> set (path_flags sc) then [v] else []) @ path_tokens sc n rs
      | FlagInline _ f v \<Rightarrow> (if f \<in> set (path_flags sc) then [v] else []) @ path_tokens sc n rs
      | _ \<Rightarrow> path_tokens sc n rs)"

fun apply_role :: "ArgSchema \<Rightarrow> ParsedArgs \<Rightarrow> arg_role \<Rightarrow> ParsedArgs" where
  "apply_role sc p (Positional t) = add_positional sc t p"
| "apply_role sc p (Flag t) = add_flag t p"
| "apply_role sc p (FlagNext t v) = add_flag_value sc t v p"
| "apply_role sc p (FlagInline _ f v) = add_flag_value sc f v p"
| "apply_role sc p DoubleDash = p\<lparr>pa_sawDoubleDash := True\<rparr>"

lemma saw_simps [simp]:
  "pa_sawDoubleDash (add_positional sc t p) = pa_sawDoubleDash p"
  "pa_sawDoubleDash (add_flag t p) = pa_sawDoubleDash p"
  "pa_sawDoubleDash (add_flag_value sc t v p) = pa_sawDoubleDash p"
  by (simp_all add: add_positional_def add_flag_def add_flag_value_def)

lemma parse_loop_roles:
  "parse_loop sc p args = foldl (apply_role sc) p (arg_roles sc (pa_sawDoubleDash p) args)"
  by (induction sc p args rule: parse_loop.induct) (simp_all split: list.split)

lemma role_tokens_roles: "concat (map role_tokens (arg_roles sc saw args)) = args"
  by (induction sc saw args rule: arg_roles.induct) (simp_all split: list.split)

lemma foldl_positionals:
  "pa_positionals (foldl (apply_role sc) p rs) = pa_positionals p @ positional_tokens rs"
proof (induction rs arbitrary: p)
  case (Cons r rs)
  then show ?case by (cases r) (simp_all add: add_positional_def add_flag_def add_flag_value_def)
qed simp

lemma foldl_paths:
  "pa_pathArgs (foldl (apply_role sc) p rs) = pa_pathArgs p @ path_tokens sc (length (pa_positionals p)) rs"
proof (induction rs arbitrary: p)
  case (Cons r rs)
  then show ?case
    by (cases r) (simp_all add: add_positional_def add_flag_def add_flag_value_def addIfPath_def)
qed simp

lemma foldl_flags:
  "pa_flags (foldl (apply_role sc) p rs) = foldl (\<lambda>m (f, v). jm_set m f v) (pa_flags p) (List.map_filter flag_of rs)"
proof (induction rs arbitrary: p)
  case (Cons r rs)
  then show ?case
    by (cases r) (simp_all add: List.map_filter_def add_positional_def add_flag_def add_flag_value_def)
qed (simp add: List.map_filter_def)

lemma jm_get_foldl_set:
  "jm_get (foldl (\<lambda>m (f, v). jm_set m f v) m fs) k = (case map_of (rev fs) k of Some v \<Rightarrow> Some v | None \<Rightarrow> jm_get m k)"
  by (induction fs arbitrary: m) (auto simp: map_add_def split: option.splits)

lemma path_tokens_positional:
  "i < length (positional_tokens rs) \<Longrightarrow> is_path_positional (as_positionals sc) (n + i) \<Longrightarrow>
   positional_tokens rs ! i \<in> set (path_tokens sc n rs)"
proof (induction rs arbitrary: i n)
  case (Cons r rs)
  show ?case
  proof (cases "\<exists>t. r = Positional t")
    case True
    then obtain t where r: "r = Positional t" ..
    show ?thesis
    proof (cases i)
      case (Suc j)
      with Cons.IH [of j "Suc n"] Cons.prems r show ?thesis by simp
    qed (use Cons.prems r in simp)
  next
    case False
    with Cons show ?thesis by (cases r) auto
  qed
qed simp

section \<open>Properties\<close>

text \<open>the parser gives every argument exactly one role: laid end to end, the roles are the argument
  list, the positionals are the positional roles in order, a flag maps to the value of its last
  occurrence, and the path arguments are the positionals the schema calls paths and the values of the
  path flags, in order and each occurrence of a repeated flag included.\<close>

theorem parse_args_roles:
  "let roles = arg_roles sc False args; p = parseArgs args sc
   in concat (map role_tokens roles) = args
    \<and> pa_positionals p = positional_tokens roles
    \<and> jm_get (pa_flags p) = map_of (rev (List.map_filter flag_of roles))
    \<and> pa_pathArgs p = path_tokens sc 0 roles"
proof -
  let ?roles = "arg_roles sc False args"
  have p: "parseArgs args sc = foldl (apply_role sc) parsed_empty ?roles"
    by (simp add: parseArgs_def parse_loop_roles parsed_empty_def)
  have "jm_get (pa_flags (parseArgs args sc)) = map_of (rev (List.map_filter flag_of ?roles))"
    unfolding p foldl_flags by (rule ext) (simp add: jm_get_foldl_set parsed_empty_def split: option.splits)
  moreover have "pa_positionals (parseArgs args sc) = positional_tokens ?roles"
    unfolding p foldl_positionals by (simp add: parsed_empty_def)
  moreover have "pa_pathArgs (parseArgs args sc) = path_tokens sc 0 ?roles"
    unfolding p foldl_paths by (simp add: parsed_empty_def)
  ultimately show ?thesis by (simp add: Let_def role_tokens_roles)
qed

end
