(* ===== verification/Posix_Paths.thy ===== *)
theory Posix_Paths
  imports Prelude
begin

text \<open>
  What the sources use of \<^verbatim>\<open>node:path\<close> on POSIX paths: \<open>path_resolve\<close> and \<open>path_join\<close> for an absolute
  base directory, \<open>basename\<close> and \<open>dirname\<close>, with the lemmas on segments the components share.
\<close>

section \<open>Operations\<close>

fun split_slash :: "string \<Rightarrow> string list" where
  "split_slash [] = [[]]"
| "split_slash (c # s) =
     (if c = CHR ''/'' then [] # split_slash s
      else (case split_slash s of [] \<Rightarrow> [[c]] | w # ws \<Rightarrow> (c # w) # ws))"

text \<open>\<open>norm_step\<close> reads one segment onto the reversed list of kept segments.\<close>

definition norm_step :: "string list \<Rightarrow> string \<Rightarrow> string list" where
  "norm_step kept w =
     (if w = [] \<or> w = ''.'' then kept else if w = ''..'' then drop 1 kept else w # kept)"

definition norm_segments :: "string list \<Rightarrow> string list" where
  "norm_segments ws = rev (foldl norm_step [] ws)"

definition path_of :: "string list \<Rightarrow> string" where
  "path_of ws = ''/'' @ join_strings ''/'' ws"

definition path_segments :: "string \<Rightarrow> string \<Rightarrow> string list" where
  "path_segments base p =
     norm_segments (if starts_with ''/'' p then split_slash p else split_slash base @ split_slash p)"

definition path_resolve :: "string \<Rightarrow> string \<Rightarrow> string" where
  "path_resolve base p = path_of (path_segments base p)"

definition path_join :: "string \<Rightarrow> string \<Rightarrow> string" where
  "path_join base p =
     (let s = (if p = [] then base else base @ ''/'' @ p); ws = norm_segments (split_slash s)
      in if ws \<noteq> [] \<and> ends_with ''/'' s then path_of ws @ ''/'' else path_of ws)"

definition after_last_slash :: "string \<Rightarrow> string" where
  "after_last_slash s = rev (takeWhile (\<lambda>c. c \<noteq> CHR ''/'') (rev s))"

definition strip_trailing_slash :: "string \<Rightarrow> string" where
  "strip_trailing_slash s = (if ends_with ''/'' s then butlast s else s)"

definition basename :: "string \<Rightarrow> string" where
  "basename p = after_last_slash (strip_trailing_slash p)"

definition dirname :: "string \<Rightarrow> string" where
  "dirname p =
     (if CHR ''/'' \<notin> set p then ''.''
      else let d = rev (drop 1 (dropWhile (\<lambda>c. c \<noteq> CHR ''/'') (rev p))) in if d = [] then ''/'' else d)"

lemma split_slash_not_Nil [simp]: "split_slash s \<noteq> []"
  by (induction s) (auto split: list.splits)

lemma join_split_slash: "join_strings ''/'' (split_slash p) = p"
proof (induction p)
  case (Cons c p)
  show ?case
  proof (cases "c = CHR ''/''")
    case True
    with Cons show ?thesis by (simp add: join_Cons)
  next
    case False
    obtain w ws where s: "split_slash p = w # ws" by (cases "split_slash p") auto
    with Cons False show ?thesis by (cases ws) auto
  qed
qed simp

lemma norm_step_clean: "\<forall>w \<in> set kept. w \<notin> {[], ''.'', ''..''} \<Longrightarrow> \<forall>w \<in> set (norm_step kept x). w \<notin> {[], ''.'', ''..''}"
  by (auto simp: norm_step_def dest: in_set_dropD)

lemma foldl_norm_clean:
  "\<forall>w \<in> set kept. w \<notin> {[], ''.'', ''..''} \<Longrightarrow> \<forall>w \<in> set (foldl norm_step kept ws). w \<notin> {[], ''.'', ''..''}"
proof (induction ws arbitrary: kept)
  case (Cons x ws)
  from Cons.IH [OF norm_step_clean [OF Cons.prems]] show ?case by simp
qed simp

lemma path_segments_clean: "w \<in> set (path_segments base p) \<Longrightarrow> w \<notin> {[], ''.'', ''..''}"
  using foldl_norm_clean [of "[]"] unfolding path_segments_def norm_segments_def by (metis empty_iff empty_set set_rev)

lemma path_resolve_absolute: "starts_with ''/'' (path_resolve base p)"
  by (simp add: path_resolve_def path_of_def starts_with_def)

lemma split_slash_no_slash: "w \<in> set (split_slash p) \<Longrightarrow> CHR ''/'' \<notin> set w"
proof (induction p arbitrary: w)
  case (Cons c p)
  then show ?case by (auto split: if_splits list.splits)
qed simp

lemma split_slash_plain: "CHR ''/'' \<notin> set w \<Longrightarrow> split_slash w = [w]"
  by (induction w) auto

lemma split_slash_append:
  "CHR ''/'' \<notin> set w \<Longrightarrow> split_slash (w @ CHR ''/'' # p) = w # split_slash p"
  by (induction w) auto

lemma split_join_slash:
  "ws \<noteq> [] \<Longrightarrow> (\<And>w. w \<in> set ws \<Longrightarrow> CHR ''/'' \<notin> set w) \<Longrightarrow> split_slash (join_strings ''/'' ws) = ws"
proof (induction ws)
  case (Cons w ws)
  then show ?case by (cases "ws = []") (auto simp: split_slash_plain join_Cons split_slash_append)
qed simp

lemma norm_keeps_clean: "(\<And>w. w \<in> set ws \<Longrightarrow> w \<notin> {[], ''.'', ''..''}) \<Longrightarrow> foldl norm_step kept ws = rev ws @ kept"
proof (induction ws arbitrary: kept)
  case (Cons w ws)
  then have "norm_step kept w = w # kept" by (auto simp: norm_step_def)
  with Cons show ?case by simp
qed simp

lemma set_foldl_norm: "set (foldl norm_step kept ws) \<subseteq> set kept \<union> set ws"
proof (induction ws arbitrary: kept)
  case (Cons w ws)
  have "set (norm_step kept w) \<subseteq> insert w (set kept)" by (auto simp: norm_step_def dest: in_set_dropD)
  with Cons [of "norm_step kept w"] show ?case by auto
qed simp

lemma path_segments_no_slash: "w \<in> set (path_segments base p) \<Longrightarrow> CHR ''/'' \<notin> set w"
proof -
  let ?raw = "if starts_with ''/'' p then split_slash p else split_slash base @ split_slash p"
  assume "w \<in> set (path_segments base p)"
  then have "w \<in> set (foldl norm_step [] ?raw)" by (simp only: path_segments_def norm_segments_def set_rev)
  with set_foldl_norm [of "[]" ?raw] have "w \<in> set ?raw" by auto
  then show ?thesis by (auto dest: split_slash_no_slash split: if_splits)
qed

lemma path_resolve_idem: "path_resolve b (path_resolve a p) = path_resolve a p"
proof -
  let ?ws = "path_segments a p"
  have "path_segments b (path_of ?ws) = ?ws"
  proof (cases "?ws = []")
    case True
    then show ?thesis by (simp add: path_segments_def path_of_def starts_with_def norm_segments_def norm_step_def)
  next
    case False
    have "split_slash (path_of ?ws) = [] # ?ws"
      using split_join_slash [OF False path_segments_no_slash] by (simp add: path_of_def)
    moreover have "norm_segments ([] # ?ws) = ?ws"
      using norm_keeps_clean [of ?ws "[]"] path_segments_clean by (simp add: norm_segments_def norm_step_def)
    moreover have "starts_with ''/'' (path_of ?ws)" by (simp add: path_of_def starts_with_def)
    ultimately show ?thesis by (simp only: path_segments_def [of b] if_True)
  qed
  then show ?thesis by (simp add: path_resolve_def)
qed

section \<open>Walking up\<close>

text \<open>The walk to the parent ends: a parent is shorter, or the root, or the current directory.\<close>

definition path_rank :: "string \<Rightarrow> nat" where
  "path_rank p = (if p = ''/'' \<or> p = ''.'' then 0 else if CHR ''/'' \<notin> set p then 1 else 2 + length p)"

lemma dirname_shorter:
  "CHR ''/'' \<in> set p \<Longrightarrow> length (rev (drop 1 (dropWhile (\<lambda>c. c \<noteq> CHR ''/'') (rev p)))) < length p"
  using length_dropWhile_le [of "\<lambda>c. c \<noteq> CHR ''/''" "rev p"] by (cases p) auto

lemma path_rank_dirname: "dirname p \<noteq> p \<Longrightarrow> path_rank (dirname p) < path_rank p"
  using dirname_shorter [of p] by (auto simp: dirname_def path_rank_def Let_def split: if_splits)

end
