(* ===== verification/Trust_Rules.thy ===== *)
theory Trust_Rules
  imports Arg_Parser Posix_Paths
begin

text \<open>
  Trust rules: the store \<^verbatim>\<open>gateway/src/db/trust-rule-store.ts\<close> and the cache the classifiers look rules
  up in, \<^verbatim>\<open>gateway/src/risk/trust-rule-cache.ts\<close>.

  \<^item> The table \<open>trust_rules\<close> is the list of its rows. Its constraints (primary key \<open>id\<close>, unique
    \<open>(tool, pattern)\<close>) are the invariant \<open>table_ok\<close>; a statement that would break the primary key
    is the error \<open>ConstraintFailed\<close>. A row holds the risk as the string of the column; \<open>toTrustRule\<close>
    reads it. The time and the random id of an insertion are arguments.
  \<^item> The cache is a map from tools to maps from patterns to rules; the module-level singleton is an
    \<open>option\<close>, \<open>None\<close> before \<open>initTrustRuleCache\<close>.
\<close>

section \<open>Rules and rows\<close>

datatype origin = Default | UserDefined

record TrustRule =
  tr_id :: string
  tr_tool :: string
  tr_pattern :: string
  tr_risk :: risk
  tr_description :: string
  tr_origin :: origin
  tr_userModified :: bool
  tr_deleted :: bool
  tr_scope :: "string option"
  tr_createdAt :: int
  tr_updatedAt :: int

record row =
  row_id :: string
  row_tool :: string
  row_pattern :: string
  row_risk :: string
  row_description :: string
  row_origin :: origin
  row_userModified :: bool
  row_deleted :: bool
  row_scope :: "string option"
  row_createdAt :: int
  row_updatedAt :: int

definition VALID_RISK_VALUES :: "string list" where
  "VALID_RISK_VALUES = [''low'', ''medium'', ''high'']"

definition row_risk_level :: "string \<Rightarrow> risk" where
  "row_risk_level r =
     (if r = ''low'' then Low else if r = ''medium'' then Medium else High)"

definition toTrustRule :: "row \<Rightarrow> TrustRule" where
  "toTrustRule r =
     \<lparr>tr_id = row_id r, tr_tool = row_tool r, tr_pattern = row_pattern r, tr_risk = row_risk_level (row_risk r),
      tr_description = row_description r, tr_origin = row_origin r, tr_userModified = row_userModified r,
      tr_deleted = row_deleted r, tr_scope = row_scope r, tr_createdAt = row_createdAt r,
      tr_updatedAt = row_updatedAt r\<rparr>"

datatype store_error = InvalidRisk string | NotFound string | CannotReset string | ConstraintFailed

type_synonym table = "row list"

section \<open>The store\<close>

record ListFilters =
  lf_origin :: "origin option"
  lf_tool :: "string option"
  lf_includeDeleted :: bool
  lf_userRelevantOnly :: bool

definition list_rules :: "ListFilters \<Rightarrow> table \<Rightarrow> TrustRule list" where
  "list_rules f t =
     map toTrustRule (filter (\<lambda>r.
       (lf_includeDeleted f \<or> \<not> row_deleted r) \<and>
       (case lf_origin f of None \<Rightarrow> True | Some x \<Rightarrow> row_origin r = x) \<and>
       (lf_userRelevantOnly f \<longrightarrow> row_origin r = UserDefined \<or> row_userModified r) \<and>
       (case lf_tool f of None \<Rightarrow> True | Some x \<Rightarrow> row_tool r = x)) t)"

definition getById :: "table \<Rightarrow> string \<Rightarrow> TrustRule option" where
  "getById t i = map_option toTrustRule (find (\<lambda>r. row_id r = i) t)"

definition update_rows :: "(row \<Rightarrow> bool) \<Rightarrow> (row \<Rightarrow> row) \<Rightarrow> table \<Rightarrow> table" where
  "update_rows P f t = map (\<lambda>r. if P r then f r else r) t"

definition same_key :: "string \<Rightarrow> string \<Rightarrow> row \<Rightarrow> bool" where
  "same_key tool pattern r \<longleftrightarrow> row_tool r = tool \<and> row_pattern r = pattern"

record CreateInput =
  ci_tool :: string
  ci_pattern :: string
  ci_risk :: string
  ci_description :: string
  ci_scope :: "string option"

definition create_row :: "string \<Rightarrow> int \<Rightarrow> CreateInput \<Rightarrow> row" where
  "create_row i now inp =
     \<lparr>row_id = i, row_tool = ci_tool inp, row_pattern = ci_pattern inp, row_risk = ci_risk inp,
      row_description = ci_description inp, row_origin = UserDefined, row_userModified = False,
      row_deleted = False, row_scope = ci_scope inp, row_createdAt = now, row_updatedAt = now\<rparr>"

definition insert_or_update :: "row \<Rightarrow> (row \<Rightarrow> row) \<Rightarrow> table \<Rightarrow> store_error + table" where
  "insert_or_update new f t =
     (if list_ex (same_key (row_tool new) (row_pattern new)) t
      then Inr (update_rows (same_key (row_tool new) (row_pattern new)) f t)
      else if list_ex (\<lambda>r. row_id r = row_id new) t then Inl ConstraintFailed
      else Inr (t @ [new]))"

definition create :: "string \<Rightarrow> int \<Rightarrow> table \<Rightarrow> CreateInput \<Rightarrow> store_error + (table \<times> TrustRule option)" where
  "create i now t inp =
     (if ci_risk inp \<notin> set VALID_RISK_VALUES then Inl (InvalidRisk (ci_risk inp))
      else
        (case insert_or_update (create_row i now inp)
                (\<lambda>r. r\<lparr>row_risk := ci_risk inp, row_description := ci_description inp, row_origin := UserDefined,
                       row_scope := ci_scope inp, row_deleted := False, row_updatedAt := now\<rparr>) t of
           Inl e \<Rightarrow> Inl e
         | Inr t' \<Rightarrow> Inr (t', map_option toTrustRule (find (same_key (ci_tool inp) (ci_pattern inp)) t'))))"

definition update ::
  "int \<Rightarrow> table \<Rightarrow> string \<Rightarrow> string option \<Rightarrow> string option \<Rightarrow> store_error + (table \<times> TrustRule option)" where
  "update now t i newRisk newDescription =
     (case getById t i of
        None \<Rightarrow> Inl (NotFound i)
      | Some existing \<Rightarrow>
          if newRisk = None \<and> newDescription = None then Inr (t, Some existing)
          else if (case newRisk of Some r \<Rightarrow> r \<notin> set VALID_RISK_VALUES | None \<Rightarrow> False)
          then Inl (InvalidRisk (the newRisk))
          else
            let t' = update_rows (\<lambda>r. row_id r = i)
              (\<lambda>r. r\<lparr>row_updatedAt := now,
                     row_risk := (case newRisk of Some x \<Rightarrow> x | None \<Rightarrow> row_risk r),
                     row_description := (case newDescription of Some x \<Rightarrow> x | None \<Rightarrow> row_description r),
                     row_userModified := (if tr_origin existing = Default then True else row_userModified r)\<rparr>) t
            in Inr (t', getById t' i))"

definition remove :: "int \<Rightarrow> table \<Rightarrow> string \<Rightarrow> store_error + table" where
  "remove now t i =
     (case getById t i of
        None \<Rightarrow> Inl (NotFound i)
      | Some existing \<Rightarrow>
          if tr_origin existing = UserDefined then Inr (filter (\<lambda>r. row_id r \<noteq> i) t)
          else Inr (update_rows (\<lambda>r. row_id r = i) (\<lambda>r. r\<lparr>row_deleted := True, row_updatedAt := now\<rparr>) t))"

definition reset ::
  "int \<Rightarrow> table \<Rightarrow> string \<Rightarrow> string \<Rightarrow> string option \<Rightarrow> store_error + (table \<times> TrustRule option)" where
  "reset now t i originalRisk originalDescription =
     (case getById t i of
        None \<Rightarrow> Inl (NotFound i)
      | Some existing \<Rightarrow>
          if tr_origin existing \<noteq> Default then Inl (CannotReset i)
          else
            let t' = update_rows (\<lambda>r. row_id r = i)
              (\<lambda>r. r\<lparr>row_userModified := False, row_deleted := False, row_risk := originalRisk,
                     row_updatedAt := now,
                     row_description := (case originalDescription of Some x \<Rightarrow> x | None \<Rightarrow> row_description r)\<rparr>) t
            in Inr (t', getById t' i))"

record UpsertDefaultInput =
  ud_id :: string
  ud_tool :: string
  ud_pattern :: string
  ud_risk :: string
  ud_description :: string

definition default_row :: "int \<Rightarrow> UpsertDefaultInput \<Rightarrow> row" where
  "default_row now inp =
     \<lparr>row_id = ud_id inp, row_tool = ud_tool inp, row_pattern = ud_pattern inp, row_risk = ud_risk inp,
      row_description = ud_description inp, row_origin = Default, row_userModified = False,
      row_deleted = False, row_scope = None, row_createdAt = now, row_updatedAt = now\<rparr>"

definition untouched_default :: "row \<Rightarrow> bool" where
  "untouched_default r \<longleftrightarrow> row_origin r = Default \<and> \<not> row_userModified r \<and> \<not> row_deleted r"

definition upsertDefault :: "int \<Rightarrow> table \<Rightarrow> UpsertDefaultInput \<Rightarrow> store_error + table" where
  "upsertDefault now t inp =
     insert_or_update (default_row now inp)
       (\<lambda>r. if untouched_default r
            then r\<lparr>row_risk := ud_risk inp, row_description := ud_description inp, row_updatedAt := now\<rparr>
            else r) t"

definition listActive :: "table \<Rightarrow> string option \<Rightarrow> TrustRule list" where
  "listActive t tool =
     map toTrustRule (filter (\<lambda>r. \<not> row_deleted r \<and> (case tool of None \<Rightarrow> True | Some x \<Rightarrow> row_tool r = x)) t)"

section \<open>Scopes\<close>

definition isScopeMatch :: "string option \<Rightarrow> string option \<Rightarrow> bool" where
  "isScopeMatch scope cwd =
     (case scope of
        None \<Rightarrow> True
      | Some s \<Rightarrow>
          if s = [] \<or> s = ''everywhere'' then True
          else
            (case cwd of
               None \<Rightarrow> True
             | Some c \<Rightarrow>
                 if c = [] then True
                 else
                   let dir = (if ends_with ''/*'' s then take (length s - 2) s else s);
                       normalizedScope = (if ends_with ''/'' dir then dir else dir @ ''/'');
                       normalizedCwd = (if ends_with ''/'' c then c else c @ ''/'')
                   in normalizedCwd = normalizedScope \<or> starts_with normalizedScope normalizedCwd))"

section \<open>The cache\<close>

type_synonym trust_cache = "(string, (string, TrustRule) jsmap) jsmap"

definition cache_rule :: "trust_cache \<Rightarrow> TrustRule \<Rightarrow> trust_cache" where
  "cache_rule c r =
     (let toolMap = (case jm_get c (tr_tool r) of None \<Rightarrow> [] | Some m \<Rightarrow> m)
      in jm_set c (tr_tool r) (jm_set toolMap (tr_pattern r) r))"

definition refresh :: "table \<Rightarrow> trust_cache" where
  "refresh t = foldl cache_rule [] (listActive t None)"

definition isUserRule :: "TrustRule option \<Rightarrow> bool" where
  "isUserRule r = (case r of None \<Rightarrow> False | Some x \<Rightarrow> tr_userModified x \<or> tr_origin x = UserDefined)"

definition in_scope :: "string option \<Rightarrow> TrustRule option \<Rightarrow> TrustRule option" where
  "in_scope cwd r = (case r of None \<Rightarrow> None | Some x \<Rightarrow> if isScopeMatch (tr_scope x) cwd then Some x else None)"

definition lookup_key :: "(string, TrustRule) jsmap \<Rightarrow> string option \<Rightarrow> string \<Rightarrow> TrustRule option" where
  "lookup_key m cwd key =
     (let litOk = in_scope cwd (jm_get m key);
          actOk = in_scope cwd (jm_get m (''action:'' @ key))
      in if isUserRule litOk then litOk
         else if isUserRule actOk then actOk
         else (case litOk of Some r \<Rightarrow> Some r | None \<Rightarrow> actOk))"

text \<open>\<open>lastIndexOf("/")\<close> splits off the directory of the first token.\<close>

definition stripPath :: "string \<Rightarrow> string" where
  "stripPath command =
     (let binary = takeWhile (\<lambda>c. c \<noteq> CHR '' '') command;
          rest = dropWhile (\<lambda>c. c \<noteq> CHR '' '') command
      in if CHR ''/'' \<notin> set binary then command else after_last_slash binary @ rest)"

definition shorter_prefixes :: "string \<Rightarrow> string list" where
  "shorter_prefixes command =
     (let parts = split_spaces command
      in map (\<lambda>i. join_strings '' '' (take i parts)) (rev [1..<length parts]))"

definition findBaseRisk :: "trust_cache \<Rightarrow> string \<Rightarrow> string \<Rightarrow> string option \<Rightarrow> TrustRule option" where
  "findBaseRisk c tool command cwd =
     (case jm_get c tool of
        None \<Rightarrow> None
      | Some m \<Rightarrow>
          (case lookup_key m cwd command of
             Some r \<Rightarrow> Some r
           | None \<Rightarrow>
               let stripped = stripPath command
               in case (if stripped \<noteq> command then lookup_key m cwd stripped else None) of
                    Some r \<Rightarrow> Some r
                  | None \<Rightarrow>
                      first_some (lookup_key m cwd)
                        (shorter_prefixes (if stripped \<noteq> command then stripped else command))))"

definition findToolOverride :: "trust_cache \<Rightarrow> string \<Rightarrow> string \<Rightarrow> string option \<Rightarrow> TrustRule option" where
  "findToolOverride c tool pattern cwd =
     (case jm_get c tool of
        None \<Rightarrow> None
      | Some m \<Rightarrow>
          first_some (\<lambda>r. in_scope cwd r) [jm_get m pattern, jm_get m (tool @ '':'' @ pattern)])"

definition getAllForTool :: "trust_cache \<Rightarrow> string \<Rightarrow> TrustRule list" where
  "getAllForTool c tool = (case jm_get c tool of None \<Rightarrow> [] | Some m \<Rightarrow> map snd m)"

text \<open>The singleton of the module.\<close>

definition initTrustRuleCache :: "table \<Rightarrow> trust_cache option \<Rightarrow> trust_cache option" where
  "initTrustRuleCache t _ = Some (refresh t)"

definition invalidateTrustRuleCache :: "table \<Rightarrow> trust_cache option \<Rightarrow> trust_cache option" where
  "invalidateTrustRuleCache t c = (case c of None \<Rightarrow> None | Some _ \<Rightarrow> Some (refresh t))"

definition resetTrustRuleCache :: "trust_cache option \<Rightarrow> trust_cache option" where
  "resetTrustRuleCache _ = None"

section \<open>The table invariant\<close>

definition row_key :: "row \<Rightarrow> string \<times> string" where
  "row_key r = (row_tool r, row_pattern r)"

definition table_ok :: "table \<Rightarrow> bool" where
  "table_ok t \<longleftrightarrow> distinct (map row_id t) \<and> distinct (map row_key t)"

inductive store_step :: "table \<Rightarrow> table \<Rightarrow> bool" where
  step_create: "create i now t inp = Inr (t', r) \<Longrightarrow> store_step t t'"
| step_update: "update now t i nr nd = Inr (t', r) \<Longrightarrow> store_step t t'"
| step_remove: "remove now t i = Inr t' \<Longrightarrow> store_step t t'"
| step_reset: "reset now t i orig desc = Inr (t', r) \<Longrightarrow> store_step t t'"
| step_upsert: "upsertDefault now t inp = Inr t' \<Longrightarrow> store_step t t'"

inductive_cases store_stepE: "store_step t t'"

lemma same_key_iff: "same_key a b r \<longleftrightarrow> row_key r = (a, b)"
  by (auto simp: same_key_def row_key_def)

lemma update_rows_keys:
  assumes "\<And>r. row_id (f r) = row_id r" and "\<And>r. row_key (f r) = row_key r"
  shows "map row_id (update_rows P f t) = map row_id t" and "map row_key (update_rows P f t) = map row_key t"
  using assms by (simp_all add: update_rows_def)

lemma update_rows_ok:
  assumes "table_ok t" and "\<And>r. row_id (f r) = row_id r" and "\<And>r. row_key (f r) = row_key r"
  shows "table_ok (update_rows P f t)"
  using update_rows_keys [of f] assms by (simp add: table_ok_def)

lemma table_ok_filter: "table_ok t \<Longrightarrow> table_ok (filter P t)"
  by (simp add: table_ok_def distinct_map_filter)

lemma insert_or_update_ok:
  assumes "table_ok t" and "insert_or_update new f t = Inr t'"
    and "\<And>r. row_id (f r) = row_id r" and "\<And>r. row_key (f r) = row_key r"
  shows "table_ok t'"
proof -
  consider "t' = update_rows (same_key (row_tool new) (row_pattern new)) f t"
    | "t' = t @ [new]" "\<forall>r \<in> set t. row_key r \<noteq> row_key new" "\<forall>r \<in> set t. row_id r \<noteq> row_id new"
    using assms(2)
    by (auto simp: insert_or_update_def list_ex_iff same_key_iff row_key_def [of new] split: if_splits)
  then show ?thesis
  proof cases
    case 1
    with assms show ?thesis by (simp add: update_rows_ok)
  next
    case 2
    with assms(1) show ?thesis by (auto simp: table_ok_def)
  qed
qed

lemma store_step_ok: "table_ok t \<Longrightarrow> store_step t t' \<Longrightarrow> table_ok t'"
proof (erule store_stepE, goal_cases)
  case (1 i now inp r)
  from 1(2) show ?case unfolding create_def
    by (auto simp: row_key_def intro: insert_or_update_ok [OF 1(1)] split: if_splits sum.splits)
next
  case (2 now i nr nd r)
  then show ?case unfolding update_def
    by (auto simp: Let_def row_key_def intro!: update_rows_ok split: option.splits if_splits)
next
  case (3 now i)
  then show ?case unfolding remove_def
    by (auto simp: row_key_def intro!: update_rows_ok table_ok_filter split: option.splits if_splits)
next
  case (4 now i orig desc r)
  then show ?case unfolding reset_def
    by (auto simp: Let_def row_key_def intro!: update_rows_ok split: option.splits if_splits)
next
  case (5 now inp)
  from 5(2) show ?case unfolding upsertDefault_def
    by (rule insert_or_update_ok [OF 5(1)]) (auto simp: row_key_def)
qed

interpretation ts_sys: invariant_system "\<lambda>t. t = []" store_step table_ok
proof
  show "table_ok t" if "t = []" for t using that by (simp add: table_ok_def)
qed (rule store_step_ok)

section \<open>The cache holds the active rules\<close>

definition cached :: "trust_cache \<Rightarrow> string \<Rightarrow> string \<Rightarrow> TrustRule option" where
  "cached c tool pattern = (case jm_get c tool of None \<Rightarrow> None | Some m \<Rightarrow> jm_get m pattern)"

lemma cached_cache_rule:
  "cached (cache_rule c r) tool pattern =
     (if tool = tr_tool r \<and> pattern = tr_pattern r then Some r else cached c tool pattern)"
  by (auto simp: cached_def cache_rule_def Let_def split: option.splits)

lemma cached_foldl:
  "distinct (map (\<lambda>r. (tr_tool r, tr_pattern r)) rs) \<Longrightarrow>
   cached (foldl cache_rule c rs) tool pattern =
     (case find (\<lambda>r. tr_tool r = tool \<and> tr_pattern r = pattern) rs of Some r \<Rightarrow> Some r | None \<Rightarrow> cached c tool pattern)"
proof (induction rs arbitrary: c)
  case (Cons r rs)
  have "find (\<lambda>x. tr_tool x = tr_tool r \<and> tr_pattern x = tr_pattern r) rs = None"
    unfolding find_None_iff
  proof
    assume "\<exists>x. x \<in> set rs \<and> tr_tool x = tr_tool r \<and> tr_pattern x = tr_pattern r"
    then obtain x where "x \<in> set rs" "(tr_tool r, tr_pattern r) = (tr_tool x, tr_pattern x)" by auto
    then have "(tr_tool r, tr_pattern r) \<in> (\<lambda>r. (tr_tool r, tr_pattern r)) ` set rs" by (rule rev_image_eqI)
    with Cons.prems show False by simp
  qed
  with Cons show ?case by (auto simp: cached_cache_rule split: option.splits)
qed simp

lemma listActive_distinct: "table_ok t \<Longrightarrow> distinct (map (\<lambda>r. (tr_tool r, tr_pattern r)) (listActive t None))"
proof -
  assume "table_ok t"
  then have "distinct (map row_key (filter (\<lambda>r. \<not> row_deleted r) t))"
    by (simp add: table_ok_def distinct_map_filter)
  then show ?thesis by (simp add: listActive_def toTrustRule_def comp_def row_key_def [abs_def])
qed

lemma cached_refresh:
  assumes "table_ok t"
  shows "cached (refresh t) tool pattern = Some r \<longleftrightarrow>
    r \<in> set (listActive t None) \<and> tr_tool r = tool \<and> tr_pattern r = pattern"
proof -
  let ?rs = "listActive t None"
  have d: "distinct (map (\<lambda>r. (tr_tool r, tr_pattern r)) ?rs)" by (rule listActive_distinct [OF assms])
  have "cached (refresh t) tool pattern = find (\<lambda>r. tr_tool r = tool \<and> tr_pattern r = pattern) ?rs"
    unfolding refresh_def cached_foldl [OF d] by (simp add: cached_def split: option.splits)
  also have "\<dots> = Some r \<longleftrightarrow> r \<in> set ?rs \<and> tr_tool r = tool \<and> tr_pattern r = pattern"
  proof
    assume "find (\<lambda>r. tr_tool r = tool \<and> tr_pattern r = pattern) ?rs = Some r"
    then show "r \<in> set ?rs \<and> tr_tool r = tool \<and> tr_pattern r = pattern" by (auto simp: find_Some_iff)
  next
    assume r: "r \<in> set ?rs \<and> tr_tool r = tool \<and> tr_pattern r = pattern"
    then obtain x where x: "find (\<lambda>r. tr_tool r = tool \<and> tr_pattern r = pattern) ?rs = Some x"
      using find_None_iff [of _ ?rs] by (cases "find (\<lambda>r. tr_tool r = tool \<and> tr_pattern r = pattern) ?rs") auto
    then have "x \<in> set ?rs" "tr_tool x = tool \<and> tr_pattern x = pattern" by (auto simp: find_Some_iff)
    with r d have "x = r" by (auto simp: distinct_map inj_on_def)
    with x show "find (\<lambda>r. tr_tool r = tool \<and> tr_pattern r = pattern) ?rs = Some r" by simp
  qed
  finally show ?thesis .
qed

section \<open>Lookup\<close>

definition candidate_keys :: "string \<Rightarrow> string list" where
  "candidate_keys command =
     (let stripped = stripPath command
      in command # (if stripped \<noteq> command then [stripped] else []) @ shorter_prefixes stripped)"

lemma findBaseRisk_first:
  "findBaseRisk c tool command cwd =
     (case jm_get c tool of None \<Rightarrow> None | Some m \<Rightarrow> first_some (lookup_key m cwd) (candidate_keys command))"
  by (auto simp: findBaseRisk_def candidate_keys_def Let_def split: option.splits)

definition rules_at :: "trust_cache \<Rightarrow> string \<Rightarrow> string option \<Rightarrow> string \<Rightarrow> TrustRule set" where
  "rules_at c tool cwd key =
     {r. (cached c tool key = Some r \<or> cached c tool (''action:'' @ key) = Some r) \<and> isScopeMatch (tr_scope r) cwd}"

lemma in_scope_Some: "in_scope cwd x = Some r \<longleftrightarrow> x = Some r \<and> isScopeMatch (tr_scope r) cwd"
  by (auto simp: in_scope_def split: option.splits)

lemma in_scope_None: "in_scope cwd x = None \<longleftrightarrow> (\<forall>r. x = Some r \<longrightarrow> \<not> isScopeMatch (tr_scope r) cwd)"
  by (auto simp: in_scope_def split: option.splits)

lemma lookup_key_Some:
  assumes "jm_get c tool = Some m" and "lookup_key m cwd key = Some r"
  shows "r \<in> rules_at c tool cwd key
    \<and> (isUserRule (Some r) \<or> (\<forall>x \<in> rules_at c tool cwd key. \<not> isUserRule (Some x)))"
  using assms
  by (auto simp: lookup_key_def Let_def rules_at_def cached_def in_scope_Some isUserRule_def in_scope_None
      split: if_splits option.splits)

lemma lookup_key_None:
  assumes "jm_get c tool = Some m" and "lookup_key m cwd key = None"
  shows "rules_at c tool cwd key = {}"
  using assms
  by (auto simp: lookup_key_def Let_def rules_at_def cached_def in_scope_Some isUserRule_def in_scope_None
      split: if_splits option.splits)

section \<open>Properties\<close>

text \<open>whatever sequence of creations, updates, removals, resets and seedings ran against the store,
  the rebuilt cache holds, under a tool and a pattern, exactly the active rule of the store with that
  tool and pattern.\<close>

theorem trust_cache_refines_store:
  assumes "reach (\<lambda>t. t = []) store_step t"
  shows "cached (refresh t) tool pattern = Some r \<longleftrightarrow>
    r \<in> set (listActive t None) \<and> tr_tool r = tool \<and> tr_pattern r = pattern"
  using cached_refresh [OF ts_sys.reach_inv [OF assms]] .

text \<open>seeding the default rules never touches a rule the user has created, adjusted or deleted.\<close>

theorem seeding_respects_user:
  assumes "upsertDefault now t inp = Inr t'" and "r \<in> set t" and "\<not> untouched_default r"
  shows "r \<in> set t'"
  using assms
  by (auto simp: upsertDefault_def insert_or_update_def update_rows_def image_iff split: if_splits)

text \<open>the rule \<open>findBaseRisk\<close> returns is the most specific one: it is in scope and stored under one of
  the keys of the command (the command, the command without the directory of its program, then ever
  shorter word prefixes), no earlier key has a rule in scope, and at its key a rule of the user is
  preferred to a seeded one.\<close>

theorem find_base_risk_most_specific:
  assumes "findBaseRisk c tool command cwd = Some r"
  shows "\<exists>before key after. candidate_keys command = before @ key # after
    \<and> r \<in> rules_at c tool cwd key
    \<and> (\<forall>k \<in> set before. rules_at c tool cwd k = {})
    \<and> (isUserRule (Some r) \<or> (\<forall>x \<in> rules_at c tool cwd key. \<not> isUserRule (Some x)))"
proof -
  from assms obtain m where m: "jm_get c tool = Some m"
    and f: "first_some (lookup_key m cwd) (candidate_keys command) = Some r"
    by (auto simp: findBaseRisk_first split: option.splits)
  from first_some_split [OF f] obtain before key after where
    "candidate_keys command = before @ key # after" "lookup_key m cwd key = Some r"
    "\<forall>k \<in> set before. lookup_key m cwd k = None" by blast
  with lookup_key_Some [OF m] lookup_key_None [OF m] show ?thesis by blast
qed

section \<open>Witnesses\<close>

definition git_input :: CreateInput where
  "git_input = \<lparr>ci_tool = ''bash'', ci_pattern = ''action:git'', ci_risk = ''low'', ci_description = ''git is fine'',
                ci_scope = None\<rparr>"

definition git_table :: table where
  "git_table = [create_row ''r1'' 7 git_input]"

definition git_rule :: TrustRule where
  "git_rule = toTrustRule (create_row ''r1'' 7 git_input)"

lemmas git_defs = git_input_def git_table_def git_rule_def create_row_def toTrustRule_def row_risk_level_def

lemma git_table_reachable: "reach (\<lambda>t. t = []) store_step git_table"
proof (rule reach_step [OF reach_init])
  show "store_step [] git_table"
    by (rule step_create [of "''r1''" 7 _ git_input _ "Some git_rule"])
       (simp add: create_def VALID_RISK_VALUES_def insert_or_update_def same_key_def git_defs)
qed simp

lemma git_cache: "refresh git_table = [(''bash'', [(''action:git'', git_rule)])]"
  by (simp add: refresh_def listActive_def cache_rule_def Let_def git_defs)

theorem trust_cache_refines_store_witness:
  "cached (refresh git_table) ''bash'' ''action:git'' = Some git_rule"
  unfolding trust_cache_refines_store [OF git_table_reachable]
  by (simp add: listActive_def git_defs)

theorem seeding_respects_user_witness:
  "create_row ''r1'' 7 git_input \<in> set (git_table @
     [default_row 9 \<lparr>ud_id = ''d'', ud_tool = ''bash'', ud_pattern = ''git'', ud_risk = ''high'', ud_description = ''x''\<rparr>])"
  by (rule seeding_respects_user
        [of 9 git_table "\<lparr>ud_id = ''d'', ud_tool = ''bash'', ud_pattern = ''git'', ud_risk = ''high'', ud_description = ''x''\<rparr>"])
     (simp_all add: upsertDefault_def insert_or_update_def default_row_def same_key_def untouched_default_def git_defs)

lemma git_rule_fields: "tr_origin git_rule = UserDefined" "tr_scope git_rule = None" "tr_risk git_rule = Low"
  by (simp_all add: git_defs)

lemma git_push_keys: "candidate_keys ''git push'' = [''git push'', ''git'']"
  by code_simp

lemma git_push_found: "findBaseRisk (refresh git_table) ''bash'' ''git push'' None = Some git_rule"
  unfolding findBaseRisk_first git_cache git_push_keys
  by (simp add: lookup_key_def in_scope_def isUserRule_def isScopeMatch_def git_rule_fields)

theorem find_base_risk_most_specific_witness:
  "\<exists>before key after. candidate_keys ''git push'' = before @ key # after
    \<and> git_rule \<in> rules_at (refresh git_table) ''bash'' None key"
  using find_base_risk_most_specific [OF git_push_found] by blast

end
