(* ===== verification/Bash_Risk.thy ===== *)
theory Bash_Risk
  imports Trust_Rules
begin

text \<open>
  The command classifier, \<^verbatim>\<open>gateway/src/risk/bash-risk-classifier.ts\<close>, with the registry types of
  \<^verbatim>\<open>gateway/src/risk/risk-types.ts\<close>.

  \<^item> \<open>classifier_env\<close> holds what the classifier reads: the command registry (data), the trust-rule cache
    (\<open>None\<close> while it is not initialised, where \<open>getTrustRuleCache\<close> throws and the code falls through) and
    \<open>ce_regex p s\<close>, whether the regular expression \<open>p\<close> of a registry entry matches somewhere in \<open>s\<close>.
  \<^item> The shell parser is a parameter of \<open>classify\<close>: it gives the segments, the dangerous patterns and
    whether the command has constructs it cannot see through.
  \<^item> \<open>classifySegment\<close> calls itself on the command a wrapper runs, with fewer arguments each time; the
    steps of its body are separate definitions in the order of the code.
  \<^item> The records of the registry are looked up by their own keys; the names every JavaScript object
    inherits (\<open>toString\<close>, \<open>constructor\<close>) are absent.
\<close>

section \<open>The registry\<close>

record ArgRule =
  ar_id :: string
  ar_flags :: "string list option"
  ar_valuePattern :: "string option"
  ar_risk :: risk
  ar_reason :: string

datatype CommandRiskSpec =
  Spec
    (sp_baseRisk: risk)
    (sp_subcommands: "(string \<times> CommandRiskSpec) list option")
    (sp_argRules: "ArgRule list option")
    (sp_isWrapper: bool)
    (sp_nonExecFlags: "string list option")
    (sp_complexSyntax: bool)
    (sp_reason: "string option")
    (sp_sandboxAutoApprove: bool)
    (sp_filesystemOp: bool)
    (sp_argSchema: "ArgSchema option")

type_synonym registry = "(string \<times> CommandRiskSpec) list"

record classifier_env =
  ce_registry :: registry
  ce_cache :: "trust_cache option"
  ce_regex :: "string \<Rightarrow> string \<Rightarrow> bool"

record CommandSegment =
  sg_command :: string
  sg_program :: string
  sg_args :: "string list"
  sg_operator :: string
  sg_synthetic :: bool

datatype matchType = UserRuleMatch | RegistryMatch | UnknownMatch

record segment_result =
  sr_risk :: risk
  sr_reason :: string
  sr_matchType :: matchType

definition segment_result_of :: "risk \<Rightarrow> string \<Rightarrow> matchType \<Rightarrow> segment_result" where
  "segment_result_of r s m = \<lparr>sr_risk = r, sr_reason = s, sr_matchType = m\<rparr>"

fun escalateOne :: "risk \<Rightarrow> risk" where
  "escalateOne Low = Medium"
| "escalateOne Medium = High"
| "escalateOne High = High"
| "escalateOne Unknown = Unknown"

section \<open>Argument rules\<close>

definition rule_flags :: "ArgRule \<Rightarrow> string list" where
  "rule_flags r = (case ar_flags r of None \<Rightarrow> [] | Some fs \<Rightarrow> fs)"

text \<open>An empty pattern string is falsy in the conditions of the code.\<close>

definition rule_pattern :: "ArgRule \<Rightarrow> string option" where
  "rule_pattern r = (case ar_valuePattern r of Some p \<Rightarrow> if p = [] then None else Some p | None \<Rightarrow> None)"

definition matchesArgRule :: "(string \<Rightarrow> string \<Rightarrow> bool) \<Rightarrow> ArgRule \<Rightarrow> string \<Rightarrow> bool" where
  "matchesArgRule rx rule arg =
     (if rule_flags rule \<noteq> []
      then
        if CHR ''='' \<in> set arg \<and> before_eq arg \<noteq> [] \<and> before_eq arg \<in> set (rule_flags rule)
        then (case rule_pattern rule of Some p \<Rightarrow> rx p (after_eq arg) | None \<Rightarrow> True)
        else if arg \<notin> set (rule_flags rule) then False
        else rule_pattern rule = None
      else (case rule_pattern rule of Some p \<Rightarrow> rx p arg | None \<Rightarrow> True))"

section \<open>Wrappers\<close>

definition WRAPPER_SKIP_FIRST_POSITIONAL :: "string list" where
  "WRAPPER_SKIP_FIRST_POSITIONAL = [''timeout'', ''taskset'']"

definition ENV_VALUE_FLAGS :: "string list" where
  "ENV_VALUE_FLAGS = [''-u'', ''--unset'', ''-C'', ''--chdir'']"

definition TIMEOUT_VALUE_FLAGS :: "string list" where
  "TIMEOUT_VALUE_FLAGS = [''-s'', ''--signal'', ''-k'', ''--kill-after'']"

fun wrapped_loop :: "string \<Rightarrow> bool \<Rightarrow> string list \<Rightarrow> (string \<times> string list) option" where
  "wrapped_loop program skip [] = None"
| "wrapped_loop program skip (arg # rest) =
     (if starts_with ''-'' arg
      then
        if (program = ''env'' \<and> arg \<in> set ENV_VALUE_FLAGS) \<or> (program = ''timeout'' \<and> arg \<in> set TIMEOUT_VALUE_FLAGS)
        then wrapped_loop program skip (drop 1 rest)
        else wrapped_loop program skip rest
      else if program = ''env'' \<and> CHR ''='' \<in> set arg then wrapped_loop program skip rest
      else if skip then wrapped_loop program False rest
      else Some (arg, rest))"

definition getWrappedProgramWithArgs :: "CommandSegment \<Rightarrow> (string \<times> string list) option" where
  "getWrappedProgramWithArgs seg =
     wrapped_loop (sg_program seg) (sg_program seg \<in> set WRAPPER_SKIP_FIRST_POSITIONAL) (sg_args seg)"

lemma wrapped_loop_shorter: "wrapped_loop p s args = Some (q, rest) \<Longrightarrow> length rest < length args"
proof (induction p s args rule: wrapped_loop.induct)
  case (2 program skip arg xs)
  let ?r = "\<lambda>ys. length rest < length ys \<longrightarrow> length ys \<le> length xs \<longrightarrow> length rest < length (arg # xs)"
  have r: "?r ys" for ys by simp
  from 2 show ?case
    using r [of "drop 1 xs"] r [of xs] by (simp split: if_splits)
qed simp

section \<open>Help mode and subcommands\<close>

definition firstPositionalArg :: "string list \<Rightarrow> string list option \<Rightarrow> string option" where
  "firstPositionalArg args valueFlags =
     (let sc = empty_schema\<lparr>as_valueFlags := valueFlags, as_positionals := Some NoPaths\<rparr>
      in case pa_positionals (parseArgs args sc) of [] \<Rightarrow> None | p # _ \<Rightarrow> Some p)"

fun help_loop :: "string list \<Rightarrow> string list \<Rightarrow> bool" where
  "help_loop vf [] = False"
| "help_loop vf (arg # rest) =
     (if arg = ''--'' then False
      else if arg \<in> set vf then help_loop vf (drop 1 rest)
      else if starts_with ''-'' arg \<and> \<not> starts_with ''--'' arg \<and> 2 < length arg \<and> [CHR ''-'', last arg] \<in> set vf
      then help_loop vf (drop 1 rest)
      else if starts_with ''-'' arg \<and> CHR ''='' \<in> set arg \<and> before_eq arg \<in> set vf then help_loop vf rest
      else if arg = ''--help'' \<or> starts_with ''--help='' arg then True
      else help_loop vf rest)"

definition hasStandaloneHelpFlag :: "string list \<Rightarrow> ArgSchema option \<Rightarrow> bool" where
  "hasStandaloneHelpFlag args sc = (case sc of None \<Rightarrow> False | Some s \<Rightarrow> help_loop (value_flags s) args)"

definition spec_value_flags :: "CommandRiskSpec \<Rightarrow> string list option" where
  "spec_value_flags s = (case sp_argSchema s of None \<Rightarrow> None | Some sc \<Rightarrow> as_valueFlags sc)"

text \<open>\<open>args.slice(args.indexOf(name) + 1)\<close>; when the name is absent the slice is all of \<open>args\<close>.\<close>

definition args_after :: "string \<Rightarrow> string list \<Rightarrow> string list" where
  "args_after name args = (if name \<in> set args then tl (dropWhile (\<lambda>a. a \<noteq> name) args) else args)"

text \<open>The subcommand an invocation selects, with the arguments behind it.\<close>

definition select_subcommand ::
  "CommandRiskSpec \<Rightarrow> string list \<Rightarrow> (string \<times> CommandRiskSpec \<times> string list) option" where
  "select_subcommand s args =
     (case sp_subcommands s of
        None \<Rightarrow> None
      | Some subs \<Rightarrow>
          if args = [] then None
          else (case firstPositionalArg args (spec_value_flags s) of
                  None \<Rightarrow> None
                | Some name \<Rightarrow>
                    if name = [] then None
                    else (case map_of subs name of
                            None \<Rightarrow> None
                          | Some sub \<Rightarrow> Some (name, sub, args_after name args))))"

lemma positional_tokens_subset: "set (positional_tokens rs) \<subseteq> set (concat (map role_tokens rs))"
  by (induction rs rule: positional_tokens.induct) auto

lemma firstPositionalArg_mem: "firstPositionalArg args vf = Some name \<Longrightarrow> name \<in> set args"
proof -
  assume "firstPositionalArg args vf = Some name"
  then have "name \<in> set (pa_positionals (parseArgs args (empty_schema\<lparr>as_valueFlags := vf, as_positionals := Some NoPaths\<rparr>)))"
    by (auto simp: firstPositionalArg_def Let_def split: list.splits)
  then show ?thesis
    using positional_tokens_subset role_tokens_roles
    by (fastforce simp: parseArgs_def parse_loop_roles foldl_positionals parsed_empty_def)
qed

lemma args_after_shorter: "name \<in> set args \<Longrightarrow> length (args_after name args) < length args"
  using length_dropWhile_le [of "\<lambda>a. a \<noteq> name" args]
  by (cases "dropWhile (\<lambda>a. a \<noteq> name) args") (auto simp: args_after_def)

lemma select_subcommand_shorter:
  "select_subcommand s args = Some (name, sub, rest) \<Longrightarrow> length rest < length args"
  by (auto simp: select_subcommand_def dest: firstPositionalArg_mem intro!: args_after_shorter
      split: option.splits if_splits)

function resolveSubcommand :: "CommandRiskSpec \<Rightarrow> string list \<Rightarrow> CommandRiskSpec \<times> string list" where
  "resolveSubcommand s args =
     (case select_subcommand s args of None \<Rightarrow> (s, args) | Some (_, sub, rest) \<Rightarrow> resolveSubcommand sub rest)"
  by pat_completeness auto
termination
  by (relation "measure (\<lambda>(s, args). length args)") (auto intro: select_subcommand_shorter)

function subcommand_chain :: "CommandRiskSpec \<Rightarrow> string list \<Rightarrow> string list" where
  "subcommand_chain s args =
     (case select_subcommand s args of None \<Rightarrow> [] | Some (name, sub, rest) \<Rightarrow> name # subcommand_chain sub rest)"
  by pat_completeness auto
termination
  by (relation "measure (\<lambda>(s, args). length args)") (auto intro: select_subcommand_shorter)

declare resolveSubcommand.simps [simp del] subcommand_chain.simps [simp del]

section \<open>Classifying a segment\<close>

definition cached_rule :: "classifier_env \<Rightarrow> string \<Rightarrow> string \<Rightarrow> string option \<Rightarrow> TrustRule option" where
  "cached_rule env tool key cwd = (case ce_cache env of None \<Rightarrow> None | Some c \<Rightarrow> findBaseRisk c tool key cwd)"

text \<open>Step 1: a rule the user created decides at once.\<close>

definition user_rule_result :: "classifier_env \<Rightarrow> string \<Rightarrow> string \<Rightarrow> string option \<Rightarrow> segment_result option" where
  "user_rule_result env tool key cwd =
     (case cached_rule env tool key cwd of
        None \<Rightarrow> None
      | Some r \<Rightarrow>
          if tr_origin r = UserDefined
          then Some (segment_result_of (tr_risk r) (tr_description r) UserRuleMatch) else None)"

text \<open>Step 2: the registry entry, under the program name or its last path component.\<close>

definition registry_lookup :: "registry \<Rightarrow> string \<Rightarrow> (string \<times> CommandRiskSpec) option" where
  "registry_lookup reg program =
     (case map_of reg program of
        Some s \<Rightarrow> Some (program, s)
      | None \<Rightarrow>
          let bare = after_last_slash program
          in if bare = [] then None else map_option (Pair bare) (map_of reg bare))"

definition nonExecMode :: "CommandRiskSpec \<Rightarrow> string list \<Rightarrow> bool" where
  "nonExecMode s args =
     (case sp_nonExecFlags s of None \<Rightarrow> False | Some fs \<Rightarrow> args \<noteq> [] \<and> hd args \<in> set fs)"

definition reason_or :: "string option \<Rightarrow> string \<Rightarrow> string" where
  "reason_or r d = (case r of None \<Rightarrow> d | Some s \<Rightarrow> if s = [] then d else s)"

text \<open>Step 4b: the cache may override the base risk.\<close>

definition join_command :: "string \<Rightarrow> string list \<Rightarrow> string" where
  "join_command program ws = (if ws = [] then program else program @ '' '' @ join_strings '' '' ws)"

definition command_positionals :: "CommandRiskSpec option \<Rightarrow> string list \<Rightarrow> string list" where
  "command_positionals s args =
     (case s of
        Some sp \<Rightarrow>
          (case sp_argSchema sp of
             Some sc \<Rightarrow> pa_positionals (parseArgs args sc)
           | None \<Rightarrow> filter (\<lambda>a. \<not> starts_with ''-'' a) args)
      | None \<Rightarrow> filter (\<lambda>a. \<not> starts_with ''-'' a) args)"

definition base_risk_override ::
  "classifier_env \<Rightarrow> string \<Rightarrow> string option \<Rightarrow> string \<Rightarrow> CommandRiskSpec \<Rightarrow> string list \<Rightarrow> TrustRule option" where
  "base_risk_override env tool cwd program spec args =
     (let subcommandPattern = join_command program (subcommand_chain spec args);
          positionalPattern = join_command program (command_positionals (map_of (ce_registry env) program) args)
      in case cached_rule env tool positionalPattern cwd of
           Some r \<Rightarrow> Some r
         | None \<Rightarrow>
             if subcommandPattern \<noteq> positionalPattern then cached_rule env tool subcommandPattern cwd else None)"

definition effective_base :: "risk \<Rightarrow> TrustRule option \<Rightarrow> risk \<times> matchType" where
  "effective_base base rule =
     (case rule of
        None \<Rightarrow> (base, RegistryMatch)
      | Some r \<Rightarrow>
          (tr_risk r,
           if tr_userModified r \<or> tr_origin r = UserDefined then UserRuleMatch else RegistryMatch))"

text \<open>Step 5: the argument rules.\<close>

record rule_state =
  rs_anyArgRuleMatched :: bool
  rs_argRuleMaxRisk :: risk
  rs_argRuleReason :: string
  rs_matchedPositionalIndices :: "nat list"

definition rule_state_init :: rule_state where
  "rule_state_init = \<lparr>rs_anyArgRuleMatched = False, rs_argRuleMaxRisk = Low, rs_argRuleReason = [],
                      rs_matchedPositionalIndices = []\<rparr>"

definition rule_fires :: "(string \<Rightarrow> string \<Rightarrow> bool) \<Rightarrow> ParsedArgs \<Rightarrow> string list \<Rightarrow> ArgRule \<Rightarrow> bool" where
  "rule_fires rx parsed allArgs rule =
     (if rule_flags rule \<noteq> []
      then (case rule_pattern rule of
              Some p \<Rightarrow>
                list_ex (\<lambda>f. case jm_get (pa_flags parsed) f of Some (Some v) \<Rightarrow> rx p v | _ \<Rightarrow> False) (rule_flags rule) \<or>
                list_ex (matchesArgRule rx rule) allArgs
            | None \<Rightarrow>
                list_ex (jm_has (pa_flags parsed)) (rule_flags rule) \<or> list_ex (matchesArgRule rx rule) allArgs)
      else (case rule_pattern rule of
              Some p \<Rightarrow> list_ex (rx p) (pa_positionals parsed) \<or> list_ex (rx p) allArgs
            | None \<Rightarrow> True))"

definition rule_covers :: "(string \<Rightarrow> string \<Rightarrow> bool) \<Rightarrow> ParsedArgs \<Rightarrow> ArgRule \<Rightarrow> nat list" where
  "rule_covers rx parsed rule =
     (if rule_flags rule \<noteq> [] then []
      else (case rule_pattern rule of
              Some p \<Rightarrow> filter (\<lambda>i. rx p (pa_positionals parsed ! i)) [0..<length (pa_positionals parsed)]
            | None \<Rightarrow> []))"

definition rule_step :: "(string \<Rightarrow> string \<Rightarrow> bool) \<Rightarrow> ParsedArgs \<Rightarrow> string list \<Rightarrow> rule_state \<Rightarrow> ArgRule \<Rightarrow> rule_state" where
  "rule_step rx parsed allArgs st rule =
     (let st1 = st\<lparr>rs_matchedPositionalIndices := rs_matchedPositionalIndices st @ rule_covers rx parsed rule\<rparr>
      in if rule_fires rx parsed allArgs rule
         then
           let higher = (\<not> rs_anyArgRuleMatched st \<or> riskOrd (rs_argRuleMaxRisk st) < riskOrd (ar_risk rule))
           in st1\<lparr>rs_anyArgRuleMatched := True,
                  rs_argRuleMaxRisk := (if higher then ar_risk rule else rs_argRuleMaxRisk st),
                  rs_argRuleReason := (if higher then ar_reason rule else rs_argRuleReason st)\<rparr>
         else st1)"

definition unmatched_non_flag_arg ::
  "(string \<Rightarrow> string \<Rightarrow> bool) \<Rightarrow> ParsedArgs \<Rightarrow> string list \<Rightarrow> ArgRule list \<Rightarrow> nat list \<Rightarrow> bool" where
  "unmatched_non_flag_arg rx parsed allArgs rules covered \<longleftrightarrow>
     list_ex (\<lambda>i. i \<notin> set covered) [0..<length (pa_positionals parsed)] \<or>
     list_ex (\<lambda>arg. \<not> starts_with ''-'' arg \<and>
        \<not> list_ex (\<lambda>rule. matchesArgRule rx rule arg \<or>
                    (rule_pattern rule \<noteq> None \<and> arg \<in> set (rule_flags rule))) rules) allArgs"

definition apply_arg_rules ::
  "(string \<Rightarrow> string \<Rightarrow> bool) \<Rightarrow> CommandRiskSpec \<Rightarrow> string list \<Rightarrow> segment_result \<Rightarrow> segment_result" where
  "apply_arg_rules rx spec allArgs res =
     (case sp_argRules spec of
        None \<Rightarrow> res
      | Some rules \<Rightarrow>
          if rules = [] then res
          else
            let parsed = parseArgs allArgs (case sp_argSchema spec of None \<Rightarrow> empty_schema | Some sc \<Rightarrow> sc);
                st = foldl (rule_step rx parsed allArgs) rule_state_init rules
            in if rs_anyArgRuleMatched st \<and>
                  (riskOrd (sr_risk res) \<le> riskOrd (rs_argRuleMaxRisk st) \<or>
                   \<not> unmatched_non_flag_arg rx parsed allArgs rules (rs_matchedPositionalIndices st))
               then segment_result_of (rs_argRuleMaxRisk st) (rs_argRuleReason st) RegistryMatch
               else res)"

text \<open>Step 6: a variable in an argument escalates from at least the base risk.\<close>

definition escalate_variables :: "string \<Rightarrow> string list \<Rightarrow> risk \<Rightarrow> segment_result \<Rightarrow> segment_result" where
  "escalate_variables program args base res =
     (if list_ex (\<lambda>a. CHR ''$'' \<in> set a) args
      then
        let escalated = escalateOne (maxRisk (sr_risk res) base)
        in if riskOrd (sr_risk res) < riskOrd escalated
           then res\<lparr>sr_risk := escalated, sr_reason := program @ '' with variable expansion''\<rparr>
           else res
      else res)"

text \<open>Step 7: \<open>rm\<close> of one known file in the sandbox.\<close>

definition RM_SAFE_BARE_FILES :: "string list" where
  "RM_SAFE_BARE_FILES = [''BOOTSTRAP.md'']"

definition RM_BENIGN_FLAGS :: "string list" where
  "RM_BENIGN_FLAGS = [''-f'', ''-i'', ''-v'', ''--force'', ''--interactive'', ''--verbose'']"

definition rm_downgrade :: "string \<Rightarrow> string \<Rightarrow> string list \<Rightarrow> segment_result \<Rightarrow> segment_result" where
  "rm_downgrade program tool args res =
     (if program = ''rm'' \<and> tool = ''bash'' \<and> sr_risk res = High
      then
        (case filter (\<lambda>a. \<not> starts_with ''-'' a) args of
           [file] \<Rightarrow>
             if list_all (\<lambda>f. f \<in> set RM_BENIGN_FLAGS) (filter (starts_with ''-'') args) \<and>
                CHR ''/'' \<notin> set file \<and> file \<in> set RM_SAFE_BARE_FILES
             then segment_result_of Medium (''rm of known safe file: '' @ file) RegistryMatch
             else res
         | _ \<Rightarrow> res)
      else res)"

text \<open>Steps 4 to 7, once the entry is not a wrapper that runs another command.\<close>

definition classify_resolved ::
  "classifier_env \<Rightarrow> string \<Rightarrow> string option \<Rightarrow> string \<Rightarrow> CommandRiskSpec \<Rightarrow> CommandSegment \<Rightarrow> segment_result" where
  "classify_resolved env tool cwd programName spec seg =
     (let resolvedSpec = fst (resolveSubcommand spec (sg_args seg))
      in case effective_base (sp_baseRisk resolvedSpec)
                (base_risk_override env tool cwd programName spec (sg_args seg)) of
           (base, matchType) \<Rightarrow>
             rm_downgrade programName tool (sg_args seg)
               (escalate_variables (sg_program seg) (sg_args seg) base
                 (apply_arg_rules (ce_regex env) resolvedSpec (sg_args seg)
                   (segment_result_of base
                     (reason_or (sp_reason resolvedSpec) (sg_program seg @ '' (default)'')) matchType))))"

definition inner_segment :: "CommandSegment \<Rightarrow> string \<Rightarrow> string list \<Rightarrow> CommandSegment" where
  "inner_segment seg program args =
     \<lparr>sg_command = join_strings '' '' (program # args), sg_program = program, sg_args = args,
      sg_operator = sg_operator seg, sg_synthetic = False\<rparr>"

function classifySegment :: "classifier_env \<Rightarrow> string \<Rightarrow> string option \<Rightarrow> CommandSegment \<Rightarrow> segment_result" where
  "classifySegment env tool cwd seg =
     (case user_rule_result env tool (sg_command seg) cwd of
        Some res \<Rightarrow> res
      | None \<Rightarrow>
          (case registry_lookup (ce_registry env) (sg_program seg) of
             None \<Rightarrow> segment_result_of Unknown (''Unknown command: '' @ sg_program seg) UnknownMatch
           | Some (programName, spec) \<Rightarrow>
               if sp_subcommands spec = None \<and> \<not> sp_isWrapper spec \<and>
                  hasStandaloneHelpFlag (sg_args seg) (sp_argSchema spec)
               then segment_result_of Low (sg_program seg @ '' help output'') RegistryMatch
               else if sp_isWrapper spec \<and> \<not> nonExecMode spec (sg_args seg)
               then (case getWrappedProgramWithArgs seg of
                       Some (program, args) \<Rightarrow>
                         let inner = classifySegment env tool cwd (inner_segment seg program args)
                         in segment_result_of (maxRisk (sp_baseRisk spec) (sr_risk inner))
                              (if sr_reason inner \<noteq> [] then sr_reason inner
                               else programName @ '' wrapping '' @ program)
                              (sr_matchType inner)
                     | None \<Rightarrow>
                         segment_result_of (sp_baseRisk spec) (reason_or (sp_reason spec) programName) RegistryMatch)
               else classify_resolved env tool cwd programName spec seg))"
  by pat_completeness auto
termination
  by (relation "measure (\<lambda>(env, tool, cwd, seg). length (sg_args seg))")
     (auto simp: getWrappedProgramWithArgs_def inner_segment_def intro: wrapped_loop_shorter)

declare classifySegment.simps [simp del]

section \<open>Scope options\<close>

record DangerousPattern =
  dp_type :: string
  dp_description :: string
  dp_text :: string

record ParsedCommand =
  pc_originalCommand :: string
  pc_segments :: "CommandSegment list"
  pc_dangerousPatterns :: "DangerousPattern list"
  pc_hasOpaqueConstructs :: bool

record ScopeOption =
  so_pattern :: string
  so_label :: string

record AllowlistOption =
  ao_label :: string
  ao_description :: string
  ao_pattern :: string

abbreviation backslash :: char where
  "backslash \<equiv> CHR 0x5C"

definition regex_special :: "char \<Rightarrow> bool" where
  "regex_special c \<longleftrightarrow> c \<in> set (''.*+?^${}()|[]'' @ [backslash])"

definition escapeRegex :: "string \<Rightarrow> string" where
  "escapeRegex s = concat (map (\<lambda>c. if regex_special c then [backslash, c] else [c]) s)"

definition addOption :: "ScopeOption list \<Rightarrow> string \<times> string \<Rightarrow> ScopeOption list" where
  "addOption opts pl =
     (if fst pl \<in> so_pattern ` set opts then opts
      else opts @ [\<lparr>so_pattern = fst pl, so_label = snd pl\<rparr>])"

definition command_wildcard :: "string \<Rightarrow> string \<times> string" where
  "command_wildcard program = (''^'' @ escapeRegex program @ [backslash, CHR ''b''], program @ '' *'')"

definition exact_option :: "string \<Rightarrow> string \<times> string" where
  "exact_option command = (''^'' @ escapeRegex command @ ''$'', command)"

definition spaces_regex :: string where
  "spaces_regex = [backslash] @ ''s+''"

definition split_flags :: "CommandRiskSpec option \<Rightarrow> string list \<Rightarrow> string list \<times> string list" where
  "split_flags spec args =
     (case (case spec of None \<Rightarrow> None | Some s \<Rightarrow> sp_argSchema s) of
        Some sc \<Rightarrow>
          let p = parseArgs args sc
          in (concat (map (\<lambda>(f, v). case v of Some x \<Rightarrow> [f, x] | None \<Rightarrow> [f]) (pa_flags p)), pa_positionals p)
      | None \<Rightarrow> (filter (starts_with ''-'') args, filter (\<lambda>a. \<not> starts_with ''-'' a) args))"

definition detect_subcommand :: "CommandRiskSpec option \<Rightarrow> string list \<Rightarrow> string option" where
  "detect_subcommand spec positionals =
     (case spec of
        None \<Rightarrow> None
      | Some s \<Rightarrow>
          (case sp_subcommands s of
             None \<Rightarrow> None
           | Some subs \<Rightarrow>
               (case positionals of
                  [] \<Rightarrow> None
                | p # _ \<Rightarrow> if map_of subs p \<noteq> None then Some p else None)))"

definition positional_wildcards :: "string \<Rightarrow> string list \<Rightarrow> string list \<Rightarrow> string list \<Rightarrow> (string \<times> string) list" where
  "positional_wildcards program sub flags positionals =
     map (\<lambda>n. let kept = take (length positionals - n) positionals;
                   parts = filter (\<lambda>s. s \<noteq> []) (program # sub @ flags @ kept)
               in (''^'' @ join_strings spaces_regex (map escapeRegex parts) @ spaces_regex @ ''.*$'',
                   join_strings '' '' (program # sub @ flags @ kept @ [''*''])))
       [1..<length positionals]"

text \<open>The rungs between the exact command and the wildcard of the program.\<close>

definition middle_options :: "string \<Rightarrow> CommandRiskSpec option \<Rightarrow> string list \<Rightarrow> (string \<times> string) list" where
  "middle_options program spec args =
     (case split_flags spec args of
        (flags, positionals) \<Rightarrow>
          let subs = (case detect_subcommand spec positionals of None \<Rightarrow> [] | Some s \<Rightarrow> if s = [] then [] else [s]);
              wildcardPositionals = (if subs \<noteq> [] then drop 1 positionals else positionals);
              parts = program # subs
          in positional_wildcards program subs flags wildcardPositionals @
             (if flags \<noteq> []
              then [(''^'' @ join_strings spaces_regex (map escapeRegex parts) @ [backslash, CHR ''b''],
                     join_strings '' '' (parts @ [''*'']))]
              else []) @
             (case subs of
                [] \<Rightarrow> []
              | s # _ \<Rightarrow> [(''^'' @ escapeRegex program @ spaces_regex @ escapeRegex s @ [backslash, CHR ''b''],
                          program @ '' '' @ s @ '' *'')]))"

definition generateScopeOptions :: "ParsedCommand \<Rightarrow> registry \<Rightarrow> ScopeOption list" where
  "generateScopeOptions parsed reg =
     (case pc_segments parsed of
        [] \<Rightarrow> []
      | [seg] \<Rightarrow>
          let program = sg_program seg; spec = map_of reg program; exact = exact_option (sg_command seg)
          in if (case spec of None \<Rightarrow> False | Some s \<Rightarrow> sp_complexSyntax s)
             then foldl addOption [] [exact, command_wildcard program]
             else foldl addOption [] (exact # middle_options program spec (sg_args seg) @ [command_wildcard program])
      | segs \<Rightarrow>
          foldl addOption []
            (exact_option (pc_originalCommand parsed) #
             map command_wildcard (set_of (map sg_program (filter (\<lambda>s. \<not> sg_synthetic s) segs)))))"

definition labelToActionPattern :: "string \<Rightarrow> string" where
  "labelToActionPattern label =
     ''action:'' @ join_strings '' '' (filter (\<lambda>t. \<not> starts_with ''-'' t \<and> t \<noteq> ''*'') (split_spaces label))"

definition allowlist_option :: "nat \<Rightarrow> ScopeOption \<Rightarrow> AllowlistOption" where
  "allowlist_option i opt =
     (let label = so_label opt; prog = take (length label - 2) label
      in if i = 0 then \<lparr>ao_label = label, ao_description = ''This exact command'', ao_pattern = label\<rparr>
         else if ends_with '' *'' label \<and> CHR '' '' \<notin> set prog
         then \<lparr>ao_label = label, ao_description = ''Any '' @ prog @ '' command'', ao_pattern = ''action:'' @ prog\<rparr>
         else \<lparr>ao_label = label, ao_description = ''Commands matching this pattern'',
               ao_pattern = labelToActionPattern label\<rparr>)"

definition addAllowlist :: "AllowlistOption list \<Rightarrow> AllowlistOption \<Rightarrow> AllowlistOption list" where
  "addAllowlist opts o1 = (if ao_pattern o1 \<in> ao_pattern ` set opts then opts else opts @ [o1])"

definition scopeOptionsToAllowlistOptions :: "ScopeOption list \<Rightarrow> AllowlistOption list" where
  "scopeOptionsToAllowlistOptions opts =
     foldl addAllowlist [] (map (\<lambda>(i, opt). allowlist_option i opt) (enumerate 0 opts))"

section \<open>Classifying a command\<close>

record RiskAssessment =
  ra_riskLevel :: risk
  ra_reason :: string
  ra_scopeOptions :: "ScopeOption list"
  ra_matchType :: matchType
  ra_allowlistOptions :: "AllowlistOption list"

record BashClassifierInput =
  bi_command :: string
  bi_toolName :: string
  bi_workingDir :: "string option"

definition segment_max :: "segment_result \<Rightarrow> segment_result \<Rightarrow> segment_result" where
  "segment_max acc res =
     (if riskOrd (sr_risk acc) < riskOrd (sr_risk res) then res
      else if sr_reason acc = [] \<and> sr_reason res \<noteq> []
      then acc\<lparr>sr_reason := sr_reason res, sr_matchType := sr_matchType res\<rparr>
      else acc)"

definition escalate_dangerous :: "ParsedCommand \<Rightarrow> segment_result \<Rightarrow> segment_result" where
  "escalate_dangerous parsed acc =
     (case pc_dangerousPatterns parsed of
        [] \<Rightarrow> acc
      | d # _ \<Rightarrow>
          acc\<lparr>sr_risk := (if riskOrd (sr_risk acc) < riskOrd High then High else sr_risk acc),
              sr_reason := dp_description d\<rparr>)"

definition escalate_opaque :: "ParsedCommand \<Rightarrow> segment_result \<Rightarrow> segment_result" where
  "escalate_opaque parsed acc =
     (if pc_hasOpaqueConstructs parsed
      then
        let target = (if pc_dangerousPatterns parsed \<noteq> [] then High else Medium)
        in acc\<lparr>sr_risk := (if riskOrd (sr_risk acc) < riskOrd target then target else sr_risk acc),
               sr_reason := (if sr_reason acc = [] then ''Command contains opaque constructs'' else sr_reason acc)\<rparr>
      else acc)"

definition classify_parsed :: "classifier_env \<Rightarrow> string \<Rightarrow> string option \<Rightarrow> ParsedCommand \<Rightarrow> segment_result" where
  "classify_parsed env tool cwd parsed =
     escalate_opaque parsed (escalate_dangerous parsed
       (if pc_segments parsed = []
        then segment_result_of High ''No parseable command segments'' UnknownMatch
        else foldl segment_max (segment_result_of Low [] RegistryMatch)
               (map (classifySegment env tool cwd) (pc_segments parsed))))"

definition classify :: "(string \<Rightarrow> ParsedCommand) \<Rightarrow> classifier_env \<Rightarrow> BashClassifierInput \<Rightarrow> RiskAssessment" where
  "classify cachedParse env inp =
     (if js_trim (bi_command inp) = []
      then \<lparr>ra_riskLevel = Low, ra_reason = ''Empty command'', ra_scopeOptions = [], ra_matchType = RegistryMatch,
            ra_allowlistOptions = []\<rparr>
      else
        (case user_rule_result env (bi_toolName inp) (bi_command inp) (bi_workingDir inp) of
           Some res \<Rightarrow>
             \<lparr>ra_riskLevel = sr_risk res, ra_reason = sr_reason res, ra_scopeOptions = [],
              ra_matchType = sr_matchType res, ra_allowlistOptions = []\<rparr>
         | None \<Rightarrow>
             let parsed = cachedParse (bi_command inp);
                 res = classify_parsed env (bi_toolName inp) (bi_workingDir inp) parsed;
                 opts = generateScopeOptions parsed (ce_registry env)
             in \<lparr>ra_riskLevel = sr_risk res, ra_reason = sr_reason res, ra_scopeOptions = opts,
                 ra_matchType = sr_matchType res,
                 ra_allowlistOptions = scopeOptionsToAllowlistOptions opts\<rparr>))"

section \<open>Maximum over the segments\<close>

lemma sr_segment_result_of [simp]:
  "sr_risk (segment_result_of r s m) = r" "sr_reason (segment_result_of r s m) = s"
  "sr_matchType (segment_result_of r s m) = m"
  by (simp_all add: segment_result_of_def)

lemma segment_max_risk: "sr_risk (segment_max a b) = max (sr_risk a) (sr_risk b)"
  by (auto simp: segment_max_def max_def less_eq_risk_def riskOrd_inj)

lemma foldl_segment_max:
  "sr_risk acc \<le> sr_risk (foldl segment_max acc rs) \<and> (\<forall>r \<in> set rs. sr_risk r \<le> sr_risk (foldl segment_max acc rs))"
proof (induction rs arbitrary: acc)
  case (Cons r rs)
  from Cons.IH [of "segment_max acc r"] show ?case by (auto simp: segment_max_risk)
qed simp

lemma foldl_segment_max_attained:
  "sr_risk (foldl segment_max acc rs) = sr_risk acc \<or> (\<exists>r \<in> set rs. sr_risk (foldl segment_max acc rs) = sr_risk r)"
proof (induction rs arbitrary: acc)
  case (Cons r rs)
  from Cons.IH [of "segment_max acc r"] show ?case by (auto simp: segment_max_risk max_def)
qed simp

lemma escalate_dangerous_risk:
  "sr_risk (escalate_dangerous parsed acc) = (if pc_dangerousPatterns parsed = [] then sr_risk acc else High)"
  using riskOrd_inj [of "sr_risk acc" High]
  by (cases "sr_risk acc") (auto simp: escalate_dangerous_def split: list.splits)

lemma escalate_opaque_risk:
  "sr_risk (escalate_opaque parsed acc) =
     (if pc_hasOpaqueConstructs parsed
      then max (sr_risk acc) (if pc_dangerousPatterns parsed \<noteq> [] then High else Medium) else sr_risk acc)"
  by (auto simp: escalate_opaque_def Let_def max_def less_eq_risk_def riskOrd_inj)

section \<open>Argument rules can only lower what they cover\<close>

lemma rule_step_matched:
  "set (rs_matchedPositionalIndices (foldl (rule_step rx p args) st rules)) =
     set (rs_matchedPositionalIndices st) \<union> (\<Union>r \<in> set rules. set (rule_covers rx p r))"
  by (induction rules arbitrary: st) (auto simp: rule_step_def Let_def)

lemma rule_step_max_known:
  "rs_argRuleMaxRisk st \<noteq> Unknown \<Longrightarrow> \<forall>r \<in> set rules. ar_risk r \<noteq> Unknown \<Longrightarrow>
   rs_argRuleMaxRisk (foldl (rule_step rx p args) st rules) \<noteq> Unknown"
  by (induction rules arbitrary: st) (auto simp: rule_step_def Let_def)

lemma rule_step_max:
  "rs_anyArgRuleMatched (foldl (rule_step rx p args) st rules) =
     (rs_anyArgRuleMatched st \<or> (\<exists>r \<in> set rules. rule_fires rx p args r))
   \<and> (rs_anyArgRuleMatched st \<longrightarrow> rs_argRuleMaxRisk st \<le> rs_argRuleMaxRisk (foldl (rule_step rx p args) st rules))
   \<and> (\<forall>r \<in> set rules. rule_fires rx p args r \<longrightarrow> ar_risk r \<le> rs_argRuleMaxRisk (foldl (rule_step rx p args) st rules))"
proof (induction rules arbitrary: st)
  case (Cons r rules)
  let ?st = "rule_step rx p args st r"
  have step: "rs_anyArgRuleMatched ?st = (rs_anyArgRuleMatched st \<or> rule_fires rx p args r)"
    "rs_anyArgRuleMatched st \<longrightarrow> rs_argRuleMaxRisk st \<le> rs_argRuleMaxRisk ?st"
    "rule_fires rx p args r \<longrightarrow> ar_risk r \<le> rs_argRuleMaxRisk ?st"
    by (auto simp: rule_step_def Let_def less_eq_risk_def)
  show ?case using Cons.IH [of ?st] step by (auto intro: order_trans)
qed simp

lemma rule_covers_iff:
  "i \<in> set (rule_covers rx p r) \<longleftrightarrow>
     rule_flags r = [] \<and> i < length (pa_positionals p) \<and> (\<exists>pat. rule_pattern r = Some pat \<and> rx pat (pa_positionals p ! i))"
  by (cases "rule_pattern r") (auto simp: rule_covers_def)

definition spec_schema :: "CommandRiskSpec \<Rightarrow> ArgSchema" where
  "spec_schema spec = (case sp_argSchema spec of None \<Rightarrow> empty_schema | Some sc \<Rightarrow> sc)"

definition spec_rules :: "CommandRiskSpec \<Rightarrow> ArgRule list" where
  "spec_rules spec = (case sp_argRules spec of None \<Rightarrow> [] | Some rs \<Rightarrow> rs)"

text \<open>\<open>positional_covered\<close>: a rule with a pattern and no flags matches this positional.\<close>

definition positional_covered :: "(string \<Rightarrow> string \<Rightarrow> bool) \<Rightarrow> CommandRiskSpec \<Rightarrow> string \<Rightarrow> bool" where
  "positional_covered rx spec a \<longleftrightarrow>
     (\<exists>r \<in> set (spec_rules spec). rule_flags r = [] \<and> (\<exists>pat. rule_pattern r = Some pat \<and> rx pat a))"

lemma apply_arg_rules_cases:
  "apply_arg_rules rx spec args res = res \<or>
   (spec_rules spec \<noteq> [] \<and>
    (let p = parseArgs args (spec_schema spec);
         st = foldl (rule_step rx p args) rule_state_init (spec_rules spec)
     in apply_arg_rules rx spec args res = segment_result_of (rs_argRuleMaxRisk st) (rs_argRuleReason st) RegistryMatch
        \<and> rs_anyArgRuleMatched st
        \<and> (sr_risk res \<le> rs_argRuleMaxRisk st \<or>
           \<not> unmatched_non_flag_arg rx p args (spec_rules spec) (rs_matchedPositionalIndices st))))"
  by (auto simp: apply_arg_rules_def spec_rules_def spec_schema_def Let_def less_eq_risk_def split: option.splits)

lemma apply_arg_rules_lowers:
  assumes "sr_risk (apply_arg_rules rx spec args res) < sr_risk res"
  shows "\<forall>a \<in> set (pa_positionals (parseArgs args (spec_schema spec))). positional_covered rx spec a"
proof -
  let ?p = "parseArgs args (spec_schema spec)"
  let ?st = "foldl (rule_step rx ?p args) rule_state_init (spec_rules spec)"
  from apply_arg_rules_cases [of rx spec args res] assms
  have "\<not> unmatched_non_flag_arg rx ?p args (spec_rules spec) (rs_matchedPositionalIndices ?st)"
    by (auto simp: Let_def)
  then have covered: "\<forall>i < length (pa_positionals ?p). \<exists>r \<in> set (spec_rules spec). i \<in> set (rule_covers rx ?p r)"
    by (auto simp: unmatched_non_flag_arg_def list_ex_iff rule_step_matched rule_state_init_def)
  show ?thesis
  proof
    fix a
    assume "a \<in> set (pa_positionals ?p)"
    then obtain i where "i < length (pa_positionals ?p)" "a = pa_positionals ?p ! i" by (auto simp: in_set_conv_nth)
    with covered show "positional_covered rx spec a" by (auto simp: rule_covers_iff positional_covered_def)
  qed
qed

lemma escalate_variables_ge: "sr_risk res \<le> sr_risk (escalate_variables prog args base res)"
  by (auto simp: escalate_variables_def Let_def less_eq_risk_def)

lemma escalate_variables_dollar:
  assumes "a \<in> set args" and "CHR ''$'' \<in> set a" and "sr_risk res \<noteq> Unknown" and "base \<noteq> Unknown"
  shows "escalateOne base \<le> sr_risk (escalate_variables prog args base res)"
  using assms
  by (cases "sr_risk res"; cases base) (auto simp: escalate_variables_def Let_def less_eq_risk_def maxRisk_def list_ex_iff)

lemma rm_downgrade_other: "programName \<noteq> ''rm'' \<or> tool \<noteq> ''bash'' \<Longrightarrow> rm_downgrade programName tool args res = res"
  by (auto simp: rm_downgrade_def)

lemma rm_downgrade_risk:
  "sr_risk (rm_downgrade programName tool args res) = sr_risk res \<or>
   (sr_risk (rm_downgrade programName tool args res) = Medium \<and> programName = ''rm'' \<and> tool = ''bash'' \<and>
    filter (\<lambda>a. \<not> starts_with ''-'' a) args = [''BOOTSTRAP.md''])"
  by (auto simp: rm_downgrade_def RM_SAFE_BARE_FILES_def split: list.splits)

section \<open>Properties\<close>

text \<open>C35: unless a rule of the user decides the whole command, its risk is at least the risk of every
  segment, a command with a dangerous pattern or without segments is high, and one with opaque
  constructs is at least medium; and the risk is attained: without those, it is the risk of some segment
  or low.\<close>

theorem classify_covers_segments:
  assumes "js_trim (bi_command inp) \<noteq> []"
    and "user_rule_result env (bi_toolName inp) (bi_command inp) (bi_workingDir inp) = None"
    and "parse (bi_command inp) = parsed"
  shows "(\<forall>seg \<in> set (pc_segments parsed).
        sr_risk (classifySegment env (bi_toolName inp) (bi_workingDir inp) seg) \<le> ra_riskLevel (classify parse env inp))
    \<and> (pc_dangerousPatterns parsed \<noteq> [] \<or> pc_segments parsed = [] \<longrightarrow> ra_riskLevel (classify parse env inp) = High)
    \<and> (pc_hasOpaqueConstructs parsed \<longrightarrow> Medium \<le> ra_riskLevel (classify parse env inp))
    \<and> (pc_dangerousPatterns parsed = [] \<and> pc_segments parsed \<noteq> [] \<and> \<not> pc_hasOpaqueConstructs parsed \<longrightarrow>
         ra_riskLevel (classify parse env inp) \<in>
           insert Low ((\<lambda>seg. sr_risk (classifySegment env (bi_toolName inp) (bi_workingDir inp) seg)) ` set (pc_segments parsed)))"
proof -
  let ?cs = "map (classifySegment env (bi_toolName inp) (bi_workingDir inp)) (pc_segments parsed)"
  let ?m = "foldl segment_max (segment_result_of Low [] RegistryMatch) ?cs"
  have r: "ra_riskLevel (classify parse env inp) =
      sr_risk (classify_parsed env (bi_toolName inp) (bi_workingDir inp) parsed)"
    using assms by (simp add: classify_def Let_def)
  have m: "\<forall>seg \<in> set (pc_segments parsed). sr_risk (classifySegment env (bi_toolName inp) (bi_workingDir inp) seg) \<le> sr_risk ?m"
    using foldl_segment_max [of "segment_result_of Low [] RegistryMatch" ?cs] by auto
  have a: "sr_risk ?m = Low \<or> (\<exists>r \<in> set ?cs. sr_risk ?m = sr_risk r)"
    using foldl_segment_max_attained [of "segment_result_of Low [] RegistryMatch" ?cs] by simp
  show ?thesis
    unfolding r classify_parsed_def using m a
    by (auto simp: escalate_opaque_risk escalate_dangerous_risk le_max_iff_disj max_def intro: order_trans)
qed

text \<open>a wrapper never hides the command it runs: its risk is the higher of the wrapper's own base
  risk and the risk of the wrapped command, itself classified the same way.\<close>

theorem wrapper_takes_maximum:
  assumes "user_rule_result env tool (sg_command seg) cwd = None"
    and "registry_lookup (ce_registry env) (sg_program seg) = Some (programName, spec)"
    and "sp_isWrapper spec" and "\<not> nonExecMode spec (sg_args seg)"
    and "getWrappedProgramWithArgs seg = Some (program, args)"
  shows "sr_risk (classifySegment env tool cwd seg) =
    max (sp_baseRisk spec) (sr_risk (classifySegment env tool cwd (inner_segment seg program args)))"
  using assms by (simp add: classifySegment.simps [of env tool cwd seg] Let_def maxRisk_max)

text \<open>argument rules lower a command below its base risk only when every positional argument is
  covered by a rule with a value pattern; in particular one uncovered path keeps the base risk as the
  floor (the one exception is \<open>rm\<close> of the bootstrap file in the sandbox).\<close>

theorem base_risk_is_floor:
  assumes "resolveSubcommand spec (sg_args seg) = (resolved, rest)"
    and "effective_base (sp_baseRisk resolved) (base_risk_override env tool cwd programName spec (sg_args seg)) = (base, mt)"
    and "a \<in> set (pa_positionals (parseArgs (sg_args seg) (spec_schema resolved)))"
    and "\<not> positional_covered (ce_regex env) resolved a"
  shows "base \<le> sr_risk (classify_resolved env tool cwd programName spec seg) \<or>
    (programName = ''rm'' \<and> tool = ''bash'' \<and> filter (\<lambda>a. \<not> starts_with ''-'' a) (sg_args seg) = [''BOOTSTRAP.md''])"
proof -
  let ?r0 = "segment_result_of base (reason_or (sp_reason resolved) (sg_program seg @ '' (default)'')) mt"
  let ?r1 = "apply_arg_rules (ce_regex env) resolved (sg_args seg) ?r0"
  let ?r2 = "escalate_variables (sg_program seg) (sg_args seg) base ?r1"
  have "classify_resolved env tool cwd programName spec seg = rm_downgrade programName tool (sg_args seg) ?r2"
    using assms(1,2) by (simp add: classify_resolved_def Let_def)
  moreover have "base \<le> sr_risk ?r1"
    using apply_arg_rules_lowers [of "ce_regex env" resolved "sg_args seg" ?r0] assms(3,4) by fastforce
  then have "base \<le> sr_risk ?r2" using escalate_variables_ge by (rule order_trans)
  ultimately show ?thesis using rm_downgrade_risk [of programName tool "sg_args seg" ?r2] by auto
qed

text \<open>an argument with a variable expansion raises the command one level above its base risk at
  least, whatever the argument rules said (registry entries have known risks).\<close>

theorem variable_expansion_escalates:
  assumes "resolveSubcommand spec (sg_args seg) = (resolved, rest)"
    and "effective_base (sp_baseRisk resolved) (base_risk_override env tool cwd programName spec (sg_args seg)) = (base, mt)"
    and "base \<noteq> Unknown" and "\<forall>r \<in> set (spec_rules resolved). ar_risk r \<noteq> Unknown"
    and "a \<in> set (sg_args seg)" and "CHR ''$'' \<in> set a" and "programName \<noteq> ''rm'' \<or> tool \<noteq> ''bash''"
  shows "escalateOne base \<le> sr_risk (classify_resolved env tool cwd programName spec seg)"
proof -
  let ?r0 = "segment_result_of base (reason_or (sp_reason resolved) (sg_program seg @ '' (default)'')) mt"
  let ?r1 = "apply_arg_rules (ce_regex env) resolved (sg_args seg) ?r0"
  have "sr_risk ?r1 \<noteq> Unknown"
    using apply_arg_rules_cases [of "ce_regex env" resolved "sg_args seg" ?r0] assms(3)
      rule_step_max_known [OF _ assms(4), of rule_state_init]
    by (auto simp: Let_def rule_state_init_def)
  from escalate_variables_dollar [OF assms(5,6) this assms(3)] assms(1,2,7) show ?thesis
    by (simp add: classify_resolved_def Let_def rm_downgrade_other)
qed

section \<open>Rules saved from the ladder\<close>

lemma insert_or_update_row:
  assumes "insert_or_update new f t = Inr t'" and "\<And>r. row_key (f r) = row_key r"
  shows "\<exists>r \<in> set t'. row_key r = row_key new \<and> (r = new \<or> (\<exists>x. r = f x))"
proof (cases "list_ex (same_key (row_tool new) (row_pattern new)) t")
  case True
  then obtain x where x: "x \<in> set t" "same_key (row_tool new) (row_pattern new) x" by (auto simp: list_ex_iff)
  with True assms have "f x \<in> set t'" by (auto simp: insert_or_update_def update_rows_def)
  moreover have "row_key (f x) = row_key new" using x assms(2) by (simp add: same_key_iff row_key_def)
  ultimately show ?thesis by blast
next
  case False
  with assms show ?thesis by (auto simp: insert_or_update_def split: if_splits)
qed

lemma create_saves:
  assumes "create i now t inp = Inr (t', r)" and "table_ok t"
  shows "\<exists>x. cached (refresh t') (ci_tool inp) (ci_pattern inp) = Some x \<and> tr_origin x = UserDefined
    \<and> tr_risk x = row_risk_level (ci_risk inp) \<and> tr_scope x = ci_scope inp"
proof -
  let ?f = "\<lambda>r. r\<lparr>row_risk := ci_risk inp, row_description := ci_description inp, row_origin := UserDefined,
                  row_scope := ci_scope inp, row_deleted := False, row_updatedAt := now\<rparr>"
  have ins: "insert_or_update (create_row i now inp) ?f t = Inr t'"
    using assms(1) by (auto simp: create_def split: if_splits sum.splits)
  then obtain y where y: "y \<in> set t'" "row_key y = row_key (create_row i now inp)"
      "y = create_row i now inp \<or> (\<exists>x. y = ?f x)"
    using insert_or_update_row [of "create_row i now inp" ?f t t'] by (auto simp: row_key_def)
  have ok: "table_ok t'" by (rule store_step_ok [OF assms(2) step_create [OF assms(1)]])
  have "toTrustRule y \<in> set (listActive t' None)"
    using y by (auto simp: listActive_def create_row_def)
  then have "cached (refresh t') (ci_tool inp) (ci_pattern inp) = Some (toTrustRule y)"
    using y(2) by (auto simp: cached_refresh [OF ok] toTrustRule_def row_key_def create_row_def)
  then show ?thesis using y(3) by (auto simp: toTrustRule_def create_row_def)
qed

lemma findBaseRisk_literal:
  assumes "cached c tool command = Some r" and "isScopeMatch (tr_scope r) cwd" and "tr_origin r = UserDefined"
  shows "findBaseRisk c tool command cwd = Some r"
proof -
  from assms(1) obtain m where m: "jm_get c tool = Some m" "jm_get m command = Some r"
    by (auto simp: cached_def split: option.splits)
  then have "lookup_key m cwd command = Some r"
    using assms(2,3) by (simp add: lookup_key_def in_scope_def isUserRule_def)
  moreover obtain ks where "candidate_keys command = command # ks" by (simp add: candidate_keys_def Let_def)
  ultimately show ?thesis using m(1) by (simp add: findBaseRisk_first)
qed

section \<open>The ladder of options\<close>

lemma foldl_addOption:
  "distinct (map so_pattern opts) \<Longrightarrow>
   distinct (map so_pattern (foldl addOption opts pls))
   \<and> so_pattern ` set (foldl addOption opts pls) = so_pattern ` set opts \<union> fst ` set pls
   \<and> (\<exists>more. foldl addOption opts pls = opts @ more)"
proof (induction pls arbitrary: opts)
  case (Cons pl pls)
  have d: "distinct (map so_pattern (addOption opts pl))" using Cons.prems by (auto simp: addOption_def)
  have s: "so_pattern ` set (addOption opts pl) = insert (fst pl) (so_pattern ` set opts)"
    by (auto simp: addOption_def)
  have m: "\<exists>more. addOption opts pl = opts @ more" by (auto simp: addOption_def)
  from Cons.IH [OF d] s m show ?case by auto
qed simp

lemma foldl_addAllowlist:
  "distinct (map ao_pattern acc) \<Longrightarrow>
   distinct (map ao_pattern (foldl addAllowlist acc os)) \<and> (\<exists>more. foldl addAllowlist acc os = acc @ more)"
proof (induction os arbitrary: acc)
  case (Cons o1 os)
  have d: "distinct (map ao_pattern (addAllowlist acc o1))" using Cons.prems by (auto simp: addAllowlist_def)
  have m: "\<exists>more. addAllowlist acc o1 = acc @ more" by (auto simp: addAllowlist_def)
  from Cons.IH [OF d] m show ?case by auto
qed simp

definition exact_command :: "ParsedCommand \<Rightarrow> string" where
  "exact_command parsed =
     (case pc_segments parsed of [seg] \<Rightarrow> sg_command seg | _ \<Rightarrow> pc_originalCommand parsed)"

lemma generateScopeOptions_ladder:
  "pc_segments parsed \<noteq> [] \<Longrightarrow>
   \<exists>pls. generateScopeOptions parsed reg = foldl addOption [] (exact_option (exact_command parsed) # pls)
     \<and> (\<forall>seg. pc_segments parsed = [seg] \<longrightarrow> command_wildcard (sg_program seg) \<in> set pls)
     \<and> (1 < length (pc_segments parsed) \<longrightarrow>
          (\<forall>seg \<in> set (pc_segments parsed). \<not> sg_synthetic seg \<longrightarrow> command_wildcard (sg_program seg) \<in> set pls))"
proof (cases "pc_segments parsed" rule: remdups_adj.cases)
  case (2 seg)
  show ?thesis
  proof (cases "case map_of reg (sg_program seg) of None \<Rightarrow> False | Some s \<Rightarrow> sp_complexSyntax s")
    case True
    with 2 have "generateScopeOptions parsed reg =
        foldl addOption [] (exact_option (exact_command parsed) # [command_wildcard (sg_program seg)])"
      by (simp add: generateScopeOptions_def exact_command_def Let_def)
    with 2 show ?thesis by (intro exI [of _ "[command_wildcard (sg_program seg)]"]) simp
  next
    case False
    let ?mid = "middle_options (sg_program seg) (map_of reg (sg_program seg)) (sg_args seg)"
    from False 2 have "generateScopeOptions parsed reg =
        foldl addOption [] (exact_option (exact_command parsed) # (?mid @ [command_wildcard (sg_program seg)]))"
      by (simp add: generateScopeOptions_def exact_command_def Let_def)
    with 2 show ?thesis by (intro exI [of _ "?mid @ [command_wildcard (sg_program seg)]"]) simp
  qed
next
  case (3 a b segs)
  then have "generateScopeOptions parsed reg =
      foldl addOption [] (exact_option (exact_command parsed) #
        map command_wildcard (set_of (map sg_program (filter (\<lambda>s. \<not> sg_synthetic s) (pc_segments parsed)))))"
    by (simp add: generateScopeOptions_def exact_command_def)
  with 3 show ?thesis
    by (intro exI [of _ "map command_wildcard (set_of (map sg_program (filter (\<lambda>s. \<not> sg_synthetic s) (pc_segments parsed))))"])
       auto
qed simp

text \<open>the ladder offered for a command starts with the command itself, offers no pattern twice, and
  reaches the wildcard of the program (of every program the user typed, for a compound command); the
  allowlist built from it starts with the exact command text and has no pattern twice either.\<close>

theorem scope_ladder:
  assumes "pc_segments parsed \<noteq> []"
  shows "let opts = generateScopeOptions parsed reg; allow = scopeOptionsToAllowlistOptions opts
    in opts \<noteq> [] \<and> so_label (hd opts) = exact_command parsed \<and> distinct (map so_pattern opts)
      \<and> (\<forall>seg \<in> set (pc_segments parsed). \<not> sg_synthetic seg \<longrightarrow>
           fst (command_wildcard (sg_program seg)) \<in> so_pattern ` set opts)
      \<and> allow \<noteq> [] \<and> ao_pattern (hd allow) = exact_command parsed \<and> distinct (map ao_pattern allow)"
proof -
  let ?opts = "generateScopeOptions parsed reg"
  let ?first = "\<lparr>so_pattern = fst (exact_option (exact_command parsed)), so_label = exact_command parsed\<rparr>"
  obtain pls where g: "?opts = foldl addOption [] (exact_option (exact_command parsed) # pls)"
    and w1: "\<forall>seg. pc_segments parsed = [seg] \<longrightarrow> command_wildcard (sg_program seg) \<in> set pls"
    and w2: "1 < length (pc_segments parsed) \<longrightarrow>
          (\<forall>seg \<in> set (pc_segments parsed). \<not> sg_synthetic seg \<longrightarrow> command_wildcard (sg_program seg) \<in> set pls)"
    using generateScopeOptions_ladder [OF assms] by blast
  have start: "addOption [] (exact_option (exact_command parsed)) = [?first]"
    by (simp add: addOption_def exact_option_def)
  from foldl_addOption [of "[?first]" pls] g start
  have d: "distinct (map so_pattern ?opts)" and s: "fst ` set pls \<subseteq> so_pattern ` set ?opts"
    and h: "\<exists>more. ?opts = ?first # more" by auto
  have wild: "fst (command_wildcard (sg_program seg)) \<in> so_pattern ` set ?opts"
    if "seg \<in> set (pc_segments parsed)" "\<not> sg_synthetic seg" for seg
  proof -
    have "command_wildcard (sg_program seg) \<in> set pls"
      using that w1 w2 by (cases "pc_segments parsed" rule: remdups_adj.cases) auto
    with s show ?thesis by blast
  qed
  obtain more where more: "?opts = ?first # more" using h ..
  then have "\<exists>rest. scopeOptionsToAllowlistOptions ?opts = allowlist_option 0 ?first # rest"
    using foldl_addAllowlist [of "[allowlist_option 0 ?first]"]
    by (simp add: scopeOptionsToAllowlistOptions_def addAllowlist_def)
  moreover have "distinct (map ao_pattern (scopeOptionsToAllowlistOptions ?opts))"
    unfolding scopeOptionsToAllowlistOptions_def using foldl_addAllowlist [of "[]"] by simp
  ultimately show ?thesis using more d wild by (auto simp: Let_def allowlist_option_def)
qed

text \<open>a rule saved with the exact command text takes effect: after it is created and the cache is
  refreshed, classifying that command again, compound or not, gives the saved risk as a user rule.\<close>

theorem saved_exact_rule_applies:
  assumes "create i now t rule = Inr (t', saved)" and "table_ok t"
    and "ci_tool rule = bi_toolName inp" and "ci_pattern rule = bi_command inp"
    and "isScopeMatch (ci_scope rule) (bi_workingDir inp)" and "js_trim (bi_command inp) \<noteq> []"
    and "ce_cache env = Some (refresh t')"
  shows "ra_riskLevel (classify parse env inp) = row_risk_level (ci_risk rule)
    \<and> ra_matchType (classify parse env inp) = UserRuleMatch"
proof -
  obtain x where x: "cached (refresh t') (bi_toolName inp) (bi_command inp) = Some x" "tr_origin x = UserDefined"
      "tr_risk x = row_risk_level (ci_risk rule)" "tr_scope x = ci_scope rule"
    using create_saves [OF assms(1,2)] assms(3,4) by auto
  then have "findBaseRisk (refresh t') (bi_toolName inp) (bi_command inp) (bi_workingDir inp) = Some x"
    using assms(5) by (intro findBaseRisk_literal) auto
  with x assms(6,7) show ?thesis by (simp add: classify_def user_rule_result_def cached_rule_def)
qed

section \<open>Witnesses and a compound command\<close>

definition plain_spec :: "risk \<Rightarrow> CommandRiskSpec" where
  "plain_spec r = Spec r None None False None False None False False None"

definition demo_registry :: registry where
  "demo_registry =
     [(''git'', plain_spec Low), (''rm'', plain_spec High),
      (''sudo'', Spec Medium None None True None False None False False None)]"

definition demo_env :: "trust_cache option \<Rightarrow> classifier_env" where
  "demo_env c = \<lparr>ce_registry = demo_registry, ce_cache = c, ce_regex = (\<lambda>p s. False)\<rparr>"

definition demo_segment :: "string \<Rightarrow> string \<Rightarrow> string list \<Rightarrow> CommandSegment" where
  "demo_segment command program args =
     \<lparr>sg_command = command, sg_program = program, sg_args = args, sg_operator = [], sg_synthetic = False\<rparr>"

definition demo_parse :: "string \<Rightarrow> ParsedCommand" where
  "demo_parse c =
     \<lparr>pc_originalCommand = c,
      pc_segments = [demo_segment ''git status'' ''git'' [''status''], demo_segment ''rm -rf /'' ''rm'' [''-rf'', ''/'']],
      pc_dangerousPatterns = [], pc_hasOpaqueConstructs = False\<rparr>"

definition demo_input :: BashClassifierInput where
  "demo_input = \<lparr>bi_command = ''git status && rm -rf /'', bi_toolName = ''bash'', bi_workingDir = None\<rparr>"

lemmas risk_demo_defs = demo_registry_def demo_env_def demo_segment_def demo_parse_def demo_input_def plain_spec_def

lemma plain_spec_sel [simp]:
  "sp_baseRisk (plain_spec r) = r" "sp_subcommands (plain_spec r) = None" "sp_argRules (plain_spec r) = None"
  "\<not> sp_isWrapper (plain_spec r)" "sp_argSchema (plain_spec r) = None"
  by (simp_all add: plain_spec_def)

lemma demo_env_sel [simp]: "ce_registry (demo_env c) = demo_registry" "ce_cache (demo_env c) = c"
  by (simp_all add: demo_env_def)

lemma demo_segment_sel [simp]:
  "sg_command (demo_segment c p as) = c" "sg_program (demo_segment c p as) = p" "sg_args (demo_segment c p as) = as"
  "\<not> sg_synthetic (demo_segment c p as)"
  by (simp_all add: demo_segment_def)

lemma demo_registry_get [simp]:
  "map_of demo_registry ''rm'' = Some (plain_spec High)" "map_of demo_registry ''git'' = Some (plain_spec Low)"
  by (simp_all add: demo_registry_def)

lemma no_cache_rule [simp]: "cached_rule (demo_env None) tool key cwd = None"
  by (simp add: cached_rule_def demo_env_def)

lemma resolve_plain: "resolveSubcommand (plain_spec r) args = (plain_spec r, args)"
  by (simp add: resolveSubcommand.simps select_subcommand_def plain_spec_def)

lemma chain_plain: "subcommand_chain (plain_spec r) args = []"
  by (simp add: subcommand_chain.simps select_subcommand_def plain_spec_def)

lemma no_cache_override [simp]: "base_risk_override (demo_env None) tool cwd p s args = None"
  by (simp add: base_risk_override_def Let_def)

lemma rm_lookup: "registry_lookup demo_registry ''rm'' = Some (''rm'', plain_spec High)"
  by (simp add: registry_lookup_def)

lemma rm_segment_high:
  assumes "\<And>key. key \<in> {''rm -rf /'', ''rm /'', ''rm''} \<Longrightarrow> cached_rule (demo_env c) ''bash'' key None = None"
  shows "sr_risk (classifySegment (demo_env c) ''bash'' None (demo_segment ''rm -rf /'' ''rm'' [''-rf'', ''/''])) = High"
proof -
  have "base_risk_override (demo_env c) ''bash'' None ''rm'' (plain_spec High) [''-rf'', ''/''] = None"
    using assms
    by (simp add: base_risk_override_def Let_def chain_plain join_command_def command_positionals_def starts_with_def)
  moreover have "user_rule_result (demo_env c) ''bash'' ''rm -rf /'' None = None"
    using assms by (simp add: user_rule_result_def)
  ultimately show ?thesis
    by (simp add: classifySegment.simps rm_lookup hasStandaloneHelpFlag_def classify_resolved_def resolve_plain
        effective_base_def apply_arg_rules_def escalate_variables_def rm_downgrade_def starts_with_def
        RM_SAFE_BARE_FILES_def)
qed

theorem classify_covers_segments_witness:
  "ra_riskLevel (classify demo_parse (demo_env None) demo_input) = High"
proof -
  have "js_trim (bi_command demo_input) \<noteq> []" by code_simp
  moreover have "user_rule_result (demo_env None) (bi_toolName demo_input) (bi_command demo_input) (bi_workingDir demo_input) = None"
    by (simp add: user_rule_result_def)
  ultimately have "\<forall>seg \<in> set (pc_segments (demo_parse (bi_command demo_input))).
        sr_risk (classifySegment (demo_env None) (bi_toolName demo_input) (bi_workingDir demo_input) seg)
          \<le> ra_riskLevel (classify demo_parse (demo_env None) demo_input)"
    using classify_covers_segments [OF _ _ refl] by blast
  then have "sr_risk (classifySegment (demo_env None) ''bash'' None (demo_segment ''rm -rf /'' ''rm'' [''-rf'', ''/'']))
      \<le> ra_riskLevel (classify demo_parse (demo_env None) demo_input)"
    by (simp add: demo_parse_def demo_input_def)
  then show ?thesis by (simp add: rm_segment_high)
qed

theorem wrapper_takes_maximum_witness:
  "sr_risk (classifySegment (demo_env None) ''bash'' None (demo_segment ''sudo rm -rf /'' ''sudo'' [''rm'', ''-rf'', ''/''])) = High"
proof -
  let ?seg = "demo_segment ''sudo rm -rf /'' ''sudo'' [''rm'', ''-rf'', ''/'']"
  let ?sudo = "Spec Medium None None True None False None False False None"
  have "sr_risk (classifySegment (demo_env None) ''bash'' None ?seg) =
    max (sp_baseRisk ?sudo) (sr_risk (classifySegment (demo_env None) ''bash'' None (inner_segment ?seg ''rm'' [''-rf'', ''/''])))"
  proof (rule wrapper_takes_maximum)
    show "registry_lookup (ce_registry (demo_env None)) (sg_program ?seg) = Some (''sudo'', ?sudo)"
      by (simp add: registry_lookup_def risk_demo_defs)
    show "getWrappedProgramWithArgs ?seg = Some (''rm'', [''-rf'', ''/''])"
      by (simp add: getWrappedProgramWithArgs_def demo_segment_def WRAPPER_SKIP_FIRST_POSITIONAL_def starts_with_def)
  qed (simp_all add: user_rule_result_def nonExecMode_def)
  moreover have "inner_segment ?seg ''rm'' [''-rf'', ''/''] = demo_segment ''rm -rf /'' ''rm'' [''-rf'', ''/'']"
    by (simp add: inner_segment_def demo_segment_def)
  ultimately show ?thesis by (simp add: rm_segment_high max_def)
qed

theorem base_risk_is_floor_witness:
  "High \<le> sr_risk (classify_resolved (demo_env None) ''host_bash'' None ''rm'' (plain_spec High)
     (demo_segment ''rm /etc/passwd'' ''rm'' [''/etc/passwd'']))"
  using base_risk_is_floor [of "plain_spec High" "demo_segment ''rm /etc/passwd'' ''rm'' [''/etc/passwd'']"
      "plain_spec High" "[''/etc/passwd'']" "demo_env None" "''host_bash''" None "''rm''" High RegistryMatch "''/etc/passwd''"]
  by (simp add: resolve_plain effective_base_def positional_covered_def spec_rules_def spec_schema_def
      empty_schema_def parseArgs_def parsed_empty_def add_positional_def starts_with_def)

theorem variable_expansion_escalates_witness:
  "Medium \<le> sr_risk (classify_resolved (demo_env None) ''bash'' None ''git'' (plain_spec Low)
     (demo_segment ''git $X'' ''git'' [''$X'']))"
  using variable_expansion_escalates [of "plain_spec Low" "demo_segment ''git $X'' ''git'' [''$X'']"
      "plain_spec Low" "[''$X'']" "demo_env None" "''bash''" None "''git''" Low RegistryMatch "''$X''"]
  by (simp add: resolve_plain effective_base_def spec_rules_def)

theorem scope_ladder_witness:
  "so_label (hd (generateScopeOptions (demo_parse ''git status && rm -rf /'') demo_registry)) = ''git status && rm -rf /''
   \<and> fst (command_wildcard ''rm'') \<in> so_pattern ` set (generateScopeOptions (demo_parse ''git status && rm -rf /'') demo_registry)"
proof -
  let ?p = "demo_parse ''git status && rm -rf /''"
  have "pc_segments ?p \<noteq> []" by (simp add: demo_parse_def)
  note l = scope_ladder [OF this, of demo_registry, unfolded Let_def]
  have "exact_command ?p = ''git status && rm -rf /''" by (simp add: exact_command_def demo_parse_def)
  moreover have "demo_segment ''rm -rf /'' ''rm'' [''-rf'', ''/''] \<in> set (pc_segments ?p)"
      "\<not> sg_synthetic (demo_segment ''rm -rf /'' ''rm'' [''-rf'', ''/''])"
      "sg_program (demo_segment ''rm -rf /'' ''rm'' [''-rf'', ''/'']) = ''rm''"
    by (simp_all add: demo_parse_def demo_segment_def)
  ultimately show ?thesis using l by metis
qed

definition saved_rule :: CreateInput where
  "saved_rule = \<lparr>ci_tool = ''bash'', ci_pattern = ''git status && rm -rf /'', ci_risk = ''medium'',
                 ci_description = [], ci_scope = None\<rparr>"

theorem saved_exact_rule_applies_witness:
  "ra_riskLevel (classify demo_parse (demo_env (Some (refresh [create_row ''r'' 1 saved_rule]))) demo_input) = Medium"
proof -
  have "create ''r'' 1 [] saved_rule = Inr ([create_row ''r'' 1 saved_rule], Some (toTrustRule (create_row ''r'' 1 saved_rule)))"
    by (simp add: create_def saved_rule_def VALID_RISK_VALUES_def insert_or_update_def create_row_def same_key_def)
  moreover have "js_trim (bi_command demo_input) \<noteq> []" by code_simp
  moreover have "table_ok []" by (simp add: table_ok_def)
  ultimately show ?thesis
    using saved_exact_rule_applies [of "''r''" 1 "[]" saved_rule _ _ demo_input "demo_env (Some (refresh [create_row ''r'' 1 saved_rule]))" demo_parse]
    by (simp add: saved_rule_def demo_input_def isScopeMatch_def row_risk_level_def demo_env_def)
qed

text \<open>the probe for a rule on the whole command text also tries its word prefixes. With the rule
  \<open>action:git\<close> at low risk, as the ladder offers it, the command \<open>git status && rm -rf /\<close> is classified low
  as a user rule, although its second segment alone is high: the rest of the command is never looked
  at.\<close>

theorem compound_command_escapes_by_prefix:
  "ra_riskLevel (classify demo_parse (demo_env (Some (refresh git_table))) demo_input) = Low
   \<and> ra_matchType (classify demo_parse (demo_env (Some (refresh git_table))) demo_input) = UserRuleMatch
   \<and> sr_risk (classifySegment (demo_env (Some (refresh git_table))) ''bash'' None
       (demo_segment ''rm -rf /'' ''rm'' [''-rf'', ''/''])) = High"
proof -
  let ?c = "refresh git_table"
  have keys: "candidate_keys ''git status && rm -rf /'' =
      [''git status && rm -rf /'', ''git status && rm -rf'', ''git status && rm'', ''git status &&'', ''git status'', ''git'']"
    by code_simp
  have rm_keys: "candidate_keys ''rm -rf /'' = [''rm -rf /'', ''rm -rf'', ''rm'']"
      "candidate_keys ''rm /'' = [''rm /'', ''rm'']" "candidate_keys ''rm'' = [''rm'']"
    by code_simp+
  have "findBaseRisk ?c ''bash'' ''git status && rm -rf /'' None = Some git_rule"
    unfolding findBaseRisk_first git_cache keys
    by (simp add: lookup_key_def in_scope_def isUserRule_def isScopeMatch_def git_rule_fields)
  moreover have "js_trim (bi_command demo_input) \<noteq> []" by code_simp
  moreover have "cached_rule (demo_env (Some ?c)) ''bash'' key None = None" if "key \<in> {''rm -rf /'', ''rm /'', ''rm''}" for key
    using that by (auto simp: cached_rule_def demo_env_def findBaseRisk_first git_cache rm_keys lookup_key_def
        in_scope_def isUserRule_def)
  ultimately show ?thesis
    using rm_segment_high [of "Some ?c"]
    by (simp add: classify_def user_rule_result_def cached_rule_def demo_env_def demo_input_def git_rule_fields)
qed

end
