(* ===== verification/Sandbox_Approval.thy ===== *)
theory Sandbox_Approval
  imports Bash_Risk Posix_Paths
begin

text \<open>
  The bash branch of the classification request, \<^verbatim>\<open>gateway/src/ipc/risk-classification-handlers.ts\<close>: whether
  a command may run without a prompt in the sandbox, the paths it touches and the final risk; and the
  directory ladder of \<^verbatim>\<open>gateway/src/risk/directory-scope.ts\<close>.

  \<^item> Paths are POSIX paths. \<open>path_resolve\<close> and \<open>path_join\<close> are what the code uses of \<^verbatim>\<open>node:path\<close>, for an
    absolute base directory. The home directory and the directory of the process are fields of
    \<open>path_env\<close>, as are the two questions to the file system (is a path a directory, does it exist). The
    project boundary is that of \<^verbatim>\<open>gateway/src/risk/project-boundary.ts\<close>.
  \<^item> The dash in the reason of a credentialed session is an ASCII one.
  \<^item> The registry and the parser are parameters, as in the classifier. The action keys and command
    candidates of the response, which the shell-identity module computes, are left out, and so is the
    PowerShell branch.
\<close>

section \<open>The environment\<close>

record path_env =
  pe_home :: string
  pe_cwd :: string
  pe_isDirectory :: "string \<Rightarrow> bool"
  pe_exists :: "string \<Rightarrow> bool"

definition isPathWithinRoot :: "path_env \<Rightarrow> string \<Rightarrow> string \<Rightarrow> bool" where
  "isPathWithinRoot pe filePath root =
     (if filePath = [] \<or> root = [] then False
      else
        let normalizedRoot = (if ends_with ''/'' root then root else root @ ''/'');
            normalizedPath = path_resolve (pe_cwd pe) filePath
        in normalizedPath = strip_trailing_slash root \<or> starts_with normalizedRoot normalizedPath)"

section \<open>Sandbox auto-approval\<close>

definition lookupSpec :: "registry \<Rightarrow> string \<Rightarrow> CommandRiskSpec option" where
  "lookupSpec reg program = map_of reg (after_last_slash program)"

text \<open>The path an argument stands for; \<open>None\<close> for another user's home, which is refused.\<close>

definition sandbox_path :: "path_env \<Rightarrow> string \<Rightarrow> string \<Rightarrow> string option" where
  "sandbox_path pe workingDir p =
     (if p = ''~'' then Some (pe_home pe)
      else if starts_with ''~/'' p then Some (path_join (pe_home pe) (drop 2 p))
      else if starts_with ''~'' p then None
      else Some (if starts_with ''/'' p then p else path_resolve workingDir p))"

text \<open>\<open>every\<close> over the path arguments, with the paths collected so far.\<close>

fun check_paths :: "path_env \<Rightarrow> string \<Rightarrow> string \<Rightarrow> string list \<Rightarrow> bool \<times> string list" where
  "check_paths pe workingDir root [] = (True, [])"
| "check_paths pe workingDir root (p # ps) =
     (case sandbox_path pe workingDir p of
        None \<Rightarrow> (False, [])
      | Some resolved \<Rightarrow>
          if isPathWithinRoot pe resolved root
          then (case check_paths pe workingDir root ps of (ok, rest) \<Rightarrow> (ok, resolved # rest))
          else (False, [resolved]))"

definition check_segment :: "path_env \<Rightarrow> registry \<Rightarrow> string \<Rightarrow> string \<Rightarrow> bool \<Rightarrow> CommandSegment \<Rightarrow> bool \<times> string list" where
  "check_segment pe reg workingDir root isContainerized seg =
     (case lookupSpec reg (sg_program seg) of
        None \<Rightarrow> (False, [])
      | Some spec \<Rightarrow>
          if \<not> sp_sandboxAutoApprove spec then (False, [])
          else if isContainerized then (True, [])
          else check_paths pe workingDir root (pa_pathArgs (parseArgs (sg_args seg) (spec_schema spec))))"

fun check_segments ::
  "path_env \<Rightarrow> registry \<Rightarrow> string \<Rightarrow> string \<Rightarrow> bool \<Rightarrow> CommandSegment list \<Rightarrow> bool \<times> string list" where
  "check_segments pe reg workingDir root isContainerized [] = (True, [])"
| "check_segments pe reg workingDir root isContainerized (seg # segs) =
     (case check_segment pe reg workingDir root isContainerized seg of
        (False, ps) \<Rightarrow> (False, ps)
      | (True, ps) \<Rightarrow>
          (case check_segments pe reg workingDir root isContainerized segs of (ok, qs) \<Rightarrow> (ok, ps @ qs)))"

definition computeSandboxAutoApprove ::
  "path_env \<Rightarrow> registry \<Rightarrow> ParsedCommand \<Rightarrow> string \<Rightarrow> string \<Rightarrow> bool \<Rightarrow> bool \<times> string list" where
  "computeSandboxAutoApprove pe reg parsed workingDir root isContainerized =
     (if pc_segments parsed = [] then (False, [])
      else if pc_hasOpaqueConstructs parsed then (False, [])
      else if pc_dangerousPatterns parsed \<noteq> [] then (False, [])
      else check_segments pe reg workingDir root isContainerized (pc_segments parsed))"

section \<open>Paths a command touches\<close>

definition MAX_WRAPPER_DEPTH :: nat where
  "MAX_WRAPPER_DEPTH = 10"

fun unwrap :: "nat \<Rightarrow> registry \<Rightarrow> string \<Rightarrow> string list \<Rightarrow> string \<times> string list" where
  "unwrap 0 reg program args = (program, args)"
| "unwrap (Suc n) reg program args =
     (case lookupSpec reg program of
        None \<Rightarrow> (program, args)
      | Some spec \<Rightarrow>
          if sp_isWrapper spec \<and> \<not> nonExecMode spec args
          then (case wrapped_loop program (program \<in> set WRAPPER_SKIP_FIRST_POSITIONAL) args of
                  None \<Rightarrow> (program, args)
                | Some (p, as) \<Rightarrow> unwrap n reg p as)
          else (program, args))"

definition expand_path :: "path_env \<Rightarrow> string \<Rightarrow> string \<Rightarrow> string" where
  "expand_path pe cwd p =
     (if p = ''~'' then pe_home pe
      else if starts_with ''~/'' p then path_join (pe_home pe) (drop 2 p)
      else path_resolve cwd p)"

record track_state =
  tk_isComplexSyntax :: bool
  tk_hasFilesystemOp :: bool
  tk_fsPathArgs :: "string list"
  tk_trackedCwd :: string

definition track_fs :: "path_env \<Rightarrow> CommandRiskSpec \<Rightarrow> string list \<Rightarrow> track_state \<Rightarrow> track_state" where
  "track_fs pe spec args st =
     (let paths = pa_pathArgs (parseArgs args (spec_schema spec))
      in st\<lparr>tk_hasFilesystemOp := True,
            tk_fsPathArgs :=
              (if paths = [] then set_add (tk_fsPathArgs st) (tk_trackedCwd st)
               else foldl set_add (tk_fsPathArgs st) (map (expand_path pe (tk_trackedCwd st)) paths))\<rparr>)"

definition track_cd :: "path_env \<Rightarrow> string \<Rightarrow> string list \<Rightarrow> string \<Rightarrow> string" where
  "track_cd pe program args cwd =
     (if program = ''cd''
      then (case filter (\<lambda>a. \<not> starts_with ''-'' a) args of
              [target] \<Rightarrow> if target = ''-'' then cwd else expand_path pe cwd target
            | _ \<Rightarrow> cwd)
      else cwd)"

definition track_segment :: "path_env \<Rightarrow> registry \<Rightarrow> track_state \<Rightarrow> CommandSegment \<Rightarrow> track_state" where
  "track_segment pe reg st seg =
     (case unwrap MAX_WRAPPER_DEPTH reg (sg_program seg) (sg_args seg) of
        (program, args) \<Rightarrow>
          let st1 = (case lookupSpec reg program of
                       None \<Rightarrow> st
                     | Some spec \<Rightarrow>
                         let s1 = (if sp_complexSyntax spec then st\<lparr>tk_isComplexSyntax := True\<rparr> else st)
                         in if sp_filesystemOp spec then track_fs pe spec args s1 else s1)
          in st1\<lparr>tk_trackedCwd := track_cd pe program args (tk_trackedCwd st1)\<rparr>)"

definition track_command :: "path_env \<Rightarrow> registry \<Rightarrow> ParsedCommand \<Rightarrow> string \<Rightarrow> track_state" where
  "track_command pe reg parsed workingDir =
     foldl (track_segment pe reg)
       \<lparr>tk_isComplexSyntax = False, tk_hasFilesystemOp = False, tk_fsPathArgs = [], tk_trackedCwd = workingDir\<rparr>
       (pc_segments parsed)"

section \<open>The directory ladder\<close>

record DirectoryScopeOption =
  ds_scope :: string
  ds_label :: string

definition isWithin :: "string \<Rightarrow> string \<Rightarrow> bool" where
  "isWithin candidate root =
     (candidate = root \<or> starts_with (if ends_with ''/'' root then root else root @ ''/'') candidate)"

definition PROJECT_MARKERS :: "string list" where
  "PROJECT_MARKERS = [''.git'', ''package.json'', ''Cargo.toml'', ''go.mod'', ''pyproject.toml'', ''Makefile'']"

function project_walk :: "path_env \<Rightarrow> string option \<Rightarrow> string \<Rightarrow> string option" where
  "project_walk pe stopAt current =
     (if list_ex (\<lambda>m. pe_exists pe (current @ ''/'' @ m)) PROJECT_MARKERS then Some current
      else if current \<noteq> [] \<and> stopAt = Some current then None
      else if dirname current = current then None
      else project_walk pe stopAt (dirname current))"
  by pat_completeness auto
termination
  by (relation "measure (\<lambda>(pe, stopAt, current). path_rank current)") (auto intro: path_rank_dirname)

declare project_walk.simps [simp del]

definition findProjectBoundary :: "path_env \<Rightarrow> string \<Rightarrow> string option \<Rightarrow> string option" where
  "findProjectBoundary pe startDir stopAt = (if startDir = [] then None else project_walk pe stopAt startDir)"

definition resolvePath :: "path_env \<Rightarrow> string \<Rightarrow> string \<Rightarrow> string" where
  "resolvePath pe path workingDir =
     (if path = ''~'' then pe_home pe
      else if starts_with ''~/'' path then path_resolve (pe_home pe) (drop 2 path)
      else path_resolve workingDir path)"

fun common_prefix :: "string list list \<Rightarrow> string list \<Rightarrow> string list" where
  "common_prefix others [] = []"
| "common_prefix others (w # ws) =
     (if list_all (\<lambda>s. s \<noteq> [] \<and> hd s = w) others then w # common_prefix (map tl others) ws else [])"

definition commonAncestor :: "path_env \<Rightarrow> string list \<Rightarrow> string" where
  "commonAncestor pe paths =
     (case set_of paths of
        [only] \<Rightarrow> if pe_isDirectory pe only then only else dirname only
      | unique \<Rightarrow>
          let splits = map split_slash unique;
              common = (case splits of [] \<Rightarrow> [] | s # ss \<Rightarrow> common_prefix ss s)
          in if common = [] \<or> common = [[]] then ''/''
             else (let joined = join_strings ''/'' common in if joined = [] then ''/'' else joined))"

definition push_scope :: "DirectoryScopeOption list \<Rightarrow> string \<times> string \<Rightarrow> DirectoryScopeOption list" where
  "push_scope opts sl =
     (if fst sl \<in> ds_scope ` set opts then opts else opts @ [\<lparr>ds_scope = fst sl, ds_label = snd sl\<rparr>])"

definition directory_option :: "string \<Rightarrow> string \<times> string" where
  "directory_option dir = (dir @ ''/*'', ''In '' @ basename dir @ ''/'')"

definition inside_workspace :: "string \<Rightarrow> string option \<Rightarrow> bool" where
  "inside_workspace ancestor root = (case root of None \<Rightarrow> True | Some r \<Rightarrow> isWithin ancestor r)"

definition exact_rung :: "path_env \<Rightarrow> string \<Rightarrow> string option \<Rightarrow> (string \<times> string) list" where
  "exact_rung pe ancestor root =
     (if ancestor = ''/'' \<or> ancestor = pe_home pe \<or> isWithin (pe_home pe) ancestor \<or> \<not> inside_workspace ancestor root
      then [] else [directory_option ancestor])"

definition boundary_rung :: "path_env \<Rightarrow> string \<Rightarrow> string option \<Rightarrow> (string \<times> string) list" where
  "boundary_rung pe ancestor root =
     (if inside_workspace ancestor root
      then (case findProjectBoundary pe ancestor root of
              None \<Rightarrow> []
            | Some b \<Rightarrow> if b \<noteq> ancestor \<and> Some b \<noteq> root then [directory_option b] else [])
      else [])"

definition generateDirectoryScopeOptions ::
  "path_env \<Rightarrow> string list \<Rightarrow> string \<Rightarrow> string option \<Rightarrow> DirectoryScopeOption list" where
  "generateDirectoryScopeOptions pe pathArgs workingDir workspaceRoot =
     (let ancestor = (if pathArgs = [] then workingDir
                      else commonAncestor pe (map (\<lambda>p. resolvePath pe p workingDir) pathArgs))
      in foldl push_scope []
           (exact_rung pe ancestor workspaceRoot @ boundary_rung pe ancestor workspaceRoot @
            [(''everywhere'', ''Everywhere'')]))"

section \<open>The request\<close>

record ClassifyRiskParams =
  cp_tool :: string
  cp_command :: string
  cp_workingDir :: string
  cp_workspaceRoot :: "string option"
  cp_isContainerized :: bool
  cp_proxied :: bool
  cp_credentialRefCount :: nat

record ClassifyRiskResponse =
  resp_risk :: risk
  resp_reason :: string
  resp_scopeOptions :: "ScopeOption list"
  resp_allowlistOptions :: "AllowlistOption list"
  resp_matchType :: matchType
  resp_isComplexSyntax :: bool
  resp_sandboxAutoApprove :: bool
  resp_sandboxPathArgs :: "string list option"
  resp_directoryScopeOptions :: "DirectoryScopeOption list option"
  resp_resolvedPaths :: "string list option"

definition final_risk :: "ClassifyRiskParams \<Rightarrow> RiskAssessment \<Rightarrow> risk \<times> string" where
  "final_risk ps a =
     (if cp_tool ps = ''bash'' \<and> cp_proxied ps
      then
        if 0 < cp_credentialRefCount ps
        then (High, ''Proxied credential session - shell has access to injected credentials'')
        else if ra_riskLevel a = High then (Medium, ra_reason a)
        else (ra_riskLevel a, ra_reason a)
      else (ra_riskLevel a, ra_reason a))"

definition sandbox_result ::
  "path_env \<Rightarrow> (string \<Rightarrow> ParsedCommand) \<Rightarrow> registry \<Rightarrow> ClassifyRiskParams \<Rightarrow> bool \<times> string list option" where
  "sandbox_result pe parse reg ps =
     (if cp_tool ps = ''bash''
      then
        let root = (case cp_workspaceRoot ps of None \<Rightarrow> cp_workingDir ps | Some r \<Rightarrow> r)
        in case computeSandboxAutoApprove pe reg (parse (cp_command ps)) (cp_workingDir ps) root (cp_isContainerized ps) of
             (approved, paths) \<Rightarrow>
               (approved, if \<not> cp_isContainerized ps \<and> paths \<noteq> [] then Some paths else None)
      else (False, None))"

definition handle_bash ::
  "path_env \<Rightarrow> (string \<Rightarrow> ParsedCommand) \<Rightarrow> classifier_env \<Rightarrow> ClassifyRiskParams \<Rightarrow> ClassifyRiskResponse" where
  "handle_bash pe parse env ps =
     (let assessment = classify parse env
            \<lparr>bi_command = cp_command ps, bi_toolName = cp_tool ps, bi_workingDir = Some (cp_workingDir ps)\<rparr>;
          sandbox = sandbox_result pe parse (ce_registry env) ps;
          track = track_command pe (ce_registry env) (parse (cp_command ps)) (cp_workingDir ps)
      in \<lparr>resp_risk = fst (final_risk ps assessment),
          resp_reason = snd (final_risk ps assessment),
          resp_scopeOptions = ra_scopeOptions assessment,
          resp_allowlistOptions = ra_allowlistOptions assessment,
          resp_matchType = ra_matchType assessment,
          resp_isComplexSyntax = tk_isComplexSyntax track,
          resp_sandboxAutoApprove = fst sandbox,
          resp_sandboxPathArgs = snd sandbox,
          resp_directoryScopeOptions =
            (if tk_hasFilesystemOp track
             then Some (generateDirectoryScopeOptions pe (tk_fsPathArgs track) (cp_workingDir ps) (cp_workspaceRoot ps))
             else None),
          resp_resolvedPaths =
            (if tk_hasFilesystemOp track \<and> tk_fsPathArgs track \<noteq> [] then Some (tk_fsPathArgs track) else None)\<rparr>)"

section \<open>Sandbox lemmas\<close>

lemma check_paths_True:
  "check_paths pe wd root ps = (True, qs) \<Longrightarrow>
   list_all2 (\<lambda>p q. sandbox_path pe wd p = Some q \<and> isPathWithinRoot pe q root) ps qs"
  by (induction ps arbitrary: qs) (auto split: option.splits if_splits prod.splits)

lemma check_segments_True:
  "check_segments pe reg wd root ctr segs = (True, qs) \<Longrightarrow>
   \<forall>seg \<in> set segs. \<exists>ps. check_segment pe reg wd root ctr seg = (True, ps) \<and> set ps \<subseteq> set qs"
proof (induction segs arbitrary: qs)
  case (Cons seg segs)
  from Cons.prems obtain ps qs' where "check_segment pe reg wd root ctr seg = (True, ps)"
      "check_segments pe reg wd root ctr segs = (True, qs')" "qs = ps @ qs'"
    by (auto split: prod.splits bool.splits)
  with Cons.IH show ?case by fastforce
qed simp

lemma check_segment_True:
  assumes "check_segment pe reg wd root ctr seg = (True, ps)"
  shows "\<exists>spec. lookupSpec reg (sg_program seg) = Some spec \<and> sp_sandboxAutoApprove spec
    \<and> (\<not> ctr \<longrightarrow> list_all2 (\<lambda>p q. sandbox_path pe wd p = Some q \<and> isPathWithinRoot pe q root)
        (pa_pathArgs (parseArgs (sg_args seg) (spec_schema spec))) ps)"
  using assms by (auto simp: check_segment_def dest: check_paths_True split: option.splits if_splits)

lemma check_segments_container: "check_segments pe reg wd root True segs = (True, qs) \<Longrightarrow> qs = []"
  by (induction segs arbitrary: qs) (auto simp: check_segment_def split: prod.splits bool.splits option.splits if_splits)

section \<open>Directory lemmas\<close>

lemma common_prefix_prefix:
  "(\<exists>rest. s = common_prefix others s @ rest) \<and> (\<forall>x \<in> set others. \<exists>rest. x = common_prefix others s @ rest)"
proof (induction others s rule: common_prefix.induct)
  case (2 others w ws)
  show ?case
  proof (cases "list_all (\<lambda>s. s \<noteq> [] \<and> hd s = w) others")
    case True
    have "\<exists>rest. x = (w # common_prefix (map tl others) ws) @ rest" if "x \<in> set others" for x
    proof -
      from True that have x: "x = w # tl x" by (auto simp: list_all_iff)
      from 2 [OF True] that obtain rest where "tl x = common_prefix (map tl others) ws @ rest" by auto
      with x show ?thesis by (metis append_Cons)
    qed
    with 2 [OF True] True show ?thesis by auto
  qed auto
qed auto

lemma isWithin_join:
  assumes "split_slash p = cs @ rest" and "cs \<noteq> []" and "join_strings ''/'' cs \<noteq> []"
  shows "isWithin p (join_strings ''/'' cs)"
proof (cases "rest = []")
  case True
  with assms(1) join_split_slash [of p] show ?thesis by (simp add: isWithin_def)
next
  case False
  have p: "p = join_strings ''/'' cs @ ''/'' @ join_strings ''/'' rest"
    using join_append [OF assms(2) False, of "''/''"] join_split_slash [of p] assms(1) by simp
  show ?thesis
  proof (cases "ends_with ''/'' (join_strings ''/'' cs)")
    case True
    then show ?thesis unfolding isWithin_def by (subst p) (simp add: starts_with_iff)
  next
    case False
    then show ?thesis unfolding isWithin_def by (subst p) (simp add: starts_with_iff)
  qed
qed

lemma isWithin_slash: "starts_with ''/'' p \<Longrightarrow> isWithin p ''/''"
  by (simp add: isWithin_def ends_with_def starts_with_def)

lemma isWithin_dirname:
  assumes "starts_with ''/'' p"
  shows "isWithin p (dirname p)" and "starts_with ''/'' (dirname p)"
proof -
  let ?d = "rev (drop 1 (dropWhile (\<lambda>c. c \<noteq> CHR ''/'') (rev p)))"
  have mem: "CHR ''/'' \<in> set p" using assms by (auto simp: starts_with_iff)
  then obtain x xs where x: "dropWhile (\<lambda>c. c \<noteq> CHR ''/'') (rev p) = x # xs"
    by (cases "dropWhile (\<lambda>c. c \<noteq> CHR ''/'') (rev p)") auto
  then have slash: "x = CHR ''/''" by (metis (mono_tags) hd_dropWhile list.sel(1) list.distinct(1))
  have "rev p = takeWhile (\<lambda>c. c \<noteq> CHR ''/'') (rev p) @ x # xs" using x by (metis takeWhile_dropWhile_id)
  then have p: "p = rev xs @ ''/'' @ rev (takeWhile (\<lambda>c. c \<noteq> CHR ''/'') (rev p))"
    using slash by (metis append.assoc append_Cons append_Nil rev_append rev_rev_ident rev.simps(2))
  have d: "dirname p = (if xs = [] then ''/'' else rev xs)" using x mem by (simp add: dirname_def Let_def)
  show "isWithin p (dirname p)"
  proof (cases "xs = []")
    case True
    with d assms show ?thesis by (simp add: isWithin_slash)
  next
    case False
    with d p show ?thesis
      unfolding isWithin_def by (cases "ends_with ''/'' (rev xs)") (auto simp: starts_with_iff)
  qed
  show "starts_with ''/'' (dirname p)"
  proof (cases "xs = []")
    case False
    from assms obtain t where "p = CHR ''/'' # t" by (auto simp: starts_with_iff)
    with p False have "hd (rev xs) = CHR ''/''" by (cases "rev xs") auto
    with d False show ?thesis by (cases "rev xs") (auto simp: starts_with_def)
  qed (simp add: d)
qed

lemma isWithin_trans: "isWithin a b \<Longrightarrow> isWithin b c \<Longrightarrow> isWithin a c"
  unfolding isWithin_def by (auto simp: starts_with_iff split: if_splits)

lemma isWithin_refl [simp]: "isWithin p p"
  by (simp add: isWithin_def)

lemma project_walk_above:
  "starts_with ''/'' current \<Longrightarrow> project_walk pe stopAt current = Some b \<Longrightarrow> isWithin current b"
proof (induction pe stopAt current rule: project_walk.induct)
  case (1 pe stopAt current)
  have "current \<noteq> []" using 1(2) by (auto simp: starts_with_def)
  with 1(3) show ?case
    by (subst (asm) project_walk.simps)
       (auto split: if_splits intro: isWithin_trans [OF isWithin_dirname(1) [OF 1(2)] 1(1)] isWithin_dirname(2) [OF 1(2)])
qed

lemma commonAncestor_contains:
  assumes "p \<in> set paths" and "\<forall>p \<in> set paths. starts_with ''/'' p"
  shows "isWithin p (commonAncestor pe paths)"
proof (cases "set_of paths" rule: remdups_adj.cases)
  case 1
  with assms(1) show ?thesis by (metis empty_iff empty_set set_set_of)
next
  case (2 only)
  with assms(1) have "p = only" by (metis empty_iff empty_set insert_iff list.simps(15) set_set_of)
  with 2 assms show ?thesis
    by (auto simp: commonAncestor_def isWithin_dirname)
next
  case (3 a b ps)
  let ?common = "common_prefix (map split_slash (b # ps)) (split_slash a)"
  have "p \<in> set (a # b # ps)" using assms(1) 3 by (metis set_set_of)
  then have "\<exists>rest. split_slash p = ?common @ rest"
    using common_prefix_prefix [of "split_slash a" "map split_slash (b # ps)"] by auto
  then obtain rest where rest: "split_slash p = ?common @ rest" ..
  show ?thesis
  proof (cases "?common = [] \<or> ?common = [[]] \<or> join_strings ''/'' ?common = []")
    case True
    with 3 have "commonAncestor pe paths = ''/''" by (auto simp: commonAncestor_def Let_def)
    with assms show ?thesis by (simp add: isWithin_slash)
  next
    case False
    with 3 have "commonAncestor pe paths = join_strings ''/'' ?common" by (auto simp: commonAncestor_def Let_def)
    with isWithin_join [OF rest] False show ?thesis by simp
  qed
qed

lemma resolvePath_absolute: "starts_with ''/'' (pe_home pe) \<Longrightarrow> starts_with ''/'' (resolvePath pe p wd)"
  by (simp add: resolvePath_def path_resolve_absolute)

lemma foldl_push_scope:
  "distinct (map ds_scope opts) \<Longrightarrow>
   distinct (map ds_scope (foldl push_scope opts sls))
   \<and> ds_scope ` set (foldl push_scope opts sls) = ds_scope ` set opts \<union> fst ` set sls"
proof (induction sls arbitrary: opts)
  case (Cons sl sls)
  have "distinct (map ds_scope (push_scope opts sl))" using Cons.prems by (auto simp: push_scope_def)
  with Cons.IH show ?case by (auto simp: push_scope_def)
qed simp

lemma commonAncestor_absolute:
  assumes "paths \<noteq> []" and "\<forall>p \<in> set paths. starts_with ''/'' p"
  shows "starts_with ''/'' (commonAncestor pe paths)"
proof (cases "set_of paths" rule: remdups_adj.cases)
  case (2 only)
  then have "only \<in> set paths" by (metis list.set_intros(1) set_set_of)
  with 2 assms show ?thesis by (auto simp: commonAncestor_def isWithin_dirname)
next
  case (3 a b ps)
  let ?common = "common_prefix (map split_slash (b # ps)) (split_slash a)"
  obtain rest where rest: "split_slash a = ?common @ rest"
    using common_prefix_prefix [of "split_slash a" "map split_slash (b # ps)"] by auto
  have "a \<in> set paths" using 3 by (metis list.set_intros(1) set_set_of)
  then obtain t where a: "a = CHR ''/'' # t" using assms(2) by (auto simp: starts_with_iff)
  show ?thesis
  proof (cases "?common = [] \<or> ?common = [[]] \<or> join_strings ''/'' ?common = []")
    case True
    with 3 show ?thesis by (auto simp: commonAncestor_def Let_def)
  next
    case False
    with 3 have c: "commonAncestor pe paths = join_strings ''/'' ?common" by (auto simp: commonAncestor_def Let_def)
    have "\<exists>u. a = join_strings ''/'' ?common @ u"
    proof (cases "rest = []")
      case True
      with rest join_split_slash [of a] show ?thesis by simp
    next
      case r: False
      with False rest join_append [of ?common rest "''/''"] join_split_slash [of a] show ?thesis by metis
    qed
    with a False have "hd (join_strings ''/'' ?common) = CHR ''/''" by (metis hd_append2 list.sel(1))
    with False c show ?thesis by (cases "join_strings ''/'' ?common") (auto simp: starts_with_def)
  qed
qed (use assms in simp)

lemma exact_rung_dir: "sl \<in> set (exact_rung pe a root) \<Longrightarrow> sl = directory_option a"
  by (simp add: exact_rung_def split: if_splits)

lemma boundary_rung_dir:
  assumes "sl \<in> set (boundary_rung pe a root)"
  shows "findProjectBoundary pe a root \<noteq> None \<and> sl = directory_option (the (findProjectBoundary pe a root))"
proof (cases "findProjectBoundary pe a root")
  case None
  with assms show ?thesis by (cases "inside_workspace a root") (simp_all add: boundary_rung_def)
next
  case (Some b)
  with assms show ?thesis
    by (cases "inside_workspace a root"; cases "b \<noteq> a \<and> Some b \<noteq> root") (simp_all add: boundary_rung_def)
qed

section \<open>Properties\<close>

lemma ends_withE:
  assumes "ends_with p s"
  obtains t where "s = t @ p"
proof -
  have "rev s = rev p @ drop (length p) (rev s)"
    using assms unfolding ends_with_def starts_with_def by (metis append_take_drop_id length_rev)
  then have "s = rev (drop (length p) (rev s)) @ p" by (metis rev_append rev_rev_ident)
  then show thesis by (rule that)
qed

lemma split_path_of:
  assumes "path_segments base p \<noteq> []"
  shows "split_slash (path_of (path_segments base p)) = [] # path_segments base p"
  using split_join_slash [OF assms path_segments_no_slash] by (simp add: path_of_def)

lemma split_below:
  assumes "rs \<noteq> []" "\<And>w. w \<in> set rs \<Longrightarrow> CHR ''/'' \<notin> set w"
  shows "split_slash (path_of rs @ CHR ''/'' # t) = [] # rs @ split_slash t"
proof -
  have "split_slash (join_strings ''/'' ws @ CHR ''/'' # t) = ws @ split_slash t"
    if "ws \<noteq> []" "\<And>w. w \<in> set ws \<Longrightarrow> CHR ''/'' \<notin> set w" for ws
    using that
  proof (induction ws)
    case (Cons w ws)
    then show ?case by (cases "ws = []") (auto simp: join_Cons split_slash_append)
  qed simp
  from this [OF assms] show ?thesis by (simp add: path_of_def)
qed

text \<open>Textual containment is containment of the segments when the root is in normal form.\<close>

lemma isPathWithinRoot_segments:
  assumes root: "root = path_resolve (pe_cwd pe) root" and w: "isPathWithinRoot pe q root"
  shows "\<exists>rest. path_segments (pe_cwd pe) q = path_segments (pe_cwd pe) root @ rest"
proof -
  let ?s = "path_segments (pe_cwd pe) q" and ?r = "path_segments (pe_cwd pe) root"
  have r: "root = path_of ?r" using root by (simp add: path_resolve_def)
  show ?thesis
  proof (cases "?r = []")
    case False
    have plain: "\<not> ends_with ''/'' root"
    proof
      assume "ends_with ''/'' root"
      then obtain t where "root = t @ ''/''" by (rule ends_withE)
      then have "split_slash root = split_slash (t @ ''/'')" by simp
      moreover have "split_slash (u @ ''/'') = split_slash u @ [[]]" for u
        by (induction u) (auto split: list.splits)
      moreover have "split_slash root = [] # ?r"
        using split_path_of [OF False] r by simp
      ultimately have "last ([] # ?r) = []" by (metis last_snoc)
      with False have "[] \<in> set ?r" by (metis last.simps last_in_set)
      then show False using path_segments_clean by blast
    qed
    from w consider "path_of ?s = root" | "starts_with (root @ ''/'') (path_of ?s)"
      using plain by (auto simp: isPathWithinRoot_def path_resolve_def strip_trailing_slash_def Let_def split: if_splits)
    then show ?thesis
    proof cases
      case 1
      then have e: "split_slash (path_of ?s) = [] # ?r"
        using r split_path_of [OF False] by simp
      have "?s \<noteq> []"
      proof
        assume "?s = []"
        with e have "?r = [[]]" by (simp add: path_of_def)
        then have "[] \<in> set ?r" by simp
        then show False using path_segments_clean by blast
      qed
      from split_path_of [OF this] e show ?thesis by simp
    next
      case 2
      then obtain t where "path_of ?s = (root @ ''/'') @ t" by (auto simp: starts_with_iff)
      then have t: "path_of ?s = path_of ?r @ CHR ''/'' # t" using r by simp
      have e: "split_slash (path_of ?s) = [] # ?r @ split_slash t"
        unfolding t by (rule split_below [OF False path_segments_no_slash])
      have "?s \<noteq> []"
      proof
        assume "?s = []"
        then have "split_slash (path_of ?s) = [[], []]" by (simp add: path_of_def)
        with e False have "?r = [[]] \<or> ?r = []" by (cases ?r) auto
        with False have "[] \<in> set ?r" by auto
        then show False using path_segments_clean by blast
      qed
      from split_path_of [OF this] e have "path_segments (pe_cwd pe) q = ?r @ split_slash t" by simp
      then show ?thesis by blast
    qed
  qed simp
qed

text \<open>C36: what the gateway has checked when it approves a bash command for the sandbox. The command has segments, no
  dangerous pattern and no opaque construct, and every program is on the list. Outside a container, where the workspace
  root is in normal form, moreover every path argument of every segment, taken as the parser gives the token and resolved
  lexically, without interpreting quotes or variables, is a path whose segments extend those of the root with no parent
  reference left, and is among the paths handed on for the check of symbolic links. In a container no path is looked at,
  and none is handed on.\<close>

theorem sandbox_approval_confined:
  assumes "computeSandboxAutoApprove pe reg parsed wd root containerized = (True, paths)"
    and root: "root = path_resolve (pe_cwd pe) root"
  shows "pc_segments parsed \<noteq> [] \<and> \<not> pc_hasOpaqueConstructs parsed \<and> pc_dangerousPatterns parsed = []
    \<and> (\<forall>seg \<in> set (pc_segments parsed). \<exists>spec. lookupSpec reg (sg_program seg) = Some spec \<and> sp_sandboxAutoApprove spec
        \<and> (\<not> containerized \<longrightarrow> (\<forall>p \<in> set (pa_pathArgs (parseArgs (sg_args seg) (spec_schema spec))). \<exists>q \<in> set paths.
             sandbox_path pe wd p = Some q \<and> ''..'' \<notin> set (path_segments (pe_cwd pe) q) \<and>
             (\<exists>rest. path_segments (pe_cwd pe) q = path_segments (pe_cwd pe) root @ rest))))
    \<and> (containerized \<longrightarrow> paths = [])"
proof -
  from assms(1) have c: "check_segments pe reg wd root containerized (pc_segments parsed) = (True, paths)"
    and pre: "pc_segments parsed \<noteq> []" "\<not> pc_hasOpaqueConstructs parsed" "pc_dangerousPatterns parsed = []"
    by (auto simp: computeSandboxAutoApprove_def split: if_splits)
  have "\<exists>spec. lookupSpec reg (sg_program seg) = Some spec \<and> sp_sandboxAutoApprove spec
        \<and> (\<not> containerized \<longrightarrow> (\<forall>p \<in> set (pa_pathArgs (parseArgs (sg_args seg) (spec_schema spec))). \<exists>q \<in> set paths.
             sandbox_path pe wd p = Some q \<and> ''..'' \<notin> set (path_segments (pe_cwd pe) q) \<and>
             (\<exists>rest. path_segments (pe_cwd pe) q = path_segments (pe_cwd pe) root @ rest)))"
    if seg: "seg \<in> set (pc_segments parsed)" for seg
  proof -
    obtain ps where ps: "check_segment pe reg wd root containerized seg = (True, ps)" "set ps \<subseteq> set paths"
      using check_segments_True [OF c] seg by blast
    from check_segment_True [OF ps(1)] obtain spec where
      spec: "lookupSpec reg (sg_program seg) = Some spec" "sp_sandboxAutoApprove spec"
      and all: "\<not> containerized \<Longrightarrow> list_all2 (\<lambda>p q. sandbox_path pe wd p = Some q \<and> isPathWithinRoot pe q root)
        (pa_pathArgs (parseArgs (sg_args seg) (spec_schema spec))) ps" by blast
    have "\<exists>q \<in> set paths. sandbox_path pe wd p = Some q \<and> ''..'' \<notin> set (path_segments (pe_cwd pe) q) \<and>
        (\<exists>rest. path_segments (pe_cwd pe) q = path_segments (pe_cwd pe) root @ rest)"
      if "\<not> containerized" "p \<in> set (pa_pathArgs (parseArgs (sg_args seg) (spec_schema spec)))" for p
    proof -
      from all [OF that(1)] that(2) obtain q where q: "q \<in> set ps" "sandbox_path pe wd p = Some q" "isPathWithinRoot pe q root"
        unfolding list_all2_conv_all_nth in_set_conv_nth by metis
      have "''..'' \<notin> set (path_segments (pe_cwd pe) q)" using path_segments_clean [of "''..''"] by blast
      with q ps(2) isPathWithinRoot_segments [OF root q(3)] show ?thesis by blast
    qed
    with spec show ?thesis by blast
  qed
  moreover have "containerized \<longrightarrow> paths = []" using c by (cases containerized) (auto dest: check_segments_container)
  ultimately show ?thesis using pre by blast
qed

text \<open>the directory ladder offers no scope twice and always ends in \<open>everywhere\<close>, and every other rung is
  the scope of a directory that contains all the paths the command targets.\<close>

theorem directory_ladder_contains_targets:
  assumes "starts_with ''/'' (pe_home pe)" and "pathArgs \<noteq> []"
  shows "let opts = generateDirectoryScopeOptions pe pathArgs wd root
    in distinct (map ds_scope opts) \<and> ''everywhere'' \<in> ds_scope ` set opts
      \<and> (\<forall>opt \<in> set opts. ds_scope opt = ''everywhere'' \<or>
           (\<exists>dir. ds_scope opt = dir @ ''/*'' \<and> (\<forall>p \<in> set pathArgs. isWithin (resolvePath pe p wd) dir)))"
proof -
  let ?targets = "map (\<lambda>p. resolvePath pe p wd) pathArgs"
  let ?a = "commonAncestor pe ?targets"
  have abs: "\<forall>p \<in> set ?targets. starts_with ''/'' p" using resolvePath_absolute [OF assms(1)] by auto
  have inside: "\<forall>p \<in> set pathArgs. isWithin (resolvePath pe p wd) ?a"
    using commonAncestor_contains [OF _ abs] by auto
  have "starts_with ''/'' ?a" using commonAncestor_absolute [OF _ abs] assms(2) by simp
  then have above: "isWithin ?a b" if "findProjectBoundary pe ?a root = Some b" for b
    using that project_walk_above by (auto simp: findProjectBoundary_def split: if_splits)
  let ?sls = "exact_rung pe ?a root @ boundary_rung pe ?a root"
  have g: "generateDirectoryScopeOptions pe pathArgs wd root = foldl push_scope [] (?sls @ [(''everywhere'', ''Everywhere'')])"
    using assms(2) by (simp add: generateDirectoryScopeOptions_def Let_def)
  have sls: "\<exists>dir. sl = directory_option dir \<and> isWithin ?a dir" if "sl \<in> set ?sls" for sl
    using that exact_rung_dir boundary_rung_dir above isWithin_refl [of ?a] by (metis Un_iff option.collapse set_append)
  have f: "distinct (map ds_scope (foldl push_scope [] (?sls @ [(''everywhere'', ''Everywhere'')])))"
      "ds_scope ` set (foldl push_scope [] (?sls @ [(''everywhere'', ''Everywhere'')])) = fst ` set ?sls \<union> {''everywhere''}"
    using foldl_push_scope [of "[]" "?sls @ [(''everywhere'', ''Everywhere'')]"] by auto
  have "ds_scope opt = ''everywhere'' \<or> (\<exists>dir. ds_scope opt = dir @ ''/*'' \<and> (\<forall>p \<in> set pathArgs. isWithin (resolvePath pe p wd) dir))"
    if o: "opt \<in> set (foldl push_scope [] (?sls @ [(''everywhere'', ''Everywhere'')]))" for opt
  proof (cases "ds_scope opt = ''everywhere''")
    case False
    with o f(2) obtain sl where "sl \<in> set ?sls" "ds_scope opt = fst sl" by blast
    with sls [of sl] obtain dir where "ds_scope opt = dir @ ''/*''" "isWithin ?a dir"
      by (auto simp: directory_option_def)
    with inside isWithin_trans show ?thesis by blast
  qed simp
  then show ?thesis unfolding g Let_def using f by blast
qed

definition demo_paths :: path_env where
  "demo_paths = \<lparr>pe_home = ''/home/u'', pe_cwd = ''/ws'', pe_isDirectory = (\<lambda>p. False), pe_exists = (\<lambda>p. False)\<rparr>"

definition cat_registry :: registry where
  "cat_registry = [(''cat'', Spec Low None None False None False None True True (Some empty_schema))]"

definition cat_command :: "string \<Rightarrow> ParsedCommand" where
  "cat_command arg =
     \<lparr>pc_originalCommand = ''cat '' @ arg, pc_segments = [demo_segment (''cat '' @ arg) ''cat'' [arg]],
      pc_dangerousPatterns = [], pc_hasOpaqueConstructs = False\<rparr>"

lemma cat_path_arg: "\<not> starts_with ''-'' arg \<Longrightarrow> pa_pathArgs (parseArgs [arg] empty_schema) = [arg]"
  by (auto simp: parseArgs_def parsed_empty_def add_positional_def addIfPath_def is_path_positional_def
      empty_schema_def starts_with_def)

lemma cat_lookup: "lookupSpec cat_registry ''cat'' = Some (Spec Low None None False None False None True True (Some empty_schema))"
  by (simp add: lookupSpec_def cat_registry_def after_last_slash_def)

lemma cat_approve:
  "\<not> starts_with ''-'' arg \<Longrightarrow>
   computeSandboxAutoApprove demo_paths cat_registry (cat_command arg) ''/ws'' ''/ws'' False =
     check_paths demo_paths ''/ws'' ''/ws'' [arg]"
  by (auto simp: computeSandboxAutoApprove_def cat_command_def check_segment_def cat_lookup spec_schema_def cat_path_arg
      split: prod.splits bool.splits)

theorem sandbox_approval_confined_witness:
  "\<exists>rest. path_segments ''/ws'' ''/ws/a'' = path_segments ''/ws'' ''/ws'' @ rest"
proof -
  have c: "check_paths demo_paths ''/ws'' ''/ws'' [''b/../a''] = (True, [''/ws/a''])" by code_simp
  have "computeSandboxAutoApprove demo_paths cat_registry (cat_command ''b/../a'') ''/ws'' ''/ws'' False = (True, [''/ws/a''])"
    using cat_approve [of "''b/../a''"] c by (simp add: starts_with_def)
  moreover have "''/ws'' = path_resolve (pe_cwd demo_paths) ''/ws''" by code_simp
  ultimately show ?thesis
    using sandbox_approval_confined [where pe = demo_paths and reg = cat_registry and parsed = "cat_command ''b/../a''" and
      wd = "''/ws''" and root = "''/ws''" and containerized = False and paths = "[''/ws/a'']"]
    by (auto simp: cat_command_def cat_lookup spec_schema_def cat_path_arg starts_with_def demo_paths_def)
qed

theorem directory_ladder_contains_targets_witness:
  "''everywhere'' \<in> ds_scope ` set (generateDirectoryScopeOptions demo_paths [''/tmp/a'', ''/tmp/b''] ''/ws'' None)"
  using directory_ladder_contains_targets [of demo_paths "[''/tmp/a'', ''/tmp/b'']" "''/ws''" None]
  by (auto simp: demo_paths_def starts_with_def Let_def)

text \<open>an argument keeps its quotation marks, so a quoted absolute path is resolved as a relative one:
  the command that reads \<open>/etc/passwd\<close> is refused without quotes and approved for the sandbox with
  them. An argument that begins with a variable is taken for a path of the workspace in the same
  way.\<close>

theorem sandbox_quoted_path_approved:
  "fst (computeSandboxAutoApprove demo_paths cat_registry (cat_command ''/etc/passwd'') ''/ws'' ''/ws'' False) = False
   \<and> fst (computeSandboxAutoApprove demo_paths cat_registry (cat_command ([CHR 0x22] @ ''/etc/passwd'' @ [CHR 0x22])) ''/ws'' ''/ws'' False) = True
   \<and> fst (computeSandboxAutoApprove demo_paths cat_registry (cat_command ''$HOME/.ssh/id_rsa'') ''/ws'' ''/ws'' False) = True"
proof -
  have "fst (check_paths demo_paths ''/ws'' ''/ws'' [''/etc/passwd'']) = False" by code_simp
  moreover have "fst (check_paths demo_paths ''/ws'' ''/ws'' [[CHR 0x22] @ ''/etc/passwd'' @ [CHR 0x22]]) = True" by code_simp
  moreover have "fst (check_paths demo_paths ''/ws'' ''/ws'' [''$HOME/.ssh/id_rsa'']) = True" by code_simp
  ultimately show ?thesis
    using cat_approve [of "''/etc/passwd''"] cat_approve [of "[CHR 0x22] @ ''/etc/passwd'' @ [CHR 0x22]"]
      cat_approve [of "''$HOME/.ssh/id_rsa''"]
    by (simp add: starts_with_def)
qed

text \<open>a directory rung is built from the targets of the command but a rule's scope is compared with the
  working directory only: the rung offered for a file under \<open>/tmp\<close> from the directory \<open>/ws\<close> does not
  apply to the same command run again from there.\<close>

theorem target_scope_not_matched:
  "map ds_scope (generateDirectoryScopeOptions demo_paths [''/tmp/d/a''] ''/ws'' None) = [''/tmp/d/*'', ''everywhere'']
   \<and> \<not> isScopeMatch (Some ''/tmp/d/*'') (Some ''/ws'')"
proof
  show "map ds_scope (generateDirectoryScopeOptions demo_paths [''/tmp/d/a''] ''/ws'' None) = [''/tmp/d/*'', ''everywhere'']"
    by code_simp
  show "\<not> isScopeMatch (Some ''/tmp/d/*'') (Some ''/ws'')" by code_simp
qed

end
