(* ===== verification/Channel_Permissions.thy ===== *)
theory Channel_Permissions
  imports Prelude
begin

text \<open>
  The channel-permission matrix: its vocabulary \<^verbatim>\<open>packages/gateway-client/src/channel-permission-contract.ts\<close>
  (with the trust classes of \<^verbatim>\<open>trust-verdict-contract.ts\<close>), the store
  \<^verbatim>\<open>gateway/src/db/channel-permission-store.ts\<close> and its IPC handlers
  \<^verbatim>\<open>gateway/src/ipc/channel-permission-handlers.ts\<close>.

  \<^item> The enumerations of the contract are datatypes; the columns of the table are strings, read back
    by the contract's guards, so a row with a value outside the vocabulary is a row of the model.
  \<^item> The table is the list of its rows; the unique index over the five key columns is \<open>one_row_per_cell\<close>.
    The time of a write is an argument.
  \<^item> The laws of the store as a map from cells to rows are the locale \<open>cell_matrix\<close>, where the cascade
    is shown to pick the most specific cell.
\<close>

section \<open>Vocabulary\<close>

datatype RiskThreshold = TNone | TLow | TMedium | THigh

fun threshold_string :: "RiskThreshold \<Rightarrow> string" where
  "threshold_string TNone = ''none''"
| "threshold_string TLow = ''low''"
| "threshold_string TMedium = ''medium''"
| "threshold_string THigh = ''high''"

definition isRiskThreshold :: "string \<Rightarrow> RiskThreshold option" where
  "isRiskThreshold v =
     (if v = ''none'' then Some TNone else if v = ''low'' then Some TLow
      else if v = ''medium'' then Some TMedium else if v = ''high'' then Some THigh else None)"

datatype TrustClass = Guardian | TrustedContact | UnverifiedContact | UnknownContact

fun trust_string :: "TrustClass \<Rightarrow> string" where
  "trust_string Guardian = ''guardian''"
| "trust_string TrustedContact = ''trusted_contact''"
| "trust_string UnverifiedContact = ''unverified_contact''"
| "trust_string UnknownContact = ''unknown''"

definition isTrustClass :: "string \<Rightarrow> TrustClass option" where
  "isTrustClass v =
     (if v = ''guardian'' then Some Guardian else if v = ''trusted_contact'' then Some TrustedContact
      else if v = ''unverified_contact'' then Some UnverifiedContact
      else if v = ''unknown'' then Some UnknownContact else None)"

datatype ChannelConversationType = Dm | Private | Public

fun conversation_type_string :: "ChannelConversationType \<Rightarrow> string" where
  "conversation_type_string Dm = ''dm''"
| "conversation_type_string Private = ''private''"
| "conversation_type_string Public = ''public''"

definition isChannelConversationType :: "string \<Rightarrow> ChannelConversationType option" where
  "isChannelConversationType v =
     (if v = ''dm'' then Some Dm else if v = ''private'' then Some Private
      else if v = ''public'' then Some Public else None)"

datatype ChannelPermissionScope = ScWorkspace | ScAdapter | ScChannelType | ScChannel

fun CHANNEL_PERMISSION_SCOPE_RANK :: "ChannelPermissionScope \<Rightarrow> nat" where
  "CHANNEL_PERMISSION_SCOPE_RANK ScWorkspace = 0"
| "CHANNEL_PERMISSION_SCOPE_RANK ScAdapter = 1"
| "CHANNEL_PERMISSION_SCOPE_RANK ScChannelType = 2"
| "CHANNEL_PERMISSION_SCOPE_RANK ScChannel = 3"

datatype ChannelPermissionSelector =
    SelWorkspace
  | SelAdapter string
  | SelChannelType string ChannelConversationType
  | SelChannel string string

fun selector_scope :: "ChannelPermissionSelector \<Rightarrow> ChannelPermissionScope" where
  "selector_scope SelWorkspace = ScWorkspace"
| "selector_scope (SelAdapter _) = ScAdapter"
| "selector_scope (SelChannelType _ _) = ScChannelType"
| "selector_scope (SelChannel _ _) = ScChannel"

text \<open>The string conditions of the selector schema (\<open>min(1)\<close>).\<close>

fun selector_valid :: "ChannelPermissionSelector \<Rightarrow> bool" where
  "selector_valid SelWorkspace = True"
| "selector_valid (SelAdapter a) = (a \<noteq> [])"
| "selector_valid (SelChannelType a t) = (a \<noteq> [])"
| "selector_valid (SelChannel a e) = (a \<noteq> [] \<and> e \<noteq> [])"

record ChannelPermissionCell =
  cl_selector :: ChannelPermissionSelector
  cl_contactType :: TrustClass
  cl_threshold :: RiskThreshold
  cl_note :: "string option"

record ChannelPermissionCellRow = ChannelPermissionCell +
  cl_updatedAt :: int

record ResolveChannelPermissionRequest =
  rq_adapter :: string
  rq_channelType :: "ChannelConversationType option"
  rq_channelExternalId :: "string option"
  rq_contactType :: TrustClass

type_synonym ResolvedChannelPermission = "RiskThreshold \<times> ChannelPermissionScope"

section \<open>The table\<close>

record SelectorColumns =
  sc_scope :: string
  sc_adapter :: string
  sc_channelType :: string
  sc_channelExternalId :: string

record cell_row =
  cr_columns :: SelectorColumns
  cr_contactType :: string
  cr_threshold :: string
  cr_note :: "string option"
  cr_updatedAt :: int

type_synonym cell_table = "cell_row list"

definition columns :: "string \<Rightarrow> string \<Rightarrow> string \<Rightarrow> string \<Rightarrow> SelectorColumns" where
  "columns s a t e = \<lparr>sc_scope = s, sc_adapter = a, sc_channelType = t, sc_channelExternalId = e\<rparr>"

fun selectorColumns :: "ChannelPermissionSelector \<Rightarrow> SelectorColumns" where
  "selectorColumns SelWorkspace = columns ''workspace'' [] [] []"
| "selectorColumns (SelAdapter a) = columns ''adapter'' a [] []"
| "selectorColumns (SelChannelType a t) = columns ''channel_type'' a (conversation_type_string t) []"
| "selectorColumns (SelChannel a e) = columns ''channel'' a [] e"

definition columnsToSelector :: "SelectorColumns \<Rightarrow> ChannelPermissionSelector option" where
  "columnsToSelector c =
     (if sc_scope c = ''workspace'' then Some SelWorkspace
      else if sc_scope c = ''adapter''
      then (if sc_adapter c \<noteq> [] then Some (SelAdapter (sc_adapter c)) else None)
      else if sc_scope c = ''channel_type''
      then (if sc_adapter c \<noteq> []
            then map_option (SelChannelType (sc_adapter c)) (isChannelConversationType (sc_channelType c))
            else None)
      else if sc_scope c = ''channel''
      then (if sc_adapter c \<noteq> [] \<and> sc_channelExternalId c \<noteq> []
            then Some (SelChannel (sc_adapter c) (sc_channelExternalId c)) else None)
      else None)"

definition cell_row_of :: "int \<Rightarrow> ChannelPermissionCell \<Rightarrow> cell_row" where
  "cell_row_of now c =
     \<lparr>cr_columns = selectorColumns (cl_selector c), cr_contactType = trust_string (cl_contactType c),
      cr_threshold = threshold_string (cl_threshold c), cr_note = cl_note c, cr_updatedAt = now\<rparr>"

definition cell_key :: "cell_row \<Rightarrow> SelectorColumns \<times> string" where
  "cell_key r = (cr_columns r, cr_contactType r)"

definition key_of :: "ChannelPermissionSelector \<Rightarrow> TrustClass \<Rightarrow> SelectorColumns \<times> string" where
  "key_of sel ct = (selectorColumns sel, trust_string ct)"

definition one_row_per_cell :: "cell_table \<Rightarrow> bool" where
  "one_row_per_cell tbl = distinct (map cell_key tbl)"

text \<open>\<open>INSERT ... ON CONFLICT DO UPDATE\<close> and \<open>ON CONFLICT DO NOTHING\<close> on the unique index.\<close>

definition upsert_cell :: "cell_row \<Rightarrow> cell_table \<Rightarrow> cell_table" where
  "upsert_cell r tbl =
     (if cell_key r \<in> set (map cell_key tbl)
      then map (\<lambda>old. if cell_key old = cell_key r
                      then old\<lparr>cr_threshold := cr_threshold r, cr_note := cr_note r, cr_updatedAt := cr_updatedAt r\<rparr>
                      else old) tbl
      else tbl @ [r])"

definition insert_cell_if_absent :: "cell_row \<Rightarrow> cell_table \<Rightarrow> cell_table" where
  "insert_cell_if_absent r tbl = (if cell_key r \<in> set (map cell_key tbl) then tbl else tbl @ [r])"

section \<open>The store\<close>

definition cell_set :: "int \<Rightarrow> cell_table \<Rightarrow> ChannelPermissionCell \<Rightarrow> ChannelPermissionCellRow \<times> cell_table" where
  "cell_set now tbl c =
     (\<lparr>cl_selector = cl_selector c, cl_contactType = cl_contactType c, cl_threshold = cl_threshold c,
       cl_note = cl_note c, cl_updatedAt = now\<rparr>,
      upsert_cell (cell_row_of now c) tbl)"

definition listed_cell :: "cell_row \<Rightarrow> ChannelPermissionCellRow option" where
  "listed_cell r =
     (case columnsToSelector (cr_columns r) of
        None \<Rightarrow> None
      | Some sel \<Rightarrow>
          (case isTrustClass (cr_contactType r) of
             None \<Rightarrow> None
           | Some ct \<Rightarrow>
               (case isRiskThreshold (cr_threshold r) of
                  None \<Rightarrow> None
                | Some t \<Rightarrow>
                    Some \<lparr>cl_selector = sel, cl_contactType = ct, cl_threshold = t, cl_note = cr_note r,
                          cl_updatedAt = cr_updatedAt r\<rparr>)))"

definition cell_list :: "cell_table \<Rightarrow> ChannelPermissionCellRow list" where
  "cell_list tbl = List.map_filter listed_cell tbl"

definition cell_get ::
  "cell_table \<Rightarrow> ChannelPermissionSelector \<Rightarrow> TrustClass \<Rightarrow> ChannelPermissionCellRow option" where
  "cell_get tbl sel ct =
     (case find (\<lambda>r. cell_key r = key_of sel ct) tbl of
        None \<Rightarrow> None
      | Some r \<Rightarrow>
          (case isRiskThreshold (cr_threshold r) of
             None \<Rightarrow> None
           | Some t \<Rightarrow>
               Some \<lparr>cl_selector = sel, cl_contactType = ct, cl_threshold = t, cl_note = cr_note r,
                     cl_updatedAt = cr_updatedAt r\<rparr>))"

definition cell_remove :: "cell_table \<Rightarrow> ChannelPermissionSelector \<Rightarrow> TrustClass \<Rightarrow> bool \<times> cell_table" where
  "cell_remove tbl sel ct =
     (case cell_get tbl sel ct of
        None \<Rightarrow> (False, tbl)
      | Some _ \<Rightarrow> (True, filter (\<lambda>r. cell_key r \<noteq> key_of sel ct) tbl))"

definition seedCell :: "int \<Rightarrow> cell_table \<Rightarrow> ChannelPermissionCell \<Rightarrow> bool \<times> cell_table" where
  "seedCell now tbl c =
     (case cell_get tbl (cl_selector c) (cl_contactType c) of
        Some _ \<Rightarrow> (False, tbl)
      | None \<Rightarrow> (True, insert_cell_if_absent (cell_row_of now c) tbl))"

definition candidates :: "ResolveChannelPermissionRequest \<Rightarrow> ChannelPermissionSelector list" where
  "candidates q =
     (case rq_channelExternalId q of
        Some e \<Rightarrow> if e \<noteq> [] then [SelChannel (rq_adapter q) e] else []
      | None \<Rightarrow> []) @
     (case rq_channelType q of Some t \<Rightarrow> [SelChannelType (rq_adapter q) t] | None \<Rightarrow> []) @
     [SelAdapter (rq_adapter q), SelWorkspace]"

definition cell_resolve :: "cell_table \<Rightarrow> ResolveChannelPermissionRequest \<Rightarrow> ResolvedChannelPermission option" where
  "cell_resolve tbl q =
     first_some
       (\<lambda>sel. map_option (\<lambda>c. (cl_threshold c, selector_scope sel)) (cell_get tbl sel (rq_contactType q)))
       (candidates q)"

section \<open>The handlers\<close>

datatype cell_error = InvalidParams | UnknownAdapter string

fun selector_adapter :: "ChannelPermissionSelector \<Rightarrow> string" where
  "selector_adapter SelWorkspace = []"
| "selector_adapter (SelAdapter a) = a"
| "selector_adapter (SelChannelType a _) = a"
| "selector_adapter (SelChannel a _) = a"

definition assertKnownAdapter :: "ChannelPermissionSelector \<Rightarrow> cell_error option" where
  "assertKnownAdapter sel =
     (if selector_scope sel = ScWorkspace then None
      else if selector_adapter sel = [] \<or> \<not> isChannelId (selector_adapter sel)
      then Some (UnknownAdapter (selector_adapter sel)) else None)"

definition set_channel_permission_override ::
  "int \<Rightarrow> cell_table \<Rightarrow> ChannelPermissionCell \<Rightarrow> (cell_error + ChannelPermissionCellRow) \<times> cell_table" where
  "set_channel_permission_override now tbl c =
     (if \<not> selector_valid (cl_selector c) then (Inl InvalidParams, tbl)
      else
        case assertKnownAdapter (cl_selector c) of
          Some e \<Rightarrow> (Inl e, tbl)
        | None \<Rightarrow> (case cell_set now tbl c of (r, tbl') \<Rightarrow> (Inr r, tbl')))"

definition delete_channel_permission_override ::
  "cell_table \<Rightarrow> ChannelPermissionSelector \<Rightarrow> TrustClass \<Rightarrow> (cell_error + bool) \<times> cell_table" where
  "delete_channel_permission_override tbl sel ct =
     (if \<not> selector_valid sel then (Inl InvalidParams, tbl)
      else case cell_remove tbl sel ct of (b, tbl') \<Rightarrow> (Inr b, tbl'))"

definition request_valid :: "ResolveChannelPermissionRequest \<Rightarrow> bool" where
  "request_valid q = (rq_adapter q \<noteq> [] \<and> rq_channelExternalId q \<noteq> Some [])"

definition resolve_channel_permission_threshold ::
  "cell_table \<Rightarrow> ResolveChannelPermissionRequest \<Rightarrow> cell_error + ResolvedChannelPermission option" where
  "resolve_channel_permission_threshold tbl q =
     (if request_valid q then Inr (cell_resolve tbl q) else Inl InvalidParams)"

section \<open>Lemmas\<close>

lemma isRiskThreshold_string [simp]: "isRiskThreshold (threshold_string t) = Some t"
  by (cases t) (simp_all add: isRiskThreshold_def)

lemma isTrustClass_string [simp]: "isTrustClass (trust_string t) = Some t"
  by (cases t) (simp_all add: isTrustClass_def)

lemma isChannelConversationType_string [simp]: "isChannelConversationType (conversation_type_string t) = Some t"
  by (cases t) (simp_all add: isChannelConversationType_def)

lemma isRiskThreshold_Some: "isRiskThreshold v = Some t \<longleftrightarrow> v = threshold_string t"
  by (cases t) (auto simp: isRiskThreshold_def)

lemma threshold_string_inject [simp]: "threshold_string a = threshold_string b \<longleftrightarrow> a = b"
  by (cases a; cases b) simp_all

lemma trust_string_inject [simp]: "trust_string a = trust_string b \<longleftrightarrow> a = b"
  by (cases a; cases b) simp_all

lemma selectorColumns_roundtrip: "selector_valid sel \<Longrightarrow> columnsToSelector (selectorColumns sel) = Some sel"
  by (cases sel) (simp_all add: columnsToSelector_def columns_def)

lemma selectorColumns_inject [simp]: "selectorColumns a = selectorColumns b \<longleftrightarrow> a = b"
proof -
  have "conversation_type_string s = conversation_type_string t \<longleftrightarrow> s = t" for s t
    by (metis isChannelConversationType_string option.inject)
  then show ?thesis by (cases a; cases b) (auto simp: columns_def)
qed

lemma key_of_inject [simp]: "key_of a ct = key_of b ct' \<longleftrightarrow> a = b \<and> ct = ct'"
  by (simp add: key_of_def)

lemma cell_key_row_of [simp]: "cell_key (cell_row_of now c) = key_of (cl_selector c) (cl_contactType c)"
  by (simp add: cell_key_def key_of_def cell_row_of_def)

lemma find_filter_other: "k \<noteq> k' \<Longrightarrow> find (\<lambda>r. cell_key r = k) (filter (\<lambda>r. cell_key r \<noteq> k') tbl) = find (\<lambda>r. cell_key r = k) tbl"
  by (induction tbl) auto

lemma find_filter_same: "find (\<lambda>r. cell_key r = k) (filter (\<lambda>r. cell_key r \<noteq> k) tbl) = None"
  by (induction tbl) auto

lemma cell_key_update [simp]:
  "cell_key (r\<lparr>cr_threshold := t, cr_note := n, cr_updatedAt := u\<rparr>) = cell_key r"
  by (simp add: cell_key_def)

lemma find_append: "find P (xs @ ys) = (case find P xs of None \<Rightarrow> find P ys | Some x \<Rightarrow> Some x)"
  by (induction xs) auto

lemma find_key_None: "find (\<lambda>r. cell_key r = k) tbl = None \<longleftrightarrow> k \<notin> set (map cell_key tbl)"
  by (auto simp: find_None_iff)

lemma find_map_update:
  assumes "\<And>r. cell_key (f r) = cell_key r"
  shows "find (\<lambda>r. cell_key r = k) (map f tbl) = map_option f (find (\<lambda>r. cell_key r = k) tbl)"
  using assms by (induction tbl) auto

lemma find_key: "find (\<lambda>r. cell_key r = k) tbl = Some r \<Longrightarrow> cell_key r = k"
  by (induction tbl) (auto split: if_splits)

lemma find_upsert:
  "find (\<lambda>r. cell_key r = k) (upsert_cell r tbl) =
     (if k = cell_key r
      then Some (case find (\<lambda>r. cell_key r = k) tbl of
                   None \<Rightarrow> r
                 | Some old \<Rightarrow> old\<lparr>cr_threshold := cr_threshold r, cr_note := cr_note r, cr_updatedAt := cr_updatedAt r\<rparr>)
      else find (\<lambda>r. cell_key r = k) tbl)"
proof (cases "cell_key r \<in> set (map cell_key tbl)")
  case True
  let ?f = "\<lambda>old. if cell_key old = cell_key r
    then old\<lparr>cr_threshold := cr_threshold r, cr_note := cr_note r, cr_updatedAt := cr_updatedAt r\<rparr> else old"
  from True obtain old where old: "find (\<lambda>x. cell_key x = cell_key r) tbl = Some old"
    by (metis find_key_None option.exhaust)
  have "upsert_cell r tbl = map ?f tbl" using True by (simp add: upsert_cell_def)
  moreover have "find (\<lambda>x. cell_key x = k) (map ?f tbl) = map_option ?f (find (\<lambda>x. cell_key x = k) tbl)"
    by (rule find_map_update) simp
  ultimately show ?thesis
    using old by (cases "find (\<lambda>x. cell_key x = k) tbl") (auto dest: find_key)
next
  case False
  then have "find (\<lambda>x. cell_key x = cell_key r) tbl = None" by (simp only: find_key_None) simp
  with False show ?thesis by (auto simp: upsert_cell_def find_append split: option.splits)
qed

lemma cell_get_set:
  "cell_get (snd (cell_set now tbl c)) sel ct =
     (if sel = cl_selector c \<and> ct = cl_contactType c then Some (fst (cell_set now tbl c)) else cell_get tbl sel ct)"
proof -
  have [simp]: "cr_threshold (cell_row_of now c) = threshold_string (cl_threshold c)"
    "cr_note (cell_row_of now c) = cl_note c" "cr_updatedAt (cell_row_of now c) = now"
    by (simp_all add: cell_row_of_def)
  show ?thesis
    by (cases "find (\<lambda>r. cell_key r = key_of sel ct) tbl") (auto simp: cell_get_def cell_set_def find_upsert)
qed

lemma cell_get_remove:
  "cell_get (snd (cell_remove tbl sel ct)) sel' ct' =
     (if sel' = sel \<and> ct' = ct then None else cell_get tbl sel' ct')"
proof (cases "cell_get tbl sel ct")
  case None
  then show ?thesis by (simp add: cell_remove_def)
next
  case (Some c)
  then show ?thesis
    by (cases "sel' = sel \<and> ct' = ct")
      (auto simp: cell_remove_def cell_get_def [of "filter _ _"] find_filter_same find_filter_other,
       auto simp: cell_get_def)
qed

lemma cell_get_seed:
  "cell_get tbl sel ct = Some r \<Longrightarrow> cell_get (snd (seedCell now tbl c)) sel ct = Some r"
  by (auto simp: seedCell_def insert_cell_if_absent_def cell_get_def find_append split: option.splits)

lemma keys_upsert:
  "map cell_key (upsert_cell r tbl) =
     (if cell_key r \<in> set (map cell_key tbl) then map cell_key tbl else map cell_key tbl @ [cell_key r])"
  by (auto simp: upsert_cell_def)

section \<open>The matrix interface\<close>

text \<open>A query asks for a selector when the selector's keys are those of the query.\<close>

fun asks_for :: "ResolveChannelPermissionRequest \<Rightarrow> ChannelPermissionSelector \<Rightarrow> bool" where
  "asks_for q SelWorkspace = True"
| "asks_for q (SelAdapter a) = (a = rq_adapter q)"
| "asks_for q (SelChannelType a t) = (a = rq_adapter q \<and> rq_channelType q = Some t)"
| "asks_for q (SelChannel a e) = (a = rq_adapter q \<and> rq_channelExternalId q = Some e \<and> e \<noteq> [])"

definition selector_rank :: "ChannelPermissionSelector \<Rightarrow> nat" where
  "selector_rank sel = CHANNEL_PERMISSION_SCOPE_RANK (selector_scope sel)"

lemma asks_for_candidates: "asks_for q sel \<longleftrightarrow> sel \<in> set (candidates q)"
  by (cases sel) (auto simp: candidates_def split: option.splits)

lemma candidates_ranked: "sorted_wrt (\<lambda>a b. selector_rank b < selector_rank a) (candidates q)"
  by (auto simp: candidates_def selector_rank_def split: option.splits)

locale cell_matrix =
  fixes get :: "'m \<Rightarrow> ChannelPermissionSelector \<Rightarrow> TrustClass \<Rightarrow> 'c option"
    and put :: "'w \<Rightarrow> 'm \<Rightarrow> ChannelPermissionSelector \<Rightarrow> TrustClass \<Rightarrow> 'm"
    and del :: "'m \<Rightarrow> ChannelPermissionSelector \<Rightarrow> TrustClass \<Rightarrow> 'm"
    and val :: "'c \<Rightarrow> RiskThreshold"
    and written :: "'w \<Rightarrow> RiskThreshold"
  assumes get_put: "map_option val (get (put w m sel ct) sel' ct') =
             (if sel' = sel \<and> ct' = ct then Some (written w) else map_option val (get m sel' ct'))"
    and get_del: "get (del m sel ct) sel' ct' = (if sel' = sel \<and> ct' = ct then None else get m sel' ct')"
begin

definition pick :: "'m \<Rightarrow> ResolveChannelPermissionRequest \<Rightarrow> ResolvedChannelPermission option" where
  "pick m q =
     first_some (\<lambda>sel. map_option (\<lambda>c. (val c, selector_scope sel)) (get m sel (rq_contactType q))) (candidates q)"

lemma pick_None: "pick m q = None \<longleftrightarrow> (\<forall>sel. asks_for q sel \<longrightarrow> get m sel (rq_contactType q) = None)"
  by (auto simp: pick_def first_some_None asks_for_candidates)

lemma pick_most_specific:
  assumes "pick m q = Some (t, sc)"
  shows "\<exists>sel c. asks_for q sel \<and> get m sel (rq_contactType q) = Some c \<and> t = val c \<and> sc = selector_scope sel \<and>
           (\<forall>sel'. asks_for q sel' \<and> selector_rank sel < selector_rank sel' \<longrightarrow>
                   get m sel' (rq_contactType q) = None)"
proof -
  from first_some_split [OF assms [unfolded pick_def]] obtain as sel bs where
    split: "candidates q = as @ sel # bs"
    and found: "map_option (\<lambda>c. (val c, selector_scope sel)) (get m sel (rq_contactType q)) = Some (t, sc)"
    and before: "\<forall>a \<in> set as. map_option (\<lambda>c. (val c, selector_scope a)) (get m a (rq_contactType q)) = None"
    by blast
  from found obtain c where c: "get m sel (rq_contactType q) = Some c" "t = val c" "sc = selector_scope sel" by auto
  have "get m sel' (rq_contactType q) = None"
    if "asks_for q sel'" "selector_rank sel < selector_rank sel'" for sel'
  proof -
    have "sel' \<in> set as"
      using that candidates_ranked [of q] by (auto simp: asks_for_candidates split sorted_wrt_append)
    with before show ?thesis by auto
  qed
  with c split show ?thesis by (auto simp: asks_for_candidates)
qed

text \<open>Writing a cell decides every query that asks for it and has nothing more specific.\<close>

lemma pick_put:
  assumes "asks_for q sel"
    and "\<And>sel'. asks_for q sel' \<Longrightarrow> selector_rank sel < selector_rank sel' \<Longrightarrow> get m sel' (rq_contactType q) = None"
  shows "pick (put w m sel (rq_contactType q)) q = Some (written w, selector_scope sel)"
proof -
  let ?m = "put w m sel (rq_contactType q)"
  let ?f = "\<lambda>s. map_option (\<lambda>c. (val c, selector_scope s)) (get ?m s (rq_contactType q))"
  have f: "?f s = map_option (\<lambda>t. (t, selector_scope s))
      (if s = sel then Some (written w) else map_option val (get m s (rq_contactType q)))" for s
    using get_put [of w m sel "rq_contactType q" s "rq_contactType q"]
    by (cases "get ?m s (rq_contactType q)"; cases "get m s (rq_contactType q)") (auto split: if_splits)
  from assms(1) obtain as bs where split: "candidates q = as @ sel # bs"
    by (auto simp: asks_for_candidates in_set_conv_decomp)
  have "?f a = None" if "a \<in> set as" for a
  proof -
    have "selector_rank sel < selector_rank a"
      using that candidates_ranked [of q] by (auto simp: split sorted_wrt_append)
    moreover have "asks_for q a" using that by (simp add: asks_for_candidates split)
    ultimately have "get m a (rq_contactType q) = None" "a \<noteq> sel" using assms(2) by auto
    then show ?thesis by (simp only: f) simp
  qed
  then have "first_some ?f (as @ sel # bs) = Some (written w, selector_scope sel)"
    by (intro first_some_skip) (simp_all add: f)
  then show ?thesis by (simp add: pick_def split)
qed

end

text \<open>The store is such a matrix; \<open>cell_resolve\<close> is its \<open>pick\<close>.\<close>

interpretation cells: cell_matrix cell_get
    "\<lambda>(now, t, note) tbl sel ct. snd (cell_set now tbl \<lparr>cl_selector = sel, cl_contactType = ct, cl_threshold = t, cl_note = note\<rparr>)"
    "\<lambda>tbl sel ct. snd (cell_remove tbl sel ct)" cl_threshold "\<lambda>(now, t, note). t"
  by unfold_locales (auto simp: cell_get_set cell_get_remove, auto simp: cell_set_def)

lemma cell_resolve_pick: "cell_resolve tbl q = cells.pick tbl q"
  by (simp add: cell_resolve_def cells.pick_def)

section \<open>Reachable tables\<close>

text \<open>The table changes by the two write handlers and by seeding a cell the contract accepts.\<close>

inductive cell_step :: "cell_table \<Rightarrow> cell_table \<Rightarrow> bool" where
  step_set: "set_channel_permission_override now tbl c = (r, tbl') \<Longrightarrow> cell_step tbl tbl'"
| step_delete: "delete_channel_permission_override tbl sel ct = (r, tbl') \<Longrightarrow> cell_step tbl tbl'"
| step_seed: "selector_valid (cl_selector c) \<Longrightarrow> seedCell now tbl c = (b, tbl') \<Longrightarrow> cell_step tbl tbl'"

definition row_readable :: "cell_row \<Rightarrow> bool" where
  "row_readable r = (\<exists>sel ct t. selector_valid sel \<and> cell_key r = key_of sel ct \<and> cr_threshold r = threshold_string t)"

definition table_good :: "cell_table \<Rightarrow> bool" where
  "table_good tbl = (one_row_per_cell tbl \<and> (\<forall>r \<in> set tbl. row_readable r))"

lemma row_readable_new [intro]: "selector_valid (cl_selector c) \<Longrightarrow> row_readable (cell_row_of now c)"
  unfolding row_readable_def by (rule exI, rule exI, rule exI) (auto simp: cell_row_of_def cell_key_def key_of_def)

lemma row_readable_update [intro]:
  "row_readable old \<Longrightarrow> row_readable (old\<lparr>cr_threshold := threshold_string t, cr_note := n, cr_updatedAt := u\<rparr>)"
  by (auto simp: row_readable_def)

lemma table_good_upsert:
  "table_good tbl \<Longrightarrow> selector_valid (cl_selector c) \<Longrightarrow> table_good (upsert_cell (cell_row_of now c) tbl)"
proof -
  assume good: "table_good tbl" and valid: "selector_valid (cl_selector c)"
  have "one_row_per_cell (upsert_cell (cell_row_of now c) tbl)"
    using good unfolding table_good_def one_row_per_cell_def keys_upsert by auto
  moreover have "row_readable r" if "r \<in> set (upsert_cell (cell_row_of now c) tbl)" for r
  proof -
    have [simp]: "cr_threshold (cell_row_of now c) = threshold_string (cl_threshold c)" by (simp add: cell_row_of_def)
    from that consider "r \<in> set tbl" | "r = cell_row_of now c"
      | old where "old \<in> set tbl" "r = old\<lparr>cr_threshold := threshold_string (cl_threshold c),
          cr_note := cr_note (cell_row_of now c), cr_updatedAt := cr_updatedAt (cell_row_of now c)\<rparr>"
      by (auto simp: upsert_cell_def split: if_splits)
    then show ?thesis using good valid by cases (auto simp: table_good_def)
  qed
  ultimately show ?thesis by (simp add: table_good_def)
qed

lemma table_good_step: "cell_step tbl tbl' \<Longrightarrow> table_good tbl \<Longrightarrow> table_good tbl'"
proof (induction rule: cell_step.induct)
  case (step_set now tbl c r tbl')
  then show ?case
    by (auto simp: set_channel_permission_override_def cell_set_def table_good_upsert split: if_splits option.splits)
next
  case (step_delete tbl sel ct r tbl')
  then show ?case
    by (auto simp: delete_channel_permission_override_def cell_remove_def table_good_def one_row_per_cell_def
        distinct_map inj_on_def split: if_splits option.splits)
next
  case (step_seed c now tbl b tbl')
  then show ?case
    by (auto simp: seedCell_def insert_cell_if_absent_def table_good_def one_row_per_cell_def split: if_splits option.splits)
qed

interpretation cell_sys: invariant_system "\<lambda>tbl. tbl = []" cell_step table_good
proof unfold_locales
  show "table_good tbl" if "tbl = []" for tbl using that by (simp add: table_good_def one_row_per_cell_def)
  show "table_good t" if "table_good s" "cell_step s t" for s t using that by (blast intro: table_good_step)
qed

lemma listed_cell_readable:
  assumes "row_readable r"
  obtains sel ct t where "cell_key r = key_of sel ct"
    "listed_cell r = Some \<lparr>cl_selector = sel, cl_contactType = ct, cl_threshold = t, cl_note = cr_note r, cl_updatedAt = cr_updatedAt r\<rparr>"
proof -
  from assms obtain sel ct t where *: "selector_valid sel" "cell_key r = key_of sel ct" "cr_threshold r = threshold_string t"
    by (auto simp: row_readable_def)
  then have "cr_columns r = selectorColumns sel" "cr_contactType r = trust_string ct"
    by (simp_all add: cell_key_def key_of_def)
  with * show thesis by (intro that [of sel ct t]) (simp_all add: listed_cell_def selectorColumns_roundtrip)
qed

lemma find_distinct_key: "distinct (map cell_key tbl) \<Longrightarrow> r \<in> set tbl \<Longrightarrow> find (\<lambda>x. cell_key x = cell_key r) tbl = Some r"
  by (induction tbl) (auto simp: rev_image_eqI)

lemma listed_is_got:
  assumes good: "table_good tbl" and "c \<in> set (cell_list tbl)"
  shows "cell_get tbl (cl_selector c) (cl_contactType c) = Some c"
proof -
  from assms(2) obtain r where r: "r \<in> set tbl" "listed_cell r = Some c"
    by (auto simp: cell_list_def List.map_filter_def)
  from r(1) good have "row_readable r" by (simp add: table_good_def)
  then obtain sel ct t where key: "cell_key r = key_of sel ct"
    and c: "c = \<lparr>cl_selector = sel, cl_contactType = ct, cl_threshold = t, cl_note = cr_note r, cl_updatedAt = cr_updatedAt r\<rparr>"
    by (rule listed_cell_readable) (use r(2) in auto)
  have "isRiskThreshold (cr_threshold r) = Some t"
    using r(2) c by (auto simp: listed_cell_def split: option.splits)
  moreover have "find (\<lambda>x. cell_key x = key_of sel ct) tbl = Some r"
    using find_distinct_key [of tbl r] good r(1) key by (simp add: table_good_def one_row_per_cell_def)
  ultimately show ?thesis by (simp add: cell_get_def c)
qed

lemma length_map_filter_all: "(\<And>x. x \<in> set xs \<Longrightarrow> f x \<noteq> None) \<Longrightarrow> length (List.map_filter f xs) = length xs"
  by (induction xs) (auto simp: List.map_filter_def)

section \<open>Properties\<close>

text \<open>Every table the write handlers and the seeding can produce has one row per cell and no
  unreadable row: the configuration listing shows every row of the table, and every listed cell is
  exactly what a direct read of its selector and contact type returns.\<close>

theorem channel_table_consistent:
  assumes "reach (\<lambda>tbl. tbl = []) cell_step tbl"
  shows "one_row_per_cell tbl \<and> length (cell_list tbl) = length tbl \<and>
    (\<forall>c \<in> set (cell_list tbl). cell_get tbl (cl_selector c) (cl_contactType c) = Some c)"
proof (intro conjI ballI)
  have good: "table_good tbl" using assms by (rule cell_sys.reach_inv)
  then show "one_row_per_cell tbl" by (simp add: table_good_def)
  have "listed_cell r \<noteq> None" if "r \<in> set tbl" for r
  proof -
    from good that have "row_readable r" by (simp add: table_good_def)
    then show ?thesis by (rule listed_cell_readable) simp
  qed
  then show "length (cell_list tbl) = length tbl" unfolding cell_list_def by (rule length_map_filter_all)
  show "cell_get tbl (cl_selector c) (cl_contactType c) = Some c" if "c \<in> set (cell_list tbl)" for c
    using that by (rule listed_is_got [OF good])
qed

definition slack_room :: ResolveChannelPermissionRequest where
  "slack_room = \<lparr>rq_adapter = ''slack'', rq_channelType = Some Private, rq_channelExternalId = Some ''C9'',
     rq_contactType = TrustedContact\<rparr>"

definition slack_cell :: ChannelPermissionCell where
  "slack_cell = \<lparr>cl_selector = SelAdapter ''slack'', cl_contactType = TrustedContact, cl_threshold = TMedium, cl_note = None\<rparr>"

definition slack_table :: cell_table where
  "slack_table = snd (set_channel_permission_override 7 [] slack_cell)"

lemma slack_reachable: "reach (\<lambda>tbl. tbl = []) cell_step slack_table"
proof -
  have "reach (\<lambda>tbl. tbl = []) cell_step []" by (rule reach_init) simp
  then show ?thesis unfolding slack_table_def by (rule reach_step) (metis step_set prod.collapse)
qed

lemma slack_listed:
  "slack_table = [cell_row_of 7 slack_cell]"
  "cell_list slack_table = [\<lparr>cl_selector = SelAdapter ''slack'', cl_contactType = TrustedContact, cl_threshold = TMedium, cl_note = None, cl_updatedAt = 7\<rparr>]"
  by code_simp+

theorem channel_table_consistent_witness:
  "one_row_per_cell slack_table \<and> length (cell_list slack_table) = 1 \<and>
   cell_get slack_table (SelAdapter ''slack'') TrustedContact =
     Some \<lparr>cl_selector = SelAdapter ''slack'', cl_contactType = TrustedContact, cl_threshold = TMedium, cl_note = None, cl_updatedAt = 7\<rparr>"
  using channel_table_consistent [OF slack_reachable] slack_listed by auto

text \<open>The cascade returns the most specific cell of the contact type. What \<open>resolve\<close> returns is
  the threshold of a stored cell whose selector the query asks for, and no selector of higher
  specificity rank that the query asks for has a cell; it returns nothing only when no selector the
  query asks for has one.\<close>

theorem channel_resolve_most_specific:
  "case cell_resolve tbl q of
     None \<Rightarrow> \<forall>sel. asks_for q sel \<longrightarrow> cell_get tbl sel (rq_contactType q) = None
   | Some (t, sc) \<Rightarrow>
       \<exists>sel c. asks_for q sel \<and> cell_get tbl sel (rq_contactType q) = Some c \<and> t = cl_threshold c \<and> sc = selector_scope sel \<and>
         (\<forall>sel'. asks_for q sel' \<and> selector_rank sel < selector_rank sel' \<longrightarrow> cell_get tbl sel' (rq_contactType q) = None)"
proof (cases "cells.pick tbl q")
  case None
  with cells.pick_None [of tbl q] show ?thesis by (simp add: cell_resolve_pick)
next
  case (Some r)
  with cells.pick_most_specific [of tbl q "fst r" "snd r"] show ?thesis by (simp add: cell_resolve_pick case_prod_beta)
qed

theorem channel_resolve_most_specific_witness:
  "cell_resolve slack_table slack_room = Some (TMedium, ScAdapter) \<and>
   (\<exists>sel c. asks_for slack_room sel \<and> cell_get slack_table sel TrustedContact = Some c \<and> TMedium = cl_threshold c \<and>
      ScAdapter = selector_scope sel)"
proof -
  have r: "cell_resolve slack_table slack_room = Some (TMedium, ScAdapter)" by code_simp
  have "rq_contactType slack_room = TrustedContact" by (simp add: slack_room_def)
  with r channel_resolve_most_specific [where tbl = slack_table and q = slack_room] show ?thesis by auto
qed

text \<open>A successful write of a cell decides the next resolution of every query that asks for its
  selector and its contact type, unless a more specific cell exists, and leaves the answers for
  every other contact type as they were; a rejected write leaves the table as it was.\<close>

theorem channel_write_takes_effect:
  assumes "set_channel_permission_override now tbl c = (r, tbl')"
  shows "(isl r \<longrightarrow> tbl' = tbl) \<and>
    (\<not> isl r \<and> asks_for q (cl_selector c) \<and> rq_contactType q = cl_contactType c \<and>
       (\<forall>sel. asks_for q sel \<and> selector_rank (cl_selector c) < selector_rank sel \<longrightarrow> cell_get tbl sel (cl_contactType c) = None) \<longrightarrow>
       cell_resolve tbl' q = Some (cl_threshold c, selector_scope (cl_selector c))) \<and>
    (rq_contactType q \<noteq> cl_contactType c \<longrightarrow> cell_resolve tbl' q = cell_resolve tbl q)"
proof (intro conjI impI; (elim conjE)?)
  show "isl r \<Longrightarrow> tbl' = tbl"
    using assms by (auto simp: set_channel_permission_override_def split: if_splits option.splits prod.splits)
  have tbl': "tbl' = tbl \<or> tbl' = snd (cell_set now tbl c)"
    using assms by (auto simp: set_channel_permission_override_def split: if_splits option.splits prod.splits)
  have c: "\<lparr>cl_selector = cl_selector c, cl_contactType = cl_contactType c, cl_threshold = cl_threshold c, cl_note = cl_note c\<rparr> = c" by simp
  show "cell_resolve tbl' q = Some (cl_threshold c, selector_scope (cl_selector c))"
    if "\<not> isl r" "asks_for q (cl_selector c)" "rq_contactType q = cl_contactType c"
      "\<forall>sel. asks_for q sel \<and> selector_rank (cl_selector c) < selector_rank sel \<longrightarrow> cell_get tbl sel (cl_contactType c) = None"
  proof -
    have "tbl' = snd (cell_set now tbl c)"
      using assms that(1) by (auto simp: set_channel_permission_override_def split: if_splits option.splits prod.splits)
    then show ?thesis
      using cells.pick_put [of q "cl_selector c" tbl "(now, cl_threshold c, cl_note c)"] that(2-4)
      by (simp add: cell_resolve_pick c)
  qed
  show "cell_resolve tbl' q = cell_resolve tbl q" if "rq_contactType q \<noteq> cl_contactType c"
  proof -
    have "cell_get tbl' sel (rq_contactType q) = cell_get tbl sel (rq_contactType q)" for sel
      using tbl' that by (auto simp: cell_get_set)
    then show ?thesis by (simp add: cell_resolve_def)
  qed
qed

theorem channel_write_takes_effect_witness:
  "cell_resolve slack_table slack_room = Some (TMedium, ScAdapter) \<and>
   cell_resolve slack_table (slack_room\<lparr>rq_contactType := Guardian\<rparr>) = None"
proof -
  obtain r where w: "set_channel_permission_override 7 [] slack_cell = (r, slack_table)"
    unfolding slack_table_def by (metis prod.collapse)
  have r: "\<not> isl r" using w by (auto simp: set_channel_permission_override_def slack_cell_def
    assertKnownAdapter_def isChannelId_def CHANNEL_IDS_def cell_set_def)
  have "cell_resolve slack_table slack_room = Some (cl_threshold slack_cell, selector_scope (cl_selector slack_cell))"
    using channel_write_takes_effect [OF w, of slack_room] r by (simp add: slack_room_def slack_cell_def cell_get_def)
  moreover have "cell_resolve slack_table (slack_room\<lparr>rq_contactType := Guardian\<rparr>) =
      cell_resolve [] (slack_room\<lparr>rq_contactType := Guardian\<rparr>)"
    using channel_write_takes_effect [OF w, of "slack_room\<lparr>rq_contactType := Guardian\<rparr>"] by (simp add: slack_cell_def)
  moreover have "cell_resolve [] (slack_room\<lparr>rq_contactType := Guardian\<rparr>) = None" by code_simp
  ultimately show ?thesis by (simp add: slack_cell_def)
qed

text \<open>A row whose threshold is outside the vocabulary (the store's comments expect such rows after a
  rolled-back version) can be neither removed nor seeded over, and seeding reports an insertion
  that did not happen.\<close>

theorem unreadable_cell_sticks:
  "let tbl = [(cell_row_of 3 slack_cell)\<lparr>cr_threshold := ''critical''\<rparr>]
   in cell_get tbl (SelAdapter ''slack'') TrustedContact = None \<and>
      cell_remove tbl (SelAdapter ''slack'') TrustedContact = (False, tbl) \<and>
      seedCell 9 tbl slack_cell = (True, tbl)"
  by code_simp

end
