(* ===== verification/Thresholds.thy ===== *)
theory Thresholds
  imports Channel_Permissions
begin

text \<open>
  Auto-approve thresholds: the gateway's tables and handlers
  (\<^verbatim>\<open>gateway/src/ipc/threshold-handlers.ts\<close>, \<^verbatim>\<open>gateway/src/db/contact-auto-approve-threshold.ts\<close>), the
  coordinates of a turn (\<^verbatim>\<open>assistant/src/permissions/channel-permission-query.ts\<close>) and the reader with
  its caches in the assistant (\<^verbatim>\<open>assistant/src/permissions/gateway-threshold-reader.ts\<close>).

  \<^item> The four IPC calls of the reader are the fields of \<open>gateway_ipc\<close>, each indexed by the number of
    calls made before, so a gateway that fails, recovers or changes its mind between two calls is an
    instance. \<open>None\<close> stands for the \<open>undefined\<close> of a failed call. The field \<open>ge_clock\<close> is the time
    after so many calls; a stretch without a call reads one time.
  \<^item> The module state (four caches, the failure streaks) is the record \<open>reader\<close>. One read runs to its end
    before the next; log output is left out.
\<close>

section \<open>The gateway's side\<close>

record GlobalThresholds =
  gt_interactive :: string
  gt_autonomous :: string
  gt_headless :: string

definition GLOBAL_DEFAULTS :: GlobalThresholds where
  "GLOBAL_DEFAULTS = \<lparr>gt_interactive = ''medium'', gt_autonomous = ''low'', gt_headless = ''none''\<rparr>"

record threshold_db =
  td_global :: "GlobalThresholds option"
  td_conversations :: "(string, string) jsmap"
  td_contacts :: "(string, string option) jsmap"
  td_cells :: cell_table

definition parseContactAutoApproveThreshold :: "string option \<Rightarrow> RiskThreshold option" where
  "parseContactAutoApproveThreshold v = (case v of None \<Rightarrow> None | Some t \<Rightarrow> isRiskThreshold t)"

definition get_global_thresholds :: "threshold_db \<Rightarrow> GlobalThresholds" where
  "get_global_thresholds db = (case td_global db of None \<Rightarrow> GLOBAL_DEFAULTS | Some g \<Rightarrow> g)"

definition get_conversation_threshold :: "threshold_db \<Rightarrow> string \<Rightarrow> string option" where
  "get_conversation_threshold db cid = jm_get (td_conversations db) cid"

definition get_contact_threshold :: "threshold_db \<Rightarrow> string \<Rightarrow> string option" where
  "get_contact_threshold db cid =
     (case jm_get (td_contacts db) cid of
        None \<Rightarrow> None
      | Some col \<Rightarrow> map_option threshold_string (parseContactAutoApproveThreshold col))"

definition set_conversation_threshold :: "threshold_db \<Rightarrow> string \<Rightarrow> RiskThreshold \<Rightarrow> threshold_db" where
  "set_conversation_threshold db cid t = db\<lparr>td_conversations := jm_set (td_conversations db) cid (threshold_string t)\<rparr>"

datatype contact_result = ContactNotFound | ContactSet string "RiskThreshold option"

definition set_contact_threshold ::
  "threshold_db \<Rightarrow> string \<Rightarrow> RiskThreshold option \<Rightarrow> contact_result \<times> threshold_db" where
  "set_contact_threshold db cid t =
     (if jm_has (td_contacts db) cid
      then (ContactSet cid t, db\<lparr>td_contacts := jm_set (td_contacts db) cid (map_option threshold_string t)\<rparr>)
      else (ContactNotFound, db))"

section \<open>The coordinates of a turn\<close>

datatype ExecutionContext = Conversation | Background | Headless

record PolicyContext =
  px_executionContext :: "ExecutionContext option"
  px_conversationId :: "string option"
  px_requestOrigin :: "string option"
  px_trustClass :: "string option"
  px_sourceChannel :: "string option"
  px_channelExternalId :: "string option"
  px_channelConversationType :: "string option"
  px_procToSkillsActive :: bool
  px_requesterContactId :: "string option"

text \<open>JavaScript's \<open>if (s)\<close> on an optional string.\<close>

fun truthy :: "string option \<Rightarrow> string option" where
  "truthy None = None"
| "truthy (Some s) = (if s = [] then None else Some s)"

definition buildChannelPermissionCellQuery :: "PolicyContext option \<Rightarrow> ResolveChannelPermissionRequest option" where
  "buildChannelPermissionCellQuery pc =
     (case pc of
        None \<Rightarrow> None
      | Some c \<Rightarrow>
          (case (truthy (px_sourceChannel c), truthy (px_trustClass c)) of
             (Some adapter, Some tc) \<Rightarrow>
               (case isTrustClass tc of
                  None \<Rightarrow> None
                | Some trustClass \<Rightarrow>
                    Some \<lparr>rq_adapter = adapter,
                          rq_channelType = Option.bind (px_channelConversationType c) isChannelConversationType,
                          rq_channelExternalId = truthy (px_channelExternalId c),
                          rq_contactType = trustClass\<rparr>)
           | _ \<Rightarrow> None))"

definition collapseChannelThresholdForContact :: "RiskThreshold \<Rightarrow> RiskThreshold" where
  "collapseChannelThresholdForContact t = (if t = TNone then TNone else TLow)"

datatype ChannelPermissionCellResult = CellFail | CellOk "ResolvedChannelPermission option"

fun effectiveChannelCellThreshold ::
  "ChannelPermissionCellResult \<Rightarrow> TrustClass \<Rightarrow> RiskThreshold option \<Rightarrow> RiskThreshold option" where
  "effectiveChannelCellThreshold CellFail ct d = None"
| "effectiveChannelCellThreshold (CellOk resolved) ct d =
     (if ct = Guardian then map_option fst resolved
      else case resolved of
             None \<Rightarrow> d
           | Some (t, _) \<Rightarrow> Some (collapseChannelThresholdForContact t))"

section \<open>The reader's state\<close>

record FailureState =
  fs_consecutiveFailures :: nat
  fs_firstFailureAt :: int
  fs_lastWarnAt :: int

record gateway_ipc =
  ge_global :: "nat \<Rightarrow> GlobalThresholds option"
  ge_conversation :: "nat \<Rightarrow> string \<Rightarrow> string option option"
  ge_contact :: "nat \<Rightarrow> string \<Rightarrow> string option option"
  ge_cell :: "nat \<Rightarrow> ResolveChannelPermissionRequest \<Rightarrow> (string \<times> ChannelPermissionScope) option option"
  ge_clock :: "nat \<Rightarrow> int"

record reader =
  rd_global :: "(GlobalThresholds \<times> int) option"
  rd_conversations :: "(string, string option \<times> int) jsmap"
  rd_contacts :: "(string, string option \<times> int) jsmap"
  rd_cells :: "(ResolveChannelPermissionRequest, ResolvedChannelPermission option \<times> int) jsmap"
  rd_failures :: "(string, FailureState) jsmap"
  rd_calls :: nat

definition GLOBAL_CACHE_TTL_MS :: int where "GLOBAL_CACHE_TTL_MS = 30000"

definition CONVERSATION_CACHE_TTL_MS :: int where "CONVERSATION_CACHE_TTL_MS = 5000"

definition CONTACT_CACHE_TTL_MS :: int where "CONTACT_CACHE_TTL_MS = 5000"

definition CELL_CACHE_TTL_MS :: int where "CELL_CACHE_TTL_MS = 5000"

definition DEFAULT_FAILURE_WARN_INTERVAL_MS :: int where "DEFAULT_FAILURE_WARN_INTERVAL_MS = 30000"

definition clock :: "gateway_ipc \<Rightarrow> reader \<Rightarrow> int" where
  "clock ge s = ge_clock ge (rd_calls s)"

definition noteFailure :: "gateway_ipc \<Rightarrow> string \<Rightarrow> reader \<Rightarrow> reader" where
  "noteFailure ge op s =
     (let now = clock ge s
      in case jm_get (rd_failures s) op of
           None \<Rightarrow>
             s\<lparr>rd_failures := jm_set (rd_failures s) op
                 \<lparr>fs_consecutiveFailures = 1, fs_firstFailureAt = now, fs_lastWarnAt = now\<rparr>\<rparr>
         | Some f \<Rightarrow>
             s\<lparr>rd_failures := jm_set (rd_failures s) op
                 (f\<lparr>fs_consecutiveFailures := Suc (fs_consecutiveFailures f),
                    fs_lastWarnAt := (if DEFAULT_FAILURE_WARN_INTERVAL_MS \<le> now - fs_lastWarnAt f then now else fs_lastWarnAt f)\<rparr>)\<rparr>)"

definition noteSuccess :: "string \<Rightarrow> reader \<Rightarrow> reader" where
  "noteSuccess op s = s\<lparr>rd_failures := jm_delete (rd_failures s) op\<rparr>"

definition invalidateContactThresholdCache :: "string \<Rightarrow> reader \<Rightarrow> reader" where
  "invalidateContactThresholdCache cid s = s\<lparr>rd_contacts := jm_delete (rd_contacts s) cid\<rparr>"

definition invalidateAllContactThresholdCaches :: "reader \<Rightarrow> reader" where
  "invalidateAllContactThresholdCaches s = s\<lparr>rd_contacts := []\<rparr>"

definition count_call :: "reader \<Rightarrow> reader" where
  "count_call s = s\<lparr>rd_calls := Suc (rd_calls s)\<rparr>"

section \<open>Reading one layer\<close>

definition mapExecutionContextToField :: "ExecutionContext \<Rightarrow> GlobalThresholds \<Rightarrow> string" where
  "mapExecutionContextToField ctx =
     (case ctx of Conversation \<Rightarrow> gt_interactive | Headless \<Rightarrow> gt_headless | Background \<Rightarrow> gt_autonomous)"

datatype threshold_lookup = Hit RiskThreshold | Miss | Failure

text \<open>What a reply or a cache entry says: a usable threshold or none.\<close>

definition usable :: "string option \<Rightarrow> threshold_lookup" where
  "usable v = (case Option.bind v isRiskThreshold of None \<Rightarrow> Miss | Some t \<Rightarrow> Hit t)"

definition usable_entry :: "string option \<Rightarrow> string option" where
  "usable_entry v = (case Option.bind v isRiskThreshold of None \<Rightarrow> None | Some t \<Rightarrow> v)"

definition fetch_conversation :: "gateway_ipc \<Rightarrow> string \<Rightarrow> reader \<Rightarrow> threshold_lookup \<times> reader" where
  "fetch_conversation ge cid s =
     (let result = ge_conversation ge (rd_calls s) cid; s1 = count_call s
      in case result of
           None \<Rightarrow> (Failure, noteFailure ge ''conversation_threshold'' s1)
         | Some v \<Rightarrow>
             (let s2 = noteSuccess ''conversation_threshold'' s1
              in (usable v, s2\<lparr>rd_conversations := jm_set (rd_conversations s2) cid (usable_entry v, clock ge s2)\<rparr>)))"

definition read_conversation :: "gateway_ipc \<Rightarrow> string \<Rightarrow> reader \<Rightarrow> threshold_lookup \<times> reader" where
  "read_conversation ge cid s =
     (case jm_get (rd_conversations s) cid of
        Some (v, ts) \<Rightarrow>
          if clock ge s - ts < CONVERSATION_CACHE_TTL_MS then (usable v, s) else fetch_conversation ge cid s
      | None \<Rightarrow> fetch_conversation ge cid s)"

definition fetch_contact :: "gateway_ipc \<Rightarrow> string \<Rightarrow> reader \<Rightarrow> threshold_lookup \<times> reader" where
  "fetch_contact ge cid s =
     (let result = ge_contact ge (rd_calls s) cid; s1 = count_call s
      in case result of
           None \<Rightarrow> (Failure, noteFailure ge ''contact_threshold'' s1)
         | Some v \<Rightarrow>
             (let s2 = noteSuccess ''contact_threshold'' s1
              in (usable v, s2\<lparr>rd_contacts := jm_set (rd_contacts s2) cid (usable_entry v, clock ge s2)\<rparr>)))"

definition lookupContactThreshold ::
  "gateway_ipc \<Rightarrow> string \<Rightarrow> bool \<Rightarrow> reader \<Rightarrow> threshold_lookup \<times> reader" where
  "lookupContactThreshold ge cid bypassCache s =
     (case jm_get (rd_contacts s) cid of
        Some (v, ts) \<Rightarrow>
          if \<not> bypassCache \<and> clock ge s - ts < CONTACT_CACHE_TTL_MS then (usable v, s) else fetch_contact ge cid s
      | None \<Rightarrow> fetch_contact ge cid s)"

definition getContactAutoApproveThreshold ::
  "gateway_ipc \<Rightarrow> string option \<Rightarrow> reader \<Rightarrow> RiskThreshold option \<times> reader" where
  "getContactAutoApproveThreshold ge contactId s =
     (case truthy contactId of
        None \<Rightarrow> (None, s)
      | Some cid \<Rightarrow>
          (case lookupContactThreshold ge cid False s of
             (Hit t, s1) \<Rightarrow> (Some t, s1)
           | (_, s1) \<Rightarrow> (None, s1)))"

definition valid_resolution :: "(string \<times> ChannelPermissionScope) option \<Rightarrow> ResolvedChannelPermission option" where
  "valid_resolution r =
     (case r of None \<Rightarrow> None | Some (t, sc) \<Rightarrow> map_option (\<lambda>v. (v, sc)) (isRiskThreshold t))"

definition fetch_cell ::
  "gateway_ipc \<Rightarrow> ResolveChannelPermissionRequest \<Rightarrow> reader \<Rightarrow> ChannelPermissionCellResult \<times> reader" where
  "fetch_cell ge q s =
     (let result = ge_cell ge (rd_calls s) q; s1 = count_call s
      in case result of
           None \<Rightarrow> (CellFail, noteFailure ge ''channel_permission_cell'' s1)
         | Some r \<Rightarrow>
             (let s2 = noteSuccess ''channel_permission_cell'' s1
              in (CellOk (valid_resolution r),
                  s2\<lparr>rd_cells := jm_set (rd_cells s2) q (valid_resolution r, clock ge s2)\<rparr>)))"

definition resolveChannelPermissionCell ::
  "gateway_ipc \<Rightarrow> ResolveChannelPermissionRequest \<Rightarrow> bool \<Rightarrow> reader \<Rightarrow> ChannelPermissionCellResult \<times> reader" where
  "resolveChannelPermissionCell ge q bypassCache s =
     (case jm_get (rd_cells s) q of
        Some (r, ts) \<Rightarrow>
          if \<not> bypassCache \<and> clock ge s - ts < CELL_CACHE_TTL_MS then (CellOk r, s) else fetch_cell ge q s
      | None \<Rightarrow> fetch_cell ge q s)"

definition fetch_global :: "gateway_ipc \<Rightarrow> reader \<Rightarrow> GlobalThresholds option \<times> reader" where
  "fetch_global ge s =
     (let result = ge_global ge (rd_calls s); s1 = count_call s
      in case result of
           None \<Rightarrow> (None, s1)
         | Some g \<Rightarrow>
             (let s2 = noteSuccess ''global_thresholds'' s1
              in (Some g, s2\<lparr>rd_global := Some (g, clock ge s2)\<rparr>)))"

text \<open>\<open>None\<close> is the exception the function throws.\<close>

definition fetchGlobalThresholds :: "gateway_ipc \<Rightarrow> bool \<Rightarrow> reader \<Rightarrow> GlobalThresholds option \<times> reader" where
  "fetchGlobalThresholds ge bypassCache s =
     (case rd_global s of
        Some (g, ts) \<Rightarrow>
          if \<not> bypassCache \<and> clock ge s - ts < GLOBAL_CACHE_TTL_MS then (Some g, s) else fetch_global ge s
      | None \<Rightarrow> fetch_global ge s)"

definition room_default :: "GlobalThresholds \<Rightarrow> RiskThreshold option" where
  "room_default g = map_option collapseChannelThresholdForContact (isRiskThreshold (gt_interactive g))"

definition resolveContactRoomDefaultThreshold ::
  "gateway_ipc \<Rightarrow> bool \<Rightarrow> reader \<Rightarrow> RiskThreshold option \<times> reader" where
  "resolveContactRoomDefaultThreshold ge bypassCache s =
     (case fetchGlobalThresholds ge bypassCache s of (g, s1) \<Rightarrow> (Option.bind g room_default, s1))"

definition channelNoCellDefault ::
  "gateway_ipc \<Rightarrow> ChannelPermissionCellResult \<Rightarrow> TrustClass \<Rightarrow> bool \<Rightarrow> reader \<Rightarrow> RiskThreshold option \<times> reader" where
  "channelNoCellDefault ge cell ct bypassCache s =
     (if cell = CellOk None \<and> ct \<noteq> Guardian then resolveContactRoomDefaultThreshold ge bypassCache s else (None, s))"

section \<open>The cascade\<close>

text \<open>The effective cell threshold of a query: shared by the hot path and the refresh.\<close>

definition cell_layer ::
  "gateway_ipc \<Rightarrow> ResolveChannelPermissionRequest \<Rightarrow> bool \<Rightarrow> reader \<Rightarrow>
     ChannelPermissionCellResult \<times> RiskThreshold option \<times> reader" where
  "cell_layer ge q bypassCache s =
     (case resolveChannelPermissionCell ge q bypassCache s of (cell, s1) \<Rightarrow>
        case channelNoCellDefault ge cell (rq_contactType q) bypassCache s1 of (d, s2) \<Rightarrow>
          (cell, effectiveChannelCellThreshold cell (rq_contactType q) d, s2))"

definition global_layer :: "gateway_ipc \<Rightarrow> ExecutionContext \<Rightarrow> reader \<Rightarrow> RiskThreshold \<times> reader" where
  "global_layer ge ctx s =
     (case fetchGlobalThresholds ge False s of
        (None, s1) \<Rightarrow> (TNone, noteFailure ge ''global_thresholds'' s1)
      | (Some g, s1) \<Rightarrow>
          (case isRiskThreshold (mapExecutionContextToField ctx g) of Some t \<Rightarrow> (t, s1) | None \<Rightarrow> (TNone, s1)))"

definition after_contact ::
  "gateway_ipc \<Rightarrow> ExecutionContext \<Rightarrow> ResolveChannelPermissionRequest option \<Rightarrow> reader \<Rightarrow> RiskThreshold \<times> reader" where
  "after_contact ge ctx cellQuery s =
     (case cellQuery of
        None \<Rightarrow> global_layer ge ctx s
      | Some q \<Rightarrow>
          (case cell_layer ge q False s of (cell, effective, s1) \<Rightarrow>
             if cell = CellFail \<and> rq_contactType q \<noteq> Guardian then (TNone, s1)
             else case effective of Some t \<Rightarrow> (t, s1) | None \<Rightarrow> global_layer ge ctx s1))"

definition after_conversation ::
  "gateway_ipc \<Rightarrow> ExecutionContext \<Rightarrow> ResolveChannelPermissionRequest option \<Rightarrow> string option \<Rightarrow> reader \<Rightarrow> RiskThreshold \<times> reader" where
  "after_conversation ge ctx cellQuery contactId s =
     (case truthy contactId of
        None \<Rightarrow> after_contact ge ctx cellQuery s
      | Some cid \<Rightarrow>
          (case lookupContactThreshold ge cid False s of
             (Hit t, s1) \<Rightarrow> (t, s1)
           | (_, s1) \<Rightarrow> after_contact ge ctx cellQuery s1))"

definition context_of :: "ExecutionContext option \<Rightarrow> ExecutionContext" where
  "context_of c = (case c of None \<Rightarrow> Conversation | Some x \<Rightarrow> x)"

text \<open>The conversation whose override applies, if any.\<close>

definition override_of :: "string option \<Rightarrow> ExecutionContext \<Rightarrow> string option" where
  "override_of conversationId ctx = (if ctx = Conversation then truthy conversationId else None)"

definition getAutoApproveThreshold ::
  "gateway_ipc \<Rightarrow> string option \<Rightarrow> ExecutionContext option \<Rightarrow> ResolveChannelPermissionRequest option \<Rightarrow> string option \<Rightarrow>
     reader \<Rightarrow> RiskThreshold \<times> reader" where
  "getAutoApproveThreshold ge conversationId executionContext cellQuery contactId s =
     (let ctx = context_of executionContext
      in case override_of conversationId ctx of
           None \<Rightarrow> after_conversation ge ctx cellQuery contactId s
         | Some cid \<Rightarrow>
             (case read_conversation ge cid s of
                (Hit t, s1) \<Rightarrow> (t, s1)
              | (_, s1) \<Rightarrow> after_conversation ge ctx cellQuery contactId s1))"

text \<open>The refresh reads the same layers past the caches and gives up where a layer cannot be read.\<close>

definition refresh_global :: "gateway_ipc \<Rightarrow> ExecutionContext \<Rightarrow> reader \<Rightarrow> RiskThreshold option \<times> reader" where
  "refresh_global ge ctx s =
     (case fetch_global ge s of
        (None, s1) \<Rightarrow> (None, noteFailure ge ''global_thresholds'' s1)
      | (Some g, s1) \<Rightarrow> (isRiskThreshold (mapExecutionContextToField ctx g), s1))"

definition refresh_after_contact ::
  "gateway_ipc \<Rightarrow> ExecutionContext \<Rightarrow> ResolveChannelPermissionRequest option \<Rightarrow> reader \<Rightarrow> RiskThreshold option \<times> reader" where
  "refresh_after_contact ge ctx cellQuery s =
     (case cellQuery of
        None \<Rightarrow> refresh_global ge ctx s
      | Some q \<Rightarrow>
          (case cell_layer ge q True s of (cell, effective, s1) \<Rightarrow>
             if cell = CellFail then (None, s1)
             else case effective of Some t \<Rightarrow> (Some t, s1) | None \<Rightarrow> refresh_global ge ctx s1))"

definition refresh_after_conversation ::
  "gateway_ipc \<Rightarrow> ExecutionContext \<Rightarrow> ResolveChannelPermissionRequest option \<Rightarrow> string option \<Rightarrow> reader \<Rightarrow>
     RiskThreshold option \<times> reader" where
  "refresh_after_conversation ge ctx cellQuery contactId s =
     (case truthy contactId of
        None \<Rightarrow> refresh_after_contact ge ctx cellQuery s
      | Some cid \<Rightarrow>
          (case lookupContactThreshold ge cid True s of
             (Failure, s1) \<Rightarrow> (None, s1)
           | (Hit t, s1) \<Rightarrow> (Some t, s1)
           | (Miss, s1) \<Rightarrow> refresh_after_contact ge ctx cellQuery s1))"

definition refreshAutoApproveThreshold ::
  "gateway_ipc \<Rightarrow> string option \<Rightarrow> ExecutionContext option \<Rightarrow> ResolveChannelPermissionRequest option \<Rightarrow> string option \<Rightarrow>
     reader \<Rightarrow> RiskThreshold option \<times> reader" where
  "refreshAutoApproveThreshold ge conversationId executionContext cellQuery contactId s =
     (let ctx = context_of executionContext
      in case override_of conversationId ctx of
           None \<Rightarrow> refresh_after_conversation ge ctx cellQuery contactId s
         | Some cid \<Rightarrow>
             (case fetch_conversation ge cid s of
                (Failure, s1) \<Rightarrow> (None, s1)
              | (Hit t, s1) \<Rightarrow> (Some t, s1)
              | (Miss, s1) \<Rightarrow> refresh_after_conversation ge ctx cellQuery contactId s1))"

section \<open>What the gateway's tables say\<close>

text \<open>The cascade over the tables, each layer read from a state of its own.\<close>

definition conversation_says :: "threshold_db \<Rightarrow> string option \<Rightarrow> RiskThreshold option" where
  "conversation_says db cid = Option.bind cid (\<lambda>c. Option.bind (get_conversation_threshold db c) isRiskThreshold)"

definition contact_says :: "threshold_db \<Rightarrow> string option \<Rightarrow> RiskThreshold option" where
  "contact_says db contactId = Option.bind (truthy contactId) (\<lambda>c. Option.bind (get_contact_threshold db c) isRiskThreshold)"

definition channel_says :: "threshold_db \<Rightarrow> threshold_db \<Rightarrow> ResolveChannelPermissionRequest option \<Rightarrow> RiskThreshold option" where
  "channel_says db dg cellQuery =
     Option.bind cellQuery (\<lambda>q. effectiveChannelCellThreshold (CellOk (cell_resolve (td_cells db) q)) (rq_contactType q)
       (room_default (get_global_thresholds dg)))"

definition global_says :: "threshold_db \<Rightarrow> ExecutionContext \<Rightarrow> RiskThreshold option" where
  "global_says db ctx = isRiskThreshold (mapExecutionContextToField ctx (get_global_thresholds db))"

text \<open>The four layers in order; the room default and the globals are read from states of their own.\<close>

definition cascade ::
  "threshold_db \<Rightarrow> threshold_db \<Rightarrow> threshold_db \<Rightarrow> threshold_db \<Rightarrow> threshold_db \<Rightarrow>
     string option \<Rightarrow> ExecutionContext option \<Rightarrow> ResolveChannelPermissionRequest option \<Rightarrow> string option \<Rightarrow> RiskThreshold option" where
  "cascade dconv dcontact dcell droom dglobal conversationId executionContext cellQuery contactId =
     (let ctx = context_of executionContext
      in first_some id [conversation_says dconv (override_of conversationId ctx), contact_says dcontact contactId,
           channel_says dcell droom cellQuery, global_says dglobal ctx])"

text \<open>
  A reachable gateway with history \<open>h\<close>: call number \<open>n\<close> is answered by the handlers from the tables
  at some moment between the time before and the time after it, at most \<open>L\<close> milliseconds later.
\<close>

definition served_at :: "gateway_ipc \<Rightarrow> nat \<Rightarrow> int \<Rightarrow> bool" where
  "served_at ge n t = (ge_clock ge n \<le> t \<and> t \<le> ge_clock ge (Suc n))"

definition reachable_gateway :: "gateway_ipc \<Rightarrow> (int \<Rightarrow> threshold_db) \<Rightarrow> int \<Rightarrow> bool" where
  "reachable_gateway ge h L =
     (\<forall>n. ge_clock ge n \<le> ge_clock ge (Suc n) \<and> ge_clock ge (Suc n) \<le> ge_clock ge n + L \<and>
        (\<exists>t. served_at ge n t \<and> ge_global ge n = Some (get_global_thresholds (h t))) \<and>
        (\<forall>cid. \<exists>t. served_at ge n t \<and> ge_conversation ge n cid = Some (get_conversation_threshold (h t) cid)) \<and>
        (\<forall>cid. \<exists>t. served_at ge n t \<and> ge_contact ge n cid = Some (get_contact_threshold (h t) cid)) \<and>
        (\<forall>q. request_valid q \<longrightarrow> (\<exists>t. served_at ge n t \<and>
           ge_cell ge n q = Some (map_option (\<lambda>(v, sc). (threshold_string v, sc)) (cell_resolve (td_cells (h t)) q)))))"

text \<open>Every cache entry stamped \<open>ts\<close> is what the tables said at most \<open>L\<close> before \<open>ts\<close>.\<close>

definition stamped :: "int \<Rightarrow> int \<Rightarrow> int \<Rightarrow> bool" where
  "stamped L ts t = (ts - L \<le> t \<and> t \<le> ts)"

definition honest_map :: "int \<Rightarrow> int \<Rightarrow> (int \<Rightarrow> 'k \<Rightarrow> 'v \<Rightarrow> bool) \<Rightarrow> ('k, 'v \<times> int) jsmap \<Rightarrow> bool" where
  "honest_map L now said m = (\<forall>k v ts. jm_get m k = Some (v, ts) \<longrightarrow> ts \<le> now \<and> (\<exists>t. stamped L ts t \<and> said t k v))"

definition caches_honest :: "gateway_ipc \<Rightarrow> (int \<Rightarrow> threshold_db) \<Rightarrow> int \<Rightarrow> reader \<Rightarrow> bool" where
  "caches_honest ge h L s =
     ((\<forall>g ts. rd_global s = Some (g, ts) \<longrightarrow> ts \<le> clock ge s \<and> (\<exists>t. stamped L ts t \<and> g = get_global_thresholds (h t))) \<and>
      honest_map L (clock ge s) (\<lambda>t cid v. v = usable_entry (get_conversation_threshold (h t) cid)) (rd_conversations s) \<and>
      honest_map L (clock ge s) (\<lambda>t cid v. v = usable_entry (get_contact_threshold (h t) cid)) (rd_contacts s) \<and>
      honest_map L (clock ge s) (\<lambda>t q r. request_valid q \<longrightarrow> r = cell_resolve (td_cells (h t)) q) (rd_cells s))"

section \<open>Lemmas on one layer\<close>

lemma usable_entry_idem [simp]: "usable (usable_entry v) = usable v"
  by (auto simp: usable_def usable_entry_def split: option.splits)

lemma valid_resolution_string [simp]:
  "valid_resolution (map_option (\<lambda>(v, sc). (threshold_string v, sc)) r) = r"
  by (cases r) (auto simp: valid_resolution_def)

lemma note_simps [simp]:
  "rd_global (noteFailure ge op s) = rd_global s" "rd_conversations (noteFailure ge op s) = rd_conversations s"
  "rd_contacts (noteFailure ge op s) = rd_contacts s" "rd_cells (noteFailure ge op s) = rd_cells s"
  "rd_calls (noteFailure ge op s) = rd_calls s"
  "rd_global (noteSuccess op s) = rd_global s" "rd_conversations (noteSuccess op s) = rd_conversations s"
  "rd_contacts (noteSuccess op s) = rd_contacts s" "rd_cells (noteSuccess op s) = rd_cells s"
  "rd_calls (noteSuccess op s) = rd_calls s"
  "rd_global (count_call s) = rd_global s" "rd_conversations (count_call s) = rd_conversations s"
  "rd_contacts (count_call s) = rd_contacts s" "rd_cells (count_call s) = rd_cells s"
  "rd_calls (count_call s) = Suc (rd_calls s)"
  by (auto simp: noteFailure_def noteSuccess_def count_call_def Let_def split: option.splits)

lemma honest_map_set:
  "honest_map L now said m \<Longrightarrow> now \<le> ts \<Longrightarrow> stamped L ts t \<Longrightarrow> said t k v \<Longrightarrow> honest_map L ts said (jm_set m k (v, ts))"
  by (fastforce simp: honest_map_def)

lemma honest_map_later: "honest_map L now said m \<Longrightarrow> now \<le> now' \<Longrightarrow> honest_map L now' said m"
  by (fastforce simp: honest_map_def)

lemma clock_steps:
  assumes "reachable_gateway ge h L"
  shows "ge_clock ge n \<le> ge_clock ge (Suc n)" "ge_clock ge (Suc n) \<le> ge_clock ge n + L"
  using assms unfolding reachable_gateway_def by blast+

lemma served_stamped:
  assumes "reachable_gateway ge h L" "served_at ge n t"
  shows "stamped L (ge_clock ge (Suc n)) t"
  using clock_steps [OF assms(1), of n] assms(2) by (simp add: served_at_def stamped_def)

text \<open>
  The outcome of reading a layer: the answer is the tables' at a moment between \<open>lo\<close> and the end of
  the read, time has not gone back and the caches are still honest.
\<close>

definition read_in :: "gateway_ipc \<Rightarrow> (int \<Rightarrow> threshold_db) \<Rightarrow> int \<Rightarrow> int \<Rightarrow> reader \<Rightarrow> reader \<Rightarrow> (threshold_db \<Rightarrow> bool) \<Rightarrow> bool" where
  "read_in ge h L lo s s1 ans =
     ((\<exists>t. lo \<le> t \<and> t \<le> clock ge s1 \<and> ans (h t)) \<and> clock ge s \<le> clock ge s1 \<and>
      (caches_honest ge h L s \<longrightarrow> caches_honest ge h L s1))"

lemma read_inE:
  assumes "read_in ge h L lo s s1 ans"
  obtains t where "lo \<le> t" "t \<le> clock ge s1" "ans (h t)" "clock ge s \<le> clock ge s1"
    "caches_honest ge h L s \<longrightarrow> caches_honest ge h L s1"
  using assms unfolding read_in_def by blast

lemma read_in_served:
  assumes "served_at ge (rd_calls s) t" and "ans (h t)" and "rd_calls s1 = Suc (rd_calls s)"
    and "caches_honest ge h L s \<Longrightarrow> caches_honest ge h L s1"
  shows "read_in ge h L (clock ge s) s s1 ans"
  using assms by (auto simp: read_in_def clock_def served_at_def)

text \<open>A cache hit: the entry's moment is within the cache's lifetime and the latency.\<close>

lemma read_in_cached:
  assumes "caches_honest ge h L s" and "clock ge s - ts < W" and "stamped L ts t" and "ans (h t)" and "ts \<le> clock ge s"
  shows "read_in ge h L (clock ge s - W - L) s s ans"
  using assms by (auto simp: read_in_def stamped_def intro: exI [of _ t])

lemma read_in_wider: "read_in ge h L lo s s1 ans \<Longrightarrow> lo' \<le> lo \<Longrightarrow> read_in ge h L lo' s s1 ans"
  unfolding read_in_def by (meson order_trans)

lemma fetch_conversation_reads:
  assumes g: "reachable_gateway ge h L" and r: "fetch_conversation ge cid s = (r, s1)"
  shows "read_in ge h L (clock ge s) s s1 (\<lambda>db. r = usable (get_conversation_threshold db cid))"
proof -
  from g obtain t where t: "served_at ge (rd_calls s) t"
    "ge_conversation ge (rd_calls s) cid = Some (get_conversation_threshold (h t) cid)"
    unfolding reachable_gateway_def by blast
  from served_stamped [OF g t(1)] show ?thesis
    by (intro read_in_served [OF t(1)])
      (use t(2) r clock_steps(1) [OF g, of "rd_calls s"] in
        \<open>auto simp: fetch_conversation_def Let_def clock_def caches_honest_def intro: honest_map_set honest_map_later order_trans\<close>)
qed

lemma fetch_contact_reads:
  assumes g: "reachable_gateway ge h L" and r: "fetch_contact ge cid s = (r, s1)"
  shows "read_in ge h L (clock ge s) s s1 (\<lambda>db. r = usable (get_contact_threshold db cid))"
proof -
  from g obtain t where t: "served_at ge (rd_calls s) t"
    "ge_contact ge (rd_calls s) cid = Some (get_contact_threshold (h t) cid)"
    unfolding reachable_gateway_def by blast
  from served_stamped [OF g t(1)] show ?thesis
    by (intro read_in_served [OF t(1)])
      (use t(2) r clock_steps(1) [OF g, of "rd_calls s"] in
        \<open>auto simp: fetch_contact_def Let_def clock_def caches_honest_def intro: honest_map_set honest_map_later order_trans\<close>)
qed

lemma fetch_cell_reads:
  assumes g: "reachable_gateway ge h L" and q: "request_valid q" and r: "fetch_cell ge q s = (r, s1)"
  shows "read_in ge h L (clock ge s) s s1 (\<lambda>db. r = CellOk (cell_resolve (td_cells db) q))"
proof -
  from g q obtain t where t: "served_at ge (rd_calls s) t"
    "ge_cell ge (rd_calls s) q = Some (map_option (\<lambda>(v, sc). (threshold_string v, sc)) (cell_resolve (td_cells (h t)) q))"
    unfolding reachable_gateway_def by blast
  from served_stamped [OF g t(1)] show ?thesis
    by (intro read_in_served [OF t(1)])
      (use t(2) r clock_steps(1) [OF g, of "rd_calls s"] in
        \<open>auto simp: fetch_cell_def Let_def clock_def caches_honest_def intro: honest_map_set honest_map_later order_trans\<close>)
qed

lemma fetch_global_reads:
  assumes g: "reachable_gateway ge h L" and r: "fetch_global ge s = (r, s1)"
  shows "read_in ge h L (clock ge s) s s1 (\<lambda>db. r = Some (get_global_thresholds db))"
proof -
  from g obtain t where t: "served_at ge (rd_calls s) t"
    "ge_global ge (rd_calls s) = Some (get_global_thresholds (h t))"
    unfolding reachable_gateway_def by blast
  from served_stamped [OF g t(1)] show ?thesis
    by (intro read_in_served [OF t(1)])
      (use t(2) r clock_steps(1) [OF g, of "rd_calls s"] in
        \<open>auto simp: fetch_global_def Let_def clock_def caches_honest_def intro: honest_map_later order_trans\<close>)
qed

lemma latency_nonneg: "reachable_gateway ge h L \<Longrightarrow> 0 \<le> L"
  using clock_steps [of ge h L 0] by simp

lemma read_conversation_reads:
  assumes g: "reachable_gateway ge h L" and ok: "caches_honest ge h L s" and r: "read_conversation ge cid s = (r, s1)"
  shows "read_in ge h L (clock ge s - CONVERSATION_CACHE_TTL_MS - L) s s1 (\<lambda>db. r = usable (get_conversation_threshold db cid))"
proof (cases "\<exists>v ts. jm_get (rd_conversations s) cid = Some (v, ts) \<and> clock ge s - ts < CONVERSATION_CACHE_TTL_MS")
  case True
  then obtain v ts where e: "jm_get (rd_conversations s) cid = Some (v, ts)" "clock ge s - ts < CONVERSATION_CACHE_TTL_MS"
    by blast
  with ok obtain t where "ts \<le> clock ge s" "stamped L ts t" "v = usable_entry (get_conversation_threshold (h t) cid)"
    unfolding caches_honest_def honest_map_def by blast
  with e r ok show ?thesis by (auto simp: read_conversation_def intro!: read_in_cached [of _ _ _ _ ts _ t])
next
  case False
  then have "fetch_conversation ge cid s = (r, s1)"
    using r by (auto simp: read_conversation_def split: option.splits if_splits)
  from fetch_conversation_reads [OF g this] show ?thesis
    by (rule read_in_wider) (use latency_nonneg [OF g] in \<open>simp add: CONVERSATION_CACHE_TTL_MS_def\<close>)
qed

lemma lookupContact_reads:
  assumes g: "reachable_gateway ge h L" and ok: "caches_honest ge h L s"
    and r: "lookupContactThreshold ge cid False s = (r, s1)"
  shows "read_in ge h L (clock ge s - CONTACT_CACHE_TTL_MS - L) s s1 (\<lambda>db. r = usable (get_contact_threshold db cid))"
proof (cases "\<exists>v ts. jm_get (rd_contacts s) cid = Some (v, ts) \<and> clock ge s - ts < CONTACT_CACHE_TTL_MS")
  case True
  then obtain v ts where e: "jm_get (rd_contacts s) cid = Some (v, ts)" "clock ge s - ts < CONTACT_CACHE_TTL_MS"
    by blast
  with ok obtain t where "ts \<le> clock ge s" "stamped L ts t" "v = usable_entry (get_contact_threshold (h t) cid)"
    unfolding caches_honest_def honest_map_def by blast
  with e r ok show ?thesis by (auto simp: lookupContactThreshold_def intro!: read_in_cached [of _ _ _ _ ts _ t])
next
  case False
  then have "fetch_contact ge cid s = (r, s1)"
    using r by (auto simp: lookupContactThreshold_def split: option.splits if_splits)
  from fetch_contact_reads [OF g this] show ?thesis
    by (rule read_in_wider) (use latency_nonneg [OF g] in \<open>simp add: CONTACT_CACHE_TTL_MS_def\<close>)
qed

lemma resolveCell_reads:
  assumes g: "reachable_gateway ge h L" and ok: "caches_honest ge h L s" and q: "request_valid q"
    and r: "resolveChannelPermissionCell ge q False s = (r, s1)"
  shows "read_in ge h L (clock ge s - CELL_CACHE_TTL_MS - L) s s1 (\<lambda>db. r = CellOk (cell_resolve (td_cells db) q))"
proof (cases "\<exists>v ts. jm_get (rd_cells s) q = Some (v, ts) \<and> clock ge s - ts < CELL_CACHE_TTL_MS")
  case True
  then obtain v ts where e: "jm_get (rd_cells s) q = Some (v, ts)" "clock ge s - ts < CELL_CACHE_TTL_MS" by blast
  with ok q obtain t where "ts \<le> clock ge s" "stamped L ts t" "v = cell_resolve (td_cells (h t)) q"
    unfolding caches_honest_def honest_map_def by blast
  with e r ok show ?thesis by (auto simp: resolveChannelPermissionCell_def intro!: read_in_cached [of _ _ _ _ ts _ t])
next
  case False
  then have "fetch_cell ge q s = (r, s1)"
    using r by (auto simp: resolveChannelPermissionCell_def split: option.splits if_splits)
  from fetch_cell_reads [OF g q this] show ?thesis
    by (rule read_in_wider) (use latency_nonneg [OF g] in \<open>simp add: CELL_CACHE_TTL_MS_def\<close>)
qed

lemma fetchGlobal_reads:
  assumes g: "reachable_gateway ge h L" and ok: "caches_honest ge h L s"
    and r: "fetchGlobalThresholds ge False s = (r, s1)"
  shows "read_in ge h L (clock ge s - GLOBAL_CACHE_TTL_MS - L) s s1 (\<lambda>db. r = Some (get_global_thresholds db))"
proof (cases "\<exists>v ts. rd_global s = Some (v, ts) \<and> clock ge s - ts < GLOBAL_CACHE_TTL_MS")
  case True
  then obtain v ts where e: "rd_global s = Some (v, ts)" "clock ge s - ts < GLOBAL_CACHE_TTL_MS" by blast
  with ok obtain t where "ts \<le> clock ge s" "stamped L ts t" "v = get_global_thresholds (h t)"
    unfolding caches_honest_def by blast
  with e r ok show ?thesis by (auto simp: fetchGlobalThresholds_def intro!: read_in_cached [of _ _ _ _ ts _ t])
next
  case False
  then have "fetch_global ge s = (r, s1)"
    using r by (auto simp: fetchGlobalThresholds_def split: option.splits if_splits)
  from fetch_global_reads [OF g this] show ?thesis
    by (rule read_in_wider) (use latency_nonneg [OF g] in \<open>simp add: GLOBAL_CACHE_TTL_MS_def\<close>)
qed

section \<open>The cascade against the tables\<close>

definition strict :: "RiskThreshold option \<Rightarrow> RiskThreshold" where
  "strict o' = (case o' of None \<Rightarrow> TNone | Some t \<Rightarrow> t)"

text \<open>A moment at most \<open>ttl\<close> and a latency before the start of a read, and not after its end.\<close>

definition recent :: "gateway_ipc \<Rightarrow> int \<Rightarrow> int \<Rightarrow> reader \<Rightarrow> reader \<Rightarrow> int \<Rightarrow> bool" where
  "recent ge L ttl s s1 t = (clock ge s - ttl - L \<le> t \<and> t \<le> clock ge s1)"

definition settled :: "gateway_ipc \<Rightarrow> (int \<Rightarrow> threshold_db) \<Rightarrow> int \<Rightarrow> reader \<Rightarrow> reader \<Rightarrow> bool" where
  "settled ge h L s s1 = (clock ge s \<le> clock ge s1 \<and> caches_honest ge h L s1)"

lemma recent_start: "clock ge s \<le> clock ge s1 \<Longrightarrow> 0 \<le> L \<Longrightarrow> 0 \<le> ttl \<Longrightarrow> recent ge L ttl s s1 (clock ge s)"
  by (simp add: recent_def)

lemma recent_wider:
  "recent ge L ttl s1 s2 t \<Longrightarrow> clock ge s \<le> clock ge s1 \<Longrightarrow> clock ge s2 \<le> clock ge s3 \<Longrightarrow> recent ge L ttl s s3 t"
  by (simp add: recent_def)

lemma read_in_recent:
  assumes "read_in ge h L (clock ge s - ttl - L) s s1 ans" "caches_honest ge h L s"
  obtains t where "recent ge L ttl s s1 t" "ans (h t)" "settled ge h L s s1"
  using assms unfolding read_in_def recent_def settled_def by blast

lemma usable_cases:
  "usable v = Hit t \<longleftrightarrow> Option.bind v isRiskThreshold = Some t" "usable v = Miss \<longleftrightarrow> Option.bind v isRiskThreshold = None"
  "usable v \<noteq> Failure"
  by (auto simp: usable_def split: option.splits)

lemma honest_noteFailure [simp]: "caches_honest ge h L (noteFailure ge' op s) = caches_honest ge h L s"
  by (simp add: caches_honest_def clock_def)

lemma global_layer_reads:
  assumes g: "reachable_gateway ge h L" and ok: "caches_honest ge h L s" and r: "global_layer ge ctx s = (r, s1)"
  obtains t where "recent ge L GLOBAL_CACHE_TTL_MS s s1 t" "r = strict (global_says (h t) ctx)" "settled ge h L s s1"
proof -
  obtain v s' where f: "fetchGlobalThresholds ge False s = (v, s')" by force
  obtain t where t: "recent ge L GLOBAL_CACHE_TTL_MS s s' t" "v = Some (get_global_thresholds (h t))" "settled ge h L s s'"
    using read_in_recent [OF fetchGlobal_reads [OF g ok f] ok] by blast
  have "s1 = s'" "r = strict (global_says (h t) ctx)"
    using r f t(2) by (auto simp: global_layer_def global_says_def strict_def split: option.splits)
  with t that show thesis by blast
qed

lemma cell_layer_reads:
  assumes g: "reachable_gateway ge h L" and ok: "caches_honest ge h L s" and q: "request_valid q"
    and r: "cell_layer ge q False s = (cell, eff, s1)"
  obtains a b where "recent ge L CELL_CACHE_TTL_MS s s1 a" "recent ge L GLOBAL_CACHE_TTL_MS s s1 b"
    "cell \<noteq> CellFail" "eff = channel_says (h a) (h b) (Some q)" "settled ge h L s s1"
proof -
  obtain c s' where f: "resolveChannelPermissionCell ge q False s = (c, s')" by force
  obtain a where a: "recent ge L CELL_CACHE_TTL_MS s s' a" "c = CellOk (cell_resolve (td_cells (h a)) q)" "settled ge h L s s'"
    using read_in_recent [OF resolveCell_reads [OF g ok q f] ok] by blast
  obtain d s2 where d: "channelNoCellDefault ge c (rq_contactType q) False s' = (d, s2)" by force
  have out: "cell = c" "eff = effectiveChannelCellThreshold c (rq_contactType q) d" "s1 = s2"
    using r by (auto simp: cell_layer_def f d)
  show thesis
  proof (cases "c = CellOk None \<and> rq_contactType q \<noteq> Guardian")
    case True
    obtain v where v: "fetchGlobalThresholds ge False s' = (v, s2)" "d = Option.bind v room_default"
      using d True by (auto simp: channelNoCellDefault_def resolveContactRoomDefaultThreshold_def split: prod.splits)
    have ok': "caches_honest ge h L s'" using a(3) by (simp add: settled_def)
    obtain b where b: "recent ge L GLOBAL_CACHE_TTL_MS s' s2 b" "v = Some (get_global_thresholds (h b))" "settled ge h L s' s2"
      using read_in_recent [OF fetchGlobal_reads [OF g ok' v(1)] ok'] by blast
    show thesis
    proof (rule that [of a b])
      show "recent ge L CELL_CACHE_TTL_MS s s1 a" "recent ge L GLOBAL_CACHE_TTL_MS s s1 b" "settled ge h L s s1"
        using a b out by (auto simp: settled_def recent_def)
      show "cell \<noteq> CellFail" "eff = channel_says (h a) (h b) (Some q)"
        using a(2) b(2) v(2) out by (auto simp: channel_says_def)
    qed
  next
    case False
    then have s2: "s2 = s'" "d = None" using d by (auto simp: channelNoCellDefault_def)
    show thesis
    proof (rule that [of a "clock ge s"])
      show "recent ge L CELL_CACHE_TTL_MS s s1 a" "settled ge h L s s1" using a out s2 by simp_all
      then show "recent ge L GLOBAL_CACHE_TTL_MS s s1 (clock ge s)"
        using latency_nonneg [OF g] by (auto simp: settled_def GLOBAL_CACHE_TTL_MS_def intro: recent_start)
      show "cell \<noteq> CellFail" using a(2) out by simp
      show "eff = channel_says (h a) (h (clock ge s)) (Some q)"
        using False a(2) out s2 by (cases "cell_resolve (td_cells (h a)) q") (auto simp: channel_says_def)
    qed
  qed
qed

lemma after_contact_reads:
  assumes g: "reachable_gateway ge h L" and ok: "caches_honest ge h L s"
    and q: "\<And>q. cellQuery = Some q \<Longrightarrow> request_valid q" and r: "after_contact ge ctx cellQuery s = (r, s1)"
  obtains a b c where "recent ge L CELL_CACHE_TTL_MS s s1 a" "recent ge L GLOBAL_CACHE_TTL_MS s s1 b"
    "recent ge L GLOBAL_CACHE_TTL_MS s s1 c"
    "r = strict (first_some id [channel_says (h a) (h b) cellQuery, global_says (h c) ctx])" "settled ge h L s s1"
proof (cases cellQuery)
  case None
  then obtain c where c: "recent ge L GLOBAL_CACHE_TTL_MS s s1 c" "r = strict (global_says (h c) ctx)" "settled ge h L s s1"
    using r by (auto simp: after_contact_def intro: global_layer_reads [OF g ok])
  then show thesis
    using None latency_nonneg [OF g]
    by (intro that [of "clock ge s" "clock ge s" c])
      (auto simp: channel_says_def settled_def CELL_CACHE_TTL_MS_def GLOBAL_CACHE_TTL_MS_def strict_def intro: recent_start split: option.splits)
next
  case (Some q0)
  obtain cell eff s' where l: "cell_layer ge q0 False s = (cell, eff, s')" by (metis prod_cases3)
  from cell_layer_reads [OF g ok q [OF Some] l] obtain a b where
    ab: "recent ge L CELL_CACHE_TTL_MS s s' a" "recent ge L GLOBAL_CACHE_TTL_MS s s' b" "cell \<noteq> CellFail"
      "eff = channel_says (h a) (h b) (Some q0)" and s': "settled ge h L s s'" .
  show thesis
  proof (cases eff)
    case None
    then have gl: "global_layer ge ctx s' = (r, s1)" using r l ab(3) Some by (simp add: after_contact_def)
    obtain c where c: "recent ge L GLOBAL_CACHE_TTL_MS s' s1 c" "r = strict (global_says (h c) ctx)" "settled ge h L s' s1"
      using s' by (auto simp: settled_def intro: global_layer_reads [OF g _ gl])
    show thesis
      by (rule that [of a b c]) (use ab c s' None Some in \<open>auto simp: settled_def recent_def strict_def split: option.splits\<close>)
  next
    case (Some t)
    then have "r = t" "s1 = s'" using r l ab(3) \<open>cellQuery = Some q0\<close> by (simp_all add: after_contact_def)
    with ab s' Some \<open>cellQuery = Some q0\<close> latency_nonneg [OF g] show thesis
      by (intro that [of a b "clock ge s"])
        (auto simp: settled_def strict_def GLOBAL_CACHE_TTL_MS_def intro: recent_start split: option.splits)
  qed
qed

lemma after_conversation_reads:
  assumes g: "reachable_gateway ge h L" and ok: "caches_honest ge h L s"
    and q: "\<And>q. cellQuery = Some q \<Longrightarrow> request_valid q" and r: "after_conversation ge ctx cellQuery contactId s = (r, s1)"
  obtains k a b c where "recent ge L CONTACT_CACHE_TTL_MS s s1 k" "recent ge L CELL_CACHE_TTL_MS s s1 a"
    "recent ge L GLOBAL_CACHE_TTL_MS s s1 b" "recent ge L GLOBAL_CACHE_TTL_MS s s1 c"
    "r = strict (first_some id [contact_says (h k) contactId, channel_says (h a) (h b) cellQuery, global_says (h c) ctx])"
    "settled ge h L s s1"
proof (cases "truthy contactId")
  case None
  then have "after_contact ge ctx cellQuery s = (r, s1)" using r by (simp add: after_conversation_def)
  from after_contact_reads [OF g ok q this] obtain a b c where
    "recent ge L CELL_CACHE_TTL_MS s s1 a" "recent ge L GLOBAL_CACHE_TTL_MS s s1 b" "recent ge L GLOBAL_CACHE_TTL_MS s s1 c"
    "r = strict (first_some id [channel_says (h a) (h b) cellQuery, global_says (h c) ctx])" "settled ge h L s s1" .
  with None latency_nonneg [OF g] show thesis
    by (intro that [of "clock ge s" a b c]) (auto simp: contact_says_def settled_def CONTACT_CACHE_TTL_MS_def intro: recent_start)
next
  case (Some cid)
  obtain l s' where lk: "lookupContactThreshold ge cid False s = (l, s')" by force
  obtain k where k: "recent ge L CONTACT_CACHE_TTL_MS s s' k" "l = usable (get_contact_threshold (h k) cid)" "settled ge h L s s'"
    using read_in_recent [OF lookupContact_reads [OF g ok lk] ok] by blast
  show thesis
  proof (cases "contact_says (h k) contactId")
    case None
    then have "l = Miss" using k(2) Some by (simp add: contact_says_def usable_cases)
    then have rest: "after_contact ge ctx cellQuery s' = (r, s1)" using r lk Some by (simp add: after_conversation_def)
    have ok': "caches_honest ge h L s'" using k(3) by (simp add: settled_def)
    from after_contact_reads [OF g ok' q rest] obtain a b c where
      abc: "recent ge L CELL_CACHE_TTL_MS s' s1 a" "recent ge L GLOBAL_CACHE_TTL_MS s' s1 b" "recent ge L GLOBAL_CACHE_TTL_MS s' s1 c"
        "r = strict (first_some id [channel_says (h a) (h b) cellQuery, global_says (h c) ctx])" "settled ge h L s' s1" .
    show thesis
      by (rule that [of k a b c]) (use k abc None in \<open>auto simp: settled_def recent_def\<close>)
  next
    case (Some t)
    then have "l = Hit t" using k(2) \<open>truthy contactId = Some cid\<close> by (simp add: contact_says_def usable_cases)
    then have "r = t" "s1 = s'" using r lk \<open>truthy contactId = Some cid\<close> by (simp_all add: after_conversation_def)
    with k Some latency_nonneg [OF g] show thesis
      by (intro that [of k "clock ge s" "clock ge s" "clock ge s"])
        (auto simp: settled_def strict_def CELL_CACHE_TTL_MS_def GLOBAL_CACHE_TTL_MS_def intro: recent_start)
  qed
qed

lemma get_reads:
  assumes g: "reachable_gateway ge h L" and ok: "caches_honest ge h L s"
    and q: "\<And>q. cellQuery = Some q \<Longrightarrow> request_valid q"
    and r: "getAutoApproveThreshold ge conversationId executionContext cellQuery contactId s = (r, s1)"
  obtains v k a b c where "recent ge L CONVERSATION_CACHE_TTL_MS s s1 v" "recent ge L CONTACT_CACHE_TTL_MS s s1 k"
    "recent ge L CELL_CACHE_TTL_MS s s1 a" "recent ge L GLOBAL_CACHE_TTL_MS s s1 b" "recent ge L GLOBAL_CACHE_TTL_MS s s1 c"
    "r = strict (cascade (h v) (h k) (h a) (h b) (h c) conversationId executionContext cellQuery contactId)"
    "settled ge h L s s1"
proof (cases "override_of conversationId (context_of executionContext)")
  case None
  then have "after_conversation ge (context_of executionContext) cellQuery contactId s = (r, s1)"
    using r by (simp add: getAutoApproveThreshold_def Let_def)
  from after_conversation_reads [OF g ok q this] obtain k a b c where
    "recent ge L CONTACT_CACHE_TTL_MS s s1 k" "recent ge L CELL_CACHE_TTL_MS s s1 a"
    "recent ge L GLOBAL_CACHE_TTL_MS s s1 b" "recent ge L GLOBAL_CACHE_TTL_MS s s1 c"
    "r = strict (first_some id [contact_says (h k) contactId, channel_says (h a) (h b) cellQuery, global_says (h c) (context_of executionContext)])"
    "settled ge h L s s1" .
  with None latency_nonneg [OF g] show thesis
    by (intro that [of "clock ge s" k a b c])
      (auto simp: cascade_def Let_def conversation_says_def settled_def CONVERSATION_CACHE_TTL_MS_def intro: recent_start)
next
  case (Some cid)
  obtain l s' where lk: "read_conversation ge cid s = (l, s')" by force
  obtain v where v: "recent ge L CONVERSATION_CACHE_TTL_MS s s' v" "l = usable (get_conversation_threshold (h v) cid)" "settled ge h L s s'"
    using read_in_recent [OF read_conversation_reads [OF g ok lk] ok] by blast
  show thesis
  proof (cases "conversation_says (h v) (Some cid)")
    case None
    then have "l = Miss" using v(2) by (simp add: conversation_says_def usable_cases)
    then have rest: "after_conversation ge (context_of executionContext) cellQuery contactId s' = (r, s1)"
      using r lk Some by (simp add: getAutoApproveThreshold_def Let_def)
    have ok': "caches_honest ge h L s'" using v(3) by (simp add: settled_def)
    from after_conversation_reads [OF g ok' q rest] obtain k a b c where
      kabc: "recent ge L CONTACT_CACHE_TTL_MS s' s1 k" "recent ge L CELL_CACHE_TTL_MS s' s1 a"
      "recent ge L GLOBAL_CACHE_TTL_MS s' s1 b" "recent ge L GLOBAL_CACHE_TTL_MS s' s1 c"
      "r = strict (first_some id [contact_says (h k) contactId, channel_says (h a) (h b) cellQuery, global_says (h c) (context_of executionContext)])"
      "settled ge h L s' s1" .
    show thesis
      by (rule that [of v k a b c]) (use v kabc None Some in \<open>auto simp: cascade_def Let_def settled_def recent_def\<close>)
  next
    case (Some t)
    then have "l = Hit t" using v(2) by (simp add: conversation_says_def usable_cases)
    then have "r = t" "s1 = s'" using r lk \<open>override_of conversationId _ = Some cid\<close>
      by (simp_all add: getAutoApproveThreshold_def Let_def)
    with v Some \<open>override_of conversationId _ = Some cid\<close> latency_nonneg [OF g] show thesis
      by (intro that [of v "clock ge s" "clock ge s" "clock ge s" "clock ge s"])
        (auto simp: cascade_def Let_def settled_def strict_def CONTACT_CACHE_TTL_MS_def CELL_CACHE_TTL_MS_def
          GLOBAL_CACHE_TTL_MS_def intro: recent_start)
  qed
qed

text \<open>Reading never takes calls back, so the clock of a reachable gateway does not go back either.\<close>

lemma layer_calls:
  "rd_calls s \<le> rd_calls (snd (read_conversation ge cid s))"
  "rd_calls s \<le> rd_calls (snd (lookupContactThreshold ge cid bypassCache s))"
  "rd_calls s \<le> rd_calls (snd (resolveChannelPermissionCell ge q bypassCache s))"
  "rd_calls s \<le> rd_calls (snd (fetchGlobalThresholds ge bypassCache s))"
  by (auto simp: read_conversation_def fetch_conversation_def lookupContactThreshold_def fetch_contact_def
      resolveChannelPermissionCell_def fetch_cell_def fetchGlobalThresholds_def fetch_global_def Let_def split: option.splits)

lemma cell_layer_calls: "rd_calls s \<le> rd_calls (snd (snd (cell_layer ge q bypassCache s)))"
  using layer_calls(3) [of s ge q bypassCache] layer_calls(4) [of "snd (resolveChannelPermissionCell ge q bypassCache s)" ge bypassCache]
  by (auto simp: cell_layer_def channelNoCellDefault_def resolveContactRoomDefaultThreshold_def split: prod.splits if_splits)

lemma global_layer_calls: "rd_calls s \<le> rd_calls (snd (global_layer ge ctx s))"
  using layer_calls(4) [of s ge False] by (auto simp: global_layer_def split: prod.splits option.splits)

lemma after_contact_calls: "rd_calls s \<le> rd_calls (snd (after_contact ge ctx cellQuery s))"
proof (cases cellQuery)
  case None
  then show ?thesis by (simp add: after_contact_def global_layer_calls)
next
  case (Some q)
  obtain cell eff s1 where l: "cell_layer ge q False s = (cell, eff, s1)" by (metis prod_cases3)
  have "rd_calls s \<le> rd_calls s1" using cell_layer_calls [of s ge q False] l by simp
  with global_layer_calls [of s1 ge ctx] show ?thesis
    using Some l by (cases eff) (auto simp: after_contact_def)
qed

lemma after_conversation_calls: "rd_calls s \<le> rd_calls (snd (after_conversation ge ctx cellQuery contactId s))"
proof (cases "truthy contactId")
  case None
  then show ?thesis by (simp add: after_conversation_def after_contact_calls)
next
  case (Some cid)
  obtain l s1 where l: "lookupContactThreshold ge cid False s = (l, s1)" by force
  have "rd_calls s \<le> rd_calls s1" using layer_calls(2) [of s ge cid False] l by simp
  with after_contact_calls [of s1 ge ctx cellQuery] show ?thesis
    using Some l by (cases l) (auto simp: after_conversation_def)
qed

lemma get_calls: "rd_calls s \<le> rd_calls (snd (getAutoApproveThreshold ge conversationId executionContext cellQuery contactId s))"
proof (cases "override_of conversationId (context_of executionContext)")
  case None
  then show ?thesis by (simp add: getAutoApproveThreshold_def Let_def after_conversation_calls)
next
  case (Some cid)
  obtain l s1 where l: "read_conversation ge cid s = (l, s1)" by force
  have "rd_calls s \<le> rd_calls s1" using layer_calls(1) [of s ge cid] l by simp
  with after_conversation_calls [of s1 ge "context_of executionContext" cellQuery contactId] show ?thesis
    using Some l by (cases l) (auto simp: getAutoApproveThreshold_def Let_def)
qed

lemma get_clock:
  assumes "reachable_gateway ge h L"
  shows "clock ge s \<le> clock ge (snd (getAutoApproveThreshold ge conversationId executionContext cellQuery contactId s))"
  unfolding clock_def using clock_steps(1) [OF assms] get_calls by (rule lift_Suc_mono_le)

section \<open>The refresh against the tables\<close>

lemma bypass [simp]:
  "lookupContactThreshold ge cid True s = fetch_contact ge cid s"
  "resolveChannelPermissionCell ge q True s = fetch_cell ge q s"
  "fetchGlobalThresholds ge True s = fetch_global ge s"
  by (auto simp: lookupContactThreshold_def resolveChannelPermissionCell_def fetchGlobalThresholds_def split: option.splits)

text \<open>A moment during the read itself.\<close>

definition during :: "gateway_ipc \<Rightarrow> reader \<Rightarrow> reader \<Rightarrow> int \<Rightarrow> bool" where
  "during ge s s1 t = (clock ge s \<le> t \<and> t \<le> clock ge s1)"

lemma read_in_during:
  assumes "read_in ge h L (clock ge s) s s1 ans"
  obtains t where "during ge s s1 t" "ans (h t)"
  using assms unfolding read_in_def during_def by blast

lemma during_shift:
  "during ge s s1 t \<Longrightarrow> during ge s1 s2 u \<Longrightarrow> during ge s s2 t \<and> during ge s s2 u \<and> during ge s s2 (clock ge s)"
  by (auto simp: during_def)

lemma during_start: "during ge s s1 t \<Longrightarrow> during ge s s1 (clock ge s)"
  by (auto simp: during_def)

lemma refresh_global_reads:
  assumes g: "reachable_gateway ge h L" and r: "refresh_global ge ctx s = (r, s1)"
  obtains t where "during ge s s1 t" "r = global_says (h t) ctx"
proof -
  obtain v s' where f: "fetch_global ge s = (v, s')" by force
  from read_in_during [OF fetch_global_reads [OF g f]] obtain t where
    t: "during ge s s' t" "v = Some (get_global_thresholds (h t))" .
  then show thesis using r f by (intro that [of t]) (auto simp: refresh_global_def global_says_def)
qed

lemma refresh_cell_reads:
  assumes g: "reachable_gateway ge h L" and q: "request_valid q" and r: "cell_layer ge q True s = (cell, eff, s1)"
  obtains a b where "during ge s s1 a" "during ge s s1 b" "cell \<noteq> CellFail" "eff = channel_says (h a) (h b) (Some q)"
proof -
  obtain c s' where f: "fetch_cell ge q s = (c, s')" by force
  from read_in_during [OF fetch_cell_reads [OF g q f]] obtain a where
    a: "during ge s s' a" "c = CellOk (cell_resolve (td_cells (h a)) q)" .
  obtain d s2 where d: "channelNoCellDefault ge c (rq_contactType q) True s' = (d, s2)" by force
  have out: "cell = c" "eff = effectiveChannelCellThreshold c (rq_contactType q) d" "s1 = s2"
    using r by (auto simp: cell_layer_def f d)
  show thesis
  proof (cases "c = CellOk None \<and> rq_contactType q \<noteq> Guardian")
    case True
    obtain v where v: "fetch_global ge s' = (v, s2)" "d = Option.bind v room_default"
      using d True by (auto simp: channelNoCellDefault_def resolveContactRoomDefaultThreshold_def split: prod.splits)
    from read_in_during [OF fetch_global_reads [OF g v(1)]] obtain b where
      b: "during ge s' s2 b" "v = Some (get_global_thresholds (h b))" .
    show thesis
      using during_shift [OF a(1) b(1)] a(2) b(2) v(2) out by (intro that [of a b]) (auto simp: channel_says_def)
  next
    case False
    then have "s2 = s'" "d = None" using d by (auto simp: channelNoCellDefault_def)
    then show thesis
      using False a out by (intro that [of a a]; cases "cell_resolve (td_cells (h a)) q") (auto simp: channel_says_def)
  qed
qed

lemma refresh_after_contact_reads:
  assumes g: "reachable_gateway ge h L" and q: "\<And>q. cellQuery = Some q \<Longrightarrow> request_valid q"
    and r: "refresh_after_contact ge ctx cellQuery s = (r, s1)"
  obtains a b c where "during ge s s1 a" "during ge s s1 b" "during ge s s1 c"
    "r = first_some id [channel_says (h a) (h b) cellQuery, global_says (h c) ctx]"
proof (cases cellQuery)
  case None
  then have "refresh_global ge ctx s = (r, s1)" using r by (simp add: refresh_after_contact_def)
  from refresh_global_reads [OF g this] obtain c where "during ge s s1 c" "r = global_says (h c) ctx" .
  then show thesis using None by (intro that [of c c c]) (auto simp: channel_says_def split: option.splits)
next
  case (Some q0)
  obtain cell eff s' where l: "cell_layer ge q0 True s = (cell, eff, s')" by (metis prod_cases3)
  from refresh_cell_reads [OF g q [OF Some] l] obtain a b where
    ab: "during ge s s' a" "during ge s s' b" "cell \<noteq> CellFail" "eff = channel_says (h a) (h b) (Some q0)" .
  show thesis
  proof (cases eff)
    case None
    then have gl: "refresh_global ge ctx s' = (r, s1)" using r l ab(3) Some by (simp add: refresh_after_contact_def)
    from refresh_global_reads [OF g gl] obtain c where c: "during ge s' s1 c" "r = global_says (h c) ctx" .
    show thesis
      by (rule that [of a b c])
        (use during_shift [OF ab(1) c(1)] during_shift [OF ab(2) c(1)] ab c None Some in \<open>auto split: option.splits\<close>)
  next
    case (Some t)
    then have "r = Some t" "s1 = s'" using r l ab(3) \<open>cellQuery = Some q0\<close> by (simp_all add: refresh_after_contact_def)
    moreover have "channel_says (h a) (h b) cellQuery = Some t" using ab(4) Some \<open>cellQuery = Some q0\<close> by simp
    ultimately show thesis using ab by (intro that [of a b a]) simp_all
  qed
qed

lemma refresh_after_conversation_reads:
  assumes g: "reachable_gateway ge h L" and q: "\<And>q. cellQuery = Some q \<Longrightarrow> request_valid q"
    and r: "refresh_after_conversation ge ctx cellQuery contactId s = (r, s1)"
  obtains k a b c where "during ge s s1 k" "during ge s s1 a" "during ge s s1 b" "during ge s s1 c"
    "r = first_some id [contact_says (h k) contactId, channel_says (h a) (h b) cellQuery, global_says (h c) ctx]"
proof (cases "truthy contactId")
  case None
  then have "refresh_after_contact ge ctx cellQuery s = (r, s1)" using r by (simp add: refresh_after_conversation_def)
  from refresh_after_contact_reads [OF g q this] obtain a b c where
    "during ge s s1 a" "during ge s s1 b" "during ge s s1 c"
    "r = first_some id [channel_says (h a) (h b) cellQuery, global_says (h c) ctx]" .
  with None show thesis by (intro that [of a a b c]) (auto simp: contact_says_def)
next
  case (Some cid)
  obtain l s' where lk: "fetch_contact ge cid s = (l, s')" by force
  from read_in_during [OF fetch_contact_reads [OF g lk]] obtain k where
    k: "during ge s s' k" "l = usable (get_contact_threshold (h k) cid)" .
  show thesis
  proof (cases "contact_says (h k) contactId")
    case None
    then have "l = Miss" using k(2) Some by (simp add: contact_says_def usable_cases)
    then have rest: "refresh_after_contact ge ctx cellQuery s' = (r, s1)"
      using r lk Some by (simp add: refresh_after_conversation_def)
    from refresh_after_contact_reads [OF g q rest] obtain a b c where
      abc: "during ge s' s1 a" "during ge s' s1 b" "during ge s' s1 c"
        "r = first_some id [channel_says (h a) (h b) cellQuery, global_says (h c) ctx]" .
    show thesis
      by (rule that [of k a b c])
        (use during_shift [OF k(1) abc(1)] during_shift [OF k(1) abc(2)] during_shift [OF k(1) abc(3)] abc(4) None in auto)
  next
    case (Some t)
    then have "l = Hit t" using k(2) \<open>truthy contactId = Some cid\<close> by (simp add: contact_says_def usable_cases)
    then have "r = Some t" "s1 = s'" using r lk \<open>truthy contactId = Some cid\<close> by (simp_all add: refresh_after_conversation_def)
    with k Some show thesis by (intro that [of k k k k]) (auto split: option.splits)
  qed
qed

lemma refresh_reads:
  assumes g: "reachable_gateway ge h L" and q: "\<And>q. cellQuery = Some q \<Longrightarrow> request_valid q"
    and r: "refreshAutoApproveThreshold ge conversationId executionContext cellQuery contactId s = (r, s1)"
  obtains v k a b c where "during ge s s1 v" "during ge s s1 k" "during ge s s1 a" "during ge s s1 b" "during ge s s1 c"
    "r = cascade (h v) (h k) (h a) (h b) (h c) conversationId executionContext cellQuery contactId"
proof (cases "override_of conversationId (context_of executionContext)")
  case None
  then have "refresh_after_conversation ge (context_of executionContext) cellQuery contactId s = (r, s1)"
    using r by (simp add: refreshAutoApproveThreshold_def Let_def)
  from refresh_after_conversation_reads [OF g q this] obtain k a b c where
    "during ge s s1 k" "during ge s s1 a" "during ge s s1 b" "during ge s s1 c"
    "r = first_some id [contact_says (h k) contactId, channel_says (h a) (h b) cellQuery, global_says (h c) (context_of executionContext)]" .
  with None show thesis by (intro that [of k k a b c]) (auto simp: cascade_def Let_def conversation_says_def)
next
  case (Some cid)
  obtain l s' where lk: "fetch_conversation ge cid s = (l, s')" by force
  from read_in_during [OF fetch_conversation_reads [OF g lk]] obtain v where
    v: "during ge s s' v" "l = usable (get_conversation_threshold (h v) cid)" .
  show thesis
  proof (cases "conversation_says (h v) (Some cid)")
    case None
    then have "l = Miss" using v(2) by (simp add: conversation_says_def usable_cases)
    then have rest: "refresh_after_conversation ge (context_of executionContext) cellQuery contactId s' = (r, s1)"
      using r lk Some by (simp add: refreshAutoApproveThreshold_def Let_def)
    from refresh_after_conversation_reads [OF g q rest] obtain k a b c where
      kabc: "during ge s' s1 k" "during ge s' s1 a" "during ge s' s1 b" "during ge s' s1 c"
        "r = first_some id [contact_says (h k) contactId, channel_says (h a) (h b) cellQuery, global_says (h c) (context_of executionContext)]" .
    show thesis
      by (rule that [of v k a b c])
        (use during_shift [OF v(1) kabc(1)] during_shift [OF v(1) kabc(2)] during_shift [OF v(1) kabc(3)]
            during_shift [OF v(1) kabc(4)] kabc(5) None Some in \<open>auto simp: cascade_def Let_def\<close>)
  next
    case (Some t)
    then have "l = Hit t" using v(2) by (simp add: conversation_says_def usable_cases)
    then have "r = Some t" "s1 = s'" using r lk \<open>override_of conversationId _ = Some cid\<close>
      by (simp_all add: refreshAutoApproveThreshold_def Let_def)
    with v Some \<open>override_of conversationId _ = Some cid\<close> show thesis
      by (intro that [of v v v v v]) (auto simp: cascade_def Let_def)
  qed
qed

text \<open>Reads past the caches leave them honest too.\<close>

lemma read_in_settled: "read_in ge h L lo s s1 ans \<Longrightarrow> caches_honest ge h L s \<Longrightarrow> settled ge h L s s1"
  by (auto simp: read_in_def settled_def)

lemma settled_trans: "settled ge h L s s1 \<Longrightarrow> settled ge h L s1 s2 \<Longrightarrow> settled ge h L s s2"
  by (auto simp: settled_def)

lemma settled_honest: "settled ge h L s s1 \<Longrightarrow> caches_honest ge h L s1"
  by (simp add: settled_def)

lemma settled_refl: "caches_honest ge h L s \<Longrightarrow> settled ge h L s s"
  by (simp add: settled_def)

lemma refresh_global_settled:
  assumes "reachable_gateway ge h L" "caches_honest ge h L s" "refresh_global ge ctx s = (r, s1)"
  shows "settled ge h L s s1"
proof -
  obtain v s' where f: "fetch_global ge s = (v, s')" by force
  have "settled ge h L s s'" by (rule read_in_settled [OF fetch_global_reads [OF assms(1) f] assms(2)])
  then show ?thesis using assms(3) f by (cases v) (auto simp: refresh_global_def settled_def clock_def)
qed

lemma refresh_cell_settled:
  assumes g: "reachable_gateway ge h L" and ok: "caches_honest ge h L s" and q: "request_valid q"
    and r: "cell_layer ge q True s = (cell, eff, s1)"
  shows "settled ge h L s s1"
proof -
  obtain c s' where f: "fetch_cell ge q s = (c, s')" by force
  have 1: "settled ge h L s s'" by (rule read_in_settled [OF fetch_cell_reads [OF g q f] ok])
  obtain v s2 where v: "fetch_global ge s' = (v, s2)" by force
  have "settled ge h L s' s2" by (rule read_in_settled [OF fetch_global_reads [OF g v] settled_honest [OF 1]])
  from settled_trans [OF 1 this] 1 show ?thesis
    using r f v
    by (auto simp: cell_layer_def channelNoCellDefault_def resolveContactRoomDefaultThreshold_def split: if_splits prod.splits)
qed

lemma refresh_after_contact_settled:
  assumes g: "reachable_gateway ge h L" and ok: "caches_honest ge h L s"
    and q: "\<And>q. cellQuery = Some q \<Longrightarrow> request_valid q" and r: "refresh_after_contact ge ctx cellQuery s = (r, s1)"
  shows "settled ge h L s s1"
proof (cases cellQuery)
  case None
  then show ?thesis using r refresh_global_settled [OF g ok] by (simp add: refresh_after_contact_def)
next
  case (Some q0)
  obtain cell eff s' where l: "cell_layer ge q0 True s = (cell, eff, s')" by (metis prod_cases3)
  note 1 = refresh_cell_settled [OF g ok q [OF Some] l]
  show ?thesis
  proof (cases "cell \<noteq> CellFail \<and> eff = None")
    case True
    then have "refresh_global ge ctx s' = (r, s1)" using r l Some by (simp add: refresh_after_contact_def)
    from settled_trans [OF 1 refresh_global_settled [OF g settled_honest [OF 1] this]] show ?thesis .
  next
    case False
    then have "s1 = s'" using r l Some by (auto simp: refresh_after_contact_def split: if_splits)
    with 1 show ?thesis by simp
  qed
qed

lemma refresh_after_conversation_settled:
  assumes g: "reachable_gateway ge h L" and ok: "caches_honest ge h L s"
    and q: "\<And>q. cellQuery = Some q \<Longrightarrow> request_valid q" and r: "refresh_after_conversation ge ctx cellQuery contactId s = (r, s1)"
  shows "settled ge h L s s1"
proof (cases "truthy contactId")
  case None
  then show ?thesis using r refresh_after_contact_settled [OF g ok q] by (simp add: refresh_after_conversation_def)
next
  case (Some cid)
  obtain l s' where lk: "fetch_contact ge cid s = (l, s')" by force
  note 1 = read_in_settled [OF fetch_contact_reads [OF g lk] ok]
  show ?thesis
  proof (cases "l = Miss")
    case True
    then have "refresh_after_contact ge ctx cellQuery s' = (r, s1)" using r lk Some by (simp add: refresh_after_conversation_def)
    from settled_trans [OF 1 refresh_after_contact_settled [OF g settled_honest [OF 1] q this]] show ?thesis .
  next
    case False
    then have "s1 = s'" using r lk Some by (cases l) (auto simp: refresh_after_conversation_def)
    with 1 show ?thesis by simp
  qed
qed

lemma refresh_settled:
  assumes g: "reachable_gateway ge h L" and ok: "caches_honest ge h L s"
    and q: "\<And>q. cellQuery = Some q \<Longrightarrow> request_valid q"
    and r: "refreshAutoApproveThreshold ge conversationId executionContext cellQuery contactId s = (r, s1)"
  shows "settled ge h L s s1"
proof (cases "override_of conversationId (context_of executionContext)")
  case None
  then show ?thesis using r refresh_after_conversation_settled [OF g ok q] by (simp add: refreshAutoApproveThreshold_def Let_def)
next
  case (Some cid)
  obtain l s' where lk: "fetch_conversation ge cid s = (l, s')" by force
  note 1 = read_in_settled [OF fetch_conversation_reads [OF g lk] ok]
  show ?thesis
  proof (cases "l = Miss")
    case True
    then have "refresh_after_conversation ge (context_of executionContext) cellQuery contactId s' = (r, s1)"
      using r lk Some by (simp add: refreshAutoApproveThreshold_def Let_def)
    from settled_trans [OF 1 refresh_after_conversation_settled [OF g settled_honest [OF 1] q this]] show ?thesis .
  next
    case False
    then have "s1 = s'" using r lk Some by (cases l) (auto simp: refreshAutoApproveThreshold_def Let_def)
    with 1 show ?thesis by simp
  qed
qed

section \<open>Properties\<close>

text \<open>C34: Bounded staleness of the threshold the assistant enforces. While the gateway answers, the
  cached read returns the cascade of the gateway's own tables -- conversation override, contact
  ceiling, channel cell or room default, global default, and strict when nothing is usable -- where
  each layer is the table's content at most five seconds (thirty for the globals) and one IPC
  latency before the read began; the caches stay honest, so this holds for every later read.\<close>

theorem threshold_staleness_bounded:
  assumes "reachable_gateway ge h L" and "caches_honest ge h L s"
    and "\<And>q. cellQuery = Some q \<Longrightarrow> request_valid q"
    and "getAutoApproveThreshold ge conversationId executionContext cellQuery contactId s = (r, s1)"
  shows "(\<exists>v k a b c.
      recent ge L CONVERSATION_CACHE_TTL_MS s s1 v \<and> recent ge L CONTACT_CACHE_TTL_MS s s1 k \<and>
      recent ge L CELL_CACHE_TTL_MS s s1 a \<and> recent ge L GLOBAL_CACHE_TTL_MS s s1 b \<and> recent ge L GLOBAL_CACHE_TTL_MS s s1 c \<and>
      r = strict (cascade (h v) (h k) (h a) (h b) (h c) conversationId executionContext cellQuery contactId)) \<and>
    caches_honest ge h L s1"
proof -
  obtain v k a b c where *: "recent ge L CONVERSATION_CACHE_TTL_MS s s1 v" "recent ge L CONTACT_CACHE_TTL_MS s s1 k"
    "recent ge L CELL_CACHE_TTL_MS s s1 a" "recent ge L GLOBAL_CACHE_TTL_MS s s1 b" "recent ge L GLOBAL_CACHE_TTL_MS s s1 c"
    "r = strict (cascade (h v) (h k) (h a) (h b) (h c) conversationId executionContext cellQuery contactId)"
    "settled ge h L s s1"
    by (rule get_reads [OF assms]) simp_all
  from *(7) have "caches_honest ge h L s1" by (simp add: settled_def)
  with *(1-6) show ?thesis by blast
qed

text \<open>The refresh before a prompt reads what the tables hold now: whatever the caches contain,
  it returns the cascade of the tables as they are between its start and its end.\<close>

theorem refresh_reads_current:
  assumes "reachable_gateway ge h L" and "\<And>q. cellQuery = Some q \<Longrightarrow> request_valid q"
    and "refreshAutoApproveThreshold ge conversationId executionContext cellQuery contactId s = (r, s1)"
  shows "\<exists>v k a b c. during ge s s1 v \<and> during ge s s1 k \<and> during ge s s1 a \<and> during ge s s1 b \<and> during ge s s1 c \<and>
      r = cascade (h v) (h k) (h a) (h b) (h c) conversationId executionContext cellQuery contactId"
proof -
  obtain v k a b c where "during ge s s1 v" "during ge s s1 k" "during ge s s1 a" "during ge s s1 b" "during ge s s1 c"
    "r = cascade (h v) (h k) (h a) (h b) (h c) conversationId executionContext cellQuery contactId"
    by (rule refresh_reads [OF assms]) simp_all
  then show ?thesis by blast
qed

lemma fetch_conversation_cases:
  assumes "fetch_conversation ge cid s = (l, s1)"
  obtains "l = Failure" "ge_conversation ge (rd_calls s) cid = None"
    | v where "ge_conversation ge (rd_calls s) cid = Some v" "l = usable v"
  using assms by (auto simp: fetch_conversation_def Let_def split: option.splits)

lemma fetch_contact_cases:
  assumes "fetch_contact ge cid s = (l, s1)"
  obtains "l = Failure" "ge_contact ge (rd_calls s) cid = None"
    | v where "ge_contact ge (rd_calls s) cid = Some v" "l = usable v"
  using assms by (auto simp: fetch_contact_def Let_def split: option.splits)

lemma usable_Hit: "usable v = Hit t \<longleftrightarrow> v = Some (threshold_string t)"
  by (cases v) (auto simp: usable_cases isRiskThreshold_Some)

lemma refresh_conversation_split:
  assumes "refreshAutoApproveThreshold ge conversationId executionContext cellQuery contactId s = (Some t, s1)"
    and "override_of conversationId (context_of executionContext) = Some cid"
  obtains "ge_conversation ge (rd_calls s) cid = Some (Some (threshold_string t))"
    | s' v where "ge_conversation ge (rd_calls s) cid = Some v"
        "refresh_after_conversation ge (context_of executionContext) cellQuery contactId s' = (Some t, s1)"
proof -
  obtain l s' where f: "fetch_conversation ge cid s = (l, s')" by force
  then show thesis
    by (rule fetch_conversation_cases)
      (use assms f in \<open>auto simp: refreshAutoApproveThreshold_def Let_def usable_Hit split: threshold_lookup.splits intro: that\<close>)
qed

lemma refresh_contact_split:
  assumes "refresh_after_conversation ge ctx cellQuery contactId s = (Some t, s1)" and "truthy contactId = Some k"
  obtains "ge_contact ge (rd_calls s) k = Some (Some (threshold_string t))"
    | s' v where "ge_contact ge (rd_calls s) k = Some v" "refresh_after_contact ge ctx cellQuery s' = (Some t, s1)"
proof -
  obtain l s' where f: "fetch_contact ge k s = (l, s')" by force
  then show thesis
    by (rule fetch_contact_cases)
      (use assms f in \<open>auto simp: refresh_after_conversation_def usable_Hit split: threshold_lookup.splits intro: that\<close>)
qed

text \<open>A refresh never steps over a layer it could not read: when the conversation override
  cannot be read it reports nothing (the caller keeps its prompt); when the contact ceiling cannot
  be read it reports at most the conversation override; when the channel cell cannot be read it
  reports at most the conversation override or the contact ceiling, never a global threshold.\<close>

theorem refresh_fails_closed:
  assumes "refreshAutoApproveThreshold ge conversationId executionContext cellQuery contactId s = (Some t, s1)"
  shows "(\<forall>cid. override_of conversationId (context_of executionContext) = Some cid \<longrightarrow> ge_conversation ge (rd_calls s) cid \<noteq> None) \<and>
    (\<forall>k. truthy contactId = Some k \<and> (\<forall>n. ge_contact ge n k = None) \<longrightarrow>
       (\<exists>cid. override_of conversationId (context_of executionContext) = Some cid \<and>
              ge_conversation ge (rd_calls s) cid = Some (Some (threshold_string t)))) \<and>
    (\<forall>q. cellQuery = Some q \<and> (\<forall>n. ge_cell ge n q = None) \<longrightarrow>
       (\<exists>cid. override_of conversationId (context_of executionContext) = Some cid \<and>
              ge_conversation ge (rd_calls s) cid = Some (Some (threshold_string t))) \<or>
       (\<exists>k n. truthy contactId = Some k \<and> ge_contact ge n k = Some (Some (threshold_string t))))"
proof -
  let ?o = "override_of conversationId (context_of executionContext)"
  let ?conv = "\<exists>cid. ?o = Some cid \<and> ge_conversation ge (rd_calls s) cid = Some (Some (threshold_string t))"
  have conversation: "?o = Some cid \<Longrightarrow> ge_conversation ge (rd_calls s) cid \<noteq> None" for cid
    by (rule refresh_conversation_split [OF assms]) auto
  have rest: "?conv \<or> (\<exists>s'. refresh_after_conversation ge (context_of executionContext) cellQuery contactId s' = (Some t, s1))"
  proof (cases ?o)
    case None
    then show ?thesis using assms by (auto simp: refreshAutoApproveThreshold_def Let_def)
  next
    case (Some cid)
    show ?thesis by (rule refresh_conversation_split [OF assms Some]) (use Some in blast)+
  qed
  have contact: ?conv if k: "truthy contactId = Some k" "\<And>n. ge_contact ge n k = None" for k
    using rest by (auto elim!: refresh_contact_split [OF _ k(1)] simp: k(2))
  have channel: "?conv \<or> (\<exists>k n. truthy contactId = Some k \<and> ge_contact ge n k = Some (Some (threshold_string t)))"
    if q: "cellQuery = Some q" "\<And>n. ge_cell ge n q = None" for q
  proof -
    have no: "refresh_after_contact ge ctx cellQuery s' \<noteq> (Some t, s2)" for ctx s' s2
      by (simp add: refresh_after_contact_def q cell_layer_def fetch_cell_def Let_def split: prod.splits)
    have "\<exists>k n. truthy contactId = Some k \<and> ge_contact ge n k = Some (Some (threshold_string t))"
      if r: "refresh_after_conversation ge ctx cellQuery contactId s' = (Some t, s1)" for ctx s'
    proof (cases "truthy contactId")
      case None
      then show ?thesis using r no by (simp add: refresh_after_conversation_def)
    next
      case (Some k)
      show ?thesis by (rule refresh_contact_split [OF r Some]) (use no Some in blast)+
    qed
    with rest show ?thesis by blast
  qed
  show ?thesis using conversation contact channel by (intro conjI allI impI) simp_all
qed

text \<open>No cache entry is young enough to be used now.\<close>

definition caches_cold :: "gateway_ipc \<Rightarrow> reader \<Rightarrow> bool" where
  "caches_cold ge s =
     ((\<forall>g ts. rd_global s = Some (g, ts) \<longrightarrow> GLOBAL_CACHE_TTL_MS \<le> clock ge s - ts) \<and>
      (\<forall>k v ts. jm_get (rd_conversations s) k = Some (v, ts) \<longrightarrow> CONVERSATION_CACHE_TTL_MS \<le> clock ge s - ts) \<and>
      (\<forall>k v ts. jm_get (rd_contacts s) k = Some (v, ts) \<longrightarrow> CONTACT_CACHE_TTL_MS \<le> clock ge s - ts) \<and>
      (\<forall>k v ts. jm_get (rd_cells s) k = Some (v, ts) \<longrightarrow> CELL_CACHE_TTL_MS \<le> clock ge s - ts))"

definition gateway_down :: "gateway_ipc \<Rightarrow> bool" where
  "gateway_down ge =
     (\<forall>n. ge_global ge n = None \<and> (\<forall>k. ge_conversation ge n k = None) \<and> (\<forall>k. ge_contact ge n k = None) \<and>
          (\<forall>q. ge_cell ge n q = None) \<and> ge_clock ge n \<le> ge_clock ge (Suc n))"

lemma caches_cold_failure: "gateway_down ge \<Longrightarrow> caches_cold ge s \<Longrightarrow> caches_cold ge (noteFailure ge op (count_call s))"
proof -
  assume "gateway_down ge" "caches_cold ge s"
  moreover have "clock ge s \<le> clock ge (noteFailure ge op (count_call s))"
    using \<open>gateway_down ge\<close> by (simp add: clock_def gateway_down_def)
  ultimately show ?thesis unfolding caches_cold_def note_simps by (smt (verit))
qed

lemma down_layers:
  assumes "gateway_down ge" "caches_cold ge s"
  shows "read_conversation ge cid s = (Failure, noteFailure ge ''conversation_threshold'' (count_call s))"
    and "lookupContactThreshold ge cid False s = (Failure, noteFailure ge ''contact_threshold'' (count_call s))"
    and "resolveChannelPermissionCell ge q False s = (CellFail, noteFailure ge ''channel_permission_cell'' (count_call s))"
    and "fetchGlobalThresholds ge False s = (None, count_call s)"
proof -
  note down = assms(1) [unfolded gateway_down_def] and cold = assms(2) [unfolded caches_cold_def]
  show "read_conversation ge cid s = (Failure, noteFailure ge ''conversation_threshold'' (count_call s))"
    using down cold by (cases "jm_get (rd_conversations s) cid")
      (auto simp: read_conversation_def fetch_conversation_def Let_def not_less [symmetric])
  show "lookupContactThreshold ge cid False s = (Failure, noteFailure ge ''contact_threshold'' (count_call s))"
    using down cold by (cases "jm_get (rd_contacts s) cid")
      (auto simp: lookupContactThreshold_def fetch_contact_def Let_def not_less [symmetric])
  show "resolveChannelPermissionCell ge q False s = (CellFail, noteFailure ge ''channel_permission_cell'' (count_call s))"
    using down cold by (cases "jm_get (rd_cells s) q")
      (auto simp: resolveChannelPermissionCell_def fetch_cell_def Let_def not_less [symmetric])
  show "fetchGlobalThresholds ge False s = (None, count_call s)"
    using down cold by (cases "rd_global s")
      (auto simp: fetchGlobalThresholds_def fetch_global_def Let_def not_less [symmetric])
qed

lemma global_layer_down: "gateway_down ge \<Longrightarrow> caches_cold ge s \<Longrightarrow> fst (global_layer ge ctx s) = TNone"
  by (simp add: global_layer_def down_layers)

lemma after_contact_down:
  assumes "gateway_down ge" "caches_cold ge s"
  shows "fst (after_contact ge ctx cellQuery s) = TNone"
  using assms caches_cold_failure [OF assms]
  by (cases cellQuery) (simp_all add: after_contact_def cell_layer_def channelNoCellDefault_def down_layers global_layer_down)

lemma after_conversation_down:
  assumes "gateway_down ge" "caches_cold ge s"
  shows "fst (after_conversation ge ctx cellQuery contactId s) = TNone"
  using assms caches_cold_failure [OF assms]
  by (cases "truthy contactId") (simp_all add: after_conversation_def down_layers after_contact_down)

lemma down_strict_read:
  assumes "gateway_down ge" "caches_cold ge s"
  shows "fst (getAutoApproveThreshold ge conversationId executionContext cellQuery contactId s) = TNone"
  using assms caches_cold_failure [OF assms]
  by (cases "override_of conversationId (context_of executionContext)")
    (simp_all add: getAutoApproveThreshold_def Let_def down_layers after_conversation_down)

lemma down_strict_refresh:
  assumes "gateway_down ge"
  shows "fst (refreshAutoApproveThreshold ge conversationId executionContext cellQuery contactId s) = None"
proof -
  note down = assms [unfolded gateway_down_def]
  have gl: "fst (refresh_global ge ctx s') = None" for ctx s'
    using down by (simp add: refresh_global_def fetch_global_def Let_def)
  have "fst (refresh_after_contact ge ctx cellQuery s') = None" for ctx s'
    using down gl by (cases cellQuery)
      (simp_all add: refresh_after_contact_def cell_layer_def fetch_cell_def Let_def channelNoCellDefault_def)
  then have "fst (refresh_after_conversation ge ctx cellQuery contactId s') = None" for ctx s'
    using down by (cases "truthy contactId") (simp_all add: refresh_after_conversation_def fetch_contact_def Let_def)
  then show ?thesis
    using down by (cases "override_of conversationId (context_of executionContext)")
      (simp_all add: refreshAutoApproveThreshold_def Let_def fetch_conversation_def)
qed

text \<open>An unreachable gateway approves nothing: with no cache entry young enough to use, every read
  of the threshold is the strict one, and every refresh reports nothing.\<close>

theorem threshold_down_is_strict:
  assumes "gateway_down ge" "caches_cold ge s"
  shows "fst (getAutoApproveThreshold ge conversationId executionContext cellQuery contactId s) = TNone \<and>
    fst (refreshAutoApproveThreshold ge conversationId executionContext cellQuery contactId s) = None"
  using down_strict_read [OF assms] down_strict_refresh [OF assms(1)] by blast

text \<open>In a channel, somebody other than the guardian is held to the two lowest levels: with a
  readable gateway, no override for the conversation and no ceiling of their own, the threshold
  read for their turn is at most low, whatever the cells and the globals say.\<close>

theorem contact_turn_capped:
  assumes "reachable_gateway ge h L" and "caches_honest ge h L s" and "request_valid q" and "rq_contactType q \<noteq> Guardian"
    and "\<And>t. isRiskThreshold (gt_interactive (get_global_thresholds (h t))) \<noteq> None"
    and "\<And>t. conversation_says (h t) (override_of conversationId (context_of executionContext)) = None"
    and "\<And>t. contact_says (h t) contactId = None"
    and "getAutoApproveThreshold ge conversationId executionContext (Some q) contactId s = (r, s1)"
  shows "r \<in> {TNone, TLow}"
proof -
  obtain v k a b c where r: "r = strict (cascade (h v) (h k) (h a) (h b) (h c) conversationId executionContext (Some q) contactId)"
    by (rule get_reads [OF assms(1,2) _ assms(8)]) (use assms(3) in auto)
  from assms(5) obtain t where "room_default (get_global_thresholds (h b)) = Some (collapseChannelThresholdForContact t)"
    unfolding room_default_def by (metis option.exhaust option.simps(9))
  then have "\<exists>t. channel_says (h a) (h b) (Some q) = Some (collapseChannelThresholdForContact t)"
    using assms(4) by (cases "cell_resolve (td_cells (h a)) q") (auto simp: channel_says_def)
  with r assms(6,7) show ?thesis
    by (auto simp: cascade_def Let_def strict_def collapseChannelThresholdForContact_def split: if_splits)
qed

text \<open>A contact's turn can consume a raw global threshold all the same: when the room default cannot
  be derived because one read of the globals fails, both the cached read and the refresh go on to
  read the globals again and return them uncollapsed.\<close>

definition flaky_gateway :: gateway_ipc where
  "flaky_gateway = \<lparr>
     ge_global = (\<lambda>n. if n = 1 then None
        else Some \<lparr>gt_interactive = ''high'', gt_autonomous = ''high'', gt_headless = ''high''\<rparr>),
     ge_conversation = (\<lambda>n k. Some None), ge_contact = (\<lambda>n k. Some None), ge_cell = (\<lambda>n q. Some None),
     ge_clock = (\<lambda>n. 100000 + int n)\<rparr>"

definition empty_reader :: reader where
  "empty_reader = \<lparr>rd_global = None, rd_conversations = [], rd_contacts = [], rd_cells = [], rd_failures = [], rd_calls = 0\<rparr>"

lemmas reader_eval = getAutoApproveThreshold_def refreshAutoApproveThreshold_def override_of_def context_of_def
  after_conversation_def after_contact_def refresh_after_conversation_def refresh_after_contact_def cell_layer_def
  resolveChannelPermissionCell_def fetch_cell_def channelNoCellDefault_def resolveContactRoomDefaultThreshold_def
  fetchGlobalThresholds_def fetch_global_def global_layer_def refresh_global_def valid_resolution_def
  mapExecutionContextToField_def isRiskThreshold_def count_call_def noteSuccess_def empty_reader_def clock_def jm_delete_def

theorem contact_gets_raw_global:
  "fst (getAutoApproveThreshold flaky_gateway None None (Some slack_room) None empty_reader) = THigh"
  "fst (refreshAutoApproveThreshold flaky_gateway None None (Some slack_room) None empty_reader) = Some THigh"
  by (simp_all add: reader_eval flaky_gateway_def slack_room_def)

section \<open>Witnesses\<close>

text \<open>A gateway whose tables do not change, asked at a fixed time.\<close>

definition steady_gateway :: "threshold_db \<Rightarrow> gateway_ipc" where
  "steady_gateway db = \<lparr>
     ge_global = (\<lambda>n. Some (get_global_thresholds db)),
     ge_conversation = (\<lambda>n k. Some (get_conversation_threshold db k)),
     ge_contact = (\<lambda>n k. Some (get_contact_threshold db k)),
     ge_cell = (\<lambda>n q. Some (map_option (\<lambda>(v, sc). (threshold_string v, sc)) (cell_resolve (td_cells db) q))),
     ge_clock = (\<lambda>n. 100000)\<rparr>"

definition demo_db :: threshold_db where
  "demo_db = \<lparr>td_global = None, td_conversations = [(''c1'', ''high'')], td_contacts = [(''p1'', Some ''low'')],
     td_cells = slack_table\<rparr>"

lemma steady_reachable: "reachable_gateway (steady_gateway db) (\<lambda>t. db) 0"
  by (auto simp: reachable_gateway_def served_at_def steady_gateway_def)

lemma empty_reader_honest: "caches_honest ge h L empty_reader"
  by (simp add: caches_honest_def honest_map_def empty_reader_def)

lemma slack_room_valid [simp]: "request_valid slack_room"
  by (simp add: request_valid_def slack_room_def)

lemma slack_room_cell: "cell_resolve slack_table slack_room = Some (TMedium, ScAdapter)"
  by code_simp

lemma demo_cascade:
  "cascade demo_db demo_db demo_db demo_db demo_db (Some ''c1'') None None None = Some THigh"
  "cascade demo_db demo_db demo_db demo_db demo_db (Some ''c2'') None (Some slack_room) None = Some TLow"
  using slack_room_cell
  by (simp_all add: cascade_def Let_def demo_db_def conversation_says_def contact_says_def channel_says_def
      get_conversation_threshold_def override_of_def context_of_def isRiskThreshold_def
      collapseChannelThresholdForContact_def, simp add: slack_room_def)

theorem threshold_staleness_bounded_witness:
  "fst (getAutoApproveThreshold (steady_gateway demo_db) (Some ''c2'') None (Some slack_room) None empty_reader) = TLow"
proof -
  obtain r s1 where r: "getAutoApproveThreshold (steady_gateway demo_db) (Some ''c2'') None (Some slack_room) None empty_reader = (r, s1)"
    by force
  have "r = strict (cascade demo_db demo_db demo_db demo_db demo_db (Some ''c2'') None (Some slack_room) None)"
    using threshold_staleness_bounded [OF steady_reachable empty_reader_honest _ r] by auto
  then show ?thesis by (simp add: r demo_cascade strict_def)
qed

text \<open>The refresh ignores a cached strict entry for the conversation.\<close>

theorem refresh_reads_current_witness:
  "fst (refreshAutoApproveThreshold (steady_gateway demo_db) (Some ''c1'') None None None
     (empty_reader\<lparr>rd_conversations := [(''c1'', (Some ''none'', 99999))]\<rparr>)) = Some THigh"
proof -
  let ?s = "empty_reader\<lparr>rd_conversations := [(''c1'', (Some ''none'', 99999))]\<rparr>"
  obtain r s1 where r: "refreshAutoApproveThreshold (steady_gateway demo_db) (Some ''c1'') None None None ?s = (r, s1)"
    by force
  have "r = cascade demo_db demo_db demo_db demo_db demo_db (Some ''c1'') None None None"
    using refresh_reads_current [OF steady_reachable _ r] by auto
  then show ?thesis by (simp add: r demo_cascade)
qed

theorem refresh_fails_closed_witness:
  "\<exists>k n. truthy (Some ''p1'') = Some k \<and>
     ge_contact ((steady_gateway demo_db)\<lparr>ge_cell := \<lambda>n q. None\<rparr>) n k = Some (Some (threshold_string TLow))"
proof -
  let ?ge = "(steady_gateway demo_db)\<lparr>ge_cell := \<lambda>n q. None\<rparr>"
  obtain s1 where r: "refreshAutoApproveThreshold ?ge None None (Some slack_room) (Some ''p1'') empty_reader = (Some TLow, s1)"
    by (simp add: reader_eval lookupContactThreshold_def fetch_contact_def usable_def usable_entry_def steady_gateway_def
        demo_db_def get_contact_threshold_def parseContactAutoApproveThreshold_def Let_def)
  have "\<forall>n. ge_cell ?ge n slack_room = None" by simp
  with refresh_fails_closed [OF r] show ?thesis by (auto simp: override_of_def context_of_def)
qed

theorem threshold_down_is_strict_witness:
  "fst (getAutoApproveThreshold ((steady_gateway demo_db)\<lparr>ge_global := \<lambda>n. None, ge_conversation := \<lambda>n k. None,
       ge_contact := \<lambda>n k. None, ge_cell := \<lambda>n q. None\<rparr>) (Some ''c1'') None None (Some ''p1'') empty_reader) = TNone"
  by (rule threshold_down_is_strict [THEN conjunct1]) (simp_all add: gateway_down_def steady_gateway_def caches_cold_def empty_reader_def)

theorem contact_turn_capped_witness:
  "fst (getAutoApproveThreshold (steady_gateway demo_db) (Some ''c2'') None (Some slack_room) None empty_reader) \<in> {TNone, TLow}"
proof -
  obtain r s1 where r: "getAutoApproveThreshold (steady_gateway demo_db) (Some ''c2'') None (Some slack_room) None empty_reader = (r, s1)"
    by force
  have "r \<in> {TNone, TLow}"
    by (rule contact_turn_capped [OF steady_reachable empty_reader_honest _ _ _ _ _ r])
      (simp_all add: slack_room_def request_valid_def demo_db_def get_global_thresholds_def GLOBAL_DEFAULTS_def isRiskThreshold_def
        conversation_says_def contact_says_def get_conversation_threshold_def override_of_def context_of_def)
  then show ?thesis by (simp add: r)
qed

end
