(* ===== verification/Workspace_Policy.thy ===== *)
theory Workspace_Policy
  imports Posix_Paths
begin

text \<open>
  Which tool invocations stay inside the workspace, \<^verbatim>\<open>assistant/src/permissions/workspace-policy.ts\<close>, with
  the symbolic-link walk of \<^verbatim>\<open>assistant/src/util/fs-symlinks.ts\<close>.

  \<^item> The file system is the record \<open>file_system\<close>: \<open>fs_readlink\<close> answers the target of a symbolic link
    (\<open>None\<close> where \<open>lstat\<close> fails or the path is no link), \<open>fs_realpath\<close> the real path (\<open>None\<close> where it
    throws). The directory of the process is its field \<open>fs_cwd\<close>.
  \<^item> The directories the daemon's getters return are the record \<open>workspace_dirs\<close>.
  \<^item> A tool input is the association list of its fields; \<open>getStringField\<close> is the helper of
    \<^verbatim>\<open>checker.ts\<close>.
\<close>

section \<open>Canonical paths\<close>

record file_system =
  fs_cwd :: string
  fs_readlink :: "string \<Rightarrow> string option"
  fs_realpath :: "string \<Rightarrow> string option"

text \<open>The loop over at most 64 links.\<close>

fun follow_links :: "nat \<Rightarrow> file_system \<Rightarrow> string \<Rightarrow> string" where
  "follow_links 0 fs current = current"
| "follow_links (Suc n) fs current =
     (case fs_readlink fs current of
        None \<Rightarrow> current
      | Some linkTarget \<Rightarrow> follow_links n fs (path_resolve (dirname current) linkTarget))"

definition resolveTrailingLinkTarget :: "file_system \<Rightarrow> string \<Rightarrow> string" where
  "resolveTrailingLinkTarget fs path = follow_links 64 fs path"

function canonicalizeExisting :: "file_system \<Rightarrow> string \<Rightarrow> string" where
  "canonicalizeExisting fs path =
     (case fs_realpath fs path of
        Some real \<Rightarrow> real
      | None \<Rightarrow>
          if dirname path = path then path_of (norm_segments (split_slash path))
          else canonicalizeExisting fs (dirname path) @ ''/'' @ basename path)"
  by pat_completeness auto
termination
  by (relation "measure (\<lambda>(fs, path). path_rank path)") (auto intro: path_rank_dirname)

declare canonicalizeExisting.simps [simp del]

definition canonicalize :: "file_system \<Rightarrow> string \<Rightarrow> string" where
  "canonicalize fs p = canonicalizeExisting fs (resolveTrailingLinkTarget fs (path_resolve (fs_cwd fs) p))"

definition canonicalizeAddressedName :: "file_system \<Rightarrow> string \<Rightarrow> string" where
  "canonicalizeAddressedName fs p =
     (let path = path_resolve (fs_cwd fs) p in canonicalizeExisting fs (dirname path) @ ''/'' @ basename path)"

definition isAtOrUnderCanonicalDir :: "string \<Rightarrow> string \<Rightarrow> bool" where
  "isAtOrUnderCanonicalDir canonicalPath canonicalDir =
     (let prefix = (if ends_with ''/'' canonicalDir then canonicalDir else canonicalDir @ ''/'')
      in canonicalPath = canonicalDir \<or> starts_with prefix canonicalPath)"

definition isPathWithinWorkspaceRoot :: "file_system \<Rightarrow> string \<Rightarrow> string \<Rightarrow> bool" where
  "isPathWithinWorkspaceRoot fs filePath workspaceRoot =
     (if filePath = [] \<or> workspaceRoot = [] then False
      else isAtOrUnderCanonicalDir (canonicalize fs filePath) (canonicalize fs workspaceRoot))"

section \<open>Tools and their targets\<close>

type_synonym tool_input = "(string \<times> json) list"

fun getStringField :: "tool_input \<Rightarrow> string list \<Rightarrow> string" where
  "getStringField input [] = []"
| "getStringField input (k # ks) =
     (case map_of input k of Some (JStr s) \<Rightarrow> s | _ \<Rightarrow> getStringField input ks)"

definition PATH_SCOPED_TOOLS :: "string list" where
  "PATH_SCOPED_TOOLS = [''file_read'', ''file_write'', ''file_edit'']"

definition WORKSPACE_WRITE_TOOLS :: "string list" where
  "WORKSPACE_WRITE_TOOLS = [''file_write'', ''file_edit'']"

definition isWorkspaceWriteTool :: "string \<Rightarrow> bool" where
  "isWorkspaceWriteTool toolName = (toolName \<in> set WORKSPACE_WRITE_TOOLS)"

definition NETWORK_TOOLS :: "string list" where
  "NETWORK_TOOLS = [''web_search'', ''web_fetch'', ''network_request'']"

definition HOST_TOOLS :: "string list" where
  "HOST_TOOLS = [''host_file_read'', ''host_file_write'', ''host_file_edit'', ''host_file_transfer'', ''host_bash'',
     ''computer_use_run_applescript'']"

definition ALWAYS_SCOPED_TOOLS :: "string list" where
  "ALWAYS_SCOPED_TOOLS = [''skill_load'', ''recall'', ''ui_update'', ''ui_dismiss'']"

definition CONTAINER_WORKSPACE_PREFIX :: string where
  "CONTAINER_WORKSPACE_PREFIX = ''/workspace/''"

definition CONTAINER_WORKSPACE_EXACT :: string where
  "CONTAINER_WORKSPACE_EXACT = ''/workspace''"

definition sandbox_remap :: "string \<Rightarrow> string \<Rightarrow> string" where
  "sandbox_remap rawPath workingDir =
     (if \<not> starts_with (workingDir @ ''/'') rawPath \<and> rawPath \<noteq> workingDir
      then
        if starts_with CONTAINER_WORKSPACE_PREFIX rawPath then drop (length CONTAINER_WORKSPACE_PREFIX) rawPath
        else if rawPath = CONTAINER_WORKSPACE_EXACT then ''.'' else rawPath
      else rawPath)"

definition resolveSandboxBase :: "string \<Rightarrow> string \<Rightarrow> string" where
  "resolveSandboxBase rawPath workingDir = path_resolve workingDir (sandbox_remap rawPath workingDir)"

definition resolvePathScopedTarget :: "tool_input \<Rightarrow> string \<Rightarrow> string" where
  "resolvePathScopedTarget toolInput workspaceRoot =
     (let rawPath = (case map_of toolInput ''path'' of
                       Some (JStr s) \<Rightarrow> s
                     | _ \<Rightarrow> (case map_of toolInput ''file_path'' of Some (JStr s) \<Rightarrow> s | _ \<Rightarrow> []))
      in if rawPath = [] then [] else resolveSandboxBase rawPath workspaceRoot)"

definition isOutOfWorkspaceFileInvocation :: "file_system \<Rightarrow> bool \<Rightarrow> string \<Rightarrow> tool_input \<Rightarrow> string \<Rightarrow> bool" where
  "isOutOfWorkspaceFileInvocation fs isContainerized toolName toolInput workspaceRoot =
     (if isContainerized then False
      else if toolName \<notin> set PATH_SCOPED_TOOLS then False
      else
        let filePath = resolvePathScopedTarget toolInput workspaceRoot
        in filePath \<noteq> [] \<and> \<not> isPathWithinWorkspaceRoot fs filePath workspaceRoot)"

section \<open>Control-plane writes\<close>

record workspace_dirs =
  wd_hooks :: string
  wd_plugins :: string
  wd_skills :: string
  wd_tools :: string
  wd_routes :: string
  wd_workflows :: string
  wd_monitoring :: string
  wd_systemPrompt :: string

definition executableSinkDirs :: "workspace_dirs \<Rightarrow> string list" where
  "executableSinkDirs ds =
     [wd_hooks ds, wd_plugins ds, wd_skills ds, wd_tools ds, wd_routes ds, wd_workflows ds, wd_monitoring ds]"

definition PROMPT_SURFACE_FILES :: "string list" where
  "PROMPT_SURFACE_FILES = [''IDENTITY.md'', ''SOUL.md'', ''VOICE.md'', ''BOOTSTRAP.md'', ''HEARTBEAT.md'', ''NOW.md'']"

definition PROMPT_SURFACE_DIRS :: "string list" where
  "PROMPT_SURFACE_DIRS = [''users'', ''channels'']"

definition writesUnder :: "file_system \<Rightarrow> string \<Rightarrow> string \<Rightarrow> string \<Rightarrow> bool" where
  "writesUnder fs target addressed dir =
     (let canonicalDir = canonicalize fs dir
      in isAtOrUnderCanonicalDir target canonicalDir \<or> isAtOrUnderCanonicalDir addressed canonicalDir)"

definition controlPlaneTarget :: "file_system \<Rightarrow> workspace_dirs \<Rightarrow> string \<Rightarrow> string \<Rightarrow> string \<Rightarrow> bool" where
  "controlPlaneTarget fs ds target addressed root =
     (list_ex (writesUnder fs target addressed) (executableSinkDirs ds) \<or>
      list_ex (\<lambda>file. let canonicalFile = canonicalize fs (root @ ''/'' @ file)
                      in target = canonicalFile \<or> addressed = canonicalFile) PROMPT_SURFACE_FILES \<or>
      list_ex (\<lambda>dir. writesUnder fs target addressed (root @ ''/'' @ dir)) PROMPT_SURFACE_DIRS \<or>
      writesUnder fs target addressed (wd_systemPrompt ds))"

definition isControlPlaneWorkspaceWrite ::
  "file_system \<Rightarrow> workspace_dirs \<Rightarrow> string \<Rightarrow> tool_input \<Rightarrow> string \<Rightarrow> bool" where
  "isControlPlaneWorkspaceWrite fs ds toolName toolInput workspaceRoot =
     (if \<not> isWorkspaceWriteTool toolName then False
      else
        let filePath = resolvePathScopedTarget toolInput workspaceRoot
        in if filePath = [] then False
           else controlPlaneTarget fs ds (canonicalize fs filePath) (canonicalizeAddressedName fs filePath)
                  (canonicalize fs workspaceRoot))"

definition isWorkspaceScopedInvocation ::
  "file_system \<Rightarrow> bool \<Rightarrow> string \<Rightarrow> tool_input \<Rightarrow> string \<Rightarrow> bool" where
  "isWorkspaceScopedInvocation fs isContainerized toolName toolInput workspaceRoot =
     (if toolName \<in> set ALWAYS_SCOPED_TOOLS then True
      else if toolName \<in> set NETWORK_TOOLS then False
      else if toolName \<in> set HOST_TOOLS then False
      else if toolName \<in> set PATH_SCOPED_TOOLS
      then
        let filePath = resolvePathScopedTarget toolInput workspaceRoot
        in filePath \<noteq> [] \<and> isPathWithinWorkspaceRoot fs filePath workspaceRoot
      else if toolName = ''bash'' then isContainerized
      else False)"

section \<open>Lemmas\<close>

lemma under_canonical_dir_child: "isAtOrUnderCanonicalDir d dir \<Longrightarrow> isAtOrUnderCanonicalDir (d @ ''/'' @ b) dir"
  by (auto simp: isAtOrUnderCanonicalDir_def Let_def starts_with_iff ends_with_def split: if_splits)

text \<open>\<open>links_to n fs p q\<close>: the name \<open>p\<close> leads to \<open>q\<close> over \<open>n\<close> trailing links.\<close>

inductive links_to :: "nat \<Rightarrow> file_system \<Rightarrow> string \<Rightarrow> string \<Rightarrow> bool" where
  links_done: "links_to 0 fs p p"
| links_step: "fs_readlink fs p = Some t \<Longrightarrow> links_to n fs (path_resolve (dirname p) t) q \<Longrightarrow> links_to (Suc n) fs p q"

lemma follow_links_to:
  "links_to n fs p q \<Longrightarrow> fs_readlink fs q = None \<Longrightarrow> n \<le> m \<Longrightarrow> follow_links m fs p = q"
proof (induction arbitrary: m rule: links_to.induct)
  case (links_done fs p)
  then show ?case by (cases m) auto
next
  case (links_step fs p t n q)
  then obtain m' where "m = Suc m'" by (cases m) auto
  with links_step show ?case by simp
qed

lemma links_to_resolved:
  "links_to n fs p q \<Longrightarrow> path_resolve b p = p \<Longrightarrow> path_resolve b q = q"
proof (induction rule: links_to.induct)
  case (links_step fs p t n q)
  then show ?case by (simp add: path_resolve_idem)
qed

lemma canonicalize_link:
  assumes "links_to n fs (path_resolve (fs_cwd fs) p) q" "fs_readlink fs q = None" "n \<le> 64"
  shows "canonicalize fs p = canonicalizeExisting fs q"
  using follow_links_to [OF assms] by (simp add: canonicalize_def resolveTrailingLinkTarget_def)

lemma canonicalize_end:
  assumes "links_to n fs (path_resolve (fs_cwd fs) p) q" "fs_readlink fs q = None" "n \<le> 64"
  shows "canonicalize fs p = canonicalize fs q"
proof -
  have "path_resolve (fs_cwd fs) q = q" using links_to_resolved [OF assms(1)] by (simp add: path_resolve_idem)
  moreover have "follow_links 64 fs q = q" using assms(2) by (rule follow_links_to [OF links_done]) simp
  ultimately have "canonicalize fs q = canonicalizeExisting fs q"
    by (simp add: canonicalize_def resolveTrailingLinkTarget_def)
  then show ?thesis by (simp add: canonicalize_link [OF assms])
qed

lemma within_link:
  assumes "links_to n fs (path_resolve (fs_cwd fs) p) q" "fs_readlink fs q = None" "n \<le> 64" "p \<noteq> []"
  shows "isPathWithinWorkspaceRoot fs p root = isPathWithinWorkspaceRoot fs q root"
proof -
  have "path_resolve (fs_cwd fs) q = q" using links_to_resolved [OF assms(1)] by (simp add: path_resolve_idem)
  then have "q \<noteq> []" using path_resolve_absolute [of "fs_cwd fs" q] by (auto simp: starts_with_def)
  with assms(4) show ?thesis by (simp add: isPathWithinWorkspaceRoot_def canonicalize_end [OF assms(1-3)])
qed

lemma path_tools: "toolName \<in> set PATH_SCOPED_TOOLS \<Longrightarrow> toolName \<notin> set ALWAYS_SCOPED_TOOLS \<union> set NETWORK_TOOLS \<union> set HOST_TOOLS"
  by (auto simp: PATH_SCOPED_TOOLS_def ALWAYS_SCOPED_TOOLS_def NETWORK_TOOLS_def HOST_TOOLS_def)

lemma canonical_under_within:
  assumes "list_ex (writesUnder fs target addressed) (executableSinkDirs ds)"
  shows "controlPlaneTarget fs ds target addressed root"
  using assms by (simp add: controlPlaneTarget_def)

section \<open>Properties\<close>

text \<open>A trailing symbolic link decides nothing, its destination does: for a file tool whose target
  leads over at most 64 links to a name that is no link (whether or not that name exists yet), the
  invocation is workspace-scoped exactly when the destination is inside the workspace root, and
  outside a container it counts as out of the workspace exactly when it is not scoped.\<close>

theorem link_destination_decides:
  assumes "toolName \<in> set PATH_SCOPED_TOOLS" and "resolvePathScopedTarget toolInput root = p" and "p \<noteq> []"
    and "links_to n fs (path_resolve (fs_cwd fs) p) q" and "fs_readlink fs q = None" and "n \<le> 64"
  shows "isWorkspaceScopedInvocation fs isContainerized toolName toolInput root = isPathWithinWorkspaceRoot fs q root \<and>
    isOutOfWorkspaceFileInvocation fs False toolName toolInput root =
      (\<not> isWorkspaceScopedInvocation fs isContainerized toolName toolInput root)"
proof -
  note same = within_link [OF assms(4,5,6,3), of root]
  have "isWorkspaceScopedInvocation fs isContainerized toolName toolInput root = isPathWithinWorkspaceRoot fs p root"
    using path_tools [OF assms(1)] assms(1-3) by (simp add: isWorkspaceScopedInvocation_def)
  moreover have "isOutOfWorkspaceFileInvocation fs False toolName toolInput root = (\<not> isPathWithinWorkspaceRoot fs p root)"
    using assms(1-3) by (simp add: isOutOfWorkspaceFileInvocation_def)
  ultimately show ?thesis using same by simp
qed

text \<open>A write to the control plane is seen from both ends: it is flagged when the destination its
  links lead to is in a directory the daemon executes code from, and also when the name written is
  in such a directory, even if that name is itself a link that leads elsewhere.\<close>

theorem control_plane_write_seen:
  assumes "isWorkspaceWriteTool toolName" and "resolvePathScopedTarget toolInput root = p" and "p \<noteq> []"
    and "links_to n fs (path_resolve (fs_cwd fs) p) q" and "fs_readlink fs q = None" and "n \<le> 64"
    and "dir \<in> set (executableSinkDirs ds)"
    and "isAtOrUnderCanonicalDir (canonicalize fs q) (canonicalize fs dir) \<or>
         isAtOrUnderCanonicalDir (canonicalizeExisting fs (dirname (path_resolve (fs_cwd fs) p))) (canonicalize fs dir)"
  shows "isControlPlaneWorkspaceWrite fs ds toolName toolInput root"
proof -
  have "writesUnder fs (canonicalize fs p) (canonicalizeAddressedName fs p) dir"
    using assms(8) under_canonical_dir_child canonicalize_end [OF assms(4-6)]
    by (auto simp: writesUnder_def canonicalizeAddressedName_def Let_def)
  then have "list_ex (writesUnder fs (canonicalize fs p) (canonicalizeAddressedName fs p)) (executableSinkDirs ds)"
    using assms(7) by (auto simp: list_ex_iff)
  from canonical_under_within [OF this] show ?thesis
    using assms(1-3) by (simp add: isControlPlaneWorkspaceWrite_def)
qed

text \<open>A path of the container names the same file as the workspace path it stands for: for a
  relative path \<open>r\<close>, the three decisions on \<open>/workspace/r\<close> are those on \<open>r\<close>, unless the container path
  happens to lie under the real workspace root.\<close>

theorem container_path_alias:
  assumes "\<not> starts_with ''/'' r" and "r \<noteq> []" and "\<not> starts_with (root @ ''/'') (''/workspace/'' @ r)"
    and "\<not> starts_with (root @ ''/'') r" and "r \<noteq> root" and "''/workspace/'' @ r \<noteq> root"
  shows "isWorkspaceScopedInvocation fs isContainerized toolName [(''path'', JStr (''/workspace/'' @ r))] root =
      isWorkspaceScopedInvocation fs isContainerized toolName [(''path'', JStr r)] root \<and>
    isOutOfWorkspaceFileInvocation fs isContainerized toolName [(''path'', JStr (''/workspace/'' @ r))] root =
      isOutOfWorkspaceFileInvocation fs isContainerized toolName [(''path'', JStr r)] root \<and>
    isControlPlaneWorkspaceWrite fs ds toolName [(''path'', JStr (''/workspace/'' @ r))] root =
      isControlPlaneWorkspaceWrite fs ds toolName [(''path'', JStr r)] root"
proof -
  have "sandbox_remap (''/workspace/'' @ r) root = r"
    using assms by (simp add: sandbox_remap_def CONTAINER_WORKSPACE_PREFIX_def starts_with_def)
  moreover have "\<not> starts_with ''/workspace/'' r" "r \<noteq> ''/workspace''"
    using assms(1) by (auto simp: starts_with_iff)
  then have "sandbox_remap r root = r"
    by (simp add: sandbox_remap_def CONTAINER_WORKSPACE_PREFIX_def CONTAINER_WORKSPACE_EXACT_def)
  ultimately have "resolvePathScopedTarget [(''path'', JStr (''/workspace/'' @ r))] root =
      resolvePathScopedTarget [(''path'', JStr r)] root"
    using assms(2) by (simp add: resolvePathScopedTarget_def resolveSandboxBase_def)
  then show ?thesis
    by (simp add: isWorkspaceScopedInvocation_def isOutOfWorkspaceFileInvocation_def isControlPlaneWorkspaceWrite_def)
qed

section \<open>Witnesses\<close>

text \<open>A workspace with a link \<open>out\<close> to a file outside that does not exist yet.\<close>

definition demo_fs :: file_system where
  "demo_fs = \<lparr>fs_cwd = ''/'', fs_readlink = (\<lambda>p. if p = ''/ws/out'' then Some ''/etc/x'' else None),
     fs_realpath = (\<lambda>p. if p \<in> {''/'', ''/ws'', ''/etc'', ''/ws/hooks''} then Some p else None)\<rparr>"

definition demo_dirs :: workspace_dirs where
  "demo_dirs = \<lparr>wd_hooks = ''/ws/hooks'', wd_plugins = ''/ws/plugins'', wd_skills = ''/ws/skills'', wd_tools = ''/ws/tools'',
     wd_routes = ''/ws/routes'', wd_workflows = ''/ws/workflows'', wd_monitoring = ''/ws/data/monitoring'',
     wd_systemPrompt = ''/ws/prompts/system''\<rparr>"

lemma demo_chain: "links_to 1 demo_fs ''/ws/out'' ''/etc/x''"
proof -
  have "path_resolve (dirname ''/ws/out'') ''/etc/x'' = ''/etc/x''" by code_simp
  moreover have "fs_readlink demo_fs ''/ws/out'' = Some ''/etc/x''" by (simp add: demo_fs_def)
  ultimately show ?thesis by (metis One_nat_def links_done links_step)
qed

lemma demo_paths_eval:
  "path_resolve ''/'' ''/ws/out'' = ''/ws/out''" "resolvePathScopedTarget [(''path'', JStr ''out'')] ''/ws'' = ''/ws/out''"
  "resolvePathScopedTarget [(''path'', JStr ''hooks/a'')] ''/ws'' = ''/ws/hooks/a''" "path_resolve ''/'' ''/ws/hooks/a'' = ''/ws/hooks/a''"
  "dirname ''/ws/hooks/a'' = ''/ws/hooks''" "path_resolve ''/'' ''/ws'' = ''/ws''" "path_resolve ''/'' ''/ws/hooks'' = ''/ws/hooks''"
  "path_resolve ''/'' ''/etc/x'' = ''/etc/x''" "dirname ''/etc/x'' = ''/etc''" "basename ''/etc/x'' = ''x''"
  by code_simp+

lemma demo_canonical:
  "canonicalize demo_fs ''/etc/x'' = ''/etc/x''" "canonicalize demo_fs ''/ws'' = ''/ws''"
  "canonicalize demo_fs ''/ws/hooks'' = ''/ws/hooks''" "canonicalizeExisting demo_fs ''/ws/hooks'' = ''/ws/hooks''"
proof -
  have [simp]: "fs_cwd demo_fs = ''/''" by (simp add: demo_fs_def)
  have "follow_links 64 demo_fs p = p" if "p \<noteq> ''/ws/out''" for p
    using that by (intro follow_links_to [OF links_done]) (simp_all add: demo_fs_def)
  then have [simp]: "resolveTrailingLinkTarget demo_fs p = p" if "p \<noteq> ''/ws/out''" for p
    using that by (simp add: resolveTrailingLinkTarget_def)
  have etc: "canonicalizeExisting demo_fs ''/etc'' = ''/etc''" "canonicalizeExisting demo_fs ''/ws'' = ''/ws''"
    by (subst canonicalizeExisting.simps, simp add: demo_fs_def)+
  show hooks: "canonicalizeExisting demo_fs ''/ws/hooks'' = ''/ws/hooks''"
    by (subst canonicalizeExisting.simps) (simp add: demo_fs_def)
  have "fs_realpath demo_fs ''/etc/x'' = None" by (simp add: demo_fs_def)
  then have "canonicalizeExisting demo_fs ''/etc/x'' = ''/etc/x''"
    by (subst canonicalizeExisting.simps) (simp add: demo_paths_eval etc)
  then show "canonicalize demo_fs ''/etc/x'' = ''/etc/x''" "canonicalize demo_fs ''/ws'' = ''/ws''"
    "canonicalize demo_fs ''/ws/hooks'' = ''/ws/hooks''"
    by (simp_all add: canonicalize_def demo_paths_eval etc hooks)
qed

theorem link_destination_decides_witness:
  "isWorkspaceScopedInvocation demo_fs False ''file_write'' [(''path'', JStr ''out'')] ''/ws'' = False \<and>
   isOutOfWorkspaceFileInvocation demo_fs False ''file_write'' [(''path'', JStr ''out'')] ''/ws''"
proof -
  have "\<not> isPathWithinWorkspaceRoot demo_fs ''/etc/x'' ''/ws''"
    by (simp add: isPathWithinWorkspaceRoot_def demo_canonical isAtOrUnderCanonicalDir_def starts_with_def ends_with_def)
  moreover have "links_to 1 demo_fs (path_resolve (fs_cwd demo_fs) ''/ws/out'') ''/etc/x''"
    using demo_chain by (simp add: demo_fs_def demo_paths_eval)
  ultimately show ?thesis
    using link_destination_decides [of "''file_write''" "[(''path'', JStr ''out'')]" "''/ws''" "''/ws/out''" 1 demo_fs "''/etc/x''" False]
    by (simp add: PATH_SCOPED_TOOLS_def demo_paths_eval demo_fs_def)
qed

theorem control_plane_write_seen_witness:
  "isControlPlaneWorkspaceWrite demo_fs demo_dirs ''file_write'' [(''path'', JStr ''hooks/a'')] ''/ws''"
proof (rule control_plane_write_seen)
  show "links_to 0 demo_fs (path_resolve (fs_cwd demo_fs) ''/ws/hooks/a'') ''/ws/hooks/a''"
    by (simp add: demo_fs_def demo_paths_eval links_done)
  show "isAtOrUnderCanonicalDir (canonicalize demo_fs ''/ws/hooks/a'') (canonicalize demo_fs ''/ws/hooks'') \<or>
     isAtOrUnderCanonicalDir (canonicalizeExisting demo_fs (dirname (path_resolve (fs_cwd demo_fs) ''/ws/hooks/a''))) (canonicalize demo_fs ''/ws/hooks'')"
    using demo_canonical by (simp add: isAtOrUnderCanonicalDir_def demo_paths_eval, simp add: demo_fs_def demo_paths_eval)
qed (simp_all add: isWorkspaceWriteTool_def WORKSPACE_WRITE_TOOLS_def demo_paths_eval demo_fs_def demo_dirs_def executableSinkDirs_def)

theorem container_path_alias_witness:
  "isOutOfWorkspaceFileInvocation demo_fs False ''file_read'' [(''path'', JStr ''/workspace/a'')] ''/ws'' =
   isOutOfWorkspaceFileInvocation demo_fs False ''file_read'' [(''path'', JStr ''a'')] ''/ws''"
  using container_path_alias [of "''a''" "''/ws''" demo_fs False "''file_read''"] by (simp add: starts_with_def)

end
