(* ===== verification/Approval_Policy.thy ===== *)
theory Approval_Policy
  imports Arg_Parser Thresholds Workspace_Policy
begin

text \<open>
  The permission decision: the policy \<^verbatim>\<open>assistant/src/permissions/approval-policy.ts\<close> and the checker
  \<^verbatim>\<open>assistant/src/permissions/checker.ts\<close> around it (classification with the symbolic-link check, the
  background grant, the threshold with its refresh, the reason shown).

  \<^item> \<open>AutoApproveThreshold\<close> is the \<open>RiskThreshold\<close> of the matrix. A decision or an exception
    (\<open>check_error\<close>) is the value of \<open>check\<close>; the reader's state is threaded through it.
  \<^item> What the tool registry and the environment say of the call is the record \<open>check_env\<close>: the owner of
    the tool, whether its skill is bundled, the container flag, the workspace, the two tests of the
    abort signal. The gateway's answer to the classification request is its field \<open>ce_classify\<close>
    (\<open>None\<close> for an unreachable gateway or an invalid response).
\<close>

section \<open>The policy\<close>

datatype OwnerKind = DefaultOwner | SkillOwner | McpOwner | PluginOwner | WorkspaceOwner

record ApprovalContext =
  ax_riskLevel :: RiskLevel
  ax_toolName :: string
  ax_isContainerized :: bool
  ax_isWorkspaceScoped :: bool
  ax_toolOrigin :: "OwnerKind option"
  ax_isSkillBundled :: bool
  ax_hasManifestOverride :: bool
  ax_hasSandboxAutoApprove :: bool
  ax_autoApproveUpTo :: "RiskThreshold option"

fun RISK_ORDINAL :: "RiskLevel \<Rightarrow> int" where
  "RISK_ORDINAL LevelLow = 0"
| "RISK_ORDINAL LevelMedium = 1"
| "RISK_ORDINAL LevelHigh = 2"

fun THRESHOLD_ORDINAL :: "RiskThreshold \<Rightarrow> int" where
  "THRESHOLD_ORDINAL TNone = - 1"
| "THRESHOLD_ORDINAL TLow = 0"
| "THRESHOLD_ORDINAL TMedium = 1"
| "THRESHOLD_ORDINAL THigh = 2"

definition isRiskWithinThreshold :: "RiskLevel \<Rightarrow> RiskThreshold option \<Rightarrow> bool" where
  "isRiskWithinThreshold riskLevel autoApproveUpTo =
     (RISK_ORDINAL riskLevel \<le> THRESHOLD_ORDINAL (case autoApproveUpTo of None \<Rightarrow> TLow | Some t \<Rightarrow> t))"

datatype decision = Allow | Prompt | Deny

record ApprovalDecision =
  ad_decision :: decision
  ad_reason :: string

fun risk_level_string :: "RiskLevel \<Rightarrow> string" where
  "risk_level_string LevelLow = ''low''"
| "risk_level_string LevelMedium = ''medium''"
| "risk_level_string LevelHigh = ''high''"

definition SANDBOX_REASON :: string where
  "SANDBOX_REASON = ''Workspace filesystem operation (sandbox auto-approve)''"

definition isThirdPartySkill :: "ApprovalContext \<Rightarrow> bool" where
  "isThirdPartySkill c =
     (let isExtensionOwned = (ax_toolOrigin c = Some SkillOwner \<or> ax_toolOrigin c = Some PluginOwner);
          isBuiltinOrigin = (ax_toolOrigin c = None \<or> ax_toolOrigin c = Some DefaultOwner)
      in (isExtensionOwned \<and> \<not> ax_isSkillBundled c) \<or> (ax_hasManifestOverride c \<and> isBuiltinOrigin))"

definition evaluate :: "ApprovalContext \<Rightarrow> ApprovalDecision" where
  "evaluate c =
     (if ax_toolName c = ''bash'' \<and> ax_hasSandboxAutoApprove c \<and> ax_autoApproveUpTo c \<noteq> Some TNone
      then \<lparr>ad_decision = Allow, ad_reason = SANDBOX_REASON\<rparr>
      else if isThirdPartySkill c
      then
        if isRiskWithinThreshold (ax_riskLevel c) (ax_autoApproveUpTo c)
        then \<lparr>ad_decision = Allow,
              ad_reason = risk_level_string (ax_riskLevel c) @ '' risk: within auto-approve threshold (skill tool)''\<rparr>
        else \<lparr>ad_decision = Prompt, ad_reason = ''Skill tool: requires approval by default''\<rparr>
      else if ax_riskLevel c = LevelLow \<and> ax_isWorkspaceScoped c \<and> isRiskWithinThreshold (ax_riskLevel c) (ax_autoApproveUpTo c)
      then \<lparr>ad_decision = Allow, ad_reason = ''Workspace-scoped low-risk operation auto-allowed''\<rparr>
      else if ax_riskLevel c = LevelLow \<and> ax_toolOrigin c = Some SkillOwner \<and> ax_isSkillBundled c \<and>
              isRiskWithinThreshold (ax_riskLevel c) (ax_autoApproveUpTo c)
      then \<lparr>ad_decision = Allow, ad_reason = ''Bundled skill tool: low risk, auto-allowed''\<rparr>
      else if isRiskWithinThreshold (ax_riskLevel c) (ax_autoApproveUpTo c)
      then \<lparr>ad_decision = Allow, ad_reason = risk_level_string (ax_riskLevel c) @ '' risk: within auto-approve threshold''\<rparr>
      else \<lparr>ad_decision = Prompt, ad_reason = risk_level_string (ax_riskLevel c) @ '' risk: above auto-approve threshold''\<rparr>)"

definition isFullAccessThreshold :: "RiskThreshold \<Rightarrow> bool" where
  "isFullAccessThreshold t = (t = THigh)"

section \<open>Classification\<close>

definition riskStringToLevel :: "string \<Rightarrow> RiskLevel" where
  "riskStringToLevel r =
     (if r = ''low'' then LevelLow else if r = ''medium'' then LevelMedium else if r = ''high'' then LevelHigh
      else LevelMedium)"

record ClassifyRiskIpcResponse =
  cr_risk :: string
  cr_reason :: string
  cr_matchType :: string
  cr_sandboxAutoApprove :: "bool option"
  cr_sandboxPathArgs :: "string list option"

record RiskClassificationWithMeta =
  rc_level :: RiskLevel
  rc_reason :: string
  rc_matchType :: string
  rc_sandboxAutoApprove :: "bool option"
  rc_sandboxPathArgs :: "string list option"

record check_env =
  ce_fs :: file_system
  ce_workspaceDir :: string
  ce_containerized :: bool
  ce_toolOwner :: "OwnerKind option"
  ce_skillBundled :: bool
  ce_classify :: "ClassifyRiskIpcResponse option"
  ce_abortedBefore :: bool
  ce_abortedAfter :: bool
  ce_ipc :: gateway_ipc

definition applyBashSymlinkEscapeCheck ::
  "check_env \<Rightarrow> RiskClassificationWithMeta \<Rightarrow> string list option \<Rightarrow> RiskClassificationWithMeta" where
  "applyBashSymlinkEscapeCheck env result sandboxPathArgs =
     (if rc_sandboxAutoApprove result \<noteq> Some True then result
      else
        case sandboxPathArgs of
          None \<Rightarrow> result
        | Some ps \<Rightarrow>
            if ps = [] then result
            else if list_ex (\<lambda>p. \<not> isPathWithinWorkspaceRoot (ce_fs env) p (ce_workspaceDir env)) ps
            then result\<lparr>rc_sandboxAutoApprove := Some False\<rparr> else result)"

datatype check_error = Aborted | ClassificationUnavailable

definition classifyRisk :: "check_env \<Rightarrow> check_error + RiskClassificationWithMeta" where
  "classifyRisk env =
     (if ce_abortedBefore env then Inl Aborted
      else if ce_abortedAfter env then Inl Aborted
      else
        case ce_classify env of
          None \<Rightarrow> Inl ClassificationUnavailable
        | Some r \<Rightarrow>
            Inr (applyBashSymlinkEscapeCheck env
              \<lparr>rc_level = riskStringToLevel (cr_risk r), rc_reason = cr_reason r, rc_matchType = cr_matchType r,
               rc_sandboxAutoApprove = cr_sandboxAutoApprove r, rc_sandboxPathArgs = cr_sandboxPathArgs r\<rparr>
              (cr_sandboxPathArgs r)))"

section \<open>The check\<close>

definition MEMORY_RETROSPECTIVE_ORIGIN :: string where
  "MEMORY_RETROSPECTIVE_ORIGIN = ''memory_retrospective''"

definition SKILL_MANAGEMENT_SKILL_ID :: string where
  "SKILL_MANAGEMENT_SKILL_ID = ''skill-management''"

definition isRetrospectiveSkillAuthoringGrant :: "string \<Rightarrow> tool_input \<Rightarrow> PolicyContext option \<Rightarrow> bool" where
  "isRetrospectiveSkillAuthoringGrant toolName input policyContext =
     (case policyContext of
        None \<Rightarrow> False
      | Some pc \<Rightarrow>
          if \<not> px_procToSkillsActive pc \<or> px_requestOrigin pc \<noteq> Some MEMORY_RETROSPECTIVE_ORIGIN \<or>
             px_trustClass pc \<noteq> Some ''guardian'' \<or> px_sourceChannel pc \<noteq> Some ''vellum''
          then False
          else if toolName = ''scaffold_managed_skill'' then True
          else if toolName = ''find_similar_skills'' then True
          else if toolName = ''skill_load''
          then js_trim (getStringField input [''skill'', ''skill_id'']) = SKILL_MANAGEMENT_SKILL_ID
          else False)"

record PermissionCheckResult =
  pr_decision :: decision
  pr_reason :: string
  pr_hasSandboxAutoApprove :: bool

text \<open>The match of \<open>/^(High|Medium|Low|high|medium|low) risk(.*)/i\<close>: the label and the rest of the line.\<close>

definition risk_label_match :: "string \<Rightarrow> (string \<times> string) option" where
  "risk_label_match reason =
     first_some
       (\<lambda>label. let k = length label
                in if map ascii_lower (take (k + 5) reason) = label @ '' risk''
                   then Some (take k reason, takeWhile (\<lambda>c. c \<noteq> CHR 0x0A \<and> c \<noteq> CHR 0x0D) (drop (k + 5) reason)) else None)
       [''high'', ''medium'', ''low'']"

fun capitalize_label :: "string \<Rightarrow> string" where
  "capitalize_label [] = []"
| "capitalize_label (c # cs) = ascii_upper c # map ascii_lower cs"

definition enrichedReason :: "string \<Rightarrow> string \<Rightarrow> string" where
  "enrichedReason reason riskReason =
     (if riskReason = [] then reason
      else
        case risk_label_match reason of
          None \<Rightarrow> reason
        | Some (label, rest) \<Rightarrow> capitalize_label label @ '' risk ('' @ riskReason @ '')'' @ rest)"

definition approval_context ::
  "check_env \<Rightarrow> string \<Rightarrow> tool_input \<Rightarrow> string \<Rightarrow> bool \<Rightarrow> RiskClassificationWithMeta \<Rightarrow> RiskThreshold \<Rightarrow> ApprovalContext" where
  "approval_context env toolName input workingDir manifestOverride cls threshold =
     \<lparr>ax_riskLevel = rc_level cls, ax_toolName = toolName, ax_isContainerized = ce_containerized env,
      ax_isWorkspaceScoped =
        (if rc_level cls = LevelLow
         then isWorkspaceScopedInvocation (ce_fs env) (ce_containerized env) toolName input workingDir else False),
      ax_toolOrigin = ce_toolOwner env, ax_isSkillBundled = ce_skillBundled env,
      ax_hasManifestOverride = manifestOverride,
      ax_hasSandboxAutoApprove = (case rc_sandboxAutoApprove cls of None \<Rightarrow> False | Some b \<Rightarrow> b),
      ax_autoApproveUpTo = Some threshold\<rparr>"

text \<open>The coordinates \<open>check\<close> hands to the reader.\<close>

definition read_threshold :: "check_env \<Rightarrow> PolicyContext option \<Rightarrow> reader \<Rightarrow> RiskThreshold \<times> reader" where
  "read_threshold env pc s =
     getAutoApproveThreshold (ce_ipc env) (Option.bind pc px_conversationId) (Option.bind pc px_executionContext)
       (buildChannelPermissionCellQuery pc) (Option.bind pc px_requesterContactId) s"

definition refresh_threshold :: "check_env \<Rightarrow> PolicyContext option \<Rightarrow> reader \<Rightarrow> RiskThreshold option \<times> reader" where
  "refresh_threshold env pc s =
     refreshAutoApproveThreshold (ce_ipc env) (Option.bind pc px_conversationId) (Option.bind pc px_executionContext)
       (buildChannelPermissionCellQuery pc) (Option.bind pc px_requesterContactId) s"

definition decide ::
  "check_env \<Rightarrow> string \<Rightarrow> tool_input \<Rightarrow> string \<Rightarrow> PolicyContext option \<Rightarrow> bool \<Rightarrow> RiskClassificationWithMeta \<Rightarrow> reader \<Rightarrow>
     ApprovalDecision \<times> reader" where
  "decide env toolName input workingDir pc manifestOverride cls s =
     (case read_threshold env pc s of (threshold, s1) \<Rightarrow>
        let ctx = approval_context env toolName input workingDir manifestOverride cls threshold;
            first = evaluate ctx
        in if ad_decision first = Prompt
           then
             (case refresh_threshold env pc s1 of (fresh, s2) \<Rightarrow>
                (case fresh of
                   None \<Rightarrow> (first, s2)
                 | Some t \<Rightarrow>
                     if t \<noteq> threshold then (evaluate (ctx\<lparr>ax_autoApproveUpTo := Some t\<rparr>), s2) else (first, s2)))
           else (first, s1))"

definition check ::
  "check_env \<Rightarrow> string \<Rightarrow> tool_input \<Rightarrow> string \<Rightarrow> PolicyContext option \<Rightarrow> bool \<Rightarrow> RiskClassificationWithMeta option \<Rightarrow> reader \<Rightarrow>
     (check_error + PermissionCheckResult) \<times> reader" where
  "check env toolName input workingDir pc manifestOverride classification s =
     (if ce_abortedBefore env then (Inl Aborted, s)
      else if isRetrospectiveSkillAuthoringGrant toolName input pc
      then (Inr \<lparr>pr_decision = Allow,
                 pr_reason = ''Memory retrospective background session: skill authoring auto-approved'',
                 pr_hasSandboxAutoApprove = False\<rparr>, s)
      else
        case (case classification of Some c \<Rightarrow> Inr c | None \<Rightarrow> classifyRisk env) of
          Inl e \<Rightarrow> (Inl e, s)
        | Inr cls \<Rightarrow>
            (case decide env toolName input workingDir pc manifestOverride cls s of (d, s1) \<Rightarrow>
               (Inr \<lparr>pr_decision = ad_decision d, pr_reason = enrichedReason (ad_reason d) (rc_reason cls),
                     pr_hasSandboxAutoApprove = (ad_reason d = SANDBOX_REASON)\<rparr>, s1)))"

section \<open>Scope options\<close>

definition SCOPE_AWARE_TOOLS :: "string list" where
  "SCOPE_AWARE_TOOLS = [''bash'', ''host_bash'', ''file_read'', ''file_write'', ''file_edit'', ''host_file_read'',
     ''host_file_write'', ''host_file_edit'', ''host_file_transfer'']"

definition home_label :: "string \<Rightarrow> string \<Rightarrow> string" where
  "home_label home dir = (if starts_with home dir then ''~'' @ drop (length home) dir else dir)"

definition scope_options :: "string \<Rightarrow> string \<Rightarrow> string option \<Rightarrow> (string \<times> string) list" where
  "scope_options home workingDir toolName =
     (if (case truthy toolName of None \<Rightarrow> False | Some t \<Rightarrow> t \<notin> set SCOPE_AWARE_TOOLS) then []
      else
        [(home_label home workingDir, workingDir)] @
        (if dirname workingDir \<noteq> workingDir then [(home_label home (dirname workingDir) @ ''/*'', dirname workingDir)] else []) @
        [(''everywhere'', ''everywhere'')])"

section \<open>Lemmas\<close>

text \<open>The reference rule: the risk is within the threshold, or the sandbox approval applies.\<close>

definition approves :: "ApprovalContext \<Rightarrow> bool" where
  "approves c =
     (isRiskWithinThreshold (ax_riskLevel c) (ax_autoApproveUpTo c) \<or>
      ax_toolName c = ''bash'' \<and> ax_hasSandboxAutoApprove c \<and> ax_autoApproveUpTo c \<noteq> Some TNone)"

lemma evaluate_approves: "ad_decision (evaluate c) = (if approves c then Allow else Prompt)"
  by (auto simp: evaluate_def approves_def)

lemma within_high: "isRiskWithinThreshold r (Some THigh)"
  by (cases r) (simp_all add: isRiskWithinThreshold_def)

lemma within_none: "\<not> isRiskWithinThreshold r (Some TNone)"
  by (cases r) (simp_all add: isRiskWithinThreshold_def)

lemma approves_mono:
  assumes "approves (c\<lparr>ax_autoApproveUpTo := Some t\<rparr>)" "THRESHOLD_ORDINAL t \<le> THRESHOLD_ORDINAL t'"
  shows "approves (c\<lparr>ax_autoApproveUpTo := Some t'\<rparr>)"
  using assms by (cases t; cases t') (auto simp: approves_def isRiskWithinThreshold_def)

lemma truthy_not_Nil: "truthy v = Some w \<Longrightarrow> w \<noteq> []"
  by (cases v) (auto split: if_splits)

lemma built_query_valid: "buildChannelPermissionCellQuery pc = Some q \<Longrightarrow> request_valid q"
  by (auto simp: buildChannelPermissionCellQuery_def request_valid_def truthy_not_Nil
      split: option.splits dest: truthy_not_Nil)

text \<open>What the tables say for the turn of a policy context.\<close>

definition turn_cascade ::
  "(int \<Rightarrow> threshold_db) \<Rightarrow> int \<Rightarrow> int \<Rightarrow> int \<Rightarrow> int \<Rightarrow> int \<Rightarrow> PolicyContext option \<Rightarrow> RiskThreshold option" where
  "turn_cascade h v k a b c pc =
     cascade (h v) (h k) (h a) (h b) (h c) (Option.bind pc px_conversationId) (Option.bind pc px_executionContext)
       (buildChannelPermissionCellQuery pc) (Option.bind pc px_requesterContactId)"

text \<open>\<open>enforced\<close>: a threshold the tables gave for the turn within the lifetimes of the caches.\<close>

definition enforced :: "gateway_ipc \<Rightarrow> (int \<Rightarrow> threshold_db) \<Rightarrow> int \<Rightarrow> reader \<Rightarrow> reader \<Rightarrow> PolicyContext option \<Rightarrow> RiskThreshold \<Rightarrow> bool" where
  "enforced ge h L s s1 pc t =
     (\<exists>v k a b c. recent ge L CONVERSATION_CACHE_TTL_MS s s1 v \<and> recent ge L CONTACT_CACHE_TTL_MS s s1 k \<and>
        recent ge L CELL_CACHE_TTL_MS s s1 a \<and> recent ge L GLOBAL_CACHE_TTL_MS s s1 b \<and>
        recent ge L GLOBAL_CACHE_TTL_MS s s1 c \<and> t = strict (turn_cascade h v k a b c pc))"

lemma enforcedI:
  "recent ge L CONVERSATION_CACHE_TTL_MS s s1 v \<Longrightarrow> recent ge L CONTACT_CACHE_TTL_MS s s1 k \<Longrightarrow>
   recent ge L CELL_CACHE_TTL_MS s s1 a \<Longrightarrow> recent ge L GLOBAL_CACHE_TTL_MS s s1 b \<Longrightarrow>
   recent ge L GLOBAL_CACHE_TTL_MS s s1 c \<Longrightarrow> t = strict (turn_cascade h v k a b c pc) \<Longrightarrow> enforced ge h L s s1 pc t"
  unfolding enforced_def by blast

lemma read_threshold_enforced:
  assumes g: "reachable_gateway (ce_ipc env) h L" and ok: "caches_honest (ce_ipc env) h L s"
    and r: "read_threshold env pc s = (t, s1)"
  shows "enforced (ce_ipc env) h L s s1 pc t \<and> clock (ce_ipc env) s \<le> clock (ce_ipc env) s1"
  by (rule get_reads [OF g ok built_query_valid r [unfolded read_threshold_def]])
    (auto simp: settled_def turn_cascade_def intro: enforcedI)

lemma refresh_threshold_during:
  assumes g: "reachable_gateway (ce_ipc env) h L" and r: "refresh_threshold env pc s = (f, s1)"
  obtains v k a b c where "during (ce_ipc env) s s1 v" "during (ce_ipc env) s s1 k" "during (ce_ipc env) s s1 a"
    "during (ce_ipc env) s s1 b" "during (ce_ipc env) s s1 c" "f = turn_cascade h v k a b c pc"
  by (rule refresh_reads [OF g built_query_valid r [unfolded refresh_threshold_def]])
    (auto simp: turn_cascade_def intro: that)

lemma during_recent:
  "during ge s1 s2 t \<Longrightarrow> clock ge s \<le> clock ge s1 \<Longrightarrow> 0 \<le> L \<Longrightarrow> 0 \<le> ttl \<Longrightarrow> recent ge L ttl s s2 t"
  by (simp add: during_def recent_def)

lemma enforced_wider: "enforced ge h L s s1 pc t \<Longrightarrow> clock ge s1 \<le> clock ge s2 \<Longrightarrow> enforced ge h L s s2 pc t"
  unfolding enforced_def [of _ _ _ _ s1] by (elim exE conjE) (rule enforcedI, auto simp: recent_def)

lemma ttl_nonneg [simp]:
  "0 \<le> CONVERSATION_CACHE_TTL_MS" "0 \<le> CONTACT_CACHE_TTL_MS" "0 \<le> CELL_CACHE_TTL_MS" "0 \<le> GLOBAL_CACHE_TTL_MS"
  by (simp_all add: CONVERSATION_CACHE_TTL_MS_def CONTACT_CACHE_TTL_MS_def CELL_CACHE_TTL_MS_def GLOBAL_CACHE_TTL_MS_def)

lemma refresh_threshold_enforced:
  assumes g: "reachable_gateway (ce_ipc env) h L" and le: "clock (ce_ipc env) s \<le> clock (ce_ipc env) s1"
    and r: "refresh_threshold env pc s1 = (Some t, s2)"
  shows "enforced (ce_ipc env) h L s s2 pc t"
proof -
  note rec = during_recent [OF _ le latency_nonneg [OF g]]
  obtain v k a b c where d: "during (ce_ipc env) s1 s2 v" "during (ce_ipc env) s1 s2 k" "during (ce_ipc env) s1 s2 a"
    "during (ce_ipc env) s1 s2 b" "during (ce_ipc env) s1 s2 c" and t: "Some t = turn_cascade h v k a b c pc"
    by (rule refresh_threshold_during [OF g r]) blast
  from t have "t = strict (turn_cascade h v k a b c pc)" by (metis option.simps(5) strict_def)
  then show ?thesis
    using rec [OF d(1)] rec [OF d(2)] rec [OF d(3)] rec [OF d(4)] rec [OF d(5)] by (intro enforcedI) simp_all
qed

lemma refresh_threshold_clock:
  assumes "reachable_gateway (ce_ipc env) h L" and "refresh_threshold env pc s = (f, s1)"
  shows "clock (ce_ipc env) s \<le> clock (ce_ipc env) s1"
  by (rule refresh_threshold_during [OF assms]) (simp add: during_def)

text \<open>Every decision is the policy's at some threshold that was read.\<close>

lemma decide_cases:
  assumes "decide env toolName input workingDir pc mo cls s = (d, s2)"
  obtains t s1 where "read_threshold env pc s = (t, s1)"
      "d = evaluate (approval_context env toolName input workingDir mo cls t)" "ad_decision d = Prompt \<or> s2 = s1"
    | t s1 f where "read_threshold env pc s = (t, s1)" "refresh_threshold env pc s1 = (Some f, s2)"
        "d = evaluate (approval_context env toolName input workingDir mo cls f)"
proof -
  obtain t s1 where r: "read_threshold env pc s = (t, s1)" by force
  obtain f s' where f: "refresh_threshold env pc s1 = (f, s')" by force
  have ctx: "(approval_context env toolName input workingDir mo cls t)\<lparr>ax_autoApproveUpTo := Some u\<rparr> =
      approval_context env toolName input workingDir mo cls u" for u
    by (simp add: approval_context_def)
  show thesis
  proof (cases "ad_decision (evaluate (approval_context env toolName input workingDir mo cls t)) = Prompt")
    case True
    then show thesis
      using assms r f that by (cases f) (auto simp: decide_def Let_def ctx split: if_splits)
  next
    case False
    then show thesis using assms r that(1) by (auto simp: decide_def Let_def)
  qed
qed

lemma check_decided:
  assumes "check env toolName input workingDir pc mo classification s = (Inr r, s')"
    and "\<not> isRetrospectiveSkillAuthoringGrant toolName input pc"
  obtains cls d where "classification = Some cls \<or> classification = None \<and> classifyRisk env = Inr cls"
    "decide env toolName input workingDir pc mo cls s = (d, s')"
    "r = \<lparr>pr_decision = ad_decision d, pr_reason = enrichedReason (ad_reason d) (rc_reason cls),
         pr_hasSandboxAutoApprove = (ad_reason d = SANDBOX_REASON)\<rparr>"
  using assms unfolding check_def by (cases classification) (auto split: if_splits sum.splits prod.splits)

lemma classifyRisk_paths:
  assumes "classifyRisk env = Inr cls" and "rc_sandboxAutoApprove cls = Some True" and "rc_sandboxPathArgs cls = Some ps"
  shows "\<forall>p \<in> set ps. isPathWithinWorkspaceRoot (ce_fs env) p (ce_workspaceDir env)"
  using assms by (auto simp: classifyRisk_def applyBashSymlinkEscapeCheck_def list_ex_iff split: if_splits option.splits)

lemma check_allow_core:
  assumes g: "reachable_gateway (ce_ipc env) h L" and ok: "caches_honest (ce_ipc env) h L s"
    and c: "check env toolName input workingDir pc mo classification s = (Inr r, s')" and allow: "pr_decision r = Allow"
  shows "isRetrospectiveSkillAuthoringGrant toolName input pc \<or>
    (\<exists>cls t. (classification = Some cls \<or> classification = None \<and> classifyRisk env = Inr cls) \<and>
       enforced (ce_ipc env) h L s s' pc t \<and>
       (isRiskWithinThreshold (rc_level cls) (Some t) \<or>
        toolName = ''bash'' \<and> rc_sandboxAutoApprove cls = Some True \<and> t \<noteq> TNone \<and>
        (classification = None \<longrightarrow> (\<forall>ps. rc_sandboxPathArgs cls = Some ps \<longrightarrow>
           (\<forall>p \<in> set ps. isPathWithinWorkspaceRoot (ce_fs env) p (ce_workspaceDir env))))))"
proof (cases "isRetrospectiveSkillAuthoringGrant toolName input pc")
  case False
  obtain cls d where cls: "classification = Some cls \<or> classification = None \<and> classifyRisk env = Inr cls"
    and d: "decide env toolName input workingDir pc mo cls s = (d, s')" and r: "pr_decision r = ad_decision d"
    by (rule check_decided [OF c False]) auto
  have "\<exists>t. enforced (ce_ipc env) h L s s' pc t \<and> d = evaluate (approval_context env toolName input workingDir mo cls t)"
    by (rule decide_cases [OF d])
      (use allow r read_threshold_enforced [OF g ok] refresh_threshold_enforced [OF g] in \<open>fastforce+\<close>)
  then obtain t where t: "enforced (ce_ipc env) h L s s' pc t"
    "d = evaluate (approval_context env toolName input workingDir mo cls t)" by blast
  have "approves (approval_context env toolName input workingDir mo cls t)"
    using allow r t(2) by (simp add: evaluate_approves split: if_splits)
  then have "isRiskWithinThreshold (rc_level cls) (Some t) \<or>
      toolName = ''bash'' \<and> rc_sandboxAutoApprove cls = Some True \<and> t \<noteq> TNone"
    by (auto simp: approves_def approval_context_def split: option.splits)
  moreover have "classification = None \<and> rc_sandboxAutoApprove cls = Some True \<longrightarrow> (\<forall>ps. rc_sandboxPathArgs cls = Some ps \<longrightarrow>
           (\<forall>p \<in> set ps. isPathWithinWorkspaceRoot (ce_fs env) p (ce_workspaceDir env)))"
    using cls classifyRisk_paths by auto
  ultimately show ?thesis using t(1) cls by blast
qed simp

text \<open>The check leaves the caches honest.\<close>

lemma read_threshold_settled:
  assumes "reachable_gateway (ce_ipc env) h L" "caches_honest (ce_ipc env) h L s" "read_threshold env pc s = (t, s1)"
  shows "settled (ce_ipc env) h L s s1"
  by (rule get_reads [OF assms(1,2) built_query_valid assms(3) [unfolded read_threshold_def]])

lemma decide_settled:
  assumes g: "reachable_gateway (ce_ipc env) h L" and ok: "caches_honest (ce_ipc env) h L s"
    and d: "decide env toolName input workingDir pc mo cls s = (d, s')"
  shows "settled (ce_ipc env) h L s s'"
proof -
  obtain t s1 where r: "read_threshold env pc s = (t, s1)" by force
  obtain f s2 where f: "refresh_threshold env pc s1 = (f, s2)" by force
  have 1: "settled (ce_ipc env) h L s s1" by (rule read_threshold_settled [OF g ok r])
  have 2: "settled (ce_ipc env) h L s1 s2"
    by (rule refresh_settled [OF g settled_honest [OF 1] built_query_valid f [unfolded refresh_threshold_def]])
  from d r f have "s' = s1 \<or> s' = s2" by (auto simp: decide_def Let_def split: if_splits option.splits)
  with 1 settled_trans [OF 1 2] show ?thesis by blast
qed

lemma check_settled:
  assumes g: "reachable_gateway (ce_ipc env) h L" and ok: "caches_honest (ce_ipc env) h L s"
    and c: "check env toolName input workingDir pc mo classification s = (r, s')"
  shows "settled (ce_ipc env) h L s s'"
proof -
  from c have "s' = s \<or> (\<exists>cls d. decide env toolName input workingDir pc mo cls s = (d, s'))"
    by (auto simp: check_def split: if_splits sum.splits prod.splits)
  then show ?thesis using decide_settled [OF g ok] settled_refl [OF ok] by blast
qed

lemma full_access_core:
  assumes g: "reachable_gateway (ce_ipc env) h L"
    and high: "\<And>v k a b c. clock (ce_ipc env) s \<le> min (min v k) (min a (min b c)) \<Longrightarrow> turn_cascade h v k a b c pc = Some THigh"
    and c: "check env toolName input workingDir pc mo classification s = (Inr r, s')"
  shows "pr_decision r = Allow"
proof (cases "isRetrospectiveSkillAuthoringGrant toolName input pc")
  case True
  then show ?thesis using c by (auto simp: check_def split: if_splits)
next
  case False
  obtain cls d where d: "decide env toolName input workingDir pc mo cls s = (d, s')" and r: "pr_decision r = ad_decision d"
    by (rule check_decided [OF c False]) auto
  obtain t s1 where t: "read_threshold env pc s = (t, s1)" by force
  have le: "clock (ce_ipc env) s \<le> clock (ce_ipc env) s1"
    using get_clock [OF g] t unfolding read_threshold_def by (metis snd_conv)
  obtain f s2 where f: "refresh_threshold env pc s1 = (f, s2)" by force
  obtain v k a b c where "during (ce_ipc env) s1 s2 v" "during (ce_ipc env) s1 s2 k" "during (ce_ipc env) s1 s2 a"
    "during (ce_ipc env) s1 s2 b" "during (ce_ipc env) s1 s2 c" "f = turn_cascade h v k a b c pc"
    by (rule refresh_threshold_during [OF g f])
  with high le t have fresh: "f = Some THigh" by (auto simp: during_def)
  have allow: "ad_decision (evaluate (approval_context env toolName input workingDir mo cls THigh)) = Allow"
    by (simp add: evaluate_approves approves_def approval_context_def within_high)
  have "(approval_context env toolName input workingDir mo cls t)\<lparr>ax_autoApproveUpTo := Some THigh\<rparr> =
      approval_context env toolName input workingDir mo cls THigh"
    by (simp add: approval_context_def)
  with d t f fresh allow have "ad_decision d = Allow"
    by (cases "t = THigh") (auto simp: decide_def Let_def evaluate_approves split: if_splits)
  with r show ?thesis by simp
qed

section \<open>Properties\<close>

text \<open>C33: The policy is a threshold rule: whatever the tool's owner, scope and manifest, the decision is
  to allow exactly when the risk is at most the threshold or the command is a sandbox-approved bash
  command and the threshold is not the strict one; otherwise it is to prompt, never to deny. Raising
  the threshold never turns an approval into a prompt.\<close>

theorem policy_is_threshold_rule:
  "ad_decision (evaluate c) =
     (if isRiskWithinThreshold (ax_riskLevel c) (ax_autoApproveUpTo c) \<or>
         ax_toolName c = ''bash'' \<and> ax_hasSandboxAutoApprove c \<and> ax_autoApproveUpTo c \<noteq> Some TNone
      then Allow else Prompt) \<and>
   (ad_decision (evaluate (c\<lparr>ax_autoApproveUpTo := Some t\<rparr>)) = Allow \<and> THRESHOLD_ORDINAL t \<le> THRESHOLD_ORDINAL t' \<longrightarrow>
      ad_decision (evaluate (c\<lparr>ax_autoApproveUpTo := Some t'\<rparr>)) = Allow)"
proof
  show "ad_decision (evaluate c) = (if isRiskWithinThreshold (ax_riskLevel c) (ax_autoApproveUpTo c) \<or>
       ax_toolName c = ''bash'' \<and> ax_hasSandboxAutoApprove c \<and> ax_autoApproveUpTo c \<noteq> Some TNone then Allow else Prompt)"
    by (simp add: evaluate_approves approves_def)
  show "ad_decision (evaluate (c\<lparr>ax_autoApproveUpTo := Some t\<rparr>)) = Allow \<and> THRESHOLD_ORDINAL t \<le> THRESHOLD_ORDINAL t' \<longrightarrow>
      ad_decision (evaluate (c\<lparr>ax_autoApproveUpTo := Some t'\<rparr>)) = Allow"
    using approves_mono [where c = c and t = t and t' = t'] by (auto simp: evaluate_approves split: if_splits)
qed

text \<open>C32: Nothing is allowed above what the gateway's tables say. With a reachable gateway and honest
  caches, an allowed call is the background skill-authoring grant, or its risk is at most a threshold
  the tables gave for this turn within the caches' lifetimes, or it is a sandbox-approved bash command
  under a threshold other than strict -- and then, when the classification was made here, every path
  argument the gateway reported is inside the workspace with its symbolic links resolved.\<close>

theorem check_allow_sound:
  assumes g: "reachable_gateway (ce_ipc env) h L" and ok: "caches_honest (ce_ipc env) h L s"
    and c: "check env toolName input workingDir pc mo classification s = (Inr r, s')" and allow: "pr_decision r = Allow"
  shows "isRetrospectiveSkillAuthoringGrant toolName input pc \<or>
    (\<exists>cls t. (classification = Some cls \<or> classification = None \<and> classifyRisk env = Inr cls) \<and>
       enforced (ce_ipc env) h L s s' pc t \<and>
       (isRiskWithinThreshold (rc_level cls) (Some t) \<or>
        toolName = ''bash'' \<and> rc_sandboxAutoApprove cls = Some True \<and> t \<noteq> TNone \<and>
        (classification = None \<longrightarrow> (\<forall>ps. rc_sandboxPathArgs cls = Some ps \<longrightarrow>
           (\<forall>p \<in> set ps. isPathWithinWorkspaceRoot (ce_fs env) p (ce_workspaceDir env))))))"
  by (rule check_allow_core [OF assms])

text \<open>Full access never prompts, whatever the caches hold: when from the start of the check on the
  tables give the turn the highest threshold, a check that reaches a decision allows the call.\<close>

theorem full_access_never_prompts:
  assumes g: "reachable_gateway (ce_ipc env) h L"
    and high: "\<And>v k a b c. clock (ce_ipc env) s \<le> min (min v k) (min a (min b c)) \<Longrightarrow> turn_cascade h v k a b c pc = Some THigh"
    and c: "check env toolName input workingDir pc mo classification s = (Inr r, s')"
  shows "pr_decision r = Allow"
  by (rule full_access_core [OF assms])

text \<open>The check fails closed: an unreachable classifier is an error, and with an unreachable
  gateway and no usable cache entry every classified call prompts -- sandbox approval included --
  except the background grant.\<close>

theorem check_fails_closed:
  assumes "\<not> isRetrospectiveSkillAuthoringGrant toolName input pc" and "\<not> ce_abortedBefore env"
  shows "(ce_classify env = None \<longrightarrow>
      isl (fst (check env toolName input workingDir pc mo None s))) \<and>
    (gateway_down (ce_ipc env) \<and> caches_cold (ce_ipc env) s \<longrightarrow>
      (\<exists>r s'. check env toolName input workingDir pc mo (Some cls) s = (Inr r, s') \<and> pr_decision r = Prompt))"
proof (intro conjI impI)
  show "isl (fst (check env toolName input workingDir pc mo None s))" if "ce_classify env = None"
    using assms that by (auto simp: check_def classifyRisk_def)
  assume down: "gateway_down (ce_ipc env) \<and> caches_cold (ce_ipc env) s"
  obtain t s1 where t: "read_threshold env pc s = (t, s1)" by force
  have "t = TNone"
    using down_strict_read [of "ce_ipc env" s] down t unfolding read_threshold_def by (metis fst_conv)
  obtain f s2 where f: "refresh_threshold env pc s1 = (f, s2)" by force
  have "f = None" using down_strict_refresh [of "ce_ipc env"] down f unfolding refresh_threshold_def by (metis fst_conv)
  have "\<not> approves (approval_context env toolName input workingDir mo cls TNone)"
    by (simp add: approves_def approval_context_def within_none)
  then have "ad_decision (fst (decide env toolName input workingDir pc mo cls s)) = Prompt"
    using t f \<open>t = TNone\<close> \<open>f = None\<close> by (simp add: decide_def Let_def evaluate_approves)
  with assms show "\<exists>r s'. check env toolName input workingDir pc mo (Some cls) s = (Inr r, s') \<and> pr_decision r = Prompt"
    by (cases "decide env toolName input workingDir pc mo cls s") (auto simp: check_def)
qed

section \<open>Witnesses\<close>

definition demo_check_env :: check_env where
  "demo_check_env = \<lparr>ce_fs = demo_fs, ce_workspaceDir = ''/ws'', ce_containerized = False, ce_toolOwner = None,
     ce_skillBundled = False,
     ce_classify = Some \<lparr>cr_risk = ''high'', cr_reason = ''Recursive delete'', cr_matchType = ''registry'', cr_sandboxAutoApprove = None, cr_sandboxPathArgs = None\<rparr>,
     ce_abortedBefore = False, ce_abortedAfter = False, ce_ipc = steady_gateway demo_db\<rparr>"

definition demo_turn :: "PolicyContext option" where
  "demo_turn = Some \<lparr>px_executionContext = None, px_conversationId = Some ''c1'', px_requestOrigin = None,
     px_trustClass = None, px_sourceChannel = None, px_channelExternalId = None, px_channelConversationType = None,
     px_procToSkillsActive = False, px_requesterContactId = None\<rparr>"

text \<open>The cache still holds the strict value the conversation had before.\<close>

definition stale_reader :: reader where
  "stale_reader = empty_reader\<lparr>rd_conversations := [(''c1'', (Some ''none'', 99999))]\<rparr>"

definition demo_context :: ApprovalContext where
  "demo_context = \<lparr>ax_riskLevel = LevelMedium, ax_toolName = ''web_fetch'', ax_isContainerized = False, ax_isWorkspaceScoped = False,
     ax_toolOrigin = Some PluginOwner, ax_isSkillBundled = False, ax_hasManifestOverride = False,
     ax_hasSandboxAutoApprove = False, ax_autoApproveUpTo = Some TMedium\<rparr>"

lemma demo_not_grant: "\<not> isRetrospectiveSkillAuthoringGrant t i demo_turn"
  by (simp add: isRetrospectiveSkillAuthoringGrant_def demo_turn_def)

lemma demo_turn_high: "turn_cascade (\<lambda>t. demo_db) v k a b c demo_turn = Some THigh"
  using demo_cascade(1) by (simp add: turn_cascade_def demo_turn_def buildChannelPermissionCellQuery_def)

lemma demo_check_returns:
  "\<exists>r s'. check demo_check_env ''bash'' [] ''/ws'' demo_turn False None s = (Inr r, s')"
  by (cases "decide demo_check_env ''bash'' [] ''/ws'' demo_turn False
        \<lparr>rc_level = LevelHigh, rc_reason = ''Recursive delete'', rc_matchType = ''registry'', rc_sandboxAutoApprove = None, rc_sandboxPathArgs = None\<rparr> s")
    (simp add: check_def demo_not_grant, simp add: demo_check_env_def classifyRisk_def applyBashSymlinkEscapeCheck_def riskStringToLevel_def)

theorem policy_is_threshold_rule_witness:
  "ad_decision (evaluate demo_context) = Allow \<and> ad_decision (evaluate (demo_context\<lparr>ax_autoApproveUpTo := Some THigh\<rparr>)) = Allow"
  using policy_is_threshold_rule [where c = demo_context and t = TMedium and t' = THigh]
  by (simp add: demo_context_def isRiskWithinThreshold_def)

theorem full_access_never_prompts_witness:
  "\<exists>r s'. check demo_check_env ''bash'' [] ''/ws'' demo_turn False None stale_reader = (Inr r, s') \<and> pr_decision r = Allow"
proof -
  obtain r s' where c: "check demo_check_env ''bash'' [] ''/ws'' demo_turn False None stale_reader = (Inr r, s')"
    using demo_check_returns by blast
  have "reachable_gateway (ce_ipc demo_check_env) (\<lambda>t. demo_db) 0" by (simp add: demo_check_env_def steady_reachable)
  from full_access_never_prompts [OF this demo_turn_high c] c show ?thesis by blast
qed

theorem check_allow_sound_witness:
  "\<exists>r s' cls t. check demo_check_env ''bash'' [] ''/ws'' demo_turn False None empty_reader = (Inr r, s') \<and>
     classifyRisk demo_check_env = Inr cls \<and> enforced (steady_gateway demo_db) (\<lambda>t. demo_db) 0 empty_reader s' demo_turn t \<and>
     isRiskWithinThreshold (rc_level cls) (Some t)"
proof -
  obtain r s' where c: "check demo_check_env ''bash'' [] ''/ws'' demo_turn False None empty_reader = (Inr r, s')"
    using demo_check_returns by blast
  have g: "reachable_gateway (ce_ipc demo_check_env) (\<lambda>t. demo_db) 0" by (simp add: demo_check_env_def steady_reachable)
  have r: "pr_decision r = Allow"
  proof -
    obtain cls d where d: "decide demo_check_env ''bash'' [] ''/ws'' demo_turn False cls empty_reader = (d, s')" "pr_decision r = ad_decision d"
      by (rule check_decided [OF c demo_not_grant]) auto
    have "\<exists>t. enforced (ce_ipc demo_check_env) (\<lambda>t. demo_db) 0 empty_reader s' demo_turn t \<and>
        d = evaluate (approval_context demo_check_env ''bash'' [] ''/ws'' False cls t) \<or> ad_decision d = Allow"
    proof (rule decide_cases [OF d(1)], goal_cases)
      case (1 t s1)
      from read_threshold_enforced [OF g empty_reader_honest 1(1)] have "t = THigh"
        by (auto simp: enforced_def demo_turn_high strict_def)
      with 1(2) show ?case by (simp add: evaluate_approves approves_def approval_context_def within_high)
    next
      case (2 t s1 f)
      from read_threshold_enforced [OF g empty_reader_honest 2(1)]
      have "enforced (ce_ipc demo_check_env) (\<lambda>t. demo_db) 0 empty_reader s' demo_turn f"
        using refresh_threshold_enforced [OF g _ 2(2)] by blast
      with 2 show ?case by blast
    qed
    then show ?thesis
      using d(2) by (auto simp: enforced_def demo_turn_high strict_def evaluate_approves approves_def approval_context_def within_high)
  qed
  from check_allow_sound [OF g empty_reader_honest c r] demo_not_grant obtain cls t where
    "classifyRisk demo_check_env = Inr cls" "enforced (ce_ipc demo_check_env) (\<lambda>t. demo_db) 0 empty_reader s' demo_turn t"
    by auto
  moreover from this(2) have "t = THigh" by (auto simp: enforced_def demo_turn_high strict_def)
  ultimately show ?thesis using c within_high by (fastforce simp: demo_check_env_def)
qed

theorem check_fails_closed_witness:
  "isl (fst (check (demo_check_env\<lparr>ce_classify := None\<rparr>) ''bash'' [] ''/ws'' demo_turn False None empty_reader))"
  using check_fails_closed [OF demo_not_grant, of "demo_check_env\<lparr>ce_classify := None\<rparr>" "''bash''" "[]" "''/ws''" False empty_reader]
  by (simp add: demo_check_env_def)

end
