(* ===== verification/Scoped_Grants.thy ===== *)
theory Scoped_Grants
  imports Prelude
begin

text \<open>
  Scoped approval grants: the table and its operations \<^verbatim>\<open>assistant/src/approvals/scoped-approval-grants.ts\<close>
  and the primitive every producer and consumer goes through,
  \<^verbatim>\<open>assistant/src/approvals/approval-primitive.ts\<close>.

  \<^item> The table is the list of its rows, in the order a query without \<open>ORDER BY\<close> meets them. The fresh
    id and the time of a creation are arguments; an id already present is the storage error of the
    primary key.
  \<^item> Selecting a candidate and updating it are two statements. What other connections do to the table
    between them is the argument \<open>others\<close>: for each attempt, the atomic statements they execute.
  \<^item> The polling loop reads the clock, the abort signal and the interleaved statements of round \<open>n\<close> from a
    record \<open>polling\<close>; it is a partial function whose result is shown to exist.
\<close>

section \<open>Grants\<close>

datatype ScopeMode = RequestId | ToolSignature

datatype GrantStatus = Active | Consumed | Expired | Revoked

record ScopedApprovalGrant =
  gr_id :: string
  gr_scopeMode :: ScopeMode
  gr_requestId :: "string option"
  gr_toolName :: "string option"
  gr_inputDigest :: "string option"
  gr_requestChannel :: string
  gr_decisionChannel :: string
  gr_executionChannel :: "string option"
  gr_conversationId :: "string option"
  gr_callSessionId :: "string option"
  gr_requesterExternalUserId :: "string option"
  gr_guardianExternalUserId :: "string option"
  gr_status :: GrantStatus
  gr_expiresAt :: int
  gr_consumedAt :: "int option"
  gr_consumedByRequestId :: "string option"
  gr_createdAt :: int
  gr_updatedAt :: int

type_synonym grant_table = "ScopedApprovalGrant list"

record CreateScopedApprovalGrantParams =
  gp_scopeMode :: ScopeMode
  gp_requestId :: "string option"
  gp_toolName :: "string option"
  gp_inputDigest :: "string option"
  gp_requestChannel :: string
  gp_decisionChannel :: string
  gp_executionChannel :: "string option"
  gp_conversationId :: "string option"
  gp_callSessionId :: "string option"
  gp_requesterExternalUserId :: "string option"
  gp_guardianExternalUserId :: "string option"
  gp_expiresAt :: int

definition grant_row :: "CreateScopedApprovalGrantParams \<Rightarrow> string \<Rightarrow> int \<Rightarrow> ScopedApprovalGrant" where
  "grant_row p i now =
     \<lparr>gr_id = i, gr_scopeMode = gp_scopeMode p, gr_requestId = gp_requestId p, gr_toolName = gp_toolName p,
      gr_inputDigest = gp_inputDigest p, gr_requestChannel = gp_requestChannel p, gr_decisionChannel = gp_decisionChannel p,
      gr_executionChannel = gp_executionChannel p, gr_conversationId = gp_conversationId p,
      gr_callSessionId = gp_callSessionId p, gr_requesterExternalUserId = gp_requesterExternalUserId p,
      gr_guardianExternalUserId = gp_guardianExternalUserId p, gr_status = Active, gr_expiresAt = gp_expiresAt p,
      gr_consumedAt = None, gr_consumedByRequestId = None, gr_createdAt = now, gr_updatedAt = now\<rparr>"

text \<open>\<open>None\<close> is the constraint error of the insertion.\<close>

definition createScopedApprovalGrant ::
  "CreateScopedApprovalGrantParams \<Rightarrow> string \<Rightarrow> int \<Rightarrow> grant_table \<Rightarrow> (ScopedApprovalGrant \<times> grant_table) option" where
  "createScopedApprovalGrant p i now tbl =
     (if i \<in> set (map gr_id tbl) then None else Some (grant_row p i now, tbl @ [grant_row p i now]))"

section \<open>Atomic statements\<close>

record RevokeContextParams =
  rv_conversationId :: "string option"
  rv_callSessionId :: "string option"
  rv_requestChannel :: "string option"

definition consume_row :: "string \<Rightarrow> int \<Rightarrow> ScopedApprovalGrant \<Rightarrow> ScopedApprovalGrant" where
  "consume_row consumer now g =
     g\<lparr>gr_status := Consumed, gr_consumedAt := Some now, gr_consumedByRequestId := Some consumer, gr_updatedAt := now\<rparr>"

definition cas_target :: "string \<Rightarrow> ScopedApprovalGrant \<Rightarrow> bool" where
  "cas_target i g = (gr_id g = i \<and> gr_status g = Active)"

definition cas_consume :: "string \<Rightarrow> string \<Rightarrow> int \<Rightarrow> grant_table \<Rightarrow> nat \<times> grant_table" where
  "cas_consume i consumer now tbl =
     (length (filter (cas_target i) tbl), map (\<lambda>g. if cas_target i g then consume_row consumer now g else g) tbl)"

definition expirable :: "int \<Rightarrow> ScopedApprovalGrant \<Rightarrow> bool" where
  "expirable now g = (gr_status g = Active \<and> gr_expiresAt g \<le> now)"

definition expireScopedApprovalGrants :: "int \<Rightarrow> grant_table \<Rightarrow> nat \<times> grant_table" where
  "expireScopedApprovalGrants now tbl =
     (length (filter (expirable now) tbl),
      map (\<lambda>g. if expirable now g then g\<lparr>gr_status := Expired, gr_updatedAt := now\<rparr> else g) tbl)"

definition in_context :: "RevokeContextParams \<Rightarrow> ScopedApprovalGrant \<Rightarrow> bool" where
  "in_context p g =
     (gr_status g = Active \<and>
      (rv_conversationId p \<noteq> None \<longrightarrow> gr_conversationId g = rv_conversationId p) \<and>
      (rv_callSessionId p \<noteq> None \<longrightarrow> gr_callSessionId g = rv_callSessionId p) \<and>
      (rv_requestChannel p \<noteq> None \<longrightarrow> Some (gr_requestChannel g) = rv_requestChannel p))"

datatype grant_error = NoContextFilter

definition revokeScopedApprovalGrantsForContext ::
  "RevokeContextParams \<Rightarrow> int \<Rightarrow> grant_table \<Rightarrow> (grant_error + nat) \<times> grant_table" where
  "revokeScopedApprovalGrantsForContext p now tbl =
     (if rv_conversationId p = None \<and> rv_callSessionId p = None \<and> rv_requestChannel p = None
      then (Inl NoContextFilter, tbl)
      else (Inr (length (filter (in_context p) tbl)),
            map (\<lambda>g. if in_context p g then g\<lparr>gr_status := Revoked, gr_updatedAt := now\<rparr> else g) tbl))"

datatype grant_op =
    OpCreate CreateScopedApprovalGrantParams string int
  | OpConsume string string int
  | OpExpire int
  | OpRevoke RevokeContextParams int

fun run_op :: "grant_op \<Rightarrow> grant_table \<Rightarrow> grant_table" where
  "run_op (OpCreate p i now) tbl = (case createScopedApprovalGrant p i now tbl of None \<Rightarrow> tbl | Some (_, tbl') \<Rightarrow> tbl')"
| "run_op (OpConsume i consumer now) tbl = snd (cas_consume i consumer now tbl)"
| "run_op (OpExpire now) tbl = snd (expireScopedApprovalGrants now tbl)"
| "run_op (OpRevoke p now) tbl = snd (revokeScopedApprovalGrantsForContext p now tbl)"

definition run_ops :: "grant_op list \<Rightarrow> grant_table \<Rightarrow> grant_table" where
  "run_ops ops tbl = foldl (\<lambda>t op. run_op op t) tbl ops"

section \<open>Consumption\<close>

definition MAX_CAS_RETRIES :: nat where "MAX_CAS_RETRIES = 3"

record ConsumeResult =
  res_ok :: bool
  res_grant :: "ScopedApprovalGrant option"

definition consume_miss :: ConsumeResult where
  "consume_miss = \<lparr>res_ok = False, res_grant = None\<rparr>"

text \<open>The attempts left are counted down; \<open>others n\<close> runs between the two statements of an attempt.\<close>

fun consume_loop ::
  "nat \<Rightarrow> (nat \<Rightarrow> grant_op list) \<Rightarrow> (grant_table \<Rightarrow> ScopedApprovalGrant option) \<Rightarrow> string \<Rightarrow> int \<Rightarrow> grant_table \<Rightarrow>
     ConsumeResult \<times> grant_table" where
  "consume_loop 0 others select consumer now tbl = (consume_miss, tbl)"
| "consume_loop (Suc n) others select consumer now tbl =
     (case select tbl of
        None \<Rightarrow> (consume_miss, tbl)
      | Some candidate \<Rightarrow>
          (case cas_consume (gr_id candidate) consumer now (run_ops (others n) tbl) of (changes, tbl') \<Rightarrow>
             if changes = 0 then consume_loop n others select consumer now tbl'
             else (\<lparr>res_ok = True, res_grant = find (\<lambda>g. gr_id g = gr_id candidate) tbl'\<rparr>, tbl')))"

definition matches_request :: "string \<Rightarrow> int \<Rightarrow> ScopedApprovalGrant \<Rightarrow> bool" where
  "matches_request rid now g =
     (gr_requestId g = Some rid \<and> gr_scopeMode g = RequestId \<and> gr_status g = Active \<and> now < gr_expiresAt g)"

definition consumeScopedApprovalGrantByRequestId ::
  "(nat \<Rightarrow> grant_op list) \<Rightarrow> string \<Rightarrow> string \<Rightarrow> int \<Rightarrow> grant_table \<Rightarrow> ConsumeResult \<times> grant_table" where
  "consumeScopedApprovalGrantByRequestId others rid consumer now tbl =
     consume_loop (Suc MAX_CAS_RETRIES) others (find (matches_request rid now)) consumer now tbl"

record ConsumeByToolSignatureParams =
  cs_toolName :: string
  cs_inputDigest :: string
  cs_consumingRequestId :: string
  cs_executionChannel :: "string option"
  cs_conversationId :: "string option"
  cs_callSessionId :: "string option"
  cs_requesterExternalUserId :: "string option"

text \<open>A context condition: the grant's field is null or the value provided.\<close>

definition field_matches :: "string option \<Rightarrow> string option \<Rightarrow> bool" where
  "field_matches field provided =
     (case provided of Some v \<Rightarrow> field = None \<or> field = Some v | None \<Rightarrow> field = None)"

definition matches_signature :: "ConsumeByToolSignatureParams \<Rightarrow> int \<Rightarrow> ScopedApprovalGrant \<Rightarrow> bool" where
  "matches_signature p now g =
     (gr_toolName g = Some (cs_toolName p) \<and> gr_inputDigest g = Some (cs_inputDigest p) \<and>
      gr_scopeMode g = ToolSignature \<and> gr_status g = Active \<and> now < gr_expiresAt g \<and>
      field_matches (gr_executionChannel g) (cs_executionChannel p) \<and>
      field_matches (gr_conversationId g) (cs_conversationId p) \<and>
      field_matches (gr_callSessionId g) (cs_callSessionId p) \<and>
      field_matches (gr_requesterExternalUserId g) (cs_requesterExternalUserId p))"

definition specificity :: "ScopedApprovalGrant \<Rightarrow> nat" where
  "specificity g =
     length (filter (\<lambda>f. f \<noteq> None)
       [gr_executionChannel g, gr_conversationId g, gr_callSessionId g, gr_requesterExternalUserId g])"

text \<open>\<open>ORDER BY specificity DESC LIMIT 1\<close>.\<close>

fun most_specific :: "ScopedApprovalGrant list \<Rightarrow> ScopedApprovalGrant option" where
  "most_specific [] = None"
| "most_specific (g # gs) =
     (case most_specific gs of
        None \<Rightarrow> Some g
      | Some h \<Rightarrow> if specificity h \<le> specificity g then Some g else Some h)"

definition consumeScopedApprovalGrantByToolSignature ::
  "(nat \<Rightarrow> grant_op list) \<Rightarrow> ConsumeByToolSignatureParams \<Rightarrow> int \<Rightarrow> grant_table \<Rightarrow> ConsumeResult \<times> grant_table" where
  "consumeScopedApprovalGrantByToolSignature others p now tbl =
     consume_loop (Suc MAX_CAS_RETRIES) others (\<lambda>t. most_specific (filter (matches_signature p now) t))
       (cs_consumingRequestId p) now tbl"

section \<open>The primitive\<close>

datatype mint_error = MissingRequestId | MissingToolFields | StorageError

definition falsy :: "string option \<Rightarrow> bool" where
  "falsy v = (v = None \<or> v = Some [])"

definition mintGrantFromDecision ::
  "CreateScopedApprovalGrantParams \<Rightarrow> string \<Rightarrow> int \<Rightarrow> grant_table \<Rightarrow> (mint_error + ScopedApprovalGrant) \<times> grant_table" where
  "mintGrantFromDecision p i now tbl =
     (if gp_scopeMode p = RequestId \<and> falsy (gp_requestId p) then (Inl MissingRequestId, tbl)
      else if gp_scopeMode p = ToolSignature \<and> (falsy (gp_toolName p) \<or> falsy (gp_inputDigest p))
      then (Inl MissingToolFields, tbl)
      else
        case createScopedApprovalGrant p i now tbl of
          None \<Rightarrow> (Inl StorageError, tbl)
        | Some (g, tbl') \<Rightarrow> (Inr g, tbl'))"

datatype consume_failure = NoMatch | AbortedWait

record ConsumeGrantParams =
  cg_requestId :: "string option"
  cg_signature :: ConsumeByToolSignatureParams

text \<open>The test \<open>result.ok && result.grant\<close>.\<close>

definition consumed_grant :: "ConsumeResult \<Rightarrow> ScopedApprovalGrant option" where
  "consumed_grant r = (if res_ok r then res_grant r else None)"

text \<open>\<open>now\<close> is \<open>params.now\<close> or the time of the attempt; the two lookups have interleavings of their own.\<close>

definition consumeGrantSync ::
  "(nat \<Rightarrow> grant_op list) \<Rightarrow> (nat \<Rightarrow> grant_op list) \<Rightarrow> ConsumeGrantParams \<Rightarrow> int \<Rightarrow> grant_table \<Rightarrow>
     (consume_failure + ScopedApprovalGrant) \<times> grant_table" where
  "consumeGrantSync others others' p now tbl =
     (let byRequest =
        (if falsy (cg_requestId p) then (consume_miss, tbl)
         else consumeScopedApprovalGrantByRequestId others (the (cg_requestId p))
                (cs_consumingRequestId (cg_signature p)) now tbl)
      in case byRequest of (req, tbl1) \<Rightarrow>
           (case consumed_grant req of
              Some g \<Rightarrow> (Inr g, tbl1)
            | None \<Rightarrow>
                (case consumeScopedApprovalGrantByToolSignature others' (cg_signature p) now tbl1 of (sig, tbl2) \<Rightarrow>
                   (case consumed_grant sig of
                      Some g \<Rightarrow> (Inr g, tbl2)
                    | None \<Rightarrow> (Inl NoMatch, tbl2)))))"

definition GRANT_RETRY_INTERVAL_MS :: int where "GRANT_RETRY_INTERVAL_MS = 250"

definition GRANT_RETRY_MAX_WAIT_MS :: int where "GRANT_RETRY_MAX_WAIT_MS = 10000"

text \<open>Round \<open>n\<close>: the time at the loop test, the signal before and after the wait, what others do during
  the wait, the time and the interleavings of the attempt.\<close>

record polling =
  po_clock :: "nat \<Rightarrow> int"
  po_abortedBefore :: "nat \<Rightarrow> bool"
  po_abortedAfter :: "nat \<Rightarrow> bool"
  po_waiting :: "nat \<Rightarrow> grant_op list"
  po_now :: "nat \<Rightarrow> int"
  po_others :: "nat \<Rightarrow> nat \<Rightarrow> grant_op list"
  po_others' :: "nat \<Rightarrow> nat \<Rightarrow> grant_op list"

partial_function (option) poll_grants ::
  "polling \<Rightarrow> ConsumeGrantParams \<Rightarrow> int \<Rightarrow> nat \<Rightarrow> grant_table \<Rightarrow> ((consume_failure + ScopedApprovalGrant) \<times> grant_table) option" where
  "poll_grants po p deadline n tbl =
     (if po_clock po n < deadline
      then
        if po_abortedBefore po n then Some (Inl AbortedWait, tbl)
        else
          let tbl1 = run_ops (po_waiting po n) tbl
          in if po_abortedAfter po n then Some (Inl AbortedWait, tbl1)
             else
               let (result, tbl2) = consumeGrantSync (po_others po n) (po_others' po n) p (po_now po n) tbl1
               in case result of
                    Inr g \<Rightarrow> Some (Inr g, tbl2)
                  | Inl _ \<Rightarrow> poll_grants po p deadline (Suc n) tbl2
      else Some (Inl NoMatch, tbl))"

text \<open>The first attempt is round 0; \<open>maxWait\<close> is the option or its default.\<close>

definition consumeGrantForInvocation ::
  "polling \<Rightarrow> ConsumeGrantParams \<Rightarrow> int option \<Rightarrow> grant_table \<Rightarrow> ((consume_failure + ScopedApprovalGrant) \<times> grant_table) option" where
  "consumeGrantForInvocation po p maxWaitMs tbl =
     (case consumeGrantSync (po_others po 0) (po_others' po 0) p (po_now po 0) tbl of (first, tbl1) \<Rightarrow>
        case first of
          Inr g \<Rightarrow> Some (Inr g, tbl1)
        | Inl e \<Rightarrow>
            let maxWait = (case maxWaitMs of None \<Rightarrow> GRANT_RETRY_MAX_WAIT_MS | Some w \<Rightarrow> w)
            in if maxWait \<le> 0 then Some (Inl e, tbl1)
               else poll_grants po p (po_clock po 0 + maxWait) 1 tbl1)"

section \<open>Spent grants stay spent\<close>

text \<open>A grant is dead when its row is in the table and no row with its id is active.\<close>

definition dead :: "string \<Rightarrow> grant_table \<Rightarrow> bool" where
  "dead i tbl = (i \<in> set (map gr_id tbl) \<and> (\<forall>g \<in> set tbl. gr_id g = i \<longrightarrow> gr_status g \<noteq> Active))"

lemma dead_map:
  assumes "dead i tbl" and "\<And>g. gr_id (f g) = gr_id g" and "\<And>g. gr_status (f g) = Active \<Longrightarrow> gr_status g = Active"
  shows "dead i (map f tbl)"
  using assms unfolding dead_def by (auto simp: image_image)

lemma dead_run_op: "dead i tbl \<Longrightarrow> dead i (run_op op tbl)"
proof (cases op)
  case (OpCreate p j now)
  assume "dead i tbl"
  then show ?thesis
    by (cases "j \<in> set (map gr_id tbl)") (auto simp: OpCreate createScopedApprovalGrant_def dead_def grant_row_def)
next
  case (OpConsume j consumer now)
  assume "dead i tbl"
  then show ?thesis by (auto simp: OpConsume cas_consume_def consume_row_def intro!: dead_map split: if_splits)
next
  case (OpExpire now)
  assume "dead i tbl"
  then show ?thesis by (auto simp: OpExpire expireScopedApprovalGrants_def intro!: dead_map split: if_splits)
next
  case (OpRevoke p now)
  assume "dead i tbl"
  then show ?thesis by (auto simp: OpRevoke revokeScopedApprovalGrantsForContext_def intro!: dead_map split: if_splits)
qed

lemma dead_run_ops: "dead i tbl \<Longrightarrow> dead i (run_ops ops tbl)"
  unfolding run_ops_def by (induction ops arbitrary: tbl) (auto intro: dead_run_op)

lemma dead_cas: "dead i tbl \<Longrightarrow> dead i (snd (cas_consume j consumer now tbl))"
  using dead_run_op [of i tbl "OpConsume j consumer now"] by simp

lemma find_row: "i \<in> set (map gr_id tbl) \<Longrightarrow> \<exists>g. find (\<lambda>g. gr_id g = i) tbl = Some g \<and> gr_id g = i"
  by (induction tbl) auto

lemma find_unique_row:
  "distinct (map gr_id tbl) \<Longrightarrow> g \<in> set tbl \<Longrightarrow> find (\<lambda>h. gr_id h = gr_id g) tbl = Some g"
proof (induction tbl)
  case (Cons h tbl)
  show ?case
  proof (cases "g = h")
    case False
    then have g: "g \<in> set tbl" using Cons.prems(2) by simp
    then have "gr_id h \<noteq> gr_id g" using Cons.prems(1) by (metis distinct.simps(2) image_eqI list.simps(9) set_map)
    with Cons g show ?thesis by simp
  qed simp
qed simp

lemma same_id_row:
  assumes "distinct (map gr_id tbl)" "x \<in> set tbl" "y \<in> set tbl" "gr_id x = gr_id y"
  shows "x = y"
proof (rule inj_onD [of gr_id "set tbl"])
  show "inj_on gr_id (set tbl)" using assms(1) by (simp add: distinct_map)
qed (rule assms)+

lemma cas_wins:
  assumes "cas_consume i consumer now tbl = (changes, tbl')" "changes \<noteq> 0"
  shows "\<not> dead i tbl" "dead i tbl'" "\<exists>g. find (\<lambda>g. gr_id g = i) tbl' = Some g \<and> gr_id g = i"
proof -
  from assms obtain g where g: "g \<in> set tbl" "cas_target i g"
    by (auto simp: cas_consume_def filter_empty_conv)
  then show "\<not> dead i tbl" by (auto simp: dead_def cas_target_def)
  have ids: "map gr_id tbl' = map gr_id tbl" using assms(1) by (auto simp: cas_consume_def consume_row_def)
  have i: "i \<in> set (map gr_id tbl')" using g by (auto simp: ids cas_target_def)
  have tbl': "tbl' = map (\<lambda>g. if cas_target i g then consume_row consumer now g else g) tbl"
    using assms(1) by (simp add: cas_consume_def)
  have "gr_status g' \<noteq> Active" if "g' \<in> set tbl'" "gr_id g' = i" for g'
  proof -
    from that(1) obtain x where x: "g' = (if cas_target i x then consume_row consumer now x else x)"
      unfolding tbl' set_map by blast
    show ?thesis
    proof (cases "cas_target i x")
      case True
      with x show ?thesis by (simp add: consume_row_def)
    next
      case False
      then have "g' = x" using x by simp
      with False that(2) show ?thesis by (simp add: cas_target_def)
    qed
  qed
  with i show "dead i tbl'" unfolding dead_def by blast
  show "\<exists>g. find (\<lambda>g. gr_id g = i) tbl' = Some g \<and> gr_id g = i" by (rule find_row [OF i])
qed

text \<open>The three ways an attempt ends.\<close>

lemma attempt_cases:
  assumes "consume_loop (Suc n) others select consumer now tbl = (r, tbl')"
  obtains (nothing) "r = consume_miss" "tbl' = tbl" "select tbl = None"
    | (stolen) c t1 where "select tbl = Some c" "cas_consume (gr_id c) consumer now (run_ops (others n) tbl) = (0, t1)"
        "consume_loop n others select consumer now t1 = (r, tbl')"
    | (won) c k where "select tbl = Some c" "cas_consume (gr_id c) consumer now (run_ops (others n) tbl) = (k, tbl')"
        "k \<noteq> 0" "r = \<lparr>res_ok = True, res_grant = find (\<lambda>g. gr_id g = gr_id c) tbl'\<rparr>"
  using assms by (cases "select tbl") (auto split: prod.splits if_splits)

declare consume_loop.simps(2) [simp del]

lemma consume_loop_dead:
  "consume_loop n others select consumer now tbl = (r, tbl') \<Longrightarrow> dead i tbl \<Longrightarrow> dead i tbl'"
proof (induction n arbitrary: tbl)
  case (Suc n)
  have step: "dead i t1" if "cas_consume j consumer now (run_ops (others n) tbl) = (k, t1)" for j k t1
    using dead_cas [OF dead_run_ops [OF Suc.prems(2)], of j consumer now "others n"] that by simp
  show ?case using Suc.prems(1) by (rule attempt_cases) (use Suc step in auto)
qed simp

lemma consume_loop_win:
  "consume_loop n others select consumer now tbl = (r, tbl') \<Longrightarrow> res_ok r \<Longrightarrow>
   \<exists>g. res_grant r = Some g \<and> \<not> dead (gr_id g) tbl \<and> dead (gr_id g) tbl'"
proof (induction n arbitrary: tbl)
  case 0
  then show ?case by (auto simp: consume_miss_def)
next
  case (Suc n)
  from Suc.prems(1) show ?case
  proof (cases rule: attempt_cases)
    case nothing
    then show ?thesis using Suc.prems(2) by (simp add: consume_miss_def)
  next
    case (stolen c t1)
    from Suc.IH [OF stolen(3) Suc.prems(2)] obtain g where
      g: "res_grant r = Some g" "\<not> dead (gr_id g) t1" "dead (gr_id g) tbl'" by blast
    have "\<not> dead (gr_id g) tbl"
      using g(2) dead_cas [OF dead_run_ops, of "gr_id g" tbl "gr_id c" consumer now "others n"] stolen(2) by auto
    with g show ?thesis by blast
  next
    case (won c k)
    with cas_wins [OF won(2,3)] show ?thesis using dead_run_ops [of "gr_id c" tbl "others n"] by auto
  qed
qed

text \<open>Calls of the primitive and of the maintenance operations, one after the other.\<close>

datatype grant_call =
    CallMint CreateScopedApprovalGrantParams string int
  | CallConsume "nat \<Rightarrow> grant_op list" "nat \<Rightarrow> grant_op list" ConsumeGrantParams int
  | CallExpire int
  | CallRevoke RevokeContextParams int

fun call_grants :: "grant_call \<Rightarrow> grant_table \<Rightarrow> string option \<times> grant_table" where
  "call_grants (CallMint p i now) tbl = (None, snd (mintGrantFromDecision p i now tbl))"
| "call_grants (CallConsume others others' p now) tbl =
     (case consumeGrantSync others others' p now tbl of
        (Inr g, tbl') \<Rightarrow> (Some (gr_id g), tbl')
      | (Inl _, tbl') \<Rightarrow> (None, tbl'))"
| "call_grants (CallExpire now) tbl = (None, snd (expireScopedApprovalGrants now tbl))"
| "call_grants (CallRevoke p now) tbl = (None, snd (revokeScopedApprovalGrantsForContext p now tbl))"

text \<open>The ids of the grants that authorised an execution, in order.\<close>

fun grants_won :: "grant_call list \<Rightarrow> grant_table \<Rightarrow> string list" where
  "grants_won [] tbl = []"
| "grants_won (c # cs) tbl =
     (case call_grants c tbl of
        (Some i, tbl') \<Rightarrow> i # grants_won cs tbl'
      | (None, tbl') \<Rightarrow> grants_won cs tbl')"

text \<open>Both lookups are instances of the loop; \<open>sync_cases\<close> says which one answered.\<close>

lemma by_request_loop:
  "consumeScopedApprovalGrantByRequestId others rid consumer now tbl = (r, tbl') \<Longrightarrow>
   consume_loop (Suc MAX_CAS_RETRIES) others (find (matches_request rid now)) consumer now tbl = (r, tbl')"
  by (simp add: consumeScopedApprovalGrantByRequestId_def)

lemma by_signature_loop:
  "consumeScopedApprovalGrantByToolSignature others p now tbl = (r, tbl') \<Longrightarrow>
   consume_loop (Suc MAX_CAS_RETRIES) others (\<lambda>t. most_specific (filter (matches_signature p now) t))
     (cs_consumingRequestId p) now tbl = (r, tbl')"
  by (simp add: consumeScopedApprovalGrantByToolSignature_def)

lemma sync_cases:
  assumes "consumeGrantSync others others' p now tbl = (r, tbl')"
  obtains (request) rid req g where "cg_requestId p = Some rid" "r = Inr g" "res_ok req" "res_grant req = Some g"
      "consumeScopedApprovalGrantByRequestId others rid (cs_consumingRequestId (cg_signature p)) now tbl = (req, tbl')"
    | (signature) req tbl1 sig g where "r = Inr g" "res_ok sig" "res_grant sig = Some g"
        "tbl1 = tbl \<or> (\<exists>rid. consumeScopedApprovalGrantByRequestId others rid (cs_consumingRequestId (cg_signature p)) now tbl = (req, tbl1))"
        "consumeScopedApprovalGrantByToolSignature others' (cg_signature p) now tbl1 = (sig, tbl')"
    | (neither) req tbl1 sig where "r = Inl NoMatch" "\<not> res_ok sig"
        "tbl1 = tbl \<or> (\<exists>rid. consumeScopedApprovalGrantByRequestId others rid (cs_consumingRequestId (cg_signature p)) now tbl = (req, tbl1))"
        "consumeScopedApprovalGrantByToolSignature others' (cg_signature p) now tbl1 = (sig, tbl')"
proof -
  define br where "br = (if falsy (cg_requestId p) then (consume_miss, tbl)
    else consumeScopedApprovalGrantByRequestId others (the (cg_requestId p)) (cs_consumingRequestId (cg_signature p)) now tbl)"
  obtain req tbl1 where req: "br = (req, tbl1)" by force
  obtain sig tbl2 where sig: "consumeScopedApprovalGrantByToolSignature others' (cg_signature p) now tbl1 = (sig, tbl2)" by force
  have from_request: "tbl1 = tbl \<and> req = consume_miss \<or> (\<exists>rid. cg_requestId p = Some rid \<and>
      consumeScopedApprovalGrantByRequestId others rid (cs_consumingRequestId (cg_signature p)) now tbl = (req, tbl1))"
    using req unfolding br_def falsy_def by (cases "cg_requestId p") (auto split: if_splits)
  have w2: "\<exists>g. res_grant sig = Some g" if "res_ok sig"
    using consume_loop_win [OF by_signature_loop [OF sig] that] by blast
  have run: "consumeGrantSync others others' p now tbl =
      (case consumed_grant req of
         Some g \<Rightarrow> (Inr g, tbl1)
       | None \<Rightarrow> (case consumed_grant sig of Some g \<Rightarrow> (Inr g, tbl2) | None \<Rightarrow> (Inl NoMatch, tbl2)))"
    unfolding consumeGrantSync_def Let_def br_def [symmetric] req
    by (cases "consumed_grant req") (simp_all add: sig)
  show thesis
  proof (cases "consumed_grant req")
    case (Some g)
    then have ok: "res_ok req" "res_grant req = Some g" by (auto simp: consumed_grant_def split: if_splits)
    with from_request obtain rid where "cg_requestId p = Some rid"
      "consumeScopedApprovalGrantByRequestId others rid (cs_consumingRequestId (cg_signature p)) now tbl = (req, tbl1)"
      by (auto simp: consume_miss_def)
    moreover have "r = Inr g" "tbl' = tbl1" using assms run Some by simp_all
    ultimately show thesis using ok by (intro request) simp_all
  next
    case None
    show thesis
    proof (cases "consumed_grant sig")
      case (Some g)
      then have ok: "res_ok sig" "res_grant sig = Some g" by (auto simp: consumed_grant_def split: if_splits)
      have "r = Inr g" "tbl' = tbl2" using assms run None Some by simp_all
      with ok sig from_request show thesis by (intro signature [of g sig tbl1 req]) auto
    next
      case nosig: None
      then have "\<not> res_ok sig" using w2 by (auto simp: consumed_grant_def)
      moreover have "r = Inl NoMatch" "tbl' = tbl2" using assms run None nosig by simp_all
      ultimately show thesis using sig from_request by (intro neither [of sig tbl1 req]) auto
    qed
  qed
qed

lemma consumeGrantSync_dead:
  assumes "consumeGrantSync others others' p now tbl = (r, tbl')" "dead i tbl"
  shows "dead i tbl'"
  using assms(1)
  by (cases rule: sync_cases) (use assms(2) in \<open>auto dest!: by_request_loop by_signature_loop intro: consume_loop_dead\<close>)

lemma consumeGrantSync_win:
  assumes "consumeGrantSync others others' p now tbl = (Inr g, tbl')"
  shows "\<not> dead (gr_id g) tbl \<and> dead (gr_id g) tbl'"
  using assms
proof (cases rule: sync_cases)
  case (request rid req g')
  from consume_loop_win [OF by_request_loop [OF request(5)] request(3)] request show ?thesis by auto
next
  case (signature req tbl1 sig g')
  from consume_loop_win [OF by_signature_loop [OF signature(5)] signature(2)] signature(1,3)
  have "\<not> dead (gr_id g) tbl1 \<and> dead (gr_id g) tbl'" by auto
  moreover have "dead (gr_id g) tbl \<longrightarrow> dead (gr_id g) tbl1"
    using signature(4) consume_loop_dead [OF by_request_loop] by auto
  ultimately show ?thesis by blast
next
  case (neither req tbl1 sig)
  then show ?thesis by simp
qed

lemma call_dead: "dead i tbl \<Longrightarrow> dead i (snd (call_grants c tbl))"
proof (cases c)
  case (CallMint p j now)
  assume d: "dead i tbl"
  show ?thesis using dead_run_op [OF d, of "OpCreate p j now"] d
    by (auto simp: CallMint mintGrantFromDecision_def split: option.splits)
next
  case (CallConsume others others' p now)
  assume d: "dead i tbl"
  then show ?thesis using consumeGrantSync_dead by (auto simp: CallConsume split: prod.splits sum.splits)
next
  case (CallExpire now)
  assume d: "dead i tbl"
  show ?thesis using dead_run_op [OF d, of "OpExpire now"] by (simp add: CallExpire)
next
  case (CallRevoke p now)
  assume d: "dead i tbl"
  show ?thesis using dead_run_op [OF d, of "OpRevoke p now"] by (simp add: CallRevoke)
qed

lemma call_win: "call_grants c tbl = (Some i, tbl') \<Longrightarrow> \<not> dead i tbl \<and> dead i tbl'"
  by (cases c) (auto split: prod.splits sum.splits dest: consumeGrantSync_win)

lemma dead_not_won: "dead i tbl \<Longrightarrow> i \<notin> set (grants_won cs tbl)"
proof (induction cs arbitrary: tbl)
  case (Cons c cs)
  obtain w tbl' where c: "call_grants c tbl = (w, tbl')" by force
  have "dead i tbl'" using call_dead [OF Cons.prems, of c] c by simp
  then show ?case using Cons c call_win [of c tbl i tbl'] by (cases w) auto
qed simp

section \<open>Every statement of a run\<close>

text \<open>The statements that calls and the connections interleaved with them send to the table, in the order they run: \<open>True\<close> marks
  those of the calls, \<open>False\<close> those of others. The traces follow the code's control flow; \<open>trace_loop\<close>, \<open>trace_sync\<close> and
  \<open>trace_calls\<close> say that running the statements one by one leaves the table the calls leave.\<close>

type_synonym grant_trace = "(bool \<times> grant_op) list"

fun loop_ops ::
  "nat \<Rightarrow> (nat \<Rightarrow> grant_op list) \<Rightarrow> (grant_table \<Rightarrow> ScopedApprovalGrant option) \<Rightarrow> string \<Rightarrow> int \<Rightarrow> grant_table \<Rightarrow> grant_trace" where
  "loop_ops 0 others select consumer now tbl = []"
| "loop_ops (Suc n) others select consumer now tbl =
     (case select tbl of
        None \<Rightarrow> []
      | Some candidate \<Rightarrow>
          map (Pair False) (others n) @ (True, OpConsume (gr_id candidate) consumer now) #
          (case cas_consume (gr_id candidate) consumer now (run_ops (others n) tbl) of (changes, tbl') \<Rightarrow>
             if changes = 0 then loop_ops n others select consumer now tbl' else []))"

declare loop_ops.simps(2) [simp del]

definition sync_ops ::
  "(nat \<Rightarrow> grant_op list) \<Rightarrow> (nat \<Rightarrow> grant_op list) \<Rightarrow> ConsumeGrantParams \<Rightarrow> int \<Rightarrow> grant_table \<Rightarrow> grant_trace" where
  "sync_ops others others' p now tbl =
     (let consumer = cs_consumingRequestId (cg_signature p);
          rid = the (cg_requestId p);
          skipped = falsy (cg_requestId p);
          first = (if skipped then [] else loop_ops (Suc MAX_CAS_RETRIES) others (find (matches_request rid now)) consumer now tbl);
          (req, tbl1) = (if skipped then (consume_miss, tbl) else consumeScopedApprovalGrantByRequestId others rid consumer now tbl)
      in if consumed_grant req \<noteq> None then first
         else first @ loop_ops (Suc MAX_CAS_RETRIES) others'
                (\<lambda>t. most_specific (filter (matches_signature (cg_signature p) now) t)) consumer now tbl1)"

fun call_ops :: "grant_call \<Rightarrow> grant_table \<Rightarrow> grant_trace" where
  "call_ops (CallMint p i now) tbl =
     (if fst (mintGrantFromDecision p i now tbl) \<in> {Inl MissingRequestId, Inl MissingToolFields} then [] else [(True, OpCreate p i now)])"
| "call_ops (CallConsume others others' p now) tbl = sync_ops others others' p now tbl"
| "call_ops (CallExpire now) tbl = [(True, OpExpire now)]"
| "call_ops (CallRevoke p now) tbl = [(True, OpRevoke p now)]"

fun calls_ops :: "grant_call list \<Rightarrow> grant_table \<Rightarrow> grant_trace" where
  "calls_ops [] tbl = []"
| "calls_ops (c # cs) tbl = call_ops c tbl @ calls_ops cs (snd (call_grants c tbl))"

text \<open>The updates of a trace that consumed a row: each is what an execution is authorised by, whoever sent it.\<close>

fun wins :: "grant_trace \<Rightarrow> grant_table \<Rightarrow> (bool \<times> string) list" where
  "wins [] tbl = []"
| "wins ((own, op) # tr) tbl =
     (case op of
        OpConsume i consumer now \<Rightarrow> if fst (cas_consume i consumer now tbl) = 0 then [] else [(own, i)]
      | _ \<Rightarrow> []) @ wins tr (run_op op tbl)"

definition own_wins :: "grant_trace \<Rightarrow> grant_table \<Rightarrow> string list" where
  "own_wins tr tbl = map snd (filter fst (wins tr tbl))"

lemma run_ops_simps [simp]:
  "run_ops [] tbl = tbl" "run_ops (op # ops) tbl = run_ops ops (run_op op tbl)" "run_ops (ops @ ops') tbl = run_ops ops' (run_ops ops tbl)"
  by (simp_all add: run_ops_def)

lemma wins_append [simp]: "wins (tr @ tr') tbl = wins tr tbl @ wins tr' (run_ops (map snd tr) tbl)"
  by (induction tr tbl rule: wins.induct) simp_all

lemma own_wins_append [simp]: "own_wins (tr @ tr') tbl = own_wins tr tbl @ own_wins tr' (run_ops (map snd tr) tbl)"
  by (simp add: own_wins_def)

lemma others_win_nothing [simp]: "own_wins (map (Pair False) ops) tbl = []"
proof -
  have "filter fst (wins (map (Pair False) ops) tbl) = []" by (induction ops arbitrary: tbl) (auto split: grant_op.split)
  then show ?thesis by (simp add: own_wins_def)
qed

lemma own_wins_consume [simp]:
  "own_wins ((True, OpConsume i consumer now) # tr) tbl =
     (if fst (cas_consume i consumer now tbl) = 0 then [] else [i]) @ own_wins tr (snd (cas_consume i consumer now tbl))"
  by (simp add: own_wins_def)

lemma own_wins_Nil [simp]: "own_wins [] tbl = []"
  by (simp add: own_wins_def)

definition won_id :: "ConsumeResult \<Rightarrow> string list" where
  "won_id r = (case consumed_grant r of None \<Rightarrow> [] | Some g \<Rightarrow> [gr_id g])"

lemma trace_loop:
  "consume_loop n others select consumer now tbl = (r, tbl') \<Longrightarrow>
   run_ops (map snd (loop_ops n others select consumer now tbl)) tbl = tbl' \<and>
   own_wins (loop_ops n others select consumer now tbl) tbl = won_id r"
proof (induction n arbitrary: tbl)
  case 0
  then show ?case by (auto simp: consume_miss_def won_id_def consumed_grant_def)
next
  case (Suc n)
  from Suc.prems show ?case
  proof (cases rule: attempt_cases)
    case nothing
    then show ?thesis by (simp add: loop_ops.simps consume_miss_def won_id_def consumed_grant_def)
  next
    case (stolen c t1)
    with Suc.IH [OF stolen(3)] show ?thesis by (simp add: loop_ops.simps comp_def)
  next
    case (won c k)
    from cas_wins(3) [OF won(2,3)] won(4) have "won_id r = [gr_id c]" by (auto simp: won_id_def consumed_grant_def)
    with won(1-3) show ?thesis by (simp add: loop_ops.simps comp_def)
  qed
qed

lemma trace_sync:
  assumes "consumeGrantSync others others' p now tbl = (r, tbl')"
  shows "run_ops (map snd (sync_ops others others' p now tbl)) tbl = tbl'"
    and "own_wins (sync_ops others others' p now tbl) tbl = (case r of Inr g \<Rightarrow> [gr_id g] | Inl _ \<Rightarrow> [])"
proof -
  let ?consumer = "cs_consumingRequestId (cg_signature p)" and ?rid = "the (cg_requestId p)"
  let ?sel = "\<lambda>t. most_specific (filter (matches_signature (cg_signature p) now) t)"
  let ?first = "if falsy (cg_requestId p) then []
    else loop_ops (Suc MAX_CAS_RETRIES) others (find (matches_request ?rid now)) ?consumer now tbl"
  obtain req tbl1 where req: "(if falsy (cg_requestId p) then (consume_miss, tbl)
      else consumeScopedApprovalGrantByRequestId others ?rid ?consumer now tbl) = (req, tbl1)" by force
  obtain sig tbl2 where sig: "consumeScopedApprovalGrantByToolSignature others' (cg_signature p) now tbl1 = (sig, tbl2)" by force
  have first: "run_ops (map snd ?first) tbl = tbl1 \<and> own_wins ?first tbl = won_id req"
  proof (cases "falsy (cg_requestId p)")
    case True
    with req show ?thesis by (auto simp: won_id_def consumed_grant_def consume_miss_def)
  next
    case False
    with req trace_loop [OF by_request_loop] show ?thesis by (simp split: if_splits)
  qed
  note second = trace_loop [OF by_signature_loop [OF sig]]
  have ops: "sync_ops others others' p now tbl =
      (if consumed_grant req \<noteq> None then ?first else ?first @ loop_ops (Suc MAX_CAS_RETRIES) others' ?sel ?consumer now tbl1)"
    unfolding sync_ops_def Let_def req by simp
  have run: "consumeGrantSync others others' p now tbl =
      (case consumed_grant req of
         Some g \<Rightarrow> (Inr g, tbl1)
       | None \<Rightarrow> (case consumed_grant sig of Some g \<Rightarrow> (Inr g, tbl2) | None \<Rightarrow> (Inl NoMatch, tbl2)))"
    unfolding consumeGrantSync_def Let_def req by (cases "consumed_grant req") (simp_all add: sig)
  have "run_ops (map snd (sync_ops others others' p now tbl)) tbl = tbl' \<and>
      own_wins (sync_ops others others' p now tbl) tbl = (case r of Inr g \<Rightarrow> [gr_id g] | Inl _ \<Rightarrow> [])"
  proof (cases "consumed_grant req")
    case (Some g)
    with first run assms show ?thesis unfolding ops by (simp add: won_id_def)
  next
    case None
    then have ops': "sync_ops others others' p now tbl = ?first @ loop_ops (Suc MAX_CAS_RETRIES) others' ?sel ?consumer now tbl1"
      unfolding ops by (simp only: if_False simp_thms)
    from None run assms have r: "(case consumed_grant sig of Some g \<Rightarrow> (Inr g, tbl2) | None \<Rightarrow> (Inl NoMatch, tbl2)) = (r, tbl')" by simp
    have "own_wins ?first tbl = []" using first None by (simp add: won_id_def)
    with first second r show ?thesis unfolding ops' map_append run_ops_simps own_wins_append
      by (cases "consumed_grant sig") (auto simp: won_id_def)
  qed
  then show "run_ops (map snd (sync_ops others others' p now tbl)) tbl = tbl'"
    "own_wins (sync_ops others others' p now tbl) tbl = (case r of Inr g \<Rightarrow> [gr_id g] | Inl _ \<Rightarrow> [])" by simp_all
qed

lemma trace_call:
  "run_ops (map snd (call_ops c tbl)) tbl = snd (call_grants c tbl) \<and>
   own_wins (call_ops c tbl) tbl = (case fst (call_grants c tbl) of None \<Rightarrow> [] | Some i \<Rightarrow> [i])"
proof (cases c)
  case (CallMint p i now)
  then show ?thesis by (auto simp: mintGrantFromDecision_def own_wins_def split: option.splits)
next
  case (CallConsume others others' p now)
  obtain r tbl' where r: "consumeGrantSync others others' p now tbl = (r, tbl')" by force
  from trace_sync [OF r] r show ?thesis unfolding CallConsume by (cases r) simp_all
qed (simp_all add: own_wins_def)

lemma trace_calls:
  "run_ops (map snd (calls_ops cs tbl)) tbl = foldl (\<lambda>t c. snd (call_grants c t)) tbl cs \<and>
   own_wins (calls_ops cs tbl) tbl = grants_won cs tbl"
proof (induction cs arbitrary: tbl)
  case (Cons c cs)
  with trace_call [of c tbl] show ?case by (auto split: option.split prod.split)
qed simp

lemma dead_wins: "dead i tbl \<Longrightarrow> i \<notin> snd ` set (wins tr tbl)"
proof (induction tr tbl rule: wins.induct)
  case (2 own op tr tbl)
  have "dead i (run_op op tbl)" using 2(2) by (rule dead_run_op)
  moreover have "j \<noteq> i" if "op = OpConsume j consumer now" "fst (cas_consume j consumer now tbl) \<noteq> 0" for j consumer now
    using cas_wins(1) [OF prod.collapse [symmetric] that(2)] 2(2) by auto
  ultimately show ?case using 2(1) by (auto split: grant_op.split)
qed simp

lemma wins_distinct: "distinct (map snd (wins tr tbl))"
proof (induction tr tbl rule: wins.induct)
  case (2 own op tr tbl)
  show ?case
  proof (cases "\<exists>j consumer now. op = OpConsume j consumer now \<and> fst (cas_consume j consumer now tbl) \<noteq> 0")
    case True
    then obtain j consumer now where op: "op = OpConsume j consumer now" "fst (cas_consume j consumer now tbl) \<noteq> 0" by blast
    have "dead j (run_op op tbl)" using cas_wins(2) [OF prod.collapse [symmetric] op(2)] op(1) by simp
    from dead_wins [OF this] 2 op show ?thesis by simp
  next
    case False
    then have "wins ((own, op) # tr) tbl = wins tr (run_op op tbl)" by (cases op) auto
    with 2 show ?thesis by (simp only:)
  qed
qed simp

section \<open>What a consumed grant covers\<close>

text \<open>The part of a row no statement changes.\<close>

definition essence :: "ScopedApprovalGrant \<Rightarrow> ScopedApprovalGrant" where
  "essence g = g\<lparr>gr_status := Active, gr_consumedAt := None, gr_consumedByRequestId := None, gr_updatedAt := 0\<rparr>"

lemma essence_simps [simp]:
  "essence (consume_row consumer now g) = essence g" "essence (g\<lparr>gr_status := st, gr_updatedAt := u\<rparr>) = essence g"
  "gr_id (essence g) = gr_id g"
  by (simp_all add: essence_def consume_row_def)

lemma map_essence: "(\<And>g. essence (f g) = essence g) \<Longrightarrow> map essence (map f tbl) = map essence tbl"
  by (induction tbl) auto

lemma essence_ids: "map essence t = map essence u \<Longrightarrow> map gr_id t = map gr_id u"
proof -
  assume "map essence t = map essence u"
  then have "map gr_id (map essence t) = map gr_id (map essence u)" by simp
  then show ?thesis by (simp add: comp_def)
qed

lemma keeps_essence:
  assumes "distinct (map gr_id tbl)" "tbl' = tbl \<or> (\<exists>f. tbl' = map f tbl \<and> (\<forall>g. essence (f g) = essence g))"
  shows "\<exists>new. map essence tbl' = map essence tbl @ new \<and> distinct (map gr_id tbl')"
proof -
  have e: "map essence tbl' = map essence tbl" using assms(2) map_essence by metis
  with essence_ids [OF e] assms(1) show ?thesis by (intro exI [of _ "[]"]) (simp only: append_Nil2 simp_thms)
qed

lemma run_op_essence:
  assumes "distinct (map gr_id tbl)"
  shows "\<exists>new. map essence (run_op op tbl) = map essence tbl @ new \<and> distinct (map gr_id (run_op op tbl))"
proof (cases op)
  case (OpCreate p i now)
  then show ?thesis
    using assms by (cases "i \<in> set (map gr_id tbl)") (auto simp: createScopedApprovalGrant_def grant_row_def)
next
  case (OpConsume i consumer now)
  let ?f = "\<lambda>g. if cas_target i g then consume_row consumer now g else g"
  have "run_op op tbl = map ?f tbl" by (simp add: OpConsume cas_consume_def)
  moreover have "\<forall>g. essence (?f g) = essence g" by simp
  ultimately show ?thesis by (intro keeps_essence [OF assms]) blast
next
  case (OpExpire now)
  let ?f = "\<lambda>g. if expirable now g then g\<lparr>gr_status := Expired, gr_updatedAt := now\<rparr> else g"
  have "run_op op tbl = map ?f tbl" by (simp add: OpExpire expireScopedApprovalGrants_def)
  moreover have "\<forall>g. essence (?f g) = essence g" by simp
  ultimately show ?thesis by (intro keeps_essence [OF assms]) blast
next
  case (OpRevoke p now)
  let ?f = "\<lambda>g. if in_context p g then g\<lparr>gr_status := Revoked, gr_updatedAt := now\<rparr> else g"
  have "run_op op tbl = tbl \<or> run_op op tbl = map ?f tbl"
    by (simp add: OpRevoke revokeScopedApprovalGrantsForContext_def)
  moreover have "\<forall>g. essence (?f g) = essence g" by simp
  ultimately show ?thesis by (intro keeps_essence [OF assms]) blast
qed

lemma run_ops_essence:
  "distinct (map gr_id tbl) \<Longrightarrow> \<exists>new. map essence (run_ops ops tbl) = map essence tbl @ new \<and> distinct (map gr_id (run_ops ops tbl))"
proof (induction ops arbitrary: tbl)
  case Nil
  then show ?case by (simp add: run_ops_def)
next
  case (Cons op ops)
  from run_op_essence [OF Cons.prems, of op] obtain new where
    1: "map essence (run_op op tbl) = map essence tbl @ new" "distinct (map gr_id (run_op op tbl))" by blast
  from Cons.IH [OF 1(2)] obtain new' where
    "map essence (run_ops ops (run_op op tbl)) = map essence (run_op op tbl) @ new'"
    "distinct (map gr_id (run_ops ops (run_op op tbl)))" by blast
  with 1(1) show ?case by (auto simp: run_ops_def)
qed

text \<open>A successful attempt returns a row it has just consumed, with the scope of a row its selection saw.\<close>

lemma won_row:
  assumes ids: "distinct (map gr_id tbl)" and c: "c \<in> set tbl"
    and cas: "cas_consume (gr_id c) consumer now (run_ops ops tbl) = (k, tbl')" "k \<noteq> 0"
  shows "\<exists>g. find (\<lambda>g. gr_id g = gr_id c) tbl' = Some g \<and> g \<in> set tbl' \<and> essence g = essence c \<and>
    gr_status g = Consumed \<and> gr_consumedByRequestId g = Some consumer \<and> gr_consumedAt g = Some now"
proof -
  obtain new where new: "map essence (run_ops ops tbl) = map essence tbl @ new" "distinct (map gr_id (run_ops ops tbl))"
    using run_ops_essence [OF ids] by blast
  from cas obtain x where x: "x \<in> set (run_ops ops tbl)" "cas_target (gr_id c) x"
    by (auto simp: cas_consume_def filter_empty_conv)
  have "essence c \<in> set (map essence (run_ops ops tbl))" using c new(1) by auto
  then obtain y where y: "y \<in> set (run_ops ops tbl)" "essence y = essence c" by auto
  have "gr_id y = gr_id c" using arg_cong [OF y(2), of gr_id] unfolding essence_simps .
  moreover have "gr_id x = gr_id c" using x(2) by (simp add: cas_target_def)
  ultimately have xy: "x = y" by (intro same_id_row [OF new(2) x(1) y(1)]) (simp only:)
  let ?f = "\<lambda>g. if cas_target (gr_id c) g then consume_row consumer now g else g"
  let ?g = "consume_row consumer now x"
  have tbl': "tbl' = map ?f (run_ops ops tbl)" using cas(1) by (simp add: cas_consume_def)
  have "?f x \<in> set tbl'" unfolding tbl' set_map using x(1) by (rule imageI)
  then have in': "?g \<in> set tbl'" by (simp only: x(2) if_True)
  have "tbl' = run_op (OpConsume (gr_id c) consumer now) (run_ops ops tbl)" using cas(1) by simp
  then have "distinct (map gr_id tbl')" using run_op_essence [OF new(2)] by blast
  from find_unique_row [OF this in'] have "find (\<lambda>h. gr_id h = gr_id ?g) tbl' = Some ?g" .
  moreover have "gr_id ?g = gr_id c" using x(2) by (simp add: consume_row_def cas_target_def)
  moreover have "essence ?g = essence c" using y(2) xy by simp
  moreover have "gr_status ?g = Consumed" "gr_consumedByRequestId ?g = Some consumer" "gr_consumedAt ?g = Some now" by (simp_all add: consume_row_def)
  ultimately show ?thesis using in' by (intro exI [of _ ?g]) simp
qed

lemma consume_loop_sound:
  assumes "consume_loop n others select consumer now tbl = (r, tbl')" "res_ok r" "distinct (map gr_id tbl)"
    and sel: "\<And>t c. select t = Some c \<Longrightarrow> c \<in> set t \<and> P (essence c)"
  shows "\<exists>g. res_grant r = Some g \<and> g \<in> set tbl' \<and> P (essence g) \<and> gr_status g = Consumed \<and> gr_consumedByRequestId g = Some consumer \<and> gr_consumedAt g = Some now"
  using assms(1-3)
proof (induction n arbitrary: tbl)
  case 0
  then show ?case by (auto simp: consume_miss_def)
next
  case (Suc n)
  from Suc.prems(1) show ?case
  proof (cases rule: attempt_cases)
    case nothing
    then show ?thesis using Suc.prems(2) by (simp add: consume_miss_def)
  next
    case (stolen c t1)
    obtain new where "distinct (map gr_id (run_ops (others n) tbl))" using run_ops_essence [OF Suc.prems(3)] by blast
    then have "distinct (map gr_id t1)"
      using stolen(2) run_op_essence [of _ "OpConsume (gr_id c) consumer now"] by (metis run_op.simps(2) snd_conv)
    from Suc.IH [OF stolen(3) Suc.prems(2) this] show ?thesis .
  next
    case (won c k)
    from sel [OF won(1)] have c: "c \<in> set tbl" "P (essence c)" by auto
    from won_row [OF Suc.prems(3) c(1) won(2,3)] won(4) c(2) show ?thesis by auto
  qed
qed

lemma consume_loop_distinct:
  "consume_loop n others select consumer now tbl = (r, tbl') \<Longrightarrow> distinct (map gr_id tbl) \<Longrightarrow> distinct (map gr_id tbl')"
proof (induction n arbitrary: tbl)
  case (Suc n)
  have step: "distinct (map gr_id t1)" if "cas_consume j consumer now (run_ops (others n) tbl) = (k, t1)" for j k t1
  proof -
    have "t1 = run_op (OpConsume j consumer now) (run_ops (others n) tbl)" using that by simp
    then show ?thesis using run_ops_essence [OF Suc.prems(2)] run_op_essence by blast
  qed
  show ?case using Suc.prems(1) by (rule attempt_cases) (use Suc step in blast)+
qed simp

lemma essence_matches [simp]:
  "matches_request rid now g \<Longrightarrow> matches_request rid now (essence g)"
  "matches_signature p now g \<Longrightarrow> matches_signature p now (essence g)"
  by (simp_all add: matches_request_def matches_signature_def essence_def)

lemma find_holds: "find P xs = Some x \<Longrightarrow> x \<in> set xs \<and> P x"
  by (induction xs) (auto split: if_splits)

lemma most_specific_None [simp]: "most_specific gs = None \<longleftrightarrow> gs = []"
  by (cases gs) (auto split: option.splits)

lemma most_specific_best:
  "most_specific gs = Some g \<Longrightarrow> g \<in> set gs \<and> (\<forall>h \<in> set gs. specificity h \<le> specificity g)"
proof (induction gs arbitrary: g)
  case (Cons a gs)
  show ?case
  proof (cases "most_specific gs")
    case None
    with Cons.prems show ?thesis by simp
  next
    case (Some h)
    from Cons.IH [OF Some] have h: "h \<in> set gs" "\<And>x. x \<in> set gs \<Longrightarrow> specificity x \<le> specificity h" by auto
    show ?thesis
    proof (cases "specificity h \<le> specificity a")
      case True
      with Cons.prems Some have "g = a" by simp
      with True h(2) show ?thesis by (auto intro: order_trans)
    next
      case False
      with Cons.prems Some have "g = h" by simp
      with False h show ?thesis by auto
    qed
  qed
qed simp

lemma by_request_sound:
  assumes "consumeScopedApprovalGrantByRequestId others rid consumer now tbl = (r, tbl')" "res_ok r" "distinct (map gr_id tbl)"
  shows "\<exists>g. res_grant r = Some g \<and> g \<in> set tbl' \<and> matches_request rid now (essence g) \<and> gr_status g = Consumed \<and>
    gr_consumedByRequestId g = Some consumer \<and> gr_consumedAt g = Some now"
proof (rule consume_loop_sound [OF by_request_loop [OF assms(1)] assms(2,3)])
  fix t c
  assume "find (matches_request rid now) t = Some c"
  from find_holds [OF this] show "c \<in> set t \<and> matches_request rid now (essence c)" by simp
qed

lemma by_signature_sound:
  assumes "consumeScopedApprovalGrantByToolSignature others p now tbl = (r, tbl')" "res_ok r" "distinct (map gr_id tbl)"
  shows "\<exists>g. res_grant r = Some g \<and> g \<in> set tbl' \<and> matches_signature p now (essence g) \<and> gr_status g = Consumed \<and>
    gr_consumedByRequestId g = Some (cs_consumingRequestId p) \<and> gr_consumedAt g = Some now"
proof (rule consume_loop_sound [OF by_signature_loop [OF assms(1)] assms(2,3)])
  fix t c
  assume "most_specific (filter (matches_signature p now) t) = Some c"
  from most_specific_best [OF this] show "c \<in> set t \<and> matches_signature p now (essence c)" by simp
qed

text \<open>The scope of a row, read off any version of it.\<close>

definition covers :: "ConsumeGrantParams \<Rightarrow> ScopedApprovalGrant \<Rightarrow> bool" where
  "covers p g =
     (gr_scopeMode g = RequestId \<and> gr_requestId g \<noteq> None \<and> gr_requestId g = cg_requestId p \<or>
      gr_scopeMode g = ToolSignature \<and> gr_toolName g = Some (cs_toolName (cg_signature p)) \<and>
      gr_inputDigest g = Some (cs_inputDigest (cg_signature p)) \<and>
      gr_executionChannel g \<in> {None, cs_executionChannel (cg_signature p)} \<and>
      gr_conversationId g \<in> {None, cs_conversationId (cg_signature p)} \<and>
      gr_callSessionId g \<in> {None, cs_callSessionId (cg_signature p)} \<and>
      gr_requesterExternalUserId g \<in> {None, cs_requesterExternalUserId (cg_signature p)})"

lemma field_matches_iff: "field_matches f v \<longleftrightarrow> f \<in> {None, v}"
  by (auto simp: field_matches_def split: option.splits)

lemma covers_request:
  "cg_requestId p = Some rid \<Longrightarrow> matches_request rid now (essence g) \<Longrightarrow> covers p g \<and> now < gr_expiresAt g"
  by (simp add: matches_request_def covers_def essence_def)

lemma covers_signature:
  "matches_signature (cg_signature p) now (essence g) \<Longrightarrow> covers p g \<and> now < gr_expiresAt g"
  by (simp add: matches_signature_def covers_def essence_def field_matches_iff)

section \<open>Attempts no one interferes with\<close>

definition quiet :: "nat \<Rightarrow> grant_op list" where "quiet n = []"

lemma quiet_loop:
  assumes "\<And>t c. select t = Some c \<Longrightarrow> c \<in> set t \<and> gr_status c = Active"
  shows "res_ok (fst (consume_loop (Suc n) quiet select consumer now tbl)) \<longleftrightarrow> select tbl \<noteq> None"
proof (cases "select tbl")
  case None
  then show ?thesis by (simp add: consume_loop.simps consume_miss_def)
next
  case (Some c)
  from assms [OF Some] have "c \<in> set (filter (cas_target (gr_id c)) tbl)" by (simp add: cas_target_def)
  then have "length (filter (cas_target (gr_id c)) tbl) \<noteq> 0" by (metis length_0_conv list.distinct(1) list.set_cases)
  with Some show ?thesis by (simp add: consume_loop.simps cas_consume_def quiet_def run_ops_def)
qed

lemma find_ex: "find P xs \<noteq> None \<longleftrightarrow> (\<exists>x \<in> set xs. P x)"
  by (induction xs) auto

lemma quiet_by_request:
  "res_ok (fst (consumeScopedApprovalGrantByRequestId quiet rid consumer now tbl)) \<longleftrightarrow> (\<exists>g \<in> set tbl. matches_request rid now g)"
proof -
  have "c \<in> set t \<and> gr_status c = Active" if "find (matches_request rid now) t = Some c" for t c
    using find_holds [OF that] by (simp add: matches_request_def)
  from quiet_loop [of "find (matches_request rid now)", OF this] show ?thesis
    unfolding consumeScopedApprovalGrantByRequestId_def find_ex .
qed

lemma quiet_by_signature:
  "res_ok (fst (consumeScopedApprovalGrantByToolSignature quiet p now tbl)) \<longleftrightarrow> (\<exists>g \<in> set tbl. matches_signature p now g)"
proof -
  let ?sel = "\<lambda>t. most_specific (filter (matches_signature p now) t)"
  have "c \<in> set t \<and> gr_status c = Active" if "?sel t = Some c" for t c
    using most_specific_best [OF that] by (simp add: matches_signature_def)
  from quiet_loop [of ?sel, OF this] have
    "res_ok (fst (consumeScopedApprovalGrantByToolSignature quiet p now tbl)) \<longleftrightarrow> ?sel tbl \<noteq> None"
    unfolding consumeScopedApprovalGrantByToolSignature_def .
  then show ?thesis by (simp add: filter_empty_conv)
qed

lemma consumed_iff_ok:
  "consume_loop n others select consumer now tbl = (r, tbl') \<Longrightarrow> consumed_grant r = None \<longleftrightarrow> \<not> res_ok r"
  using consume_loop_win [of n others select consumer now tbl r tbl'] by (auto simp: consumed_grant_def)

text \<open>What the primitive promises of a grant it hands out.\<close>

definition granted :: "ConsumeGrantParams \<Rightarrow> ScopedApprovalGrant \<Rightarrow> grant_table \<Rightarrow> bool" where
  "granted p g tbl =
     (covers p g \<and> g \<in> set tbl \<and> gr_status g = Consumed \<and>
      gr_consumedByRequestId g = Some (cs_consumingRequestId (cg_signature p)) \<and>
      (\<exists>t. gr_consumedAt g = Some t \<and> t < gr_expiresAt g))"

lemma sync_granted:
  assumes "consumeGrantSync others others' p now tbl = (Inr g, tbl')" "distinct (map gr_id tbl)"
  shows "granted p g tbl'"
  using assms(1)
proof (cases rule: sync_cases)
  case (request rid req g')
  from by_request_sound [OF request(5,3) assms(2)] request(2,4)
  have "matches_request rid now (essence g)" "g \<in> set tbl'" "gr_status g = Consumed"
    "gr_consumedByRequestId g = Some (cs_consumingRequestId (cg_signature p))" "gr_consumedAt g = Some now" by auto
  with covers_request [OF request(1)] show ?thesis unfolding granted_def by blast
next
  case (signature req tbl1 sig g')
  have "distinct (map gr_id tbl1)"
    using signature(4) assms(2) consume_loop_distinct [OF by_request_loop] by blast
  from by_signature_sound [OF signature(5,2) this] signature(1,3)
  have "matches_signature (cg_signature p) now (essence g)" "g \<in> set tbl'" "gr_status g = Consumed"
    "gr_consumedByRequestId g = Some (cs_consumingRequestId (cg_signature p))" "gr_consumedAt g = Some now" by auto
  with covers_signature show ?thesis unfolding granted_def by blast
next
  case (neither req tbl1 sig)
  then show ?thesis by simp
qed


lemma sync_distinct:
  assumes "consumeGrantSync others others' p now tbl = (r, tbl')" "distinct (map gr_id tbl)"
  shows "distinct (map gr_id tbl')"
  using assms(1)
proof (cases rule: sync_cases)
  case (request rid req g)
  with assms(2) consume_loop_distinct [OF by_request_loop] show ?thesis by blast
next
  case (signature req tbl1 sig g)
  then have "distinct (map gr_id tbl1)" using assms(2) consume_loop_distinct [OF by_request_loop] by blast
  with signature consume_loop_distinct [OF by_signature_loop] show ?thesis by blast
next
  case (neither req tbl1 sig)
  then have "distinct (map gr_id tbl1)" using assms(2) consume_loop_distinct [OF by_request_loop] by blast
  with neither consume_loop_distinct [OF by_signature_loop] show ?thesis by blast
qed

lemma run_ops_distinct: "distinct (map gr_id tbl) \<Longrightarrow> distinct (map gr_id (run_ops ops tbl))"
  using run_ops_essence by blast

lemma poll_granted:
  "poll_grants po p deadline n tbl = Some y \<Longrightarrow> fst y = Inr g \<Longrightarrow> distinct (map gr_id tbl) \<Longrightarrow> granted p g (snd y)"
proof (induction rule: poll_grants.raw_induct [rotated, consumes 1])
  case (1 poll po p deadline n tbl y)
  obtain r t where sync: "consumeGrantSync (po_others po n) (po_others' po n) p (po_now po n) (run_ops (po_waiting po n) tbl) = (r, t)" by force
  have d: "distinct (map gr_id (run_ops (po_waiting po n) tbl))" using 1(4) by (rule run_ops_distinct)
  have go: "po_clock po n < deadline" "\<not> po_abortedBefore po n" "\<not> po_abortedAfter po n"
    using 1(2,3) by (auto simp: Let_def split: if_splits)
  note run = 1(2) [unfolded Let_def sync, simplified go if_True if_False not_False_eq_True prod.case]
  show ?case
  proof (cases r)
    case (Inr h)
    with run have "y = (Inr h, t)" by simp
    with 1(3) sync Inr sync_granted [OF _ d] show ?thesis by simp
  next
    case (Inl e)
    with run have "poll po p deadline (Suc n) t = Some y" by simp
    from 1(1) [OF this 1(3) sync_distinct [OF sync d]] show ?thesis .
  qed
qed

lemma invocation_granted:
  assumes "consumeGrantForInvocation po p maxWaitMs tbl = Some (Inr g, tbl')" "distinct (map gr_id tbl)"
  shows "granted p g tbl'"
proof -
  obtain r t where sync: "consumeGrantSync (po_others po 0) (po_others' po 0) p (po_now po 0) tbl = (r, t)" by force
  show ?thesis
  proof (cases r)
    case (Inr h)
    with assms sync show ?thesis using sync_granted by (simp add: consumeGrantForInvocation_def)
  next
    case (Inl e)
    with assms(1) sync obtain dl where "poll_grants po p dl 1 t = Some (Inr g, tbl')"
      by (auto simp: consumeGrantForInvocation_def Let_def split: if_splits)
    from poll_granted [OF this _ sync_distinct [OF sync assms(2)]] show ?thesis by simp
  qed
qed

section \<open>Properties\<close>

text \<open>C22: no grant authorises two executions, whoever runs them. Take any sequence of mints, consumptions, expiries and
  revocations, and let other connections mint, consume, expire and revoke as they like between the select and the update of
  each attempt. Of all updates that run, those of the calls and those of the others, no two consume the same grant; and the
  grants the calls hand out are exactly those their own updates consumed.\<close>
theorem grants_never_spent_twice:
  "distinct (map snd (wins (calls_ops cs tbl) tbl)) \<and> own_wins (calls_ops cs tbl) tbl = grants_won cs tbl \<and>
   run_ops (map snd (calls_ops cs tbl)) tbl = foldl (\<lambda>t c. snd (call_grants c t)) tbl cs"
  using trace_calls wins_distinct by simp

text \<open>C24: a grant that the primitive hands out, at once or after a wait, was consumed before its expiry, is stored as
  consumed by this request, and its scope covers the invocation: the same request id, or the same tool and input digest with every context field
  of the grant either absent or equal to the one of the invocation.\<close>
theorem consumed_grant_covers_invocation:
  assumes "consumeGrantForInvocation po p maxWaitMs tbl = Some (Inr g, tbl')" "distinct (map gr_id tbl)"
  shows "covers p g \<and> g \<in> set tbl' \<and> gr_status g = Consumed \<and>
    gr_consumedByRequestId g = Some (cs_consumingRequestId (cg_signature p)) \<and>
    (\<exists>t. gr_consumedAt g = Some t \<and> t < gr_expiresAt g)"
  using invocation_granted [OF assms] unfolding granted_def .

definition demo_mint :: "string option \<Rightarrow> int \<Rightarrow> CreateScopedApprovalGrantParams" where
  "demo_mint conv ttl =
     \<lparr>gp_scopeMode = ToolSignature, gp_requestId = None, gp_toolName = Some ''bash'', gp_inputDigest = Some ''d1'',
      gp_requestChannel = ''phone'', gp_decisionChannel = ''telegram'', gp_executionChannel = None,
      gp_conversationId = conv, gp_callSessionId = None, gp_requesterExternalUserId = None,
      gp_guardianExternalUserId = None, gp_expiresAt = ttl\<rparr>"

definition demo_grants :: grant_table where
  "demo_grants = [grant_row (demo_mint None 500) ''g1'' 0, grant_row (demo_mint (Some ''c1'') 500) ''g2'' 0]"

definition demo_consume :: ConsumeGrantParams where
  "demo_consume = \<lparr>cg_requestId = None, cg_signature =
     \<lparr>cs_toolName = ''bash'', cs_inputDigest = ''d1'', cs_consumingRequestId = ''r9'', cs_executionChannel = None,
      cs_conversationId = Some ''c1'', cs_callSessionId = None, cs_requesterExternalUserId = None\<rparr>\<rparr>"

definition demo_won :: ScopedApprovalGrant where
  "demo_won = consume_row ''r9'' 100 (grant_row (demo_mint (Some ''c1'') 500) ''g2'' 0)"

lemmas demo_grant_defs = demo_mint_def demo_grants_def demo_consume_def demo_won_def

lemma demo_grants_distinct: "distinct (map gr_id demo_grants)"
  by (simp add: demo_grant_defs grant_row_def)

lemma demo_sync:
  "consumeGrantSync quiet quiet demo_consume 100 demo_grants =
     (Inr demo_won, [grant_row (demo_mint None 500) ''g1'' 0, demo_won])"
  by (simp add: demo_grant_defs grant_row_def consumeGrantSync_def falsy_def consume_miss_def consumed_grant_def
    consumeScopedApprovalGrantByToolSignature_def consume_loop.simps matches_signature_def field_matches_def
    specificity_def cas_consume_def cas_target_def consume_row_def quiet_def run_ops_def)

definition still_polling :: polling where
  "still_polling = \<lparr>po_clock = (\<lambda>n. 100 + 250 * int n), po_abortedBefore = (\<lambda>_. False), po_abortedAfter = (\<lambda>_. False),
     po_waiting = quiet, po_now = (\<lambda>n. 100 + 250 * int n), po_others = (\<lambda>_. quiet), po_others' = (\<lambda>_. quiet)\<rparr>"

lemma demo_invocation:
  "consumeGrantForInvocation still_polling demo_consume w demo_grants =
     Some (Inr demo_won, [grant_row (demo_mint None 500) ''g1'' 0, demo_won])"
  by (simp add: consumeGrantForInvocation_def still_polling_def demo_sync)

theorem consumed_grant_covers_invocation_witness:
  "covers demo_consume demo_won \<and> (\<exists>t. gr_consumedAt demo_won = Some t \<and> t < gr_expiresAt demo_won) \<and>
    gr_consumedByRequestId demo_won = Some ''r9''"
  using consumed_grant_covers_invocation [OF demo_invocation demo_grants_distinct] by (simp add: demo_consume_def)

lemma quiet_miss_unchanged:
  assumes "\<And>t c. select t = Some c \<Longrightarrow> c \<in> set t \<and> gr_status c = Active"
    and "consume_loop (Suc n) quiet select consumer now tbl = (r, tbl')" "\<not> res_ok r"
  shows "tbl' = tbl"
proof -
  have "select tbl = None" using quiet_loop [of select n consumer now tbl, OF assms(1)] assms(2,3) by simp
  with assms(2) show ?thesis by (simp add: consume_loop.simps)
qed

lemma quiet_request_miss:
  assumes "consumeScopedApprovalGrantByRequestId quiet rid consumer now tbl = (r, tbl')" "\<not> res_ok r"
  shows "tbl' = tbl"
proof (rule quiet_miss_unchanged [OF _ by_request_loop [OF assms(1)] assms(2)])
  fix t c
  assume "find (matches_request rid now) t = Some c"
  from find_holds [OF this] show "c \<in> set t \<and> gr_status c = Active" by (simp add: matches_request_def)
qed

text \<open>when no other connection interferes, an invocation is granted exactly when the table holds an active,
  unexpired grant for its request id or for its tool signature.\<close>
theorem quiet_consume_complete:
  "(\<exists>g. fst (consumeGrantSync quiet quiet p now tbl) = Inr g) \<longleftrightarrow>
     (\<exists>h \<in> set tbl. (\<not> falsy (cg_requestId p) \<and> matches_request (the (cg_requestId p)) now h) \<or>
        matches_signature (cg_signature p) now h)"
proof -
  define br where "br = (if falsy (cg_requestId p) then (consume_miss, tbl)
    else consumeScopedApprovalGrantByRequestId quiet (the (cg_requestId p)) (cs_consumingRequestId (cg_signature p)) now tbl)"
  obtain req tbl1 where req: "br = (req, tbl1)" by force
  obtain sig tbl2 where sig: "consumeScopedApprovalGrantByToolSignature quiet (cg_signature p) now tbl1 = (sig, tbl2)" by force
  have run: "fst (consumeGrantSync quiet quiet p now tbl) =
      (case consumed_grant req of Some g \<Rightarrow> Inr g
       | None \<Rightarrow> (case consumed_grant sig of Some g \<Rightarrow> Inr g | None \<Rightarrow> Inl NoMatch))"
    unfolding consumeGrantSync_def Let_def br_def [symmetric] req by (simp add: sig split: option.splits)
  have s: "consumed_grant sig = None \<longleftrightarrow> \<not> (\<exists>h \<in> set tbl1. matches_signature (cg_signature p) now h)"
    using consumed_iff_ok [OF by_signature_loop [OF sig]] quiet_by_signature [of "cg_signature p" now tbl1] sig by simp
  have r: "consumed_grant req = None \<longleftrightarrow>
      \<not> (\<exists>h \<in> set tbl. \<not> falsy (cg_requestId p) \<and> matches_request (the (cg_requestId p)) now h)"
  proof (cases "falsy (cg_requestId p)")
    case True
    then show ?thesis using req by (auto simp: br_def consumed_grant_def consume_miss_def)
  next
    case False
    then have "consumeScopedApprovalGrantByRequestId quiet (the (cg_requestId p))
        (cs_consumingRequestId (cg_signature p)) now tbl = (req, tbl1)" using req by (simp add: br_def)
    from consumed_iff_ok [OF by_request_loop [OF this]]
      quiet_by_request [of "the (cg_requestId p)" "cs_consumingRequestId (cg_signature p)" now tbl] this False
    show ?thesis by simp
  qed
  have t: "tbl1 = tbl" if "consumed_grant req = None"
    using that req quiet_request_miss consumed_iff_ok [OF by_request_loop]
    unfolding br_def by (cases "falsy (cg_requestId p)") auto
  show ?thesis using run s r t by (cases "consumed_grant req"; cases "consumed_grant sig") auto
qed

text \<open>a revocation without any context filter is refused and changes nothing; with one, no grant it covers
  authorises anything afterwards.\<close>
theorem revoked_grants_never_won:
  assumes "distinct (map gr_id tbl)" "revokeScopedApprovalGrantsForContext p now tbl = (r, tbl')"
  shows "(case r of
      Inl e \<Rightarrow> tbl' = tbl \<and> rv_conversationId p = None \<and> rv_callSessionId p = None \<and> rv_requestChannel p = None
    | Inr n \<Rightarrow> \<forall>g \<in> set tbl. in_context p g \<longrightarrow> gr_id g \<notin> set (grants_won cs tbl'))"
proof (cases "rv_conversationId p = None \<and> rv_callSessionId p = None \<and> rv_requestChannel p = None")
  case True
  with assms(2) show ?thesis by (auto simp: revokeScopedApprovalGrantsForContext_def)
next
  case False
  let ?f = "\<lambda>g. if in_context p g then g\<lparr>gr_status := Revoked, gr_updatedAt := now\<rparr> else g"
  from False assms(2) have r: "r = Inr (length (filter (in_context p) tbl))" and t: "tbl' = map ?f tbl"
    by (auto simp: revokeScopedApprovalGrantsForContext_def)
  have "dead (gr_id g) tbl'" if g: "g \<in> set tbl" "in_context p g" for g
    unfolding dead_def
  proof (intro conjI ballI impI)
    have "gr_id (?f h) = gr_id h" for h by simp
    then have "map gr_id tbl' = map gr_id tbl" unfolding t map_map comp_def by (simp only:)
    then show "gr_id g \<in> set (map gr_id tbl')" using imageI [OF g(1), of gr_id] by (simp only: set_map)
  next
    fix h
    assume h: "h \<in> set tbl'" "gr_id h = gr_id g"
    from h(1) obtain x where x: "x \<in> set tbl" "h = ?f x" unfolding t set_map by blast
    have "gr_id (?f x) = gr_id g" using h(2) x(2) by (rule subst [rotated])
    then have "gr_id x = gr_id g" by (cases "in_context p x") simp_all
    from same_id_row [OF assms(1) x(1) g(1) this] have "x = g" .
    then have "in_context p x" using g(2) by (rule ssubst)
    then show "gr_status h \<noteq> Active" unfolding x(2) by simp
  qed
  then show ?thesis unfolding r using dead_not_won by auto
qed

definition demo_revocation :: RevokeContextParams where
  "demo_revocation = \<lparr>rv_conversationId = Some ''c1'', rv_callSessionId = None, rv_requestChannel = None\<rparr>"

definition demo_revoked :: grant_table where
  "demo_revoked = [grant_row (demo_mint None 500) ''g1'' 0,
     (grant_row (demo_mint (Some ''c1'') 500) ''g2'' 0)\<lparr>gr_status := Revoked, gr_updatedAt := 50\<rparr>]"

lemma demo_revoke: "revokeScopedApprovalGrantsForContext demo_revocation 50 demo_grants = (Inr 1, demo_revoked)"
  by (simp add: revokeScopedApprovalGrantsForContext_def demo_revocation_def demo_revoked_def demo_grant_defs
    in_context_def grant_row_def)

lemma demo_in_context: "in_context demo_revocation (grant_row (demo_mint (Some ''c1'') 500) ''g2'' 0)"
  by (simp add: demo_revocation_def demo_mint_def in_context_def grant_row_def)

theorem revoked_grants_never_won_witness:
  "''g2'' \<notin> set (grants_won [CallConsume quiet quiet demo_consume 100] demo_revoked)"
  using revoked_grants_never_won [OF demo_grants_distinct demo_revoke, of "[CallConsume quiet quiet demo_consume 100]"]
    demo_in_context unfolding demo_grants_def by (simp add: grant_row_def del: grants_won.simps)

lemma poll_returns:
  assumes "\<forall>n. po_clock po n + 1 \<le> po_clock po (Suc n)"
  shows "\<exists>y. poll_grants po p deadline n tbl = Some y"
proof (induction "nat (deadline - po_clock po n)" arbitrary: n tbl rule: less_induct)
  case less
  show ?case
  proof (cases "po_clock po n < deadline")
    case False
    then show ?thesis by (subst poll_grants.simps) simp
  next
    case True
    have "po_clock po n < po_clock po (Suc n)" using assms [rule_format, of n] by simp
    then have "nat (deadline - po_clock po (Suc n)) < nat (deadline - po_clock po n)" using True by simp
    from less [OF this] show ?thesis
      by (subst poll_grants.simps) (simp add: Let_def split: prod.splits sum.splits)
  qed
qed

lemma invocation_returns:
  assumes "\<forall>n. po_clock po n + 1 \<le> po_clock po (Suc n)"
  shows "\<exists>y. consumeGrantForInvocation po p maxWaitMs tbl = Some y"
  unfolding consumeGrantForInvocation_def Let_def
  by (simp only: split: prod.split sum.split if_split) (simp add: poll_returns [OF assms] del: split_paired_Ex)

text \<open>waiting for a grant always ends, by an answer, an abort or the deadline, whatever other connections do
  meanwhile, provided that every wait lets at least a millisecond pass on the clock.\<close>
theorem grant_wait_terminates:
  assumes "\<forall>n. po_clock po n + 1 \<le> po_clock po (Suc n)"
  shows "\<exists>y. consumeGrantForInvocation po p maxWaitMs tbl = Some y"
  by (rule invocation_returns [OF assms])

definition demo_polling :: polling where
  "demo_polling = \<lparr>po_clock = (\<lambda>n. 250 * int n), po_abortedBefore = (\<lambda>_. False), po_abortedAfter = (\<lambda>_. False),
     po_waiting = (\<lambda>n. if n = 2 then [OpCreate (demo_mint None 5000) ''g7'' 400] else []),
     po_now = (\<lambda>n. 250 * int n), po_others = (\<lambda>_. quiet), po_others' = (\<lambda>_. quiet)\<rparr>"

theorem grant_wait_terminates_witness:
  "\<exists>y. consumeGrantForInvocation demo_polling demo_consume (Some 1000) [] = Some y"
proof (rule grant_wait_terminates)
  show "\<forall>n. po_clock demo_polling n + 1 \<le> po_clock demo_polling (Suc n)" by (simp add: demo_polling_def)
qed

end
