(* ===== verification/Tool_Gate.thy ===== *)
theory Tool_Gate
  imports Approval_Policy Scoped_Grants
begin

text \<open>
  The gates a tool invocation passes before the permission check:
  \<^verbatim>\<open>assistant/src/tools/tool-approval-handler.ts\<close> with the capability table
  (\<^verbatim>\<open>runtime/capabilities.ts\<close>), the side-effect list (\<^verbatim>\<open>tools/side-effects.ts\<close>), the verification
  control-plane policy (\<^verbatim>\<open>tools/verification-control-plane-policy.ts\<close>), the channel profiles
  (\<^verbatim>\<open>channels/permission-profiles.ts\<close>) and the disk-pressure set (\<^verbatim>\<open>tools/types.ts\<close>).

  \<^item> What the gates only call is in \<open>tool_env\<close>: the registry's answer for the name, the skill catalog, the
    digest of an invocation, the schema parse, and the outcome of asking for a guardian request.
  \<^item> The grant table and the threshold reader are threaded through; the wait for a guardian is the loop
    \<open>wait_rounds\<close>, a partial function.
  \<^item> A denial is the constructor of its branch; audit rows and log lines are left out.
\<close>

section \<open>Capabilities\<close>

datatype SensitiveToolApproval = SelfApproval | EscalateApproval | DenyApproval

datatype PromptTrustGuidance = NoGuidance | SocialEngineeringDefense | StrangerWarning

record CapabilitySet =
  canSelfApproveTools :: bool
  sensitiveToolApproval :: SensitiveToolApproval
  canManageSchedules :: bool
  canUseVerificationControlPlane :: bool
  canSelfAuthorizeArchiveBySender :: bool
  canAccessMemory :: bool
  canAccessPrivilegedDocuments :: bool
  canRunUnsandboxedShell :: bool
  mayBeInteractive :: bool
  canActUnderDiskPressureCleanup :: bool
  promptTrustGuidance :: PromptTrustGuidance

definition GUARDIAN_CAPABILITIES :: CapabilitySet where
  "GUARDIAN_CAPABILITIES =
     \<lparr>canSelfApproveTools = True, sensitiveToolApproval = SelfApproval, canManageSchedules = True,
      canUseVerificationControlPlane = True, canSelfAuthorizeArchiveBySender = True, canAccessMemory = True,
      canAccessPrivilegedDocuments = True, canRunUnsandboxedShell = True, mayBeInteractive = True,
      canActUnderDiskPressureCleanup = True, promptTrustGuidance = NoGuidance\<rparr>"

definition CONTACT_CAPABILITIES :: CapabilitySet where
  "CONTACT_CAPABILITIES =
     \<lparr>canSelfApproveTools = False, sensitiveToolApproval = EscalateApproval, canManageSchedules = False,
      canUseVerificationControlPlane = False, canSelfAuthorizeArchiveBySender = False, canAccessMemory = False,
      canAccessPrivilegedDocuments = False, canRunUnsandboxedShell = False, mayBeInteractive = True,
      canActUnderDiskPressureCleanup = False, promptTrustGuidance = SocialEngineeringDefense\<rparr>"

definition UNKNOWN_CAPABILITIES :: CapabilitySet where
  "UNKNOWN_CAPABILITIES =
     \<lparr>canSelfApproveTools = False, sensitiveToolApproval = DenyApproval, canManageSchedules = False,
      canUseVerificationControlPlane = False, canSelfAuthorizeArchiveBySender = False, canAccessMemory = False,
      canAccessPrivilegedDocuments = False, canRunUnsandboxedShell = False, mayBeInteractive = False,
      canActUnderDiskPressureCleanup = False, promptTrustGuidance = StrangerWarning\<rparr>"

fun capabilities_of :: "TrustClass \<Rightarrow> CapabilitySet" where
  "capabilities_of Guardian = GUARDIAN_CAPABILITIES"
| "capabilities_of TrustedContact = CONTACT_CAPABILITIES"
| "capabilities_of UnverifiedContact = CONTACT_CAPABILITIES"
| "capabilities_of UnknownContact = UNKNOWN_CAPABILITIES"

definition resolveCapabilities :: "string option \<Rightarrow> CapabilitySet" where
  "resolveCapabilities trustClass =
     (case Option.bind trustClass isTrustClass of None \<Rightarrow> UNKNOWN_CAPABILITIES | Some c \<Rightarrow> capabilities_of c)"

section \<open>Side effects, profiles, disk pressure\<close>

definition SIDE_EFFECT_TOOLS :: "string list" where
  "SIDE_EFFECT_TOOLS = [''file_write'', ''file_edit'', ''host_file_write'', ''host_file_edit'', ''bash'', ''host_bash'',
     ''web_fetch'', ''document_create'', ''document_update'', ''document_delete'', ''schedule_create'',
     ''schedule_update'', ''schedule_delete'']"

definition isSideEffectTool :: "string \<Rightarrow> bool" where
  "isSideEffectTool toolName = (toolName \<in> set SIDE_EFFECT_TOOLS)"

record ChannelPermissionProfile =
  pf_allowedToolCategories :: "string list option"
  pf_blockedTools :: "string list option"

definition isToolAllowedInChannel ::
  "(string \<Rightarrow> ChannelPermissionProfile option) \<Rightarrow> string \<Rightarrow> string \<Rightarrow> string option \<Rightarrow> bool" where
  "isToolAllowedInChannel profiles channelId toolName toolCategory =
     (case profiles channelId of
        None \<Rightarrow> True
      | Some profile \<Rightarrow>
          if (case pf_blockedTools profile of None \<Rightarrow> False | Some bs \<Rightarrow> toolName \<in> set bs) then False
          else
            case pf_allowedToolCategories profile of
              None \<Rightarrow> True
            | Some cs \<Rightarrow>
                if cs = [] then True
                else (case truthy toolCategory of None \<Rightarrow> False | Some c \<Rightarrow> c \<in> set cs))"

definition DISK_PRESSURE_CLEANUP_TOOL_NAMES :: "string list" where
  "DISK_PRESSURE_CLEANUP_TOOL_NAMES = [''bash'', ''host_bash'', ''file_read'', ''file_list'', ''host_file_read'',
     ''skill_load'', ''background_tool_list'', ''background_tool_cancel'']"

definition survivesDiskPressureCleanup :: "string \<Rightarrow> bool \<Rightarrow> bool" where
  "survivesDiskPressureCleanup name sendUserMessageActive =
     (name \<in> set DISK_PRESSURE_CLEANUP_TOOL_NAMES \<or> name = ''send_user_message'' \<and> sendUserMessageActive)"

definition isUnparseableToolArgs :: "tool_input \<Rightarrow> bool" where
  "isUnparseableToolArgs input = (case input of [(k, JStr raw)] \<Rightarrow> k = ''_raw'' | _ \<Rightarrow> False)"

section \<open>The verification control plane\<close>

definition VERIFICATION_ENDPOINT_PATHS :: "string list" where
  "VERIFICATION_ENDPOINT_PATHS =
     [''/v1/channel-verification-sessions'', ''/v1/channel-verification-sessions/resend'',
      ''/v1/channel-verification-sessions/status'', ''/v1/channel-verification-sessions/revoke'']"

definition hex_digit :: "char \<Rightarrow> nat option" where
  "hex_digit c =
     (let n = of_char c :: nat
      in if 48 \<le> n \<and> n \<le> 57 then Some (n - 48) else if 65 \<le> n \<and> n \<le> 70 then Some (n - 55)
         else if 97 \<le> n \<and> n \<le> 102 then Some (n - 87) else None)"

text \<open>One sequence \<open>%XX\<close>: \<open>decodeURIComponent\<close> throws on a lone byte above 127, which is then kept.\<close>

definition decode_pair :: "char \<Rightarrow> char \<Rightarrow> char option" where
  "decode_pair a b =
     (case (hex_digit a, hex_digit b) of
        (Some h, Some l) \<Rightarrow> if h < 8 then Some (char_of (16 * h + l)) else None
      | _ \<Rightarrow> None)"

fun decode_percent :: "string \<Rightarrow> string" where
  "decode_percent (c # a # b # s) =
     (if c = CHR ''%'' \<and> hex_digit a \<noteq> None \<and> hex_digit b \<noteq> None
      then (case decode_pair a b of Some d \<Rightarrow> d # decode_percent s | None \<Rightarrow> c # a # b # decode_percent s)
      else c # decode_percent (a # b # s))"
| "decode_percent s = s"

lemma length_decode_percent: "length (decode_percent s) \<le> length s"
  by (induction s rule: decode_percent.induct) (auto split: option.splits)

lemma decode_percent_shorter: "decode_percent s \<noteq> s \<Longrightarrow> length (decode_percent s) < length s"
proof (induction s rule: decode_percent.induct)
  case (1 c a b s)
  show ?case
  proof (cases "c = CHR ''%'' \<and> hex_digit a \<noteq> None \<and> hex_digit b \<noteq> None")
    case True
    then show ?thesis using 1 length_decode_percent [of s] by (cases "decode_pair a b") auto
  next
    case False
    then show ?thesis using 1 by auto
  qed
qed simp_all

function decode_all :: "string \<Rightarrow> string" where
  "decode_all s = (let n = decode_percent s in if n = s then s else decode_all n)"
  by pat_completeness auto
termination
  by (relation "measure length") (auto dest: decode_percent_shorter)

declare decode_all.simps [simp del]

text \<open>The runs of slashes matched by \<open>/(?<!:)\/{2,}/g\<close> become one; \<open>prev\<close> is the character before.\<close>

function collapse_slashes :: "char option \<Rightarrow> string \<Rightarrow> string" where
  "collapse_slashes prev [] = []"
| "collapse_slashes prev (c # s) =
     (if c = CHR ''/'' \<and> prev \<noteq> Some (CHR '':'') \<and> starts_with ''/'' s
      then CHR ''/'' # collapse_slashes (Some (CHR ''/'')) (dropWhile (\<lambda>x. x = CHR ''/'') s)
      else c # collapse_slashes (Some c) s)"
  by pat_completeness auto
termination
  by (relation "measure (\<lambda>(_, s). length s)") (auto simp: le_imp_less_Suc length_dropWhile_le)

definition normalizeForMatching :: "string \<Rightarrow> string" where
  "normalizeForMatching value = map ascii_lower (collapse_slashes None (decode_all value))"

definition js_includes :: "string \<Rightarrow> string \<Rightarrow> bool" where
  "js_includes s p = list_ex (\<lambda>i. starts_with p (drop i s)) [0..<Suc (length s)]"

definition containsVerificationEndpointPath :: "string \<Rightarrow> bool" where
  "containsVerificationEndpointPath value =
     (let normalized = normalizeForMatching value
      in list_ex (js_includes normalized) VERIFICATION_ENDPOINT_PATHS \<or>
         js_includes normalized ''/v1/channel-verification-sessions'')"

definition containsVerificationFragments :: "string \<Rightarrow> bool" where
  "containsVerificationFragments command = js_includes (map ascii_lower command) ''channel-verification-sessions''"

definition isVerificationControlPlaneInvocation :: "string \<Rightarrow> tool_input \<Rightarrow> bool" where
  "isVerificationControlPlaneInvocation toolName input =
     ((toolName \<in> {''bash'', ''host_bash''} \<and>
       (case map_of input ''command'' of
          Some (JStr command) \<Rightarrow> containsVerificationEndpointPath command \<or> containsVerificationFragments command
        | _ \<Rightarrow> False)) \<or>
      (toolName \<in> {''network_request'', ''web_fetch''} \<and>
       (case map_of input ''url'' of Some (JStr url) \<Rightarrow> containsVerificationEndpointPath url | _ \<Rightarrow> False)))"

definition controlPlaneDenied :: "string \<Rightarrow> tool_input \<Rightarrow> string \<Rightarrow> bool" where
  "controlPlaneDenied toolName input trustClass =
     (isVerificationControlPlaneInvocation toolName input \<and>
      \<not> canUseVerificationControlPlane (resolveCapabilities (Some trustClass)))"

section \<open>Contexts and environments\<close>

datatype ExecutionTarget = SandboxTarget | HostTarget

record Tool =
  tl_name :: string
  tl_executionTarget :: "ExecutionTarget option"
  tl_getExecutionTarget :: "(tool_input \<Rightarrow> ExecutionTarget) option"
  tl_category :: "string option"

record ToolContext =
  tx_conversationId :: string
  tx_workingDir :: string
  tx_requestId :: "string option"
  tx_assistantId :: "string option"
  tx_isInteractive :: "bool option"
  tx_allowedToolNames :: "string list option"
  tx_diskPressureCleanupModeActive :: bool
  tx_sendUserMessageActive :: bool
  tx_forcePromptSideEffects :: bool
  tx_requireFreshApproval :: bool
  tx_trustClass :: string
  tx_executionChannel :: "string option"
  tx_requestOrigin :: "string option"
  tx_callSessionId :: "string option"
  tx_requesterExternalUserId :: "string option"
  tx_requesterContactId :: "string option"
  tx_channelPermissionChannelId :: "string option"
  tx_channelConversationType :: "string option"
  tx_isPlatformHosted :: bool
  tx_aborted :: bool

text \<open>The wait for a guardian: its clock, signals and interleavings, the statements that run while the request
  is read, and whether round \<open>n\<close> reads it as denied.\<close>

record inline_wait =
  iw_polling :: polling
  iw_reading :: "nat \<Rightarrow> grant_op list"
  iw_denied :: "nat \<Rightarrow> bool"
  iw_maxWaitMs :: int

record tool_env =
  te_check :: check_env
  te_tool :: "Tool option"
  te_dirs :: workspace_dirs
  te_dynamicLoad :: "string \<Rightarrow> tool_input \<Rightarrow> bool"
  te_digest :: "string \<Rightarrow> tool_input \<Rightarrow> string"
  te_preexecId :: string
  te_profiles :: "string \<Rightarrow> ChannelPermissionProfile option"
  te_parse :: "string \<Rightarrow> tool_input \<Rightarrow> string + tool_input option"
  te_polling :: polling
  te_escalated :: bool
  te_wait :: inline_wait

record gate_state =
  gs_reader :: reader
  gs_grants :: grant_table

definition resolveExecutionTarget :: "string \<Rightarrow> Tool option \<Rightarrow> tool_input \<Rightarrow> ExecutionTarget" where
  "resolveExecutionTarget name tool input =
     (case Option.bind tool tl_getExecutionTarget of
        Some f \<Rightarrow> f input
      | None \<Rightarrow>
          (case Option.bind tool tl_executionTarget of
             Some t \<Rightarrow> t
           | None \<Rightarrow>
               if starts_with ''host_'' (case tool of Some t \<Rightarrow> tl_name t | None \<Rightarrow> name) \<or>
                  starts_with ''computer_use_'' (case tool of Some t \<Rightarrow> tl_name t | None \<Rightarrow> name)
               then HostTarget else SandboxTarget))"

definition channelCoordinatesFromToolContext :: "ToolContext \<Rightarrow> PolicyContext" where
  "channelCoordinatesFromToolContext ctx =
     \<lparr>px_executionContext = None, px_conversationId = None, px_requestOrigin = None,
      px_trustClass = Some (tx_trustClass ctx), px_sourceChannel = tx_executionChannel ctx,
      px_channelExternalId = tx_channelPermissionChannelId ctx,
      px_channelConversationType = tx_channelConversationType ctx, px_procToSkillsActive = False,
      px_requesterContactId = None\<rparr>"

section \<open>Sensitive tools\<close>

datatype SensitiveToolReach = ReachNone | ReachSandbox | ReachHost

definition isUnvettedExtensionTool :: "tool_env \<Rightarrow> bool" where
  "isUnvettedExtensionTool env =
     (case ce_toolOwner (te_check env) of
        None \<Rightarrow> False
      | Some DefaultOwner \<Rightarrow> False
      | Some SkillOwner \<Rightarrow> \<not> ce_skillBundled (te_check env)
      | Some _ \<Rightarrow> True)"

definition UI_SURFACE_TOOLS :: "string list" where
  "UI_SURFACE_TOOLS = [''ui_show'', ''ui_update'', ''ui_dismiss'']"

definition sensitiveToolReach :: "tool_env \<Rightarrow> string \<Rightarrow> ExecutionTarget \<Rightarrow> tool_input \<Rightarrow> string \<Rightarrow> SensitiveToolReach" where
  "sensitiveToolReach env toolName executionTarget input workingDir =
     (if toolName \<in> set UI_SURFACE_TOOLS then ReachNone
      else if toolName = ''skill_load'' \<and> te_dynamicLoad env toolName input then ReachHost
      else if workingDir \<noteq> [] \<and>
              isOutOfWorkspaceFileInvocation (ce_fs (te_check env)) (ce_containerized (te_check env)) toolName input workingDir
      then ReachHost
      else if executionTarget = HostTarget then ReachHost
      else if isUnvettedExtensionTool env then ReachSandbox
      else if isSideEffectTool toolName then ReachSandbox else ReachNone)"

datatype SensitiveToolDecision = Proceed | EscalateAndWait | DenyTool

fun decision_of :: "SensitiveToolApproval \<Rightarrow> SensitiveToolDecision" where
  "decision_of SelfApproval = Proceed"
| "decision_of EscalateApproval = EscalateAndWait"
| "decision_of DenyApproval = DenyTool"

definition resolveSensitiveToolDecision ::
  "SensitiveToolReach \<Rightarrow> RiskThreshold option \<Rightarrow> SensitiveToolApproval \<Rightarrow> SensitiveToolDecision" where
  "resolveSensitiveToolDecision toolReach cellThreshold approval =
     (if toolReach = ReachNone \<or> approval = SelfApproval then Proceed
      else if approval = DenyApproval \<or> toolReach = ReachHost then decision_of approval
      else if cellThreshold = None \<or> cellThreshold = Some TNone then decision_of approval
      else Proceed)"

definition CODE_EXECUTION_TOOLS :: "string list" where "CODE_EXECUTION_TOOLS = [''bash'']"

definition reachesPrivateNetwork :: "string \<Rightarrow> tool_input \<Rightarrow> bool" where
  "reachesPrivateNetwork toolName input =
     (toolName = ''web_fetch'' \<and> map_of input ''allow_private_network'' = Some (JBool True))"

definition isContactCeilingLiftable :: "tool_env \<Rightarrow> SensitiveToolReach \<Rightarrow> string \<Rightarrow> tool_input \<Rightarrow> string \<Rightarrow> bool" where
  "isContactCeilingLiftable env toolReach toolName input workingDir =
     (if toolReach \<noteq> ReachSandbox then False
      else if isWorkspaceWriteTool toolName \<and>
              (workingDir = [] \<or> isControlPlaneWorkspaceWrite (ce_fs (te_check env)) (te_dirs env) toolName input workingDir)
      then False
      else if isUnvettedExtensionTool env then False
      else if reachesPrivateNetwork toolName input then False
      else True)"

definition isChannelLiftable :: "tool_env \<Rightarrow> SensitiveToolReach \<Rightarrow> string \<Rightarrow> tool_input \<Rightarrow> string \<Rightarrow> bool" where
  "isChannelLiftable env toolReach toolName input workingDir =
     (if toolReach \<noteq> ReachSandbox then False
      else if toolName \<in> set CODE_EXECUTION_TOOLS then False
      else if isWorkspaceWriteTool toolName \<and>
              (workingDir = [] \<or> isControlPlaneWorkspaceWrite (ce_fs (te_check env)) (te_dirs env) toolName input workingDir)
      then False
      else if isUnvettedExtensionTool env then False
      else if reachesPrivateNetwork toolName input then False
      else True)"

definition resolveApprovalCellThreshold ::
  "tool_env \<Rightarrow> ToolContext \<Rightarrow> SensitiveToolReach \<Rightarrow> string \<Rightarrow> tool_input \<Rightarrow> SensitiveToolApproval \<Rightarrow> reader \<Rightarrow>
     RiskThreshold option \<times> reader" where
  "resolveApprovalCellThreshold env ctx toolReach toolName input approval s =
     (if approval \<noteq> EscalateApproval then (None, s)
      else
        case getContactAutoApproveThreshold (ce_ipc (te_check env)) (tx_requesterContactId ctx) s of (contactCeiling, s1) \<Rightarrow>
          if contactCeiling \<noteq> None \<and> isContactCeilingLiftable env toolReach toolName input (tx_workingDir ctx)
          then (contactCeiling, s1)
          else if \<not> isChannelLiftable env toolReach toolName input (tx_workingDir ctx) then (None, s1)
          else
            case buildChannelPermissionCellQuery (Some (channelCoordinatesFromToolContext ctx)) of
              None \<Rightarrow> (None, s1)
            | Some q \<Rightarrow>
                (case cell_layer (ce_ipc (te_check env)) q False s1 of (cell, effective, s2) \<Rightarrow> (effective, s2)))"

section \<open>Waiting for a guardian\<close>

datatype InlineGrantWaitOutcome = WaitGranted ScopedApprovalGrant | WaitDenied | WaitTimeout | WaitAborted

partial_function (option) wait_rounds ::
  "inline_wait \<Rightarrow> ConsumeGrantParams \<Rightarrow> int \<Rightarrow> nat \<Rightarrow> grant_table \<Rightarrow> (InlineGrantWaitOutcome \<times> grant_table) option" where
  "wait_rounds w p deadline n tbl =
     (let po = iw_polling w
      in if po_clock po n < deadline
         then
           if po_abortedBefore po n then Some (WaitAborted, tbl)
           else
             let tbl1 = run_ops (po_waiting po n) tbl
             in if po_abortedAfter po n then Some (WaitAborted, tbl1)
                else
                  let tbl2 = run_ops (iw_reading w n) tbl1
                  in if iw_denied w n then Some (WaitDenied, tbl2)
                     else
                       let (result, tbl3) = consumeGrantSync (po_others po n) (po_others' po n) p (po_now po n) tbl2
                       in case result of
                            Inr g \<Rightarrow> Some (WaitGranted g, tbl3)
                          | Inl _ \<Rightarrow> wait_rounds w p deadline (Suc n) tbl3
         else Some (WaitTimeout, tbl))"

text \<open>An attempt of a round is \<open>consumeGrantForInvocation\<close> with no wait, which is one synchronous attempt.\<close>

lemma no_wait_is_sync:
  "consumeGrantForInvocation po p (Some 0) tbl = Some (consumeGrantSync (po_others po 0) (po_others' po 0) p (po_now po 0) tbl)"
  by (simp add: consumeGrantForInvocation_def split: prod.splits sum.splits)

definition waitForInlineGrant ::
  "inline_wait \<Rightarrow> ConsumeGrantParams \<Rightarrow> grant_table \<Rightarrow> (InlineGrantWaitOutcome \<times> grant_table) option" where
  "waitForInlineGrant w p tbl = wait_rounds w p (po_clock (iw_polling w) 0 + iw_maxWaitMs w) 1 tbl"

section \<open>The gates\<close>

datatype gate_denial =
    GateCancelled
  | GateUnparseable
  | GateControlPlane
  | GateDiskPressure
  | GateUnknownTool
  | GateInactiveTool
  | GateChannelPolicy
  | GateInvalidInput string
  | GateGuardianDenied
  | GateWaitTimeout
  | GateNeedsGrant SensitiveToolDecision

text \<open>\<open>GateAllowed\<close> carries the grant consumed for the invocation, if one was, and the parsed input.\<close>

datatype gate_result = GateDenied gate_denial | GateAllowed Tool "ScopedApprovalGrant option" "tool_input option"

definition consume_params :: "tool_env \<Rightarrow> ToolContext \<Rightarrow> string \<Rightarrow> tool_input \<Rightarrow> ConsumeGrantParams" where
  "consume_params env ctx name input =
     \<lparr>cg_requestId = tx_requestId ctx,
      cg_signature =
        \<lparr>cs_toolName = name, cs_inputDigest = te_digest env name input,
         cs_consumingRequestId = (case tx_requestId ctx of Some r \<Rightarrow> r | None \<Rightarrow> te_preexecId env),
         cs_executionChannel = tx_executionChannel ctx, cs_conversationId = Some (tx_conversationId ctx),
         cs_callSessionId = tx_callSessionId ctx,
         cs_requesterExternalUserId = tx_requesterExternalUserId ctx\<rparr>\<rparr>"

text \<open>The gates between the sensitive-tool decision and the consumption of a grant.\<close>

definition policy_gates :: "tool_env \<Rightarrow> ToolContext \<Rightarrow> string \<Rightarrow> tool_input \<Rightarrow> gate_denial + (Tool \<times> tool_input option)" where
  "policy_gates env ctx name input =
     (if tx_diskPressureCleanupModeActive ctx \<and> \<not> survivesDiskPressureCleanup name (tx_sendUserMessageActive ctx)
      then Inl GateDiskPressure
      else
        case te_tool env of
          None \<Rightarrow> Inl GateUnknownTool
        | Some tool \<Rightarrow>
            if (case tx_allowedToolNames ctx of None \<Rightarrow> False | Some ns \<Rightarrow> name \<notin> set ns) then Inl GateInactiveTool
            else if tx_executionChannel ctx = Some ''slack'' \<and>
                    (case truthy (tx_channelPermissionChannelId ctx) of
                       None \<Rightarrow> False
                     | Some ch \<Rightarrow> \<not> isToolAllowedInChannel (te_profiles env) ch name (tl_category tool))
            then Inl GateChannelPolicy
            else if ce_toolOwner (te_check env) = Some DefaultOwner
            then (case te_parse env name input of
                    Inl message \<Rightarrow> Inl (GateInvalidInput message)
                  | Inr parsed \<Rightarrow> Inr (tool, parsed))
            else Inr (tool, None))"

text \<open>The consumption of a grant, and on a miss the escalation to the guardian with its wait.\<close>

definition grant_gate ::
  "tool_env \<Rightarrow> ToolContext \<Rightarrow> SensitiveToolDecision \<Rightarrow> ConsumeGrantParams \<Rightarrow> Tool \<Rightarrow> tool_input option \<Rightarrow> grant_table \<Rightarrow>
     (gate_result \<times> grant_table) option" where
  "grant_gate env ctx decision p tool parsed tbl =
     (case consumeGrantForInvocation (te_polling env) p (if tx_executionChannel ctx = Some ''phone'' then None else Some 0) tbl of
        None \<Rightarrow> None
      | Some (Inr g, tbl1) \<Rightarrow> Some (GateAllowed tool (Some g) parsed, tbl1)
      | Some (Inl AbortedWait, tbl1) \<Rightarrow> Some (GateDenied GateCancelled, tbl1)
      | Some (Inl NoMatch, tbl1) \<Rightarrow>
          if decision = EscalateAndWait \<and> truthy (tx_assistantId ctx) \<noteq> None \<and> truthy (tx_executionChannel ctx) \<noteq> None \<and>
             truthy (tx_requesterExternalUserId ctx) \<noteq> None \<and> te_escalated env
          then
            (case waitForInlineGrant (te_wait env) p tbl1 of
               None \<Rightarrow> None
             | Some (WaitGranted g, tbl2) \<Rightarrow> Some (GateAllowed tool (Some g) parsed, tbl2)
             | Some (WaitAborted, tbl2) \<Rightarrow> Some (GateDenied GateCancelled, tbl2)
             | Some (WaitDenied, tbl2) \<Rightarrow> Some (GateDenied GateGuardianDenied, tbl2)
             | Some (WaitTimeout, tbl2) \<Rightarrow> Some (GateDenied GateWaitTimeout, tbl2))
          else Some (GateDenied (GateNeedsGrant decision), tbl1))"

definition sensitive_decision ::
  "tool_env \<Rightarrow> ToolContext \<Rightarrow> string \<Rightarrow> tool_input \<Rightarrow> reader \<Rightarrow> SensitiveToolDecision \<times> reader" where
  "sensitive_decision env ctx name input s =
     (let toolReach = sensitiveToolReach env name (resolveExecutionTarget name (te_tool env) input) input (tx_workingDir ctx);
          approval = sensitiveToolApproval (resolveCapabilities (Some (tx_trustClass ctx)))
      in case resolveApprovalCellThreshold env ctx toolReach name input approval s of (cellThreshold, s1) \<Rightarrow>
           (resolveSensitiveToolDecision toolReach cellThreshold approval, s1))"

definition checkPreExecutionGates ::
  "tool_env \<Rightarrow> ToolContext \<Rightarrow> string \<Rightarrow> tool_input \<Rightarrow> gate_state \<Rightarrow> (gate_result \<times> gate_state) option" where
  "checkPreExecutionGates env ctx name input st =
     (if tx_aborted ctx then Some (GateDenied GateCancelled, st)
      else if isUnparseableToolArgs input then Some (GateDenied GateUnparseable, st)
      else if controlPlaneDenied name input (tx_trustClass ctx) then Some (GateDenied GateControlPlane, st)
      else
        case sensitive_decision env ctx name input (gs_reader st) of (decision, s1) \<Rightarrow>
          (case policy_gates env ctx name input of
             Inl denial \<Rightarrow> Some (GateDenied denial, st\<lparr>gs_reader := s1\<rparr>)
           | Inr (tool, parsed) \<Rightarrow>
               if decision = Proceed then Some (GateAllowed tool None parsed, st\<lparr>gs_reader := s1\<rparr>)
               else
                 map_option (\<lambda>(r, tbl). (r, st\<lparr>gs_reader := s1, gs_grants := tbl\<rparr>))
                   (grant_gate env ctx decision (consume_params env ctx name input) tool parsed (gs_grants st))))"

section \<open>Lemmas\<close>

text \<open>A round that goes on ran its attempt and found nothing.\<close>

lemma wait_granted:
  "wait_rounds w p deadline n tbl = Some y \<Longrightarrow> fst y = WaitGranted g \<Longrightarrow> distinct (map gr_id tbl) \<Longrightarrow> granted p g (snd y)"
proof (induction rule: wait_rounds.raw_induct [rotated, consumes 1])
  case (1 wait w p deadline n tbl y)
  let ?po = "iw_polling w"
  let ?tbl = "run_ops (iw_reading w n) (run_ops (po_waiting ?po n) tbl)"
  obtain r t where sync: "consumeGrantSync (po_others ?po n) (po_others' ?po n) p (po_now ?po n) ?tbl = (r, t)" by force
  have d: "distinct (map gr_id ?tbl)" using 1(4) by (intro run_ops_distinct)
  have go: "po_clock ?po n < deadline" "\<not> po_abortedBefore ?po n" "\<not> po_abortedAfter ?po n" "\<not> iw_denied w n"
    using 1(2,3) by (auto simp: Let_def split: if_splits)
  note run = 1(2) [unfolded Let_def sync, simplified go if_True if_False not_False_eq_True prod.case]
  show ?case
  proof (cases r)
    case (Inr h)
    with run have "y = (WaitGranted h, t)" by simp
    with 1(3) sync Inr sync_granted [OF _ d] show ?thesis by simp
  next
    case (Inl e)
    with run have "wait w p deadline (Suc n) t = Some y" by simp
    from 1(1) [OF this 1(3) sync_distinct [OF sync d]] show ?thesis .
  qed
qed

lemma invocation_distinct:
  assumes "consumeGrantForInvocation po p w tbl = Some (Inl e, tbl')" "distinct (map gr_id tbl)"
  shows "distinct (map gr_id tbl')"
proof -
  obtain r t where sync: "consumeGrantSync (po_others po 0) (po_others' po 0) p (po_now po 0) tbl = (r, t)" by force
  have d: "distinct (map gr_id t)" by (rule sync_distinct [OF sync assms(2)])
  have poll: "distinct (map gr_id (snd y))"
    if "poll_grants po p deadline n u = Some y" "distinct (map gr_id u)" for deadline n u y
    using that
  proof (induction rule: poll_grants.raw_induct [rotated, consumes 1])
    case (1 poll po p deadline n tbl y)
    obtain r t where s: "consumeGrantSync (po_others po n) (po_others' po n) p (po_now po n) (run_ops (po_waiting po n) tbl) = (r, t)" by force
    have d: "distinct (map gr_id (run_ops (po_waiting po n) tbl))" using 1(3) by (rule run_ops_distinct)
    have t: "distinct (map gr_id t)" by (rule sync_distinct [OF s d])
    note run = 1(2) [unfolded Let_def s prod.case]
    show ?case
    proof (cases "po_clock po n < deadline \<and> \<not> po_abortedBefore po n \<and> \<not> po_abortedAfter po n")
      case True
      show ?thesis
      proof (cases r)
        case (Inl e)
        with run True have "poll po p deadline (Suc n) t = Some y" by simp
        from 1(1) [OF this t] show ?thesis .
      next
        case (Inr h)
        with run True have "y = (Inr h, t)" by simp
        with t show ?thesis by simp
      qed
    next
      case False
      with run have "snd y = tbl \<or> snd y = run_ops (po_waiting po n) tbl" by (auto split: if_splits)
      with d 1(3) show ?thesis by metis
    qed
  qed
  from assms(1) sync d poll show ?thesis
    by (auto simp: consumeGrantForInvocation_def Let_def split: sum.splits if_splits)
qed

lemma grant_gate_granted:
  assumes "grant_gate env ctx decision p tool parsed tbl = Some (GateAllowed tool' grant parsed', tbl')" "distinct (map gr_id tbl)"
  shows "\<exists>g. grant = Some g \<and> granted p g tbl'"
proof -
  let ?w = "if tx_executionChannel ctx = Some ''phone'' then None else Some (0::int)"
  obtain r t where c: "consumeGrantForInvocation (te_polling env) p ?w tbl = Some (r, t)"
    using assms(1) unfolding grant_gate_def by (cases "consumeGrantForInvocation (te_polling env) p ?w tbl") auto
  show ?thesis
  proof (cases r)
    case (Inr g)
    with assms(1) c have "grant = Some g" "tbl' = t" by (simp_all add: grant_gate_def)
    with invocation_granted [OF c [unfolded Inr] assms(2)] show ?thesis by blast
  next
    case (Inl e)
    have d: "distinct (map gr_id t)" by (rule invocation_distinct [OF c [unfolded Inl] assms(2)])
    from assms(1) c Inl obtain g where g: "waitForInlineGrant (te_wait env) p t = Some (WaitGranted g, tbl')" "grant = Some g"
      by (cases e) (auto simp: grant_gate_def split: if_splits option.splits prod.splits InlineGrantWaitOutcome.splits)
    from wait_granted [OF g(1) [unfolded waitForInlineGrant_def] _ d] g(2) show ?thesis by simp
  qed
qed

text \<open>What an allowed invocation has passed.\<close>

lemma gates_allowed:
  assumes "checkPreExecutionGates env ctx name input st = Some (GateAllowed tool grant parsed, st')" "distinct (map gr_id (gs_grants st))"
  shows "\<not> tx_aborted ctx \<and> \<not> isUnparseableToolArgs input \<and> \<not> controlPlaneDenied name input (tx_trustClass ctx) \<and>
    policy_gates env ctx name input = Inr (tool, parsed) \<and>
    gs_reader st' = snd (sensitive_decision env ctx name input (gs_reader st)) \<and>
    (case grant of
       None \<Rightarrow> fst (sensitive_decision env ctx name input (gs_reader st)) = Proceed \<and> gs_grants st' = gs_grants st
     | Some g \<Rightarrow> granted (consume_params env ctx name input) g (gs_grants st'))"
proof -
  obtain decision s1 where d: "sensitive_decision env ctx name input (gs_reader st) = (decision, s1)" by force
  have free: "\<not> tx_aborted ctx" "\<not> isUnparseableToolArgs input" "\<not> controlPlaneDenied name input (tx_trustClass ctx)"
    using assms(1) by (auto simp: checkPreExecutionGates_def split: if_splits)
  obtain t q where p: "policy_gates env ctx name input = Inr (t, q)"
    using assms(1) free d by (cases "policy_gates env ctx name input") (auto simp: checkPreExecutionGates_def)
  show ?thesis
  proof (cases "decision = Proceed")
    case True
    then show ?thesis using assms(1) free d p by (auto simp: checkPreExecutionGates_def)
  next
    case False
    with assms(1) free d p obtain r u where
      g: "grant_gate env ctx decision (consume_params env ctx name input) t q (gs_grants st) = Some (r, u)"
      "GateAllowed tool grant parsed = r" "st' = st\<lparr>gs_reader := s1, gs_grants := u\<rparr>"
      by (auto simp: checkPreExecutionGates_def)
    from grant_gate_granted [OF g(1) [folded g(2)] assms(2)] obtain h where
      h: "grant = Some h" "granted (consume_params env ctx name input) h u" by blast
    have "t = tool \<and> q = parsed"
      using g(1) unfolding g(2) [symmetric] grant_gate_def
      by (auto split: option.splits sum.splits prod.splits if_splits consume_failure.splits InlineGrantWaitOutcome.splits)
    with free d p g(3) h show ?thesis by simp
  qed
qed

text \<open>What no threshold lifts for an actor who cannot approve alone.\<close>

definition floored :: "tool_env \<Rightarrow> ToolContext \<Rightarrow> string \<Rightarrow> tool_input \<Rightarrow> bool" where
  "floored env ctx name input =
     (let toolReach = sensitiveToolReach env name (resolveExecutionTarget name (te_tool env) input) input (tx_workingDir ctx)
      in toolReach = ReachHost \<or>
         toolReach = ReachSandbox \<and>
           (isWorkspaceWriteTool name \<and>
              (tx_workingDir ctx = [] \<or>
               isControlPlaneWorkspaceWrite (ce_fs (te_check env)) (te_dirs env) name input (tx_workingDir ctx)) \<or>
            isUnvettedExtensionTool env \<or> reachesPrivateNetwork name input))"

lemma not_guardian_approval:
  "trustClass \<noteq> ''guardian'' \<Longrightarrow> sensitiveToolApproval (resolveCapabilities (Some trustClass)) \<noteq> SelfApproval"
  by (auto simp: resolveCapabilities_def isTrustClass_def CONTACT_CAPABILITIES_def UNKNOWN_CAPABILITIES_def)

lemma floored_decision:
  assumes "floored env ctx name input" "tx_trustClass ctx \<noteq> ''guardian''"
  shows "fst (sensitive_decision env ctx name input s) \<noteq> Proceed"
proof -
  let ?reach = "sensitiveToolReach env name (resolveExecutionTarget name (te_tool env) input) input (tx_workingDir ctx)"
  let ?approval = "sensitiveToolApproval (resolveCapabilities (Some (tx_trustClass ctx)))"
  have a: "?approval \<noteq> SelfApproval" by (rule not_guardian_approval [OF assms(2)])
  then have dec: "decision_of ?approval \<noteq> Proceed" by (cases ?approval) simp_all
  have nl: "\<not> isContactCeilingLiftable env ?reach name input (tx_workingDir ctx)" "\<not> isChannelLiftable env ?reach name input (tx_workingDir ctx)"
    using assms(1) by (auto simp: floored_def Let_def isContactCeilingLiftable_def isChannelLiftable_def)
  obtain cell s1 where c: "resolveApprovalCellThreshold env ctx ?reach name input ?approval s = (cell, s1)" by force
  with nl have "cell = None" by (auto simp: resolveApprovalCellThreshold_def split: if_splits prod.splits)
  moreover have "?reach \<noteq> ReachNone" using assms(1) by (auto simp: floored_def Let_def)
  ultimately show ?thesis using c a dec by (simp add: sensitive_decision_def resolveSensitiveToolDecision_def Let_def)
qed

text \<open>The gates leave the caches honest.\<close>

lemma sensitive_decision_settled:
  assumes g: "reachable_gateway (ce_ipc (te_check env)) h L" and ok: "caches_honest (ce_ipc (te_check env)) h L s"
    and d: "sensitive_decision env ctx name input s = (dec, s')"
  shows "settled (ce_ipc (te_check env)) h L s s'"
proof -
  let ?ge = "ce_ipc (te_check env)"
  obtain k s1 where k: "getContactAutoApproveThreshold ?ge (tx_requesterContactId ctx) s = (k, s1)" by force
  have 1: "settled ?ge h L s s1"
  proof (cases "truthy (tx_requesterContactId ctx)")
    case None
    then show ?thesis using k settled_refl [OF ok] by (simp add: getContactAutoApproveThreshold_def)
  next
    case (Some cid)
    obtain l s2 where l: "lookupContactThreshold ?ge cid False s = (l, s2)" by force
    have "s1 = s2" using k l Some by (auto simp: getContactAutoApproveThreshold_def split: threshold_lookup.splits)
    with read_in_settled [OF lookupContact_reads [OF g ok l] ok] show ?thesis by simp
  qed
  have cell: "settled ?ge h L s s2" if "buildChannelPermissionCellQuery pc = Some q" "cell_layer ?ge q False s1 = (c, e, s2)" for pc q c e s2
    by (rule cell_layer_reads [OF g settled_honest [OF 1] built_query_valid [OF that(1)] that(2)]) (rule settled_trans [OF 1])
  from d k 1 cell settled_refl [OF ok] show ?thesis
    by (auto simp: sensitive_decision_def resolveApprovalCellThreshold_def Let_def split: if_splits option.splits prod.splits)
qed

lemma wait_returns:
  assumes "\<forall>n. po_clock (iw_polling w) n + 1 \<le> po_clock (iw_polling w) (Suc n)"
  shows "\<exists>y. wait_rounds w p deadline n tbl = Some y"
proof (induction "nat (deadline - po_clock (iw_polling w) n)" arbitrary: n tbl rule: less_induct)
  case less
  show ?case
  proof (cases "po_clock (iw_polling w) n < deadline")
    case False
    then show ?thesis by (subst wait_rounds.simps) (simp add: Let_def)
  next
    case True
    have "po_clock (iw_polling w) n < po_clock (iw_polling w) (Suc n)" using assms [rule_format, of n] by simp
    then have "nat (deadline - po_clock (iw_polling w) (Suc n)) < nat (deadline - po_clock (iw_polling w) n)" using True by simp
    from less [OF this] show ?thesis
      by (subst wait_rounds.simps) (simp add: Let_def split: prod.splits sum.splits)
  qed
qed

end
