(* ===== verification/Tool_Execution.thy ===== *)
theory Tool_Execution
  imports Tool_Gate
begin

text \<open>
  From a tool call of the model to the decision to run it: the permission checker
  (\<^verbatim>\<open>assistant/src/tools/permission-checker.ts\<close>), its policy context (\<^verbatim>\<open>tools/policy-context.ts\<close>) and
  provenance (\<^verbatim>\<open>permissions/approval-provenance.ts\<close>), the name aliases (\<^verbatim>\<open>tools/tool-name-aliases.ts\<close>)
  and the part of \<^verbatim>\<open>tools/executor.ts\<close> up to the call of the tool.

  \<^item> What the user answers to a prompt, the classification taken before the gates, the capability
    manifests of workflows and the memory configuration are in \<open>exec_env\<close>.
  \<^item> An exception is a left value; audit rows, the texts shown for a denial and the preview are left out.
\<close>

section \<open>Provenance\<close>

datatype ApprovalMode = ModePrompted | ModeAuto | ModeBlocked | ModeUnknown

datatype ApprovalReason =
    UserApproved
  | UserDenied
  | TimedOut
  | WithinThreshold
  | TrustRuleAllowed
  | TrustRuleDenied
  | SandboxAutoApprove
  | PlatformAutoApprove
  | NoInteractiveClient
  | GrantScopedConsumed
  | SystemCancelled
  | ReasonUnknown

record provenance_opts =
  po_hasSandboxAutoApprove :: bool
  po_matchedTrustRuleId :: "string option"
  po_wasPrompted :: bool
  po_wasTimeout :: bool
  po_wasSystemCancel :: bool
  po_wasAbort :: bool

definition no_opts :: provenance_opts where
  "no_opts = \<lparr>po_hasSandboxAutoApprove = False, po_matchedTrustRuleId = None, po_wasPrompted = False,
     po_wasTimeout = False, po_wasSystemCancel = False, po_wasAbort = False\<rparr>"

definition mapApprovalProvenance :: "string \<Rightarrow> provenance_opts \<Rightarrow> ApprovalMode \<times> ApprovalReason" where
  "mapApprovalProvenance decision opts =
     (if decision = ''platform_auto_approve'' then (ModeAuto, PlatformAutoApprove)
      else if decision = ''guardian_auto_approve'' then (ModeAuto, WithinThreshold)
      else if decision = ''allow'' then
        (if po_wasPrompted opts then (ModePrompted, UserApproved)
         else if po_hasSandboxAutoApprove opts then (ModeAuto, SandboxAutoApprove)
         else if truthy (po_matchedTrustRuleId opts) \<noteq> None then (ModeAuto, TrustRuleAllowed)
         else (ModeAuto, WithinThreshold))
      else if decision = ''deny'' then
        (if po_wasSystemCancel opts then (ModePrompted, SystemCancelled)
         else if po_wasAbort opts then (ModePrompted, SystemCancelled)
         else if po_wasTimeout opts then (ModePrompted, TimedOut)
         else (ModePrompted, UserDenied))
      else if decision = ''denied'' then
        (if truthy (po_matchedTrustRuleId opts) \<noteq> None then (ModeBlocked, TrustRuleDenied)
         else (ModeBlocked, NoInteractiveClient))
      else (ModeUnknown, ReasonUnknown))"

section \<open>The permission checker\<close>

definition deriveExecutionContext :: "ToolContext \<Rightarrow> ExecutionContext" where
  "deriveExecutionContext ctx =
     (if tx_isInteractive ctx = Some False \<and> tx_trustClass ctx = ''guardian'' then Background
      else if tx_isInteractive ctx = Some False then Headless
      else Conversation)"

definition buildPolicyContext :: "bool \<Rightarrow> ToolContext \<Rightarrow> PolicyContext" where
  "buildPolicyContext skillImprovementActive ctx =
     (channelCoordinatesFromToolContext ctx)
       \<lparr>px_executionContext := Some (deriveExecutionContext ctx), px_conversationId := Some (tx_conversationId ctx),
        px_requestOrigin := tx_requestOrigin ctx, px_requesterContactId := tx_requesterContactId ctx,
        px_procToSkillsActive := skillImprovementActive\<rparr>"

datatype UserDecision = UserAllow | UserDeny

record prompt_response =
  pm_decision :: UserDecision
  pm_wasTimeout :: bool
  pm_wasSystemCancel :: bool
  pm_wasAbort :: bool

text \<open>What the prompter resolves with; \<open>None\<close> when it was disposed of and rejects.\<close>

type_synonym prompt_outcome = "prompt_response option"

record exec_env =
  xe_tool :: tool_env
  xe_early :: check_env
  xe_skillImprovement :: bool
  xe_prompt :: prompt_outcome
  xe_grantsSideEffects :: "json option \<Rightarrow> bool"
  xe_ownedRunCapabilities :: "string \<Rightarrow> json option option"

record PermissionDecision =
  pd_allowed :: bool
  pd_decision :: string
  pd_riskLevel :: RiskLevel
  pd_wasPrompted :: bool
  pd_provenance :: "ApprovalMode \<times> ApprovalReason"
  pd_riskThreshold :: RiskThreshold

datatype perm_error = CheckFailed check_error | PrompterDisposed

definition permission ::
  "bool \<Rightarrow> string \<Rightarrow> RiskLevel \<Rightarrow> bool \<Rightarrow> provenance_opts \<Rightarrow> RiskThreshold \<Rightarrow> PermissionDecision" where
  "permission allowed decision risk prompted opts threshold =
     \<lparr>pd_allowed = allowed, pd_decision = decision, pd_riskLevel = risk, pd_wasPrompted = prompted,
      pd_provenance = mapApprovalProvenance decision opts, pd_riskThreshold = threshold\<rparr>"

text \<open>The promotions of an allow to a prompt.\<close>

definition promote :: "ToolContext \<Rightarrow> string \<Rightarrow> RiskThreshold \<Rightarrow> decision \<Rightarrow> decision" where
  "promote ctx name riskThreshold d =
     (let d1 = (if tx_forcePromptSideEffects ctx \<and> d = Allow \<and> isSideEffectTool name then Prompt else d)
      in if tx_requireFreshApproval ctx \<and> d1 = Allow \<and> \<not> isFullAccessThreshold riskThreshold then Prompt else d1)"

definition prompt_user :: "exec_env \<Rightarrow> RiskLevel \<Rightarrow> RiskThreshold \<Rightarrow> perm_error + PermissionDecision" where
  "prompt_user env risk riskThreshold =
     (case xe_prompt env of
        None \<Rightarrow> Inl PrompterDisposed
      | Some r \<Rightarrow>
          if pm_decision r = UserDeny
          then Inr (permission False ''deny'' risk False
                 (no_opts\<lparr>po_wasTimeout := pm_wasTimeout r, po_wasSystemCancel := pm_wasSystemCancel r,
                          po_wasAbort := pm_wasAbort r\<rparr>) riskThreshold)
          else Inr (permission True ''allow'' risk True (no_opts\<lparr>po_wasPrompted := True\<rparr>) riskThreshold))"

text \<open>The branch of a prompt: the guardian's unattended session, no client, or the user.\<close>

definition prompt_branch ::
  "exec_env \<Rightarrow> ToolContext \<Rightarrow> ResolveChannelPermissionRequest option \<Rightarrow> RiskLevel \<Rightarrow> RiskThreshold \<Rightarrow> reader \<Rightarrow>
     (perm_error + PermissionDecision) \<times> reader" where
  "prompt_branch env ctx cellQuery risk riskThreshold s =
     (if tx_isInteractive ctx = Some False
      then
        (if canSelfApproveTools (resolveCapabilities (Some (tx_trustClass ctx))) \<and> \<not> tx_requireFreshApproval ctx
         then
           (case getAutoApproveThreshold (ce_ipc (te_check (xe_tool env))) (Some (tx_conversationId ctx)) (Some Background)
                   cellQuery (tx_requesterContactId ctx) s of
              (bgThreshold, s1) \<Rightarrow>
                if RISK_ORDINAL risk \<le> THRESHOLD_ORDINAL bgThreshold
                then (Inr (permission True ''guardian_auto_approve'' risk False no_opts bgThreshold), s1)
                else (Inr (permission False ''denied'' risk False no_opts riskThreshold), s1))
         else (Inr (permission False ''denied'' risk False no_opts riskThreshold), s))
      else (prompt_user env risk riskThreshold, s))"

definition checkPermission ::
  "exec_env \<Rightarrow> ToolContext \<Rightarrow> string \<Rightarrow> tool_input \<Rightarrow> RiskClassificationWithMeta option \<Rightarrow> reader \<Rightarrow>
     (perm_error + PermissionDecision) \<times> reader" where
  "checkPermission env ctx name input classification s =
     (case (case classification of Some c \<Rightarrow> Inr c | None \<Rightarrow> classifyRisk (te_check (xe_tool env))) of
        Inl e \<Rightarrow> (Inl (CheckFailed e), s)
      | Inr cls \<Rightarrow>
          let pc = Some (buildPolicyContext (xe_skillImprovement env) ctx); risk = rc_level cls
          in case check (te_check (xe_tool env)) name input (tx_workingDir ctx) pc False (Some cls) s of
               (Inl e, s1) \<Rightarrow> (Inl (CheckFailed e), s1)
             | (Inr result, s1) \<Rightarrow>
                 (case read_threshold (te_check (xe_tool env)) pc s1 of (riskThreshold, s2) \<Rightarrow>
                    let d = promote ctx name riskThreshold (pr_decision result)
                    in if d = Deny then (Inr (permission False ''denied'' risk False no_opts riskThreshold), s2)
                       else if tx_isInteractive ctx = Some False \<and> te_dynamicLoad (xe_tool env) name input \<and>
                               rc_matchType cls \<noteq> ''user_rule''
                       then (Inr (permission False ''denied'' risk False no_opts riskThreshold), s2)
                       else if d = Prompt \<and> tx_isPlatformHosted ctx \<and> name = ''bash'' \<and>
                               canSelfApproveTools (resolveCapabilities (Some (tx_trustClass ctx))) \<and>
                               \<not> tx_requireFreshApproval ctx
                       then (Inr (permission True ''platform_auto_approve'' risk False no_opts riskThreshold), s2)
                       else if d = Prompt
                       then prompt_branch env ctx (buildChannelPermissionCellQuery pc) risk riskThreshold s2
                       else (Inr (permission True ''allow'' risk False
                               (no_opts\<lparr>po_hasSandboxAutoApprove := pr_hasSandboxAutoApprove result\<rparr>) riskThreshold), s2)))"

section \<open>Name aliases\<close>

definition renameInputKey :: "string \<Rightarrow> string \<Rightarrow> tool_input \<Rightarrow> tool_input" where
  "renameInputKey from_key to_key input =
     (case map_of input from_key of
        None \<Rightarrow> input
      | Some v \<Rightarrow>
          if map_of input to_key \<noteq> None then input
          else filter (\<lambda>(k, _). k \<noteq> from_key) input @ [(to_key, v)])"

text \<open>The normalizer of the legacy key tool is an argument.\<close>

definition TOOL_NAME_ALIASES :: "(tool_input \<Rightarrow> tool_input) \<Rightarrow> (string \<times> string \<times> (tool_input \<Rightarrow> tool_input)) list" where
  "TOOL_NAME_ALIASES pressKey =
     [(''create_app'', ''app_create'', \<lambda>i. i),
      (''computer_use_press_key'', ''computer_use_key'', pressKey),
      (''read_file'', ''file_read'', renameInputKey ''file_path'' ''path''),
      (''read'', ''file_read'', renameInputKey ''file_path'' ''path''),
      (''cat'', ''file_read'', renameInputKey ''file_path'' ''path''),
      (''fs_read'', ''file_read'', renameInputKey ''file_path'' ''path''),
      (''workspace_read'', ''file_read'', renameInputKey ''file_path'' ''path''),
      (''list_files'', ''file_list'', renameInputKey ''directory'' ''path''),
      (''list_directory'', ''file_list'', renameInputKey ''directory'' ''path''),
      (''shell'', ''bash'', renameInputKey ''cmd'' ''command''),
      (''exec'', ''bash'', renameInputKey ''cmd'' ''command'')]"

definition resolveToolInvocationAlias ::
  "(tool_input \<Rightarrow> tool_input) \<Rightarrow> string \<Rightarrow> tool_input \<Rightarrow> string list option \<Rightarrow> string \<times> tool_input" where
  "resolveToolInvocationAlias pressKey name input allowed =
     (if (case allowed of None \<Rightarrow> False | Some ns \<Rightarrow> name \<in> set ns) then (name, input)
      else
        case map_of (TOOL_NAME_ALIASES pressKey) name of
          None \<Rightarrow> (name, input)
        | Some (canonical, adapt) \<Rightarrow>
            if (case allowed of None \<Rightarrow> False | Some ns \<Rightarrow> canonical \<notin> set ns) then (name, input)
            else (canonical, adapt input))"

section \<open>The executor\<close>

text \<open>The invocations whose capability manifest asks for a fresh approval.\<close>

definition workflow_consent :: "exec_env \<Rightarrow> string \<Rightarrow> tool_input \<Rightarrow> bool" where
  "workflow_consent env name input =
     (name = ''run_workflow'' \<and> xe_grantsSideEffects env (map_of input ''capabilities'') \<or>
      name = ''schedule_create'' \<and> map_of input ''mode'' = Some (JStr ''workflow'') \<and>
        xe_grantsSideEffects env (map_of input ''capabilities'') \<or>
      name = ''manage_workflows'' \<and> map_of input ''action'' = Some (JStr ''resume'') \<and>
        (case map_of input ''run_id'' of
           Some (JStr i) \<Rightarrow>
             if i = [] then False
             else (case xe_ownedRunCapabilities env i of None \<Rightarrow> False | Some caps \<Rightarrow> xe_grantsSideEffects env caps)
         | _ \<Rightarrow> False))"

datatype authorization = ByGrant ScopedApprovalGrant | ByPermission PermissionDecision

datatype exec_outcome =
    BlockedByGate gate_denial
  | BlockedByPermission PermissionDecision
  | FailedPermission perm_error
  | RunTool Tool tool_input authorization

text \<open>The input that runs, its classification and the context of the permission check.\<close>

definition known_classification ::
  "exec_env \<Rightarrow> tool_input \<Rightarrow> tool_input option \<Rightarrow> RiskClassificationWithMeta option" where
  "known_classification env input parsed =
     (case classifyRisk (xe_early env) of
        Inl _ \<Rightarrow> None
      | Inr c \<Rightarrow> (case parsed of None \<Rightarrow> Some c | Some i \<Rightarrow> if i \<noteq> input then None else Some c))"

definition invocation_context :: "exec_env \<Rightarrow> ToolContext \<Rightarrow> string \<Rightarrow> tool_input \<Rightarrow> ToolContext" where
  "invocation_context env ctx name input =
     (if workflow_consent env name input then ctx\<lparr>tx_requireFreshApproval := True\<rparr> else ctx)"

definition authorizeInvocation ::
  "exec_env \<Rightarrow> ToolContext \<Rightarrow> string \<Rightarrow> tool_input \<Rightarrow> gate_state \<Rightarrow> (exec_outcome \<times> gate_state) option" where
  "authorizeInvocation env ctx name input st =
     (case checkPreExecutionGates (xe_tool env) ctx name input st of
        None \<Rightarrow> None
      | Some (GateDenied denial, st1) \<Rightarrow> Some (BlockedByGate denial, st1)
      | Some (GateAllowed tool grant parsed, st1) \<Rightarrow>
          let input1 = (case parsed of None \<Rightarrow> input | Some i \<Rightarrow> i);
              ctx1 = invocation_context env ctx name input1
          in if grant = None \<or> tx_requireFreshApproval ctx1
             then
               (case checkPermission env ctx1 name input1 (known_classification env input parsed) (gs_reader st1) of (p, s2) \<Rightarrow>
                  (case p of
                     Inl e \<Rightarrow> Some (FailedPermission e, st1\<lparr>gs_reader := s2\<rparr>)
                   | Inr d \<Rightarrow>
                       if pd_allowed d then Some (RunTool tool input1 (ByPermission d), st1\<lparr>gs_reader := s2\<rparr>)
                       else Some (BlockedByPermission d, st1\<lparr>gs_reader := s2\<rparr>)))
             else Some (RunTool tool input1 (ByGrant (the grant)), st1))"

definition execute ::
  "exec_env \<Rightarrow> (tool_input \<Rightarrow> tool_input) \<Rightarrow> ToolContext \<Rightarrow> string \<Rightarrow> tool_input \<Rightarrow> gate_state \<Rightarrow>
     (exec_outcome \<times> gate_state) option" where
  "execute env pressKey ctx name input st =
     (case resolveToolInvocationAlias pressKey name input (tx_allowedToolNames ctx) of
        (name1, input1) \<Rightarrow> authorizeInvocation env ctx name1 input1 st)"

section \<open>Lemmas\<close>

definition unattended :: "ToolContext \<Rightarrow> bool" where
  "unattended ctx = (tx_isInteractive ctx = Some False)"

definition owner_session :: "ToolContext \<Rightarrow> bool" where
  "owner_session ctx = (tx_trustClass ctx = ''guardian'')"

definition user_approved :: "exec_env \<Rightarrow> ToolContext \<Rightarrow> bool" where
  "user_approved env ctx = (\<not> unattended ctx \<and> (\<exists>r. xe_prompt env = Some r \<and> pm_decision r = UserAllow))"

definition turn_of :: "exec_env \<Rightarrow> ToolContext \<Rightarrow> PolicyContext option" where
  "turn_of env ctx = Some (buildPolicyContext (xe_skillImprovement env) ctx)"

definition fresh_required :: "exec_env \<Rightarrow> ToolContext \<Rightarrow> string \<Rightarrow> tool_input \<Rightarrow> bool" where
  "fresh_required env ctx name input = (tx_requireFreshApproval ctx \<or> workflow_consent env name input)"

lemma self_approval_guardian [simp]:
  "canSelfApproveTools (resolveCapabilities (Some (tx_trustClass ctx))) = owner_session ctx"
  by (auto simp: owner_session_def resolveCapabilities_def isTrustClass_def GUARDIAN_CAPABILITIES_def
      CONTACT_CAPABILITIES_def UNKNOWN_CAPABILITIES_def)

lemma invocation_context_simps [simp]:
  "tx_requireFreshApproval (invocation_context env ctx name input) = fresh_required env ctx name input"
  "turn_of env (invocation_context env ctx name input) = turn_of env ctx"
  "tx_isInteractive (invocation_context env ctx name input) = tx_isInteractive ctx"
  "tx_workingDir (invocation_context env ctx name input) = tx_workingDir ctx"
  "tx_isPlatformHosted (invocation_context env ctx name input) = tx_isPlatformHosted ctx"
  "tx_forcePromptSideEffects (invocation_context env ctx name input) = tx_forcePromptSideEffects ctx"
  "owner_session (invocation_context env ctx name input) = owner_session ctx"
  "user_approved env (invocation_context env ctx name input) = user_approved env ctx"
  "unattended (invocation_context env ctx name input) = unattended ctx"
  by (simp_all add: invocation_context_def fresh_required_def turn_of_def buildPolicyContext_def deriveExecutionContext_def
      channelCoordinatesFromToolContext_def owner_session_def user_approved_def unattended_def)

lemma authorize_run:
  assumes "authorizeInvocation env ctx name input st = Some (RunTool tool input' auth, st')"
  obtains grant parsed st1 where
    "checkPreExecutionGates (xe_tool env) ctx name input st = Some (GateAllowed tool grant parsed, st1)"
    "input' = (case parsed of None \<Rightarrow> input | Some i \<Rightarrow> i)" "gs_grants st' = gs_grants st1"
    "(\<exists>g. auth = ByGrant g \<and> grant = Some g \<and> \<not> fresh_required env ctx name input') \<or>
     (\<exists>d. auth = ByPermission d \<and> pd_allowed d \<and>
        checkPermission env (invocation_context env ctx name input') name input' (known_classification env input parsed)
          (gs_reader st1) = (Inr d, gs_reader st'))"
proof -
  from assms obtain r st1 where g: "checkPreExecutionGates (xe_tool env) ctx name input st = Some (r, st1)"
    by (cases "checkPreExecutionGates (xe_tool env) ctx name input st") (auto simp: authorizeInvocation_def)
  from assms g obtain t grant parsed where r: "r = GateAllowed t grant parsed"
    by (cases r) (auto simp: authorizeInvocation_def)
  let ?input = "case parsed of None \<Rightarrow> input | Some i \<Rightarrow> i"
  obtain p s2 where p: "checkPermission env (invocation_context env ctx name ?input) name ?input
      (known_classification env input parsed) (gs_reader st1) = (p, s2)" by force
  show thesis
  proof (cases "grant = None \<or> fresh_required env ctx name ?input")
    case True
    with assms g r p obtain d where "p = Inr d" "pd_allowed d" "t = tool" "input' = ?input" "auth = ByPermission d"
      "st' = st1\<lparr>gs_reader := s2\<rparr>"
      by (cases p) (auto simp: authorizeInvocation_def Let_def split: if_splits)
    with that [of grant parsed st1] g r p show thesis by simp
  next
    case False
    with assms g r have "t = tool" "input' = ?input" "auth = ByGrant (the grant)" "st' = st1"
      by (auto simp: authorizeInvocation_def Let_def)
    with that [of grant parsed st1] g r False show thesis by auto
  qed
qed

lemma background_read:
  assumes "unattended ctx" "owner_session ctx"
  shows "getAutoApproveThreshold (ce_ipc ce) (Some (tx_conversationId ctx)) (Some Background)
      (buildChannelPermissionCellQuery (turn_of env ctx)) (tx_requesterContactId ctx) s = read_threshold ce (turn_of env ctx) s"
  using assms by (simp add: read_threshold_def turn_of_def buildPolicyContext_def deriveExecutionContext_def unattended_def owner_session_def)

lemma enforced_earlier: "enforced ge h L s1 s2 pc t \<Longrightarrow> clock ge s \<le> clock ge s1 \<Longrightarrow> enforced ge h L s s2 pc t"
  unfolding enforced_def [of _ _ _ s1] by (elim exE conjE) (rule enforcedI, auto simp: recent_def)

text \<open>The runs of a checked prompt.\<close>

lemma prompt_allowed:
  assumes "prompt_branch env ctx q risk threshold s = (Inr d, s')" "pd_allowed d"
  obtains "user_approved env ctx"
    | t where "unattended ctx" "owner_session ctx" "\<not> tx_requireFreshApproval ctx"
        "getAutoApproveThreshold (ce_ipc (te_check (xe_tool env))) (Some (tx_conversationId ctx)) (Some Background) q
           (tx_requesterContactId ctx) s = (t, s')"
        "isRiskWithinThreshold risk (Some t)"
proof (cases "unattended ctx")
  case False
  with assms have "user_approved env ctx"
    by (auto simp: prompt_branch_def prompt_user_def unattended_def user_approved_def permission_def
        split: option.splits if_splits UserDecision.splits) (metis UserDecision.exhaust)
  then show thesis by (rule that(1))
next
  case True
  obtain t s1 where t: "getAutoApproveThreshold (ce_ipc (te_check (xe_tool env))) (Some (tx_conversationId ctx)) (Some Background) q
      (tx_requesterContactId ctx) s = (t, s1)" by force
  from assms True t have "owner_session ctx \<and> \<not> tx_requireFreshApproval ctx \<and> s1 = s' \<and> RISK_ORDINAL risk \<le> THRESHOLD_ORDINAL t"
    by (auto simp: prompt_branch_def unattended_def permission_def split: if_splits)
  then show thesis using True t that(2) [of t] by (simp add: isRiskWithinThreshold_def)
qed

text \<open>What an allowed permission rests on, beside an approval by the user.\<close>

definition rests_on ::
  "exec_env \<Rightarrow> (int \<Rightarrow> threshold_db) \<Rightarrow> int \<Rightarrow> ToolContext \<Rightarrow> string \<Rightarrow> tool_input \<Rightarrow> RiskClassificationWithMeta \<Rightarrow>
     reader \<Rightarrow> reader \<Rightarrow> bool" where
  "rests_on env h L ctx name input cls s s' =
     (let ge = ce_ipc (te_check (xe_tool env)); pc = turn_of env ctx
      in (unattended ctx \<and> te_dynamicLoad (xe_tool env) name input \<longrightarrow> rc_matchType cls = ''user_rule'') \<and>
         (tx_requireFreshApproval ctx \<longrightarrow> enforced ge h L s s' pc THigh) \<and>
         (tx_forcePromptSideEffects ctx \<and> isSideEffectTool name \<longrightarrow> owner_session ctx) \<and>
         (isRetrospectiveSkillAuthoringGrant name input pc \<or>
          tx_isPlatformHosted ctx \<and> name = ''bash'' \<and> owner_session ctx \<or>
          (\<exists>t. enforced ge h L s s' pc t \<and>
             (isRiskWithinThreshold (rc_level cls) (Some t) \<or>
              name = ''bash'' \<and> rc_sandboxAutoApprove cls = Some True \<and> t \<noteq> TNone))))"

lemma checkPermission_allowed:
  assumes g: "reachable_gateway (ce_ipc (te_check (xe_tool env))) h L" and ok: "caches_honest (ce_ipc (te_check (xe_tool env))) h L s"
    and c: "checkPermission env ctx name input classification s = (Inr d, s')" and allowed: "pd_allowed d"
  shows "user_approved env ctx \<or>
    (\<exists>cls. (classification = Some cls \<or> classification = None \<and> classifyRisk (te_check (xe_tool env)) = Inr cls) \<and>
       rests_on env h L ctx name input cls s s')"
proof (cases "user_approved env ctx")
  case False
  let ?ce = "te_check (xe_tool env)" and ?pc = "turn_of env ctx"
  obtain cls where cls: "(case classification of Some c \<Rightarrow> Inr c | None \<Rightarrow> classifyRisk ?ce) = Inr cls"
    using c by (auto simp: checkPermission_def split: sum.splits)
  obtain result s1 where ck: "check ?ce name input (tx_workingDir ctx) ?pc False (Some cls) s = (Inr result, s1)"
    using c cls by (auto simp: checkPermission_def turn_of_def Let_def split: sum.splits prod.splits)
  obtain rt s2 where rt: "read_threshold ?ce ?pc s1 = (rt, s2)" by force
  have 1: "settled (ce_ipc ?ce) h L s s1" by (rule check_settled [OF g ok ck])
  have 2: "settled (ce_ipc ?ce) h L s1 s2" by (rule read_threshold_settled [OF g settled_honest [OF 1] rt])
  have le: "clock (ce_ipc ?ce) s \<le> clock (ce_ipc ?ce) s1" "clock (ce_ipc ?ce) s1 \<le> clock (ce_ipc ?ce) s2"
    using 1 2 by (simp_all add: settled_def)
  have enf: "enforced (ce_ipc ?ce) h L s s2 ?pc rt"
    using read_threshold_enforced [OF g settled_honest [OF 1] rt] le(1) by (blast intro: enforced_earlier)
  let ?d = "promote ctx name rt (pr_decision result)"
  let ?dynamic = "unattended ctx \<and> te_dynamicLoad (xe_tool env) name input \<and> rc_matchType cls \<noteq> ''user_rule''"
  let ?platform = "?d = Prompt \<and> tx_isPlatformHosted ctx \<and> name = ''bash'' \<and> owner_session ctx \<and> \<not> tx_requireFreshApproval ctx"
  note run = c [unfolded checkPermission_def cls [unfolded turn_of_def] sum.case Let_def, folded turn_of_def, unfolded ck rt prod.case sum.case]
  have free: "?d \<noteq> Deny" "\<not> ?dynamic"
    using run allowed by (auto simp: permission_def unattended_def split: if_splits)
  have "rests_on env h L ctx name input cls s s'"
  proof (cases "?platform")
    case True
    then have "tx_requireFreshApproval ctx = False" by simp
    with True free show ?thesis by (auto simp: rests_on_def Let_def)
  next
    case np: False
    show ?thesis
    proof (cases "?d = Prompt")
      case True
      with run free np have b: "prompt_branch env ctx (buildChannelPermissionCellQuery ?pc) (rc_level cls) rt s2 = (Inr d, s')"
        by (auto simp: unattended_def)
      from b allowed show ?thesis
      proof (cases rule: prompt_allowed)
        case 1
        with False show ?thesis by simp
      next
        case (2 t)
        have r: "read_threshold ?ce ?pc s2 = (t, s')" using 2(4) background_read [OF 2(1,2)] by simp
        have "enforced (ce_ipc ?ce) h L s s' ?pc t"
          using read_threshold_enforced [OF g settled_honest [OF \<open>settled (ce_ipc ?ce) h L s1 s2\<close>] r] le
          by (blast intro: enforced_earlier order_trans)
        with 2 free show ?thesis by (auto simp: rests_on_def Let_def)
      qed
    next
      case nprompt: False
      with run free np have s': "s' = s2" by (auto simp: unattended_def split: if_splits)
      have d: "?d = Allow" using nprompt free(1) by (cases ?d) auto
      have pr: "pr_decision result = Allow" "\<not> (tx_forcePromptSideEffects ctx \<and> isSideEffectTool name)"
        "tx_requireFreshApproval ctx \<longrightarrow> rt = THigh"
        using d by (auto simp: promote_def Let_def isFullAccessThreshold_def split: if_splits)
      have "isRetrospectiveSkillAuthoringGrant name input ?pc \<or> (\<exists>t. enforced (ce_ipc ?ce) h L s s' ?pc t \<and>
             (isRiskWithinThreshold (rc_level cls) (Some t) \<or> name = ''bash'' \<and> rc_sandboxAutoApprove cls = Some True \<and> t \<noteq> TNone))"
        using check_allow_core [OF g ok ck pr(1)] enforced_wider [OF _ le(2)] s' by blast
      with pr(2,3) enf s' free(2) show ?thesis by (auto simp: rests_on_def Let_def)
    qed
  qed
  with cls show ?thesis by (auto split: option.splits)
qed simp

text \<open>A classification that was made for the input that runs, and its sandboxed paths.\<close>

definition classified :: "exec_env \<Rightarrow> tool_input \<Rightarrow> tool_input \<Rightarrow> RiskClassificationWithMeta \<Rightarrow> bool" where
  "classified env input input' cls =
     (\<exists>e. (e = te_check (xe_tool env) \<or> e = xe_early env \<and> input' = input) \<and> classifyRisk e = Inr cls \<and>
        (rc_sandboxAutoApprove cls = Some True \<longrightarrow>
           (\<forall>ps. rc_sandboxPathArgs cls = Some ps \<longrightarrow>
              (\<forall>p \<in> set ps. isPathWithinWorkspaceRoot (ce_fs e) p (ce_workspaceDir e)))))"

lemma known_classified:
  assumes "known_classification env input parsed = Some cls"
  shows "classified env input (case parsed of None \<Rightarrow> input | Some i \<Rightarrow> i) cls"
  using assms classifyRisk_paths [of "xe_early env"]
  by (auto simp: known_classification_def classified_def split: sum.splits option.splits if_splits)

lemma check_classified: "classifyRisk (te_check (xe_tool env)) = Inr cls \<Longrightarrow> classified env input input' cls"
  unfolding classified_def using classifyRisk_paths by blast

lemma rests_on_earlier:
  assumes "rests_on env h L ctx name input cls s s'" "clock (ce_ipc (te_check (xe_tool env))) s0 \<le> clock (ce_ipc (te_check (xe_tool env))) s"
  shows "rests_on env h L ctx name input cls s0 s'"
  using assms enforced_earlier [OF _ assms(2)] unfolding rests_on_def Let_def by blast

lemma gate_returns:
  assumes "\<forall>n. po_clock (te_polling env) n + 1 \<le> po_clock (te_polling env) (Suc n)"
    and "\<forall>n. po_clock (iw_polling (te_wait env)) n + 1 \<le> po_clock (iw_polling (te_wait env)) (Suc n)"
  shows "\<exists>r. checkPreExecutionGates env ctx name input st = Some r"
proof -
  have g: "\<exists>r. grant_gate env ctx d p tool parsed tbl = Some r" for d p tool parsed tbl
  proof -
    obtain r t where c: "consumeGrantForInvocation (te_polling env) p (if tx_executionChannel ctx = Some ''phone'' then None else Some 0) tbl
        = Some (r, t)"
      using invocation_returns [OF assms(1)] by (metis surj_pair)
    obtain o' u where w: "waitForInlineGrant (te_wait env) p t = Some (o', u)"
      unfolding waitForInlineGrant_def using wait_returns [OF assms(2)] by (metis surj_pair)
    show ?thesis
    proof (cases r)
      case (Inl e)
      then show ?thesis by (cases e; cases o') (simp_all add: grant_gate_def c w)
    qed (simp add: grant_gate_def c)
  qed
  show ?thesis
    unfolding checkPreExecutionGates_def
    by (simp only: split: prod.split sum.split if_split) (simp add: g del: split_paired_Ex)
qed

lemma decode_all_funpow: "decode_all ((decode_percent ^^ k) s) = decode_all s"
proof (induction k)
  case (Suc k)
  have "decode_all (decode_percent t) = decode_all t" for t
    by (cases "decode_percent t = t") (simp_all add: decode_all.simps [of t] Let_def)
  with Suc show ?case by simp
qed simp

lemma decoded_seen: "containsVerificationEndpointPath ((decode_percent ^^ k) v) = containsVerificationEndpointPath v"
  by (simp add: containsVerificationEndpointPath_def normalizeForMatching_def decode_all_funpow)

lemma control_plane_guardian:
  assumes "authorizeInvocation env ctx name input st = Some (RunTool tool input' auth, st')"
    and "isVerificationControlPlaneInvocation name input"
  shows "tx_trustClass ctx = ''guardian''"
proof -
  obtain grant parsed st1 where g: "checkPreExecutionGates (xe_tool env) ctx name input st = Some (GateAllowed tool grant parsed, st1)"
    by (rule authorize_run [OF assms(1)])
  then have "\<not> controlPlaneDenied name input (tx_trustClass ctx)"
    by (auto simp: checkPreExecutionGates_def split: if_splits)
  with assms(2) have "canUseVerificationControlPlane (resolveCapabilities (Some (tx_trustClass ctx)))"
    by (simp add: controlPlaneDenied_def)
  then show ?thesis
    by (auto simp: resolveCapabilities_def isTrustClass_def CONTACT_CAPABILITIES_def UNKNOWN_CAPABILITIES_def split: if_splits)
qed

text \<open>The outcomes the permission check can record.\<close>

definition recorded :: "bool \<Rightarrow> bool \<Rightarrow> ApprovalMode \<times> ApprovalReason \<Rightarrow> bool" where
  "recorded allowed prompted pv =
     ((prompted \<longleftrightarrow> pv = (ModePrompted, UserApproved)) \<and> (prompted \<longrightarrow> allowed) \<and>
      (allowed \<and> \<not> prompted \<longleftrightarrow> fst pv = ModeAuto) \<and>
      (\<not> allowed \<longleftrightarrow> pv \<in> {(ModePrompted, UserDenied), (ModePrompted, TimedOut), (ModePrompted, SystemCancelled),
         (ModeBlocked, NoInteractiveClient)}))"

lemma recorded_permission:
  "recorded False False (pd_provenance (permission False ''denied'' r False no_opts t))"
  "recorded True False (pd_provenance (permission True ''platform_auto_approve'' r False no_opts t))"
  "recorded True False (pd_provenance (permission True ''guardian_auto_approve'' r False no_opts t))"
  "recorded True True (pd_provenance (permission True ''allow'' r True (no_opts\<lparr>po_wasPrompted := True\<rparr>) t))"
  "recorded True False (pd_provenance (permission True ''allow'' r False (no_opts\<lparr>po_hasSandboxAutoApprove := b\<rparr>) t))"
  "recorded False False (pd_provenance (permission False ''deny'' r False
     (no_opts\<lparr>po_wasTimeout := w, po_wasSystemCancel := c, po_wasAbort := a\<rparr>) t))"
  by (simp_all add: recorded_def permission_def mapApprovalProvenance_def no_opts_def)

lemma permission_sel [simp]:
  "pd_allowed (permission a d r p o' t) = a" "pd_wasPrompted (permission a d r p o' t) = p"
  by (simp_all add: permission_def)

lemma prompt_branch_recorded:
  assumes "prompt_branch env ctx q risk threshold s = (Inr d, s')"
  shows "recorded (pd_allowed d) (pd_wasPrompted d) (pd_provenance d)"
  using assms
  by (auto simp: prompt_branch_def prompt_user_def recorded_permission split: if_splits option.splits prod.splits)

lemma checkPermission_recorded:
  assumes "checkPermission env ctx name input classification s = (Inr d, s')"
  shows "recorded (pd_allowed d) (pd_wasPrompted d) (pd_provenance d)"
  using assms prompt_branch_recorded
  by (auto simp: checkPermission_def Let_def recorded_permission split: if_splits sum.splits prod.splits)

lemma unattended_no_prompt:
  assumes "unattended ctx"
  shows "checkPermission (env\<lparr>xe_prompt := r\<rparr>) ctx name input classification s = checkPermission env ctx name input classification s"
proof -
  have "prompt_branch (env\<lparr>xe_prompt := r\<rparr>) ctx q risk t u = prompt_branch env ctx q risk t u" for q risk t u
    using assms by (simp add: prompt_branch_def unattended_def)
  moreover have "xe_tool (env\<lparr>xe_prompt := r\<rparr>) = xe_tool env" "xe_skillImprovement (env\<lparr>xe_prompt := r\<rparr>) = xe_skillImprovement env"
    by simp_all
  ultimately show ?thesis by (simp only: checkPermission_def cong del: sum.case_cong_weak prod.case_cong_weak if_weak_cong)
qed

section \<open>Properties\<close>

text \<open>C6: No threshold lifts the floor. An invocation by anyone but the guardian that reaches the host, a
  file outside the workspace, a surface the assistant executes from, code that is not vetted or a private
  network never runs without a grant: the run consumed a grant whose scope covers this tool, input and
  requester, unexpired when it was spent, recorded under this invocation -- whatever the contact's
  ceiling, the channel's cell, the permission check, the user's answer and other connections do.\<close>

theorem floored_run_needs_grant:
  assumes "authorizeInvocation env ctx name input st = Some (RunTool tool input' auth, st')"
    and "distinct (map gr_id (gs_grants st))" and "floored (xe_tool env) ctx name input" and "tx_trustClass ctx \<noteq> ''guardian''"
  shows "\<exists>g. granted (consume_params (xe_tool env) ctx name input) g (gs_grants st')"
proof -
  obtain grant parsed st1 where
    "checkPreExecutionGates (xe_tool env) ctx name input st = Some (GateAllowed tool grant parsed, st1)" "gs_grants st' = gs_grants st1"
    by (rule authorize_run [OF assms(1)])
  with gates_allowed [OF this(1) assms(2)] floored_decision [OF assms(3,4)] show ?thesis
    by (cases grant) auto
qed

text \<open>C13: What every run rests on. A tool runs on a consumed grant that covers it, and then no fresh approval was
  required; or on the user's approval of a prompt; or, without anyone being asked, on one of four grounds: a risk within a
  threshold the gateway's tables gave for this turn within the caches' lifetimes; for bash, the gateway's sandbox approval
  of the command under such a threshold other than none; for bash, the guardian's own session on a hosted
  platform, whatever the threshold; or the grant that a background retrospective has to write its skill, whatever the
  threshold. In all four cases a fresh approval is only skipped under full access, side effects marked for a
  prompt only in the guardian's own session, and a skill with inline commands only runs unattended under a user's rule.\<close>

theorem tool_run_authorised:
  assumes g: "reachable_gateway (ce_ipc (te_check (xe_tool env))) h L"
    and ok: "caches_honest (ce_ipc (te_check (xe_tool env))) h L (gs_reader st)"
    and d: "distinct (map gr_id (gs_grants st))"
    and run: "authorizeInvocation env ctx name input st = Some (RunTool tool input' auth, st')"
  shows "case auth of
      ByGrant gr \<Rightarrow> granted (consume_params (xe_tool env) ctx name input) gr (gs_grants st') \<and> \<not> fresh_required env ctx name input'
    | ByPermission p \<Rightarrow> user_approved env ctx \<or>
        (\<exists>cls. classified env input input' cls \<and>
           rests_on env h L (invocation_context env ctx name input') name input' cls (gs_reader st) (gs_reader st'))"
proof -
  let ?ge = "ce_ipc (te_check (xe_tool env))"
  obtain grant parsed st1 where gate: "checkPreExecutionGates (xe_tool env) ctx name input st = Some (GateAllowed tool grant parsed, st1)"
    and input': "input' = (case parsed of None \<Rightarrow> input | Some i \<Rightarrow> i)" and tbl: "gs_grants st' = gs_grants st1"
    and how: "(\<exists>g. auth = ByGrant g \<and> grant = Some g \<and> \<not> fresh_required env ctx name input') \<or>
     (\<exists>d. auth = ByPermission d \<and> pd_allowed d \<and>
        checkPermission env (invocation_context env ctx name input') name input' (known_classification env input parsed)
          (gs_reader st1) = (Inr d, gs_reader st'))"
    by (rule authorize_run [OF run])
  note passed = gates_allowed [OF gate d]
  have set1: "settled ?ge h L (gs_reader st) (gs_reader st1)"
    using passed sensitive_decision_settled [OF g ok] by (metis prod.collapse)
  from how show ?thesis
  proof (elim disjE exE conjE)
    fix gr assume "auth = ByGrant gr" "grant = Some gr" "\<not> fresh_required env ctx name input'"
    with passed tbl show ?thesis by simp
  next
    fix p assume p: "auth = ByPermission p" "pd_allowed p"
      and c: "checkPermission env (invocation_context env ctx name input') name input' (known_classification env input parsed)
          (gs_reader st1) = (Inr p, gs_reader st')"
    from checkPermission_allowed [OF g settled_honest [OF set1] c p(2)]
    have "user_approved env ctx \<or> (\<exists>cls. classified env input input' cls \<and>
        rests_on env h L (invocation_context env ctx name input') name input' cls (gs_reader st1) (gs_reader st'))"
      unfolding invocation_context_simps input' using known_classified check_classified by metis
    with p(1) set1 show ?thesis by (auto simp: settled_def intro: rests_on_earlier)
  qed
qed

text \<open>Encoding does not hide the verification control plane. A request whose URL or shell command names a
  verification endpoint after any number of rounds of percent-decoding only runs for the guardian.\<close>

theorem encoded_control_plane_blocked:
  assumes "authorizeInvocation env ctx name input st = Some (RunTool tool input' auth, st')"
    and "name \<in> {''bash'', ''host_bash''} \<and> map_of input ''command'' = Some (JStr v) \<or>
      name \<in> {''network_request'', ''web_fetch''} \<and> map_of input ''url'' = Some (JStr v)"
    and "containsVerificationEndpointPath ((decode_percent ^^ k) v)"
  shows "tx_trustClass ctx = ''guardian''"
proof (rule control_plane_guardian [OF assms(1)])
  from assms(3) have "containsVerificationEndpointPath v" by (simp add: decoded_seen)
  with assms(2) show "isVerificationControlPlaneInvocation name input"
    unfolding isVerificationControlPlaneInvocation_def by (elim disjE conjE) simp_all
qed

text \<open>C14: Every invocation is decided. When every wait lets at least a millisecond pass on its clock, the gates
  and the permission check end with a run, a denial or an error, whatever other connections do to the grants and
  whether or not a guardian answers.\<close>

theorem authorization_returns:
  assumes "\<forall>n. po_clock (te_polling (xe_tool env)) n + 1 \<le> po_clock (te_polling (xe_tool env)) (Suc n)"
    and "\<forall>n. po_clock (iw_polling (te_wait (xe_tool env))) n + 1 \<le> po_clock (iw_polling (te_wait (xe_tool env))) (Suc n)"
  shows "\<exists>outcome st'. execute env pressKey ctx name input st = Some (outcome, st')"
proof -
  have "\<exists>r. authorizeInvocation env ctx n i st = Some r" for n i
  proof -
    obtain r st1 where g: "checkPreExecutionGates (xe_tool env) ctx n i st = Some (r, st1)"
      using gate_returns [OF assms] by (metis surj_pair)
    show ?thesis
    proof (cases r)
      case (GateAllowed tool grant parsed)
      let ?i = "case parsed of None \<Rightarrow> i | Some i \<Rightarrow> i"
      obtain q s2 where "checkPermission env (invocation_context env ctx n ?i) n ?i (known_classification env i parsed) (gs_reader st1) = (q, s2)"
        by (metis surj_pair)
      with g GateAllowed show ?thesis by (cases q) (simp_all add: authorizeInvocation_def Let_def)
    qed (simp add: authorizeInvocation_def g)
  qed
  then have "\<exists>outcome st'. authorizeInvocation env ctx n i st = Some (outcome, st')" for n i by (metis surj_pair)
  then show ?thesis by (simp add: execute_def split: prod.split)
qed

text \<open>The recorded provenance is what happened: a call was prompted and approved exactly when it says so,
  it ran unasked exactly when the mode is automatic, and every refusal is recorded as the user's, a timeout, a
  cancellation or a missing client. An unattended session never depends on the prompter.\<close>

theorem provenance_faithful:
  assumes "checkPermission env ctx name input classification s = (Inr d, s')"
  shows "(pd_wasPrompted d \<longleftrightarrow> pd_provenance d = (ModePrompted, UserApproved)) \<and>
    (pd_allowed d \<and> \<not> pd_wasPrompted d \<longleftrightarrow> fst (pd_provenance d) = ModeAuto) \<and>
    (\<not> pd_allowed d \<longleftrightarrow> pd_provenance d \<in> {(ModePrompted, UserDenied), (ModePrompted, TimedOut), (ModePrompted, SystemCancelled),
       (ModeBlocked, NoInteractiveClient)}) \<and>
    (unattended ctx \<longrightarrow> checkPermission (env\<lparr>xe_prompt := r\<rparr>) ctx name input classification s = (Inr d, s'))"
proof (intro conjI)
  note r = checkPermission_recorded [OF assms, unfolded recorded_def]
  show "pd_wasPrompted d \<longleftrightarrow> pd_provenance d = (ModePrompted, UserApproved)" by (rule conjunct1 [OF r])
  show "pd_allowed d \<and> \<not> pd_wasPrompted d \<longleftrightarrow> fst (pd_provenance d) = ModeAuto" using r by (elim conjE)
  show "\<not> pd_allowed d \<longleftrightarrow> pd_provenance d \<in> {(ModePrompted, UserDenied), (ModePrompted, TimedOut), (ModePrompted, SystemCancelled),
       (ModeBlocked, NoInteractiveClient)}" using r by (elim conjE)
  show "unattended ctx \<longrightarrow> checkPermission (env\<lparr>xe_prompt := r\<rparr>) ctx name input classification s = (Inr d, s')"
    using unattended_no_prompt assms by simp
qed

section \<open>Witnesses\<close>

text \<open>A contact's host command with a grant stored for it.\<close>

definition demo_tool :: Tool where
  "demo_tool = \<lparr>tl_name = ''bash'', tl_executionTarget = Some HostTarget, tl_getExecutionTarget = None, tl_category = None\<rparr>"

definition demo_tool_env :: tool_env where
  "demo_tool_env = \<lparr>te_check = demo_check_env, te_tool = Some demo_tool, te_dirs = demo_dirs, te_dynamicLoad = (\<lambda>_ _. False),
     te_digest = (\<lambda>_ _. ''d1''), te_preexecId = ''r9'', te_profiles = (\<lambda>_. None), te_parse = (\<lambda>_ i. Inr (Some i)),
     te_polling = still_polling, te_escalated = True,
     te_wait = \<lparr>iw_polling = still_polling, iw_reading = quiet, iw_denied = (\<lambda>_. False), iw_maxWaitMs = 1000\<rparr>\<rparr>"

definition demo_exec_env :: exec_env where
  "demo_exec_env = \<lparr>xe_tool = demo_tool_env, xe_early = demo_check_env, xe_skillImprovement = False, xe_prompt = None,
     xe_grantsSideEffects = (\<lambda>_. False), xe_ownedRunCapabilities = (\<lambda>_. None)\<rparr>"

definition demo_tool_context :: "string \<Rightarrow> ToolContext" where
  "demo_tool_context trustClass =
     \<lparr>tx_conversationId = ''c1'', tx_workingDir = ''/ws'', tx_requestId = None, tx_assistantId = None, tx_isInteractive = Some False,
      tx_allowedToolNames = None, tx_diskPressureCleanupModeActive = False, tx_sendUserMessageActive = False,
      tx_forcePromptSideEffects = False, tx_requireFreshApproval = False, tx_trustClass = trustClass,
      tx_executionChannel = None, tx_requestOrigin = None, tx_callSessionId = None, tx_requesterExternalUserId = None,
      tx_requesterContactId = None, tx_channelPermissionChannelId = None, tx_channelConversationType = None,
      tx_isPlatformHosted = True, tx_aborted = False\<rparr>"

definition demo_state :: gate_state where
  "demo_state = \<lparr>gs_reader = empty_reader, gs_grants = demo_grants\<rparr>"

lemmas demo_exec_defs = demo_exec_env_def demo_tool_env_def demo_tool_def demo_tool_context_def demo_state_def

abbreviation demo_input :: tool_input where
  "demo_input \<equiv> [(''command'', JStr ''ls'')]"

lemma demo_params: "consume_params demo_tool_env (demo_tool_context tc) ''bash'' demo_input = demo_consume"
  by (simp add: consume_params_def demo_consume_def demo_exec_defs)

lemma demo_floored: "floored demo_tool_env (demo_tool_context tc) ''bash'' demo_input"
  by (simp add: floored_def sensitiveToolReach_def resolveExecutionTarget_def demo_exec_defs Let_def UI_SURFACE_TOOLS_def)

lemma demo_gate:
  "checkPreExecutionGates demo_tool_env (demo_tool_context ''trusted_contact'') ''bash'' demo_input demo_state =
     Some (GateAllowed demo_tool (Some demo_won) None,
       demo_state\<lparr>gs_grants := [grant_row (demo_mint None 500) ''g1'' 0, demo_won]\<rparr>)"
proof -
  let ?ctx = "demo_tool_context ''trusted_contact''"
  have app: "sensitiveToolApproval (resolveCapabilities (Some ''trusted_contact'')) = EscalateApproval"
    by (simp add: resolveCapabilities_def isTrustClass_def CONTACT_CAPABILITIES_def)
  have "sensitive_decision demo_tool_env ?ctx ''bash'' demo_input empty_reader = (EscalateAndWait, empty_reader)"
    by (simp add: sensitive_decision_def resolveApprovalCellThreshold_def sensitiveToolReach_def resolveExecutionTarget_def
        demo_exec_defs Let_def UI_SURFACE_TOOLS_def isOutOfWorkspaceFileInvocation_def PATH_SCOPED_TOOLS_def app
        getContactAutoApproveThreshold_def isContactCeilingLiftable_def isChannelLiftable_def resolveSensitiveToolDecision_def)
  moreover have "policy_gates demo_tool_env ?ctx ''bash'' demo_input = Inr (demo_tool, None)"
    by (simp add: policy_gates_def demo_exec_defs demo_check_env_def)
  moreover have "grant_gate demo_tool_env ?ctx EscalateAndWait demo_consume demo_tool None demo_grants =
      Some (GateAllowed demo_tool (Some demo_won) None, [grant_row (demo_mint None 500) ''g1'' 0, demo_won])"
    using demo_invocation by (simp add: grant_gate_def demo_tool_env_def)
  moreover have "\<not> controlPlaneDenied ''bash'' demo_input ''trusted_contact''" by code_simp
  ultimately show ?thesis
    by (simp add: checkPreExecutionGates_def demo_params demo_state_def isUnparseableToolArgs_def) (simp add: demo_tool_context_def)
qed

lemma demo_run:
  "authorizeInvocation demo_exec_env (demo_tool_context ''trusted_contact'') ''bash'' demo_input demo_state =
     Some (RunTool demo_tool demo_input (ByGrant demo_won),
       demo_state\<lparr>gs_grants := [grant_row (demo_mint None 500) ''g1'' 0, demo_won]\<rparr>)"
proof -
  have "xe_tool demo_exec_env = demo_tool_env" by (simp add: demo_exec_env_def)
  moreover have "\<not> fresh_required demo_exec_env (demo_tool_context ''trusted_contact'') ''bash'' demo_input"
    by (simp add: fresh_required_def workflow_consent_def demo_tool_context_def)
  ultimately show ?thesis by (simp add: authorizeInvocation_def demo_gate Let_def)
qed

lemma demo_state_grants: "distinct (map gr_id (gs_grants demo_state))"
  by (simp add: demo_state_def demo_grants_distinct)

theorem floored_run_needs_grant_witness:
  "\<exists>g. granted demo_consume g [grant_row (demo_mint None 500) ''g1'' 0, demo_won]"
proof -
  have x: "xe_tool demo_exec_env = demo_tool_env" by (simp add: demo_exec_env_def)
  have t: "tx_trustClass (demo_tool_context ''trusted_contact'') \<noteq> ''guardian''" by (simp add: demo_tool_context_def)
  from floored_run_needs_grant [OF demo_run demo_state_grants demo_floored [folded x] t] show ?thesis
    by (simp add: x demo_params)
qed

theorem encoded_control_plane_blocked_witness:
  "\<nexists>tool input' auth st'. authorizeInvocation demo_exec_env (demo_tool_context ''trusted_contact'') ''web_fetch''
     [(''url'', JStr ''http://h/v1/channel-verification%252Dsessions'')] demo_state = Some (RunTool tool input' auth, st')"
proof
  let ?u = "''http://h/v1/channel-verification%252Dsessions''"
  have seen: "containsVerificationEndpointPath ((decode_percent ^^ 2) ?u)" by code_simp
  assume "\<exists>tool input' auth st'. authorizeInvocation demo_exec_env (demo_tool_context ''trusted_contact'') ''web_fetch''
     [(''url'', JStr ?u)] demo_state = Some (RunTool tool input' auth, st')"
  then obtain tool input' auth st' where "authorizeInvocation demo_exec_env (demo_tool_context ''trusted_contact'') ''web_fetch''
     [(''url'', JStr ?u)] demo_state = Some (RunTool tool input' auth, st')" by blast
  from encoded_control_plane_blocked [OF this _ seen] have "tx_trustClass (demo_tool_context ''trusted_contact'') = ''guardian''" by simp
  then show False by (simp add: demo_tool_context_def)
qed

theorem authorization_returns_witness:
  "\<exists>outcome st'. execute demo_exec_env id (demo_tool_context ''trusted_contact'') ''shell'' [(''cmd'', JStr ''ls'')] demo_state = Some (outcome, st')"
  by (rule authorization_returns) (simp_all add: demo_exec_env_def demo_tool_env_def still_polling_def)

text \<open>The guardian's unattended command, allowed by the full access the tables give the conversation.\<close>

lemma demo_cls: "classifyRisk demo_check_env = Inr \<lparr>rc_level = LevelHigh, rc_reason = ''Recursive delete'', rc_matchType = ''registry'',
    rc_sandboxAutoApprove = None, rc_sandboxPathArgs = None\<rparr>"
  by (simp add: demo_check_env_def classifyRisk_def applyBashSymlinkEscapeCheck_def riskStringToLevel_def)

definition demo_owner :: ToolContext where
  "demo_owner = (demo_tool_context ''guardian'')\<lparr>tx_isInteractive := None\<rparr>"

lemma demo_owner_turn: "turn_cascade (\<lambda>t. demo_db) v k a b c (turn_of demo_exec_env demo_owner) = Some THigh"
  using demo_cascade(1)
  by (simp add: turn_cascade_def turn_of_def buildPolicyContext_def demo_owner_def demo_tool_context_def deriveExecutionContext_def
      channelCoordinatesFromToolContext_def buildChannelPermissionCellQuery_def cascade_def Let_def override_of_def context_of_def
      channel_says_def contact_says_def)

lemma demo_ipc: "ce_ipc (te_check (xe_tool demo_exec_env)) = steady_gateway demo_db"
  by (simp add: demo_exec_env_def demo_tool_env_def demo_check_env_def)

lemma demo_owner_checked:
  assumes "check demo_check_env ''bash'' demo_input ''/ws'' (turn_of demo_exec_env demo_owner) False (Some cls) s = (Inr r, s1)"
  shows "pr_decision r = Allow"
proof (rule full_access_core [OF _ demo_owner_turn assms])
  show "reachable_gateway (ce_ipc demo_check_env) (\<lambda>t. demo_db) 0" by (simp add: demo_check_env_def steady_reachable)
qed

lemma demo_owner_permitted:
  "\<exists>d s'. checkPermission demo_exec_env demo_owner ''bash'' demo_input (Some cls) s = (Inr d, s') \<and> pd_allowed d"
proof -
  have te: "te_check (xe_tool demo_exec_env) = demo_check_env" by (simp add: demo_exec_env_def demo_tool_env_def)
  obtain d0 s1 where dc: "decide demo_check_env ''bash'' demo_input ''/ws'' (turn_of demo_exec_env demo_owner) False cls s = (d0, s1)" by force
  have "\<not> isRetrospectiveSkillAuthoringGrant ''bash'' demo_input (turn_of demo_exec_env demo_owner)"
    by (simp add: isRetrospectiveSkillAuthoringGrant_def turn_of_def)
  with dc obtain r where ck: "check demo_check_env ''bash'' demo_input ''/ws'' (turn_of demo_exec_env demo_owner) False (Some cls) s = (Inr r, s1)"
    by (auto simp: check_def) (simp add: demo_check_env_def)
  obtain rt s2 where rt: "read_threshold demo_check_env (turn_of demo_exec_env demo_owner) s1 = (rt, s2)" by force
  have w: "tx_workingDir demo_owner = ''/ws''" "tx_isInteractive demo_owner = None" "\<not> tx_forcePromptSideEffects demo_owner"
    "\<not> tx_requireFreshApproval demo_owner"
    by (simp_all add: demo_owner_def demo_tool_context_def)
  show ?thesis
    using ck rt demo_owner_checked [OF ck]
    by (simp add: checkPermission_def Let_def te w turn_of_def [symmetric] promote_def)
qed

lemma demo_owner_run:
  "\<exists>d s'. authorizeInvocation demo_exec_env demo_owner ''bash'' demo_input demo_state = Some (RunTool demo_tool demo_input (ByPermission d), s')"
proof -
  have x: "xe_tool demo_exec_env = demo_tool_env" by (simp add: demo_exec_env_def)
  have "sensitive_decision demo_tool_env demo_owner ''bash'' demo_input empty_reader = (Proceed, empty_reader)"
    by (simp add: sensitive_decision_def resolveApprovalCellThreshold_def Let_def resolveCapabilities_def isTrustClass_def
        demo_owner_def demo_tool_context_def GUARDIAN_CAPABILITIES_def resolveSensitiveToolDecision_def)
  moreover have "policy_gates demo_tool_env demo_owner ''bash'' demo_input = Inr (demo_tool, None)"
    by (simp add: policy_gates_def demo_exec_defs demo_check_env_def demo_owner_def)
  moreover have "\<not> controlPlaneDenied ''bash'' demo_input ''guardian''" by code_simp
  ultimately have gate: "checkPreExecutionGates demo_tool_env demo_owner ''bash'' demo_input demo_state =
      Some (GateAllowed demo_tool None None, demo_state)"
    by (simp add: checkPreExecutionGates_def demo_state_def isUnparseableToolArgs_def) (simp add: demo_owner_def demo_tool_context_def)
  have "known_classification demo_exec_env demo_input None = Some \<lparr>rc_level = LevelHigh, rc_reason = ''Recursive delete'',
      rc_matchType = ''registry'', rc_sandboxAutoApprove = None, rc_sandboxPathArgs = None\<rparr>"
    using demo_cls by (simp add: known_classification_def demo_exec_env_def)
  moreover have "invocation_context demo_exec_env demo_owner ''bash'' demo_input = demo_owner"
    by (simp add: invocation_context_def workflow_consent_def)
  ultimately show ?thesis
    using demo_owner_permitted [of "\<lparr>rc_level = LevelHigh, rc_reason = ''Recursive delete'',
      rc_matchType = ''registry'', rc_sandboxAutoApprove = None, rc_sandboxPathArgs = None\<rparr>" "gs_reader demo_state"]
    by (elim exE conjE) (simp add: authorizeInvocation_def x gate Let_def)
qed

theorem tool_run_authorised_witness:
  "\<exists>d st' cls. authorizeInvocation demo_exec_env demo_owner ''bash'' demo_input demo_state =
       Some (RunTool demo_tool demo_input (ByPermission d), st') \<and> classified demo_exec_env demo_input demo_input cls \<and>
     rests_on demo_exec_env (\<lambda>t. demo_db) 0 demo_owner ''bash'' demo_input cls empty_reader (gs_reader st')"
proof -
  obtain d st' where run: "authorizeInvocation demo_exec_env demo_owner ''bash'' demo_input demo_state =
       Some (RunTool demo_tool demo_input (ByPermission d), st')"
    using demo_owner_run by blast
  have r: "gs_reader demo_state = empty_reader" by (simp add: demo_state_def)
  have "\<not> user_approved demo_exec_env demo_owner" by (simp add: user_approved_def demo_exec_env_def)
  moreover have "invocation_context demo_exec_env demo_owner ''bash'' demo_input = demo_owner"
    by (simp add: invocation_context_def workflow_consent_def)
  ultimately show ?thesis
    using tool_run_authorised [OF _ _ demo_state_grants run, unfolded demo_ipc r, OF steady_reachable empty_reader_honest] run
    by (simp only: authorization.case) blast
qed

theorem provenance_faithful_witness:
  "\<exists>d s'. checkPermission demo_exec_env demo_owner ''bash'' demo_input None empty_reader = (Inr d, s') \<and>
     pd_wasPrompted d = (pd_provenance d = (ModePrompted, UserApproved))"
proof -
  have "checkPermission demo_exec_env demo_owner ''bash'' demo_input None empty_reader =
      checkPermission demo_exec_env demo_owner ''bash'' demo_input (Some \<lparr>rc_level = LevelHigh, rc_reason = ''Recursive delete'',
      rc_matchType = ''registry'', rc_sandboxAutoApprove = None, rc_sandboxPathArgs = None\<rparr>) empty_reader"
    using demo_cls by (simp add: checkPermission_def demo_exec_env_def demo_tool_env_def)
  then obtain d s' where c: "checkPermission demo_exec_env demo_owner ''bash'' demo_input None empty_reader = (Inr d, s')"
    using demo_owner_permitted by metis
  from provenance_faithful [OF c] c show ?thesis by blast
qed

end
