(* ===== verification/Pairing_Challenges.thy ===== *)
theory Pairing_Challenges
  imports Prelude
begin

text \<open>
  The device-code pairing of a remote web client: the challenge store
  \<^verbatim>\<open>gateway/src/remote-web/pairing-challenge-store.ts\<close>, the creation of a challenge under its capacity
  check, and the token exchange of \<^verbatim>\<open>gateway/src/http/routes/remote-web-pairing-token.ts\<close>.

  \<^item> The two maps of the module share their challenge objects, which the operations mutate. The objects live
    in \<open>pg_heap\<close>, an address is an index of it, and both maps hold addresses; an object no map refers to
    any more stays in the heap.
  \<^item> The digest is the argument \<open>hash\<close>; the random device code, request id and user codes are arguments of
    the creation, the last as the sequence of draws. Dates are milliseconds, \<open>now\<close> an argument.
  \<^item> The exchange awaits between its claim and its end, so the token route is two steps of a transition
    relation over the store, with whatever other requests do in between.
\<close>

section \<open>Challenges\<close>

definition CODE_TTL_MS :: int where "CODE_TTL_MS = 10 * 60 * 1000"

definition MAX_ACTIVE_CHALLENGES :: nat where "MAX_ACTIVE_CHALLENGES = 200"

definition USER_CODE_ALPHABET :: string where "USER_CODE_ALPHABET = ''ABCDEFGHJKLMNPQRSTUVWXYZ23456789''"

definition POLL_INTERVAL_SECONDS :: nat where "POLL_INTERVAL_SECONDS = 5"

datatype challenge_status = Pending | Approved | Exchanging | ChallengeConsumed

record challenge =
  ch_id :: string
  ch_deviceCodeHash :: string
  ch_userCodeHash :: string
  ch_userCode :: string
  ch_publicBaseUrl :: string
  ch_verificationUri :: string
  ch_status :: challenge_status
  ch_createdAtMs :: int
  ch_expiresAtMs :: int
  ch_requesterIp :: string
  ch_requesterUserAgent :: "string option"
  ch_viaEdgeProxy :: bool
  ch_approvedAtMs :: "int option"
  ch_exchangeStartedAtMs :: "int option"
  ch_consumedAtMs :: "int option"

record pairing_store =
  pg_heap :: "challenge list"
  pg_byUser :: "(string, nat) jsmap"
  pg_byDevice :: "(string, nat) jsmap"

definition at_addr :: "pairing_store \<Rightarrow> nat \<Rightarrow> challenge" where
  "at_addr s a = pg_heap s ! a"

definition write_addr :: "pairing_store \<Rightarrow> nat \<Rightarrow> challenge \<Rightarrow> pairing_store" where
  "write_addr s a c = s\<lparr>pg_heap := (pg_heap s)[a := c]\<rparr>"

definition randomUserCode :: "nat list \<Rightarrow> string" where
  "randomUserCode draws =
     (let code = map (\<lambda>n. USER_CODE_ALPHABET ! n) draws in take 4 code @ ''-'' @ drop 4 code)"

definition code_char :: "char \<Rightarrow> bool" where
  "code_char c =
     (let n = of_char c :: nat in 48 \<le> n \<and> n \<le> 57 \<or> 65 \<le> n \<and> n \<le> 90 \<or> 97 \<le> n \<and> n \<le> 122)"

definition normalizeUserCode :: "string \<Rightarrow> string" where
  "normalizeUserCode code = map ascii_upper (filter code_char code)"

section \<open>The store\<close>

definition deleteChallenge :: "pairing_store \<Rightarrow> nat \<Rightarrow> pairing_store" where
  "deleteChallenge s a =
     s\<lparr>pg_byUser := jm_delete (pg_byUser s) (ch_userCodeHash (at_addr s a)),
       pg_byDevice := jm_delete (pg_byDevice s) (ch_deviceCodeHash (at_addr s a))\<rparr>"

definition cleanup_one :: "int \<Rightarrow> pairing_store \<Rightarrow> nat \<Rightarrow> pairing_store" where
  "cleanup_one now s a = (if ch_expiresAtMs (at_addr s a) \<le> now then deleteChallenge s a else s)"

definition cleanupExpiredChallenges :: "int \<Rightarrow> pairing_store \<Rightarrow> pairing_store" where
  "cleanupExpiredChallenges now s = foldl (cleanup_one now) s (map snd (pg_byUser s))"

text \<open>\<open>Some\<close> the seconds to wait when the store is full.\<close>

definition checkRemoteWebPairingChallengeCapacity :: "int \<Rightarrow> pairing_store \<Rightarrow> int option \<times> pairing_store" where
  "checkRemoteWebPairingChallengeCapacity now s =
     (let s1 = cleanupExpiredChallenges now s
      in if length (pg_byUser s1) < MAX_ACTIVE_CHALLENGES then (None, s1)
         else
           let earliest = Min (set (map (\<lambda>(_, a). ch_expiresAtMs (at_addr s1 a)) (pg_byUser s1)))
           in (Some (max 1 ((earliest - now + 999) div 1000)), s1))"

partial_function (option) draw_code ::
  "(string \<Rightarrow> string) \<Rightarrow> (nat \<Rightarrow> nat list) \<Rightarrow> nat \<Rightarrow> (string, nat) jsmap \<Rightarrow> (string \<times> string) option" where
  "draw_code hash draws n m =
     (let userCode = randomUserCode (draws n); userCodeHash = hash (normalizeUserCode userCode)
      in if jm_has m userCodeHash then draw_code hash draws (Suc n) m else Some (userCode, userCodeHash))"

record requester =
  rq_ip :: string
  rq_userAgent :: "string option"
  rq_viaEdgeProxy :: bool

record challenge_response =
  cp_deviceCode :: string
  cp_userCode :: string
  cp_verificationUri :: string
  cp_expiresAt :: int
  cp_expiresInSeconds :: int
  cp_intervalSeconds :: nat

definition new_challenge ::
  "(string \<Rightarrow> string) \<Rightarrow> string \<Rightarrow> requester \<Rightarrow> string \<Rightarrow> string \<Rightarrow> string \<Rightarrow> string \<Rightarrow> int \<Rightarrow> challenge" where
  "new_challenge hash publicBaseUrl rq deviceCode i userCode userCodeHash createdAtMs =
     \<lparr>ch_id = i, ch_deviceCodeHash = hash deviceCode, ch_userCodeHash = userCodeHash, ch_userCode = userCode,
      ch_publicBaseUrl = publicBaseUrl, ch_verificationUri = publicBaseUrl @ ''/assistant/pair'',
      ch_status = Pending, ch_createdAtMs = createdAtMs, ch_expiresAtMs = createdAtMs + CODE_TTL_MS,
      ch_requesterIp = rq_ip rq, ch_requesterUserAgent = rq_userAgent rq, ch_viaEdgeProxy = rq_viaEdgeProxy rq,
      ch_approvedAtMs = None, ch_exchangeStartedAtMs = None, ch_consumedAtMs = None\<rparr>"

text \<open>\<open>now\<close> is read by the cleanup and \<open>createdAtMs\<close> after the draws; \<open>None\<close> when they never end.\<close>

definition createRemoteWebPairingChallenge ::
  "(string \<Rightarrow> string) \<Rightarrow> string \<Rightarrow> requester \<Rightarrow> string \<Rightarrow> string \<Rightarrow> (nat \<Rightarrow> nat list) \<Rightarrow> int \<Rightarrow> int \<Rightarrow> pairing_store \<Rightarrow>
     (challenge_response \<times> pairing_store) option" where
  "createRemoteWebPairingChallenge hash publicBaseUrl rq deviceCode i draws now createdAtMs s =
     (let s1 = cleanupExpiredChallenges now s
      in case draw_code hash draws 0 (pg_byUser s1) of
           None \<Rightarrow> None
         | Some (userCode, userCodeHash) \<Rightarrow>
             let c = new_challenge hash publicBaseUrl rq deviceCode i userCode userCodeHash createdAtMs;
                 a = length (pg_heap s1)
             in Some (\<lparr>cp_deviceCode = deviceCode, cp_userCode = userCode, cp_verificationUri = ch_verificationUri c,
                       cp_expiresAt = ch_expiresAtMs c, cp_expiresInSeconds = (CODE_TTL_MS + 999) div 1000,
                       cp_intervalSeconds = POLL_INTERVAL_SECONDS\<rparr>,
                      \<lparr>pg_heap = pg_heap s1 @ [c], pg_byUser = jm_set (pg_byUser s1) userCodeHash a,
                       pg_byDevice = jm_set (pg_byDevice s1) (hash deviceCode) a\<rparr>))"

datatype approve_result = ApproveOk string int | ApproveExpired | ApproveInvalid

definition approveChallenge :: "int \<Rightarrow> nat \<Rightarrow> pairing_store \<Rightarrow> approve_result \<times> pairing_store" where
  "approveChallenge now a s =
     (let c = at_addr s a
      in if ch_status c = Exchanging \<or> ch_status c = ChallengeConsumed then (ApproveInvalid, s)
         else if ch_expiresAtMs c \<le> now then (ApproveExpired, deleteChallenge s a)
         else (ApproveOk (ch_verificationUri c) (ch_expiresAtMs c),
               write_addr s a (c\<lparr>ch_status := Approved, ch_approvedAtMs := Some now\<rparr>)))"

definition approveRemoteWebPairingChallenge ::
  "(string \<Rightarrow> string) \<Rightarrow> int \<Rightarrow> string \<Rightarrow> pairing_store \<Rightarrow> approve_result \<times> pairing_store" where
  "approveRemoteWebPairingChallenge hash now userCode s =
     (case jm_get (pg_byUser s) (hash (normalizeUserCode userCode)) of
        None \<Rightarrow> (ApproveInvalid, s)
      | Some a \<Rightarrow> approveChallenge now a s)"

definition findChallengeById :: "pairing_store \<Rightarrow> string \<Rightarrow> nat option" where
  "findChallengeById s i = find (\<lambda>a. ch_id (at_addr s a) = i) (map snd (pg_byUser s))"

definition approveRemoteWebPairingChallengeById :: "int \<Rightarrow> string \<Rightarrow> pairing_store \<Rightarrow> approve_result \<times> pairing_store" where
  "approveRemoteWebPairingChallengeById now i s =
     (case findChallengeById s i of None \<Rightarrow> (ApproveInvalid, s) | Some a \<Rightarrow> approveChallenge now a s)"

record request_summary =
  rs_requestId :: string
  rs_userCode :: string
  rs_publicBaseUrl :: string
  rs_requestedAt :: int
  rs_expiresAt :: int
  rs_requesterIp :: string
  rs_requesterUserAgent :: "string option"
  rs_viaEdgeProxy :: bool

definition summary_of :: "challenge \<Rightarrow> request_summary" where
  "summary_of c =
     \<lparr>rs_requestId = ch_id c, rs_userCode = ch_userCode c, rs_publicBaseUrl = ch_publicBaseUrl c,
      rs_requestedAt = ch_createdAtMs c, rs_expiresAt = ch_expiresAtMs c, rs_requesterIp = ch_requesterIp c,
      rs_requesterUserAgent = ch_requesterUserAgent c, rs_viaEdgeProxy = ch_viaEdgeProxy c\<rparr>"

definition listPendingRemoteWebPairingChallenges :: "int \<Rightarrow> pairing_store \<Rightarrow> request_summary list \<times> pairing_store" where
  "listPendingRemoteWebPairingChallenges now s =
     (let s1 = cleanupExpiredChallenges now s;
          pending = sort_key (\<lambda>c. - ch_createdAtMs c)
            (filter (\<lambda>c. ch_status c = Pending) (map (\<lambda>(_, a). at_addr s1 a) (pg_byUser s1)))
      in (map summary_of pending, s1))"

datatype deny_result = Denied | AlreadyApproved | DenyInvalid

definition denyRemoteWebPairingChallengeById :: "string \<Rightarrow> pairing_store \<Rightarrow> deny_result \<times> pairing_store" where
  "denyRemoteWebPairingChallengeById i s =
     (case findChallengeById s i of
        None \<Rightarrow> (DenyInvalid, s)
      | Some a \<Rightarrow>
          if ch_status (at_addr s a) \<noteq> Pending then (AlreadyApproved, s) else (Denied, deleteChallenge s a))"

section \<open>The exchange\<close>

datatype claim_result = ClaimApproved string string int | ClaimPending int nat | ClaimExpired | ClaimConsumed | ClaimInvalid

definition claimRemoteWebPairingChallengeExchange ::
  "(string \<Rightarrow> string) \<Rightarrow> int \<Rightarrow> string \<Rightarrow> pairing_store \<Rightarrow> claim_result \<times> pairing_store" where
  "claimRemoteWebPairingChallengeExchange hash now deviceCode s =
     (case jm_get (pg_byDevice s) (hash deviceCode) of
        None \<Rightarrow> (ClaimInvalid, s)
      | Some a \<Rightarrow>
          let c = at_addr s a
          in if ch_expiresAtMs c \<le> now then (ClaimExpired, deleteChallenge s a)
             else if ch_status c = Pending then (ClaimPending (ch_expiresAtMs c) POLL_INTERVAL_SECONDS, s)
             else if ch_status c = Exchanging then (ClaimPending (ch_expiresAtMs c) POLL_INTERVAL_SECONDS, s)
             else if ch_status c = ChallengeConsumed then (ClaimConsumed, s)
             else (ClaimApproved (ch_publicBaseUrl c) (ch_verificationUri c) (ch_expiresAtMs c),
                   write_addr s a (c\<lparr>ch_status := Exchanging, ch_exchangeStartedAtMs := Some now\<rparr>)))"

definition completeRemoteWebPairingChallengeExchange ::
  "(string \<Rightarrow> string) \<Rightarrow> int \<Rightarrow> string \<Rightarrow> pairing_store \<Rightarrow> pairing_store" where
  "completeRemoteWebPairingChallengeExchange hash now deviceCode s =
     (case jm_get (pg_byDevice s) (hash deviceCode) of
        None \<Rightarrow> s
      | Some a \<Rightarrow>
          if ch_status (at_addr s a) \<noteq> Exchanging then s
          else write_addr s a ((at_addr s a)\<lparr>ch_status := ChallengeConsumed, ch_consumedAtMs := Some now\<rparr>))"

definition releaseRemoteWebPairingChallengeExchange :: "(string \<Rightarrow> string) \<Rightarrow> string \<Rightarrow> pairing_store \<Rightarrow> pairing_store" where
  "releaseRemoteWebPairingChallengeExchange hash deviceCode s =
     (case jm_get (pg_byDevice s) (hash deviceCode) of
        None \<Rightarrow> s
      | Some a \<Rightarrow>
          if ch_status (at_addr s a) \<noteq> Exchanging then s
          else write_addr s a ((at_addr s a)\<lparr>ch_status := Approved, ch_exchangeStartedAtMs := None\<rparr>))"

text \<open>
  The routes over the store. \<open>sy_inflight\<close> holds the device codes of the token requests between their claim
  and their end, \<open>sy_minted\<close> the device codes a token pair was minted for, and \<open>sy_approvals\<close> records the
  addresses a host approval succeeded on.
\<close>

record pairing_sys =
  sy_store :: pairing_store
  sy_inflight :: "string list"
  sy_minted :: "string list"
  sy_approvals :: "nat list"

datatype token_response = TokenPending int nat | TokenInvalid | TokenExchanging

definition tokenClaim :: "(string \<Rightarrow> string) \<Rightarrow> int \<Rightarrow> string \<Rightarrow> pairing_sys \<Rightarrow> token_response \<times> pairing_sys" where
  "tokenClaim hash now deviceCode y =
     (case claimRemoteWebPairingChallengeExchange hash now deviceCode (sy_store y) of (r, s) \<Rightarrow>
        (case r of
           ClaimPending expiresAt interval \<Rightarrow> (TokenPending expiresAt interval, y\<lparr>sy_store := s\<rparr>)
         | ClaimInvalid \<Rightarrow> (TokenInvalid, y\<lparr>sy_store := s\<rparr>)
         | ClaimExpired \<Rightarrow> (TokenInvalid, y\<lparr>sy_store := s\<rparr>)
         | ClaimConsumed \<Rightarrow> (TokenInvalid, y\<lparr>sy_store := s\<rparr>)
         | ClaimApproved _ _ _ \<Rightarrow> (TokenExchanging, y\<lparr>sy_store := s, sy_inflight := deviceCode # sy_inflight y\<rparr>)))"

text \<open>The binding and the mint succeed, or one of them throws.\<close>

definition tokenEnd :: "(string \<Rightarrow> string) \<Rightarrow> int \<Rightarrow> string \<Rightarrow> bool \<Rightarrow> pairing_sys \<Rightarrow> pairing_sys" where
  "tokenEnd hash now deviceCode success y =
     (let y1 = y\<lparr>sy_inflight := remove1 deviceCode (sy_inflight y)\<rparr>
      in if success
         then y1\<lparr>sy_store := completeRemoteWebPairingChallengeExchange hash now deviceCode (sy_store y),
                 sy_minted := deviceCode # sy_minted y\<rparr>
         else y1\<lparr>sy_store := releaseRemoteWebPairingChallengeExchange hash deviceCode (sy_store y)\<rparr>)"

text \<open>The challenge route after its guards; \<open>None\<close> is the answer that the store is full.\<close>

definition createUnderCapacity ::
  "(string \<Rightarrow> string) \<Rightarrow> string \<Rightarrow> requester \<Rightarrow> string \<Rightarrow> string \<Rightarrow> (nat \<Rightarrow> nat list) \<Rightarrow> int \<Rightarrow> int \<Rightarrow> int \<Rightarrow> pairing_store \<Rightarrow>
     (challenge_response option \<times> pairing_store) option" where
  "createUnderCapacity hash publicBaseUrl rq deviceCode i draws now now' createdAtMs s =
     (case checkRemoteWebPairingChallengeCapacity now s of
        (Some _, s1) \<Rightarrow> Some (None, s1)
      | (None, s1) \<Rightarrow>
          map_option (\<lambda>(r, s2). (Some r, s2))
            (createRemoteWebPairingChallenge hash publicBaseUrl rq deviceCode i draws now' createdAtMs s1))"

definition log_approval :: "nat option \<Rightarrow> approve_result \<Rightarrow> nat list \<Rightarrow> nat list" where
  "log_approval a r log = (case r of ApproveOk _ _ \<Rightarrow> the a # log | _ \<Rightarrow> log)"

text \<open>The device code of a creation is 32 random bytes: the relation takes its digest to be new.\<close>

inductive pairing_step :: "(string \<Rightarrow> string) \<Rightarrow> pairing_sys \<Rightarrow> pairing_sys \<Rightarrow> bool" for hash where
  step_create: "createUnderCapacity hash url rq deviceCode i draws now now' created (sy_store y) = Some (r, s) \<Longrightarrow>
     hash deviceCode \<notin> set (map ch_deviceCodeHash (pg_heap (sy_store y))) \<Longrightarrow>
     pairing_step hash y (y\<lparr>sy_store := s\<rparr>)"
| step_approve_code: "approveRemoteWebPairingChallenge hash now code (sy_store y) = (r, s) \<Longrightarrow>
     pairing_step hash y (y\<lparr>sy_store := s, sy_approvals :=
       log_approval (jm_get (pg_byUser (sy_store y)) (hash (normalizeUserCode code))) r (sy_approvals y)\<rparr>)"
| step_approve_id: "approveRemoteWebPairingChallengeById now i (sy_store y) = (r, s) \<Longrightarrow>
     pairing_step hash y (y\<lparr>sy_store := s, sy_approvals :=
       log_approval (findChallengeById (sy_store y) i) r (sy_approvals y)\<rparr>)"
| step_deny: "denyRemoteWebPairingChallengeById i (sy_store y) = (r, s) \<Longrightarrow> pairing_step hash y (y\<lparr>sy_store := s\<rparr>)"
| step_list: "listPendingRemoteWebPairingChallenges now (sy_store y) = (r, s) \<Longrightarrow> pairing_step hash y (y\<lparr>sy_store := s\<rparr>)"
| step_claim: "tokenClaim hash now deviceCode y = (r, y') \<Longrightarrow> pairing_step hash y y'"
| step_end: "deviceCode \<in> set (sy_inflight y) \<Longrightarrow> pairing_step hash y (tokenEnd hash now deviceCode success y)"

definition pairing_init :: "pairing_sys \<Rightarrow> bool" where
  "pairing_init y = (y = \<lparr>sy_store = \<lparr>pg_heap = [], pg_byUser = [], pg_byDevice = []\<rparr>, sy_inflight = [],
     sy_minted = [], sy_approvals = []\<rparr>)"

section \<open>The maps agree\<close>

definition live :: "pairing_store \<Rightarrow> nat \<Rightarrow> bool" where
  "live s a = (a < length (pg_heap s) \<and> jm_get (pg_byUser s) (ch_userCodeHash (at_addr s a)) = Some a \<and>
     jm_get (pg_byDevice s) (ch_deviceCodeHash (at_addr s a)) = Some a)"

definition store_ok :: "pairing_store \<Rightarrow> bool" where
  "store_ok s =
     (jm_wf (pg_byUser s) \<and> jm_wf (pg_byDevice s) \<and> distinct (map ch_deviceCodeHash (pg_heap s)) \<and>
      (\<forall>k a. jm_get (pg_byUser s) k = Some a \<longrightarrow> live s a \<and> ch_userCodeHash (at_addr s a) = k) \<and>
      (\<forall>k a. jm_get (pg_byDevice s) k = Some a \<longrightarrow> live s a \<and> ch_deviceCodeHash (at_addr s a) = k))"

text \<open>What a deletion does: the objects stay, some live addresses are gone, the invariant is kept.\<close>

definition shrunk :: "pairing_store \<Rightarrow> pairing_store \<Rightarrow> bool" where
  "shrunk s t =
     (pg_heap t = pg_heap s \<and> store_ok t \<and> length (pg_byUser t) \<le> length (pg_byUser s) \<and>
      (\<forall>k a. jm_get (pg_byDevice t) k = Some a \<longrightarrow> jm_get (pg_byDevice s) k = Some a))"

lemma shrunk_refl: "store_ok s \<Longrightarrow> shrunk s s"
  by (simp add: shrunk_def)

lemma shrunk_trans: "shrunk s t \<Longrightarrow> shrunk t u \<Longrightarrow> shrunk s u"
  by (auto simp: shrunk_def)

lemma same_device:
  assumes "store_ok s" "live s a" "live s b" "ch_deviceCodeHash (at_addr s a) = ch_deviceCodeHash (at_addr s b)"
  shows "a = b"
  using assms by (simp add: live_def)

lemma same_user:
  assumes "live s a" "live s b" "ch_userCodeHash (at_addr s a) = ch_userCodeHash (at_addr s b)"
  shows "a = b"
  using assms by (simp add: live_def)

lemma live_delete:
  assumes "store_ok s" "live s a"
  shows "live (deleteChallenge s a) b \<longleftrightarrow> live s b \<and> b \<noteq> a"
  using assms by (auto simp: live_def deleteChallenge_def at_addr_def jm_get_delete)

lemma shrunk_delete:
  assumes ok: "store_ok s" and a: "live s a"
  shows "shrunk s (deleteChallenge s a)"
proof -
  let ?t = "deleteChallenge s a"
  have at: "at_addr ?t b = at_addr s b" for b by (simp add: at_addr_def deleteChallenge_def)
  have heap: "pg_heap ?t = pg_heap s" by (simp add: deleteChallenge_def)
  have u: "jm_get (pg_byUser ?t) k = (if k = ch_userCodeHash (at_addr s a) then None else jm_get (pg_byUser s) k)" for k
    by (simp add: deleteChallenge_def jm_get_delete)
  have d: "jm_get (pg_byDevice ?t) k = (if k = ch_deviceCodeHash (at_addr s a) then None else jm_get (pg_byDevice s) k)" for k
    by (simp add: deleteChallenge_def jm_get_delete)
  have wf: "jm_wf (pg_byUser ?t)" "jm_wf (pg_byDevice ?t)" "length (pg_byUser ?t) \<le> length (pg_byUser s)"
    using ok by (simp_all add: deleteChallenge_def store_ok_def)
  have ku: "live ?t b \<and> ch_userCodeHash (at_addr ?t b) = k" if g: "jm_get (pg_byUser ?t) k = Some b" for k b
  proof -
    from g u have "k \<noteq> ch_userCodeHash (at_addr s a)" "jm_get (pg_byUser s) k = Some b" by (simp_all split: if_splits)
    with ok have "live s b" "ch_userCodeHash (at_addr s b) = k" "b \<noteq> a" unfolding store_ok_def by blast+
    then show ?thesis by (simp add: live_delete [OF ok a] at)
  qed
  have kd: "live ?t b \<and> ch_deviceCodeHash (at_addr ?t b) = k" if g: "jm_get (pg_byDevice ?t) k = Some b" for k b
  proof -
    from g d have "k \<noteq> ch_deviceCodeHash (at_addr s a)" "jm_get (pg_byDevice s) k = Some b" by (simp_all split: if_splits)
    with ok have "live s b" "ch_deviceCodeHash (at_addr s b) = k" "b \<noteq> a" unfolding store_ok_def by blast+
    then show ?thesis by (simp add: live_delete [OF ok a] at)
  qed
  have "store_ok ?t" using wf ku kd ok heap unfolding store_ok_def by simp
  then show ?thesis using heap wf(3) d unfolding shrunk_def by (simp split: if_splits)
qed

lemma shrunk_cleanup_list:
  "store_ok s \<Longrightarrow> distinct as \<Longrightarrow> (\<And>a. a \<in> set as \<Longrightarrow> live s a) \<Longrightarrow> shrunk s (foldl (cleanup_one now) s as)"
proof (induction as arbitrary: s)
  case Nil
  then show ?case by (simp add: shrunk_refl)
next
  case (Cons a as)
  have step: "shrunk s (cleanup_one now s a)"
    using shrunk_delete [OF Cons.prems(1), of a] shrunk_refl [OF Cons.prems(1)] Cons.prems(3) by (simp add: cleanup_one_def)
  have "live (cleanup_one now s a) b" if "b \<in> set as" for b
    using that Cons.prems(2,3) live_delete [OF Cons.prems(1), of a b] by (auto simp: cleanup_one_def)
  with Cons.IH [of "cleanup_one now s a"] Cons.prems(2) step
  have "shrunk (cleanup_one now s a) (foldl (cleanup_one now) (cleanup_one now s a) as)" by (simp add: shrunk_def)
  with step show ?case by (simp add: shrunk_trans)
qed

lemma distinct_addresses:
  assumes "store_ok s"
  shows "distinct (map snd (pg_byUser s))"
proof -
  have wf: "jm_wf (pg_byUser s)" using assms by (simp add: store_ok_def)
  have "inj_on snd (set (pg_byUser s))"
  proof (rule inj_onI)
    fix x y
    assume xy: "x \<in> set (pg_byUser s)" "y \<in> set (pg_byUser s)" "snd x = snd y"
    have "jm_get (pg_byUser s) (fst z) = Some (snd z)" if "z \<in> set (pg_byUser s)" for z
      using in_set_jm_get [OF wf, of "fst z" "snd z"] that by simp
    with xy(1,2) assms xy(3) have "fst x = fst y" unfolding store_ok_def by metis
    with xy(3) show "x = y" by (simp add: prod_eq_iff)
  qed
  moreover have "distinct (pg_byUser s)" using wf by (simp add: jm_wf_def distinct_map)
  ultimately show ?thesis by (simp add: distinct_map)
qed

lemma listed_live:
  assumes "store_ok s" "a \<in> set (map snd (pg_byUser s))"
  shows "live s a"
proof -
  from assms(2) obtain k where "(k, a) \<in> set (pg_byUser s)" by auto
  then have "jm_get (pg_byUser s) k = Some a" using assms(1) in_set_jm_get [of "pg_byUser s" k a] by (simp add: store_ok_def)
  with assms(1) show ?thesis by (simp add: store_ok_def)
qed

lemma shrunk_cleanup: "store_ok s \<Longrightarrow> shrunk s (cleanupExpiredChallenges now s)"
  unfolding cleanupExpiredChallenges_def
  by (rule shrunk_cleanup_list) (simp_all add: distinct_addresses listed_live del: set_map)

lemma store_ok_write:
  assumes ok: "store_ok s" and a: "a < length (pg_heap s)"
    and c: "ch_deviceCodeHash c = ch_deviceCodeHash (at_addr s a)" "ch_userCodeHash c = ch_userCodeHash (at_addr s a)"
  shows "store_ok (write_addr s a c)"
proof -
  have at: "at_addr (write_addr s a c) b = (if b = a then c else at_addr s b)" if "b < length (pg_heap s)" for b
    using that by (simp add: at_addr_def write_addr_def)
  have live: "live (write_addr s a c) b \<longleftrightarrow> live s b" for b
    using at [of b] c by (cases "b < length (pg_heap s)") (auto simp: live_def write_addr_def)
  have "map ch_deviceCodeHash ((pg_heap s)[a := c]) = map ch_deviceCodeHash (pg_heap s)"
    using c(1) a by (simp add: map_update at_addr_def list_update_same_conv)
  then have "distinct (map ch_deviceCodeHash (pg_heap (write_addr s a c)))" using ok by (simp add: write_addr_def store_ok_def)
  moreover have "live s b \<Longrightarrow> ch_userCodeHash (at_addr (write_addr s a c) b) = ch_userCodeHash (at_addr s b) \<and>
      ch_deviceCodeHash (at_addr (write_addr s a c) b) = ch_deviceCodeHash (at_addr s b)" for b
    using at [of b] c by (simp add: live_def)
  moreover have "pg_byUser (write_addr s a c) = pg_byUser s" "pg_byDevice (write_addr s a c) = pg_byDevice s"
    by (simp_all add: write_addr_def)
  ultimately show ?thesis using ok live unfolding store_ok_def by simp
qed

lemma draw_code_fresh: "draw_code hash draws n m = Some r \<Longrightarrow> \<not> jm_has m (snd r)"
proof (induction rule: draw_code.raw_induct [rotated, consumes 1])
  case (1 draw hash draws n m r)
  then show ?case by (auto simp: Let_def split: if_splits)
qed

lemma draw_code_returns:
  assumes "\<not> jm_has m (hash (normalizeUserCode (randomUserCode (draws (n + k)))))"
  shows "\<exists>r. draw_code hash draws n m = Some r"
  using assms
proof (induction k arbitrary: n)
  case 0
  then show ?case by (subst draw_code.simps) (simp add: Let_def)
next
  case (Suc k)
  from Suc.IH [of "Suc n"] Suc.prems have "\<exists>r. draw_code hash draws (Suc n) m = Some r" by simp
  then show ?case by (subst draw_code.simps) (auto simp: Let_def)
qed

definition put_challenge :: "pairing_store \<Rightarrow> challenge \<Rightarrow> pairing_store" where
  "put_challenge s c =
     \<lparr>pg_heap = pg_heap s @ [c], pg_byUser = jm_set (pg_byUser s) (ch_userCodeHash c) (length (pg_heap s)),
      pg_byDevice = jm_set (pg_byDevice s) (ch_deviceCodeHash c) (length (pg_heap s))\<rparr>"

lemma create_put:
  assumes "createRemoteWebPairingChallenge hash url rq deviceCode i draws now created s = Some (r, t)"
  obtains c where "t = put_challenge (cleanupExpiredChallenges now s) c" "ch_deviceCodeHash c = hash deviceCode"
    "ch_status c = Pending" "\<not> jm_has (pg_byUser (cleanupExpiredChallenges now s)) (ch_userCodeHash c)"
proof -
  let ?s1 = "cleanupExpiredChallenges now s"
  from assms obtain u k where d: "draw_code hash draws 0 (pg_byUser ?s1) = Some (u, k)"
    unfolding createRemoteWebPairingChallenge_def Let_def by (auto split: option.splits)
  let ?c = "new_challenge hash url rq deviceCode i u k created"
  show thesis
  proof (rule that [of ?c])
    show "t = put_challenge ?s1 ?c"
      using assms d unfolding createRemoteWebPairingChallenge_def Let_def
      by (simp add: put_challenge_def new_challenge_def)
    show "\<not> jm_has (pg_byUser ?s1) (ch_userCodeHash ?c)" using draw_code_fresh [OF d] by (simp add: new_challenge_def)
  qed (simp_all add: new_challenge_def)
qed

lemma store_ok_put:
  assumes ok: "store_ok s" and fresh: "ch_deviceCodeHash c \<notin> set (map ch_deviceCodeHash (pg_heap s))"
    "\<not> jm_has (pg_byUser s) (ch_userCodeHash c)"
  shows "store_ok (put_challenge s c)"
proof -
  let ?t = "put_challenge s c" and ?n = "length (pg_heap s)"
  have at: "at_addr ?t b = at_addr s b" if "b < ?n" for b using that by (simp add: at_addr_def put_challenge_def nth_append)
  have atn: "at_addr ?t ?n = c" by (simp add: at_addr_def put_challenge_def)
  have u: "jm_get (pg_byUser ?t) k = (if k = ch_userCodeHash c then Some ?n else jm_get (pg_byUser s) k)" for k
    by (simp add: put_challenge_def)
  have d: "jm_get (pg_byDevice ?t) k = (if k = ch_deviceCodeHash c then Some ?n else jm_get (pg_byDevice s) k)" for k
    by (simp add: put_challenge_def)
  have ln: "live ?t ?n" using u d atn by (simp add: live_def) (simp add: put_challenge_def)
  have old: "live ?t b" if l: "live s b" for b
  proof -
    from l have b: "b < ?n" by (simp add: live_def)
    have "ch_deviceCodeHash (at_addr s b) \<in> set (map ch_deviceCodeHash (pg_heap s))" using b by (simp add: at_addr_def)
    then have "ch_deviceCodeHash (at_addr s b) \<noteq> ch_deviceCodeHash c" using fresh(1) by metis
    moreover have "ch_userCodeHash (at_addr s b) \<noteq> ch_userCodeHash c" using l fresh(2) by (auto simp: live_def jm_has_def)
    moreover have "b < length (pg_heap ?t)" using b by (simp add: put_challenge_def)
    ultimately show ?thesis using l u d at [OF b] by (simp add: live_def)
  qed
  have keep: "at_addr ?t b = at_addr s b" if "live s b" for b using that by (intro at) (simp add: live_def)
  have ku: "live ?t b \<and> ch_userCodeHash (at_addr ?t b) = k" if g: "jm_get (pg_byUser ?t) k = Some b" for k b
  proof (cases "k = ch_userCodeHash c")
    case True
    then show ?thesis using g u ln atn by simp
  next
    case False
    with g u ok have "live s b" "ch_userCodeHash (at_addr s b) = k" unfolding store_ok_def by simp_all
    with old [of b] keep [of b] show ?thesis by simp
  qed
  have kd: "live ?t b \<and> ch_deviceCodeHash (at_addr ?t b) = k" if g: "jm_get (pg_byDevice ?t) k = Some b" for k b
  proof (cases "k = ch_deviceCodeHash c")
    case True
    then show ?thesis using g d ln atn by simp
  next
    case False
    with g d ok have "live s b" "ch_deviceCodeHash (at_addr s b) = k" unfolding store_ok_def by simp_all
    with old [of b] keep [of b] show ?thesis by simp
  qed
  have "jm_wf (pg_byUser ?t)" "jm_wf (pg_byDevice ?t)" "distinct (map ch_deviceCodeHash (pg_heap ?t))"
    using ok fresh(1) by (simp_all add: put_challenge_def store_ok_def)
  with ku kd show ?thesis unfolding store_ok_def by blast
qed

section \<open>The protocol\<close>

text \<open>\<open>I\<close> and \<open>M\<close> are the digests of the codes in exchange and minted for, \<open>A\<close> the approved addresses.\<close>

definition status_ok :: "pairing_store \<Rightarrow> string list \<Rightarrow> string list \<Rightarrow> nat list \<Rightarrow> string \<Rightarrow> nat \<Rightarrow> bool" where
  "status_ok s I M A k a =
     ((k \<in> set I \<longrightarrow> ch_status (at_addr s a) = Exchanging) \<and> (k \<in> set M \<longrightarrow> ch_status (at_addr s a) = ChallengeConsumed) \<and>
      (ch_status (at_addr s a) \<noteq> Pending \<longrightarrow> a \<in> set A))"

definition exch_ok :: "pairing_store \<Rightarrow> string list \<Rightarrow> string list \<Rightarrow> nat list \<Rightarrow> bool" where
  "exch_ok s I M A =
     (store_ok s \<and> length (pg_byUser s) \<le> MAX_ACTIVE_CHALLENGES \<and>
      distinct I \<and> distinct M \<and> set I \<inter> set M = {} \<and> (\<forall>a \<in> set A. a < length (pg_heap s)) \<and>
      (\<forall>k \<in> set I \<union> set M. \<exists>a \<in> set A. ch_deviceCodeHash (at_addr s a) = k) \<and>
      (\<forall>k a. jm_get (pg_byDevice s) k = Some a \<longrightarrow> status_ok s I M A k a))"

lemma exch_shrunk:
  assumes "exch_ok s I M A" "shrunk s t"
  shows "exch_ok t I M A"
proof -
  have h: "pg_heap t = pg_heap s" using assms(2) by (simp add: shrunk_def)
  then have at: "at_addr t = at_addr s" by (simp add: at_addr_def fun_eq_iff)
  have "status_ok t I M A k a" if "jm_get (pg_byDevice t) k = Some a" for k a
    using that assms unfolding exch_ok_def shrunk_def status_ok_def at by blast
  moreover have "store_ok t" "length (pg_byUser t) \<le> MAX_ACTIVE_CHALLENGES"
    using assms unfolding exch_ok_def shrunk_def by linarith+
  ultimately show ?thesis using assms(1) unfolding exch_ok_def h at by blast
qed

lemma exch_write:
  assumes e: "exch_ok s I M A" and k: "jm_get (pg_byDevice s) k = Some a"
    and c: "ch_deviceCodeHash c = ch_deviceCodeHash (at_addr s a)" "ch_userCodeHash c = ch_userCodeHash (at_addr s a)"
    and d: "distinct I'" "distinct M'" "set I' \<inter> set M' = {}"
    and same: "\<And>j. j \<noteq> k \<Longrightarrow> j \<in> set I' \<longleftrightarrow> j \<in> set I" "\<And>j. j \<noteq> k \<Longrightarrow> j \<in> set M' \<longleftrightarrow> j \<in> set M"
    and A: "set A \<subseteq> set A'" "set A' \<subseteq> insert a (set A)"
    and st: "k \<in> set I' \<Longrightarrow> ch_status c = Exchanging" "k \<in> set M' \<Longrightarrow> ch_status c = ChallengeConsumed"
      "ch_status c \<noteq> Pending \<Longrightarrow> a \<in> set A'"
  shows "exch_ok (write_addr s a c) I' M' A'"
proof -
  let ?t = "write_addr s a c"
  have ok: "store_ok s" using e by (simp add: exch_ok_def)
  then have live: "live s a" "ch_deviceCodeHash (at_addr s a) = k" using k unfolding store_ok_def by blast+
  then have a: "a < length (pg_heap s)" by (simp add: live_def)
  have at: "at_addr ?t b = (if b = a then c else at_addr s b)" if "b < length (pg_heap s)" for b
    using that by (simp add: at_addr_def write_addr_def)
  have fields: "length (pg_heap ?t) = length (pg_heap s)" "pg_byUser ?t = pg_byUser s" "pg_byDevice ?t = pg_byDevice s"
    by (simp_all add: write_addr_def)
  have bound: "b < length (pg_heap s)" if "b \<in> set A'" for b using that A(2) a e unfolding exch_ok_def by blast
  have dev: "ch_deviceCodeHash (at_addr ?t b) = ch_deviceCodeHash (at_addr s b)" if "b < length (pg_heap s)" for b
    using at [OF that] c(1) by simp
  have seen: "\<exists>b \<in> set A'. ch_deviceCodeHash (at_addr ?t b) = j" if j: "j \<in> set I' \<union> set M'" for j
  proof (cases "j = k")
    case True
    then have "ch_status c \<noteq> Pending" using j st(1,2) by auto
    then show ?thesis using st(3) dev [OF a] live(2) True by auto
  next
    case False
    then have "j \<in> set I \<union> set M" using j same by auto
    then obtain b where "b \<in> set A" "ch_deviceCodeHash (at_addr s b) = j" using e unfolding exch_ok_def by blast
    then show ?thesis using A(1) dev [of b] bound by blast
  qed
  have status: "status_ok ?t I' M' A' j b" if g: "jm_get (pg_byDevice s) j = Some b" for j b
  proof (cases "j = k")
    case True
    then have "b = a" using g k by simp
    then show ?thesis using True st at [OF a] unfolding status_ok_def by simp
  next
    case False
    have "live s b" "ch_deviceCodeHash (at_addr s b) = j" using ok g unfolding store_ok_def by blast+
    then have "b \<noteq> a" "b < length (pg_heap s)" using False live(2) by (auto simp: live_def)
    moreover have "status_ok s I M A j b" using e g unfolding exch_ok_def by blast
    ultimately show ?thesis using False same [of j] A(1) at [of b] unfolding status_ok_def by auto
  qed
  have "store_ok ?t" by (rule store_ok_write [OF ok a c])
  with e d bound seen status show ?thesis unfolding exch_ok_def fields by blast
qed

lemma exch_gone:
  assumes e: "exch_ok s I M A" and k: "jm_get (pg_byDevice s) k = None" "k \<in> set I"
    and d: "distinct I'" "distinct M'" "set I' \<inter> set M' = {}"
    and same: "\<And>j. j \<noteq> k \<Longrightarrow> j \<in> set I' \<longleftrightarrow> j \<in> set I" "\<And>j. j \<noteq> k \<Longrightarrow> j \<in> set M' \<longleftrightarrow> j \<in> set M"
  shows "exch_ok s I' M' A"
proof -
  have "j \<in> set I \<union> set M" if "j \<in> set I' \<union> set M'" for j
    using that same [of j] k(2) by (cases "j = k") auto
  then have "\<forall>j \<in> set I' \<union> set M'. \<exists>a \<in> set A. ch_deviceCodeHash (at_addr s a) = j" using e unfolding exch_ok_def by blast
  moreover have "status_ok s I' M' A j b" if g: "jm_get (pg_byDevice s) j = Some b" for j b
  proof -
    have "j \<noteq> k" using g k(1) by auto
    moreover have "status_ok s I M A j b" using e g unfolding exch_ok_def by blast
    ultimately show ?thesis using same [of j] unfolding status_ok_def by simp
  qed
  ultimately show ?thesis using e d unfolding exch_ok_def by (intro conjI) (blast+)
qed

lemma exch_put:
  assumes e: "exch_ok s I M A" and fresh: "ch_deviceCodeHash c \<notin> set (map ch_deviceCodeHash (pg_heap s))"
    "\<not> jm_has (pg_byUser s) (ch_userCodeHash c)" and st: "ch_status c = Pending"
    and room: "length (pg_byUser s) < MAX_ACTIVE_CHALLENGES"
  shows "exch_ok (put_challenge s c) I M A"
proof -
  let ?t = "put_challenge s c" and ?n = "length (pg_heap s)"
  have at: "at_addr ?t b = at_addr s b" if "b < ?n" for b using that by (simp add: at_addr_def put_challenge_def nth_append)
  have atn: "at_addr ?t ?n = c" by (simp add: at_addr_def put_challenge_def)
  have A: "\<And>a. a \<in> set A \<Longrightarrow> a < ?n" using e unfolding exch_ok_def by blast
  have seen: "\<exists>a \<in> set A. ch_deviceCodeHash (at_addr ?t a) = j" if j: "j \<in> set I \<union> set M" for j
  proof -
    from e j obtain a where "a \<in> set A" "ch_deviceCodeHash (at_addr s a) = j" unfolding exch_ok_def by blast
    then show ?thesis using at [OF A [of a]] by metis
  qed
  have new: "ch_deviceCodeHash c \<notin> set I \<union> set M"
  proof
    assume "ch_deviceCodeHash c \<in> set I \<union> set M"
    then obtain a where "a \<in> set A" "ch_deviceCodeHash (at_addr s a) = ch_deviceCodeHash c" using e unfolding exch_ok_def by blast
    moreover from this have "at_addr s a \<in> set (pg_heap s)" using A [of a] by (simp add: at_addr_def)
    ultimately have "ch_deviceCodeHash c \<in> set (map ch_deviceCodeHash (pg_heap s))" by (metis image_eqI set_map)
    with fresh(1) show False by blast
  qed
  have status: "status_ok ?t I M A j b" if g: "jm_get (pg_byDevice ?t) j = Some b" for j b
  proof (cases "j = ch_deviceCodeHash c")
    case True
    then have "b = ?n" using g by (simp add: put_challenge_def)
    then show ?thesis using True new atn st unfolding status_ok_def by simp
  next
    case False
    then have g': "jm_get (pg_byDevice s) j = Some b" using g by (simp add: put_challenge_def)
    then have "b < ?n" using e unfolding exch_ok_def store_ok_def live_def by blast
    moreover have "status_ok s I M A j b" using e g' unfolding exch_ok_def by blast
    ultimately show ?thesis using at [of b] unfolding status_ok_def by simp
  qed
  have "store_ok ?t" using store_ok_put [OF _ fresh] e unfolding exch_ok_def by blast
  moreover have "length (pg_byUser ?t) \<le> MAX_ACTIVE_CHALLENGES" using room by (simp add: put_challenge_def length_jm_set)
  moreover have "\<forall>a \<in> set A. a < length (pg_heap ?t)"
  proof
    fix a assume "a \<in> set A"
    from A [OF this] show "a < length (pg_heap ?t)" by (simp add: put_challenge_def)
  qed
  ultimately show ?thesis using e seen status unfolding exch_ok_def by blast
qed

lemma exch_live_status:
  assumes "exch_ok s I M A" "live s a"
  shows "status_ok s I M A (ch_deviceCodeHash (at_addr s a)) a"
  using assms unfolding exch_ok_def live_def by blast

lemma exch_store: "exch_ok s I M A \<Longrightarrow> store_ok s"
  by (simp add: exch_ok_def)

lemma exch_delete: "exch_ok s I M A \<Longrightarrow> live s a \<Longrightarrow> exch_ok (deleteChallenge s a) I M A"
  using exch_shrunk shrunk_delete exch_store by metis

lemma exch_cleanup: "exch_ok s I M A \<Longrightarrow> exch_ok (cleanupExpiredChallenges now s) I M A"
  using exch_shrunk shrunk_cleanup exch_store by metis

lemma device_live:
  assumes "exch_ok s I M A" "jm_get (pg_byDevice s) k = Some a"
  shows "live s a \<and> ch_deviceCodeHash (at_addr s a) = k \<and> status_ok s I M A k a"
  using assms unfolding exch_ok_def store_ok_def by blast

lemma user_live: "exch_ok s I M A \<Longrightarrow> jm_get (pg_byUser s) k = Some a \<Longrightarrow> live s a"
  unfolding exch_ok_def store_ok_def by blast

lemma found_live:
  assumes "exch_ok s I M A" "findChallengeById s i = Some a"
  shows "live s a"
proof -
  have "a \<in> set (map snd (pg_byUser s))"
    using assms(2) unfolding findChallengeById_def by (metis find_Some_iff nth_mem)
  with listed_live [OF exch_store [OF assms(1)]] show ?thesis by blast
qed

lemma exch_approve:
  assumes e: "exch_ok s I M A" and a: "live s a" and r: "approveChallenge now a s = (r, t)"
  shows "exch_ok t I M (log_approval (Some a) r A)"
proof -
  let ?c = "at_addr s a"
  have k: "jm_get (pg_byDevice s) (ch_deviceCodeHash ?c) = Some a" using a by (simp add: live_def)
  have st: "status_ok s I M A (ch_deviceCodeHash ?c) a" by (rule exch_live_status [OF e a])
  consider "r = ApproveInvalid" "t = s" | "r = ApproveExpired" "t = deleteChallenge s a"
    | "r = ApproveOk (ch_verificationUri ?c) (ch_expiresAtMs ?c)" "ch_status ?c \<noteq> Exchanging" "ch_status ?c \<noteq> ChallengeConsumed"
      "t = write_addr s a (?c\<lparr>ch_status := Approved, ch_approvedAtMs := Some now\<rparr>)"
  proof -
    note run = r [unfolded approveChallenge_def Let_def]
    show thesis
    proof (cases "ch_status ?c = Exchanging \<or> ch_status ?c = ChallengeConsumed")
      case True
      with run show thesis by (intro that(1)) simp_all
    next
      case False
      note run = run [unfolded if_not_P [OF False]]
      show thesis
      proof (cases "ch_expiresAtMs ?c \<le> now")
        case True
        with run show thesis by (intro that(2)) simp_all
      next
        case nexp: False
        with run False show thesis by (intro that(3)) simp_all
      qed
    qed
  qed
  then show ?thesis
  proof cases
    case 1
    with e show ?thesis by (simp add: log_approval_def)
  next
    case 2
    with exch_delete [OF e a] show ?thesis by (simp add: log_approval_def)
  next
    case 3
    have d: "distinct I" "distinct M" "set I \<inter> set M = {}" using e by (simp_all add: exch_ok_def)
    have "exch_ok t I M (a # A)"
      unfolding 3(4) by (rule exch_write [OF e k _ _ d]) (use st 3(2,3) in \<open>auto simp: status_ok_def\<close>)
    then show ?thesis by (simp add: 3(1) log_approval_def)
  qed
qed

lemma exch_claim:
  assumes e: "exch_ok s I M A" and r: "claimRemoteWebPairingChallengeExchange hash now d s = (r, t)"
  shows "exch_ok t (case r of ClaimApproved _ _ _ \<Rightarrow> hash d # I | _ \<Rightarrow> I) M A"
proof (cases "jm_get (pg_byDevice s) (hash d)")
  case None
  with r e show ?thesis by (auto simp: claimRemoteWebPairingChallengeExchange_def)
next
  case (Some a)
  let ?c = "at_addr s a"
  from device_live [OF e Some] have a: "live s a" "ch_deviceCodeHash ?c = hash d" "status_ok s I M A (hash d) a" by auto
  consider "t = s" "\<And>u v w. r \<noteq> ClaimApproved u v w" | "t = deleteChallenge s a" "r = ClaimExpired"
    | u v w where "r = ClaimApproved u v w" "ch_status ?c = Approved"
      "t = write_addr s a (?c\<lparr>ch_status := Exchanging, ch_exchangeStartedAtMs := Some now\<rparr>)"
  proof -
    note run = r [unfolded claimRemoteWebPairingChallengeExchange_def Let_def Some option.case]
    show thesis
    proof (cases "ch_expiresAtMs ?c \<le> now")
      case True
      with run show thesis by (intro that(2)) simp_all
    next
      case False
      note run = run [unfolded if_not_P [OF False]]
      show thesis
      proof (cases "ch_status ?c")
        case Approved
        with run show thesis by (intro that(3) [of "ch_publicBaseUrl ?c" "ch_verificationUri ?c" "ch_expiresAtMs ?c"]) simp_all
      next
        case Pending
        with run show thesis by (intro that(1)) auto
      next
        case Exchanging
        with run show thesis by (intro that(1)) auto
      next
        case ChallengeConsumed
        with run show thesis by (intro that(1)) auto
      qed
    qed
  qed
  then show ?thesis
  proof cases
    case 1
    with e show ?thesis by (cases r) auto
  next
    case 2
    with exch_delete [OF e a(1)] show ?thesis by simp
  next
    case 3
    have new: "hash d \<notin> set I" "hash d \<notin> set M" using a(3) 3(2) by (auto simp: status_ok_def)
    have d: "distinct (hash d # I)" "distinct M" "set (hash d # I) \<inter> set M = {}"
      using e new by (auto simp: exch_ok_def)
    have "exch_ok t (hash d # I) M A"
      unfolding 3(3) by (rule exch_write [OF e Some _ _ d]) (use a(3) 3(2) new in \<open>auto simp: status_ok_def\<close>)
    then show ?thesis by (simp add: 3(1))
  qed
qed

lemma exch_complete:
  assumes e: "exch_ok s I M A" and k: "hash d \<in> set I"
  shows "exch_ok (completeRemoteWebPairingChallengeExchange hash now d s) (remove1 (hash d) I) (hash d # M) A"
proof -
  have di: "distinct (remove1 (hash d) I)" "distinct (hash d # M)" "set (remove1 (hash d) I) \<inter> set (hash d # M) = {}"
    using e k by (auto simp: exch_ok_def)
  show ?thesis
  proof (cases "jm_get (pg_byDevice s) (hash d)")
    case None
    then show ?thesis unfolding completeRemoteWebPairingChallengeExchange_def
      by simp (rule exch_gone [OF e None k di], auto)
  next
    case (Some a)
    from device_live [OF e Some] have a: "status_ok s I M A (hash d) a" by simp
    then have st: "ch_status (at_addr s a) = Exchanging" using k by (simp add: status_ok_def)
    have "exch_ok (write_addr s a ((at_addr s a)\<lparr>ch_status := ChallengeConsumed, ch_consumedAtMs := Some now\<rparr>))
        (remove1 (hash d) I) (hash d # M) A"
      by (rule exch_write [OF e Some _ _ di]) (use a st e in \<open>auto simp: status_ok_def exch_ok_def\<close>)
    then show ?thesis using Some st by (simp add: completeRemoteWebPairingChallengeExchange_def)
  qed
qed

lemma exch_release:
  assumes e: "exch_ok s I M A" and k: "hash d \<in> set I"
  shows "exch_ok (releaseRemoteWebPairingChallengeExchange hash d s) (remove1 (hash d) I) M A"
proof -
  have di: "distinct (remove1 (hash d) I)" "distinct M" "set (remove1 (hash d) I) \<inter> set M = {}"
    using e by (auto simp: exch_ok_def)
  have kM: "hash d \<notin> set M" using e k by (auto simp: exch_ok_def)
  show ?thesis
  proof (cases "jm_get (pg_byDevice s) (hash d)")
    case None
    then show ?thesis unfolding releaseRemoteWebPairingChallengeExchange_def
      by simp (rule exch_gone [OF e None k di], auto)
  next
    case (Some a)
    from device_live [OF e Some] have a: "status_ok s I M A (hash d) a" by simp
    then have st: "ch_status (at_addr s a) = Exchanging" using k by (simp add: status_ok_def)
    have "exch_ok (write_addr s a ((at_addr s a)\<lparr>ch_status := Approved, ch_exchangeStartedAtMs := None\<rparr>))
        (remove1 (hash d) I) M A"
      by (rule exch_write [OF e Some _ _ di]) (use a st kM e in \<open>auto simp: status_ok_def exch_ok_def\<close>)
    then show ?thesis using Some st by (simp add: releaseRemoteWebPairingChallengeExchange_def)
  qed
qed

lemma map_remove1: "distinct (map f xs) \<Longrightarrow> x \<in> set xs \<Longrightarrow> map f (remove1 x xs) = remove1 (f x) (map f xs)"
  by (induction xs) (auto simp: rev_image_eqI)

lemma exch_create:
  assumes e: "exch_ok s I M A"
    and c: "createUnderCapacity hash url rq deviceCode i draws now now' created s = Some (r, t)"
    and fresh: "hash deviceCode \<notin> set (map ch_deviceCodeHash (pg_heap s))"
  shows "exch_ok t I M A"
proof -
  let ?s1 = "cleanupExpiredChallenges now s"
  have e1: "exch_ok ?s1 I M A" by (rule exch_cleanup [OF e])
  show ?thesis
  proof (cases "length (pg_byUser ?s1) < MAX_ACTIVE_CHALLENGES")
    case False
    then have "t = ?s1"
      using c by (simp add: createUnderCapacity_def checkRemoteWebPairingChallengeCapacity_def Let_def)
    with e1 show ?thesis by simp
  next
    case True
    with c have "\<exists>q. createRemoteWebPairingChallenge hash url rq deviceCode i draws now' created ?s1 = Some (q, t)"
      by (auto simp: createUnderCapacity_def checkRemoteWebPairingChallengeCapacity_def Let_def)
    then obtain q where "createRemoteWebPairingChallenge hash url rq deviceCode i draws now' created ?s1 = Some (q, t)" ..
    then obtain ch where ch: "t = put_challenge (cleanupExpiredChallenges now' ?s1) ch" "ch_deviceCodeHash ch = hash deviceCode"
      "ch_status ch = Pending" "\<not> jm_has (pg_byUser (cleanupExpiredChallenges now' ?s1)) (ch_userCodeHash ch)"
      by (rule create_put)
    have sh: "shrunk ?s1 (cleanupExpiredChallenges now' ?s1)" "shrunk s ?s1"
      by (rule shrunk_cleanup, rule exch_store, rule e1, rule shrunk_cleanup, rule exch_store, rule e)
    then have h: "pg_heap (cleanupExpiredChallenges now' ?s1) = pg_heap s"
      and l: "length (pg_byUser (cleanupExpiredChallenges now' ?s1)) < MAX_ACTIVE_CHALLENGES"
      using True by (simp_all add: shrunk_def)
    have "ch_deviceCodeHash ch \<notin> set (map ch_deviceCodeHash (pg_heap (cleanupExpiredChallenges now' ?s1)))"
      unfolding h ch(2) by (rule fresh)
    then show ?thesis unfolding ch(1) by (rule exch_put [OF exch_cleanup [OF e1] _ ch(4,3) l])
  qed
qed

definition sys_ok :: "(string \<Rightarrow> string) \<Rightarrow> pairing_sys \<Rightarrow> bool" where
  "sys_ok hash y = exch_ok (sy_store y) (map hash (sy_inflight y)) (map hash (sy_minted y)) (sy_approvals y)"

lemma sys_ok_init: "pairing_init y \<Longrightarrow> sys_ok hash y"
  by (simp add: pairing_init_def sys_ok_def exch_ok_def store_ok_def)

lemma sys_ok_step: "pairing_step hash y y' \<Longrightarrow> sys_ok hash y \<Longrightarrow> sys_ok hash y'"
proof (induction rule: pairing_step.induct)
  case (step_create url rq deviceCode i draws now now' created y r s)
  then show ?case using exch_create unfolding sys_ok_def by fastforce
next
  case (step_approve_code now code y r s)
  show ?case
  proof (cases "jm_get (pg_byUser (sy_store y)) (hash (normalizeUserCode code))")
    case None
    then show ?thesis using step_approve_code
      by (auto simp: sys_ok_def approveRemoteWebPairingChallenge_def log_approval_def)
  next
    case (Some a)
    then have "approveChallenge now a (sy_store y) = (r, s)"
      using step_approve_code(1) by (simp add: approveRemoteWebPairingChallenge_def)
    with exch_approve [OF _ user_live [OF _ Some] this] step_approve_code(2) Some show ?thesis by (simp add: sys_ok_def)
  qed
next
  case (step_approve_id now i y r s)
  show ?case
  proof (cases "findChallengeById (sy_store y) i")
    case None
    then show ?thesis using step_approve_id
      by (auto simp: sys_ok_def approveRemoteWebPairingChallengeById_def log_approval_def)
  next
    case (Some a)
    then have "approveChallenge now a (sy_store y) = (r, s)"
      using step_approve_id(1) by (simp add: approveRemoteWebPairingChallengeById_def)
    with exch_approve [OF _ found_live [OF _ Some] this] step_approve_id(2) Some show ?thesis by (simp add: sys_ok_def)
  qed
next
  case (step_deny i y r s)
  show ?case
  proof (cases "findChallengeById (sy_store y) i")
    case None
    then show ?thesis using step_deny by (simp add: sys_ok_def denyRemoteWebPairingChallengeById_def)
  next
    case (Some a)
    then have "s = sy_store y \<or> s = deleteChallenge (sy_store y) a"
      using step_deny(1) by (auto simp: denyRemoteWebPairingChallengeById_def split: if_splits)
    with exch_delete [OF _ found_live [OF _ Some]] step_deny(2) show ?thesis by (auto simp: sys_ok_def)
  qed
next
  case (step_list now y r s)
  then have "s = cleanupExpiredChallenges now (sy_store y)"
    by (simp add: listPendingRemoteWebPairingChallenges_def Let_def)
  with step_list(2) exch_cleanup show ?case by (simp add: sys_ok_def)
next
  case (step_claim now deviceCode y r y')
  obtain q t where q: "claimRemoteWebPairingChallengeExchange hash now deviceCode (sy_store y) = (q, t)" by force
  from exch_claim [OF _ q] step_claim(2) have
    "exch_ok t (case q of ClaimApproved _ _ _ \<Rightarrow> hash deviceCode # map hash (sy_inflight y) | _ \<Rightarrow> map hash (sy_inflight y))
       (map hash (sy_minted y)) (sy_approvals y)" by (simp add: sys_ok_def)
  then show ?case using step_claim(1) q by (cases q) (auto simp: tokenClaim_def sys_ok_def)
next
  case (step_end deviceCode y now success)
  have e: "exch_ok (sy_store y) (map hash (sy_inflight y)) (map hash (sy_minted y)) (sy_approvals y)"
    using step_end(2) by (simp add: sys_ok_def)
  have k: "hash deviceCode \<in> set (map hash (sy_inflight y))" using step_end(1) by simp
  have "distinct (map hash (sy_inflight y))" using e by (simp add: exch_ok_def)
  from map_remove1 [OF this step_end(1)] exch_complete [where hash = hash, OF e k] exch_release [where hash = hash, OF e k] show ?case
    by (cases success) (simp_all add: tokenEnd_def sys_ok_def Let_def)
qed

lemma sys_ok_reach: "reach pairing_init (pairing_step hash) y \<Longrightarrow> sys_ok hash y"
  by (induction rule: reach.induct) (auto intro: sys_ok_init sys_ok_step)

section \<open>Properties\<close>

text \<open>C25: whatever requests are made and however their steps interleave, a device code obtains at most one token
  pair, and only for a challenge the host has approved.\<close>
theorem pairing_code_mints_once:
  assumes "reach pairing_init (pairing_step hash) y"
  shows "distinct (map hash (sy_minted y)) \<and>
    (\<forall>d \<in> set (sy_minted y). \<exists>a \<in> set (sy_approvals y). ch_deviceCodeHash (at_addr (sy_store y) a) = hash d)"
  using sys_ok_reach [OF assms] unfolding sys_ok_def exch_ok_def by auto

text \<open>at any time the two maps hold the same challenges, each under the digests of its own codes, no two
  challenges share a device code, and there are never more than the maximum.\<close>
theorem pairing_maps_agree:
  assumes "reach pairing_init (pairing_step hash) y"
  shows "(\<forall>k a. jm_get (pg_byUser (sy_store y)) k = Some a \<longrightarrow> ch_userCodeHash (at_addr (sy_store y) a) = k \<and>
      jm_get (pg_byDevice (sy_store y)) (ch_deviceCodeHash (at_addr (sy_store y) a)) = Some a) \<and>
    (\<forall>k a. jm_get (pg_byDevice (sy_store y)) k = Some a \<longrightarrow> ch_deviceCodeHash (at_addr (sy_store y) a) = k \<and>
      jm_get (pg_byUser (sy_store y)) (ch_userCodeHash (at_addr (sy_store y) a)) = Some a) \<and>
    length (pg_byUser (sy_store y)) \<le> MAX_ACTIVE_CHALLENGES"
  using sys_ok_reach [OF assms] unfolding sys_ok_def exch_ok_def store_ok_def live_def by blast

text \<open>drawing user codes ends as soon as one draw gives a code no live challenge uses, so the creation of a
  challenge then always returns.\<close>
theorem pairing_creation_returns:
  assumes "\<not> jm_has (pg_byUser (cleanupExpiredChallenges now s)) (hash (normalizeUserCode (randomUserCode (draws k))))"
  shows "\<exists>r t. createRemoteWebPairingChallenge hash url rq deviceCode i draws now created s = Some (r, t)"
  using draw_code_returns [of _ hash draws 0 k] assms
  by (fastforce simp: createRemoteWebPairingChallenge_def Let_def split: option.splits)

text \<open>A run of the routes: a challenge is created, approved by its code, claimed and minted for.\<close>

definition demo_requester :: requester where
  "demo_requester = \<lparr>rq_ip = ''10.0.0.9'', rq_userAgent = None, rq_viaEdgeProxy = True\<rparr>"

definition pairing0 :: pairing_sys where
  "pairing0 = \<lparr>sy_store = \<lparr>pg_heap = [], pg_byUser = [], pg_byDevice = []\<rparr>, sy_inflight = [], sy_minted = [], sy_approvals = []\<rparr>"

definition demo_challenge :: challenge where
  "demo_challenge = new_challenge (\<lambda>x. x) ''https://h'' demo_requester ''dev'' ''id1'' ''ABCD-EFGH'' ''ABCDEFGH'' 0"

definition pairing1 :: pairing_sys where
  "pairing1 = pairing0\<lparr>sy_store := put_challenge (sy_store pairing0) demo_challenge\<rparr>"

definition pairing2 :: pairing_sys where
  "pairing2 = pairing1\<lparr>sy_store := write_addr (sy_store pairing1) 0 (demo_challenge\<lparr>ch_status := Approved, ch_approvedAtMs := Some 10\<rparr>),
     sy_approvals := [0]\<rparr>"

definition pairing3 :: pairing_sys where
  "pairing3 = snd (tokenClaim (\<lambda>x. x) 20 ''dev'' pairing2)"

lemmas pairing_demo_defs = pairing0_def pairing1_def pairing2_def pairing3_def demo_challenge_def new_challenge_def
  put_challenge_def write_addr_def at_addr_def demo_requester_def CODE_TTL_MS_def

definition demo_draws :: "nat \<Rightarrow> nat list" where "demo_draws n = [0, 1, 2, 3, 4, 5, 6, 7]"

lemma demo_user_code: "randomUserCode (demo_draws n) = ''ABCD-EFGH''" "normalizeUserCode ''ABCD-EFGH'' = ''ABCDEFGH''"
  unfolding demo_draws_def by code_simp+

lemma demo_draw: "draw_code (\<lambda>x. x) demo_draws 0 [] = Some (''ABCD-EFGH'', ''ABCDEFGH'')"
  by (subst draw_code.simps) (simp add: Let_def demo_user_code jm_has_def)

lemma demo_pairing: "reach pairing_init (pairing_step (\<lambda>x. x)) (tokenEnd (\<lambda>x. x) 30 ''dev'' True pairing3)"
proof -
  have 0: "reach pairing_init (pairing_step (\<lambda>x. x)) pairing0"
    by (rule reach_init) (simp add: pairing_init_def pairing0_def)
  have "\<exists>r. createUnderCapacity (\<lambda>x. x) ''https://h'' demo_requester ''dev'' ''id1'' demo_draws 0 0 0 (sy_store pairing0) =
      Some (r, put_challenge (sy_store pairing0) demo_challenge)"
    by (simp add: createUnderCapacity_def checkRemoteWebPairingChallengeCapacity_def cleanupExpiredChallenges_def
        createRemoteWebPairingChallenge_def demo_draw MAX_ACTIVE_CHALLENGES_def pairing_demo_defs)
  then obtain q where q: "createUnderCapacity (\<lambda>x. x) ''https://h'' demo_requester ''dev'' ''id1'' demo_draws 0 0 0
      (sy_store pairing0) = Some (q, put_challenge (sy_store pairing0) demo_challenge)" by blast
  have "''dev'' \<notin> set (map ch_deviceCodeHash (pg_heap (sy_store pairing0)))" by (simp add: pairing0_def)
  with step_create [OF q] have "pairing_step (\<lambda>x. x) pairing0 pairing1" unfolding pairing1_def .
  with 0 have 1: "reach pairing_init (pairing_step (\<lambda>x. x)) pairing1" by (rule reach_step)
  have "\<exists>r. approveRemoteWebPairingChallenge (\<lambda>x. x) 10 ''ABCD-EFGH'' (sy_store pairing1) = (r, sy_store pairing2) \<and>
      sy_approvals pairing2 = log_approval (jm_get (pg_byUser (sy_store pairing1)) (normalizeUserCode ''ABCD-EFGH'')) r (sy_approvals pairing1)"
    by (simp add: approveRemoteWebPairingChallenge_def approveChallenge_def demo_user_code log_approval_def pairing_demo_defs)
  then obtain r where r: "approveRemoteWebPairingChallenge (\<lambda>x. x) 10 ''ABCD-EFGH'' (sy_store pairing1) = (r, sy_store pairing2)"
    "sy_approvals pairing2 = log_approval (jm_get (pg_byUser (sy_store pairing1)) (normalizeUserCode ''ABCD-EFGH'')) r (sy_approvals pairing1)"
    by blast
  have "pairing2 = pairing1\<lparr>sy_store := sy_store pairing2, sy_approvals := sy_approvals pairing2\<rparr>" by (simp add: pairing2_def)
  with step_approve_code [OF r(1)] r(2) have "pairing_step (\<lambda>x. x) pairing1 pairing2" by simp
  with 1 have 2: "reach pairing_init (pairing_step (\<lambda>x. x)) pairing2" by (rule reach_step)
  have "pairing_step (\<lambda>x. x) pairing2 pairing3" unfolding pairing3_def by (rule step_claim [OF prod.collapse [symmetric]])
  with 2 have 3: "reach pairing_init (pairing_step (\<lambda>x. x)) pairing3" by (rule reach_step)
  have "''dev'' \<in> set (sy_inflight pairing3)"
    by (simp add: tokenClaim_def claimRemoteWebPairingChallengeExchange_def pairing_demo_defs)
  from step_end [OF this] 3 show ?thesis by (auto intro: reach_step)
qed

theorem pairing_code_mints_once_witness:
  "distinct (sy_minted (tokenEnd (\<lambda>x. x) 30 ''dev'' True pairing3)) \<and> sy_minted (tokenEnd (\<lambda>x. x) 30 ''dev'' True pairing3) = [''dev'']"
  using pairing_code_mints_once [OF demo_pairing]
  by (simp add: tokenEnd_def tokenClaim_def claimRemoteWebPairingChallengeExchange_def pairing_demo_defs)

theorem pairing_maps_agree_witness:
  "length (pg_byUser (sy_store (tokenEnd (\<lambda>x. x) 30 ''dev'' True pairing3))) \<le> MAX_ACTIVE_CHALLENGES"
  using pairing_maps_agree [OF demo_pairing] by blast

theorem pairing_creation_returns_witness:
  "\<exists>r t. createRemoteWebPairingChallenge (\<lambda>x. x) ''https://h'' demo_requester ''dev'' ''id1'' demo_draws 0 0
     (sy_store pairing0) = Some (r, t)"
  by (rule pairing_creation_returns [where k = 0])
    (simp add: cleanupExpiredChallenges_def pairing0_def jm_has_def)

end
