(* ===== verification/Auth_Tokens.thy ===== *)
theory Auth_Tokens
  imports Prelude
begin

text \<open>
  Tokens of the gateway and the daemon: the subject (\<^verbatim>\<open>auth/subject.ts\<close>), scope profiles
  (\<^verbatim>\<open>auth/scopes.ts\<close>), the policy epoch (\<^verbatim>\<open>auth/policy.ts\<close>), minting and verifying
  (\<^verbatim>\<open>auth/token-service.ts\<close>), the exchange at the gateway (\<^verbatim>\<open>auth/token-exchange.ts\<close>) and the daemon's
  side of it (\<^verbatim>\<open>runtime/auth/\<close>: context, middleware, route policy).

  \<^item> \<open>subject.ts\<close>, \<open>policy.ts\<close>, \<open>mintToken\<close> and \<open>verifyToken\<close> are the same code on both sides
    (the daemon's \<open>verifyToken\<close> has no \<open>allowExpired\<close>); only the scope tables differ.
  \<^item> A \<open>Buffer\<close> is a string of its bytes. The keyed digest, the text codec of buffers, the JSON of the claims
    and the token hash are the fields of \<open>token_env\<close>; \<open>token_laws\<close> states what is used of them, and
    \<open>base64url\<close> below is a codec with these laws.
  \<^item> Reading the key from the environment or the disk is not modelled.
\<close>

section \<open>The text codec of buffers\<close>

text \<open>\<open>Buffer.from(s, "base64url")\<close> accepts both alphabets and skips what is in neither (white space, padding);
  \<open>toString("base64url")\<close> writes the URL alphabet without padding.\<close>

definition b64_digit :: "nat \<Rightarrow> char" where
  "b64_digit n =
     char_of (if n < 26 then 65 + n else if n < 52 then 71 + n else if n < 62 then n - 4
              else if n = 62 then 45 else 95)"

definition b64_value :: "char \<Rightarrow> nat option" where
  "b64_value c =
     (let n = of_char c :: nat
      in if 65 \<le> n \<and> n \<le> 90 then Some (n - 65) else if 97 \<le> n \<and> n \<le> 122 then Some (n - 71)
         else if 48 \<le> n \<and> n \<le> 57 then Some (n + 4) else if n = 43 \<or> n = 45 then Some 62
         else if n = 47 \<or> n = 95 then Some 63 else None)"

fun sextets :: "nat list \<Rightarrow> nat list" where
  "sextets (a # b # c # r) =
     a div 4 # ((a mod 4) * 16 + b div 16) # ((b mod 16) * 4 + c div 64) # c mod 64 # sextets r"
| "sextets [a, b] = [a div 4, (a mod 4) * 16 + b div 16, (b mod 16) * 4]"
| "sextets [a] = [a div 4, (a mod 4) * 16]"
| "sextets [] = []"

fun octets :: "nat list \<Rightarrow> nat list" where
  "octets (w # x # y # z # r) =
     (w * 4 + x div 16) # ((x mod 16) * 16 + y div 4) # ((y mod 4) * 64 + z) # octets r"
| "octets [w, x, y] = [w * 4 + x div 16, (x mod 16) * 16 + y div 4]"
| "octets [w, x] = [w * 4 + x div 16]"
| "octets _ = []"

definition base64url_encode :: "string \<Rightarrow> string" where
  "base64url_encode bytes = map b64_digit (sextets (map of_char bytes))"

definition base64url_decode :: "string \<Rightarrow> string" where
  "base64url_decode s = map char_of (octets (List.map_filter b64_value s))"

section \<open>Subjects\<close>

datatype PrincipalType = PrActor | PrSvcGateway | PrSvcDaemon | PrLocal

fun principal_string :: "PrincipalType \<Rightarrow> string" where
  "principal_string PrActor = ''actor''"
| "principal_string PrSvcGateway = ''svc_gateway''"
| "principal_string PrSvcDaemon = ''svc_daemon''"
| "principal_string PrLocal = ''local''"

record parsed_sub =
  sb_principalType :: PrincipalType
  sb_assistantId :: string
  sb_actorPrincipalId :: "string option"
  sb_conversationId :: "string option"

text \<open>\<open>s.split(c)\<close> for a single character.\<close>

fun split_char :: "char \<Rightarrow> string \<Rightarrow> string list" where
  "split_char d [] = [[]]"
| "split_char d (c # s) =
     (if c = d then [] # split_char d s
      else (case split_char d s of [] \<Rightarrow> [[c]] | w # ws \<Rightarrow> (c # w) # ws))"

definition parseSub :: "string \<Rightarrow> string + parsed_sub" where
  "parseSub sub =
     (if sub = [] then Inl ''sub is empty or not a string''
      else
        case split_char (CHR '':'') sub of
          [k, a, b] \<Rightarrow>
            if k = ''actor''
            then (if a = [] \<or> b = [] then Inl ''actor sub has empty assistantId or actorPrincipalId''
                  else Inr \<lparr>sb_principalType = PrActor, sb_assistantId = a, sb_actorPrincipalId = Some b, sb_conversationId = None\<rparr>)
            else if k = ''svc'' \<and> a = ''gateway''
            then (if b = [] then Inl ''svc:gateway sub has empty assistantId''
                  else Inr \<lparr>sb_principalType = PrSvcGateway, sb_assistantId = b, sb_actorPrincipalId = None, sb_conversationId = None\<rparr>)
            else if k = ''svc'' \<and> a = ''daemon''
            then (if b = [] then Inl ''svc:daemon sub has empty identifier''
                  else Inr \<lparr>sb_principalType = PrSvcDaemon, sb_assistantId = b, sb_actorPrincipalId = None, sb_conversationId = None\<rparr>)
            else if k = ''local''
            then (if a = [] \<or> b = [] then Inl ''local sub has empty assistantId or conversationId''
                  else Inr \<lparr>sb_principalType = PrLocal, sb_assistantId = a, sb_actorPrincipalId = None, sb_conversationId = Some b\<rparr>)
            else Inl (''unrecognized sub pattern: '' @ sub)
        | _ \<Rightarrow> Inl (''unrecognized sub pattern: '' @ sub))"

definition toDaemonSubject :: "string \<Rightarrow> string" where
  "toDaemonSubject edgeSub =
     (case parseSub edgeSub of
        Inl _ \<Rightarrow> ''svc:gateway:self''
      | Inr p \<Rightarrow>
          (case sb_principalType p of
             PrActor \<Rightarrow> ''actor:self:'' @ the (sb_actorPrincipalId p)
           | PrLocal \<Rightarrow> ''local:self:'' @ the (sb_conversationId p)
           | _ \<Rightarrow> ''svc:gateway:self''))"

section \<open>Scope profiles\<close>

definition GATEWAY_PROFILE_SCOPES :: "(string \<times> string list) list" where
  "GATEWAY_PROFILE_SCOPES =
     [(''actor_client_v1'', [''admin.write'', ''chat.read'', ''chat.write'', ''approval.read'', ''approval.write'',
         ''settings.read'', ''settings.write'', ''attachments.read'', ''attachments.write'', ''calls.read'', ''calls.write'',
         ''feature_flags.read'', ''feature_flags.write'']),
      (''gateway_ingress_v1'', [''ingress.write'', ''internal.write'']),
      (''gateway_service_v1'', [''chat.read'', ''chat.write'', ''settings.read'', ''settings.write'', ''attachments.read'',
         ''attachments.write'', ''internal.write'']),
      (''local_v1'', [''local.all'']),
      (''oauth_proxy_v1'', [''oauth.proxy'']),
      (''speech_relay_v1'', [''speech.relay'']),
      (''ui_page_v1'', [''settings.read''])]"

definition DAEMON_PROFILE_SCOPES :: "(string \<times> string list) list" where
  "DAEMON_PROFILE_SCOPES =
     [(''actor_client_v1'', [''chat.read'', ''chat.write'', ''approval.read'', ''approval.write'',
         ''settings.read'', ''settings.write'', ''attachments.read'', ''attachments.write'', ''calls.read'', ''calls.write'',
         ''feature_flags.read'', ''feature_flags.write'']),
      (''gateway_ingress_v1'', [''ingress.write'', ''internal.write'']),
      (''gateway_service_v1'', [''chat.read'', ''chat.write'', ''settings.read'', ''settings.write'', ''attachments.read'',
         ''attachments.write'', ''internal.write'']),
      (''local_v1'', [''local.all'']),
      (''oauth_proxy_v1'', [''oauth.proxy'']),
      (''speech_relay_v1'', [''speech.relay'']),
      (''ui_page_v1'', [''settings.read''])]"

definition resolveScopeProfile :: "(string \<times> string list) list \<Rightarrow> string \<Rightarrow> string list" where
  "resolveScopeProfile table profile = (case map_of table profile of None \<Rightarrow> [] | Some scopes \<Rightarrow> scopes)"

definition BROAD_SCOPE_PROFILES :: "(string \<times> bool) list" where
  "BROAD_SCOPE_PROFILES =
     [(''actor_client_v1'', True), (''gateway_ingress_v1'', True), (''gateway_service_v1'', True), (''local_v1'', True),
      (''oauth_proxy_v1'', False), (''speech_relay_v1'', False), (''ui_page_v1'', True)]"

definition isNarrowScopeProfile :: "string \<Rightarrow> bool" where
  "isNarrowScopeProfile profile = (map_of BROAD_SCOPE_PROFILES profile \<noteq> Some True)"

section \<open>Minting and verifying\<close>

definition CURRENT_POLICY_EPOCH :: int where
  "CURRENT_POLICY_EPOCH = 1"

definition isStaleEpoch :: "int \<Rightarrow> bool" where
  "isStaleEpoch epoch = (epoch < CURRENT_POLICY_EPOCH)"

record TokenClaims =
  tc_iss :: string
  tc_aud :: string
  tc_sub :: string
  tc_scope_profile :: string
  tc_exp :: int
  tc_policy_epoch :: int
  tc_iat :: "int option"
  tc_jti :: "string option"

text \<open>\<open>tk_parse\<close> is \<open>JSON.parse\<close> of the decoded payload read as claims, \<open>None\<close> where it throws.\<close>

record token_env =
  tk_mac :: "string \<Rightarrow> string"
  tk_encode :: "string \<Rightarrow> string"
  tk_decode :: "string \<Rightarrow> string"
  tk_json :: "TokenClaims \<Rightarrow> string"
  tk_parse :: "string \<Rightarrow> TokenClaims option"
  tk_hash :: "string \<Rightarrow> string"

definition JWT_HEADER :: "token_env \<Rightarrow> string" where
  "JWT_HEADER env = tk_encode env (''{'' @ [CHR 0x22] @ ''alg'' @ [CHR 0x22] @ '':'' @ [CHR 0x22] @ ''HS256'' @ [CHR 0x22] @ '','' @
     [CHR 0x22] @ ''typ'' @ [CHR 0x22] @ '':'' @ [CHR 0x22] @ ''JWT'' @ [CHR 0x22] @ ''}'')"

record mint_params =
  mp_aud :: string
  mp_sub :: string
  mp_scope_profile :: string
  mp_policy_epoch :: int
  mp_ttlSeconds :: int

text \<open>The clock is \<open>Date.now()\<close> in milliseconds, \<open>jti\<close> the hexadecimal of the random bytes.\<close>

definition minted_claims :: "int \<Rightarrow> string \<Rightarrow> mint_params \<Rightarrow> TokenClaims" where
  "minted_claims nowMs jti p =
     \<lparr>tc_iss = ''vellum-auth'', tc_aud = mp_aud p, tc_sub = mp_sub p, tc_scope_profile = mp_scope_profile p,
      tc_exp = nowMs div 1000 + mp_ttlSeconds p, tc_policy_epoch = mp_policy_epoch p, tc_iat = Some (nowMs div 1000),
      tc_jti = Some jti\<rparr>"

definition sign :: "token_env \<Rightarrow> string \<Rightarrow> string" where
  "sign env sigInput = sigInput @ ''.'' @ tk_encode env (tk_mac env sigInput)"

definition mintToken :: "token_env \<Rightarrow> int \<Rightarrow> string \<Rightarrow> mint_params \<Rightarrow> string" where
  "mintToken env nowMs jti p =
     sign env (JWT_HEADER env @ ''.'' @ tk_encode env (tk_json env (minted_claims nowMs jti p)))"

datatype verify_failure =
    MalformedToken
  | InvalidSignature
  | MalformedClaims
  | AudienceMismatch
  | TokenExpired
  | StalePolicyEpoch

definition verifyToken :: "token_env \<Rightarrow> int \<Rightarrow> bool \<Rightarrow> string \<Rightarrow> string \<Rightarrow> verify_failure + TokenClaims" where
  "verifyToken env nowMs allowExpired token expectedAud =
     (case split_char (CHR ''.'') token of
        [headerPart, payloadPart, sigPart] \<Rightarrow>
          if tk_decode env sigPart \<noteq> tk_mac env (headerPart @ ''.'' @ payloadPart) then Inl InvalidSignature
          else
            (case tk_parse env (tk_decode env payloadPart) of
               None \<Rightarrow> Inl MalformedClaims
             | Some claims \<Rightarrow>
                 if tc_aud claims \<noteq> expectedAud then Inl AudienceMismatch
                 else if \<not> allowExpired \<and> tc_exp claims \<le> nowMs div 1000 then Inl TokenExpired
                 else if isStaleEpoch (tc_policy_epoch claims) then Inl StalePolicyEpoch
                 else Inr claims)
      | _ \<Rightarrow> Inl MalformedToken)"

section \<open>The exchange at the gateway\<close>

definition EXCHANGE_TOKEN_TTL_SECONDS :: int where
  "EXCHANGE_TOKEN_TTL_SECONDS = 60"

definition validateEdgeToken :: "token_env \<Rightarrow> int \<Rightarrow> bool \<Rightarrow> string \<Rightarrow> verify_failure + TokenClaims" where
  "validateEdgeToken env nowMs allowExpired token = verifyToken env nowMs allowExpired token ''vellum-gateway''"

definition mintExchangeToken :: "token_env \<Rightarrow> int \<Rightarrow> string \<Rightarrow> TokenClaims \<Rightarrow> string \<Rightarrow> string" where
  "mintExchangeToken env nowMs jti edgeClaims targetScopeProfile =
     mintToken env nowMs jti
       \<lparr>mp_aud = ''vellum-daemon'', mp_sub = toDaemonSubject (tc_sub edgeClaims), mp_scope_profile = targetScopeProfile,
        mp_policy_epoch = CURRENT_POLICY_EPOCH, mp_ttlSeconds = EXCHANGE_TOKEN_TTL_SECONDS\<rparr>"

definition service_params :: "string \<Rightarrow> string \<Rightarrow> int \<Rightarrow> mint_params" where
  "service_params aud profile ttl =
     \<lparr>mp_aud = aud, mp_sub = ''svc:gateway:self'', mp_scope_profile = profile, mp_policy_epoch = CURRENT_POLICY_EPOCH,
      mp_ttlSeconds = ttl\<rparr>"

definition mintIngressToken :: "token_env \<Rightarrow> int \<Rightarrow> string \<Rightarrow> string" where
  "mintIngressToken env nowMs jti =
     mintToken env nowMs jti (service_params ''vellum-daemon'' ''gateway_ingress_v1'' EXCHANGE_TOKEN_TTL_SECONDS)"

definition mintServiceToken :: "token_env \<Rightarrow> int \<Rightarrow> string \<Rightarrow> string" where
  "mintServiceToken env nowMs jti =
     mintToken env nowMs jti (service_params ''vellum-daemon'' ''gateway_service_v1'' EXCHANGE_TOKEN_TTL_SECONDS)"

definition mintRelayToken :: "token_env \<Rightarrow> int \<Rightarrow> string \<Rightarrow> string" where
  "mintRelayToken env nowMs jti =
     mintToken env nowMs jti (service_params ''vellum-gateway'' ''gateway_service_v1'' EXCHANGE_TOKEN_TTL_SECONDS)"

definition mintUiPageToken :: "token_env \<Rightarrow> int \<Rightarrow> string \<Rightarrow> string" where
  "mintUiPageToken env nowMs jti = mintToken env nowMs jti (service_params ''vellum-gateway'' ''ui_page_v1'' 3600)"

section \<open>The daemon\<close>

record AuthContext =
  ac_subject :: string
  ac_principalType :: PrincipalType
  ac_assistantId :: string
  ac_actorPrincipalId :: "string option"
  ac_conversationId :: "string option"
  ac_scopeProfile :: string
  ac_scopes :: "string list"
  ac_policyEpoch :: int

definition buildAuthContext :: "TokenClaims \<Rightarrow> string + AuthContext" where
  "buildAuthContext claims =
     (case parseSub (tc_sub claims) of
        Inl reason \<Rightarrow> Inl reason
      | Inr s \<Rightarrow>
          Inr \<lparr>ac_subject = tc_sub claims, ac_principalType = sb_principalType s,
               ac_assistantId = (if tc_aud claims = ''vellum-daemon'' then ''self'' else sb_assistantId s),
               ac_actorPrincipalId = sb_actorPrincipalId s, ac_conversationId = sb_conversationId s,
               ac_scopeProfile = tc_scope_profile claims,
               ac_scopes = resolveScopeProfile DAEMON_PROFILE_SCOPES (tc_scope_profile claims),
               ac_policyEpoch = tc_policy_epoch claims\<rparr>)"

definition MAX_SAFE_INTEGER :: int where
  "MAX_SAFE_INTEGER = 9007199254740991"

definition buildDevBypassContext :: AuthContext where
  "buildDevBypassContext =
     \<lparr>ac_subject = ''actor:self:dev-bypass'', ac_principalType = PrActor, ac_assistantId = ''self'',
      ac_actorPrincipalId = Some ''dev-bypass'', ac_conversationId = None, ac_scopeProfile = ''actor_client_v1'',
      ac_scopes = resolveScopeProfile DAEMON_PROFILE_SCOPES ''actor_client_v1'', ac_policyEpoch = MAX_SAFE_INTEGER\<rparr>"

definition daemon_bearer :: "string option \<Rightarrow> string option" where
  "daemon_bearer authHeader =
     (case authHeader of None \<Rightarrow> None | Some h \<Rightarrow> if starts_with ''Bearer '' h then Some (drop 7 h) else None)"

datatype auth_denied = MissingAuthorization | RefreshRequired | InvalidToken verify_failure | InvalidClaims string

text \<open>\<open>nowMs'\<close> is the clock of the second verification.\<close>

definition authenticateToken :: "token_env \<Rightarrow> int \<Rightarrow> int \<Rightarrow> string \<Rightarrow> auth_denied + AuthContext" where
  "authenticateToken env nowMs nowMs' token =
     (let first = verifyToken env nowMs False token ''vellum-daemon'';
          result = (if first = Inl AudienceMismatch
                    then map_sum id (\<lambda>c. c\<lparr>tc_aud := ''vellum-daemon''\<rparr>) (verifyToken env nowMs' False token ''vellum-gateway'')
                    else first)
      in case result of
           Inl f \<Rightarrow> Inl (if f = StalePolicyEpoch then RefreshRequired else InvalidToken f)
         | Inr claims \<Rightarrow>
             (case buildAuthContext claims of Inl reason \<Rightarrow> Inl (InvalidClaims reason) | Inr c \<Rightarrow> Inr c))"

definition authenticateRequest :: "token_env \<Rightarrow> bool \<Rightarrow> int \<Rightarrow> int \<Rightarrow> string option \<Rightarrow> auth_denied + AuthContext" where
  "authenticateRequest env authDisabled nowMs nowMs' authHeader =
     (if authDisabled then Inr buildDevBypassContext
      else
        case daemon_bearer authHeader of
          None \<Rightarrow> Inl MissingAuthorization
        | Some token \<Rightarrow> if token = [] then Inl MissingAuthorization else authenticateToken env nowMs nowMs' token)"

record RoutePolicy =
  rp_requiredScopes :: "string list"
  rp_allowedPrincipalTypes :: "PrincipalType list"

datatype policy_denied = SingleRouteGrant | PrincipalNotAllowed | UnparsedPrincipal | MissingScope string

definition missing_scope :: "string list \<Rightarrow> string list \<Rightarrow> policy_denied option" where
  "missing_scope scopes required = map_option MissingScope (find (\<lambda>s. s \<notin> set scopes) required)"

definition names_no_scope :: "RoutePolicy option \<Rightarrow> bool" where
  "names_no_scope policy = (case policy of None \<Rightarrow> True | Some p \<Rightarrow> rp_requiredScopes p = [])"

text \<open>\<open>None\<close> lets the request through.\<close>

definition enforcePolicy :: "bool \<Rightarrow> RoutePolicy option \<Rightarrow> AuthContext \<Rightarrow> policy_denied option" where
  "enforcePolicy authDisabled policy ctx =
     (if authDisabled then None
      else if names_no_scope policy \<and> isNarrowScopeProfile (ac_scopeProfile ctx) then Some SingleRouteGrant
      else
        case policy of
          None \<Rightarrow> None
        | Some p \<Rightarrow>
            if ac_principalType ctx \<notin> set (rp_allowedPrincipalTypes p) then Some PrincipalNotAllowed
            else missing_scope (ac_scopes ctx) (rp_requiredScopes p))"

text \<open>The gateway's own enforcement on the IPC path, \<open>None\<close> for the claims where authentication is off.\<close>

definition enforceRoutePolicy :: "RoutePolicy option \<Rightarrow> TokenClaims option \<Rightarrow> policy_denied option" where
  "enforceRoutePolicy policy claims =
     (case claims of
        None \<Rightarrow> None
      | Some c \<Rightarrow>
          if names_no_scope policy \<and> isNarrowScopeProfile (tc_scope_profile c) then Some SingleRouteGrant
          else
            case policy of
              None \<Rightarrow> None
            | Some p \<Rightarrow>
                let principal =
                  (if rp_allowedPrincipalTypes p = [] then None
                   else case parseSub (tc_sub c) of
                          Inl _ \<Rightarrow> Some UnparsedPrincipal
                        | Inr s \<Rightarrow> if sb_principalType s \<notin> set (rp_allowedPrincipalTypes p) then Some PrincipalNotAllowed else None)
                in case principal of
                     Some d \<Rightarrow> Some d
                   | None \<Rightarrow> missing_scope (resolveScopeProfile GATEWAY_PROFILE_SCOPES (tc_scope_profile c)) (rp_requiredScopes p))"

section \<open>The codec and its laws\<close>

text \<open>\<open>trimEnd\<close>: what \<open>trim\<close> removes at the end.\<close>

definition trim_end :: "string \<Rightarrow> string" where
  "trim_end s = rev (dropWhile js_space (rev s))"

locale buffer_codec =
  fixes enc :: "string \<Rightarrow> string" and dec :: "string \<Rightarrow> string"
  assumes dec_enc: "dec (enc b) = b"
    and enc_plain: "c \<in> set (enc b) \<Longrightarrow> c \<noteq> CHR ''.'' \<and> \<not> js_space c"
    and dec_trim: "dec (trim_end s) = dec s"
begin

lemma respelled: "dec s = b \<Longrightarrow> enc (dec (trim_end s)) = enc b"
  by (simp add: dec_trim)

lemma trim_enc: "trim_end (enc b) = enc b"
  using enc_plain [of _ b] by (cases "rev (enc b)") (auto simp: trim_end_def simp flip: rev_swap)

end

lemma octets_sextets: "\<forall>n \<in> set ns. n < 256 \<Longrightarrow> octets (sextets ns) = ns"
proof (induction ns rule: sextets.induct)
  case (1 a b c r)
  then have "b < 256" "c < 256" by simp_all
  then have "b div 16 < 16" "c div 64 < 4" by simp_all
  with 1 show ?case by simp
qed auto

lemma sextets_bound: "\<forall>n \<in> set ns. n < 256 \<Longrightarrow> \<forall>n \<in> set (sextets ns). n < 64"
proof (induction ns rule: sextets.induct)
  case (1 a b c r)
  then have "a div 4 < 64" "b div 16 < 16" "c div 64 < 4" by auto
  moreover have "a mod 4 \<le> 3" "b mod 16 \<le> 15" by simp_all
  ultimately have "(a mod 4) * 16 + b div 16 < 64" "(b mod 16) * 4 + c div 64 < 64" by linarith+
  with 1 \<open>a div 4 < 64\<close> show ?case by simp
next
  case (2 a b)
  then have "a div 4 < 64" "b div 16 < 16" by auto
  moreover have "a mod 4 \<le> 3" "b mod 16 \<le> 15" by simp_all
  ultimately show ?case by simp
next
  case (3 a)
  then have "a div 4 < 64" "a mod 4 \<le> 3" by auto
  then show ?case by simp
qed simp

lemma of_char_b64: "n < 64 \<Longrightarrow> of_char (b64_digit n) =
    (if n < 26 then 65 + n else if n < 52 then 71 + n else if n < 62 then n - 4 else if n = 62 then 45 else 95)"
  by (simp add: b64_digit_def)

lemma b64_value_digit: "n < 64 \<Longrightarrow> b64_value (b64_digit n) = Some n"
  unfolding b64_value_def Let_def of_char_b64 by (auto split: if_splits)

lemma b64_space: "js_space c \<Longrightarrow> b64_value c = None"
  by (auto simp: js_space_def b64_value_def Let_def)

lemma map_filter_b64: "\<forall>n \<in> set ns. n < 64 \<Longrightarrow> List.map_filter b64_value (map b64_digit ns) = ns"
  by (induction ns) (simp_all add: List.map_filter_def b64_value_digit)

lemma map_filter_trim: "List.map_filter b64_value (trim_end s) = List.map_filter b64_value s"
proof -
  have "s = trim_end s @ rev (takeWhile js_space (rev s))"
    unfolding trim_end_def by (metis rev_append rev_rev_ident takeWhile_dropWhile_id)
  moreover have "List.map_filter b64_value (rev (takeWhile js_space (rev s))) = []"
    by (auto simp: List.map_filter_def filter_empty_conv dest: set_takeWhileD b64_space)
  moreover have "List.map_filter b64_value (xs @ ys) = List.map_filter b64_value xs @ List.map_filter b64_value ys" for xs ys
    by (simp add: List.map_filter_def)
  ultimately show ?thesis by (metis append_Nil2)
qed

lemma bytes_bound: "\<forall>n \<in> set (map of_char (b :: string)). n < (256 :: nat)"
  by simp

interpretation b64: buffer_codec base64url_encode base64url_decode
proof
  fix b s c
  have "List.map_filter b64_value (base64url_encode b) = sextets (map of_char b)"
    unfolding base64url_encode_def by (rule map_filter_b64 [OF sextets_bound [OF bytes_bound]])
  then show "base64url_decode (base64url_encode b) = b"
    by (simp add: base64url_decode_def octets_sextets [OF bytes_bound] map_idI)
  show "base64url_decode (trim_end s) = base64url_decode s"
    by (simp add: base64url_decode_def map_filter_trim)
  assume "c \<in> set (base64url_encode b)"
  then obtain n where n: "n < 64" "c = b64_digit n"
    using sextets_bound [OF bytes_bound, of b] by (auto simp: base64url_encode_def)
  then have "b64_value c = Some n" by (simp add: b64_value_digit)
  moreover have "b64_value (CHR ''.'') = None" by code_simp
  ultimately show "c \<noteq> CHR ''.'' \<and> \<not> js_space c" using b64_space by auto
qed

definition token_laws :: "token_env \<Rightarrow> bool" where
  "token_laws env = (buffer_codec (tk_encode env) (tk_decode env) \<and> (\<forall>c. tk_parse env (tk_json env c) = Some c))"


section \<open>Splitting at a character\<close>

lemma split_char_ne [simp]: "split_char d s \<noteq> []"
  by (induction s) (auto split: list.split)

lemma split_char_absent: "d \<notin> set s \<Longrightarrow> split_char d s = [s]"
  by (induction s) auto

lemma split_char_sep: "d \<notin> set s \<Longrightarrow> split_char d (s @ d # t) = s # split_char d t"
  by (induction s) auto

lemma split_char_parts: "w \<in> set (split_char d s) \<Longrightarrow> d \<notin> set w"
proof (induction s arbitrary: w)
  case (Cons c s)
  then show ?case by (cases "split_char d s") (auto split: if_splits)
qed simp

lemma join_split_char: "join_strings [d] (split_char d s) = s"
proof (induction s)
  case (Cons c s)
  then show ?case
    by (cases "split_char d s"; cases "tl (split_char d s)") auto
qed simp

section \<open>Tokens\<close>

lemma token_lawsD:
  assumes "token_laws env"
  shows "buffer_codec (tk_encode env) (tk_decode env)" "tk_parse env (tk_json env c) = Some c"
  using assms by (simp_all add: token_laws_def)

lemma encode_no_dot: "token_laws env \<Longrightarrow> CHR ''.'' \<notin> set (tk_encode env b)"
  using buffer_codec.enc_plain [OF token_lawsD(1), of env] by blast

lemma verify_signed:
  assumes "token_laws env"
  shows "verifyToken env now allow (sign env (tk_encode env h @ ''.'' @ tk_encode env p)) aud =
      (case tk_parse env p of
         None \<Rightarrow> Inl MalformedClaims
       | Some c \<Rightarrow> if tc_aud c \<noteq> aud then Inl AudienceMismatch
                   else if \<not> allow \<and> tc_exp c \<le> now div 1000 then Inl TokenExpired
                   else if isStaleEpoch (tc_policy_epoch c) then Inl StalePolicyEpoch
                   else Inr c)"
  using encode_no_dot [OF assms] buffer_codec.dec_enc [OF token_lawsD(1) [OF assms]]
  by (simp add: verifyToken_def sign_def split_char_sep split_char_absent)

lemma verify_mint:
  assumes "token_laws env"
  shows "verifyToken env now allow (mintToken env now0 jti p) aud =
      (if mp_aud p \<noteq> aud then Inl AudienceMismatch
       else if \<not> allow \<and> now0 div 1000 + mp_ttlSeconds p \<le> now div 1000 then Inl TokenExpired
       else if isStaleEpoch (mp_policy_epoch p) then Inl StalePolicyEpoch
       else Inr (minted_claims now0 jti p))"
  unfolding mintToken_def JWT_HEADER_def verify_signed [OF assms] token_lawsD(2) [OF assms]
  by (simp add: minted_claims_def)

lemma verify_success:
  assumes "verifyToken env now allow token aud = Inr c"
  obtains h p s where "split_char (CHR ''.'') token = [h, p, s]" "tk_decode env s = tk_mac env (h @ ''.'' @ p)"
    "tk_parse env (tk_decode env p) = Some c" "tc_aud c = aud" "allow \<or> now div 1000 < tc_exp c"
    "\<not> isStaleEpoch (tc_policy_epoch c)"
proof -
  from assms obtain h p s where parts: "split_char (CHR ''.'') token = [h, p, s]"
    by (auto simp: verifyToken_def split: list.splits)
  with assms obtain c' where "tk_decode env s = tk_mac env (h @ ''.'' @ p)" "tk_parse env (tk_decode env p) = Some c'"
    by (auto simp: verifyToken_def split: if_splits option.splits)
  with assms parts show ?thesis
    by (intro that [of h p s]) (auto simp: verifyToken_def split: if_splits)
qed

section \<open>Subjects\<close>

text \<open>Who a subject speaks for, as the daemon learns it through the exchange.\<close>

definition sub_actor :: "string \<Rightarrow> string option" where
  "sub_actor sub = (case parseSub sub of Inl _ \<Rightarrow> None | Inr p \<Rightarrow> sb_actorPrincipalId p)"

definition sub_conversation :: "string \<Rightarrow> string option" where
  "sub_conversation sub = (case parseSub sub of Inl _ \<Rightarrow> None | Inr p \<Rightarrow> sb_conversationId p)"

definition daemon_principal :: "string \<Rightarrow> PrincipalType" where
  "daemon_principal sub =
     (case parseSub sub of
        Inl _ \<Rightarrow> PrSvcGateway
      | Inr p \<Rightarrow> if sb_principalType p \<in> {PrActor, PrLocal} then sb_principalType p else PrSvcGateway)"

lemma parse_actor:
  "a \<noteq> [] \<Longrightarrow> b \<noteq> [] \<Longrightarrow> CHR '':'' \<notin> set a \<Longrightarrow> CHR '':'' \<notin> set b \<Longrightarrow>
    parseSub (''actor:'' @ a @ '':'' @ b) =
      Inr \<lparr>sb_principalType = PrActor, sb_assistantId = a, sb_actorPrincipalId = Some b, sb_conversationId = None\<rparr>"
  by (simp add: parseSub_def split_char_sep split_char_absent)

lemma parse_local:
  "a \<noteq> [] \<Longrightarrow> b \<noteq> [] \<Longrightarrow> CHR '':'' \<notin> set a \<Longrightarrow> CHR '':'' \<notin> set b \<Longrightarrow>
    parseSub (''local:'' @ a @ '':'' @ b) =
      Inr \<lparr>sb_principalType = PrLocal, sb_assistantId = a, sb_actorPrincipalId = None, sb_conversationId = Some b\<rparr>"
  by (simp add: parseSub_def split_char_sep split_char_absent)

lemma parse_gateway_self:
  "parseSub ''svc:gateway:self'' =
     Inr \<lparr>sb_principalType = PrSvcGateway, sb_assistantId = ''self'', sb_actorPrincipalId = None, sb_conversationId = None\<rparr>"
  by (simp add: parseSub_def)

lemma parse_sub_cases:
  assumes "parseSub sub = Inr s"
  obtains b where "sb_principalType s = PrActor" "sb_actorPrincipalId s = Some b" "sb_conversationId s = None"
      "b \<noteq> []" "CHR '':'' \<notin> set b"
  | b where "sb_principalType s = PrLocal" "sb_actorPrincipalId s = None" "sb_conversationId s = Some b"
      "b \<noteq> []" "CHR '':'' \<notin> set b"
  | "sb_principalType s \<in> {PrSvcGateway, PrSvcDaemon}" "sb_actorPrincipalId s = None" "sb_conversationId s = None"
proof -
  from assms obtain k a b where parts: "split_char (CHR '':'') sub = [k, a, b]"
    by (auto simp: parseSub_def split: if_splits list.splits)
  then have "CHR '':'' \<notin> set b" using split_char_parts [of b "CHR '':''" sub] by simp
  with assms parts that show ?thesis
    by (auto simp: parseSub_def split: if_splits)
qed

lemma daemon_subject_parse:
  "parseSub (toDaemonSubject sub) =
     Inr \<lparr>sb_principalType = daemon_principal sub, sb_assistantId = ''self'', sb_actorPrincipalId = sub_actor sub,
          sb_conversationId = sub_conversation sub\<rparr>"
proof (cases "parseSub sub")
  case (Inr s)
  then show ?thesis
  proof (cases rule: parse_sub_cases [OF Inr])
    case (1 b)
    with Inr show ?thesis
      using parse_actor [of "''self''" b] by (simp add: toDaemonSubject_def daemon_principal_def sub_actor_def sub_conversation_def)
  next
    case (2 b)
    with Inr show ?thesis
      using parse_local [of "''self''" b] by (simp add: toDaemonSubject_def daemon_principal_def sub_actor_def sub_conversation_def)
  next
    case 3
    with Inr show ?thesis
      by (auto simp: toDaemonSubject_def daemon_principal_def sub_actor_def sub_conversation_def parse_gateway_self)
  qed
qed (simp add: toDaemonSubject_def daemon_principal_def sub_actor_def sub_conversation_def parse_gateway_self)


section \<open>Authentication at the daemon\<close>

lemma build_context_exchange:
  "buildAuthContext (minted_claims now jti \<lparr>mp_aud = ''vellum-daemon'', mp_sub = toDaemonSubject sub, mp_scope_profile = profile,
       mp_policy_epoch = CURRENT_POLICY_EPOCH, mp_ttlSeconds = ttl\<rparr>) =
     Inr \<lparr>ac_subject = toDaemonSubject sub, ac_principalType = daemon_principal sub, ac_assistantId = ''self'',
          ac_actorPrincipalId = sub_actor sub, ac_conversationId = sub_conversation sub, ac_scopeProfile = profile,
          ac_scopes = resolveScopeProfile DAEMON_PROFILE_SCOPES profile, ac_policyEpoch = CURRENT_POLICY_EPOCH\<rparr>"
  by (simp add: buildAuthContext_def minted_claims_def daemon_subject_parse)

lemma bearer_header [simp]: "daemon_bearer (Some (''Bearer '' @ t)) = Some t"
  by (simp add: daemon_bearer_def starts_with_def)

lemma mint_not_empty: "mintToken env now jti p \<noteq> []"
  by (simp add: mintToken_def sign_def)

lemma authenticate_bearer:
  "token \<noteq> [] \<Longrightarrow> authenticateRequest env False now now' (Some (''Bearer '' @ token)) = authenticateToken env now now' token"
  unfolding authenticateRequest_def bearer_header by simp

lemma authenticate_daemon_token:
  assumes "verifyToken env now False token ''vellum-daemon'' = Inr c"
  shows "authenticateToken env now now' token =
      (case buildAuthContext c of Inl reason \<Rightarrow> Inl (InvalidClaims reason) | Inr x \<Rightarrow> Inr x)"
  using assms by (simp add: authenticateToken_def)

lemma exchange_core:
  assumes laws: "token_laws env" and fresh: "nowD div 1000 < nowE div 1000 + 60"
  shows "authenticateRequest env False nowD nowD' (Some (''Bearer '' @ mintExchangeToken env nowE jti c profile)) =
      Inr \<lparr>ac_subject = toDaemonSubject (tc_sub c), ac_principalType = daemon_principal (tc_sub c), ac_assistantId = ''self'',
           ac_actorPrincipalId = sub_actor (tc_sub c), ac_conversationId = sub_conversation (tc_sub c), ac_scopeProfile = profile,
           ac_scopes = resolveScopeProfile DAEMON_PROFILE_SCOPES profile, ac_policyEpoch = CURRENT_POLICY_EPOCH\<rparr>"
proof -
  let ?p = "\<lparr>mp_aud = ''vellum-daemon'', mp_sub = toDaemonSubject (tc_sub c), mp_scope_profile = profile,
    mp_policy_epoch = CURRENT_POLICY_EPOCH, mp_ttlSeconds = EXCHANGE_TOKEN_TTL_SECONDS\<rparr>"
  have "verifyToken env nowD False (mintToken env nowE jti ?p) ''vellum-daemon'' = Inr (minted_claims nowE jti ?p)"
    unfolding verify_mint [OF laws] using fresh by (simp add: EXCHANGE_TOKEN_TTL_SECONDS_def isStaleEpoch_def)
  then show ?thesis
    unfolding mintExchangeToken_def authenticate_bearer [OF mint_not_empty]
    by (simp add: authenticate_daemon_token build_context_exchange)
qed

lemma authenticate_token_success:
  assumes "authenticateToken env now now' token = Inr ctx"
  obtains c aud t where "(aud, t) \<in> {(''vellum-daemon'', now), (''vellum-gateway'', now')}"
    "verifyToken env t False token aud = Inr c" "buildAuthContext (c\<lparr>tc_aud := ''vellum-daemon''\<rparr>) = Inr ctx"
proof (cases "verifyToken env now False token ''vellum-daemon''")
  case (Inr c)
  with assms have "buildAuthContext c = Inr ctx"
    by (auto simp: authenticate_daemon_token [OF Inr] split: sum.splits)
  moreover have "c\<lparr>tc_aud := ''vellum-daemon''\<rparr> = c"
    by (rule verify_success [OF Inr]) (cases c, simp)
  ultimately show ?thesis
    using that [of "''vellum-daemon''" now c] Inr by simp
next
  case (Inl f)
  with assms obtain c where "verifyToken env now' False token ''vellum-gateway'' = Inr c"
    "buildAuthContext (c\<lparr>tc_aud := ''vellum-daemon''\<rparr>) = Inr ctx"
    by (cases "verifyToken env now' False token ''vellum-gateway''"; cases "f = AudienceMismatch")
      (auto simp: authenticateToken_def Let_def split: sum.splits)
  then show ?thesis
    using that [of "''vellum-gateway''" now' c] by simp
qed

lemma authenticate_success:
  assumes "authenticateRequest env False now now' header = Inr ctx"
  obtains token where "header = Some (''Bearer '' @ token)" "authenticateToken env now now' token = Inr ctx"
proof -
  from assms obtain h where h: "header = Some h" "starts_with ''Bearer '' h"
    "authenticateToken env now now' (drop 7 h) = Inr ctx"
    by (auto simp: authenticateRequest_def daemon_bearer_def split: option.splits if_splits)
  have "take 7 h = ''Bearer ''" using h(2) by (simp add: starts_with_def numeral_eq_Suc)
  then have "h = ''Bearer '' @ drop 7 h" by (metis append_take_drop_id)
  with h show ?thesis by (intro that [of "drop 7 h"]) simp_all
qed

lemma context_scopes:
  assumes "buildAuthContext c = Inr ctx"
  shows "ac_scopes ctx = resolveScopeProfile DAEMON_PROFILE_SCOPES (ac_scopeProfile ctx)"
  using assms by (auto simp: buildAuthContext_def split: sum.splits)

lemma narrow_profiles:
  "isNarrowScopeProfile profile \<Longrightarrow>
    resolveScopeProfile DAEMON_PROFILE_SCOPES profile =
      (if profile = ''oauth_proxy_v1'' then [''oauth.proxy''] else if profile = ''speech_relay_v1'' then [''speech.relay''] else [])"
  by (auto simp: isNarrowScopeProfile_def BROAD_SCOPE_PROFILES_def resolveScopeProfile_def DAEMON_PROFILE_SCOPES_def
      split: if_splits)

lemma missing_scope_None: "missing_scope scopes required = None \<longleftrightarrow> set required \<subseteq> set scopes"
  by (auto simp: missing_scope_def find_None_iff)

lemma scope_tables_agree:
  "s \<noteq> ''admin.write'' \<Longrightarrow>
    s \<in> set (resolveScopeProfile GATEWAY_PROFILE_SCOPES profile) \<longleftrightarrow>
    s \<in> set (resolveScopeProfile DAEMON_PROFILE_SCOPES profile)"
  unfolding resolveScopeProfile_def GATEWAY_PROFILE_SCOPES_def DAEMON_PROFILE_SCOPES_def
  by (simp split: if_splits)

lemma missing_scope_tables:
  "''admin.write'' \<notin> set required \<Longrightarrow>
    missing_scope (resolveScopeProfile GATEWAY_PROFILE_SCOPES profile) required =
    missing_scope (resolveScopeProfile DAEMON_PROFILE_SCOPES profile) required"
  unfolding missing_scope_def by (induction required) (auto simp: scope_tables_agree)

section \<open>A concrete environment\<close>

text \<open>
  For the witnesses: the codec above, claims written as the sequence of their fields (every character of a field
  behind a mark, every field closed by a comma, integers in binary), and a digest that reverses the bytes.
\<close>

fun write_bits :: "nat \<Rightarrow> string" where
  "write_bits n = (if n = 0 then [] else (if odd n then CHR ''1'' else CHR ''0'') # write_bits (n div 2))"

declare write_bits.simps [simp del]

fun read_bits :: "string \<Rightarrow> nat" where
  "read_bits [] = 0"
| "read_bits (c # s) = of_bool (c = CHR ''1'') + 2 * read_bits s"

definition write_int :: "int \<Rightarrow> string" where
  "write_int i = (if i < 0 then CHR ''-'' else CHR ''+'') # write_bits (nat \<bar>i\<bar>)"

definition read_int :: "string \<Rightarrow> int" where
  "read_int s = (case s of [] \<Rightarrow> 0 | c # r \<Rightarrow> (if c = CHR ''-'' then - int (read_bits r) else int (read_bits r)))"

definition write_field :: "string \<Rightarrow> string" where
  "write_field s = concat (map (\<lambda>c. [CHR ''x'', c]) s) @ '',''"

fun read_fields :: "string \<Rightarrow> string list" where
  "read_fields (m # c # r) =
     (if m = CHR '','' then [] # read_fields (c # r)
      else (case read_fields r of [] \<Rightarrow> [[c]] | w # ws \<Rightarrow> (c # w) # ws))"
| "read_fields [m] = [[]]"
| "read_fields [] = []"

definition write_claims :: "TokenClaims \<Rightarrow> string" where
  "write_claims c =
     concat (map write_field [tc_iss c, tc_aud c, tc_sub c, tc_scope_profile c, write_int (tc_exp c), write_int (tc_policy_epoch c),
       (case tc_iat c of None \<Rightarrow> [] | Some i \<Rightarrow> write_int i), (case tc_jti c of None \<Rightarrow> [] | Some j \<Rightarrow> CHR ''j'' # j)])"

definition read_claims :: "string \<Rightarrow> TokenClaims option" where
  "read_claims s =
     (case read_fields s of
        [iss, aud, sub, profile, e, epoch, iat, jti] \<Rightarrow>
          Some \<lparr>tc_iss = iss, tc_aud = aud, tc_sub = sub, tc_scope_profile = profile, tc_exp = read_int e,
                tc_policy_epoch = read_int epoch, tc_iat = (if iat = [] then None else Some (read_int iat)),
                tc_jti = (case jti of [] \<Rightarrow> None | _ # j \<Rightarrow> Some j)\<rparr>
      | _ \<Rightarrow> None)"

definition sample_env :: token_env where
  "sample_env =
     \<lparr>tk_mac = rev, tk_encode = base64url_encode, tk_decode = base64url_decode, tk_json = write_claims, tk_parse = read_claims,
      tk_hash = id\<rparr>"

lemma read_write_bits: "read_bits (write_bits n) = n"
proof (induction n rule: write_bits.induct)
  case (1 n)
  then show ?case by (subst write_bits.simps) (auto elim!: oddE evenE)
qed

lemma read_write_int: "read_int (write_int i) = i"
  by (simp add: read_int_def write_int_def read_write_bits)

lemma write_int_ne: "write_int i \<noteq> []"
  by (simp add: write_int_def)

lemma read_write_field: "read_fields (write_field w @ r) = w # read_fields r"
proof (induction w)
  case Nil
  then show ?case by (cases r) (simp_all add: write_field_def)
qed (simp_all add: write_field_def)

lemma read_write_fields: "read_fields (concat (map write_field ws)) = ws"
  by (induction ws) (simp_all add: read_write_field)

lemma sample_laws: "token_laws sample_env"
proof -
  have "read_claims (write_claims c) = Some c" for c
    unfolding read_claims_def write_claims_def read_write_fields
    by (cases c) (simp add: read_write_int write_int_ne split: option.split)
  then show ?thesis
    by (simp add: token_laws_def sample_env_def b64.buffer_codec_axioms)
qed

section \<open>Properties\<close>

text \<open>C29: A minted token is read back as exactly the claims it was minted with, when it is presented for its own
  audience, in time (or where expiry is waived) and under the current policy epoch; and each of the three
  failures is reported as such, audience first.\<close>

theorem token_roundtrip:
  assumes "token_laws env"
  shows "verifyToken env now allowExpired (mintToken env mintedAt jti p) aud =
      (if mp_aud p \<noteq> aud then Inl AudienceMismatch
       else if \<not> allowExpired \<and> mintedAt div 1000 + mp_ttlSeconds p \<le> now div 1000 then Inl TokenExpired
       else if mp_policy_epoch p < CURRENT_POLICY_EPOCH then Inl StalePolicyEpoch
       else Inr (minted_claims mintedAt jti p))"
  unfolding verify_mint [OF assms] by (simp add: isStaleEpoch_def)

theorem token_roundtrip_witness:
  "verifyToken sample_env 3599999 False (mintUiPageToken sample_env 0 ''ab'') ''vellum-gateway'' =
     Inr (minted_claims 0 ''ab'' (service_params ''vellum-gateway'' ''ui_page_v1'' 3600))"
  unfolding mintUiPageToken_def token_roundtrip [OF sample_laws]
  by (simp add: service_params_def CURRENT_POLICY_EPOCH_def)

text \<open>The daemon authenticates what the gateway exchanges: within its minute, an exchange token for the
  claims of any edge token is accepted and gives a context that speaks for the same actor or conversation, of this
  assistant (\<open>self\<close>) whatever assistant the edge token named, with the daemon's scopes of the same profile; every
  other subject becomes the gateway service.\<close>

theorem proxied_request_context:
  assumes "token_laws env"
    and "nowD div 1000 < nowX div 1000 + EXCHANGE_TOKEN_TTL_SECONDS"
  shows "authenticateRequest env False nowD nowD'
        (Some (''Bearer '' @ mintExchangeToken env nowX jti c (tc_scope_profile c))) =
      Inr \<lparr>ac_subject = toDaemonSubject (tc_sub c), ac_principalType = daemon_principal (tc_sub c), ac_assistantId = ''self'',
           ac_actorPrincipalId = sub_actor (tc_sub c), ac_conversationId = sub_conversation (tc_sub c),
           ac_scopeProfile = tc_scope_profile c,
           ac_scopes = resolveScopeProfile DAEMON_PROFILE_SCOPES (tc_scope_profile c), ac_policyEpoch = CURRENT_POLICY_EPOCH\<rparr>"
proof -
  have "nowD div 1000 < nowX div 1000 + 60"
    using assms(2) by (simp add: EXCHANGE_TOKEN_TTL_SECONDS_def)
  from exchange_core [OF assms(1) this] show ?thesis .
qed

definition sample_actor :: mint_params where
  "sample_actor =
     \<lparr>mp_aud = ''vellum-gateway'', mp_sub = ''actor:a1:p1'', mp_scope_profile = ''actor_client_v1'', mp_policy_epoch = 1,
      mp_ttlSeconds = 900\<rparr>"

lemma sample_sub:
  "tc_sub (minted_claims t j sample_actor) = ''actor:a1:p1''" "tc_scope_profile (minted_claims t j sample_actor) = ''actor_client_v1''"
  "sub_actor ''actor:a1:p1'' = Some ''p1''" "daemon_principal ''actor:a1:p1'' = PrActor"
  "toDaemonSubject ''actor:a1:p1'' = ''actor:self:p1''" "sub_conversation ''actor:a1:p1'' = None"
  by (simp_all add: minted_claims_def sample_actor_def sub_actor_def daemon_principal_def toDaemonSubject_def sub_conversation_def
      parseSub_def)

theorem proxied_request_context_witness:
  "map_sum id (\<lambda>x. (ac_subject x, ac_actorPrincipalId x, ac_assistantId x))
     (authenticateRequest sample_env False 65999 65999
        (Some (''Bearer '' @ mintExchangeToken sample_env 6000 ''n2'' (minted_claims 0 ''n1'' sample_actor)
          (tc_scope_profile (minted_claims 0 ''n1'' sample_actor))))) =
   Inr (''actor:self:p1'', Some ''p1'', ''self'')"
proof -
  have "(65999 :: int) div 1000 < 6000 div 1000 + EXCHANGE_TOKEN_TTL_SECONDS"
    by (simp add: EXCHANGE_TOKEN_TTL_SECONDS_def)
  from proxied_request_context [OF sample_laws this, of 65999 "''n2''" "minted_claims 0 ''n1'' sample_actor"]
  show ?thesis by (simp only: map_sum.simps sample_sub AuthContext.simps)
qed

text \<open>C27: Nobody is authenticated without a signature: a request the daemon accepts (outside the development
  bypass) carries a bearer token whose signature bytes are the keyed digest of its header and payload and whose
  payload names the daemon or the gateway as audience, has not expired and is of the current policy epoch.\<close>

theorem authenticated_request_is_signed:
  assumes "authenticateRequest env False now now' header = Inr ctx"
  shows "\<exists>h p s c. header = Some (''Bearer '' @ h @ ''.'' @ p @ ''.'' @ s) \<and>
      tk_decode env s = tk_mac env (h @ ''.'' @ p) \<and> tk_parse env (tk_decode env p) = Some c \<and>
      tc_aud c \<in> {''vellum-daemon'', ''vellum-gateway''} \<and> min now now' div 1000 < tc_exp c \<and>
      CURRENT_POLICY_EPOCH \<le> tc_policy_epoch c \<and> ac_subject ctx = tc_sub c \<and> ac_scopeProfile ctx = tc_scope_profile c"
proof -
  from assms obtain token where token: "header = Some (''Bearer '' @ token)" "authenticateToken env now now' token = Inr ctx"
    by (rule authenticate_success)
  from token(2) obtain c aud t where
    c: "(aud, t) \<in> {(''vellum-daemon'', now), (''vellum-gateway'', now')}" "verifyToken env t False token aud = Inr c"
      "buildAuthContext (c\<lparr>tc_aud := ''vellum-daemon''\<rparr>) = Inr ctx"
    by (rule authenticate_token_success)
  from c(2) obtain h p s where
    v: "split_char (CHR ''.'') token = [h, p, s]" "tk_decode env s = tk_mac env (h @ ''.'' @ p)"
      "tk_parse env (tk_decode env p) = Some c" "tc_aud c = aud" "False \<or> t div 1000 < tc_exp c"
      "\<not> isStaleEpoch (tc_policy_epoch c)"
    by (rule verify_success)
  have "token = h @ ''.'' @ p @ ''.'' @ s"
    using join_split_char [of "CHR ''.''" token] v(1) by simp
  moreover have "min now now' div 1000 \<le> t div 1000"
    using c(1) by (auto intro!: zdiv_mono1)
  moreover have "ac_subject ctx = tc_sub c" "ac_scopeProfile ctx = tc_scope_profile c"
    using c(3) by (auto simp: buildAuthContext_def split: sum.splits)
  moreover have "aud \<in> {''vellum-daemon'', ''vellum-gateway''}" using c(1) by auto
  moreover have "min now now' div 1000 < tc_exp c" using v(5) calculation(2) by simp
  moreover have "CURRENT_POLICY_EPOCH \<le> tc_policy_epoch c" using v(6) by (simp add: isStaleEpoch_def)
  ultimately show ?thesis
    using v(2-4) token(1) by (intro exI [of _ h] exI [of _ p] exI [of _ s] exI [of _ c] conjI) simp_all
qed

theorem authenticated_request_is_signed_witness:
  "\<exists>h p s c. Some (''Bearer '' @ mintServiceToken sample_env 0 ''n3'') = Some (''Bearer '' @ h @ ''.'' @ p @ ''.'' @ s) \<and>
      tk_decode sample_env s = tk_mac sample_env (h @ ''.'' @ p) \<and> tk_parse sample_env (tk_decode sample_env p) = Some c \<and>
      tc_aud c \<in> {''vellum-daemon'', ''vellum-gateway''} \<and> min 1000 2000 div 1000 < tc_exp c \<and>
      CURRENT_POLICY_EPOCH \<le> tc_policy_epoch c \<and> tc_sub c = ''svc:gateway:self'' \<and> tc_scope_profile c = ''gateway_service_v1''"
proof -
  define p where "p = service_params ''vellum-daemon'' ''gateway_service_v1'' EXCHANGE_TOKEN_TTL_SECONDS"
  have verified: "verifyToken sample_env 1000 False (mintToken sample_env 0 ''n3'' p) ''vellum-daemon'' = Inr (minted_claims 0 ''n3'' p)"
    unfolding verify_mint [OF sample_laws]
    by (simp add: p_def service_params_def EXCHANGE_TOKEN_TTL_SECONDS_def isStaleEpoch_def)
  obtain x where x: "buildAuthContext (minted_claims 0 ''n3'' p) = Inr x" "ac_subject x = ''svc:gateway:self''"
      "ac_scopeProfile x = ''gateway_service_v1''"
    by (simp add: buildAuthContext_def minted_claims_def p_def service_params_def parse_gateway_self)
  have "authenticateRequest sample_env False 1000 2000 (Some (''Bearer '' @ mintServiceToken sample_env 0 ''n3'')) = Inr x"
    unfolding mintServiceToken_def p_def [symmetric] authenticate_bearer [OF mint_not_empty]
    by (simp add: authenticate_daemon_token [OF verified] x(1))
  from authenticated_request_is_signed [OF this] x(2,3) show ?thesis by metis
qed

text \<open>A grant for a single route stays on that route: a request authenticated with a narrow profile passes the
  daemon's route policy only for a route that requires the one scope of that profile and no other; a profile
  the daemon does not know passes no route at all.\<close>

theorem narrow_grant_single_route:
  assumes "authenticateRequest env False now now' header = Inr ctx"
    and "isNarrowScopeProfile (ac_scopeProfile ctx)"
    and "enforcePolicy False policy ctx = None"
  shows "\<exists>p. policy = Some p \<and>
      (ac_scopeProfile ctx, set (rp_requiredScopes p)) \<in> {(''oauth_proxy_v1'', {''oauth.proxy''}), (''speech_relay_v1'', {''speech.relay''})}"
proof -
  from assms(1) obtain token where "authenticateToken env now now' token = Inr ctx"
    by (rule authenticate_success)
  then obtain c where "buildAuthContext c = Inr ctx"
    by (rule authenticate_token_success)
  then have scopes: "ac_scopes ctx = resolveScopeProfile DAEMON_PROFILE_SCOPES (ac_scopeProfile ctx)"
    by (rule context_scopes)
  from assms(2,3) obtain p where p: "policy = Some p" "rp_requiredScopes p \<noteq> []"
    by (auto simp: enforcePolicy_def names_no_scope_def split: if_splits option.splits)
  with assms(2,3) have "set (rp_requiredScopes p) \<subseteq> set (ac_scopes ctx)"
    by (auto simp: enforcePolicy_def names_no_scope_def missing_scope_None split: if_splits)
  with p scopes narrow_profiles [OF assms(2)] show ?thesis
    by (auto split: if_splits dest: subset_singletonD)
qed

definition sample_grant :: TokenClaims where
  "sample_grant =
     \<lparr>tc_iss = ''vellum-auth'', tc_aud = ''vellum-gateway'', tc_sub = ''local:a1:oauth-proxy.c1'', tc_scope_profile = ''oauth_proxy_v1'',
      tc_exp = 900, tc_policy_epoch = 1, tc_iat = Some 0, tc_jti = Some ''n4''\<rparr>"

theorem narrow_grant_single_route_witness:
  "\<exists>p. Some \<lparr>rp_requiredScopes = [''oauth.proxy''], rp_allowedPrincipalTypes = [PrLocal]\<rparr> = Some p \<and>
      (''oauth_proxy_v1'', set (rp_requiredScopes p)) \<in> {(''oauth_proxy_v1'', {''oauth.proxy''}), (''speech_relay_v1'', {''speech.relay''})}"
proof -
  have sub: "tc_sub sample_grant = ''local:a1:oauth-proxy.c1''" by (simp add: sample_grant_def)
  have "(1000 :: int) div 1000 < 0 div 1000 + 60" by simp
  from exchange_core [OF sample_laws this, of 1000 "''n5''" sample_grant "''oauth_proxy_v1''"]
  obtain x where x: "authenticateRequest sample_env False 1000 1000
        (Some (''Bearer '' @ mintExchangeToken sample_env 0 ''n5'' sample_grant ''oauth_proxy_v1'')) = Inr x"
      "ac_scopeProfile x = ''oauth_proxy_v1''" "ac_principalType x = PrLocal" "ac_scopes x = [''oauth.proxy'']"
    unfolding sub by (simp add: daemon_principal_def parseSub_def resolveScopeProfile_def DAEMON_PROFILE_SCOPES_def)
  have "isNarrowScopeProfile (ac_scopeProfile x)"
    by (simp add: x isNarrowScopeProfile_def BROAD_SCOPE_PROFILES_def)
  moreover have "enforcePolicy False (Some \<lparr>rp_requiredScopes = [''oauth.proxy''], rp_allowedPrincipalTypes = [PrLocal]\<rparr>) x = None"
    by (simp add: enforcePolicy_def names_no_scope_def missing_scope_def x)
  ultimately show ?thesis
    using narrow_grant_single_route [OF x(1)] x(2) by metis
qed

text \<open>C28: The two ways from the gateway to a daemon route decide alike: for claims of an actor or a local session,
  the gateway's own check on the IPC path and the daemon's check of the exchanged token give the same verdict on
  every route that names its principals and does not ask for \<open>admin.write\<close>.\<close>

theorem transports_agree:
  assumes "token_laws env"
    and "nowD div 1000 < nowX div 1000 + EXCHANGE_TOKEN_TTL_SECONDS"
    and "daemon_principal (tc_sub c) \<in> {PrActor, PrLocal}"
    and "case policy of None \<Rightarrow> True | Some p \<Rightarrow> rp_allowedPrincipalTypes p \<noteq> [] \<and> ''admin.write'' \<notin> set (rp_requiredScopes p)"
  shows "map_sum id (enforcePolicy False policy)
        (authenticateRequest env False nowD nowD' (Some (''Bearer '' @ mintExchangeToken env nowX jti c (tc_scope_profile c)))) =
      Inr (enforceRoutePolicy policy (Some c))"
proof -
  from assms(3) obtain s where s: "parseSub (tc_sub c) = Inr s" "sb_principalType s = daemon_principal (tc_sub c)"
    by (auto simp: daemon_principal_def split: sum.splits if_splits)
  have fresh: "nowD div 1000 < nowX div 1000 + 60"
    using assms(2) by (simp add: EXCHANGE_TOKEN_TTL_SECONDS_def)
  show ?thesis
    unfolding exchange_core [OF assms(1) fresh] enforcePolicy_def enforceRoutePolicy_def
    using assms(4) s by (cases policy) (simp_all add: missing_scope_tables Let_def)
qed

theorem transports_agree_witness:
  "map_sum id (enforcePolicy False (Some \<lparr>rp_requiredScopes = [''chat.write''], rp_allowedPrincipalTypes = [PrActor]\<rparr>))
      (authenticateRequest sample_env False 1000 1000
        (Some (''Bearer '' @ mintExchangeToken sample_env 0 ''n6'' (minted_claims 0 ''n1'' sample_actor)
          (tc_scope_profile (minted_claims 0 ''n1'' sample_actor))))) = Inr None"
proof -
  let ?policy = "Some \<lparr>rp_requiredScopes = [''chat.write''], rp_allowedPrincipalTypes = [PrActor]\<rparr>"
  have "(1000 :: int) div 1000 < 0 div 1000 + EXCHANGE_TOKEN_TTL_SECONDS" by (simp add: EXCHANGE_TOKEN_TTL_SECONDS_def)
  moreover have "daemon_principal (tc_sub (minted_claims 0 ''n1'' sample_actor)) \<in> {PrActor, PrLocal}"
    by (simp only: sample_sub) simp
  moreover have "enforceRoutePolicy ?policy (Some (minted_claims 0 ''n1'' sample_actor)) = None"
    by (simp add: enforceRoutePolicy_def names_no_scope_def sample_sub parseSub_def missing_scope_def resolveScopeProfile_def
        GATEWAY_PROFILE_SCOPES_def)
  ultimately show ?thesis
    using transports_agree [OF sample_laws, of 1000 0 "minted_claims 0 ''n1'' sample_actor" ?policy 1000 "''n6''"] by simp
qed

end
