(* ===== verification/Device_Tokens.thy ===== *)
theory Device_Tokens
  imports Auth_Tokens Dedup_Cache
begin

text \<open>
  The tokens of paired devices and their revocation: the two token tables of the gateway's database
  (\<^verbatim>\<open>db/schema.ts\<close>), pairing (\<^verbatim>\<open>auth/guardian-bootstrap.ts\<close>), rotation
  (\<^verbatim>\<open>auth/guardian-refresh.ts\<close>), admission on the request path
  (\<^verbatim>\<open>auth/actor-token-revocation.ts\<close>), derived tokens (\<^verbatim>\<open>http/routes/auth-token.ts\<close>) and the list of
  devices with its revocation (\<^verbatim>\<open>http/routes/devices.ts\<close>).

  \<^item> A table is the list of its rows in insertion order; \<open>SELECT ... get()\<close> is the first row that matches,
    \<open>UPDATE\<close> a map over the rows, \<open>INSERT\<close> appends and is \<open>None\<close> where the unique index of active rows
    refuses it. The random primary key \<open>id\<close> of a row is never read and left out.
  \<^item> A handler reads the clock several times: \<open>clk i\<close> is its \<open>i\<close>-th reading. Random values (\<open>jti\<close>, the refresh
    secret, the family, the binding of a browser) are arguments.
  \<^item> A failing database is a \<open>db_fault\<close> of the call. The gateway's bookkeeping of guardians, which rotation
    and derivation consult, is an argument.
\<close>

section \<open>The tables\<close>

datatype actor_status = ArActive | ArDerived | ArRevoked

record actor_row =
  ar_tokenHash :: string
  ar_principal :: string
  ar_device :: string
  ar_platform :: string
  ar_userAgent :: "string option"
  ar_clientName :: "string option"
  ar_status :: actor_status
  ar_issuedAt :: int
  ar_expiresAt :: "int option"
  ar_lastUsedAt :: "int option"
  ar_createdAt :: int
  ar_updatedAt :: int

datatype refresh_status = RfActive | RfRotated | RfRevoked

record refresh_row =
  rf_tokenHash :: string
  rf_family :: string
  rf_principal :: string
  rf_device :: string
  rf_platform :: string
  rf_userAgent :: "string option"
  rf_clientName :: "string option"
  rf_status :: refresh_status
  rf_issuedAt :: int
  rf_absoluteExpiresAt :: int
  rf_inactivityExpiresAt :: int
  rf_lastUsedAt :: "int option"
  rf_cookiePath :: "string option"
  rf_createdAt :: int
  rf_updatedAt :: int

record token_db =
  actorTokenRecords :: "actor_row list"
  refreshTokenRecords :: "refresh_row list"

definition ar_of :: "string \<Rightarrow> string \<Rightarrow> actor_row \<Rightarrow> bool" where
  "ar_of pid device r = (ar_principal r = pid \<and> ar_device r = device)"

definition rf_of :: "string \<Rightarrow> string \<Rightarrow> refresh_row \<Rightarrow> bool" where
  "rf_of pid device r = (rf_principal r = pid \<and> rf_device r = device)"

definition insert_actor :: "actor_row \<Rightarrow> token_db \<Rightarrow> token_db option" where
  "insert_actor row db =
     (if ar_status row = ArActive \<and>
         list_ex (\<lambda>r. ar_of (ar_principal row) (ar_device row) r \<and> ar_status r = ArActive) (actorTokenRecords db) then None
      else Some (db\<lparr>actorTokenRecords := actorTokenRecords db @ [row]\<rparr>))"

definition insert_refresh :: "refresh_row \<Rightarrow> token_db \<Rightarrow> token_db option" where
  "insert_refresh row db =
     (if rf_status row = RfActive \<and>
         list_ex (\<lambda>r. rf_of (rf_principal row) (rf_device row) r \<and> rf_status r = RfActive) (refreshTokenRecords db) then None
      else Some (db\<lparr>refreshTokenRecords := refreshTokenRecords db @ [row]\<rparr>))"

section \<open>Admission\<close>

definition canonicalizeTokenForHash :: "token_env \<Rightarrow> string \<Rightarrow> string" where
  "canonicalizeTokenForHash env rawToken =
     (let trimmed = js_trim rawToken; parts = split_char (CHR ''.'') trimmed
      in if length parts \<noteq> 3 then trimmed
         else join_strings ''.'' (map (\<lambda>seg. tk_encode env (tk_decode env seg)) parts))"

definition actorTokenRecordHash :: "token_env \<Rightarrow> string \<Rightarrow> string" where
  "actorTokenRecordHash env rawToken = tk_hash env (canonicalizeTokenForHash env rawToken)"

definition STAMP_DEBOUNCE_MS :: int where "STAMP_DEBOUNCE_MS = 5 * 60 * 1000"

definition MAX_TRACKED_TOKENS :: nat where "MAX_TRACKED_TOKENS = 5000"

datatype db_fault = NoFault | SelectFault | UpdateFault

record token_state =
  ts_db :: token_db
  ts_debounce :: string_dedup

definition token_state0 :: token_state where
  "token_state0 =
     \<lparr>ts_db = \<lparr>actorTokenRecords = [], refreshTokenRecords = []\<rparr>, ts_debounce = sd_new STAMP_DEBOUNCE_MS MAX_TRACKED_TOKENS\<rparr>"

definition find_actor :: "string \<Rightarrow> token_db \<Rightarrow> actor_row option" where
  "find_actor h db = find (\<lambda>r. ar_tokenHash r = h) (actorTokenRecords db)"

definition stamp_device :: "int \<Rightarrow> string \<Rightarrow> string \<Rightarrow> token_db \<Rightarrow> token_db" where
  "stamp_device now pid device db =
     db\<lparr>actorTokenRecords :=
         update_where (\<lambda>r. ar_of pid device r \<and> ar_status r = ArActive) (\<lambda>r. r\<lparr>ar_lastUsedAt := Some now\<rparr>)
           (actorTokenRecords db)\<rparr>"

definition admitActorToken ::
  "token_env \<Rightarrow> db_fault \<Rightarrow> (nat \<Rightarrow> int) \<Rightarrow> string \<Rightarrow> TokenClaims \<Rightarrow> token_state \<Rightarrow> bool \<times> token_state" where
  "admitActorToken env fault clk rawToken claims s =
     (case parseSub (tc_sub claims) of
        Inl _ \<Rightarrow> (True, s)
      | Inr p \<Rightarrow>
          if sb_principalType p \<noteq> PrActor then (True, s)
          else
            let tokenHash = actorTokenRecordHash env rawToken
            in if fault = SelectFault then (True, s)
               else
                 let record = find_actor tokenHash (ts_db s)
                 in if (case record of None \<Rightarrow> False | Some r \<Rightarrow> ar_status r = ArRevoked) then (False, s)
                    else
                      case sd_has (clk 0) (ts_debounce s) tokenHash of (stamped, d) \<Rightarrow>
                        let s1 = s\<lparr>ts_debounce := d\<rparr>
                        in if stamped then (True, s1)
                           else
                             case record of
                               None \<Rightarrow> (True, s1\<lparr>ts_debounce := sd_mark (clk 1) d tokenHash\<rparr>)
                             | Some r \<Rightarrow>
                                 if fault = UpdateFault then (True, s1)
                                 else (True, s1\<lparr>ts_db := stamp_device (clk 1) (ar_principal r) (ar_device r) (ts_db s1),
                                                ts_debounce := sd_mark (clk 2) d tokenHash\<rparr>))"

section \<open>Pairing\<close>

definition ACCESS_TOKEN_TTL_SECONDS :: int where "ACCESS_TOKEN_TTL_SECONDS = 30 * 24 * 60 * 60"

definition ACCESS_TOKEN_TTL_MS :: int where "ACCESS_TOKEN_TTL_MS = ACCESS_TOKEN_TTL_SECONDS * 1000"

definition REFRESH_ABSOLUTE_TTL_MS :: int where "REFRESH_ABSOLUTE_TTL_MS = 365 * 24 * 60 * 60 * 1000"

definition REFRESH_INACTIVITY_TTL_MS :: int where "REFRESH_INACTIVITY_TTL_MS = 90 * 24 * 60 * 60 * 1000"

text \<open>\<open>Math.floor(ACCESS_TOKEN_TTL_MS * 0.8)\<close>.\<close>

definition refresh_after :: "int \<Rightarrow> int" where
  "refresh_after now = now + ACCESS_TOKEN_TTL_MS * 8 div 10"

definition hashDeviceId :: "token_env \<Rightarrow> string \<Rightarrow> string" where
  "hashDeviceId env deviceId = tk_hash env (js_trim deviceId)"

definition getExternalAssistantId :: "string option \<Rightarrow> string" where
  "getExternalAssistantId name =
     (case name of None \<Rightarrow> ''self'' | Some n \<Rightarrow> if js_trim n = [] then ''self'' else js_trim n)"

definition stripControlChars :: "string \<Rightarrow> string" where
  "stripControlChars value = filter (\<lambda>c. \<not> ((of_char c :: nat) \<le> 31 \<or> (of_char c :: nat) = 127)) value"

definition capDeviceIdentityText :: "string option \<Rightarrow> nat \<Rightarrow> string option" where
  "capDeviceIdentityText value maxChars =
     (case value of
        None \<Rightarrow> None
      | Some v \<Rightarrow> let trimmed = js_trim (stripControlChars v) in if trimmed = [] then None else Some (take maxChars trimmed))"

record device_identity =
  di_userAgent :: "string option"
  di_clientName :: "string option"

definition capIdentity :: "device_identity option \<Rightarrow> device_identity" where
  "capIdentity identity =
     (case identity of
        None \<Rightarrow> \<lparr>di_userAgent = None, di_clientName = None\<rparr>
      | Some i \<Rightarrow> \<lparr>di_userAgent = capDeviceIdentityText (di_userAgent i) 512, di_clientName = capDeviceIdentityText (di_clientName i) 64\<rparr>)"

definition clearDeviceActivityStamp :: "string \<Rightarrow> string \<Rightarrow> token_db \<Rightarrow> token_db" where
  "clearDeviceActivityStamp pid device db =
     db\<lparr>actorTokenRecords := update_where (ar_of pid device) (\<lambda>r. r\<lparr>ar_lastUsedAt := None\<rparr>) (actorTokenRecords db)\<rparr>"

definition revoke_actors :: "actor_status list \<Rightarrow> int \<Rightarrow> string \<Rightarrow> string \<Rightarrow> token_db \<Rightarrow> token_db" where
  "revoke_actors statuses now pid device db =
     db\<lparr>actorTokenRecords :=
         update_where (\<lambda>r. ar_of pid device r \<and> ar_status r \<in> set statuses)
           (\<lambda>r. r\<lparr>ar_status := ArRevoked, ar_updatedAt := now\<rparr>) (actorTokenRecords db)\<rparr>"

definition revokeActorTokensByDevice :: "int \<Rightarrow> string \<Rightarrow> string \<Rightarrow> token_db \<Rightarrow> token_db" where
  "revokeActorTokensByDevice now pid device db =
     clearDeviceActivityStamp pid device (revoke_actors [ArActive, ArDerived] now pid device db)"

definition revokeRefreshTokensByDevice :: "int \<Rightarrow> string \<Rightarrow> string \<Rightarrow> token_db \<Rightarrow> token_db" where
  "revokeRefreshTokensByDevice now pid device db =
     db\<lparr>refreshTokenRecords :=
         update_where (\<lambda>r. rf_of pid device r \<and> rf_status r = RfActive)
           (\<lambda>r. r\<lparr>rf_status := RfRevoked, rf_updatedAt := now\<rparr>) (refreshTokenRecords db)\<rparr>"

record token_grant =
  tg_token :: string
  tg_expiresAt :: int

definition access_params :: "string option \<Rightarrow> string \<Rightarrow> int \<Rightarrow> mint_params" where
  "access_params name pid ttlSeconds =
     \<lparr>mp_aud = ''vellum-gateway'', mp_sub = ''actor:'' @ getExternalAssistantId name @ '':'' @ pid,
      mp_scope_profile = ''actor_client_v1'', mp_policy_epoch = CURRENT_POLICY_EPOCH, mp_ttlSeconds = ttlSeconds\<rparr>"

text \<open>\<open>mintAccessToken\<close> of the bootstrap; the one of the rotation is the same with the row's own identity texts.\<close>

definition record_access ::
  "token_env \<Rightarrow> string option \<Rightarrow> int \<Rightarrow> int \<Rightarrow> string \<Rightarrow> string \<Rightarrow> string \<Rightarrow> string \<Rightarrow> int \<Rightarrow> device_identity \<Rightarrow> token_db \<Rightarrow>
     (token_grant \<times> token_db) option" where
  "record_access env name mintMs now jti pid device platform ttlSeconds identity db =
     (let token = mintToken env mintMs jti (access_params name pid ttlSeconds); expiresAt = now + ttlSeconds * 1000
      in map_option (Pair \<lparr>tg_token = token, tg_expiresAt = expiresAt\<rparr>)
           (insert_actor
             \<lparr>ar_tokenHash = tk_hash env token, ar_principal = pid, ar_device = device, ar_platform = platform,
              ar_userAgent = di_userAgent identity, ar_clientName = di_clientName identity, ar_status = ArActive, ar_issuedAt = now,
              ar_expiresAt = Some expiresAt, ar_lastUsedAt = None, ar_createdAt = now, ar_updatedAt = now\<rparr> db))"

definition mintAccessToken ::
  "token_env \<Rightarrow> string option \<Rightarrow> int \<Rightarrow> int \<Rightarrow> string \<Rightarrow> string \<Rightarrow> string \<Rightarrow> string \<Rightarrow> int \<Rightarrow> device_identity option \<Rightarrow> token_db \<Rightarrow>
     (token_grant \<times> token_db) option" where
  "mintAccessToken env name mintMs now jti pid device platform ttlSeconds identity db =
     record_access env name mintMs now jti pid device platform ttlSeconds (capIdentity identity) db"

record refresh_grant =
  rg_refreshToken :: string
  rg_refreshTokenExpiresAt :: int
  rg_refreshAfter :: int

definition record_refresh ::
  "token_env \<Rightarrow> int \<Rightarrow> string \<Rightarrow> string \<Rightarrow> int \<Rightarrow> string \<Rightarrow> string \<Rightarrow> string \<Rightarrow> device_identity \<Rightarrow> string option \<Rightarrow> token_db \<Rightarrow>
     (refresh_grant \<times> token_db) option" where
  "record_refresh env now secret family absoluteExpiresAt pid device platform identity cookiePath db =
     (let inactivityExpiresAt = now + REFRESH_INACTIVITY_TTL_MS
      in map_option
           (Pair \<lparr>rg_refreshToken = secret, rg_refreshTokenExpiresAt = min absoluteExpiresAt inactivityExpiresAt,
                  rg_refreshAfter = refresh_after now\<rparr>)
           (insert_refresh
             \<lparr>rf_tokenHash = tk_hash env secret, rf_family = family, rf_principal = pid, rf_device = device, rf_platform = platform,
              rf_userAgent = di_userAgent identity, rf_clientName = di_clientName identity, rf_status = RfActive, rf_issuedAt = now,
              rf_absoluteExpiresAt = absoluteExpiresAt, rf_inactivityExpiresAt = inactivityExpiresAt, rf_lastUsedAt = None,
              rf_cookiePath = cookiePath, rf_createdAt = now, rf_updatedAt = now\<rparr> db))"

definition mintRefreshToken ::
  "token_env \<Rightarrow> int \<Rightarrow> string \<Rightarrow> string \<Rightarrow> string \<Rightarrow> string \<Rightarrow> string \<Rightarrow> string option \<Rightarrow> device_identity option \<Rightarrow> token_db \<Rightarrow>
     (refresh_grant \<times> token_db) option" where
  "mintRefreshToken env now secret family pid device platform cookiePath identity db =
     record_refresh env now secret family (now + REFRESH_ABSOLUTE_TTL_MS) pid device platform (capIdentity identity) cookiePath db"

record token_pair =
  tp_access :: token_grant
  tp_refresh :: refresh_grant

datatype pair_error = DeviceIdRequired | UniqueViolation

text \<open>The two inserts of a pair: the first stays where the second is refused.\<close>

definition mint_pair ::
  "(token_db \<Rightarrow> (token_grant \<times> token_db) option) \<Rightarrow> (token_db \<Rightarrow> (refresh_grant \<times> token_db) option) \<Rightarrow> token_db \<Rightarrow>
     (pair_error + token_pair) \<times> token_db" where
  "mint_pair access refresh db =
     (case access db of
        None \<Rightarrow> (Inl UniqueViolation, db)
      | Some (a, db1) \<Rightarrow>
          (case refresh db1 of
             None \<Rightarrow> (Inl UniqueViolation, db1)
           | Some (r, db2) \<Rightarrow> (Inr \<lparr>tp_access = a, tp_refresh = r\<rparr>, db2)))"

definition mintAndRecordDeviceBoundTokenPair ::
  "token_env \<Rightarrow> string option \<Rightarrow> (nat \<Rightarrow> int) \<Rightarrow> string \<Rightarrow> string \<Rightarrow> string \<Rightarrow> string \<Rightarrow> string \<Rightarrow> string \<Rightarrow>
     device_identity option \<Rightarrow> token_db \<Rightarrow> (pair_error + token_pair) \<times> token_db" where
  "mintAndRecordDeviceBoundTokenPair env name clk jti secret family pid deviceId platform identity db =
     (if js_trim deviceId = [] then (Inl DeviceIdRequired, db)
      else
        let device = hashDeviceId env deviceId
        in mint_pair
             (mintAccessToken env name (clk 2) (clk 3) jti pid device platform ACCESS_TOKEN_TTL_SECONDS identity)
             (mintRefreshToken env (clk 4) secret family pid device platform None identity)
             (revokeRefreshTokensByDevice (clk 1) pid device (revokeActorTokensByDevice (clk 0) pid device db)))"

definition mintAndRecordBrowserTokenPair ::
  "token_env \<Rightarrow> string option \<Rightarrow> (nat \<Rightarrow> int) \<Rightarrow> string \<Rightarrow> string \<Rightarrow> string \<Rightarrow> string \<Rightarrow> string \<Rightarrow> string \<Rightarrow> string \<Rightarrow>
     device_identity option \<Rightarrow> token_db \<Rightarrow> (pair_error + token_pair) \<times> token_db" where
  "mintAndRecordBrowserTokenPair env name clk internalBinding jti secret family pid platform cookiePath identity db =
     (let device = tk_hash env internalBinding
      in mint_pair
           (mintAccessToken env name (clk 0) (clk 1) jti pid device platform ACCESS_TOKEN_TTL_SECONDS identity)
           (mintRefreshToken env (clk 2) secret family pid device platform (Some cookiePath) identity)
           db)"

section \<open>Rotation\<close>

datatype RefreshErrorCode =
    RefreshInvalid
  | RefreshExpired
  | RefreshReuseDetected
  | DeviceBindingMismatch
  | RefreshRevoked
  | GuardianRepairRequired

record RotateResult =
  rr_guardianPrincipalId :: string
  rr_access :: token_grant
  rr_refresh :: refresh_grant
  rr_browserRefreshCookiePath :: "string option"

definition findRefreshByHash :: "string \<Rightarrow> token_db \<Rightarrow> refresh_row option" where
  "findRefreshByHash h db = find (\<lambda>r. rf_tokenHash r = h) (refreshTokenRecords db)"

definition markRotated :: "int \<Rightarrow> string \<Rightarrow> token_db \<Rightarrow> bool \<times> token_db" where
  "markRotated now h db =
     (list_ex (\<lambda>r. rf_tokenHash r = h \<and> rf_status r = RfActive) (refreshTokenRecords db),
      db\<lparr>refreshTokenRecords :=
          update_where (\<lambda>r. rf_tokenHash r = h \<and> rf_status r = RfActive)
            (\<lambda>r. r\<lparr>rf_status := RfRotated, rf_lastUsedAt := Some now, rf_updatedAt := now\<rparr>) (refreshTokenRecords db)\<rparr>)"

definition revokeFamily :: "int \<Rightarrow> string \<Rightarrow> token_db \<Rightarrow> token_db" where
  "revokeFamily now family db =
     db\<lparr>refreshTokenRecords :=
         update_where (\<lambda>r. rf_family r = family) (\<lambda>r. r\<lparr>rf_status := RfRevoked, rf_updatedAt := now\<rparr>) (refreshTokenRecords db)\<rparr>"

definition revokeActiveActorTokensByDevice :: "int \<Rightarrow> string \<Rightarrow> string \<Rightarrow> token_db \<Rightarrow> token_db" where
  "revokeActiveActorTokensByDevice now pid device db = revoke_actors [ArActive] now pid device db"

definition revokeAllActorTokensByDevice :: "int \<Rightarrow> string \<Rightarrow> string \<Rightarrow> token_db \<Rightarrow> token_db" where
  "revokeAllActorTokensByDevice now pid device db =
     clearDeviceActivityStamp pid device (revoke_actors [ArActive, ArDerived] now pid device db)"

definition mintRefreshTokenInFamily ::
  "token_env \<Rightarrow> int \<Rightarrow> string \<Rightarrow> refresh_row \<Rightarrow> token_db \<Rightarrow> (refresh_grant \<times> token_db) option" where
  "mintRefreshTokenInFamily env now secret r db =
     record_refresh env now secret (rf_family r) (rf_absoluteExpiresAt r) (rf_principal r) (rf_device r) (rf_platform r)
       \<lparr>di_userAgent = rf_userAgent r, di_clientName = rf_clientName r\<rparr> (rf_cookiePath r) db"

text \<open>\<open>missingGuardian\<close>: the integrity check answered (rather than threw) that the guardian is missing. A thrown
  insert rolls the transaction back and reaches the caller: \<open>None\<close>.\<close>

definition rotateRefreshTokenRecord ::
  "token_env \<Rightarrow> string option \<Rightarrow> (nat \<Rightarrow> int) \<Rightarrow> string \<Rightarrow> string \<Rightarrow> bool \<Rightarrow> string \<Rightarrow> refresh_row \<Rightarrow> token_db \<Rightarrow>
     (RefreshErrorCode + RotateResult) option \<times> token_db" where
  "rotateRefreshTokenRecord env name clk jti secret missingGuardian h r db =
     (if rf_status r = RfRotated
      then (Some (Inl RefreshReuseDetected),
            revokeAllActorTokensByDevice (clk 1) (rf_principal r) (rf_device r) (revokeFamily (clk 0) (rf_family r) db))
      else if rf_status r = RfRevoked then (Some (Inl RefreshRevoked), db)
      else if clk 0 > rf_absoluteExpiresAt r then (Some (Inl RefreshExpired), db)
      else if clk 0 > rf_inactivityExpiresAt r then (Some (Inl RefreshExpired), db)
      else if missingGuardian then (Some (Inl GuardianRepairRequired), db)
      else
        case markRotated (clk 1) h db of (didRotate, db1) \<Rightarrow>
          if \<not> didRotate then (Some (Inl RefreshReuseDetected), db1)
          else
            let db2 = revokeActiveActorTokensByDevice (clk 2) (rf_principal r) (rf_device r) db1
            in case record_access env name (clk 3) (clk 4) jti (rf_principal r) (rf_device r) (rf_platform r)
                      ACCESS_TOKEN_TTL_SECONDS \<lparr>di_userAgent = rf_userAgent r, di_clientName = rf_clientName r\<rparr> db2 of
                 None \<Rightarrow> (None, db)
               | Some (access, db3) \<Rightarrow>
                   (case mintRefreshTokenInFamily env (clk 5) secret r db3 of
                      None \<Rightarrow> (None, db)
                    | Some (refresh, db4) \<Rightarrow>
                        (Some (Inr \<lparr>rr_guardianPrincipalId = rf_principal r, rr_access = access, rr_refresh = refresh,
                                    rr_browserRefreshCookiePath = rf_cookiePath r\<rparr>), db4)))"

definition rotateCredentials ::
  "token_env \<Rightarrow> string option \<Rightarrow> (nat \<Rightarrow> int) \<Rightarrow> string \<Rightarrow> string \<Rightarrow> bool \<Rightarrow> string \<Rightarrow> string \<Rightarrow> token_db \<Rightarrow>
     (RefreshErrorCode + RotateResult) option \<times> token_db" where
  "rotateCredentials env name clk jti secret missingGuardian refreshToken device db =
     (let h = tk_hash env refreshToken
      in case findRefreshByHash h db of
           None \<Rightarrow> (Some (Inl RefreshInvalid), db)
         | Some r \<Rightarrow>
             if rf_device r \<noteq> device then (Some (Inl DeviceBindingMismatch), db)
             else rotateRefreshTokenRecord env name clk jti secret missingGuardian h r db)"

text \<open>An empty cookie path is falsy like an absent one.\<close>

definition rotateBrowserCredentialsByRefreshToken ::
  "token_env \<Rightarrow> string option \<Rightarrow> (nat \<Rightarrow> int) \<Rightarrow> string \<Rightarrow> string \<Rightarrow> bool \<Rightarrow> string \<Rightarrow> token_db \<Rightarrow>
     (RefreshErrorCode + RotateResult) option \<times> token_db" where
  "rotateBrowserCredentialsByRefreshToken env name clk jti secret missingGuardian refreshToken db =
     (let h = tk_hash env refreshToken
      in case findRefreshByHash h db of
           None \<Rightarrow> (Some (Inl RefreshInvalid), db)
         | Some r \<Rightarrow>
             if rf_cookiePath r = None \<or> rf_cookiePath r = Some [] then (Some (Inl RefreshInvalid), db)
             else rotateRefreshTokenRecord env name clk jti secret missingGuardian h r db)"

section \<open>Derived tokens\<close>

definition bearer_token :: "string option \<Rightarrow> string option" where
  "bearer_token authHeader =
     (case authHeader of
        None \<Rightarrow> None
      | Some h \<Rightarrow> if map ascii_lower (take 7 h) = ''bearer '' then Some (drop 7 h) else None)"

definition web_origin :: "string \<Rightarrow> bool" where
  "web_origin origin =
     list_ex (\<lambda>base. starts_with base origin \<and>
         (case drop (length base) origin of [] \<Rightarrow> True | c # port \<Rightarrow> c = CHR '':'' \<and> port \<noteq> [] \<and> list_all ascii_digit port))
       [''http://localhost'', ''https://localhost'', ''http://127.0.0.1'', ''https://127.0.0.1'']"

datatype ensure_result = Ensured string | MintRefused | EnsureThrew

datatype create_response = TokenForbidden | TokenUnauthorized | TokenRepairRequired | TokenThrew | TokenCreated string int

definition findSourceActorTokenRecord :: "token_env \<Rightarrow> bool \<Rightarrow> string \<Rightarrow> token_db \<Rightarrow> actor_row option" where
  "findSourceActorTokenRecord env failing sourceToken db =
     (if failing then None else find_actor (actorTokenRecordHash env sourceToken) db)"

definition recordDerivedActorToken :: "token_env \<Rightarrow> bool \<Rightarrow> int \<Rightarrow> actor_row option \<Rightarrow> string \<Rightarrow> token_db \<Rightarrow> token_db" where
  "recordDerivedActorToken env failing now source token db =
     (case source of
        None \<Rightarrow> db
      | Some r \<Rightarrow>
          if failing then db
          else db\<lparr>actorTokenRecords := actorTokenRecords db @
                 [\<lparr>ar_tokenHash = actorTokenRecordHash env token, ar_principal = ar_principal r, ar_device = ar_device r,
                   ar_platform = ar_platform r, ar_userAgent = ar_userAgent r, ar_clientName = ar_clientName r,
                   ar_status = ArDerived, ar_issuedAt = now, ar_expiresAt = Some (now + ACCESS_TOKEN_TTL_SECONDS * 1000),
                   ar_lastUsedAt = None, ar_createdAt = now, ar_updatedAt = now\<rparr>]\<rparr>)"

text \<open>
  The handler from the source lookup on. The faults are those of the lookup and of the insert;
  \<open>missingGuardian\<close> and \<open>ensured\<close> are what the guardian's bookkeeping answers.
\<close>

definition createFromSource ::
  "token_env \<Rightarrow> bool \<Rightarrow> bool \<Rightarrow> bool \<Rightarrow> ensure_result \<Rightarrow> (nat \<Rightarrow> int) \<Rightarrow> string \<Rightarrow> string \<Rightarrow> token_state \<Rightarrow>
     create_response \<times> token_state" where
  "createFromSource env sourceFails insertFails missingGuardian ensured clk jti bearer s =
     (let source = findSourceActorTokenRecord env sourceFails bearer (ts_db s);
          recorded = (case source of None \<Rightarrow> [] | Some r \<Rightarrow> ar_principal r)
      in if recorded \<noteq> [] \<and> missingGuardian then (TokenRepairRequired, s)
         else
           case (if recorded \<noteq> [] then Ensured recorded else ensured) of
             MintRefused \<Rightarrow> (TokenRepairRequired, s)
           | EnsureThrew \<Rightarrow> (TokenThrew, s)
           | Ensured pid \<Rightarrow>
               let token = mintToken env (clk 4) jti
                     \<lparr>mp_aud = ''vellum-gateway'', mp_sub = ''actor:self:'' @ pid, mp_scope_profile = ''actor_client_v1'',
                      mp_policy_epoch = CURRENT_POLICY_EPOCH, mp_ttlSeconds = ACCESS_TOKEN_TTL_SECONDS\<rparr>
               in (TokenCreated token (clk 6 div 1000 + ACCESS_TOKEN_TTL_SECONDS),
                   s\<lparr>ts_db := recordDerivedActorToken env insertFails (clk 5) source token (ts_db s)\<rparr>))"

text \<open>\<open>loopback\<close>: the peer test of the request; \<open>fault\<close>: the database at the admission.\<close>

definition handleCreateToken ::
  "token_env \<Rightarrow> bool \<Rightarrow> string option \<Rightarrow> db_fault \<Rightarrow> bool \<Rightarrow> bool \<Rightarrow> bool \<Rightarrow> ensure_result \<Rightarrow> (nat \<Rightarrow> int) \<Rightarrow> string \<Rightarrow>
     string option \<Rightarrow> token_state \<Rightarrow> create_response \<times> token_state" where
  "handleCreateToken env loopback origin fault sourceFails insertFails missingGuardian ensured clk jti authHeader s =
     (if \<not> loopback then (TokenForbidden, s)
      else if (case origin of None \<Rightarrow> True | Some x \<Rightarrow> \<not> web_origin x) then (TokenForbidden, s)
      else
        case bearer_token authHeader of
          None \<Rightarrow> (TokenUnauthorized, s)
        | Some bearer \<Rightarrow>
            (case verifyToken env (clk 0) False bearer ''vellum-gateway'' of
               Inl _ \<Rightarrow> (TokenUnauthorized, s)
             | Inr claims \<Rightarrow>
                 if tc_scope_profile claims \<noteq> ''actor_client_v1'' then (TokenUnauthorized, s)
                 else
                   (case admitActorToken env fault (\<lambda>i. clk (Suc i)) bearer claims s of (admitted, s1) \<Rightarrow>
                      if \<not> admitted then (TokenUnauthorized, s1)
                      else createFromSource env sourceFails insertFails missingGuardian ensured clk jti bearer s1)))"

section \<open>The list of devices\<close>

record device_summary =
  ds_device :: string
  ds_platform :: string
  ds_userAgent :: "string option"
  ds_clientName :: "string option"
  ds_issuedAt :: int
  ds_expiresAt :: "int option"
  ds_lastUsedAt :: "int option"

definition last_used :: "string \<Rightarrow> string \<Rightarrow> token_db \<Rightarrow> int option" where
  "last_used pid device db =
     (case List.map_filter ar_lastUsedAt (filter (ar_of pid device) (actorTokenRecords db)) of
        [] \<Rightarrow> None
      | t # ts \<Rightarrow> Some (fold max ts t))"

definition list_devices :: "string \<Rightarrow> token_db \<Rightarrow> device_summary list" where
  "list_devices pid db =
     map (\<lambda>r. \<lparr>ds_device = ar_device r, ds_platform = ar_platform r, ds_userAgent = ar_userAgent r, ds_clientName = ar_clientName r,
               ds_issuedAt = ar_issuedAt r, ds_expiresAt = ar_expiresAt r, ds_lastUsedAt = last_used pid (ar_device r) db\<rparr>)
       (filter (\<lambda>r. ar_principal r = pid \<and> ar_status r = ArActive) (actorTokenRecords db))"

text \<open>What \<open>handleRevokeDevice\<close> does once the loopback guards are passed; \<open>False\<close> is its 400.\<close>

definition revoke_device :: "(nat \<Rightarrow> int) \<Rightarrow> string \<Rightarrow> string option \<Rightarrow> token_db \<Rightarrow> bool \<times> token_db" where
  "revoke_device clk pid hashedDeviceId db =
     (let device = (case hashedDeviceId of None \<Rightarrow> [] | Some d \<Rightarrow> js_trim d)
      in if device = [] then (False, db)
         else (True, revokeRefreshTokensByDevice (clk 1) pid device (revokeActorTokensByDevice (clk 0) pid device db)))"

section \<open>Runs\<close>

datatype token_op =
    OpPair "nat \<Rightarrow> int" string string string string string string "device_identity option"
  | OpBrowserPair "nat \<Rightarrow> int" string string string string string string string "device_identity option"
  | OpRotate "nat \<Rightarrow> int" string string bool string string
  | OpBrowserRotate "nat \<Rightarrow> int" string string bool string
  | OpAdmit db_fault "nat \<Rightarrow> int" string TokenClaims
  | OpDerive bool "string option" db_fault bool bool bool ensure_result "nat \<Rightarrow> int" string "string option"
  | OpRevoke "nat \<Rightarrow> int" string "string option"

definition on_db :: "(token_db \<Rightarrow> 'a \<times> token_db) \<Rightarrow> token_state \<Rightarrow> token_state" where
  "on_db f s = s\<lparr>ts_db := snd (f (ts_db s))\<rparr>"

fun token_apply :: "token_env \<Rightarrow> string option \<Rightarrow> token_op \<Rightarrow> token_state \<Rightarrow> token_state" where
  "token_apply env name (OpPair clk jti secret family pid deviceId platform identity) s =
     on_db (mintAndRecordDeviceBoundTokenPair env name clk jti secret family pid deviceId platform identity) s"
| "token_apply env name (OpBrowserPair clk binding jti secret family pid platform path identity) s =
     on_db (mintAndRecordBrowserTokenPair env name clk binding jti secret family pid platform path identity) s"
| "token_apply env name (OpRotate clk jti secret missing token device) s =
     on_db (rotateCredentials env name clk jti secret missing token device) s"
| "token_apply env name (OpBrowserRotate clk jti secret missing token) s =
     on_db (rotateBrowserCredentialsByRefreshToken env name clk jti secret missing token) s"
| "token_apply env name (OpAdmit fault clk token claims) s = snd (admitActorToken env fault clk token claims s)"
| "token_apply env name (OpDerive loopback origin fault sourceFails insertFails missing ensured clk jti header) s =
     snd (handleCreateToken env loopback origin fault sourceFails insertFails missing ensured clk jti header s)"
| "token_apply env name (OpRevoke clk pid device) s = on_db (revoke_device clk pid device) s"

text \<open>
  What the random values of an operation promise: a browser's binding is new in both tables and a new family is
  new among the refresh rows.
\<close>

fun fresh_op :: "token_env \<Rightarrow> token_op \<Rightarrow> token_db \<Rightarrow> bool" where
  "fresh_op env (OpPair clk jti secret family pid deviceId platform identity) db =
     list_all (\<lambda>r. rf_family r \<noteq> family) (refreshTokenRecords db)"
| "fresh_op env (OpBrowserPair clk binding jti secret family pid platform path identity) db =
     (list_all (\<lambda>r. rf_family r \<noteq> family \<and> rf_device r \<noteq> tk_hash env binding) (refreshTokenRecords db) \<and>
      list_all (\<lambda>r. ar_device r \<noteq> tk_hash env binding) (actorTokenRecords db))"
| "fresh_op env _ db = True"

fun token_run :: "token_env \<Rightarrow> string option \<Rightarrow> token_op list \<Rightarrow> token_state \<Rightarrow> token_state" where
  "token_run env name [] s = s"
| "token_run env name (op # ops) s = token_run env name ops (token_apply env name op s)"

fun fresh_run :: "token_env \<Rightarrow> string option \<Rightarrow> token_op list \<Rightarrow> token_state \<Rightarrow> bool" where
  "fresh_run env name [] s = True"
| "fresh_run env name (op # ops) s = (fresh_op env op (ts_db s) \<and> fresh_run env name ops (token_apply env name op s))"

section \<open>What an operation may do to the tables\<close>

text \<open>
  The abstract specification. Rows are only ever weakened (an actor row revoked, a refresh row no longer active,
  nothing brought back) and appended to, and a row is added in one of three ways: derived from a live row, as
  one of a new pair, or by rotating an active row, whose owner and whose family it inherits.
\<close>

definition ar_imm :: "actor_row \<Rightarrow> string \<times> string \<times> string" where
  "ar_imm r = (ar_tokenHash r, ar_principal r, ar_device r)"

definition rf_imm :: "refresh_row \<Rightarrow> string \<times> string \<times> string \<times> string \<times> int \<times> string option" where
  "rf_imm r = (rf_tokenHash r, rf_family r, rf_principal r, rf_device r, rf_absoluteExpiresAt r, rf_cookiePath r)"

definition ar_weaker :: "actor_row \<Rightarrow> actor_row \<Rightarrow> bool" where
  "ar_weaker r r' = (ar_imm r' = ar_imm r \<and> ar_status r' \<in> {ar_status r, ArRevoked})"

definition rf_weaker :: "refresh_row \<Rightarrow> refresh_row \<Rightarrow> bool" where
  "rf_weaker r r' = (rf_imm r' = rf_imm r \<and> (rf_status r' = RfActive \<longrightarrow> rf_status r = RfActive))"

definition weaker :: "token_db \<Rightarrow> token_db \<Rightarrow> bool" where
  "weaker db db' =
     (list_all2 ar_weaker (actorTokenRecords db) (actorTokenRecords db') \<and>
      list_all2 rf_weaker (refreshTokenRecords db) (refreshTokenRecords db'))"

definition no_active :: "string \<Rightarrow> string \<Rightarrow> token_db \<Rightarrow> bool" where
  "no_active pid device db =
     ((\<forall>r \<in> set (actorTokenRecords db). ar_of pid device r \<longrightarrow> ar_status r \<noteq> ArActive) \<and>
      (\<forall>r \<in> set (refreshTokenRecords db). rf_of pid device r \<longrightarrow> rf_status r \<noteq> RfActive))"

definition add_rows :: "actor_row list \<Rightarrow> refresh_row list \<Rightarrow> token_db \<Rightarrow> token_db" where
  "add_rows as rs db =
     db\<lparr>actorTokenRecords := actorTokenRecords db @ as, refreshTokenRecords := refreshTokenRecords db @ rs\<rparr>"

datatype effect =
    Weaken
  | Derive bool string string
  | NewPair string string string
  | Rotation string string

text \<open>The flag of \<open>Derive\<close>: the source row is known not to be revoked.\<close>

inductive token_effect :: "effect \<Rightarrow> token_db \<Rightarrow> token_db \<Rightarrow> bool" where
  eff_weaken: "weaker db db' \<Longrightarrow> token_effect Weaken db db'"
| eff_derive: "weaker db db1 \<Longrightarrow> r \<in> set (actorTokenRecords db1) \<Longrightarrow> ar_of pid device r \<Longrightarrow> (live \<Longrightarrow> ar_status r \<noteq> ArRevoked) \<Longrightarrow>
    ar_of pid device a \<Longrightarrow> ar_status a = ArDerived \<Longrightarrow> token_effect (Derive live pid device) db (add_rows [a] [] db1)"
| eff_pair: "weaker db db1 \<Longrightarrow> no_active pid device db1 \<Longrightarrow> ar_of pid device a \<Longrightarrow> ar_status a = ArActive \<Longrightarrow>
    rf_of pid device f \<Longrightarrow> rf_status f = RfActive \<Longrightarrow> rf_family f = family \<Longrightarrow>
    \<forall>r \<in> set (refreshTokenRecords db). rf_family r \<noteq> family \<Longrightarrow>
    token_effect (NewPair pid device family) db (add_rows [a] [f] db1)"
| eff_rotate: "weaker db db1 \<Longrightarrow> no_active pid device db1 \<Longrightarrow> ar_of pid device a \<Longrightarrow> ar_status a = ArActive \<Longrightarrow>
    rf_of pid device f \<Longrightarrow> rf_status f = RfActive \<Longrightarrow>
    r \<in> set (refreshTokenRecords db) \<Longrightarrow> rf_status r = RfActive \<Longrightarrow> rf_of pid device r \<Longrightarrow> rf_family f = rf_family r \<Longrightarrow>
    rf_absoluteExpiresAt f = rf_absoluteExpiresAt r \<Longrightarrow>
    token_effect (Rotation pid device) db (add_rows [a] [f] db1)"

inductive_cases token_effectE: "token_effect e db db'"

inductive_cases effect_weakenE: "token_effect Weaken db db'"

definition active_unique :: "token_db \<Rightarrow> bool" where
  "active_unique db =
     (distinct (map (\<lambda>r. (ar_principal r, ar_device r)) (filter (\<lambda>r. ar_status r = ArActive) (actorTokenRecords db))) \<and>
      distinct (map (\<lambda>r. (rf_principal r, rf_device r)) (filter (\<lambda>r. rf_status r = RfActive) (refreshTokenRecords db))))"

text \<open>Which effects an operation may have.\<close>

fun effect_of :: "token_env \<Rightarrow> token_op \<Rightarrow> effect \<Rightarrow> bool" where
  "effect_of env (OpPair clk jti secret family pid deviceId platform identity) e =
     (e \<in> {Weaken, NewPair pid (hashDeviceId env deviceId) family})"
| "effect_of env (OpBrowserPair clk binding jti secret family pid platform path identity) e =
     (e = NewPair pid (tk_hash env binding) family)"
| "effect_of env (OpRotate clk jti secret missing token device) e = (e = Weaken \<or> (\<exists>pid. e = Rotation pid device))"
| "effect_of env (OpBrowserRotate clk jti secret missing token) e = (e = Weaken \<or> (\<exists>pid device. e = Rotation pid device))"
| "effect_of env (OpDerive loopback origin fault sourceFails insertFails missing ensured clk jti header) e =
     (e = Weaken \<or> (\<exists>pid device live. e = Derive live pid device))"
| "effect_of env _ e = (e = Weaken)"

section \<open>Weakening\<close>

lemma ar_weaker_refl [simp]: "ar_weaker r r"
  by (simp add: ar_weaker_def)

lemma rf_weaker_refl [simp]: "rf_weaker r r"
  by (simp add: rf_weaker_def)

lemma ar_weaker_trans: "ar_weaker r s \<Longrightarrow> ar_weaker s t \<Longrightarrow> ar_weaker r t"
  by (auto simp: ar_weaker_def)

lemma rf_weaker_trans: "rf_weaker r s \<Longrightarrow> rf_weaker s t \<Longrightarrow> rf_weaker r t"
  by (auto simp: rf_weaker_def)

lemma weaker_refl [simp]: "weaker db db"
  by (simp add: weaker_def list_all2_refl)

lemma weaker_trans: "weaker a b \<Longrightarrow> weaker b c \<Longrightarrow> weaker a c"
  unfolding weaker_def
  by (auto intro: list_all2_trans [of ar_weaker ar_weaker ar_weaker] list_all2_trans [of rf_weaker rf_weaker rf_weaker]
      ar_weaker_trans rf_weaker_trans)

lemma weaker_actor_update:
  "(\<And>r. p r \<Longrightarrow> ar_weaker r (f r)) \<Longrightarrow> weaker db (db\<lparr>actorTokenRecords := update_where p f (actorTokenRecords db)\<rparr>)"
  by (simp add: weaker_def list_all2_refl list_all2_update_where)

lemma weaker_refresh_update:
  "(\<And>r. p r \<Longrightarrow> rf_weaker r (f r)) \<Longrightarrow> weaker db (db\<lparr>refreshTokenRecords := update_where p f (refreshTokenRecords db)\<rparr>)"
  by (simp add: weaker_def list_all2_refl list_all2_update_where)

lemmas weaken_defs = stamp_device_def clearDeviceActivityStamp_def revoke_actors_def revokeActorTokensByDevice_def
  revokeRefreshTokensByDevice_def markRotated_def revokeFamily_def revokeActiveActorTokensByDevice_def
  revokeAllActorTokensByDevice_def

lemma weaker_stamp: "weaker db (stamp_device now pid device db)"
  unfolding stamp_device_def by (rule weaker_actor_update) (simp add: ar_weaker_def ar_imm_def)

lemma weaker_clear: "weaker db (clearDeviceActivityStamp pid device db)"
  unfolding clearDeviceActivityStamp_def by (rule weaker_actor_update) (simp add: ar_weaker_def ar_imm_def)

lemma weaker_revoke_actors: "weaker db (revoke_actors statuses now pid device db)"
  unfolding revoke_actors_def by (rule weaker_actor_update) (simp add: ar_weaker_def ar_imm_def)

lemma weaker_revoke_refresh: "weaker db (revokeRefreshTokensByDevice now pid device db)"
  unfolding revokeRefreshTokensByDevice_def by (rule weaker_refresh_update) (simp add: rf_weaker_def rf_imm_def)

lemma weaker_mark: "weaker db (snd (markRotated now h db))"
  unfolding markRotated_def snd_conv by (rule weaker_refresh_update) (simp add: rf_weaker_def rf_imm_def)

lemma weaker_family: "weaker db (revokeFamily now family db)"
  unfolding revokeFamily_def by (rule weaker_refresh_update) (simp add: rf_weaker_def rf_imm_def)

lemma weaker_revoke_device: "weaker db (revokeActorTokensByDevice now pid device db)"
  unfolding revokeActorTokensByDevice_def by (rule weaker_trans [OF weaker_revoke_actors weaker_clear])

lemma weaker_revoke_all: "weaker db (revokeAllActorTokensByDevice now pid device db)"
  unfolding revokeAllActorTokensByDevice_def by (rule weaker_trans [OF weaker_revoke_actors weaker_clear])

lemmas weaker_intros = weaker_refl weaker_stamp weaker_clear weaker_revoke_actors weaker_revoke_refresh weaker_mark weaker_family
  weaker_revoke_device weaker_revoke_all

lemma list_all2_back: "list_all2 R xs ys \<Longrightarrow> y \<in> set ys \<Longrightarrow> \<exists>x \<in> set xs. R x y"
  by (induction rule: list_all2_induct) auto

lemma list_all2_forth: "list_all2 R xs ys \<Longrightarrow> x \<in> set xs \<Longrightarrow> \<exists>y \<in> set ys. R x y"
  by (induction rule: list_all2_induct) auto

lemma weaker_actorD: "weaker db db' \<Longrightarrow> r' \<in> set (actorTokenRecords db') \<Longrightarrow> \<exists>r \<in> set (actorTokenRecords db). ar_weaker r r'"
  unfolding weaker_def by (blast dest: list_all2_back)

lemma weaker_refreshD:
  "weaker db db' \<Longrightarrow> r' \<in> set (refreshTokenRecords db') \<Longrightarrow> \<exists>r \<in> set (refreshTokenRecords db). rf_weaker r r'"
  unfolding weaker_def by (blast dest: list_all2_back)

lemma ar_weaker_of: "ar_weaker r r' \<Longrightarrow> ar_of p d r' = ar_of p d r"
  by (simp add: ar_weaker_def ar_imm_def ar_of_def)

lemma rf_weaker_of: "rf_weaker r r' \<Longrightarrow> rf_of p d r' = rf_of p d r"
  by (simp add: rf_weaker_def rf_imm_def rf_of_def)

lemma no_active_weaker:
  assumes "no_active p d db" "weaker db db'"
  shows "no_active p d db'"
proof -
  have "ar_status r' \<noteq> ArActive" if "r' \<in> set (actorTokenRecords db')" "ar_of p d r'" for r'
    using weaker_actorD [OF assms(2) that(1)] assms(1) that(2)
    by (auto simp: no_active_def ar_weaker_def ar_imm_def ar_of_def)
  moreover have "rf_status r' \<noteq> RfActive" if "r' \<in> set (refreshTokenRecords db')" "rf_of p d r'" for r'
    using weaker_refreshD [OF assms(2) that(1)] assms(1) that(2)
    by (auto simp: no_active_def rf_weaker_def rf_imm_def rf_of_def)
  ultimately show ?thesis by (simp add: no_active_def)
qed

lemma no_actor_active_revoked:
  assumes "r \<in> set (actorTokenRecords (revoke_actors sts t p d db))" "ar_of p d r" "ArRevoked \<notin> set sts"
  shows "ar_status r \<notin> set sts"
  using update_where_gone [of r "\<lambda>r. ar_of p d r \<and> ar_status r \<in> set sts" "\<lambda>r. r\<lparr>ar_status := ArRevoked, ar_updatedAt := t\<rparr>"
      "actorTokenRecords db" "\<lambda>r. ar_status r \<in> set sts"] assms
  by (auto simp: revoke_actors_def)

lemma no_live_revoked:
  assumes "r \<in> set (actorTokenRecords (revokeActorTokensByDevice t p d db))" "ar_of p d r"
  shows "ar_status r = ArRevoked"
proof -
  obtain x where x: "x \<in> set (actorTokenRecords (revoke_actors [ArActive, ArDerived] t p d db))" "ar_weaker x r"
    using weaker_actorD [OF weaker_clear] assms(1) unfolding revokeActorTokensByDevice_def by blast
  from x(2) assms(2) have "ar_of p d x" by (simp add: ar_weaker_of)
  with no_actor_active_revoked [OF x(1)] have "ar_status x = ArRevoked" by (cases "ar_status x") auto
  with x(2) show ?thesis by (simp add: ar_weaker_def)
qed

lemma no_refresh_active_revoked:
  assumes "r \<in> set (refreshTokenRecords (revokeRefreshTokensByDevice t p d db))" "rf_of p d r"
  shows "rf_status r \<noteq> RfActive"
  using update_where_gone [of r "\<lambda>r. rf_of p d r \<and> rf_status r = RfActive" "\<lambda>r. r\<lparr>rf_status := RfRevoked, rf_updatedAt := t\<rparr>"
      "refreshTokenRecords db" "\<lambda>r. rf_status r = RfActive"] assms
  by (auto simp: revokeRefreshTokensByDevice_def)

lemma revoke_refresh_actors [simp]: "actorTokenRecords (revokeRefreshTokensByDevice t p d db) = actorTokenRecords db"
  by (simp add: revokeRefreshTokensByDevice_def)

lemma no_active_revoked:
  "no_active p d (revokeRefreshTokensByDevice t' p d (revokeActorTokensByDevice t p d db))"
  unfolding no_active_def using no_live_revoked no_refresh_active_revoked by fastforce

lemma distinct_weaker:
  assumes "list_all2 R xs ys" "\<And>x y. R x y \<Longrightarrow> P y \<Longrightarrow> P x \<and> k y = k x"
  shows "set (map k (filter P ys)) \<subseteq> set (map k (filter P xs)) \<and> (distinct (map k (filter P xs)) \<longrightarrow> distinct (map k (filter P ys)))"
  using assms(1)
proof (induction rule: list_all2_induct)
  case (Cons x xs y ys)
  with assms(2) [OF Cons(1)] show ?case by auto
qed simp

lemma active_unique_weaker:
  assumes "active_unique db" "weaker db db'"
  shows "active_unique db'"
proof -
  have "distinct (map (\<lambda>r. (ar_principal r, ar_device r)) (filter (\<lambda>r. ar_status r = ArActive) (actorTokenRecords db')))"
    using distinct_weaker [of ar_weaker "actorTokenRecords db" "actorTokenRecords db'" "\<lambda>r. ar_status r = ArActive"
        "\<lambda>r. (ar_principal r, ar_device r)"] assms
    by (auto simp: active_unique_def weaker_def ar_weaker_def ar_imm_def)
  moreover have "distinct (map (\<lambda>r. (rf_principal r, rf_device r)) (filter (\<lambda>r. rf_status r = RfActive) (refreshTokenRecords db')))"
    using distinct_weaker [of rf_weaker "refreshTokenRecords db" "refreshTokenRecords db'" "\<lambda>r. rf_status r = RfActive"
        "\<lambda>r. (rf_principal r, rf_device r)"] assms
    by (auto simp: active_unique_def weaker_def rf_weaker_def rf_imm_def)
  ultimately show ?thesis by (simp add: active_unique_def)
qed

lemma active_unique_add:
  assumes "active_unique db" "no_active p d db" "ar_of p d a" "rf_of p d f"
  shows "active_unique (add_rows [a] [f] db)"
  using assms by (auto simp: active_unique_def add_rows_def no_active_def ar_of_def rf_of_def)

lemma active_unique_effect: "token_effect e db db' \<Longrightarrow> active_unique db \<Longrightarrow> active_unique db'"
proof (induction rule: token_effect.induct)
  case (eff_derive db db1 r pid device live a)
  then have "active_unique db1" by (blast intro: active_unique_weaker)
  with eff_derive show ?case by (auto simp: active_unique_def add_rows_def)
qed (blast intro: active_unique_weaker active_unique_add)+

section \<open>Every operation has such an effect\<close>

lemma add_rows_simps [simp]:
  "actorTokenRecords (add_rows as rs db) = actorTokenRecords db @ as"
  "refreshTokenRecords (add_rows as rs db) = refreshTokenRecords db @ rs"
  "add_rows as' rs' (add_rows as rs db) = add_rows (as @ as') (rs @ rs') db"
  by (simp_all add: add_rows_def)

lemma record_access_ok:
  assumes "no_active pid device db"
  obtains a g where "record_access env name m now jti pid device platform ttl identity db = Some (g, add_rows [a] [] db)"
    "ar_of pid device a" "ar_status a = ArActive" "ar_tokenHash a = tk_hash env (mintToken env m jti (access_params name pid ttl))"
    "tg_token g = mintToken env m jti (access_params name pid ttl)"
  using assms that
  by (auto simp: record_access_def insert_actor_def list_ex_iff no_active_def add_rows_def ar_of_def Let_def)

lemma record_refresh_ok:
  assumes "\<forall>r \<in> set (refreshTokenRecords db). rf_of pid device r \<longrightarrow> rf_status r \<noteq> RfActive"
  obtains f g where "record_refresh env now secret family abs' pid device platform identity path db = Some (g, add_rows [] [f] db)"
    "rf_of pid device f" "rf_status f = RfActive" "rf_family f = family" "rf_absoluteExpiresAt f = abs'"
    "rf_tokenHash f = tk_hash env secret" "rg_refreshToken g = secret" "rf_inactivityExpiresAt f = now + REFRESH_INACTIVITY_TTL_MS"
  using assms that
  by (auto simp: record_refresh_def insert_refresh_def list_ex_iff add_rows_def rf_of_def Let_def)

lemma mint_pair_ok:
  assumes "no_active pid device db"
  obtains a f pair where
    "mint_pair (mintAccessToken env name m now jti pid device platform ttl identity)
       (mintRefreshToken env now' secret family pid device platform path identity) db = (Inr pair, add_rows [a] [f] db)"
    "ar_of pid device a" "ar_status a = ArActive" "rf_of pid device f" "rf_status f = RfActive" "rf_family f = family"
    "rf_absoluteExpiresAt f = now' + REFRESH_ABSOLUTE_TTL_MS" "rf_tokenHash f = tk_hash env secret"
    "ar_tokenHash a = tk_hash env (tg_token (tp_access pair))" "rg_refreshToken (tp_refresh pair) = secret"
    "rf_inactivityExpiresAt f = now' + REFRESH_INACTIVITY_TTL_MS"
proof -
  obtain a g where a: "mintAccessToken env name m now jti pid device platform ttl identity db = Some (g, add_rows [a] [] db)"
    "ar_of pid device a" "ar_status a = ArActive" "ar_tokenHash a = tk_hash env (tg_token g)"
    using record_access_ok [OF assms, of env name m now jti platform ttl "capIdentity identity"]
    unfolding mintAccessToken_def by metis
  have none: "\<forall>r \<in> set (refreshTokenRecords (add_rows [a] [] db)). rf_of pid device r \<longrightarrow> rf_status r \<noteq> RfActive"
    using assms by (simp add: no_active_def)
  obtain f h where f:
    "mintRefreshToken env now' secret family pid device platform path identity (add_rows [a] [] db) = Some (h, add_rows [a] [f] db)"
    "rf_of pid device f" "rf_status f = RfActive" "rf_family f = family"
    "rf_absoluteExpiresAt f = now' + REFRESH_ABSOLUTE_TTL_MS" "rf_tokenHash f = tk_hash env secret" "rg_refreshToken h = secret"
    "rf_inactivityExpiresAt f = now' + REFRESH_INACTIVITY_TTL_MS"
    by (rule record_refresh_ok [OF none, of env now' secret family "now' + REFRESH_ABSOLUTE_TTL_MS" platform
          "capIdentity identity" path]) (auto simp: mintRefreshToken_def intro: that)
  show ?thesis
    using a f by (intro that [of "\<lparr>tp_access = g, tp_refresh = h\<rparr>" a f]) (simp_all add: mint_pair_def)
qed

lemma active_unique_row:
  assumes "active_unique db" "r \<in> set (refreshTokenRecords db)" "r' \<in> set (refreshTokenRecords db)"
    "rf_status r = RfActive" "rf_status r' = RfActive" "rf_of p d r" "rf_of p d r'"
  shows "r = r'"
proof -
  have "inj_on (\<lambda>r. (rf_principal r, rf_device r)) {r \<in> set (refreshTokenRecords db). rf_status r = RfActive}"
    using assms(1) by (simp add: active_unique_def distinct_map)
  then show ?thesis using assms(2-) by (auto simp: inj_on_def rf_of_def)
qed

lemma find_append_None: "\<forall>x \<in> set xs. \<not> P x \<Longrightarrow> find P (xs @ ys) = find P ys"
  by (induction xs) auto

lemma find_in: "find P xs = Some x \<Longrightarrow> x \<in> set xs \<and> P x"
  by (auto simp: find_Some_iff)

lemma rotation_ready:
  assumes "active_unique db" "r \<in> set (refreshTokenRecords db)" "rf_tokenHash r = h" "rf_status r = RfActive"
  shows "fst (markRotated t h db)"
    and "no_active (rf_principal r) (rf_device r)
        (revokeActiveActorTokensByDevice t' (rf_principal r) (rf_device r) (snd (markRotated t h db)))"
proof -
  let ?p = "rf_principal r" and ?d = "rf_device r"
  show "fst (markRotated t h db)"
    using assms by (auto simp: markRotated_def list_ex_iff)
  have "rf_status x \<noteq> RfActive" if "x \<in> set (refreshTokenRecords (snd (markRotated t h db)))" "rf_of ?p ?d x" for x
  proof
    assume active: "rf_status x = RfActive"
    have "\<not> (rf_tokenHash x = h \<and> rf_status x = RfActive) \<and> x \<in> set (refreshTokenRecords db)"
      by (rule update_where_gone [of x _ "\<lambda>r. r\<lparr>rf_status := RfRotated, rf_lastUsedAt := Some t, rf_updatedAt := t\<rparr>" _
            "\<lambda>r. rf_status r = RfActive"])
        (use that active in \<open>auto simp: markRotated_def\<close>)
    with active_unique_row [OF assms(1,2) _ assms(4) active, of ?p ?d] that assms(3) active show False
      by (simp add: rf_of_def)
  qed
  moreover have "ar_status x \<noteq> ArActive"
    if "x \<in> set (actorTokenRecords (revoke_actors [ArActive] t' ?p ?d db'))" "ar_of ?p ?d x" for x db'
    using no_actor_active_revoked [OF that] by simp
  ultimately show "no_active ?p ?d (revokeActiveActorTokensByDevice t' ?p ?d (snd (markRotated t h db)))"
    unfolding no_active_def revokeActiveActorTokensByDevice_def
    by (auto simp: revoke_actors_def)
qed

lemma rotate_ok:
  assumes "active_unique db" "find (\<lambda>r. rf_tokenHash r = h) (refreshTokenRecords db) = Some r"
    and True: "rf_status r = RfActive \<and> clk 0 \<le> rf_absoluteExpiresAt r \<and> clk 0 \<le> rf_inactivityExpiresAt r \<and> \<not> missing"
  obtains rr a f db1 where
    "rotateRefreshTokenRecord env name clk jti secret missing h r db = (Some (Inr rr), add_rows [a] [f] db1)"
    "rf_status r = RfActive" "clk 0 \<le> rf_absoluteExpiresAt r" "clk 0 \<le> rf_inactivityExpiresAt r" "\<not> missing"
    "weaker (snd (markRotated (clk 1) h db)) db1" "weaker db db1" "no_active (rf_principal r) (rf_device r) db1"
    "ar_of (rf_principal r) (rf_device r) a" "ar_status a = ArActive"
    "rf_of (rf_principal r) (rf_device r) f" "rf_status f = RfActive" "rf_family f = rf_family r"
    "rf_absoluteExpiresAt f = rf_absoluteExpiresAt r" "rr_guardianPrincipalId rr = rf_principal r"
    "rg_refreshToken (rr_refresh rr) = secret" "rf_tokenHash f = tk_hash env secret"
    "ar_tokenHash a = tk_hash env (tg_token (rr_access rr))"
proof -
  let ?p = "rf_principal r" and ?d = "rf_device r"
  have r: "r \<in> set (refreshTokenRecords db)" "rf_tokenHash r = h" using find_in [OF assms(2)] by auto
  define db1 where "db1 = revokeActiveActorTokensByDevice (clk 2) ?p ?d (snd (markRotated (clk 1) h db))"
  have ready: "fst (markRotated (clk 1) h db)" "no_active ?p ?d db1"
    using rotation_ready [OF assms(1) r] True by (auto simp: db1_def)
  have w1: "weaker (snd (markRotated (clk 1) h db)) db1"
    unfolding db1_def revokeActiveActorTokensByDevice_def by (rule weaker_revoke_actors)
  let ?i = "\<lparr>di_userAgent = rf_userAgent r, di_clientName = rf_clientName r\<rparr>"
  obtain a g where a: "record_access env name (clk 3) (clk 4) jti ?p ?d (rf_platform r) ACCESS_TOKEN_TTL_SECONDS ?i db1 =
      Some (g, add_rows [a] [] db1)" "ar_of ?p ?d a" "ar_status a = ArActive" "ar_tokenHash a = tk_hash env (tg_token g)"
    using record_access_ok [OF ready(2), of env name "clk 3" "clk 4" jti "rf_platform r" ACCESS_TOKEN_TTL_SECONDS ?i] by metis
  have none: "\<forall>x \<in> set (refreshTokenRecords (add_rows [a] [] db1)). rf_of ?p ?d x \<longrightarrow> rf_status x \<noteq> RfActive"
    using ready(2) by (simp add: no_active_def)
  obtain f k where f: "mintRefreshTokenInFamily env (clk 5) secret r (add_rows [a] [] db1) = Some (k, add_rows [a] [f] db1)"
    "rf_of ?p ?d f" "rf_status f = RfActive" "rf_family f = rf_family r" "rf_absoluteExpiresAt f = rf_absoluteExpiresAt r"
    "rf_tokenHash f = tk_hash env secret" "rg_refreshToken k = secret"
    by (rule record_refresh_ok [OF none, of env "clk 5" secret "rf_family r" "rf_absoluteExpiresAt r" "rf_platform r" ?i
          "rf_cookiePath r"]) (auto simp: mintRefreshTokenInFamily_def intro: that)
  have "rotateRefreshTokenRecord env name clk jti secret missing h r db =
      (Some (Inr \<lparr>rr_guardianPrincipalId = ?p, rr_access = g, rr_refresh = k, rr_browserRefreshCookiePath = rf_cookiePath r\<rparr>),
       add_rows [a] [f] db1)"
    using True ready(1) a(1) f(1) unfolding db1_def
    by (simp add: rotateRefreshTokenRecord_def case_prod_beta Let_def)
  then show ?thesis
    by (rule that) (use True w1 weaker_trans [OF weaker_mark w1] ready(2) a f in simp_all)
qed

lemma rotate_outcome:
  assumes "active_unique db" "find (\<lambda>r. rf_tokenHash r = h) (refreshTokenRecords db) = Some r"
  obtains (refused) e db' where
    "rotateRefreshTokenRecord env name clk jti secret missing h r db = (Some (Inl e), db')" "weaker db db'"
  | (rotated) rr a f db1 where
    "rotateRefreshTokenRecord env name clk jti secret missing h r db = (Some (Inr rr), add_rows [a] [f] db1)"
    "rf_status r = RfActive" "clk 0 \<le> rf_absoluteExpiresAt r" "clk 0 \<le> rf_inactivityExpiresAt r" "\<not> missing"
    "weaker (snd (markRotated (clk 1) h db)) db1" "weaker db db1" "no_active (rf_principal r) (rf_device r) db1"
    "ar_of (rf_principal r) (rf_device r) a" "ar_status a = ArActive"
    "rf_of (rf_principal r) (rf_device r) f" "rf_status f = RfActive" "rf_family f = rf_family r"
    "rf_absoluteExpiresAt f = rf_absoluteExpiresAt r" "rr_guardianPrincipalId rr = rf_principal r"
    "rg_refreshToken (rr_refresh rr) = secret" "rf_tokenHash f = tk_hash env secret"
    "ar_tokenHash a = tk_hash env (tg_token (rr_access rr))"
proof (cases "rf_status r = RfActive \<and> clk 0 \<le> rf_absoluteExpiresAt r \<and> clk 0 \<le> rf_inactivityExpiresAt r \<and> \<not> missing")
  case False
  have "weaker db (revokeAllActorTokensByDevice t p d (revokeFamily t' fam db))" for t p d t' fam
    by (rule weaker_trans [OF weaker_family weaker_revoke_all])
  with False have "\<exists>e db'. rotateRefreshTokenRecord env name clk jti secret missing h r db = (Some (Inl e), db') \<and> weaker db db'"
    by (cases "rf_status r") (auto simp: rotateRefreshTokenRecord_def)
  then show ?thesis using refused by blast
next
  case True
  show ?thesis by (rule rotate_ok [where clk = clk and missing = missing, OF assms True]) (rule rotated)
qed

lemma eff_refl [simp]: "token_effect Weaken db db"
  by (simp add: eff_weaken)

lemma admit_weaker: "weaker (ts_db s) (ts_db (snd (admitActorToken env fault clk raw c s)))"
  by (cases "parseSub (tc_sub c)")
    (auto simp: admitActorToken_def Let_def weaker_stamp split: prod.split option.split)

lemma admit_rejects:
  assumes "parseSub (tc_sub c) = Inr p" "sb_principalType p = PrActor" "fault \<noteq> SelectFault"
  shows "fst (admitActorToken env fault clk raw c s) \<longleftrightarrow>
      \<not> (\<exists>r. find_actor (actorTokenRecordHash env raw) (ts_db s) = Some r \<and> ar_status r = ArRevoked)"
  using assms by (auto simp: admitActorToken_def Let_def split: prod.split option.split)

lemma revoke_weaker: "weaker db (snd (revoke_device clk pid device db))"
  by (simp add: revoke_device_def Let_def weaker_trans [OF weaker_revoke_device weaker_revoke_refresh])

lemma effect_pair:
  assumes "\<forall>r \<in> set (refreshTokenRecords db). rf_family r \<noteq> family"
  shows "\<exists>e. e \<in> {Weaken, NewPair pid (hashDeviceId env deviceId) family} \<and>
      token_effect e db (snd (mintAndRecordDeviceBoundTokenPair env name clk jti secret family pid deviceId platform identity db))"
proof (cases "js_trim deviceId = []")
  case True
  then show ?thesis by (intro exI [of _ Weaken]) (simp add: mintAndRecordDeviceBoundTokenPair_def)
next
  case False
  let ?d = "hashDeviceId env deviceId"
  let ?db = "revokeRefreshTokensByDevice (clk 1) pid ?d (revokeActorTokensByDevice (clk 0) pid ?d db)"
  have w: "weaker db ?db" by (rule weaker_trans [OF weaker_revoke_device weaker_revoke_refresh])
  obtain a f pair where "mint_pair
       (mintAccessToken env name (clk 2) (clk 3) jti pid ?d platform ACCESS_TOKEN_TTL_SECONDS identity)
       (mintRefreshToken env (clk 4) secret family pid ?d platform None identity) ?db = (Inr pair, add_rows [a] [f] ?db)"
    and rows: "ar_of pid ?d a" "ar_status a = ArActive" "rf_of pid ?d f" "rf_status f = RfActive" "rf_family f = family"
    using no_active_revoked by (rule mint_pair_ok)
  then have "snd (mintAndRecordDeviceBoundTokenPair env name clk jti secret family pid deviceId platform identity db) =
      add_rows [a] [f] ?db"
    using False by (simp add: mintAndRecordDeviceBoundTokenPair_def Let_def)
  with eff_pair [OF w no_active_revoked rows assms] show ?thesis by auto
qed

lemma effect_browser_pair:
  assumes "\<forall>r \<in> set (refreshTokenRecords db). rf_family r \<noteq> family \<and> rf_device r \<noteq> tk_hash env binding"
    "\<forall>r \<in> set (actorTokenRecords db). ar_device r \<noteq> tk_hash env binding"
  shows "token_effect (NewPair pid (tk_hash env binding) family) db
      (snd (mintAndRecordBrowserTokenPair env name clk binding jti secret family pid platform path identity db))"
proof -
  let ?d = "tk_hash env binding"
  have none: "no_active pid ?d db"
    using assms by (auto simp: no_active_def ar_of_def rf_of_def)
  obtain a f pair where "mint_pair
       (mintAccessToken env name (clk 0) (clk 1) jti pid ?d platform ACCESS_TOKEN_TTL_SECONDS identity)
       (mintRefreshToken env (clk 2) secret family pid ?d platform (Some path) identity) db = (Inr pair, add_rows [a] [f] db)"
    and rows: "ar_of pid ?d a" "ar_status a = ArActive" "rf_of pid ?d f" "rf_status f = RfActive" "rf_family f = family"
    using none by (rule mint_pair_ok)
  then have "snd (mintAndRecordBrowserTokenPair env name clk binding jti secret family pid platform path identity db) =
      add_rows [a] [f] db"
    by (simp add: mintAndRecordBrowserTokenPair_def Let_def)
  moreover have "\<forall>r \<in> set (refreshTokenRecords db). rf_family r \<noteq> family" using assms(1) by blast
  ultimately show ?thesis using eff_pair [OF weaker_refl none rows] by simp
qed

lemma effect_rotate_record:
  assumes "active_unique db" "find (\<lambda>r. rf_tokenHash r = h) (refreshTokenRecords db) = Some r"
  shows "\<exists>e. e \<in> {Weaken, Rotation (rf_principal r) (rf_device r)} \<and>
      token_effect e db (snd (rotateRefreshTokenRecord env name clk jti secret missing h r db))"
  using assms
proof (cases rule: rotate_outcome [where env = env and name = name and clk = clk and jti = jti and secret = secret and missing = missing])
  case (refused e db')
  then show ?thesis by (auto intro: eff_weaken)
next
  case (rotated rr a f db1)
  have "r \<in> set (refreshTokenRecords db)" using find_in [OF assms(2)] by simp
  from eff_rotate [OF rotated(7-12) this rotated(2) _ rotated(13,14)] rotated(1) show ?thesis
    by (auto simp: rf_of_def)
qed

lemma effect_rotate:
  assumes "active_unique db"
  shows "\<exists>e pid. e \<in> {Weaken, Rotation pid device} \<and> token_effect e db (snd (rotateCredentials env name clk jti secret missing token device db))"
proof (cases "findRefreshByHash (tk_hash env token) db")
  case None
  then show ?thesis by (intro exI [of _ Weaken]) (simp add: rotateCredentials_def)
next
  case (Some r)
  show ?thesis
  proof (cases "rf_device r = device")
    case True
    with effect_rotate_record [OF assms Some [unfolded findRefreshByHash_def], of env name clk jti secret missing] Some
    show ?thesis by (auto simp: rotateCredentials_def)
  next
    case False
    with Some show ?thesis by (intro exI [of _ Weaken]) (simp add: rotateCredentials_def)
  qed
qed

lemma effect_browser_rotate:
  assumes "active_unique db"
  shows "\<exists>e pid device. e \<in> {Weaken, Rotation pid device} \<and>
      token_effect e db (snd (rotateBrowserCredentialsByRefreshToken env name clk jti secret missing token db))"
proof (cases "findRefreshByHash (tk_hash env token) db")
  case None
  then show ?thesis by (intro exI [of _ Weaken]) (simp add: rotateBrowserCredentialsByRefreshToken_def)
next
  case (Some r)
  show ?thesis
  proof (cases "rf_cookiePath r = None \<or> rf_cookiePath r = Some []")
    case True
    with Some show ?thesis by (intro exI [of _ Weaken]) (simp add: rotateBrowserCredentialsByRefreshToken_def)
  next
    case False
    with Some have "rotateBrowserCredentialsByRefreshToken env name clk jti secret missing token db =
        rotateRefreshTokenRecord env name clk jti secret missing (tk_hash env token) r db"
      by (auto simp: rotateBrowserCredentialsByRefreshToken_def)
    with effect_rotate_record [OF assms Some [unfolded findRefreshByHash_def], of env name clk jti secret missing]
    show ?thesis by auto
  qed
qed

text \<open>
  A derivation is healthy when its admission could read the table and its bearer speaks for an actor (the only
  tokens the gateway records): admission is fail-open otherwise.
\<close>

fun healthy :: "token_env \<Rightarrow> token_op \<Rightarrow> bool" where
  "healthy env (OpDerive loopback origin fault sourceFails insertFails missing ensured clk jti header) =
     (fault \<noteq> SelectFault \<and>
      (case bearer_token header of
         None \<Rightarrow> True
       | Some bearer \<Rightarrow>
           (case verifyToken env (clk 0) False bearer ''vellum-gateway'' of
              Inl _ \<Rightarrow> True
            | Inr c \<Rightarrow> daemon_principal (tc_sub c) = PrActor)))"
| "healthy env _ = True"

lemma find_map: "find P (map f xs) = map_option f (find (P \<circ> f) xs)"
  by (induction xs) auto

lemma find_actor_stamp:
  "find_actor h (stamp_device now p d db) =
     map_option (\<lambda>r. if ar_of p d r \<and> ar_status r = ArActive then r\<lparr>ar_lastUsedAt := Some now\<rparr> else r) (find_actor h db)"
proof -
  have "((\<lambda>r. ar_tokenHash r = h) \<circ> (\<lambda>r. if ar_of p d r \<and> ar_status r = ArActive then r\<lparr>ar_lastUsedAt := Some now\<rparr> else r)) =
      (\<lambda>r. ar_tokenHash r = h)"
    by (auto simp: fun_eq_iff)
  then show ?thesis by (simp add: find_actor_def stamp_device_def update_where_def find_map)
qed

lemma admitted_db:
  "ts_db (snd (admitActorToken env fault clk raw c s)) = ts_db s \<or>
   (\<exists>t p d. ts_db (snd (admitActorToken env fault clk raw c s)) = stamp_device t p d (ts_db s))"
  by (cases "parseSub (tc_sub c)") (auto simp: admitActorToken_def Let_def split: prod.split option.split)

lemma admitted_live:
  assumes "fst (admitActorToken env fault clk raw c s)" "fault \<noteq> SelectFault" "daemon_principal (tc_sub c) = PrActor"
    and "find_actor (actorTokenRecordHash env raw) (ts_db (snd (admitActorToken env fault clk raw c s))) = Some r"
  shows "ar_status r \<noteq> ArRevoked"
proof -
  obtain p where "parseSub (tc_sub c) = Inr p" "sb_principalType p = PrActor"
    using assms(3) by (auto simp: daemon_principal_def split: sum.splits if_splits)
  from admit_rejects [OF this assms(2)] assms(1)
  have "find_actor (actorTokenRecordHash env raw) (ts_db s) = Some x \<Longrightarrow> ar_status x \<noteq> ArRevoked" for x by blast
  with assms(4) admitted_db [of env fault clk raw c s] show ?thesis
    by (auto simp: find_actor_stamp split: if_splits)
qed

lemma create_db:
  "ts_db (snd (createFromSource env sf insf missing ensured clk jti bearer s)) = ts_db s \<or>
   (\<exists>r token. findSourceActorTokenRecord env sf bearer (ts_db s) = Some r \<and>
      ts_db (snd (createFromSource env sf insf missing ensured clk jti bearer s)) =
        recordDerivedActorToken env insf (clk 5) (Some r) token (ts_db s))"
proof (cases "findSourceActorTokenRecord env sf bearer (ts_db s)")
  case None
  then show ?thesis
    by (auto simp: createFromSource_def recordDerivedActorToken_def split: ensure_result.split)
next
  case (Some r)
  then show ?thesis
    by (cases "ar_principal r = []"; cases ensured) (auto simp: createFromSource_def Let_def)
qed

lemma effect_derive:
  "\<exists>e. (e = Weaken \<or> (\<exists>p d live. e = Derive live p d)) \<and>
     (healthy env (OpDerive loopback origin fault sf insf missing ensured clk jti header) \<longrightarrow> e = Weaken \<or> (\<exists>p d. e = Derive True p d)) \<and>
     token_effect e (ts_db s) (ts_db (snd (handleCreateToken env loopback origin fault sf insf missing ensured clk jti header s)))"
    (is "\<exists>e. ?P e \<and> (?healthy \<longrightarrow> ?Q e) \<and> token_effect e _ (ts_db (snd ?res))")
proof (cases "ts_db (snd ?res) = ts_db s")
  case True
  then show ?thesis by (intro exI [of _ Weaken]) simp
next
  case False
  then obtain bearer c where b: "loopback" "bearer_token header = Some bearer"
      "verifyToken env (clk 0) False bearer ''vellum-gateway'' = Inr c" "tc_scope_profile c = ''actor_client_v1''"
      "\<not> (case origin of None \<Rightarrow> True | Some x \<Rightarrow> \<not> web_origin x)"
    by (auto simp: handleCreateToken_def split: if_splits option.splits sum.splits)
  define ad where "ad = admitActorToken env fault (\<lambda>i. clk (Suc i)) bearer c s"
  have weak: "weaker (ts_db s) (ts_db (snd ad))" unfolding ad_def by (rule admit_weaker)
  have res: "?res = (if \<not> fst ad then (TokenUnauthorized, snd ad) else createFromSource env sf insf missing ensured clk jti bearer (snd ad))"
    using b by (simp add: handleCreateToken_def ad_def case_prod_beta)
  show ?thesis
  proof (cases "ts_db (snd ?res) = ts_db (snd ad)")
    case True
    then show ?thesis using weak by (intro exI [of _ Weaken]) (simp add: eff_weaken)
  next
    case False
    then have admitted: "fst ad" unfolding res by (auto split: if_splits)
    with False obtain r token where r: "findSourceActorTokenRecord env sf bearer (ts_db (snd ad)) = Some r"
        "ts_db (snd ?res) = recordDerivedActorToken env insf (clk 5) (Some r) token (ts_db (snd ad))"
      using create_db [of env sf insf missing ensured clk jti bearer "snd ad"] unfolding res by auto
    with False obtain a where a: "ts_db (snd ?res) = add_rows [a] [] (ts_db (snd ad))" "ar_of (ar_principal r) (ar_device r) a"
        "ar_status a = ArDerived"
      by (auto simp: recordDerivedActorToken_def add_rows_def ar_of_def split: if_splits)
    from r have found: "find_actor (actorTokenRecordHash env bearer) (ts_db (snd ad)) = Some r"
      by (simp add: findSourceActorTokenRecord_def split: if_splits)
    then have mem: "r \<in> set (actorTokenRecords (ts_db (snd ad)))" "ar_of (ar_principal r) (ar_device r) r"
      by (auto simp: find_actor_def ar_of_def dest: find_in)
    have live: "ar_status r \<noteq> ArRevoked" if ?healthy
      using admitted_live [of env fault "\<lambda>i. clk (Suc i)" bearer c s r] admitted found that b
      by (simp add: ad_def)
    show ?thesis
      using eff_derive [OF weak mem _ a(2,3), of ?healthy] live unfolding a(1)
      by (cases ?healthy) auto
  qed
qed

lemma op_effect:
  assumes "fresh_op env op (ts_db s)" "active_unique (ts_db s)"
  shows "\<exists>e. effect_of env op e \<and> (healthy env op \<longrightarrow> (\<forall>p d. e \<noteq> Derive False p d)) \<and>
      token_effect e (ts_db s) (ts_db (token_apply env name op s))"
proof (cases op)
  case (OpPair clk jti secret family pid deviceId platform identity)
  with assms(1) effect_pair [of "ts_db s" family pid env deviceId name clk jti secret platform identity] show ?thesis
    by (auto simp: list_all_iff on_db_def)
next
  case (OpBrowserPair clk binding jti secret family pid platform path identity)
  with assms(1) effect_browser_pair [of "ts_db s" family env binding pid name clk jti secret platform path identity] show ?thesis
    by (auto simp: list_all_iff on_db_def)
next
  case (OpRotate clk jti secret missing token device)
  with effect_rotate [OF assms(2), of device env name clk jti secret missing token] show ?thesis
    by (auto simp: on_db_def)
next
  case (OpBrowserRotate clk jti secret missing token)
  with effect_browser_rotate [OF assms(2), of env name clk jti secret missing token] show ?thesis
    by (auto simp: on_db_def)
next
  case (OpAdmit fault clk token c)
  then show ?thesis by (auto intro!: exI [of _ Weaken] eff_weaken admit_weaker)
next
  case (OpRevoke clk pid device)
  then show ?thesis by (auto simp: on_db_def intro!: exI [of _ Weaken] eff_weaken revoke_weaker)
next
  case (OpDerive loopback origin fault sf insf missing ensured clk jti header)
  with effect_derive [of env loopback origin fault sf insf missing ensured clk jti header s] show ?thesis
    by (elim exE conjE) (intro exI conjI, auto)
qed

section \<open>Looking rows up again\<close>

text \<open>What both tables promise to a lookup by hash: a weakened row keeps its key, so the row found first stays found first.\<close>

locale weakened_rows =
  fixes key :: "'r \<Rightarrow> string" and wk :: "'r \<Rightarrow> 'r \<Rightarrow> bool"
  assumes same_key: "wk r r' \<Longrightarrow> key r' = key r"
begin

lemma find_weaker:
  "list_all2 wk xs ys \<Longrightarrow> find (\<lambda>r. key r = h) xs = Some r \<Longrightarrow> \<exists>r'. find (\<lambda>r. key r = h) (ys @ zs) = Some r' \<and> wk r r'"
  by (induction rule: list_all2_induct) (auto simp: same_key split: if_splits)

end

interpretation actor_rows: weakened_rows ar_tokenHash ar_weaker
  by unfold_locales (simp add: ar_weaker_def ar_imm_def)

interpretation refresh_rows: weakened_rows rf_tokenHash rf_weaker
  by unfold_locales (simp add: rf_weaker_def rf_imm_def)

lemma weaker_find_actor:
  "weaker db db1 \<Longrightarrow> find_actor h db = Some r \<Longrightarrow> \<exists>r'. find_actor h (add_rows as rs db1) = Some r' \<and> ar_weaker r r'"
  unfolding weaker_def find_actor_def add_rows_simps by (blast intro: actor_rows.find_weaker)

lemma weaker_find_refresh:
  "weaker db db1 \<Longrightarrow> findRefreshByHash h db = Some r \<Longrightarrow> \<exists>r'. findRefreshByHash h (add_rows as rs db1) = Some r' \<and> rf_weaker r r'"
  unfolding weaker_def findRefreshByHash_def add_rows_simps by (blast intro: refresh_rows.find_weaker)

lemma add_rows_Nil: "add_rows [] [] db = db"
  by (simp add: add_rows_def)

lemma effect_tables:
  assumes "token_effect e db db'" obtains db1 as rs where "weaker db db1" "db' = add_rows as rs db1"
  using assms by (cases rule: token_effect.cases) (blast intro: that add_rows_Nil [symmetric])+

lemma effect_find_actor: "token_effect e db db' \<Longrightarrow> find_actor h db = Some r \<Longrightarrow> \<exists>r'. find_actor h db' = Some r' \<and> ar_weaker r r'"
  by (elim effect_tables) (use weaker_find_actor in blast)

lemma effect_find_refresh:
  "token_effect e db db' \<Longrightarrow> findRefreshByHash h db = Some r \<Longrightarrow> \<exists>r'. findRefreshByHash h db' = Some r' \<and> rf_weaker r r'"
  by (elim effect_tables) (use weaker_find_refresh in blast)

section \<open>What stays\<close>

text \<open>One rule for runs: whatever every allowed effect of an operation keeps.\<close>

lemma run_keeps:
  assumes "fresh_run env name ops s" "active_unique (ts_db s)" "I (ts_db s)" "list_all ok ops"
    and "\<And>op e db db'. ok op \<Longrightarrow> effect_of env op e \<Longrightarrow> healthy env op \<longrightarrow> (\<forall>p d. e \<noteq> Derive False p d) \<Longrightarrow>
      token_effect e db db' \<Longrightarrow> I db \<Longrightarrow> I db'"
  shows "I (ts_db (token_run env name ops s)) \<and> active_unique (ts_db (token_run env name ops s))"
  using assms(1-4)
proof (induction ops arbitrary: s)
  case (Cons op ops)
  then obtain e where e: "effect_of env op e" "healthy env op \<longrightarrow> (\<forall>p d. e \<noteq> Derive False p d)"
      "token_effect e (ts_db s) (ts_db (token_apply env name op s))"
    using op_effect [of env op s name] by auto
  with assms(5) [OF _ e] Cons active_unique_effect [OF e(3)] show ?case by simp
qed simp

lemma run_keeps_all:
  assumes "fresh_run env name ops s" "active_unique (ts_db s)" "I (ts_db s)"
    and "\<And>e db db'. token_effect e db db' \<Longrightarrow> I db \<Longrightarrow> I db'"
  shows "I (ts_db (token_run env name ops s))"
  using run_keeps [where I = I and ok = "\<lambda>_. True", OF assms(1-3)] assms(4) by (simp add: list_all_iff)

definition spent :: "string \<Rightarrow> token_db \<Rightarrow> bool" where
  "spent h db = (\<exists>r. findRefreshByHash h db = Some r \<and> rf_status r \<noteq> RfActive)"

definition device_out :: "string \<Rightarrow> string \<Rightarrow> token_db \<Rightarrow> bool" where
  "device_out p d db =
     ((\<forall>r \<in> set (actorTokenRecords db). ar_of p d r \<longrightarrow> ar_status r = ArRevoked) \<and>
      (\<forall>r \<in> set (refreshTokenRecords db). rf_of p d r \<longrightarrow> rf_status r \<noteq> RfActive))"

definition family_out :: "string \<Rightarrow> token_db \<Rightarrow> bool" where
  "family_out f db =
     ((\<exists>r \<in> set (refreshTokenRecords db). rf_family r = f) \<and>
      (\<forall>r \<in> set (refreshTokenRecords db). rf_family r = f \<longrightarrow> rf_status r \<noteq> RfActive))"

definition family_until :: "string \<Rightarrow> int \<Rightarrow> token_db \<Rightarrow> bool" where
  "family_until f expiry db =
     ((\<exists>r \<in> set (refreshTokenRecords db). rf_family r = f) \<and>
      (\<forall>r \<in> set (refreshTokenRecords db). rf_family r = f \<longrightarrow> rf_absoluteExpiresAt r = expiry))"

definition recorded_for :: "string \<Rightarrow> string \<Rightarrow> string \<Rightarrow> token_db \<Rightarrow> bool" where
  "recorded_for p d h db = (\<exists>r. find_actor h db = Some r \<and> ar_of p d r)"

lemma recorded_for_effect: "token_effect e db db' \<Longrightarrow> recorded_for p d h db \<Longrightarrow> recorded_for p d h db'"
  unfolding recorded_for_def by (elim exE conjE, drule (1) effect_find_actor) (auto simp: ar_weaker_of)

lemma spent_effect: "token_effect e db db' \<Longrightarrow> spent h db \<Longrightarrow> spent h db'"
  unfolding spent_def using effect_find_refresh by (fastforce simp: rf_weaker_def)

lemma device_out_weaker:
  assumes "device_out p d db" "weaker db db1" shows "device_out p d db1"
proof -
  have "ar_status r = ArRevoked" if "r \<in> set (actorTokenRecords db1)" "ar_of p d r" for r
    using weaker_actorD [OF assms(2) that(1)] assms(1) that(2)
    by (auto simp: device_out_def ar_weaker_def ar_imm_def ar_of_def)
  moreover have "rf_status r \<noteq> RfActive" if "r \<in> set (refreshTokenRecords db1)" "rf_of p d r" for r
    using weaker_refreshD [OF assms(2) that(1)] assms(1) that(2)
    by (auto simp: device_out_def rf_weaker_def rf_imm_def rf_of_def)
  ultimately show ?thesis by (simp add: device_out_def)
qed

lemma device_out_effect:
  assumes "token_effect e db db'" "device_out p d db" "\<And>p' d'. e \<noteq> Derive False p' d'" "\<And>f. e \<noteq> NewPair p d f"
  shows "device_out p d db'"
  using assms(1)
proof (cases rule: token_effect.cases)
  case eff_weaken
  then show ?thesis using device_out_weaker [OF assms(2)] by simp
next
  case (eff_derive db1 r p' d' live a)
  with assms(3) have "ar_status r \<noteq> ArRevoked" by (cases live) auto
  with eff_derive device_out_weaker [OF assms(2) eff_derive(3)] have "\<not> ar_of p d a" "device_out p d db1"
    by (auto simp: device_out_def ar_of_def)
  with eff_derive show ?thesis by (auto simp: device_out_def)
next
  case (eff_pair db1 p' d' a f family)
  with assms(4) have "\<not> ar_of p d a" "\<not> rf_of p d f" by (auto simp: ar_of_def rf_of_def)
  with eff_pair device_out_weaker [OF assms(2) eff_pair(3)] show ?thesis by (auto simp: device_out_def)
next
  case (eff_rotate db1 p' d' a f r)
  with assms(2) have "\<not> ar_of p d a" "\<not> rf_of p d f" by (auto simp: device_out_def ar_of_def rf_of_def)
  with eff_rotate device_out_weaker [OF assms(2) eff_rotate(3)] show ?thesis by (auto simp: device_out_def)
qed

lemma weaker_refresh_keep:
  "weaker db db1 \<Longrightarrow> r \<in> set (refreshTokenRecords db) \<Longrightarrow> \<exists>r' \<in> set (refreshTokenRecords db1). rf_weaker r r'"
  unfolding weaker_def by (blast dest: list_all2_forth)

lemma family_rows_weaker:
  assumes "weaker db db1" "\<exists>r \<in> set (refreshTokenRecords db). rf_family r = f"
    "\<forall>r \<in> set (refreshTokenRecords db). rf_family r = f \<longrightarrow> P r" "\<And>r r'. rf_weaker r r' \<Longrightarrow> P r \<Longrightarrow> P r'"
  shows "(\<exists>r \<in> set (refreshTokenRecords db1). rf_family r = f) \<and> (\<forall>r \<in> set (refreshTokenRecords db1). rf_family r = f \<longrightarrow> P r)"
proof
  show "\<exists>r \<in> set (refreshTokenRecords db1). rf_family r = f"
    using assms(2) weaker_refresh_keep [OF assms(1)] by (fastforce simp: rf_weaker_def rf_imm_def)
  show "\<forall>r \<in> set (refreshTokenRecords db1). rf_family r = f \<longrightarrow> P r"
    using weaker_refreshD [OF assms(1)] assms(3,4) by (fastforce simp: rf_weaker_def rf_imm_def)
qed

lemma family_rows_effect:
  assumes "token_effect e db db'" "\<exists>r \<in> set (refreshTokenRecords db). rf_family r = f"
    "\<forall>r \<in> set (refreshTokenRecords db). rf_family r = f \<longrightarrow> P r" "\<And>r r'. rf_weaker r r' \<Longrightarrow> P r \<Longrightarrow> P r'"
    "\<And>r r'. P r \<Longrightarrow> rf_status r = RfActive \<Longrightarrow> rf_absoluteExpiresAt r' = rf_absoluteExpiresAt r \<Longrightarrow> P r'"
  shows "(\<exists>r \<in> set (refreshTokenRecords db'). rf_family r = f) \<and> (\<forall>r \<in> set (refreshTokenRecords db'). rf_family r = f \<longrightarrow> P r)"
  using assms(1)
proof (cases rule: token_effect.cases)
  case eff_weaken
  then show ?thesis using family_rows_weaker [OF _ assms(2-4)] by simp
next
  case (eff_derive db1 r p' d' live a)
  then show ?thesis using family_rows_weaker [OF eff_derive(3) assms(2-4)] by simp
next
  case (eff_pair db1 p' d' a g family)
  then have "rf_family g \<noteq> f" using assms(2) by auto
  with eff_pair family_rows_weaker [OF eff_pair(3) assms(2-4)] show ?thesis by auto
next
  case (eff_rotate db1 p' d' a g r)
  then have "rf_family g = f \<Longrightarrow> P g" using assms(3,5) by auto
  with eff_rotate family_rows_weaker [OF eff_rotate(3) assms(2-4)] show ?thesis by auto
qed

lemma family_out_effect: "token_effect e db db' \<Longrightarrow> family_out f db \<Longrightarrow> family_out f db'"
  unfolding family_out_def by (elim conjE, rule family_rows_effect) (auto simp: rf_weaker_def)

lemma family_until_effect: "token_effect e db db' \<Longrightarrow> family_until f x db \<Longrightarrow> family_until f x db'"
  unfolding family_until_def by (elim conjE, rule family_rows_effect) (auto simp: rf_weaker_def rf_imm_def)

section \<open>Redeeming a refresh token\<close>

text \<open>A refresh token is redeemed by either route; the device is only asked of the first.\<close>

definition redeems ::
  "token_env \<Rightarrow> string option \<Rightarrow> (nat \<Rightarrow> int) \<Rightarrow> string \<Rightarrow> string \<Rightarrow> bool \<Rightarrow> string \<Rightarrow> string \<Rightarrow> token_db \<Rightarrow> bool" where
  "redeems env name clk jti secret missing token device db =
     ((\<exists>rr. fst (rotateCredentials env name clk jti secret missing token device db) = Some (Inr rr)) \<or>
      (\<exists>rr. fst (rotateBrowserCredentialsByRefreshToken env name clk jti secret missing token db) = Some (Inr rr)))"

lemma rotate_not_active:
  "rf_status r \<noteq> RfActive \<Longrightarrow> fst (rotateRefreshTokenRecord env name clk jti secret missing h r db) \<noteq> Some (Inr rr)"
  by (cases "rf_status r") (simp_all add: rotateRefreshTokenRecord_def)

lemma rotate_late:
  "rf_absoluteExpiresAt r < clk 0 \<Longrightarrow> fst (rotateRefreshTokenRecord env name clk jti secret missing h r db) \<noteq> Some (Inr rr)"
  by (cases "rf_status r") (simp_all add: rotateRefreshTokenRecord_def)

lemma redeemsE:
  assumes "redeems env name clk jti secret missing token device db"
  obtains r rr where "findRefreshByHash (tk_hash env token) db = Some r"
    "fst (rotateRefreshTokenRecord env name clk jti secret missing (tk_hash env token) r db) = Some (Inr rr)"
  using assms
  by (auto simp: redeems_def rotateCredentials_def rotateBrowserCredentialsByRefreshToken_def Let_def split: option.splits if_splits)

lemma redeems_row:
  assumes "redeems env name clk jti secret missing token device db"
  obtains r where "findRefreshByHash (tk_hash env token) db = Some r" "r \<in> set (refreshTokenRecords db)" "rf_status r = RfActive"
    "clk 0 \<le> rf_absoluteExpiresAt r"
proof -
  from assms obtain r rr where r: "findRefreshByHash (tk_hash env token) db = Some r"
    "fst (rotateRefreshTokenRecord env name clk jti secret missing (tk_hash env token) r db) = Some (Inr rr)"
    by (rule redeemsE)
  then have "rf_status r = RfActive" "\<not> rf_absoluteExpiresAt r < clk 0"
    using rotate_not_active rotate_late by blast+
  with r(1) find_in [of _ _ r] show ?thesis by (intro that [of r]) (auto simp: findRefreshByHash_def)
qed

lemma spent_not_redeemed: "spent (tk_hash env token) db \<Longrightarrow> \<not> redeems env name clk jti secret missing token device db"
  by (auto simp: spent_def elim: redeems_row)

lemma rotate_record_spends:
  assumes "active_unique db" "findRefreshByHash h db = Some r"
    "fst (rotateRefreshTokenRecord env name clk jti secret missing h r db) = Some (Inr rr)"
  shows "spent h (snd (rotateRefreshTokenRecord env name clk jti secret missing h r db))"
  using assms(1) assms(2) [unfolded findRefreshByHash_def]
proof (cases rule: rotate_outcome [where env = env and name = name and clk = clk and jti = jti and secret = secret and missing = missing])
  case (refused e db')
  with assms(3) show ?thesis by simp
next
  case (rotated rr' a f db1)
  let ?m = "snd (markRotated (clk 1) h db)"
  have "findRefreshByHash h ?m = map_option (\<lambda>r. if rf_tokenHash r = h \<and> rf_status r = RfActive
      then r\<lparr>rf_status := RfRotated, rf_lastUsedAt := Some (clk 1), rf_updatedAt := clk 1\<rparr> else r) (findRefreshByHash h db)"
    unfolding findRefreshByHash_def markRotated_def snd_conv update_where_def
    by (simp add: find_map) (rule arg_cong [where f = "map_option _"], rule arg_cong [where f = "\<lambda>P. find P _"], auto simp: fun_eq_iff)
  moreover have "rf_tokenHash r = h" using assms(2) find_in by (fastforce simp: findRefreshByHash_def)
  ultimately obtain r' where r': "findRefreshByHash h ?m = Some r'" "rf_status r' = RfRotated"
    using assms(2) rotated(2) by simp
  from weaker_find_refresh [OF rotated(6) r'(1)] obtain r2 where
    "findRefreshByHash h (add_rows [a] [f] db1) = Some r2" "rf_weaker r' r2" by blast
  with r'(2) show ?thesis by (auto simp: rotated(1) spent_def rf_weaker_def)
qed

lemma family_row:
  assumes "findRefreshByHash h db = Some r" shows "r \<in> set (refreshTokenRecords db)"
  using assms find_in by (fastforce simp: findRefreshByHash_def)

lemma family_out_revoked:
  assumes "r \<in> set (refreshTokenRecords db)"
  shows "family_out (rf_family r) (revokeAllActorTokensByDevice t p d (revokeFamily t' (rf_family r) db))"
proof -
  let ?db = "revokeAllActorTokensByDevice t p d (revokeFamily t' (rf_family r) db)"
  have rows: "refreshTokenRecords ?db =
      update_where (\<lambda>x. rf_family x = rf_family r) (\<lambda>x. x\<lparr>rf_status := RfRevoked, rf_updatedAt := t'\<rparr>) (refreshTokenRecords db)"
    by (simp add: weaken_defs)
  have "\<exists>x \<in> set (refreshTokenRecords ?db). rf_family x = rf_family r"
    using assms by (intro bexI [of _ "r\<lparr>rf_status := RfRevoked, rf_updatedAt := t'\<rparr>"]) (auto simp: rows set_update_where)
  moreover have "rf_status x \<noteq> RfActive" if "x \<in> set (refreshTokenRecords ?db)" "rf_family x = rf_family r" for x
    using update_where_gone [of x "\<lambda>x. rf_family x = rf_family r" "\<lambda>x. x\<lparr>rf_status := RfRevoked, rf_updatedAt := t'\<rparr>"
        "refreshTokenRecords db" "\<lambda>x. rf_status x = RfActive"] that unfolding rows by auto
  ultimately show ?thesis by (simp add: family_out_def)
qed

lemma reuse_detected_rotated:
  assumes "active_unique db" "findRefreshByHash h db = Some r"
    "rotateRefreshTokenRecord env name clk jti secret missing h r db = (Some (Inl RefreshReuseDetected), db')"
  shows "rf_status r = RfRotated"
    "db' = revokeAllActorTokensByDevice (clk 1) (rf_principal r) (rf_device r) (revokeFamily (clk 0) (rf_family r) db)"
proof -
  have r: "r \<in> set (refreshTokenRecords db)" "rf_tokenHash r = h"
    using assms(2) find_in by (fastforce simp: findRefreshByHash_def)+
  show "rf_status r = RfRotated"
    using rotation_ready(1) [OF assms(1) r, of "clk 1"] assms(3)
    by (cases "rf_status r") (auto simp: rotateRefreshTokenRecord_def Let_def split: if_splits prod.splits option.splits)
  then show "db' = revokeAllActorTokensByDevice (clk 1) (rf_principal r) (rf_device r) (revokeFamily (clk 0) (rf_family r) db)"
    using assms(3) by (simp add: rotateRefreshTokenRecord_def)
qed

lemma revoke_device_out:
  "revoke_device clk pid (Some device) db = (True, db') \<Longrightarrow> device_out pid (js_trim device) db'"
  using no_live_revoked no_refresh_active_revoked by (fastforce simp: revoke_device_def Let_def device_out_def split: if_splits)

lemma revoke_device_unique: "active_unique db \<Longrightarrow> active_unique (snd (revoke_device clk pid device db))"
  using active_unique_weaker revoke_weaker by blast

text \<open>An operation that pairs a device (anew).\<close>

fun pairs_device :: "token_env \<Rightarrow> string \<Rightarrow> string \<Rightarrow> token_op \<Rightarrow> bool" where
  "pairs_device env p d (OpPair clk jti secret family pid deviceId platform identity) = (pid = p \<and> hashDeviceId env deviceId = d)"
| "pairs_device env p d (OpBrowserPair clk binding jti secret family pid platform path identity) = (pid = p \<and> tk_hash env binding = d)"
| "pairs_device env p d _ = False"

lemma device_out_run:
  assumes "fresh_run env name ops s" "active_unique (ts_db s)" "device_out p d (ts_db s)"
    "list_all (\<lambda>op. healthy env op \<and> \<not> pairs_device env p d op) ops"
  shows "device_out p d (ts_db (token_run env name ops s))"
proof -
  have "device_out p d db'" if "healthy env op \<and> \<not> pairs_device env p d op" "effect_of env op e"
    "healthy env op \<longrightarrow> (\<forall>p d. e \<noteq> Derive False p d)" "token_effect e db db'" "device_out p d db" for op e db db'
  proof (rule device_out_effect [OF that(4,5)])
    show "e \<noteq> Derive False p' d'" for p' d' using that(1,3) by simp
    show "e \<noteq> NewPair p d f" for f using that(1,2) by (cases op) auto
  qed
  then show ?thesis
    using run_keeps [OF assms(1,2), of "device_out p d" "\<lambda>op. healthy env op \<and> \<not> pairs_device env p d op"] assms(3,4) by blast
qed

lemma token_parts:
  assumes "token_laws env"
  shows "split_char (CHR ''.'') (mintToken env m jti mp) =
      [JWT_HEADER env, tk_encode env (tk_json env (minted_claims m jti mp)),
       tk_encode env (tk_mac env (JWT_HEADER env @ ''.'' @ tk_encode env (tk_json env (minted_claims m jti mp))))]"
  using encode_no_dot [OF assms] by (simp add: mintToken_def sign_def JWT_HEADER_def split_char_sep split_char_absent)

lemma dropWhile_stop: "\<not> P x \<Longrightarrow> dropWhile P (xs @ x # ys) = dropWhile P xs @ x # ys"
  by (induction xs) auto

lemma trim_token:
  assumes "\<forall>c \<in> set h. \<not> js_space c"
  shows "js_trim (h @ ''.'' @ p @ ''.'' @ s) = h @ ''.'' @ p @ ''.'' @ trim_end s"
proof -
  have dot: "\<not> js_space (CHR ''.'')" by code_simp
  have "dropWhile js_space (h @ ''.'' @ p @ ''.'' @ s) = h @ ''.'' @ p @ ''.'' @ s"
    using assms dot by (cases h) auto
  moreover have "rev (h @ ''.'' @ p @ ''.'' @ s) = rev s @ CHR ''.'' # rev (h @ ''.'' @ p)" by simp
  ultimately show ?thesis
    unfolding js_trim_def trim_end_def using dropWhile_stop [where P = js_space and x = "CHR ''.''", OF dot, of "rev s" "rev (h @ ''.'' @ p)"] by simp
qed

lemma respelled_token:
  assumes laws: "token_laws env"
    and parts: "take 2 (split_char (CHR ''.'') raw) = take 2 (split_char (CHR ''.'') (mintToken env m jti mp))"
    and verified: "verifyToken env now allow raw aud = Inr c"
  shows "canonicalizeTokenForHash env raw = mintToken env m jti mp \<and> tc_sub c = mp_sub mp"
proof -
  let ?h = "JWT_HEADER env" and ?p = "tk_encode env (tk_json env (minted_claims m jti mp))"
  obtain h p s where v: "split_char (CHR ''.'') raw = [h, p, s]" "tk_decode env s = tk_mac env (h @ ''.'' @ p)"
      "tk_parse env (tk_decode env p) = Some c"
    using verified by (rule verify_success)
  from parts have hp: "h = ?h" "p = ?p" by (simp_all add: v(1) token_parts [OF laws])
  note dec_enc = buffer_codec.dec_enc [OF token_lawsD(1) [OF laws]]
  have raw: "raw = ?h @ ''.'' @ ?p @ ''.'' @ s"
    using join_split_char [of "CHR ''.''" raw] v(1) hp by simp
  have plain: "c \<in> set ?h \<union> set ?p \<Longrightarrow> c \<noteq> CHR ''.'' \<and> \<not> js_space c" for c
    using buffer_codec.enc_plain [OF token_lawsD(1) [OF laws]] by (auto simp: JWT_HEADER_def)
  have trimmed: "js_trim raw = ?h @ ''.'' @ ?p @ ''.'' @ trim_end s"
    unfolding raw using plain by (intro trim_token) blast
  have dec: "tk_decode env (trim_end s) = tk_mac env (?h @ ''.'' @ ?p)"
    using v(2) hp buffer_codec.dec_trim [OF token_lawsD(1) [OF laws]] by simp
  have "CHR ''.'' \<notin> set s" using split_char_parts [of s "CHR ''.''" raw] v(1) by simp
  then have "CHR ''.'' \<notin> set (trim_end s)" by (auto simp: trim_end_def dest: set_dropWhileD)
  then have "split_char (CHR ''.'') (js_trim raw) = [?h, ?p, trim_end s]"
    using encode_no_dot [OF laws] by (simp add: trimmed JWT_HEADER_def split_char_sep split_char_absent)
  then have "canonicalizeTokenForHash env raw = mintToken env m jti mp"
    by (simp add: canonicalizeTokenForHash_def Let_def dec dec_enc mintToken_def sign_def)
       (simp add: JWT_HEADER_def dec_enc)
  moreover have "c = minted_claims m jti mp"
    using v(3) token_lawsD(2) [OF laws] by (simp add: hp dec_enc)
  ultimately show ?thesis by (simp add: minted_claims_def)
qed

lemma split_char_length: "length (split_char d s) = Suc (length (filter ((=) d) s))"
proof (induction s)
  case (Cons c s)
  then show ?case by (cases "split_char d s") auto
qed simp

lemma parse_three: "parseSub sub = Inr p \<Longrightarrow> length (split_char (CHR '':'') sub) = 3"
  by (auto simp: parseSub_def split: if_splits list.splits)

lemma pair_row:
  assumes "js_trim deviceId \<noteq> []" "findRefreshByHash (tk_hash env secret) db = None"
  obtains f where "findRefreshByHash (tk_hash env secret)
      (snd (mintAndRecordDeviceBoundTokenPair env name clk jti secret family pid deviceId platform identity db)) = Some f"
    "rf_of pid (hashDeviceId env deviceId) f" "rf_status f = RfActive" "rf_absoluteExpiresAt f = clk 4 + REFRESH_ABSOLUTE_TTL_MS"
    "rf_inactivityExpiresAt f = clk 4 + REFRESH_INACTIVITY_TTL_MS"
proof -
  let ?d = "hashDeviceId env deviceId"
  let ?db = "revokeRefreshTokensByDevice (clk 1) pid ?d (revokeActorTokensByDevice (clk 0) pid ?d db)"
  obtain a f pair where f: "mint_pair
       (mintAccessToken env name (clk 2) (clk 3) jti pid ?d platform ACCESS_TOKEN_TTL_SECONDS identity)
       (mintRefreshToken env (clk 4) secret family pid ?d platform None identity) ?db = (Inr pair, add_rows [a] [f] ?db)"
    "rf_of pid ?d f" "rf_status f = RfActive" "rf_absoluteExpiresAt f = clk 4 + REFRESH_ABSOLUTE_TTL_MS"
    "rf_tokenHash f = tk_hash env secret" "rf_inactivityExpiresAt f = clk 4 + REFRESH_INACTIVITY_TTL_MS"
    using no_active_revoked by (rule mint_pair_ok)
  have "\<forall>r \<in> set (refreshTokenRecords db). rf_tokenHash r \<noteq> tk_hash env secret"
    using assms(2) by (auto simp: findRefreshByHash_def find_None_iff)
  then have "\<forall>r \<in> set (refreshTokenRecords ?db). rf_tokenHash r \<noteq> tk_hash env secret"
    using weaker_refreshD [OF weaker_trans [OF weaker_revoke_device weaker_revoke_refresh]] by (fastforce simp: rf_weaker_def rf_imm_def)
  then have "find (\<lambda>r. rf_tokenHash r = tk_hash env secret) (refreshTokenRecords ?db @ [f]) = Some f"
    using f(5) by (simp add: find_append_None)
  then show ?thesis
    using f assms(1) by (intro that [of f]) (simp_all add: mintAndRecordDeviceBoundTokenPair_def Let_def findRefreshByHash_def)
qed

lemma pair_family_until:
  assumes "\<forall>r \<in> set (refreshTokenRecords db). rf_family r \<noteq> family" "js_trim deviceId \<noteq> []"
  shows "family_until family (clk 4 + REFRESH_ABSOLUTE_TTL_MS)
      (snd (mintAndRecordDeviceBoundTokenPair env name clk jti secret family pid deviceId platform identity db))"
proof -
  let ?d = "hashDeviceId env deviceId"
  let ?db = "revokeRefreshTokensByDevice (clk 1) pid ?d (revokeActorTokensByDevice (clk 0) pid ?d db)"
  obtain a f pair where "mint_pair
       (mintAccessToken env name (clk 2) (clk 3) jti pid ?d platform ACCESS_TOKEN_TTL_SECONDS identity)
       (mintRefreshToken env (clk 4) secret family pid ?d platform None identity) ?db = (Inr pair, add_rows [a] [f] ?db)"
    "rf_family f = family" "rf_absoluteExpiresAt f = clk 4 + REFRESH_ABSOLUTE_TTL_MS"
    using no_active_revoked by (rule mint_pair_ok)
  moreover have "rf_family r \<noteq> family" if "r \<in> set (refreshTokenRecords ?db)" for r
    using weaker_refreshD [OF weaker_trans [OF weaker_revoke_device weaker_revoke_refresh] that] assms(1)
    by (auto simp: rf_weaker_def rf_imm_def)
  ultimately show ?thesis
    using assms(2) by (auto simp: mintAndRecordDeviceBoundTokenPair_def Let_def family_until_def)
qed

section \<open>A pairing, for the witnesses\<close>

definition w_pair :: token_op where
  "w_pair = OpPair (\<lambda>_. 1000) ''j1'' ''s1'' ''f1'' ''p1'' ''dev'' ''ios'' None"

definition w_rotate :: token_op where
  "w_rotate = OpRotate (\<lambda>_. 2000) ''j2'' ''s2'' False ''s1'' ''dev''"

definition w_token :: "int \<Rightarrow> string \<Rightarrow> string" where
  "w_token t jti = mintToken sample_env t jti (access_params None ''p1'' ACCESS_TOKEN_TTL_SECONDS)"

definition w_actor :: "int \<Rightarrow> string \<Rightarrow> actor_row" where
  "w_actor t jti =
     \<lparr>ar_tokenHash = w_token t jti, ar_principal = ''p1'', ar_device = ''dev'', ar_platform = ''ios'', ar_userAgent = None,
      ar_clientName = None, ar_status = ArActive, ar_issuedAt = t, ar_expiresAt = Some (t + 2592000000), ar_lastUsedAt = None,
      ar_createdAt = t, ar_updatedAt = t\<rparr>"

definition w_refresh :: "int \<Rightarrow> string \<Rightarrow> refresh_row" where
  "w_refresh t secret =
     \<lparr>rf_tokenHash = secret, rf_family = ''f1'', rf_principal = ''p1'', rf_device = ''dev'', rf_platform = ''ios'',
      rf_userAgent = None, rf_clientName = None, rf_status = RfActive, rf_issuedAt = t, rf_absoluteExpiresAt = 31536001000,
      rf_inactivityExpiresAt = t + 7776000000, rf_lastUsedAt = None, rf_cookiePath = None, rf_createdAt = t, rf_updatedAt = t\<rparr>"

definition w_paired :: token_state where
  "w_paired = token_apply sample_env None w_pair token_state0"

lemma sample_hash [simp]: "tk_hash sample_env s = s"
  by (simp add: sample_env_def)

lemma dev_trim: "js_trim ''dev'' = ''dev''" "hashDeviceId sample_env ''dev'' = ''dev''"
  by (simp_all add: hashDeviceId_def js_trim_def js_space_def)

lemmas mint_defs = mintAndRecordDeviceBoundTokenPair_def mint_pair_def mintAccessToken_def mintRefreshToken_def record_access_def
  record_refresh_def insert_actor_def insert_refresh_def

lemmas ttl_defs = ACCESS_TOKEN_TTL_SECONDS_def ACCESS_TOKEN_TTL_MS_def REFRESH_ABSOLUTE_TTL_MS_def REFRESH_INACTIVITY_TTL_MS_def

lemma w_paired_db:
  "ts_db w_paired = \<lparr>actorTokenRecords = [w_actor 1000 ''j1''], refreshTokenRecords = [w_refresh 1000 ''s1'']\<rparr>"
  unfolding w_paired_def w_pair_def token_apply.simps on_db_def
  by (simp add: token_state0_def mint_defs dev_trim weaken_defs update_where_def w_actor_def w_refresh_def w_token_def
      capIdentity_def Let_def ttl_defs)

lemma w_pair_fresh: "fresh_op sample_env w_pair (ts_db token_state0)"
  by (simp add: w_pair_def token_state0_def)

lemma w_paired_unique: "active_unique (ts_db w_paired)"
  by (simp add: w_paired_db active_unique_def)

lemma w_rotation:
  "rotateCredentials sample_env None (\<lambda>_. 2000) ''j2'' ''s2'' False ''s1'' ''dev'' (ts_db w_paired) =
     (Some (Inr \<lparr>rr_guardianPrincipalId = ''p1'', rr_access = \<lparr>tg_token = w_token 2000 ''j2'', tg_expiresAt = 2592002000\<rparr>,
                 rr_refresh = \<lparr>rg_refreshToken = ''s2'', rg_refreshTokenExpiresAt = 7776002000, rg_refreshAfter = 2073602000\<rparr>,
                 rr_browserRefreshCookiePath = None\<rparr>),
      \<lparr>actorTokenRecords = [(w_actor 1000 ''j1'')\<lparr>ar_status := ArRevoked, ar_updatedAt := 2000\<rparr>, w_actor 2000 ''j2''],
       refreshTokenRecords = [(w_refresh 1000 ''s1'')\<lparr>rf_status := RfRotated, rf_lastUsedAt := Some 2000, rf_updatedAt := 2000\<rparr>,
         w_refresh 2000 ''s2'']\<rparr>)"
  unfolding w_paired_db
  by (simp add: rotateCredentials_def findRefreshByHash_def rotateRefreshTokenRecord_def w_refresh_def w_actor_def
      mintRefreshTokenInFamily_def mint_defs weaken_defs update_where_def ar_of_def rf_of_def Let_def ttl_defs refresh_after_def
      w_token_def)

definition w_rotated :: token_state where
  "w_rotated = token_apply sample_env None w_rotate w_paired"

lemma w_rotated_db:
  "ts_db w_rotated =
     \<lparr>actorTokenRecords = [(w_actor 1000 ''j1'')\<lparr>ar_status := ArRevoked, ar_updatedAt := 2000\<rparr>, w_actor 2000 ''j2''],
      refreshTokenRecords = [(w_refresh 1000 ''s1'')\<lparr>rf_status := RfRotated, rf_lastUsedAt := Some 2000, rf_updatedAt := 2000\<rparr>,
        w_refresh 2000 ''s2'']\<rparr>"
  unfolding w_rotated_def w_rotate_def token_apply.simps on_db_def w_rotation by simp

lemma w_rotated_unique: "active_unique (ts_db w_rotated)"
  by (simp add: w_rotated_db active_unique_def w_actor_def w_refresh_def)

lemma w_rotated_s1:
  "findRefreshByHash (tk_hash sample_env ''s1'') (ts_db w_rotated) =
     Some ((w_refresh 1000 ''s1'')\<lparr>rf_status := RfRotated, rf_lastUsedAt := Some 2000, rf_updatedAt := 2000\<rparr>)"
  "rotateCredentials sample_env None (\<lambda>_. 3000) ''j3'' ''s3'' False ''s1'' ''dev'' (ts_db w_rotated) =
     (Some (Inl RefreshReuseDetected),
      revokeAllActorTokensByDevice 3000 ''p1'' ''dev'' (revokeFamily 3000 ''f1'' (ts_db w_rotated)))"
  by (simp_all add: w_rotated_db findRefreshByHash_def rotateCredentials_def rotateRefreshTokenRecord_def w_refresh_def)

lemma w_revoked:
  "revoke_device (\<lambda>_. 3000) ''p1'' (Some ''dev'') (ts_db w_paired) =
     (True, snd (revoke_device (\<lambda>_. 3000) ''p1'' (Some ''dev'') (ts_db w_paired)))"
  by (simp add: revoke_device_def dev_trim Let_def)

lemma spaced_token:
  assumes laws: "token_laws env"
  shows "verifyToken env now allow (mintToken env m jti mp @ '' '') aud = verifyToken env now allow (mintToken env m jti mp) aud"
    and "take 2 (split_char (CHR ''.'') (mintToken env m jti mp @ '' '')) = take 2 (split_char (CHR ''.'') (mintToken env m jti mp))"
proof -
  note dec = buffer_codec.dec_trim [OF token_lawsD(1) [OF laws]]
  have "trim_end (b @ '' '') = trim_end b" for b by (simp add: trim_end_def js_space_def)
  then have same: "tk_decode env (b @ '' '') = tk_decode env b" for b using dec [of "b @ '' ''"] dec [of b] by simp
  have "split_char (CHR ''.'') (mintToken env m jti mp @ '' '') =
      [JWT_HEADER env, tk_encode env (tk_json env (minted_claims m jti mp)),
       tk_encode env (tk_mac env (JWT_HEADER env @ ''.'' @ tk_encode env (tk_json env (minted_claims m jti mp)))) @ '' '']"
    using encode_no_dot [OF laws] by (simp add: mintToken_def sign_def JWT_HEADER_def split_char_sep split_char_absent)
  then show "verifyToken env now allow (mintToken env m jti mp @ '' '') aud = verifyToken env now allow (mintToken env m jti mp) aud"
    "take 2 (split_char (CHR ''.'') (mintToken env m jti mp @ '' '')) = take 2 (split_char (CHR ''.'') (mintToken env m jti mp))"
    by (simp_all add: verifyToken_def token_parts [OF laws] same)
qed

section \<open>Properties\<close>

text \<open>The tokens of a device that are active: exactly these two.\<close>

definition only_active :: "string \<Rightarrow> string \<Rightarrow> string \<Rightarrow> string \<Rightarrow> token_db \<Rightarrow> bool" where
  "only_active pid device accessHash refreshHash db \<longleftrightarrow>
     map ar_tokenHash (filter (\<lambda>r. ar_of pid device r \<and> ar_status r = ArActive) (actorTokenRecords db)) = [accessHash] \<and>
     map rf_tokenHash (filter (\<lambda>r. rf_of pid device r \<and> rf_status r = RfActive) (refreshTokenRecords db)) = [refreshHash]"

lemma only_active_added:
  assumes "no_active pid device db" "ar_of pid device a" "ar_status a = ArActive" "rf_of pid device f" "rf_status f = RfActive"
  shows "only_active pid device (ar_tokenHash a) (rf_tokenHash f) (add_rows [a] [f] db)"
proof -
  have "filter (\<lambda>r. ar_of pid device r \<and> ar_status r = ArActive) (actorTokenRecords db) = []"
    "filter (\<lambda>r. rf_of pid device r \<and> rf_status r = RfActive) (refreshTokenRecords db) = []"
    using assms(1) by (auto simp: no_active_def filter_empty_conv)
  with assms(2-) show ?thesis by (simp add: only_active_def)
qed

lemma pair_replaces:
  assumes "js_trim deviceId \<noteq> []"
  shows "\<exists>pair db'. mintAndRecordDeviceBoundTokenPair env name clk jti secret family pid deviceId platform identity db = (Inr pair, db') \<and>
    only_active pid (hashDeviceId env deviceId) (tk_hash env (tg_token (tp_access pair))) (tk_hash env (rg_refreshToken (tp_refresh pair))) db'"
proof -
  let ?d = "hashDeviceId env deviceId"
  let ?db = "revokeRefreshTokensByDevice (clk 1) pid ?d (revokeActorTokensByDevice (clk 0) pid ?d db)"
  have none: "no_active pid ?d ?db" by (rule no_active_revoked)
  obtain a f pair where m: "mint_pair
       (mintAccessToken env name (clk 2) (clk 3) jti pid ?d platform ACCESS_TOKEN_TTL_SECONDS identity)
       (mintRefreshToken env (clk 4) secret family pid ?d platform None identity) ?db = (Inr pair, add_rows [a] [f] ?db)"
    and rows: "ar_of pid ?d a" "ar_status a = ArActive" "rf_of pid ?d f" "rf_status f = RfActive"
    and hashes: "rf_tokenHash f = tk_hash env secret" "ar_tokenHash a = tk_hash env (tg_token (tp_access pair))"
      "rg_refreshToken (tp_refresh pair) = secret"
    by (rule mint_pair_ok [OF none]) (rule that)
  with only_active_added [OF none rows] assms show ?thesis
    by (simp add: mintAndRecordDeviceBoundTokenPair_def Let_def)
qed

lemma browser_pair_new:
  assumes "fresh_op env (OpBrowserPair clk binding jti secret family pid platform path identity) db"
  shows "\<exists>pair db'. mintAndRecordBrowserTokenPair env name clk binding jti secret family pid platform path identity db = (Inr pair, db') \<and>
    only_active pid (tk_hash env binding) (tk_hash env (tg_token (tp_access pair))) (tk_hash env (rg_refreshToken (tp_refresh pair))) db'"
proof -
  let ?d = "tk_hash env binding"
  have none: "no_active pid ?d db" using assms by (auto simp: no_active_def ar_of_def rf_of_def list_all_iff)
  obtain a f pair where m: "mint_pair
       (mintAccessToken env name (clk 0) (clk 1) jti pid ?d platform ACCESS_TOKEN_TTL_SECONDS identity)
       (mintRefreshToken env (clk 2) secret family pid ?d platform (Some path) identity) db = (Inr pair, add_rows [a] [f] db)"
    and rows: "ar_of pid ?d a" "ar_status a = ArActive" "rf_of pid ?d f" "rf_status f = RfActive"
    and hashes: "rf_tokenHash f = tk_hash env secret" "ar_tokenHash a = tk_hash env (tg_token (tp_access pair))"
      "rg_refreshToken (tp_refresh pair) = secret"
    by (rule mint_pair_ok [OF none]) (rule that)
  with only_active_added [OF none rows] show ?thesis by (simp add: mintAndRecordBrowserTokenPair_def Let_def)
qed

lemma rotation_replaces:
  assumes "active_unique db" "findRefreshByHash h db = Some r"
  shows "fst (rotateRefreshTokenRecord env name clk jti secret missing h r db) \<noteq> None \<and>
    (\<forall>rr. fst (rotateRefreshTokenRecord env name clk jti secret missing h r db) = Some (Inr rr) \<longrightarrow>
       only_active (rf_principal r) (rf_device r) (tk_hash env (tg_token (rr_access rr))) (tk_hash env (rg_refreshToken (rr_refresh rr)))
         (snd (rotateRefreshTokenRecord env name clk jti secret missing h r db)))"
  using assms(1) assms(2) [unfolded findRefreshByHash_def]
proof (cases rule: rotate_outcome [where env = env and name = name and clk = clk and jti = jti and secret = secret and missing = missing])
  case (rotated rr a f db1)
  with only_active_added [OF rotated(8-12)] show ?thesis by simp
qed simp

text \<open>C17: A new credential replaces the old one. In every state that a sequence of pairings, rotations, derivations,
  admissions and revocations reaches, the writes revoke what they replace before they insert, so that the unique indexes
  never refuse: a pairing with a device id always succeeds, a browser's with its new binding too, and a rotation never ends
  in an exception. After each that succeeds, the access token and the refresh token just issued are the only active ones of
  their device. So no device of any principal ever has two active tokens of a kind.\<close>

theorem one_active_token_per_device:
  assumes "fresh_run env name ops token_state0"
  defines "db \<equiv> ts_db (token_run env name ops token_state0)"
  shows "active_unique db \<and>
    (js_trim deviceId \<noteq> [] \<longrightarrow>
       (\<exists>pair db'. mintAndRecordDeviceBoundTokenPair env name clk jti secret family pid deviceId platform identity db = (Inr pair, db') \<and>
          only_active pid (hashDeviceId env deviceId) (tk_hash env (tg_token (tp_access pair)))
            (tk_hash env (rg_refreshToken (tp_refresh pair))) db')) \<and>
    (fresh_op env (OpBrowserPair clk binding jti secret family pid platform path identity) db \<longrightarrow>
       (\<exists>pair db'. mintAndRecordBrowserTokenPair env name clk binding jti secret family pid platform path identity db = (Inr pair, db') \<and>
          only_active pid (tk_hash env binding) (tk_hash env (tg_token (tp_access pair)))
            (tk_hash env (rg_refreshToken (tp_refresh pair))) db')) \<and>
    (\<forall>out \<in> {rotateCredentials env name clk jti secret missing token device db,
             rotateBrowserCredentialsByRefreshToken env name clk jti secret missing token db}.
       fst out \<noteq> None \<and>
       (\<forall>rr. fst out = Some (Inr rr) \<longrightarrow>
          (\<exists>r. findRefreshByHash (tk_hash env token) db = Some r \<and>
             only_active (rf_principal r) (rf_device r) (tk_hash env (tg_token (rr_access rr)))
               (tk_hash env (rg_refreshToken (rr_refresh rr))) (snd out))))"
proof (intro conjI impI)
  have "active_unique (ts_db token_state0)" by (simp add: active_unique_def token_state0_def)
  then show unique: "active_unique db"
    using run_keeps [OF assms(1), of "\<lambda>_. True" "\<lambda>_. True"] by (simp add: list_all_iff db_def)
  show "\<forall>out \<in> {rotateCredentials env name clk jti secret missing token device db,
             rotateBrowserCredentialsByRefreshToken env name clk jti secret missing token db}.
       fst out \<noteq> None \<and>
       (\<forall>rr. fst out = Some (Inr rr) \<longrightarrow>
          (\<exists>r. findRefreshByHash (tk_hash env token) db = Some r \<and>
             only_active (rf_principal r) (rf_device r) (tk_hash env (tg_token (rr_access rr)))
               (tk_hash env (rg_refreshToken (rr_refresh rr))) (snd out)))"
    using rotation_replaces [OF unique, of "tk_hash env token" _ env name clk jti secret missing]
    by (auto simp: rotateCredentials_def rotateBrowserCredentialsByRefreshToken_def Let_def split: option.split)
qed (rule pair_replaces browser_pair_new, assumption)+

theorem one_active_token_per_device_witness:
  "fresh_run sample_env None [w_pair, w_rotate] token_state0 \<and>
   only_active ''p1'' ''dev'' (w_token 2000 ''j2'') ''s2'' (ts_db w_rotated)"
proof
  show "fresh_run sample_env None [w_pair, w_rotate] token_state0" by (simp add: w_pair_fresh, simp add: w_rotate_def)
  have fresh: "fresh_run sample_env None [w_pair] token_state0" by (simp add: w_pair_fresh)
  have db: "ts_db (token_run sample_env None [w_pair] token_state0) = ts_db w_paired" by (simp add: w_paired_def)
  have found: "findRefreshByHash ''s1'' (ts_db w_paired) = Some (w_refresh 1000 ''s1'')"
    "rf_principal (w_refresh 1000 ''s1'') = ''p1''" "rf_device (w_refresh 1000 ''s1'') = ''dev''"
    by (simp_all add: w_paired_db findRefreshByHash_def w_refresh_def)
  from one_active_token_per_device [OF fresh, THEN conjunct2, THEN conjunct2, THEN conjunct2, THEN bspec, unfolded db, OF insertI1,
      THEN conjunct2, rule_format, of "\<lambda>_. 2000" "''j2''" "''s2''" False "''s1''" "''dev''"]
  show "only_active ''p1'' ''dev'' (w_token 2000 ''j2'') ''s2'' (ts_db w_rotated)"
    unfolding w_rotated_def w_rotate_def token_apply.simps on_db_def by (simp add: w_rotation found)
qed

text \<open>C16: A refresh token is redeemed at most once: after a rotation that succeeded, over the route of the devices or that
  of the browsers, no later presentation of it succeeds over either, whatever happens in between.\<close>

theorem refresh_token_redeemed_once:
  assumes "active_unique (ts_db s)"
    and "(op = OpRotate clk jti secret missing token device \<and>
        fst (rotateCredentials env name clk jti secret missing token device (ts_db s)) = Some (Inr rr)) \<or>
      (op = OpBrowserRotate clk jti secret missing token \<and>
        fst (rotateBrowserCredentialsByRefreshToken env name clk jti secret missing token (ts_db s)) = Some (Inr rr))"
    and "fresh_run env name ops (token_apply env name op s)"
  shows "\<not> redeems env name clk' jti' secret' missing' token device' (ts_db (token_run env name ops (token_apply env name op s)))"
proof -
  let ?s = "token_apply env name op s"
  let ?rot = "\<lambda>r. rotateRefreshTokenRecord env name clk jti secret missing (tk_hash env token) r (ts_db s)"
  from assms(2) obtain r where r: "findRefreshByHash (tk_hash env token) (ts_db s) = Some r"
    and rot: "fst (?rot r) = Some (Inr rr)" and db: "ts_db ?s = snd (?rot r)"
    by (auto simp: rotateCredentials_def rotateBrowserCredentialsByRefreshToken_def on_db_def Let_def split: option.splits if_splits)
  have "spent (tk_hash env token) (ts_db ?s)" using rotate_record_spends [OF assms(1) r rot] by (simp add: db)
  moreover have "active_unique (ts_db ?s)"
    using effect_rotate_record [OF assms(1) r [unfolded findRefreshByHash_def]] active_unique_effect [OF _ assms(1)] unfolding db by blast
  ultimately have "spent (tk_hash env token) (ts_db (token_run env name ops ?s))"
    using run_keeps_all [OF assms(3), of "spent (tk_hash env token)"] spent_effect by blast
  then show ?thesis by (rule spent_not_redeemed)
qed

theorem refresh_token_redeemed_once_witness:
  "\<not> redeems sample_env None (\<lambda>_. 3000) ''j3'' ''s3'' False ''s1'' ''dev''
     (ts_db (token_run sample_env None [] (token_apply sample_env None (OpRotate (\<lambda>_. 2000) ''j2'' ''s2'' False ''s1'' ''dev'') w_paired)))"
proof (rule refresh_token_redeemed_once [OF w_paired_unique], rule disjI1, intro conjI)
  show "fst (rotateCredentials sample_env None (\<lambda>_. 2000) ''j2'' ''s2'' False ''s1'' ''dev'' (ts_db w_paired)) =
      Some (Inr (projr (the (fst (rotateCredentials sample_env None (\<lambda>_. 2000) ''j2'' ''s2'' False ''s1'' ''dev'' (ts_db w_paired))))))"
    by (simp add: w_rotation)
qed simp_all

text \<open>Reuse closes the family: once a replayed refresh token is detected, no refresh token of its family, the
  thief's or the owner's, present or future, is ever redeemed again.\<close>

theorem reuse_closes_family:
  assumes "active_unique (ts_db s)"
    and "findRefreshByHash (tk_hash env token) (ts_db s) = Some r"
    and "rotateCredentials env name clk jti secret missing token device (ts_db s) = (Some (Inl RefreshReuseDetected), db')"
    and "fresh_run env name ops (s\<lparr>ts_db := db'\<rparr>)"
    and "findRefreshByHash (tk_hash env token') (ts_db (token_run env name ops (s\<lparr>ts_db := db'\<rparr>))) = Some r'"
    and "rf_family r' = rf_family r"
  shows "\<not> redeems env name clk' jti' secret' missing' token' device' (ts_db (token_run env name ops (s\<lparr>ts_db := db'\<rparr>)))"
proof -
  have rot: "rotateRefreshTokenRecord env name clk jti secret missing (tk_hash env token) r (ts_db s) =
      (Some (Inl RefreshReuseDetected), db')"
    using assms(2,3) by (auto simp: rotateCredentials_def split: if_splits)
  have "family_out (rf_family r) db'" "active_unique db'"
    using family_out_revoked [OF family_row [OF assms(2)]] reuse_detected_rotated(2) [OF assms(1,2) rot]
      active_unique_weaker [OF assms(1) weaker_trans [OF weaker_family weaker_revoke_all]] by simp_all
  then have "family_out (rf_family r) (ts_db (token_run env name ops (s\<lparr>ts_db := db'\<rparr>)))"
    using run_keeps_all [OF assms(4), of "family_out (rf_family r)"] family_out_effect by simp
  with family_row [OF assms(5)] assms(5,6) show ?thesis by (auto simp: family_out_def elim: redeems_row)
qed

theorem reuse_closes_family_witness:
  "\<not> redeems sample_env None (\<lambda>_. 4000) ''j4'' ''s4'' False ''s2'' ''dev''
     (ts_db (token_run sample_env None []
       (w_rotated\<lparr>ts_db := snd (rotateCredentials sample_env None (\<lambda>_. 3000) ''j3'' ''s3'' False ''s1'' ''dev'' (ts_db w_rotated))\<rparr>)))"
proof (rule reuse_closes_family [OF w_rotated_unique w_rotated_s1(1)])
  show "rotateCredentials sample_env None (\<lambda>_. 3000) ''j3'' ''s3'' False ''s1'' ''dev'' (ts_db w_rotated) =
      (Some (Inl RefreshReuseDetected), snd (rotateCredentials sample_env None (\<lambda>_. 3000) ''j3'' ''s3'' False ''s1'' ''dev'' (ts_db w_rotated)))"
    by (simp add: w_rotated_s1)
  show "findRefreshByHash (tk_hash sample_env ''s2'') (ts_db (token_run sample_env None []
       (w_rotated\<lparr>ts_db := snd (rotateCredentials sample_env None (\<lambda>_. 3000) ''j3'' ''s3'' False ''s1'' ''dev'' (ts_db w_rotated))\<rparr>))) =
      Some ((w_refresh 2000 ''s2'')\<lparr>rf_status := RfRevoked, rf_updatedAt := 3000\<rparr>)"
    by (simp add: w_rotated_s1) (simp add: w_rotated_db weaken_defs update_where_def findRefreshByHash_def w_refresh_def)
qed (simp_all add: w_refresh_def)

text \<open>A revoked device cannot refresh its way back: until the device is paired again, no refresh token recorded
  for it is redeemed, whatever operations follow the revocation.\<close>

theorem revoked_device_never_refreshes:
  assumes "active_unique (ts_db s)"
    and "revoke_device clk pid (Some device) (ts_db s) = (True, db')"
    and "fresh_run env name ops (s\<lparr>ts_db := db'\<rparr>)"
    and "list_all (\<lambda>op. healthy env op \<and> \<not> pairs_device env pid (js_trim device) op) ops"
    and "findRefreshByHash (tk_hash env token) (ts_db (token_run env name ops (s\<lparr>ts_db := db'\<rparr>))) = Some r"
    and "rf_of pid (js_trim device) r"
  shows "\<not> redeems env name clk' jti' secret' missing' token device' (ts_db (token_run env name ops (s\<lparr>ts_db := db'\<rparr>)))"
proof -
  have "active_unique db'" using revoke_device_unique [OF assms(1), of clk pid "Some device"] assms(2) by simp
  then have "device_out pid (js_trim device) (ts_db (token_run env name ops (s\<lparr>ts_db := db'\<rparr>)))"
    using device_out_run [OF assms(3) _ _ assms(4)] revoke_device_out [OF assms(2)] by simp
  with family_row [OF assms(5)] assms(5,6) show ?thesis by (auto simp: device_out_def elim: redeems_row)
qed

theorem revoked_device_never_refreshes_witness:
  "\<not> redeems sample_env None (\<lambda>_. 4000) ''j4'' ''s4'' False ''s1'' ''dev''
     (ts_db (token_run sample_env None [] (w_paired\<lparr>ts_db := snd (revoke_device (\<lambda>_. 3000) ''p1'' (Some ''dev'') (ts_db w_paired))\<rparr>)))"
proof (rule revoked_device_never_refreshes [OF w_paired_unique w_revoked])
  show "findRefreshByHash (tk_hash sample_env ''s1'') (ts_db (token_run sample_env None []
      (w_paired\<lparr>ts_db := snd (revoke_device (\<lambda>_. 3000) ''p1'' (Some ''dev'') (ts_db w_paired))\<rparr>))) =
      Some ((w_refresh 1000 ''s1'')\<lparr>rf_status := RfRevoked, rf_updatedAt := 3000\<rparr>)"
    by (simp add: revoke_device_def dev_trim Let_def w_paired_db weaken_defs update_where_def findRefreshByHash_def w_refresh_def rf_of_def)
qed (simp_all add: w_refresh_def rf_of_def dev_trim)

text \<open>C15: A revoked device stays out, however it spells its token: until the device is paired again, a bearer that
  verifies and carries the signed input of an access token recorded for the device is refused at admission,
  also with its signature re-encoded (padding, the other alphabet, white space), and whatever was
  rotated, derived, admitted or paired elsewhere in between.\<close>

theorem revoked_device_stays_out:
  assumes "token_laws env"
    and "active_unique (ts_db s)"
    and "find_actor (tk_hash env (mintToken env m jti mp)) (ts_db s) = Some r"
    and "ar_of pid (js_trim device) r"
    and "revoke_device clk pid (Some device) (ts_db s) = (True, db')"
    and "fresh_run env name ops (s\<lparr>ts_db := db'\<rparr>)"
    and "list_all (\<lambda>op. healthy env op \<and> \<not> pairs_device env pid (js_trim device) op) ops"
    and "take 2 (split_char (CHR ''.'') raw) = take 2 (split_char (CHR ''.'') (mintToken env m jti mp))"
    and "verifyToken env now allow raw aud = Inr c"
    and "daemon_principal (mp_sub mp) = PrActor"
    and "fault \<noteq> SelectFault"
  shows "\<not> fst (admitActorToken env fault clk' raw c (token_run env name ops (s\<lparr>ts_db := db'\<rparr>)))"
proof -
  let ?T = "mintToken env m jti mp" and ?s = "token_run env name ops (s\<lparr>ts_db := db'\<rparr>)"
  have same: "canonicalizeTokenForHash env raw = ?T" "tc_sub c = mp_sub mp"
    using respelled_token [OF assms(1,8,9)] by auto
  have w: "weaker (ts_db s) db'" using revoke_weaker [of "ts_db s" clk pid "Some device"] assms(5) by simp
  then have "active_unique db'" by (rule active_unique_weaker [OF assms(2)])
  with device_out_run [OF assms(6) _ _ assms(7)] revoke_device_out [OF assms(5)]
  have out: "device_out pid (js_trim device) (ts_db ?s)" by simp
  obtain r1 where r1: "find_actor (tk_hash env ?T) db' = Some r1" "ar_weaker r r1"
    using weaker_find_actor [OF w assms(3), of "[]" "[]"] by (auto simp: add_rows_Nil)
  have "recorded_for pid (js_trim device) (tk_hash env ?T) (ts_db ?s)"
  proof (rule run_keeps_all [OF assms(6)])
    show "active_unique (ts_db (s\<lparr>ts_db := db'\<rparr>))" using \<open>active_unique db'\<close> by simp
    show "recorded_for pid (js_trim device) (tk_hash env ?T) (ts_db (s\<lparr>ts_db := db'\<rparr>))"
      using r1 assms(4) ar_weaker_of by (simp add: recorded_for_def)
  qed (rule recorded_for_effect)
  then obtain r2 where r2: "find_actor (tk_hash env ?T) (ts_db ?s) = Some r2" "ar_of pid (js_trim device) r2"
    unfolding recorded_for_def by blast
  then have "r2 \<in> set (actorTokenRecords (ts_db ?s))" using find_in by (fastforce simp: find_actor_def)
  with out r2(2) have "ar_status r2 = ArRevoked" by (simp add: device_out_def)
  moreover obtain p where "parseSub (tc_sub c) = Inr p" "sb_principalType p = PrActor"
    using assms(10) same(2) by (auto simp: daemon_principal_def split: sum.splits if_splits)
  ultimately show ?thesis
    using admit_rejects [of c p fault env clk' raw ?s] assms(11) same(1) r2(1) by (simp add: actorTokenRecordHash_def)
qed

theorem revoked_device_stays_out_witness:
  "\<not> fst (admitActorToken sample_env NoFault (\<lambda>_. 4000) (w_token 1000 ''j1'' @ '' '')
      (minted_claims 1000 ''j1'' (access_params None ''p1'' ACCESS_TOKEN_TTL_SECONDS))
      (token_run sample_env None [] (w_paired\<lparr>ts_db := snd (revoke_device (\<lambda>_. 3000) ''p1'' (Some ''dev'') (ts_db w_paired))\<rparr>)))"
proof (rule revoked_device_stays_out [OF sample_laws w_paired_unique _ _ w_revoked])
  show "find_actor (tk_hash sample_env (mintToken sample_env 1000 ''j1'' (access_params None ''p1'' ACCESS_TOKEN_TTL_SECONDS)))
      (ts_db w_paired) = Some (w_actor 1000 ''j1'')"
    by (simp add: w_paired_db find_actor_def w_actor_def w_token_def)
  show "verifyToken sample_env 4000 False (w_token 1000 ''j1'' @ '' '') ''vellum-gateway'' =
      Inr (minted_claims 1000 ''j1'' (access_params None ''p1'' ACCESS_TOKEN_TTL_SECONDS))"
    and "take 2 (split_char (CHR ''.'') (w_token 1000 ''j1'' @ '' '')) =
      take 2 (split_char (CHR ''.'') (mintToken sample_env 1000 ''j1'' (access_params None ''p1'' ACCESS_TOKEN_TTL_SECONDS)))"
    using spaced_token [OF sample_laws] by (simp_all add: w_token_def verify_mint [OF sample_laws])
      (simp add: access_params_def isStaleEpoch_def ACCESS_TOKEN_TTL_SECONDS_def)
qed (simp_all add: w_actor_def ar_of_def dev_trim access_params_def getExternalAssistantId_def daemon_principal_def parseSub_def)

text \<open>A pairing lasts a year at most: however often it is rotated, a refresh token of a pairing's family is only
  redeemed within 365 days of the pairing.\<close>

theorem pairing_lasts_a_year:
  assumes "active_unique (ts_db s)"
    and "fresh_op env (OpPair clk jti secret family pid deviceId platform identity) (ts_db s)"
    and "js_trim deviceId \<noteq> []"
    and "fresh_run env name ops (token_apply env name (OpPair clk jti secret family pid deviceId platform identity) s)"
    and "findRefreshByHash (tk_hash env token) (ts_db (token_run env name ops
           (token_apply env name (OpPair clk jti secret family pid deviceId platform identity) s))) = Some r"
    and "rf_family r = family"
    and "redeems env name clk' jti' secret' missing token device (ts_db (token_run env name ops
           (token_apply env name (OpPair clk jti secret family pid deviceId platform identity) s)))"
  shows "clk' 0 \<le> clk 4 + REFRESH_ABSOLUTE_TTL_MS"
proof -
  let ?op = "OpPair clk jti secret family pid deviceId platform identity"
  have fam: "family_until family (clk 4 + REFRESH_ABSOLUTE_TTL_MS) (ts_db (token_apply env name ?op s))"
    using pair_family_until [of "ts_db s" family deviceId clk env name jti secret pid platform identity] assms(2,3)
    by (simp add: on_db_def list_all_iff)
  have "active_unique (ts_db (token_apply env name ?op s))"
    using op_effect [OF assms(2,1)] active_unique_effect [OF _ assms(1)] by blast
  then have "family_until family (clk 4 + REFRESH_ABSOLUTE_TTL_MS) (ts_db (token_run env name ops (token_apply env name ?op s)))"
    using fam run_keeps_all [OF assms(4), of "family_until family (clk 4 + REFRESH_ABSOLUTE_TTL_MS)"] family_until_effect by blast
  with family_row [OF assms(5)] assms(6) have "rf_absoluteExpiresAt r = clk 4 + REFRESH_ABSOLUTE_TTL_MS"
    by (simp add: family_until_def)
  with assms(5) redeems_row [OF assms(7)] show ?thesis by auto
qed

theorem pairing_lasts_a_year_witness: "(2000 :: int) \<le> 1000 + REFRESH_ABSOLUTE_TTL_MS"
proof (rule pairing_lasts_a_year [of token_state0 sample_env "\<lambda>_. 1000" "''j1''" "''s1''" "''f1''" "''p1''" "''dev''" "''ios''" None None "[]"
      "''s1''" "w_refresh 1000 ''s1''" "\<lambda>_. 2000" "''j2''" "''s2''" False "''dev''"])
  note folds = w_pair_def [symmetric] w_paired_def [symmetric]
  show "findRefreshByHash (tk_hash sample_env ''s1'') (ts_db (token_run sample_env None [] (token_apply sample_env None
      (OpPair (\<lambda>_. 1000) ''j1'' ''s1'' ''f1'' ''p1'' ''dev'' ''ios'' None) token_state0))) = Some (w_refresh 1000 ''s1'')"
    unfolding folds token_run.simps by (simp add: w_paired_db findRefreshByHash_def w_refresh_def)
  show "redeems sample_env None (\<lambda>_. 2000) ''j2'' ''s2'' False ''s1'' ''dev'' (ts_db (token_run sample_env None []
      (token_apply sample_env None (OpPair (\<lambda>_. 1000) ''j1'' ''s1'' ''f1'' ''p1'' ''dev'' ''ios'' None) token_state0)))"
    unfolding folds token_run.simps by (simp add: redeems_def w_rotation)
  show "fresh_op sample_env (OpPair (\<lambda>_. 1000) ''j1'' ''s1'' ''f1'' ''p1'' ''dev'' ''ios'' None) (ts_db token_state0)"
    unfolding folds by (rule w_pair_fresh)
qed (simp_all add: token_state0_def active_unique_def dev_trim w_refresh_def)

text \<open>C18: A paired device can refresh: the refresh token a pairing returns, presented from the same device within its
  ninety days, is redeemed for the same principal and the next refresh token, as long as the guardian's rows
  are there and the random secret is new.\<close>

theorem paired_device_refreshes:
  assumes "active_unique (ts_db s)"
    and "fresh_op env (OpPair clk jti secret family pid deviceId platform identity) (ts_db s)"
    and "js_trim deviceId \<noteq> []"
    and "findRefreshByHash (tk_hash env secret) (ts_db s) = None"
    and "clk' 0 \<le> clk 4 + REFRESH_INACTIVITY_TTL_MS"
  shows "map_option (map_sum id (\<lambda>rr. (rr_guardianPrincipalId rr, rg_refreshToken (rr_refresh rr))))
      (fst (rotateCredentials env name clk' jti' secret' False secret (hashDeviceId env deviceId)
        (ts_db (token_apply env name (OpPair clk jti secret family pid deviceId platform identity) s)))) =
    Some (Inr (pid, secret'))"
proof -
  let ?op = "OpPair clk jti secret family pid deviceId platform identity"
  let ?db = "ts_db (token_apply env name ?op s)" and ?h = "tk_hash env secret" and ?d = "hashDeviceId env deviceId"
  obtain f where f: "findRefreshByHash ?h ?db = Some f" "rf_of pid ?d f" "rf_status f = RfActive"
      "rf_absoluteExpiresAt f = clk 4 + REFRESH_ABSOLUTE_TTL_MS" "rf_inactivityExpiresAt f = clk 4 + REFRESH_INACTIVITY_TTL_MS"
    using pair_row [where env = env and clk = clk and name = name and jti = jti and family = family and pid = pid and platform = platform
      and identity = identity, OF assms(3,4)] by (auto simp: on_db_def)
  have unique: "active_unique ?db"
    using op_effect [OF assms(2,1)] active_unique_effect [OF _ assms(1)] by blast
  have ready: "rf_status f = RfActive \<and> clk' 0 \<le> rf_absoluteExpiresAt f \<and> clk' 0 \<le> rf_inactivityExpiresAt f \<and> \<not> False"
    using f(3-5) assms(5) by (simp add: ttl_defs)
  obtain rr a g db1 where
    "rotateRefreshTokenRecord env name clk' jti' secret' False ?h f ?db = (Some (Inr rr), add_rows [a] [g] db1)"
    "rr_guardianPrincipalId rr = rf_principal f" "rg_refreshToken (rr_refresh rr) = secret'"
    by (rule rotate_ok [where clk = clk' and missing = False, OF unique f(1) [unfolded findRefreshByHash_def] ready]) (rule that)
  with f(1,2) show ?thesis by (simp add: rotateCredentials_def rf_of_def)
qed

theorem paired_device_refreshes_witness:
  "map_option (map_sum id (\<lambda>rr. (rr_guardianPrincipalId rr, rg_refreshToken (rr_refresh rr))))
      (fst (rotateCredentials sample_env None (\<lambda>_. 2000) ''j2'' ''s2'' False ''s1'' (hashDeviceId sample_env ''dev'')
        (ts_db (token_apply sample_env None (OpPair (\<lambda>_. 1000) ''j1'' ''s1'' ''f1'' ''p1'' ''dev'' ''ios'' None) token_state0)))) =
    Some (Inr (''p1'', ''s2''))"
  by (rule paired_device_refreshes)
    (simp_all add: token_state0_def active_unique_def dev_trim findRefreshByHash_def REFRESH_INACTIVITY_TTL_MS_def)

text \<open>A colon in the assistant's name undoes revocation: the subject of every access token the gateway mints then
  has four parts and does not parse, so admission lets the token pass whatever its record says, and the daemon
  takes its bearer for the gateway service.\<close>

theorem colon_name_escapes_revocation:
  assumes "CHR '':'' \<in> set (getExternalAssistantId name)"
    and "tc_sub c = mp_sub (access_params name pid ttl)"
  shows "fst (admitActorToken env fault clk raw c s) \<and> toDaemonSubject (tc_sub c) = ''svc:gateway:self''"
proof -
  have "filter ((=) (CHR '':'')) (getExternalAssistantId name) \<noteq> []"
    using assms(1) by (auto simp: filter_empty_conv)
  then have "length (split_char (CHR '':'') (tc_sub c)) \<noteq> 3"
    by (cases "filter ((=) (CHR '':'')) (getExternalAssistantId name)") (auto simp: assms(2) access_params_def split_char_length)
  then obtain e where "parseSub (tc_sub c) = Inl e"
    using parse_three by (cases "parseSub (tc_sub c)") blast+
  then show ?thesis by (simp add: admitActorToken_def toDaemonSubject_def)
qed

theorem colon_name_escapes_revocation_witness:
  "fst (admitActorToken sample_env NoFault (\<lambda>_. 0) [] (minted_claims 0 [] (access_params (Some ''home:1'') ''p1'' 60)) w_paired) \<and>
   toDaemonSubject (tc_sub (minted_claims 0 [] (access_params (Some ''home:1'') ''p1'' 60))) = ''svc:gateway:self''"
  by (rule colon_name_escapes_revocation [where name = "Some ''home:1''" and pid = "''p1''" and ttl = 60])
    (simp_all add: getExternalAssistantId_def js_trim_def js_space_def minted_claims_def)

end
