(* ===== verification/Route_Match.thy ===== *)
theory Route_Match
  imports Auth_Tokens
begin

text \<open>
  The route table of the daemon on its two ways in: the daemon's own router
  (\<^verbatim>\<open>runtime/http-router.ts\<close>), the table it sends to the gateway
  (\<^verbatim>\<open>ipc/routes/route-adapter.ts\<close>) and the gateway's router over that table
  (\<^verbatim>\<open>ipc/route-schema-cache.ts\<close>).

  \<^item> An endpoint is compiled to a regular expression that is a sequence of segments between slashes: a literal,
    a parameter \<open>([^/]+)\<close>, a parameter of a type, or a catch-all \<open>(.+)\<close>. \<open>match_segs\<close> is the match of such an
    expression with its captures, on the parts of the path; a catch-all takes as many parts as it can.
  \<^item> \<open>decodeURIComponent\<close> is the parameter \<open>decode\<close>, \<open>None\<close> where it throws.
  \<^item> Fetching the table with its retries is not modelled.
\<close>

section \<open>Segments\<close>

datatype segment = Lit string | Param string | TypedParam string | CatchAll string

definition uuid_pattern :: "string \<Rightarrow> bool" where
  "uuid_pattern s =
     (let parts = split_char (CHR ''-'') s;
          hex = (\<lambda>c. let n = of_char c :: nat in 48 \<le> n \<and> n \<le> 57 \<or> 65 \<le> n \<and> n \<le> 70 \<or> 97 \<le> n \<and> n \<le> 102)
      in map length parts = [8, 4, 4, 4, 12] \<and> list_all (list_all hex) parts)"

text \<open>What \<open>.\<close> does not match, as far as it fits a \<open>char\<close>.\<close>

definition line_end :: "char \<Rightarrow> bool" where
  "line_end c = (of_char c \<in> {10, 13 :: nat})"

definition catch_all :: "string \<Rightarrow> bool" where
  "catch_all s = (s \<noteq> [] \<and> list_all (\<lambda>c. \<not> line_end c) s)"

fun single_match :: "segment \<Rightarrow> string \<Rightarrow> string list option" where
  "single_match (Lit w) p = (if p = w then Some [] else None)"
| "single_match (Param n) p = (if p \<noteq> [] then Some [p] else None)"
| "single_match (TypedParam n) p = (if uuid_pattern p then Some [p] else None)"
| "single_match (CatchAll n) p = None"

fun match_segs :: "segment list \<Rightarrow> string list \<Rightarrow> string list option" where
  "match_segs [] parts = (if parts = [] then Some [] else None)"
| "match_segs (CatchAll n # segs) parts =
     first_some
       (\<lambda>k. let s = join_strings ''/'' (take k parts)
            in if catch_all s then map_option (Cons s) (match_segs segs (drop k parts)) else None)
       (rev [1..<Suc (length parts)])"
| "match_segs (seg # segs) [] = None"
| "match_segs (seg # segs) (p # parts) =
     (case single_match seg p of
        None \<Rightarrow> None
      | Some caps \<Rightarrow> map_option ((@) caps) (match_segs segs parts))"

definition seg_names :: "segment list \<Rightarrow> string list" where
  "seg_names segs = List.map_filter (\<lambda>s. case s of Lit w \<Rightarrow> None | Param n \<Rightarrow> Some n | TypedParam n \<Rightarrow> Some n | CatchAll n \<Rightarrow> Some n) segs"

section \<open>Compiling an endpoint\<close>

record route_def =
  rt_operationId :: string
  rt_endpoint :: string
  rt_method :: string
  rt_policy :: "RoutePolicy option"
  rt_pathParams :: "(string \<times> string) list"
  rt_requireGuardian :: bool
  rt_isPublic :: bool

definition compile_segment :: "(string \<Rightarrow> bool) \<Rightarrow> string \<Rightarrow> segment" where
  "compile_segment typed s =
     (if starts_with '':'' s
      then (if ends_with ''*'' s then CatchAll (butlast (tl s))
            else if typed (tl s) then TypedParam (tl s) else Param (tl s))
      else Lit s)"

definition compileEndpoint :: "string \<Rightarrow> segment list" where
  "compileEndpoint endpoint = map (compile_segment (\<lambda>_. False)) (split_char (CHR ''/'') endpoint)"

text \<open>The last declaration of a name counts; the only type with a pattern is \<open>uuid\<close>.\<close>

definition compileRoute :: "route_def \<Rightarrow> segment list" where
  "compileRoute r =
     map (compile_segment (\<lambda>n. map_of (rev (rt_pathParams r)) n = Some ''uuid'')) (split_char (CHR ''/'') (rt_endpoint r))"

section \<open>The two routers\<close>

datatype route_match = NoRoute | MalformedPath | RouteMatched route_def "(string, string) jsmap"

fun decode_params :: "(string \<Rightarrow> string option) \<Rightarrow> string list \<Rightarrow> string list \<Rightarrow> (string, string) jsmap \<Rightarrow> (string, string) jsmap option" where
  "decode_params decode (n # names) (c # caps) acc =
     (case decode c of None \<Rightarrow> None | Some v \<Rightarrow> decode_params decode names caps (jm_set acc n v))"
| "decode_params decode _ _ acc = Some acc"

definition finish_match :: "(string \<Rightarrow> string option) \<Rightarrow> route_def \<Rightarrow> segment list \<Rightarrow> string list \<Rightarrow> route_match" where
  "finish_match decode r segs caps =
     (case decode_params decode (seg_names segs) caps [] of None \<Rightarrow> MalformedPath | Some ps \<Rightarrow> RouteMatched r ps)"

fun first_route ::
  "(route_def \<Rightarrow> segment list) \<Rightarrow> (string \<Rightarrow> bool) \<Rightarrow> (string \<Rightarrow> string option) \<Rightarrow> route_def list \<Rightarrow> string list \<Rightarrow> route_match" where
  "first_route compile method_ok decode [] parts = NoRoute"
| "first_route compile method_ok decode (r # rs) parts =
     (if \<not> method_ok (rt_method r) then first_route compile method_ok decode rs parts
      else
        case match_segs (compile r) parts of
          None \<Rightarrow> first_route compile method_ok decode rs parts
        | Some caps \<Rightarrow> finish_match decode r (compile r) caps)"

definition matchRoute :: "(string \<Rightarrow> string option) \<Rightarrow> route_def list \<Rightarrow> string \<Rightarrow> string \<Rightarrow> route_match" where
  "matchRoute decode routes method path =
     first_route (\<lambda>r. compileEndpoint (rt_endpoint r)) (\<lambda>m. map ascii_upper m = map ascii_upper method) decode routes
       (split_char (CHR ''/'') path)"

text \<open>The daemon strips one trailing slash first.\<close>

definition normalize_endpoint :: "string \<Rightarrow> string" where
  "normalize_endpoint endpoint = (if ends_with ''/'' endpoint then butlast endpoint else endpoint)"

definition dispatch_match :: "(string \<Rightarrow> string option) \<Rightarrow> route_def list \<Rightarrow> string \<Rightarrow> string \<Rightarrow> route_match" where
  "dispatch_match decode routes method endpoint =
     first_route compileRoute (\<lambda>m. m = method) decode routes (split_char (CHR ''/'') (normalize_endpoint endpoint))"

datatype dispatch_result = DispatchNotFound | DispatchBadRequest | DispatchDenied policy_denied | DispatchHandler route_def "(string, string) jsmap"

definition dispatch :: "(string \<Rightarrow> string option) \<Rightarrow> bool \<Rightarrow> route_def list \<Rightarrow> string \<Rightarrow> string \<Rightarrow> AuthContext \<Rightarrow> dispatch_result" where
  "dispatch decode authDisabled routes method endpoint ctx =
     (case dispatch_match decode routes method endpoint of
        NoRoute \<Rightarrow> DispatchNotFound
      | MalformedPath \<Rightarrow> DispatchBadRequest
      | RouteMatched r ps \<Rightarrow>
          (case enforcePolicy authDisabled (rt_policy r) ctx of
             Some d \<Rightarrow> DispatchDenied d
           | None \<Rightarrow> DispatchHandler r ps))"

section \<open>The table the gateway sees\<close>

definition isIpcEligible :: "route_def \<Rightarrow> bool" where
  "isIpcEligible r = (\<not> rt_requireGuardian r \<and> \<not> rt_isPublic r)"

text \<open>The schema entry carries the operation, the endpoint, the method and the policy.\<close>

definition toSchemaEntry :: "route_def \<Rightarrow> route_def" where
  "toSchemaEntry r = r\<lparr>rt_pathParams := [], rt_requireGuardian := False, rt_isPublic := False\<rparr>"

definition route_schema :: "route_def list \<Rightarrow> route_def list" where
  "route_schema routes = map toSchemaEntry (filter isIpcEligible routes)"

text \<open>\<open>rebuildPolicyIndex\<close>: the last entry of an operation counts.\<close>

definition getCachedRoutePolicy :: "route_def list \<Rightarrow> string \<Rightarrow> RoutePolicy option option" where
  "getCachedRoutePolicy entries operationId = map_of (rev (map (\<lambda>r. (rt_operationId r, rt_policy r)) entries)) operationId"

section \<open>Lemmas\<close>

text \<open>A pattern with its captures put in.\<close>

fun fill_segs :: "segment list \<Rightarrow> string list \<Rightarrow> string list" where
  "fill_segs [] caps = []"
| "fill_segs (Lit w # segs) caps = w # fill_segs segs caps"
| "fill_segs (seg # segs) [] = []"
| "fill_segs (seg # segs) (c # caps) = c # fill_segs segs caps"

lemma match_catch_all:
  assumes "match_segs (CatchAll n # segs) parts = Some caps"
  shows "\<exists>k caps'. 1 \<le> k \<and> k \<le> length parts \<and> match_segs segs (drop k parts) = Some caps' \<and>
      caps = join_strings ''/'' (take k parts) # caps'"
proof -
  obtain k where "k \<in> set (rev [1..<Suc (length parts)])"
    "(let s = join_strings ''/'' (take k parts)
      in if catch_all s then map_option (Cons s) (match_segs segs (drop k parts)) else None) = Some caps"
    using first_some_in [OF assms [unfolded match_segs.simps]] by blast
  then have "1 \<le> k" "k \<le> length parts" "map_option (Cons (join_strings ''/'' (take k parts))) (match_segs segs (drop k parts)) = Some caps"
    by (auto simp: Let_def split: if_splits)
  then show ?thesis by (intro exI [of _ k]) auto
qed

lemma match_one:
  assumes "match_segs (seg # segs) (p # parts) = Some caps" "\<And>n. seg \<noteq> CatchAll n"
  shows "\<exists>cs caps'. single_match seg p = Some cs \<and> match_segs segs parts = Some caps' \<and> caps = cs @ caps'"
  using assms by (cases seg) (auto split: if_splits)

lemma match_nonempty: "match_segs segs parts = Some caps \<Longrightarrow> segs \<noteq> [] \<Longrightarrow> parts \<noteq> []"
  by (cases "(segs, parts)" rule: match_segs.cases) (auto dest: match_catch_all simp del: match_segs.simps(2))

lemma fill_Nil:
  assumes "match_segs segs parts = Some caps" shows "fill_segs segs caps = [] \<longleftrightarrow> segs = []"
proof (cases segs)
  case (Cons seg segs')
  show ?thesis
  proof (cases seg)
    case (CatchAll n)
    with assms Cons match_catch_all [of n segs' parts caps] show ?thesis by auto
  qed (use assms Cons in \<open>cases parts; auto split: if_splits option.splits\<close>)+
qed simp

lemma join_fill:
  assumes "match_segs segs parts = Some caps" "join_strings ''/'' (fill_segs segs caps) = join_strings ''/'' parts"
    "pre \<noteq> []"
  shows "join_strings ''/'' (join_strings ''/'' pre # fill_segs segs caps) = join_strings ''/'' (pre @ parts)"
proof (cases "segs = []")
  case True
  with assms(1) have "parts = []" by (simp split: if_splits)
  with True show ?thesis by simp
next
  case False
  with assms(1) have "parts \<noteq> []" "fill_segs segs caps \<noteq> []" using match_nonempty fill_Nil by blast+
  with assms(2,3) show ?thesis by (simp add: join_Cons join_append)
qed

lemma match_fill: "match_segs segs parts = Some caps \<Longrightarrow> join_strings ''/'' (fill_segs segs caps) = join_strings ''/'' parts"
proof (induction segs arbitrary: parts caps)
  case Nil
  then show ?case by (simp split: if_splits)
next
  case (Cons seg segs)
  show ?case
  proof (cases "\<exists>n. seg = CatchAll n")
    case True
    with Cons.prems match_catch_all obtain k caps' where k: "1 \<le> k" "k \<le> length parts" "match_segs segs (drop k parts) = Some caps'"
        "caps = join_strings ''/'' (take k parts) # caps'" by blast
    moreover from k(1,2) have "take k parts \<noteq> []" by auto
    ultimately show ?thesis using join_fill [OF k(3) Cons.IH [OF k(3)], of "take k parts"] True by auto
  next
    case False
    obtain p rest where parts: "parts = p # rest" using match_nonempty [OF Cons.prems] by (cases parts) auto
    obtain cs caps' where m: "single_match seg p = Some cs" "match_segs segs rest = Some caps'" "caps = cs @ caps'"
      using match_one [of seg segs p rest caps] Cons.prems False parts by auto
    then have "fill_segs (seg # segs) caps = p # fill_segs segs caps'"
      using False by (cases seg) (auto split: if_splits)
    with join_fill [OF m(2) Cons.IH [OF m(2)], of "[p]"] parts show ?thesis by simp
  qed
qed

lemma first_route_found:
  "first_route compile ok decode routes parts = RouteMatched r ps \<Longrightarrow>
     r \<in> set routes \<and> ok (rt_method r) \<and>
     (\<exists>caps. match_segs (compile r) parts = Some caps \<and> decode_params decode (seg_names (compile r)) caps [] = Some ps)"
  by (induction routes) (auto simp: finish_match_def split: if_splits option.splits)

lemma policy_lookup:
  assumes "distinct (map rt_operationId entries)" "r \<in> set entries"
  shows "getCachedRoutePolicy entries (rt_operationId r) = Some (rt_policy r)"
proof -
  let ?xs = "map (\<lambda>r. (rt_operationId r, rt_policy r)) entries"
  have "map fst ?xs = map rt_operationId entries" by simp
  with assms(1) have "distinct (map fst (rev ?xs))" by (metis distinct_rev rev_map)
  moreover have "(rt_operationId r, rt_policy r) \<in> set (rev ?xs)" using assms(2) by auto
  ultimately show ?thesis unfolding getCachedRoutePolicy_def by (rule map_of_is_SomeI)
qed

section \<open>Properties\<close>

text \<open>A match is an instance of its endpoint: a path the gateway matches is the endpoint of a cached route of the
  request's method with its parameters filled in, and the parameters handed to the daemon are these, decoded.\<close>

theorem matched_path_fills_endpoint:
  assumes "matchRoute decode routes method path = RouteMatched r ps"
  shows "\<exists>caps. r \<in> set routes \<and> map ascii_upper (rt_method r) = map ascii_upper method \<and>
      path = join_strings ''/'' (fill_segs (compileEndpoint (rt_endpoint r)) caps) \<and>
      decode_params decode (seg_names (compileEndpoint (rt_endpoint r))) caps [] = Some ps"
proof -
  from first_route_found [OF assms [unfolded matchRoute_def]] obtain caps where
    caps: "r \<in> set routes" "map ascii_upper (rt_method r) = map ascii_upper method"
      "match_segs (compileEndpoint (rt_endpoint r)) (split_char (CHR ''/'') path) = Some caps"
      "decode_params decode (seg_names (compileEndpoint (rt_endpoint r))) caps [] = Some ps"
    by auto
  from match_fill [OF caps(3)] have "path = join_strings ''/'' (fill_segs (compileEndpoint (rt_endpoint r)) caps)"
    by (simp add: join_split_char)
  with caps show ?thesis by blast
qed

definition call_route :: route_def where
  "call_route =
     \<lparr>rt_operationId = ''calls_cancel'', rt_endpoint = ''calls/:id/files/:path*'', rt_method = ''POST'', rt_policy = None,
      rt_pathParams = [], rt_requireGuardian = False, rt_isPublic = False\<rparr>"

lemma call_route_match:
  "matchRoute Some [call_route] ''post'' ''calls/c1/files/a/b'' = RouteMatched call_route [(''id'', ''c1''), (''path'', ''a/b'')]"
  by code_simp

theorem matched_path_fills_endpoint_witness:
  "\<exists>caps. call_route \<in> set [call_route] \<and> map ascii_upper (rt_method call_route) = map ascii_upper ''post'' \<and>
      ''calls/c1/files/a/b'' = join_strings ''/'' (fill_segs (compileEndpoint (rt_endpoint call_route)) caps) \<and>
      decode_params Some (seg_names (compileEndpoint (rt_endpoint call_route))) caps [] = Some [(''id'', ''c1''), (''path'', ''a/b'')]"
  by (rule matched_path_fills_endpoint [OF call_route_match])

definition search_route :: route_def where
  "search_route =
     \<lparr>rt_operationId = ''conversations_search'', rt_endpoint = ''conversations/search'', rt_method = ''GET'', rt_policy = None,
      rt_pathParams = [], rt_requireGuardian = False, rt_isPublic = False\<rparr>"

definition conversation_route :: route_def where
  "conversation_route =
     \<lparr>rt_operationId = ''getConversation'', rt_endpoint = ''conversations/:id'', rt_method = ''GET'', rt_policy = None,
      rt_pathParams = [(''id'', ''uuid'')], rt_requireGuardian = False, rt_isPublic = False\<rparr>"

text \<open>A typed parameter shadows a literal route over IPC: the daemon's router serves \<open>conversations/search\<close> by the
  search route, since \<open>search\<close> is no \<open>uuid\<close>, but the table the gateway gets has lost the type, so over IPC the
  same request goes to the route of a single conversation.\<close>

theorem ipc_shadows_literal_route:
  "dispatch_match Some [conversation_route, search_route] ''GET'' ''conversations/search'' = RouteMatched search_route [] \<and>
   matchRoute Some (route_schema [conversation_route, search_route]) ''GET'' ''conversations/search'' =
     RouteMatched (toSchemaEntry conversation_route) [(''id'', ''search'')]"
  by code_simp

end
