(* ===== verification/Edge_Auth.thy ===== *)
theory Edge_Auth
  imports Device_Tokens Rate_Limiters Route_Match
begin

text \<open>
  The guards at the gateway's edge (\<^verbatim>\<open>http/middleware/auth.ts\<close>, with the loopback test of
  \<^verbatim>\<open>util/is-loopback-address.ts\<close> and the counts of \<^verbatim>\<open>auth-fallback-count-tracker.ts\<close>) and
  the authentication of the two proxies to the daemon (\<^verbatim>\<open>http/routes/runtime-proxy.ts\<close>,
  \<^verbatim>\<open>http/routes/ipc-runtime-proxy.ts\<close>).

  \<^item> A request is what the guards read of it. The answer \<open>None\<close> lets it through. The state is the failure
    limiter, the token tables with the debounce cache, and the fallback counts.
  \<^item> \<open>clk 0\<close> is the clock of the verification, \<open>clk (i + 1)\<close> the \<open>i\<close>-th reading of the admission and \<open>clk 9\<close>
    the one of \<open>recordFailure\<close>.
  \<^item> The stored platform user and the bound guardian are looked up outside this code and are arguments.
    The throttled log lines are not modelled.
\<close>

section \<open>Requests and their peer\<close>

record edge_request =
  rq_authorization :: "string option"
  rq_userId :: "string option"
  rq_edgeForwarded :: bool
  rq_forwardedFor :: "string option"
  rq_peer :: "string option"
  rq_path :: string
  rq_clientIp :: string

text \<open>\<open>Number\<close> on the parts of an address is the parameter \<open>number\<close>, \<open>None\<close> for \<open>NaN\<close>.\<close>

definition dotted_quad :: "string \<Rightarrow> bool" where
  "dotted_quad s =
     (let parts = split_char (CHR ''.'') s
      in length parts = 4 \<and> list_all (\<lambda>p. p \<noteq> [] \<and> length p \<le> 3 \<and> list_all ascii_digit p) parts)"

definition isLoopbackAddress :: "(string \<Rightarrow> ('n :: linordered_idom) option) \<Rightarrow> string \<Rightarrow> bool" where
  "isLoopbackAddress number addr =
     (let normalized = (if map ascii_lower (take 7 addr) = ''::ffff:'' \<and> dotted_quad (drop 7 addr) then drop 7 addr else addr)
      in if CHR ''.'' \<in> set normalized
         then (let parts = map number (split_char (CHR ''.'') normalized)
               in length parts = 4 \<and> list_all (\<lambda>p. case p of None \<Rightarrow> False | Some n \<Rightarrow> 0 \<le> n \<and> n \<le> 255) parts \<and>
                  hd parts = Some 127)
         else map ascii_lower normalized = ''::1'')"

definition isLoopbackPeer :: "(string \<Rightarrow> bool) \<Rightarrow> bool \<Rightarrow> edge_request \<Rightarrow> bool" where
  "isLoopbackPeer loopback trustProxy req =
     (let peerIsLoopback = (case rq_peer req of None \<Rightarrow> False | Some a \<Rightarrow> loopback a)
      in if trustProxy
         then (if \<not> peerIsLoopback then False
               else
                 case rq_forwardedFor req of
                   None \<Rightarrow> True
                 | Some f \<Rightarrow>
                     if f = [] then True
                     else (let first = js_trim (hd (split_char (CHR '','') f)) in if first = [] then False else loopback first))
         else peerIsLoopback)"

section \<open>Fallback counts\<close>

definition FALLBACK_MAX_KEYS :: nat where "FALLBACK_MAX_KEYS = 10000"

record fallback_count =
  fb_guard :: string
  fb_path :: string
  fb_failureKind :: string
  fb_count :: nat

record fallback_tracker =
  ft_counts :: "(string, fallback_count) jsmap"
  ft_windowStartedAt :: int
  ft_warnedAtCap :: bool

record fallback_batch =
  bt_windowStart :: int
  bt_windowEnd :: int
  bt_counts :: "fallback_count list"

definition ft_new :: "int \<Rightarrow> fallback_tracker" where
  "ft_new now = \<lparr>ft_counts = [], ft_windowStartedAt = now, ft_warnedAtCap = False\<rparr>"

definition fallback_key :: "string \<Rightarrow> string \<Rightarrow> string \<Rightarrow> string" where
  "fallback_key grd path kind = grd @ '' '' @ path @ '' '' @ kind"

definition ft_add :: "string \<Rightarrow> string \<Rightarrow> string \<Rightarrow> nat \<Rightarrow> fallback_tracker \<Rightarrow> fallback_tracker" where
  "ft_add grd path kind delta t =
     (let key = fallback_key grd path kind
      in case jm_get (ft_counts t) key of
           Some e \<Rightarrow> t\<lparr>ft_counts := jm_set (ft_counts t) key (e\<lparr>fb_count := fb_count e + delta\<rparr>)\<rparr>
         | None \<Rightarrow>
             if length (ft_counts t) \<ge> FALLBACK_MAX_KEYS then t\<lparr>ft_warnedAtCap := True\<rparr>
             else t\<lparr>ft_counts := jm_set (ft_counts t) key
                      \<lparr>fb_guard = grd, fb_path = path, fb_failureKind = kind, fb_count = delta\<rparr>\<rparr>)"

definition ft_increment :: "string \<Rightarrow> string \<Rightarrow> string \<Rightarrow> fallback_tracker \<Rightarrow> fallback_tracker" where
  "ft_increment grd path kind t = ft_add grd path kind 1 t"

definition ft_drain :: "int \<Rightarrow> fallback_tracker \<Rightarrow> fallback_batch \<times> fallback_tracker" where
  "ft_drain now t =
     (let batch = \<lparr>bt_windowStart = ft_windowStartedAt t, bt_windowEnd = now, bt_counts = map snd (ft_counts t)\<rparr>
      in if ft_counts t = [] then (batch, t)
         else (batch, \<lparr>ft_counts = [], ft_windowStartedAt = now, ft_warnedAtCap = False\<rparr>))"

definition ft_merge :: "fallback_count list \<Rightarrow> fallback_tracker \<Rightarrow> fallback_tracker" where
  "ft_merge counts t = foldl (\<lambda>t c. ft_add (fb_guard c) (fb_path c) (fb_failureKind c) (fb_count c) t) t counts"

section \<open>The guards\<close>

record edge_env =
  ee_tokens :: token_env
  ee_loopback :: "string \<Rightarrow> bool"
  ee_trustProxy :: bool
  ee_disableHttpAuth :: "string option"
  ee_isPlatform :: "string option"

record edge_state =
  es_limiter :: auth_limiter
  es_tokens :: token_state
  es_fallbacks :: fallback_tracker

datatype edge_response = Unauthorized | Forbidden | ServiceUnavailable

datatype platform_user = PlatformLookupThrew | PlatformUser "string option" bool

datatype guardian_lookup = GuardianLookupThrew | GuardianFound "string option"

definition isHttpAuthDisabled :: "edge_env \<Rightarrow> bool" where
  "isHttpAuthDisabled env = (case ee_disableHttpAuth env of None \<Rightarrow> False | Some v \<Rightarrow> map ascii_lower (js_trim v) = ''true'')"

definition isPlatformManaged :: "edge_env \<Rightarrow> bool" where
  "isPlatformManaged env =
     (case ee_isPlatform env of None \<Rightarrow> False | Some v \<Rightarrow> js_trim v = ''1'' \<or> map ascii_lower (js_trim v) = ''true'')"

definition isPlatformAuthBypassActive :: "edge_env \<Rightarrow> bool" where
  "isPlatformAuthBypassActive env = (isHttpAuthDisabled env \<and> isPlatformManaged env)"

text \<open>An empty header, an absent user and an empty one are all falsy.\<close>

definition requirePlatformUserHeader :: "platform_user \<Rightarrow> edge_request \<Rightarrow> edge_response option" where
  "requirePlatformUserHeader lookup req =
     (case rq_userId req of
        None \<Rightarrow> Some Unauthorized
      | Some h \<Rightarrow>
          if h = [] then Some Unauthorized
          else
            case lookup of
              PlatformLookupThrew \<Rightarrow> Some ServiceUnavailable
            | PlatformUser stored unreachable \<Rightarrow>
                if unreachable then Some ServiceUnavailable
                else if stored = None \<or> stored = Some [] then Some Forbidden
                else if stored \<noteq> Some h then Some Forbidden
                else None)"

definition isSingleRouteGrant :: "TokenClaims \<Rightarrow> bool" where
  "isSingleRouteGrant claims =
     (if isNarrowScopeProfile (tc_scope_profile claims) then True
      else
        case parseSub (tc_sub claims) of
          Inl _ \<Rightarrow> False
        | Inr p \<Rightarrow>
            sb_principalType p = PrLocal \<and>
            starts_with ''oauth-proxy.'' (case sb_conversationId p of None \<Rightarrow> [] | Some c \<Rightarrow> c))"

definition hasAuthorizationHeader :: "edge_request \<Rightarrow> bool" where
  "hasAuthorizationHeader req = (case rq_authorization req of None \<Rightarrow> False | Some h \<Rightarrow> js_trim h \<noteq> [])"

definition extractBearerToken :: "edge_request \<Rightarrow> string option" where
  "extractBearerToken req = bearer_token (rq_authorization req)"

text \<open>The token the guards work with: \<open>if (token)\<close> also refuses the empty one.\<close>

definition presented_token :: "edge_request \<Rightarrow> string option" where
  "presented_token req = (if extractBearerToken req = Some [] then None else extractBearerToken req)"

definition allowLegacyLoopbackFallback ::
  "edge_env \<Rightarrow> edge_request \<Rightarrow> string \<Rightarrow> string \<Rightarrow> edge_state \<Rightarrow> bool \<times> edge_state" where
  "allowLegacyLoopbackFallback env req grd kind s =
     (if rq_edgeForwarded req then (False, s)
      else if \<not> isLoopbackPeer (ee_loopback env) (ee_trustProxy env) req then (False, s)
      else (True, s\<lparr>es_fallbacks := ft_increment grd (rq_path req) kind (es_fallbacks s)\<rparr>))"

definition count_failure :: "(nat \<Rightarrow> int) \<Rightarrow> edge_request \<Rightarrow> edge_state \<Rightarrow> edge_state" where
  "count_failure clk req s = s\<lparr>es_limiter := recordFailure (clk 9) (es_limiter s) (rq_clientIp req)\<rparr>"

text \<open>The pattern of the guards: the fallback, else a refusal that counts as a failure or not.\<close>

definition fallback_or ::
  "edge_env \<Rightarrow> (nat \<Rightarrow> int) \<Rightarrow> edge_request \<Rightarrow> string \<Rightarrow> string \<Rightarrow> edge_response \<Rightarrow> bool \<Rightarrow> edge_state \<Rightarrow>
     edge_response option \<times> edge_state" where
  "fallback_or env clk req grd kind response counted s =
     (case allowLegacyLoopbackFallback env req grd kind s of (allowed, s1) \<Rightarrow>
        if allowed then (None, s1) else (Some response, if counted then count_failure clk req s1 else s1))"

definition rejectSingleRouteGrant ::
  "(nat \<Rightarrow> int) \<Rightarrow> edge_request \<Rightarrow> TokenClaims \<Rightarrow> edge_state \<Rightarrow> edge_response option \<times> edge_state" where
  "rejectSingleRouteGrant clk req claims s =
     (if \<not> isSingleRouteGrant claims then (None, s) else (Some Unauthorized, count_failure clk req s))"

definition rejectIfActorTokenRevoked ::
  "edge_env \<Rightarrow> db_fault \<Rightarrow> (nat \<Rightarrow> int) \<Rightarrow> edge_request \<Rightarrow> string \<Rightarrow> TokenClaims \<Rightarrow> edge_state \<Rightarrow>
     edge_response option \<times> edge_state" where
  "rejectIfActorTokenRevoked env fault clk req token claims s =
     (case admitActorToken (ee_tokens env) fault (\<lambda>i. clk (Suc i)) token claims (es_tokens s) of (admitted, t) \<Rightarrow>
        let s1 = s\<lparr>es_tokens := t\<rparr>
        in if admitted then (None, s1) else (Some Unauthorized, count_failure clk req s1))"

text \<open>What the three guards share of a presented token: verification, containment, admission.\<close>

definition check_bearer ::
  "edge_env \<Rightarrow> db_fault \<Rightarrow> (nat \<Rightarrow> int) \<Rightarrow> string \<Rightarrow> edge_request \<Rightarrow> string \<Rightarrow> edge_state \<Rightarrow>
     (edge_response option + TokenClaims) \<times> edge_state" where
  "check_bearer env fault clk grd req token s =
     (case validateEdgeToken (ee_tokens env) (clk 0) False token of
        Inl _ \<Rightarrow> apfst Inl (fallback_or env clk req grd ''token_validation_failed'' Unauthorized True s)
      | Inr claims \<Rightarrow>
          (case rejectSingleRouteGrant clk req claims s of
             (Some r, s1) \<Rightarrow> (Inl (Some r), s1)
           | (None, s1) \<Rightarrow>
               (case rejectIfActorTokenRevoked env fault clk req token claims s1 of
                  (Some r, s2) \<Rightarrow> (Inl (Some r), s2)
                | (None, s2) \<Rightarrow> (Inr claims, s2))))"

definition validateEdgeBearer ::
  "edge_env \<Rightarrow> db_fault \<Rightarrow> (nat \<Rightarrow> int) \<Rightarrow> edge_request \<Rightarrow> string \<Rightarrow> edge_state \<Rightarrow> edge_response option \<times> edge_state" where
  "validateEdgeBearer env fault clk req token s =
     (case check_bearer env fault clk ''edge'' req token s of
        (Inl r, s1) \<Rightarrow> (r, s1)
      | (Inr claims, s1) \<Rightarrow> (None, s1))"

definition validateScopedEdgeBearer ::
  "edge_env \<Rightarrow> db_fault \<Rightarrow> (nat \<Rightarrow> int) \<Rightarrow> edge_request \<Rightarrow> string \<Rightarrow> string \<Rightarrow> edge_state \<Rightarrow> edge_response option \<times> edge_state" where
  "validateScopedEdgeBearer env fault clk req token scope s =
     (case check_bearer env fault clk ''edge-scoped'' req token s of
        (Inl r, s1) \<Rightarrow> (r, s1)
      | (Inr claims, s1) \<Rightarrow>
          if scope \<notin> set (resolveScopeProfile GATEWAY_PROFILE_SCOPES (tc_scope_profile claims))
          then fallback_or env clk req ''edge-scoped'' ''insufficient_scope'' Forbidden False s1
          else (None, s1))"

definition missing_or_malformed ::
  "edge_env \<Rightarrow> (nat \<Rightarrow> int) \<Rightarrow> string \<Rightarrow> edge_request \<Rightarrow> edge_state \<Rightarrow> edge_response option \<times> edge_state" where
  "missing_or_malformed env clk grd req s =
     fallback_or env clk req grd
       (if hasAuthorizationHeader req then ''malformed_authorization'' else ''missing_authorization'') Unauthorized True s"

definition requireEdgeAuth ::
  "edge_env \<Rightarrow> platform_user \<Rightarrow> db_fault \<Rightarrow> (nat \<Rightarrow> int) \<Rightarrow> edge_request \<Rightarrow> edge_state \<Rightarrow> edge_response option \<times> edge_state" where
  "requireEdgeAuth env lookup fault clk req s =
     (if isPlatformAuthBypassActive env then (requirePlatformUserHeader lookup req, s)
      else
        case presented_token req of
          Some token \<Rightarrow> validateEdgeBearer env fault clk req token s
        | None \<Rightarrow> missing_or_malformed env clk ''edge'' req s)"

definition requireEdgeAuthWithScope ::
  "edge_env \<Rightarrow> platform_user \<Rightarrow> db_fault \<Rightarrow> (nat \<Rightarrow> int) \<Rightarrow> edge_request \<Rightarrow> string \<Rightarrow> edge_state \<Rightarrow>
     edge_response option \<times> edge_state" where
  "requireEdgeAuthWithScope env lookup fault clk req scope s =
     (if isPlatformAuthBypassActive env then (requirePlatformUserHeader lookup req, s)
      else
        case presented_token req of
          Some token \<Rightarrow> validateScopedEdgeBearer env fault clk req token scope s
        | None \<Rightarrow> missing_or_malformed env clk ''edge-scoped'' req s)"

definition check_guardian ::
  "edge_env \<Rightarrow> guardian_lookup \<Rightarrow> (nat \<Rightarrow> int) \<Rightarrow> edge_request \<Rightarrow> TokenClaims \<Rightarrow> edge_state \<Rightarrow>
     edge_response option \<times> edge_state" where
  "check_guardian env guardian clk req claims s =
     (let actor = (case parseSub (tc_sub claims) of
                     Inl _ \<Rightarrow> None
                   | Inr p \<Rightarrow> if sb_principalType p = PrActor then sb_actorPrincipalId p else None)
      in if actor = None \<or> actor = Some []
         then fallback_or env clk req ''edge-guardian'' ''non_actor_principal'' Forbidden False s
         else
           case guardian of
             GuardianLookupThrew \<Rightarrow> (Some ServiceUnavailable, s)
           | GuardianFound g \<Rightarrow>
               if g \<noteq> actor then fallback_or env clk req ''edge-guardian'' ''guardian_mismatch'' Forbidden False s
               else (None, s))"

definition requireEdgeGuardianAuth ::
  "edge_env \<Rightarrow> platform_user \<Rightarrow> guardian_lookup \<Rightarrow> db_fault \<Rightarrow> (nat \<Rightarrow> int) \<Rightarrow> edge_request \<Rightarrow> edge_state \<Rightarrow>
     edge_response option \<times> edge_state" where
  "requireEdgeGuardianAuth env lookup guardian fault clk req s =
     (if isPlatformAuthBypassActive env then (requirePlatformUserHeader lookup req, s)
      else
        case presented_token req of
          None \<Rightarrow> missing_or_malformed env clk ''edge-guardian'' req s
        | Some token \<Rightarrow>
            (case check_bearer env fault clk ''edge-guardian'' req token s of
               (Inl r, s1) \<Rightarrow> (r, s1)
             | (Inr claims, s1) \<Rightarrow> check_guardian env guardian clk req claims s1))"

section \<open>The proxies to the daemon\<close>

text \<open>The shared part: a bearer that verifies and is admitted, else \<open>None\<close> (a 401).\<close>

definition proxy_claims ::
  "token_env \<Rightarrow> db_fault \<Rightarrow> (nat \<Rightarrow> int) \<Rightarrow> string option \<Rightarrow> token_state \<Rightarrow> TokenClaims option \<times> token_state" where
  "proxy_claims env fault clk authHeader s =
     (case bearer_token authHeader of
        None \<Rightarrow> (None, s)
      | Some edgeJwt \<Rightarrow>
          (case validateEdgeToken env (clk 0) False edgeJwt of
             Inl _ \<Rightarrow> (None, s)
           | Inr claims \<Rightarrow>
               (case admitActorToken env fault (\<lambda>i. clk (Suc i)) edgeJwt claims s of (admitted, s1) \<Rightarrow>
                  if admitted then (Some claims, s1) else (None, s1))))"

definition presentedProxyGrant ::
  "token_env \<Rightarrow> db_fault \<Rightarrow> (nat \<Rightarrow> int) \<Rightarrow> string option \<Rightarrow> token_state \<Rightarrow> TokenClaims option \<times> token_state" where
  "presentedProxyGrant env fault clk authHeader s =
     (case bearer_token authHeader of
        None \<Rightarrow> (None, s)
      | Some token \<Rightarrow>
          (case validateEdgeToken env (clk 0) False token of
             Inl _ \<Rightarrow> (None, s)
           | Inr claims \<Rightarrow>
               if tc_scope_profile claims \<noteq> ''oauth_proxy_v1'' then (None, s)
               else
                 (case admitActorToken env fault (\<lambda>i. clk (Suc i)) token claims s of (admitted, s1) \<Rightarrow>
                    if admitted then (Some claims, s1) else (None, s1))))"

definition mintUnauthenticatedExchangeToken ::
  "token_env \<Rightarrow> db_fault \<Rightarrow> (nat \<Rightarrow> int) \<Rightarrow> string \<Rightarrow> string option \<Rightarrow> token_state \<Rightarrow> string \<times> token_state" where
  "mintUnauthenticatedExchangeToken env fault clk jti authHeader s =
     (case presentedProxyGrant env fault clk authHeader s of
        (None, s1) \<Rightarrow> (mintServiceToken env (clk 9) jti, s1)
      | (Some grant, s1) \<Rightarrow> (mintExchangeToken env (clk 9) jti grant (tc_scope_profile grant), s1))"

text \<open>The token the HTTP proxy forwards with, \<open>None\<close> for its 401. Other methods than \<open>OPTIONS\<close> authenticate.\<close>

definition proxy_exchange ::
  "token_env \<Rightarrow> bool \<Rightarrow> db_fault \<Rightarrow> (nat \<Rightarrow> int) \<Rightarrow> string \<Rightarrow> string \<Rightarrow> string option \<Rightarrow> token_state \<Rightarrow>
     string option \<times> token_state" where
  "proxy_exchange env requireAuth fault clk jti meth authHeader s =
     (if requireAuth \<and> meth \<noteq> ''OPTIONS''
      then (case proxy_claims env fault clk authHeader s of
              (None, s1) \<Rightarrow> (None, s1)
            | (Some c, s1) \<Rightarrow> (Some (mintExchangeToken env (clk 9) jti c (tc_scope_profile c)), s1))
      else apfst Some (mintUnauthenticatedExchangeToken env fault clk jti authHeader s))"

type_synonym headers = "(string, string) jsmap"

definition drop_identity :: "headers \<Rightarrow> headers" where
  "drop_identity hs =
     jm_delete (jm_delete (jm_delete hs ''x-vellum-actor-principal-id'') ''x-vellum-principal-type'') ''x-vellum-subject''"

definition ipc_headers :: "TokenClaims option \<Rightarrow> headers \<Rightarrow> headers" where
  "ipc_headers claims hs =
     (let base = drop_identity (filter (\<lambda>(k, v). starts_with ''x-vellum-'' k) hs)
      in case claims of
           None \<Rightarrow> base
         | Some c \<Rightarrow>
             (case parseSub (tc_sub c) of
                Inl _ \<Rightarrow> base
              | Inr p \<Rightarrow>
                  let typed = jm_set base ''x-vellum-principal-type'' (principal_string (sb_principalType p))
                  in (case sb_actorPrincipalId p of
                        None \<Rightarrow> typed
                      | Some a \<Rightarrow> if a = [] then typed else jm_set typed ''x-vellum-actor-principal-id'' a)))"

datatype ipc_result =
    IpcFallThrough
  | IpcUnauthorized
  | IpcNotFound
  | IpcBadRequest
  | IpcNoPolicy
  | IpcDenied policy_denied
  | IpcCall string "(string, string) jsmap" headers

definition ipc_dispatch ::
  "(string \<Rightarrow> string option) \<Rightarrow> route_def list \<Rightarrow> string \<Rightarrow> string \<Rightarrow> headers \<Rightarrow> TokenClaims option \<Rightarrow> ipc_result" where
  "ipc_dispatch decode entries meth pathname hs claims =
     (if \<not> starts_with ''/v1/'' pathname then IpcNotFound
      else
        case matchRoute decode entries meth (drop 4 pathname) of
          NoRoute \<Rightarrow> IpcNotFound
        | MalformedPath \<Rightarrow> IpcBadRequest
        | RouteMatched r ps \<Rightarrow>
            (case getCachedRoutePolicy entries (rt_operationId r) of
               None \<Rightarrow> IpcNoPolicy
             | Some policy \<Rightarrow>
                 (case enforceRoutePolicy policy claims of
                    Some d \<Rightarrow> IpcDenied d
                  | None \<Rightarrow> IpcCall (rt_operationId r) ps (ipc_headers claims hs))))"

definition tryIpcProxy ::
  "token_env \<Rightarrow> bool \<Rightarrow> db_fault \<Rightarrow> (nat \<Rightarrow> int) \<Rightarrow> (string \<Rightarrow> string option) \<Rightarrow> route_def list \<Rightarrow> string \<Rightarrow> string \<Rightarrow> headers \<Rightarrow>
     token_state \<Rightarrow> ipc_result \<times> token_state" where
  "tryIpcProxy env requireAuth fault clk decode entries meth pathname hs s =
     (if jm_get hs ''x-vellum-proxy-server'' \<noteq> Some ''ipc'' then (IpcFallThrough, s)
      else if requireAuth \<and> meth \<noteq> ''OPTIONS''
      then (case proxy_claims env fault clk (jm_get hs ''authorization'') s of
              (None, s1) \<Rightarrow> (IpcUnauthorized, s1)
            | (Some c, s1) \<Rightarrow> (ipc_dispatch decode entries meth pathname hs (Some c), s1))
      else (ipc_dispatch decode entries meth pathname hs None, s))"

section \<open>The identity the daemon's handlers see\<close>

text \<open>
  The IPC adapter (\<^verbatim>\<open>ipc/assistant-server.ts\<close>). \<open>localActor\<close>: the local guardian in the store, \<open>None\<close> where there
  is none or the lookup throws.
\<close>

definition injectLocalActorHeader :: "string option \<Rightarrow> headers \<Rightarrow> headers" where
  "injectLocalActorHeader localActor existing =
     (let kind = (case jm_get existing ''x-vellum-principal-type'' of
                    Some k \<Rightarrow> k
                  | None \<Rightarrow> if jm_get existing ''x-vellum-proxy-server'' = Some ''ipc'' then ''svc_gateway'' else ''local'');
          hs = jm_delete (jm_set existing ''x-vellum-principal-type'' kind) ''x-vellum-subject''
      in if jm_get hs ''x-vellum-actor-principal-id'' = None \<or> jm_get hs ''x-vellum-actor-principal-id'' = Some []
         then (case localActor of
                 None \<Rightarrow> hs
               | Some a \<Rightarrow> if a = [] then hs else jm_set hs ''x-vellum-actor-principal-id'' a)
         else hs)"

text \<open>The HTTP adapter (\<^verbatim>\<open>runtime/routes/http-adapter.ts\<close>).\<close>

definition http_headers :: "AuthContext \<Rightarrow> headers \<Rightarrow> headers" where
  "http_headers ctx hs =
     (let base = drop_identity hs;
          actor = (case ac_actorPrincipalId ctx of
                     None \<Rightarrow> base
                   | Some a \<Rightarrow> if a = [] then base else jm_set base ''x-vellum-actor-principal-id'' a);
          typed = jm_set actor ''x-vellum-principal-type'' (principal_string (ac_principalType ctx))
      in if ac_subject ctx = [] then typed else jm_set typed ''x-vellum-subject'' (ac_subject ctx))"

section \<open>Lemmas on the guards\<close>

definition can_fall_back :: "edge_env \<Rightarrow> edge_request \<Rightarrow> bool" where
  "can_fall_back env req = (\<not> rq_edgeForwarded req \<and> isLoopbackPeer (ee_loopback env) (ee_trustProxy env) req)"

lemma fallback_or_cases:
  "fallback_or env clk req grd kind response counted s =
     (if can_fall_back env req then (None, s\<lparr>es_fallbacks := ft_increment grd (rq_path req) kind (es_fallbacks s)\<rparr>)
      else (Some response, if counted then count_failure clk req s else s))"
  by (simp add: fallback_or_def allowLegacyLoopbackFallback_def can_fall_back_def)

text \<open>A bearer the guards accept: verified, for more than a single route, and admitted.\<close>

definition accepted ::
  "edge_env \<Rightarrow> db_fault \<Rightarrow> (nat \<Rightarrow> int) \<Rightarrow> edge_request \<Rightarrow> token_state \<Rightarrow> TokenClaims \<Rightarrow> bool" where
  "accepted env fault clk req ts c =
     (\<exists>token. presented_token req = Some token \<and> validateEdgeToken (ee_tokens env) (clk 0) False token = Inr c \<and>
        \<not> isSingleRouteGrant c \<and> fst (admitActorToken (ee_tokens env) fault (\<lambda>i. clk (Suc i)) token c ts))"

lemma check_bearer_accepts:
  assumes "presented_token req = Some token" "check_bearer env fault clk grd req token s = (Inr c, s1)"
  shows "accepted env fault clk req (es_tokens s) c" "es_limiter s1 = es_limiter s"
  using assms
  by (auto simp: check_bearer_def accepted_def rejectSingleRouteGrant_def rejectIfActorTokenRevoked_def Let_def apfst_def map_prod_def
      split: sum.splits if_splits prod.splits)

lemma check_bearer_stops:
  assumes "check_bearer env fault clk grd req token s = (Inl r, s1)"
  shows "r = None \<longrightarrow> can_fall_back env req"
    and "es_limiter s1 = (if r = Some Unauthorized then recordFailure (clk 9) (es_limiter s) (rq_clientIp req) else es_limiter s)"
    and "r = None \<or> r = Some Unauthorized"
  using assms
  by (auto simp: check_bearer_def fallback_or_cases rejectSingleRouteGrant_def rejectIfActorTokenRevoked_def Let_def count_failure_def
      split: sum.splits if_splits prod.splits)

text \<open>A bearer that verifies but is contained or revoked.\<close>

lemma check_bearer_refuses:
  assumes "validateEdgeToken (ee_tokens env) (clk 0) False token = Inr c"
    "isSingleRouteGrant c \<or> \<not> fst (admitActorToken (ee_tokens env) fault (\<lambda>i. clk (Suc i)) token c (es_tokens s))"
  shows "\<exists>s1. check_bearer env fault clk grd req token s = (Inl (Some Unauthorized), s1)"
  using assms
  by (auto simp: check_bearer_def rejectSingleRouteGrant_def rejectIfActorTokenRevoked_def Let_def split: prod.split)

lemma missing_limiter:
  "es_limiter (snd (missing_or_malformed env clk grd req s)) =
     (if fst (missing_or_malformed env clk grd req s) = Some Unauthorized
      then recordFailure (clk 9) (es_limiter s) (rq_clientIp req) else es_limiter s)"
  by (simp add: missing_or_malformed_def fallback_or_cases count_failure_def)

lemma missing_allows: "fst (missing_or_malformed env clk grd req s) = None \<Longrightarrow> can_fall_back env req"
  by (simp add: missing_or_malformed_def fallback_or_cases split: if_splits)

section \<open>Lemmas on the proxies\<close>

lemma service_core:
  assumes laws: "token_laws env" and fresh: "nowD div 1000 < nowE div 1000 + 60"
  shows "\<exists>ctx. authenticateRequest env False nowD nowD' (Some (''Bearer '' @ mintServiceToken env nowE jti)) = Inr ctx \<and>
      ac_subject ctx = ''svc:gateway:self'' \<and> ac_scopeProfile ctx = ''gateway_service_v1''"
proof -
  let ?p = "service_params ''vellum-daemon'' ''gateway_service_v1'' EXCHANGE_TOKEN_TTL_SECONDS"
  have "verifyToken env nowD False (mintToken env nowE jti ?p) ''vellum-daemon'' = Inr (minted_claims nowE jti ?p)"
    unfolding verify_mint [OF laws] using fresh by (simp add: service_params_def EXCHANGE_TOKEN_TTL_SECONDS_def isStaleEpoch_def)
  then show ?thesis
    unfolding mintServiceToken_def authenticate_bearer [OF mint_not_empty]
    by (simp add: authenticate_daemon_token buildAuthContext_def minted_claims_def service_params_def parse_gateway_self)
qed

definition gateway_service :: "AuthContext \<Rightarrow> bool" where
  "gateway_service ctx = (ac_subject ctx = ''svc:gateway:self'' \<and> ac_scopeProfile ctx = ''gateway_service_v1'')"

lemma proxy_claims_ok:
  "proxy_claims env fault clk hdr s = (Some c, s1) \<Longrightarrow>
     \<exists>bearer. bearer_token hdr = Some bearer \<and> validateEdgeToken env (clk 0) False bearer = Inr c \<and>
       fst (admitActorToken env fault (\<lambda>i. clk (Suc i)) bearer c s)"
  by (auto simp: proxy_claims_def split: option.splits sum.splits prod.splits if_splits)

lemma proxy_grant_ok:
  "presentedProxyGrant env fault clk hdr s = (Some c, s1) \<Longrightarrow>
     \<exists>bearer. bearer_token hdr = Some bearer \<and> validateEdgeToken env (clk 0) False bearer = Inr c \<and>
       fst (admitActorToken env fault (\<lambda>i. clk (Suc i)) bearer c s) \<and> tc_scope_profile c = ''oauth_proxy_v1''"
  by (auto simp: presentedProxyGrant_def split: option.splits sum.splits prod.splits if_splits)

lemma drop_identity_get [simp]:
  "jm_get (drop_identity hs) ''x-vellum-actor-principal-id'' = None" "jm_get (drop_identity hs) ''x-vellum-principal-type'' = None"
  by (simp_all add: drop_identity_def jm_get_delete)

lemma actor_sub:
  "daemon_principal sub = PrActor \<Longrightarrow> \<exists>p a. parseSub sub = Inr p \<and> sb_principalType p = PrActor \<and> sb_actorPrincipalId p = Some a \<and> a \<noteq> [] \<and> sub_actor sub = Some a"
  by (auto simp: daemon_principal_def sub_actor_def split: sum.splits if_splits elim: parse_sub_cases)

lemma non_actor_sub: "daemon_principal sub \<noteq> PrActor \<Longrightarrow> sub_actor sub = None"
  by (auto simp: daemon_principal_def sub_actor_def split: sum.splits if_splits elim: parse_sub_cases)

lemma ipc_actor_header:
  "jm_get (ipc_headers (Some c) hs) ''x-vellum-actor-principal-id'' = (if sub_actor (tc_sub c) = Some [] then None else sub_actor (tc_sub c))"
  by (auto simp: ipc_headers_def sub_actor_def Let_def split: sum.split option.split)

section \<open>A request, for the witnesses\<close>

definition w_claims :: TokenClaims where
  "w_claims = minted_claims 1000 ''j1'' (access_params None ''p1'' ACCESS_TOKEN_TTL_SECONDS)"

definition w_bearer :: string where
  "w_bearer = ''Bearer '' @ w_token 1000 ''j1''"

definition w_number :: "string \<Rightarrow> int option" where
  "w_number s = (if s \<noteq> [] \<and> list_all ascii_digit s then Some (foldl (\<lambda>n c. 10 * n + int (of_char c) - 48) 0 s) else None)"

definition w_env :: edge_env where
  "w_env = \<lparr>ee_tokens = sample_env, ee_loopback = isLoopbackAddress w_number, ee_trustProxy = False, ee_disableHttpAuth = Some ''true'',
     ee_isPlatform = None\<rparr>"

definition w_request :: edge_request where
  "w_request = \<lparr>rq_authorization = Some w_bearer, rq_userId = None, rq_edgeForwarded = False, rq_forwardedFor = None,
     rq_peer = Some ''10.0.0.5'', rq_path = ''/v1/devices'', rq_clientIp = ''10.0.0.5''\<rparr>"

definition w_state :: edge_state where
  "w_state = \<lparr>es_limiter = al_new 20 60000, es_tokens = w_paired, es_fallbacks = ft_new 0\<rparr>"

lemma bearer_prefix: "bearer_token (Some (''Bearer '' @ t)) = Some t"
proof -
  have "map ascii_lower ''Bearer '' = ''bearer ''" by code_simp
  moreover have "take 7 (''Bearer '' @ t) = ''Bearer ''" "drop 7 (''Bearer '' @ t) = t" by simp_all
  ultimately show ?thesis unfolding bearer_token_def option.case by (simp only: if_True refl)
qed

lemma w_bearer_token: "bearer_token (Some w_bearer) = Some (w_token 1000 ''j1'')"
  unfolding w_bearer_def by (rule bearer_prefix)

lemma w_verified: "validateEdgeToken sample_env 2000 False (w_token 1000 ''j1'') = Inr w_claims"
  unfolding validateEdgeToken_def w_token_def w_claims_def verify_mint [OF sample_laws]
  by (simp add: access_params_def isStaleEpoch_def ACCESS_TOKEN_TTL_SECONDS_def)

lemma w_sub: "tc_sub w_claims = ''actor:self:p1''" "tc_scope_profile w_claims = ''actor_client_v1''"
  by (simp_all add: w_claims_def minted_claims_def access_params_def getExternalAssistantId_def)

lemma w_parse: "parseSub ''actor:self:p1'' =
    Inr \<lparr>sb_principalType = PrActor, sb_assistantId = ''self'', sb_actorPrincipalId = Some ''p1'', sb_conversationId = None\<rparr>"
  by (simp add: parseSub_def)

lemma w_hash: "actorTokenRecordHash sample_env (w_token 1000 ''j1'') = w_token 1000 ''j1''"
  using respelled_token [OF sample_laws _ w_verified [unfolded validateEdgeToken_def w_token_def]]
  by (simp add: actorTokenRecordHash_def w_token_def)

lemma w_admitted: "fst (admitActorToken sample_env NoFault clk (w_token 1000 ''j1'') w_claims w_paired)"
  using admit_rejects [of w_claims _ NoFault sample_env clk "w_token 1000 ''j1''" w_paired]
  by (simp add: w_sub w_parse w_hash w_paired_db find_actor_def w_actor_def)

lemma w_admit_pair: "admitActorToken sample_env NoFault clk (w_token 1000 ''j1'') w_claims w_paired =
    (True, snd (admitActorToken sample_env NoFault clk (w_token 1000 ''j1'') w_claims w_paired))"
  using w_admitted [of clk] by (simp add: prod_eq_iff)

lemma w_not_single: "\<not> isSingleRouteGrant w_claims"
  by (simp add: isSingleRouteGrant_def w_sub w_parse isNarrowScopeProfile_def BROAD_SCOPE_PROFILES_def)

lemma w_remote: "\<not> can_fall_back w_env w_request" "\<not> isPlatformAuthBypassActive w_env"
  "presented_token w_request = Some (w_token 1000 ''j1'')"
proof -
  have "\<not> isLoopbackAddress w_number ''10.0.0.5''" by code_simp
  then show "\<not> can_fall_back w_env w_request"
    by (simp add: can_fall_back_def isLoopbackPeer_def w_request_def w_env_def)
  show "\<not> isPlatformAuthBypassActive w_env" by (simp add: isPlatformAuthBypassActive_def isPlatformManaged_def w_env_def)
  have "w_token 1000 ''j1'' \<noteq> []" by (simp add: w_token_def mint_not_empty)
  then show "presented_token w_request = Some (w_token 1000 ''j1'')"
    by (simp add: presented_token_def extractBearerToken_def w_request_def w_bearer_token)
qed

lemma w_checked:
  "\<exists>s1. check_bearer w_env NoFault (\<lambda>_. 2000) grd w_request (w_token 1000 ''j1'') w_state = (Inr w_claims, s1)"
  using w_admitted [of "\<lambda>_. 2000"] w_verified w_not_single
  by (auto simp: check_bearer_def w_env_def w_state_def rejectSingleRouteGrant_def rejectIfActorTokenRevoked_def Let_def split: prod.split)

lemma w_guarded: "fst (requireEdgeGuardianAuth w_env PlatformLookupThrew (GuardianFound (Some ''p1'')) NoFault (\<lambda>_. 2000) w_request w_state) = None"
  using w_checked [of "''edge-guardian''"]
  by (auto simp: requireEdgeGuardianAuth_def w_remote check_guardian_def w_sub w_parse Let_def)

section \<open>Properties\<close>

text \<open>C23: A remote caller is the guardian: with the platform bypass off, the guardian's guard lets a request that
  cannot fall back to the loopback grace through only with a bearer that verifies, is no single-route grant, is
  not revoked, and speaks for the very principal that is bound as guardian.\<close>

theorem remote_caller_is_guardian:
  assumes "\<not> isPlatformAuthBypassActive env"
    and "\<not> can_fall_back env req"
    and "fst (requireEdgeGuardianAuth env lookup guardian fault clk req s) = None"
  shows "\<exists>c p a. accepted env fault clk req (es_tokens s) c \<and> parseSub (tc_sub c) = Inr p \<and> sb_principalType p = PrActor \<and>
      sb_actorPrincipalId p = Some a \<and> guardian = GuardianFound (Some a)"
proof -
  obtain token where token: "presented_token req = Some token"
    using assms missing_allows [of env clk "''edge-guardian''" req s]
    by (cases "presented_token req") (auto simp: requireEdgeGuardianAuth_def)
  obtain x s1 where chk: "check_bearer env fault clk ''edge-guardian'' req token s = (x, s1)" by force
  with assms token obtain c where x: "x = Inr c"
    using check_bearer_stops(1) [of env fault clk "''edge-guardian''" req token s] by (cases x) (auto simp: requireEdgeGuardianAuth_def)
  then have guard: "fst (check_guardian env guardian clk req c s1) = None"
    using assms token chk by (simp add: requireEdgeGuardianAuth_def)
  then obtain p where p: "parseSub (tc_sub c) = Inr p" "sb_principalType p = PrActor"
    using assms(2) by (auto simp: check_guardian_def fallback_or_cases Let_def split: sum.splits if_splits)
  then obtain a where "sb_actorPrincipalId p = Some a" "guardian = GuardianFound (Some a)"
    using guard assms(2)
    by (cases guardian) (auto simp: check_guardian_def fallback_or_cases Let_def split: if_splits)
  with p check_bearer_accepts(1) [OF token chk [unfolded x]] show ?thesis by blast
qed

theorem remote_caller_is_guardian_witness:
  "\<exists>c p a. accepted w_env NoFault (\<lambda>_. 2000) w_request (es_tokens w_state) c \<and> parseSub (tc_sub c) = Inr p \<and>
      sb_principalType p = PrActor \<and> sb_actorPrincipalId p = Some a \<and> GuardianFound (Some ''p1'') = GuardianFound (Some a)"
  by (rule remote_caller_is_guardian [OF w_remote(2,1) w_guarded])

text \<open>A refused credential never falls back: a bearer that verifies but is a single-route grant or a revoked
  device's token is answered 401 by all three guards, from the loopback host too, where a request with no
  bearer at all would be let through.\<close>

theorem refused_bearer_never_falls_back:
  assumes "\<not> isPlatformAuthBypassActive env"
    and "presented_token req = Some token"
    and "validateEdgeToken (ee_tokens env) (clk 0) False token = Inr c"
    and "isSingleRouteGrant c \<or> \<not> fst (admitActorToken (ee_tokens env) fault (\<lambda>i. clk (Suc i)) token c (es_tokens s))"
  shows "fst (requireEdgeAuth env lookup fault clk req s) = Some Unauthorized \<and>
      fst (requireEdgeAuthWithScope env lookup fault clk req scope s) = Some Unauthorized \<and>
      fst (requireEdgeGuardianAuth env lookup guardian fault clk req s) = Some Unauthorized"
proof -
  have "\<exists>s1. check_bearer env fault clk grd req token s = (Inl (Some Unauthorized), s1)" for grd
    by (rule check_bearer_refuses [OF assms(3,4)])
  then obtain s1 s2 s3 where
    "check_bearer env fault clk ''edge'' req token s = (Inl (Some Unauthorized), s1)"
    "check_bearer env fault clk ''edge-scoped'' req token s = (Inl (Some Unauthorized), s2)"
    "check_bearer env fault clk ''edge-guardian'' req token s = (Inl (Some Unauthorized), s3)"
    by meson
  with assms(1,2) show ?thesis
    by (simp add: requireEdgeAuth_def requireEdgeAuthWithScope_def requireEdgeGuardianAuth_def validateEdgeBearer_def
        validateScopedEdgeBearer_def)
qed

definition w_grant :: mint_params where
  "w_grant = \<lparr>mp_aud = ''vellum-gateway'', mp_sub = ''local:self:oauth-proxy.c1'', mp_scope_profile = ''oauth_proxy_v1'',
     mp_policy_epoch = 1, mp_ttlSeconds = 900\<rparr>"

definition w_grant_request :: edge_request where
  "w_grant_request = w_request\<lparr>rq_authorization := Some (''Bearer '' @ mintToken sample_env 1000 ''j7'' w_grant), rq_peer := Some ''127.0.0.1''\<rparr>"

theorem refused_bearer_never_falls_back_witness:
  "fst (requireEdgeAuth w_env PlatformLookupThrew NoFault (\<lambda>_. 2000) w_grant_request w_state) = Some Unauthorized \<and>
   fst (requireEdgeAuthWithScope w_env PlatformLookupThrew NoFault (\<lambda>_. 2000) w_grant_request ''settings.read'' w_state) = Some Unauthorized \<and>
   fst (requireEdgeGuardianAuth w_env PlatformLookupThrew GuardianLookupThrew NoFault (\<lambda>_. 2000) w_grant_request w_state) = Some Unauthorized"
proof (rule refused_bearer_never_falls_back [OF w_remote(2)])
  show "presented_token w_grant_request = Some (mintToken sample_env 1000 ''j7'' w_grant)"
    using mint_not_empty [of sample_env 1000 "''j7''" w_grant] bearer_prefix [of "mintToken sample_env 1000 ''j7'' w_grant"]
    by (simp add: presented_token_def extractBearerToken_def w_grant_request_def)
  show "validateEdgeToken (ee_tokens w_env) 2000 False (mintToken sample_env 1000 ''j7'' w_grant) = Inr (minted_claims 1000 ''j7'' w_grant)"
    by (simp add: w_env_def validateEdgeToken_def verify_mint [OF sample_laws]) (simp add: w_grant_def isStaleEpoch_def CURRENT_POLICY_EPOCH_def)
  show "isSingleRouteGrant (minted_claims 1000 ''j7'' w_grant) \<or>
      \<not> fst (admitActorToken (ee_tokens w_env) NoFault (\<lambda>i. 2000) (mintToken sample_env 1000 ''j7'' w_grant)
          (minted_claims 1000 ''j7'' w_grant) (es_tokens w_state))"
    by (simp add: isSingleRouteGrant_def minted_claims_def w_grant_def isNarrowScopeProfile_def BROAD_SCOPE_PROFILES_def)
qed

text \<open>Exactly the 401s count: outside the platform bypass, each guard records one failure for the client's address
  when it answers 401 and leaves the failure limiter alone in every other case.\<close>

theorem guards_count_unauthorized:
  assumes "\<not> isPlatformAuthBypassActive env"
    and "result \<in> {requireEdgeAuth env lookup fault clk req s, requireEdgeAuthWithScope env lookup fault clk req scope s,
        requireEdgeGuardianAuth env lookup guardian fault clk req s}"
  shows "es_limiter (snd result) =
      (if fst result = Some Unauthorized then recordFailure (clk 9) (es_limiter s) (rq_clientIp req) else es_limiter s)"
proof (cases "presented_token req")
  case None
  with assms missing_limiter show ?thesis
    by (auto simp: requireEdgeAuth_def requireEdgeAuthWithScope_def requireEdgeGuardianAuth_def)
next
  case (Some token)
  have final: "es_limiter (snd (check_guardian env guardian clk req c s1)) = es_limiter s1 \<and>
      fst (check_guardian env guardian clk req c s1) \<noteq> Some Unauthorized" for c s1
    by (auto simp: check_guardian_def fallback_or_cases Let_def split: guardian_lookup.split)
  have bearer: "es_limiter s1 = (if fst r = Some Unauthorized then recordFailure (clk 9) (es_limiter s) (rq_clientIp req) else es_limiter s)"
    if "check_bearer env fault clk grd req token s = (x, s1)" "case x of Inl y \<Rightarrow> r = (y, s1) | Inr c \<Rightarrow> fst r \<noteq> Some Unauthorized"
    for grd x s1 and r :: "edge_response option \<times> edge_state"
    using that check_bearer_stops(2) [of env fault clk grd req token s] check_bearer_accepts(2) [OF Some]
    by (cases x) auto
  obtain x1 s1 x2 s2 x3 s3 where chk:
    "check_bearer env fault clk ''edge'' req token s = (x1, s1)" "check_bearer env fault clk ''edge-scoped'' req token s = (x2, s2)"
    "check_bearer env fault clk ''edge-guardian'' req token s = (x3, s3)"
    by (metis surj_pair)
  consider "result = requireEdgeAuth env lookup fault clk req s" | "result = requireEdgeAuthWithScope env lookup fault clk req scope s"
    | "result = requireEdgeGuardianAuth env lookup guardian fault clk req s"
    using assms(2) by blast
  then show ?thesis
  proof cases
    case 1
    with Some assms(1) chk(1) bearer [OF chk(1), of result] show ?thesis
      by (cases x1) (auto simp: requireEdgeAuth_def validateEdgeBearer_def)
  next
    case 2
    with Some assms(1) chk(2) bearer [OF chk(2), of result] show ?thesis
      by (cases x2) (auto simp: requireEdgeAuthWithScope_def validateScopedEdgeBearer_def fallback_or_cases split: if_splits)
  next
    case 3
    with Some assms(1) chk(3) bearer [OF chk(3), of result] final show ?thesis
      by (cases x3) (auto simp: requireEdgeGuardianAuth_def)
  qed
qed

theorem guards_count_unauthorized_witness:
  "es_limiter (snd (requireEdgeAuth w_env PlatformLookupThrew NoFault (\<lambda>_. 2000) (w_request\<lparr>rq_authorization := None\<rparr>) w_state)) =
     (if fst (requireEdgeAuth w_env PlatformLookupThrew NoFault (\<lambda>_. 2000) (w_request\<lparr>rq_authorization := None\<rparr>) w_state) = Some Unauthorized
      then recordFailure 2000 (es_limiter w_state) (rq_clientIp (w_request\<lparr>rq_authorization := None\<rparr>)) else es_limiter w_state)"
  by (rule guards_count_unauthorized [OF w_remote(2), where lookup = PlatformLookupThrew and scope = "''chat.read''" and guardian = GuardianLookupThrew
        and fault = NoFault])
    simp

text \<open>The HTTP proxy speaks for its caller and for no one else: the token it forwards with is accepted by the daemon
  for its minute, and stands either for the subject and profile of the caller's own bearer, verified and
  admitted, or, where the gateway need not authenticate, for the gateway service; there the only
  bearer that stands for itself is a passthrough grant.\<close>

theorem proxy_speaks_for_caller:
  assumes "token_laws env"
    and "proxy_exchange env requireAuth fault clk jti meth hdr s = (Some tok, s1)"
    and "nowD div 1000 < clk 9 div 1000 + EXCHANGE_TOKEN_TTL_SECONDS"
  shows "\<exists>ctx. authenticateRequest env False nowD nowD' (Some (''Bearer '' @ tok)) = Inr ctx \<and>
      (gateway_service ctx \<and> \<not> (requireAuth \<and> meth \<noteq> ''OPTIONS'') \<or>
       (\<exists>bearer c. bearer_token hdr = Some bearer \<and> validateEdgeToken env (clk 0) False bearer = Inr c \<and>
          fst (admitActorToken env fault (\<lambda>i. clk (Suc i)) bearer c s) \<and>
          ac_subject ctx = toDaemonSubject (tc_sub c) \<and> ac_scopeProfile ctx = tc_scope_profile c \<and>
          ac_actorPrincipalId ctx = sub_actor (tc_sub c) \<and>
          (requireAuth \<and> meth \<noteq> ''OPTIONS'' \<or> tc_scope_profile c = ''oauth_proxy_v1'')))"
proof -
  have fresh: "nowD div 1000 < clk 9 div 1000 + 60" using assms(3) by (simp add: EXCHANGE_TOKEN_TTL_SECONDS_def)
  note ex = exchange_core [OF assms(1) fresh]
  show ?thesis
  proof (cases "requireAuth \<and> meth \<noteq> ''OPTIONS''")
    case True
    then obtain c where "proxy_claims env fault clk hdr s = (Some c, s1)" "tok = mintExchangeToken env (clk 9) jti c (tc_scope_profile c)"
      using assms(2) by (auto simp: proxy_exchange_def split: prod.splits option.splits)
    with proxy_claims_ok [of env fault clk hdr s c s1] ex [of nowD' jti c "tc_scope_profile c"] True show ?thesis by auto
  next
    case False
    obtain g s2 where g: "presentedProxyGrant env fault clk hdr s = (g, s2)" by force
    show ?thesis
    proof (cases g)
      case None
      with False g assms(2) have "tok = mintServiceToken env (clk 9) jti"
        by (auto simp: proxy_exchange_def mintUnauthenticatedExchangeToken_def)
      with service_core [OF assms(1) fresh, of nowD' jti] False show ?thesis by (auto simp: gateway_service_def)
    next
      case (Some c)
      with False g assms(2) have "tok = mintExchangeToken env (clk 9) jti c (tc_scope_profile c)"
        by (auto simp: proxy_exchange_def mintUnauthenticatedExchangeToken_def)
      with proxy_grant_ok [OF g [unfolded Some]] ex [of nowD' jti c "tc_scope_profile c"] show ?thesis by auto
    qed
  qed
qed

theorem proxy_speaks_for_caller_witness:
  "\<exists>ctx. authenticateRequest sample_env False 3000 3000 (Some (''Bearer '' @
        mintExchangeToken sample_env 2000 ''j9'' w_claims (tc_scope_profile w_claims))) = Inr ctx \<and>
      (gateway_service ctx \<and> \<not> (True \<and> ''GET'' \<noteq> ''OPTIONS'') \<or>
       (\<exists>bearer c. bearer_token (Some w_bearer) = Some bearer \<and> validateEdgeToken sample_env 2000 False bearer = Inr c \<and>
          fst (admitActorToken sample_env NoFault (\<lambda>i. 2000) bearer c w_paired) \<and>
          ac_subject ctx = toDaemonSubject (tc_sub c) \<and> ac_scopeProfile ctx = tc_scope_profile c \<and>
          ac_actorPrincipalId ctx = sub_actor (tc_sub c) \<and>
          (True \<and> ''GET'' \<noteq> ''OPTIONS'' \<or> tc_scope_profile c = ''oauth_proxy_v1'')))"
proof (rule proxy_speaks_for_caller [OF sample_laws, where clk = "\<lambda>_. 2000" and requireAuth = True and meth = "''GET''"])
  show "proxy_exchange sample_env True NoFault (\<lambda>_. 2000) ''j9'' ''GET'' (Some w_bearer) w_paired =
      (Some (mintExchangeToken sample_env 2000 ''j9'' w_claims (tc_scope_profile w_claims)),
       snd (admitActorToken sample_env NoFault (\<lambda>i. 2000) (w_token 1000 ''j1'') w_claims w_paired))"
    by (subst proxy_exchange_def, subst proxy_claims_def) (simp add: w_bearer_token w_verified, subst w_admit_pair, simp)
qed (simp add: EXCHANGE_TOKEN_TTL_SECONDS_def)

text \<open>An actor is the same person over both transports, and no header can change it: whatever identity headers the
  client sends, the principal type and the actor the daemon's handlers read are those of the verified claims,
  over IPC and over HTTP alike.\<close>

theorem actor_identity_agrees:
  assumes "token_laws env"
    and "nowD div 1000 < nowX div 1000 + EXCHANGE_TOKEN_TTL_SECONDS"
    and "authenticateRequest env False nowD nowD' (Some (''Bearer '' @ mintExchangeToken env nowX jti c profile)) = Inr ctx"
    and "daemon_principal (tc_sub c) = PrActor"
    and "k \<in> {''x-vellum-principal-type'', ''x-vellum-actor-principal-id''}"
  shows "jm_get (injectLocalActorHeader localActor (ipc_headers (Some c) hs)) k = jm_get (http_headers ctx hs') k"
proof -
  obtain p a where p: "parseSub (tc_sub c) = Inr p" "sb_principalType p = PrActor" "sb_actorPrincipalId p = Some a" "a \<noteq> []"
      "sub_actor (tc_sub c) = Some a"
    using actor_sub [OF assms(4)] by blast
  have fresh: "nowD div 1000 < nowX div 1000 + 60" using assms(2) by (simp add: EXCHANGE_TOKEN_TTL_SECONDS_def)
  have ctx: "ac_principalType ctx = PrActor" "ac_actorPrincipalId ctx = Some a"
    using assms(3,4) p(5) unfolding exchange_core [OF assms(1) fresh] by auto
  show ?thesis
    using assms(5) p by (auto simp: injectLocalActorHeader_def ipc_headers_def http_headers_def ctx jm_get_delete Let_def)
qed

theorem actor_identity_agrees_witness:
  "\<exists>ctx. jm_get (injectLocalActorHeader (Some ''g'') (ipc_headers (Some w_claims) [(''x-vellum-actor-principal-id'', ''evil'')]))
       ''x-vellum-actor-principal-id'' =
     jm_get (http_headers ctx [(''x-vellum-actor-principal-id'', ''eve'')]) ''x-vellum-actor-principal-id''"
proof -
  have "(3000 :: int) div 1000 < 2000 div 1000 + 60" by simp
  from exchange_core [OF sample_laws this, of 3000 "''j9''" w_claims "''actor_client_v1''"] obtain ctx where
    ctx: "authenticateRequest sample_env False 3000 3000 (Some (''Bearer '' @ mintExchangeToken sample_env 2000 ''j9'' w_claims ''actor_client_v1'')) = Inr ctx"
    by blast
  have "daemon_principal (tc_sub w_claims) = PrActor" by (simp add: w_sub daemon_principal_def w_parse)
  from actor_identity_agrees [OF sample_laws _ ctx this, of "''x-vellum-actor-principal-id''"] show ?thesis
    by (auto simp: EXCHANGE_TOKEN_TTL_SECONDS_def)
qed

text \<open>A service borrows the guardian's identity over IPC: for a caller that is not an actor (a service, a local
  session, an unparseable subject) the handlers read the local guardian as the actor over IPC, where the
  adapter means to fill it in for direct callers only; over HTTP they read none.\<close>

theorem ipc_lends_guardian_identity:
  assumes "token_laws env"
    and "nowD div 1000 < nowX div 1000 + EXCHANGE_TOKEN_TTL_SECONDS"
    and "authenticateRequest env False nowD nowD' (Some (''Bearer '' @ mintExchangeToken env nowX jti c profile)) = Inr ctx"
    and "daemon_principal (tc_sub c) \<noteq> PrActor"
    and "g \<noteq> []"
  shows "jm_get (injectLocalActorHeader (Some g) (ipc_headers (Some c) hs)) ''x-vellum-actor-principal-id'' = Some g \<and>
      jm_get (http_headers ctx hs') ''x-vellum-actor-principal-id'' = None"
proof -
  have fresh: "nowD div 1000 < nowX div 1000 + 60" using assms(2) by (simp add: EXCHANGE_TOKEN_TTL_SECONDS_def)
  have ctx: "ac_actorPrincipalId ctx = None"
    using assms(3) non_actor_sub [OF assms(4)] unfolding exchange_core [OF assms(1) fresh] by auto
  have "jm_get (ipc_headers (Some c) hs) ''x-vellum-actor-principal-id'' = None"
    using non_actor_sub [OF assms(4)] by (simp add: ipc_actor_header)
  then show ?thesis
    using assms(5) by (simp add: injectLocalActorHeader_def http_headers_def ctx jm_get_delete Let_def)
qed

theorem ipc_lends_guardian_identity_witness:
  "\<exists>ctx. jm_get (injectLocalActorHeader (Some ''g'') (ipc_headers (Some (w_claims\<lparr>tc_sub := ''svc:gateway:self''\<rparr>)) []))
       ''x-vellum-actor-principal-id'' = Some ''g'' \<and>
     jm_get (http_headers ctx []) ''x-vellum-actor-principal-id'' = None"
proof -
  let ?c = "w_claims\<lparr>tc_sub := ''svc:gateway:self''\<rparr>"
  have "(3000 :: int) div 1000 < 2000 div 1000 + 60" by simp
  from exchange_core [OF sample_laws this, of 3000 "''j9''" ?c "''gateway_service_v1''"] obtain ctx where
    ctx: "authenticateRequest sample_env False 3000 3000 (Some (''Bearer '' @ mintExchangeToken sample_env 2000 ''j9'' ?c ''gateway_service_v1'')) = Inr ctx"
    by blast
  have "daemon_principal (tc_sub ?c) \<noteq> PrActor" by (simp add: daemon_principal_def parse_gateway_self)
  from ipc_lends_guardian_identity [OF sample_laws _ ctx this, of "''g''"] show ?thesis
    by (auto simp: EXCHANGE_TOKEN_TTL_SECONDS_def)
qed

text \<open>What is called over IPC was checked: an operation the IPC proxy hands to the daemon is a route of the cached
  table that matches the request, and the claims pass that very route's policy.\<close>

theorem ipc_call_was_checked:
  assumes "distinct (map rt_operationId entries)"
    and "fst (tryIpcProxy env True fault clk decode entries meth pathname hs s) = IpcCall operation params headers"
    and "meth \<noteq> ''OPTIONS''"
  shows "\<exists>r c bearer. matchRoute decode entries meth (drop 4 pathname) = RouteMatched r params \<and> rt_operationId r = operation \<and>
      bearer_token (jm_get hs ''authorization'') = Some bearer \<and> validateEdgeToken env (clk 0) False bearer = Inr c \<and>
      fst (admitActorToken env fault (\<lambda>i. clk (Suc i)) bearer c s) \<and>
      enforceRoutePolicy (rt_policy r) (Some c) = None \<and> headers = ipc_headers (Some c) hs"
proof -
  obtain c s1 where c: "proxy_claims env fault clk (jm_get hs ''authorization'') s = (Some c, s1)"
      "ipc_dispatch decode entries meth pathname hs (Some c) = IpcCall operation params headers"
    using assms(2,3) by (auto simp: tryIpcProxy_def split: if_splits prod.splits option.splits)
  then obtain r policy where r: "matchRoute decode entries meth (drop 4 pathname) = RouteMatched r params"
      "getCachedRoutePolicy entries (rt_operationId r) = Some policy" "enforceRoutePolicy policy (Some c) = None"
      "rt_operationId r = operation" "headers = ipc_headers (Some c) hs"
    by (auto simp: ipc_dispatch_def split: if_splits route_match.splits option.splits)
  have "r \<in> set entries" using first_route_found [OF r(1) [unfolded matchRoute_def]] by blast
  then have "policy = rt_policy r" using policy_lookup [OF assms(1)] r(2) by simp
  with r proxy_claims_ok [OF c(1)] show ?thesis by blast
qed

theorem ipc_call_was_checked_witness:
  "\<exists>r c bearer. matchRoute Some [search_route] ''GET'' (drop 4 ''/v1/conversations/search'') = RouteMatched r [] \<and>
      rt_operationId r = ''conversations_search'' \<and>
      bearer_token (jm_get [(''authorization'', w_bearer), (''x-vellum-proxy-server'', ''ipc'')] ''authorization'') = Some bearer \<and>
      validateEdgeToken sample_env 2000 False bearer = Inr c \<and>
      fst (admitActorToken sample_env NoFault (\<lambda>i. 2000) bearer c w_paired) \<and>
      enforceRoutePolicy (rt_policy r) (Some c) = None \<and>
      ipc_headers (Some w_claims) [(''authorization'', w_bearer), (''x-vellum-proxy-server'', ''ipc'')] =
        ipc_headers (Some c) [(''authorization'', w_bearer), (''x-vellum-proxy-server'', ''ipc'')]"
proof (rule ipc_call_was_checked [where clk = "\<lambda>_. 2000" and fault = NoFault])
  let ?hs = "[(''authorization'', w_bearer), (''x-vellum-proxy-server'', ''ipc'')]"
  have "matchRoute Some [search_route] ''GET'' (drop 4 ''/v1/conversations/search'') = RouteMatched search_route []" by code_simp
  moreover have "enforceRoutePolicy None (Some w_claims) = None"
    by (simp add: enforceRoutePolicy_def names_no_scope_def w_sub isNarrowScopeProfile_def BROAD_SCOPE_PROFILES_def)
  ultimately have "ipc_dispatch Some [search_route] ''GET'' ''/v1/conversations/search'' ?hs (Some w_claims) =
      IpcCall ''conversations_search'' [] (ipc_headers (Some w_claims) ?hs)"
    by (simp add: ipc_dispatch_def starts_with_def getCachedRoutePolicy_def) (simp add: search_route_def)
  then show "fst (tryIpcProxy sample_env True NoFault (\<lambda>_. 2000) Some [search_route] ''GET'' ''/v1/conversations/search'' ?hs w_paired) =
      IpcCall ''conversations_search'' [] (ipc_headers (Some w_claims) ?hs)"
    by (subst tryIpcProxy_def, subst proxy_claims_def) (simp add: w_bearer_token w_verified, subst w_admit_pair, simp)
qed simp_all

end
