(* ===== verification/Contacts.thy ===== *)
theory Contacts
  imports Prelude
begin

text \<open>
  The contacts and their channels, the gateway's authority on who may speak to the assistant: the rows
  (\<^verbatim>\<open>db/schema.ts\<close>), the canonical form of an address (\<^verbatim>\<open>verification/identity.ts\<close>), the ladder of
  provenance (\<^verbatim>\<open>binding-strength-contract.ts\<close>) and the writes of \<^verbatim>\<open>db/contact-store.ts\<close>.

  \<^item> A table is the list of its rows in insertion order, as for the token tables. \<open>INSERT\<close> is \<open>None\<close> where a
    primary key or the unique index on \<open>(type, address)\<close> refuses it; that index compares addresses exactly, the
    lookups compare them up to the case of ASCII letters (\<open>COLLATE NOCASE\<close>).
  \<^item> Of the invites only the column \<open>contact_id\<close> is kept, which is what the orphan collection reads.
  \<^item> What a handler reads from the daemon's mirror, random identifiers and the clock are arguments.
  \<^item> \<open>directory_ok\<close> is the consistency of the two tables: keys are unique, channels up to the case of their
    address, and each channel belongs to a contact. Every write keeps it.
\<close>

section \<open>Addresses\<close>

datatype identity_kind = PhoneIdentity | EmailIdentity | OpaqueIdentity

text \<open>\<open>replace(/\(0\)/g, "")\<close>.\<close>

fun drop_trunk_zero :: "string \<Rightarrow> string" where
  "drop_trunk_zero (a # b # c # s) =
     (if [a, b, c] = ''(0)'' then drop_trunk_zero s else a # drop_trunk_zero (b # c # s))"
| "drop_trunk_zero s = s"

definition normalizePhoneNumber :: "string \<Rightarrow> string option" where
  "normalizePhoneNumber input =
     (let stripped = filter (\<lambda>c. \<not> (js_space c \<or> c \<in> set ''-().'')) (drop_trunk_zero input)
      in if stripped = [] then None
         else if hd stripped = CHR ''+''
         then (if list_all ascii_digit (tl stripped) \<and> 10 \<le> length (tl stripped) \<and> length (tl stripped) \<le> 15
               then Some stripped else None)
         else if \<not> list_all ascii_digit stripped then None
         else if length stripped = 10 then Some (''+1'' @ stripped)
         else if length stripped = 11 \<and> hd stripped = CHR ''1'' then Some (''+'' @ stripped)
         else None)"

definition identityKindFor :: "string \<Rightarrow> identity_kind" where
  "identityKindFor channel =
     (if channel \<in> {''phone'', ''whatsapp''} then PhoneIdentity
      else if channel = ''email'' then EmailIdentity else OpaqueIdentity)"

definition canonicalizeIdentityAs :: "identity_kind \<Rightarrow> string \<Rightarrow> string option" where
  "canonicalizeIdentityAs kind rawId =
     (let trimmed = js_trim rawId
      in if trimmed = [] then None
         else
           case kind of
             PhoneIdentity \<Rightarrow> (case normalizePhoneNumber trimmed of Some n \<Rightarrow> Some n | None \<Rightarrow> Some trimmed)
           | EmailIdentity \<Rightarrow> Some (map ascii_lower trimmed)
           | OpaqueIdentity \<Rightarrow> Some trimmed)"

definition canonicalizeInboundIdentity :: "string \<Rightarrow> string \<Rightarrow> string option" where
  "canonicalizeInboundIdentity channel rawId = canonicalizeIdentityAs (identityKindFor channel) rawId"

definition canonicalSenderIdFor :: "string \<Rightarrow> string option \<Rightarrow> string option" where
  "canonicalSenderIdFor channel actorExternalId =
     (case actorExternalId of
        None \<Rightarrow> None
      | Some a \<Rightarrow> if js_trim a = [] then None else canonicalizeInboundIdentity channel (js_trim a))"

text \<open>\<open>canonicalizeInboundIdentity(channel, raw) ?? raw\<close>.\<close>

definition canonical_address :: "string \<Rightarrow> string \<Rightarrow> string" where
  "canonical_address channel raw =
     (case canonicalizeInboundIdentity channel raw of Some a \<Rightarrow> a | None \<Rightarrow> raw)"

section \<open>Provenance\<close>

definition PROVEN_VERIFIED_VIA :: "string list" where
  "PROVEN_VERIFIED_VIA =
     [''challenge'', ''invite'', ''voice'', ''bootstrap'', ''platform_auto_register'', ''webhook_registration'']"

definition knownStrengthRank :: "string option \<Rightarrow> nat option" where
  "knownStrengthRank verifiedVia =
     (case verifiedVia of
        None \<Rightarrow> Some 0
      | Some v \<Rightarrow>
          if v = [] then Some 0
          else if v \<in> set PROVEN_VERIFIED_VIA then Some 3
          else if v = ''manual'' then Some 2
          else if v = ''manual_channel_claim'' then Some 1
          else None)"

definition isBindingDemotion :: "string option \<Rightarrow> string option \<Rightarrow> bool" where
  "isBindingDemotion existingVia incomingVia =
     (case (knownStrengthRank existingVia, knownStrengthRank incomingVia) of
        (Some existing, Some incoming) \<Rightarrow> incoming < existing
      | _ \<Rightarrow> False)"

section \<open>The tables\<close>

datatype contact_role = RoleContact | RoleGuardian

datatype channel_status = ChActive | ChPending | ChUnverified | ChRevoked | ChBlocked

record contact_row =
  ct_id :: string
  ct_displayName :: string
  ct_role :: contact_role
  ct_principalId :: "string option"
  ct_autoApproveThreshold :: "string option"
  ct_createdAt :: int
  ct_updatedAt :: int

record channel_row =
  cc_id :: string
  cc_contactId :: string
  cc_type :: string
  cc_address :: string
  cc_isPrimary :: bool
  cc_externalChatId :: "string option"
  cc_status :: channel_status
  cc_policy :: string
  cc_verifiedAt :: "int option"
  cc_verifiedVia :: "string option"
  cc_inviteId :: "string option"
  cc_revokedReason :: "string option"
  cc_blockedReason :: "string option"
  cc_lastSeenAt :: "int option"
  cc_interactionCount :: nat
  cc_lastInteraction :: "int option"
  cc_createdAt :: int
  cc_updatedAt :: "int option"

record contact_db =
  contactRows :: "contact_row list"
  channelRows :: "channel_row list"
  inviteContactIds :: "string list"

definition nocase :: "string \<Rightarrow> string" where
  "nocase s = map ascii_lower s"

definition same_key :: "string \<Rightarrow> string \<Rightarrow> channel_row \<Rightarrow> bool" where
  "same_key t a r = (cc_type r = t \<and> nocase (cc_address r) = nocase a)"

definition channel_key :: "channel_row \<Rightarrow> string \<times> string" where
  "channel_key r = (cc_type r, nocase (cc_address r))"

definition find_channel :: "string \<Rightarrow> string \<Rightarrow> contact_db \<Rightarrow> channel_row option" where
  "find_channel t a db = find (same_key t a) (channelRows db)"

definition channel_by_id :: "string \<Rightarrow> contact_db \<Rightarrow> channel_row option" where
  "channel_by_id i db = find (\<lambda>r. cc_id r = i) (channelRows db)"

definition contact_by_id :: "string \<Rightarrow> contact_db \<Rightarrow> contact_row option" where
  "contact_by_id i db = find (\<lambda>c. ct_id c = i) (contactRows db)"

definition has_contact :: "string \<Rightarrow> contact_db \<Rightarrow> bool" where
  "has_contact i db = list_ex (\<lambda>c. ct_id c = i) (contactRows db)"

definition insert_contact :: "contact_row \<Rightarrow> contact_db \<Rightarrow> contact_db option" where
  "insert_contact c db = (if has_contact (ct_id c) db then None else Some (db\<lparr>contactRows := contactRows db @ [c]\<rparr>))"

text \<open>A conflict on the primary key or on the unique index.\<close>

definition channel_conflict :: "channel_row \<Rightarrow> contact_db \<Rightarrow> bool" where
  "channel_conflict r db =
     list_ex (\<lambda>x. cc_id x = cc_id r \<or> (cc_type x = cc_type r \<and> cc_address x = cc_address r)) (channelRows db)"

definition insert_channel :: "channel_row \<Rightarrow> contact_db \<Rightarrow> contact_db option" where
  "insert_channel r db =
     (if channel_conflict r db \<or> \<not> has_contact (cc_contactId r) db then None
      else Some (db\<lparr>channelRows := channelRows db @ [r]\<rparr>))"

text \<open>An update that writes addresses: \<open>None\<close> where the unique index refuses the rows.\<close>

definition update_channels ::
  "(channel_row \<Rightarrow> bool) \<Rightarrow> (channel_row \<Rightarrow> channel_row) \<Rightarrow> contact_db \<Rightarrow> contact_db option" where
  "update_channels p f db =
     (let rows = update_where p f (channelRows db)
      in if distinct (map (\<lambda>r. (cc_type r, cc_address r)) rows) then Some (db\<lparr>channelRows := rows\<rparr>) else None)"

definition set_channels :: "(channel_row \<Rightarrow> bool) \<Rightarrow> (channel_row \<Rightarrow> channel_row) \<Rightarrow> contact_db \<Rightarrow> contact_db" where
  "set_channels p f db = db\<lparr>channelRows := update_where p f (channelRows db)\<rparr>"

definition set_contacts :: "(contact_row \<Rightarrow> bool) \<Rightarrow> (contact_row \<Rightarrow> contact_row) \<Rightarrow> contact_db \<Rightarrow> contact_db" where
  "set_contacts p f db = db\<lparr>contactRows := update_where p f (contactRows db)\<rparr>"

text \<open>Deleting a contact cascades to its channels and its invites.\<close>

definition delete_contact :: "string \<Rightarrow> contact_db \<Rightarrow> contact_db" where
  "delete_contact i db =
     db\<lparr>contactRows := filter (\<lambda>c. ct_id c \<noteq> i) (contactRows db),
        channelRows := filter (\<lambda>r. cc_contactId r \<noteq> i) (channelRows db),
        inviteContactIds := filter (\<lambda>c. c \<noteq> i) (inviteContactIds db)\<rparr>"

section \<open>Seeding and ownership\<close>

definition new_contact :: "string \<Rightarrow> string \<Rightarrow> string option \<Rightarrow> int \<Rightarrow> contact_row" where
  "new_contact i name threshold now =
     \<lparr>ct_id = i, ct_displayName = name, ct_role = RoleContact, ct_principalId = None, ct_autoApproveThreshold = threshold,
      ct_createdAt = now, ct_updatedAt = now\<rparr>"

definition ensureContactRow :: "string \<Rightarrow> string \<Rightarrow> int \<Rightarrow> contact_db \<Rightarrow> contact_db" where
  "ensureContactRow i name now db =
     (if has_contact i db then db else db\<lparr>contactRows := contactRows db @ [new_contact i name None now]\<rparr>)"

definition reassignChannelOwner ::
  "string \<Rightarrow> string \<Rightarrow> string \<Rightarrow> string \<Rightarrow> int \<Rightarrow> contact_db \<Rightarrow> string option \<times> contact_db" where
  "reassignChannelOwner t a toContactId name now db =
     (let db1 = ensureContactRow toContactId name now db
      in case find_channel t a db1 of
           None \<Rightarrow> (None, db1)
         | Some current \<Rightarrow>
             if cc_contactId current = toContactId then (None, db1)
             else (Some (cc_contactId current),
                   set_channels (same_key t a) (\<lambda>r. r\<lparr>cc_contactId := toContactId, cc_updatedAt := Some now\<rparr>) db1))"

datatype seed_result = SeedExisting string string | SeedCreated string string | SeedBlocked

definition refresh_identity :: "string \<Rightarrow> string option \<Rightarrow> int \<Rightarrow> string \<Rightarrow> contact_db \<Rightarrow> contact_db option" where
  "refresh_identity a externalChatId now channelId db =
     update_channels (\<lambda>r. cc_id r = channelId)
       (\<lambda>r. r\<lparr>cc_address := a,
              cc_externalChatId := (case externalChatId of
                                      None \<Rightarrow> cc_externalChatId r
                                    | Some e \<Rightarrow> if e = [] then cc_externalChatId r else Some e),
              cc_updatedAt := Some now\<rparr>) db"

definition seed_existing ::
  "string \<Rightarrow> string option \<Rightarrow> int \<Rightarrow> channel_row \<Rightarrow> contact_db \<Rightarrow> (seed_result \<times> contact_db) option" where
  "seed_existing a externalChatId now existing db =
     (if cc_status existing = ChBlocked then Some (SeedBlocked, db)
      else map_option (Pair (SeedExisting (cc_contactId existing) (cc_id existing)))
             (refresh_identity a externalChatId now (cc_id existing) db))"

definition seeded_channel :: "string \<Rightarrow> string \<Rightarrow> string \<Rightarrow> string \<Rightarrow> string option \<Rightarrow> int \<Rightarrow> channel_row" where
  "seeded_channel channelId contactId t a externalChatId now =
     \<lparr>cc_id = channelId, cc_contactId = contactId, cc_type = t, cc_address = a, cc_isPrimary = False,
      cc_externalChatId = externalChatId, cc_status = ChUnverified, cc_policy = ''allow'', cc_verifiedAt = None,
      cc_verifiedVia = None, cc_inviteId = None, cc_revokedReason = None, cc_blockedReason = None, cc_lastSeenAt = None,
      cc_interactionCount = 0, cc_lastInteraction = None, cc_createdAt = now, cc_updatedAt = Some now\<rparr>"

text \<open>One transaction; \<open>None\<close> is its failure, which rolls it back.\<close>

definition seedInboundChannel ::
  "string \<Rightarrow> string \<Rightarrow> string \<Rightarrow> string \<Rightarrow> string option \<Rightarrow> string \<Rightarrow> int \<Rightarrow> contact_db \<Rightarrow>
     (seed_result \<times> contact_db) option" where
  "seedInboundChannel contactId channelId t a externalChatId name now db =
     (case find_channel t a db of
        Some existing \<Rightarrow> seed_existing a externalChatId now existing db
      | None \<Rightarrow>
          (case insert_contact (new_contact contactId name None now) db of
             None \<Rightarrow> None
           | Some db1 \<Rightarrow>
               (case insert_channel (seeded_channel channelId contactId t a externalChatId now) db1 of
                  Some db2 \<Rightarrow> Some (SeedCreated contactId channelId, db2)
                | None \<Rightarrow>
                    let db2 = delete_contact contactId db1
                    in case find_channel t a db2 of
                         None \<Rightarrow> Some (SeedBlocked, db2)
                       | Some raced \<Rightarrow> seed_existing a externalChatId now raced db2)))"

section \<open>Status of a channel\<close>

datatype channel_error = CannotRevokeBlocked | CannotDowngradeGuardian

text \<open>\<open>mirror\<close>: the key the daemon has for the id, asked only where the gateway has no row of that id.\<close>

definition resolveGatewayChannel :: "(string \<times> string) option \<Rightarrow> string \<Rightarrow> contact_db \<Rightarrow> channel_row option" where
  "resolveGatewayChannel mirror channelId db =
     (case channel_by_id channelId db of
        Some r \<Rightarrow> Some r
      | None \<Rightarrow> (case mirror of None \<Rightarrow> None | Some (t, a) \<Rightarrow> find_channel t a db))"

definition with_status :: "channel_status \<Rightarrow> string option \<Rightarrow> channel_row \<Rightarrow> channel_row" where
  "with_status status reason r =
     r\<lparr>cc_status := status,
       cc_revokedReason := (if status = ChRevoked then reason else None),
       cc_blockedReason := (if status = ChBlocked then reason else None)\<rparr>"

definition updateChannelStatus ::
  "(string \<times> string) option \<Rightarrow> string \<Rightarrow> channel_status option \<Rightarrow> string option \<Rightarrow> string option \<Rightarrow> int \<Rightarrow> contact_db \<Rightarrow>
     (channel_error + channel_row option) \<times> contact_db" where
  "updateChannelStatus mirror channelId status policy reason now db =
     (case resolveGatewayChannel mirror channelId db of
        None \<Rightarrow> (Inr None, db)
      | Some ch \<Rightarrow>
          if status = Some ChRevoked \<and> cc_status ch = ChBlocked then (Inl CannotRevokeBlocked, db)
          else
            let db1 = set_channels (\<lambda>r. cc_id r = cc_id ch)
                        (\<lambda>r. (case policy of None \<Rightarrow> id | Some p \<Rightarrow> (\<lambda>x. x\<lparr>cc_policy := p\<rparr>))
                               ((case status of None \<Rightarrow> id | Some st \<Rightarrow> with_status st reason) (r\<lparr>cc_updatedAt := Some now\<rparr>))) db
            in (Inr (channel_by_id (cc_id ch) db1), db1))"

definition touchChannelLastSeen :: "string \<Rightarrow> int \<Rightarrow> contact_db \<Rightarrow> contact_db" where
  "touchChannelLastSeen channelId now db =
     set_channels (\<lambda>r. cc_id r = channelId) (\<lambda>r. r\<lparr>cc_lastSeenAt := Some now, cc_updatedAt := Some now\<rparr>) db"

definition touchContactInteraction :: "string \<Rightarrow> int \<Rightarrow> contact_db \<Rightarrow> contact_db" where
  "touchContactInteraction channelId now db =
     set_channels (\<lambda>r. cc_id r = channelId)
       (\<lambda>r. r\<lparr>cc_lastInteraction := Some now, cc_interactionCount := Suc (cc_interactionCount r), cc_updatedAt := Some now\<rparr>) db"

text \<open>The row and whether this call wrote it. \<open>verifiedVia\<close> is \<open>challenge\<close> or \<open>manual\<close>.\<close>

definition markChannelVerified ::
  "(string \<times> string) option \<Rightarrow> string \<Rightarrow> string \<Rightarrow> int \<Rightarrow> contact_db \<Rightarrow> (channel_row \<times> bool) option \<times> contact_db" where
  "markChannelVerified mirror channelId verifiedVia now db =
     (case resolveGatewayChannel mirror channelId db of
        None \<Rightarrow> (None, db)
      | Some ch \<Rightarrow>
          if cc_status ch = ChActive \<and> isBindingDemotion (cc_verifiedVia ch) (Some verifiedVia) then (Some (ch, False), db)
          else
            let stale = (\<lambda>r. cc_id r = cc_id ch \<and> (cc_status r \<noteq> ChActive \<or> cc_verifiedVia r \<noteq> Some verifiedVia));
                db1 = set_channels stale
                        (\<lambda>r. r\<lparr>cc_status := ChActive, cc_verifiedAt := Some now, cc_verifiedVia := Some verifiedVia,
                               cc_updatedAt := Some now\<rparr>) db
            in (map_option (\<lambda>after. (after, list_ex stale (channelRows db))) (channel_by_id (cc_id ch) db1), db1))"

definition GUARDIAN_BINDING_REVOKE_REASON :: string where
  "GUARDIAN_BINDING_REVOKE_REASON = ''guardian_binding_revoked''"

definition markChannelRevokedById ::
  "string \<Rightarrow> string option \<Rightarrow> int \<Rightarrow> contact_db \<Rightarrow> (channel_error + (channel_row \<times> bool) option) \<times> contact_db" where
  "markChannelRevokedById gwChannelId reason now db =
     (case channel_by_id gwChannelId db of
        None \<Rightarrow> (Inr None, db)
      | Some ch \<Rightarrow>
          if (case contact_by_id (cc_contactId ch) db of None \<Rightarrow> False | Some c \<Rightarrow> ct_role c = RoleGuardian) \<and>
             reason \<noteq> Some GUARDIAN_BINDING_REVOKE_REASON then (Inl CannotDowngradeGuardian, db)
          else if cc_status ch = ChBlocked then (Inr (Some (ch, False)), db)
          else if cc_status ch = ChRevoked \<and> cc_revokedReason ch = reason then (Inr (Some (ch, False)), db)
          else
            let db1 = set_channels (\<lambda>r. cc_id r = gwChannelId)
                        (\<lambda>r. r\<lparr>cc_status := ChRevoked, cc_revokedReason := reason, cc_blockedReason := None,
                               cc_updatedAt := Some now\<rparr>) db
            in (Inr (map_option (\<lambda>after. (after, True)) (channel_by_id gwChannelId db1)), db1))"

definition markChannelRevoked ::
  "(string \<times> string) option \<Rightarrow> string \<Rightarrow> string option \<Rightarrow> int \<Rightarrow> contact_db \<Rightarrow>
     (channel_error + (channel_row \<times> bool) option) \<times> contact_db" where
  "markChannelRevoked mirror channelId reason now db =
     (case resolveGatewayChannel mirror channelId db of
        None \<Rightarrow> (Inr None, db)
      | Some ch \<Rightarrow> markChannelRevokedById (cc_id ch) reason now db)"

section \<open>Upserting a contact\<close>

text \<open>\<open>None\<close> is an absent field, which preserves the stored value.\<close>

record channel_input =
  ci_id :: "string option"
  ci_type :: string
  ci_address :: string
  ci_isPrimary :: "bool option"
  ci_externalChatId :: "string option"
  ci_status :: "channel_status option"
  ci_policy :: "string option"
  ci_verifiedAt :: "int option option"
  ci_verifiedVia :: "string option option"
  ci_inviteId :: "string option option"
  ci_revokedReason :: "string option option"
  ci_blockedReason :: "string option option"

record upsert_params =
  up_id :: "string option"
  up_displayName :: "string option"
  up_autoApproveThreshold :: "string option option"
  up_channels :: "channel_input list option"

definition given :: "'a option \<Rightarrow> 'a \<Rightarrow> 'a" where
  "given v old = (case v of None \<Rightarrow> old | Some x \<Rightarrow> x)"

definition merge_channel :: "channel_input \<Rightarrow> int \<Rightarrow> channel_row \<Rightarrow> channel_row" where
  "merge_channel ch now r =
     (let isBlocked = (cc_status r = ChBlocked);
          demotes = (cc_status r = ChActive \<and>
                     (case ci_verifiedVia ch of None \<Rightarrow> False | Some v \<Rightarrow> isBindingDemotion (cc_verifiedVia r) v))
      in r\<lparr>cc_updatedAt := Some now,
           cc_isPrimary := given (ci_isPrimary ch) (cc_isPrimary r),
           cc_externalChatId := given (map_option Some (ci_externalChatId ch)) (cc_externalChatId r),
           cc_status := (if isBlocked then cc_status r else given (ci_status ch) (cc_status r)),
           cc_policy := (if isBlocked then cc_policy r else given (ci_policy ch) (cc_policy r)),
           cc_revokedReason := (if isBlocked then cc_revokedReason r else given (ci_revokedReason ch) (cc_revokedReason r)),
           cc_blockedReason := (if isBlocked then cc_blockedReason r else given (ci_blockedReason ch) (cc_blockedReason r)),
           cc_verifiedAt := (if demotes then cc_verifiedAt r else given (ci_verifiedAt ch) (cc_verifiedAt r)),
           cc_verifiedVia := (if demotes then cc_verifiedVia r else given (ci_verifiedVia ch) (cc_verifiedVia r)),
           cc_inviteId := given (ci_inviteId ch) (cc_inviteId r)\<rparr>)"

definition input_channel :: "string \<Rightarrow> string \<Rightarrow> channel_input \<Rightarrow> int \<Rightarrow> channel_row" where
  "input_channel uuid contactId ch now =
     \<lparr>cc_id = given (ci_id ch) uuid, cc_contactId = contactId, cc_type = ci_type ch, cc_address = ci_address ch,
      cc_isPrimary = given (ci_isPrimary ch) False, cc_externalChatId = ci_externalChatId ch,
      cc_status = given (ci_status ch) ChUnverified, cc_policy = given (ci_policy ch) ''allow'',
      cc_verifiedAt = given (ci_verifiedAt ch) None, cc_verifiedVia = given (ci_verifiedVia ch) None,
      cc_inviteId = given (ci_inviteId ch) None, cc_revokedReason = given (ci_revokedReason ch) None,
      cc_blockedReason = given (ci_blockedReason ch) None, cc_lastSeenAt = None, cc_interactionCount = 0,
      cc_lastInteraction = None, cc_createdAt = now, cc_updatedAt = Some now\<rparr>"

definition sync_channel :: "string \<Rightarrow> string \<Rightarrow> int \<Rightarrow> channel_input \<Rightarrow> contact_db \<Rightarrow> contact_db option" where
  "sync_channel uuid contactId now ch db =
     (case find (\<lambda>r. cc_contactId r = contactId \<and> same_key (ci_type ch) (ci_address ch) r) (channelRows db) of
        Some existing \<Rightarrow> Some (set_channels (\<lambda>r. cc_id r = cc_id existing) (\<lambda>_. merge_channel ch now existing) db)
      | None \<Rightarrow>
          if find_channel (ci_type ch) (ci_address ch) db \<noteq> None then Some db
          else insert_channel (input_channel uuid contactId ch now) db)"

text \<open>\<open>uuids i\<close> is the identifier minted for the \<open>i\<close>-th channel; the flag is False where an insert throws, with
  what was written before it.\<close>

fun syncChannels :: "(nat \<Rightarrow> string) \<Rightarrow> string \<Rightarrow> int \<Rightarrow> channel_input list \<Rightarrow> contact_db \<Rightarrow> bool \<times> contact_db" where
  "syncChannels uuids contactId now [] db = (True, db)"
| "syncChannels uuids contactId now (ch # chs) db =
     (case sync_channel (uuids 0) contactId now ch db of
        None \<Rightarrow> (False, db)
      | Some db1 \<Rightarrow> syncChannels (\<lambda>i. uuids (Suc i)) contactId now chs db1)"

definition update_contact :: "upsert_params \<Rightarrow> int \<Rightarrow> string \<Rightarrow> contact_db \<Rightarrow> contact_db" where
  "update_contact p now i db =
     set_contacts (\<lambda>c. ct_id c = i)
       (\<lambda>c. c\<lparr>ct_updatedAt := now, ct_displayName := given (up_displayName p) (ct_displayName c),
              ct_autoApproveThreshold := given (up_autoApproveThreshold p) (ct_autoApproveThreshold c)\<rparr>) db"

text \<open>The contact a call writes to and whether it is created; \<open>None\<close> where the insert throws.\<close>

definition upsert_target ::
  "string \<Rightarrow> upsert_params \<Rightarrow> channel_input list \<Rightarrow> int \<Rightarrow> contact_db \<Rightarrow> (string \<times> bool \<times> contact_db) option" where
  "upsert_target uuid p chans now db =
     (let name = given (up_displayName p) (case chans of [] \<Rightarrow> ''Unknown'' | ch # _ \<Rightarrow> ci_address ch);
          create = (\<lambda>i. map_option (\<lambda>db1. (i, True, db1)) (insert_contact (new_contact i name (given (up_autoApproveThreshold p) None) now) db));
          given_id = (case up_id p of None \<Rightarrow> None | Some i \<Rightarrow> if i = [] then None else Some i)
      in case given_id of
           Some i \<Rightarrow> if has_contact i db then Some (i, False, update_contact p now i db) else create i
         | None \<Rightarrow>
             (case first_some (\<lambda>ch. map_option cc_contactId (find_channel (ci_type ch) (ci_address ch) db)) chans of
                Some i \<Rightarrow> Some (i, False, update_contact p now i db)
              | None \<Rightarrow> create uuid))"

definition upsertContactGatewayWrites ::
  "string \<Rightarrow> (nat \<Rightarrow> string) \<Rightarrow> upsert_params \<Rightarrow> int \<Rightarrow> contact_db \<Rightarrow> (string \<times> bool) option \<times> contact_db" where
  "upsertContactGatewayWrites uuid uuids p now db =
     (let chans = map (\<lambda>ch. ch\<lparr>ci_address := canonical_address (ci_type ch) (ci_address ch)\<rparr>) (given (up_channels p) [])
      in case upsert_target uuid p chans now db of
           None \<Rightarrow> (None, db)
         | Some (i, created, db1) \<Rightarrow>
             (case syncChannels uuids i now chans db1 of
                (ok, db2) \<Rightarrow> (if ok then Some (i, created) else None, db2)))"

section \<open>Merging and collecting contacts\<close>

datatype merge_error = MergeWithItself | MergeNotFound string | MergeGuardian

text \<open>The channels of the donor, those the survivor has already left to be deleted with it.\<close>

fun move_channels :: "string \<Rightarrow> int \<Rightarrow> channel_row list \<Rightarrow> contact_db \<Rightarrow> contact_db" where
  "move_channels keepId now [] db = db"
| "move_channels keepId now (ch # chs) db =
     move_channels keepId now chs
       (if list_ex (\<lambda>r. cc_contactId r = keepId \<and> same_key (cc_type ch) (cc_address ch) r) (channelRows db) then db
        else set_channels (\<lambda>r. cc_id r = cc_id ch) (\<lambda>r. r\<lparr>cc_contactId := keepId, cc_updatedAt := Some now\<rparr>) db)"

definition mergeContacts :: "string \<Rightarrow> string \<Rightarrow> int \<Rightarrow> contact_db \<Rightarrow> (merge_error + unit) \<times> contact_db" where
  "mergeContacts keepId mergeId now db =
     (if keepId = mergeId then (Inl MergeWithItself, db)
      else if \<not> has_contact keepId db then (Inl (MergeNotFound keepId), db)
      else
        case contact_by_id mergeId db of
          None \<Rightarrow> (Inl (MergeNotFound mergeId), db)
        | Some m \<Rightarrow>
            if ct_role m = RoleGuardian then (Inl MergeGuardian, db)
            else
              let db1 = set_contacts (\<lambda>c. ct_id c = keepId) (\<lambda>c. c\<lparr>ct_updatedAt := now\<rparr>) db
              in (Inr (), delete_contact mergeId
                    (move_channels keepId now (filter (\<lambda>r. cc_contactId r = mergeId) (channelRows db1)) db1)))"

definition orphaned :: "string \<Rightarrow> contact_db \<Rightarrow> bool" where
  "orphaned i db =
     (list_ex (\<lambda>c. ct_id c = i \<and> ct_role c = RoleContact \<and> ct_principalId c = None \<and> ct_autoApproveThreshold c = None)
        (contactRows db) \<and>
      \<not> list_ex (\<lambda>r. cc_contactId r = i) (channelRows db) \<and> i \<notin> set (inviteContactIds db))"

text \<open>\<open>eligible\<close> is the first inspection, \<open>vetoed\<close> the verdict of the mirror's row (or of a failed inspection) that
  is awaited after it; the statement that deletes tests everything again.\<close>

definition deleteContactIfOrphaned :: "bool \<Rightarrow> bool \<Rightarrow> string \<Rightarrow> contact_db \<Rightarrow> contact_db" where
  "deleteContactIfOrphaned eligible vetoed i db =
     (if eligible \<and> \<not> vetoed \<and> orphaned i db then delete_contact i db else db)"

section \<open>Consistency of the tables\<close>

definition directory_ok :: "contact_db \<Rightarrow> bool" where
  "directory_ok db =
     (distinct (map ct_id (contactRows db)) \<and> distinct (map cc_id (channelRows db)) \<and>
      distinct (map channel_key (channelRows db)) \<and>
      list_all (\<lambda>r. has_contact (cc_contactId r) db) (channelRows db))"

named_theorems directory_intros

lemma has_contact_iff: "has_contact i db \<longleftrightarrow> i \<in> ct_id ` set (contactRows db)"
  by (auto simp: has_contact_def list_ex_iff)

lemma channel_same_key: "same_key t a r \<longleftrightarrow> channel_key r = (t, nocase a)"
  by (auto simp: same_key_def channel_key_def)

lemma channel_key_exact: "channel_key r \<noteq> channel_key x \<Longrightarrow> \<not> (cc_type r = cc_type x \<and> cc_address r = cc_address x)"
  by (auto simp: channel_key_def)

lemma directory_rowD:
  assumes "directory_ok db" "r \<in> set (channelRows db)" "x \<in> set (channelRows db)"
  shows "cc_id r = cc_id x \<Longrightarrow> r = x" "channel_key r = channel_key x \<Longrightarrow> r = x" "has_contact (cc_contactId r) db"
  using assms by (auto simp: directory_ok_def distinct_map inj_on_def list_all_iff)

lemma find_someD: "find p xs = Some x \<Longrightarrow> x \<in> set xs \<and> p x"
  by (auto simp: find_Some_iff)

lemma find_channelD: "find_channel t a db = Some r \<Longrightarrow> r \<in> set (channelRows db) \<and> channel_key r = (t, nocase a)"
  by (auto simp: find_channel_def channel_same_key dest: find_someD)

lemma find_channel_None: "find_channel t a db = None \<longleftrightarrow> (\<forall>r \<in> set (channelRows db). channel_key r \<noteq> (t, nocase a))"
  by (auto simp: find_channel_def channel_same_key find_None_iff)

lemma find_unique:
  assumes "x \<in> set xs" "p x" "\<And>y. y \<in> set xs \<Longrightarrow> p y \<Longrightarrow> y = x"
  shows "find p xs = Some x"
proof (cases "find p xs")
  case None
  with assms(1,2) show ?thesis by (auto simp: find_None_iff)
next
  case (Some y)
  with find_someD [OF Some] assms(3) show ?thesis by auto
qed

lemma find_channel_in: "directory_ok db \<Longrightarrow> r \<in> set (channelRows db) \<Longrightarrow> find_channel (cc_type r) (cc_address r) db = Some r"
  unfolding find_channel_def by (rule find_unique) (auto simp: channel_same_key channel_key_def dest: directory_rowD(2))

lemma channel_by_idD: "channel_by_id i db = Some r \<Longrightarrow> r \<in> set (channelRows db) \<and> cc_id r = i"
  by (auto simp: channel_by_id_def dest: find_someD)

lemma set_channels_rows [simp]:
  "contactRows (set_channels p f db) = contactRows db" "channelRows (set_channels p f db) = update_where p f (channelRows db)"
  "inviteContactIds (set_channels p f db) = inviteContactIds db"
  by (simp_all add: set_channels_def)

lemma set_contacts_rows [simp]:
  "channelRows (set_contacts p f db) = channelRows db" "contactRows (set_contacts p f db) = update_where p f (contactRows db)"
  by (simp_all add: set_contacts_def)

lemma has_contact_set_channels [simp]: "has_contact i (set_channels p f db) = has_contact i db"
  by (simp add: has_contact_def)

lemma has_contact_set_contacts:
  "(\<And>c. ct_id (f c) = ct_id c) \<Longrightarrow> has_contact i (set_contacts p f db) = has_contact i db"
  using map_update_where [of "contactRows db" p ct_id f] by (auto simp: has_contact_iff simp flip: set_map)

lemma directory_set_channels [directory_intros]:
  assumes "directory_ok db"
    and "\<And>r. r \<in> set (channelRows db) \<Longrightarrow> p r \<Longrightarrow> cc_id (f r) = cc_id r \<and> channel_key (f r) = channel_key r \<and> has_contact (cc_contactId (f r)) db"
  shows "directory_ok (set_channels p f db)"
proof -
  have "map cc_id (update_where p f (channelRows db)) = map cc_id (channelRows db)"
    "map channel_key (update_where p f (channelRows db)) = map channel_key (channelRows db)"
    using assms(2) by (auto intro!: map_update_where)
  moreover have "has_contact (cc_contactId r) db" if "r \<in> set (update_where p f (channelRows db))" for r
    using that assms by (auto simp: set_update_where directory_ok_def list_all_iff split: if_splits)
  ultimately show ?thesis using assms(1) by (simp add: directory_ok_def list_all_iff)
qed

lemma directory_set_contacts [directory_intros]:
  assumes "directory_ok db" "\<And>c. ct_id (f c) = ct_id c"
  shows "directory_ok (set_contacts p f db)"
  using assms map_update_where [of "contactRows db" p ct_id f]
  by (simp add: directory_ok_def has_contact_set_contacts)

lemma update_channels_set: "update_channels p f db = Some db' \<Longrightarrow> db' = set_channels p f db"
  by (auto simp: update_channels_def set_channels_def Let_def split: if_splits)

lemma insert_contact_Some: "insert_contact c db = Some db' \<longleftrightarrow> \<not> has_contact (ct_id c) db \<and> db' = db\<lparr>contactRows := contactRows db @ [c]\<rparr>"
  by (auto simp: insert_contact_def)

lemma directory_add_contact [directory_intros]:
  "directory_ok db \<Longrightarrow> \<not> has_contact (ct_id c) db \<Longrightarrow> directory_ok (db\<lparr>contactRows := contactRows db @ [c]\<rparr>)"
  by (auto simp: directory_ok_def has_contact_iff list_all_iff)

lemma directory_ensure [directory_intros]: "directory_ok db \<Longrightarrow> directory_ok (ensureContactRow i name now db)"
  by (simp add: ensureContactRow_def directory_add_contact new_contact_def)

lemma ensure_has [simp]: "has_contact i (ensureContactRow i name now db)"
  by (simp add: ensureContactRow_def has_contact_def new_contact_def)

lemma ensure_rows [simp]: "channelRows (ensureContactRow i name now db) = channelRows db"
  by (simp add: ensureContactRow_def)

lemma ensure_find [simp]: "find_channel t a (ensureContactRow i name now db) = find_channel t a db"
  by (simp add: find_channel_def)

lemma directory_add_channel:
  assumes "directory_ok db" "has_contact (cc_contactId r) db" "\<forall>x \<in> set (channelRows db). cc_id x \<noteq> cc_id r \<and> channel_key x \<noteq> channel_key r"
  shows "directory_ok (db\<lparr>channelRows := channelRows db @ [r]\<rparr>)"
  using assms by (auto simp: directory_ok_def has_contact_def list_all_iff)

lemma insert_channel_Some:
  "insert_channel r db = Some db' \<Longrightarrow>
     has_contact (cc_contactId r) db \<and> (\<forall>x \<in> set (channelRows db). cc_id x \<noteq> cc_id r) \<and> db' = db\<lparr>channelRows := channelRows db @ [r]\<rparr>"
  by (auto simp: insert_channel_def channel_conflict_def list_ex_iff split: if_splits)

lemma directory_insert:
  assumes "directory_ok db" "insert_channel r db = Some db'" "find_channel (cc_type r) (cc_address r) db = None"
  shows "directory_ok db'"
proof -
  have "channel_key r = (cc_type r, nocase (cc_address r))" by (simp add: channel_key_def)
  with insert_channel_Some [OF assms(2)] assms(1,3) show ?thesis
    by (auto simp: find_channel_None intro!: directory_add_channel)
qed

lemma directory_delete [directory_intros]: "directory_ok db \<Longrightarrow> directory_ok (delete_contact i db)"
  by (auto simp: directory_ok_def delete_contact_def has_contact_iff list_all_iff distinct_map inj_on_def)

lemma directory_exact: "directory_ok db \<Longrightarrow> distinct (map (\<lambda>r. (cc_type r, cc_address r)) (channelRows db))"
  unfolding directory_ok_def distinct_map inj_on_def channel_key_def by (metis prod.inject)

lemma update_channels_total: "directory_ok (set_channels p f db) \<Longrightarrow> update_channels p f db = Some (set_channels p f db)"
  using directory_exact [of "set_channels p f db"] by (simp add: update_channels_def set_channels_def Let_def)

lemma directory_reassign [directory_intros]: "directory_ok db \<Longrightarrow> directory_ok (snd (reassignChannelOwner t a i name now db))"
  by (auto simp: reassignChannelOwner_def channel_key_def Let_def intro!: directory_intros split: option.splits)

lemma directory_refresh:
  assumes "directory_ok db" "x \<in> set (channelRows db)" "channel_key x = (t, nocase a)"
  shows "\<exists>db'. refresh_identity a e now (cc_id x) db = Some db' \<and> directory_ok db'"
proof -
  let ?f = "\<lambda>r. r\<lparr>cc_address := a, cc_externalChatId := (case e of None \<Rightarrow> cc_externalChatId r | Some e \<Rightarrow> if e = [] then cc_externalChatId r else Some e),
              cc_updatedAt := Some now\<rparr>"
  have "directory_ok (set_channels (\<lambda>r. cc_id r = cc_id x) ?f db)"
    using assms
    by (intro directory_set_channels) (auto simp: channel_key_def intro: directory_rowD(3) dest: directory_rowD(1) [OF assms(1) _ assms(2)])
  from update_channels_total [OF this] this show ?thesis by (simp add: refresh_identity_def)
qed

lemma directory_seed_existing:
  assumes "directory_ok db" "find_channel t a db = Some x"
  shows "\<exists>res db'. seed_existing a e now x db = Some (res, db') \<and> directory_ok db'"
  using directory_refresh [OF assms(1), of x t a e now] find_channelD [OF assms(2)] assms(1)
  by (auto simp: seed_existing_def)

lemma directory_seed:
  assumes "directory_ok db" "seedInboundChannel i c t a e name now db = Some (res, db')"
  shows "directory_ok db'"
proof (cases "find_channel t a db")
  case (Some x)
  with assms directory_seed_existing [OF assms(1) Some, of e now] show ?thesis by (auto simp: seedInboundChannel_def)
next
  case None
  with assms(2) obtain db1 where db1: "insert_contact (new_contact i name None now) db = Some db1"
    by (auto simp: seedInboundChannel_def split: option.splits)
  with assms(1) have ok1: "directory_ok db1" by (auto simp: insert_contact_Some intro: directory_intros)
  have none: "find_channel t a db1 = None" using db1 None by (auto simp: insert_contact_Some find_channel_def)
  show ?thesis
  proof (cases "insert_channel (seeded_channel c i t a e now) db1")
    case (Some db2)
    then show ?thesis
      using directory_insert [OF ok1 Some] none assms(2) None db1 by (simp add: seedInboundChannel_def seeded_channel_def)
  next
    case fails: None
    let ?db2 = "delete_contact i db1"
    have "find_channel t a ?db2 = None" using none by (auto simp: find_channel_None delete_contact_def)
    then show ?thesis using assms(2) None db1 fails directory_delete [OF ok1] by (auto simp: seedInboundChannel_def Let_def)
  qed
qed

lemma directory_keep_fields [directory_intros]:
  assumes "directory_ok db"
    and "\<And>r. p r \<Longrightarrow> cc_id (f r) = cc_id r \<and> cc_type (f r) = cc_type r \<and> cc_address (f r) = cc_address r \<and> cc_contactId (f r) = cc_contactId r"
  shows "directory_ok (set_channels p f db)"
  using assms directory_rowD(3) [OF assms(1)] by (intro directory_set_channels) (auto simp: channel_key_def)

lemma with_status_fields [simp]:
  "cc_id (with_status st reason r) = cc_id r" "cc_type (with_status st reason r) = cc_type r"
  "cc_address (with_status st reason r) = cc_address r" "cc_contactId (with_status st reason r) = cc_contactId r"
  by (simp_all add: with_status_def)

lemma directory_status [directory_intros]:
  "directory_ok db \<Longrightarrow> directory_ok (snd (updateChannelStatus mirror i status policy reason now db))"
  "directory_ok db \<Longrightarrow> directory_ok (touchChannelLastSeen i now db)"
  "directory_ok db \<Longrightarrow> directory_ok (touchContactInteraction i now db)"
  "directory_ok db \<Longrightarrow> directory_ok (snd (markChannelVerified mirror i via now db))"
  "directory_ok db \<Longrightarrow> directory_ok (snd (markChannelRevokedById i reason now db))"
  "directory_ok db \<Longrightarrow> directory_ok (snd (markChannelRevoked mirror i reason now db))"
  by (auto simp: updateChannelStatus_def touchChannelLastSeen_def touchContactInteraction_def markChannelVerified_def
      markChannelRevokedById_def markChannelRevoked_def Let_def intro!: directory_keep_fields split: option.splits)

lemma directory_sync_channel:
  assumes "directory_ok db" "sync_channel uuid i now ch db = Some db'"
  shows "directory_ok db'"
proof (cases "find (\<lambda>r. cc_contactId r = i \<and> same_key (ci_type ch) (ci_address ch) r) (channelRows db)")
  case (Some x)
  have "directory_ok (set_channels (\<lambda>r. cc_id r = cc_id x) (\<lambda>_. merge_channel ch now x) db)"
    using assms(1) directory_rowD [OF assms(1)] find_someD [OF Some]
    by (intro directory_set_channels) (auto simp: merge_channel_def Let_def channel_key_def)
  with Some assms(2) show ?thesis by (simp add: sync_channel_def)
next
  case None
  with assms show ?thesis
    by (auto simp: sync_channel_def input_channel_def intro: directory_insert [OF assms(1)] split: if_splits)
qed

lemma directory_syncChannels: "directory_ok db \<Longrightarrow> directory_ok (snd (syncChannels uuids i now chs db))"
  by (induction chs arbitrary: uuids db) (auto dest: directory_sync_channel split: option.splits)

lemma directory_upsert_target:
  "directory_ok db \<Longrightarrow> upsert_target uuid p chans now db = Some (i, created, db1) \<Longrightarrow> directory_ok db1"
  by (auto simp: upsert_target_def update_contact_def insert_contact_Some Let_def intro!: directory_intros
      split: option.splits if_splits)

lemma directory_upsert [directory_intros]:
  assumes "directory_ok db"
  shows "directory_ok (snd (upsertContactGatewayWrites uuid uuids p now db))"
proof -
  let ?chans = "map (\<lambda>ch. ch\<lparr>ci_address := canonical_address (ci_type ch) (ci_address ch)\<rparr>) (given (up_channels p) [])"
  show ?thesis
  proof (cases "upsert_target uuid p ?chans now db")
    case None
    with assms show ?thesis by (simp add: upsertContactGatewayWrites_def Let_def)
  next
    case (Some x)
    obtain i created db1 where x: "x = (i, created, db1)" by (cases x)
    from directory_syncChannels [OF directory_upsert_target [OF assms Some [unfolded x]], of uuids i now ?chans]
    show ?thesis by (auto simp: upsertContactGatewayWrites_def Let_def Some x split: prod.split)
  qed
qed

lemma directory_move_one:
  "directory_ok db \<Longrightarrow> has_contact keepId db \<Longrightarrow>
     directory_ok (set_channels p (\<lambda>r. r\<lparr>cc_contactId := keepId, cc_updatedAt := Some now\<rparr>) db)"
  by (intro directory_set_channels) (simp_all add: channel_key_def)

lemma directory_move: "directory_ok db \<Longrightarrow> has_contact keepId db \<Longrightarrow> directory_ok (move_channels keepId now chs db)"
  by (induction chs arbitrary: db) (simp_all add: directory_move_one)

lemma directory_merge [directory_intros]: "directory_ok db \<Longrightarrow> directory_ok (snd (mergeContacts keepId mergeId now db))"
  by (auto simp: mergeContacts_def Let_def has_contact_set_contacts intro!: directory_delete directory_move directory_set_contacts
      split: option.splits)

lemma directory_orphan [directory_intros]: "directory_ok db \<Longrightarrow> directory_ok (deleteContactIfOrphaned e v i db)"
  by (simp add: deleteContactIfOrphaned_def directory_delete)

end
