(* ===== verification/Guardian_Bindings.thy ===== *)
theory Guardian_Bindings
  imports Contacts Device_Tokens
begin

text \<open>
  Binding a channel to a contact: the guardian's bindings and the principal behind them
  (\<^verbatim>\<open>auth/guardian-bootstrap.ts\<close>, \<^verbatim>\<open>verification/binding-helpers.ts\<close>, \<^verbatim>\<open>auth/guardian-integrity.ts\<close>) and
  the verified channels of other contacts (\<^verbatim>\<open>verification/contact-helpers.ts\<close>).

  \<^item> A join of contacts and channels is read in the order of the channels. \<open>None\<close> of a write is a refused
    statement, which rolls back the transaction around it.
  \<^item> The mirror in the daemon is not modelled: what a lookup there answers, whether a write there fails and
    whether it vetoes the collection of an orphan are arguments.
  \<^item> Results: every write keeps the tables consistent, a blocked channel is only ever changed by the guardian's
    decisions or a rebind of the guardian's own contact, provenance is never lowered, and no principal is minted
    over the traces of an earlier guardian.
\<close>

section \<open>Reading the bindings\<close>

definition guardian_contact :: "string \<Rightarrow> contact_db \<Rightarrow> bool" where
  "guardian_contact i db = list_ex (\<lambda>c. ct_id c = i \<and> ct_role c = RoleGuardian) (contactRows db)"

definition guardian_rows :: "string \<Rightarrow> contact_db \<Rightarrow> channel_row list" where
  "guardian_rows t db = filter (\<lambda>r. cc_type r = t \<and> guardian_contact (cc_contactId r) db) (channelRows db)"

definition principal_of :: "channel_row \<Rightarrow> contact_db \<Rightarrow> string option" where
  "principal_of r db = Option.bind (contact_by_id (cc_contactId r) db) ct_principalId"

definition getExistingGuardianBinding :: "string \<Rightarrow> contact_db \<Rightarrow> string option" where
  "getExistingGuardianBinding t db = map_option cc_address (find (\<lambda>r. cc_status r = ChActive) (guardian_rows t db))"

definition getMostRecentChannelGuardianTimestamp :: "string \<Rightarrow> contact_db \<Rightarrow> int option" where
  "getMostRecentChannelGuardianTimestamp t db =
     (let stamps = map (\<lambda>r. case cc_updatedAt r of Some u \<Rightarrow> u | None \<Rightarrow> cc_createdAt r)
                     (filter (\<lambda>r. cc_status r \<in> {ChActive, ChRevoked}) (guardian_rows t db))
      in if stamps = [] then None else Some (Max (set stamps)))"

definition resolveCanonicalPrincipal :: "string \<Rightarrow> contact_db \<Rightarrow> string" where
  "resolveCanonicalPrincipal fallback db =
     (case Option.bind (find (\<lambda>r. cc_status r = ChActive) (guardian_rows ''vellum'' db)) (\<lambda>r. principal_of r db) of
        Some p \<Rightarrow> p
      | None \<Rightarrow> fallback)"

definition revokeExistingChannelGuardian :: "string \<Rightarrow> int \<Rightarrow> contact_db \<Rightarrow> contact_db" where
  "revokeExistingChannelGuardian t now db =
     (let ids = map cc_id (filter (\<lambda>r. cc_status r = ChActive) (guardian_rows t db))
      in set_channels (\<lambda>r. cc_id r \<in> set ids)
           (\<lambda>r. r\<lparr>cc_status := ChRevoked, cc_policy := ''deny'', cc_updatedAt := Some now\<rparr>) db)"

text \<open>The first row in the order given by \<open>before\<close>.\<close>

definition first_by :: "('r \<Rightarrow> 'r \<Rightarrow> bool) \<Rightarrow> 'r list \<Rightarrow> 'r option" where
  "first_by before rows =
     foldl (\<lambda>best r. case best of None \<Rightarrow> Some r | Some b \<Rightarrow> if before r b then Some r else best) None rows"

text \<open>\<open>ORDER BY ... DESC\<close>: null comes last.\<close>

definition later :: "int option \<Rightarrow> int option \<Rightarrow> bool" where
  "later a b = (case (a, b) of (Some x, Some y) \<Rightarrow> y < x | (Some _, None) \<Rightarrow> True | _ \<Rightarrow> False)"

definition non_empty :: "string option \<Rightarrow> string option" where
  "non_empty p = (case p of None \<Rightarrow> None | Some s \<Rightarrow> if s = [] then None else Some s)"

definition findVellumGuardian :: "contact_db \<Rightarrow> string option" where
  "findVellumGuardian db =
     (case first_by (\<lambda>r b. later (cc_verifiedAt r) (cc_verifiedAt b))
             (filter (\<lambda>r. cc_status r = ChActive) (guardian_rows ''vellum'' db)) of
        None \<Rightarrow> None
      | Some r \<Rightarrow> non_empty (principal_of r db))"

definition findGuardianForChannelActor :: "string \<Rightarrow> string \<Rightarrow> contact_db \<Rightarrow> string option" where
  "findGuardianForChannelActor t a db =
     (if t = [] \<or> a = [] then None
      else
        case find (\<lambda>r. cc_status r = ChActive \<and> nocase (cc_address r) = nocase a) (guardian_rows t db) of
          None \<Rightarrow> None
        | Some r \<Rightarrow> non_empty (principal_of r db))"

definition recoverGuardianPrincipalFromActorTokens :: "token_db \<Rightarrow> string option" where
  "recoverGuardianPrincipalFromActorTokens tok =
     (case Option.bind (first_by (\<lambda>r b. ar_issuedAt b < ar_issuedAt r) (filter (\<lambda>r. ar_status r = ArActive) (actorTokenRecords tok)))
             (\<lambda>r. non_empty (Some (ar_principal r))) of
        Some p \<Rightarrow> Some p
      | None \<Rightarrow>
          map_option rf_principal
            (first_by (\<lambda>r b. rf_issuedAt b < rf_issuedAt r) (filter (\<lambda>r. rf_status r = RfActive) (refreshTokenRecords tok))))"

section \<open>Binding a guardian\<close>

record guardian_params =
  gp_channel :: string
  gp_externalUserId :: string
  gp_deliveryChatId :: string
  gp_guardianPrincipalId :: string
  gp_displayName :: "string option"
  gp_verifiedVia :: "string option"
  gp_reactivateRevoked :: bool

record guardian_writes =
  gw_contactId :: string
  gw_channelId :: string
  gw_claimedFrom :: "string option"

definition status_rank :: "channel_status \<Rightarrow> nat" where
  "status_rank st = (case st of ChActive \<Rightarrow> 0 | ChUnverified \<Rightarrow> 1 | _ \<Rightarrow> 2)"

definition claimed_before :: "string \<Rightarrow> channel_row \<Rightarrow> channel_row \<Rightarrow> bool" where
  "claimed_before guardianId r b =
     (let own = (\<lambda>x. if cc_contactId x = guardianId then 0 else 1 :: nat)
      in own r < own b \<or>
         (own r = own b \<and>
          (status_rank (cc_status r) < status_rank (cc_status b) \<or>
           (status_rank (cc_status r) = status_rank (cc_status b) \<and> later (cc_updatedAt r) (cc_updatedAt b)))))"

definition guardian_set :: "guardian_params \<Rightarrow> string \<Rightarrow> int \<Rightarrow> channel_row \<Rightarrow> channel_row" where
  "guardian_set p contactId now r =
     r\<lparr>cc_contactId := contactId, cc_address := gp_externalUserId p, cc_externalChatId := Some (gp_deliveryChatId p),
       cc_isPrimary := True, cc_status := ChActive, cc_policy := ''allow'', cc_verifiedAt := Some now,
       cc_verifiedVia := Some (given (gp_verifiedVia p) ''challenge''), cc_revokedReason := None, cc_blockedReason := None,
       cc_updatedAt := Some now\<rparr>"

definition guardian_upsert_contact :: "guardian_params \<Rightarrow> string \<Rightarrow> int \<Rightarrow> contact_db \<Rightarrow> contact_db" where
  "guardian_upsert_contact p contactId now db =
     (let name = given (gp_displayName p) (gp_externalUserId p)
      in if has_contact contactId db
         then set_contacts (\<lambda>c. ct_id c = contactId)
                (\<lambda>c. c\<lparr>ct_displayName := name, ct_role := RoleGuardian, ct_principalId := Some (gp_guardianPrincipalId p),
                       ct_updatedAt := now\<rparr>) db
         else db\<lparr>contactRows := contactRows db @
                   [(new_contact contactId name None now)\<lparr>ct_role := RoleGuardian, ct_principalId := Some (gp_guardianPrincipalId p)\<rparr>]\<rparr>)"

text \<open>The second half: the row of \<open>(type, address)\<close> is adopted unless it is protected, or a row is inserted under
  \<open>channelId\<close>, updating the row that has this id.\<close>

definition guardian_channel_write :: "guardian_params \<Rightarrow> string \<Rightarrow> string \<Rightarrow> int \<Rightarrow> contact_db \<Rightarrow> contact_db option" where
  "guardian_channel_write p contactId channelId now db =
     (case find_channel (gp_channel p) (gp_externalUserId p) db of
        Some existing \<Rightarrow>
          if cc_status existing = ChBlocked \<or> (cc_status existing = ChRevoked \<and> \<not> gp_reactivateRevoked p) then Some db
          else update_channels (\<lambda>r. cc_id r = cc_id existing) (guardian_set p contactId now) db
      | None \<Rightarrow>
          if list_ex (\<lambda>r. cc_id r = channelId) (channelRows db)
          then update_channels (\<lambda>r. cc_id r = channelId) (guardian_set p contactId now) db
          else insert_channel
                 (guardian_set p contactId now (seeded_channel channelId contactId (gp_channel p) (gp_externalUserId p) None now)) db)"

definition claimable_channel :: "guardian_params \<Rightarrow> string option \<Rightarrow> contact_db \<Rightarrow> channel_row option" where
  "claimable_channel p guardianId db =
     first_by (claimed_before (given guardianId []))
       (filter (\<lambda>r. same_key (gp_channel p) (gp_externalUserId p) r \<and> cc_status r \<noteq> ChBlocked) (channelRows db))"

definition guardian_by_principal :: "string \<Rightarrow> contact_db \<Rightarrow> string option" where
  "guardian_by_principal pid db =
     map_option ct_id (find (\<lambda>c. ct_role c = RoleGuardian \<and> ct_principalId c = Some pid) (contactRows db))"

definition applyGuardianBindingGatewayWrites ::
  "string \<Rightarrow> string \<Rightarrow> guardian_params \<Rightarrow> int \<Rightarrow> contact_db \<Rightarrow> (guardian_writes \<times> contact_db) option" where
  "applyGuardianBindingGatewayWrites contactUuid channelUuid p now db =
     (let guardianId = guardian_by_principal (gp_guardianPrincipalId p) db;
          claimable = claimable_channel p guardianId db;
          contactId = (case guardianId of
                         Some i \<Rightarrow> i
                       | None \<Rightarrow> (case claimable of Some r \<Rightarrow> cc_contactId r | None \<Rightarrow> contactUuid));
          existingChannel = (if claimable = None \<and> guardianId \<noteq> None
                             then find (\<lambda>r. cc_contactId r = contactId \<and> cc_type r = gp_channel p) (channelRows db) else None);
          channelId = (case claimable of
                         Some r \<Rightarrow> cc_id r
                       | None \<Rightarrow> (case existingChannel of Some r \<Rightarrow> cc_id r | None \<Rightarrow> channelUuid))
      in map_option
           (Pair \<lparr>gw_contactId = contactId, gw_channelId = channelId,
                  gw_claimedFrom = (case claimable of
                                      None \<Rightarrow> None
                                    | Some r \<Rightarrow> if cc_contactId r \<noteq> contactId then Some (cc_contactId r) else None)\<rparr>)
           (guardian_channel_write p contactId channelId now (guardian_upsert_contact p contactId now db)))"

text \<open>The transaction, then the orphan collection of the post-commit mirror; \<open>eligible\<close> and \<open>vetoed\<close> as there.\<close>

definition createGuardianBinding ::
  "bool \<Rightarrow> bool \<Rightarrow> string \<Rightarrow> string \<Rightarrow> guardian_params \<Rightarrow> int \<Rightarrow> contact_db \<Rightarrow> (guardian_writes \<times> contact_db) option" where
  "createGuardianBinding eligible vetoed contactUuid channelUuid p now db =
     (case applyGuardianBindingGatewayWrites contactUuid channelUuid p now db of
        None \<Rightarrow> None
      | Some (w, db1) \<Rightarrow>
          Some (w, case non_empty (gw_claimedFrom w) of None \<Rightarrow> db1 | Some i \<Rightarrow> deleteContactIfOrphaned eligible vetoed i db1))"

section \<open>Verified channels\<close>

record verified_params =
  vp_sourceChannel :: string
  vp_externalUserId :: string
  vp_externalChatId :: string
  vp_displayName :: "string option"
  vp_username :: "string option"
  vp_verifiedVia :: "string option"
  vp_contactId :: "string option"
  vp_allowRevokedReactivation :: bool

definition verified_set :: "string \<Rightarrow> string \<Rightarrow> string \<Rightarrow> int \<Rightarrow> int \<Rightarrow> channel_row \<Rightarrow> channel_row" where
  "verified_set a externalChatId verifiedVia verifiedAt now r =
     r\<lparr>cc_status := ChActive, cc_policy := ''allow'', cc_address := a, cc_externalChatId := Some externalChatId,
       cc_verifiedAt := Some verifiedAt, cc_verifiedVia := Some verifiedVia, cc_revokedReason := None,
       cc_blockedReason := None, cc_updatedAt := Some now\<rparr>"

definition reactivatable :: "bool \<Rightarrow> channel_row \<Rightarrow> bool" where
  "reactivatable allowRevoked r = (cc_status r \<noteq> ChBlocked \<and> (allowRevoked \<or> cc_status r \<noteq> ChRevoked))"

text \<open>\<open>None\<close> in the first component: a statement throws, the statements before it stay.\<close>

definition writeVerifiedGatewayChannel ::
  "string \<Rightarrow> string \<Rightarrow> string \<Rightarrow> string \<Rightarrow> string \<Rightarrow> string \<Rightarrow> int \<Rightarrow> int \<Rightarrow> bool \<Rightarrow> contact_db \<Rightarrow> bool option \<times> contact_db" where
  "writeVerifiedGatewayChannel assistantChannelId contactId t a externalChatId verifiedVia verifiedAt now allowRevoked db =
     (let vset = verified_set a externalChatId verifiedVia verifiedAt now;
          byId = (\<lambda>r. cc_id r = assistantChannelId \<and> reactivatable allowRevoked r);
          byKey = (\<lambda>r. same_key t a r \<and> reactivatable allowRevoked r)
      in if list_ex byId (channelRows db)
         then (case update_channels byId vset db of None \<Rightarrow> (None, db) | Some db1 \<Rightarrow> (Some True, db1))
         else if list_ex byKey (channelRows db)
         then (case update_channels byKey vset db of None \<Rightarrow> (None, db) | Some db1 \<Rightarrow> (Some True, db1))
         else
           let db1 = ensureContactRow contactId a now db;
               row = vset (seeded_channel assistantChannelId contactId t a None now)
           in if channel_conflict row db1 then (Some False, db1)
              else (case insert_channel row db1 of None \<Rightarrow> (None, db1) | Some db2 \<Rightarrow> (Some True, db2)))"

record verified_plan =
  pl_contactId :: string
  pl_channelId :: "string option"
  pl_reassign :: bool
  pl_orphanedDonor :: "string option"

datatype verified_result = NotVerified | Verified verified_plan | WriteThrows

definition applyVerifiedChannelGatewayWrites ::
  "string \<Rightarrow> string \<Rightarrow> (string \<times> string) option \<Rightarrow> verified_params \<Rightarrow> int \<Rightarrow> contact_db \<Rightarrow> verified_result \<times> contact_db" where
  "applyVerifiedChannelGatewayWrites contactUuid channelUuid mirrorChannel p now db =
     (let t = vp_sourceChannel p;
          via = given (vp_verifiedVia p) ''challenge'';
          a = canonical_address t (vp_externalUserId p);
          name = given (vp_displayName p) (given (vp_username p) a);
          gwRow = find_channel t a db;
          refused = (case gwRow of
                       None \<Rightarrow> False
                     | Some r \<Rightarrow> cc_status r = ChBlocked \<or> (cc_status r = ChRevoked \<and> \<not> vp_allowRevokedReactivation p));
          kept = (case gwRow of None \<Rightarrow> None | Some r \<Rightarrow> if cc_status r = ChActive \<and> isBindingDemotion (cc_verifiedVia r) (Some via) then Some r else None);
          via1 = (case kept of None \<Rightarrow> via | Some r \<Rightarrow> given (cc_verifiedVia r) via);
          at1 = (case kept of None \<Rightarrow> now | Some r \<Rightarrow> given (cc_verifiedAt r) now);
          finish = (\<lambda>plan w. case w of (None, db') \<Rightarrow> (WriteThrows, db') | (Some wrote, db') \<Rightarrow> (if wrote then Verified plan else NotVerified, db'))
      in if refused then (NotVerified, db)
         else
           case mirrorChannel of
             Some (mirrorChannelId, mirrorContactId) \<Rightarrow>
               let bound = (case non_empty (vp_contactId p) of Some c \<Rightarrow> c | None \<Rightarrow> mirrorContactId);
                   reparented = (bound \<noteq> mirrorContactId);
                   move = (if reparented then reassignChannelOwner t a bound name now db else (None, db));
                   donor = (if reparented then Some (given (fst move) mirrorContactId) else None)
               in finish \<lparr>pl_contactId = bound, pl_channelId = None, pl_reassign = reparented, pl_orphanedDonor = donor\<rparr>
                    (writeVerifiedGatewayChannel mirrorChannelId bound t a (vp_externalChatId p) via1 at1 now
                       (vp_allowRevokedReactivation p) (snd move))
           | None \<Rightarrow>
               let contactId = given (vp_contactId p) contactUuid;
                   targeted = (non_empty (vp_contactId p) \<noteq> None);
                   move = (if targeted then reassignChannelOwner t a contactId name now db
                           else (None, ensureContactRow contactId name now db))
               in finish \<lparr>pl_contactId = contactId, pl_channelId = Some channelUuid, pl_reassign = targeted, pl_orphanedDonor = fst move\<rparr>
                    (writeVerifiedGatewayChannel channelUuid contactId t a (vp_externalChatId p) via1 at1 now
                       (vp_allowRevokedReactivation p) (snd move)))"

text \<open>\<open>lookup\<close>: the daemon's answer for the canonical address, \<open>None\<close> where it throws; \<open>mirrored\<close>: whether the write
  to its mirror succeeds. \<open>None\<close> is an exception.\<close>

definition upsertVerifiedContactChannel ::
  "string \<Rightarrow> string \<Rightarrow> (string \<times> string) option option \<Rightarrow> bool \<Rightarrow> bool \<Rightarrow> bool \<Rightarrow> bool \<Rightarrow> verified_params \<Rightarrow> int \<Rightarrow> contact_db \<Rightarrow>
     bool option \<times> contact_db" where
  "upsertVerifiedContactChannel contactUuid channelUuid lookup mirrored eligible vetoed softMirrorFailures p now db =
     (if lookup = None \<and> \<not> softMirrorFailures then (None, db)
      else
        case applyVerifiedChannelGatewayWrites contactUuid channelUuid (given lookup None) p now db of
          (NotVerified, db1) \<Rightarrow> (Some False, db1)
        | (WriteThrows, db1) \<Rightarrow> (Some False, db1)
        | (Verified plan, db1) \<Rightarrow>
            if mirrored
            then (Some True, case non_empty (pl_orphanedDonor plan) of None \<Rightarrow> db1 | Some i \<Rightarrow> deleteContactIfOrphaned eligible vetoed i db1)
            else (if softMirrorFailures then Some True else None, db1))"

definition upsertContactChannel ::
  "string \<Rightarrow> string \<Rightarrow> string \<Rightarrow> string \<Rightarrow> string option \<Rightarrow> string option \<Rightarrow> string option \<Rightarrow> int \<Rightarrow> contact_db \<Rightarrow>
     (seed_result \<times> contact_db) option" where
  "upsertContactChannel contactUuid channelUuid sourceChannel externalUserId externalChatId displayName username now db =
     (let a = canonical_address sourceChannel externalUserId
      in seedInboundChannel contactUuid channelUuid sourceChannel a externalChatId (given displayName (given username a)) now db)"

definition gatewayChannelStatus :: "string \<Rightarrow> string \<Rightarrow> contact_db \<Rightarrow> channel_status option" where
  "gatewayChannelStatus t a db = map_option cc_status (find_channel t a db)"

section \<open>The guardian of the vellum channel\<close>

definition hasEvidenceOfPriorGuardian :: "token_db \<Rightarrow> contact_db \<Rightarrow> bool" where
  "hasEvidenceOfPriorGuardian tok db = (contactRows db \<noteq> [] \<or> actorTokenRecords tok \<noteq> [] \<or> refreshTokenRecords tok \<noteq> [])"

definition hasGuardianContactRow :: "contact_db \<Rightarrow> bool" where
  "hasGuardianContactRow db = list_ex (\<lambda>c. ct_role c = RoleGuardian) (contactRows db)"

definition hasGuardianContactWithPrincipal :: "contact_db \<Rightarrow> bool" where
  "hasGuardianContactWithPrincipal db = list_ex (\<lambda>c. ct_role c = RoleGuardian \<and> ct_principalId c \<noteq> None) (contactRows db)"

datatype integrity_state = IntegrityOk | MissingGuardian

definition computeState :: "token_db \<Rightarrow> contact_db \<Rightarrow> integrity_state" where
  "computeState tok db =
     (if hasGuardianContactRow db then IntegrityOk
      else if hasEvidenceOfPriorGuardian tok db then MissingGuardian else IntegrityOk)"

definition STATE_TTL_MS :: int where "STATE_TTL_MS = 30000"

definition guardianIntegrityState ::
  "int \<Rightarrow> token_db \<Rightarrow> contact_db \<Rightarrow> (integrity_state \<times> int) option \<Rightarrow> integrity_state \<times> (integrity_state \<times> int) option" where
  "guardianIntegrityState now tok db cached =
     (let fresh = (computeState tok db, Some (computeState tok db, now))
      in case cached of
           None \<Rightarrow> fresh
         | Some (st, at) \<Rightarrow> if now - at < STATE_TTL_MS then (st, cached) else fresh)"

text \<open>What \<open>resolveOrCreateVellumGuardian\<close> decides before it writes or awaits the owner's name.\<close>

datatype vellum_decision = KeepGuardian string | RecoverGuardian string | RefuseMint | MintGuardian bool

definition decide_vellum :: "bool \<Rightarrow> bool \<Rightarrow> token_db \<Rightarrow> contact_db \<Rightarrow> vellum_decision" where
  "decide_vellum allowMintWithEvidence recoverFromActorTokens tok db =
     (case findVellumGuardian db of
        Some p \<Rightarrow> KeepGuardian p
      | None \<Rightarrow>
          (case (if recoverFromActorTokens \<and> \<not> hasGuardianContactWithPrincipal db
                 then non_empty (recoverGuardianPrincipalFromActorTokens tok) else None) of
             Some p \<Rightarrow> RecoverGuardian p
           | None \<Rightarrow>
               if hasEvidenceOfPriorGuardian tok db \<and> \<not> allowMintWithEvidence then RefuseMint
               else MintGuardian (hasEvidenceOfPriorGuardian tok db)))"

definition vellum_params :: "string \<Rightarrow> bool \<Rightarrow> string option \<Rightarrow> guardian_params" where
  "vellum_params pid reactivate name =
     \<lparr>gp_channel = ''vellum'', gp_externalUserId = pid, gp_deliveryChatId = ''local'', gp_guardianPrincipalId = pid,
      gp_displayName = name, gp_verifiedVia = Some ''bootstrap'', gp_reactivateRevoked = reactivate\<rparr>"

record vellum_guardian =
  vg_principal :: string
  vg_isNew :: bool
  vg_mintedOverPriorEvidence :: bool

datatype guardian_error = MintRefused | BindingFailed

definition bind_vellum ::
  "bool \<Rightarrow> bool \<Rightarrow> (nat \<Rightarrow> string) \<Rightarrow> guardian_params \<Rightarrow> vellum_guardian \<Rightarrow> int \<Rightarrow> contact_db \<Rightarrow>
     (guardian_error + vellum_guardian) \<times> contact_db" where
  "bind_vellum eligible vetoed uuids p g now db =
     (case createGuardianBinding eligible vetoed (uuids 1) (uuids 2) p now db of
        None \<Rightarrow> (Inl BindingFailed, db)
      | Some (_, db1) \<Rightarrow> (Inr g, db1))"

text \<open>\<open>uuids 0\<close> names a fresh principal, the others the rows of the binding; \<open>owner\<close> is the owner's name the platform
  has. \<open>perform_vellum\<close> runs on the database as it is after the name was awaited.\<close>

definition perform_vellum ::
  "bool \<Rightarrow> bool \<Rightarrow> (nat \<Rightarrow> string) \<Rightarrow> string option \<Rightarrow> int \<Rightarrow> vellum_decision \<Rightarrow> contact_db \<Rightarrow>
     (guardian_error + vellum_guardian) \<times> contact_db" where
  "perform_vellum eligible vetoed uuids owner now d db =
     (case d of
        KeepGuardian p \<Rightarrow> (Inr \<lparr>vg_principal = p, vg_isNew = False, vg_mintedOverPriorEvidence = False\<rparr>, db)
      | RecoverGuardian p \<Rightarrow>
          bind_vellum eligible vetoed uuids (vellum_params p False None)
            \<lparr>vg_principal = p, vg_isNew = False, vg_mintedOverPriorEvidence = False\<rparr> now db
      | RefuseMint \<Rightarrow> (Inl MintRefused, db)
      | MintGuardian prior \<Rightarrow>
          let p = ''vellum-principal-'' @ uuids 0
          in bind_vellum eligible vetoed uuids (vellum_params p True (non_empty owner))
               \<lparr>vg_principal = p, vg_isNew = True, vg_mintedOverPriorEvidence = prior\<rparr> now db)"

definition resolveOrCreateVellumGuardian ::
  "bool \<Rightarrow> bool \<Rightarrow> bool \<Rightarrow> bool \<Rightarrow> (nat \<Rightarrow> string) \<Rightarrow> string option \<Rightarrow> int \<Rightarrow> token_db \<Rightarrow> contact_db \<Rightarrow>
     (guardian_error + vellum_guardian) \<times> contact_db" where
  "resolveOrCreateVellumGuardian allowMint recover eligible vetoed uuids owner now tok db =
     perform_vellum eligible vetoed uuids owner now (decide_vellum allowMint recover tok db) db"

definition ensureVellumGuardianBinding ::
  "bool \<Rightarrow> bool \<Rightarrow> bool \<Rightarrow> (nat \<Rightarrow> string) \<Rightarrow> string option \<Rightarrow> int \<Rightarrow> token_db \<Rightarrow> contact_db \<Rightarrow>
     (guardian_error + string) \<times> contact_db" where
  "ensureVellumGuardianBinding recover eligible vetoed uuids owner now tok db =
     (case resolveOrCreateVellumGuardian False recover eligible vetoed uuids owner now tok db of
        (Inl e, db1) \<Rightarrow> (Inl e, db1)
      | (Inr g, db1) \<Rightarrow> (Inr (vg_principal g), db1))"

text \<open>\<open>hostname\<close> is what \<open>readHostReportedName\<close> returns.\<close>

definition bootstrapGuardian ::
  "token_env \<Rightarrow> string option \<Rightarrow> bool \<Rightarrow> bool \<Rightarrow> (nat \<Rightarrow> string) \<Rightarrow> string option \<Rightarrow> string option \<Rightarrow> int \<Rightarrow> (nat \<Rightarrow> int) \<Rightarrow>
     string \<Rightarrow> string \<Rightarrow> string \<Rightarrow> string \<Rightarrow> string \<Rightarrow> string option \<Rightarrow> token_db \<Rightarrow> contact_db \<Rightarrow>
     ((guardian_error + pair_error) + vellum_guardian \<times> token_pair) \<times> token_db \<times> contact_db" where
  "bootstrapGuardian env name eligible vetoed uuids owner hostname now clk jti secret family platform deviceId clientReportedName tok db =
     (case resolveOrCreateVellumGuardian True False eligible vetoed uuids owner now tok db of
        (Inl e, db1) \<Rightarrow> (Inl (Inl e), tok, db1)
      | (Inr g, db1) \<Rightarrow>
          (case mintAndRecordDeviceBoundTokenPair env name clk jti secret family (vg_principal g) deviceId platform
                  (Some \<lparr>di_userAgent = None,
                         di_clientName = (case clientReportedName of Some n \<Rightarrow> Some n | None \<Rightarrow> hostname)\<rparr>) tok of
             (Inl e, tok1) \<Rightarrow> (Inl (Inr e), tok1, db1)
           | (Inr pair, tok1) \<Rightarrow> (Inr (g, pair), tok1, db1)))"

section \<open>The tables stay consistent\<close>

text \<open>Giving one row a key no row has.\<close>

lemma directory_rekey:
  assumes ok: "directory_ok db" and x: "x \<in> set (channelRows db)"
    and new: "\<And>r. r \<in> set (channelRows db) \<Longrightarrow> channel_key r \<noteq> channel_key (f x)"
    and f: "cc_id (f x) = cc_id x" "has_contact (cc_contactId (f x)) db"
  shows "directory_ok (set_channels (\<lambda>r. cc_id r = cc_id x) f db)"
proof -
  let ?g = "\<lambda>r. if cc_id r = cc_id x then f r else r"
  have only: "r = x" if "r \<in> set (channelRows db)" "cc_id r = cc_id x" for r
    using directory_rowD(1) [OF ok that(1) x that(2)] .
  have "inj_on (\<lambda>r. channel_key (?g r)) (set (channelRows db))"
  proof (rule inj_onI)
    fix r r' assume r: "r \<in> set (channelRows db)" "r' \<in> set (channelRows db)" "channel_key (?g r) = channel_key (?g r')"
    then show "r = r'"
      using only [OF r(1)] only [OF r(2)] new [OF r(1)] new [OF r(2)] directory_rowD(2) [OF ok r(1,2)]
      by (auto split: if_splits)
  qed
  moreover have "map cc_id (update_where (\<lambda>r. cc_id r = cc_id x) f (channelRows db)) = map cc_id (channelRows db)"
    using only f(1) by (intro map_update_where) auto
  moreover have "has_contact (cc_contactId r) db" if "r \<in> set (update_where (\<lambda>r. cc_id r = cc_id x) f (channelRows db))" for r
    using that only f(2) directory_rowD(3) [OF ok] by (auto simp: set_update_where split: if_splits)
  ultimately show ?thesis
    using ok by (simp add: directory_ok_def update_where_def distinct_map list_all_iff comp_def inj_on_def)
qed

lemma first_by_in: "first_by before rows = Some r \<Longrightarrow> r \<in> set rows"
proof -
  let ?pick = "\<lambda>best r. case best of None \<Rightarrow> Some r | Some b \<Rightarrow> if before r b then Some r else best"
  have "foldl ?pick acc xs = Some r \<Longrightarrow> acc = Some r \<or> r \<in> set xs" for acc xs
  proof (induction xs arbitrary: acc)
    case (Cons x xs)
    from Cons.prems have "?pick acc x = Some r \<or> r \<in> set xs" by (intro Cons.IH) simp
    then show ?case by (cases acc) (auto split: if_splits)
  qed simp
  then show "first_by before rows = Some r \<Longrightarrow> r \<in> set rows" unfolding first_by_def by blast
qed

lemma first_by_None: "first_by before rows = None \<longleftrightarrow> rows = []"
proof -
  have "foldl (\<lambda>best r. case best of None \<Rightarrow> Some r | Some b \<Rightarrow> if before r b then Some r else best) (Some x) xs \<noteq> None" for x xs
    by (induction xs arbitrary: x) simp_all
  from this [of "hd rows" "tl rows"] show ?thesis by (cases rows) (simp_all add: first_by_def)
qed

lemma guardian_upsert_rows [simp]: "channelRows (guardian_upsert_contact p i now db) = channelRows db"
  by (simp add: guardian_upsert_contact_def Let_def)

lemma guardian_upsert_find [simp]: "find_channel t a (guardian_upsert_contact p i now db) = find_channel t a db"
  by (simp add: find_channel_def)

lemma guardian_upsert_has: "has_contact j (guardian_upsert_contact p i now db) \<longleftrightarrow> j = i \<or> has_contact j db"
proof (cases "has_contact i db")
  case True
  then show ?thesis by (auto simp: guardian_upsert_contact_def Let_def has_contact_set_contacts)
next
  case False
  then show ?thesis by (auto simp: guardian_upsert_contact_def Let_def new_contact_def has_contact_def)
qed

lemma directory_guardian_upsert [directory_intros]: "directory_ok db \<Longrightarrow> directory_ok (guardian_upsert_contact p i now db)"
  by (auto simp: guardian_upsert_contact_def Let_def new_contact_def intro!: directory_set_contacts directory_add_contact)

lemma guardian_set_fields [simp]:
  "cc_id (guardian_set p i now r) = cc_id r" "cc_contactId (guardian_set p i now r) = i" "cc_type (guardian_set p i now r) = cc_type r"
  "cc_address (guardian_set p i now r) = gp_externalUserId p" "cc_status (guardian_set p i now r) = ChActive"
  by (simp_all add: guardian_set_def)

text \<open>\<open>channelId\<close> is a row of the channel's type or nobody's.\<close>

lemma directory_guardian_channel:
  assumes ok: "directory_ok db" and c: "has_contact i db"
    and chan: "\<And>r. r \<in> set (channelRows db) \<Longrightarrow> cc_id r = channelId \<Longrightarrow> cc_type r = gp_channel p"
  shows "\<exists>db'. guardian_channel_write p i channelId now db = Some db' \<and> directory_ok db'"
proof (cases "find_channel (gp_channel p) (gp_externalUserId p) db")
  case (Some x)
  note x = find_channelD [OF Some]
  have "directory_ok (set_channels (\<lambda>r. cc_id r = cc_id x) (guardian_set p i now) db)"
    using ok c x by (intro directory_set_channels) (auto simp: channel_key_def dest: directory_rowD(1) [OF ok _ conjunct1 [OF x]])
  with ok Some show ?thesis by (auto simp: guardian_channel_write_def update_channels_total)
next
  case None
  then have new: "channel_key r \<noteq> (gp_channel p, nocase (gp_externalUserId p))" if "r \<in> set (channelRows db)" for r
    using that by (simp add: find_channel_None)
  show ?thesis
  proof (cases "list_ex (\<lambda>r. cc_id r = channelId) (channelRows db)")
    case True
    then obtain x where x: "x \<in> set (channelRows db)" "cc_id x = channelId" by (auto simp: list_ex_iff)
    have "directory_ok (set_channels (\<lambda>r. cc_id r = cc_id x) (guardian_set p i now) db)"
      using new chan [OF x] c by (intro directory_rekey [OF ok x(1)]) (simp_all add: channel_key_def)
    with True None x(2) show ?thesis by (simp add: guardian_channel_write_def update_channels_total)
  next
    case False
    let ?row = "guardian_set p i now (seeded_channel channelId i (gp_channel p) (gp_externalUserId p) None now)"
    have row: "cc_id ?row = channelId" "channel_key ?row = (gp_channel p, nocase (gp_externalUserId p))"
      by (simp_all add: seeded_channel_def channel_key_def)
    have "\<not> (cc_type x = cc_type ?row \<and> cc_address x = cc_address ?row)" if "x \<in> set (channelRows db)" for x
      using channel_key_exact [of x ?row] new [OF that] row(2) by simp
    with False row(1) have "\<not> channel_conflict ?row db" by (auto simp: channel_conflict_def list_ex_iff)
    with c have "insert_channel ?row db = Some (db\<lparr>channelRows := channelRows db @ [?row]\<rparr>)" by (simp add: insert_channel_def)
    moreover from directory_insert [OF ok this] None row have "directory_ok (db\<lparr>channelRows := channelRows db @ [?row]\<rparr>)"
      by (simp add: seeded_channel_def)
    ultimately show ?thesis using False None by (simp add: guardian_channel_write_def)
  qed
qed

text \<open>The guardian's own contact holds a blocked channel of the type a binding is for.\<close>

definition rebinds_blocked :: "guardian_params \<Rightarrow> contact_db \<Rightarrow> bool" where
  "rebinds_blocked p db =
     (case guardian_by_principal (gp_guardianPrincipalId p) db of
        None \<Rightarrow> False
      | Some i \<Rightarrow> list_ex (\<lambda>r. cc_contactId r = i \<and> cc_type r = gp_channel p \<and> cc_status r = ChBlocked) (channelRows db))"

text \<open>The channel a binding falls back to: no row, or one of the guardian's own of that type.\<close>

lemma guardian_binding_split:
  assumes ok: "directory_ok db" and fresh: "channelUuid \<notin> cc_id ` set (channelRows db)"
  shows "\<exists>w i chan. applyGuardianBindingGatewayWrites contactUuid channelUuid p now db =
      map_option (Pair w) (guardian_channel_write p i chan now (guardian_upsert_contact p i now db)) \<and>
      (\<forall>r \<in> set (channelRows db). cc_id r = chan \<longrightarrow>
         cc_type r = gp_channel p \<and>
         (find_channel (gp_channel p) (gp_externalUserId p) db = None \<longrightarrow>
            guardian_by_principal (gp_guardianPrincipalId p) db = Some (cc_contactId r)))"
proof -
  let ?gid = "guardian_by_principal (gp_guardianPrincipalId p) db"
  let ?claim = "claimable_channel p ?gid db"
  let ?cid = "case ?gid of Some i \<Rightarrow> i | None \<Rightarrow> (case ?claim of Some r \<Rightarrow> cc_contactId r | None \<Rightarrow> contactUuid)"
  let ?ex = "if ?claim = None \<and> ?gid \<noteq> None then find (\<lambda>r. cc_contactId r = ?cid \<and> cc_type r = gp_channel p) (channelRows db) else None"
  let ?chan = "case ?claim of Some r \<Rightarrow> cc_id r | None \<Rightarrow> (case ?ex of Some r \<Rightarrow> cc_id r | None \<Rightarrow> channelUuid)"
  let ?none = "find_channel (gp_channel p) (gp_externalUserId p) db = None"
  have chan: "cc_type r = gp_channel p \<and> (?none \<longrightarrow> ?gid = Some (cc_contactId r))"
    if r: "r \<in> set (channelRows db)" "cc_id r = ?chan" for r
  proof (cases ?claim)
    case (Some x)
    then have x: "x \<in> set (channelRows db)" "same_key (gp_channel p) (gp_externalUserId p) x"
      using first_by_in unfolding claimable_channel_def by fastforce+
    with Some r directory_rowD(1) [OF ok r(1)] have "r = x" by simp
    with x show ?thesis by (auto simp: find_channel_None channel_same_key channel_key_def)
  next
    case None
    show ?thesis
    proof (cases ?ex)
      case exn: None
      with None r have "cc_id r = channelUuid" by simp
      with r fresh show ?thesis by auto
    next
      case (Some x)
      then have x: "?gid \<noteq> None" "x \<in> set (channelRows db) \<and> cc_contactId x = ?cid \<and> cc_type x = gp_channel p"
        by (auto split: if_splits dest: find_someD)
      from None Some r(2) have "cc_id r = cc_id x" by simp
      with x directory_rowD(1) [OF ok r(1)] have "r = x" by auto
      with x show ?thesis by auto
    qed
  qed
  have "applyGuardianBindingGatewayWrites contactUuid channelUuid p now db =
      map_option
        (Pair \<lparr>gw_contactId = ?cid, gw_channelId = ?chan,
               gw_claimedFrom = (case ?claim of None \<Rightarrow> None | Some r \<Rightarrow> if cc_contactId r \<noteq> ?cid then Some (cc_contactId r) else None)\<rparr>)
        (guardian_channel_write p ?cid ?chan now (guardian_upsert_contact p ?cid now db))"
    unfolding applyGuardianBindingGatewayWrites_def Let_def by (rule refl)
  with chan show ?thesis by blast
qed

lemma directory_guardian_binding:
  assumes ok: "directory_ok db" and fresh: "channelUuid \<notin> cc_id ` set (channelRows db)"
  shows "\<exists>w db'. applyGuardianBindingGatewayWrites contactUuid channelUuid p now db = Some (w, db') \<and> directory_ok db'"
proof -
  from guardian_binding_split [OF assms, of contactUuid p now] obtain w i chan where
    split: "applyGuardianBindingGatewayWrites contactUuid channelUuid p now db =
      map_option (Pair w) (guardian_channel_write p i chan now (guardian_upsert_contact p i now db))"
    and chan: "\<forall>r \<in> set (channelRows db). cc_id r = chan \<longrightarrow> cc_type r = gp_channel p" by blast
  have "\<exists>db'. guardian_channel_write p i chan now (guardian_upsert_contact p i now db) = Some db' \<and> directory_ok db'"
    using chan by (intro directory_guardian_channel directory_guardian_upsert ok) (simp_all add: guardian_upsert_has)
  with split show ?thesis by auto
qed

lemma find_channel_key:
  "directory_ok db \<Longrightarrow> r \<in> set (channelRows db) \<Longrightarrow> channel_key r = (t, nocase a) \<Longrightarrow> find_channel t a db = Some r"
  unfolding find_channel_def by (rule find_unique) (auto simp: channel_same_key dest: directory_rowD(2))

text \<open>An update that hits exactly one row and keeps its key.\<close>

lemma update_one:
  assumes ok: "directory_ok db" and x: "x \<in> set (channelRows db)" "channel_key x = (t, nocase a)"
    and p: "\<And>r. r \<in> set (channelRows db) \<Longrightarrow> p r \<longleftrightarrow> r = x"
    and f: "cc_id (f x) = cc_id x" "channel_key (f x) = channel_key x" "cc_contactId (f x) = cc_contactId x"
  shows "update_channels p f db = Some (set_channels p f db)" "directory_ok (set_channels p f db)"
    "find_channel t a (set_channels p f db) = Some (f x)"
proof -
  show ok': "directory_ok (set_channels p f db)"
    using p f directory_rowD(3) [OF ok x(1) x(1)] by (intro directory_set_channels ok) simp
  show "update_channels p f db = Some (set_channels p f db)" by (rule update_channels_total [OF ok'])
  have "f x \<in> set (channelRows (set_channels p f db))" using x p by (auto simp: set_update_where intro!: bexI [of _ x])
  with ok' x(2) f(2) show "find_channel t a (set_channels p f db) = Some (f x)" by (simp add: find_channel_key)
qed

lemma verified_set_fields [simp]:
  "cc_id (verified_set a e via at now r) = cc_id r" "cc_contactId (verified_set a e via at now r) = cc_contactId r"
  "cc_type (verified_set a e via at now r) = cc_type r" "cc_address (verified_set a e via at now r) = a"
  "cc_status (verified_set a e via at now r) = ChActive" "cc_verifiedVia (verified_set a e via at now r) = Some via"
  "cc_policy (verified_set a e via at now r) = ''allow''" "cc_externalChatId (verified_set a e via at now r) = Some e"
  "cc_verifiedAt (verified_set a e via at now r) = Some at"
  by (simp_all add: verified_set_def)

text \<open>The daemon's id for the channel, where it is a row here, is the row of the same address.\<close>

definition mirror_agrees :: "string \<Rightarrow> string \<Rightarrow> string \<Rightarrow> contact_db \<Rightarrow> bool" where
  "mirror_agrees i t a db = list_all (\<lambda>r. cc_id r = i \<longrightarrow> same_key t a r) (channelRows db)"

lemma mirror_agreesD: "mirror_agrees i t a db \<Longrightarrow> r \<in> set (channelRows db) \<Longrightarrow> cc_id r = i \<Longrightarrow> channel_key r = (t, nocase a)"
  by (auto simp: mirror_agrees_def list_all_iff channel_same_key)

lemma write_verified:
  assumes ok: "directory_ok db" and agrees: "mirror_agrees i t a db"
    and free: "\<And>r. find_channel t a db = Some r \<Longrightarrow> reactivatable allow r"
  shows "\<exists>db' r'. writeVerifiedGatewayChannel i c t a e via at now allow db = (Some True, db') \<and> directory_ok db' \<and>
      find_channel t a db' = Some (verified_set a e via at now r') \<and>
      cc_contactId r' = (case find_channel t a db of Some x \<Rightarrow> cc_contactId x | None \<Rightarrow> c)"
proof (cases "find_channel t a db")
  case (Some x)
  note x = find_channelD [OF Some]
  let ?f = "verified_set a e via at now"
  have only: "r = x" if "r \<in> set (channelRows db)" "channel_key r = (t, nocase a)" for r
    using directory_rowD(2) [OF ok that(1) conjunct1 [OF x]] that(2) x by simp
  have f: "cc_id (?f x) = cc_id x" "channel_key (?f x) = channel_key x" "cc_contactId (?f x) = cc_contactId x"
    using x by (simp_all add: channel_key_def)
  note one = update_one [where f = ?f, OF ok conjunct1 [OF x] conjunct2 [OF x] _ f]
  show ?thesis
  proof (cases "list_ex (\<lambda>r. cc_id r = i \<and> reactivatable allow r) (channelRows db)")
    case True
    then obtain y where y: "y \<in> set (channelRows db)" "cc_id y = i" by (auto simp: list_ex_iff)
    with only mirror_agreesD [OF agrees y] have "y = x" by simp
    have "cc_id r = i \<and> reactivatable allow r \<longleftrightarrow> r = x" if "r \<in> set (channelRows db)" for r
      using that y \<open>y = x\<close> free [OF Some] directory_rowD(1) [OF ok that] x by auto
    from one [OF this] True Some show ?thesis by (auto simp: writeVerifiedGatewayChannel_def Let_def)
  next
    case False
    have "same_key t a r \<and> reactivatable allow r \<longleftrightarrow> r = x" if "r \<in> set (channelRows db)" for r
      using that only free [OF Some] x by (auto simp: channel_same_key)
    moreover from this [of x] x have "list_ex (\<lambda>r. same_key t a r \<and> reactivatable allow r) (channelRows db)"
      by (auto simp: list_ex_iff)
    ultimately show ?thesis using one False Some by (auto simp: writeVerifiedGatewayChannel_def Let_def)
  qed
next
  case None
  let ?db1 = "ensureContactRow c a now db"
  let ?row = "verified_set a e via at now (seeded_channel i c t a None now)"
  have row: "cc_id ?row = i" "channel_key ?row = (t, nocase a)" "cc_contactId ?row = c"
    by (simp_all add: seeded_channel_def channel_key_def)
  from None have none: "channel_key r \<noteq> (t, nocase a)" "cc_id r \<noteq> i" if "r \<in> set (channelRows db)" for r
    using that mirror_agreesD [OF agrees that] by (auto simp: find_channel_None)
  have "\<not> (cc_type x = cc_type ?row \<and> cc_address x = cc_address ?row)" if "x \<in> set (channelRows db)" for x
    using channel_key_exact [of x ?row] none(1) [OF that] row(2) by simp
  with none row(1) have conf: "\<not> channel_conflict ?row ?db1" by (auto simp: channel_conflict_def list_ex_iff)
  then have ins: "insert_channel ?row ?db1 = Some (?db1\<lparr>channelRows := channelRows db @ [?row]\<rparr>)"
    using row(3) by (simp add: insert_channel_def)
  have ok': "directory_ok (?db1\<lparr>channelRows := channelRows db @ [?row]\<rparr>)"
    using directory_insert [OF directory_ensure [OF ok] ins] None by (simp add: seeded_channel_def)
  moreover have "find_channel t a (?db1\<lparr>channelRows := channelRows db @ [?row]\<rparr>) = Some ?row"
    using row(2) by (intro find_channel_key [OF ok']) simp_all
  moreover have "\<not> list_ex (\<lambda>r. cc_id r = i \<and> reactivatable allow r) (channelRows db)"
    "\<not> list_ex (\<lambda>r. same_key t a r \<and> reactivatable allow r) (channelRows db)"
    using none by (auto simp: list_ex_iff channel_same_key)
  moreover have "cc_contactId (seeded_channel i c t a None now) = c" by (simp add: seeded_channel_def)
  ultimately show ?thesis using conf ins None by (auto simp: writeVerifiedGatewayChannel_def Let_def)
qed

text \<open>Moving a channel keeps everything but its owner.\<close>

definition row_essence :: "channel_row \<Rightarrow> string \<times> (string \<times> string) \<times> channel_status \<times> string option" where
  "row_essence r = (cc_id r, channel_key r, cc_status r, cc_verifiedVia r)"

lemma reassign_essence:
  "map row_essence (channelRows (snd (reassignChannelOwner t a i name now db))) = map row_essence (channelRows db)"
  by (auto simp: reassignChannelOwner_def Let_def row_essence_def channel_key_def intro!: map_update_where split: option.splits)

lemma essence_row:
  "map row_essence xs = map row_essence ys \<Longrightarrow> r \<in> set xs \<Longrightarrow> \<exists>r0 \<in> set ys. row_essence r0 = row_essence r"
  by (metis (no_types, lifting) imageE image_eqI list.set_map)

lemma essence_agrees:
  assumes "map row_essence (channelRows db') = map row_essence (channelRows db)" "mirror_agrees j t a db"
  shows "mirror_agrees j t a db'"
  using essence_row [OF assms(1)] assms(2)
  by (fastforce simp: mirror_agrees_def list_all_iff channel_same_key row_essence_def)

lemma essence_find:
  assumes "map row_essence (channelRows db') = map row_essence (channelRows db)" "directory_ok db" "find_channel t a db' = Some r"
  shows "\<exists>r0. find_channel t a db = Some r0 \<and> cc_status r = cc_status r0 \<and> cc_verifiedVia r = cc_verifiedVia r0"
proof -
  from essence_row [OF assms(1)] find_channelD [OF assms(3)]
  obtain r0 where "r0 \<in> set (channelRows db)" "row_essence r0 = row_essence r" by blast
  with find_channel_key [OF assms(2)] find_channelD [OF assms(3)] show ?thesis by (auto simp: row_essence_def)
qed

text \<open>What the caller knows of the ids it passes: the mirror's belongs to this address, a minted one to nobody.\<close>

definition ids_agree :: "string \<Rightarrow> (string \<times> string) option \<Rightarrow> string \<Rightarrow> string \<Rightarrow> contact_db \<Rightarrow> bool" where
  "ids_agree channelUuid mirrorChannel t a db =
     (case mirrorChannel of
        Some (i, _) \<Rightarrow> mirror_agrees i t a db
      | None \<Rightarrow> channelUuid \<notin> cc_id ` set (channelRows db))"

lemma demotion_irrefl: "\<not> isBindingDemotion v v"
  by (simp add: isBindingDemotion_def split: option.split)

lemma demotion_Some: "isBindingDemotion v w \<Longrightarrow> v \<noteq> None"
  by (auto simp: isBindingDemotion_def knownStrengthRank_def split: option.splits)

lemma verified_write_refused:
  assumes "find_channel (vp_sourceChannel p) (canonical_address (vp_sourceChannel p) (vp_externalUserId p)) db = Some r"
    and "\<not> reactivatable (vp_allowRevokedReactivation p) r"
  shows "applyVerifiedChannelGatewayWrites cu chu mc p now db = (NotVerified, db)"
  using assms by (auto simp: applyVerifiedChannelGatewayWrites_def reactivatable_def Let_def)

text \<open>The owner a verified write leaves: a target moves the row, but not where the mirror already has it there.\<close>

definition bound_owner :: "string \<Rightarrow> (string \<times> string) option \<Rightarrow> verified_params \<Rightarrow> channel_row option \<Rightarrow> string" where
  "bound_owner contactUuid mirrorChannel p row =
     (let kept = (\<lambda>c. case row of Some x \<Rightarrow> cc_contactId x | None \<Rightarrow> c)
      in case (mirrorChannel, non_empty (vp_contactId p)) of
           (Some (_, c), Some target) \<Rightarrow> if target = c then kept c else target
         | (Some (_, c), None) \<Rightarrow> kept c
         | (None, Some target) \<Rightarrow> target
         | (None, None) \<Rightarrow> kept (given (vp_contactId p) contactUuid))"

lemma find_set_channels:
  assumes "\<And>r. same_key t a (f r) = same_key t a r"
  shows "find_channel t a (set_channels (same_key t a) f db) = map_option f (find_channel t a db)"
proof -
  have "find (same_key t a) (update_where (same_key t a) f rows) = map_option f (find (same_key t a) rows)" for rows
    using assms by (induction rows) (simp_all add: update_where_def)
  then show ?thesis by (simp add: find_channel_def set_channels_def)
qed

lemma reassign_find:
  "find_channel t a (snd (reassignChannelOwner t a i name now db)) =
     map_option (\<lambda>r. if cc_contactId r = i then r else r\<lparr>cc_contactId := i, cc_updatedAt := Some now\<rparr>) (find_channel t a db)"
proof -
  let ?f = "\<lambda>r. r\<lparr>cc_contactId := i, cc_updatedAt := Some now\<rparr>"
  have "find_channel t a (set_channels (same_key t a) ?f (ensureContactRow i name now db)) = map_option ?f (find_channel t a db)"
    by (simp add: find_set_channels same_key_def)
  then show ?thesis by (auto simp: reassignChannelOwner_def Let_def split: option.split)
qed

lemma verified_write_core:
  fixes p db
  defines "t \<equiv> vp_sourceChannel p" and "a \<equiv> canonical_address (vp_sourceChannel p) (vp_externalUserId p)"
  assumes ok: "directory_ok db" and agrees: "ids_agree chu mc t a db"
    and free: "\<And>r. find_channel t a db = Some r \<Longrightarrow> reactivatable (vp_allowRevokedReactivation p) r"
  shows "\<exists>plan db' r'. applyVerifiedChannelGatewayWrites cu chu mc p now db = (Verified plan, db') \<and> directory_ok db' \<and>
      find_channel t a db' = Some r' \<and> cc_status r' = ChActive \<and> cc_policy r' = ''allow'' \<and>
      cc_externalChatId r' = Some (vp_externalChatId p) \<and>
      (\<forall>r. find_channel t a db = Some r \<and> cc_status r = ChActive \<longrightarrow> \<not> isBindingDemotion (cc_verifiedVia r) (cc_verifiedVia r')) \<and>
      cc_contactId r' = bound_owner cu mc p (find_channel t a db)"
proof -
  let ?allow = "vp_allowRevokedReactivation p" and ?via = "given (vp_verifiedVia p) ''challenge''"
  let ?name = "given (vp_displayName p) (given (vp_username p) a)"
  define kept where "kept = (case find_channel t a db of None \<Rightarrow> None
      | Some r \<Rightarrow> if cc_status r = ChActive \<and> isBindingDemotion (cc_verifiedVia r) (Some ?via) then Some r else None)"
  define via1 where "via1 = (case kept of None \<Rightarrow> ?via | Some r \<Rightarrow> given (cc_verifiedVia r) ?via)"
  define at1 where "at1 = (case kept of None \<Rightarrow> now | Some r \<Rightarrow> given (cc_verifiedAt r) now)"
  have via1: "\<not> isBindingDemotion (cc_verifiedVia r) (Some via1)" if "find_channel t a db = Some r" "cc_status r = ChActive" for r
    using that demotion_irrefl [of "cc_verifiedVia r"] demotion_Some [of "cc_verifiedVia r" "Some ?via"]
    by (auto simp: via1_def kept_def given_def)
  have written: "\<exists>db' r'. writeVerifiedGatewayChannel i c t a (vp_externalChatId p) via1 at1 now ?allow db2 = (Some True, db') \<and>
      directory_ok db' \<and> find_channel t a db' = Some (verified_set a (vp_externalChatId p) via1 at1 now r') \<and>
      cc_contactId r' = (case find_channel t a db2 of Some x \<Rightarrow> cc_contactId x | None \<Rightarrow> c)"
    if "directory_ok db2" "map row_essence (channelRows db2) = map row_essence (channelRows db)" "mirror_agrees i t a db" for i c db2
  proof (rule write_verified [OF that(1) essence_agrees [OF that(2,3)]])
    fix r assume "find_channel t a db2 = Some r"
    from essence_find [OF that(2) ok this] free show "reactivatable ?allow r" by (auto simp: reactivatable_def)
  qed
  have plain: "\<not> (case find_channel t a db of None \<Rightarrow> False | Some r \<Rightarrow> cc_status r = ChBlocked \<or> (cc_status r = ChRevoked \<and> \<not> ?allow))"
    using free by (auto simp: reactivatable_def split: option.split)
  have a: "canonical_address t (vp_externalUserId p) = a" by (simp add: t_def a_def)
  note unf = applyVerifiedChannelGatewayWrites_def Let_def t_def [symmetric] a kept_def [symmetric]
    via1_def [symmetric] at1_def [symmetric]
  show ?thesis
  proof (cases mc)
    case (Some m)
    obtain i c where m: "m = (i, c)" by (cases m)
    let ?bound = "case non_empty (vp_contactId p) of Some c' \<Rightarrow> c' | None \<Rightarrow> c"
    let ?move = "if ?bound \<noteq> c then reassignChannelOwner t a ?bound ?name now db else (None, db)"
    have "directory_ok (snd ?move)" "map row_essence (channelRows (snd ?move)) = map row_essence (channelRows db)"
      using ok by (simp_all add: directory_reassign reassign_essence)
    moreover have "mirror_agrees i t a db" using agrees Some m by (simp add: ids_agree_def)
    ultimately obtain db' r' where
      "writeVerifiedGatewayChannel i ?bound t a (vp_externalChatId p) via1 at1 now ?allow (snd ?move) = (Some True, db')"
      "directory_ok db'" "find_channel t a db' = Some (verified_set a (vp_externalChatId p) via1 at1 now r')"
      "cc_contactId r' = (case find_channel t a (snd ?move) of Some x \<Rightarrow> cc_contactId x | None \<Rightarrow> ?bound)"
      using written by blast
    moreover from this(4) have "cc_contactId r' = bound_owner cu mc p (find_channel t a db)"
      by (auto simp: bound_owner_def Some m reassign_find split: option.splits if_splits)
    ultimately show ?thesis using plain via1 unfolding unf by (auto simp: Some m)
  next
    case None
    let ?c = "given (vp_contactId p) cu"
    let ?move = "if non_empty (vp_contactId p) \<noteq> None then reassignChannelOwner t a ?c ?name now db else (None, ensureContactRow ?c ?name now db)"
    have "directory_ok (snd ?move)" "map row_essence (channelRows (snd ?move)) = map row_essence (channelRows db)"
      using ok by (simp_all add: directory_reassign reassign_essence directory_ensure)
    moreover have "mirror_agrees chu t a db" using agrees None by (auto simp: ids_agree_def mirror_agrees_def list_all_iff)
    ultimately obtain db' r' where
      "writeVerifiedGatewayChannel chu ?c t a (vp_externalChatId p) via1 at1 now ?allow (snd ?move) = (Some True, db')"
      "directory_ok db'" "find_channel t a db' = Some (verified_set a (vp_externalChatId p) via1 at1 now r')"
      "cc_contactId r' = (case find_channel t a (snd ?move) of Some x \<Rightarrow> cc_contactId x | None \<Rightarrow> ?c)"
      using written by blast
    moreover from this(4) have "cc_contactId r' = bound_owner cu mc p (find_channel t a db)"
      by (auto simp: bound_owner_def None reassign_find non_empty_def given_def split: option.splits if_splits)
    ultimately show ?thesis using plain via1 unfolding unf by (auto simp: None)
  qed
qed

section \<open>Blocked channels\<close>

definition blocked_kept :: "contact_db \<Rightarrow> contact_db \<Rightarrow> bool" where
  "blocked_kept db db' \<longleftrightarrow>
     (\<forall>r \<in> set (channelRows db). cc_status r = ChBlocked \<longrightarrow>
        (\<exists>r' \<in> set (channelRows db'). cc_id r' = cc_id r \<and> channel_key r' = channel_key r \<and> cc_status r' = ChBlocked))"

named_theorems blocked_intros

lemma blocked_refl [blocked_intros]: "blocked_kept db db"
  by (auto simp: blocked_kept_def)

lemma blocked_trans: "blocked_kept a b \<Longrightarrow> blocked_kept b c \<Longrightarrow> blocked_kept a c"
  unfolding blocked_kept_def by metis

lemma blocked_same_rows [blocked_intros]: "set (channelRows db) \<subseteq> set (channelRows db') \<Longrightarrow> blocked_kept db db'"
  by (auto simp: blocked_kept_def)

lemma blocked_set [blocked_intros]:
  assumes "\<And>r. r \<in> set (channelRows db) \<Longrightarrow> p r \<Longrightarrow> cc_status r = ChBlocked \<Longrightarrow>
      cc_id (f r) = cc_id r \<and> channel_key (f r) = channel_key r \<and> cc_status (f r) = ChBlocked"
  shows "blocked_kept db (set_channels p f db)"
  unfolding blocked_kept_def
proof (intro ballI impI)
  fix r assume r: "r \<in> set (channelRows db)" "cc_status r = ChBlocked"
  show "\<exists>r' \<in> set (channelRows (set_channels p f db)). cc_id r' = cc_id r \<and> channel_key r' = channel_key r \<and> cc_status r' = ChBlocked"
    using assms [OF r(1) _ r(2)] r by (intro bexI [of _ "if p r then f r else r"]) (auto simp: set_update_where)
qed

lemma blocked_update: "update_channels p f db = Some db' \<Longrightarrow> blocked_kept db (set_channels p f db) \<Longrightarrow> blocked_kept db db'"
  by (auto dest: update_channels_set)

lemma blocked_insert: "insert_channel r db = Some db' \<Longrightarrow> blocked_kept db db'"
  using insert_channel_Some [of r db db'] by (intro blocked_same_rows) auto

lemma blocked_rows_left: "blocked_kept db db' \<Longrightarrow> channelRows db = channelRows db0 \<Longrightarrow> blocked_kept db0 db'"
  by (simp add: blocked_kept_def)

lemma orphan_rows [simp]: "channelRows (deleteContactIfOrphaned e v i db) = channelRows db"
  by (auto simp: deleteContactIfOrphaned_def orphaned_def delete_contact_def list_ex_iff filter_id_conv)

lemma blocked_reassign [blocked_intros]: "blocked_kept db (snd (reassignChannelOwner t a i name now db))"
  by (auto simp: reassignChannelOwner_def Let_def channel_key_def split: option.split
      intro: blocked_same_rows blocked_rows_left [OF blocked_set])

lemma blocked_one:
  assumes "directory_ok db" "x \<in> set (channelRows db)" "cc_status x \<noteq> ChBlocked"
  shows "blocked_kept db (set_channels (\<lambda>r. cc_id r = cc_id x) f db)"
proof (rule blocked_set)
  fix r assume "r \<in> set (channelRows db)" "cc_id r = cc_id x" "cc_status r = ChBlocked"
  with directory_rowD(1) [OF assms(1) this(1) assms(2)] assms(3)
  show "cc_id (f r) = cc_id r \<and> channel_key (f r) = channel_key r \<and> cc_status (f r) = ChBlocked" by simp
qed

lemma blocked_seed_existing:
  assumes "seed_existing a e now x db = Some (res, db')" "directory_ok db" "find_channel t a db = Some x"
  shows "blocked_kept db db'"
proof (cases "cc_status x = ChBlocked")
  case True
  with assms(1) show ?thesis by (simp add: seed_existing_def blocked_refl)
next
  case False
  with assms(1) show ?thesis
    by (auto simp: seed_existing_def refresh_identity_def
        intro: blocked_update [OF _ blocked_one [OF assms(2) conjunct1 [OF find_channelD [OF assms(3)]] False]])
qed

lemma blocked_seed:
  assumes "directory_ok db" "seedInboundChannel i c t a e name now db = Some (res, db')"
  shows "blocked_kept db db'"
proof (cases "find_channel t a db")
  case (Some x)
  with assms show ?thesis by (auto simp: seedInboundChannel_def intro: blocked_seed_existing)
next
  case None
  with assms(2) obtain db1 where db1: "insert_contact (new_contact i name None now) db = Some db1"
    by (auto simp: seedInboundChannel_def split: option.splits)
  then have rows: "channelRows db1 = channelRows db" "\<not> has_contact i db" by (simp_all add: insert_contact_Some new_contact_def)
  then have "channelRows (delete_contact i db1) = channelRows db"
    using directory_rowD(3) [OF assms(1)] by (auto simp: delete_contact_def filter_id_conv)
  moreover from this None have "find_channel t a (delete_contact i db1) = None" by (simp add: find_channel_def)
  ultimately show ?thesis
    using assms(2) None db1 rows
    by (auto simp: seedInboundChannel_def Let_def split: option.splits intro: blocked_same_rows blocked_rows_left dest: blocked_insert)
qed

lemma blocked_write_verified:
  assumes "writeVerifiedGatewayChannel i c t a e via at now allow db = (res, db')"
  shows "blocked_kept db db'"
proof -
  have "blocked_kept db (set_channels (\<lambda>r. q r \<and> reactivatable allow r) (verified_set a e via at now) db)" for q
    by (rule blocked_set) (simp add: reactivatable_def)
  with assms show ?thesis
    by (auto simp: writeVerifiedGatewayChannel_def Let_def split: if_splits option.splits
        intro: blocked_refl blocked_same_rows blocked_update blocked_rows_left dest: blocked_insert)
qed

lemma blocked_apply_verified: "blocked_kept db (snd (applyVerifiedChannelGatewayWrites cu chu mc p now db))"
proof -
  have fin: "blocked_kept db (snd (case w of (None, db') \<Rightarrow> (WriteThrows, db') | (Some wrote, db') \<Rightarrow> (if wrote then Verified plan else NotVerified, db')))"
    if "blocked_kept db (snd w)" for w :: "bool option \<times> contact_db" and plan
    using that by (auto split: prod.splits option.splits)
  have w: "blocked_kept db (snd (writeVerifiedGatewayChannel i c t a e via at now' allow db2))" if "blocked_kept db db2"
    for i c t a e via at now' allow db2
    using blocked_trans [OF that blocked_write_verified] by (metis prod.collapse)
  have m: "blocked_kept db (snd (if b then reassignChannelOwner t a c name now' db else (None, db)))" for b t a c name now'
    by (simp add: blocked_reassign blocked_refl)
  have m': "blocked_kept db (snd (if b then reassignChannelOwner t a c name now' db else (None, ensureContactRow c name now' db)))" for b t a c name now'
    by (simp add: blocked_reassign blocked_same_rows)
  have gate: "blocked_kept db (snd (if b then (NotVerified, db) else x))" if "blocked_kept db (snd x)" for b and x :: "verified_result \<times> contact_db"
    using that by (simp add: blocked_refl)
  show ?thesis
  proof (cases mc)
    case None
    show ?thesis unfolding applyVerifiedChannelGatewayWrites_def Let_def None option.case by (rule gate, rule fin, rule w, rule m')
  next
    case (Some x)
    obtain i c where x: "x = (i, c)" by (cases x)
    show ?thesis unfolding applyVerifiedChannelGatewayWrites_def Let_def Some x option.case prod.case by (rule gate, rule fin, rule w, rule m)
  qed
qed

lemma blocked_upsert_verified: "blocked_kept db (snd (upsertVerifiedContactChannel cu chu lookup mirrored e v soft p now db))"
proof -
  have "blocked_kept db db1" if "applyVerifiedChannelGatewayWrites cu chu mc p now db = (res, db1)" for mc res db1
    using blocked_apply_verified [of db cu chu mc p now] that by simp
  moreover have "blocked_kept db (deleteContactIfOrphaned e v i db1)" if "blocked_kept db db1" for i db1
    using that by (simp add: blocked_kept_def)
  ultimately show ?thesis
    by (auto simp: upsertVerifiedContactChannel_def blocked_refl split: prod.split verified_result.split option.split)
qed

text \<open>A binding takes a blocked row away only where the address it binds has no row: then it is one of the guardian's own of
  the same type.\<close>

lemma blocked_guardian_row:
  assumes ok: "directory_ok db" and fresh: "chu \<notin> cc_id ` set (channelRows db)"
    and bound: "applyGuardianBindingGatewayWrites cu chu p now db = Some (w, db')"
    and r: "r \<in> set (channelRows db)" "cc_status r = ChBlocked"
  shows "(\<exists>r' \<in> set (channelRows db'). cc_id r' = cc_id r \<and> channel_key r' = channel_key r \<and> cc_status r' = ChBlocked) \<or>
    (find_channel (gp_channel p) (gp_externalUserId p) db = None \<and> cc_type r = gp_channel p \<and>
     guardian_by_principal (gp_guardianPrincipalId p) db = Some (cc_contactId r))"
proof -
  from guardian_binding_split [OF ok fresh, of cu p now] obtain w0 i chan where
    split: "applyGuardianBindingGatewayWrites cu chu p now db =
      map_option (Pair w0) (guardian_channel_write p i chan now (guardian_upsert_contact p i now db))"
    and rows: "\<forall>r \<in> set (channelRows db). cc_id r = chan \<longrightarrow> cc_type r = gp_channel p \<and>
         (find_channel (gp_channel p) (gp_externalUserId p) db = None \<longrightarrow>
            guardian_by_principal (gp_guardianPrincipalId p) db = Some (cc_contactId r))"
    by blast
  from split bound have wr: "guardian_channel_write p i chan now (guardian_upsert_contact p i now db) = Some db'"
    by (cases "guardian_channel_write p i chan now (guardian_upsert_contact p i now db)") simp_all
  let ?db1 = "guardian_upsert_contact p i now db"
  have r1: "r \<in> set (channelRows ?db1)" using r(1) by simp
  show ?thesis
  proof (cases "find_channel (gp_channel p) (gp_externalUserId p) db")
    case (Some x)
    with wr have "db' = ?db1 \<or> (cc_status x \<noteq> ChBlocked \<and> update_channels (\<lambda>r. cc_id r = cc_id x) (guardian_set p i now) ?db1 = Some db')"
      by (auto simp: guardian_channel_write_def split: if_splits)
    moreover have "x \<in> set (channelRows ?db1)" using find_channelD [OF Some] by simp
    ultimately have "blocked_kept ?db1 db'"
      using blocked_update [OF _ blocked_one [OF directory_guardian_upsert [OF ok]]] by (auto intro: blocked_refl)
    with r1 r(2) show ?thesis by (auto simp: blocked_kept_def)
  next
    case None
    show ?thesis
    proof (cases "cc_id r = chan")
      case True
      with rows r(1) None show ?thesis by auto
    next
      case False
      have "r \<in> set (channelRows db')"
      proof (cases "list_ex (\<lambda>r. cc_id r = chan) (channelRows ?db1)")
        case True
        with wr None have "update_channels (\<lambda>r. cc_id r = chan) (guardian_set p i now) ?db1 = Some db'"
          by (simp add: guardian_channel_write_def)
        then have "channelRows db' = update_where (\<lambda>r. cc_id r = chan) (guardian_set p i now) (channelRows ?db1)"
          by (auto simp: update_channels_def Let_def split: if_splits)
        with False r(1) show ?thesis by (simp add: set_update_where) (force intro: image_eqI [where x = r])
      next
        case new: False
        with wr None have "insert_channel (guardian_set p i now
            (seeded_channel chan i (gp_channel p) (gp_externalUserId p) None now)) ?db1 = Some db'"
          by (simp add: guardian_channel_write_def)
        with r(1) show ?thesis by (auto simp: insert_channel_def split: if_splits)
      qed
      with r(2) show ?thesis by auto
    qed
  qed
qed

lemma blocked_guardian_binding:
  assumes "directory_ok db" "chu \<notin> cc_id ` set (channelRows db)" "\<not> rebinds_blocked p db"
    and "applyGuardianBindingGatewayWrites cu chu p now db = Some (w, db')"
  shows "blocked_kept db db'"
  using blocked_guardian_row [OF assms(1,2,4)] assms(3)
  by (fastforce simp: blocked_kept_def rebinds_blocked_def list_ex_iff)

lemma blocked_revoke_guardian [blocked_intros]:
  assumes "directory_ok db"
  shows "blocked_kept db (revokeExistingChannelGuardian t now db)"
  unfolding revokeExistingChannelGuardian_def Let_def
proof (rule blocked_set)
  fix r
  assume "r \<in> set (channelRows db)" "cc_id r \<in> set (map cc_id (filter (\<lambda>r. cc_status r = ChActive) (guardian_rows t db)))" "cc_status r = ChBlocked"
  then show "cc_id (r\<lparr>cc_status := ChRevoked, cc_policy := ''deny'', cc_updatedAt := Some now\<rparr>) = cc_id r \<and>
      channel_key (r\<lparr>cc_status := ChRevoked, cc_policy := ''deny'', cc_updatedAt := Some now\<rparr>) = channel_key r \<and>
      cc_status (r\<lparr>cc_status := ChRevoked, cc_policy := ''deny'', cc_updatedAt := Some now\<rparr>) = ChBlocked"
    using directory_rowD(1) [OF assms] by (fastforce simp: guardian_rows_def)
qed

lemma directory_revoke_guardian [directory_intros]: "directory_ok db \<Longrightarrow> directory_ok (revokeExistingChannelGuardian t now db)"
  by (auto simp: revokeExistingChannelGuardian_def Let_def intro!: directory_keep_fields)

lemma blocked_mark_revoked_id:
  assumes "directory_ok db"
  shows "blocked_kept db (snd (markChannelRevokedById i reason now db))"
proof (cases "channel_by_id i db")
  case (Some x)
  from channel_by_idD [OF Some] blocked_one [OF assms, of x] show ?thesis
    by (auto simp: markChannelRevokedById_def Some Let_def intro: blocked_refl)
qed (simp add: markChannelRevokedById_def blocked_refl)

lemma blocked_status [blocked_intros]:
  "directory_ok db \<Longrightarrow> blocked_kept db (snd (markChannelRevoked mirror i reason now db))"
  "blocked_kept db (touchChannelLastSeen i now db)" "blocked_kept db (touchContactInteraction i now db)"
  "blocked_kept db (snd (updateChannelStatus mirror i None policy reason now db))"
  by (auto simp: markChannelRevoked_def blocked_mark_revoked_id touchChannelLastSeen_def touchContactInteraction_def
      updateChannelStatus_def Let_def channel_key_def intro!: blocked_set blocked_refl split: option.split)

lemma blocked_sync_channel:
  assumes "directory_ok db" "sync_channel uuid i now ch db = Some db'"
  shows "blocked_kept db db'"
proof (cases "find (\<lambda>r. cc_contactId r = i \<and> same_key (ci_type ch) (ci_address ch) r) (channelRows db)")
  case (Some x)
  have "blocked_kept db (set_channels (\<lambda>r. cc_id r = cc_id x) (\<lambda>_. merge_channel ch now x) db)"
    using directory_rowD(1) [OF assms(1)] find_someD [OF Some]
    by (intro blocked_set) (auto simp: merge_channel_def Let_def channel_key_def)
  with Some assms(2) show ?thesis by (simp add: sync_channel_def)
next
  case None
  with assms(2) show ?thesis by (auto simp: sync_channel_def blocked_refl split: if_splits dest: blocked_insert)
qed

lemma blocked_syncChannels: "directory_ok db \<Longrightarrow> blocked_kept db (snd (syncChannels uuids i now chs db))"
proof (induction chs arbitrary: uuids db)
  case (Cons ch chs)
  show ?case
  proof (cases "sync_channel (uuids 0) i now ch db")
    case (Some db1)
    from blocked_trans [OF blocked_sync_channel [OF Cons.prems Some] Cons.IH [OF directory_sync_channel [OF Cons.prems Some]]] Some
    show ?thesis by simp
  qed (simp add: blocked_refl)
qed (simp add: blocked_refl)

lemma upsert_target_rows: "upsert_target uuid p chans now db = Some (i, created, db1) \<Longrightarrow> channelRows db1 = channelRows db"
  by (auto simp: upsert_target_def update_contact_def insert_contact_Some Let_def split: option.splits if_splits)

lemma blocked_upsert:
  assumes "directory_ok db"
  shows "blocked_kept db (snd (upsertContactGatewayWrites uuid uuids p now db))"
proof -
  let ?chans = "map (\<lambda>ch. ch\<lparr>ci_address := canonical_address (ci_type ch) (ci_address ch)\<rparr>) (given (up_channels p) [])"
  show ?thesis
  proof (cases "upsert_target uuid p ?chans now db")
    case (Some x)
    obtain i created db1 where x: "x = (i, created, db1)" by (cases x)
    from blocked_rows_left [OF blocked_syncChannels [OF directory_upsert_target [OF assms Some [unfolded x]], of uuids i now ?chans]
        upsert_target_rows [OF Some [unfolded x]]]
    show ?thesis by (auto simp: upsertContactGatewayWrites_def Let_def Some x split: prod.split)
  qed (simp add: upsertContactGatewayWrites_def Let_def blocked_refl)
qed

end
