(* ===== verification/Contact_Directory.thy ===== *)
theory Contact_Directory
  imports Guardian_Bindings
begin

text \<open>
  The directory of contacts as a transition system: the requests that change it
  (\<^verbatim>\<open>http/routes/contacts-control-plane-proxy.ts\<close>) and a step for each write of \<open>Contacts\<close> and
  \<open>Guardian_Bindings\<close>, in any order.

  \<^item> A request that awaits the daemon between its checks and its write is two definitions, so that other steps
    may come between them.
  \<^item> \<open>dir_step g\<close>: \<open>g\<close> allows the steps that decide about a channel on the guardian's behalf. What needs no
    such decision never lifts a block.
\<close>

section \<open>The requests\<close>

datatype record_error = RecordBadRequest | RecordNotFound | RecordForbidden | RecordStale | RecordConflict | RecordThrows

definition record_error_status :: "record_error \<Rightarrow> nat" where
  "record_error_status e =
     (case e of RecordBadRequest \<Rightarrow> 400 | RecordNotFound \<Rightarrow> 404 | RecordForbidden \<Rightarrow> 403 | RecordStale \<Rightarrow> 409
      | RecordConflict \<Rightarrow> 409 | RecordThrows \<Rightarrow> 500)"

definition VALID_CHANNEL_STATUSES :: "(string \<times> channel_status) list" where
  "VALID_CHANNEL_STATUSES =
     [(''active'', ChActive), (''pending'', ChPending), (''revoked'', ChRevoked), (''blocked'', ChBlocked),
      (''unverified'', ChUnverified)]"

definition VALID_CHANNEL_POLICIES :: "string list" where
  "VALID_CHANNEL_POLICIES = [''allow'', ''deny'']"

definition updateContactChannelCore ::
  "(string \<times> string) option \<Rightarrow> string \<Rightarrow> string option \<Rightarrow> string option \<Rightarrow> string option \<Rightarrow> int \<Rightarrow> contact_db \<Rightarrow>
     (record_error + channel_row) \<times> contact_db" where
  "updateContactChannelCore mirror channelId status policy reason now db =
     (if status \<noteq> None \<and> map_of VALID_CHANNEL_STATUSES (the status) = None then (Inl RecordBadRequest, db)
      else if policy \<noteq> None \<and> the policy \<notin> set VALID_CHANNEL_POLICIES then (Inl RecordBadRequest, db)
      else if status = None \<and> policy = None then (Inl RecordBadRequest, db)
      else
        case updateChannelStatus mirror channelId (Option.bind status (map_of VALID_CHANNEL_STATUSES)) policy reason now db of
          (Inl _, db1) \<Rightarrow> (Inl RecordConflict, db1)
        | (Inr None, db1) \<Rightarrow> (Inl RecordNotFound, db1)
        | (Inr (Some r), db1) \<Rightarrow> (Inr r, db1))"

datatype record_operation = CreateRecord | UpdateRecord

text \<open>The name of a record, without its notes, which only the daemon keeps. \<open>uuid\<close> names a created contact.\<close>

definition upsertContactRecordCore ::
  "string \<Rightarrow> record_operation \<Rightarrow> string option \<Rightarrow> string option \<Rightarrow> int \<Rightarrow> contact_db \<Rightarrow>
     (record_error + string \<times> bool) \<times> contact_db" where
  "upsertContactRecordCore uuid op contactId displayName now db =
     (let i = non_empty (map_option js_trim contactId);
          name = map_option js_trim displayName;
          write = (\<lambda>target. case upsertContactGatewayWrites uuid (\<lambda>_. [])
                      \<lparr>up_id = target, up_displayName = name, up_autoApproveThreshold = None, up_channels = None\<rparr> now db of
                    (None, db1) \<Rightarrow> (Inl RecordThrows, db1)
                  | (Some r, db1) \<Rightarrow> (Inr r, db1))
      in if op = UpdateRecord \<and> i = None then (Inl RecordBadRequest, db)
         else if name = Some [] then (Inl RecordBadRequest, db)
         else
           case op of
             CreateRecord \<Rightarrow> if name = None then (Inl RecordBadRequest, db) else write None
           | UpdateRecord \<Rightarrow> if has_contact (the i) db then write i else (Inl RecordNotFound, db))"

text \<open>Deleting a contact: what is checked before the daemon is asked for the contact, and the transaction after.\<close>

definition admit_delete :: "bool \<Rightarrow> string \<Rightarrow> contact_db \<Rightarrow> record_error option" where
  "admit_delete inMirror contactId db =
     (case contact_by_id contactId db of
        None \<Rightarrow> if inMirror then None else Some RecordNotFound
      | Some c \<Rightarrow> if ct_role c = RoleGuardian then Some RecordForbidden else None)"

definition commit_delete ::
  "(string \<times> string) list option \<Rightarrow> string \<Rightarrow> contact_db \<Rightarrow> record_error option \<times> contact_db" where
  "commit_delete expectedChannels contactId db =
     (let current = set (map channel_key (filter (\<lambda>r. cc_contactId r = contactId) (channelRows db)));
          changed = (case expectedChannels of None \<Rightarrow> False | Some shown \<Rightarrow> set (map (\<lambda>(t, a). (t, nocase a)) shown) \<noteq> current)
      in if changed then (Some RecordStale, db) else (None, delete_contact contactId db))"

definition deleteContactCore ::
  "bool \<Rightarrow> (string \<times> string) list option \<Rightarrow> string \<Rightarrow> contact_db \<Rightarrow> record_error option \<times> contact_db" where
  "deleteContactCore inMirror expectedChannels contactId db =
     (case admit_delete inMirror contactId db of
        Some e \<Rightarrow> (Some e, db)
      | None \<Rightarrow> commit_delete expectedChannels contactId db)"

section \<open>The transition system\<close>

text \<open>What the caller of a verified write knows of the ids it passes.\<close>

definition verified_ids :: "string \<Rightarrow> (string \<times> string) option option \<Rightarrow> verified_params \<Rightarrow> contact_db \<Rightarrow> bool" where
  "verified_ids channelUuid lookup p db =
     ids_agree channelUuid (given lookup None) (vp_sourceChannel p)
       (canonical_address (vp_sourceChannel p) (vp_externalUserId p)) db"

definition fresh_channel :: "string \<Rightarrow> contact_db \<Rightarrow> bool" where
  "fresh_channel i db = (i \<notin> cc_id ` set (channelRows db))"

text \<open>Whether a status written to a channel may need the guardian's decision.\<close>

definition keeps_blocks :: "string option \<Rightarrow> bool" where
  "keeps_blocks status = (status \<in> {None, Some ''revoked'', Some ''blocked''})"

inductive dir_step :: "bool \<Rightarrow> contact_db \<Rightarrow> contact_db \<Rightarrow> bool" where
  seed: "upsertContactChannel cu chu t a chat name user now db = Some (res, db') \<Longrightarrow> dir_step g db db'"
| upsert: "upsertContactGatewayWrites cu uuids p now db = (res, db') \<Longrightarrow> dir_step g db db'"
| edit: "upsertContactRecordCore cu op i name now db = (res, db') \<Longrightarrow> dir_step g db db'"
| verified: "verified_ids chu lookup vp db \<Longrightarrow>
    upsertVerifiedContactChannel cu chu lookup mirrored eligible vetoed soft vp now db = (wrote, db') \<Longrightarrow> dir_step g db db'"
| reassign: "reassignChannelOwner t a i name now db = (donor, db') \<Longrightarrow> dir_step g db db'"
| seen: "dir_step g db (touchChannelLastSeen i now db)"
| interaction: "dir_step g db (touchContactInteraction i now db)"
| revoke: "markChannelRevoked mirror i reason now db = (revoked, db') \<Longrightarrow> dir_step g db db'"
| revoke_guardian: "dir_step g db (revokeExistingChannelGuardian t now db)"
| merge: "mergeContacts keepId mergeId now db = (merged, db') \<Longrightarrow> dir_step g db db'"
| invite: "has_contact i db \<Longrightarrow> dir_step g db (db\<lparr>inviteContactIds := inviteContactIds db @ [i]\<rparr>)"
| collect: "dir_step g db (deleteContactIfOrphaned eligible vetoed i db)"
| bind: "fresh_channel chu db \<Longrightarrow> g \<or> \<not> rebinds_blocked gp db \<Longrightarrow>
    createGuardianBinding eligible vetoed cu chu gp now db = Some (writes, db') \<Longrightarrow> dir_step g db db'"
| channel: "g \<or> keeps_blocks status \<Longrightarrow>
    updateContactChannelCore mirror i status policy reason now db = (updated, db') \<Longrightarrow> dir_step g db db'"
| attest: "markChannelVerified mirror i via now db = (marked, db') \<Longrightarrow> dir_step True db db'"
| delete: "commit_delete expected i db = (failed, db') \<Longrightarrow> dir_step True db db'"

lemma snd_eq: "f = (x, y) \<Longrightarrow> snd f = y"
  by simp

section \<open>The tables stay consistent\<close>

lemma directory_channel_core [directory_intros]:
  "directory_ok db \<Longrightarrow> directory_ok (snd (updateContactChannelCore mirror i status policy reason now db))"
  using directory_status(1) [of db mirror i "Option.bind status (map_of VALID_CHANNEL_STATUSES)" policy reason now]
  by (auto simp: updateContactChannelCore_def split: prod.splits sum.splits option.splits)

lemma record_core_writes:
  "snd (upsertContactRecordCore uuid op i name now db) = db \<or>
     (\<exists>p. snd (upsertContactRecordCore uuid op i name now db) = snd (upsertContactGatewayWrites uuid (\<lambda>_. []) p now db))"
proof -
  define wr where "wr target = (case upsertContactGatewayWrites uuid (\<lambda>_. [])
      \<lparr>up_id = target, up_displayName = map_option js_trim name, up_autoApproveThreshold = None, up_channels = None\<rparr> now db of
        (None, db1) \<Rightarrow> (Inl RecordThrows, db1) | (Some r, db1) \<Rightarrow> (Inr r, db1))" for target
  have "\<exists>p. snd (wr target) = snd (upsertContactGatewayWrites uuid (\<lambda>_. []) p now db)" for target
    by (intro exI [of _ "\<lparr>up_id = target, up_displayName = map_option js_trim name, up_autoApproveThreshold = None, up_channels = None\<rparr>"])
      (simp add: wr_def split: prod.split option.split)
  then show ?thesis
    unfolding upsertContactRecordCore_def Let_def wr_def [symmetric] by (cases op) simp_all
qed

lemma directory_record_core [directory_intros]:
  "directory_ok db \<Longrightarrow> directory_ok (snd (upsertContactRecordCore uuid op i name now db))"
  using record_core_writes [of uuid op i name now db] by (auto simp: directory_upsert)

lemma directory_commit_delete [directory_intros]: "directory_ok db \<Longrightarrow> directory_ok (snd (commit_delete expected i db))"
  by (simp add: commit_delete_def Let_def directory_delete)

lemma directory_apply_verified:
  fixes p db
  defines "t \<equiv> vp_sourceChannel p" and "a \<equiv> canonical_address (vp_sourceChannel p) (vp_externalUserId p)"
  assumes ok: "directory_ok db" and agrees: "ids_agree chu mc t a db"
  shows "directory_ok (snd (applyVerifiedChannelGatewayWrites cu chu mc p now db))"
proof (cases "\<exists>r. find_channel t a db = Some r \<and> \<not> reactivatable (vp_allowRevokedReactivation p) r")
  case True
  then show ?thesis using ok verified_write_refused unfolding t_def a_def by fastforce
next
  case False
  with verified_write_core [OF ok agrees [unfolded t_def a_def], of cu now] obtain plan db' where
    "applyVerifiedChannelGatewayWrites cu chu mc p now db = (Verified plan, db')" "directory_ok db'"
    unfolding t_def a_def by blast
  then show ?thesis by simp
qed

lemma directory_upsert_verified [directory_intros]:
  assumes "directory_ok db" "verified_ids chu lookup p db"
  shows "directory_ok (snd (upsertVerifiedContactChannel cu chu lookup mirrored e v soft p now db))"
proof -
  have "directory_ok db1" if "applyVerifiedChannelGatewayWrites cu chu (given lookup None) p now db = (res, db1)" for res db1
    using directory_apply_verified [OF assms(1) assms(2) [unfolded verified_ids_def], of cu now] that by simp
  then show ?thesis
    using assms(1)
    by (auto simp: upsertVerifiedContactChannel_def directory_orphan split: prod.split verified_result.split option.split)
qed

lemma directory_create_binding:
  assumes "directory_ok db" "fresh_channel chu db" "createGuardianBinding e v cu chu p now db = Some (w, db')"
  shows "directory_ok db'"
  using directory_guardian_binding [OF assms(1), of chu cu p now] assms(2,3)
  by (auto simp: createGuardianBinding_def fresh_channel_def directory_orphan split: option.splits)

lemma directory_invite [directory_intros]: "directory_ok db \<Longrightarrow> directory_ok (db\<lparr>inviteContactIds := is\<rparr>)"
  by (simp add: directory_ok_def has_contact_def)

lemma directory_step: "dir_step g db db' \<Longrightarrow> directory_ok db \<Longrightarrow> directory_ok db'"
proof (induction rule: dir_step.induct)
  case (seed cu chu t a chat name user now db res db' g)
  then show ?case by (auto simp: upsertContactChannel_def Let_def intro: directory_seed)
next
  case (bind chu db g gp eligible vetoed cu now writes db')
  then show ?case by (blast intro: directory_create_binding)
qed (auto dest!: snd_eq intro: directory_intros)

section \<open>Blocks\<close>

lemma move_channels_kept:
  assumes "directory_ok db" "has_contact keepId db" "r \<in> set (channelRows db)"
    and "\<forall>ch \<in> set chs. \<exists>x \<in> set (channelRows db). cc_id x = cc_id ch \<and> channel_key x = channel_key ch"
  shows "\<exists>r' \<in> set (channelRows (move_channels keepId now chs db)). row_essence r' = row_essence r \<and>
      (cc_id r \<in> cc_id ` set chs \<or> cc_contactId r = keepId \<longrightarrow> cc_contactId r' = keepId) \<and>
      (cc_contactId r' = keepId \<or> cc_contactId r' = cc_contactId r)"
  using assms
proof (induction chs arbitrary: db r)
  case (Cons ch chs)
  let ?f = "\<lambda>r. r\<lparr>cc_contactId := keepId, cc_updatedAt := Some now\<rparr>"
  let ?owned = "list_ex (\<lambda>r. cc_contactId r = keepId \<and> same_key (cc_type ch) (cc_address ch) r) (channelRows db)"
  let ?db1 = "if ?owned then db else set_channels (\<lambda>r. cc_id r = cc_id ch) ?f db"
  define step where "step y = (if \<not> ?owned \<and> cc_id y = cc_id ch then ?f y else y)" for y :: channel_row
  have step_in: "step y \<in> set (channelRows ?db1)" if "y \<in> set (channelRows db)" for y
    using that by (auto simp: step_def set_update_where)
  have step: "row_essence (step y) = row_essence y" "cc_id (step y) = cc_id y" "channel_key (step y) = channel_key y"
    "cc_contactId (step y) = keepId \<or> cc_contactId (step y) = cc_contactId y" for y
    by (simp_all add: step_def row_essence_def channel_key_def)
  from Cons.prems(4) obtain x where x: "x \<in> set (channelRows db)" "cc_id x = cc_id ch" "channel_key x = channel_key ch" by auto
  have ok: "directory_ok ?db1" "has_contact keepId ?db1"
    using Cons.prems(1,2) directory_move_one by auto
  have chs: "\<forall>c \<in> set chs. \<exists>y \<in> set (channelRows ?db1). cc_id y = cc_id c \<and> channel_key y = channel_key c"
  proof
    fix c assume "c \<in> set chs"
    with Cons.prems(4) obtain y where y: "y \<in> set (channelRows db)" "cc_id y = cc_id c" "channel_key y = channel_key c" by auto
    from y(2,3) show "\<exists>y \<in> set (channelRows ?db1). cc_id y = cc_id c \<and> channel_key y = channel_key c"
      by (intro bexI [OF _ step_in [OF y(1)]]) (simp add: step)
  qed
  have owned: "cc_contactId (step r) = keepId" if "cc_id r = cc_id ch"
  proof (cases ?owned)
    case True
    then obtain z where z: "z \<in> set (channelRows db)" "cc_contactId z = keepId" "channel_key z = channel_key ch"
      by (auto simp: list_ex_iff channel_same_key channel_key_def)
    have "r = x" using directory_rowD(1) [OF Cons.prems(1,3) x(1)] that x(2) by simp
    moreover have "x = z" using directory_rowD(2) [OF Cons.prems(1) x(1) z(1)] x(3) z(3) by simp
    ultimately show ?thesis using z(2) step(4) [of r] by auto
  qed (use that in \<open>simp add: step_def\<close>)
  from Cons.IH [OF ok step_in [OF Cons.prems(3)] chs] obtain r' where
    r': "r' \<in> set (channelRows (move_channels keepId now chs ?db1))" "row_essence r' = row_essence r"
    "cc_id r \<in> cc_id ` set chs \<or> cc_contactId (step r) = keepId \<longrightarrow> cc_contactId r' = keepId"
    "cc_contactId r' = keepId \<or> cc_contactId r' = cc_contactId (step r)" unfolding step by blast
  have "cc_id r \<in> cc_id ` set (ch # chs) \<or> cc_contactId r = keepId \<longrightarrow> cc_contactId r' = keepId"
    using r'(3) owned step(4) [of r] by auto
  moreover have "cc_contactId r' = keepId \<or> cc_contactId r' = cc_contactId r" using r'(4) step(4) [of r] by auto
  ultimately show ?case using r'(1,2) by auto
qed auto


lemma blocked_merge: 
  assumes ok: "directory_ok db"
  shows "blocked_kept db (snd (mergeContacts keepId mergeId now db))"
proof (cases "keepId = mergeId \<or> \<not> has_contact keepId db \<or> (\<forall>m. contact_by_id mergeId db = Some m \<longrightarrow> ct_role m = RoleGuardian)")
  case True
  then show ?thesis by (auto simp: mergeContacts_def blocked_refl split: option.split)
next
  case False
  then obtain m where m: "keepId \<noteq> mergeId" "has_contact keepId db" "contact_by_id mergeId db = Some m" "ct_role m \<noteq> RoleGuardian" by auto
  let ?db1 = "set_contacts (\<lambda>c. ct_id c = keepId) (\<lambda>c. c\<lparr>ct_updatedAt := now\<rparr>) db"
  let ?chs = "filter (\<lambda>r. cc_contactId r = mergeId) (channelRows ?db1)"
  have ok1: "directory_ok ?db1" "has_contact keepId ?db1"
    using ok m(2) by (simp_all add: directory_set_contacts has_contact_set_contacts)
  have "\<exists>r' \<in> set (channelRows (delete_contact mergeId (move_channels keepId now ?chs ?db1))).
      cc_id r' = cc_id r \<and> channel_key r' = channel_key r \<and> cc_status r' = ChBlocked"
    if r: "r \<in> set (channelRows db)" "cc_status r = ChBlocked" for r
  proof -
    from move_channels_kept [OF ok1, of r ?chs now] r obtain r' where
      r': "r' \<in> set (channelRows (move_channels keepId now ?chs ?db1))" "row_essence r' = row_essence r"
      "cc_id r \<in> cc_id ` set ?chs \<or> cc_contactId r = keepId \<longrightarrow> cc_contactId r' = keepId"
      "cc_contactId r' = keepId \<or> cc_contactId r' = cc_contactId r" by auto
    have "cc_contactId r' \<noteq> mergeId" using r'(3,4) m(1) r(1) by (cases "cc_contactId r = mergeId") auto
    with r'(1,2) r(2) show ?thesis by (intro bexI [of _ r']) (auto simp: row_essence_def delete_contact_def)
  qed
  then show ?thesis using m by (simp add: mergeContacts_def Let_def blocked_kept_def)
qed

lemma blocked_channel_core:
  assumes "directory_ok db" "keeps_blocks status"
  shows "blocked_kept db (snd (updateContactChannelCore mirror i status policy reason now db))"
proof -
  let ?st = "Option.bind status (map_of VALID_CHANNEL_STATUSES)"
  have st: "?st \<in> {None, Some ChRevoked, Some ChBlocked}"
    using assms(2) by (auto simp: keeps_blocks_def VALID_CHANNEL_STATUSES_def)
  have "blocked_kept db (snd (updateChannelStatus mirror i ?st policy reason now db))"
  proof (cases "resolveGatewayChannel mirror i db")
    case (Some ch)
    let ?upd = "\<lambda>r. (case policy of None \<Rightarrow> id | Some p \<Rightarrow> (\<lambda>x. x\<lparr>cc_policy := p\<rparr>))
        ((case ?st of None \<Rightarrow> id | Some st \<Rightarrow> with_status st reason) (r\<lparr>cc_updatedAt := Some now\<rparr>))"
    have ch: "ch \<in> set (channelRows db)"
      using Some by (auto simp: resolveGatewayChannel_def dest: channel_by_idD find_channelD split: option.splits)
    have "blocked_kept db (set_channels (\<lambda>r. cc_id r = cc_id ch) ?upd db)" if "\<not> (?st = Some ChRevoked \<and> cc_status ch = ChBlocked)"
    proof (rule blocked_set)
      fix r assume "r \<in> set (channelRows db)" "cc_id r = cc_id ch" "cc_status r = ChBlocked"
      moreover from this have "r = ch" using directory_rowD(1) [OF assms(1) _ ch] by blast
      ultimately show "cc_id (?upd r) = cc_id r \<and> channel_key (?upd r) = channel_key r \<and> cc_status (?upd r) = ChBlocked"
        using st that by (auto simp: with_status_def channel_key_def split: option.split)
    qed
    then show ?thesis by (simp add: updateChannelStatus_def Some Let_def blocked_refl)
  qed (simp add: updateChannelStatus_def blocked_refl)
  then show ?thesis
    by (auto simp: updateContactChannelCore_def blocked_refl split: prod.split sum.split option.split)
qed

lemma blocked_collect: "blocked_kept db (deleteContactIfOrphaned e v i db)"
  by (simp add: blocked_same_rows)

lemma blocked_record_core: "directory_ok db \<Longrightarrow> blocked_kept db (snd (upsertContactRecordCore uuid op i name now db))"
  using record_core_writes [of uuid op i name now db] by (auto simp: blocked_upsert blocked_refl)

lemma blocked_create_binding:
  assumes "directory_ok db" "fresh_channel chu db" "\<not> rebinds_blocked p db" "createGuardianBinding e v cu chu p now db = Some (w, db')"
  shows "blocked_kept db db'"
proof -
  from assms(4) obtain db1 where db1: "applyGuardianBindingGatewayWrites cu chu p now db = Some (w, db1)"
    and db': "db' = db1 \<or> (\<exists>i. db' = deleteContactIfOrphaned e v i db1)"
    by (fastforce simp: createGuardianBinding_def split: option.splits)
  from blocked_guardian_binding [OF assms(1) _ assms(3) db1] assms(2) have "blocked_kept db db1"
    by (simp add: fresh_channel_def)
  with db' show ?thesis using blocked_trans [OF _ blocked_collect] by blast
qed

text \<open>Only steps that decide on the guardian's behalf lift a block.\<close>

lemma blocked_invite [blocked_intros]: "blocked_kept db (db\<lparr>inviteContactIds := is\<rparr>)"
  by (simp add: blocked_same_rows)

lemma blocked_step:
  assumes "dir_step g db db'" "directory_ok db" "\<not> g"
  shows "blocked_kept db db'"
  using assms
proof (induction rule: dir_step.induct)
  case (seed cu chu t a chat name user now db res db' g)
  then show ?case by (auto simp: upsertContactChannel_def Let_def intro: blocked_seed)
next
  case (bind chu db g gp eligible vetoed cu now writes db')
  then show ?case by (blast intro: blocked_create_binding)
next
  case (channel g status mirror i policy reason now db updated db')
  then show ?case using blocked_channel_core by (metis snd_conv)
qed (auto dest!: snd_eq intro: blocked_intros blocked_upsert blocked_record_core blocked_upsert_verified blocked_merge blocked_collect)

lemma blocked_find:
  assumes "blocked_kept db db'" "directory_ok db'" "gatewayChannelStatus t a db = Some ChBlocked"
  shows "gatewayChannelStatus t a db' = Some ChBlocked"
proof -
  from assms(3) obtain r where r: "r \<in> set (channelRows db)" "channel_key r = (t, nocase a)" "cc_status r = ChBlocked"
    by (auto simp: gatewayChannelStatus_def dest: find_channelD)
  with assms(1) obtain r' where r': "r' \<in> set (channelRows db')" "channel_key r' = (t, nocase a)" "cc_status r' = ChBlocked"
    by (auto simp: blocked_kept_def)
  with find_channel_key [OF assms(2)] show ?thesis by (simp add: gatewayChannelStatus_def)
qed

lemma dir_step_mono: "dir_step g db db' \<Longrightarrow> dir_step True db db'"
  by (induction rule: dir_step.induct) (auto intro: dir_step.intros)

text \<open>Which block a binding can lift: that of an address of the guardian it binds, on a channel where the new address has no
  row.\<close>

lemma binding_lifts:
  assumes ok: "directory_ok db" and fresh: "fresh_channel chu db" and bound: "createGuardianBinding e v cu chu p now db = Some (w, db')"
    and blocked: "gatewayChannelStatus t a db = Some ChBlocked"
  shows "gatewayChannelStatus t a db' = Some ChBlocked \<or>
    (gp_channel p = t \<and> find_channel t (gp_externalUserId p) db = None \<and>
     (\<exists>r. find_channel t a db = Some r \<and> guardian_by_principal (gp_guardianPrincipalId p) db = Some (cc_contactId r)))"
proof -
  have ok': "directory_ok db'"
    using directory_step [OF dir_step.bind [OF fresh _ bound, where g = True] ok] by simp
  from blocked obtain r where r: "find_channel t a db = Some r" "cc_status r = ChBlocked" by (auto simp: gatewayChannelStatus_def)
  then have row: "r \<in> set (channelRows db)" "channel_key r = (t, nocase a)" by (auto dest: find_channelD)
  from bound obtain db1 where db1: "applyGuardianBindingGatewayWrites cu chu p now db = Some (w, db1)"
    and rows: "channelRows db' = channelRows db1"
    by (fastforce simp: createGuardianBinding_def split: option.splits)
  have "chu \<notin> cc_id ` set (channelRows db)" using fresh by (simp add: fresh_channel_def)
  from blocked_guardian_row [OF ok this db1 row(1) r(2)] show ?thesis
  proof
    assume "\<exists>r' \<in> set (channelRows db1). cc_id r' = cc_id r \<and> channel_key r' = channel_key r \<and> cc_status r' = ChBlocked"
    then obtain r' where r': "r' \<in> set (channelRows db')" "channel_key r' = (t, nocase a)" "cc_status r' = ChBlocked"
      using rows row(2) by auto
    then have "find_channel t a db' = Some r'" by (intro find_channel_key [OF ok'])
    with r'(3) show ?thesis by (simp add: gatewayChannelStatus_def)
  qed (use row(2) r(1) in \<open>auto simp: channel_key_def\<close>)
qed

lemma blocked_run:
  "(dir_step False)\<^sup>*\<^sup>* db db' \<Longrightarrow> directory_ok db \<Longrightarrow> gatewayChannelStatus t a db = Some ChBlocked \<Longrightarrow>
     directory_ok db' \<and> gatewayChannelStatus t a db' = Some ChBlocked"
  by (induction rule: rtranclp_induct) (auto intro: directory_step blocked_find blocked_step)

section \<open>Properties\<close>

text \<open>C3: whatever writes the directory receives, in any order, its tables stay consistent: identifiers are unique,
  no two channels share a type and an address up to case, every channel belongs to a contact.\<close>

theorem directory_run_ok: "(dir_step g)\<^sup>*\<^sup>* db db' \<Longrightarrow> directory_ok db \<Longrightarrow> directory_ok db'"
  by (induction rule: rtranclp_induct) (auto intro: directory_step)

definition empty_directory :: contact_db where
  "empty_directory = \<lparr>contactRows = [], channelRows = [], inviteContactIds = []\<rparr>"

lemma empty_directory_ok: "directory_ok empty_directory"
  by (simp add: empty_directory_def directory_ok_def)

theorem directory_run_ok_witness:
  "directory_ok (the (map_option snd (upsertContactChannel ''c'' ''ch'' ''phone'' ''4155550100'' None None None 0 empty_directory)))"
proof (rule directory_run_ok [OF r_into_rtranclp [where r = "dir_step False", OF dir_step.seed] empty_directory_ok])
  show "upsertContactChannel ''c'' ''ch'' ''phone'' ''4155550100'' None None None 0 empty_directory =
      Some (SeedCreated ''c'' ''ch'', the (map_option snd
        (upsertContactChannel ''c'' ''ch'' ''phone'' ''4155550100'' None None None 0 empty_directory)))"
    by (simp add: upsertContactChannel_def seedInboundChannel_def insert_contact_def has_contact_def insert_channel_def
        channel_conflict_def find_channel_def empty_directory_def new_contact_def seeded_channel_def Let_def)
qed

text \<open>a blocked sender stays blocked. No sequence of inbound messages, verifications, redemptions, upserts, revocations,
  merges and collections lifts a block: only a status the guardian writes, a manual attestation, a deletion of the
  contact or a rebind of the guardian's own contact does.\<close>

theorem block_stands:
  "(dir_step False)\<^sup>*\<^sup>* db db' \<Longrightarrow> directory_ok db \<Longrightarrow> gatewayChannelStatus t a db = Some ChBlocked \<Longrightarrow>
     gatewayChannelStatus t a db' = Some ChBlocked"
  by (rule conjunct2 [OF blocked_run])

text \<open>One contact with one channel of the given status.\<close>

definition one_channel :: "contact_role \<Rightarrow> string option \<Rightarrow> channel_status \<Rightarrow> contact_db" where
  "one_channel role pid st =
     \<lparr>contactRows = [\<lparr>ct_id = ''c'', ct_displayName = ''n'', ct_role = role, ct_principalId = pid, ct_autoApproveThreshold = None,
                      ct_createdAt = 0, ct_updatedAt = 0\<rparr>],
      channelRows = [(seeded_channel ''ch'' ''c'' ''slack'' ''U1'' None 0)\<lparr>cc_status := st\<rparr>], inviteContactIds = []\<rparr>"

lemma one_channel_ok: "directory_ok (one_channel role pid st)"
  by (simp add: one_channel_def directory_ok_def has_contact_def seeded_channel_def)

theorem block_stands_witness:
  "gatewayChannelStatus ''slack'' ''U1''
     (snd (mergeContacts ''c'' ''d'' 1 (touchContactInteraction ''ch'' 1 (one_channel RoleContact None ChBlocked)))) = Some ChBlocked"
  by (rule block_stands [OF converse_rtranclp_into_rtranclp [where r = "dir_step False", OF dir_step.interaction
        r_into_rtranclp [where r = "dir_step False", OF dir_step.merge]] one_channel_ok])
    (rule prod.collapse [symmetric], simp add: gatewayChannelStatus_def find_channel_def one_channel_def same_key_def seeded_channel_def)

text \<open>C5: what a verified binding writes. If the address has no row or one that may be reactivated, the call succeeds, the
  row of the address is active with policy allow and the proven chat, and its provenance is never weaker than that of an
  active row before; otherwise nothing is written. The caller's ids agree with the tables.\<close>

theorem verified_binding:
  fixes p db
  defines "t \<equiv> vp_sourceChannel p" and "a \<equiv> canonical_address (vp_sourceChannel p) (vp_externalUserId p)"
  assumes "directory_ok db" "ids_agree chu mc t a db"
  shows "case applyVerifiedChannelGatewayWrites cu chu mc p now db of
      (Verified plan, db') \<Rightarrow>
        (\<exists>r'. find_channel t a db' = Some r' \<and> cc_status r' = ChActive \<and> cc_policy r' = ''allow'' \<and>
           cc_externalChatId r' = Some (vp_externalChatId p) \<and>
           (case find_channel t a db of None \<Rightarrow> True
            | Some r \<Rightarrow> reactivatable (vp_allowRevokedReactivation p) r \<and>
                (cc_status r \<noteq> ChActive \<or> \<not> isBindingDemotion (cc_verifiedVia r) (cc_verifiedVia r'))))
    | (NotVerified, db') \<Rightarrow>
        db' = db \<and> (\<exists>r. find_channel t a db = Some r \<and> \<not> reactivatable (vp_allowRevokedReactivation p) r)
    | (WriteThrows, db') \<Rightarrow> False"
proof (cases "\<exists>r. find_channel t a db = Some r \<and> \<not> reactivatable (vp_allowRevokedReactivation p) r")
  case True
  then show ?thesis using verified_write_refused unfolding t_def a_def by fastforce
next
  case False
  with verified_write_core [OF assms(3,4) [unfolded t_def a_def], of cu now] obtain plan db' r' where
    "applyVerifiedChannelGatewayWrites cu chu mc p now db = (Verified plan, db')" "find_channel t a db' = Some r'"
    "cc_status r' = ChActive" "cc_policy r' = ''allow''" "cc_externalChatId r' = Some (vp_externalChatId p)"
    "\<forall>r. find_channel t a db = Some r \<and> cc_status r = ChActive \<longrightarrow> \<not> isBindingDemotion (cc_verifiedVia r) (cc_verifiedVia r')"
    unfolding t_def a_def by blast
  with False show ?thesis by (auto split: option.split)
qed

definition slack_proof :: verified_params where
  "slack_proof = \<lparr>vp_sourceChannel = ''slack'', vp_externalUserId = ''U1'', vp_externalChatId = ''D1'', vp_displayName = None,
     vp_username = None, vp_verifiedVia = Some ''challenge'', vp_contactId = None, vp_allowRevokedReactivation = False\<rparr>"

theorem verified_binding_witness:
  "case applyVerifiedChannelGatewayWrites ''x'' ''y'' (Some (''ch'', ''c'')) slack_proof 5 (one_channel RoleContact None ChUnverified) of
     (Verified _, db') \<Rightarrow> gatewayChannelStatus ''slack'' ''U1'' db' = Some ChActive | _ \<Rightarrow> False"
proof -
  have "canonical_address ''slack'' ''U1'' = ''U1''"
    by (simp add: canonical_address_def canonicalizeInboundIdentity_def canonicalizeIdentityAs_def identityKindFor_def js_trim_def js_space_def)
  then have "ids_agree ''y'' (Some (''ch'', ''c'')) (vp_sourceChannel slack_proof)
      (canonical_address (vp_sourceChannel slack_proof) (vp_externalUserId slack_proof)) (one_channel RoleContact None ChUnverified)"
    by (simp add: slack_proof_def ids_agree_def mirror_agrees_def one_channel_def seeded_channel_def same_key_def)
  from verified_binding [OF one_channel_ok this, where cu = "''x''" and now = 5] \<open>canonical_address ''slack'' ''U1'' = ''U1''\<close>
  show ?thesis
    by (auto simp: slack_proof_def gatewayChannelStatus_def one_channel_def seeded_channel_def find_channel_def same_key_def
        reactivatable_def split: prod.splits verified_result.splits)
qed

section \<open>The guardian\<close>

text \<open>C40: a block does not survive a rebind of the guardian. When the guardian's contact is bound to an address nobody has,
  its first channel of that type is overwritten, whatever its status: where that channel was blocked, the old address has
  no row any more and the row is active under the new address.\<close>

theorem rebind_lifts_block:
  assumes ok: "directory_ok db" and "fresh_channel chu db"
    and gid: "guardian_by_principal (gp_guardianPrincipalId p) db = Some i"
    and x: "find (\<lambda>r. cc_contactId r = i \<and> cc_type r = gp_channel p) (channelRows db) = Some x"
    and blocked: "cc_status x = ChBlocked"
    and new: "gatewayChannelStatus (gp_channel p) (gp_externalUserId p) db = None"
  shows "\<exists>w db'. createGuardianBinding e v cu chu p now db = Some (w, db') \<and>
      gatewayChannelStatus (cc_type x) (cc_address x) db' = None \<and>
      gatewayChannelStatus (gp_channel p) (gp_externalUserId p) db' = Some ChActive"
proof -
  let ?db1 = "guardian_upsert_contact p i now db" and ?f = "guardian_set p i now"
  let ?db2 = "set_channels (\<lambda>r. cc_id r = cc_id x) ?f ?db1"
  have none: "find_channel (gp_channel p) (gp_externalUserId p) db = None" using new by (simp add: gatewayChannelStatus_def)
  then have keys: "channel_key r \<noteq> (gp_channel p, nocase (gp_externalUserId p))" if "r \<in> set (channelRows db)" for r
    using that by (simp add: find_channel_None)
  from x have xin: "x \<in> set (channelRows db)" "cc_contactId x = i" "cc_type x = gp_channel p" by (auto dest: find_someD)
  have fx: "channel_key (?f x) = (gp_channel p, nocase (gp_externalUserId p))" using xin(3) by (simp add: channel_key_def)
  have claim: "claimable_channel p (Some i) db = None"
    using keys by (auto simp: claimable_channel_def first_by_None channel_same_key filter_empty_conv)
  have ok2: "directory_ok ?db2"
    using directory_guardian_upsert [OF ok] keys xin(1) fx by (intro directory_rekey) (auto simp: guardian_upsert_has)
  have "guardian_channel_write p i (cc_id x) now ?db1 = Some ?db2"
    using none xin(1) update_channels_total [OF ok2] by (auto simp: guardian_channel_write_def list_ex_iff)
  then have bound: "createGuardianBinding e v cu chu p now db =
      Some (\<lparr>gw_contactId = i, gw_channelId = cc_id x, gw_claimedFrom = None\<rparr>, ?db2)"
    by (simp add: createGuardianBinding_def applyGuardianBindingGatewayWrites_def gid claim x non_empty_def Let_def)
  have rows: "r = ?f x \<or> (r \<in> set (channelRows db) \<and> r \<noteq> x)" if "r \<in> set (channelRows ?db2)" for r
  proof -
    from that obtain r0 where "r0 \<in> set (channelRows db)" "r = (if cc_id r0 = cc_id x then ?f r0 else r0)"
      by (auto simp: set_update_where)
    then show ?thesis using directory_rowD(1) [OF ok _ xin(1)] by fastforce
  qed
  have "find_channel (cc_type x) (cc_address x) ?db2 = None"
    unfolding find_channel_None
  proof
    fix r assume "r \<in> set (channelRows ?db2)"
    from rows [OF this] show "channel_key r \<noteq> (cc_type x, nocase (cc_address x))"
      using fx keys [OF xin(1)] directory_rowD(2) [OF ok _ xin(1)] by (auto simp: channel_key_def)
  qed
  moreover have "find_channel (gp_channel p) (gp_externalUserId p) ?db2 = Some (?f x)"
    using fx xin(1) by (intro find_channel_key [OF ok2]) (auto simp: set_update_where)
  ultimately show ?thesis using bound by (simp add: gatewayChannelStatus_def)
qed

definition slack_rebind :: guardian_params where
  "slack_rebind = \<lparr>gp_channel = ''slack'', gp_externalUserId = ''U2'', gp_deliveryChatId = ''D2'', gp_guardianPrincipalId = ''p'',
     gp_displayName = None, gp_verifiedVia = None, gp_reactivateRevoked = False\<rparr>"

theorem rebind_lifts_block_witness:
  "gatewayChannelStatus ''slack'' ''U1'' (one_channel RoleGuardian (Some ''p'') ChBlocked) = Some ChBlocked \<and>
   (\<exists>w db'. createGuardianBinding False False ''x'' ''y'' slack_rebind 5 (one_channel RoleGuardian (Some ''p'') ChBlocked) = Some (w, db') \<and>
      gatewayChannelStatus ''slack'' ''U1'' db' = None)"
proof -
  let ?db = "one_channel RoleGuardian (Some ''p'') ChBlocked"
  let ?x = "(seeded_channel ''ch'' ''c'' ''slack'' ''U1'' None 0)\<lparr>cc_status := ChBlocked\<rparr>"
  have "fresh_channel ''y'' ?db" "guardian_by_principal (gp_guardianPrincipalId slack_rebind) ?db = Some ''c''"
    "find (\<lambda>r. cc_contactId r = ''c'' \<and> cc_type r = gp_channel slack_rebind) (channelRows ?db) = Some ?x"
    "cc_status ?x = ChBlocked" "gatewayChannelStatus (gp_channel slack_rebind) (gp_externalUserId slack_rebind) ?db = None"
    by (simp_all add: fresh_channel_def guardian_by_principal_def one_channel_def slack_rebind_def seeded_channel_def
        gatewayChannelStatus_def find_channel_def same_key_def nocase_def ascii_lower_def)
  from rebind_lifts_block [OF one_channel_ok this, of False False "''x''" 5]
  show ?thesis
    by (auto simp: seeded_channel_def gatewayChannelStatus_def find_channel_def one_channel_def same_key_def)
qed

lemma bind_on_empty:
  assumes "contactRows db = []" "channelRows db = []" "pid \<noteq> []"
  shows "\<exists>db'. bind_vellum e v uuids (vellum_params pid r name) g now db = (Inr g, db') \<and> findVellumGuardian db' = Some pid"
proof -
  have "findVellumGuardian (db\<lparr>contactRows := [(new_contact i n None now)\<lparr>ct_role := RoleGuardian, ct_principalId := Some pid\<rparr>],
        channelRows := [guardian_set (vellum_params pid r name) i now (seeded_channel j i ''vellum'' pid None now)]\<rparr>) = Some pid" for i j n
    using assms(3) by (simp add: findVellumGuardian_def guardian_rows_def guardian_contact_def first_by_def guardian_set_def
        vellum_params_def seeded_channel_def principal_of_def contact_by_id_def new_contact_def non_empty_def)
  then show ?thesis
    by (simp add: bind_vellum_def createGuardianBinding_def applyGuardianBindingGatewayWrites_def guardian_by_principal_def
        claimable_channel_def first_by_def assms(1,2) guardian_channel_write_def find_channel_def guardian_upsert_contact_def
        has_contact_def Let_def insert_channel_def channel_conflict_def vellum_params_def new_contact_def seeded_channel_def
        guardian_set_def non_empty_def)
qed

text \<open>C7: no principal is minted over the traces of an earlier guardian. When the binding of the vellum channel is ensured,
  the principal returned is the bound guardian's, or, at boot and where no guardian has one, that of the latest active
  token, or else the tables of contacts and tokens were empty; then the fresh principal is bound, and ensuring again
  returns it.\<close>

theorem vellum_principal_source:
  assumes "directory_ok db"
    and ens: "ensureVellumGuardianBinding recover e v uuids owner now tok db = (Inr pid, db')"
  shows "(findVellumGuardian db = Some pid \<and> db' = db) \<or>
     (recover \<and> \<not> hasGuardianContactWithPrincipal db \<and> recoverGuardianPrincipalFromActorTokens tok = Some pid) \<or>
     (contactRows db = [] \<and> actorTokenRecords tok = [] \<and> refreshTokenRecords tok = [] \<and>
      pid = ''vellum-principal-'' @ uuids 0 \<and>
      ensureVellumGuardianBinding recover' e' v' uuids' owner' now' tok' db' = (Inr pid, db'))"
proof (cases "decide_vellum False recover tok db")
  case (KeepGuardian p)
  with ens show ?thesis
    by (auto simp: ensureVellumGuardianBinding_def resolveOrCreateVellumGuardian_def perform_vellum_def decide_vellum_def
        split: option.splits if_splits)
next
  case (RecoverGuardian p)
  then have "recover" "\<not> hasGuardianContactWithPrincipal db" "recoverGuardianPrincipalFromActorTokens tok = Some p"
    by (auto simp: decide_vellum_def non_empty_def split: option.splits if_splits)
  moreover have "p = pid"
    using RecoverGuardian ens
    by (auto simp: ensureVellumGuardianBinding_def resolveOrCreateVellumGuardian_def perform_vellum_def bind_vellum_def
        split: option.splits)
  ultimately show ?thesis by simp
next
  case RefuseMint
  with ens show ?thesis
    by (simp add: ensureVellumGuardianBinding_def resolveOrCreateVellumGuardian_def perform_vellum_def)
next
  case (MintGuardian prior)
  define q where "q = ''vellum-principal-'' @ uuids 0"
  from MintGuardian have bare: "contactRows db = []" "actorTokenRecords tok = []" "refreshTokenRecords tok = []"
    by (auto simp: decide_vellum_def hasEvidenceOfPriorGuardian_def split: option.splits if_splits)
  with assms(1) have rows: "channelRows db = []"
    by (cases "channelRows db") (auto simp: directory_ok_def has_contact_def)
  have q: "q \<noteq> []" by (simp add: q_def)
  obtain db1 where db1: "bind_vellum e v uuids (vellum_params q True (non_empty owner))
      \<lparr>vg_principal = q, vg_isNew = True, vg_mintedOverPriorEvidence = prior\<rparr> now db =
        (Inr \<lparr>vg_principal = q, vg_isNew = True, vg_mintedOverPriorEvidence = prior\<rparr>, db1)" "findVellumGuardian db1 = Some q"
    using bind_on_empty [OF bare(1) rows q] by blast
  with ens have "pid = q \<and> findVellumGuardian db' = Some pid"
    unfolding ensureVellumGuardianBinding_def resolveOrCreateVellumGuardian_def MintGuardian perform_vellum_def
      vellum_decision.case Let_def q_def [symmetric] by simp
  then show ?thesis
    using bare by (simp add: q_def ensureVellumGuardianBinding_def resolveOrCreateVellumGuardian_def decide_vellum_def
        perform_vellum_def)
qed

definition blank_tokens :: token_db where
  "blank_tokens = \<lparr>actorTokenRecords = [], refreshTokenRecords = []\<rparr>"

lemma decide_blank: "decide_vellum allow r blank_tokens empty_directory = MintGuardian False"
  by (simp add: decide_vellum_def findVellumGuardian_def guardian_rows_def first_by_def blank_tokens_def empty_directory_def
      recoverGuardianPrincipalFromActorTokens_def non_empty_def hasEvidenceOfPriorGuardian_def)

lemma blank_rows: "contactRows empty_directory = []" "channelRows empty_directory = []"
  by (simp_all add: empty_directory_def)

theorem vellum_principal_source_witness:
  "\<exists>pid db'. ensureVellumGuardianBinding False True False (\<lambda>n. replicate n CHR ''u'') None 1 blank_tokens empty_directory = (Inr pid, db') \<and>
     ensureVellumGuardianBinding True True False (\<lambda>n. replicate n CHR ''v'') None 2 blank_tokens db' = (Inr pid, db')"
proof -
  let ?q = "''vellum-principal-'' @ replicate 0 CHR ''u''"
  obtain db' where db': "bind_vellum True False (\<lambda>n. replicate n CHR ''u'') (vellum_params ?q True (non_empty None))
      \<lparr>vg_principal = ?q, vg_isNew = True, vg_mintedOverPriorEvidence = False\<rparr> 1 empty_directory =
        (Inr \<lparr>vg_principal = ?q, vg_isNew = True, vg_mintedOverPriorEvidence = False\<rparr>, db')"
    using bind_on_empty [OF blank_rows, of ?q] by blast
  have "ensureVellumGuardianBinding False True False (\<lambda>n. replicate n CHR ''u'') None 1 blank_tokens empty_directory = (Inr ?q, db')"
    unfolding ensureVellumGuardianBinding_def resolveOrCreateVellumGuardian_def decide_blank perform_vellum_def
      vellum_decision.case Let_def db' by simp
  moreover from vellum_principal_source [OF empty_directory_ok this, of True True False "\<lambda>n. replicate n CHR ''v''" None 2 blank_tokens]
  have "ensureVellumGuardianBinding True True False (\<lambda>n. replicate n CHR ''v'') None 2 blank_tokens db' = (Inr ?q, db')"
    by (simp add: empty_directory_def findVellumGuardian_def guardian_rows_def first_by_def)
  ultimately show ?thesis by blast
qed

lemma bind_beside:
  assumes db: "contactRows db = [c]" "channelRows db = [r]" "ct_principalId c = Some q" "ct_role c = RoleGuardian"
      "cc_type r = ''vellum''" "cc_address r = q" "cc_id r \<noteq> uuids 2" "ct_id c \<noteq> uuids 1"
    and ne: "nocase q \<noteq> nocase pid"
  shows "\<exists>db'. bind_vellum e v uuids (vellum_params pid True name) g now db = (Inr g, db') \<and>
      guardian_by_principal q db' = Some (ct_id c) \<and> guardian_by_principal pid db' = Some (uuids 1)"
proof -
  from ne have "q \<noteq> pid" by auto
  then show ?thesis
    using assms
    by (simp add: bind_vellum_def createGuardianBinding_def applyGuardianBindingGatewayWrites_def guardian_by_principal_def
        claimable_channel_def first_by_def guardian_channel_write_def find_channel_def guardian_upsert_contact_def same_key_def
        has_contact_def Let_def insert_channel_def channel_conflict_def vellum_params_def new_contact_def seeded_channel_def
        guardian_set_def non_empty_def)
qed

text \<open>two requests may each mint a principal. On a blank installation both decide to mint before either has written, the
  owner's name being awaited in between; the second write does not decide again, and both principals are guardians.\<close>

theorem two_principals:
  fixes uuids uuids' :: "nat \<Rightarrow> string"
  assumes "nocase (uuids 0) \<noteq> nocase (uuids' 0)" "uuids 1 \<noteq> uuids' 1" "uuids 2 \<noteq> uuids' 2"
  defines "d \<equiv> decide_vellum False False blank_tokens empty_directory"
  shows "\<exists>g db1 g' db2. perform_vellum e v uuids owner now d empty_directory = (Inr g, db1) \<and>
      perform_vellum e' v' uuids' owner' now' d db1 = (Inr g', db2) \<and> vg_principal g \<noteq> vg_principal g' \<and>
      guardian_by_principal (vg_principal g) db2 = Some (uuids 1) \<and> guardian_by_principal (vg_principal g') db2 = Some (uuids' 1)"
proof -
  define q where "q = ''vellum-principal-'' @ uuids 0"
  define q' where "q' = ''vellum-principal-'' @ uuids' 0"
  have ne: "nocase q \<noteq> nocase q'" "q \<noteq> []" using assms(1) by (auto simp: q_def q'_def nocase_def)
  let ?g = "\<lparr>vg_principal = q, vg_isNew = True, vg_mintedOverPriorEvidence = False\<rparr>"
  let ?g' = "\<lparr>vg_principal = q', vg_isNew = True, vg_mintedOverPriorEvidence = False\<rparr>"
  obtain c r db1 where first: "bind_vellum e v uuids (vellum_params q True (non_empty owner)) ?g now empty_directory = (Inr ?g, db1)"
    and db1: "contactRows db1 = [c]" "channelRows db1 = [r]" "ct_principalId c = Some q" "ct_role c = RoleGuardian"
      "cc_type r = ''vellum''" "cc_address r = q" "cc_id r = uuids 2" "ct_id c = uuids 1"
    by (simp add: empty_directory_def bind_vellum_def createGuardianBinding_def applyGuardianBindingGatewayWrites_def
        guardian_by_principal_def claimable_channel_def first_by_def guardian_channel_write_def find_channel_def
        guardian_upsert_contact_def has_contact_def Let_def insert_channel_def channel_conflict_def vellum_params_def
        new_contact_def seeded_channel_def guardian_set_def non_empty_def)
  from bind_beside [OF db1(1-6) _ _ ne(1), of uuids'] db1(7,8) assms(2,3) obtain db2 where
    second: "bind_vellum e' v' uuids' (vellum_params q' True (non_empty owner')) ?g' now' db1 = (Inr ?g', db2)"
      "guardian_by_principal q db2 = Some (uuids 1)" "guardian_by_principal q' db2 = Some (uuids' 1)" by metis
  have "perform_vellum e v uuids owner now d empty_directory = (Inr ?g, db1)"
    "perform_vellum e' v' uuids' owner' now' d db1 = (Inr ?g', db2)"
    unfolding d_def decide_blank perform_vellum_def vellum_decision.case Let_def q_def [symmetric] q'_def [symmetric] first second
    by simp_all
  then show ?thesis using second(2,3) ne(1) by (metis vellum_guardian.select_convs(1))
qed

theorem two_principals_witness:
  "\<exists>g db1 g' db2.
     perform_vellum False False (\<lambda>n. replicate (Suc n) CHR ''u'') None 1 (decide_vellum False False blank_tokens empty_directory) empty_directory = (Inr g, db1) \<and>
     perform_vellum False False (\<lambda>n. replicate (Suc n) CHR ''v'') None 1 (decide_vellum False False blank_tokens empty_directory) db1 = (Inr g', db2) \<and>
     vg_principal g \<noteq> vg_principal g'"
  using two_principals [of "\<lambda>n. replicate (Suc n) CHR ''u''" "\<lambda>n. replicate (Suc n) CHR ''v''" False False None 1 False False None 1]
  by (auto simp: nocase_def ascii_lower_def)

text \<open>A request to delete a contact spares the guardian as long as nothing comes between its checks and its write.\<close>

lemma delete_keeps_guardian:
  assumes ok: "directory_ok db" and j: "guardian_contact j db"
  shows "guardian_contact j (snd (deleteContactCore inMirror expected i db))"
proof -
  from j obtain c where c: "c \<in> set (contactRows db)" "ct_id c = j" "ct_role c = RoleGuardian"
    by (auto simp: guardian_contact_def list_ex_iff)
  with ok have "contact_by_id j db = Some c"
    unfolding contact_by_id_def by (intro find_unique) (auto simp: directory_ok_def distinct_map inj_on_def)
  then have "i = j \<Longrightarrow> admit_delete inMirror i db = Some RecordForbidden" using c by (simp add: admit_delete_def)
  then show ?thesis
    using j by (auto simp: deleteContactCore_def commit_delete_def Let_def guardian_contact_def delete_contact_def list_ex_iff split: option.split)
qed

text \<open>the guardian may be deleted as a contact. The role is checked before the daemon is asked for the contact and not
  again in the transaction that deletes: a contact that a binding makes the guardian in between is deleted, though the
  caller named exactly its channels, and the installation has no guardian left.\<close>

theorem delete_guardian_window:
  "admit_delete inMirror ''c'' (one_channel RoleContact None ChUnverified) = None \<and>
   (case createGuardianBinding True False ''x'' ''y'' (slack_rebind\<lparr>gp_externalUserId := ''U1''\<rparr>) 5 (one_channel RoleContact None ChUnverified) of
      None \<Rightarrow> False
    | Some (_, db1) \<Rightarrow> guardian_contact ''c'' db1 \<and>
        (case commit_delete (Some [(''slack'', ''U1'')]) ''c'' db1 of (failed, db2) \<Rightarrow> failed = None \<and> \<not> hasGuardianContactRow db2))"
  by (simp add: admit_delete_def contact_by_id_def createGuardianBinding_def applyGuardianBindingGatewayWrites_def
      guardian_by_principal_def claimable_channel_def first_by_def guardian_channel_write_def find_channel_def
      guardian_upsert_contact_def same_key_def has_contact_def Let_def slack_rebind_def one_channel_def seeded_channel_def
      guardian_set_def non_empty_def update_channels_def update_where_def set_contacts_def guardian_contact_def
      commit_delete_def delete_contact_def hasGuardianContactRow_def channel_key_def del: set_filter)

end
