(* ===== verification/Admission_Policy.thy ===== *)
theory Admission_Policy
  imports Prelude
begin

text \<open>
  The admission floor of a channel: the vocabulary shared with the daemon
  (\<^verbatim>\<open>packages/gateway-client/src/admission-policy-contract.ts\<close>), the table
  (\<^verbatim>\<open>db/admission-policy-store.ts\<close>), its seed, the routes that change it and the cache the inbound path reads
  (\<^verbatim>\<open>risk/admission-policy-cache.ts\<close>).

  \<^item> The table is the list of its rows; the text of a policy is kept as written and read back through \<open>coercePolicy\<close>.
  \<^item> \<open>floor_state\<close> is the table with the cache. \<open>floor_ok\<close>: the channel is the primary key and the cache answers
    what the store would. Every route keeps it; the cache is a refinement of the store.
\<close>

section \<open>Policies and ranks\<close>

datatype admission_policy = NoOne | GuardianOnly | TrustedContacts | AnyContact | Strangers

datatype trust_class = ClsGuardian | ClsTrusted | ClsUnverified | ClsUnknown

definition ADMISSION_POLICY_VALUES :: "(string \<times> admission_policy) list" where
  "ADMISSION_POLICY_VALUES =
     [(''no_one'', NoOne), (''guardian_only'', GuardianOnly), (''trusted_contacts'', TrustedContacts),
      (''any_contact'', AnyContact), (''strangers'', Strangers)]"

fun policy_text :: "admission_policy \<Rightarrow> string" where
  "policy_text NoOne = ''no_one''"
| "policy_text GuardianOnly = ''guardian_only''"
| "policy_text TrustedContacts = ''trusted_contacts''"
| "policy_text AnyContact = ''any_contact''"
| "policy_text Strangers = ''strangers''"

definition ADMISSION_POLICY_DEFAULT :: admission_policy where
  "ADMISSION_POLICY_DEFAULT = TrustedContacts"

fun ADMISSION_FLOOR :: "admission_policy \<Rightarrow> nat" where
  "ADMISSION_FLOOR NoOne = 5"
| "ADMISSION_FLOOR GuardianOnly = 4"
| "ADMISSION_FLOOR TrustedContacts = 3"
| "ADMISSION_FLOOR AnyContact = 2"
| "ADMISSION_FLOOR Strangers = 1"

fun TRUST_CLASS_RANK :: "trust_class \<Rightarrow> nat" where
  "TRUST_CLASS_RANK ClsGuardian = 4"
| "TRUST_CLASS_RANK ClsTrusted = 3"
| "TRUST_CLASS_RANK ClsUnverified = 2"
| "TRUST_CLASS_RANK ClsUnknown = 1"

definition meetsAdmissionFloor :: "admission_policy \<Rightarrow> trust_class \<Rightarrow> bool" where
  "meetsAdmissionFloor p c = (ADMISSION_FLOOR p \<le> TRUST_CLASS_RANK c)"

definition isAdmissionPolicyExemptChannel :: "string \<Rightarrow> bool" where
  "isAdmissionPolicyExemptChannel t = (t \<in> {''platform'', ''a2a''})"

definition isAdmissionPolicyHiddenChannel :: "string \<Rightarrow> bool" where
  "isAdmissionPolicyHiddenChannel t = (t \<in> {''vellum'', ''whatsapp''})"

section \<open>The store\<close>

record floor_row =
  fl_channel :: string
  fl_policy :: string
  fl_note :: "string option"
  fl_updatedAt :: int

definition coercePolicy :: "string \<Rightarrow> admission_policy" where
  "coercePolicy v = (case map_of ADMISSION_POLICY_VALUES v of Some p \<Rightarrow> p | None \<Rightarrow> ADMISSION_POLICY_DEFAULT)"

definition floor_get :: "string \<Rightarrow> floor_row list \<Rightarrow> admission_policy" where
  "floor_get t rows =
     (case find (\<lambda>r. fl_channel r = t) rows of None \<Rightarrow> ADMISSION_POLICY_DEFAULT | Some r \<Rightarrow> coercePolicy (fl_policy r))"

definition floor_list :: "floor_row list \<Rightarrow> (string \<times> admission_policy \<times> string option \<times> int) list" where
  "floor_list rows =
     map (\<lambda>r. (fl_channel r, coercePolicy (fl_policy r), fl_note r, fl_updatedAt r)) (filter (\<lambda>r. isChannelId (fl_channel r)) rows)"

definition floor_set :: "string \<Rightarrow> admission_policy \<Rightarrow> string option \<Rightarrow> int \<Rightarrow> floor_row list \<Rightarrow> floor_row list" where
  "floor_set t p note now rows =
     (if list_ex (\<lambda>r. fl_channel r = t) rows
      then map (\<lambda>r. if fl_channel r = t then r\<lparr>fl_policy := policy_text p, fl_note := note, fl_updatedAt := now\<rparr> else r) rows
      else rows @ [\<lparr>fl_channel = t, fl_policy = policy_text p, fl_note = note, fl_updatedAt = now\<rparr>])"

definition floor_remove :: "string \<Rightarrow> floor_row list \<Rightarrow> bool \<times> floor_row list" where
  "floor_remove t rows =
     (list_ex (\<lambda>r. fl_channel r = t) rows, filter (\<lambda>r. fl_channel r \<noteq> t) rows)"

definition seedDefault :: "string \<Rightarrow> admission_policy \<Rightarrow> int \<Rightarrow> floor_row list \<Rightarrow> floor_row list" where
  "seedDefault t p now rows =
     (if list_ex (\<lambda>r. fl_channel r = t) rows then rows
      else rows @ [\<lparr>fl_channel = t, fl_policy = policy_text p, fl_note = None, fl_updatedAt = now\<rparr>])"

definition CHANNEL_ADMISSION_DEFAULTS :: "string \<Rightarrow> admission_policy option" where
  "CHANNEL_ADMISSION_DEFAULTS t = (if t \<in> {''vellum'', ''plugin''} then Some GuardianOnly else None)"

definition seeded_policy :: "string \<Rightarrow> admission_policy" where
  "seeded_policy t = (case CHANNEL_ADMISSION_DEFAULTS t of Some p \<Rightarrow> p | None \<Rightarrow> ADMISSION_POLICY_DEFAULT)"

definition seed_channel :: "int \<Rightarrow> string \<Rightarrow> floor_row list \<Rightarrow> floor_row list" where
  "seed_channel now t rows =
     (if isAdmissionPolicyExemptChannel t then rows
      else
        let rows1 = seedDefault t (seeded_policy t) now rows
        in if isAdmissionPolicyHiddenChannel t \<and> floor_get t rows1 \<noteq> seeded_policy t
           then floor_set t (seeded_policy t) None now rows1 else rows1)"

definition seedAdmissionPolicyDefaults :: "int \<Rightarrow> floor_row list \<Rightarrow> floor_row list" where
  "seedAdmissionPolicyDefaults now rows = fold (seed_channel now) CHANNEL_IDS rows"

section \<open>The cache and the routes\<close>

record floor_state =
  fs_rows :: "floor_row list"
  fs_cache :: "string \<Rightarrow> admission_policy option"

text \<open>\<open>refresh()\<close>: the map is cleared and the rows are set one after the other.\<close>

definition floor_refresh :: "floor_state \<Rightarrow> floor_state" where
  "floor_refresh s = s\<lparr>fs_cache := foldl (\<lambda>m (t, p, _). m(t \<mapsto> p)) Map.empty (floor_list (fs_rows s))\<rparr>"

definition cached_floor :: "string \<Rightarrow> floor_state \<Rightarrow> admission_policy" where
  "cached_floor t s = (case fs_cache s t of Some p \<Rightarrow> p | None \<Rightarrow> ADMISSION_POLICY_DEFAULT)"

definition initAdmissionPolicyCache :: "int \<Rightarrow> floor_row list \<Rightarrow> floor_state" where
  "initAdmissionPolicyCache now rows =
     floor_refresh \<lparr>fs_rows = seedAdmissionPolicyDefaults now rows, fs_cache = Map.empty\<rparr>"

definition resolveAdmissionPolicy :: "bool \<Rightarrow> string \<Rightarrow> floor_state \<Rightarrow> admission_policy option" where
  "resolveAdmissionPolicy trustFloors t s =
     (if \<not> trustFloors \<or> isAdmissionPolicyExemptChannel t \<or> \<not> isChannelId t then None else Some (cached_floor t s))"

text \<open>Responses by their status; \<open>policy\<close> is \<open>None\<close> where the body is no JSON or fails its schema.\<close>

definition set_floor_route :: "string \<Rightarrow> string option \<Rightarrow> string option \<Rightarrow> int \<Rightarrow> floor_state \<Rightarrow> nat \<times> floor_state" where
  "set_floor_route t policy note now s =
     (if isAdmissionPolicyExemptChannel t \<or> isAdmissionPolicyHiddenChannel t then (403, s)
      else if \<not> isChannelId t then (400, s)
      else
        case Option.bind policy (map_of ADMISSION_POLICY_VALUES) of
          None \<Rightarrow> (400, s)
        | Some p \<Rightarrow> (200, floor_refresh (s\<lparr>fs_rows := floor_set t p note now (fs_rows s)\<rparr>)))"

definition delete_floor_route :: "string \<Rightarrow> floor_state \<Rightarrow> nat \<times> floor_state" where
  "delete_floor_route t s =
     (if \<not> isChannelId t then (400, s)
      else if isAdmissionPolicyExemptChannel t \<or> isAdmissionPolicyHiddenChannel t then (403, s)
      else (200, floor_refresh (s\<lparr>fs_rows := snd (floor_remove t (fs_rows s))\<rparr>)))"

definition list_floor_route :: "floor_state \<Rightarrow> (string \<times> admission_policy) list" where
  "list_floor_route s =
     map (\<lambda>t. (t, case map_of (floor_list (fs_rows s)) t of None \<Rightarrow> ADMISSION_POLICY_DEFAULT | Some (p, _) \<Rightarrow> p))
       (filter (\<lambda>t. \<not> isAdmissionPolicyExemptChannel t \<and> \<not> isAdmissionPolicyHiddenChannel t) CHANNEL_IDS)"

section \<open>The cache answers what the store would\<close>

definition rows_ok :: "floor_row list \<Rightarrow> bool" where
  "rows_ok rows = distinct (map fl_channel rows)"

definition floor_ok :: "floor_state \<Rightarrow> bool" where
  "floor_ok s =
     (rows_ok (fs_rows s) \<and> list_all (\<lambda>t. cached_floor t s = floor_get t (fs_rows s)) CHANNEL_IDS \<and>
      list_all (\<lambda>t. isAdmissionPolicyHiddenChannel t \<longrightarrow> floor_get t (fs_rows s) = seeded_policy t) CHANNEL_IDS)"

inductive floor_step :: "floor_state \<Rightarrow> floor_state \<Rightarrow> bool" where
  set_floor: "set_floor_route t policy note now s = (status, s') \<Longrightarrow> floor_step s s'"
| delete_floor: "delete_floor_route t s = (status, s') \<Longrightarrow> floor_step s s'"
| restart: "floor_step s (initAdmissionPolicyCache now (fs_rows s))"

lemma coerce_text [simp]: "coercePolicy (policy_text p) = p"
  by (cases p) (simp_all add: coercePolicy_def ADMISSION_POLICY_VALUES_def)

lemma foldl_map_upd: "foldl (\<lambda>m (t, p, _). m(t \<mapsto> p)) m xs t = (case map_of (rev xs) t of None \<Rightarrow> m t | Some (p, _) \<Rightarrow> Some p)"
  by (induction xs arbitrary: m) (auto simp: map_of_append map_add_def split: option.splits)

lemma floor_get_Cons [simp]:
  "floor_get t (r # rows) = (if fl_channel r = t then coercePolicy (fl_policy r) else floor_get t rows)"
  by (simp add: floor_get_def)

lemma floor_get_Nil [simp]: "floor_get t [] = ADMISSION_POLICY_DEFAULT"
  by (simp add: floor_get_def)

lemma floor_list_get:
  "isChannelId t \<Longrightarrow> (case map_of (floor_list rows) t of None \<Rightarrow> ADMISSION_POLICY_DEFAULT | Some (p, _) \<Rightarrow> p) = floor_get t rows"
  by (induction rows) (auto simp: floor_list_def)

lemma map_of_rev: "distinct (map fst xs) \<Longrightarrow> map_of (rev xs) = map_of xs"
  by (subst map_of_inject_set) (simp_all add: rev_map [symmetric])

lemma floor_list_keys: "rows_ok rows \<Longrightarrow> distinct (map fst (floor_list rows))"
  by (auto simp: rows_ok_def floor_list_def comp_def distinct_map intro: inj_on_subset distinct_filter)

lemma refresh_coherent: "rows_ok (fs_rows s) \<Longrightarrow> isChannelId t \<Longrightarrow> cached_floor t (floor_refresh s) = floor_get t (fs_rows s)"
  using floor_list_get [of t "fs_rows s"]
  by (auto simp: cached_floor_def floor_refresh_def foldl_map_upd map_of_rev [OF floor_list_keys] split: option.splits)

lemma refresh_rows [simp]: "fs_rows (floor_refresh s) = fs_rows s"
  by (simp add: floor_refresh_def)

lemma floor_set_channels:
  "map fl_channel (floor_set t p note now rows) = map fl_channel rows @ (if t \<in> fl_channel ` set rows then [] else [t])"
  by (auto simp: floor_set_def list_ex_iff comp_def intro!: map_cong)

lemma seed_default_channels:
  "map fl_channel (seedDefault t p now rows) = map fl_channel rows @ (if t \<in> fl_channel ` set rows then [] else [t])"
  by (auto simp: seedDefault_def list_ex_iff)

lemma rows_set [intro]: "rows_ok rows \<Longrightarrow> rows_ok (floor_set t p note now rows)"
  by (auto simp: rows_ok_def floor_set_channels)

lemma rows_seed_default [intro]: "rows_ok rows \<Longrightarrow> rows_ok (seedDefault t p now rows)"
  by (auto simp: rows_ok_def seed_default_channels)

lemma rows_remove [intro]: "rows_ok rows \<Longrightarrow> rows_ok (snd (floor_remove t rows))"
  by (simp add: rows_ok_def floor_remove_def distinct_map inj_on_def)

lemma rows_seed_channel [intro]: "rows_ok rows \<Longrightarrow> rows_ok (seed_channel now t rows)"
  by (auto simp: seed_channel_def Let_def)

lemma rows_seed [intro]: "rows_ok rows \<Longrightarrow> rows_ok (seedAdmissionPolicyDefaults now rows)"
proof -
  have "rows_ok rows \<Longrightarrow> rows_ok (fold (seed_channel now) ts rows)" for ts
    by (induction ts arbitrary: rows) auto
  then show "rows_ok rows \<Longrightarrow> rows_ok (seedAdmissionPolicyDefaults now rows)" by (simp add: seedAdmissionPolicyDefaults_def)
qed

lemma get_map_other: "u \<noteq> t \<Longrightarrow> (\<And>r. fl_channel (f r) = fl_channel r) \<Longrightarrow>
    floor_get u (map (\<lambda>r. if fl_channel r = t then f r else r) rows) = floor_get u rows"
  by (induction rows) auto

lemma get_map_same: "list_ex (\<lambda>r. fl_channel r = t) rows \<Longrightarrow> (\<And>r. fl_channel (f r) = fl_channel r) \<Longrightarrow> (\<And>r. fl_policy (f r) = v) \<Longrightarrow>
    floor_get t (map (\<lambda>r. if fl_channel r = t then f r else r) rows) = coercePolicy v"
  by (induction rows) auto

lemma get_append_other: "fl_channel r \<noteq> u \<Longrightarrow> floor_get u (rows @ [r]) = floor_get u rows"
  by (induction rows) auto

lemma get_append_new: "\<not> list_ex (\<lambda>r. fl_channel r = t) rows \<Longrightarrow> fl_channel r = t \<Longrightarrow> floor_get t (rows @ [r]) = coercePolicy (fl_policy r)"
  by (induction rows) auto

lemma get_set: "floor_get u (floor_set t p note now rows) = (if u = t then p else floor_get u rows)"
  by (simp add: floor_set_def get_map_other get_map_same get_append_other get_append_new)

lemma get_seed_default: "u \<noteq> t \<Longrightarrow> floor_get u (seedDefault t p now rows) = floor_get u rows"
  by (simp add: seedDefault_def get_append_other)

lemma get_remove: "u \<noteq> t \<Longrightarrow> floor_get u (snd (floor_remove t rows)) = floor_get u rows"
  unfolding floor_remove_def by (induction rows) auto

lemma get_seed_other: "u \<noteq> t \<Longrightarrow> floor_get u (seed_channel now t rows) = floor_get u rows"
  by (simp add: seed_channel_def Let_def get_set get_seed_default)

lemma get_seed_hidden:
  assumes "isAdmissionPolicyHiddenChannel t"
  shows "floor_get t (seed_channel now t rows) = seeded_policy t"
proof -
  have "\<not> isAdmissionPolicyExemptChannel t"
    using assms by (auto simp: isAdmissionPolicyHiddenChannel_def isAdmissionPolicyExemptChannel_def)
  with assms show ?thesis by (simp add: seed_channel_def Let_def get_set)
qed

lemma seed_pins:
  assumes "isAdmissionPolicyHiddenChannel t"
  shows "floor_get t (seedAdmissionPolicyDefaults now rows) = seeded_policy t"
proof -
  have keep: "t \<notin> set ts \<Longrightarrow> floor_get t (fold (seed_channel now) ts rows) = floor_get t rows" for ts rows
    by (induction ts arbitrary: rows) (auto simp: get_seed_other)
  have "t \<in> set ts \<Longrightarrow> floor_get t (fold (seed_channel now) ts rows) = seeded_policy t" for ts
  proof (induction ts arbitrary: rows)
    case (Cons x ts)
    show ?case
    proof (cases "t \<in> set ts")
      case False
      with Cons.prems have "x = t" by simp
      with False show ?thesis by (simp add: keep get_seed_hidden assms)
    qed (simp add: Cons.IH)
  qed simp
  moreover have "t \<in> set CHANNEL_IDS" using assms by (auto simp: isAdmissionPolicyHiddenChannel_def CHANNEL_IDS_def)
  ultimately show ?thesis by (simp add: seedAdmissionPolicyDefaults_def)
qed

lemma floor_ok_refresh:
  assumes "rows_ok (fs_rows s)" "\<And>t. isAdmissionPolicyHiddenChannel t \<Longrightarrow> floor_get t (fs_rows s) = seeded_policy t"
  shows "floor_ok (floor_refresh s)"
  using assms refresh_coherent [OF assms(1)] by (auto simp: floor_ok_def list_all_iff isChannelId_def)

lemma floor_ok_init: "rows_ok rows \<Longrightarrow> floor_ok (initAdmissionPolicyCache now rows)"
  unfolding initAdmissionPolicyCache_def by (rule floor_ok_refresh) (auto simp: seed_pins)

lemma hidden_channel: "isAdmissionPolicyHiddenChannel t \<Longrightarrow> t \<in> set CHANNEL_IDS"
  by (auto simp: isAdmissionPolicyHiddenChannel_def CHANNEL_IDS_def)

lemma floor_okD:
  assumes "floor_ok s"
  shows "rows_ok (fs_rows s)" "isAdmissionPolicyHiddenChannel t \<Longrightarrow> floor_get t (fs_rows s) = seeded_policy t"
    "isChannelId t \<Longrightarrow> cached_floor t s = floor_get t (fs_rows s)"
  using assms hidden_channel by (auto simp: floor_ok_def list_all_iff isChannelId_def)

lemma floor_ok_set: "floor_ok s \<Longrightarrow> floor_ok (snd (set_floor_route t policy note now s))"
  by (auto simp: set_floor_route_def get_set split: option.split intro!: floor_ok_refresh rows_set dest: floor_okD)

lemma floor_ok_delete: "floor_ok s \<Longrightarrow> floor_ok (snd (delete_floor_route t s))"
  using get_remove floor_okD(2) by (auto simp: delete_floor_route_def intro!: floor_ok_refresh rows_remove dest: floor_okD(1)) metis

lemma floor_ok_step: "floor_step s s' \<Longrightarrow> floor_ok s \<Longrightarrow> floor_ok s'"
proof (induction rule: floor_step.induct)
  case (set_floor t policy memo now s status s')
  then show ?case using floor_ok_set [of s t policy memo now] by simp
next
  case (delete_floor t s status s')
  then show ?case using floor_ok_delete [of s t] by simp
next
  case (restart s now)
  then show ?case by (simp add: floor_ok_init floor_okD(1))
qed

section \<open>Properties\<close>

text \<open>C20: the floor the inbound path reads from the cache is the one in the table, after a start on any table with one row
  per channel and any sequence of writes, deletions and restarts; a channel hidden from the settings stays at its default.\<close>

theorem floor_cache_coherent:
  assumes "floor_step\<^sup>*\<^sup>* (initAdmissionPolicyCache now rows) s" "rows_ok rows" "isChannelId t" "\<not> isAdmissionPolicyExemptChannel t"
  shows "resolveAdmissionPolicy True t s = Some (floor_get t (fs_rows s)) \<and>
    (isAdmissionPolicyHiddenChannel t \<longrightarrow> resolveAdmissionPolicy True t s = Some (seeded_policy t))"
proof -
  from assms(1) have "floor_ok s"
    by (induction rule: rtranclp_induct) (auto intro: floor_ok_init [OF assms(2)] floor_ok_step)
  with assms(3,4) show ?thesis by (simp add: resolveAdmissionPolicy_def floor_okD)
qed

theorem floor_cache_coherent_witness:
  "let s = snd (set_floor_route ''slack'' (Some ''strangers'') None 7 (initAdmissionPolicyCache 0 []))
   in resolveAdmissionPolicy True ''slack'' s = Some (floor_get ''slack'' (fs_rows s)) \<and> floor_get ''slack'' (fs_rows s) = Strangers"
proof -
  let ?s = "snd (set_floor_route ''slack'' (Some ''strangers'') None 7 (initAdmissionPolicyCache 0 []))"
  have "floor_step\<^sup>*\<^sup>* (initAdmissionPolicyCache 0 []) ?s"
    by (rule r_into_rtranclp, rule floor_step.set_floor, rule prod.collapse [symmetric])
  then have "resolveAdmissionPolicy True ''slack'' ?s = Some (floor_get ''slack'' (fs_rows ?s))"
    by (rule floor_cache_coherent [THEN conjunct1])
      (simp_all add: rows_ok_def isChannelId_def CHANNEL_IDS_def isAdmissionPolicyExemptChannel_def)
  moreover have "floor_get ''slack'' (fs_rows ?s) = Strangers" by code_simp
  ultimately show ?thesis by (simp add: Let_def)
qed

text \<open>resetting the floor of the plugin channel lowers it. The seed gives the channel the floor of the guardian, the route
  that deletes its row answers with the general default, which admits every trusted contact, and this holds until the
  gateway is restarted and seeds the row again.\<close>

theorem plugin_reset_lowers:
  "let s = initAdmissionPolicyCache 0 []; (status, s') = delete_floor_route ''plugin'' s
   in resolveAdmissionPolicy True ''plugin'' s = Some GuardianOnly \<and> status = 200 \<and>
      resolveAdmissionPolicy True ''plugin'' s' = Some TrustedContacts \<and>
      resolveAdmissionPolicy True ''plugin'' (initAdmissionPolicyCache 1 (fs_rows s')) = Some GuardianOnly"
  by code_simp

end
