(* ===== verification/Inbound_Trust.thy ===== *)
theory Inbound_Trust
  imports Contact_Directory Admission_Policy Thresholds
begin

text \<open>
  Who an inbound message comes from and whether it reaches the assistant: the verdict the gateway resolves from the
  directory (\<^verbatim>\<open>risk/trust-verdict-resolver.ts\<close>) and stamps on the message
  (\<^verbatim>\<open>handlers/handle-inbound.ts\<close>), what the daemon makes of it
  (\<^verbatim>\<open>runtime/trust-verdict-consumer.ts\<close>), the access list
  (\<^verbatim>\<open>inbound-stages/acl-enforcement.ts\<close>) and the floor (\<^verbatim>\<open>inbound-stages/admission-policy.ts\<close>).

  \<^item> The verdict crosses the wire: its class, status and policy are strings, which the daemon checks again.
  \<^item> Routing, the intercepts of codes and invites, the sessions and the outcome of a notification are arguments. The
    messages sent to people are kept as a list of effects and the kind of the reply.
  \<^item> Modelled is a composed message; edits and deletes of stored messages branch off between the two stages.
  \<^item> The headline: a message reaches the assistant exactly if the sender's rank meets the floor and no block, revocation or
    denial stands against them, and a blocked sender stays out whatever happens in between.
\<close>

section \<open>The verdict\<close>

record trust_verdict =
  tv_class :: string
  tv_sender :: "string option"
  tv_failed :: bool
  tv_guardianUserId :: "string option"
  tv_guardianChatId :: "string option"
  tv_guardianPrincipalId :: "string option"
  tv_guardianName :: "string option"
  tv_contactId :: "string option"
  tv_channelId :: "string option"
  tv_type :: "string option"
  tv_address :: "string option"
  tv_chatId :: "string option"
  tv_status :: "string option"
  tv_policy :: "string option"
  tv_verifiedAt :: "int option"
  tv_count :: "nat option"
  tv_memberName :: "string option"
  tv_threshold :: "RiskThreshold option"
  tv_session :: "bool option"

fun class_text :: "trust_class \<Rightarrow> string" where
  "class_text ClsGuardian = ''guardian''"
| "class_text ClsTrusted = ''trusted_contact''"
| "class_text ClsUnverified = ''unverified_contact''"
| "class_text ClsUnknown = ''unknown''"

definition TRUST_CLASS_VALUES :: "(string \<times> trust_class) list" where
  "TRUST_CLASS_VALUES = map (\<lambda>c. (class_text c, c)) [ClsGuardian, ClsTrusted, ClsUnverified, ClsUnknown]"

fun status_text :: "channel_status \<Rightarrow> string" where
  "status_text ChActive = ''active''"
| "status_text ChPending = ''pending''"
| "status_text ChRevoked = ''revoked''"
| "status_text ChBlocked = ''blocked''"
| "status_text ChUnverified = ''unverified''"

definition makeUnauthenticatedSenderVerdict :: "string option \<Rightarrow> trust_verdict" where
  "makeUnauthenticatedSenderVerdict sender =
     \<lparr>tv_class = ''unknown'', tv_sender = sender, tv_failed = False, tv_guardianUserId = None, tv_guardianChatId = None,
      tv_guardianPrincipalId = None, tv_guardianName = None, tv_contactId = None, tv_channelId = None, tv_type = None,
      tv_address = None, tv_chatId = None, tv_status = None, tv_policy = None, tv_verifiedAt = None, tv_count = None,
      tv_memberName = None, tv_threshold = None, tv_session = None\<rparr>"

definition makeResolutionFailedVerdict :: "string option \<Rightarrow> trust_verdict" where
  "makeResolutionFailedVerdict sender = (makeUnauthenticatedSenderVerdict sender)\<lparr>tv_failed := True\<rparr>"

definition pluginMemberIdentity :: "string \<Rightarrow> string \<Rightarrow> string \<times> string" where
  "pluginMemberIdentity sourceChannel actor =
     (let t = takeWhile (\<lambda>c. c \<noteq> CHR '':'') actor; rest = dropWhile (\<lambda>c. c \<noteq> CHR '':'') actor
      in if sourceChannel \<noteq> ''plugin'' \<or> rest = [] \<or> t = [] \<or> tl rest = [] then (sourceChannel, actor) else (t, tl rest))"

definition member_denied :: "channel_status \<Rightarrow> bool" where
  "member_denied st = (st \<notin> {ChActive, ChPending, ChUnverified})"

text \<open>The row of a sender and the contact it belongs to.\<close>

definition member_row :: "string \<Rightarrow> string option \<Rightarrow> contact_db \<Rightarrow> (channel_row \<times> contact_row) option" where
  "member_row t sender db =
     (case non_empty sender of
        None \<Rightarrow> None
      | Some a \<Rightarrow>
          Option.bind (find_channel t a db) (\<lambda>r. map_option (\<lambda>c. (r, c)) (contact_by_id (cc_contactId r) db)))"

definition guardian_row :: "string \<Rightarrow> contact_db \<Rightarrow> channel_row option" where
  "guardian_row t db =
     first_by (\<lambda>r b. later (cc_verifiedAt r) (cc_verifiedAt b)) (filter (\<lambda>r. cc_status r = ChActive) (guardian_rows t db))"

text \<open>Whether the sender is at the address of the active guardian of the channel.\<close>

definition at_guardian_address :: "string \<Rightarrow> string option \<Rightarrow> contact_db \<Rightarrow> bool" where
  "at_guardian_address t sender db =
     (case (guardian_row t db, non_empty sender) of
        (Some g, Some a) \<Rightarrow> nocase (cc_address g) = nocase a
      | _ \<Rightarrow> False)"

text \<open>The guardian's contact, for a sender whose row on this channel is one of the guardian's and who has an active one.\<close>

definition guardian_identity :: "string \<Rightarrow> string option \<Rightarrow> contact_db \<Rightarrow> contact_row option" where
  "guardian_identity t sender db =
     (case member_row t sender db of
        None \<Rightarrow> None
      | Some (r, c) \<Rightarrow>
          if at_guardian_address t sender db \<or> member_denied (cc_status r) \<or> ct_role c \<noteq> RoleGuardian then None
          else if list_ex (\<lambda>x. cc_contactId x = ct_id c \<and> cc_status x = ChActive) (channelRows db) then Some c else None)"

definition sender_class :: "string \<Rightarrow> string option \<Rightarrow> contact_db \<Rightarrow> trust_class" where
  "sender_class t sender db =
     (if at_guardian_address t sender db \<or> guardian_identity t sender db \<noteq> None then ClsGuardian
      else
        case member_row t sender db of
          None \<Rightarrow> ClsUnknown
        | Some (r, _) \<Rightarrow>
            (case cc_status r of
               ChActive \<Rightarrow> ClsTrusted
             | ChUnverified \<Rightarrow> ClsUnverified
             | ChPending \<Rightarrow> ClsUnverified
             | _ \<Rightarrow> ClsUnknown))"

definition with_guardian :: "string \<Rightarrow> string option \<Rightarrow> contact_db \<Rightarrow> trust_verdict \<Rightarrow> trust_verdict" where
  "with_guardian t sender db v =
     (case guardian_row t db of
        Some g \<Rightarrow>
          v\<lparr>tv_guardianUserId := Some (cc_address g), tv_guardianChatId := cc_externalChatId g,
            tv_guardianPrincipalId := non_empty (principal_of g db),
            tv_guardianName := map_option ct_displayName (contact_by_id (cc_contactId g) db)\<rparr>
      | None \<Rightarrow>
          (case guardian_identity t sender db of
             None \<Rightarrow> v
           | Some c \<Rightarrow> v\<lparr>tv_guardianPrincipalId := non_empty (ct_principalId c), tv_guardianName := non_empty (Some (ct_displayName c))\<rparr>))"

definition with_member :: "string \<Rightarrow> string option \<Rightarrow> contact_db \<Rightarrow> trust_verdict \<Rightarrow> trust_verdict" where
  "with_member t sender db v =
     (case member_row t sender db of
        None \<Rightarrow> v
      | Some (r, c) \<Rightarrow>
          v\<lparr>tv_contactId := Some (cc_contactId r), tv_channelId := Some (cc_id r), tv_type := Some (cc_type r),
            tv_address := Some (cc_address r), tv_chatId := cc_externalChatId r, tv_status := Some (status_text (cc_status r)),
            tv_policy := Some (cc_policy r), tv_verifiedAt := cc_verifiedAt r, tv_count := Some (cc_interactionCount r),
            tv_memberName := Some (ct_displayName c),
            tv_threshold := parseContactAutoApproveThreshold (ct_autoApproveThreshold c)\<rparr>)"

text \<open>The key a sender is looked up by.\<close>

definition sender_key :: "string \<Rightarrow> string option \<Rightarrow> string \<times> string option" where
  "sender_key channel actor =
     (case non_empty actor of
        Some x \<Rightarrow> (case pluginMemberIdentity channel x of (t, a) \<Rightarrow> (t, canonicalSenderIdFor t (Some a)))
      | None \<Rightarrow> (channel, canonicalSenderIdFor channel actor))"

text \<open>\<open>integrity\<close> is the cached state of the guardian's rows, \<open>session\<close> whether the channel has an interceptable session;
  \<open>None\<close> where the read throws.\<close>

definition verdict_for :: "integrity_state option \<Rightarrow> bool option \<Rightarrow> string \<Rightarrow> string option \<Rightarrow> contact_db \<Rightarrow> trust_verdict" where
  "verdict_for integrity session t sender db =
     (let cls = sender_class t sender db;
          blank = makeUnauthenticatedSenderVerdict sender
      in case guardian_identity t sender db of
           Some c \<Rightarrow>
             if non_empty (ct_principalId c) = None then makeResolutionFailedVerdict sender
             else with_member t sender db (with_guardian t sender db (blank\<lparr>tv_class := class_text cls, tv_session := session\<rparr>))
         | None \<Rightarrow>
             with_member t sender db (with_guardian t sender db
               (blank\<lparr>tv_class := class_text cls, tv_failed := (integrity = Some MissingGuardian \<and> cls = ClsUnknown),
                      tv_session := session\<rparr>)))"

definition resolveTrustVerdict ::
  "integrity_state option \<Rightarrow> bool option \<Rightarrow> string \<Rightarrow> string option \<Rightarrow> contact_db \<Rightarrow> trust_verdict" where
  "resolveTrustVerdict integrity session channel actor db =
     (case sender_key channel actor of (t, sender) \<Rightarrow> verdict_for integrity session t sender db)"

section \<open>What the daemon takes from it\<close>

record verdict_member =
  vm_contactId :: string
  vm_channelId :: string
  vm_status :: channel_status
  vm_policy :: string

definition verdictMemberFromVerdict :: "trust_verdict \<Rightarrow> verdict_member option" where
  "verdictMemberFromVerdict v =
     (case (non_empty (tv_contactId v), non_empty (tv_channelId v), non_empty (tv_status v), non_empty (tv_policy v)) of
        (Some c, Some ch, Some st, Some p) \<Rightarrow>
          (case map_of VALID_CHANNEL_STATUSES st of
             None \<Rightarrow> None
           | Some s \<Rightarrow>
               if p \<in> set VALID_CHANNEL_POLICIES
               then Some \<lparr>vm_contactId = c, vm_channelId = ch, vm_status = s, vm_policy = p\<rparr> else None)
      | _ \<Rightarrow> None)"

datatype unusable_reason =
  VerdictMissing | ResolutionFailed | MemberUnresolvable | UnrecognizedClass | GuardianWithoutMember

definition verdictUsability :: "trust_verdict option \<Rightarrow> unusable_reason + trust_verdict" where
  "verdictUsability verdict =
     (case verdict of
        None \<Rightarrow> Inl VerdictMissing
      | Some v \<Rightarrow>
          if tv_failed v then Inl ResolutionFailed
          else if (non_empty (tv_contactId v) \<noteq> None \<or> non_empty (tv_channelId v) \<noteq> None) \<and> verdictMemberFromVerdict v = None
          then Inl MemberUnresolvable
          else if map_of TRUST_CLASS_VALUES (tv_class v) = None then Inl UnrecognizedClass
          else if tv_class v = ''guardian'' \<and> verdictMemberFromVerdict v = None then Inl GuardianWithoutMember
          else Inr v)"

section \<open>The access list\<close>

text \<open>\<open>ai_start\<close> is the payload of a start command.\<close>

record acl_input =
  ai_sender :: "string option"
  ai_raw :: "string option"
  ai_channel :: string
  ai_start :: "string option"
  ai_verdict :: "trust_verdict option"
  ai_isBot :: bool
  ai_policy :: "admission_policy option"
  ai_callback :: bool
  ai_unattributed :: bool

text \<open>\<open>ae_bootstrap\<close>: whether a token resolves to a session pending its bootstrap; \<open>ae_challenge\<close>: whether a verification
  challenge starts; \<open>ae_notified\<close>: whether the guardian was notified and whether not, because an approval is pending,
  \<open>None\<close> where the call throws; \<open>ae_handshake\<close>: whether an approval is under way; \<open>ae_reply\<close>: whether a reply can
  be sent.\<close>

record acl_env =
  ae_bootstrap :: "string \<Rightarrow> bool"
  ae_challenge :: bool
  ae_notified :: "(bool \<times> bool) option"
  ae_handshake :: bool
  ae_reply :: bool

datatype acl_effect = MintChallenge | NotifyGuardian | DmRequester

datatype denial_reply = HandshakeReply | GuardianNotifiedReply | NotApprovedReply

datatype acl_reason = NotAMember | ChallengeSent | MemberInactive channel_status | PolicyDeny

record acl_result =
  al_member :: "verdict_member option"
  al_denied :: "acl_reason option"
  al_bootstrap :: bool
  al_effects :: "acl_effect list"
  al_reply :: "denial_reply option"

definition acl_pass :: "verdict_member option \<Rightarrow> bool \<Rightarrow> acl_result" where
  "acl_pass m bootstrap = \<lparr>al_member = m, al_denied = None, al_bootstrap = bootstrap, al_effects = [], al_reply = None\<rparr>"

definition acl_deny :: "verdict_member option \<Rightarrow> acl_reason \<Rightarrow> acl_effect list \<Rightarrow> denial_reply option \<Rightarrow> acl_result" where
  "acl_deny m reason effects reply =
     \<lparr>al_member = m, al_denied = Some reason, al_bootstrap = False, al_effects = effects, al_reply = reply\<rparr>"

definition failClosedDeny :: acl_result where
  "failClosedDeny = acl_deny None NotAMember [] None"

definition composeAccessDenialReply :: "bool \<Rightarrow> bool \<Rightarrow> denial_reply" where
  "composeAccessDenialReply guardianNotified handshakeInProgress =
     (if handshakeInProgress then HandshakeReply else if guardianNotified then GuardianNotifiedReply else NotApprovedReply)"

definition isKeptOutStatus :: "channel_status \<Rightarrow> bool" where
  "isKeptOutStatus st = (st \<in> {ChRevoked, ChBlocked})"

definition channelStatusToMemberStatus :: "channel_status \<Rightarrow> channel_status" where
  "channelStatusToMemberStatus st = (if st = ChUnverified then ChPending else st)"

definition acl_actor :: "acl_input \<Rightarrow> string option" where
  "acl_actor i = non_empty (case ai_sender i of Some s \<Rightarrow> Some s | None \<Rightarrow> ai_raw i)"

definition bootstrap_session :: "acl_env \<Rightarrow> acl_input \<Rightarrow> bool" where
  "bootstrap_session env i =
     (case ai_start i of None \<Rightarrow> False | Some p \<Rightarrow> take 3 p = ''gv_'' \<and> ae_bootstrap env (drop 3 p))"

definition notify_outcome :: "acl_env \<Rightarrow> bool \<Rightarrow> acl_effect list \<times> denial_reply" where
  "notify_outcome env callback =
     (if callback then ([], composeAccessDenialReply False (ae_handshake env))
      else ([NotifyGuardian],
            case ae_notified env of
              None \<Rightarrow> composeAccessDenialReply False False
            | Some (notified, pending) \<Rightarrow> composeAccessDenialReply notified (\<not> notified \<and> pending)))"

definition challenge_effects :: "acl_env \<Rightarrow> string \<Rightarrow> acl_effect list" where
  "challenge_effects env channel = [MintChallenge, NotifyGuardian] @ (if channel = ''slack'' \<and> ae_reply env then [DmRequester] else [])"

definition acl_stranger :: "acl_env \<Rightarrow> acl_input \<Rightarrow> acl_result" where
  "acl_stranger env i =
     (if bootstrap_session env i then acl_pass None True
      else if ai_policy i \<in> {Some Strangers, Some GuardianOnly} then acl_pass None False
      else if ai_channel i = ''slack'' \<and> \<not> ai_isBot i \<and> acl_actor i \<noteq> None \<and> \<not> ai_callback i \<and> ae_challenge env
      then acl_deny None ChallengeSent (challenge_effects env ''slack'') None
      else if ai_channel i = ''email'' \<and> acl_actor i \<noteq> None \<and> \<not> ai_callback i \<and> ae_challenge env
      then acl_deny None ChallengeSent (challenge_effects env ''email'') None
      else
        case notify_outcome env (ai_callback i) of
          (effects, reply) \<Rightarrow> acl_deny None NotAMember effects (Some reply))"

definition acl_inactive :: "acl_env \<Rightarrow> acl_input \<Rightarrow> verdict_member \<Rightarrow> acl_result" where
  "acl_inactive env i m =
     (let keptOut = isKeptOutStatus (vm_status m)
      in if ai_channel i = ''slack'' \<and> \<not> ai_isBot i \<and> acl_actor i \<noteq> None \<and> \<not> keptOut \<and> \<not> ai_callback i \<and> ae_challenge env
         then acl_deny (Some m) ChallengeSent (challenge_effects env ''slack'') None
         else
           case (if keptOut then ([], composeAccessDenialReply False False) else notify_outcome env (ai_callback i)) of
             (effects, reply) \<Rightarrow>
               acl_deny (Some m) (MemberInactive (channelStatusToMemberStatus (vm_status m))) effects (Some reply))"

definition acl_member :: "acl_env \<Rightarrow> acl_input \<Rightarrow> verdict_member \<Rightarrow> acl_result" where
  "acl_member env i m =
     (let blocked = (vm_status m = ChBlocked);
          bootstrap = (vm_status m \<noteq> ChActive \<and> \<not> blocked \<and> bootstrap_session env i);
          bypass = (\<not> blocked \<and>
                    ((ai_policy i = Some Strangers \<and> vm_status m \<noteq> ChRevoked) \<or>
                     (ai_policy i \<in> {Some AnyContact, Some GuardianOnly} \<and> vm_status m \<in> {ChPending, ChUnverified})))
      in if vm_status m \<noteq> ChActive \<and> \<not> bootstrap \<and> \<not> bypass then acl_inactive env i m
         else if vm_policy m = ''deny'' then acl_deny (Some m) PolicyDeny [] (Some NotApprovedReply)
         else acl_pass (Some m) bootstrap)"

definition acl_guardian :: "verdict_member option \<Rightarrow> acl_result" where
  "acl_guardian m =
     (case m of
        None \<Rightarrow> failClosedDeny
      | Some x \<Rightarrow>
          if vm_status x \<in> {ChBlocked, ChRevoked} then failClosedDeny
          else if vm_policy x = ''deny'' then acl_deny m PolicyDeny [] None
          else acl_pass m False)"

definition enforceIngressAcl :: "acl_env \<Rightarrow> acl_input \<Rightarrow> acl_result" where
  "enforceIngressAcl env i =
     (if ai_unattributed i then acl_pass None False
      else
        case verdictUsability (ai_verdict i) of
          Inl _ \<Rightarrow> failClosedDeny
        | Inr v \<Rightarrow>
            let m = verdictMemberFromVerdict v
            in if tv_class v = ''guardian'' then acl_guardian m
               else if non_empty (ai_sender i) \<noteq> None \<or> ai_raw i \<noteq> None
               then (case m of None \<Rightarrow> acl_stranger env i | Some x \<Rightarrow> acl_member env i x)
               else acl_pass m False)"

section \<open>The floor\<close>

datatype floor_reason = FloorMemberBlocked | FloorMemberRevoked | BelowFloor admission_policy

datatype floor_result = FloorAdmits | FloorDenies floor_reason bool

definition trustedContactPromotionClearsFloor :: "admission_policy \<Rightarrow> bool" where
  "trustedContactPromotionClearsFloor p = (ADMISSION_FLOOR p \<le> TRUST_CLASS_RANK ClsTrusted)"

definition enforceAdmissionPolicy :: "string \<Rightarrow> trust_class option \<Rightarrow> channel_status option \<Rightarrow> admission_policy \<Rightarrow> floor_result" where
  "enforceAdmissionPolicy channel cls memberStatus policy =
     (if isAdmissionPolicyExemptChannel channel then FloorAdmits
      else if memberStatus = Some ChBlocked then FloorDenies FloorMemberBlocked False
      else if memberStatus = Some ChRevoked then FloorDenies FloorMemberRevoked False
      else if (case cls of None \<Rightarrow> False | Some c \<Rightarrow> ADMISSION_FLOOR policy \<le> TRUST_CLASS_RANK c) then FloorAdmits
      else FloorDenies (BelowFloor policy) (policy \<in> {AnyContact, Strangers}))"

section \<open>From the channel to the assistant\<close>

datatype inbound_outcome =
    KillSwitch | RoutingRejected | CodeIntercepted | InviteIntercepted
  | AclDenied acl_reason | FloorDenied floor_reason | ReachesAssistant string

text \<open>\<open>senderAuthenticated\<close> is \<open>Some False\<close> where the channel found the address forged.\<close>

definition stamp_verdict :: "bool option \<Rightarrow> trust_verdict \<Rightarrow> trust_verdict" where
  "stamp_verdict senderAuthenticated v =
     (if senderAuthenticated = Some False
      then (makeUnauthenticatedSenderVerdict (tv_sender v))\<lparr>tv_failed := tv_failed v\<rparr> else v)"

record inbound_event =
  ie_channel :: string
  ie_actor :: string
  ie_start :: "string option"
  ie_isBot :: bool
  ie_authenticated :: "bool option"
  ie_routed :: bool
  ie_codeIntercepted :: bool
  ie_inviteIntercepted :: bool

text \<open>The gateway's part: a result to return, or the policy and the verdict to forward. \<open>resolved\<close> is what the resolver
  returns, \<open>None\<close> where it throws.\<close>

definition admitInbound ::
  "bool \<Rightarrow> floor_state \<Rightarrow> inbound_event \<Rightarrow> trust_verdict option \<Rightarrow> inbound_outcome + admission_policy option \<times> trust_verdict" where
  "admitInbound trustFloors floors e resolved =
     (let policy = resolveAdmissionPolicy trustFloors (ie_channel e) floors
      in if policy = Some NoOne then Inl KillSwitch
         else if \<not> ie_routed e then Inl RoutingRejected
         else if ie_codeIntercepted e then Inl CodeIntercepted
         else
           let v = stamp_verdict (ie_authenticated e)
                     (case resolved of
                        Some v \<Rightarrow> v
                      | None \<Rightarrow> makeResolutionFailedVerdict (canonicalSenderIdFor (ie_channel e) (Some (ie_actor e))))
           in if ie_authenticated e \<noteq> Some False \<and> ie_inviteIntercepted e then Inl InviteIntercepted
              else Inr (policy, v))"

definition acl_input_of :: "bool \<Rightarrow> inbound_event \<Rightarrow> admission_policy \<Rightarrow> trust_verdict \<Rightarrow> acl_input" where
  "acl_input_of trustFloors e policy v =
     \<lparr>ai_sender = (if ie_actor e = [] then None else canonicalizeInboundIdentity (ie_channel e) (ie_actor e)),
      ai_raw = Some (ie_actor e), ai_channel = ie_channel e, ai_start = ie_start e, ai_verdict = Some v, ai_isBot = ie_isBot e,
      ai_policy = (if trustFloors then Some policy else None), ai_callback = False, ai_unattributed = False\<rparr>"

text \<open>The daemon's part; without a policy on the wire the default holds.\<close>

definition daemonInbound :: "acl_env \<Rightarrow> bool \<Rightarrow> inbound_event \<Rightarrow> admission_policy option \<times> trust_verdict \<Rightarrow> inbound_outcome" where
  "daemonInbound env trustFloors e forwarded =
     (case forwarded of
        (wire, v) \<Rightarrow>
          let policy = (case wire of Some p \<Rightarrow> p | None \<Rightarrow> ADMISSION_POLICY_DEFAULT);
              acl = enforceIngressAcl env (acl_input_of trustFloors e policy v)
          in case al_denied acl of
               Some reason \<Rightarrow> AclDenied reason
             | None \<Rightarrow>
                 if \<not> trustFloors \<or> al_bootstrap acl then ReachesAssistant (tv_class v)
                 else
                   case enforceAdmissionPolicy (ie_channel e) (map_of TRUST_CLASS_VALUES (tv_class v))
                          (map_option vm_status (al_member acl)) policy of
                     FloorAdmits \<Rightarrow> ReachesAssistant (tv_class v)
                   | FloorDenies reason _ \<Rightarrow> FloorDenied reason)"

definition inbound ::
  "acl_env \<Rightarrow> bool \<Rightarrow> floor_state \<Rightarrow> inbound_event \<Rightarrow> trust_verdict option \<Rightarrow> inbound_outcome" where
  "inbound env trustFloors floors e resolved =
     (case admitInbound trustFloors floors e resolved of
        Inl outcome \<Rightarrow> outcome
      | Inr forwarded \<Rightarrow> daemonInbound env trustFloors e forwarded)"

section \<open>The sender's row decides the class\<close>

text \<open>The reference: the class read off the sender's own row and its contact.\<close>

definition class_of_member :: "(channel_row \<times> contact_row) option \<Rightarrow> contact_db \<Rightarrow> trust_class" where
  "class_of_member m db =
     (case m of
        None \<Rightarrow> ClsUnknown
      | Some (r, c) \<Rightarrow>
          if cc_status r \<in> {ChBlocked, ChRevoked} then ClsUnknown
          else if ct_role c = RoleGuardian \<and> list_ex (\<lambda>x. cc_contactId x = ct_id c \<and> cc_status x = ChActive) (channelRows db)
          then ClsGuardian
          else if cc_status r = ChActive then ClsTrusted else ClsUnverified)"

lemma member_denied_iff: "member_denied st \<longleftrightarrow> st \<in> {ChBlocked, ChRevoked}"
  by (cases st) (simp_all add: member_denied_def)

lemma contact_by_idD: "contact_by_id i db = Some c \<Longrightarrow> c \<in> set (contactRows db) \<and> ct_id c = i"
  by (auto simp: contact_by_id_def dest: find_someD)

lemma contact_by_id_in: "directory_ok db \<Longrightarrow> c \<in> set (contactRows db) \<Longrightarrow> contact_by_id (ct_id c) db = Some c"
  unfolding contact_by_id_def by (rule find_unique) (auto simp: directory_ok_def distinct_map inj_on_def)

lemma member_rowD:
  "member_row t s db = Some (r, c) \<Longrightarrow> r \<in> set (channelRows db) \<and> cc_type r = t \<and> c \<in> set (contactRows db) \<and> ct_id c = cc_contactId r"
  by (auto simp: member_row_def bind_eq_Some_conv channel_key_def split: option.splits dest: find_channelD contact_by_idD)

lemma guardian_address_row:
  assumes ok: "directory_ok db" and g: "at_guardian_address t s db"
  shows "\<exists>r c. member_row t s db = Some (r, c) \<and> cc_status r = ChActive \<and> ct_role c = RoleGuardian"
proof -
  from g obtain x a where x: "guardian_row t db = Some x" "non_empty s = Some a" "nocase (cc_address x) = nocase a"
    by (auto simp: at_guardian_address_def split: option.splits)
  from first_by_in [OF x(1) [unfolded guardian_row_def]]
  have xin: "x \<in> set (channelRows db)" "cc_type x = t" "cc_status x = ChActive" "guardian_contact (cc_contactId x) db"
    by (auto simp: guardian_rows_def)
  from xin(4) obtain c where c: "c \<in> set (contactRows db)" "ct_id c = cc_contactId x" "ct_role c = RoleGuardian"
    by (auto simp: guardian_contact_def list_ex_iff)
  have "find_channel t a db = Some x"
    using find_channel_key [OF ok xin(1)] xin(2) x(3) by (simp add: channel_key_def)
  with x(2) c xin(3) contact_by_id_in [OF ok c(1)] show ?thesis by (simp add: member_row_def)
qed

lemma sender_class_member:
  assumes "directory_ok db"
  shows "sender_class t s db = class_of_member (member_row t s db) db"
proof (cases "at_guardian_address t s db")
  case True
  from guardian_address_row [OF assms True] obtain r c where
    m: "member_row t s db = Some (r, c)" "cc_status r = ChActive" "ct_role c = RoleGuardian" by blast
  with member_rowD [OF m(1)] have "list_ex (\<lambda>x. cc_contactId x = ct_id c \<and> cc_status x = ChActive) (channelRows db)"
    by (auto simp: list_ex_iff)
  with True m show ?thesis by (simp add: sender_class_def class_of_member_def)
next
  case False
  then show ?thesis
    by (auto simp: sender_class_def class_of_member_def guardian_identity_def member_denied_iff split: option.split channel_status.split)
qed

section \<open>Across the wire\<close>

lemma class_text_inv [simp]: "map_of TRUST_CLASS_VALUES (class_text c) = Some c"
  by (cases c) (simp_all add: TRUST_CLASS_VALUES_def)

lemma class_text_guardian [simp]: "class_text c = ''guardian'' \<longleftrightarrow> c = ClsGuardian"
  by (cases c) simp_all

lemma status_text_inv [simp]: "map_of VALID_CHANNEL_STATUSES (status_text st) = Some st" "status_text st \<noteq> []"
  by (cases st; simp add: VALID_CHANNEL_STATUSES_def)+

lemma non_empty_simps [simp]: "non_empty None = None" "non_empty (Some x) = (if x = [] then None else Some x)"
  by (simp_all add: non_empty_def)

text \<open>Rows have identifiers.\<close>

definition row_named :: "channel_row \<Rightarrow> bool" where
  "row_named r = (cc_id r \<noteq> [] \<and> cc_contactId r \<noteq> [])"

definition wire_member :: "(channel_row \<times> contact_row) option \<Rightarrow> verdict_member option" where
  "wire_member m =
     (case m of
        None \<Rightarrow> None
      | Some (r, _) \<Rightarrow>
          if cc_policy r \<in> set VALID_CHANNEL_POLICIES
          then Some \<lparr>vm_contactId = cc_contactId r, vm_channelId = cc_id r, vm_status = cc_status r, vm_policy = cc_policy r\<rparr>
          else None)"

lemma with_guardian_keeps [simp]:
  "tv_class (with_guardian t s db v) = tv_class v" "tv_failed (with_guardian t s db v) = tv_failed v"
  "tv_contactId (with_guardian t s db v) = tv_contactId v" "tv_channelId (with_guardian t s db v) = tv_channelId v"
  "tv_status (with_guardian t s db v) = tv_status v" "tv_policy (with_guardian t s db v) = tv_policy v"
  by (simp_all add: with_guardian_def split: option.split)

lemma with_member_fields:
  "tv_class (with_member t s db v) = tv_class v" "tv_failed (with_member t s db v) = tv_failed v"
  "member_row t s db = None \<Longrightarrow> with_member t s db v = v"
  "member_row t s db = Some (r, c) \<Longrightarrow> tv_contactId (with_member t s db v) = Some (cc_contactId r)"
  "member_row t s db = Some (r, c) \<Longrightarrow> tv_channelId (with_member t s db v) = Some (cc_id r)"
  "member_row t s db = Some (r, c) \<Longrightarrow> tv_status (with_member t s db v) = Some (status_text (cc_status r))"
  "member_row t s db = Some (r, c) \<Longrightarrow> tv_policy (with_member t s db v) = Some (cc_policy r)"
  by (auto simp: with_member_def split: option.split)

text \<open>What a verdict says of the sender: it failed, or its class and its member are those of the sender's row.\<close>

definition speaks_for :: "trust_verdict \<Rightarrow> (channel_row \<times> contact_row) option \<Rightarrow> contact_db \<Rightarrow> bool" where
  "speaks_for v m db =
     (tv_failed v \<or>
      (tv_class v = class_text (class_of_member m db) \<and>
       (case m of
          None \<Rightarrow> tv_contactId v = None \<and> tv_channelId v = None
        | Some (r, _) \<Rightarrow>
            tv_contactId v = Some (cc_contactId r) \<and> tv_channelId v = Some (cc_id r) \<and>
            tv_status v = Some (status_text (cc_status r)) \<and> tv_policy v = Some (cc_policy r))))"

lemma blank_fields [simp]:
  "tv_contactId (makeUnauthenticatedSenderVerdict s) = None" "tv_channelId (makeUnauthenticatedSenderVerdict s) = None"
  "tv_class (makeUnauthenticatedSenderVerdict s) = ''unknown''" "tv_failed (makeUnauthenticatedSenderVerdict s) = False"
  by (simp_all add: makeUnauthenticatedSenderVerdict_def)

lemma failed_speaks: "speaks_for (makeResolutionFailedVerdict s) m db"
  by (simp add: speaks_for_def makeResolutionFailedVerdict_def)

lemma stamped_speaks:
  assumes "directory_ok db" "tv_class v = class_text (sender_class t s db)" "tv_contactId v = None" "tv_channelId v = None"
  shows "speaks_for (with_member t s db (with_guardian t s db v)) (member_row t s db) db"
  using assms by (cases "member_row t s db") (auto simp: speaks_for_def with_member_fields sender_class_member)

lemma verdict_speaks:
  assumes "directory_ok db"
  shows "speaks_for (verdict_for integrity session t s db) (member_row t s db) db"
  unfolding verdict_for_def Let_def makeResolutionFailedVerdict_def
  by (auto intro!: stamped_speaks [OF assms] simp: speaks_for_def [of "makeUnauthenticatedSenderVerdict s\<lparr>tv_failed := True\<rparr>"] split: option.split)

lemma resolve_speaks:
  "directory_ok db \<Longrightarrow> sender_key channel actor = (t, s) \<Longrightarrow>
     speaks_for (resolveTrustVerdict integrity session channel actor db) (member_row t s db) db"
  by (simp add: resolveTrustVerdict_def verdict_speaks)

lemma usable_verdict:
  assumes "speaks_for v m db" "case m of None \<Rightarrow> True | Some (r, _) \<Rightarrow> row_named r"
  shows "verdictUsability (Some v) =
      (if tv_failed v then Inl ResolutionFailed
       else if m \<noteq> None \<and> wire_member m = None then Inl MemberUnresolvable else Inr v) \<and>
    (\<not> tv_failed v \<longrightarrow> verdictMemberFromVerdict v = wire_member m)"
proof (cases m)
  case None
  with assms(1) show ?thesis
    by (auto simp: speaks_for_def verdictUsability_def verdictMemberFromVerdict_def wire_member_def class_of_member_def
        TRUST_CLASS_VALUES_def)
next
  case (Some x)
  obtain r c where x: "x = (r, c)" by (cases x)
  have pol: "cc_policy r = [] \<Longrightarrow> cc_policy r \<notin> set VALID_CHANNEL_POLICIES" by (simp add: VALID_CHANNEL_POLICIES_def)
  have "verdictMemberFromVerdict v = wire_member m" if "\<not> tv_failed v"
    using that assms Some x pol by (auto simp: speaks_for_def verdictMemberFromVerdict_def wire_member_def row_named_def)
  with assms Some x show ?thesis
    by (auto simp: speaks_for_def verdictUsability_def row_named_def)
qed

section \<open>Who reaches the assistant\<close>

definition named_member :: "(channel_row \<times> contact_row) option \<Rightarrow> bool" where
  "named_member m = (case m of None \<Rightarrow> True | Some (r, _) \<Rightarrow> row_named r)"

lemma acl_input_fields [simp]:
  "ai_verdict (acl_input_of floors e p v) = Some v" "ai_raw (acl_input_of floors e p v) = Some (ie_actor e)"
  "\<not> ai_unattributed (acl_input_of floors e p v)" "ai_start (acl_input_of floors e p v) = ie_start e"
  "ai_policy (acl_input_of floors e p v) = (if floors then Some p else None)"
  by (simp_all add: acl_input_of_def)

lemma acl_of_message:
  assumes "speaks_for v m db" "named_member m"
  shows "enforceIngressAcl env (acl_input_of floors e p v) =
      (if tv_failed v \<or> (m \<noteq> None \<and> wire_member m = None) then failClosedDeny
       else if class_of_member m db = ClsGuardian then acl_guardian (wire_member m)
       else case wire_member m of
              None \<Rightarrow> acl_stranger env (acl_input_of floors e p v)
            | Some x \<Rightarrow> acl_member env (acl_input_of floors e p v) x)"
proof (cases "tv_failed v")
  case False
  with assms have "tv_class v = class_text (class_of_member m db)" by (simp add: speaks_for_def)
  with False usable_verdict [OF assms(1) assms(2) [unfolded named_member_def]] show ?thesis
    by (simp add: enforceIngressAcl_def)
qed (use usable_verdict [OF assms(1) assms(2) [unfolded named_member_def]] in \<open>simp add: enforceIngressAcl_def\<close>)

text \<open>The reference: no block, revocation or denial against the sender, and a rank that meets the floor.\<close>

definition may_reach :: "admission_policy \<Rightarrow> (channel_row \<times> contact_row) option \<Rightarrow> contact_db \<Rightarrow> bool" where
  "may_reach p m db =
     (meetsAdmissionFloor p (class_of_member m db) \<and>
      (case m of None \<Rightarrow> True | Some (r, _) \<Rightarrow> cc_status r \<notin> {ChBlocked, ChRevoked} \<and> cc_policy r = ''allow''))"

lemma acl_inactive_denies: "al_denied (acl_inactive env i m) \<noteq> None"
  by (auto simp: acl_inactive_def acl_deny_def Let_def split: prod.split)

lemma acl_stranger_denies: "\<not> bootstrap_session env i \<Longrightarrow> ai_policy i \<notin> {Some Strangers, Some GuardianOnly} \<Longrightarrow> al_denied (acl_stranger env i) \<noteq> None"
  by (auto simp: acl_stranger_def acl_deny_def split: prod.split)

lemma acl_member_passes:
  assumes "\<not> bootstrap_session env i"
  shows "al_denied (acl_member env i m) = None \<longleftrightarrow> vm_policy m \<noteq> ''deny'' \<and>
      (vm_status m = ChActive \<or> (ai_policy i = Some Strangers \<and> vm_status m \<in> {ChPending, ChUnverified}) \<or>
       (ai_policy i \<in> {Some AnyContact, Some GuardianOnly} \<and> vm_status m \<in> {ChPending, ChUnverified}))"
    and "al_denied (acl_member env i m) = None \<Longrightarrow> acl_member env i m = acl_pass (Some m) False"
  using assms acl_inactive_denies [of env i m]
  by (cases "vm_status m"; auto simp: acl_member_def Let_def acl_pass_def acl_deny_def)+

lemma daemon_reaches_iff:
  "(\<exists>c. daemonInbound env f e (wire, v) = ReachesAssistant c) \<longleftrightarrow>
     (let p = (case wire of Some p \<Rightarrow> p | None \<Rightarrow> ADMISSION_POLICY_DEFAULT); acl = enforceIngressAcl env (acl_input_of f e p v)
      in al_denied acl = None \<and>
         (\<not> f \<or> al_bootstrap acl \<or>
          enforceAdmissionPolicy (ie_channel e) (map_of TRUST_CLASS_VALUES (tv_class v)) (map_option vm_status (al_member acl)) p = FloorAdmits))"
  by (auto simp: daemonInbound_def Let_def split: option.split floor_result.split)

lemma daemon_reaches:
  assumes "speaks_for v m db" "named_member m" "ie_start e = None" "\<not> isAdmissionPolicyExemptChannel (ie_channel e)"
  shows "(\<exists>c. daemonInbound env True e (Some p, v) = ReachesAssistant c) \<longleftrightarrow> \<not> tv_failed v \<and> may_reach p m db"
proof (cases "tv_failed v")
  case True
  with acl_of_message [OF assms(1,2)] show ?thesis by (simp add: daemon_reaches_iff failClosedDeny_def acl_deny_def)
next
  case False
  then have cls: "map_of TRUST_CLASS_VALUES (tv_class v) = Some (class_of_member m db)" using assms(1) by (simp add: speaks_for_def)
  let ?i = "acl_input_of True e p v"
  have i: "\<not> bootstrap_session env ?i" "ai_policy ?i = Some p" using assms(3) by (simp_all add: bootstrap_session_def)
  note unf = daemon_reaches_iff acl_of_message [OF assms(1,2)] False cls enforceAdmissionPolicy_def assms(4) Let_def may_reach_def meetsAdmissionFloor_def
  show ?thesis
  proof (cases m)
    case None
    then have c: "class_of_member m db = ClsUnknown" by (simp add: class_of_member_def)
    show ?thesis
    proof (cases "p \<in> {Strangers, GuardianOnly}")
      case True
      then show ?thesis using i None c by (auto simp: unf wire_member_def acl_stranger_def acl_pass_def)
    next
      case False
      with acl_stranger_denies [OF i(1)] i(2) have "al_denied (acl_stranger env ?i) \<noteq> None" by simp
      moreover from False have "\<not> ADMISSION_FLOOR p \<le> 1" by (cases p) simp_all
      ultimately show ?thesis using None c by (simp add: unf wire_member_def)
    qed
  next
    case (Some x)
    obtain r c where x: "x = (r, c)" by (cases x)
    show ?thesis
    proof (cases "cc_policy r \<in> set VALID_CHANNEL_POLICIES")
      case False
      then have "cc_policy r \<noteq> ''allow''" by (auto simp: VALID_CHANNEL_POLICIES_def)
      with False show ?thesis by (simp add: unf Some x wire_member_def failClosedDeny_def acl_deny_def)
    next
      case pol: True
      show ?thesis
      proof (cases "class_of_member m db = ClsGuardian")
        case True
        then have "cc_status r \<notin> {ChBlocked, ChRevoked}" by (auto simp: class_of_member_def Some x split: if_splits)
        with True pol show ?thesis
          by (cases p) (auto simp: unf Some x wire_member_def acl_guardian_def acl_pass_def acl_deny_def VALID_CHANNEL_POLICIES_def)
      next
        case False
        then have c: "class_of_member m db = (if cc_status r \<in> {ChBlocked, ChRevoked} then ClsUnknown
            else if cc_status r = ChActive then ClsTrusted else ClsUnverified)"
          by (auto simp: class_of_member_def Some x split: if_splits)
        let ?m = "\<lparr>vm_contactId = cc_contactId r, vm_channelId = cc_id r, vm_status = cc_status r, vm_policy = cc_policy r\<rparr>"
        have "enforceIngressAcl env ?i = acl_member env ?i ?m"
          using False pol \<open>\<not> tv_failed v\<close> by (simp add: acl_of_message [OF assms(1,2)] Some x wire_member_def)
        then have "(\<exists>c. daemonInbound env True e (Some p, v) = ReachesAssistant c) \<longleftrightarrow>
            al_denied (acl_member env ?i ?m) = None \<and> cc_status r \<notin> {ChBlocked, ChRevoked} \<and> ADMISSION_FLOOR p \<le> TRUST_CLASS_RANK (class_of_member m db)"
          using acl_member_passes(2) [OF i(1), of ?m]
          by (auto simp: daemon_reaches_iff cls enforceAdmissionPolicy_def assms(4) Let_def acl_pass_def)
        then show ?thesis
          using pol c \<open>\<not> tv_failed v\<close> unfolding acl_member_passes(1) [OF i(1)] may_reach_def meetsAdmissionFloor_def
          by (cases p; cases "cc_status r") (auto simp: Some x VALID_CHANNEL_POLICIES_def)
      qed
    qed
  qed
qed

section \<open>Properties\<close>

text \<open>C4: the class of a sender is what their own row on the channel says. A verdict that did not fail carries the class
  guardian exactly if the row is not blocked or revoked and belongs to a guardian who has an active channel, trusted contact
  if it is active, unverified if it is pending or unverified, and unknown otherwise.\<close>

theorem verdict_class:
  assumes "directory_ok db" "sender_key channel actor = (t, s)" "\<not> tv_failed (resolveTrustVerdict integrity session channel actor db)"
  shows "tv_class (resolveTrustVerdict integrity session channel actor db) = class_text (class_of_member (member_row t s db) db)"
  using resolve_speaks [OF assms(1,2), of integrity session] assms(3) by (simp add: speaks_for_def)

lemma slack_key: "sender_key ''slack'' (Some ''U1'') = (''slack'', Some ''U1'')"
  by (simp add: sender_key_def pluginMemberIdentity_def canonicalSenderIdFor_def canonicalizeInboundIdentity_def
      canonicalizeIdentityAs_def identityKindFor_def js_trim_def js_space_def)

lemma one_member:
  "member_row ''slack'' (Some ''U1'') (one_channel role pid st) =
     Some (hd (channelRows (one_channel role pid st)), hd (contactRows (one_channel role pid st)))"
  by (simp add: member_row_def one_channel_def find_channel_def same_key_def seeded_channel_def contact_by_id_def)

theorem verdict_class_witness:
  "tv_class (resolveTrustVerdict None None ''slack'' (Some ''U1'') (one_channel RoleContact None ChActive)) = ''trusted_contact''"
proof -
  have id: "guardian_identity ''slack'' (Some ''U1'') (one_channel RoleContact None ChActive) = None"
    by (simp add: guardian_identity_def one_member) (simp add: one_channel_def)
  have "\<not> tv_failed (resolveTrustVerdict None None ''slack'' (Some ''U1'') (one_channel RoleContact None ChActive))"
    by (simp add: resolveTrustVerdict_def slack_key verdict_for_def id Let_def with_member_fields)
  from verdict_class [OF one_channel_ok slack_key this] show ?thesis
    by (simp add: one_member class_of_member_def) (simp add: one_channel_def seeded_channel_def)
qed

text \<open>C2: who reaches the assistant. With the floors flag on, on a channel not exempt from them, a composed message that is
  routed, carries no start payload, is not read as a code or an invite, and whose sender the channel does not find forged,
  reaches the assistant exactly if a verdict could be given, the rank of the sender's class meets the floor of the channel,
  and the sender's row, if there is one, is not blocked or revoked and its policy is allow. The access list and the floor of
  the daemon together decide nothing else.\<close>

theorem inbound_reaches:
  assumes "directory_ok db" "sender_key (ie_channel e) (Some (ie_actor e)) = (t, s)" "named_member (member_row t s db)"
    and "resolveAdmissionPolicy True (ie_channel e) floors = Some p"
    and "ie_routed e" "\<not> ie_codeIntercepted e" "\<not> ie_inviteIntercepted e" "ie_authenticated e \<noteq> Some False" "ie_start e = None"
  shows "(\<exists>c. inbound env True floors e (Some (resolveTrustVerdict integrity session (ie_channel e) (Some (ie_actor e)) db)) = ReachesAssistant c) \<longleftrightarrow>
    \<not> tv_failed (resolveTrustVerdict integrity session (ie_channel e) (Some (ie_actor e)) db) \<and> may_reach p (member_row t s db) db"
proof -
  let ?v = "resolveTrustVerdict integrity session (ie_channel e) (Some (ie_actor e)) db"
  have ex: "\<not> isAdmissionPolicyExemptChannel (ie_channel e)"
    using assms(4) by (auto simp: resolveAdmissionPolicy_def split: if_splits)
  note reaches = daemon_reaches [OF resolve_speaks [OF assms(1,2), of integrity session] assms(3) assms(9) ex, of env p]
  show ?thesis
  proof (cases "p = NoOne")
    case True
    moreover have "\<not> may_reach NoOne m db" for m
      by (cases "class_of_member m db") (simp_all add: may_reach_def meetsAdmissionFloor_def)
    ultimately show ?thesis using assms(4) by (simp add: inbound_def admitInbound_def)
  next
    case False
    then have "admitInbound True floors e (Some ?v) = Inr (Some p, ?v)"
      using assms(4-8) by (simp add: admitInbound_def stamp_verdict_def Let_def)
    with reaches show ?thesis by (simp add: inbound_def)
  qed
qed

definition quiet_env :: acl_env where
  "quiet_env = \<lparr>ae_bootstrap = \<lambda>_. False, ae_challenge = False, ae_notified = None, ae_handshake = False, ae_reply = False\<rparr>"

definition slack_message :: inbound_event where
  "slack_message = \<lparr>ie_channel = ''slack'', ie_actor = ''U1'', ie_start = None, ie_isBot = False, ie_authenticated = None,
     ie_routed = True, ie_codeIntercepted = False, ie_inviteIntercepted = False\<rparr>"

definition slack_floor :: "admission_policy \<Rightarrow> floor_state" where
  "slack_floor p = \<lparr>fs_rows = [], fs_cache = [''slack'' \<mapsto> p]\<rparr>"

lemma slack_policy: "resolveAdmissionPolicy True (ie_channel slack_message) (slack_floor p) = Some p"
  by (simp add: resolveAdmissionPolicy_def slack_message_def slack_floor_def isAdmissionPolicyExemptChannel_def isChannelId_def
      CHANNEL_IDS_def cached_floor_def)

lemma slack_sender: "sender_key (ie_channel slack_message) (Some (ie_actor slack_message)) = (''slack'', Some ''U1'')"
  by (simp add: slack_message_def slack_key)

lemma one_named: "list_all row_named (channelRows (one_channel role pid st))"
  by (simp add: one_channel_def seeded_channel_def row_named_def)

theorem inbound_reaches_witness:
  "\<exists>c. inbound quiet_env True (slack_floor AnyContact) slack_message
     (Some (resolveTrustVerdict None None ''slack'' (Some ''U1'') (one_channel RoleContact None ChPending))) = ReachesAssistant c"
proof -
  let ?db = "one_channel RoleContact None ChPending"
  have id: "guardian_identity ''slack'' (Some ''U1'') ?db = None"
    by (simp add: guardian_identity_def one_member) (simp add: one_channel_def)
  have "named_member (member_row ''slack'' (Some ''U1'') ?db)"
    by (simp add: one_member named_member_def) (simp add: one_channel_def seeded_channel_def row_named_def)
  from inbound_reaches [OF one_channel_ok slack_sender this slack_policy, where env = quiet_env and integrity = None and session = None and p = AnyContact]
  show ?thesis
    by (simp add: slack_message_def resolveTrustVerdict_def slack_key verdict_for_def id Let_def with_member_fields one_member
        may_reach_def meetsAdmissionFloor_def class_of_member_def) (simp add: one_channel_def seeded_channel_def)
qed

text \<open>C1: a blocked sender stays out. Once the address is blocked, then whatever happens to the directory short of a
  decision of the guardian, and whatever the floor, the flag, the tokens and the intercepts say, no message from it that
  the channel does not find forged reaches the assistant.\<close>

theorem blocked_sender_stays_out:
  assumes "directory_ok db0" "gatewayChannelStatus t a db0 = Some ChBlocked" "(dir_step False)\<^sup>*\<^sup>* db0 db"
    and "sender_key (ie_channel e) (Some (ie_actor e)) = (t, Some a)" "a \<noteq> []" "list_all row_named (channelRows db)"
    and "ie_authenticated e \<noteq> Some False"
    and "resolved \<in> {None, Some (resolveTrustVerdict integrity session (ie_channel e) (Some (ie_actor e)) db)}"
  shows "inbound env flag floors e resolved \<noteq> ReachesAssistant c"
proof -
  note run = blocked_run [OF assms(3,1,2)]
  then obtain r where r: "find_channel t a db = Some r" "cc_status r = ChBlocked" by (auto simp: gatewayChannelStatus_def)
  then have rin: "r \<in> set (channelRows db)" using find_channelD by blast
  then obtain ct where ct: "ct \<in> set (contactRows db)" "ct_id ct = cc_contactId r"
    using run directory_rowD(3) by (metis has_contact_iff imageE)
  have m: "member_row t (Some a) db = Some (r, ct)"
    using r(1) contact_by_id_in [OF conjunct1 [OF run] ct(1)] ct(2) assms(5) by (simp add: member_row_def)
  have named: "named_member (Some (r, ct))" using rin assms(6) by (simp add: named_member_def list_all_iff)
  have cls: "class_of_member (Some (r, ct)) db = ClsUnknown" using r(2) by (simp add: class_of_member_def)
  define v where "v = (case resolved of Some v \<Rightarrow> v
      | None \<Rightarrow> makeResolutionFailedVerdict (canonicalSenderIdFor (ie_channel e) (Some (ie_actor e))))"
  have speaks: "speaks_for v (Some (r, ct)) db"
    using assms(8) resolve_speaks [OF conjunct1 [OF run] assms(4), of integrity session] m
    by (auto simp: v_def failed_speaks)
  have "al_denied (acl_member env i x) \<noteq> None" if "vm_status x = ChBlocked" for i x
    using acl_inactive_denies that by (simp add: acl_member_def Let_def)
  then have "al_denied (enforceIngressAcl env (acl_input_of flag e p v)) \<noteq> None" for p
    using r(2) by (auto simp: acl_of_message [OF speaks named] cls wire_member_def failClosedDeny_def acl_deny_def)
  then have "\<nexists>c. daemonInbound env flag e (wire, v) = ReachesAssistant c" for wire
    by (simp only: daemon_reaches_iff Let_def) blast
  moreover have "inbound env flag floors e resolved = ReachesAssistant c \<Longrightarrow> \<exists>wire. daemonInbound env flag e (wire, v) = ReachesAssistant c"
    using assms(7) by (auto simp: inbound_def admitInbound_def stamp_verdict_def v_def Let_def split: if_splits)
  ultimately show ?thesis by blast
qed

theorem blocked_sender_stays_out_witness:
  "\<forall>c. inbound quiet_env True (slack_floor Strangers) slack_message
     (Some (resolveTrustVerdict None None ''slack'' (Some ''U1'') (touchContactInteraction ''ch'' 1 (one_channel RoleContact None ChBlocked)))) \<noteq> ReachesAssistant c"
proof (rule allI, rule blocked_sender_stays_out [OF one_channel_ok])
  show "(dir_step False)\<^sup>*\<^sup>* (one_channel RoleContact None ChBlocked) (touchContactInteraction ''ch'' 1 (one_channel RoleContact None ChBlocked))"
    by (rule r_into_rtranclp) (rule dir_step.interaction)
  show "sender_key (ie_channel slack_message) (Some (ie_actor slack_message)) = (''slack'', Some ''U1'')" by (rule slack_sender)
qed (simp_all add: gatewayChannelStatus_def one_channel_def find_channel_def same_key_def seeded_channel_def
    touchContactInteraction_def set_channels_def update_where_def row_named_def slack_message_def)



text \<open>C19: a denial is silent where it has to be. A verdict that cannot be used, a sender classified as the guardian, one who
  was revoked or blocked, and a press of a button never start a challenge and never notify the guardian.\<close>

theorem denial_is_silent:
  assumes "ai_callback i \<or> (case verdictUsability (ai_verdict i) of Inl _ \<Rightarrow> True
      | Inr v \<Rightarrow> tv_class v = ''guardian'' \<or>
          (case verdictMemberFromVerdict v of None \<Rightarrow> False | Some m \<Rightarrow> isKeptOutStatus (vm_status m)))"
  shows "al_effects (enforceIngressAcl env i) = []"
proof -
  have guardian: "al_effects (acl_guardian m) = []" for m
    by (simp add: acl_guardian_def failClosedDeny_def acl_deny_def acl_pass_def split: option.split)
  have callback: "ai_callback i \<Longrightarrow> al_effects (acl_stranger env i) = []"
    by (simp add: acl_stranger_def acl_deny_def acl_pass_def notify_outcome_def)
  have inactive: "ai_callback i \<or> isKeptOutStatus (vm_status m) \<Longrightarrow> al_effects (acl_inactive env i m) = []" for m
    by (auto simp: acl_inactive_def acl_deny_def notify_outcome_def)
  then have member: "ai_callback i \<or> isKeptOutStatus (vm_status m) \<Longrightarrow> al_effects (acl_member env i m) = []" for m
    by (auto simp: acl_member_def Let_def acl_deny_def acl_pass_def)
  show ?thesis
    using assms guardian callback member
    by (auto simp: enforceIngressAcl_def failClosedDeny_def acl_deny_def acl_pass_def Let_def split: sum.splits option.splits)
qed

theorem denial_is_silent_witness:
  "al_effects (enforceIngressAcl quiet_env (acl_input_of True slack_message TrustedContacts (makeResolutionFailedVerdict None))) = []"
  by (rule denial_is_silent) (simp add: verdictUsability_def makeResolutionFailedVerdict_def)

definition two_addresses :: contact_db where
  "two_addresses = (one_channel RoleGuardian None ChActive)
     \<lparr>channelRows := channelRows (one_channel RoleGuardian None ChActive) @ [seeded_channel ''ch2'' ''c'' ''slack'' ''U2'' None 0]\<rparr>"

text \<open>a guardian without a principal is still classified as the guardian at the address of the active binding. There the
  class is stamped without looking at the principal, and the message reaches the assistant as the guardian's with no
  principal on it; the same contact, recognised by its row at another address, gets the verdict that could not be
  given.\<close>

theorem guardian_without_principal:
  "let v = verdict_for None None ''slack'' (Some ''U1'') two_addresses
   in tv_class v = ''guardian'' \<and> tv_guardianPrincipalId v = None \<and> \<not> tv_failed v \<and>
      inbound quiet_env True (slack_floor GuardianOnly) slack_message (Some v) = ReachesAssistant ''guardian'' \<and>
      tv_failed (verdict_for None None ''slack'' (Some ''U2'') two_addresses)"
  by code_simp

end
