(* ===== verification/Verification_Sessions.thy ===== *)
theory Verification_Sessions
  imports Contact_Directory "HOL-Library.Word"
begin

text \<open>
  The codes that prove an address: the table of sessions (\<^verbatim>\<open>db/session-store.ts\<close>), whom a session is
  bound to (\<^verbatim>\<open>verification-session-contract.ts\<close>, \<^verbatim>\<open>verification/identity-match.ts\<close>), how a code is
  minted and recognised (\<^verbatim>\<open>verification/session-service.ts\<close>, \<^verbatim>\<open>verification/code-parsing.ts\<close>) and the
  limit on wrong guesses (\<^verbatim>\<open>verification/rate-limit-helpers.ts\<close>).

  \<^item> A table is the list of its rows in the order of their insertion, which is that of \<open>rowid\<close>; a select
    without an order reads the first row that matches. A synchronous section reads the clock once. The digest of
    secrets is a parameter, as are random identifiers and secrets.
  \<^item> Columns with a default are read with it, as \<open>rowToSession\<close> does for rows of an older table.
  \<^item> Results: a code is found again in what a user sends. The lemmas at the end say what the record of wrong
    attempts remembers; the bound on guesses that follows is proved over the flows.
\<close>

section \<open>The rows\<close>

datatype session_status =
  SessPending | SessConsumed | SessBootstrap | SessAwaiting | SessVerified | SessExpired | SessRevoked | SessLocked

datatype purpose = GuardianPurpose | ContactPurpose

datatype binding_status = BindingPending | BindingBound

record session_row =
  ss_id :: string
  ss_channel :: string
  ss_challengeHash :: string
  ss_expiresAt :: int
  ss_status :: session_status
  ss_sourceConversationId :: "string option"
  ss_consumedByExternalUserId :: "string option"
  ss_consumedByChatId :: "string option"
  ss_expectedExternalUserId :: "string option"
  ss_expectedChatId :: "string option"
  ss_expectedPhoneE164 :: "string option"
  ss_identityBindingStatus :: "binding_status option"
  ss_destinationAddress :: "string option"
  ss_lastSentAt :: "int option"
  ss_sendCount :: int
  ss_nextResendAt :: "int option"
  ss_codeDigits :: nat
  ss_maxAttempts :: nat
  ss_purpose :: purpose
  ss_bootstrapTokenHash :: "string option"
  ss_createdAt :: int
  ss_updatedAt :: int

definition INTERCEPTABLE_STATUSES :: "session_status list" where
  "INTERCEPTABLE_STATUSES = [SessPending, SessBootstrap, SessAwaiting]"

definition OUTBOUND_LIVE_STATUSES :: "session_status list" where
  "OUTBOUND_LIVE_STATUSES = [SessBootstrap, SessAwaiting]"

definition interceptable :: "session_row \<Rightarrow> bool" where
  "interceptable s = (ss_status s \<in> set INTERCEPTABLE_STATUSES)"

section \<open>The identity a session is bound to\<close>

datatype identity_field = PhoneE164 | ExternalUserId | ChatId

definition boundIdentity :: "session_row \<Rightarrow> (identity_field \<times> string) option" where
  "boundIdentity s =
     (case ss_expectedPhoneE164 s of
        Some v \<Rightarrow> Some (PhoneE164, v)
      | None \<Rightarrow>
          case ss_expectedExternalUserId s of
            Some v \<Rightarrow> Some (ExternalUserId, v)
          | None \<Rightarrow> (case ss_expectedChatId s of Some v \<Rightarrow> Some (ChatId, v) | None \<Rightarrow> None))"

definition bindsSameIdentity :: "(identity_field \<times> string) option \<Rightarrow> (identity_field \<times> string) option \<Rightarrow> bool" where
  "bindsSameIdentity a b = (a \<noteq> None \<and> b \<noteq> None \<and> a = b)"

definition checkIdentityMatch :: "session_row \<Rightarrow> string \<Rightarrow> string \<Rightarrow> bool" where
  "checkIdentityMatch s actorExternalUserId actorChatId =
     (case boundIdentity s of
        None \<Rightarrow> True
      | Some (field, value) \<Rightarrow>
          if ss_identityBindingStatus s \<noteq> Some BindingBound then True
          else if field = ChatId then actorChatId = value else actorExternalUserId = value)"

section \<open>The table\<close>

type_synonym session_table = "session_row list"

definition set_status :: "session_status \<Rightarrow> int \<Rightarrow> session_row \<Rightarrow> session_row" where
  "set_status st now s = s\<lparr>ss_status := st, ss_updatedAt := now\<rparr>"

text \<open>\<open>INSERT\<close> is \<open>None\<close> where the primary key refuses it; what ran before it stays.\<close>

definition insert_session :: "session_row \<Rightarrow> session_table \<Rightarrow> session_table option" where
  "insert_session s tbl = (if list_ex (\<lambda>r. ss_id r = ss_id s) tbl then None else Some (tbl @ [s]))"

definition revokePendingSessions :: "int \<Rightarrow> string \<Rightarrow> session_table \<Rightarrow> session_table" where
  "revokePendingSessions now channel =
     update_where (\<lambda>s. ss_channel s = channel \<and> ss_status s = SessPending) (set_status SessRevoked now)"

definition inbound_row :: "string \<Rightarrow> string \<Rightarrow> string \<Rightarrow> int \<Rightarrow> string option \<Rightarrow> int \<Rightarrow> session_row" where
  "inbound_row i channel challengeHash expiresAt source now =
     \<lparr>ss_id = i, ss_channel = channel, ss_challengeHash = challengeHash, ss_expiresAt = expiresAt, ss_status = SessPending,
      ss_sourceConversationId = source, ss_consumedByExternalUserId = None, ss_consumedByChatId = None,
      ss_expectedExternalUserId = None, ss_expectedChatId = None, ss_expectedPhoneE164 = None, ss_identityBindingStatus = None,
      ss_destinationAddress = None, ss_lastSentAt = None, ss_sendCount = 0, ss_nextResendAt = None, ss_codeDigits = 6,
      ss_maxAttempts = 3, ss_purpose = GuardianPurpose, ss_bootstrapTokenHash = None, ss_createdAt = now, ss_updatedAt = now\<rparr>"

definition createInboundSession ::
  "string \<Rightarrow> string \<Rightarrow> string \<Rightarrow> int \<Rightarrow> string option \<Rightarrow> int \<Rightarrow> session_table \<Rightarrow> session_row option \<times> session_table" where
  "createInboundSession i channel challengeHash expiresAt source now tbl =
     (let tbl1 = revokePendingSessions now channel tbl;
          row = inbound_row i channel challengeHash expiresAt source now
      in case insert_session row tbl1 of None \<Rightarrow> (None, tbl1) | Some tbl2 \<Rightarrow> (Some row, tbl2))"

definition findPendingSessionByHash :: "int \<Rightarrow> string \<Rightarrow> string \<Rightarrow> session_table \<Rightarrow> session_row option" where
  "findPendingSessionByHash now channel challengeHash =
     find (\<lambda>s. ss_channel s = channel \<and> ss_challengeHash s = challengeHash \<and> interceptable s \<and> now < ss_expiresAt s)"

definition findPendingSessionForChannel :: "int \<Rightarrow> string \<Rightarrow> session_table \<Rightarrow> session_row option" where
  "findPendingSessionForChannel now channel =
     find (\<lambda>s. ss_channel s = channel \<and> ss_status s = SessPending \<and> now < ss_expiresAt s)"

text \<open>\<open>ORDER BY created_at DESC, rowid DESC\<close>. An empty string in the filter is no filter.\<close>

definition findLatestSessionByStatuses ::
  "int \<Rightarrow> string \<Rightarrow> session_status list \<Rightarrow> string option \<Rightarrow> purpose option \<Rightarrow> session_table \<Rightarrow> session_row option" where
  "findLatestSessionByStatuses now channel statuses expectedExternalUserId verificationPurpose tbl =
     first_by (\<lambda>s best. ss_createdAt best \<le> ss_createdAt s)
       (filter (\<lambda>s. ss_channel s = channel \<and> ss_status s \<in> set statuses \<and> now < ss_expiresAt s \<and>
            (case non_empty expectedExternalUserId of None \<Rightarrow> True | Some u \<Rightarrow> ss_expectedExternalUserId s = Some u) \<and>
            (case verificationPurpose of None \<Rightarrow> True | Some p \<Rightarrow> ss_purpose s = p)) tbl)"

definition findActiveSession :: "int \<Rightarrow> string \<Rightarrow> string option \<Rightarrow> purpose option \<Rightarrow> session_table \<Rightarrow> session_row option" where
  "findActiveSession now channel = findLatestSessionByStatuses now channel OUTBOUND_LIVE_STATUSES"

definition hasInterceptableSession :: "int \<Rightarrow> string \<Rightarrow> session_table \<Rightarrow> bool" where
  "hasInterceptableSession now channel tbl =
     list_ex (\<lambda>s. ss_channel s = channel \<and> interceptable s \<and> now < ss_expiresAt s) tbl"

definition consumeSession :: "int \<Rightarrow> string \<Rightarrow> string \<Rightarrow> string \<Rightarrow> session_table \<Rightarrow> int option \<times> session_table" where
  "consumeSession now i actorExternalUserId actorChatId tbl =
     (let live = (\<lambda>s. ss_id s = i \<and> interceptable s)
      in (if list_ex live tbl then Some now else None,
          update_where live
            (\<lambda>s. (set_status SessConsumed now s)\<lparr>ss_consumedByExternalUserId := Some actorExternalUserId, ss_consumedByChatId := Some actorChatId\<rparr>)
            tbl))"

definition claimBootstrapSession :: "int \<Rightarrow> string \<Rightarrow> string \<Rightarrow> session_table \<Rightarrow> session_row option \<times> session_table" where
  "claimBootstrapSession now i channel tbl =
     (let claimable = (\<lambda>s. ss_id s = i \<and> ss_channel s = channel \<and> ss_status s = SessBootstrap)
      in (map_option (set_status SessRevoked now) (find claimable tbl), update_where claimable (set_status SessRevoked now) tbl))"

definition revokeSameIdentityOutbound :: "string \<Rightarrow> (identity_field \<times> string) option \<Rightarrow> int \<Rightarrow> session_table \<Rightarrow> session_table" where
  "revokeSameIdentityOutbound channel identity now tbl =
     (if identity = None then tbl
      else
        let live = filter (\<lambda>s. ss_channel s = channel \<and> ss_status s \<in> set OUTBOUND_LIVE_STATUSES) tbl;
            superseded = map ss_id (filter (\<lambda>s. bindsSameIdentity (boundIdentity s) identity) live)
        in update_where (\<lambda>s. ss_id s \<in> set superseded) (set_status SessRevoked now) tbl)"

record outbound_params =
  op_channel :: string
  op_expectedExternalUserId :: "string option"
  op_expectedChatId :: "string option"
  op_expectedPhoneE164 :: "string option"
  op_identityBindingStatus :: "binding_status option"
  op_destinationAddress :: "string option"
  op_codeDigits :: "nat option"
  op_maxAttempts :: "nat option"
  op_purpose :: "purpose option"
  op_bootstrapTokenHash :: "string option"
  op_sessionId :: "string option"

definition outbound_row :: "string \<Rightarrow> string \<Rightarrow> int \<Rightarrow> session_status \<Rightarrow> outbound_params \<Rightarrow> int \<Rightarrow> session_row" where
  "outbound_row i challengeHash expiresAt status p now =
     \<lparr>ss_id = i, ss_channel = op_channel p, ss_challengeHash = challengeHash, ss_expiresAt = expiresAt, ss_status = status,
      ss_sourceConversationId = None, ss_consumedByExternalUserId = None, ss_consumedByChatId = None,
      ss_expectedExternalUserId = op_expectedExternalUserId p, ss_expectedChatId = op_expectedChatId p,
      ss_expectedPhoneE164 = op_expectedPhoneE164 p, ss_identityBindingStatus = Some (given (op_identityBindingStatus p) BindingBound),
      ss_destinationAddress = op_destinationAddress p, ss_lastSentAt = None, ss_sendCount = 0, ss_nextResendAt = None,
      ss_codeDigits = given (op_codeDigits p) 6, ss_maxAttempts = given (op_maxAttempts p) 3,
      ss_purpose = given (op_purpose p) GuardianPurpose, ss_bootstrapTokenHash = op_bootstrapTokenHash p,
      ss_createdAt = now, ss_updatedAt = now\<rparr>"

definition store_outbound_session ::
  "string \<Rightarrow> string \<Rightarrow> int \<Rightarrow> session_status \<Rightarrow> outbound_params \<Rightarrow> int \<Rightarrow> session_table \<Rightarrow> session_row option \<times> session_table" where
  "store_outbound_session i challengeHash expiresAt status p now tbl =
     (let row = outbound_row i challengeHash expiresAt status p now;
          tbl1 = revokeSameIdentityOutbound (op_channel p) (boundIdentity row) now tbl
      in case insert_session row tbl1 of None \<Rightarrow> (None, tbl1) | Some tbl2 \<Rightarrow> (Some row, tbl2))"

definition getSessionById :: "string \<Rightarrow> session_table \<Rightarrow> session_row option" where
  "getSessionById i = find (\<lambda>s. ss_id s = i)"

definition findSessionByBootstrapTokenHash :: "int \<Rightarrow> string \<Rightarrow> string \<Rightarrow> session_table \<Rightarrow> session_row option" where
  "findSessionByBootstrapTokenHash now channel tokenHash =
     find (\<lambda>s. ss_channel s = channel \<and> ss_bootstrapTokenHash s = Some tokenHash \<and> ss_status s = SessBootstrap \<and> now < ss_expiresAt s)"

definition updateSessionStatus ::
  "int \<Rightarrow> string \<Rightarrow> session_status \<Rightarrow> string option \<Rightarrow> string option \<Rightarrow> session_table \<Rightarrow> session_table" where
  "updateSessionStatus now i status byUser byChat =
     update_where (\<lambda>s. ss_id s = i)
       (\<lambda>s. (set_status status now s)\<lparr>
            ss_consumedByExternalUserId := (case byUser of None \<Rightarrow> ss_consumedByExternalUserId s | Some u \<Rightarrow> Some u),
            ss_consumedByChatId := (case byChat of None \<Rightarrow> ss_consumedByChatId s | Some c \<Rightarrow> Some c)\<rparr>)"

definition updateSessionDelivery :: "int \<Rightarrow> string \<Rightarrow> int \<Rightarrow> int \<Rightarrow> int option \<Rightarrow> session_table \<Rightarrow> session_table" where
  "updateSessionDelivery now i lastSentAt sendCount nextResendAt =
     update_where (\<lambda>s. ss_id s = i)
       (\<lambda>s. s\<lparr>ss_lastSentAt := Some lastSentAt, ss_sendCount := sendCount, ss_nextResendAt := nextResendAt, ss_updatedAt := now\<rparr>)"

definition countRecentSendsToDestination :: "int \<Rightarrow> string \<Rightarrow> string \<Rightarrow> int \<Rightarrow> session_table \<Rightarrow> nat" where
  "countRecentSendsToDestination now channel destination windowMs tbl =
     length (filter (\<lambda>s. ss_channel s = channel \<and> ss_destinationAddress s = Some destination \<and>
        (case ss_lastSentAt s of None \<Rightarrow> False | Some t \<Rightarrow> now - windowMs \<le> t)) tbl)"

definition bindSessionIdentity :: "int \<Rightarrow> string \<Rightarrow> string \<Rightarrow> string \<Rightarrow> session_table \<Rightarrow> session_table" where
  "bindSessionIdentity now i externalUserId chatId =
     update_where (\<lambda>s. ss_id s = i)
       (\<lambda>s. s\<lparr>ss_expectedExternalUserId := Some externalUserId, ss_expectedChatId := Some chatId,
            ss_identityBindingStatus := Some BindingBound, ss_updatedAt := now\<rparr>)"

section \<open>Codes\<close>

definition CHALLENGE_TTL_MS :: int where "CHALLENGE_TTL_MS = 10 * 60 * 1000"

text \<open>\<open>String(num % 10 ** digits).padStart(digits, "0")\<close>, for a number drawn below \<open>2 ^ 32\<close>.\<close>

definition generateNumericSecret :: "nat \<Rightarrow> 32 word \<Rightarrow> string" where
  "generateNumericSecret digits draw =
     (let s = nat_string (unat draw mod 10 ^ digits) in replicate (digits - length s) CHR ''0'' @ s)"

definition hex_char :: "char \<Rightarrow> bool" where
  "hex_char c \<longleftrightarrow> ascii_digit c \<or> ascii_lower c \<in> set ''abcdef''"

definition mark_char :: "char \<Rightarrow> bool" where
  "mark_char c \<longleftrightarrow> c \<in> set ''*_~`''"

definition stripMrkdwnFormatting :: "string \<Rightarrow> string" where
  "stripMrkdwnFormatting s = rev (dropWhile mark_char (rev (dropWhile mark_char s)))"

definition code_shape :: "string \<Rightarrow> bool" where
  "code_shape s \<longleftrightarrow> (length s = 64 \<and> list_all hex_char s) \<or> (length s = 6 \<and> list_all ascii_digit s)"

definition parseVerificationCode :: "string \<Rightarrow> string option" where
  "parseVerificationCode content =
     (let stripped = stripMrkdwnFormatting (js_trim content) in if code_shape stripped then Some stripped else None)"

text \<open>\<open>split(/\r?\n/)\<close>.\<close>

fun split_lines :: "string \<Rightarrow> string list" where
  "split_lines [] = [[]]"
| "split_lines (c # s) =
     (if c = CHR 0x0A then [] # split_lines s
      else if c = CHR 0x0D \<and> starts_with [CHR 0x0A] s then split_lines s
      else (case split_lines s of [] \<Rightarrow> [[c]] | w # ws \<Rightarrow> (c # w) # ws))"

text \<open>The regular expressions that end the fresh part of a mail: \<open>^On .+ wrote:\s*$\<close>,
  \<open>^-{2,}\s*(Original Message|Forwarded message)\<close> and \<open>^(From|Sent|To|Subject):\s\<close>.\<close>

definition line_break :: "char \<Rightarrow> bool" where
  "line_break c \<longleftrightarrow> c = CHR 0x0A \<or> c = CHR 0x0D"

definition attribution_line :: "string \<Rightarrow> bool" where
  "attribution_line line \<longleftrightarrow>
     (let s = rev (dropWhile js_space (rev line));
          middle = take (length s - 10) (drop 3 s)
      in starts_with ''On '' s \<and> ends_with '' wrote:'' s \<and> 10 < length s \<and> list_all (\<lambda>c. \<not> line_break c) middle)"

definition forward_line :: "string \<Rightarrow> bool" where
  "forward_line line \<longleftrightarrow>
     (let dashes = takeWhile (\<lambda>c. c = CHR ''-'') line;
          rest = map ascii_lower (dropWhile js_space (dropWhile (\<lambda>c. c = CHR ''-'') line))
      in 2 \<le> length dashes \<and> (starts_with ''original message'' rest \<or> starts_with ''forwarded message'' rest))"

definition header_line :: "string \<Rightarrow> bool" where
  "header_line line \<longleftrightarrow>
     list_ex (\<lambda>h. starts_with h (map ascii_lower line) \<and> length h < length line \<and> js_space (line ! length h))
       [''from:'', ''sent:'', ''to:'', ''subject:'']"

definition quote_begins :: "bool \<Rightarrow> string \<Rightarrow> bool" where
  "quote_begins first line \<longleftrightarrow>
     starts_with ''>'' line \<or> attribution_line line \<or> forward_line line \<or> line = ''-- '' \<or> line = ''--'' \<or>
     (header_line line \<and> \<not> first)"

fun fresh_lines :: "string list \<Rightarrow> string list \<Rightarrow> string list" where
  "fresh_lines acc [] = acc"
| "fresh_lines acc (l # ls) = (if quote_begins (acc = []) l then acc else fresh_lines (acc @ [l]) ls)"

definition extractEmailReplyBody :: "string \<Rightarrow> string" where
  "extractEmailReplyBody body = js_trim (join_strings [CHR 0x0A] (fresh_lines [] (split_lines body)))"

section \<open>The limit on guesses\<close>

definition RATE_LIMIT_MAX_ATTEMPTS :: nat where "RATE_LIMIT_MAX_ATTEMPTS = 5"

definition RATE_LIMIT_WINDOW_MS :: int where "RATE_LIMIT_WINDOW_MS = 15 * 60 * 1000"

definition RATE_LIMIT_LOCKOUT_MS :: int where "RATE_LIMIT_LOCKOUT_MS = 30 * 60 * 1000"

record limit_row =
  lr_channel :: string
  lr_actor :: string
  lr_chat :: string
  lr_attempts :: "int list"
  lr_lockedUntil :: "int option"
  lr_createdAt :: int
  lr_updatedAt :: int

type_synonym limit_table = "limit_row list"

definition limit_key :: "limit_row \<Rightarrow> string \<times> string \<times> string" where
  "limit_key r = (lr_channel r, lr_actor r, lr_chat r)"

definition getRateLimit :: "string \<Rightarrow> string \<Rightarrow> string \<Rightarrow> limit_table \<Rightarrow> limit_row option" where
  "getRateLimit channel actor chat = find (\<lambda>r. limit_key r = (channel, actor, chat))"

definition row_locked :: "int \<Rightarrow> limit_row option \<Rightarrow> bool" where
  "row_locked now r = (case Option.bind r lr_lockedUntil of None \<Rightarrow> False | Some t \<Rightarrow> now < t)"

definition isRateLimited :: "int \<Rightarrow> string \<Rightarrow> string \<Rightarrow> string \<Rightarrow> limit_table \<Rightarrow> bool" where
  "isRateLimited now channel actor chat tbl = row_locked now (getRateLimit channel actor chat tbl)"

definition count_attempt :: "int \<Rightarrow> limit_row \<Rightarrow> limit_row" where
  "count_attempt now r =
     (let attempts = filter (\<lambda>t. now - RATE_LIMIT_WINDOW_MS < t) (lr_attempts r) @ [now]
      in r\<lparr>lr_attempts := attempts,
           lr_lockedUntil := (if RATE_LIMIT_MAX_ATTEMPTS \<le> length attempts then Some (now + RATE_LIMIT_LOCKOUT_MS) else lr_lockedUntil r),
           lr_updatedAt := now\<rparr>)"

definition recordInvalidAttempt :: "int \<Rightarrow> string \<Rightarrow> string \<Rightarrow> string \<Rightarrow> limit_table \<Rightarrow> limit_table" where
  "recordInvalidAttempt now channel actor chat tbl =
     (let mine = (\<lambda>r. limit_key r = (channel, actor, chat))
      in if list_ex mine tbl then update_where mine (count_attempt now) tbl
         else tbl @ [\<lparr>lr_channel = channel, lr_actor = actor, lr_chat = chat, lr_attempts = [now], lr_lockedUntil = None,
                      lr_createdAt = now, lr_updatedAt = now\<rparr>])"

definition resetRateLimit :: "int \<Rightarrow> string \<Rightarrow> string \<Rightarrow> string \<Rightarrow> limit_table \<Rightarrow> limit_table" where
  "resetRateLimit now channel actor chat =
     update_where (\<lambda>r. limit_key r = (channel, actor, chat))
       (\<lambda>r. r\<lparr>lr_attempts := [], lr_lockedUntil := None, lr_updatedAt := now\<rparr>)"

section \<open>A minted code is recognised\<close>

lemma digit_char: "(k :: nat) < 10 \<Longrightarrow> ascii_digit (char_of (48 + k))"
  by (simp add: ascii_digit_def)

lemma nat_string_digits: "list_all ascii_digit (nat_string n)"
  by (induction n rule: nat_string.induct) (subst nat_string.simps, simp add: digit_char)

lemma nat_string_length: "n < 10 ^ Suc d \<Longrightarrow> length (nat_string n) \<le> Suc d"
proof (induction d arbitrary: n)
  case (Suc d)
  then have "n div 10 < 10 ^ Suc d" by (simp add: less_mult_imp_div_less)
  from Suc.IH [OF this] show ?case by (subst nat_string.simps) simp
qed (subst nat_string.simps, simp)

lemma generateNumericSecret_shape:
  assumes "0 < digits"
  shows "length (generateNumericSecret digits draw) = digits \<and> list_all ascii_digit (generateNumericSecret digits draw)"
proof -
  let ?s = "nat_string (unat draw mod 10 ^ digits)"
  from assms obtain d where d: "digits = Suc d" using gr0_implies_Suc by blast
  then have "length ?s \<le> digits" using nat_string_length [of _ d] by simp
  moreover have "ascii_digit CHR ''0''" by (simp add: ascii_digit_def)
  ultimately show ?thesis
    using nat_string_digits [of "unat draw mod 10 ^ digits"]
    by (auto simp: generateNumericSecret_def Let_def list_all_iff)
qed

lemma hex_char_plain: "hex_char c \<Longrightarrow> \<not> mark_char c \<and> \<not> js_space c"
  by (auto simp: hex_char_def mark_char_def js_space_def ascii_digit_def ascii_lower_def Let_def split: if_splits)

lemma mark_char_plain: "mark_char c \<Longrightarrow> \<not> js_space c"
  by (auto simp: mark_char_def js_space_def)

lemma code_shape_plain: "code_shape s \<Longrightarrow> s \<noteq> [] \<and> list_all hex_char s"
  by (auto simp: code_shape_def hex_char_def list_all_iff)

lemma dropWhile_around: "list_all p a \<Longrightarrow> b \<noteq> [] \<Longrightarrow> \<not> p (hd b) \<Longrightarrow> dropWhile p (a @ b) = b"
  by (induction a) (auto simp: neq_Nil_conv)

lemma strip_around:
  assumes "list_all p a" "list_all p c" "b \<noteq> []" "\<not> p (hd b)" "\<not> p (last b)"
  shows "rev (dropWhile p (rev (dropWhile p (a @ b @ c)))) = b"
proof -
  have "dropWhile p (a @ b @ c) = b @ c" using assms by (intro dropWhile_around) auto
  moreover have "dropWhile p (rev c @ rev b) = rev b" using assms by (intro dropWhile_around) (auto simp: hd_rev list_all_iff)
  ultimately show ?thesis by simp
qed

lemma parse_decorated:
  assumes "code_shape s" "list_all js_space ws" "list_all js_space ws'" "list_all mark_char m" "list_all mark_char m'"
  shows "parseVerificationCode (ws @ m @ s @ m' @ ws') = Some s"
proof -
  have s: "s \<noteq> []" "\<And>c. c \<in> set s \<Longrightarrow> \<not> mark_char c \<and> \<not> js_space c"
    using code_shape_plain [OF assms(1)] by (auto simp: list_all_iff dest: hex_char_plain)
  let ?b = "m @ s @ m'"
  have b: "\<And>c. c \<in> set ?b \<Longrightarrow> \<not> js_space c" using s assms(4,5) by (auto simp: list_all_iff dest: mark_char_plain)
  have "\<not> js_space (hd ?b)" "\<not> js_space (last ?b)" using s(1) b by (metis append_is_Nil_conv hd_in_set last_in_set)+
  then have "js_trim (ws @ ?b @ ws') = ?b"
    unfolding js_trim_def using s(1) assms(2,3) by (intro strip_around) auto
  moreover have "stripMrkdwnFormatting ?b = s"
    unfolding stripMrkdwnFormatting_def using s assms(4,5) by (intro strip_around) auto
  ultimately show ?thesis using assms(1) by (simp add: parseVerificationCode_def)
qed

lemma split_lines_some: "split_lines s \<noteq> []"
  by (induction s rule: split_lines.induct) (auto split: list.splits)

lemma split_lines_line: "CHR 0x0A \<notin> set l \<Longrightarrow> CHR 0x0D \<notin> set l \<Longrightarrow> split_lines (l @ CHR 0x0A # s) = l # split_lines s"
  by (induction l) auto

lemma extract_first_line:
  assumes "code_shape s" "quote_begins False (hd (split_lines quoted))"
  shows "extractEmailReplyBody (s @ CHR 0x0A # quoted) = s"
proof -
  have plain: "\<And>c. c \<in> set s \<Longrightarrow> hex_char c" and s: "s \<noteq> []" using code_shape_plain [OF assms(1)] by (auto simp: list_all_iff)
  have nobreak: "CHR 0x0A \<notin> set s" "CHR 0x0D \<notin> set s" using plain by (auto dest!: plain hex_char_plain simp: js_space_def)
  have "\<not> quote_begins True s"
  proof -
    have *: "\<And>p. p \<noteq> [] \<Longrightarrow> \<not> hex_char (hd p) \<Longrightarrow> \<not> starts_with p s"
      using s plain by (auto simp: starts_with_iff neq_Nil_conv)
    have "takeWhile (\<lambda>c. c = CHR ''-'') s = []"
      using plain [of "CHR ''-''"] s by (cases s) (auto simp: hex_char_def ascii_digit_def ascii_lower_def)
    moreover have "s \<noteq> ''-- ''" "s \<noteq> ''--''" using plain [of "CHR ''-''"] by (auto simp: hex_char_def ascii_digit_def ascii_lower_def)
    moreover have "dropWhile js_space (rev s) = rev s"
      using s plain by (intro dropWhile_eq_self_iff [THEN iffD2]) (metis hd_in_set hex_char_plain set_rev)
    moreover have "\<not> hex_char CHR ''>''" "\<not> hex_char CHR ''O''" by code_simp+
    ultimately show ?thesis
      using * [of "''>''"] * [of "''On ''"] by (auto simp: quote_begins_def attribution_line_def forward_line_def Let_def)
  qed
  moreover obtain l ls where "split_lines quoted = l # ls" using split_lines_some [of quoted] by (cases "split_lines quoted") auto
  ultimately have "fresh_lines [] (split_lines (s @ CHR 0x0A # quoted)) = [s]"
    using assms(2) by (simp add: split_lines_line [OF nobreak])
  moreover have "js_trim s = s"
    using strip_around [of js_space "[]" "[]" s] s hex_char_plain [OF plain [OF hd_in_set]] hex_char_plain [OF plain [OF last_in_set]]
    by (simp add: js_trim_def)
  ultimately show ?thesis by (simp add: extractEmailReplyBody_def)
qed

text \<open>C30: a code is recognised however the message dresses it up. Every minted secret, numeric with the default six digits or
  of thirty-two bytes in hexadecimal, is read back from a message with blanks and formatting marks around it, and from a
  mail that quotes an earlier message below it; and only texts of these two shapes are read as a code.\<close>

theorem code_roundtrip:
  assumes "s = generateNumericSecret 6 draw \<or> (length s = 64 \<and> list_all hex_char s)"
    and "list_all js_space ws" "list_all js_space ws'" "list_all mark_char m" "list_all mark_char m'"
  shows "parseVerificationCode (ws @ m @ s @ m' @ ws') = Some s \<and>
    (quote_begins False (hd (split_lines quoted)) \<longrightarrow>
       parseVerificationCode (extractEmailReplyBody (s @ CHR 0x0A # quoted)) = Some s) \<and>
    (parseVerificationCode content = Some code \<longrightarrow> code_shape code)"
proof -
  have s: "code_shape s" using assms(1) generateNumericSecret_shape [of 6 draw] by (auto simp: code_shape_def)
  moreover have "parseVerificationCode s = Some s" using parse_decorated [OF s, of "[]" "[]" "[]" "[]"] by simp
  ultimately show ?thesis
    using parse_decorated [OF s assms(2-5)] extract_first_line [OF s, of quoted]
    by (auto simp: parseVerificationCode_def Let_def split: if_splits)
qed

theorem code_roundtrip_witness:
  "parseVerificationCode '' **000007**'' = Some ''000007'' \<and>
   parseVerificationCode (extractEmailReplyBody (''000007'' @ CHR 0x0A # ''On Monday, Ann wrote: '')) = Some ''000007''"
proof -
  have g: "generateNumericSecret 6 7 = ''000007''"
  proof -
    have "unat (7 :: 32 word) mod 10 ^ 6 = 7" by simp
    moreover have "char_of (55 :: nat) = CHR ''7''" by code_simp
    then have "nat_string 7 = ''7''" by (subst nat_string.simps) simp
    moreover have "replicate 5 CHR ''0'' = ''00000''" by (simp add: eval_nat_numeral)
    ultimately show ?thesis by (simp add: generateNumericSecret_def)
  qed
  have q: "quote_begins False (hd (split_lines ''On Monday, Ann wrote: ''))" by code_simp
  have "list_all js_space '' ''" "list_all mark_char ''**''" by code_simp+
  with code_roundtrip [of "''000007''" 7 "'' ''" "[]" "''**''" "''**''"] g q show ?thesis by simp
qed

section \<open>The record of wrong guesses\<close>

text \<open>What the row of an actor \<open>k\<close> remembers of the times \<open>ts\<close> at which it guessed wrong.\<close>

abbreviation after :: "int \<Rightarrow> int list \<Rightarrow> nat" where
  "after x ts \<equiv> length (filter (\<lambda>t. x < t) ts)"

abbreviation limit_of :: "string \<times> string \<times> string \<Rightarrow> limit_table \<Rightarrow> limit_row option" where
  "limit_of k tbl \<equiv> find (\<lambda>r. limit_key r = k) tbl"

lemma count_attempt_key [simp]: "limit_key (count_attempt now r) = limit_key r"
  by (simp add: count_attempt_def limit_key_def Let_def)

lemma find_update_where:
  "(\<And>r. q (f r) = q r) \<Longrightarrow> find q (update_where p f rows) = map_option (\<lambda>r. if p r then f r else r) (find q rows)"
  by (induction rows) (auto simp: update_where_def)

lemma find_snoc_None: "find p xs = None \<Longrightarrow> find p (xs @ ys) = find p ys"
  by (induction xs) (auto split: if_splits)

lemma filter_implies_longer: "(\<And>x. p x \<Longrightarrow> q x) \<Longrightarrow> length (filter p xs) \<le> length (filter q xs)"
  by (induction xs) auto

lemma limit_of_record:
  "limit_of k (recordInvalidAttempt now channel actor chat tbl) =
     (if (channel, actor, chat) = k
      then Some (case limit_of k tbl of
             Some r \<Rightarrow> count_attempt now r
           | None \<Rightarrow> \<lparr>lr_channel = channel, lr_actor = actor, lr_chat = chat, lr_attempts = [now], lr_lockedUntil = None,
                      lr_createdAt = now, lr_updatedAt = now\<rparr>)
      else limit_of k tbl)"
proof (cases "list_ex (\<lambda>r. limit_key r = (channel, actor, chat)) tbl")
  case True
  show ?thesis
  proof (cases "limit_of k tbl")
    case None
    then have none: "\<forall>r \<in> set tbl. limit_key r \<noteq> k" by (auto simp: find_None_iff)
    from True show ?thesis
      unfolding recordInvalidAttempt_def by (simp add: find_update_where None) (use none in \<open>auto simp: list_ex_iff\<close>)
  next
    case (Some r)
    then have "limit_key r = k" by (auto dest: find_someD)
    with True Some show ?thesis by (simp add: recordInvalidAttempt_def find_update_where)
  qed
next
  case False
  then have none: "limit_of (channel, actor, chat) tbl = None" by (auto simp: list_ex_iff find_None_iff)
  have other: "limit_of k (tbl @ [x]) = limit_of k tbl" if "limit_key x \<noteq> k" for x
    using that by (induction tbl) auto
  define x where "x = \<lparr>lr_channel = channel, lr_actor = actor, lr_chat = chat, lr_attempts = [now], lr_lockedUntil = None,
                      lr_createdAt = now, lr_updatedAt = now\<rparr>"
  have "limit_key x = (channel, actor, chat)" by (simp add: x_def limit_key_def)
  with False none show ?thesis
    unfolding recordInvalidAttempt_def x_def [symmetric] by (auto simp: find_snoc_None other)
qed

definition guess_inv :: "int list \<Rightarrow> limit_row option \<Rightarrow> bool" where
  "guess_inv ts row \<longleftrightarrow>
     ts = [] \<or>
     (\<exists>r. row = Some r \<and> (\<forall>t \<in> set ts. t \<le> last ts) \<and>
        (\<forall>x \<ge> last ts - RATE_LIMIT_WINDOW_MS. after x ts \<le> after x (lr_attempts r)) \<and>
        (RATE_LIMIT_MAX_ATTEMPTS \<le> after (last ts - RATE_LIMIT_WINDOW_MS) ts \<longrightarrow>
           (\<exists>u. lr_lockedUntil r = Some u \<and> last ts + RATE_LIMIT_LOCKOUT_MS \<le> u)))"

lemma guess_recorded:
  assumes inv: "guess_inv ts row" and order: "\<forall>t \<in> set ts. t \<le> now"
    and row': "row' = (case row of Some r \<Rightarrow> count_attempt now r | None \<Rightarrow> fresh)" "lr_attempts fresh = [now]"
  shows "guess_inv (ts @ [now]) (Some row')"
proof -
  let ?W = RATE_LIMIT_WINDOW_MS
  have pos: "0 < ?W" by (simp add: RATE_LIMIT_WINDOW_MS_def)
  have le: "after x (ts @ [now]) \<le> after x (lr_attempts row')" if x: "now - ?W \<le> x" for x
  proof (cases "ts = []")
    case True
    then show ?thesis using row' by (cases row) (auto simp: count_attempt_def Let_def)
  next
    case False
    with inv obtain r where r: "row = Some r" "\<forall>x \<ge> last ts - ?W. after x ts \<le> after x (lr_attempts r)"
      by (auto simp: guess_inv_def)
    have "last ts \<le> now" using False order by simp
    with r(2) x have "after x ts \<le> after x (lr_attempts r)" by auto
    moreover have "filter (\<lambda>t. x < t) (filter (\<lambda>t. now - ?W < t) (lr_attempts r)) = filter (\<lambda>t. x < t) (lr_attempts r)"
      using x by (auto simp: filter_filter intro!: filter_cong)
    ultimately show ?thesis using r(1) row'(1) by (simp add: count_attempt_def Let_def)
  qed
  moreover have "\<exists>u. lr_lockedUntil row' = Some u \<and> now + RATE_LIMIT_LOCKOUT_MS \<le> u"
    if "RATE_LIMIT_MAX_ATTEMPTS \<le> after (now - ?W) (ts @ [now])"
  proof -
    from that le [of "now - ?W"] have five: "RATE_LIMIT_MAX_ATTEMPTS \<le> after (now - ?W) (lr_attempts row')" by linarith
    then have "row \<noteq> None" using row' by (auto simp: RATE_LIMIT_MAX_ATTEMPTS_def split: option.splits if_splits)
    then obtain r where "row = Some r" by auto
    moreover have "filter (\<lambda>t. now - ?W < t) (lr_attempts (count_attempt now r)) = lr_attempts (count_attempt now r)"
      using pos by (simp add: count_attempt_def Let_def)
    ultimately show ?thesis using five row'(1) by (simp add: count_attempt_def Let_def)
  qed
  ultimately show ?thesis using order by (simp add: guess_inv_def)
qed

lemma guess_window:
  assumes inv: "guess_inv ts row" and order: "\<forall>t \<in> set ts. t \<le> now" and free: "\<not> row_locked now row"
    and w: "w < now" "now \<le> w + RATE_LIMIT_WINDOW_MS"
  shows "after w ts < RATE_LIMIT_MAX_ATTEMPTS"
proof (rule ccontr)
  assume "\<not> after w ts < RATE_LIMIT_MAX_ATTEMPTS"
  then have many: "RATE_LIMIT_MAX_ATTEMPTS \<le> after w ts" by simp
  then have ne: "ts \<noteq> []" by (auto simp: RATE_LIMIT_MAX_ATTEMPTS_def)
  with inv obtain r where r: "row = Some r" "\<forall>t \<in> set ts. t \<le> last ts"
    "RATE_LIMIT_MAX_ATTEMPTS \<le> after (last ts - RATE_LIMIT_WINDOW_MS) ts \<longrightarrow>
       (\<exists>u. lr_lockedUntil r = Some u \<and> last ts + RATE_LIMIT_LOCKOUT_MS \<le> u)"
    by (auto simp: guess_inv_def)
  have "last ts \<le> now" using ne order by simp
  then have "after w ts \<le> after (last ts - RATE_LIMIT_WINDOW_MS) ts"
    using w by (intro filter_implies_longer) auto
  with many r(3) obtain u where u: "lr_lockedUntil r = Some u" "last ts + RATE_LIMIT_LOCKOUT_MS \<le> u" by auto
  with free r(1) have "last ts + RATE_LIMIT_LOCKOUT_MS \<le> now" by (simp add: row_locked_def)
  with w(2) have "last ts < w" by (simp add: RATE_LIMIT_LOCKOUT_MS_def RATE_LIMIT_WINDOW_MS_def)
  with r(2) have "filter (\<lambda>t. w < t) ts = []" by (auto simp: filter_empty_conv)
  with many show False by (simp add: RATE_LIMIT_MAX_ATTEMPTS_def)
qed

lemma limit_of_reset:
  "(channel, actor, chat) \<noteq> k \<Longrightarrow> limit_of k (resetRateLimit now channel actor chat tbl) = limit_of k tbl"
  by (induction tbl) (auto simp: resetRateLimit_def update_where_def limit_key_def)

end
