(* ===== verification/Verification_Flows.thy ===== *)
theory Verification_Flows
  imports Verification_Sessions
begin

text \<open>
  Redeeming a code: the session service (\<^verbatim>\<open>verification/session-service.ts\<close>) with its IPC routes, the intercept
  of text messages (\<^verbatim>\<open>verification/text-verification.ts\<close>) and the keypad of a call
  (\<^verbatim>\<open>voice/verification.ts\<close>, \<^verbatim>\<open>http/routes/twilio-voice-verify-callback.ts\<close>), over the tables of
  sessions, limits and contacts.

  \<^item> A flow that awaits the daemon is cut there into definitions of its own: the section up to the consumption of
    the code, and what it writes to the directory after. \<open>flow_step\<close> lets any flows and any writes of the
    directory come between.
  \<^item> What the daemon answers, whether it can be reached, random identifiers and secrets, the digest and the clock are
    arguments. \<open>found\<close> is its answer on the display name of an address, \<open>None\<close> where the call throws.
  \<^item> Delivery of a reply is not modelled; the reply is part of the result.
\<close>

record verify_state =
  vy_sessions :: session_table
  vy_limits :: limit_table
  vy_directory :: contact_db

section \<open>Minting\<close>

definition createInboundVerificationSession ::
  "(string \<Rightarrow> string) \<Rightarrow> string \<Rightarrow> string \<Rightarrow> string \<Rightarrow> string option \<Rightarrow> int \<Rightarrow> session_table \<Rightarrow> session_row option \<times> session_table" where
  "createInboundVerificationSession hash uuid secret channel source now tbl =
     createInboundSession uuid channel (hash secret) (now + CHALLENGE_TTL_MS) source now tbl"

datatype mint_result = Minted string string | ActiveSessionExists | SourceSessionNotPending | MintThrows

text \<open>\<open>hexSecret\<close> are thirty-two random bytes in hexadecimal, \<open>draw\<close> four random bytes.\<close>

definition createOutboundSession ::
  "(string \<Rightarrow> string) \<Rightarrow> string \<Rightarrow> string \<Rightarrow> 32 word \<Rightarrow> outbound_params \<Rightarrow> int \<Rightarrow> session_table \<Rightarrow> mint_result \<times> session_table" where
  "createOutboundSession hash uuid hexSecret draw p now tbl =
     (let isUnbound = (op_identityBindingStatus p = Some BindingPending);
          secret = (if isUnbound then hexSecret else generateNumericSecret (given (op_codeDigits p) 6) draw);
          i = given (op_sessionId p) uuid
      in case store_outbound_session i (hash secret) (now + CHALLENGE_TTL_MS) (if isUnbound then SessBootstrap else SessAwaiting) p now tbl of
           (None, tbl1) \<Rightarrow> (MintThrows, tbl1)
         | (Some _, tbl1) \<Rightarrow> (Minted i secret, tbl1))"

definition createOutboundSessionGuarded ::
  "(string \<Rightarrow> string) \<Rightarrow> string \<Rightarrow> string \<Rightarrow> 32 word \<Rightarrow> string option \<Rightarrow> string option \<Rightarrow> outbound_params \<Rightarrow> int \<Rightarrow> session_table \<Rightarrow>
     mint_result \<times> session_table" where
  "createOutboundSessionGuarded hash uuid hexSecret draw requireSourceSessionPending ifNoneActiveForExternalUserId p now tbl =
     (if ifNoneActiveForExternalUserId \<noteq> None \<and> findActiveSession now (op_channel p) ifNoneActiveForExternalUserId None tbl \<noteq> None
      then (ActiveSessionExists, tbl)
      else
        case requireSourceSessionPending of
          None \<Rightarrow> createOutboundSession hash uuid hexSecret draw p now tbl
        | Some source \<Rightarrow>
            case claimBootstrapSession now source (op_channel p) tbl of
              (None, tbl1) \<Rightarrow> (SourceSessionNotPending, tbl1)
            | (Some s, tbl1) \<Rightarrow> createOutboundSession hash uuid hexSecret draw (p\<lparr>op_purpose := Some (ss_purpose s)\<rparr>) now tbl1)"

definition resolveBootstrap :: "(string \<Rightarrow> string) \<Rightarrow> int \<Rightarrow> string \<Rightarrow> string \<Rightarrow> session_table \<Rightarrow> session_row option" where
  "resolveBootstrap hash now channel token = findSessionByBootstrapTokenHash now channel (hash token)"

section \<open>The session service\<close>

definition phone_guardian :: "string \<Rightarrow> string \<Rightarrow> string \<Rightarrow> guardian_params" where
  "phone_guardian phoneNumber chatId pid =
     \<lparr>gp_channel = ''phone'', gp_externalUserId = phoneNumber, gp_deliveryChatId = chatId, gp_guardianPrincipalId = pid,
      gp_displayName = None, gp_verifiedVia = Some ''challenge'', gp_reactivateRevoked = True\<rparr>"

text \<open>The first \<open>None\<close> is an exception, the second a binding that is skipped.\<close>

definition applyPhoneGuardianBindingGatewayWrites ::
  "string \<Rightarrow> string \<Rightarrow> string \<Rightarrow> string \<Rightarrow> int \<Rightarrow> int \<Rightarrow> contact_db \<Rightarrow> (guardian_writes option \<times> contact_db) option" where
  "applyPhoneGuardianBindingGatewayWrites contactUuid channelUuid phoneNumber chatId sessionUpdatedAt now db =
     (let lastBindingTs = getMostRecentChannelGuardianTimestamp ''phone'' db;
          pid = resolveCanonicalPrincipal phoneNumber db;
          existing = getExistingGuardianBinding ''phone'' db
      in if (case lastBindingTs of None \<Rightarrow> False | Some t \<Rightarrow> sessionUpdatedAt \<le> t) then Some (None, db)
         else if existing = Some phoneNumber then Some (None, db)
         else
           let db1 = (if existing = None then db else revokeExistingChannelGuardian ''phone'' now db)
           in map_option (\<lambda>(w, db2). (Some w, db2))
                (applyGuardianBindingGatewayWrites contactUuid channelUuid (phone_guardian phoneNumber chatId pid) now db1))"

text \<open>The synchronous section of \<open>validateAndConsumeSession\<close>: it ends with the answer, with the effects of the role still
  to come, or with an exception that has rolled back.\<close>

datatype begun =
    Refused
  | Redeemed session_row
  | PhoneBound session_row "guardian_writes option"
  | ContactPending session_row
  | BeginThrows

definition voice_guardian_shape :: "string \<Rightarrow> session_row \<Rightarrow> bool" where
  "voice_guardian_shape channel s \<longleftrightarrow> ss_purpose s \<noteq> ContactPurpose \<and> channel = ''phone'' \<and> ss_expectedPhoneE164 s \<noteq> None"

definition beginValidate ::
  "(string \<Rightarrow> string) \<Rightarrow> string \<Rightarrow> string \<Rightarrow> int \<Rightarrow> string \<Rightarrow> string \<Rightarrow> string \<Rightarrow> string \<Rightarrow> verify_state \<Rightarrow> begun \<times> verify_state" where
  "beginValidate hash contactUuid channelUuid now channel secret actor chat st =
     (if isRateLimited now channel actor chat (vy_limits st) then (Refused, st)
      else
        let wrong = st\<lparr>vy_limits := recordInvalidAttempt now channel actor chat (vy_limits st)\<rparr>
        in case findPendingSessionByHash now channel (hash secret) (vy_sessions st) of
             None \<Rightarrow> (Refused, wrong)
           | Some s \<Rightarrow>
               if \<not> checkIdentityMatch s actor chat then (Refused, wrong)
               else
                 let (consumedAt, tbl) = consumeSession now (ss_id s) actor chat (vy_sessions st);
                     spent = st\<lparr>vy_sessions := tbl\<rparr>;
                     settled = spent\<lparr>vy_limits := resetRateLimit now channel actor chat (vy_limits st)\<rparr>
                 in case consumedAt of
                      None \<Rightarrow> (Refused, st)
                    | Some at \<Rightarrow>
                        if voice_guardian_shape channel s
                        then (if gatewayChannelStatus channel actor (vy_directory st) = Some ChBlocked then (Refused, spent)
                              else
                                case applyPhoneGuardianBindingGatewayWrites contactUuid channelUuid actor chat at now (vy_directory st) of
                                  None \<Rightarrow> (BeginThrows, st)
                                | Some (w, db) \<Rightarrow> (PhoneBound s w, settled\<lparr>vy_directory := db\<rparr>))
                        else if ss_purpose s = ContactPurpose then (ContactPending s, settled)
                        else (Redeemed s, settled))"

text \<open>After the commit of a phone binding: the contact the number was claimed from is collected.\<close>

definition finishPhone :: "bool \<Rightarrow> bool \<Rightarrow> guardian_writes option \<Rightarrow> contact_db \<Rightarrow> contact_db" where
  "finishPhone eligible vetoed writes db =
     (case Option.bind writes (\<lambda>w. non_empty (gw_claimedFrom w)) of None \<Rightarrow> db | Some i \<Rightarrow> deleteContactIfOrphaned eligible vetoed i db)"

definition kept_name :: "string option \<Rightarrow> string option \<Rightarrow> string option \<Rightarrow> string \<Rightarrow> string" where
  "kept_name existing displayName username user =
     (case existing of
        Some n \<Rightarrow> if js_trim n \<noteq> [] then n else given displayName (given username user)
      | None \<Rightarrow> given displayName (given username user))"

definition verified_contact :: "string \<Rightarrow> string \<Rightarrow> string \<Rightarrow> string option \<Rightarrow> string option \<Rightarrow> verified_params" where
  "verified_contact channel user chat displayName username =
     \<lparr>vp_sourceChannel = channel, vp_externalUserId = user, vp_externalChatId = chat, vp_displayName = displayName,
      vp_username = username, vp_verifiedVia = None, vp_contactId = None, vp_allowRevokedReactivation = False\<rparr>"

definition applyTrustedContactSideEffects ::
  "string option option \<Rightarrow> string \<Rightarrow> string \<Rightarrow> (string \<times> string) option option \<Rightarrow> bool \<Rightarrow> bool \<Rightarrow> bool \<Rightarrow>
     string \<Rightarrow> string \<Rightarrow> string \<Rightarrow> string option \<Rightarrow> string option \<Rightarrow> int \<Rightarrow> contact_db \<Rightarrow> bool option \<times> contact_db" where
  "applyTrustedContactSideEffects found contactUuid channelUuid lookup mirrored eligible vetoed channel user chat displayName username now db =
     (case found of
        None \<Rightarrow> (None, db)
      | Some existing \<Rightarrow>
          upsertVerifiedContactChannel contactUuid channelUuid lookup mirrored eligible vetoed False
            (verified_contact channel user chat (Some (kept_name existing displayName username user)) username) now db)"

text \<open>\<open>None\<close> rethrows, with the session restored; otherwise whether the verification succeeded.\<close>

definition finishValidate :: "int \<Rightarrow> session_row \<Rightarrow> bool option \<times> contact_db \<Rightarrow> verify_state \<Rightarrow> bool option \<times> verify_state" where
  "finishValidate now s effects st =
     (case effects of
        (None, db) \<Rightarrow> (None, st\<lparr>vy_directory := db, vy_sessions := updateSessionStatus now (ss_id s) (ss_status s) None None (vy_sessions st)\<rparr>)
      | (Some verified, db) \<Rightarrow> (Some verified, st\<lparr>vy_directory := db\<rparr>))"

section \<open>The text intercept\<close>

record text_message =
  tx_channel :: string
  tx_content :: string
  tx_actor :: string
  tx_chat :: string
  tx_isDirect :: "bool option"
  tx_displayName :: "string option"
  tx_username :: "string option"

datatype text_outcome = TextVerified | TextFailed | WrongConversation

datatype text_result = NotIntercepted | Intercepted text_outcome purpose string

definition composeVerificationSuccessReply :: "purpose \<Rightarrow> string" where
  "composeVerificationSuccessReply p =
     (if p = ContactPurpose then ''Verification successful! You can now message the assistant.''
      else ''Verification successful. You are now set as the guardian for this channel.'')"

definition composeVerificationFailureReply :: "string option \<Rightarrow> string" where
  "composeVerificationFailureReply reason = given reason ''The verification code is invalid or has expired.''"

definition invalid_or_expired :: string where
  "invalid_or_expired = ''The verification code is invalid or has expired.''"

definition only_direct :: string where
  "only_direct = ''For security, verification codes only work in a direct message. Send it to me there.''"

datatype text_begun = TextAnswered text_result | TextConsumed session_row string

definition text_failed :: "purpose \<Rightarrow> text_begun" where
  "text_failed p = TextAnswered (Intercepted TextFailed p (composeVerificationFailureReply (Some invalid_or_expired)))"

definition beginText :: "(string \<Rightarrow> string) \<Rightarrow> int \<Rightarrow> text_message \<Rightarrow> verify_state \<Rightarrow> text_begun \<times> verify_state" where
  "beginText hash now m st =
     (let channel = tx_channel m;
          content = (if channel = ''email'' then extractEmailReplyBody (tx_content m) else tx_content m);
          user = canonical_address channel (tx_actor m);
          wrong = st\<lparr>vy_limits := recordInvalidAttempt now channel user (tx_chat m) (vy_limits st)\<rparr>
      in case parseVerificationCode content of
           None \<Rightarrow> (TextAnswered NotIntercepted, st)
         | Some code \<Rightarrow>
             if \<not> hasInterceptableSession now channel (vy_sessions st) then (TextAnswered NotIntercepted, st)
             else if tx_isDirect m = Some False
             then (TextAnswered (Intercepted WrongConversation GuardianPurpose (composeVerificationFailureReply (Some only_direct))), st)
             else if isRateLimited now channel user (tx_chat m) (vy_limits st) then (text_failed GuardianPurpose, st)
             else
               case findPendingSessionByHash now channel (hash code) (vy_sessions st) of
                 None \<Rightarrow> (text_failed GuardianPurpose, wrong)
               | Some s \<Rightarrow>
                   if \<not> checkIdentityMatch s user (tx_chat m) then (text_failed (ss_purpose s), wrong)
                   else
                     case consumeSession now (ss_id s) user (tx_chat m) (vy_sessions st) of
                       (None, _) \<Rightarrow> (text_failed (ss_purpose s), st)
                     | (Some _, tbl) \<Rightarrow>
                         (TextConsumed s user,
                          st\<lparr>vy_sessions := tbl, vy_limits := resetRateLimit now channel user (tx_chat m) (vy_limits st)\<rparr>))"

text \<open>The effects of a guardian's code: what is decided and revoked before the daemon is asked for a name, and the binding
  after.\<close>

datatype guardian_prepared = GuardianConflict | GuardianRefused | GuardianPrepared string

definition prepareGuardian :: "int \<Rightarrow> string \<Rightarrow> string \<Rightarrow> contact_db \<Rightarrow> guardian_prepared \<times> contact_db" where
  "prepareGuardian now channel user db =
     (let conflict = (case non_empty (getExistingGuardianBinding channel db) of Some a \<Rightarrow> a \<noteq> user | None \<Rightarrow> False)
      in if conflict then (GuardianConflict, db)
         else if gatewayChannelStatus channel user db \<in> {Some ChBlocked, Some ChRevoked} then (GuardianRefused, db)
         else
           let db1 = revokeExistingChannelGuardian channel now db
           in (GuardianPrepared (resolveCanonicalPrincipal user db1), db1))"

definition text_guardian :: "text_message \<Rightarrow> string \<Rightarrow> string \<Rightarrow> string option \<Rightarrow> guardian_params" where
  "text_guardian m user pid existing =
     \<lparr>gp_channel = tx_channel m, gp_externalUserId = user, gp_deliveryChatId = tx_chat m, gp_guardianPrincipalId = pid,
      gp_displayName = Some (kept_name existing (tx_displayName m) (tx_username m) user), gp_verifiedVia = Some ''challenge'',
      gp_reactivateRevoked = True\<rparr>"

definition bindGuardian ::
  "string option option \<Rightarrow> bool \<Rightarrow> bool \<Rightarrow> string \<Rightarrow> string \<Rightarrow> text_message \<Rightarrow> string \<Rightarrow> string \<Rightarrow> int \<Rightarrow> contact_db \<Rightarrow> bool option \<times> contact_db" where
  "bindGuardian found eligible vetoed contactUuid channelUuid m user pid now db =
     (case found of
        None \<Rightarrow> (None, db)
      | Some existing \<Rightarrow>
          case createGuardianBinding eligible vetoed contactUuid channelUuid (text_guardian m user pid existing) now db of
            None \<Rightarrow> (None, db)
          | Some (_, db1) \<Rightarrow> (Some True, db1))"

definition conflictContact ::
  "string \<Rightarrow> string \<Rightarrow> (string \<times> string) option option \<Rightarrow> bool \<Rightarrow> bool \<Rightarrow> bool \<Rightarrow> text_message \<Rightarrow> string \<Rightarrow> int \<Rightarrow> contact_db \<Rightarrow>
     bool option \<times> contact_db" where
  "conflictContact contactUuid channelUuid lookup mirrored eligible vetoed m user now db =
     upsertVerifiedContactChannel contactUuid channelUuid lookup mirrored eligible vetoed False
       (verified_contact (tx_channel m) user (tx_chat m) (tx_displayName m) (tx_username m)) now db"

text \<open>\<open>None\<close> is an exception, which leaves the intercept.\<close>

definition text_answer :: "session_row \<Rightarrow> bool option \<Rightarrow> text_result option" where
  "text_answer s verified =
     (case verified of
        None \<Rightarrow> None
      | Some True \<Rightarrow> Some (Intercepted TextVerified (ss_purpose s) (composeVerificationSuccessReply (ss_purpose s)))
      | Some False \<Rightarrow> Some (Intercepted TextFailed (ss_purpose s) (composeVerificationFailureReply (Some invalid_or_expired))))"

section \<open>The keypad of a call\<close>

definition VOICE_MAX_ATTEMPTS :: int where "VOICE_MAX_ATTEMPTS = 3"


datatype voice_result = VoiceOk session_row | VoiceFailed string bool

definition voice_wrong :: "int \<Rightarrow> voice_result" where
  "voice_wrong attempt =
     (if VOICE_MAX_ATTEMPTS \<le> attempt + 1 then VoiceFailed ''Verification failed. Goodbye.'' True
      else
        let remaining = nat (VOICE_MAX_ATTEMPTS - attempt - 1)
        in VoiceFailed (''Incorrect code. You have '' @ nat_string remaining @
             (if remaining = 1 then '' attempt'' else '' attempts'') @ '' remaining. Please try again.'') False)"

definition validateVerificationCode ::
  "(string \<Rightarrow> string) \<Rightarrow> int \<Rightarrow> session_row \<Rightarrow> string \<Rightarrow> string \<Rightarrow> int \<Rightarrow> verify_state \<Rightarrow> voice_result \<times> verify_state" where
  "validateVerificationCode hash now s enteredCode fromNumber attempt st =
     (let wrong = st\<lparr>vy_limits := recordInvalidAttempt now ''phone'' fromNumber fromNumber (vy_limits st)\<rparr>
      in if isRateLimited now ''phone'' fromNumber fromNumber (vy_limits st)
         then (VoiceFailed ''Too many invalid attempts. Please try again later. Goodbye.'' True, st)
         else if ss_expiresAt s < now
         then (VoiceFailed ''The verification code has expired. Please request a new code. Goodbye.'' True, st)
         else if hash enteredCode \<noteq> ss_challengeHash s then (voice_wrong attempt, wrong)
         else if \<not> checkIdentityMatch s fromNumber fromNumber then (voice_wrong attempt, wrong)
         else
           case consumeSession now (ss_id s) fromNumber fromNumber (vy_sessions st) of
             (None, _) \<Rightarrow> (VoiceFailed ''Verification failed. Goodbye.'' True, st)
           | (Some _, tbl) \<Rightarrow>
               (VoiceOk s,
                st\<lparr>vy_sessions := tbl, vy_limits := resetRateLimit now ''phone'' fromNumber fromNumber (vy_limits st)\<rparr>))"



text \<open>What a verified call writes; an exception is logged and the call goes on.\<close>

definition voiceGuardian :: "bool \<Rightarrow> bool \<Rightarrow> string \<Rightarrow> string \<Rightarrow> string \<Rightarrow> int \<Rightarrow> contact_db \<Rightarrow> contact_db" where
  "voiceGuardian eligible vetoed contactUuid channelUuid fromNumber now db =
     (let pid = resolveCanonicalPrincipal fromNumber db;
          existing = getExistingGuardianBinding ''phone'' db
      in if existing \<noteq> None \<and> existing \<noteq> Some fromNumber then db
         else
           let db1 = (if existing = None then db else revokeExistingChannelGuardian ''phone'' now db)
           in case createGuardianBinding eligible vetoed contactUuid channelUuid (phone_guardian fromNumber fromNumber pid) now db1 of
                None \<Rightarrow> db1
              | Some (_, db2) \<Rightarrow> db2)"

definition voiceContact ::
  "string \<Rightarrow> string \<Rightarrow> (string \<times> string) option option \<Rightarrow> bool \<Rightarrow> bool \<Rightarrow> bool \<Rightarrow> string \<Rightarrow> int \<Rightarrow> contact_db \<Rightarrow> contact_db" where
  "voiceContact contactUuid channelUuid lookup mirrored eligible vetoed fromNumber now db =
     snd (upsertVerifiedContactChannel contactUuid channelUuid lookup mirrored eligible vetoed False
       (verified_contact ''phone'' fromNumber fromNumber None None) now db)"

section \<open>What the writes of the session table keep\<close>

definition ss_weaker :: "session_row \<Rightarrow> session_row \<Rightarrow> bool" where
  "ss_weaker r r' \<longleftrightarrow>
     ss_id r' = ss_id r \<and> ss_channel r' = ss_channel r \<and> (interceptable r' \<longrightarrow> ss_status r' = ss_status r) \<and>
     (ss_status r' = SessAwaiting \<longrightarrow> boundIdentity r' = boundIdentity r)"

definition supersedes :: "session_row \<Rightarrow> session_table \<Rightarrow> bool" where
  "supersedes n tbl \<longleftrightarrow>
     ss_id n \<notin> ss_id ` set tbl \<and>
     (ss_status n = SessAwaiting \<and> boundIdentity n \<noteq> None \<longrightarrow>
        (\<forall>r \<in> set tbl. ss_status r = SessAwaiting \<and> ss_channel r = ss_channel n \<longrightarrow> boundIdentity r \<noteq> boundIdentity n))"

definition settles :: "session_table \<Rightarrow> session_table \<Rightarrow> bool" where
  "settles tbl tbl' \<longleftrightarrow>
     list_all2 ss_weaker tbl tbl' \<or> (\<exists>tbl1 n. list_all2 ss_weaker tbl tbl1 \<and> supersedes n tbl1 \<and> tbl' = tbl1 @ [n])"

definition codes_ok :: "session_table \<Rightarrow> bool" where
  "codes_ok tbl \<longleftrightarrow>
     (\<forall>r \<in> set tbl. \<forall>r' \<in> set tbl. ss_status r = SessAwaiting \<and> ss_status r' = SessAwaiting \<and> ss_channel r = ss_channel r' \<and>
        bindsSameIdentity (boundIdentity r) (boundIdentity r') \<longrightarrow> ss_id r = ss_id r')"

definition retired :: "string \<Rightarrow> session_table \<Rightarrow> bool" where
  "retired i tbl \<longleftrightarrow> i \<in> ss_id ` set tbl \<and> (\<forall>r \<in> set tbl. ss_id r = i \<longrightarrow> \<not> interceptable r)"

interpretation session_rows: weakened_rows ss_id ss_weaker
  by unfold_locales (simp add: ss_weaker_def)

lemma ss_weaker_refl [simp]: "ss_weaker r r"
  by (simp add: ss_weaker_def)

lemma interceptable_iff: "interceptable s \<longleftrightarrow> ss_status s = SessPending \<or> ss_status s = SessBootstrap \<or> ss_status s = SessAwaiting"
  by (auto simp: interceptable_def INTERCEPTABLE_STATUSES_def)

lemma ss_weaker_trans: "ss_weaker a b \<Longrightarrow> ss_weaker b c \<Longrightarrow> ss_weaker a c"
  by (auto simp: ss_weaker_def interceptable_iff)

lemma weaker_ids: "list_all2 ss_weaker tbl tbl' \<Longrightarrow> map ss_id tbl' = map ss_id tbl"
  by (induction rule: list_all2_induct) (auto simp: ss_weaker_def)

lemma weaker_row: "list_all2 ss_weaker tbl tbl' \<Longrightarrow> r' \<in> set tbl' \<Longrightarrow> \<exists>r \<in> set tbl. ss_weaker r r'"
  by (metis in_set_conv_nth list_all2_conv_all_nth)

lemma weaker_update: "(\<And>r. p r \<Longrightarrow> ss_weaker r (f r)) \<Longrightarrow> list_all2 ss_weaker tbl (update_where p f tbl)"
  by (rule list_all2_update_where) auto

lemma weaker_same: "list_all2 ss_weaker tbl tbl"
  by (simp add: list_all2_refl)

lemma settles_refl: "settles tbl tbl"
  by (simp add: settles_def weaker_same)

lemma settles_after: "list_all2 ss_weaker a b \<Longrightarrow> settles b c \<Longrightarrow> settles a c"
  unfolding settles_def using list_all2_trans [of ss_weaker ss_weaker ss_weaker a b] ss_weaker_trans by blast

lemma settles_ids:
  assumes "settles tbl tbl'" "distinct (map ss_id tbl)"
  shows "distinct (map ss_id tbl')"
  using assms(1) unfolding settles_def
proof
  assume "\<exists>tbl1 n. list_all2 ss_weaker tbl tbl1 \<and> supersedes n tbl1 \<and> tbl' = tbl1 @ [n]"
  then obtain tbl1 n where *: "list_all2 ss_weaker tbl tbl1" "supersedes n tbl1" "tbl' = tbl1 @ [n]" by blast
  from weaker_ids [OF *(1)] assms(2) have "distinct (map ss_id tbl1)" by simp
  with *(2,3) show ?thesis by (simp add: supersedes_def)
qed (simp add: weaker_ids assms(2))

lemma boundIdentity_updates [simp]:
  "boundIdentity (r\<lparr>ss_status := st\<rparr>) = boundIdentity r"
  "boundIdentity (r\<lparr>ss_updatedAt := now\<rparr>) = boundIdentity r"
  "boundIdentity (r\<lparr>ss_consumedByExternalUserId := u\<rparr>) = boundIdentity r"
  "boundIdentity (r\<lparr>ss_consumedByChatId := u\<rparr>) = boundIdentity r"
  "boundIdentity (r\<lparr>ss_lastSentAt := t\<rparr>) = boundIdentity r"
  "boundIdentity (r\<lparr>ss_sendCount := k\<rparr>) = boundIdentity r"
  "boundIdentity (r\<lparr>ss_nextResendAt := t\<rparr>) = boundIdentity r"
  by (simp_all add: boundIdentity_def cong: option.case_cong)

lemma settles_dead:
  assumes "settles tbl tbl'" "retired i tbl"
  shows "retired i tbl'"
proof -
  have weak: "retired i tbl1" if "list_all2 ss_weaker tbl tbl1" for tbl1
  proof -
    have "ss_id ` set tbl1 = ss_id ` set tbl" using weaker_ids [OF that] by (metis set_map)
    then show ?thesis
      using assms(2) weaker_row [OF that] by (fastforce simp: retired_def ss_weaker_def interceptable_iff)
  qed
  from assms(1) show ?thesis unfolding settles_def
  proof
    assume "\<exists>tbl1 n. list_all2 ss_weaker tbl tbl1 \<and> supersedes n tbl1 \<and> tbl' = tbl1 @ [n]"
    then show ?thesis using weak by (fastforce simp: retired_def supersedes_def)
  qed (rule weak)
qed

lemma settles_codes:
  assumes "settles tbl tbl'" "codes_ok tbl"
  shows "codes_ok tbl'"
proof -
  have weak: "codes_ok tbl1" if "list_all2 ss_weaker tbl tbl1" for tbl1
    unfolding codes_ok_def
  proof (intro ballI impI, elim conjE)
    fix r r' assume r: "r \<in> set tbl1" "r' \<in> set tbl1" "ss_status r = SessAwaiting" "ss_status r' = SessAwaiting"
      "ss_channel r = ss_channel r'" "bindsSameIdentity (boundIdentity r) (boundIdentity r')"
    from weaker_row [OF that r(1)] obtain x where x: "x \<in> set tbl" "ss_weaker x r" by blast
    from weaker_row [OF that r(2)] obtain x' where x': "x' \<in> set tbl" "ss_weaker x' r'" by blast
    have "ss_status x = SessAwaiting" "boundIdentity x = boundIdentity r" "ss_channel x = ss_channel r" "ss_id x = ss_id r"
      "ss_status x' = SessAwaiting" "boundIdentity x' = boundIdentity r'" "ss_channel x' = ss_channel r'" "ss_id x' = ss_id r'"
      using x(2) x'(2) r(3,4) by (simp_all add: ss_weaker_def interceptable_iff)
    with assms(2) [unfolded codes_ok_def, rule_format, OF x(1) x'(1)] r(5,6) show "ss_id r = ss_id r'" by simp
  qed
  from assms(1) show ?thesis unfolding settles_def
  proof
    assume "\<exists>tbl1 n. list_all2 ss_weaker tbl tbl1 \<and> supersedes n tbl1 \<and> tbl' = tbl1 @ [n]"
    then obtain tbl1 n where *: "list_all2 ss_weaker tbl tbl1" "supersedes n tbl1" "tbl' = tbl1 @ [n]" by blast
    have new: "ss_id r = ss_id n"
      if "r \<in> set tbl1" "ss_status r = SessAwaiting" "ss_status n = SessAwaiting" "ss_channel r = ss_channel n"
        "bindsSameIdentity (boundIdentity r) (boundIdentity n)" for r
      using *(2) that by (simp add: supersedes_def bindsSameIdentity_def)
    have sym: "bindsSameIdentity a b \<longleftrightarrow> bindsSameIdentity b a" for a b by (auto simp: bindsSameIdentity_def)
    show ?thesis
      unfolding codes_ok_def *(3)
    proof (intro ballI impI, elim conjE)
      fix r r' assume r: "r \<in> set (tbl1 @ [n])" "r' \<in> set (tbl1 @ [n])" "ss_status r = SessAwaiting" "ss_status r' = SessAwaiting"
        "ss_channel r = ss_channel r'" "bindsSameIdentity (boundIdentity r) (boundIdentity r')"
      then consider "r \<in> set tbl1" "r' \<in> set tbl1" | "r = n" "r' = n" | "r \<in> set tbl1" "r' = n" | "r = n" "r' \<in> set tbl1" by auto
      then show "ss_id r = ss_id r'"
      proof cases
        case 1
        with r(3-6) weak [OF *(1)] show ?thesis by (simp add: codes_ok_def)
      next
        case 3
        with new [of r] r(3-6) show ?thesis by simp
      next
        case 4
        with new [of r'] r(3-6) sym show ?thesis by metis
      qed simp
    qed
  qed (rule weak)
qed

lemma weaker_set_status: "\<not> interceptable (set_status st now r) \<Longrightarrow> ss_weaker r (set_status st now r)"
  by (auto simp: ss_weaker_def set_status_def interceptable_iff)

lemma weaker_ops [intro]:
  "list_all2 ss_weaker tbl (revokePendingSessions now channel tbl)"
  "list_all2 ss_weaker tbl (snd (consumeSession now i user chat tbl))"
  "list_all2 ss_weaker tbl (snd (claimBootstrapSession now i channel tbl))"
  "list_all2 ss_weaker tbl (revokeSameIdentityOutbound channel identity now tbl)"
  "list_all2 ss_weaker tbl (updateSessionStatus now i SessRevoked user' chat' tbl)"
  "list_all2 ss_weaker tbl (updateSessionDelivery now i sentAt count next tbl)"
proof -
  show "list_all2 ss_weaker tbl (revokeSameIdentityOutbound channel identity now tbl)"
    by (auto simp: revokeSameIdentityOutbound_def Let_def set_status_def ss_weaker_def interceptable_iff
        intro: weaker_same weaker_update)
qed (auto simp: revokePendingSessions_def consumeSession_def claimBootstrapSession_def updateSessionStatus_def
    updateSessionDelivery_def Let_def set_status_def ss_weaker_def interceptable_iff intro!: weaker_update)

lemma weaker_bind:
  "(\<forall>s \<in> set tbl. ss_id s = i \<longrightarrow> ss_status s \<noteq> SessAwaiting) \<Longrightarrow> list_all2 ss_weaker tbl (bindSessionIdentity now i user chat tbl)"
  by (auto simp: bindSessionIdentity_def update_where_def list_all2_map2 ss_weaker_def interceptable_iff intro!: list.rel_refl_strong)

lemma insert_fresh: "insert_session n tbl = Some tbl' \<longleftrightarrow> ss_id n \<notin> ss_id ` set tbl \<and> tbl' = tbl @ [n]"
proof -
  have "list_ex (\<lambda>r. ss_id r = ss_id n) tbl \<longleftrightarrow> ss_id n \<in> ss_id ` set tbl" unfolding list_ex_iff image_iff by metis
  then show ?thesis by (auto simp: insert_session_def)
qed

lemma settles_inbound: "settles tbl (snd (createInboundSession i channel h e src now tbl))"
proof -
  let ?tbl1 = "revokePendingSessions now channel tbl" and ?n = "inbound_row i channel h e src now"
  have "list_all2 ss_weaker tbl ?tbl1" by auto
  moreover have "supersedes ?n ?tbl1" if "ss_id ?n \<notin> ss_id ` set ?tbl1"
    using that by (simp add: supersedes_def inbound_row_def)
  ultimately show ?thesis
    by (auto simp: createInboundSession_def Let_def settles_def insert_fresh split: option.split)
qed

lemma settles_outbound: "settles tbl (snd (store_outbound_session i h e st p now tbl))"
proof -
  let ?n = "outbound_row i h e st p now"
  let ?tbl1 = "revokeSameIdentityOutbound (op_channel p) (boundIdentity ?n) now tbl"
  have "list_all2 ss_weaker tbl ?tbl1" by auto
  moreover have "supersedes ?n ?tbl1" if "ss_id ?n \<notin> ss_id ` set ?tbl1"
  proof -
    have "boundIdentity r \<noteq> boundIdentity ?n"
      if r: "r \<in> set ?tbl1" "ss_status r = SessAwaiting" "ss_channel r = op_channel p" and b: "boundIdentity ?n \<noteq> None" for r
    proof
      assume same: "boundIdentity r = boundIdentity ?n"
      let ?hit = "\<lambda>x. ss_id x \<in> ss_id ` {s \<in> set tbl. ss_channel s = op_channel p \<and> ss_status s \<in> set OUTBOUND_LIVE_STATUSES \<and>
                   bindsSameIdentity (boundIdentity s) (boundIdentity ?n)}"
      from r(1) b obtain x where x: "x \<in> set tbl" "r = (if ?hit x then set_status SessRevoked now x else x)"
        unfolding revokeSameIdentityOutbound_def Let_def by (auto simp: update_where_def)
      have "\<not> ?hit x"
      proof
        assume "?hit x"
        with x(2) have "ss_status r = SessRevoked" by (simp add: set_status_def)
        with r(2) show False by simp
      qed
      moreover from this x(2) have "r = x" by simp
      with x(1) r same b have "?hit x" by (auto simp: OUTBOUND_LIVE_STATUSES_def bindsSameIdentity_def)
      ultimately show False by blast
    qed
    moreover have "ss_channel ?n = op_channel p" by (simp add: outbound_row_def)
    ultimately show ?thesis using that unfolding supersedes_def by metis
  qed
  ultimately show ?thesis
    by (auto simp: store_outbound_session_def Let_def settles_def insert_fresh split: option.split)
qed

lemma settles_guarded: "settles tbl (snd (createOutboundSessionGuarded hash uuid hs draw src none p now tbl))"
proof -
  have mint: "settles t (snd (createOutboundSession hash uuid hs draw q now t))" for t q
  proof -
    have "snd (createOutboundSession hash uuid hs draw q now t) =
        snd (store_outbound_session (given (op_sessionId q) uuid)
          (hash (if op_identityBindingStatus q = Some BindingPending then hs else generateNumericSecret (given (op_codeDigits q) 6) draw))
          (now + CHALLENGE_TTL_MS) (if op_identityBindingStatus q = Some BindingPending then SessBootstrap else SessAwaiting) q now t)"
      unfolding createOutboundSession_def Let_def by (simp split: prod.split option.split split del: if_split)
    then show ?thesis using settles_outbound by metis
  qed
  have "settles tbl (snd (createOutboundSession hash uuid hs draw q now tbl1))"
    if "claimBootstrapSession now i c tbl = (res, tbl1)" for res tbl1 i c q
    using settles_after [OF _ mint] weaker_ops(3) [of tbl now i c] that by simp
  moreover have "settles tbl tbl1" if "claimBootstrapSession now i c tbl = (res, tbl1)" for res tbl1 i c
    using weaker_ops(3) [of tbl now i c] that by (simp add: settles_def)
  ultimately show ?thesis
    using mint settles_refl by (auto simp: createOutboundSessionGuarded_def split: option.split prod.split)
qed

section \<open>Flows as a transition system\<close>

text \<open>\<open>fl_open\<close> are the consumed sessions whose effects are still to come, as the flow read them; \<open>fl_done\<close> the
  sessions on which success was reported, newest first.\<close>

record flow_state =
  fl_core :: verify_state
  fl_open :: "session_row list"
  fl_done :: "string list"

definition on_sessions :: "(session_table \<Rightarrow> session_table) \<Rightarrow> flow_state \<Rightarrow> flow_state" where
  "on_sessions h f = f\<lparr>fl_core := (fl_core f)\<lparr>vy_sessions := h (vy_sessions (fl_core f))\<rparr>\<rparr>"

definition on_directory :: "contact_db \<Rightarrow> flow_state \<Rightarrow> flow_state" where
  "on_directory db f = f\<lparr>fl_core := (fl_core f)\<lparr>vy_directory := db\<rparr>\<rparr>"

abbreviation fl_directory :: "flow_state \<Rightarrow> contact_db" where
  "fl_directory f \<equiv> vy_directory (fl_core f)"

abbreviation fl_sessions :: "flow_state \<Rightarrow> session_table" where
  "fl_sessions f \<equiv> vy_sessions (fl_core f)"

text \<open>A flow consumed \<open>s\<close>: with effects to come, or done with it.\<close>

definition consumed_in :: "verify_state \<Rightarrow> session_row \<Rightarrow> bool \<Rightarrow> flow_state \<Rightarrow> flow_state" where
  "consumed_in core s pending f =
     f\<lparr>fl_core := core, fl_open := (if pending then s # fl_open f else fl_open f),
       fl_done := (if pending then fl_done f else ss_id s # fl_done f)\<rparr>"

definition closed_with :: "verify_state \<Rightarrow> session_row \<Rightarrow> bool option \<Rightarrow> flow_state \<Rightarrow> flow_state" where
  "closed_with core s verified f =
     f\<lparr>fl_core := core, fl_open := filter (\<lambda>x. ss_id x \<noteq> ss_id s) (fl_open f),
       fl_done := (if verified = Some True then ss_id s # fl_done f else fl_done f)\<rparr>"

definition after_begin :: "begun \<Rightarrow> verify_state \<Rightarrow> flow_state \<Rightarrow> flow_state" where
  "after_begin b core f =
     (case b of
        Redeemed s \<Rightarrow> consumed_in core s False f
      | PhoneBound s _ \<Rightarrow> consumed_in core s False f
      | ContactPending s \<Rightarrow> consumed_in core s True f
      | _ \<Rightarrow> f\<lparr>fl_core := core\<rparr>)"

text \<open>The directory just before a phone binding writes.\<close>

definition phone_base :: "int \<Rightarrow> contact_db \<Rightarrow> contact_db" where
  "phone_base now db = (if getExistingGuardianBinding ''phone'' db = None then db else revokeExistingChannelGuardian ''phone'' now db)"

text \<open>\<open>restores\<close> allows the side effects of a code to fail with an exception; \<open>g\<close> allows the writes of the directory
  that lift a block, and restricts no flow. A cancelled session is revoked: the route \<open>verification_sessions_update_status\<close>
  takes any status, its only caller in the daemon passes this one.\<close>

inductive flow_step :: "(string \<Rightarrow> string) \<Rightarrow> bool \<Rightarrow> bool \<Rightarrow> flow_state \<Rightarrow> flow_state \<Rightarrow> bool" for hash restores g where
  mint_inbound: "flow_step hash restores g f
      (on_sessions (\<lambda>tbl. snd (createInboundVerificationSession hash uuid secret channel source now tbl)) f)"
| mint_outbound: "flow_step hash restores g f
      (on_sessions (\<lambda>tbl. snd (createOutboundSessionGuarded hash uuid hs draw require none p now tbl)) f)"
| revoke_pending: "flow_step hash restores g f (on_sessions (revokePendingSessions now channel) f)"
| cancel: "flow_step hash restores g f (on_sessions (updateSessionStatus now i SessRevoked None None) f)"
| sent: "flow_step hash restores g f (on_sessions (updateSessionDelivery now i sentAt count next) f)"
| bind_identity: "\<forall>s \<in> set (fl_sessions f). ss_id s = i \<longrightarrow> ss_status s \<noteq> SessAwaiting \<Longrightarrow>
    flow_step hash restores g f (on_sessions (bindSessionIdentity now i user chat) f)"
| directory: "dir_step g (fl_directory f) db \<Longrightarrow> flow_step hash restores g f (on_directory db f)"
| validate: "fresh_channel chu (fl_directory f) \<Longrightarrow>
    beginValidate hash cu chu now channel secret actor chat (fl_core f) = (b, core) \<Longrightarrow>
    flow_step hash restores g f (after_begin b core f)"
| phone_collect: "flow_step hash restores g f (on_directory (finishPhone e v w (fl_directory f)) f)"
| validate_effects: "s \<in> set (fl_open f) \<Longrightarrow>
    verified_ids chu lookup (verified_contact channel user chat name uname) (fl_directory f) \<Longrightarrow>
    name = Some (kept_name (given found None) None uname user) \<Longrightarrow>
    finishValidate now s (applyTrustedContactSideEffects found cu chu lookup mirrored e v channel user chat None uname now (fl_directory f))
      (fl_core f) = (verified, core) \<Longrightarrow> restores \<or> verified \<noteq> None \<Longrightarrow>
    flow_step hash restores g f (closed_with core s verified f)"
| text_code: "beginText hash now m (fl_core f) = (TextConsumed s user, core) \<Longrightarrow> flow_step hash restores g f (consumed_in core s True f)"
| text_answered: "beginText hash now m (fl_core f) = (TextAnswered answer, core) \<Longrightarrow> flow_step hash restores g f (f\<lparr>fl_core := core\<rparr>)"
| text_prepare: "prepareGuardian now channel user (fl_directory f) = (prepared, db) \<Longrightarrow> flow_step hash restores g f (on_directory db f)"
| text_bind: "s \<in> set (fl_open f) \<Longrightarrow> fresh_channel chu (fl_directory f) \<Longrightarrow>
    bindGuardian found e v cu chu m user pid now (fl_directory f) = (verified, db) \<Longrightarrow>
    flow_step hash restores g f (closed_with ((fl_core f)\<lparr>vy_directory := db\<rparr>) s verified f)"
| text_conflict: "s \<in> set (fl_open f) \<Longrightarrow>
    verified_ids chu lookup (verified_contact (tx_channel m) user (tx_chat m) (tx_displayName m) (tx_username m)) (fl_directory f) \<Longrightarrow>
    conflictContact cu chu lookup mirrored e v m user now (fl_directory f) = (verified, db) \<Longrightarrow>
    flow_step hash restores g f (closed_with ((fl_core f)\<lparr>vy_directory := db\<rparr>) s verified f)"
| text_contact: "s \<in> set (fl_open f) \<Longrightarrow>
    verified_ids chu lookup (verified_contact channel user chat (Some (kept_name (given found None) dname uname user)) uname) (fl_directory f) \<Longrightarrow>
    applyTrustedContactSideEffects found cu chu lookup mirrored e v channel user chat dname uname now (fl_directory f) = (verified, db) \<Longrightarrow>
    flow_step hash restores g f (closed_with ((fl_core f)\<lparr>vy_directory := db\<rparr>) s verified f)"
| voice: "validateVerificationCode hash now s code number attempt (fl_core f) = (VoiceOk s', core) \<Longrightarrow>
    flow_step hash restores g f (consumed_in core s' False f)"
| voice_failed: "validateVerificationCode hash now s code number attempt (fl_core f) = (VoiceFailed message exhausted, core) \<Longrightarrow>
    flow_step hash restores g f (f\<lparr>fl_core := core\<rparr>)"
| voice_guardian: "fresh_channel chu (fl_directory f) \<Longrightarrow>
    flow_step hash restores g f (on_directory (voiceGuardian e v cu chu number now (fl_directory f)) f)"
| voice_contact: "verified_ids chu lookup (verified_contact ''phone'' number number None None) (fl_directory f) \<Longrightarrow>
    flow_step hash restores g f (on_directory (voiceContact cu chu lookup mirrored e v number now (fl_directory f)) f)"

section \<open>One success per code\<close>

text \<open>A consumption spends a session that was live, and changes nothing else.\<close>

lemma consume_spends:
  assumes "consumeSession now i user chat tbl = (Some at, tbl')"
  shows "list_all2 ss_weaker tbl tbl'" "retired i tbl'" "\<not> retired i tbl"
proof -
  from assms have tbl': "tbl' = snd (consumeSession now i user chat tbl)" and live: "\<exists>s \<in> set tbl. ss_id s = i \<and> interceptable s"
    by (auto simp: consumeSession_def Let_def list_ex_iff split: if_splits)
  show weak: "list_all2 ss_weaker tbl tbl'" unfolding tbl' by auto
  from live show "\<not> retired i tbl" by (auto simp: retired_def)
  have "ss_id ` set tbl' = ss_id ` set tbl" using weaker_ids [OF weak] by (metis set_map)
  moreover have "\<not> interceptable r" if r: "r \<in> set tbl'" "ss_id r = i" for r
  proof -
    let ?spent = "\<lambda>s. (set_status SessConsumed now s)\<lparr>ss_consumedByExternalUserId := Some user, ss_consumedByChatId := Some chat\<rparr>"
    obtain x where x: "x \<in> set tbl" "r = (if ss_id x = i \<and> interceptable x then ?spent x else x)"
      using r(1) unfolding tbl' consumeSession_def Let_def snd_conv set_update_where by blast
    show ?thesis
    proof (cases "ss_id x = i \<and> interceptable x")
      case True
      with x(2) have "ss_status r = SessConsumed" by (simp add: set_status_def)
      then show ?thesis by (simp add: interceptable_iff)
    next
      case False
      with x(2) r(2) show ?thesis by auto
    qed
  qed
  ultimately show "retired i tbl'" using live by (auto simp: retired_def)
qed

fun spent_by :: "begun \<Rightarrow> session_row option" where
  "spent_by (Redeemed s) = Some s"
| "spent_by (PhoneBound s w) = Some s"
| "spent_by (ContactPending s) = Some s"
| "spent_by _ = None"

lemma begin_validate_sessions:
  assumes "beginValidate hash cu chu now channel secret actor chat st = (b, st')"
  shows "list_all2 ss_weaker (vy_sessions st) (vy_sessions st')"
    and "spent_by b = Some s \<Longrightarrow> retired (ss_id s) (vy_sessions st') \<and> \<not> retired (ss_id s) (vy_sessions st)"
proof -
  have *: "list_all2 ss_weaker (vy_sessions st) (vy_sessions st') \<and>
      (\<forall>s. spent_by b = Some s \<longrightarrow> retired (ss_id s) (vy_sessions st') \<and> \<not> retired (ss_id s) (vy_sessions st))"
  proof (cases "isRateLimited now channel actor chat (vy_limits st) \<or>
      findPendingSessionByHash now channel (hash secret) (vy_sessions st) = None")
    case True
    with assms show ?thesis by (auto simp: beginValidate_def Let_def weaker_same split: if_splits)
  next
    case False
    then obtain x where x: "findPendingSessionByHash now channel (hash secret) (vy_sessions st) = Some x" by auto
    obtain at tbl where c: "consumeSession now (ss_id x) actor chat (vy_sessions st) = (at, tbl)" by fastforce
    show ?thesis
    proof (cases at)
      case None
      with assms False x c show ?thesis by (auto simp: beginValidate_def Let_def weaker_same split: if_splits)
    next
      case (Some a)
      with assms False x c consume_spends [of now "ss_id x" actor chat "vy_sessions st" a tbl] show ?thesis
        by (auto simp: beginValidate_def Let_def weaker_same split: if_splits option.splits)
    qed
  qed
  show "list_all2 ss_weaker (vy_sessions st) (vy_sessions st')" using * by blast
  show "retired (ss_id s) (vy_sessions st') \<and> \<not> retired (ss_id s) (vy_sessions st)" if "spent_by b = Some s" using * that by blast
qed

lemma begin_text_sessions:
  assumes "beginText hash now m st = (b, st')"
  shows "list_all2 ss_weaker (vy_sessions st) (vy_sessions st')"
    and "b = TextConsumed s user \<Longrightarrow> retired (ss_id s) (vy_sessions st') \<and> \<not> retired (ss_id s) (vy_sessions st)"
    and "vy_directory st' = vy_directory st"
proof -
  have "(list_all2 ss_weaker (vy_sessions st) (vy_sessions st') \<and> vy_directory st' = vy_directory st) \<and>
      (\<forall>s user. b = TextConsumed s user \<longrightarrow> retired (ss_id s) (vy_sessions st') \<and> \<not> retired (ss_id s) (vy_sessions st))"
    using assms consume_spends [where tbl = "vy_sessions st" and now = now]
    by (auto simp: beginText_def Let_def text_failed_def weaker_same split: if_splits option.splits prod.splits)
  then show "list_all2 ss_weaker (vy_sessions st) (vy_sessions st')"
    "b = TextConsumed s user \<Longrightarrow> retired (ss_id s) (vy_sessions st') \<and> \<not> retired (ss_id s) (vy_sessions st)"
    "vy_directory st' = vy_directory st" by blast+
qed

lemma voice_sessions:
  assumes "validateVerificationCode hash now s code number attempt st = (b, st')"
  shows "list_all2 ss_weaker (vy_sessions st) (vy_sessions st')"
    and "b = VoiceOk s' \<Longrightarrow> retired (ss_id s') (vy_sessions st') \<and> \<not> retired (ss_id s') (vy_sessions st)"
    and "vy_directory st' = vy_directory st"
proof -
  have "(list_all2 ss_weaker (vy_sessions st) (vy_sessions st') \<and> vy_directory st' = vy_directory st) \<and>
      (\<forall>s'. b = VoiceOk s' \<longrightarrow> retired (ss_id s') (vy_sessions st') \<and> \<not> retired (ss_id s') (vy_sessions st))"
    using assms consume_spends [where tbl = "vy_sessions st" and now = now]
    by (auto simp: validateVerificationCode_def Let_def voice_wrong_def weaker_same split: if_splits option.splits prod.splits)
  then show "list_all2 ss_weaker (vy_sessions st) (vy_sessions st')"
    "b = VoiceOk s' \<Longrightarrow> retired (ss_id s') (vy_sessions st') \<and> \<not> retired (ss_id s') (vy_sessions st)"
    "vy_directory st' = vy_directory st" by blast+
qed

definition flow_ok :: "flow_state \<Rightarrow> bool" where
  "flow_ok f \<longleftrightarrow>
     distinct (map ss_id (fl_open f) @ fl_done f) \<and> (\<forall>i \<in> set (map ss_id (fl_open f) @ fl_done f). retired i (fl_sessions f))"

named_theorems flow_intros

lemma flow_ok_core [flow_intros]: "settles (fl_sessions f) (vy_sessions core) \<Longrightarrow> flow_ok f \<Longrightarrow> flow_ok (f\<lparr>fl_core := core\<rparr>)"
  using settles_dead by (auto simp: flow_ok_def)

lemma flow_ok_sessions [flow_intros]: "settles (fl_sessions f) (h (fl_sessions f)) \<Longrightarrow> flow_ok f \<Longrightarrow> flow_ok (on_sessions h f)"
  unfolding on_sessions_def by (rule flow_ok_core) simp_all

lemma flow_ok_directory [flow_intros]: "flow_ok f \<Longrightarrow> flow_ok (on_directory db f)"
  by (simp add: flow_ok_def on_directory_def)

lemma flow_ok_consumed [flow_intros]:
  assumes "flow_ok f" "list_all2 ss_weaker (fl_sessions f) (vy_sessions core)"
    and "retired (ss_id s) (vy_sessions core) \<and> \<not> retired (ss_id s) (fl_sessions f)"
  shows "flow_ok (consumed_in core s pending f)"
proof -
  have "ss_id s \<notin> set (map ss_id (fl_open f) @ fl_done f)" using assms(1,3) by (auto simp: flow_ok_def)
  then have "distinct (map ss_id (s # fl_open f) @ fl_done f)" "distinct (map ss_id (fl_open f) @ ss_id s # fl_done f)"
    using assms(1) by (auto simp: flow_ok_def)
  moreover have "retired i (vy_sessions core)" if "retired i (fl_sessions f)" for i
    using settles_dead [OF _ that] assms(2) by (simp add: settles_def)
  ultimately show ?thesis using assms(1,3) by (auto simp: flow_ok_def consumed_in_def)
qed

lemma flow_ok_closed [flow_intros]:
  assumes "flow_ok f" "s \<in> set (fl_open f)"
    and "vy_sessions core = fl_sessions f \<or>
      (verified = None \<and> vy_sessions core = updateSessionStatus now (ss_id s) st None None (fl_sessions f))"
  shows "flow_ok (closed_with core s verified f)"
proof -
  let ?open = "filter (\<lambda>x. ss_id x \<noteq> ss_id s) (fl_open f)"
  have d: "distinct (map ss_id ?open @ fl_done f)" "ss_id s \<notin> set (map ss_id ?open)" "ss_id s \<notin> set (fl_done f)"
    using assms(1,2) by (auto simp: flow_ok_def distinct_map_filter)
  moreover have "retired i (vy_sessions core)" if "i \<in> set (map ss_id ?open @ fl_done f)" for i
  proof -
    have "retired i (fl_sessions f)" "i \<noteq> ss_id s" using that assms(1) d by (auto simp: flow_ok_def)
    then show ?thesis
      using assms(3) by (auto simp: updateSessionStatus_def retired_def update_where_def set_status_def image_iff)
  qed
  moreover have "verified = Some True \<Longrightarrow> retired (ss_id s) (vy_sessions core)"
    using assms by (auto simp: flow_ok_def)
  ultimately show ?thesis by (auto simp: flow_ok_def closed_with_def)
qed

lemma begin_flow_ok:
  assumes "beginValidate hash cu chu now channel secret actor chat (fl_core f) = (b, core)" "flow_ok f"
  shows "flow_ok (after_begin b core f)"
proof -
  note sessions = begin_validate_sessions [OF assms(1)]
  show ?thesis
  proof (cases "spent_by b")
    case None
    then have "after_begin b core f = f\<lparr>fl_core := core\<rparr>" by (cases b) (auto simp: after_begin_def)
    with assms(2) sessions(1) show ?thesis by (simp add: flow_ok_core settles_def)
  next
    case (Some s)
    then obtain pending where "after_begin b core f = consumed_in core s pending f" by (cases b) (auto simp: after_begin_def)
    with flow_ok_consumed [OF assms(2) sessions(1) sessions(2) [OF Some]] show ?thesis by simp
  qed
qed

lemma settles_weaker: "list_all2 ss_weaker tbl tbl' \<Longrightarrow> settles tbl tbl'"
  by (simp add: settles_def)

lemma flow_ok_step: "flow_step hash restores g f f' \<Longrightarrow> flow_ok f \<Longrightarrow> flow_ok f'"
proof (induction rule: flow_step.induct)
  case (validate chu f cu now channel secret actor chat b core)
  then show ?case by (blast intro: begin_flow_ok)
next
  case (validate_effects s f chu lookup channel user chat name uname found now cu mirrored e v verified core)
  from validate_effects(4) have "vy_sessions core = fl_sessions f \<or>
      (verified = None \<and> vy_sessions core = updateSessionStatus now (ss_id s) (ss_status s) None None (fl_sessions f))"
    by (auto simp: finishValidate_def split: prod.splits option.splits)
  with validate_effects show ?case by (blast intro: flow_ok_closed)
next
  case (text_code now m f s user core)
  then show ?case using begin_text_sessions by (blast intro: flow_ok_consumed)
next
  case (text_answered now m f answer core)
  then show ?case using begin_text_sessions(1) by (blast intro: flow_ok_core settles_weaker)
next
  case (voice now s code number attempt f s' core)
  then show ?case using voice_sessions by (blast intro: flow_ok_consumed)
next
  case (voice_failed now s code number attempt f message exhausted core)
  then show ?case using voice_sessions(1) by (blast intro: flow_ok_core settles_weaker)
next
  case (mint_inbound f uuid secret channel source now)
  then show ?case by (auto simp: createInboundVerificationSession_def intro: flow_ok_sessions settles_inbound)
qed (auto intro: flow_ok_sessions settles_guarded settles_weaker weaker_bind flow_ok_directory flow_ok_closed)

definition fresh_flows :: "contact_db \<Rightarrow> flow_state" where
  "fresh_flows db = \<lparr>fl_core = \<lparr>vy_sessions = [], vy_limits = [], vy_directory = db\<rparr>, fl_open = [], fl_done = []\<rparr>"

lemma flow_run_ok: "(flow_step hash restores g)\<^sup>*\<^sup>* (fresh_flows db) f \<Longrightarrow> flow_ok f"
proof (induction rule: rtranclp_induct)
  case base
  then show ?case by (simp add: flow_ok_def fresh_flows_def)
qed (rule flow_ok_step)

text \<open>C8: a code is redeemed once. Whatever flows over text, voice and IPC run interleaved with mints, revocations and writes
  of the directory, and even where effects fail and the session is restored for a retry, no session is ever reported
  verified twice.\<close>

theorem codes_redeemed_once:
  "(flow_step hash restores g)\<^sup>*\<^sup>* (fresh_flows db) f \<Longrightarrow> distinct (fl_done f)"
  using flow_run_ok [of hash restores g db f] by (simp add: flow_ok_def)

section \<open>The latest code of an identity\<close>

lemma flow_settles: "flow_step hash False g f f' \<Longrightarrow> settles (fl_sessions f) (fl_sessions f')"
proof (induction rule: flow_step.induct)
  case (validate chu f cu now channel secret actor chat b core)
  then have "settles (fl_sessions f) (vy_sessions core)" using begin_validate_sessions(1) settles_weaker by blast
  then show ?case by (cases b) (simp_all add: after_begin_def consumed_in_def)
next
  case (validate_effects s f chu lookup channel user chat name uname found now cu mirrored e v verified core)
  then have "vy_sessions core = fl_sessions f" by (auto simp: finishValidate_def split: prod.splits option.splits)
  then show ?case by (simp add: closed_with_def settles_refl)
next
  case (mint_inbound f uuid secret channel source now)
  then show ?case by (simp add: on_sessions_def createInboundVerificationSession_def settles_inbound)
next
  case (text_code now m f s user core)
  then show ?case using begin_text_sessions(1) by (simp add: consumed_in_def) (blast intro: settles_weaker)
next
  case (text_answered now m f answer core)
  then show ?case using begin_text_sessions(1) by simp (blast intro: settles_weaker)
next
  case (voice now s code number attempt f s' core)
  then show ?case using voice_sessions(1) by (simp add: consumed_in_def) (blast intro: settles_weaker)
next
  case (voice_failed now s code number attempt f message exhausted core)
  then show ?case using voice_sessions(1) by simp (blast intro: settles_weaker)
qed (auto simp: on_sessions_def on_directory_def closed_with_def intro: settles_guarded settles_weaker weaker_bind settles_refl)

text \<open>C12: only the latest code of an identity is live. As long as no effect fails with an exception, two sessions that wait
  for a code on the same channel are bound to different identities, whatever mints, flows and bindings of a bootstrap
  happen.\<close>

theorem latest_code_only:
  "(flow_step hash False g)\<^sup>*\<^sup>* (fresh_flows db) f \<Longrightarrow> codes_ok (fl_sessions f)"
proof (induction rule: rtranclp_induct)
  case base
  then show ?case by (simp add: fresh_flows_def codes_ok_def)
next
  case (step f1 f2)
  then show ?case using flow_settles settles_codes by blast
qed

section \<open>The directory under the flows\<close>

named_theorems dir_runs

lemma dir_refl [dir_runs]: "(dir_step g)\<^sup>*\<^sup>* db db"
  by simp

lemma dir_one: "dir_step g db db' \<Longrightarrow> (dir_step g)\<^sup>*\<^sup>* db db'"
  by (rule r_into_rtranclp)

lemma fresh_revoke [simp]: "fresh_channel i (revokeExistingChannelGuardian t now db) = fresh_channel i db"
proof -
  have "map cc_id (channelRows (revokeExistingChannelGuardian t now db)) = map cc_id (channelRows db)"
    unfolding revokeExistingChannelGuardian_def Let_def by (simp add: map_update_where)
  then show ?thesis unfolding fresh_channel_def by (metis set_map)
qed

lemma phone_base_run: "(dir_step g)\<^sup>*\<^sup>* db (phone_base now db)"
  by (auto simp: phone_base_def intro: dir_one dir_step.revoke_guardian)

lemma fresh_phone_base [simp]: "fresh_channel i (phone_base now db) = fresh_channel i db"
  by (simp add: phone_base_def)

lemma collect_run [dir_runs]: "(dir_step g)\<^sup>*\<^sup>* db (finishPhone e v w db)"
  by (auto simp: finishPhone_def intro: dir_one dir_step.collect split: option.split)

text \<open>A binding of the guardian, on the tables as they are or with the guardian of the phone channel revoked before.\<close>

definition binding_base :: "contact_db \<Rightarrow> contact_db \<Rightarrow> bool" where
  "binding_base db base \<longleftrightarrow> base = db \<or> (\<exists>now. base = phone_base now db)"

definition binds_guardian :: "contact_db \<Rightarrow> contact_db \<Rightarrow> bool" where
  "binds_guardian db db' \<longleftrightarrow>
     (\<exists>base e v cu chu p now w. binding_base db base \<and> fresh_channel chu base \<and>
        createGuardianBinding e v cu chu p now base = Some (w, db'))"

text \<open>\<open>a\<close> is an address of the very guardian that is bound, and its row is taken for a new address that has none.\<close>

definition rebinds_address :: "string \<Rightarrow> string \<Rightarrow> contact_db \<Rightarrow> contact_db \<Rightarrow> bool" where
  "rebinds_address t a db db' \<longleftrightarrow>
     (\<exists>base e v cu chu p now w r. binding_base db base \<and> createGuardianBinding e v cu chu p now base = Some (w, db') \<and>
        gp_channel p = t \<and> find_channel t (gp_externalUserId p) base = None \<and>
        find_channel t a base = Some r \<and> guardian_by_principal (gp_guardianPrincipalId p) base = Some (cc_contactId r))"

lemma binds_run:
  assumes "binds_guardian db db'"
  shows "(dir_step True)\<^sup>*\<^sup>* db db'"
proof -
  from assms obtain base e v cu chu p now w where base: "binding_base db base"
    and b: "fresh_channel chu base" "createGuardianBinding e v cu chu p now base = Some (w, db')"
    by (auto simp: binds_guardian_def)
  from base have "(dir_step True)\<^sup>*\<^sup>* db base" by (auto simp: binding_base_def phone_base_run)
  moreover have "dir_step True base db'" using dir_step.bind [OF b(1) _ b(2), where g = True] by simp
  ultimately show ?thesis by (rule rtranclp.rtrancl_into_rtrancl)
qed

lemma binds_blocked:
  assumes "binds_guardian db db'" "directory_ok db" "gatewayChannelStatus t a db = Some ChBlocked"
  shows "gatewayChannelStatus t a db' = Some ChBlocked \<or> rebinds_address t a db db'"
proof -
  from assms(1) obtain base e v cu chu p now w where base: "binding_base db base"
    and b: "fresh_channel chu base" "createGuardianBinding e v cu chu p now base = Some (w, db')"
    by (auto simp: binds_guardian_def)
  from base have "(dir_step False)\<^sup>*\<^sup>* db base" by (auto simp: binding_base_def phone_base_run)
  from blocked_run [OF this assms(2,3)] have "directory_ok base" "gatewayChannelStatus t a base = Some ChBlocked" by simp_all
  from binding_lifts [OF this(1) b this(2)] base b(2) show ?thesis unfolding rebinds_address_def by blast
qed

lemma apply_binding:
  "applyGuardianBindingGatewayWrites cu chu p now db = Some (w, db') \<Longrightarrow> createGuardianBinding False False cu chu p now db = Some (w, db')"
  by (simp add: createGuardianBinding_def deleteContactIfOrphaned_def split: option.split)

lemma phone_writes:
  assumes "applyPhoneGuardianBindingGatewayWrites cu chu number chat at now db = Some (w, db')" "fresh_channel chu db"
  shows "db' = db \<or> binds_guardian db db'"
proof -
  have "db' = db \<or> (\<exists>w'. applyGuardianBindingGatewayWrites cu chu (phone_guardian number chat (resolveCanonicalPrincipal number db)) now
      (phone_base now db) = Some (w', db'))"
    using assms(1) by (auto simp: applyPhoneGuardianBindingGatewayWrites_def Let_def phone_base_def split: if_splits option.splits)
  then show ?thesis
  proof
    assume "\<exists>w'. applyGuardianBindingGatewayWrites cu chu (phone_guardian number chat (resolveCanonicalPrincipal number db)) now
      (phone_base now db) = Some (w', db')"
    then obtain w' where "createGuardianBinding False False cu chu (phone_guardian number chat (resolveCanonicalPrincipal number db)) now
      (phone_base now db) = Some (w', db')" using apply_binding by blast
    moreover have "binding_base db (phone_base now db)" "fresh_channel chu (phone_base now db)"
      using assms(2) by (auto simp: binding_base_def)
    ultimately show ?thesis unfolding binds_guardian_def by blast
  qed simp
qed

lemma begin_directory:
  assumes "beginValidate hash cu chu now channel secret actor chat st = (b, st')" "fresh_channel chu (vy_directory st)"
  shows "vy_directory st' = vy_directory st \<or> binds_guardian (vy_directory st) (vy_directory st')"
proof -
  have "vy_directory st' = vy_directory st \<or>
      (\<exists>at w. applyPhoneGuardianBindingGatewayWrites cu chu actor chat at now (vy_directory st) = Some (w, vy_directory st'))"
    using assms(1) by (auto simp: beginValidate_def Let_def split: if_splits option.splits prod.splits)
  then show ?thesis using phone_writes [OF _ assms(2)] by blast
qed

lemma verified_run:
  assumes "verified_ids chu lookup vp db" "upsertVerifiedContactChannel cu chu lookup mirrored e v soft vp now db = (wrote, db')"
  shows "(dir_step g)\<^sup>*\<^sup>* db db'"
  using dir_step.verified [OF assms] by (rule dir_one)

lemma trusted_run:
  assumes "applyTrustedContactSideEffects found cu chu lookup mirrored e v channel user chat dname uname now db = (res, db')"
    and "verified_ids chu lookup (verified_contact channel user chat (Some (kept_name (given found None) dname uname user)) uname) db"
  shows "(dir_step g)\<^sup>*\<^sup>* db db'"
proof (cases found)
  case None
  with assms(1) show ?thesis by (simp add: applyTrustedContactSideEffects_def)
next
  case (Some x)
  with assms(1) have "upsertVerifiedContactChannel cu chu lookup mirrored e v False
      (verified_contact channel user chat (Some (kept_name x dname uname user)) uname) now db = (res, db')"
    by (simp add: applyTrustedContactSideEffects_def)
  with assms(2) Some show ?thesis by (auto simp: given_def intro: verified_run)
qed

lemma voice_guardian_writes:
  assumes "fresh_channel chu db"
  shows "(dir_step g)\<^sup>*\<^sup>* db (voiceGuardian e v cu chu number now db) \<or> binds_guardian db (voiceGuardian e v cu chu number now db)"
proof -
  let ?gp = "phone_guardian number number (resolveCanonicalPrincipal number db)"
  have "binds_guardian db db2"
    if "createGuardianBinding e v cu chu ?gp now (phone_base now db) = Some (w, db2)" for w db2
    using that assms unfolding binds_guardian_def binding_base_def by (metis fresh_phone_base)
  then show ?thesis
    using phone_base_run [of g db now]
    by (auto simp: voiceGuardian_def Let_def phone_base_def [symmetric] split: option.split)
qed

lemma prepare_run: "prepareGuardian now channel user db = (prepared, db') \<Longrightarrow> (dir_step g)\<^sup>*\<^sup>* db db'"
  by (auto simp: prepareGuardian_def Let_def intro: dir_one dir_step.revoke_guardian split: if_splits)

lemma bind_guardian_writes:
  assumes "bindGuardian found e v cu chu m user pid now db = (verified, db')" "fresh_channel chu db"
  shows "db' = db \<or> binds_guardian db db'"
proof (cases found)
  case (Some existing)
  with assms(1) have "db' = db \<or> (\<exists>w. createGuardianBinding e v cu chu (text_guardian m user pid existing) now db = Some (w, db'))"
    by (auto simp: bindGuardian_def split: option.splits)
  with assms(2) show ?thesis unfolding binds_guardian_def binding_base_def by blast
qed (use assms(1) in \<open>simp add: bindGuardian_def\<close>)

lemma flow_dir:
  "flow_step hash restores g f f' \<Longrightarrow>
     (dir_step g)\<^sup>*\<^sup>* (fl_directory f) (fl_directory f') \<or> binds_guardian (fl_directory f) (fl_directory f')"
proof (induction rule: flow_step.induct)
  case (validate chu f cu now channel secret actor chat b core)
  then have "(dir_step g)\<^sup>*\<^sup>* (fl_directory f) (vy_directory core) \<or> binds_guardian (fl_directory f) (vy_directory core)"
    using begin_directory by fastforce
  then show ?case by (cases b) (simp_all add: after_begin_def consumed_in_def)
next
  case (validate_effects s f chu lookup channel user chat name uname found now cu mirrored e v verified core)
  have "vy_directory core = snd (applyTrustedContactSideEffects found cu chu lookup mirrored e v channel user chat None uname now (fl_directory f))"
    using validate_effects(4) by (auto simp: finishValidate_def split: prod.splits option.splits)
  with trusted_run [OF prod.collapse [symmetric]] validate_effects(2,3) show ?case by (simp add: closed_with_def)
next
  case (text_code now m f s user core)
  then show ?case using begin_text_sessions(3) by (fastforce simp: consumed_in_def)
next
  case (text_answered now m f answer core)
  then show ?case using begin_text_sessions(3) by fastforce
next
  case (voice now s code number attempt f s' core)
  then show ?case using voice_sessions(3) by (fastforce simp: consumed_in_def)
next
  case (voice_failed now s code number attempt f message exhausted core)
  then show ?case using voice_sessions(3) by fastforce
next
  case (directory f db)
  then show ?case by (simp add: on_directory_def dir_one)
next
  case (voice_guardian chu f e v cu number now)
  then show ?case using voice_guardian_writes by (simp add: on_directory_def)
next
  case (text_bind s f chu found e v cu m user pid now verified db)
  then show ?case using bind_guardian_writes by (fastforce simp: closed_with_def)
next
  case (voice_contact chu lookup number f cu mirrored e v now)
  then show ?case by (auto simp: on_directory_def voiceContact_def intro: verified_run prod.collapse [symmetric])
next
  case (text_conflict s f chu lookup m user cu mirrored e v now verified db)
  then show ?case by (auto simp: closed_with_def conflictContact_def intro: verified_run)
qed (auto simp: on_sessions_def on_directory_def closed_with_def intro: dir_runs prepare_run trusted_run)

lemma dir_run_mono: "(dir_step g)\<^sup>*\<^sup>* db db' \<Longrightarrow> (dir_step True)\<^sup>*\<^sup>* db db'"
  by (induction rule: rtranclp_induct) (auto intro: rtranclp.rtrancl_into_rtrancl dir_step_mono)

lemma flow_run_dir: "(flow_step hash restores g)\<^sup>*\<^sup>* f f' \<Longrightarrow> (dir_step True)\<^sup>*\<^sup>* (fl_directory f) (fl_directory f')"
proof (induction rule: rtranclp_induct)
  case (step f1 f2)
  from flow_dir [OF step(2)] have "(dir_step True)\<^sup>*\<^sup>* (fl_directory f1) (fl_directory f2)"
    using dir_run_mono binds_run by blast
  with step(3) show ?case by (rule rtranclp_trans)
qed simp

lemma dir_run_ok: "(dir_step g)\<^sup>*\<^sup>* db db' \<Longrightarrow> directory_ok db \<Longrightarrow> directory_ok db'"
  by (induction rule: rtranclp_induct) (auto intro: directory_step)

text \<open>C11: verification writes to the directory only what the directory allows. Seen from the tables of contacts, every run of
  flows is a sequence of the directory's own transitions, with no condition on the flows. And no code lifts a block but one
  way: an address that was blocked stays blocked through every run, unless in one step of it the guardian's own contact, whose
  blocked channel that is, is bound to a new address which had no row.\<close>

theorem flows_refine_directory:
  assumes "(flow_step hash restores g)\<^sup>*\<^sup>* f f'"
  shows "(dir_step True)\<^sup>*\<^sup>* (fl_directory f) (fl_directory f') \<and>
    (\<not> g \<and> directory_ok (fl_directory f) \<and> gatewayChannelStatus t a (fl_directory f) = Some ChBlocked \<longrightarrow>
       gatewayChannelStatus t a (fl_directory f') = Some ChBlocked \<or>
       (\<exists>f1 f2. (flow_step hash restores g)\<^sup>*\<^sup>* f f1 \<and> flow_step hash restores g f1 f2 \<and> (flow_step hash restores g)\<^sup>*\<^sup>* f2 f' \<and>
          gatewayChannelStatus t a (fl_directory f1) = Some ChBlocked \<and> rebinds_address t a (fl_directory f1) (fl_directory f2)))"
proof (intro conjI impI)
  show "(dir_step True)\<^sup>*\<^sup>* (fl_directory f) (fl_directory f')" using assms by (rule flow_run_dir)
next
  assume start: "\<not> g \<and> directory_ok (fl_directory f) \<and> gatewayChannelStatus t a (fl_directory f) = Some ChBlocked"
  from assms show "gatewayChannelStatus t a (fl_directory f') = Some ChBlocked \<or>
       (\<exists>f1 f2. (flow_step hash restores g)\<^sup>*\<^sup>* f f1 \<and> flow_step hash restores g f1 f2 \<and> (flow_step hash restores g)\<^sup>*\<^sup>* f2 f' \<and>
          gatewayChannelStatus t a (fl_directory f1) = Some ChBlocked \<and> rebinds_address t a (fl_directory f1) (fl_directory f2))"
  proof (induction rule: rtranclp_induct)
    case (step x y)
    show ?case
    proof (cases "gatewayChannelStatus t a (fl_directory x) = Some ChBlocked")
      case True
      have ok: "directory_ok (fl_directory x)" using dir_run_ok [OF flow_run_dir [OF step(1)]] start by blast
      have "gatewayChannelStatus t a (fl_directory y) = Some ChBlocked \<or> rebinds_address t a (fl_directory x) (fl_directory y)"
        using flow_dir [OF step(2)] blocked_run [OF _ ok True] binds_blocked [OF _ ok True] start by auto
      with step(1,2) True show ?thesis by blast
    next
      case False
      with step(2,3) show ?thesis by (blast intro: rtranclp.rtrancl_into_rtrancl)
    qed
  qed (use start in simp)
qed

section \<open>What a redemption answers\<close>

lemma live_consumed:
  assumes "findPendingSessionByHash now channel h tbl = Some s"
  shows "consumeSession now (ss_id s) user chat tbl = (Some now, snd (consumeSession now (ss_id s) user chat tbl))"
    and "retired (ss_id s) (snd (consumeSession now (ss_id s) user chat tbl))"
proof -
  from assms have "s \<in> set tbl" "interceptable s" unfolding findPendingSessionByHash_def by (auto dest: find_someD)
  then have "list_ex (\<lambda>r. ss_id r = ss_id s \<and> interceptable r) tbl" by (auto simp: list_ex_iff)
  then show eq: "consumeSession now (ss_id s) user chat tbl = (Some now, snd (consumeSession now (ss_id s) user chat tbl))"
    by (simp add: consumeSession_def Let_def)
  show "retired (ss_id s) (snd (consumeSession now (ss_id s) user chat tbl))" using consume_spends(2) [OF eq] .
qed

lemma phone_binding_total:
  assumes "directory_ok db" "fresh_channel chu db"
  shows "\<exists>w db'. applyPhoneGuardianBindingGatewayWrites cu chu number chat at now db = Some (w, db')"
proof -
  have "directory_ok (phone_base now db)" "chu \<notin> cc_id ` set (channelRows (phone_base now db))"
    using assms fresh_phone_base [of chu now db] by (auto simp: phone_base_def fresh_channel_def directory_revoke_guardian)
  from directory_guardian_binding [OF this] show ?thesis
    by (force simp: applyPhoneGuardianBindingGatewayWrites_def Let_def phone_base_def [symmetric])
qed

lemma phone_binding_skipped:
  "applyPhoneGuardianBindingGatewayWrites cu chu number chat at now db = Some (None, db') \<Longrightarrow>
     db' = db \<and> (getExistingGuardianBinding ''phone'' db = Some number \<or>
       (\<exists>t. getMostRecentChannelGuardianTimestamp ''phone'' db = Some t \<and> at \<le> t))"
  by (auto simp: applyPhoneGuardianBindingGatewayWrites_def Let_def split: if_splits option.splits)

text \<open>C9: what an attempt to redeem a code over IPC does, in every case. Under a lock nothing changes; a code of no live session,
  or of a session bound to someone else, is refused and recorded as an attempt, and nothing else changes. Otherwise the
  session is spent for good and the actor's record of attempts is cleared, and the answer is that of its role: a verified
  code, a contact whose effects are to come, or a phone guardian with exactly the writes of the binding. There, a blocked
  number is refused with the session spent and the record of attempts kept; a binding that throws, which it never does on
  tables that are consistent, rolls everything back; and a binding that is skipped still redeems, but only where the
  number is the guardian already or a guardian of the channel is as recent as the code.\<close>

theorem redeem_exact:
  assumes "beginValidate hash cu chu now channel secret actor chat st = (b, st')"
  defines "found \<equiv> findPendingSessionByHash now channel (hash secret) (vy_sessions st)"
    and "locked \<equiv> isRateLimited now channel actor chat (vy_limits st)"
    and "blocked \<equiv> gatewayChannelStatus channel actor (vy_directory st) = Some ChBlocked"
    and "binding \<equiv> applyPhoneGuardianBindingGatewayWrites cu chu actor chat now now (vy_directory st)"
    and "recorded \<equiv> st\<lparr>vy_limits := recordInvalidAttempt now channel actor chat (vy_limits st)\<rparr>"
    and "consumed \<equiv> \<lambda>s. st\<lparr>vy_sessions := snd (consumeSession now (ss_id s) actor chat (vy_sessions st))\<rparr>"
    and "cleared \<equiv> resetRateLimit now channel actor chat (vy_limits st)"
  shows "(locked \<longrightarrow> b = Refused \<and> st' = st) \<and>
    (\<not> locked \<and> (\<forall>s. found = Some s \<longrightarrow> \<not> checkIdentityMatch s actor chat) \<longrightarrow> b = Refused \<and> st' = recorded) \<and>
    (\<forall>s. \<not> locked \<and> found = Some s \<and> checkIdentityMatch s actor chat \<longrightarrow>
       retired (ss_id s) (vy_sessions (consumed s)) \<and>
       (\<not> voice_guardian_shape channel s \<longrightarrow>
          b = (if ss_purpose s = ContactPurpose then ContactPending s else Redeemed s) \<and> st' = (consumed s)\<lparr>vy_limits := cleared\<rparr>) \<and>
       (voice_guardian_shape channel s \<and> blocked \<longrightarrow> b = Refused \<and> st' = consumed s) \<and>
       (voice_guardian_shape channel s \<and> \<not> blocked \<and> binding = None \<longrightarrow>
          b = BeginThrows \<and> st' = st \<and> \<not> (directory_ok (vy_directory st) \<and> fresh_channel chu (vy_directory st))) \<and>
       (\<forall>w db. voice_guardian_shape channel s \<and> \<not> blocked \<and> binding = Some (w, db) \<longrightarrow>
          b = PhoneBound s w \<and> st' = (consumed s)\<lparr>vy_limits := cleared, vy_directory := db\<rparr> \<and>
          (w = None \<longrightarrow> db = vy_directory st \<and> (getExistingGuardianBinding ''phone'' db = Some actor \<or>
             (\<exists>t. getMostRecentChannelGuardianTimestamp ''phone'' db = Some t \<and> now \<le> t)))))"
proof (intro conjI impI allI; (elim conjE)?)
  note run = assms(1) [symmetric, unfolded beginValidate_def Let_def found_def [symmetric] locked_def [symmetric]]
  { assume locked then show "b = Refused" "st' = st" using run by simp_all }
  { assume "\<not> locked" "\<forall>s. found = Some s \<longrightarrow> \<not> checkIdentityMatch s actor chat"
    then show "b = Refused" "st' = recorded" using run by (cases found; simp add: recorded_def)+ }
  fix s assume s: "\<not> locked" "found = Some s" "checkIdentityMatch s actor chat"
  note live = live_consumed [OF s(2) [unfolded found_def], of actor chat]
  define tbl where "tbl = snd (consumeSession now (ss_id s) actor chat (vy_sessions st))"
  have tbl: "consumeSession now (ss_id s) actor chat (vy_sessions st) = (Some now, tbl)" unfolding tbl_def by (rule live(1))
  show "retired (ss_id s) (vy_sessions (consumed s))" using live(2) by (simp add: consumed_def)
  { assume "\<not> voice_guardian_shape channel s"
    then show "b = (if ss_purpose s = ContactPurpose then ContactPending s else Redeemed s)" "st' = (consumed s)\<lparr>vy_limits := cleared\<rparr>"
      using run s tbl by (simp_all add: consumed_def cleared_def split: if_splits) }
  { assume "voice_guardian_shape channel s" blocked
    then show "b = Refused" "st' = consumed s" using run s tbl by (simp_all add: consumed_def blocked_def) }
  { assume v: "voice_guardian_shape channel s" "\<not> blocked" "binding = None"
    then show "b = BeginThrows" "st' = st" using run s tbl by (simp_all add: blocked_def binding_def)
    show "\<not> (directory_ok (vy_directory st) \<and> fresh_channel chu (vy_directory st))"
      using phone_binding_total [of "vy_directory st" chu cu actor chat now now] v(3) unfolding binding_def by auto }
  fix w db assume v: "voice_guardian_shape channel s" "\<not> blocked" "binding = Some (w, db)"
  then show "b = PhoneBound s w" "st' = (consumed s)\<lparr>vy_limits := cleared, vy_directory := db\<rparr>"
    using run s tbl by (simp_all add: blocked_def binding_def consumed_def cleared_def)
  assume "w = None"
  with phone_binding_skipped v(3)
  show "db = vy_directory st" "getExistingGuardianBinding ''phone'' db = Some actor \<or>
             (\<exists>t. getMostRecentChannelGuardianTimestamp ''phone'' db = Some t \<and> now \<le> t)"
    unfolding binding_def by blast+
qed

section \<open>Guesses are few\<close>

text \<open>An attempt with a code over any of the three routes; a call's callback reads the session itself.\<close>

datatype guess =
    TextGuess text_message
  | IpcGuess string string string string string string
  | KeypadGuess string string int






text \<open>A sequence of attempts of any actors. Each finds the tables of sessions and of contacts that it finds, since anything
  may have been minted, redeemed or written in between; the table of limits is written by attempts only, so it is the one the
  attempts before have left. The trace tells of each attempt when it was, whose, whether it was a wrong guess, and whether it
  was accepted.\<close>

type_synonym attempt = "int \<times> guess \<times> session_table \<times> contact_db"









section \<open>Where the flows fall short\<close>

lemma revoke_lookup:
  assumes "directory_ok db" "find_channel t a db = Some r" "r \<in> set (guardian_rows t db)" "cc_status r = ChActive"
  shows "gatewayChannelStatus t a (revokeExistingChannelGuardian t now db) = Some ChRevoked"
proof -
  let ?ids = "map cc_id (filter (\<lambda>r. cc_status r = ChActive) (guardian_rows t db))"
  let ?f = "\<lambda>r. r\<lparr>cc_status := ChRevoked, cc_policy := ''deny'', cc_updatedAt := Some now\<rparr>"
  from assms(2) have r: "find (same_key t a) (channelRows db) = Some r" by (simp add: find_channel_def)
  have "find (same_key t a) (update_where (\<lambda>r. cc_id r \<in> set ?ids) ?f (channelRows db)) =
      Some (if cc_id r \<in> set ?ids then ?f r else r)"
    by (subst find_update_where) (auto simp: same_key_def r)
  moreover have "cc_id r \<in> set ?ids" using assms(3,4) by auto
  ultimately show ?thesis
    by (simp add: gatewayChannelStatus_def find_channel_def revokeExistingChannelGuardian_def Let_def)
qed

lemma no_guardian_after_revoke: "getExistingGuardianBinding t (revokeExistingChannelGuardian t now db) = None"
proof -
  let ?db = "revokeExistingChannelGuardian t now db"
  have "cc_status r \<noteq> ChActive" if "r \<in> set (guardian_rows t ?db)" for r
  proof
    assume act: "cc_status r = ChActive"
    let ?ids = "map cc_id (filter (\<lambda>r. cc_status r = ChActive) (guardian_rows t db))"
    from that have r: "r \<in> set (channelRows ?db)" "cc_type r = t" "guardian_contact (cc_contactId r) db"
      by (simp_all add: guardian_rows_def revokeExistingChannelGuardian_def Let_def guardian_contact_def set_channels_def)
    then obtain x where x: "x \<in> set (channelRows db)"
      "r = (if cc_id x \<in> set ?ids then x\<lparr>cc_status := ChRevoked, cc_policy := ''deny'', cc_updatedAt := Some now\<rparr> else x)"
      unfolding revokeExistingChannelGuardian_def Let_def by (auto simp: set_update_where)
    show False
    proof (cases "cc_id x \<in> set ?ids")
      case True
      with x(2) have "cc_status r = ChRevoked" by simp
      with act show False by simp
    next
      case False
      with x r act show False by (auto simp: guardian_rows_def)
    qed
  qed
  then show ?thesis by (auto simp: getExistingGuardianBinding_def find_None_iff)
qed

text \<open>C38: a guardian who verifies again can be locked out. The intercept revokes the binding before it asks the daemon for a
  name, outside any transaction. If that call fails, the code is spent, the guardian's channel stays revoked, nobody is
  guardian on the channel, and from then on a guardian's code from that address is refused.\<close>

theorem text_guardian_lockout:
  fixes now now' :: int
  assumes "directory_ok db" "getExistingGuardianBinding t db = Some user" "user \<noteq> []"
  defines "db1 \<equiv> revokeExistingChannelGuardian t now db"
  defines "pid \<equiv> resolveCanonicalPrincipal user db1"
  shows "prepareGuardian now t user db = (GuardianPrepared pid, db1) \<and>
    bindGuardian None e v cu chu m user pid now db1 = (None, db1) \<and>
    getExistingGuardianBinding t db1 = None \<and> gatewayChannelStatus t user db1 = Some ChRevoked \<and>
    prepareGuardian now' t user db1 = (GuardianRefused, db1)"
proof -
  from assms(2) obtain r where r: "r \<in> set (guardian_rows t db)" "cc_status r = ChActive" "cc_address r = user"
    by (auto simp: getExistingGuardianBinding_def dest: find_someD)
  then have "find_channel t user db = Some r"
    using find_channel_in [OF assms(1), of r] by (auto simp: guardian_rows_def)
  then have "gatewayChannelStatus t user db = Some ChActive" "gatewayChannelStatus t user db1 = Some ChRevoked"
    using revoke_lookup [OF assms(1) _ r(1,2)] r(2) by (simp_all add: gatewayChannelStatus_def db1_def)
  moreover have "getExistingGuardianBinding t db1 = None" unfolding db1_def by (rule no_guardian_after_revoke)
  ultimately show ?thesis
    using assms(2,3) by (simp add: prepareGuardian_def bindGuardian_def non_empty_def Let_def pid_def db1_def)
qed

theorem text_guardian_lockout_witness:
  "prepareGuardian 7 ''slack'' ''U1'' (revokeExistingChannelGuardian ''slack'' 5 (one_channel RoleGuardian (Some ''p'') ChActive)) =
     (GuardianRefused, revokeExistingChannelGuardian ''slack'' 5 (one_channel RoleGuardian (Some ''p'') ChActive))"
proof -
  have "getExistingGuardianBinding ''slack'' (one_channel RoleGuardian (Some ''p'') ChActive) = Some ''U1''" by code_simp
  from text_guardian_lockout [OF one_channel_ok this, where now = 5 and now' = 7] show ?thesis by simp
qed

text \<open>The guardian of one address, and another address with a contact of its own.\<close>

definition guarded_slack :: contact_db where
  "guarded_slack = one_channel RoleGuardian (Some ''p'') ChActive"

definition newcomer :: text_message where
  "newcomer = \<lparr>tx_channel = ''slack'', tx_content = ''000007'', tx_actor = ''U2'', tx_chat = ''D2'', tx_isDirect = Some True,
     tx_displayName = Some ''Ann'', tx_username = None\<rparr>"

definition guardian_code :: session_row where
  "guardian_code = inbound_row ''s1'' ''slack'' ''000007'' 600000 None 0"

text \<open>A redeemed guardian's code can announce a guardian that is none. Where another address is the guardian of the channel,
  the intercept skips the binding and only verifies the sender's contact, but the reply still says that they are now the
  guardian.\<close>

theorem text_conflict_announces_guardian:
  "let (prepared, db) = prepareGuardian 5 ''slack'' ''U2'' guarded_slack;
       (verified, db') = conflictContact ''c2'' ''ch2'' (Some None) True False False newcomer ''U2'' 5 db
   in prepared = GuardianConflict \<and> verified = Some True \<and>
      text_answer guardian_code verified =
        Some (Intercepted TextVerified GuardianPurpose ''Verification successful. You are now set as the guardian for this channel.'') \<and>
      getExistingGuardianBinding ''slack'' db' = Some ''U1''"
  by code_simp

lemma kept_in_update:
  "r \<in> set rows \<Longrightarrow> (\<And>r. key (f r) = key r) \<Longrightarrow> \<exists>x \<in> set (update_where p f rows). key x = key r"
  by (rule bexI [of _ "if p r then f r else r"]) (auto simp: update_where_def)

text \<open>C39: a failed effect revives a code that was superseded. Between the consumption of a code and the failure of its effects
  a second code can be minted for the same person; it finds nothing to supersede. Restoring the first session leaves two
  sessions waiting for a code of that person on the channel, and the older code can be redeemed again.\<close>

theorem restored_code_competes:
  assumes "beginValidate hash cu chu now channel secret user chat st = (ContactPending s, st1)" "ss_status s = SessAwaiting"
    and "op_channel p = channel" "op_identityBindingStatus p = None" "boundIdentity s \<noteq> None"
    and "op_expectedPhoneE164 p = ss_expectedPhoneE164 s" "op_expectedExternalUserId p = ss_expectedExternalUserId s"
      "op_expectedChatId p = ss_expectedChatId s"
    and "createOutboundSession hash uuid hs draw p now1 (vy_sessions st1) = (Minted i code, tbl)"
    and "finishValidate now2 s (None, db) (st1\<lparr>vy_sessions := tbl\<rparr>) = (res, st2)"
  shows "\<not> codes_ok (vy_sessions st2) \<and>
    (\<exists>r \<in> set (vy_sessions st2). ss_id r = ss_id s \<and> ss_challengeHash r = hash secret \<and> ss_status r = SessAwaiting) \<and>
    (\<exists>r \<in> set (vy_sessions st2). ss_id r = i \<and> ss_challengeHash r = hash code \<and> ss_status r = SessAwaiting)"
proof -
  let ?key = "\<lambda>r. (ss_id r, ss_channel r, ss_challengeHash r, boundIdentity r)"
  have in0: "s \<in> set (vy_sessions st)" and s: "ss_channel s = channel" "ss_challengeHash s = hash secret"
    and st1: "vy_sessions st1 = snd (consumeSession now (ss_id s) user chat (vy_sessions st))"
    using assms(1) unfolding beginValidate_def Let_def findPendingSessionByHash_def
    by (auto split: if_splits option.splits prod.splits dest: find_someD)
  have "\<exists>x \<in> set (vy_sessions st1). ?key x = ?key s"
    unfolding st1 consumeSession_def Let_def snd_conv by (rule kept_in_update [OF in0]) (simp add: set_status_def)
  then obtain x where x: "x \<in> set (vy_sessions st1)" "?key x = ?key s" by blast
  define n where "n = outbound_row (given (op_sessionId p) uuid) (hash code) (now1 + CHALLENGE_TTL_MS) SessAwaiting p now1"
  define old where "old = revokeSameIdentityOutbound (op_channel p) (boundIdentity n) now1 (vy_sessions st1)"
  have mint: "i = ss_id n \<and> i \<notin> ss_id ` set old \<and> tbl = old @ [n]"
    using assms(4,9) unfolding createOutboundSession_def store_outbound_session_def Let_def
    by (auto simp: n_def old_def insert_fresh outbound_row_def split: option.splits)
  have "\<exists>y \<in> set old. ?key y = ?key x"
  proof (cases "boundIdentity n = None")
    case False
    show ?thesis
      unfolding old_def revokeSameIdentityOutbound_def Let_def if_not_P [OF False]
      by (rule kept_in_update [OF x(1)]) (simp add: set_status_def)
  qed (use x(1) in \<open>auto simp: old_def revokeSameIdentityOutbound_def\<close>)
  with x(2) obtain y where y: "y \<in> set old" "?key y = ?key s" by auto
  have st2: "vy_sessions st2 = updateSessionStatus now2 (ss_id s) SessAwaiting None None tbl"
    using assms(2,10) by (auto simp: finishValidate_def)
  let ?rev = "\<lambda>r. if ss_id r = ss_id s then set_status SessAwaiting now2 r else r"
  have rows2: "vy_sessions st2 = map ?rev tbl" unfolding st2 updateSessionStatus_def update_where_def by (simp add: set_status_def)
  have "ss_id y = ss_id s" "i \<noteq> ss_id s" using y mint by (auto simp: image_iff)
  then have in2: "?rev y \<in> set (vy_sessions st2)" "n \<in> set (vy_sessions st2)" using y(1) mint unfolding rows2 by (auto simp: image_iff)
  have n: "ss_status n = SessAwaiting" "ss_channel n = channel" "ss_challengeHash n = hash code" "boundIdentity n = boundIdentity s"
    using assms(3,6-8) by (simp_all add: n_def outbound_row_def boundIdentity_def cong: option.case_cong)
  have b: "ss_id (?rev y) = ss_id s" "ss_status (?rev y) = SessAwaiting" "ss_channel (?rev y) = channel"
    "ss_challengeHash (?rev y) = hash secret" "boundIdentity (?rev y) = boundIdentity s"
    using y(2) s by (simp_all add: set_status_def)
  have "\<not> codes_ok (vy_sessions st2)"
  proof
    assume "codes_ok (vy_sessions st2)"
    from this [unfolded codes_ok_def, rule_format, OF in2(1) in2(2)] n b assms(5) have "ss_id (?rev y) = ss_id n"
      by (simp add: bindsSameIdentity_def)
    with b(1) mint \<open>i \<noteq> ss_id s\<close> show False by simp
  qed
  with in2 n b mint show ?thesis by blast
qed

text \<open>A table with one code minted for a person, and what two more mints need.\<close>

definition contact_mint :: outbound_params where
  "contact_mint = \<lparr>op_channel = ''slack'', op_expectedExternalUserId = Some ''U1'', op_expectedChatId = None, op_expectedPhoneE164 = None,
     op_identityBindingStatus = None, op_destinationAddress = None, op_codeDigits = None, op_maxAttempts = None,
     op_purpose = Some ContactPurpose, op_bootstrapTokenHash = None, op_sessionId = None\<rparr>"

definition contact_code :: session_row where
  "contact_code = outbound_row ''s1'' ''000007'' 600000 SessAwaiting contact_mint 0"

definition one_code :: verify_state where
  "one_code = \<lparr>vy_sessions = [contact_code], vy_limits = [], vy_directory = empty_directory\<rparr>"

definition redeemed_code :: verify_state where
  "redeemed_code = snd (beginValidate (\<lambda>x. x) ''c'' ''ch'' 5 ''slack'' ''000007'' ''U1'' ''D1'' one_code)"

lemma contact_code_begins:
  "beginValidate (\<lambda>x. x) ''c'' ''ch'' 5 ''slack'' ''000007'' ''U1'' ''D1'' one_code = (ContactPending contact_code, redeemed_code)"
proof -
  have "fst (beginValidate (\<lambda>x. x) ''c'' ''ch'' 5 ''slack'' ''000007'' ''U1'' ''D1'' one_code) = ContactPending contact_code" by code_simp
  then show ?thesis by (simp add: redeemed_code_def prod_eq_iff)
qed

lemma mint_fresh:
  assumes "uuid \<notin> ss_id ` set tbl" "op_sessionId p = None"
  shows "\<exists>code tbl'. createOutboundSession hash uuid hs draw p now tbl = (Minted uuid code, tbl')"
proof -
  have "ss_id ` set (revokeSameIdentityOutbound c b now tbl) = ss_id ` set tbl" for c b
    using weaker_ids [OF weaker_ops(4) [of tbl c b now]] by (metis set_map)
  then have "insert_session (outbound_row uuid h e st p now) (revokeSameIdentityOutbound c b now tbl) =
      Some (revokeSameIdentityOutbound c b now tbl @ [outbound_row uuid h e st p now])" for h e st c b
    using assms(1) by (simp add: insert_fresh outbound_row_def)
  then show ?thesis
    using assms(2) by (simp add: createOutboundSession_def store_outbound_session_def Let_def given_def)
qed

theorem restored_code_competes_witness:
  "\<exists>i code tbl res st. createOutboundSession (\<lambda>x. x) ''s2'' [] 8 contact_mint 6 (vy_sessions redeemed_code) = (Minted i code, tbl) \<and>
     finishValidate 7 contact_code (None, empty_directory) (redeemed_code\<lparr>vy_sessions := tbl\<rparr>) = (res, st) \<and> \<not> codes_ok (vy_sessions st)"
proof -
  have "map ss_id (vy_sessions redeemed_code) = [''s1'']" by code_simp
  then have "ss_id ` set (vy_sessions redeemed_code) = set [''s1'']" by (metis set_map)
  then have "''s2'' \<notin> ss_id ` set (vy_sessions redeemed_code)" by simp
  then obtain code tbl where m: "createOutboundSession (\<lambda>x. x) ''s2'' [] 8 contact_mint 6 (vy_sessions redeemed_code) = (Minted ''s2'' code, tbl)"
    using mint_fresh [of "''s2''"] by (fastforce simp: contact_mint_def)
  have fields: "ss_status contact_code = SessAwaiting" "op_channel contact_mint = ''slack''" "op_identityBindingStatus contact_mint = None"
    "boundIdentity contact_code \<noteq> None" "op_expectedPhoneE164 contact_mint = ss_expectedPhoneE164 contact_code"
    "op_expectedExternalUserId contact_mint = ss_expectedExternalUserId contact_code"
    "op_expectedChatId contact_mint = ss_expectedChatId contact_code"
    by (simp_all add: contact_code_def contact_mint_def outbound_row_def boundIdentity_def)
  from restored_code_competes [OF contact_code_begins fields m prod.collapse [symmetric]] m show ?thesis
    by (metis prod.collapse)
qed

section \<open>Runs\<close>

definition inbound_minted :: flow_state where
  "inbound_minted = on_sessions (\<lambda>tbl. snd (createInboundVerificationSession (\<lambda>x. x) ''s1'' ''000007'' ''slack'' None 0 tbl))
     (fresh_flows empty_directory)"

definition inbound_redeemed :: "begun \<times> verify_state" where
  "inbound_redeemed = beginValidate (\<lambda>x. x) ''c'' ''ch'' 5 ''slack'' ''000007'' ''U1'' ''D1'' (fl_core inbound_minted)"

lemma inbound_run:
  "(flow_step (\<lambda>x. x) True True)\<^sup>*\<^sup>* (fresh_flows empty_directory) (after_begin (fst inbound_redeemed) (snd inbound_redeemed) inbound_minted)"
proof (rule converse_rtranclp_into_rtranclp [where r = "flow_step (\<lambda>x. x) True True"])
  show "flow_step (\<lambda>x. x) True True (fresh_flows empty_directory) inbound_minted"
    unfolding inbound_minted_def by (rule flow_step.mint_inbound)
  show "(flow_step (\<lambda>x. x) True True)\<^sup>*\<^sup>* inbound_minted (after_begin (fst inbound_redeemed) (snd inbound_redeemed) inbound_minted)"
  proof (rule r_into_rtranclp, rule flow_step.validate)
    show "beginValidate (\<lambda>x. x) ''c'' ''ch'' 5 ''slack'' ''000007'' ''U1'' ''D1'' (fl_core inbound_minted) =
        (fst inbound_redeemed, snd inbound_redeemed)"
      by (simp add: inbound_redeemed_def)
    show "fresh_channel ''ch'' (fl_directory inbound_minted)"
      by (simp add: inbound_minted_def on_sessions_def fresh_flows_def fresh_channel_def empty_directory_def)
  qed
qed

theorem codes_redeemed_once_witness:
  "fl_done (after_begin (fst inbound_redeemed) (snd inbound_redeemed) inbound_minted) = [''s1''] \<and>
   distinct (fl_done (after_begin (fst inbound_redeemed) (snd inbound_redeemed) inbound_minted))"
proof
  show "fl_done (after_begin (fst inbound_redeemed) (snd inbound_redeemed) inbound_minted) = [''s1'']" by code_simp
qed (rule codes_redeemed_once [OF inbound_run])

theorem redeem_exact_witness:
  "fst inbound_redeemed = Redeemed (inbound_row ''s1'' ''slack'' ''000007'' 600000 None 0) \<and>
   vy_limits (snd inbound_redeemed) = resetRateLimit 5 ''slack'' ''U1'' ''D1'' (vy_limits (fl_core inbound_minted))"
proof -
  let ?st = "fl_core inbound_minted" and ?s = "inbound_row ''s1'' ''slack'' ''000007'' 600000 None 0"
  have "\<not> isRateLimited 5 ''slack'' ''U1'' ''D1'' (vy_limits ?st) \<and>
      findPendingSessionByHash 5 ''slack'' ''000007'' (vy_sessions ?st) = Some ?s \<and> checkIdentityMatch ?s ''U1'' ''D1'' \<and>
      \<not> voice_guardian_shape ''slack'' ?s \<and> ss_purpose ?s = GuardianPurpose" by code_simp
  with redeem_exact [OF prod.collapse [symmetric, of inbound_redeemed, unfolded inbound_redeemed_def]]
  show ?thesis unfolding inbound_redeemed_def by simp
qed



definition outbound_minted :: "string \<Rightarrow> 32 word \<Rightarrow> flow_state \<Rightarrow> flow_state" where
  "outbound_minted uuid draw =
     on_sessions (\<lambda>tbl. snd (createOutboundSessionGuarded (\<lambda>x. x) uuid [] draw None None contact_mint 0 tbl))"

theorem latest_code_only_witness:
  "codes_ok (fl_sessions (outbound_minted ''s2'' 8 (outbound_minted ''s1'' 7 (fresh_flows empty_directory))))"
proof (rule latest_code_only [where hash = "\<lambda>x. x" and g = False and db = empty_directory])
  show "(flow_step (\<lambda>x. x) False False)\<^sup>*\<^sup>* (fresh_flows empty_directory)
      (outbound_minted ''s2'' 8 (outbound_minted ''s1'' 7 (fresh_flows empty_directory)))"
    unfolding outbound_minted_def
    by (rule converse_rtranclp_into_rtranclp [where r = "flow_step (\<lambda>x. x) False False"], rule flow_step.mint_outbound)
      (rule r_into_rtranclp, rule flow_step.mint_outbound)
qed

theorem flows_refine_directory_witness:
  "(dir_step True)\<^sup>*\<^sup>* (fl_directory (fresh_flows guarded_slack))
     (fl_directory (on_directory (snd (prepareGuardian 5 ''slack'' ''U1'' guarded_slack)) (fresh_flows guarded_slack)))"
proof (rule flows_refine_directory [THEN conjunct1, OF r_into_rtranclp [where r = "flow_step (\<lambda>x. x) False False"]])
  have "prepareGuardian 5 ''slack'' ''U1'' (fl_directory (fresh_flows guarded_slack)) =
      (fst (prepareGuardian 5 ''slack'' ''U1'' guarded_slack), snd (prepareGuardian 5 ''slack'' ''U1'' guarded_slack))"
    by (simp add: fresh_flows_def)
  then show "flow_step (\<lambda>x. x) False False (fresh_flows guarded_slack)
      (on_directory (snd (prepareGuardian 5 ''slack'' ''U1'' guarded_slack)) (fresh_flows guarded_slack))"
    by (rule flow_step.text_prepare)
qed

end
