(* ===== verification/Invites.thy ===== *)
theory Invites
  imports Inbound_Trust Verification_Sessions Complex_Main "HOL-Library.List_Lexorder" "HOL-Library.Char_ord" "HOL-Library.Product_Lexorder"
begin

text \<open>
  Invites: the table \<^verbatim>\<open>ingress_invites\<close> (\<^verbatim>\<open>db/contact-store.ts\<close>), what mints, lists and revokes them
  (\<^verbatim>\<open>http/routes/contacts-control-plane-proxy.ts\<close> with \<^verbatim>\<open>http/routes/invite-validation.ts\<close> and the shared
  helpers of \<^verbatim>\<open>invite-contract.ts\<close>) and how a code, a link or a spoken code is redeemed
  (\<^verbatim>\<open>verification/invite-redemption.ts\<close>, \<^verbatim>\<open>verification/invite-liveness.ts\<close>).

  \<^item> A redemption is synchronous up to the claim of a use; the directory is written after the daemon was asked.
    \<open>begin_request\<close> and \<open>bindRedemption\<close> are the two sections, \<open>invite_step\<close> lets anything come between them.
  \<^item> The clock, digests, random numbers and identifiers and the daemon's answers are arguments. \<open>maxUses\<close> and
    \<open>expiresInMs\<close> are numbers the schema does not restrict to integers, so they are rationals.
  \<^item> Results: an invite is claimed at most as often as it allows, a redemption gives the sender the invite's contact and
    nothing else, no order of redemptions lifts a block, and a minted code is recognised and redeemed.
\<close>

section \<open>The rows\<close>

datatype invite_status = InvActive | InvRedeemed | InvRevoked | InvExpired

text \<open>A row without its three digests is what a response may carry.\<close>

record invite_public =
  iv_id :: string
  iv_sourceChannel :: string
  iv_voiceCodeDigits :: "nat option"
  iv_expectedExternalUserId :: "string option"
  iv_friendName :: "string option"
  iv_guardianName :: "string option"
  iv_sourceConversationId :: "string option"
  iv_note :: "string option"
  iv_maxUses :: rat
  iv_useCount :: nat
  iv_expiresAt :: rat
  iv_status :: invite_status
  iv_redeemedByExternalUserId :: "string option"
  iv_redeemedByExternalChatId :: "string option"
  iv_redeemedAt :: "int option"
  iv_contactId :: string
  iv_createdAt :: int
  iv_updatedAt :: int

record invite_row = invite_public +
  iv_inviteCodeHash :: string
  iv_tokenHash :: "string option"
  iv_voiceCodeHash :: "string option"

text \<open>The contact column of the table is the directory's \<open>inviteContactIds\<close>: deleting a contact deletes its invites.\<close>

record invite_state =
  is_rows :: "invite_row list"
  is_directory :: contact_db

definition NO_INVITE_CODE_HASH :: string where "NO_INVITE_CODE_HASH = ''''"

definition sanitizeInviteRow :: "invite_row \<Rightarrow> invite_public" where
  "sanitizeInviteRow = invite_public.truncate"

section \<open>The store\<close>

fun invite_status_text :: "invite_status \<Rightarrow> string" where
  "invite_status_text InvActive = ''active''"
| "invite_status_text InvRedeemed = ''redeemed''"
| "invite_status_text InvRevoked = ''revoked''"
| "invite_status_text InvExpired = ''expired''"

text \<open>Newest first, the identifier decides between rows of the same millisecond.\<close>

definition listInvites ::
  "string option \<Rightarrow> string option \<Rightarrow> string option \<Rightarrow> nat option \<Rightarrow> nat option \<Rightarrow> invite_row list \<Rightarrow> invite_row list" where
  "listInvites sourceChannel status contactId limit offset rows =
     take (given limit 100) (drop (given offset 0) (rev (sort_key (\<lambda>r. (iv_createdAt r, iv_id r))
       (filter (\<lambda>r. (sourceChannel = None \<or> sourceChannel = Some (iv_sourceChannel r)) \<and>
                    (status = None \<or> status = Some (invite_status_text (iv_status r))) \<and>
                    (contactId = None \<or> contactId = Some (iv_contactId r))) rows))))"

text \<open>\<open>None\<close>: the primary key or the reference to the contact refuses the row.\<close>

definition createInvite :: "invite_row \<Rightarrow> invite_state \<Rightarrow> invite_state option" where
  "createInvite r st =
     (if list_ex (\<lambda>x. iv_id x = iv_id r) (is_rows st) \<or> \<not> has_contact (iv_contactId r) (is_directory st) then None
      else Some \<lparr>is_rows = is_rows st @ [r],
                 is_directory = (is_directory st)\<lparr>inviteContactIds := inviteContactIds (is_directory st) @ [iv_contactId r]\<rparr>\<rparr>)"

definition getInviteById :: "string \<Rightarrow> invite_row list \<Rightarrow> invite_row option" where
  "getInviteById i = find (\<lambda>r. iv_id r = i)"

definition active_invite :: "string \<Rightarrow> invite_row \<Rightarrow> bool" where
  "active_invite i r = (iv_id r = i \<and> iv_status r = InvActive)"

definition revokeInvite :: "string \<Rightarrow> int \<Rightarrow> invite_row list \<Rightarrow> invite_row option \<times> invite_row list" where
  "revokeInvite i now rows =
     (let rows1 = update_where (active_invite i) (\<lambda>r. r\<lparr>iv_status := InvRevoked, iv_updatedAt := now\<rparr>) rows
      in (getInviteById i rows1, rows1))"

definition claim_set :: "string option \<Rightarrow> string option \<Rightarrow> int \<Rightarrow> invite_row \<Rightarrow> invite_row" where
  "claim_set user chat now r =
     r\<lparr>iv_useCount := iv_useCount r + 1, iv_redeemedAt := Some now, iv_redeemedByExternalUserId := user,
       iv_redeemedByExternalChatId := chat,
       iv_status := (if iv_maxUses r \<le> of_nat (iv_useCount r + 1) then InvRedeemed else InvActive), iv_updatedAt := now\<rparr>"

definition recordInviteRedemption ::
  "string \<Rightarrow> string option \<Rightarrow> string option \<Rightarrow> int \<Rightarrow> invite_row list \<Rightarrow> bool \<times> invite_row list" where
  "recordInviteRedemption i user chat now rows =
     (list_ex (active_invite i) rows, update_where (active_invite i) (claim_set user chat now) rows)"

definition findInviteByTokenHash :: "string \<Rightarrow> invite_row list \<Rightarrow> invite_row option" where
  "findInviteByTokenHash tokenHash = find (\<lambda>r. iv_tokenHash r = Some tokenHash)"

definition findInviteByCodeHash :: "string \<Rightarrow> string \<Rightarrow> invite_row list \<Rightarrow> invite_row option" where
  "findInviteByCodeHash codeHash sourceChannel rows =
     (if codeHash = NO_INVITE_CODE_HASH then None
      else find (\<lambda>r. iv_inviteCodeHash r = codeHash \<and> iv_sourceChannel r = sourceChannel \<and> iv_status r = InvActive) rows)"

definition findInviteByCodeHashAnyChannel :: "int \<Rightarrow> string \<Rightarrow> invite_row list \<Rightarrow> invite_row option" where
  "findInviteByCodeHashAnyChannel now codeHash rows =
     (if codeHash = NO_INVITE_CODE_HASH then None
      else find (\<lambda>r. iv_inviteCodeHash r = codeHash \<and> iv_status r = InvActive \<and> of_int now < iv_expiresAt r) rows)"

definition findActiveVoiceInvites :: "string \<Rightarrow> invite_row list \<Rightarrow> invite_row list" where
  "findActiveVoiceInvites caller =
     filter (\<lambda>r. iv_sourceChannel r = ''phone'' \<and> iv_status r = InvActive \<and> iv_expectedExternalUserId r = Some caller)"

definition markInviteExpired :: "string \<Rightarrow> int \<Rightarrow> invite_row list \<Rightarrow> invite_row list" where
  "markInviteExpired i now = update_where (active_invite i) (\<lambda>r. r\<lparr>iv_status := InvExpired, iv_updatedAt := now\<rparr>)"

section \<open>Minting\<close>

definition isValidE164 :: "string \<Rightarrow> bool" where
  "isValidE164 phone =
     (case phone of
        c # ds \<Rightarrow> c = CHR ''+'' \<and> list_all ascii_digit ds \<and> 10 \<le> length ds \<and> length ds \<le> 15
      | [] \<Rightarrow> False)"

text \<open>\<open>String(randomInt(10 ** (digits - 1), 10 ** digits))\<close>; \<open>None\<close> throws.\<close>

definition generateInviteCode :: "nat \<Rightarrow> nat \<Rightarrow> string option" where
  "generateInviteCode digits draw =
     (if digits < 4 \<or> 10 < digits then None
      else Some (nat_string (10 ^ (digits - 1) + draw mod (10 ^ digits - 10 ^ (digits - 1)))))"

definition DEFAULT_INVITE_EXPIRY_MS :: rat where "DEFAULT_INVITE_EXPIRY_MS = 7 * 24 * 60 * 60 * 1000"

record create_input =
  ci_contactId :: string
  ci_sourceChannel :: string
  ci_note :: "string option"
  ci_maxUses :: "rat option"
  ci_expiresInMs :: "rat option"
  ci_expectedExternalUserId :: "string option"
  ci_guardianName :: "string option"
  ci_sourceConversationId :: "string option"

record create_payload =
  cr_id :: string
  cr_sourceChannel :: string
  cr_token :: "string option"
  cr_tokenHash :: "string option"
  cr_maxUses :: rat
  cr_useCount :: nat
  cr_expiresAt :: rat
  cr_status :: invite_status
  cr_note :: "string option"
  cr_expectedExternalUserId :: "string option"
  cr_voiceCode :: "string option"
  cr_voiceCodeDigits :: "nat option"
  cr_friendName :: "string option"
  cr_guardianName :: "string option"
  cr_inviteCode :: "string option"
  cr_createdAt :: int

datatype create_error = A2aNotGateway | UnknownContact string | CallerRequired | CallerNotE164 | InviteNotRecorded

definition new_invite ::
  "(string \<Rightarrow> string) \<Rightarrow> string \<Rightarrow> string \<Rightarrow> string \<Rightarrow> create_input \<Rightarrow> contact_row \<Rightarrow> int \<Rightarrow> invite_row" where
  "new_invite hash uuid rawToken code p c now =
     (let isVoice = (ci_sourceChannel p = ''phone'')
      in \<lparr>iv_id = uuid, iv_sourceChannel = ci_sourceChannel p, iv_voiceCodeDigits = (if isVoice then Some 6 else None),
          iv_expectedExternalUserId = (if isVoice then ci_expectedExternalUserId p else None),
          iv_friendName = (if isVoice then non_empty (Some (js_trim (ct_displayName c))) else None),
          iv_guardianName = ci_guardianName p, iv_sourceConversationId = ci_sourceConversationId p, iv_note = ci_note p,
          iv_maxUses = given (ci_maxUses p) 1, iv_useCount = 0,
          iv_expiresAt = of_int now + given (ci_expiresInMs p) DEFAULT_INVITE_EXPIRY_MS, iv_status = InvActive,
          iv_redeemedByExternalUserId = None, iv_redeemedByExternalChatId = None, iv_redeemedAt = None,
          iv_contactId = ci_contactId p, iv_createdAt = now, iv_updatedAt = now,
          iv_inviteCodeHash = (if isVoice then NO_INVITE_CODE_HASH else hash code),
          iv_tokenHash = (if isVoice then None else Some (hash rawToken)),
          iv_voiceCodeHash = (if isVoice then Some (hash code) else None)\<rparr>)"

definition created_payload :: "string \<Rightarrow> string \<Rightarrow> invite_row \<Rightarrow> create_payload" where
  "created_payload rawToken code r =
     (let isVoice = (iv_sourceChannel r = ''phone'')
      in \<lparr>cr_id = iv_id r, cr_sourceChannel = iv_sourceChannel r, cr_token = (if isVoice then None else non_empty (Some rawToken)),
          cr_tokenHash = non_empty (iv_tokenHash r), cr_maxUses = iv_maxUses r, cr_useCount = iv_useCount r,
          cr_expiresAt = iv_expiresAt r, cr_status = iv_status r, cr_note = non_empty (iv_note r),
          cr_expectedExternalUserId = non_empty (iv_expectedExternalUserId r), cr_voiceCode = (if isVoice then Some code else None),
          cr_voiceCodeDigits = iv_voiceCodeDigits r, cr_friendName = non_empty (iv_friendName r),
          cr_guardianName = non_empty (iv_guardianName r), cr_inviteCode = (if isVoice then None else Some code),
          cr_createdAt = iv_createdAt r\<rparr>)"

definition createInviteNative ::
  "(string \<Rightarrow> string) \<Rightarrow> string \<Rightarrow> string \<Rightarrow> nat \<Rightarrow> create_input \<Rightarrow> int \<Rightarrow> invite_state \<Rightarrow> (create_error + create_payload) \<times> invite_state" where
  "createInviteNative hash uuid rawToken draw p now st =
     (if ci_sourceChannel p = ''a2a'' then (Inl A2aNotGateway, st)
      else
        case contact_by_id (ci_contactId p) (is_directory st) of
          None \<Rightarrow> (Inl (UnknownContact (ci_contactId p)), st)
        | Some c \<Rightarrow>
            if ci_sourceChannel p = ''phone'' \<and> non_empty (ci_expectedExternalUserId p) = None then (Inl CallerRequired, st)
            else if ci_sourceChannel p = ''phone'' \<and> \<not> isValidE164 (given (ci_expectedExternalUserId p) []) then (Inl CallerNotE164, st)
            else
              let code = given (generateInviteCode 6 draw) [];
                  r = new_invite hash uuid rawToken code p c now
              in case createInvite r st of
                   None \<Rightarrow> (Inl InviteNotRecorded, st)
                 | Some st1 \<Rightarrow> (Inr (created_payload rawToken code r), st1))"

section \<open>Liveness\<close>

datatype invite_liveness = LiveInvite | TerminalInvite invite_status | JustExpired

definition ensureInviteLive :: "int \<Rightarrow> invite_row \<Rightarrow> invite_row list \<Rightarrow> invite_liveness \<times> invite_row list" where
  "ensureInviteLive now r rows =
     (if iv_status r \<noteq> InvActive then (TerminalInvite (iv_status r), rows)
      else if iv_expiresAt r \<le> of_int now then (JustExpired, markInviteExpired (iv_id r) now rows)
      else (LiveInvite, rows))"

section \<open>Redeeming\<close>

datatype failure_reason = InvalidToken | InviteExpired | InviteRevoked | MaxUsesReached | ChannelMismatch | MissingIdentity

datatype redemption_kind = ResultRedeemed | ResultMember

record redemption_outcome =
  oc_inviteId :: string
  oc_contactId :: string
  oc_sourceChannel :: string
  oc_memberExternalUserId :: string
  oc_memberExternalChatId :: "string option"
  oc_displayName :: "string option"
  oc_username :: "string option"
  oc_sourceConversationId :: "string option"
  oc_result :: redemption_kind

datatype engine_result = EngineDone redemption_outcome | EngineFailed failure_reason | EngineNoMatch

definition no_longer_valid :: string where "no_longer_valid = ''This invite is no longer valid.''"

fun failure_reply :: "failure_reason \<Rightarrow> string" where
  "failure_reply ChannelMismatch = ''This invite is not valid for this channel.''"
| "failure_reply MissingIdentity = ''Unable to process this invite. Please contact the person who shared it.''"
| "failure_reply _ = no_longer_valid"

fun redemption_reply :: "redemption_kind \<Rightarrow> string" where
  "redemption_reply ResultRedeemed = ''Welcome! You've been granted access.''"
| "redemption_reply ResultMember = ''You already have access.''"

fun reasonForStatus :: "invite_status \<Rightarrow> failure_reason" where
  "reasonForStatus InvExpired = InviteExpired"
| "reasonForStatus InvRevoked = InviteRevoked"
| "reasonForStatus InvRedeemed = MaxUsesReached"
| "reasonForStatus InvActive = InvalidToken"

record redeem_params =
  rp_sourceChannel :: string
  rp_externalUserId :: "string option"
  rp_externalChatId :: "string option"
  rp_displayName :: "string option"
  rp_username :: "string option"

text \<open>A claim passes the name the contact is to have; the directory comes later.\<close>

datatype redemption_begun = RedemptionAnswered engine_result | RedemptionClaimed invite_row redeem_params "string option"

definition trimmed_name :: "string option \<Rightarrow> string option" where
  "trimmed_name n = non_empty (map_option js_trim n)"

definition resolveInviteeName :: "contact_db \<Rightarrow> invite_row \<Rightarrow> string option \<Rightarrow> string option" where
  "resolveInviteeName db r fallback =
     (case trimmed_name (map_option ct_displayName (contact_by_id (iv_contactId r) db)) of
        Some n \<Rightarrow> Some n
      | None \<Rightarrow>
          (case trimmed_name (iv_friendName r) of
             Some n \<Rightarrow> Some n
           | None \<Rightarrow> trimmed_name fallback))"

definition canonical_user :: "redeem_params \<Rightarrow> string option" where
  "canonical_user p = map_option (canonical_address (rp_sourceChannel p)) (non_empty (rp_externalUserId p))"

text \<open>A scan that keeps the best of the rows with this chat: the invite's contact counts twice an active status.\<close>

definition chat_score :: "string \<Rightarrow> channel_row \<Rightarrow> nat" where
  "chat_score preferred r = (if cc_contactId r = preferred then 2 else 0) + (if cc_status r = ChActive then 1 else 0)"

definition getGatewayChannelByExternalChatId :: "string \<Rightarrow> string \<Rightarrow> string \<Rightarrow> contact_db \<Rightarrow> channel_row option" where
  "getGatewayChannelByExternalChatId t chat preferred db =
     (case filter (\<lambda>r. cc_type r = t \<and> cc_externalChatId r = Some chat) (channelRows db) of
        [] \<Rightarrow> None
      | r # rs \<Rightarrow> Some (foldl (\<lambda>best x. if chat_score preferred best < chat_score preferred x then x else best) r rs))"

definition existing_member :: "redeem_params \<Rightarrow> invite_row \<Rightarrow> contact_db \<Rightarrow> channel_row option" where
  "existing_member p r db =
     (case canonical_user p of
        Some a \<Rightarrow> find_channel (rp_sourceChannel p) a db
      | None \<Rightarrow>
          (case non_empty (rp_externalChatId p) of
             Some chat \<Rightarrow> getGatewayChannelByExternalChatId (rp_sourceChannel p) chat (iv_contactId r) db
           | None \<Rightarrow> None))"

definition member_outcome :: "redeem_params \<Rightarrow> invite_row \<Rightarrow> channel_row \<Rightarrow> redemption_outcome" where
  "member_outcome p r x =
     \<lparr>oc_inviteId = iv_id r, oc_contactId = cc_contactId x, oc_sourceChannel = rp_sourceChannel p,
      oc_memberExternalUserId = given (canonical_user p) (cc_address x), oc_memberExternalChatId = non_empty (rp_externalChatId p),
      oc_displayName = None, oc_username = None, oc_sourceConversationId = None, oc_result = ResultMember\<rparr>"

definition beginRedemption :: "int \<Rightarrow> invite_row \<Rightarrow> redeem_params \<Rightarrow> invite_state \<Rightarrow> redemption_begun \<times> invite_state" where
  "beginRedemption now r p st =
     (case ensureInviteLive now r (is_rows st) of
        (TerminalInvite s, rows) \<Rightarrow> (RedemptionAnswered (EngineFailed (reasonForStatus s)), st\<lparr>is_rows := rows\<rparr>)
      | (JustExpired, rows) \<Rightarrow> (RedemptionAnswered (EngineFailed InviteExpired), st\<lparr>is_rows := rows\<rparr>)
      | (LiveInvite, _) \<Rightarrow>
          if iv_maxUses r \<le> of_nat (iv_useCount r) then (RedemptionAnswered (EngineFailed MaxUsesReached), st)
          else if iv_sourceChannel r \<noteq> rp_sourceChannel p then (RedemptionAnswered (EngineFailed ChannelMismatch), st)
          else
            let claim = (case recordInviteRedemption (iv_id r) (rp_externalUserId p) (rp_externalChatId p) now (is_rows st) of
                  (updated, rows) \<Rightarrow>
                    if updated
                    then (RedemptionClaimed r p (resolveInviteeName (is_directory st) r (rp_displayName p)), st\<lparr>is_rows := rows\<rparr>)
                    else (RedemptionAnswered (EngineFailed InvalidToken), st))
            in case existing_member p r (is_directory st) of
                 None \<Rightarrow> claim
               | Some x \<Rightarrow>
                   if cc_status x = ChActive \<and> cc_contactId x = iv_contactId r
                   then (RedemptionAnswered (EngineDone (member_outcome p r x)), st)
                   else if cc_status x = ChBlocked then (RedemptionAnswered (EngineFailed InvalidToken), st)
                   else claim)"

definition has_identity :: "redeem_params \<Rightarrow> bool" where
  "has_identity p = (non_empty (rp_externalUserId p) \<noteq> None \<or> non_empty (rp_externalChatId p) \<noteq> None)"

definition beginByCode :: "(string \<Rightarrow> string) \<Rightarrow> int \<Rightarrow> string \<Rightarrow> redeem_params \<Rightarrow> invite_state \<Rightarrow> redemption_begun \<times> invite_state" where
  "beginByCode hash now code p st =
     (if \<not> has_identity p then (RedemptionAnswered (EngineFailed MissingIdentity), st)
      else
        case findInviteByCodeHash (hash code) (rp_sourceChannel p) (is_rows st) of
          Some r \<Rightarrow> beginRedemption now r p st
        | None \<Rightarrow>
            (RedemptionAnswered
               (if findInviteByCodeHashAnyChannel now (hash code) (is_rows st) \<noteq> None then EngineFailed ChannelMismatch else EngineNoMatch), st))"

definition beginByToken :: "(string \<Rightarrow> string) \<Rightarrow> int \<Rightarrow> string \<Rightarrow> redeem_params \<Rightarrow> invite_state \<Rightarrow> redemption_begun \<times> invite_state" where
  "beginByToken hash now token p st =
     (if \<not> has_identity p then (RedemptionAnswered (EngineFailed MissingIdentity), st)
      else
        case findInviteByTokenHash (hash token) (is_rows st) of
          Some r \<Rightarrow> beginRedemption now r p st
        | None \<Rightarrow> (RedemptionAnswered (EngineFailed InvalidToken), st))"

section \<open>Spoken codes\<close>

definition sweepExpiredVoiceInvites :: "invite_row list \<Rightarrow> int \<Rightarrow> invite_row list \<Rightarrow> invite_row list" where
  "sweepExpiredVoiceInvites pending now rows = foldl (\<lambda>rows r. snd (ensureInviteLive now r rows)) rows pending"

record voice_prompt =
  vq_inviteId :: string
  vq_inviteeName :: "string option"
  vq_guardianName :: "string option"
  vq_codeDigits :: nat

definition getActiveVoiceInviteForCaller :: "int \<Rightarrow> string \<Rightarrow> invite_state \<Rightarrow> voice_prompt option \<times> invite_state" where
  "getActiveVoiceInviteForCaller now caller st =
     (let pending = findActiveVoiceInvites caller (is_rows st)
      in (map_option
            (\<lambda>r. \<lparr>vq_inviteId = iv_id r, vq_inviteeName = resolveInviteeName (is_directory st) r None,
                   vq_guardianName = trimmed_name (iv_guardianName r), vq_codeDigits = given (iv_voiceCodeDigits r) 6\<rparr>)
            (find (\<lambda>r. of_int now < iv_expiresAt r) pending),
          st\<lparr>is_rows := sweepExpiredVoiceInvites pending now (is_rows st)\<rparr>))"

definition caller_params :: "string \<Rightarrow> redeem_params" where
  "caller_params caller =
     \<lparr>rp_sourceChannel = ''phone'', rp_externalUserId = Some caller, rp_externalChatId = Some caller, rp_displayName = None, rp_username = None\<rparr>"

text \<open>\<open>None\<close> is the one failure a caller hears, whatever its reason.\<close>

definition beginVoice :: "(string \<Rightarrow> string) \<Rightarrow> int \<Rightarrow> string \<Rightarrow> string \<Rightarrow> invite_state \<Rightarrow> redemption_begun option \<times> invite_state" where
  "beginVoice hash now caller code st =
     (if caller = [] then (None, st)
      else
        let pending = findActiveVoiceInvites caller (is_rows st)
        in case find (\<lambda>r. iv_voiceCodeHash r = Some (hash code) \<and> of_int now < iv_expiresAt r \<and> of_nat (iv_useCount r) < iv_maxUses r) pending of
             None \<Rightarrow> (None, st\<lparr>is_rows := sweepExpiredVoiceInvites pending now (is_rows st)\<rparr>)
           | Some r \<Rightarrow> map_prod Some id (beginRedemption now r (caller_params caller) st))"

definition voice_answer :: "engine_result \<Rightarrow> redemption_outcome option" where
  "voice_answer e = (case e of EngineDone out \<Rightarrow> Some out | _ \<Rightarrow> None)"

section \<open>What a claim writes to the directory\<close>

record bind_env =
  be_contactUuid :: string
  be_channelUuid :: string
  be_lookup :: "(string \<times> string) option option"
  be_mirrored :: bool
  be_eligible :: bool
  be_vetoed :: bool
  be_now :: int

definition redeem_address :: "redeem_params \<Rightarrow> string" where
  "redeem_address p = given (rp_externalUserId p) (given (rp_externalChatId p) [])"

definition invite_params :: "invite_row \<Rightarrow> redeem_params \<Rightarrow> string option \<Rightarrow> verified_params" where
  "invite_params r p name =
     \<lparr>vp_sourceChannel = rp_sourceChannel p, vp_externalUserId = redeem_address p,
      vp_externalChatId = given (rp_externalChatId p) (redeem_address p), vp_displayName = name, vp_username = rp_username p,
      vp_verifiedVia = Some ''invite'', vp_contactId = Some (iv_contactId r), vp_allowRevokedReactivation = True\<rparr>"

definition redeemed_outcome :: "invite_row \<Rightarrow> redeem_params \<Rightarrow> string option \<Rightarrow> redemption_outcome" where
  "redeemed_outcome r p name =
     \<lparr>oc_inviteId = iv_id r, oc_contactId = iv_contactId r, oc_sourceChannel = rp_sourceChannel p,
      oc_memberExternalUserId = given (canonical_user p) (redeem_address p), oc_memberExternalChatId = non_empty (rp_externalChatId p),
      oc_displayName = non_empty name, oc_username = non_empty (rp_username p),
      oc_sourceConversationId = non_empty (iv_sourceConversationId r), oc_result = ResultRedeemed\<rparr>"

definition bindRedemption :: "bind_env \<Rightarrow> invite_row \<Rightarrow> redeem_params \<Rightarrow> string option \<Rightarrow> contact_db \<Rightarrow> engine_result \<times> contact_db" where
  "bindRedemption e r p name db =
     (case upsertVerifiedContactChannel (be_contactUuid e) (be_channelUuid e) (be_lookup e) (be_mirrored e) (be_eligible e) (be_vetoed e)
             True (invite_params r p name) (be_now e) db of
        (verified, db1) \<Rightarrow> (if verified = Some True then EngineDone (redeemed_outcome r p name) else EngineFailed InvalidToken, db1))"

text \<open>A table and a directory that has lost some contacts.\<close>

definition with_directory :: "contact_db \<Rightarrow> invite_state \<Rightarrow> invite_state" where
  "with_directory db st =
     \<lparr>is_rows = filter (\<lambda>r. iv_contactId r \<in> set (inviteContactIds db)) (is_rows st), is_directory = db\<rparr>"

text \<open>A redemption nothing comes between.\<close>

definition finishRedemption :: "bind_env \<Rightarrow> redemption_begun \<times> invite_state \<Rightarrow> engine_result \<times> invite_state" where
  "finishRedemption e begun =
     (case begun of
        (RedemptionAnswered res, st) \<Rightarrow> (res, st)
      | (RedemptionClaimed r p name, st) \<Rightarrow>
          (case bindRedemption e r p name (is_directory st) of (res, db) \<Rightarrow> (res, with_directory db st)))"

section \<open>The intercept of messages\<close>

definition INVITE_CODE_REDEMPTION_CHANNELS :: "string list" where
  "INVITE_CODE_REDEMPTION_CHANNELS = [''telegram'', ''whatsapp'', ''slack'', ''email'', ''discord'']"

definition isInviteCodeRedemptionEnabled :: "string \<Rightarrow> bool" where
  "isInviteCodeRedemptionEnabled channelType = (channelType \<in> set INVITE_CODE_REDEMPTION_CHANNELS)"

definition INVITE_TOKEN_PREFIX :: string where "INVITE_TOKEN_PREFIX = ''iv_''"

definition without_prefix :: "string \<Rightarrow> string \<Rightarrow> string option" where
  "without_prefix pre s = (if starts_with pre s then Some (drop (length pre) s) else None)"

text \<open>A command is its type and its payload. The pattern of the fallback is \<open>^\/start\s+iv_(\S+)\<close>.\<close>

definition start_token :: "string \<Rightarrow> string option" where
  "start_token content =
     (case without_prefix ''/start'' content of
        Some (c # rest) \<Rightarrow>
          if \<not> js_space c then None
          else map_option (takeWhile (\<lambda>c. \<not> js_space c)) (without_prefix INVITE_TOKEN_PREFIX (dropWhile js_space rest))
      | _ \<Rightarrow> None)"

definition extractInviteToken :: "(string \<times> string option) option \<Rightarrow> string \<Rightarrow> string option" where
  "extractInviteToken command content =
     (if map_option fst command = Some ''start''
      then (case Option.bind (Option.bind command snd) (without_prefix INVITE_TOKEN_PREFIX) of
              Some token \<Rightarrow> if js_trim token \<noteq> [] then Some token else None
            | None \<Rightarrow> None)
      else non_empty (start_token content))"

definition invite_code :: "string \<Rightarrow> bool" where
  "invite_code s = (length s = 6 \<and> list_all ascii_digit s)"

record invite_message =
  im_channel :: string
  im_content :: string
  im_command :: "(string \<times> string option) option"
  im_actor :: "string option"
  im_chat :: string
  im_displayName :: "string option"
  im_username :: "string option"

definition message_params :: "invite_message \<Rightarrow> redeem_params" where
  "message_params m =
     \<lparr>rp_sourceChannel = im_channel m, rp_externalUserId = im_actor m, rp_externalChatId = Some (im_chat m),
      rp_displayName = im_displayName m, rp_username = im_username m\<rparr>"

text \<open>What a message may redeem: a token (\<open>Inl\<close>) or a code.\<close>

definition invite_attempt :: "invite_message \<Rightarrow> (string + string) option" where
  "invite_attempt m =
     (let content = js_trim (if im_channel m = ''email'' then extractEmailReplyBody (im_content m) else im_content m)
      in case extractInviteToken (im_command m) content of
           Some token \<Rightarrow> Some (Inl token)
         | None \<Rightarrow> if invite_code content then Some (Inr content) else None)"

definition redeeming_stranger :: "trust_verdict option \<Rightarrow> bool" where
  "redeeming_stranger verdict =
     (case verdict of
        None \<Rightarrow> False
      | Some v \<Rightarrow> \<not> tv_failed v \<and> tv_class v \<in> {''unknown'', ''unverified_contact''})"

text \<open>\<open>None\<close>: the message is not intercepted.\<close>

definition beginIntercept ::
  "(string \<Rightarrow> string) \<Rightarrow> int \<Rightarrow> trust_verdict option \<Rightarrow> invite_message \<Rightarrow> invite_state \<Rightarrow> redemption_begun option \<times> invite_state" where
  "beginIntercept hash now verdict m st =
     (if \<not> isInviteCodeRedemptionEnabled (im_channel m) then (None, st)
      else
        case invite_attempt m of
          None \<Rightarrow> (None, st)
        | Some attempt \<Rightarrow>
            if \<not> redeeming_stranger verdict then (None, st)
            else map_prod Some id
              (case attempt of
                 Inl token \<Rightarrow> beginByToken hash now token (message_params m) st
               | Inr code \<Rightarrow> beginByCode hash now code (message_params m) st))"

datatype intercept_result = InviteForwarded | InviteAnswered bool string

definition intercept_answer :: "engine_result \<Rightarrow> intercept_result" where
  "intercept_answer e =
     (case e of
        EngineNoMatch \<Rightarrow> InviteForwarded
      | EngineFailed reason \<Rightarrow> InviteAnswered False (failure_reply reason)
      | EngineDone out \<Rightarrow> InviteAnswered True (redemption_reply (oc_result out)))"

text \<open>The stage of \<^verbatim>\<open>handleInbound\<close>: whether the message carries text of a user, whether the channel vouches for the sender.\<close>

definition inviteStage ::
  "(string \<Rightarrow> string) \<Rightarrow> int \<Rightarrow> bool \<Rightarrow> bool option \<Rightarrow> trust_verdict option \<Rightarrow> invite_message \<Rightarrow> invite_state \<Rightarrow>
     redemption_begun option \<times> invite_state" where
  "inviteStage hash now carriesUserText senderAuthenticated verdict m st =
     (if carriesUserText \<and> senderAuthenticated \<noteq> Some False then beginIntercept hash now verdict m st else (None, st))"

section \<open>The routes\<close>

datatype redeem_input = VoiceRedeem string string | TokenRedeem string redeem_params

datatype body_issue = VoiceFieldsRequired | TokenRequired | ChannelRequired | OtherIssue

definition string_min :: "string \<Rightarrow> json \<Rightarrow> string option" where
  "string_min k body = (case json_field body k of Some (JStr s) \<Rightarrow> non_empty (Some s) | _ \<Rightarrow> None)"

definition trimmed_min :: "string \<Rightarrow> json \<Rightarrow> string option" where
  "trimmed_min k body = (case json_field body k of Some (JStr s) \<Rightarrow> trimmed_name (Some s) | _ \<Rightarrow> None)"

text \<open>An optional string: \<open>None\<close> is an issue.\<close>

definition optional_string :: "string \<Rightarrow> json \<Rightarrow> string option option" where
  "optional_string k body = (case json_field body k of None \<Rightarrow> Some None | Some (JStr s) \<Rightarrow> Some (Some s) | _ \<Rightarrow> None)"

definition optional_positive :: "string \<Rightarrow> json \<Rightarrow> rat option option" where
  "optional_positive k body =
     (case json_field body k of None \<Rightarrow> Some None | Some (JNum n) \<Rightarrow> if 0 < n then Some (Some (of_int n)) else None | _ \<Rightarrow> None)"

definition parseCreateInviteBody :: "json \<Rightarrow> create_input option" where
  "parseCreateInviteBody raw =
     (let body = (if raw = JNull then JObj [] else raw)
      in case (trimmed_min ''contactId'' body, trimmed_min ''sourceChannel'' body, optional_string ''note'' body,
               optional_positive ''maxUses'' body, optional_positive ''expiresInMs'' body,
               optional_string ''expectedExternalUserId'' body, optional_string ''guardianName'' body,
               optional_string ''sourceConversationId'' body) of
           (Some c, Some ch, Some n, Some mu, Some ex, Some caller, Some g, Some conv) \<Rightarrow>
             Some \<lparr>ci_contactId = c, ci_sourceChannel = ch, ci_note = n, ci_maxUses = mu, ci_expiresInMs = ex,
                   ci_expectedExternalUserId = caller, ci_guardianName = g, ci_sourceConversationId = conv\<rparr>
         | _ \<Rightarrow> None)"

definition is_object :: "json \<Rightarrow> bool" where
  "is_object j = (case j of JObj _ \<Rightarrow> True | _ \<Rightarrow> False)"

definition parseRedeemInviteBody :: "json \<Rightarrow> body_issue + redeem_input" where
  "parseRedeemInviteBody raw =
     (let body = (if raw = JNull then JObj [] else raw)
      in if json_field body ''code'' \<notin> {None, Some JNull}
         then (case (string_min ''callerExternalUserId'' body, string_min ''code'' body) of
                 (Some caller, Some code) \<Rightarrow> Inr (VoiceRedeem caller code)
               | _ \<Rightarrow> Inl VoiceFieldsRequired)
         else if \<not> is_object body then Inl OtherIssue
         else
           case string_min ''token'' body of
             None \<Rightarrow> Inl TokenRequired
           | Some token \<Rightarrow>
               case trimmed_min ''sourceChannel'' body of
                 None \<Rightarrow> Inl ChannelRequired
               | Some ch \<Rightarrow>
                   case (optional_string ''externalUserId'' body, optional_string ''externalChatId'' body,
                         optional_string ''displayName'' body, optional_string ''username'' body) of
                     (Some user, Some chat, Some name, Some uname) \<Rightarrow>
                       Inr (TokenRedeem token \<lparr>rp_sourceChannel = ch, rp_externalUserId = user, rp_externalChatId = chat,
                                               rp_displayName = name, rp_username = uname\<rparr>)
                   | _ \<Rightarrow> Inl OtherIssue)"

datatype redeem_begun = VoiceBegun "redemption_begun option" | TokenBegun redemption_begun

definition beginRedeemNative :: "(string \<Rightarrow> string) \<Rightarrow> int \<Rightarrow> redeem_input \<Rightarrow> invite_state \<Rightarrow> redeem_begun \<times> invite_state" where
  "beginRedeemNative hash now input st =
     (case input of
        VoiceRedeem caller code \<Rightarrow> map_prod VoiceBegun id (beginVoice hash now caller code st)
      | TokenRedeem token p \<Rightarrow> map_prod TokenBegun id (beginByToken hash now token p st))"

datatype native_redeem = VoiceRedeemed redemption_kind string "string option" | TokenRedeemed invite_public redemption_kind

datatype native_failure = VoiceRefused | TokenRefused failure_reason | InviteGone

definition voice_native :: "redemption_outcome option \<Rightarrow> native_failure + native_redeem" where
  "voice_native answer =
     (case answer of
        None \<Rightarrow> Inl VoiceRefused
      | Some out \<Rightarrow>
          Inr (VoiceRedeemed (oc_result out) (oc_contactId out) (if oc_result out = ResultRedeemed then Some (oc_inviteId out) else None)))"

definition token_native :: "engine_result \<Rightarrow> invite_row list \<Rightarrow> native_failure + native_redeem" where
  "token_native e rows =
     (case e of
        EngineNoMatch \<Rightarrow> Inl (TokenRefused InvalidToken)
      | EngineFailed reason \<Rightarrow> Inl (TokenRefused reason)
      | EngineDone out \<Rightarrow>
          (case getInviteById (oc_inviteId out) rows of
             None \<Rightarrow> Inl InviteGone
           | Some r \<Rightarrow> Inr (TokenRedeemed (sanitizeInviteRow r) (oc_result out))))"

definition listInvitesNative :: "string option \<Rightarrow> string option \<Rightarrow> invite_row list \<Rightarrow> invite_public list" where
  "listInvitesNative sourceChannel status rows = map sanitizeInviteRow (listInvites sourceChannel status None None None rows)"

definition revokeInviteNative :: "string \<Rightarrow> int \<Rightarrow> invite_state \<Rightarrow> invite_public option \<times> invite_state" where
  "revokeInviteNative i now st =
     (case revokeInvite i now (is_rows st) of (r, rows) \<Rightarrow> (map_option sanitizeInviteRow r, st\<lparr>is_rows := rows\<rparr>))"

datatype call_refusal = CallInviteUnknown | CallExpired | CallNotActive | CallNotPhone | CallWithoutNumber

record call_fields =
  cf_phoneNumber :: string
  cf_friendName :: "string option"
  cf_guardianName :: "string option"

text \<open>What the daemon is asked to dial.\<close>

definition triggerInviteCallNative :: "int \<Rightarrow> string \<Rightarrow> invite_state \<Rightarrow> (call_refusal + call_fields) \<times> invite_state" where
  "triggerInviteCallNative now i st =
     (case getInviteById i (is_rows st) of
        None \<Rightarrow> (Inl CallInviteUnknown, st)
      | Some r \<Rightarrow>
          (case ensureInviteLive now r (is_rows st) of
             (TerminalInvite _, rows) \<Rightarrow> (Inl CallNotActive, st\<lparr>is_rows := rows\<rparr>)
           | (JustExpired, rows) \<Rightarrow> (Inl CallExpired, st\<lparr>is_rows := rows\<rparr>)
           | (LiveInvite, _) \<Rightarrow>
               if iv_sourceChannel r \<noteq> ''phone'' then (Inl CallNotPhone, st)
               else
                 case non_empty (iv_expectedExternalUserId r) of
                   None \<Rightarrow> (Inl CallWithoutNumber, st)
                 | Some n \<Rightarrow>
                     (Inr \<lparr>cf_phoneNumber = n, cf_friendName = resolveInviteeName (is_directory st) r None,
                           cf_guardianName = iv_guardianName r\<rparr>, st)))"

section \<open>Everything that writes an invite, in any order\<close>

text \<open>\<open>claim\<close> and \<open>refuse\<close> are the requests as they run here, lookup and claim in one section; the two
  \<open>stale\<close> steps go on with an arbitrary row, as a redeemer that read it before others wrote would.\<close>

datatype redeem_request = CodeRequest string redeem_params | LinkRequest string redeem_params | VoiceRequest string string

definition begin_request :: "(string \<Rightarrow> string) \<Rightarrow> int \<Rightarrow> redeem_request \<Rightarrow> invite_state \<Rightarrow> redemption_begun option \<times> invite_state" where
  "begin_request hash now req st =
     (case req of
        CodeRequest code p \<Rightarrow> map_prod Some id (beginByCode hash now code p st)
      | LinkRequest token p \<Rightarrow> map_prod Some id (beginByToken hash now token p st)
      | VoiceRequest caller code \<Rightarrow> beginVoice hash now caller code st)"

text \<open>What the schema of the body ensures.\<close>

definition valid_input :: "create_input \<Rightarrow> bool" where
  "valid_input p = (0 < given (ci_maxUses p) 1)"

datatype invite_event = EvCreated string | EvClaimed string | EvOther

inductive invite_step :: "bool \<Rightarrow> invite_event \<Rightarrow> invite_state \<Rightarrow> invite_state \<Rightarrow> bool" where
  mint: "valid_input p \<Longrightarrow> createInviteNative hash uuid rawToken draw p now st = (Inr payload, st') \<Longrightarrow>
    invite_step g (EvCreated uuid) st st'"
| claim: "begin_request hash now req st = (Some (RedemptionClaimed r p name), st') \<Longrightarrow> invite_step g (EvClaimed (iv_id r)) st st'"
| refuse: "begin_request hash now req st = (begun, st') \<Longrightarrow> \<forall>r p name. begun \<noteq> Some (RedemptionClaimed r p name) \<Longrightarrow>
    invite_step g EvOther st st'"
| stale_claim: "beginRedemption now r p st = (RedemptionClaimed r' p' name, st') \<Longrightarrow> invite_step g (EvClaimed (iv_id r')) st st'"
| stale_refuse: "beginRedemption now r p st = (RedemptionAnswered res, st') \<Longrightarrow> invite_step g EvOther st st'"
| bind: "verified_ids (be_channelUuid e) (be_lookup e) (invite_params r p name) (is_directory st) \<Longrightarrow>
    bindRedemption e r p name (is_directory st) = (res, db) \<Longrightarrow> invite_step g EvOther st (with_directory db st)"
| prompt: "getActiveVoiceInviteForCaller now caller st = (shown, st') \<Longrightarrow> invite_step g EvOther st st'"
| call: "triggerInviteCallNative now i st = (dialled, st') \<Longrightarrow> invite_step g EvOther st st'"
| revoke: "revokeInviteNative i now st = (shown, st') \<Longrightarrow> invite_step g EvOther st st'"
| directory: "dir_step g (is_directory st) db \<Longrightarrow> invite_step g EvOther st (with_directory db st)"

inductive invite_run :: "bool \<Rightarrow> invite_event list \<Rightarrow> invite_state \<Rightarrow> invite_state \<Rightarrow> bool" where
  stop: "invite_run g [] st st"
| step: "invite_step g e st st1 \<Longrightarrow> invite_run g es st1 st2 \<Longrightarrow> invite_run g (e # es) st st2"

section \<open>What is left of an invite\<close>

definition uses_left :: "invite_row \<Rightarrow> nat" where
  "uses_left r = (if iv_status r = InvActive then nat \<lceil>iv_maxUses r\<rceil> - iv_useCount r else 0)"

definition uses_remaining :: "string \<Rightarrow> invite_row list \<Rightarrow> nat" where
  "uses_remaining i rows = (case getInviteById i rows of None \<Rightarrow> 0 | Some r \<Rightarrow> uses_left r)"

definition invites_ok :: "invite_row list \<Rightarrow> bool" where
  "invites_ok rows \<longleftrightarrow>
     distinct (map iv_id rows) \<and> (\<forall>r \<in> set rows. iv_status r = InvActive \<longrightarrow> of_nat (iv_useCount r) < iv_maxUses r)"

definition event_cost :: "string \<Rightarrow> invite_event \<Rightarrow> nat" where
  "event_cost i e = (if e = EvClaimed i then 1 else 0)"

text \<open>An update of the active row of an identifier.\<close>

lemma update_rows:
  assumes "invites_ok rows" "\<And>r. iv_id (f r) = iv_id r"
    and "\<And>r. active_invite i r \<Longrightarrow> of_nat (iv_useCount r) < iv_maxUses r \<Longrightarrow> iv_status (f r) = InvActive \<Longrightarrow> of_nat (iv_useCount (f r)) < iv_maxUses (f r)"
  shows "invites_ok (update_where (active_invite i) f rows)"
proof -
  have "map iv_id (update_where (active_invite i) f rows) = map iv_id rows" using assms(2) by (simp add: map_update_where)
  with assms show ?thesis by (auto simp: invites_ok_def set_update_where active_invite_def)
qed

lemma find_updated:
  assumes "\<And>r. iv_id (f r) = iv_id r"
  shows "getInviteById j (update_where p f rows) = map_option (\<lambda>r. if p r then f r else r) (getInviteById j rows)"
  using assms unfolding getInviteById_def by (simp add: find_update_where)

lemma retire_rows:
  fixes rows i now status
  defines "rows' \<equiv> update_where (active_invite i) (\<lambda>r. r\<lparr>iv_status := status, iv_updatedAt := now\<rparr>) rows"
  assumes "status \<noteq> InvActive" "invites_ok rows"
  shows "invites_ok rows'" "uses_remaining j rows' \<le> uses_remaining j rows"
  using assms update_rows [OF assms(3), of "\<lambda>r. r\<lparr>iv_status := status, iv_updatedAt := now\<rparr>" i]
  by (auto simp: uses_remaining_def find_updated uses_left_def rows'_def split: option.split)

lemma live_rows:
  assumes "invites_ok rows"
  shows "invites_ok (snd (ensureInviteLive now r rows)) \<and> uses_remaining j (snd (ensureInviteLive now r rows)) \<le> uses_remaining j rows"
  using assms by (simp add: ensureInviteLive_def markInviteExpired_def retire_rows)

lemma sweep_rows:
  "invites_ok rows \<Longrightarrow> invites_ok (sweepExpiredVoiceInvites pending now rows) \<and>
     uses_remaining j (sweepExpiredVoiceInvites pending now rows) \<le> uses_remaining j rows"
  unfolding sweepExpiredVoiceInvites_def
proof (induction pending arbitrary: rows)
  case (Cons r pending)
  from live_rows [OF Cons.prems, of now r j] Cons.IH [of "snd (ensureInviteLive now r rows)"] show ?case by auto
qed simp

lemma claimed_rows:
  assumes ok: "invites_ok rows" and claim: "recordInviteRedemption i user chat now rows = (True, rows')"
  shows "invites_ok rows'" "uses_remaining j rows' + event_cost j (EvClaimed i) \<le> uses_remaining j rows"
proof -
  let ?f = "claim_set user chat now"
  have rows': "rows' = update_where (active_invite i) ?f rows" and "list_ex (active_invite i) rows"
    using claim by (auto simp: recordInviteRedemption_def)
  then obtain r where r: "r \<in> set rows" "iv_id r = i" "iv_status r = InvActive" by (auto simp: list_ex_iff active_invite_def)
  have found: "getInviteById i rows = Some r"
    using ok r unfolding getInviteById_def by (intro find_unique) (auto simp: invites_ok_def distinct_map inj_on_def)
  have "of_nat (iv_useCount r) < iv_maxUses r" using ok r by (auto simp: invites_ok_def)
  then have less: "iv_useCount r < nat \<lceil>iv_maxUses r\<rceil>" by linarith
  have f: "iv_id (?f x) = iv_id x" "iv_maxUses (?f x) = iv_maxUses x" for x by (simp_all add: claim_set_def)
  show "invites_ok rows'" unfolding rows'
    by (rule update_rows [OF ok f(1)]) (auto simp: claim_set_def split: if_splits)
  show "uses_remaining j rows' + event_cost j (EvClaimed i) \<le> uses_remaining j rows"
  proof (cases "j = i")
    case True
    have "uses_left (?f r) + 1 \<le> uses_left r" using less r(3) by (auto simp: uses_left_def claim_set_def)
    with found r show ?thesis by (simp add: True rows' uses_remaining_def find_updated f active_invite_def event_cost_def)
  next
    case False
    then have "getInviteById j rows = Some x \<Longrightarrow> \<not> active_invite i x" for x
      by (auto simp: getInviteById_def active_invite_def dest: find_someD)
    with False show ?thesis
      by (auto simp: rows' uses_remaining_def find_updated f event_cost_def split: option.split)
  qed
qed

text \<open>What the first section of a redemption keeps, and what a claim costs.\<close>

definition request_kept :: "string \<Rightarrow> invite_state \<Rightarrow> redemption_begun option \<times> invite_state \<Rightarrow> bool" where
  "request_kept j st res \<longleftrightarrow>
     (case res of (begun, st') \<Rightarrow>
        is_directory st' = is_directory st \<and> invites_ok (is_rows st') \<and>
        uses_remaining j (is_rows st') + (case begun of Some (RedemptionClaimed r _ _) \<Rightarrow> event_cost j (EvClaimed (iv_id r)) | _ \<Rightarrow> 0)
          \<le> uses_remaining j (is_rows st))"

lemma answered_kept:
  "invites_ok rows \<Longrightarrow> uses_remaining j rows \<le> uses_remaining j (is_rows st) \<Longrightarrow>
     request_kept j st (Some (RedemptionAnswered res), st\<lparr>is_rows := rows\<rparr>)"
  by (simp add: request_kept_def)

lemma unchanged_kept: "invites_ok (is_rows st) \<Longrightarrow> request_kept j st (Some (RedemptionAnswered res), st)"
  by (simp add: request_kept_def)

lemma begin_redemption_kept:
  assumes ok: "invites_ok (is_rows st)"
  shows "request_kept j st (map_prod Some id (beginRedemption now r p st))"
proof (cases "ensureInviteLive now r (is_rows st)")
  case (Pair live rows)
  with live_rows [OF ok, of now r j] have rows: "invites_ok rows" "uses_remaining j rows \<le> uses_remaining j (is_rows st)" by auto
  obtain updated rows' where claim: "recordInviteRedemption (iv_id r) (rp_externalUserId p) (rp_externalChatId p) now (is_rows st) = (updated, rows')"
    by (cases "recordInviteRedemption (iv_id r) (rp_externalUserId p) (rp_externalChatId p) now (is_rows st)")
  then have claimed: "updated \<Longrightarrow> request_kept j st (Some (RedemptionClaimed r p name), st\<lparr>is_rows := rows'\<rparr>)" for name
    using claimed_rows [OF ok] by (auto simp: request_kept_def)
  note kept = answered_kept [OF rows] unchanged_kept [OF ok]
  show ?thesis
    using kept claimed unfolding beginRedemption_def Pair claim Let_def
    by (cases live) (simp_all split: option.split)
qed

lemma begin_request_kept:
  assumes ok: "invites_ok (is_rows st)"
  shows "request_kept j st (begin_request hash now req st)"
proof (cases req)
  case (VoiceRequest caller code)
  have "request_kept j st (None, st)" "request_kept j st (None, st\<lparr>is_rows := sweepExpiredVoiceInvites pending now (is_rows st)\<rparr>)" for pending
    using ok sweep_rows [OF ok, of pending now j] by (simp_all add: request_kept_def)
  then show ?thesis
    by (simp add: VoiceRequest begin_request_def beginVoice_def Let_def begin_redemption_kept ok split: option.split)
qed (simp_all add: begin_request_def beginByCode_def beginByToken_def unchanged_kept begin_redemption_kept ok split: option.split)

lemma begin_request_rows:
  assumes "invites_ok (is_rows st)" "begin_request hash now req st = (begun, st')"
  shows "is_directory st' = is_directory st \<and> invites_ok (is_rows st') \<and>
    uses_remaining j (is_rows st') + (case begun of Some (RedemptionClaimed r' _ _) \<Rightarrow> event_cost j (EvClaimed (iv_id r')) | _ \<Rightarrow> 0)
      \<le> uses_remaining j (is_rows st)"
  using begin_request_kept [OF assms(1), of j hash now req] by (simp add: assms(2) request_kept_def)

lemma find_filter_key:
  "distinct (map k rows) \<Longrightarrow> find (\<lambda>r. k r = i) (filter q rows) = (case find (\<lambda>r. k r = i) rows of None \<Rightarrow> None | Some r \<Rightarrow> if q r then Some r else None)"
proof (induction rows)
  case (Cons a rows)
  have "find (\<lambda>r. k r = i) rows = None" if "k a = i" using Cons.prems that by (simp add: find_None_iff) (metis image_eqI)
  with Cons show ?case by (auto split: option.splits)
qed simp

lemma with_directory_rows:
  assumes "invites_ok (is_rows st)"
  shows "invites_ok (is_rows (with_directory db st)) \<and> uses_remaining j (is_rows (with_directory db st)) \<le> uses_remaining j (is_rows st)"
  using assms unfolding with_directory_def invites_ok_def uses_remaining_def getInviteById_def
  by (auto simp: distinct_map_filter find_filter_key split: option.splits)

lemma call_rows:
  assumes "invites_ok (is_rows st)" "triggerInviteCallNative now i st = (dialled, st')"
  shows "is_directory st' = is_directory st \<and> invites_ok (is_rows st') \<and> uses_remaining j (is_rows st') \<le> uses_remaining j (is_rows st)"
proof (cases "getInviteById i (is_rows st)")
  case (Some r)
  with assms live_rows [OF assms(1), of now r j] show ?thesis
    by (cases "ensureInviteLive now r (is_rows st)")
      (auto simp: triggerInviteCallNative_def split: invite_liveness.splits if_splits option.splits)
qed (use assms in \<open>auto simp: triggerInviteCallNative_def\<close>)

lemma new_invite_fields [simp]:
  "iv_id (new_invite hash uuid rawToken code p c now) = uuid"
  "iv_sourceChannel (new_invite hash uuid rawToken code p c now) = ci_sourceChannel p"
  "iv_useCount (new_invite hash uuid rawToken code p c now) = 0"
  "iv_maxUses (new_invite hash uuid rawToken code p c now) = given (ci_maxUses p) 1"
  "iv_expiresAt (new_invite hash uuid rawToken code p c now) = of_int now + given (ci_expiresInMs p) DEFAULT_INVITE_EXPIRY_MS"
  "iv_status (new_invite hash uuid rawToken code p c now) = InvActive"
  "iv_contactId (new_invite hash uuid rawToken code p c now) = ci_contactId p"
  "iv_inviteCodeHash (new_invite hash uuid rawToken code p c now) = (if ci_sourceChannel p = ''phone'' then NO_INVITE_CODE_HASH else hash code)"
  "iv_tokenHash (new_invite hash uuid rawToken code p c now) = (if ci_sourceChannel p = ''phone'' then None else Some (hash rawToken))"
  by (simp_all add: new_invite_def Let_def)

lemma createInviteNative_cases:
  assumes "createInviteNative hash uuid rawToken draw p now st = (Inr payload, st')"
  obtains c where "contact_by_id (ci_contactId p) (is_directory st) = Some c"
    "createInvite (new_invite hash uuid rawToken (given (generateInviteCode 6 draw) []) p c now) st = Some st'"
    "payload = created_payload rawToken (given (generateInviteCode 6 draw) [])
       (new_invite hash uuid rawToken (given (generateInviteCode 6 draw) []) p c now)"
  using assms by (auto simp: createInviteNative_def Let_def split: if_splits option.splits)

lemma created_expiry: "cr_expiresAt (created_payload rawToken code r) = iv_expiresAt r"
  by (simp add: created_payload_def Let_def)

text \<open>One step: an identifier that is not minted by it loses what it costs.\<close>

lemma invite_step_rows:
  assumes "invite_step g e st st'" "invites_ok (is_rows st)"
  shows "invites_ok (is_rows st') \<and> (e \<noteq> EvCreated j \<longrightarrow> uses_remaining j (is_rows st') + event_cost j e \<le> uses_remaining j (is_rows st))"
  using assms
proof (induction rule: invite_step.induct)
  case (mint p hash uuid rawToken draw now st payload st' g)
  obtain c where c: "createInvite (new_invite hash uuid rawToken (given (generateInviteCode 6 draw) []) p c now) st = Some st'"
    using createInviteNative_cases [OF mint.hyps(2)] by blast
  obtain r where r: "iv_id r = uuid" "iv_useCount r = 0" "0 < iv_maxUses r" "createInvite r st = Some st'"
    using mint.hyps(1) by (intro that [OF _ _ _ c]) (simp_all add: valid_input_def)
  then have "is_rows st' = is_rows st @ [r]" "iv_id r \<notin> iv_id ` set (is_rows st)"
    by (auto simp: createInvite_def list_ex_iff split: if_splits)
  with mint.prems r show ?case
    by (auto simp: invites_ok_def uses_remaining_def getInviteById_def event_cost_def find_append split: option.splits)
next
  case (claim hash now req st r p name st' g)
  from begin_request_rows [OF claim.prems claim.hyps, of j] show ?case by simp
next
  case (refuse hash now req st begun st' g)
  from begin_request_rows [OF refuse.prems refuse.hyps(1), of j] show ?case
    by (auto simp: event_cost_def)
next
  case (stale_claim now r p st r' p' name st' g)
  from begin_redemption_kept [OF stale_claim.prems, of j now r p] stale_claim.hyps show ?case by (simp add: request_kept_def)
next
  case (stale_refuse now r p st res st' g)
  from begin_redemption_kept [OF stale_refuse.prems, of j now r p] stale_refuse.hyps show ?case
    by (simp add: request_kept_def event_cost_def)
next
  case (bind e r p name st res db g)
  then show ?case using with_directory_rows by (simp add: event_cost_def)
next
  case (prompt now caller st shown st' g)
  then show ?case using sweep_rows by (auto simp: getActiveVoiceInviteForCaller_def Let_def event_cost_def)
next
  case (call now i st dialled st' g)
  then show ?case using call_rows [of st now i dialled st' j] by (simp add: event_cost_def)
next
  case (revoke i now st shown st' g)
  then show ?case by (auto simp: revokeInviteNative_def revokeInvite_def Let_def event_cost_def retire_rows)
next
  case (directory g st db)
  then show ?case using with_directory_rows by (simp add: event_cost_def)
qed

text \<open>C31: an invite is never claimed more often than it allows. However redemptions by code, by link and over the phone are
  interleaved with each other, with revocations, expiries, mints of other invites and all writes of the directory, each cut
  at the point where it awaits the daemon, an invite that is there at the start is claimed at most as often as it has uses
  left, none once it is redeemed, revoked or expired. This does not rest on the lookup and the claim being one section: a
  redemption may go on with a row that was read at any earlier time.\<close>

theorem invite_uses_bounded:
  "invite_run g es st st' \<Longrightarrow> invites_ok (is_rows st) \<Longrightarrow> EvCreated i \<notin> set es \<Longrightarrow>
     count_list es (EvClaimed i) \<le> uses_remaining i (is_rows st)"
proof (induction rule: invite_run.induct)
  case (step g e st st1 es st2)
  have "invites_ok (is_rows st1)" "uses_remaining i (is_rows st1) + event_cost i e \<le> uses_remaining i (is_rows st)"
    using invite_step_rows [OF step.hyps(1) step.prems(1), of i] step.prems(2) by auto
  with step show ?case by (auto simp: event_cost_def split: if_splits)
qed simp

section \<open>Redemptions are writes of the directory\<close>

lemma redemption_directory: "is_directory (snd (beginRedemption now r p st)) = is_directory st"
  by (auto simp: beginRedemption_def Let_def split: option.split prod.split invite_liveness.split)

lemma request_directory: "begin_request hash now req st = (begun, st') \<Longrightarrow> is_directory st' = is_directory st"
  by (auto simp: begin_request_def beginByCode_def beginByToken_def beginVoice_def beginRedemption_def Let_def
      split: redeem_request.splits if_splits option.splits prod.splits invite_liveness.splits)

lemma invite_step_directory:
  assumes "invite_step g e st st'"
  shows "(dir_step g)\<^sup>*\<^sup>* (is_directory st) (is_directory st')"
  using assms
proof (induction rule: invite_step.induct)
  case (mint p hash uuid rawToken draw now st payload st' g)
  then show ?case
    by (auto elim!: createInviteNative_cases simp: createInvite_def split: if_splits intro!: r_into_rtranclp dir_step.invite)
next
  case (stale_claim now r p st r' p' name st' g)
  with redemption_directory [of now r p st] show ?case by simp
next
  case (stale_refuse now r p st res st' g)
  with redemption_directory [of now r p st] show ?case by simp
next
  case (bind e r p name st res db g)
  then show ?case
    by (auto simp: bindRedemption_def with_directory_def split: prod.splits intro!: r_into_rtranclp dir_step.verified)
next
  case (call now i st dialled st' g)
  then show ?case
    by (auto simp: triggerInviteCallNative_def split: option.splits prod.splits invite_liveness.splits if_splits)
qed (auto simp: request_directory getActiveVoiceInviteForCaller_def revokeInviteNative_def with_directory_def Let_def split: prod.splits)

lemma invite_run_directory: "invite_run g es st st' \<Longrightarrow> (dir_step g)\<^sup>*\<^sup>* (is_directory st) (is_directory st')"
  by (induction rule: invite_run.induct) (auto dest: invite_step_directory)

section \<open>What a redemption grants\<close>

lemma guardian_contact_ensure [simp]: "guardian_contact c (ensureContactRow i name now db) = guardian_contact c db"
  by (auto simp: guardian_contact_def ensureContactRow_def new_contact_def)

lemma guardian_contact_channels [simp]: "guardian_contact c (db\<lparr>channelRows := rows\<rparr>) = guardian_contact c db"
  by (simp add: guardian_contact_def)

lemma guardian_contact_set [simp]: "guardian_contact c (set_channels p f db) = guardian_contact c db"
  by (simp add: set_channels_def)

lemma guardian_contact_reassign [simp]: "guardian_contact c (snd (reassignChannelOwner t a i name now db)) = guardian_contact c db"
  by (simp add: reassignChannelOwner_def Let_def split: option.split)

lemma guardian_contact_rows:
  "insert_channel r db = Some db' \<Longrightarrow> guardian_contact c db' = guardian_contact c db"
  "update_channels q f db = Some db' \<Longrightarrow> guardian_contact c db' = guardian_contact c db"
  by (auto simp: insert_channel_def dest: update_channels_set split: if_splits)

lemma guardian_contact_write [simp]:
  "guardian_contact c (snd (writeVerifiedGatewayChannel i ct t a e via verifiedAt now allow db)) = guardian_contact c db"
  by (auto simp: writeVerifiedGatewayChannel_def Let_def guardian_contact_rows split: option.split)

lemma guardian_contact_apply:
  assumes "applyVerifiedChannelGatewayWrites cu chu mc p now db = (res, db')"
  shows "guardian_contact c db' = guardian_contact c db"
proof -
  have "guardian_contact c db2 = guardian_contact c db"
    if "writeVerifiedGatewayChannel i ct t a e via verifiedAt now allow (snd move) = (w, db2)" "guardian_contact c (snd move) = guardian_contact c db"
    for i ct t a e via verifiedAt allow w db2 and move :: "string option \<times> contact_db"
    using that guardian_contact_write by (metis snd_conv)
  then show ?thesis
    using assms unfolding applyVerifiedChannelGatewayWrites_def Let_def
    by (auto split: if_splits option.splits prod.splits)
qed

text \<open>Collecting an orphan leaves every contact that has a channel.\<close>

lemma collect_keeps:
  assumes "x \<in> set (channelRows db)"
  shows "contact_by_id (cc_contactId x) (deleteContactIfOrphaned e v i db) = contact_by_id (cc_contactId x) db"
proof -
  have "cc_contactId x \<noteq> i" if "orphaned i db" using assms that by (auto simp: orphaned_def list_ex_iff)
  moreover have "find (\<lambda>c. ct_id c = cc_contactId x) (filter (\<lambda>c. ct_id c \<noteq> i) rows) = find (\<lambda>c. ct_id c = cc_contactId x) rows"
    if "cc_contactId x \<noteq> i" for rows
    using that by (induction rows) auto
  ultimately show ?thesis by (auto simp: deleteContactIfOrphaned_def delete_contact_def contact_by_id_def)
qed

lemma class_of_active_row:
  assumes ok: "directory_ok db" and x: "find_channel t a db = Some x" "cc_status x = ChActive" and a: "a \<noteq> []"
  shows "sender_class t (Some a) db = (if guardian_contact (cc_contactId x) db then ClsGuardian else ClsTrusted)"
proof -
  from x have xin: "x \<in> set (channelRows db)" using find_channelD by blast
  then obtain c where c: "c \<in> set (contactRows db)" "ct_id c = cc_contactId x"
    using ok directory_rowD(3) by (metis has_contact_iff imageE)
  have "guardian_contact (cc_contactId x) db \<longleftrightarrow> ct_role c = RoleGuardian"
    using c ok by (auto simp: guardian_contact_def list_ex_iff directory_ok_def distinct_map inj_on_def)
  moreover have "member_row t (Some a) db = Some (x, c)"
    using x(1) contact_by_id_in [OF ok c(1)] c(2) a by (simp add: member_row_def)
  moreover have "list_ex (\<lambda>y. cc_contactId y = ct_id c \<and> cc_status y = ChActive) (channelRows db)"
    using xin x(2) c(2) by (auto simp: list_ex_iff)
  ultimately show ?thesis using x(2) by (simp add: sender_class_member [OF ok] class_of_member_def)
qed

lemma guardian_by_id:
  "directory_ok db \<Longrightarrow> guardian_contact i db \<longleftrightarrow> (\<exists>c. contact_by_id i db = Some c \<and> ct_role c = RoleGuardian)"
  using contact_by_id_in by (fastforce simp: guardian_contact_def list_ex_iff dest: contact_by_idD)

text \<open>What the daemon's mirror says of the owner, where it says the invite's contact, is so here.\<close>

definition owner_agrees :: "bind_env \<Rightarrow> invite_row \<Rightarrow> string \<Rightarrow> string \<Rightarrow> contact_db \<Rightarrow> bool" where
  "owner_agrees e r t a db =
     (case (given (be_lookup e) None, find_channel t a db) of
        (Some (_, c), Some x) \<Rightarrow> c = iv_contactId r \<longrightarrow> cc_contactId x = c
      | _ \<Rightarrow> True)"

lemma bound_to_invite:
  "owner_agrees e r t a db \<Longrightarrow> iv_contactId r \<noteq> [] \<Longrightarrow>
     bound_owner cu (given (be_lookup e) None) (invite_params r p name) (find_channel t a db) = iv_contactId r"
  by (auto simp: owner_agrees_def bound_owner_def invite_params_def split: option.splits)

lemma redemption_core:
  fixes e r p name db
  defines "t \<equiv> rp_sourceChannel p" and "a \<equiv> canonical_address (rp_sourceChannel p) (redeem_address p)"
  defines "owner \<equiv> bound_owner (be_contactUuid e) (given (be_lookup e) None) (invite_params r p name) (find_channel t a db)"
  assumes ok: "directory_ok db" and ids: "verified_ids (be_channelUuid e) (be_lookup e) (invite_params r p name) db"
    and a: "a \<noteq> []" and free: "gatewayChannelStatus t a db \<noteq> Some ChBlocked"
  shows "\<exists>db' x. bindRedemption e r p name db = (EngineDone (redeemed_outcome r p name), db') \<and> directory_ok db' \<and>
    find_channel t a db' = Some x \<and> cc_status x = ChActive \<and> cc_contactId x = owner \<and>
    sender_class t (Some a) db' = (if guardian_contact owner db then ClsGuardian else ClsTrusted)"
proof -
  let ?vp = "invite_params r p name" and ?mc = "given (be_lookup e) None"
  have vp: "vp_sourceChannel ?vp = t" "canonical_address t (vp_externalUserId ?vp) = a" "vp_allowRevokedReactivation ?vp"
    by (simp_all add: invite_params_def t_def a_def)
  have agrees: "ids_agree (be_channelUuid e) ?mc t a db" using ids by (simp add: verified_ids_def vp)
  have "reactivatable (vp_allowRevokedReactivation ?vp) x" if "find_channel t a db = Some x" for x
    using free that vp(3) by (simp add: gatewayChannelStatus_def reactivatable_def)
  with verified_write_core [of db "be_channelUuid e" ?mc ?vp "be_contactUuid e" "be_now e"] ok agrees obtain plan db1 x where w:
    "applyVerifiedChannelGatewayWrites (be_contactUuid e) (be_channelUuid e) ?mc ?vp (be_now e) db = (Verified plan, db1)"
    "directory_ok db1" "find_channel t a db1 = Some x" "cc_status x = ChActive" "cc_contactId x = owner"
    unfolding vp owner_def by blast
  have xin: "x \<in> set (channelRows db1)" using w(3) find_channelD by blast
  define db2 where "db2 = snd (bindRedemption e r p name db)"
  have db2: "bindRedemption e r p name db = (EngineDone (redeemed_outcome r p name), db2)"
    and "db2 = db1 \<or> (\<exists>el v i. db2 = deleteContactIfOrphaned el v i db1)"
    using w(1) by (auto simp: db2_def bindRedemption_def upsertVerifiedContactChannel_def split: option.split)
  then have keep: "directory_ok db2" "channelRows db2 = channelRows db1" "contact_by_id (cc_contactId x) db2 = contact_by_id (cc_contactId x) db1"
    using w(2) collect_keeps [OF xin] by (auto intro: directory_orphan)
  have found: "find_channel t a db2 = Some x" using w(3) keep(2) by (simp add: find_channel_def)
  have "guardian_contact owner db2 = guardian_contact owner db"
    using guardian_contact_apply [OF w(1)] guardian_by_id [OF w(2)] guardian_by_id [OF keep(1)] keep(3) w(5) by metis
  with class_of_active_row [OF keep(1) found w(4) a] have
    "sender_class t (Some a) db2 = (if guardian_contact owner db then ClsGuardian else ClsTrusted)" using w(5) by simp
  then show ?thesis using db2 found w(4,5) keep(1) by blast
qed

lemma redemption_refused:
  assumes "gatewayChannelStatus (rp_sourceChannel p) (canonical_address (rp_sourceChannel p) (redeem_address p)) db = Some ChBlocked"
  shows "bindRedemption e r p name db = (EngineFailed InvalidToken, db)"
proof -
  let ?vp = "invite_params r p name"
  from assms obtain x where x: "find_channel (rp_sourceChannel p) (canonical_address (rp_sourceChannel p) (redeem_address p)) db = Some x"
    "cc_status x = ChBlocked" by (auto simp: gatewayChannelStatus_def)
  then have "applyVerifiedChannelGatewayWrites cu chu mc ?vp now db = (NotVerified, db)" for cu chu mc now
    by (intro verified_write_refused [where r = x]) (simp_all add: invite_params_def reactivatable_def)
  then show ?thesis by (simp add: bindRedemption_def upsertVerifiedContactChannel_def)
qed

text \<open>What a redemption grants. When the claim reaches the directory, a blocked address is refused and nothing is written;
  every other address becomes active under the contact the invite names, and its sender is from then on a trusted
  contact, or the guardian if the invite names a contact of the guardian. The ids of the caller agree with the tables and
  the mirror's row of the address, where it is the invite's contact's, is so in the directory.\<close>

theorem redemption_grants_contact:
  fixes e r p name db
  defines "t \<equiv> rp_sourceChannel p" and "a \<equiv> canonical_address (rp_sourceChannel p) (redeem_address p)"
  assumes "directory_ok db" "verified_ids (be_channelUuid e) (be_lookup e) (invite_params r p name) db"
    and "owner_agrees e r t a db" "iv_contactId r \<noteq> []" "a \<noteq> []"
  shows "case bindRedemption e r p name db of
      (EngineDone out, db') \<Rightarrow>
        oc_contactId out = iv_contactId r \<and> gatewayChannelStatus t a db \<noteq> Some ChBlocked \<and> directory_ok db' \<and>
        (\<exists>x. find_channel t a db' = Some x \<and> cc_status x = ChActive \<and> cc_contactId x = iv_contactId r) \<and>
        sender_class t (Some a) db' = (if guardian_contact (iv_contactId r) db then ClsGuardian else ClsTrusted)
    | (EngineFailed reason, db') \<Rightarrow> reason = InvalidToken \<and> db' = db \<and> gatewayChannelStatus t a db = Some ChBlocked
    | (EngineNoMatch, db') \<Rightarrow> False"
proof (cases "gatewayChannelStatus t a db = Some ChBlocked")
  case True
  then show ?thesis using redemption_refused [of p db e r name] by (simp add: t_def a_def)
next
  case False
  note core = redemption_core [OF assms(3,4), folded t_def a_def, OF assms(7) False]
  from core show ?thesis
    using False bound_to_invite [OF assms(5,6), of "be_contactUuid e" p name] by (auto simp: redeemed_outcome_def)
qed

text \<open>A mirror that already has the address under the invite's contact, while the directory has it under another: the
  redemption succeeds, the row stays where it is, and a guardian's address is the guardian's again.\<close>

theorem stale_mirror_keeps_owner:
  fixes e r p name db
  defines "t \<equiv> rp_sourceChannel p" and "a \<equiv> canonical_address (rp_sourceChannel p) (redeem_address p)"
  assumes "directory_ok db" "verified_ids (be_channelUuid e) (be_lookup e) (invite_params r p name) db"
    and "be_lookup e = Some (Some (i, iv_contactId r))" "iv_contactId r \<noteq> []" "a \<noteq> []"
    and "find_channel t a db = Some x" "cc_status x \<noteq> ChBlocked"
  shows "\<exists>out db' y. bindRedemption e r p name db = (EngineDone out, db') \<and> oc_contactId out = iv_contactId r \<and>
    find_channel t a db' = Some y \<and> cc_status y = ChActive \<and> cc_contactId y = cc_contactId x \<and>
    sender_class t (Some a) db' = (if guardian_contact (cc_contactId x) db then ClsGuardian else ClsTrusted)"
proof -
  have free: "gatewayChannelStatus t a db \<noteq> Some ChBlocked" using assms(8,9) by (simp add: gatewayChannelStatus_def)
  have owner: "bound_owner (be_contactUuid e) (given (be_lookup e) None) (invite_params r p name) (find_channel t a db) = cc_contactId x"
    using assms(5,6,8) by (simp add: bound_owner_def invite_params_def given_def)
  from redemption_core [OF assms(3,4), folded t_def a_def, OF assms(7) free] show ?thesis
    unfolding owner by (auto simp: redeemed_outcome_def)
qed

section \<open>From the mint to the redemption\<close>

lemma nat_string_length_eq: "10 ^ d \<le> n \<Longrightarrow> n < 10 ^ Suc d \<Longrightarrow> length (nat_string n) = Suc d"
proof (induction d arbitrary: n)
  case (Suc d)
  then have "10 ^ d \<le> n div 10" "n div 10 < 10 ^ Suc d" by (simp_all add: less_mult_imp_div_less less_eq_div_iff_mult_less_eq)
  moreover have "\<not> n < 10"
  proof -
    have "(1 :: nat) \<le> 10 ^ d" by simp
    with Suc.prems(1) show ?thesis unfolding power_Suc by linarith
  qed
  ultimately show ?case using Suc.IH [of "n div 10"] by (subst nat_string.simps) simp
qed (subst nat_string.simps, simp)

lemma generated_code: "\<exists>code. generateInviteCode 6 draw = Some code \<and> invite_code code"
proof -
  let ?n = "10 ^ 5 + draw mod (10 ^ 6 - 10 ^ 5) :: nat"
  have "draw mod 900000 < 900000" by simp
  then have "length (nat_string ?n) = Suc 5" by (intro nat_string_length_eq) simp_all
  then show ?thesis by (simp add: generateInviteCode_def invite_code_def nat_string_digits)
qed

text \<open>Messages that carry a code, with blanks around it or above a quoted mail, and messages that carry a link.\<close>

definition carries_code :: "invite_message \<Rightarrow> string \<Rightarrow> bool" where
  "carries_code m code \<longleftrightarrow>
     map_option fst (im_command m) \<noteq> Some ''start'' \<and>
     (if im_channel m = ''email''
      then (\<exists>quoted. im_content m = code @ CHR 0x0A # quoted \<and> quote_begins False (hd (split_lines quoted)))
      else (\<exists>ws ws'. im_content m = ws @ code @ ws' \<and> list_all js_space ws \<and> list_all js_space ws'))"

definition carries_link :: "invite_message \<Rightarrow> string \<Rightarrow> bool" where
  "carries_link m token \<longleftrightarrow>
     token \<noteq> [] \<and> list_all (\<lambda>c. \<not> js_space c) token \<and> im_channel m \<noteq> ''email'' \<and>
     (im_command m = Some (''start'', Some (''iv_'' @ token)) \<or> (im_command m = None \<and> im_content m = ''/start iv_'' @ token))"

lemma trim_around:
  assumes "s \<noteq> []" "list_all (\<lambda>c. \<not> js_space c) s" "list_all js_space ws" "list_all js_space ws'"
  shows "js_trim (ws @ s @ ws') = s"
proof -
  have "\<not> js_space (hd s)" "\<not> js_space (last s)" using assms(1,2) by (simp_all add: list_all_iff)
  with assms show ?thesis unfolding js_trim_def by (intro strip_around) auto
qed

lemma invite_code_plain:
  assumes "invite_code code"
  shows "code \<noteq> []" "list_all (\<lambda>c. \<not> js_space c) code" "code_shape code" "start_token code = None"
proof -
  have digits: "list_all ascii_digit code" and len: "length code = 6" using assms by (auto simp: invite_code_def)
  then show "code \<noteq> []" "code_shape code" by (auto simp: code_shape_def)
  then show "list_all (\<lambda>c. \<not> js_space c) code"
    using code_shape_plain hex_char_plain by (metis list_all_iff)
  have "\<not> starts_with ''/start'' code" using digits by (auto simp: starts_with_iff ascii_digit_def)
  then show "start_token code = None" by (simp add: start_token_def without_prefix_def)
qed

lemma code_attempt:
  assumes "invite_code code" "carries_code m code"
  shows "invite_attempt m = Some (Inr code)"
proof -
  note plain = invite_code_plain [OF assms(1)]
  have "js_trim (if im_channel m = ''email'' then extractEmailReplyBody (im_content m) else im_content m) = code"
  proof (cases "im_channel m = ''email''")
    case True
    with assms(2) extract_first_line [OF plain(3)] trim_around [OF plain(1,2), of "[]" "[]"] show ?thesis
      by (auto simp: carries_code_def)
  next
    case False
    with assms(2) trim_around [OF plain(1,2)] show ?thesis by (auto simp: carries_code_def)
  qed
  moreover have "extractInviteToken (im_command m) code = None"
    using assms(2) plain(4) by (auto simp: carries_code_def extractInviteToken_def)
  ultimately show ?thesis using assms(1) by (simp add: invite_attempt_def)
qed

lemma link_attempt:
  assumes "carries_link m token"
  shows "invite_attempt m = Some (Inl token)"
proof -
  have token: "token \<noteq> []" "list_all (\<lambda>c. \<not> js_space c) token" "im_channel m \<noteq> ''email''" using assms by (auto simp: carries_link_def)
  have "js_trim token = token" using trim_around [OF token(1,2), of "[]" "[]"] by simp
  moreover have "without_prefix INVITE_TOKEN_PREFIX (''iv_'' @ token) = Some token"
    by (simp add: without_prefix_def INVITE_TOKEN_PREFIX_def starts_with_def)
  moreover have "js_trim (''/start iv_'' @ token) = ''/start iv_'' @ token"
  proof -
    have "rev (dropWhile js_space (rev token @ c)) = rev c @ token" for c
      using token by (cases "rev token") (auto simp: list_all_iff rev_eq_Cons_iff)
    then show ?thesis by (simp add: js_trim_def js_space_def)
  qed
  moreover have "start_token (''/start iv_'' @ token) = Some token"
    using token(2) by (simp add: start_token_def without_prefix_def starts_with_def INVITE_TOKEN_PREFIX_def js_space_def list_all_iff takeWhile_eq_all_conv)
  ultimately show ?thesis
    using assms token by (auto simp: carries_link_def invite_attempt_def extractInviteToken_def Let_def)
qed

lemma begin_redemption_claims:
  assumes "r \<in> set (is_rows st)" "iv_status r = InvActive" "of_int now < iv_expiresAt r" "of_nat (iv_useCount r) < iv_maxUses r"
    and "iv_sourceChannel r = rp_sourceChannel p" "existing_member p r (is_directory st) = None"
  shows "\<exists>name st'. beginRedemption now r p st = (RedemptionClaimed r p name, st')"
proof -
  have "list_ex (active_invite (iv_id r)) (is_rows st)" using assms(1,2) by (auto simp: list_ex_iff active_invite_def)
  then show ?thesis
    using assms by (simp add: beginRedemption_def ensureInviteLive_def recordInviteRedemption_def Let_def)
qed

text \<open>A minted code or link is recognised in the first message that carries it, and claims the invite.\<close>

theorem minted_invite_redeems:
  assumes minted: "createInviteNative hash uuid rawToken draw p now st = (Inr payload, st1)" "valid_input p"
    and channel: "ci_sourceChannel p = im_channel m" "isInviteCodeRedemptionEnabled (im_channel m)"
    and carried: "(cr_inviteCode payload = Some code \<and> carries_code m code) \<or> carries_link m rawToken"
    and fresh: "\<forall>r \<in> set (is_rows st). iv_tokenHash r \<noteq> Some (hash rawToken)"
      "\<forall>r \<in> set (is_rows st). \<forall>c. cr_inviteCode payload = Some c \<longrightarrow> iv_inviteCodeHash r \<noteq> hash c"
      "\<forall>c. cr_inviteCode payload = Some c \<longrightarrow> hash c \<noteq> NO_INVITE_CODE_HASH"
    and sender: "redeeming_stranger verdict" "im_chat m \<noteq> []" "\<forall>r. existing_member (message_params m) r (is_directory st) = None"
    and time: "of_int now' < cr_expiresAt payload"
  shows "\<exists>r name st2. beginIntercept hash now' verdict m st1 = (Some (RedemptionClaimed r (message_params m) name), st2) \<and>
    iv_id r = uuid \<and> iv_contactId r = ci_contactId p"
proof -
  from generated_code [of draw] obtain c0 where c0: "generateInviteCode 6 draw = Some c0" "invite_code c0" by blast
  from minted(1) obtain c where "createInvite (new_invite hash uuid rawToken c0 p c now) st = Some st1"
    and payload: "payload = created_payload rawToken c0 (new_invite hash uuid rawToken c0 p c now)"
    by (rule createInviteNative_cases) (simp add: c0 given_def)
  moreover define r where "r = new_invite hash uuid rawToken c0 p c now"
  ultimately have rows: "is_rows st1 = is_rows st @ [r]" and "channelRows (is_directory st1) = channelRows (is_directory st)"
    by (auto simp: createInvite_def split: if_splits)
  from this(2) have "existing_member q x (is_directory st1) = existing_member q x (is_directory st)" for q x
    unfolding existing_member_def find_channel_def getGatewayChannelByExternalChatId_def by (simp only:)
  note st1 = rows this
  have phone: "ci_sourceChannel p \<noteq> ''phone''" using channel by (auto simp: isInviteCodeRedemptionEnabled_def INVITE_CODE_REDEMPTION_CHANNELS_def)
  have code0: "cr_inviteCode payload = Some c0" using phone by (simp add: payload created_payload_def)
  have ident: "has_identity (message_params m)" using sender(2) by (simp add: has_identity_def message_params_def non_empty_def)
  have claims: "\<exists>name st2. beginRedemption now' r (message_params m) st1 = (RedemptionClaimed r (message_params m) name, st2)"
  proof (rule begin_redemption_claims)
    show "of_int now' < iv_expiresAt r" using time by (simp add: payload r_def created_expiry)
    show "of_nat (iv_useCount r) < iv_maxUses r" using minted(2) by (simp add: r_def valid_input_def)
  qed (use sender(3) channel(1) in \<open>simp_all add: st1, simp_all add: r_def message_params_def\<close>)
  from carried consider (code) "carries_code m c0" | (link) "carries_link m rawToken" using code0 by auto
  then show ?thesis
  proof cases
    case code
    have "find (\<lambda>r. iv_inviteCodeHash r = hash c0 \<and> iv_sourceChannel r = im_channel m \<and> iv_status r = InvActive) (is_rows st) = None"
      using fresh(2) code0 by (auto simp: find_None_iff)
    then have "findInviteByCodeHash (hash c0) (im_channel m) (is_rows st1) = Some r"
      using fresh(3) code0 phone channel(1) by (simp add: findInviteByCodeHash_def st1 find_append r_def)
    then have "beginIntercept hash now' verdict m st1 = map_prod Some id (beginRedemption now' r (message_params m) st1)"
      using code_attempt [OF c0(2) code] channel(2) sender(1) ident by (simp add: beginIntercept_def beginByCode_def message_params_def)
    with claims show ?thesis by (auto simp: r_def)
  next
    case link
    have "find (\<lambda>r. iv_tokenHash r = Some (hash rawToken)) (is_rows st) = None" using fresh(1) by (auto simp: find_None_iff)
    then have "findInviteByTokenHash (hash rawToken) (is_rows st1) = Some r"
      using phone by (simp add: findInviteByTokenHash_def st1 find_append r_def)
    then have "beginIntercept hash now' verdict m st1 = map_prod Some id (beginRedemption now' r (message_params m) st1)"
      using link_attempt [OF link] channel(2) sender(1) ident by (simp add: beginIntercept_def beginByToken_def)
    with claims show ?thesis by (auto simp: r_def)
  qed
qed

text \<open>Only a sender that a verdict calls a stranger redeems anything by message: for everyone else, and for a sender the channel
  does not vouch for, the stage passes the message on and changes nothing.\<close>

lemma only_strangers_redeem:
  "\<not> redeeming_stranger verdict \<or> senderAuthenticated = Some False \<Longrightarrow>
     inviteStage hash now carries senderAuthenticated verdict m st = (None, st)"
  by (auto simp: inviteStage_def beginIntercept_def split: option.split)

section \<open>A run\<close>

definition demo_invite_input :: create_input where
  "demo_invite_input = \<lparr>ci_contactId = ''c'', ci_sourceChannel = ''slack'', ci_note = None, ci_maxUses = None, ci_expiresInMs = None,
     ci_expectedExternalUserId = None, ci_guardianName = None, ci_sourceConversationId = None\<rparr>"

definition demo_row :: invite_row where
  "demo_row = new_invite (\<lambda>x. x) ''i1'' ''tok'' ''100023'' demo_invite_input
     (hd (contactRows (one_channel RoleContact None ChActive))) 0"

definition demo_invites :: invite_state where
  "demo_invites = \<lparr>is_rows = [demo_row], is_directory = one_channel RoleContact None ChActive\<rparr>"

definition demo_stranger :: redeem_params where
  "demo_stranger = \<lparr>rp_sourceChannel = ''slack'', rp_externalUserId = Some ''U2'', rp_externalChatId = Some ''D2'', rp_displayName = None,
     rp_username = None\<rparr>"

lemma demo_row_fields:
  "iv_id demo_row = ''i1''" "iv_status demo_row = InvActive" "iv_useCount demo_row = 0" "iv_maxUses demo_row = 1"
  "iv_sourceChannel demo_row = ''slack''" "iv_inviteCodeHash demo_row = ''100023''" "(of_int 5 :: rat) < iv_expiresAt demo_row"
  "iv_contactId demo_row = ''c''"
  by (simp_all add: demo_row_def demo_invite_input_def given_def DEFAULT_INVITE_EXPIRY_MS_def)

lemma demo_stranger_new: "existing_member demo_stranger r (one_channel RoleContact None ChActive) = None"
proof -
  have "canonical_user demo_stranger = Some ''U2''" "find_channel ''slack'' ''U2'' (one_channel RoleContact None ChActive) = None" by code_simp+
  then show ?thesis by (simp add: existing_member_def demo_stranger_def)
qed

lemma demo_claim:
  "\<exists>name st'. begin_request (\<lambda>x. x) 5 (CodeRequest ''100023'' demo_stranger) demo_invites = (Some (RedemptionClaimed demo_row demo_stranger name), st')"
proof -
  have "\<exists>name st'. beginRedemption 5 demo_row demo_stranger demo_invites = (RedemptionClaimed demo_row demo_stranger name, st')"
    by (rule begin_redemption_claims)
      (use demo_row_fields(7) in \<open>simp_all add: demo_invites_def demo_row_fields demo_stranger_new, simp_all add: demo_stranger_def\<close>)
  moreover have "begin_request (\<lambda>x. x) 5 (CodeRequest ''100023'' demo_stranger) demo_invites =
      map_prod Some id (beginRedemption 5 demo_row demo_stranger demo_invites)"
    by (simp add: begin_request_def beginByCode_def has_identity_def non_empty_def demo_stranger_def findInviteByCodeHash_def
        NO_INVITE_CODE_HASH_def demo_invites_def demo_row_fields)
  ultimately show ?thesis by auto
qed

theorem invite_uses_bounded_witness:
  "count_list [EvClaimed ''i1''] (EvClaimed ''i1'') \<le> uses_remaining ''i1'' (is_rows demo_invites) \<and>
   uses_remaining ''i1'' (is_rows demo_invites) = 1"
proof
  obtain name st' where "begin_request (\<lambda>x. x) 5 (CodeRequest ''100023'' demo_stranger) demo_invites =
      (Some (RedemptionClaimed demo_row demo_stranger name), st')" using demo_claim by blast
  then have "invite_run False [EvClaimed ''i1''] demo_invites st'"
    using invite_step.claim demo_row_fields(1) by (metis invite_run.stop invite_run.step)
  moreover have "invites_ok (is_rows demo_invites)" by (simp add: invites_ok_def demo_invites_def demo_row_fields)
  ultimately show "count_list [EvClaimed ''i1''] (EvClaimed ''i1'') \<le> uses_remaining ''i1'' (is_rows demo_invites)"
    by (rule invite_uses_bounded) simp
  show "uses_remaining ''i1'' (is_rows demo_invites) = 1"
    by (simp add: uses_remaining_def getInviteById_def uses_left_def demo_invites_def demo_row_fields)
qed

end
