(* ===== verification/Spec2Isabelle.thy ===== *)
theory Spec2Isabelle
  imports Dedup_Cache Rate_Limiters Ipc_Framing History_Repair Sandbox_Approval Tool_Execution Pairing_Challenges Edge_Auth Inbound_Trust Verification_Flows Invites
begin

text \<open>
  Verification of the decisions the Vellum assistant makes about trust: whose messages reach it, what a token is good for,
  which tool calls run, and the stores and protocols these rest on.

  \<^bold>\<open>The program.\<close> A gateway (\<^verbatim>\<open>src/gateway\<close>) faces the network: channels (messengers, mail, phone),
  web and desktop clients. It owns the directory of contacts, the tokens, the floors, the trust rules, the thresholds and the
  permission matrix. A daemon (\<^verbatim>\<open>src/assistant\<close>) runs the conversations and the tools; the two talk over IPC and
  an HTTP proxy. A message goes: dedup cache, limiter, verdict of the directory, access list and floor, conversation; its
  history is repaired for the provider; each tool call passes gates, grants, classification, thresholds and the user.

  \<^bold>\<open>Theories\<close>, with the sources they translate (\<^verbatim>\<open>gateway/\<close> for
  \<^verbatim>\<open>src/gateway/src\<close>, \<^verbatim>\<open>assistant/\<close> for \<^verbatim>\<open>src/assistant/src\<close>,
  \<^verbatim>\<open>packages/\<close> for \<^verbatim>\<open>src/packages\<close>). State is a record with the fields of the class or the
  rows of the table, an operation a function of the same name; where it awaits between a check and a write it is two.

  \<^item> \<open>Prelude\<close>: lists, maps kept in insertion order, row updates, JavaScript's strings, runs of a step relation.
  \<^item> \<open>Dedup_Cache\<close> (\<^verbatim>\<open>gateway/dedup-cache.ts\<close>), \<open>Rate_Limiters\<close>, \<open>Ipc_Framing\<close>
    (\<^verbatim>\<open>packages/ipc-server-utils\<close>), \<open>History_Repair\<close> (\<^verbatim>\<open>assistant/agent/history-repair\<close>):
    at-most-once handling, exact limits, framing round trip for any cutting of the bytes, valid histories.
  \<^item> \<open>Contacts\<close>, \<open>Guardian_Bindings\<close> (\<^verbatim>\<open>gateway/db/contact-store.ts\<close>,
    \<^verbatim>\<open>gateway/verification\<close>, \<^verbatim>\<open>gateway/auth/guardian-bootstrap.ts\<close>), \<open>Contact_Directory\<close>: the
    two tables, every write on them and the writes as a transition system: consistency of the tables, blocks that stand,
    provenance that is not lowered, the source of the guardian's principal.
  \<^item> \<open>Admission_Policy\<close> (\<^verbatim>\<open>gateway/db/admission-policy-store.ts\<close> and its cache) and
    \<open>Inbound_Trust\<close> (\<^verbatim>\<open>gateway/risk/trust-verdict-resolver.ts\<close>,
    \<^verbatim>\<open>assistant/runtime/trust-verdict-consumer.ts\<close> and the inbound stages): the exact condition under which a
    message reaches the assistant, over both processes.
  \<^item> \<open>Verification_Sessions\<close> (\<^verbatim>\<open>gateway/db/session-store.ts\<close>,
    \<^verbatim>\<open>gateway/verification/rate-limit-helpers.ts\<close>, \<^verbatim>\<open>code-parsing.ts\<close>) and
    \<open>Verification_Flows\<close> (\<^verbatim>\<open>session-service.ts\<close>, \<^verbatim>\<open>text-verification.ts\<close>,
    \<^verbatim>\<open>gateway/voice/verification.ts\<close>): codes that prove an address, redeemed once over IPC, text and voice in
    any interleaving, with few guesses between two accepted codes, and the directory they write to: only its own transitions,
    and a block is lifted only where a code binds the guardian's blocked contact to a new address.
  \<^item> \<open>Invites\<close> (\<^verbatim>\<open>gateway/verification/invite-redemption.ts\<close>, \<^verbatim>\<open>gateway/http/routes\<close>, the store
    of invites): minting, redemption by code, link and voice, the intercept; claims bounded by the uses, what a redemption grants,
    that a minted code is recognised and redeemed.
  \<^item> \<open>Auth_Tokens\<close>, \<open>Device_Tokens\<close>, \<open>Route_Match\<close>, \<open>Edge_Auth\<close>
    (\<^verbatim>\<open>gateway/auth\<close>, \<^verbatim>\<open>gateway/http\<close>, \<^verbatim>\<open>assistant/runtime/auth\<close>):
    minting, verification, exchange, rotation, revocation, the two routers, the guards and proxies. The two transports agree,
    credentials are redeemed once, revoked devices stay out.
  \<^item> \<open>Pairing_Challenges\<close> (\<^verbatim>\<open>gateway/remote-web\<close>): device codes on a heap of shared objects.
  \<^item> \<open>Posix_Paths\<close>, \<open>Arg_Parser\<close>, \<open>Trust_Rules\<close>, \<open>Bash_Risk\<close>,
    \<open>Sandbox_Approval\<close> (\<^verbatim>\<open>gateway/risk\<close>, \<^verbatim>\<open>gateway/db/trust-rule-store.ts\<close>): the risk of
    a command against its segments, user rules, sandbox approval inside the workspace.
  \<^item> \<open>Channel_Permissions\<close>, \<open>Thresholds\<close>, \<open>Workspace_Policy\<close>, \<open>Approval_Policy\<close>
    (\<^verbatim>\<open>packages/gateway-client\<close>, \<^verbatim>\<open>assistant/permissions\<close>): the threshold of a turn with its
    caches, and the decision to allow, prompt or deny.
  \<^item> \<open>Scoped_Grants\<close>, \<open>Tool_Gate\<close>, \<open>Tool_Execution\<close> (\<^verbatim>\<open>assistant/approvals\<close>,
    \<^verbatim>\<open>assistant/tools\<close>): the gates of an invocation, grants that are spent once under any interleaving of connections,
    and the composition up to the call of the tool with the grounds on which it may run.

  \<^bold>\<open>Lemmas.\<close> Each theory proves the laws of its operations first: an invariant with one preservation lemma per
  operation (collected in \<open>directory_intros\<close>, \<open>blocked_intros\<close> and their like), the branches of each
  operation, and where a reference exists the equivalence with it. Interfaces are locales (\<open>ordered_map\<close> for maps in
  insertion order, \<open>reservation\<close> for the caches, \<open>invariant_system\<close> for the transition systems,
  \<open>buffer_codec\<close> for the encoding of tokens, \<open>weakened_rows\<close> for the token tables, \<open>cell_matrix\<close> for
  the permission matrix), interpreted on the model's own operations. Properties (C1 to C40) compose
  these over runs.

  \<^bold>\<open>Bounds and fuel.\<close> The only fuel is the code's own: the walk through wrappers in
  \<open>Sandbox_Approval\<close> stops at \<open>MAX_WRAPPER_DEPTH\<close>, the compare-and-swap of the grants after
  \<open>MAX_CAS_RETRIES\<close>, so nothing is cut off that the code does not cut off. The classifier's recursion into wrappers,
  the reader of frames, the routers' decoding and the walks up a path have a measure. Three loops wait for something outside:
  the drawing of a fresh pairing code, the poll for a grant and the poll for a guardian's decision; they are partial
  functions, so not returning is a value, and what makes the polls return is proved.

  \<^bold>\<open>Parameters.\<close> What is not under the sources, or only called, is an argument: the shell parser, the command
  registry and its regular expressions, the codec of frames and of claims, the keyed digest and hashes, random values, the
  clock, the file system, the answers of the other process over IPC, the outcome of a notification. Laws assumed of them are
  hypotheses, with a concrete instance in the witness.

  \<^bold>\<open>Not modelled.\<close> The conversation loop, the streaming of providers, persistence of messages, memory, voice,
  schedules, workflows, notifications and the clients: mostly I/O and orchestration around the decisions above, or user
  interface. The requests to the guardian, the shell parser and the other
  classifiers are logic of their own that this development only meets at its interface. JavaScript's case mapping is taken
  on ASCII letters, and a regular expression is written out where it is fixed and a parameter where it is data.
\<close>

end
